(* ===== verification/Prelude.thy ===== *)
theory Prelude
  imports Main "HOL-Library.AList" "HOL-Library.List_Lexorder" "HOL-Library.Char_ord"
    "HOL-Library.Product_Lexorder"
begin

text \<open>
  The vocabulary every component shares: Go's error values as one datatype, results as sums,
  the two monadic sequencers (pure results, results over a state), folds that stop at the first
  error, and the generic facts about them.  The collections \<open>preserves_intros\<close> and
  \<open>res_simps\<close> are what the component theories feed their facts into.
\<close>

named_theorems res_simps "unfolding rules of the result combinators"
named_theorems preserves_intros "rules that carry a state invariant through a stateful program"

section \<open>Errors\<close>

text \<open>
  The package-level error variables of the repository (\<open>var ErrX = errors.New(...)\<close>), by
  their Go names.
\<close>

datatype sentinel =
    ErrNotFound | ErrOAuthNotConsumable | ErrRuleCycle | ErrJobLeaseLost
  | ErrCalendarSyncIneligible | ErrCacheExecutionIneligible | ErrProjectionSnapshotUnavailable
  | ErrMappingConflict | ErrSyncControlConflict | ErrRuleConfigChanged
  | ErrCalendarSelectionUnavailable | ErrWriteDispatchBlocked | ErrProviderMutationOutcomeUnknown
  | ErrMissingSeriesMapping | ErrUnsafeTargetAttendees | ErrUnsafeRecurringSync
  | ErrPendingCreateUnresolved | ErrPendingTargetMutation | ErrDispatchFenceUnavailable
  | ErrCacheTargetUnverified | ErrExclusiveDispatchConflict | ErrProjectionMutationManyConflict
  | ErrProjectionMutationLimit | ErrCalendarSyncActive | ErrConnectionInUse | ErrSchemaMismatch
  | ErrInvalidSyncCode | ErrEventSyncRepairETagMismatch | ErrCalendarSyncLeaseLost
  | ErrProjectionPageStage | ErrProjectionPageAlreadyStaged | ErrProjectionSnapshotStale
  | ErrProjectionSnapshotLimit | ErrProjectionSnapshotAlreadyPublished | ErrProjectionFinalizerRequired
  | ErrCapabilityUnavailable | ErrInvalidPage | ErrRepeatedPage | ErrPageLimit | ErrResetLimit
  | ErrProviderFailure | ErrStorageFailure

text \<open>
  A Go error value: a text (\<open>errors.New\<close>, \<open>fmt.Errorf\<close>; only the constant part of
  the message is kept), a text that wraps a cause (\<open>%w\<close>), two joined causes
  (\<open>%w: %w\<close>), a package-level variable, an error of code outside the repository (a driver,
  a provider, a context), the wrappers the code declares as types (an \<open>EventSyncError\<close> with its class
  and \<open>RetryAfter\<close>), and \<open>NoReturn\<close>, which no
  Go code produces: it marks a page loop that used up the model's fuel.
\<close>

datatype err =
    ErrText string
  | ErrWrap string err
  | ErrJoin err err
  | Sentinel sentinel
  | ErrExt string
  | ErrAPI string err
  | ErrNoDispatch err
  | ErrRecurrenceCompat err
  | ErrFailure string err
  | ErrEventSync string int err
  | NoReturn

text \<open>\<open>errors.Is\<close> against a package-level variable: search the chain of causes.\<close>

primrec err_is :: "err \<Rightarrow> sentinel \<Rightarrow> bool" where
  "err_is (ErrText m) s = False"
| "err_is (ErrWrap m e) s = err_is e s"
| "err_is (ErrJoin e f) s = (err_is e s \<or> err_is f s)"
| "err_is (Sentinel t) s = (t = s)"
| "err_is (ErrExt m) s = False"
| "err_is (ErrAPI c e) s = err_is e s"
| "err_is (ErrNoDispatch e) s = err_is e s"
| "err_is (ErrRecurrenceCompat e) s = err_is e s"
| "err_is (ErrFailure st e) s = err_is e s"
| "err_is (ErrEventSync c r e) s = err_is e s"
| "err_is NoReturn s = False"

type_synonym 'a res = "err + 'a"

section \<open>Pure results\<close>

definition bind_res :: "'e + 'a \<Rightarrow> ('a \<Rightarrow> 'e + 'b) \<Rightarrow> 'e + 'b" where
  "bind_res r f = (case r of Inl e \<Rightarrow> Inl e | Inr x \<Rightarrow> f x)"

lemma bind_res_simps [simp, res_simps]:
  "bind_res (Inl e) f = Inl e" "bind_res (Inr x) f = f x"
  by (simp_all add: bind_res_def)

lemma bind_res_Inr_iff: "bind_res r f = Inr y \<longleftrightarrow> (\<exists>x. r = Inr x \<and> f x = Inr y)"
  by (cases r) simp_all

lemma bind_res_InrE [elim!]:
  assumes "bind_res r f = Inr y"
  obtains x where "r = Inr x" "f x = Inr y"
  using assms by (auto simp: bind_res_Inr_iff)

definition map_err :: "('e \<Rightarrow> 'f) \<Rightarrow> 'e + 'a \<Rightarrow> 'f + 'a" where
  "map_err h r = (case r of Inl e \<Rightarrow> Inl (h e) | Inr x \<Rightarrow> Inr x)"

lemma map_err_simps [simp, res_simps]:
  "map_err h (Inl e) = Inl (h e)" "map_err h (Inr x) = Inr x"
  by (simp_all add: map_err_def)

lemma map_err_Inr_iff [simp]: "map_err h r = Inr x \<longleftrightarrow> r = Inr x"
  by (cases r) simp_all

text \<open>A \<open>for range\<close> loop whose body may return an error.\<close>

fun fold_res :: "('a \<Rightarrow> 's \<Rightarrow> 'e + 's) \<Rightarrow> 'a list \<Rightarrow> 's \<Rightarrow> 'e + 's" where
  "fold_res f [] s = Inr s"
| "fold_res f (x # xs) s = (case f x s of Inl e \<Rightarrow> Inl e | Inr s' \<Rightarrow> fold_res f xs s')"

lemma fold_res_Cons_iff:
  "fold_res f (x # xs) s = Inr t \<longleftrightarrow> (\<exists>u. f x s = Inr u \<and> fold_res f xs u = Inr t)"
  by (auto split: sum.splits)

lemma fold_res_append:
  "fold_res f (xs @ ys) s = bind_res (fold_res f xs s) (fold_res f ys)"
  by (induction xs arbitrary: s) (auto split: sum.splits)

lemma fold_res_cong [fundef_cong]:
  "xs = ys \<Longrightarrow> s = t \<Longrightarrow> (\<And>x u. x \<in> set ys \<Longrightarrow> f x u = g x u) \<Longrightarrow>
   fold_res f xs s = fold_res g ys t"
  by (induction xs arbitrary: s t ys) (auto split: sum.splits)

text \<open>
  The loop rule: an invariant over the elements already consumed.
\<close>

lemma fold_res_invariant:
  assumes run: "fold_res f xs s = Inr t"
    and init: "I [] s"
    and step: "\<And>ys y zs u v. xs = ys @ y # zs \<Longrightarrow> I ys u \<Longrightarrow> f y u = Inr v \<Longrightarrow> I (ys @ [y]) v"
  shows "I xs t"
proof -
  have "I (ps @ qs) t" if "fold_res f qs u = Inr t" "I ps u" "xs = ps @ qs" for ps qs u
    using that
  proof (induction qs arbitrary: ps u)
    case Nil
    then show ?case by simp
  next
    case (Cons q qs)
    then obtain v where v: "f q u = Inr v" "fold_res f qs v = Inr t"
      by (auto split: sum.splits)
    have "I (ps @ [q]) v" using step [of ps q qs u v] Cons.prems v by simp
    with Cons.IH [of v "ps @ [q]"] v Cons.prems show ?case by simp
  qed
  from this [of xs s "[]"] run init show ?thesis by simp
qed

section \<open>Results over a state\<close>

text \<open>
  A handler that may change the state and may return an error: the state reached is kept in
  both cases, as the effects of a Go function that returns an error are.
\<close>

type_synonym ('s, 'a) prog = "'s \<Rightarrow> (err + 'a) \<times> 's"

definition ret :: "'a \<Rightarrow> ('s, 'a) prog" where
  "ret x = (\<lambda>s. (Inr x, s))"

definition fail :: "err \<Rightarrow> ('s, 'a) prog" where
  "fail e = (\<lambda>s. (Inl e, s))"

definition and_then :: "('s, 'a) prog \<Rightarrow> ('a \<Rightarrow> ('s, 'b) prog) \<Rightarrow> ('s, 'b) prog" where
  "and_then m k = (\<lambda>s. case m s of (Inl e, s') \<Rightarrow> (Inl e, s') | (Inr x, s') \<Rightarrow> k x s')"

definition wrap_fail :: "(err \<Rightarrow> err) \<Rightarrow> ('s, 'a) prog \<Rightarrow> ('s, 'a) prog" where
  "wrap_fail h m = (\<lambda>s. case m s of (Inl e, s') \<Rightarrow> (Inl (h e), s') | (Inr x, s') \<Rightarrow> (Inr x, s'))"

definition gets :: "('s \<Rightarrow> 'a) \<Rightarrow> ('s, 'a) prog" where
  "gets f = (\<lambda>s. (Inr (f s), s))"

definition modify :: "('s \<Rightarrow> 's) \<Rightarrow> ('s, unit) prog" where
  "modify f = (\<lambda>s. (Inr (), f s))"

definition lift_res :: "err + 'a \<Rightarrow> ('s, 'a) prog" where
  "lift_res r = (\<lambda>s. (r, s))"

fun for_each :: "('a \<Rightarrow> ('s, unit) prog) \<Rightarrow> 'a list \<Rightarrow> ('s, unit) prog" where
  "for_each f [] = ret ()"
| "for_each f (x # xs) = and_then (f x) (\<lambda>_. for_each f xs)"

lemma for_each_cong [fundef_cong]:
  "xs = ys \<Longrightarrow> (\<And>x. x \<in> set ys \<Longrightarrow> f x = g x) \<Longrightarrow> for_each f xs = for_each g ys"
  by (induction xs arbitrary: ys) auto

lemmas prog_defs [res_simps] =
  ret_def fail_def and_then_def wrap_fail_def gets_def modify_def lift_res_def

text \<open>What a value returned says of the steps before it.\<close>

lemma and_then_Inr_iff:
  "and_then m k s = (Inr y, s') \<longleftrightarrow> (\<exists>x s1. m s = (Inr x, s1) \<and> k x s1 = (Inr y, s'))"
  by (auto simp: and_then_def split: prod.splits sum.splits)

lemma wrap_fail_Inr_iff: "wrap_fail h m s = (Inr y, s') \<longleftrightarrow> m s = (Inr y, s')"
  by (auto simp: wrap_fail_def split: prod.splits sum.splits)

lemma ret_Inr_iff: "ret x s = (Inr y, s') \<longleftrightarrow> y = x \<and> s' = s"
  and lift_res_Inr_iff: "lift_res r s = (Inr y, s') \<longleftrightarrow> r = Inr y \<and> s' = s"
  and gets_Inr_iff: "gets f s = (Inr z, s') \<longleftrightarrow> z = f s \<and> s' = s"
  and fail_Inr_iff: "fail e s = (Inr y, s') \<longleftrightarrow> False"
  by (auto simp: prog_defs)

lemmas returns_iff = and_then_Inr_iff wrap_fail_Inr_iff ret_Inr_iff lift_res_Inr_iff gets_Inr_iff fail_Inr_iff

subsection \<open>Invariants of programs\<close>

text \<open>
  \<open>preserves I m\<close>: whatever \<open>m\<close> returns, error or value, \<open>I\<close> still holds of the
  state.  The rules follow the syntax of a program, so an invariant of a whole handler is
  \<open>intro preserves_intros\<close> down to the primitive operations.
\<close>

definition preserves :: "('s \<Rightarrow> bool) \<Rightarrow> ('s, 'a) prog \<Rightarrow> bool" where
  "preserves I m \<longleftrightarrow> (\<forall>s. I s \<longrightarrow> I (snd (m s)))"

lemma preservesI: "(\<And>s. I s \<Longrightarrow> I (snd (m s))) \<Longrightarrow> preserves I m"
  by (simp add: preserves_def)

lemma preservesD: "preserves I m \<Longrightarrow> I s \<Longrightarrow> I (snd (m s))"
  by (simp add: preserves_def)

lemma preserves_ret [preserves_intros]: "preserves I (ret x)"
  and preserves_fail [preserves_intros]: "preserves I (fail e)"
  and preserves_gets [preserves_intros]: "preserves I (gets f)"
  and preserves_lift_res [preserves_intros]: "preserves I (lift_res r)"
  by (simp_all add: preserves_def prog_defs)

lemma preserves_and_then [preserves_intros]:
  "preserves I m \<Longrightarrow> (\<And>x. preserves I (k x)) \<Longrightarrow> preserves I (and_then m k)"
  unfolding preserves_def and_then_def
  by (auto split: prod.splits sum.splits)

lemma preserves_wrap_fail [preserves_intros]:
  "preserves I m \<Longrightarrow> preserves I (wrap_fail h m)"
  unfolding preserves_def wrap_fail_def
  by (auto split: prod.splits sum.splits)

lemma preserves_if [preserves_intros]:
  "(b \<Longrightarrow> preserves I m) \<Longrightarrow> (\<not> b \<Longrightarrow> preserves I n) \<Longrightarrow> preserves I (if b then m else n)"
  by simp

lemma preserves_case_option [preserves_intros]:
  "(x = None \<Longrightarrow> preserves I m) \<Longrightarrow> (\<And>y. x = Some y \<Longrightarrow> preserves I (n y)) \<Longrightarrow>
   preserves I (case x of None \<Rightarrow> m | Some y \<Rightarrow> n y)"
  by (cases x) simp_all

lemma preserves_case_sum [preserves_intros]:
  "(\<And>e. x = Inl e \<Longrightarrow> preserves I (m e)) \<Longrightarrow> (\<And>y. x = Inr y \<Longrightarrow> preserves I (n y)) \<Longrightarrow>
   preserves I (case x of Inl e \<Rightarrow> m e | Inr y \<Rightarrow> n y)"
  by (cases x) simp_all

lemma preserves_case_prod [preserves_intros]:
  "(\<And>y z. x = (y, z) \<Longrightarrow> preserves I (m y z)) \<Longrightarrow> preserves I (case x of (y, z) \<Rightarrow> m y z)"
  by (cases x) simp

lemma preserves_Let [preserves_intros]:
  "(\<And>x. x = t \<Longrightarrow> preserves I (m x)) \<Longrightarrow> preserves I (Let t m)"
  by simp

lemma preserves_for_each:
  "(\<And>x. x \<in> set xs \<Longrightarrow> preserves I (f x)) \<Longrightarrow> preserves I (for_each f xs)"
  by (induction xs) (auto intro!: preserves_ret preserves_and_then)

lemma preserves_conj:
  "preserves I m \<Longrightarrow> preserves J m \<Longrightarrow> preserves (\<lambda>s. I s \<and> J s) m"
  by (simp add: preserves_def)

subsection \<open>Triples\<close>

text \<open>
  \<open>holds I P m Q\<close>: from a state with the invariant \<open>I\<close> and \<open>P\<close>, the program keeps
  \<open>I\<close> whatever it returns, and a value that it returns satisfies \<open>Q\<close> with the state reached.
\<close>

named_theorems triples "rules of the triples, from the outermost operation of a program inwards"

definition holds ::
  "('s \<Rightarrow> bool) \<Rightarrow> ('s \<Rightarrow> bool) \<Rightarrow> ('s, 'a) prog \<Rightarrow> ('a \<Rightarrow> 's \<Rightarrow> bool) \<Rightarrow> bool" where
  "holds I P m Q \<longleftrightarrow> (\<forall>s. I s \<longrightarrow> P s \<longrightarrow>
     I (snd (m s)) \<and> (\<forall>x. fst (m s) = Inr x \<longrightarrow> Q x (snd (m s))))"

lemma holdsI:
  "(\<And>s r s'. I s \<Longrightarrow> P s \<Longrightarrow> m s = (r, s') \<Longrightarrow> I s' \<and> (\<forall>x. r = Inr x \<longrightarrow> Q x s')) \<Longrightarrow> holds I P m Q"
  unfolding holds_def by (metis prod.collapse)

lemma holdsD:
  "holds I P m Q \<Longrightarrow> I s \<Longrightarrow> P s \<Longrightarrow> m s = (r, s') \<Longrightarrow> I s' \<and> (\<forall>x. r = Inr x \<longrightarrow> Q x s')"
  by (auto simp: holds_def)

lemma holds_weaken:
  "holds I P m Q \<Longrightarrow> (\<And>s. I s \<Longrightarrow> P' s \<Longrightarrow> P s) \<Longrightarrow> (\<And>x s. I s \<Longrightarrow> Q x s \<Longrightarrow> Q' x s) \<Longrightarrow> holds I P' m Q'"
  unfolding holds_def by blast

lemma holds_pre: "holds I P m Q \<Longrightarrow> (\<And>s. I s \<Longrightarrow> P' s \<Longrightarrow> P s) \<Longrightarrow> holds I P' m Q"
  unfolding holds_def by blast

lemma holds_and_then [triples]:
  assumes "holds I P m Q" and "\<And>x. holds I (Q x) (k x) R"
  shows "holds I P (and_then m k) R"
proof (rule holdsI)
  fix s r s' assume s: "I s" "P s" and run: "and_then m k s = (r, s')"
  obtain a s1 where a: "m s = (a, s1)" by fastforce
  show "I s' \<and> (\<forall>x. r = Inr x \<longrightarrow> R x s')"
  proof (cases a)
    case (Inl e)
    then show ?thesis using holdsD [OF assms(1) s a] run a by (auto simp: and_then_def)
  next
    case (Inr y)
    then have "k y s1 = (r, s')" using run a by (simp add: and_then_def)
    then show ?thesis using holdsD [OF assms(1) s a] holdsD [OF assms(2) [of y], of s1 r s'] Inr by blast
  qed
qed

lemma holds_ret [triples]: "holds I (Q x) (ret x) Q"
  and holds_fail [triples]: "holds I P (fail e) Q"
  by (simp_all add: holds_def prog_defs)

lemma holds_ret_pre: "(\<And>s. I s \<Longrightarrow> P s \<Longrightarrow> Q x s) \<Longrightarrow> holds I P (ret x) Q"
  by (simp add: holds_def prog_defs)

lemma holds_lift_res: "(\<And>x s. r = Inr x \<Longrightarrow> I s \<Longrightarrow> P s \<Longrightarrow> Q x s) \<Longrightarrow> holds I P (lift_res r) Q"
  by (simp add: holds_def prog_defs)

lemma holds_gets: "(\<And>s. I s \<Longrightarrow> P s \<Longrightarrow> Q (f s) s) \<Longrightarrow> holds I P (gets f) Q"
  by (simp add: holds_def prog_defs)

lemma holds_modify: "(\<And>s. I s \<Longrightarrow> P s \<Longrightarrow> I (f s) \<and> Q () (f s)) \<Longrightarrow> holds I P (modify f) Q"
  by (simp add: holds_def prog_defs)

lemma holds_wrap_fail [triples]: "holds I P m Q \<Longrightarrow> holds I P (wrap_fail h m) Q"
  unfolding holds_def wrap_fail_def by (auto split: prod.splits sum.splits)

lemma holds_false: "holds I (\<lambda>_. False) m Q"
  by (simp add: holds_def)

lemma holds_for_each:
  "(\<And>x. x \<in> set xs \<Longrightarrow> holds I (\<lambda>_. True) (f x) (\<lambda>_ _. True)) \<Longrightarrow>
   holds I (\<lambda>_. True) (for_each f xs) (\<lambda>_ _. True)"
proof (induction xs)
  case Nil
  then show ?case by (simp add: holds_def ret_def)
next
  case (Cons x xs)
  show ?case unfolding for_each.simps
    by (rule holds_and_then [where Q = "\<lambda>_ _. True"]) (use Cons in simp_all)
qed

lemma holds_keeps: "preserves I m \<Longrightarrow> holds I (\<lambda>_. True) m (\<lambda>_ _. True)"
  by (simp add: holds_def preserves_def)

section \<open>Lists, options and maps\<close>

lemma map_of_update_same [simp]: "map_of (AList.update k v xs) k = Some v"
  by (simp add: update_conv')

lemma map_of_update_other [simp]: "k \<noteq> j \<Longrightarrow> map_of (AList.update k v xs) j = map_of xs j"
  by (simp add: update_conv')

lemma map_of_delete [simp]: "map_of (AList.delete k xs) j = (if j = k then None else map_of xs j)"
  by (simp add: delete_conv')

text \<open>The first occurrences of a list under a key, as a map-backed \<open>seen\<close> loop keeps them.\<close>

lemma takeWhile_sep_unique:
  assumes "a @ c # b = a' @ c # b'" and "c \<notin> set a" and "c \<notin> set a'"
  shows "a = a' \<and> b = b'"
  using assms by (induction a arbitrary: a') (auto simp: append_eq_Cons_conv Cons_eq_append_conv)

lemma distinct_map_filterI: "distinct (map f xs) \<Longrightarrow> distinct (map f (filter P xs))"
  by (induction xs) auto

end
