(* ===== verification/Go_Strings.thy ===== *)
theory Go_Strings
  imports Prelude
begin

text \<open>
  The part of Go's \<open>strings\<close>, \<open>unicode/utf8\<close> and \<open>html\<close> packages the
  repository uses.  A Go string is a sequence of bytes, and so is HOL's \<open>string\<close>: a character
  is one byte.  Unicode's case tables are data of the Go distribution; they are the parameter
  \<open>unicode_case\<close>, consulted for runes from 128 on only.
\<close>

abbreviation NUL :: char where "NUL \<equiv> CHR 0x00"

section \<open>Bytes\<close>

definition has_prefix :: "string \<Rightarrow> string \<Rightarrow> bool" where
  "has_prefix s p \<longleftrightarrow> take (length p) s = p"

definition has_suffix :: "string \<Rightarrow> string \<Rightarrow> bool" where
  "has_suffix s p \<longleftrightarrow> length p \<le> length s \<and> drop (length s - length p) s = p"

text \<open>\<open>strings.Cut(s, sep)\<close> for a one-byte separator: before, after, found.\<close>

fun cut :: "char \<Rightarrow> string \<Rightarrow> string \<times> string \<times> bool" where
  "cut c [] = ([], [], False)"
| "cut c (x # xs) =
     (if x = c then ([], xs, True)
      else (case cut c xs of (b, a, f) \<Rightarrow> (x # b, a, f)))"

text \<open>\<open>strings.Split(s, sep)\<close> for a one-byte separator.\<close>

fun split_on :: "char \<Rightarrow> string \<Rightarrow> string list" where
  "split_on c [] = [[]]"
| "split_on c (x # xs) =
     (if x = c then [] # split_on c xs
      else (case split_on c xs of [] \<Rightarrow> [[x]] | p # ps \<Rightarrow> (x # p) # ps))"

fun join_with :: "string \<Rightarrow> string list \<Rightarrow> string" where
  "join_with sep [] = []"
| "join_with sep [p] = p"
| "join_with sep (p # ps) = p @ sep @ join_with sep ps"

definition contains_sub :: "string \<Rightarrow> string \<Rightarrow> bool" where
  "contains_sub s p \<longleftrightarrow> (\<exists>i \<le> length s. has_prefix (drop i s) p)"

lemma has_prefix_append [simp]: "has_prefix (p @ s) p"
  by (simp add: has_prefix_def)

lemma has_prefixD: "has_prefix s p \<Longrightarrow> s = p @ drop (length p) s"
  by (metis append_take_drop_id has_prefix_def)

lemma has_prefix_Nil [simp]: "has_prefix s []"
  by (simp add: has_prefix_def)

lemma cut_found: "cut c s = (b, a, True) \<Longrightarrow> s = b @ c # a \<and> c \<notin> set b"
  by (induction s arbitrary: b) (auto split: if_splits prod.splits)

lemma cut_not_found: "cut c s = (b, a, False) \<Longrightarrow> b = s \<and> a = [] \<and> c \<notin> set s"
  by (induction s arbitrary: b) (auto split: if_splits prod.splits)

lemma cut_append [simp]: "c \<notin> set b \<Longrightarrow> cut c (b @ c # a) = (b, a, True)"
  by (induction b) auto

lemma cut_none [simp]: "c \<notin> set s \<Longrightarrow> cut c s = (s, [], False)"
  by (induction s) auto

lemma split_on_nonempty [simp]: "split_on c s \<noteq> []"
  by (cases s) (auto split: list.splits)

lemma join_split_on: "join_with [c] (split_on c s) = s"
proof (induction s)
  case Nil
  show ?case by simp
next
  case (Cons x xs)
  obtain p ps where "split_on c xs = p # ps" by (meson neq_Nil_conv split_on_nonempty)
  with Cons show ?case by (cases ps) auto
qed

section \<open>Runes\<close>

definition rune_error :: nat where "rune_error = 0xFFFD"

definition is_cont :: "nat \<Rightarrow> bool" where
  "is_cont b \<longleftrightarrow> 0x80 \<le> b \<and> b \<le> 0xBF"

text \<open>
  \<open>utf8.DecodeRune\<close>: the first rune and its width; an invalid sequence is
  \<open>RuneError\<close> of width 1.  Overlong forms, surrogates and values above U+10FFFF are invalid.
\<close>

definition utf8_step :: "nat list \<Rightarrow> nat \<times> nat" where
  "utf8_step bs = (case bs of
       [] \<Rightarrow> (rune_error, 0)
     | b0 # t1 \<Rightarrow>
         if b0 < 0x80 then (b0, 1)
         else (case t1 of
             [] \<Rightarrow> (rune_error, 1)
           | b1 # t2 \<Rightarrow>
               if 0xC2 \<le> b0 \<and> b0 \<le> 0xDF \<and> is_cont b1
               then ((b0 - 0xC0) * 64 + (b1 - 0x80), 2)
               else (case t2 of
                   [] \<Rightarrow> (rune_error, 1)
                 | b2 # t3 \<Rightarrow>
                     if 0xE0 \<le> b0 \<and> b0 \<le> 0xEF \<and> is_cont b1 \<and> is_cont b2 \<and>
                        (b0 = 0xE0 \<longrightarrow> 0xA0 \<le> b1) \<and> (b0 = 0xED \<longrightarrow> b1 \<le> 0x9F)
                     then ((b0 - 0xE0) * 4096 + (b1 - 0x80) * 64 + (b2 - 0x80), 3)
                     else (case t3 of
                         [] \<Rightarrow> (rune_error, 1)
                       | b3 # t4 \<Rightarrow>
                           if 0xF0 \<le> b0 \<and> b0 \<le> 0xF4 \<and> is_cont b1 \<and> is_cont b2 \<and> is_cont b3 \<and>
                              (b0 = 0xF0 \<longrightarrow> 0x90 \<le> b1) \<and> (b0 = 0xF4 \<longrightarrow> b1 \<le> 0x8F)
                           then ((b0 - 0xF0) * 262144 + (b1 - 0x80) * 4096
                                 + (b2 - 0x80) * 64 + (b3 - 0x80), 4)
                           else (rune_error, 1)))))"

text \<open>A string as its runes, each with the bytes it was decoded from (\<open>for _, r := range s\<close>).\<close>

function utf8_chunks :: "string \<Rightarrow> (nat \<times> string) list" where
  "utf8_chunks [] = []"
| "utf8_chunks (c # cs) =
     (case utf8_step (map of_char (take 4 (c # cs))) of
        (r, w) \<Rightarrow> (r, take w (c # cs)) # utf8_chunks (drop (w - 1) cs))"
  by pat_completeness auto
termination by (relation "measure length") auto

definition utf8_decode :: "string \<Rightarrow> nat list" where
  "utf8_decode s = map fst (utf8_chunks s)"

text \<open>\<open>utf8.AppendRune\<close>: surrogates and runes out of range are encoded as U+FFFD.\<close>

definition utf8_encode_rune :: "nat \<Rightarrow> string" where
  "utf8_encode_rune r0 =
     (let r = (if r0 > 0x10FFFF \<or> (0xD800 \<le> r0 \<and> r0 \<le> 0xDFFF) then rune_error else r0) in
      map char_of
       (if r < 0x80 then [r]
        else if r < 0x800 then [0xC0 + r div 64, 0x80 + r mod 64]
        else if r < 0x10000 then [0xE0 + r div 4096, 0x80 + (r div 64) mod 64, 0x80 + r mod 64]
        else [0xF0 + r div 262144, 0x80 + (r div 4096) mod 64, 0x80 + (r div 64) mod 64,
              0x80 + r mod 64]))"

definition utf8_encode :: "nat list \<Rightarrow> string" where
  "utf8_encode rs = concat (map utf8_encode_rune rs)"

lemma utf8_step_width: "bs \<noteq> [] \<Longrightarrow> 1 \<le> snd (utf8_step bs)"
  by (auto simp: utf8_step_def split: list.splits if_splits)

lemma utf8_step_ascii: "b < 128 \<Longrightarrow> utf8_step (b # bs) = (b, 1)"
  by (simp add: utf8_step_def)

text \<open>Decoding loses nothing: the chunks concatenate to the string.\<close>

lemma utf8_chunks_concat: "concat (map snd (utf8_chunks s)) = s"
proof (induction s rule: utf8_chunks.induct)
  case 1
  show ?case by simp
next
  case (2 c cs)
  obtain r w where rw: "utf8_step (map of_char (take 4 (c # cs))) = (r, w)" by fastforce
  have "1 \<le> w" using utf8_step_width [of "map of_char (take 4 (c # cs))"] rw by simp
  then have "take w (c # cs) @ drop (w - 1) cs = c # cs"
    by (cases w) auto
  moreover have "concat (map snd (utf8_chunks (drop (w - 1) cs))) = drop (w - 1) cs"
    using "2.IH" [OF rw [symmetric]] .
  ultimately show ?case using rw by simp
qed

text \<open>\<open>utf8.ValidRune\<close>.\<close>

definition valid_rune :: "nat \<Rightarrow> bool" where
  "valid_rune r \<longleftrightarrow> r \<le> 0x10FFFF \<and> \<not> (0xD800 \<le> r \<and> r \<le> 0xDFFF)"

lemma utf8_step_2:
  "2 \<le> a \<Longrightarrow> a < 32 \<Longrightarrow> b < 64 \<Longrightarrow> utf8_step ((192 + a) # (128 + b) # t) = (a * 64 + b, 2)"
  by (simp add: utf8_step_def is_cont_def)

lemma utf8_step_3:
  "a < 16 \<Longrightarrow> b < 64 \<Longrightarrow> c < 64 \<Longrightarrow> (a = 0 \<Longrightarrow> 32 \<le> b) \<Longrightarrow> (a = 13 \<Longrightarrow> b < 32) \<Longrightarrow>
   utf8_step ((224 + a) # (128 + b) # (128 + c) # t) = (a * 4096 + b * 64 + c, 3)"
  by (cases "a = 0"; cases "a = 13") (simp_all add: utf8_step_def is_cont_def)

lemma utf8_step_4:
  "a \<le> 4 \<Longrightarrow> b < 64 \<Longrightarrow> c < 64 \<Longrightarrow> d < 64 \<Longrightarrow> (a = 0 \<Longrightarrow> 16 \<le> b) \<Longrightarrow> (a = 4 \<Longrightarrow> b < 16) \<Longrightarrow>
   utf8_step ((240 + a) # (128 + b) # (128 + c) # (128 + d) # t) =
   (a * 262144 + b * 4096 + c * 64 + d, 4)"
  by (cases "a = 0"; cases "a = 4") (simp_all add: utf8_step_def is_cont_def)

lemma rune_digits:
  fixes r :: nat
  obtains a b c d where "r = a * 262144 + b * 4096 + c * 64 + d" "b < 64" "c < 64" "d < 64"
    "r div 262144 = a" "r div 4096 = a * 64 + b" "r div 64 = a * 4096 + b * 64 + c"
    "r mod 64 = d" "r div 64 mod 64 = c" "r div 4096 mod 64 = b"
proof -
  define a b c d where abcd: "a = r div 262144" "b = r div 4096 mod 64" "c = r div 64 mod 64" "d = r mod 64"
  have e1: "r div 64 * 64 + d = r" unfolding abcd by simp
  have e2: "r div 4096 * 64 + c = r div 64"
    unfolding abcd using div_mult_mod_eq [of "r div 64" 64] by (simp add: div_mult2_eq [of r 64 64, simplified])
  have e3: "a * 64 + b = r div 4096"
    unfolding abcd using div_mult_mod_eq [of "r div 4096" 64] by (simp add: div_mult2_eq [of r 4096 64, simplified])
  have lt: "b < 64" "c < 64" "d < 64" unfolding abcd by simp_all
  show thesis
    by (rule that [of a b c d]) (use e1 e2 e3 lt abcd in linarith)+
qed

lemma utf8_step_encode:
  assumes "valid_rune r"
  shows "utf8_step (map of_char (take 4 (utf8_encode_rune r @ s))) = (r, length (utf8_encode_rune r))"
proof -
  have r: "r \<le> 0x10FFFF" "\<not> (0xD800 \<le> r \<and> r \<le> 0xDFFF)" using assms by (auto simp: valid_rune_def)
  obtain a b c d where dg: "r = a * 262144 + b * 4096 + c * 64 + d" "b < 64" "c < 64" "d < 64"
    "r div 262144 = a" "r div 4096 = a * 64 + b" "r div 64 = a * 4096 + b * 64 + c"
    "r mod 64 = d" "r div 64 mod 64 = c" "r div 4096 mod 64 = b"
    by (rule rune_digits [of r])
  have enc: "utf8_encode_rune r = map char_of
       (if r < 0x80 then [r]
        else if r < 0x800 then [0xC0 + r div 64, 0x80 + r mod 64]
        else if r < 0x10000 then [0xE0 + r div 4096, 0x80 + (r div 64) mod 64, 0x80 + r mod 64]
        else [0xF0 + r div 262144, 0x80 + (r div 4096) mod 64, 0x80 + (r div 64) mod 64, 0x80 + r mod 64])"
  proof -
    have nv: "(r > 0x10FFFF \<or> (0xD800 \<le> r \<and> r \<le> 0xDFFF)) = False" using r by auto
    show ?thesis unfolding utf8_encode_rune_def nv if_False Let_def by (rule refl)
  qed
  consider "r < 0x80" | "0x80 \<le> r" "r < 0x800" | "0x800 \<le> r" "r < 0x10000" | "0x10000 \<le> r"
    by linarith
  then show ?thesis
  proof cases
    case 1
    then show ?thesis using r by (simp add: utf8_encode_rune_def utf8_step_def)
  next
    case 2
    then have h0: "a = 0" "b = 0" using dg(1) by simp_all
    then have "128 \<le> c * 64 + d" "c * 64 + d < 2048" using 2 dg(1) by linarith+
    then have "2 \<le> c" "c < 32" using dg(4) by linarith+
    then have h: "a = 0" "b = 0" "2 \<le> c" "c < 32" using h0 by simp_all
    have "utf8_step ((192 + c) # (128 + d) # map of_char (take 2 s)) = (c * 64 + d, 2)"
      using h dg(4) by (intro utf8_step_2) simp_all
    then show ?thesis unfolding enc using 2 h dg by simp
  next
    case 3
    then have h0: "a = 0" using dg(1) by simp
    then have "b * 4096 + c * 64 + d < 65536" using 3 dg(1) by linarith
    then have h: "a = 0" "b < 16" using h0 by linarith+
    have "utf8_step ((224 + b) # (128 + c) # (128 + d) # map of_char (take 1 s)) = (b * 4096 + c * 64 + d, 3)"
    proof (rule utf8_step_3 [OF h(2) dg(3,4)])
      show "32 \<le> c" if "b = 0" using that h(1) dg(1,4) 3 by linarith
      have "r < 0xD800 \<or> 0xDFFF < r" using r(2) by auto
      then show "c < 32" if "b = 13" using that h(1) dg(1,3,4) by linarith
    qed
    then show ?thesis unfolding enc using 3 h dg by simp
  next
    case 4
    then have h: "a \<le> 4" using dg(1) r(1) by simp
    have "utf8_step ((240 + a) # (128 + b) # (128 + c) # (128 + d) # map of_char (take 0 s)) =
       (a * 262144 + b * 4096 + c * 64 + d, 4)"
    proof (rule utf8_step_4 [OF h dg(2-4)])
      show "16 \<le> b" if "a = 0" using that dg(1,3,4) 4 by linarith
      show "b < 16" if "a = 4" using that dg(1) r(1) by linarith
    qed
    then show ?thesis unfolding enc using 4 h dg by simp
  qed
qed

text \<open>Encoding a rune and decoding it gives the rune, or U+FFFD for what is no rune.\<close>

definition scalar :: "nat \<Rightarrow> nat" where
  "scalar r = (if valid_rune r then r else rune_error)"

lemma utf8_encode_rune_scalar: "utf8_encode_rune r = utf8_encode_rune (scalar r)"
  by (auto simp: utf8_encode_rune_def scalar_def valid_rune_def rune_error_def)

lemma utf8_decode_encode: "utf8_decode (utf8_encode rs) = map scalar rs"
proof (induction rs)
  case Nil
  then show ?case by (simp add: utf8_decode_def utf8_encode_def)
next
  case (Cons r rs)
  let ?e = "utf8_encode_rune r" and ?s = "utf8_encode rs"
  have "valid_rune (scalar r)" by (simp add: scalar_def valid_rune_def rune_error_def)
  then have step: "utf8_step (map of_char (take 4 (?e @ ?s))) = (scalar r, length ?e)"
    using utf8_step_encode [of "scalar r" ?s] utf8_encode_rune_scalar [of r] by simp
  obtain c cs where ne: "?e = c # cs"
    by (cases ?e) (auto simp: utf8_encode_rune_def Let_def split: if_splits)
  then have "utf8_chunks (?e @ ?s) = (scalar r, ?e) # utf8_chunks ?s" using step by simp
  then show ?case using Cons by (simp add: utf8_decode_def utf8_encode_def)
qed

definition ascii :: "string \<Rightarrow> bool" where
  "ascii s \<longleftrightarrow> (\<forall>c \<in> set s. of_char c < (128 :: nat))"

lemma utf8_chunks_ascii: "ascii s \<Longrightarrow> utf8_chunks s = map (\<lambda>c. (of_char c, [c])) s"
  by (induction s) (auto simp: ascii_def utf8_step_ascii)

section \<open>Case, white space\<close>

record unicode_case =
  rune_upper :: "nat \<Rightarrow> nat"
  rune_lower :: "nat \<Rightarrow> nat"

definition upper_rune :: "unicode_case \<Rightarrow> nat \<Rightarrow> nat" where
  "upper_rune U r = (if r < 128 then (if 97 \<le> r \<and> r \<le> 122 then r - 32 else r) else rune_upper U r)"

definition lower_rune :: "unicode_case \<Rightarrow> nat \<Rightarrow> nat" where
  "lower_rune U r = (if r < 128 then (if 65 \<le> r \<and> r \<le> 90 then r + 32 else r) else rune_lower U r)"

definition to_upper :: "unicode_case \<Rightarrow> string \<Rightarrow> string" where
  "to_upper U s = utf8_encode (map (upper_rune U) (utf8_decode s))"

definition to_lower :: "unicode_case \<Rightarrow> string \<Rightarrow> string" where
  "to_lower U s = utf8_encode (map (lower_rune U) (utf8_decode s))"

text \<open>\<open>unicode.IsSpace\<close>.\<close>

definition is_space :: "nat \<Rightarrow> bool" where
  "is_space r \<longleftrightarrow> (9 \<le> r \<and> r \<le> 13) \<or> r = 32 \<or> r = 0x85 \<or> r = 0xA0 \<or> r = 0x1680 \<or>
     (0x2000 \<le> r \<and> r \<le> 0x200A) \<or> r = 0x2028 \<or> r = 0x2029 \<or> r = 0x202F \<or> r = 0x205F \<or> r = 0x3000"

definition trim_space :: "string \<Rightarrow> string" where
  "trim_space s =
     concat (map snd (rev (dropWhile (\<lambda>x. is_space (fst x))
       (rev (dropWhile (\<lambda>x. is_space (fst x)) (utf8_chunks s))))))"

text \<open>\<open>strings.Fields\<close>: the maximal runs of runes that are not white space.\<close>

fun fields_of :: "(nat \<times> string) list \<Rightarrow> string \<Rightarrow> string list" where
  "fields_of [] acc = (if acc = [] then [] else [acc])"
| "fields_of ((r, bs) # cs) acc =
     (if is_space r then (if acc = [] then fields_of cs [] else acc # fields_of cs [])
      else fields_of cs (acc @ bs))"

definition fields :: "string \<Rightarrow> string list" where
  "fields s = fields_of (utf8_chunks s) []"

text \<open>
  \<open>strings.EqualFold(s, t)\<close> for an ASCII \<open>t\<close> without \<open>k\<close> and \<open>s\<close>: the two
  letters with a non-ASCII fold partner do not occur, so folding is ASCII folding.
\<close>

definition ascii_lower :: "char \<Rightarrow> char" where
  "ascii_lower c =
     (let n = (of_char c :: nat) in if 65 \<le> n \<and> n \<le> 90 then char_of (n + 32) else c)"

definition equal_fold_ascii :: "string \<Rightarrow> string \<Rightarrow> bool" where
  "equal_fold_ascii s t \<longleftrightarrow> map ascii_lower s = map ascii_lower t"

section \<open>html.EscapeString, strings.ReplaceAll\<close>

definition html_escape_char :: "char \<Rightarrow> string" where
  "html_escape_char c =
     (if c = CHR ''&'' then ''&amp;''
      else if c = CHR 0x27 then ''&#39;''
      else if c = CHR ''<'' then ''&lt;''
      else if c = CHR ''>'' then ''&gt;''
      else if c = CHR 0x22 then ''&#34;''
      else [c])"

definition html_escape :: "string \<Rightarrow> string" where
  "html_escape s = concat (map html_escape_char s)"

text \<open>An escaped text opens no tag and closes no attribute.\<close>

lemma html_escape_safe:
  "c \<in> set (html_escape s) \<Longrightarrow> c \<noteq> CHR ''<'' \<and> c \<noteq> CHR ''>'' \<and> c \<noteq> CHR 0x22 \<and> c \<noteq> CHR 0x27"
  by (auto simp: html_escape_def html_escape_char_def split: if_splits)

text \<open>\<open>strings.ReplaceAll\<close> of CR LF by LF, then of LF by a break element.\<close>

fun crlf_to_lf :: "string \<Rightarrow> string" where
  "crlf_to_lf (x # y # cs) =
     (if x = CHR 0x0D \<and> y = CHR 0x0A then CHR 0x0A # crlf_to_lf cs else x # crlf_to_lf (y # cs))"
| "crlf_to_lf cs = cs"

definition lf_to_br :: "string \<Rightarrow> string" where
  "lf_to_br s = concat (map (\<lambda>c. if c = CHR 0x0A then ''<br>'' else [c]) s)"

lemma lf_to_br_no_lf: "CHR 0x0A \<notin> set (lf_to_br s)"
  by (auto simp: lf_to_br_def split: if_splits)

end
