(* ===== verification/Go_Encoding.thy ===== *)
theory Go_Encoding
  imports Go_Strings "HOL-Library.Word"
begin

text \<open>
  \<open>encoding/hex\<close>, \<open>crypto/sha256\<close> (FIPS 180-4) and the string encoder of
  \<open>encoding/json\<close>, as the repository uses them.
\<close>

unbundle bit_operations_syntax

section \<open>Hexadecimal\<close>

definition hex_digit :: "nat \<Rightarrow> char" where
  "hex_digit n = (if n < 10 then char_of (48 + n) else char_of (87 + n))"

definition hex_byte :: "nat \<Rightarrow> string" where
  "hex_byte b = [hex_digit (b div 16), hex_digit (b mod 16)]"

definition hex_encode :: "nat list \<Rightarrow> string" where
  "hex_encode bs = concat (map hex_byte bs)"

lemma length_hex_encode [simp]: "length (hex_encode bs) = 2 * length bs"
  by (induction bs) (simp_all add: hex_encode_def hex_byte_def)

section \<open>SHA-256\<close>

type_synonym w32 = "32 word"

definition rotr :: "nat \<Rightarrow> w32 \<Rightarrow> w32" where
  "rotr n x = drop_bit n x OR push_bit (32 - n) x"

definition sha_K :: "w32 list" where
  "sha_K =
    [1116352408, 1899447441, 3049323471, 3921009573, 961987163, 1508970993, 2453635748, 2870763221,
     3624381080, 310598401, 607225278, 1426881987, 1925078388, 2162078206, 2614888103, 3248222580,
     3835390401, 4022224774, 264347078, 604807628, 770255983, 1249150122, 1555081692, 1996064986,
     2554220882, 2821834349, 2952996808, 3210313671, 3336571891, 3584528711, 113926993, 338241895,
     666307205, 773529912, 1294757372, 1396182291, 1695183700, 1986661051, 2177026350, 2456956037,
     2730485921, 2820302411, 3259730800, 3345764771, 3516065817, 3600352804, 4094571909, 275423344,
     430227734, 506948616, 659060556, 883997877, 958139571, 1322822218, 1537002063, 1747873779,
     1955562222, 2024104815, 2227730452, 2361852424, 2428436474, 2756734187, 3204031479, 3329325298]"

definition sha_H0 :: "w32 list" where
  "sha_H0 = [1779033703, 3144134277, 1013904242, 2773480762, 1359893119, 2600822924, 528734635, 1541459225]"

definition be_bytes :: "nat \<Rightarrow> nat \<Rightarrow> nat list" where
  "be_bytes k n = map (\<lambda>i. (n div 256 ^ i) mod 256) (rev [0..<k])"

definition sha_pad :: "nat list \<Rightarrow> nat list" where
  "sha_pad msg = msg @ [128] @ replicate ((119 - length msg mod 64) mod 64) 0 @ be_bytes 8 (8 * length msg)"

fun be_words :: "nat list \<Rightarrow> w32 list" where
  "be_words (a # b # c # d # bs) =
     word_of_nat (a * 16777216 + b * 65536 + c * 256 + d) # be_words bs"
| "be_words _ = []"

definition small_sigma0 :: "w32 \<Rightarrow> w32" where
  "small_sigma0 x = rotr 7 x XOR rotr 18 x XOR drop_bit 3 x"
definition small_sigma1 :: "w32 \<Rightarrow> w32" where
  "small_sigma1 x = rotr 17 x XOR rotr 19 x XOR drop_bit 10 x"
definition big_sigma0 :: "w32 \<Rightarrow> w32" where
  "big_sigma0 x = rotr 2 x XOR rotr 13 x XOR rotr 22 x"
definition big_sigma1 :: "w32 \<Rightarrow> w32" where
  "big_sigma1 x = rotr 6 x XOR rotr 11 x XOR rotr 25 x"

text \<open>The message schedule, kept newest word first.\<close>

primrec sha_schedule :: "nat \<Rightarrow> w32 list \<Rightarrow> w32 list" where
  "sha_schedule 0 ws = ws"
| "sha_schedule (Suc n) ws =
     sha_schedule n ((small_sigma1 (ws ! 1) + ws ! 6 + small_sigma0 (ws ! 14) + ws ! 15) # ws)"

definition sha_round :: "w32 list \<Rightarrow> w32 \<times> w32 \<Rightarrow> w32 list" where
  "sha_round v kw = (case v of
      [a, b, c, d, e, f, g, h] \<Rightarrow>
        (let t1 = h + big_sigma1 e + ((e AND f) XOR (NOT e AND g)) + fst kw + snd kw;
             t2 = big_sigma0 a + ((a AND b) XOR (a AND c) XOR (b AND c))
         in [t1 + t2, a, b, c, d + t1, e, f, g])
    | _ \<Rightarrow> v)"

definition sha_block :: "w32 list \<Rightarrow> w32 list \<Rightarrow> w32 list" where
  "sha_block H blk =
     map2 (+) H (foldl sha_round H (zip sha_K (rev (sha_schedule 48 (rev blk)))))"

function sha_blocks :: "w32 list \<Rightarrow> w32 list \<Rightarrow> w32 list" where
  "sha_blocks H ws = (if ws = [] then H else sha_blocks (sha_block H (take 16 ws)) (drop 16 ws))"
  by pat_completeness auto
termination by (relation "measure (\<lambda>(H, ws). length ws)") auto

declare sha_blocks.simps [simp del]

definition sha256 :: "nat list \<Rightarrow> nat list" where
  "sha256 msg = concat (map (\<lambda>w. be_bytes 4 (unat w)) (sha_blocks sha_H0 (be_words (sha_pad msg))))"

text \<open>\<open>hex.EncodeToString(sha256.Sum256([]byte(s)))\<close>.\<close>

definition sha256_hex :: "string \<Rightarrow> string" where
  "sha256_hex s = hex_encode (sha256 (map of_char s))"

lemma length_sha_round [simp]: "length (sha_round v kw) = length v"
  by (auto simp: sha_round_def Let_def split: list.splits)

lemma length_sha_block [simp]: "length (sha_block H blk) = length H"
proof -
  have "length (foldl sha_round v kws) = length v" for v kws
    by (induction kws arbitrary: v) simp_all
  then show ?thesis by (simp add: sha_block_def)
qed

lemma length_sha_blocks [simp]: "length (sha_blocks H ws) = length H"
proof (induction H ws rule: sha_blocks.induct)
  case (1 H ws)
  then show ?case by (simp add: sha_blocks.simps [of H ws])
qed

lemma length_be_bytes [simp]: "length (be_bytes k n) = k"
  by (simp add: be_bytes_def)

text \<open>A digest has 64 hexadecimal characters whatever the input.\<close>

lemma length_sha256_hex [simp]: "length (sha256_hex s) = 64"
proof -
  have "length (concat (map (\<lambda>w. be_bytes 4 (unat w)) ws)) = 4 * length ws" for ws :: "w32 list"
    by (induction ws) simp_all
  then show ?thesis by (simp add: sha256_hex_def sha256_def sha_H0_def)
qed

lemma hex_digit_cases: "n < 16 \<Longrightarrow> hex_digit n \<in> set ''0123456789abcdef''"
proof -
  have "list_all (\<lambda>n. List.member ''0123456789abcdef'' (hex_digit n)) [0..<16]"
    by code_simp
  then show "n < 16 \<Longrightarrow> hex_digit n \<in> set ''0123456789abcdef''"
    by (simp only: list_all_iff List.member_iff set_upt atLeastLessThan_iff Ball_def) blast
qed

lemma hex_encode_charset:
  "\<forall>b \<in> set bs. b < 256 \<Longrightarrow> set (hex_encode bs) \<subseteq> set ''0123456789abcdef''"
proof (induction bs)
  case Nil
  show ?case by (simp add: hex_encode_def)
next
  case (Cons b bs)
  have "b < 256" using Cons.prems by simp
  then have "b div 16 < 16" and "b mod 16 < 16" by arith+
  then have "hex_digit (b div 16) \<in> set ''0123456789abcdef''"
    "hex_digit (b mod 16) \<in> set ''0123456789abcdef''"
    by (simp_all add: hex_digit_cases del: list.set)
  with Cons show ?case by (simp add: hex_encode_def hex_byte_def)
qed

lemma sha256_hex_charset: "set (sha256_hex s) \<subseteq> set ''0123456789abcdef''"
  unfolding sha256_hex_def
  by (rule hex_encode_charset) (auto simp: sha256_def be_bytes_def)

section \<open>JSON strings\<close>

definition json_u4 :: "nat \<Rightarrow> string" where
  "json_u4 r = CHR 0x5C # ''u00'' @ hex_byte r"

text \<open>
  One rune as \<open>json.Marshal\<close> writes it inside quotes (HTML escaping is on): the two-character
  escapes, \<open>\\u00XX\<close> for the other control characters and for the HTML characters,
  \<open>\\ufffd\<close> for an invalid byte, \<open>\\u2028\<close> and \<open>\\u2029\<close>, else the bytes themselves.
\<close>

definition json_rune :: "nat \<times> string \<Rightarrow> string" where
  "json_rune x = (case x of (r, bs) \<Rightarrow>
     if r = 0x22 \<or> r = 0x5C then CHR 0x5C # bs
     else if r = 8 then CHR 0x5C # ''b''
     else if r = 9 then CHR 0x5C # ''t''
     else if r = 10 then CHR 0x5C # ''n''
     else if r = 12 then CHR 0x5C # ''f''
     else if r = 13 then CHR 0x5C # ''r''
     else if r < 32 \<or> r = 0x26 \<or> r = 0x3C \<or> r = 0x3E then json_u4 r
     else if r = rune_error \<and> length bs = 1 then CHR 0x5C # ''ufffd''
     else if r = 0x2028 then CHR 0x5C # ''u2028''
     else if r = 0x2029 then CHR 0x5C # ''u2029''
     else bs)"

definition json_string :: "string \<Rightarrow> string" where
  "json_string s = CHR 0x22 # concat (map json_rune (utf8_chunks s)) @ [CHR 0x22]"

text \<open>A member of a JSON object, and an object from its members.\<close>

definition json_member :: "string \<Rightarrow> string \<Rightarrow> string" where
  "json_member k v = json_string k @ CHR '':'' # v"

definition json_object :: "string list \<Rightarrow> string" where
  "json_object ms = CHR ''{'' # join_with '','' ms @ ''}''"

definition json_array :: "string list \<Rightarrow> string" where
  "json_array xs = CHR ''['' # join_with '','' xs @ '']''"

text \<open>
  Plain text (printable ASCII without the escaped characters) is written as it is; dates, times
  and zone names are plain.
\<close>

definition plain_char :: "char \<Rightarrow> bool" where
  "plain_char c = (let n = (of_char c :: nat) in
     32 \<le> n \<and> n < 128 \<and> n \<noteq> 0x22 \<and> n \<noteq> 0x5C \<and> n \<noteq> 0x26 \<and> n \<noteq> 0x3C \<and> n \<noteq> 0x3E)"

definition plain :: "string \<Rightarrow> bool" where
  "plain s \<longleftrightarrow> (\<forall>c \<in> set s. plain_char c)"

lemma json_string_plain: "plain s \<Longrightarrow> json_string s = CHR 0x22 # s @ [CHR 0x22]"
proof -
  assume p: "plain s"
  then have "ascii s" by (auto simp: plain_def plain_char_def ascii_def Let_def)
  moreover have "concat (map json_rune (map (\<lambda>c. (of_char c, [c])) s)) = s"
    using p by (induction s) (auto simp: plain_def plain_char_def json_rune_def Let_def rune_error_def)
  ultimately show ?thesis by (simp add: json_string_def utf8_chunks_ascii)
qed

end
