(* ===== verification/Go_Time.thy ===== *)
theory Go_Time
  imports Go_Strings
begin

text \<open>
  The part of Go's \<open>time\<close> package the repository uses.  An instant (\<open>time.Time\<close>) is
  the number of nanoseconds since the Unix epoch; the location a \<open>time.Time\<close> carries is
  given where it matters (formatting, parsing in a location).  A location is its lookup function,
  from Unix seconds to the UTC offset in force and the interval it is valid for; the zone database
  behind \<open>time.LoadLocation\<close> is data outside the repository and a parameter \<open>zonedb\<close>.
\<close>

type_synonym instant = int
type_synonym zone = "int \<Rightarrow> int \<times> int \<times> int"
type_synonym zonedb = "string \<Rightarrow> zone option"

abbreviation nanos :: int where "nanos \<equiv> 1000000000"

text \<open>The zero \<open>time.Time\<close>, January 1 of year 1, and \<open>AddDate(0, 0, n)\<close> in UTC.\<close>

definition zero_time :: instant where "zero_time = -62135596800 * nanos"

definition add_days :: "instant \<Rightarrow> int \<Rightarrow> instant" where
  "add_days t n = t + n * (86400 * nanos)"

definition utc_zone :: zone where "utc_zone = (\<lambda>_. (0, 0, 0))"

text \<open>\<open>time.LoadLocation\<close>: UTC is built in, a name that could leave the database is refused.\<close>

definition load_location :: "zonedb \<Rightarrow> string \<Rightarrow> zone option" where
  "load_location db name =
     (if name = '''' \<or> name = ''UTC'' then Some utc_zone
      else if name = ''Local'' then db name
      else if contains_sub name ''..'' \<or> hd name = CHR ''/'' \<or> hd name = CHR 0x5C then None
      else db name)"

section \<open>The civil calendar\<close>

definition leap :: "int \<Rightarrow> bool" where
  "leap y \<longleftrightarrow> y mod 4 = 0 \<and> (y mod 100 \<noteq> 0 \<or> y mod 400 = 0)"

definition month_lengths :: "int \<Rightarrow> int list" where
  "month_lengths y = [31, if leap y then 29 else 28, 31, 30, 31, 30, 31, 31, 30, 31, 30, 31]"

definition days_in :: "int \<Rightarrow> int \<Rightarrow> int" where
  "days_in y m = month_lengths y ! nat (m - 1)"

text \<open>Days from January 1 of year 1 to January 1 of year \<open>y\<close>.\<close>

definition days_to_year :: "int \<Rightarrow> int" where
  "days_to_year y = 365 * (y - 1) + (y - 1) div 4 - (y - 1) div 100 + (y - 1) div 400"

definition days_of_civil :: "int \<times> int \<times> int \<Rightarrow> int" where
  "days_of_civil = (\<lambda>(y, m, d).
     days_to_year y + sum_list (take (nat (m - 1)) (month_lengths y)) + (d - 1) - 719162)"

fun split_month :: "int list \<Rightarrow> int \<Rightarrow> int \<Rightarrow> int \<times> int" where
  "split_month [] m d = (m, d + 1)"
| "split_month (k # ks) m d = (if d < k then (m, d + 1) else split_month ks (m + 1) (d - k))"

text \<open>The year and the zero-based day of the year, by 400-, 100-, 4- and 1-year cycles.\<close>

definition year_yday :: "int \<Rightarrow> int \<times> int" where
  "year_yday n =
     (let n0 = n + 719162;
          q400 = n0 div 146097; r400 = n0 mod 146097;
          q100 = min (r400 div 36524) 3; r100 = r400 - 36524 * q100;
          q4 = r100 div 1461; r4 = r100 mod 1461;
          q1 = min (r4 div 365) 3
      in (400 * q400 + 100 * q100 + 4 * q4 + q1 + 1, r4 - 365 * q1))"

definition civil_of_days :: "int \<Rightarrow> int \<times> int \<times> int" where
  "civil_of_days n =
     (case year_yday n of (y, yd) \<Rightarrow>
      case split_month (month_lengths y) 1 yd of (m, d) \<Rightarrow> (y, m, d))"

definition valid_civil :: "int \<times> int \<times> int \<Rightarrow> bool" where
  "valid_civil = (\<lambda>(y, m, d). 1 \<le> m \<and> m \<le> 12 \<and> 1 \<le> d \<and> d \<le> days_in y m)"

lemma div_succ:
  fixes x k :: int
  assumes "0 < k"
  shows "(x + 1) div k = x div k + (if (x + 1) mod k = 0 then 1 else 0)"
proof -
  have x: "x = k * (x div k) + x mod k" "0 \<le> x mod k" "x mod k < k" using assms by simp_all
  show ?thesis
  proof (cases "x mod k + 1 = k")
    case True
    then have "x + 1 = k * (x div k) + k" using x(1) by linarith
    then have "x + 1 = k * (x div k + 1)" by (simp only: distrib_left mult_1_right)
    then show ?thesis using assms by simp
  next
    case False
    then have lt: "0 \<le> x mod k + 1" "x mod k + 1 < k" using x by auto
    have "x + 1 = (x mod k + 1) + k * (x div k)" using x(1) by simp
    then have "(x + 1) div k = x div k" "(x + 1) mod k = x mod k + 1"
      using lt assms by (metis div_mult_self4 div_pos_pos_trivial add.commute add.right_neutral
        less_irrefl, metis mod_mult_self2 mod_pos_pos_trivial)
    then show ?thesis using x(2) by simp
  qed
qed

lemma leap_iff: "leap y \<longleftrightarrow> (4 dvd y \<and> \<not> 100 dvd y) \<or> 400 dvd y"
proof -
  have "400 dvd y \<longrightarrow> 4 dvd y" by (auto intro: dvd_trans [rotated])
  then show ?thesis
    unfolding leap_def dvd_eq_mod_eq_0
    by (cases "y mod 4 = 0"; cases "y mod 100 = 0"; cases "y mod 400 = 0") simp_all
qed

lemma days_to_year_Suc: "days_to_year (y + 1) = days_to_year y + (if leap y then 366 else 365)"
proof -
  have z: "y div k = (y - 1) div k + (if k dvd y then 1 else 0)" if "0 < k" for k :: int
    using div_succ [of k "y - 1"] that by (simp add: dvd_eq_mod_eq_0)
  have d: "400 dvd y \<longrightarrow> 100 dvd y" "100 dvd y \<longrightarrow> 4 dvd y" by (auto intro: dvd_trans [rotated])
  have e: "y div 4 = (y - 1) div 4 + (if 4 dvd y then 1 else 0)"
    "y div 100 = (y - 1) div 100 + (if 100 dvd y then 1 else 0)"
    "y div 400 = (y - 1) div 400 + (if 400 dvd y then 1 else 0)"
    by (rule z, simp)+
  have "365 * y + (p + (if A then 1 else 0)) - (q + (if B then 1 else 0)) + (r + (if C then 1 else 0)) =
      365 * (y - 1) + p - q + r + (if A \<and> \<not> B \<or> C then 366 else 365)"
    if "C \<longrightarrow> B" "B \<longrightarrow> A" for A B C and p q r :: int
    using that by auto
  from this [OF d] show ?thesis
    unfolding days_to_year_def leap_iff add_diff_cancel_right' e .
qed

lemma sum_month_lengths: "sum_list (month_lengths y) = (if leap y then 366 else 365)"
  by (simp add: month_lengths_def)

lemma year_yday_bounds:
  assumes "year_yday n = (y, yd)"
  shows "0 \<le> yd" and "n + 719162 = days_to_year y + yd" and "yd < (if leap y then 366 else 365)"
proof -
  define n0 where "n0 = n + 719162"
  define a where "a = n0 div 146097"
  define r where "r = n0 mod 146097"
  define b where "b = min (r div 36524) 3"
  define s where "s = r - 36524 * b"
  define c where "c = s div 1461"
  define u where "u = s mod 1461"
  define d where "d = min (u div 365) 3"
  have "year_yday n = (400 * a + 100 * b + 4 * c + d + 1, u - 365 * d)"
    unfolding year_yday_def Let_def d_def u_def c_def s_def b_def r_def a_def n0_def by (rule refl)
  then have y: "y = 400 * a + 100 * b + 4 * c + d + 1" and yd: "yd = u - 365 * d"
    using assms by simp_all
  have n0: "n0 = 146097 * a + r" "0 \<le> r" "r < 146097" by (simp_all add: a_def r_def)
  have b: "0 \<le> b" "b \<le> 3" "36524 * b \<le> r" "b < 3 \<longrightarrow> r < 36524 * (b + 1)"
    using n0 by (auto simp: b_def min_def)
  have s: "0 \<le> s" "s \<le> 36524" "b < 3 \<longrightarrow> s < 36524" using b n0 by (auto simp: s_def)
  have c: "s = 1461 * c + u" "0 \<le> u" "u < 1461" by (simp_all add: c_def u_def)
  then have cb: "0 \<le> c" "c \<le> 24" using s by auto
  have d: "0 \<le> d" "d \<le> 3" "365 * d \<le> u" "d < 3 \<longrightarrow> u < 365 * (d + 1)"
    using c by (auto simp: d_def min_def)
  let ?z = "400 * a + 100 * b + 4 * c + d"
  have z4: "?z div 4 = 100 * a + 25 * b + c" using d by simp
  have z100: "?z div 100 = 4 * a + b"
  proof -
    have "?z = 100 * (4 * a + b) + (4 * c + d)" by simp
    moreover have "0 \<le> 4 * c + d" "4 * c + d < 100" using cb d by auto
    ultimately show ?thesis by simp
  qed
  have z400: "?z div 400 = a"
  proof -
    have "?z = 400 * a + (100 * b + 4 * c + d)" by simp
    moreover have "0 \<le> 100 * b + 4 * c + d" "100 * b + 4 * c + d < 400" using b cb d by auto
    ultimately show ?thesis by simp
  qed
  have dty: "days_to_year y = 365 * ?z + (100 * a + 25 * b + c) - (4 * a + b) + a"
    unfolding days_to_year_def using z4 z100 z400 y by simp
  show "0 \<le> yd" using d yd by simp
  show "n + 719162 = days_to_year y + yd"
    using dty n0 s_def c yd n0_def by simp
  have leap_last: "leap y" if "d = 3" "u = 1460"
  proof -
    have "y = 4 * (100 * a + 25 * b + c + 1)" using y that by simp
    then have y4: "y mod 4 = 0" by simp
    show ?thesis
    proof (cases "c = 24")
      case True
      have "s = 36524" using c True that s by auto
      then have "b = 3" using s b by auto
      then have "y = 400 * (a + 1)" using y True that by simp
      then show ?thesis using y4 by (simp add: leap_def)
    next
      case False
      have "y = (4 * c + 4) + 100 * (4 * a + b)" using y that by simp
      then have "y mod 100 = (4 * c + 4) mod 100" by (metis mod_mult_self2)
      also have "\<dots> = 4 * c + 4" using False cb by (intro mod_pos_pos_trivial) auto
      finally have "y mod 100 \<noteq> 0" using cb by simp
      then show ?thesis using y4 by (simp add: leap_def)
    qed
  qed
  show "yd < (if leap y then 366 else 365)"
  proof (cases "d < 3")
    case True
    then show ?thesis using d yd by auto
  next
    case False
    then have "d = 3" using d by simp
    then show ?thesis using yd c leap_last by (cases "u = 1460") auto
  qed
qed

lemma split_month_index:
  assumes "0 \<le> d" and "d < sum_list ks" and "split_month ks m0 d = (m, r)"
  shows "\<exists>i < length ks. m = m0 + int i \<and> sum_list (take i ks) + (r - 1) = d \<and> 1 \<le> r \<and> r \<le> ks ! i"
  using assms
proof (induction ks arbitrary: m0 d)
  case Nil
  then show ?case by simp
next
  case (Cons k ks)
  show ?case
  proof (cases "d < k")
    case True
    with Cons.prems show ?thesis by (intro exI [of _ 0]) auto
  next
    case False
    with Cons.prems obtain i where "i < length ks" "m = m0 + 1 + int i"
      "sum_list (take i ks) + (r - 1) = d - k" "1 \<le> r" "r \<le> ks ! i"
      using Cons.IH [of "d - k" "m0 + 1"] by auto
    then show ?thesis by (intro exI [of _ "Suc i"]) auto
  qed
qed

lemma split_month_sound:
  assumes "0 \<le> yd" and "yd < (if leap y then 366 else 365)"
    and "split_month (month_lengths y) 1 yd = (m, d)"
  shows "1 \<le> m \<and> m \<le> 12 \<and> 1 \<le> d \<and> d \<le> days_in y m \<and>
    sum_list (take (nat (m - 1)) (month_lengths y)) + (d - 1) = yd"
proof -
  have "length (month_lengths y) = 12" by (simp add: month_lengths_def)
  with split_month_index [of yd "month_lengths y" 1 m d] assms sum_month_lengths [of y]
  show ?thesis by (auto simp: days_in_def)
qed

text \<open>The civil date of a day number is valid and has that day number.\<close>

lemma civil_of_days_valid: "valid_civil (civil_of_days n)"
  and days_of_civil_of_days: "days_of_civil (civil_of_days n) = n"
proof -
  obtain y yd where yy: "year_yday n = (y, yd)" by fastforce
  obtain m d where md: "split_month (month_lengths y) 1 yd = (m, d)" by fastforce
  have c: "civil_of_days n = (y, m, d)" by (simp add: civil_of_days_def yy md)
  note b = year_yday_bounds [OF yy]
  note s = split_month_sound [OF b(1) b(3) md]
  show "valid_civil (civil_of_days n)" using s by (simp add: c valid_civil_def)
  show "days_of_civil (civil_of_days n) = n" using s b(2) by (simp add: c days_of_civil_def)
qed

lemma civil_of_days_inj: "civil_of_days a = civil_of_days b \<longleftrightarrow> a = b"
  by (metis days_of_civil_of_days)

section \<open>Layouts and time.Parse\<close>

text \<open>The layout elements of the five layouts the repository parses with.\<close>

datatype chunk =
    Lit char | StdLongYear | StdZeroMonth | StdZeroDay | StdHour | StdZeroMinute | StdZeroSecond
  | StdISO8601ColonTZ

definition DateLayout :: "chunk list" where
  "DateLayout = [StdLongYear, Lit (CHR ''-''), StdZeroMonth, Lit (CHR ''-''), StdZeroDay]"

definition RFC3339 :: "chunk list" where
  "RFC3339 = DateLayout @ [Lit (CHR ''T''), StdHour, Lit (CHR '':''), StdZeroMinute, Lit (CHR '':''),
     StdZeroSecond, StdISO8601ColonTZ]"

definition ICalDate :: "chunk list" where
  "ICalDate = [StdLongYear, StdZeroMonth, StdZeroDay]"

definition ICalDateTime :: "chunk list" where
  "ICalDateTime = ICalDate @ [Lit (CHR ''T''), StdHour, StdZeroMinute, StdZeroSecond]"

definition ICalDateTimeZ :: "chunk list" where
  "ICalDateTimeZ = ICalDateTime @ [Lit (CHR ''Z'')]"

definition is_digit :: "char \<Rightarrow> bool" where
  "is_digit c = (let n = (of_char c :: nat) in 48 \<le> n \<and> n \<le> 57)"

definition digit_val :: "char \<Rightarrow> int" where
  "digit_val c = int (of_char c) - 48"

definition digits_val :: "string \<Rightarrow> int" where
  "digits_val s = foldl (\<lambda>a c. 10 * a + digit_val c) 0 s"

text \<open>\<open>getnum\<close>: two digits, or one where the layout does not fix the width.\<close>

definition getnum :: "string \<Rightarrow> bool \<Rightarrow> (int \<times> string) option" where
  "getnum s fixed = (case s of
       [] \<Rightarrow> None
     | a # s1 \<Rightarrow>
         if \<not> is_digit a then None
         else (case s1 of
             [] \<Rightarrow> if fixed then None else Some (digit_val a, [])
           | b # s2 \<Rightarrow>
               if is_digit b then Some (10 * digit_val a + digit_val b, s2)
               else if fixed then None else Some (digit_val a, s1)))"

record ptime =
  p_year :: int
  p_month :: int
  p_day :: int
  p_hour :: int
  p_min :: int
  p_sec :: int
  p_nano :: int
  p_off :: int

definition ptime0 :: ptime where
  "ptime0 = \<lparr>p_year = 0, p_month = 1, p_day = 1, p_hour = 0, p_min = 0, p_sec = 0, p_nano = 0, p_off = 0\<rparr>"

definition ranged :: "int \<Rightarrow> int \<Rightarrow> (int \<times> string) option \<Rightarrow> (int \<times> string) option" where
  "ranged lo hi r = (case r of None \<Rightarrow> None | Some (n, s) \<Rightarrow> if lo \<le> n \<and> n \<le> hi then Some (n, s) else None)"

text \<open>
  After the seconds a fraction is accepted even though no layout asks for one: a period or a
  comma and at least one digit; nine digits count.
\<close>

definition parse_fraction :: "string \<Rightarrow> int \<times> string" where
  "parse_fraction s = (case s of
       c # d # r \<Rightarrow>
         if (c = CHR ''.'' \<or> c = CHR '','') \<and> is_digit d
         then (let ds = takeWhile is_digit (d # r); k = take 9 ds
               in (digits_val k * 10 ^ (9 - length k), drop (length ds) (d # r)))
         else (0, s)
     | _ \<Rightarrow> (0, s))"

fun parse_chunk :: "chunk \<Rightarrow> string \<Rightarrow> ptime \<Rightarrow> (string \<times> ptime) option" where
  "parse_chunk (Lit c) s p = (case s of [] \<Rightarrow> None | x # r \<Rightarrow> if x = c then Some (r, p) else None)"
| "parse_chunk StdLongYear s p =
     (if length s < 4 \<or> \<not> list_all is_digit (take 4 s) then None
      else Some (drop 4 s, p\<lparr>p_year := digits_val (take 4 s)\<rparr>))"
| "parse_chunk StdZeroMonth s p =
     map_option (\<lambda>(n, r). (r, p\<lparr>p_month := n\<rparr>)) (ranged 1 12 (getnum s True))"
| "parse_chunk StdZeroDay s p =
     map_option (\<lambda>(n, r). (r, p\<lparr>p_day := n\<rparr>)) (getnum s True)"
| "parse_chunk StdHour s p =
     map_option (\<lambda>(n, r). (r, p\<lparr>p_hour := n\<rparr>)) (ranged 0 23 (getnum s False))"
| "parse_chunk StdZeroMinute s p =
     map_option (\<lambda>(n, r). (r, p\<lparr>p_min := n\<rparr>)) (ranged 0 59 (getnum s True))"
| "parse_chunk StdZeroSecond s p =
     (case ranged 0 59 (getnum s True) of
        None \<Rightarrow> None
      | Some (n, r) \<Rightarrow> (case parse_fraction r of (ns, r') \<Rightarrow> Some (r', p\<lparr>p_sec := n, p_nano := ns\<rparr>)))"
| "parse_chunk StdISO8601ColonTZ s p =
     (case s of
        [] \<Rightarrow> None
      | x # r \<Rightarrow>
          if x = CHR ''Z'' then Some (r, p\<lparr>p_off := 0\<rparr>)
          else if length s < 6 \<or> s ! 3 \<noteq> CHR '':'' then None
          else (case (ranged 0 24 (getnum (take 2 (drop 1 s)) True),
                      ranged 0 60 (getnum (take 2 (drop 4 s)) True)) of
                  (Some (hr, _), Some (mm, _)) \<Rightarrow>
                    if x = CHR ''+'' then Some (drop 6 s, p\<lparr>p_off := (hr * 60 + mm) * 60\<rparr>)
                    else if x = CHR ''-'' then Some (drop 6 s, p\<lparr>p_off := - ((hr * 60 + mm) * 60)\<rparr>)
                    else None
                | _ \<Rightarrow> None))"

fun parse_chunks :: "chunk list \<Rightarrow> string \<Rightarrow> ptime \<Rightarrow> ptime option" where
  "parse_chunks [] s p = (if s = [] then Some p else None)"
| "parse_chunks (k # ks) s p =
     (case parse_chunk k s p of None \<Rightarrow> None | Some (r, q) \<Rightarrow> parse_chunks ks r q)"

text \<open>\<open>time.Parse\<close> up to the construction of the instant: the day must exist in its month.\<close>

definition time_parse_fields :: "chunk list \<Rightarrow> string \<Rightarrow> ptime option" where
  "time_parse_fields layout s = (case parse_chunks layout s ptime0 of
       None \<Rightarrow> None
     | Some p \<Rightarrow> if 1 \<le> p_day p \<and> p_day p \<le> days_in (p_year p) (p_month p) then Some p else None)"

definition wall_seconds :: "ptime \<Rightarrow> int" where
  "wall_seconds p = days_of_civil (p_year p, p_month p, p_day p) * 86400
     + p_hour p * 3600 + p_min p * 60 + p_sec p"

definition time_parse :: "chunk list \<Rightarrow> string \<Rightarrow> instant option" where
  "time_parse layout s =
     map_option (\<lambda>p. (wall_seconds p - p_off p) * nanos + p_nano p) (time_parse_fields layout s)"

text \<open>
  \<open>time.Date\<close> in a location: the offset is looked up at the wall clock read as UTC, and once
  more at the corrected time when that falls outside the interval found.
\<close>

definition zone_to_unix :: "zone \<Rightarrow> int \<Rightarrow> int" where
  "zone_to_unix z wall =
     (case z wall of (off, start, stop) \<Rightarrow>
        if off = 0 then wall
        else if wall - off < start \<or> stop \<le> wall - off then wall - fst (z (wall - off))
        else wall - off)"

definition time_parse_in :: "zone \<Rightarrow> chunk list \<Rightarrow> string \<Rightarrow> instant option" where
  "time_parse_in z layout s =
     map_option (\<lambda>p. zone_to_unix z (wall_seconds p) * nanos + p_nano p) (time_parse_fields layout s)"

section \<open>Formatting\<close>

function dec :: "nat \<Rightarrow> string" where
  "dec n = (if n < 10 then [char_of (48 + n)] else dec (n div 10) @ [char_of (48 + n mod 10)])"
  by pat_completeness auto
termination by (relation "measure id") auto

declare dec.simps [simp del]

text \<open>\<open>appendInt(b, x, width)\<close>.\<close>

definition append_int :: "nat \<Rightarrow> int \<Rightarrow> string" where
  "append_int w x =
     (let ds = dec (nat \<bar>x\<bar>) in
      (if x < 0 then ''-'' else '''') @ replicate (w - length ds) (CHR ''0'') @ ds)"

text \<open>The same digits computed on integers, which evaluate in binary.\<close>

function dec_int :: "int \<Rightarrow> string" where
  "dec_int n = (if n < 10 then [char_of (48 + n)] else dec_int (n div 10) @ [char_of (48 + n mod 10)])"
  by pat_completeness auto
termination by (relation "measure nat") auto

declare dec_int.simps [simp del]

lemma dec_int_dec: "dec_int (int n) = dec n"
proof (induction n rule: dec.induct)
  case (1 n)
  have c: "char_of (48 + int k) = (char_of (48 + k) :: char)" for k
    by (metis char_of_nat of_nat_add of_nat_numeral)
  show ?case
    using "1.IH" c [of n] c [of "n mod 10"]
    by (subst dec_int.simps, subst dec.simps) (simp add: zdiv_int zmod_int)
qed

lemma append_int_code [code]:
  "append_int w x =
     (let ds = dec_int \<bar>x\<bar> in
      (if x < 0 then ''-'' else '''') @ replicate (w - length ds) (CHR ''0'') @ ds)"
  using dec_int_dec [of "nat \<bar>x\<bar>"] by (simp add: append_int_def)

definition format_civil :: "int \<times> int \<times> int \<Rightarrow> string" where
  "format_civil = (\<lambda>(y, m, d). append_int 4 y @ ''-'' @ append_int 2 m @ ''-'' @ append_int 2 d)"

definition format_date_in :: "zone \<Rightarrow> instant \<Rightarrow> string" where
  "format_date_in z t =
     (let sec = t div nanos in format_civil (civil_of_days ((sec + fst (z sec)) div 86400)))"

definition strip_zeros :: "string \<Rightarrow> string" where
  "strip_zeros s = rev (dropWhile (\<lambda>c. c = CHR ''0'') (rev s))"

definition format_nano :: "int \<Rightarrow> string" where
  "format_nano ns = (if ns = 0 then '''' else CHR ''.'' # strip_zeros (append_int 9 ns))"

text \<open>\<open>t.UTC().Format(time.RFC3339Nano)\<close>.\<close>

definition format_rfc3339_nano :: "instant \<Rightarrow> string" where
  "format_rfc3339_nano t =
     (let sec = t div nanos; clock = sec mod 86400 in
      format_civil (civil_of_days (sec div 86400)) @ CHR ''T'' #
      append_int 2 (clock div 3600) @ CHR '':'' # append_int 2 (clock div 60 mod 60) @ CHR '':'' #
      append_int 2 (clock mod 60) @ format_nano (t mod nanos) @ ''Z'')"

subsection \<open>Formatting is injective\<close>

lemma dec_digits: "c \<in> set (dec n) \<Longrightarrow> is_digit c"
proof (induction n arbitrary: c rule: dec.induct)
  case (1 n)
  have d: "is_digit (char_of (48 + k))" if "k < 10" for k :: nat
    using that by (simp add: is_digit_def Let_def)
  show ?case
  proof (cases "n < 10")
    case True
    with 1 d show ?thesis by (simp add: dec.simps [of n])
  next
    case False
    with 1 d [of "n mod 10"] show ?thesis by (auto simp: dec.simps [of n])
  qed
qed

lemma digits_val_append: "digits_val (s @ [c]) = 10 * digits_val s + digit_val c"
  by (simp add: digits_val_def)

lemma digits_val_zeros: "digits_val (replicate k (CHR ''0'') @ s) = digits_val s"
  by (induction k) (simp_all add: digits_val_def digit_val_def)

lemma digits_val_dec: "digits_val (dec n) = int n"
proof (induction n rule: dec.induct)
  case (1 n)
  have v: "digit_val (char_of (48 + k)) = int k" if "k < 10" for k :: nat
    using that by (simp add: digit_val_def)
  show ?case
  proof (cases "n < 10")
    case True
    then show ?thesis using v by (simp add: dec.simps [of n] digits_val_def)
  next
    case False
    have "10 * int (n div 10) + int (n mod 10) = int n"
      by (metis mult_div_mod_eq of_nat_add of_nat_mult of_nat_numeral)
    then show ?thesis using 1 v [of "n mod 10"] False
      by (simp add: dec.simps [of n] digits_val_append)
  qed
qed

lemma append_int_inj:
  assumes "append_int w x = append_int w y"
  shows "x = y"
proof -
  define p where "p = (\<lambda>n :: nat. replicate (w - length (dec n)) (CHR ''0'') @ dec n)"
  have v: "digits_val (p n) = int n" for n
    by (simp add: p_def digits_val_zeros digits_val_dec)
  have d: "is_digit c" if "c \<in> set (p n)" for c n
    using that dec_digits by (auto simp: p_def is_digit_def)
  have a: "append_int w z = (if z < 0 then CHR ''-'' # p (nat \<bar>z\<bar>) else p (nat \<bar>z\<bar>))" for z
    by (simp add: append_int_def p_def Let_def)
  have "CHR ''-'' \<notin> set (p n)" for n using d [of "CHR ''-''" n] by (auto simp: is_digit_def)
  then have "(x < 0) = (y < 0)" using assms unfolding a
    by (metis (full_types) list.set_intros(1))
  then have "p (nat \<bar>x\<bar>) = p (nat \<bar>y\<bar>)" using assms unfolding a by (auto split: if_splits)
  then have "int (nat \<bar>x\<bar>) = int (nat \<bar>y\<bar>)" using v by metis
  then show ?thesis using \<open>(x < 0) = (y < 0)\<close> by auto
qed

lemma length_dec: "n < 10 ^ k \<Longrightarrow> 0 < k \<Longrightarrow> length (dec n) \<le> k"
proof (induction n arbitrary: k rule: dec.induct)
  case (1 n)
  show ?case
  proof (cases "n < 10")
    case True
    then show ?thesis using "1.prems" by (simp add: dec.simps [of n])
  next
    case False
    then have "1 < k" using "1.prems" by (cases k) (auto simp: less_Suc_eq)
    then have "n div 10 < 10 ^ (k - 1)"
      using "1.prems" by (cases k) (auto simp: less_mult_imp_div_less mult.commute)
    then have "length (dec (n div 10)) \<le> k - 1" using "1.IH" False \<open>1 < k\<close> by simp
    then show ?thesis using False \<open>1 < k\<close> by (simp add: dec.simps [of n])
  qed
qed

lemma length_append_int:
  "0 \<le> x \<Longrightarrow> x < 10 ^ w \<Longrightarrow> 0 < w \<Longrightarrow> length (append_int w x) = w"
  using length_dec [of "nat x" w] by (simp add: append_int_def Let_def nat_less_iff)

lemma append_int_chars: "c \<in> set (append_int w x) \<Longrightarrow> is_digit c \<or> c = CHR ''-''"
  using dec_digits by (auto simp: append_int_def Let_def is_digit_def split: if_splits)

lemma strip_zeros_restore:
  "strip_zeros s @ replicate (length s - length (strip_zeros s)) (CHR ''0'') = s"
proof -
  have r: "dropWhile P t @ x = dropWhile P t @ x" for P and t x :: string by simp
  have "rev s = takeWhile (\<lambda>c. c = CHR ''0'') (rev s) @ dropWhile (\<lambda>c. c = CHR ''0'') (rev s)"
    by simp
  moreover have "takeWhile (\<lambda>c. c = CHR ''0'') (rev s) =
      replicate (length (takeWhile (\<lambda>c. c = CHR ''0'') (rev s))) (CHR ''0'')"
    by (rule replicate_eqI) (auto dest: set_takeWhileD)
  ultimately have "s = strip_zeros s @ replicate (length (takeWhile (\<lambda>c. c = CHR ''0'') (rev s))) (CHR ''0'')"
    unfolding strip_zeros_def by (metis rev_append rev_replicate rev_rev_ident)
  then show ?thesis
    by (metis add_diff_cancel_left' length_append length_replicate)
qed

lemma format_nano_inj:
  assumes "format_nano a = format_nano b" and "0 \<le> a" "a < nanos" "0 \<le> b" "b < nanos"
  shows "a = b"
proof -
  have l: "length (append_int 9 x) = 9" if "0 \<le> x" "x < nanos" for x
    using that by (intro length_append_int) auto
  have "strip_zeros (append_int 9 a) = strip_zeros (append_int 9 b)" if "a \<noteq> 0" "b \<noteq> 0"
    using assms(1) that by (simp add: format_nano_def)
  then have "append_int 9 a = append_int 9 b" if "a \<noteq> 0" "b \<noteq> 0"
    using that strip_zeros_restore [of "append_int 9 a"] strip_zeros_restore [of "append_int 9 b"]
      l assms(2-) by metis
  then show ?thesis using assms(1) append_int_inj by (auto simp: format_nano_def split: if_splits)
qed

lemma format_civil_inj:
  assumes "format_civil c = format_civil c'" and "valid_civil c" and "valid_civil c'"
  shows "c = c'"
proof -
  obtain y m d y' m' d' where c: "c = (y, m, d)" "c' = (y', m', d')" by (metis prod_cases3)
  have dm: "days_in y m \<le> 31" if "1 \<le> m" "m \<le> 12" for y m
  proof -
    have "\<forall>k \<in> set (month_lengths y). k \<le> 31" by (simp add: month_lengths_def)
    moreover have "month_lengths y ! nat (m - 1) \<in> set (month_lengths y)"
      using that by (intro nth_mem) (simp add: month_lengths_def)
    ultimately show ?thesis by (simp add: days_in_def)
  qed
  have v: "1 \<le> m" "m \<le> 12" "1 \<le> d" "d \<le> 31" "1 \<le> m'" "m' \<le> 12" "1 \<le> d'" "d' \<le> 31"
    using assms(2,3) c dm [of m y] dm [of m' y'] by (auto simp: valid_civil_def)
  have l: "length (append_int 2 m) = 2" "length (append_int 2 d) = 2"
    "length (append_int 2 m') = 2" "length (append_int 2 d') = 2"
    using v by (simp_all add: length_append_int)
  have "append_int 4 y @ ''-'' @ append_int 2 m @ ''-'' @ append_int 2 d =
      append_int 4 y' @ ''-'' @ append_int 2 m' @ ''-'' @ append_int 2 d'"
    using assms(1) by (simp add: format_civil_def c)
  then have "append_int 4 y = append_int 4 y'" "append_int 2 m = append_int 2 m'"
    "append_int 2 d = append_int 2 d'"
    using l by (simp_all add: append_eq_append_conv)
  then show ?thesis using append_int_inj c by blast
qed

lemma format_rfc3339_nano_inj:
  assumes "format_rfc3339_nano s = format_rfc3339_nano t"
  shows "s = t"
proof -
  define cs where "cs = s div nanos mod 86400"
  define ct where "ct = t div nanos mod 86400"
  define h where "h = (\<lambda>c :: int. append_int 2 (c div 3600))"
  define m where "m = (\<lambda>c :: int. append_int 2 (c div 60 mod 60))"
  define z where "z = (\<lambda>c :: int. append_int 2 (c mod 60))"
  define fd where "fd = (\<lambda>u. format_civil (civil_of_days (u div nanos div 86400)))"
  define tail where "tail = (\<lambda>c u. h c @ CHR '':'' # m c @ CHR '':'' # z c @ format_nano (u mod nanos) @ ''Z'')"
  have f: "format_rfc3339_nano s = fd s @ CHR ''T'' # tail cs s"
    "format_rfc3339_nano t = fd t @ CHR ''T'' # tail ct t"
    by (simp_all add: format_rfc3339_nano_def Let_def fd_def tail_def h_def m_def z_def cs_def ct_def)
  have noT: "CHR ''T'' \<notin> set (fd u)" for u
    by (auto simp: fd_def format_civil_def split: prod.splits dest!: append_int_chars
        simp: is_digit_def)
  have eq: "fd s = fd t" "tail cs s = tail ct t"
    using takeWhile_sep_unique [OF assms [unfolded f] noT noT] by auto
  have days: "s div nanos div 86400 = t div nanos div 86400"
    using eq(1) format_civil_inj civil_of_days_valid civil_of_days_inj unfolding fd_def by metis
  have b: "0 \<le> cs" "cs < 86400" "0 \<le> ct" "ct < 86400" by (simp_all add: cs_def ct_def)
  have len: "length (h c) = 2" "length (m c) = 2" "length (z c) = 2" if "0 \<le> c" "c < 86400" for c
    using that by (auto simp: h_def m_def z_def intro!: length_append_int)
  have "h cs = h ct" "m cs = m ct" "z cs = z ct" "format_nano (s mod nanos) = format_nano (t mod nanos)"
    using eq(2) len [OF b(1,2)] len [OF b(3,4)] unfolding tail_def
    by (auto simp: append_eq_append_conv)
  then have clock: "cs div 3600 = ct div 3600" "cs div 60 mod 60 = ct div 60 mod 60" "cs mod 60 = ct mod 60"
    and nano: "s mod nanos = t mod nanos"
    using append_int_inj format_nano_inj by (auto simp: h_def m_def z_def)
  have "c = (c div 3600) * 3600 + (c div 60 mod 60) * 60 + c mod 60" for c :: int
  proof -
    have "c div 60 div 60 = c div 3600" using zdiv_zmult2_eq [of 60 c 60] by simp
    then have "c div 60 = 60 * (c div 3600) + c div 60 mod 60"
      by (metis mult_div_mod_eq)
    moreover have "c = 60 * (c div 60) + c mod 60" by simp
    ultimately show ?thesis by linarith
  qed
  then have "cs = ct" using clock by metis
  then have "s div nanos = t div nanos" using days unfolding cs_def ct_def
    by (metis div_mult_mod_eq)
  then show ?thesis using nano by (metis div_mult_mod_eq)
qed

end
