(* ===== verification/Calendar_Types.thy ===== *)
theory Calendar_Types
  imports Go_Encoding Go_Time
begin

text \<open>
  The provider-neutral data of \<open>src/internal/calendar\<close>: event times and their validation
  (\<open>types_v2.go\<close>, \<open>timeparse.go\<close>), events and requests (\<open>types_v2.go\<close>,
  \<open>patch.go\<close>), capabilities (\<open>capabilities.go\<close>), recurrence lines
  (\<open>recurrence.go\<close>), the answer of the account itself (\<open>participation.go\<close>) and the
  pages of an event sync (\<open>event_sync.go\<close>).  A pointer is an \<open>option\<close>; a slice whose
  nil-ness is observable (\<open>Recurrence\<close>) is an \<open>option\<close> too.
\<close>

section \<open>Event times\<close>

record event_time =
  et_date :: string
  et_date_time :: string
  et_time_zone :: string

definition zero_event_time :: event_time where
  "zero_event_time = \<lparr>et_date = '''', et_date_time = '''', et_time_zone = ''''\<rparr>"

definition is_all_day :: "event_time \<Rightarrow> bool" where
  "is_all_day t \<longleftrightarrow> et_date t \<noteq> ''''"

definition validate_event_time :: "zonedb \<Rightarrow> event_time \<Rightarrow> unit res" where
  "validate_event_time db t =
     (let hasDate = (et_date t \<noteq> ''''); hasDateTime = (et_date_time t \<noteq> '''') in
      if hasDate = hasDateTime then Inl (ErrText ''exactly one of date or date_time is required'')
      else if hasDate then
        (if et_time_zone t \<noteq> '''' then Inl (ErrText ''time_zone is not allowed for an all-day date'')
         else if time_parse DateLayout (et_date t) = None then Inl (ErrText ''invalid date'')
         else Inr ())
      else if et_time_zone t = '''' then Inl (ErrText ''time_zone is required for date_time'')
      else if et_time_zone t = ''Local'' then
        Inl (ErrText ''time_zone must be an explicit IANA name, not Local'')
      else if load_location db (et_time_zone t) = None then Inl (ErrText ''invalid IANA time_zone'')
      else if time_parse RFC3339 (et_date_time t) = None then Inl (ErrText ''invalid date_time'')
      else Inr ())"

definition event_time_instant :: "zonedb \<Rightarrow> event_time \<Rightarrow> instant res" where
  "event_time_instant db t =
     bind_res (validate_event_time db t) (\<lambda>_.
       case time_parse (if is_all_day t then DateLayout else RFC3339)
              (if is_all_day t then et_date t else et_date_time t) of
         None \<Rightarrow> Inl (ErrText ''parse error'')
       | Some i \<Rightarrow> Inr i)"

text \<open>The instant Go's code has when it ignores the error: the zero time.\<close>

definition instant_or_zero :: "zonedb \<Rightarrow> event_time \<Rightarrow> instant" where
  "instant_or_zero db t = (case event_time_instant db t of Inl _ \<Rightarrow> zero_time | Inr i \<Rightarrow> i)"

definition validate_event_time_range_v2 :: "zonedb \<Rightarrow> event_time \<Rightarrow> event_time \<Rightarrow> unit res" where
  "validate_event_time_range_v2 db start stop =
     bind_res (map_err (ErrWrap ''invalid start'') (validate_event_time db start)) (\<lambda>_.
     bind_res (map_err (ErrWrap ''invalid end'') (validate_event_time db stop)) (\<lambda>_.
       if is_all_day start \<noteq> is_all_day stop
       then Inl (ErrText ''start and end must both be dates or both be date-times'')
       else if \<not> instant_or_zero db start < instant_or_zero db stop
       then Inl (ErrText ''end must be after start'')
       else Inr ()))"

text \<open>A validated event time has an instant.\<close>

lemma validate_event_time_instant:
  "validate_event_time db t = Inr () \<Longrightarrow> \<exists>i. event_time_instant db t = Inr i"
  by (auto simp: validate_event_time_def event_time_instant_def is_all_day_def Let_def
      split: if_splits option.splits)

lemma event_time_instant_valid: "event_time_instant db t = Inr i \<Longrightarrow> validate_event_time db t = Inr ()"
  by (auto simp: event_time_instant_def)

section \<open>Legacy event times (timeparse.go)\<close>

record parsed_event_time =
  pt_time :: instant
  pt_all_day :: bool

definition parse_event_time :: "string \<Rightarrow> parsed_event_time res" where
  "parse_event_time value = (case time_parse DateLayout value of
       Some t \<Rightarrow> Inr \<lparr>pt_time = t, pt_all_day = True\<rparr>
     | None \<Rightarrow> (case time_parse RFC3339 value of
           None \<Rightarrow> Inl (ErrText ''parse error'')
         | Some t \<Rightarrow> Inr \<lparr>pt_time = t, pt_all_day = False\<rparr>))"

definition validate_event_time_range :: "instant \<Rightarrow> instant \<Rightarrow> unit res" where
  "validate_event_time_range start stop =
     (if \<not> start < stop then Inl (ErrText ''end must be after start'') else Inr ())"

definition parse_event_time_range :: "string \<Rightarrow> string \<Rightarrow> (instant \<times> instant \<times> bool) res" where
  "parse_event_time_range startValue endValue =
     bind_res (map_err (ErrWrap ''invalid start'') (parse_event_time startValue)) (\<lambda>s.
     bind_res (map_err (ErrWrap ''invalid end'') (parse_event_time endValue)) (\<lambda>e.
       if pt_all_day s \<noteq> pt_all_day e
       then Inl (ErrText ''start and end must both be date-only or both be RFC3339 datetimes'')
       else bind_res (validate_event_time_range (pt_time s) (pt_time e)) (\<lambda>_.
         Inr (pt_time s, pt_time e, pt_all_day s))))"

definition merge_optional_all_day :: "bool option \<Rightarrow> parsed_event_time \<Rightarrow> (bool option) res" where
  "merge_optional_all_day current parsed =
     (if current \<noteq> None \<and> the current \<noteq> pt_all_day parsed
      then Inl (ErrText ''start and end must both be date-only or both be RFC3339 datetimes'')
      else Inr (Some (pt_all_day parsed)))"

section \<open>Events\<close>

record person_v2 =
  person_id :: string
  person_email :: string
  person_name :: string
  person_self :: bool
  person_comment :: string

record attendee_v2 =
  att_person :: person_v2
  att_status :: string
  att_optional :: bool
  att_organizer :: bool
  att_resource :: bool
  att_additional_guests :: int

record reminder =
  rem_method :: string
  rem_minutes :: int

record reminder_settings =
  rem_use_default :: bool
  rem_overrides :: "reminder list"

record attachment =
  at_file_url :: string
  at_title :: string
  at_mime_type :: string
  at_icon_link :: string
  at_file_id :: string

record conference_entry_point =
  cep_type :: string
  cep_uri :: string
  cep_label :: string
  cep_pin :: string

record conference_data =
  conf_request_id :: string
  conf_status :: string
  conf_solution :: string
  conf_entry_points :: "conference_entry_point list"

record guest_permissions =
  gp_can_invite_others :: bool
  gp_can_modify :: bool
  gp_can_see_others :: bool

datatype json = JNull | JBool bool | JNumber string | JString string | JArray "json list"
  | JObject "(string \<times> json) list"

text \<open>A Go map with string keys is an association list, and \<open>None\<close> when it is nil.\<close>

record google_event_extension =
  ge_event_type :: string
  ge_private_properties :: "(string \<times> string) list option"
  ge_shared_properties :: "(string \<times> string) list option"
  ge_birthday :: "(string \<times> json) list option"
  ge_focus_time :: "(string \<times> json) list option"
  ge_out_of_office :: "(string \<times> json) list option"
  ge_working_location :: "(string \<times> json) list option"
  ge_locked :: bool
  ge_private_copy :: bool

definition map_index :: "(string \<times> string) list option \<Rightarrow> string \<Rightarrow> string" where
  "map_index m k = (case m of None \<Rightarrow> '''' | Some xs \<Rightarrow> (case map_of xs k of None \<Rightarrow> '''' | Some v \<Rightarrow> v))"

definition OrphanOccurrence :: string where "OrphanOccurrence = ''orphanOccurrence''"

record event_v2 =
  ev_id :: string
  ev_calendar_id :: string
  ev_provider :: string
  ev_ical_uid :: string
  ev_etag :: string
  ev_html_link :: string
  ev_title :: string
  ev_description :: string
  ev_description_format :: string
  ev_location :: string
  ev_status :: string
  ev_start :: event_time
  ev_end :: event_time
  ev_original_start :: "event_time option"
  ev_recurring_event_id :: string
  ev_instance_kind :: string
  ev_recurrence :: "string list option"
  ev_organizer :: "person_v2 option"
  ev_attendees :: "attendee_v2 list"
  ev_attendees_known :: bool
  ev_source_attendees_complete :: bool
  ev_reminders :: "reminder_settings option"
  ev_visibility :: string
  ev_transparency :: string
  ev_color_id :: string
  ev_attachments :: "attachment list"
  ev_conference :: "conference_data option"
  ev_guest_permissions :: "guest_permissions option"
  ev_google :: "google_event_extension option"
  ev_created :: "instant option"
  ev_updated :: "instant option"
  ev_read_only :: bool

text \<open>The zero value of a Go struct: every field empty.\<close>

definition zero_event :: event_v2 where
  "zero_event = \<lparr>ev_id = '''', ev_calendar_id = '''', ev_provider = '''', ev_ical_uid = '''',
     ev_etag = '''', ev_html_link = '''', ev_title = '''', ev_description = '''',
     ev_description_format = '''', ev_location = '''', ev_status = '''',
     ev_start = zero_event_time, ev_end = zero_event_time, ev_original_start = None,
     ev_recurring_event_id = '''', ev_instance_kind = '''', ev_recurrence = None,
     ev_organizer = None, ev_attendees = [], ev_attendees_known = False,
     ev_source_attendees_complete = False, ev_reminders = None, ev_visibility = '''',
     ev_transparency = '''', ev_color_id = '''', ev_attachments = [], ev_conference = None,
     ev_guest_permissions = None, ev_google = None, ev_created = None, ev_updated = None,
     ev_read_only = False\<rparr>"

text \<open>\<open>len(event.Recurrence)\<close>: nil and empty slices have length 0.\<close>

definition slice_list :: "'a list option \<Rightarrow> 'a list" where
  "slice_list s = (case s of None \<Rightarrow> [] | Some xs \<Rightarrow> xs)"

record sync_marker =
  sm_rule_id :: string
  sm_source_event_id :: string

record event_create_v2 =
  ec_ical_uid :: string
  ec_title :: string
  ec_description :: string
  ec_location :: string
  ec_start :: event_time
  ec_end :: event_time
  ec_recurrence :: "string list option"
  ec_attendees :: "attendee_v2 list"
  ec_reminders :: "reminder_settings option"
  ec_visibility :: string
  ec_transparency :: string
  ec_color_id :: string
  ec_attachments :: "attachment list"
  ec_conference :: "conference_data option"
  ec_guest_permissions :: "guest_permissions option"
  ec_google :: "google_event_extension option"
  ec_sync_marker :: "sync_marker option"

text \<open>\<open>PatchField\<close>: whether the field is present, whether it is null, its value.\<close>

record 'a patch_field =
  pf_present :: bool
  pf_null :: bool
  pf_value :: "'a option"

definition absent_field :: "'a patch_field" where
  "absent_field = \<lparr>pf_present = False, pf_null = False, pf_value = None\<rparr>"

record event_patch_v2 =
  pa_title :: "string patch_field"
  pa_description :: "string patch_field"
  pa_location :: "string patch_field"
  pa_start :: "event_time patch_field"
  pa_end :: "event_time patch_field"
  pa_recurrence :: "string list option patch_field"
  pa_attendees :: "attendee_v2 list patch_field"
  pa_reminders :: "reminder_settings patch_field"
  pa_visibility :: "string patch_field"
  pa_transparency :: "string patch_field"
  pa_color_id :: "string patch_field"
  pa_attachments :: "attachment list patch_field"
  pa_conference :: "conference_data patch_field"
  pa_guest_permissions :: "guest_permissions patch_field"
  pa_google :: "google_event_extension patch_field"

definition empty_patch :: event_patch_v2 where
  "empty_patch = \<lparr>pa_title = absent_field, pa_description = absent_field, pa_location = absent_field,
     pa_start = absent_field, pa_end = absent_field, pa_recurrence = absent_field,
     pa_attendees = absent_field, pa_reminders = absent_field, pa_visibility = absent_field,
     pa_transparency = absent_field, pa_color_id = absent_field, pa_attachments = absent_field,
     pa_conference = absent_field, pa_guest_permissions = absent_field, pa_google = absent_field\<rparr>"

section \<open>Requests and results\<close>

datatype recurrence_view = RecurrenceSeries | RecurrenceExpanded | RecurrenceBoth
datatype mutation_scope = ScopeSeries | ScopeSingle | ScopeFollowing
datatype notification_policy = NotificationsNone | NotificationsExternalOnly | NotificationsAll

record event_ref =
  ref_calendar_id :: string
  ref_event_id :: string

record list_events_request =
  le_availability_strict :: bool
  le_calendar_id :: string
  le_start :: instant
  le_end :: instant
  le_view :: recurrence_view
  le_show_deleted :: bool
  le_page_token :: string
  le_max_results :: int

record create_event_request =
  cr_require_no_attendees :: bool
  cr_calendar_id :: string
  cr_event :: event_create_v2
  cr_notifications :: notification_policy

record update_event_request =
  ur_require_no_attendees :: bool
  ur_expected_sync_marker :: "sync_marker option"
  ur_ref :: event_ref
  ur_patch :: event_patch_v2
  ur_scope :: mutation_scope
  ur_effective_from :: "event_time option"
  ur_expected_etag :: string
  ur_operation_id :: string
  ur_preview_only :: bool
  ur_notifications :: notification_policy

record delete_event_request =
  dr_require_no_attendees :: bool
  dr_expected_sync_marker :: "sync_marker option"
  dr_ref :: event_ref
  dr_scope :: mutation_scope
  dr_effective_from :: "event_time option"
  dr_expected_etag :: string
  dr_operation_id :: string
  dr_preview_only :: bool
  dr_notifications :: notification_policy

record instances_request =
  ir_ref :: event_ref
  ir_start :: instant
  ir_end :: instant
  ir_show_deleted :: bool
  ir_page_token :: string
  ir_max_results :: int

record operation_result =
  or_status :: string
  or_event :: "event_v2 option"

record 'a page =
  page_items :: "'a list"
  page_next_token :: string
  page_complete :: bool

section \<open>Capabilities\<close>

record operation_capabilities =
  oc_list :: bool
  oc_get :: bool
  oc_search :: bool
  oc_create :: bool
  oc_update :: bool
  oc_delete :: bool
  oc_instances :: bool
  oc_respond :: bool
  oc_move :: bool
  oc_import :: bool

record field_capabilities =
  fc_recurrence :: bool
  fc_reminders :: bool
  fc_attachments :: bool
  fc_conferencing :: bool
  fc_colors :: bool
  fc_guest_permissions :: bool
  fc_extended_props :: bool
  fc_special_event_types :: bool
  fc_optimistic_locking :: bool

record calendar_capabilities =
  cc_provider :: string
  cc_calendar_id :: string
  cc_read_only :: bool
  cc_operations :: operation_capabilities
  cc_fields :: field_capabilities
  cc_mutation_scopes :: "mutation_scope list"
  cc_notification_policies :: "notification_policy list"
  cc_event_types :: "string list"
  cc_reasons :: "(string \<times> string) list option"

definition supports_notifications :: "calendar_capabilities \<Rightarrow> notification_policy \<Rightarrow> bool" where
  "supports_notifications c p = list_ex (\<lambda>supported. supported = p) (cc_notification_policies c)"

definition supports_scope :: "calendar_capabilities \<Rightarrow> mutation_scope \<Rightarrow> bool" where
  "supports_scope c s = list_ex (\<lambda>supported. supported = s) (cc_mutation_scopes c)"

section \<open>The account's own answer (participation.go)\<close>

definition self_response_status :: "event_v2 \<Rightarrow> bool \<Rightarrow> string" where
  "self_response_status event googlePrimary =
     (if \<not> googlePrimary \<or> \<not> has_prefix (ev_calendar_id event) ''google:'' \<or>
         (ev_provider event \<noteq> '''' \<and> ev_provider event \<noteq> ''google'') then ''''
      else case foldl (\<lambda>(status, count) a.
                  if person_self (att_person a) then (att_status a, count + 1) else (status, count))
                ('''', 0 :: nat) (ev_attendees event) of
        (status, count) \<Rightarrow>
          if count \<noteq> 1 then ''''
          else if status = ''accepted'' \<or> status = ''declined'' \<or> status = ''tentative'' \<or>
                  status = ''needsAction'' then status
          else '''')"

section \<open>Recurrence lines (recurrence.go)\<close>

text \<open>
  \<open>rrule.StrToROption\<close> is a third-party parser: \<open>rrule_ok\<close> says which values it
  accepts.
\<close>

definition validate_ical_date_time :: "string \<Rightarrow> unit res" where
  "validate_ical_date_time value =
     (if time_parse (if has_suffix value ''Z'' then ICalDateTimeZ else ICalDateTime) value = None
      then Inl (ErrText ''invalid date-time'') else Inr ())"

fun recurrence_params :: "unicode_case \<Rightarrow> string list \<Rightarrow> (string \<times> string) list \<Rightarrow> ((string \<times> string) list) res" where
  "recurrence_params U [] params = Inr params"
| "recurrence_params U (raw # rest) params =
     (case cut (CHR ''='') raw of (key, val, ok) \<Rightarrow>
        if \<not> ok \<or> trim_space key = '''' \<or> trim_space val = ''''
        then Inl (ErrText ''malformed parameter'')
        else recurrence_params U rest (AList.update (to_upper U (trim_space key)) (trim_space val) params))"

definition validate_recurrence_item :: "unicode_case \<Rightarrow> string \<Rightarrow> bool \<Rightarrow> string \<Rightarrow> unit res" where
  "validate_recurrence_item U valueType hasTZID raw =
     (let item = trim_space raw in
      if item = '''' then Inl (ErrText ''empty date value'')
      else if valueType = ''PERIOD'' then
        (case cut (CHR ''/'') item of (start, stop, ok) \<Rightarrow>
           if \<not> ok \<or> has_prefix (to_upper U stop) ''P''
           then Inl (ErrText ''period must use explicit start/end date-times'')
           else if hasTZID \<and> (has_suffix start ''Z'' \<or> has_suffix stop ''Z'')
           then Inl (ErrText ''TZID cannot be combined with a UTC date-time'')
           else bind_res (validate_ical_date_time start) (\<lambda>_. validate_ical_date_time stop))
      else if valueType = ''DATE'' then
        (if time_parse ICalDate item = None then Inl (ErrText ''invalid date'') else Inr ())
      else if hasTZID \<and> has_suffix item ''Z''
      then Inl (ErrText ''TZID cannot be combined with a UTC date-time'')
      else validate_ical_date_time item)"

definition validate_recurrence_dates ::
  "unicode_case \<Rightarrow> zonedb \<Rightarrow> string \<Rightarrow> string \<Rightarrow> bool \<Rightarrow> unit res" where
  "validate_recurrence_dates U db name val allowPeriod =
     bind_res (recurrence_params U (tl (split_on (CHR '';'') name)) []) (\<lambda>params.
       let vt0 = to_upper U (map_index (Some params) ''VALUE'');
           valueType = (if vt0 = '''' then ''DATE-TIME'' else vt0);
           zone = map_index (Some params) ''TZID'';
           hasTZID = (zone \<noteq> '''')
       in if valueType \<noteq> ''DATE'' \<and> valueType \<noteq> ''DATE-TIME'' \<and> \<not> (allowPeriod \<and> valueType = ''PERIOD'')
          then Inl (ErrText ''unsupported VALUE'')
          else if hasTZID \<and> valueType = ''DATE'' then Inl (ErrText ''TZID is not valid with VALUE=DATE'')
          else if hasTZID \<and> zone = ''Local'' then Inl (ErrText ''TZID must be an explicit IANA name'')
          else if hasTZID \<and> load_location db zone = None then Inl (ErrText ''invalid TZID'')
          else fold_res (\<lambda>item _. validate_recurrence_item U valueType hasTZID item)
                 (split_on (CHR '','') val) ())"

definition validate_recurrence_line ::
  "unicode_case \<Rightarrow> zonedb \<Rightarrow> (string \<Rightarrow> bool) \<Rightarrow> string \<Rightarrow> unit res" where
  "validate_recurrence_line U db rrule_ok line =
     (case cut (CHR '':'') line of (name, val, ok) \<Rightarrow>
        if \<not> ok \<or> trim_space val = '''' then Inl (ErrText ''invalid recurrence line'')
        else let property = fst (cut (CHR '';'') (to_upper U name)) in
          if property = ''RRULE'' then
            (if rrule_ok val then Inr () else Inl (ErrText ''invalid RRULE''))
          else if property = ''RDATE'' \<or> property = ''EXDATE'' then
            map_err (ErrWrap ''invalid property'')
              (validate_recurrence_dates U db name val (property = ''RDATE''))
          else Inl (ErrText ''unsupported recurrence property''))"

definition validate_recurrence ::
  "unicode_case \<Rightarrow> zonedb \<Rightarrow> (string \<Rightarrow> bool) \<Rightarrow> string list \<Rightarrow> unit res" where
  "validate_recurrence U db rrule_ok lines =
     fold_res (\<lambda>line _. validate_recurrence_line U db rrule_ok line) lines ()"

text \<open>A loop whose body only checks accepts exactly when every element is accepted.\<close>

lemma fold_res_check: "fold_res (\<lambda>x _. f x) xs () = Inr () \<longleftrightarrow> (\<forall>x \<in> set xs. f x = Inr ())"
  by (induction xs) (auto split: sum.splits)

section \<open>Event sync pages (event_sync.go)\<close>

datatype event_sync_mode = EventSyncIncremental | EventSyncReplacement | EventSyncModeOther string

datatype event_sync_removal_reason =
  EventSyncProviderCancellation | EventSyncWindowEviction | EventSyncReasonOther string

record sync_object =
  so_object_id :: string
  so_etag :: string

record event_sync_upsert =
  up_object :: sync_object
  up_event :: event_v2

record event_sync_removal =
  rm_object_id :: string
  rm_reason :: event_sync_removal_reason
  rm_series_id :: string
  rm_original_start :: "event_time option"
  rm_recurrence_present :: bool

datatype event_sync_error_class =
  EventSyncTransient | EventSyncRateLimited | EventSyncAuth | EventSyncPermission
  | EventSyncUnsupported | EventSyncProtocol

record event_sync_diagnostic =
  di_provider_status :: int
  di_content_type :: string
  di_provider_reason :: string
  di_raw_payload :: string
  di_truncated :: bool

record event_sync_warning =
  wn_code :: event_sync_error_class
  wn_object_id :: string
  wn_etag :: string
  wn_diagnostic :: "event_sync_diagnostic option"

record event_sync_page =
  sp_source_time_zone :: string
  sp_upserts :: "event_sync_upsert list"
  sp_deleted_event_ids :: "string list"
  sp_removals :: "event_sync_removal list"
  sp_deleted_object_ids :: "string list"
  sp_replaced_object_ids :: "string list"
  sp_inventory :: "sync_object list"
  sp_next_page_token :: string
  sp_next_cursor :: string
  sp_reset_required :: bool
  sp_complete :: bool
  sp_warnings :: "event_sync_warning list"

end
