(* ===== verification/Write_Dispatch.thy ===== *)
theory Write_Dispatch
  imports Calendar_Types
begin

text \<open>
  The fence around provider writes, \<open>src/internal/calendar/write_dispatch.go\<close>.  The guard
  (a durable reservation) is the interface \<open>WriteDispatchGuard\<close>: a reservation either fails
  or yields its release, a closure.  Both it and the guarded call act on a state.
\<close>

definition outcome_unknown :: err where
  "outcome_unknown = ErrAPI ''mutation_outcome_unknown'' (Sentinel ErrProviderMutationOutcomeUnknown)"

record 's write_guard =
  begin_write_dispatch :: "string list \<Rightarrow> ('s, ('s, unit) prog) prog"

definition definitive_no_dispatch :: "err option \<Rightarrow> err option" where
  "definitive_no_dispatch e = map_option ErrNoDispatch e"

text \<open>\<open>errors.As(err, &marker)\<close>: a no-dispatch marker anywhere in the chain of causes.\<close>

primrec has_no_dispatch :: "err \<Rightarrow> bool" where
  "has_no_dispatch (ErrText m) = False"
| "has_no_dispatch (ErrWrap m e) = has_no_dispatch e"
| "has_no_dispatch (ErrJoin e f) = (has_no_dispatch e \<or> has_no_dispatch f)"
| "has_no_dispatch (Sentinel t) = False"
| "has_no_dispatch (ErrExt m) = False"
| "has_no_dispatch (ErrAPI c e) = has_no_dispatch e"
| "has_no_dispatch (ErrNoDispatch e) = True"
| "has_no_dispatch (ErrRecurrenceCompat e) = has_no_dispatch e"
| "has_no_dispatch (ErrFailure st e) = has_no_dispatch e"
| "has_no_dispatch (ErrEventSync c r e) = has_no_dispatch e"
| "has_no_dispatch NoReturn = False"

definition mask_no_dispatch :: "err option \<Rightarrow> err option" where
  "mask_no_dispatch e = (case e of
       Some e' \<Rightarrow> if has_no_dispatch e' then Some outcome_unknown else Some e'
     | None \<Rightarrow> None)"

text \<open>
  \<open>GuardedWrite\<close>.  Only an error that is itself the no-dispatch marker, not one that wraps
  it, proves that nothing was sent.
\<close>

definition guarded_write ::
  "'s write_guard option \<Rightarrow> string list \<Rightarrow> ('s, 'a) prog \<Rightarrow> ('a \<Rightarrow> bool) \<Rightarrow> ('s, 'a) prog" where
  "guarded_write guard ids call confirmed = (case guard of
       None \<Rightarrow> call
     | Some g \<Rightarrow> (\<lambda>s. case begin_write_dispatch g ids s of
           (Inl _, s1) \<Rightarrow> (Inl (Sentinel ErrWriteDispatchBlocked), s1)
         | (Inr release, s1) \<Rightarrow> (case call s1 of
               (Inl (ErrNoDispatch e), s2) \<Rightarrow> (case release s2 of
                   (Inl _, s3) \<Rightarrow> (Inl outcome_unknown, s3)
                 | (Inr _, s3) \<Rightarrow> (Inl e, s3))
             | (Inl _, s2) \<Rightarrow> (Inl outcome_unknown, s2)
             | (Inr x, s2) \<Rightarrow>
                 if \<not> confirmed x then (Inr x, s2)
                 else (case release s2 of
                     (Inl _, s3) \<Rightarrow> (Inl outcome_unknown, s3)
                   | (Inr _, s3) \<Rightarrow> (Inr x, s3)))))"

section \<open>What the reservation promises\<close>

text \<open>
  A ledger is a guard together with the set of reservations held in a state.  The contract: a
  successful reservation adds one that was not held, and its release removes just that one or
  fails without a change; a failed reservation changes nothing held.
\<close>

definition releases :: "('s \<Rightarrow> string set) \<Rightarrow> string \<Rightarrow> ('s, unit) prog \<Rightarrow> bool" where
  "releases held tok release = (\<forall>s. case release s of
       (Inr _, s') \<Rightarrow> held s' = held s - {tok}
     | (Inl _, s') \<Rightarrow> held s' = held s)"

locale write_ledger =
  fixes guard :: "'s write_guard"
    and held :: "'s \<Rightarrow> string set"
  assumes begin_ok: "begin_write_dispatch guard ids s = (Inr release, s') \<Longrightarrow>
      \<exists>tok. tok \<notin> held s \<and> held s' = insert tok (held s) \<and> releases held tok release"
    and begin_err: "begin_write_dispatch guard ids s = (Inl e, s') \<Longrightarrow> held s' = held s"
begin

text \<open>
  A call that does not touch the ledger never loses another reservation, releases its own when
  its result is confirmed, and leaves it behind after an error that does not prove that nothing
  was sent.
\<close>

lemma guarded_write_keeps:
  assumes frame: "\<And>u. held (snd (call u)) = held u"
    and run: "guarded_write (Some guard) ids call confirmed s = (r, s')"
  shows "held s \<subseteq> held s'"
proof -
  obtain b s1 where b: "begin_write_dispatch guard ids s = (b, s1)" by fastforce
  show ?thesis
  proof (cases b)
    case (Inl e)
    then show ?thesis using run b begin_err [of ids s e s1] by (simp add: guarded_write_def)
  next
    case (Inr release)
    obtain tok where h: "tok \<notin> held s" "held s1 = insert tok (held s)" "releases held tok release"
      using begin_ok [OF b [unfolded Inr]] by blast
    obtain c s2 where c: "call s1 = (c, s2)" by fastforce
    have h2: "held s2 = insert tok (held s)" using frame [of s1] c h by simp
    obtain q s3 where q: "release s2 = (q, s3)" by fastforce
    have h3: "held s3 = (case q of Inl _ \<Rightarrow> held s2 | Inr _ \<Rightarrow> held s2 - {tok})"
      using h(3) [unfolded releases_def, rule_format, of s2] q by (cases q) simp_all
    then have "held s \<subseteq> held s3" using h2 h(1) by (auto split: sum.splits)
    then show ?thesis
      using run b Inr c q h2
      by (cases q) (auto simp: guarded_write_def split: sum.splits err.splits if_splits)
  qed
qed

lemma guarded_write_confirmed:
  assumes frame: "\<And>u. held (snd (call u)) = held u"
    and run: "guarded_write (Some guard) ids call confirmed s = (Inr x, s')"
    and conf: "confirmed x"
  shows "held s' = held s"
proof -
  obtain release s1 where b: "begin_write_dispatch guard ids s = (Inr release, s1)"
    using run by (auto simp: guarded_write_def split: prod.splits sum.splits)
  obtain tok where h: "tok \<notin> held s" "held s1 = insert tok (held s)" "releases held tok release"
    using begin_ok [OF b] by blast
  obtain c s2 where c: "call s1 = (c, s2)" by fastforce
  have h2: "held s2 = insert tok (held s)" using frame [of s1] c h by simp
  obtain u where "release s2 = (Inr u, s')"
    using run b c conf
    by (auto simp: guarded_write_def split: prod.splits sum.splits err.splits if_splits)
  then show ?thesis using h(1,2) h2 h(3) [unfolded releases_def, rule_format, of s2] by simp
qed

lemma guarded_write_unsettled:
  assumes frame: "\<And>u. held (snd (call u)) = held u"
    and b: "begin_write_dispatch guard ids s = (Inr release, s1)"
    and c: "call s1 = (Inl e, s2)"
    and e: "\<And>e'. e \<noteq> ErrNoDispatch e'"
  shows "guarded_write (Some guard) ids call confirmed s = (Inl outcome_unknown, s2)"
    and "\<exists>tok. tok \<notin> held s \<and> held s2 = insert tok (held s)"
proof -
  show "guarded_write (Some guard) ids call confirmed s = (Inl outcome_unknown, s2)"
    using b c e by (auto simp: guarded_write_def split: err.splits)
  show "\<exists>tok. tok \<notin> held s \<and> held s2 = insert tok (held s)"
    using frame [of s1] c begin_ok [OF b] by auto
qed

end

end
