(* ===== verification/Mapping_Store.thy ===== *)
theory Mapping_Store
  imports Calendar_Types
begin

text \<open>
  The durable table of event mappings: \<open>src/internal/storage/mapping_cas.go\<close>, the mapping
  operations of \<open>operations.go\<close> and the struct of \<open>models.go\<close>.  The table is the list
  of its rows; the primary key and the three unique indexes of the migrations decide when an
  INSERT conflicts and when an UPDATE fails.  A UUID is drawn by the caller and passed in.
\<close>

record mapping =
  mp_id :: string
  mp_rule_id :: string
  mp_object_kind :: string
  mp_source_event_id :: string
  mp_source_series_id :: string
  mp_original_start :: string
  mp_target_event_id :: string
  mp_target_series_id :: string
  mp_content_hash :: string
  mp_reconciliation_state :: string
  mp_incarnation :: string
  mp_target_etag :: string
  mp_version :: int
  mp_last_seen_at :: instant

definition zero_mapping :: mapping where
  "zero_mapping = \<lparr>mp_id = '''', mp_rule_id = '''', mp_object_kind = '''', mp_source_event_id = '''',
     mp_source_series_id = '''', mp_original_start = '''', mp_target_event_id = '''',
     mp_target_series_id = '''', mp_content_hash = '''', mp_reconciliation_state = '''',
     mp_incarnation = '''', mp_target_etag = '''', mp_version = 0, mp_last_seen_at = zero_time\<rparr>"

type_synonym mapping_table = "mapping list"

definition max_int64 :: int where "max_int64 = 9223372036854775807"

section \<open>Constraints\<close>

definition same_key :: "mapping \<Rightarrow> mapping \<Rightarrow> bool" where
  "same_key a b \<longleftrightarrow> mp_rule_id a = mp_rule_id b \<and> mp_source_event_id a = mp_source_event_id b \<and>
     mp_original_start a = mp_original_start b"

definition same_target :: "mapping \<Rightarrow> mapping \<Rightarrow> bool" where
  "same_target a b \<longleftrightarrow> mp_rule_id a = mp_rule_id b \<and> mp_target_event_id a = mp_target_event_id b"

text \<open>Two rows that one of the unique indexes does not admit together.\<close>

definition clash :: "mapping \<Rightarrow> mapping \<Rightarrow> bool" where
  "clash a b \<longleftrightarrow> mp_id a = mp_id b \<or> same_key a b \<or> same_target a b \<or>
     mp_incarnation a = mp_incarnation b"

text \<open>INSERT ... ON CONFLICT DO NOTHING: the number of rows affected and the table.\<close>

definition insert_row :: "mapping \<Rightarrow> mapping_table \<Rightarrow> nat \<times> mapping_table" where
  "insert_row m db = (if list_ex (clash m) db then (0, db) else (1, db @ [m]))"

section \<open>Operations\<close>

definition new_incarnation :: "string \<Rightarrow> string" where
  "new_incarnation uuid = ''new:'' @ uuid"

definition insert_pending_mutation_mapping ::
  "string \<Rightarrow> mapping \<Rightarrow> mapping_table \<Rightarrow> string res \<times> mapping_table" where
  "insert_pending_mutation_mapping uuid m db =
     (if mp_id m = '''' \<or> mp_rule_id m = '''' \<or> mp_source_event_id m = '''' \<or> mp_target_event_id m = '''' \<or>
         has_prefix (mp_target_event_id m) ''pending:'' \<or>
         (mp_reconciliation_state m \<noteq> ''pending_update'' \<and> mp_reconciliation_state m \<noteq> ''pending_delete'') \<or>
         mp_last_seen_at m = zero_time \<or> mp_version m \<noteq> 0
      then (Inl (Sentinel ErrMappingConflict), db)
      else (case insert_row (m\<lparr>mp_incarnation := new_incarnation uuid, mp_version := 1\<rparr>) db of
          (n, db') \<Rightarrow> if n \<noteq> 1 then (Inr '''', db') else (Inr (new_incarnation uuid), db')))"

definition insert_pending_create_mapping ::
  "string \<Rightarrow> mapping \<Rightarrow> mapping_table \<Rightarrow> string res \<times> mapping_table" where
  "insert_pending_create_mapping uuid m db =
     (if mp_id m = '''' \<or> mp_rule_id m = '''' \<or> mp_source_event_id m = '''' \<or>
         mp_reconciliation_state m \<noteq> ''pending_create'' \<or>
         mp_target_event_id m \<noteq> ''pending:'' @ mp_id m \<or> mp_last_seen_at m = zero_time
      then (Inl (ErrText ''invalid pending creation intent''), db)
      else (case insert_row (m\<lparr>mp_incarnation := new_incarnation uuid, mp_version := 1, mp_target_etag := ''''\<rparr>) db of
          (n, db') \<Rightarrow> if n \<noteq> 1 then (Inr '''', db') else (Inr (new_incarnation uuid), db')))"

text \<open>The row an UPDATE with this identity and version addresses.\<close>

definition cas_match :: "mapping \<Rightarrow> int \<Rightarrow> mapping \<Rightarrow> bool" where
  "cas_match m v row \<longleftrightarrow> mp_id row = mp_id m \<and> mp_rule_id row = mp_rule_id m \<and>
     mp_source_event_id row = mp_source_event_id m \<and> mp_original_start row = mp_original_start m \<and>
     mp_incarnation row = mp_incarnation m \<and> mp_version row = v"

definition cas_write :: "mapping \<Rightarrow> mapping \<Rightarrow> mapping" where
  "cas_write m row = row\<lparr>mp_object_kind := mp_object_kind m, mp_source_series_id := mp_source_series_id m,
     mp_target_event_id := mp_target_event_id m, mp_target_series_id := mp_target_series_id m,
     mp_content_hash := mp_content_hash m, mp_last_seen_at := mp_last_seen_at m,
     mp_reconciliation_state := mp_reconciliation_state m, mp_target_etag := mp_target_etag m,
     mp_version := mp_version row + 1\<rparr>"

definition update_mapping_cas_legacy ::
  "mapping \<Rightarrow> int \<Rightarrow> bool \<Rightarrow> mapping_table \<Rightarrow> unit res \<times> mapping_table" where
  "update_mapping_cas_legacy m expected legacy db =
     (if mp_id m = '''' \<or> mp_rule_id m = '''' \<or> mp_source_event_id m = '''' \<or> mp_incarnation m = '''' \<or>
         expected < 1 \<or> expected = max_int64 \<or> mp_version m \<noteq> expected
      then (Inl (Sentinel ErrMappingConflict), db)
      else let hit = (\<lambda>row. cas_match m expected row \<and>
             (legacy \<longrightarrow> take 8 (mp_reconciliation_state row) \<noteq> ''pending_'')) in
        if length (filter hit db) \<noteq> 1 then (Inl (Sentinel ErrMappingConflict), db)
        else if list_ex (\<lambda>row. \<not> hit row \<and> same_target m row) db
        then (Inl (ErrExt ''UNIQUE constraint failed: event_mappings.rule_id, event_mappings.target_event_id''), db)
        else (Inr (), map (\<lambda>row. if hit row then cas_write m row else row) db))"

definition update_mapping_cas :: "mapping \<Rightarrow> int \<Rightarrow> mapping_table \<Rightarrow> unit res \<times> mapping_table" where
  "update_mapping_cas m expected db = update_mapping_cas_legacy m expected False db"

definition delete_mapping_cas ::
  "string \<Rightarrow> string \<Rightarrow> int \<Rightarrow> mapping_table \<Rightarrow> unit res \<times> mapping_table" where
  "delete_mapping_cas i incarnation expected db =
     (if i = '''' \<or> incarnation = '''' \<or> expected < 1 then (Inl (Sentinel ErrMappingConflict), db)
      else let hit = (\<lambda>row. mp_id row = i \<and> mp_incarnation row = incarnation \<and> mp_version row = expected) in
        if length (filter hit db) \<noteq> 1 then (Inl (Sentinel ErrMappingConflict), filter (\<lambda>row. \<not> hit row) db)
        else (Inr (), filter (\<lambda>row. \<not> hit row) db))"

definition upsert_mapping :: "string \<Rightarrow> mapping \<Rightarrow> mapping_table \<Rightarrow> unit res \<times> mapping_table" where
  "upsert_mapping uuid m db =
     (if has_prefix (mp_reconciliation_state m) ''pending_'' then (Inl (Sentinel ErrMappingConflict), db)
      else if 0 < mp_version m then update_mapping_cas_legacy m (mp_version m) True db
      else (case insert_row (m\<lparr>mp_incarnation := new_incarnation uuid, mp_version := 1, mp_target_etag := ''''\<rparr>) db of
          (n, db') \<Rightarrow> if n \<noteq> 1 then (Inl (Sentinel ErrMappingConflict), db') else (Inr (), db')))"

definition delete_mapping :: "string \<Rightarrow> mapping_table \<Rightarrow> unit res \<times> mapping_table" where
  "delete_mapping i db = (Inl (Sentinel ErrMappingConflict), db)"

text \<open>\<open>ORDER BY source_event_id, original_start\<close>, in the bytewise order.\<close>

definition list_mappings :: "string \<Rightarrow> mapping_table \<Rightarrow> mapping list" where
  "list_mappings ruleID db =
     sort_key (\<lambda>m. (mp_source_event_id m, mp_original_start m)) (filter (\<lambda>m. mp_rule_id m = ruleID) db)"

section \<open>The table invariant\<close>

text \<open>No two rows clash and every version is positive.\<close>

fun no_clash :: "mapping_table \<Rightarrow> bool" where
  "no_clash [] = True"
| "no_clash (m # db) = (\<not> list_ex (clash m) db \<and> no_clash db)"

definition table_ok :: "mapping_table \<Rightarrow> bool" where
  "table_ok db \<longleftrightarrow> no_clash db \<and> (\<forall>m \<in> set db. 1 \<le> mp_version m)"

lemma clash_sym: "clash a b \<longleftrightarrow> clash b a"
  by (auto simp: clash_def same_key_def same_target_def)

lemma clash_refl [simp]: "clash a a"
  by (simp add: clash_def)

lemma no_clash_append:
  "no_clash (xs @ ys) \<longleftrightarrow> no_clash xs \<and> no_clash ys \<and> (\<forall>x \<in> set xs. \<forall>y \<in> set ys. \<not> clash x y)"
  by (induction xs) (auto simp: list_ex_iff)

lemma no_clash_filter: "no_clash db \<Longrightarrow> no_clash (filter P db)"
  by (induction db) (auto simp: list_ex_iff)

lemma no_clash_eq:
  "no_clash db \<Longrightarrow> a \<in> set db \<Longrightarrow> b \<in> set db \<Longrightarrow> clash a b \<Longrightarrow> a = b"
  by (induction db) (auto simp: list_ex_iff clash_sym)

lemma no_clash_map:
  assumes "no_clash db"
    and "\<And>a b. a \<in> set db \<Longrightarrow> b \<in> set db \<Longrightarrow> clash (f a) (f b) \<Longrightarrow> clash a b"
  shows "no_clash (map f db)"
  using assms by (induction db) (auto simp: list_ex_iff)

lemma insert_row_ok:
  assumes "table_ok db" and "insert_row m db = (n, db')" and "1 \<le> mp_version m"
  shows "table_ok db'"
  using assms
  by (auto simp: insert_row_def table_ok_def no_clash_append list_ex_iff clash_sym split: if_splits)

lemma filter_length_1:
  "length (filter P xs) = 1 \<Longrightarrow> x \<in> set xs \<Longrightarrow> y \<in> set xs \<Longrightarrow> P x \<Longrightarrow> P y \<Longrightarrow> x = y"
  by (induction xs) (auto simp: filter_empty_conv split: if_splits)

lemma cas_write_clash:
  assumes "cas_match m v row" and "\<not> clash row row'" and "\<not> same_target m row'"
  shows "\<not> clash (cas_write m row) row'"
  using assms by (auto simp: cas_match_def cas_write_def clash_def same_key_def same_target_def)

lemma update_mapping_cas_legacy_ok:
  assumes ok: "table_ok db" and upd: "update_mapping_cas_legacy m v legacy db = (r, db')"
  shows "table_ok db'"
proof (cases r)
  case (Inl e)
  then have "db' = db"
    using upd by (auto simp: update_mapping_cas_legacy_def Let_def split: if_splits)
  then show ?thesis using ok by simp
next
  case (Inr u)
  define hit where "hit = (\<lambda>row. cas_match m v row \<and>
    (legacy \<longrightarrow> take 8 (mp_reconciliation_state row) \<noteq> ''pending_''))"
  define f where "f = (\<lambda>row. if hit row then cas_write m row else row)"
  have one: "length (filter hit db) = 1" and free: "\<And>row. row \<in> set db \<Longrightarrow> \<not> hit row \<Longrightarrow> \<not> same_target m row"
    and db': "db' = map f db"
    using upd Inr
    by (auto simp: update_mapping_cas_legacy_def Let_def list_ex_iff hit_def f_def split: if_splits)
  have "clash a b" if "a \<in> set db" "b \<in> set db" "clash (f a) (f b)" for a b
  proof (rule ccontr)
    assume nc: "\<not> clash a b"
    then have ne: "a \<noteq> b" by auto
    show False
    proof (cases "hit a")
      case True
      then have "\<not> hit b" using filter_length_1 [OF one] that ne by blast
      moreover have "cas_match m v a" using True by (simp add: hit_def)
      ultimately show False
        using cas_write_clash nc free that True by (auto simp: f_def)
    next
      case False
      show False
      proof (cases "hit b")
        case True
        then have "cas_match m v b" by (simp add: hit_def)
        then show False
          using cas_write_clash [of m v b a] nc free that False True
          by (auto simp: f_def clash_sym [of a])
      next
        case False
        with \<open>\<not> hit a\<close> that nc show False by (simp add: f_def)
      qed
    qed
  qed
  then have "no_clash db'" using ok db' no_clash_map by (auto simp: table_ok_def)
  moreover have "\<forall>row \<in> set db'. 1 \<le> mp_version row"
    using ok db' by (auto simp: table_ok_def f_def cas_write_def)
  ultimately show ?thesis by (simp add: table_ok_def)
qed

lemma delete_mapping_cas_ok:
  "table_ok db \<Longrightarrow> delete_mapping_cas i inc v db = (r, db') \<Longrightarrow> table_ok db'"
  by (auto simp: delete_mapping_cas_def Let_def table_ok_def no_clash_filter split: if_splits)

lemma insert_pending_mutation_ok:
  "table_ok db \<Longrightarrow> insert_pending_mutation_mapping u m db = (r, db') \<Longrightarrow> table_ok db'"
  by (auto simp: insert_pending_mutation_mapping_def split: if_splits prod.splits
      intro: insert_row_ok)

lemma insert_pending_create_ok:
  "table_ok db \<Longrightarrow> insert_pending_create_mapping u m db = (r, db') \<Longrightarrow> table_ok db'"
  by (auto simp: insert_pending_create_mapping_def split: if_splits prod.splits
      intro: insert_row_ok)

lemma upsert_mapping_ok:
  "table_ok db \<Longrightarrow> upsert_mapping u m db = (r, db') \<Longrightarrow> table_ok db'"
  by (auto simp: upsert_mapping_def split: if_splits prod.splits
      intro: insert_row_ok update_mapping_cas_legacy_ok)

section \<open>What a successful operation leaves in the table\<close>

lemma update_mapping_casD:
  assumes "update_mapping_cas m v db = (Inr u, db')"
  obtains row where "row \<in> set db" "cas_match m v row"
    "db' = map (\<lambda>x. if cas_match m v x then cas_write m x else x) db"
    "filter (cas_match m v) db = [row]" "1 \<le> v" "mp_version m = v"
proof -
  have one: "length (filter (cas_match m v) db) = 1"
    and db': "db' = map (\<lambda>x. if cas_match m v x then cas_write m x else x) db"
    and v: "1 \<le> v" "mp_version m = v"
    using assms
    by (auto simp: update_mapping_cas_def update_mapping_cas_legacy_def Let_def split: if_splits)
  from one obtain row where f: "filter (cas_match m v) db = [row]"
    by (metis One_nat_def length_0_conv length_Suc_conv)
  have "row \<in> set (filter (cas_match m v) db)" unfolding f by simp
  then have "row \<in> set db" "cas_match m v row" by simp_all
  then show thesis by (rule that [OF _ _ db' f v])
qed

text \<open>The row written is the caller's mapping at the next version.\<close>

lemma update_mapping_cas_row:
  assumes "update_mapping_cas m v db = (Inr u, db')"
  shows "m\<lparr>mp_version := v + 1\<rparr> \<in> set db'"
proof -
  from assms obtain row where row: "row \<in> set db" "cas_match m v row"
    and db': "db' = map (\<lambda>x. if cas_match m v x then cas_write m x else x) db"
    by (rule update_mapping_casD)
  have "cas_write m row = m\<lparr>mp_version := v + 1\<rparr>"
    using row(2) by (simp add: cas_write_def cas_match_def)
  then show ?thesis using row db' by force
qed

lemma insert_row_row: "insert_row m db = (n, db') \<Longrightarrow> n = 1 \<Longrightarrow> m \<in> set db'"
  by (auto simp: insert_row_def split: if_splits)

lemma new_incarnation_nonempty [simp]: "new_incarnation u \<noteq> ''''"
  by (simp add: new_incarnation_def)

lemma insert_pending_mutation_row:
  "insert_pending_mutation_mapping u m db = (Inr inc, db') \<Longrightarrow> inc \<noteq> '''' \<Longrightarrow>
   m\<lparr>mp_incarnation := inc, mp_version := 1\<rparr> \<in> set db'"
  by (auto simp: insert_pending_mutation_mapping_def dest: insert_row_row split: if_splits prod.splits)

lemma insert_pending_create_row:
  "insert_pending_create_mapping u m db = (Inr inc, db') \<Longrightarrow> inc \<noteq> '''' \<Longrightarrow>
   m\<lparr>mp_incarnation := inc, mp_version := 1, mp_target_etag := ''''\<rparr> \<in> set db'"
  by (auto simp: insert_pending_create_mapping_def dest: insert_row_row split: if_splits prod.splits)

text \<open>A compare-and-swap that fails changes nothing.\<close>

lemma update_mapping_cas_err: "update_mapping_cas m v db = (Inl e, db') \<Longrightarrow> db' = db"
  by (auto simp: update_mapping_cas_def update_mapping_cas_legacy_def Let_def split: if_splits)

text \<open>The identity columns of a row never change.\<close>

lemma cas_write_identity [simp]:
  "mp_id (cas_write m row) = mp_id row" "mp_rule_id (cas_write m row) = mp_rule_id row"
  "mp_source_event_id (cas_write m row) = mp_source_event_id row"
  "mp_original_start (cas_write m row) = mp_original_start row"
  "mp_incarnation (cas_write m row) = mp_incarnation row"
  "mp_version (cas_write m row) = mp_version row + 1"
  by (simp_all add: cas_write_def)

text \<open>A version that has been consumed is gone.\<close>

lemma update_mapping_cas_consumes:
  assumes "update_mapping_cas m v db = (Inr u, db')"
  shows "filter (cas_match m v) db' = []"
proof -
  from assms obtain row where
    db': "db' = map (\<lambda>x. if cas_match m v x then cas_write m x else x) db"
    by (rule update_mapping_casD)
  have "\<not> cas_match m v (if cas_match m v x then cas_write m x else x)" for x
    by (cases "cas_match m v x") (simp_all add: cas_match_def)
  then show ?thesis unfolding db' filter_empty_conv set_map by blast
qed

lemma cas_without_match:
  assumes "filter (cas_match m v) db = []"
  shows "fst (update_mapping_cas m v db) = Inl (Sentinel ErrMappingConflict)"
  using assms by (simp add: update_mapping_cas_def update_mapping_cas_legacy_def Let_def)

end
