(* ===== verification/Registry.thy ===== *)
theory Registry
  imports Write_Dispatch
begin

text \<open>
  Calendar routing: \<open>src/internal/calendar/registry.go\<close>, \<open>provider.go\<close> and
  \<open>provider_catalog.go\<close>.  A provider is what the registry sees of the Go interfaces: its
  name, its route name and ownership test when it is an \<open>AccountRoutedProvider\<close>, and its
  calls, which act on the state of the outside world \<open>'s\<close>.
\<close>

record calendar =
  cal_timezone :: string
  cal_google_write_access_proven :: bool
  cal_id :: string
  cal_provider :: string
  cal_name :: string
  cal_color :: string
  cal_primary :: bool
  cal_read_only :: bool

record attendee =
  la_email :: string
  la_name :: string
  la_status :: string
  la_optional :: bool

record legacy_event =
  lev_id :: string
  lev_calendar_id :: string
  lev_provider :: string
  lev_title :: string
  lev_description :: string
  lev_location :: string
  lev_start :: instant
  lev_end :: instant
  lev_all_day :: bool
  lev_status :: string
  lev_attendees :: "attendee list"
  lev_online_meeting :: string

record legacy_event_create =
  lec_title :: string
  lec_start :: instant
  lec_end :: instant
  lec_all_day :: bool
  lec_description :: string
  lec_location :: string
  lec_attendees :: "attendee list"
  lec_video_call :: bool

record legacy_event_update =
  leu_title :: "string option"
  leu_start :: "instant option"
  leu_end :: "instant option"
  leu_all_day :: "bool option"
  leu_description :: "string option"
  leu_location :: "string option"
  leu_attendees :: "attendee list option"

record 's provider =
  pr_name :: string
  pr_route :: "string option"
  pr_owns :: "string \<Rightarrow> bool"
  pr_list_calendars :: "('s, calendar list) prog"
  pr_create_event :: "string \<Rightarrow> legacy_event_create \<Rightarrow> ('s, legacy_event option) prog"
  pr_update_event :: "string \<Rightarrow> string \<Rightarrow> legacy_event_update \<Rightarrow> ('s, legacy_event option) prog"
  pr_delete_event :: "string \<Rightarrow> string \<Rightarrow> ('s, unit) prog"

section \<open>Names (provider.go)\<close>

definition sync_marker_value :: "string \<Rightarrow> string \<Rightarrow> string" where
  "sync_marker_value ruleID sourceEventID = sha256_hex (ruleID @ NUL # sourceEventID)"

definition provider_route_name :: "'s provider \<Rightarrow> string" where
  "provider_route_name p = (case pr_route p of
       Some r \<Rightarrow> if r \<noteq> '''' then r else pr_name p
     | None \<Rightarrow> pr_name p)"

definition account_calendar_id :: "string \<Rightarrow> string \<Rightarrow> string \<Rightarrow> string" where
  "account_calendar_id providerName connectionID providerCalendarID =
     providerName @ '':'' @ connectionID @ '':'' @ providerCalendarID"

definition canonical_calendar_id :: "'s provider \<Rightarrow> string \<Rightarrow> string" where
  "canonical_calendar_id p providerCalendarID =
     (case cut (CHR ''@'') (provider_route_name p) of (providerName, connectionID, routed) \<Rightarrow>
        if routed \<and> providerName \<noteq> '''' \<and> connectionID \<noteq> ''''
        then account_calendar_id providerName connectionID providerCalendarID
        else pr_name p @ '':'' @ providerCalendarID)"

definition provider_owns_calendar :: "'s provider \<Rightarrow> string \<Rightarrow> bool" where
  "provider_owns_calendar p calendarID = (case pr_route p of Some _ \<Rightarrow> pr_owns p calendarID | None \<Rightarrow> True)"

section \<open>The registry (registry.go)\<close>

text \<open>
  The optional interfaces of the calendar selection: discovery registration and the route
  catalog are present or not, as Go's type assertions find them.
\<close>

record 's route_catalog =
  configured_provider_routes :: "string \<Rightarrow> ('s, string list) prog"
  enabled_provider_calendars :: "string \<Rightarrow> ('s, string list) prog"
  availability_calendar_selection :: "string \<Rightarrow> ('s, bool \<times> bool) prog"

record 's selection =
  sel_calendar_enabled :: "string \<Rightarrow> ('s, bool) prog"
  sel_register_discovered :: "(string \<Rightarrow> calendar \<Rightarrow> ('s, unit) prog) option"
  sel_catalog :: "'s route_catalog option"

record 's registry =
  rg_providers :: "'s provider list"
  rg_by_name :: "(string \<times> 's provider) list"
  rg_exclude_ids :: "string list"
  rg_include_imported :: bool
  rg_selection :: "'s selection option"
  rg_write_guard :: "'s write_guard option"

definition by_name :: "'s provider list \<Rightarrow> (string \<times> 's provider) list" where
  "by_name ps = foldl (\<lambda>m p. AList.update (provider_route_name p) p m) [] ps"

definition new_registry ::
  "'s provider list \<Rightarrow> string list \<Rightarrow> bool \<Rightarrow> 's selection option \<Rightarrow> 's write_guard option \<Rightarrow> 's registry" where
  "new_registry ps exclude imported sel guard =
     \<lparr>rg_providers = ps, rg_by_name = by_name ps, rg_exclude_ids = exclude,
      rg_include_imported = imported, rg_selection = sel, rg_write_guard = guard\<rparr>"

definition replace_providers :: "'s provider list \<Rightarrow> 's registry \<Rightarrow> 's registry" where
  "replace_providers ps r = r\<lparr>rg_providers := ps, rg_by_name := by_name ps\<rparr>"

definition skip_in_fan_out :: "'s registry \<Rightarrow> string \<Rightarrow> bool" where
  "skip_in_fan_out r prefixedID =
     (prefixedID \<in> set (rg_exclude_ids r) \<or>
      (\<not> rg_include_imported r \<and> (has_prefix prefixedID ''google:'' \<or> has_prefix prefixedID ''google@'') \<and>
       contains_sub prefixedID ''@import.calendar.google.com''))"

definition split_prefix :: "string \<Rightarrow> string \<times> string" where
  "split_prefix i = (case cut (CHR '':'') i of (a, b, found) \<Rightarrow> if found then (a, b) else ('''', i))"

definition validate_event_provider :: "string \<Rightarrow> string \<Rightarrow> string \<Rightarrow> string res" where
  "validate_event_provider routeName providerName eventID =
     (case split_prefix eventID of (eventProvider, rawEventID) \<Rightarrow>
        if eventProvider = '''' then
          (if rawEventID = '''' then Inl (ErrText ''event ID is empty'') else Inr rawEventID)
        else if eventProvider \<noteq> routeName \<and> eventProvider \<noteq> providerName
        then Inl (ErrText ''event provider does not match calendar provider'')
        else if rawEventID = '''' then Inl (ErrText ''event ID is empty'')
        else Inr rawEventID)"

text \<open>
  \<open>resolve\<close>: the route name, else the account-scoped form, else the one provider of that
  name that owns the calendar.
\<close>

definition resolve :: "'s registry \<Rightarrow> string \<Rightarrow> ('s provider \<times> string) res" where
  "resolve r prefixedID =
     (case split_prefix prefixedID of (name, rawID) \<Rightarrow>
        case map_of (rg_by_name r) name of
          Some p \<Rightarrow> Inr (p, rawID)
        | None \<Rightarrow>
            (case cut (CHR '':'') rawID of (connectionID, providerCalendarID, scoped) \<Rightarrow>
               case (if scoped then map_of (rg_by_name r) (name @ ''@'' @ connectionID) else None) of
                 Some p \<Rightarrow> Inr (p, providerCalendarID)
               | None \<Rightarrow>
                   (case filter (\<lambda>c. pr_name c = name \<and> provider_owns_calendar c rawID) (rg_providers r) of
                      [] \<Rightarrow> Inl (ErrText ''unknown provider or calendar'')
                    | [p] \<Rightarrow> Inr (p, rawID)
                    | _ \<Rightarrow> Inl (ErrText ''calendar is ambiguous across multiple accounts''))))"

definition calendar_enabled :: "'s registry \<Rightarrow> 's provider \<Rightarrow> string \<Rightarrow> ('s, bool) prog" where
  "calendar_enabled r p rawID = (case rg_selection r of
       None \<Rightarrow> ret True
     | Some sel \<Rightarrow> sel_calendar_enabled sel (canonical_calendar_id p rawID))"

definition discovered_calendar_enabled :: "'s registry \<Rightarrow> 's provider \<Rightarrow> calendar \<Rightarrow> ('s, bool) prog" where
  "discovered_calendar_enabled r p discovered =
     and_then (case Option.bind (rg_selection r) sel_register_discovered of
         None \<Rightarrow> ret ()
       | Some register \<Rightarrow> register (provider_route_name p) discovered)
     (\<lambda>_. calendar_enabled r p (cal_id discovered))"

definition resolve_enabled :: "'s registry \<Rightarrow> string \<Rightarrow> ('s, 's provider \<times> string) prog" where
  "resolve_enabled r i = (case resolve r i of
       Inl e \<Rightarrow> fail e
     | Inr (p, raw) \<Rightarrow>
         and_then (wrap_fail (ErrJoin (Sentinel ErrCalendarSelectionUnavailable)) (calendar_enabled r p raw))
         (\<lambda>enabled. if \<not> enabled then fail (ErrText ''calendar is disabled or unavailable'') else ret (p, raw)))"

section \<open>Writes through the registry\<close>

definition event_confirmed :: "legacy_event option \<Rightarrow> bool" where
  "event_confirmed ev = (case ev of None \<Rightarrow> False | Some e \<Rightarrow> lev_id e \<noteq> '''')"

definition publish_event :: "'s provider \<Rightarrow> string \<Rightarrow> legacy_event option \<Rightarrow> ('s, legacy_event) prog" where
  "publish_event p calendarID ev = (case ev of
       None \<Rightarrow> fail (Sentinel ErrProviderMutationOutcomeUnknown)
     | Some e \<Rightarrow> ret (e\<lparr>lev_calendar_id := calendarID, lev_provider := pr_name p,
                        lev_id := pr_name p @ '':'' @ lev_id e\<rparr>))"

definition create_event :: "'s registry \<Rightarrow> string \<Rightarrow> legacy_event_create \<Rightarrow> ('s, legacy_event) prog" where
  "create_event r calendarID event =
     and_then (resolve_enabled r calendarID) (\<lambda>(p, rawID).
     and_then (guarded_write (rg_write_guard r) [canonical_calendar_id p rawID]
                 (pr_create_event p rawID event) event_confirmed)
       (publish_event p calendarID))"

definition update_event ::
  "'s registry \<Rightarrow> string \<Rightarrow> string \<Rightarrow> legacy_event_update \<Rightarrow> ('s, legacy_event) prog" where
  "update_event r calendarID eventID event =
     and_then (resolve_enabled r calendarID) (\<lambda>(p, rawCalID).
     and_then (lift_res (validate_event_provider (provider_route_name p) (pr_name p) eventID)) (\<lambda>rawEventID.
     and_then (guarded_write (rg_write_guard r) [canonical_calendar_id p rawCalID]
                 (pr_update_event p rawCalID rawEventID event) event_confirmed)
       (publish_event p calendarID)))"

definition delete_event :: "'s registry \<Rightarrow> string \<Rightarrow> string \<Rightarrow> ('s, unit) prog" where
  "delete_event r calendarID eventID =
     and_then (resolve_enabled r calendarID) (\<lambda>(p, rawCalID).
     and_then (lift_res (validate_event_provider (provider_route_name p) (pr_name p) eventID)) (\<lambda>rawEventID.
     and_then (guarded_write (rg_write_guard r) [canonical_calendar_id p rawCalID]
                 (and_then (pr_delete_event p rawCalID rawEventID) (\<lambda>_. ret True)) (\<lambda>ok. ok))
       (\<lambda>_. ret ())))"

section \<open>The strict availability catalog (provider_catalog.go)\<close>

record availability_catalog =
  ac_provider :: string
  ac_complete :: bool
  ac_calendars :: "calendar list"

text \<open>The configured routes: each a fresh \<open>provider@account\<close> without a colon.\<close>

fun expected_routes :: "string \<Rightarrow> string list \<Rightarrow> string list \<Rightarrow> string list res" where
  "expected_routes provider [] acc = Inr acc"
| "expected_routes provider (route # rest) acc =
     (case cut (CHR ''@'') route of (prefix, account, ok) \<Rightarrow>
        if \<not> ok \<or> prefix \<noteq> provider \<or> account = '''' \<or> CHR '':'' \<in> set account \<or> route \<in> set acc
        then Inl (ErrText ''invalid provider inventory'')
        else expected_routes provider rest (acc @ [route]))"

text \<open>The live providers of that name: each on an expected route, no route twice.\<close>

fun live_providers ::
  "string \<Rightarrow> string list \<Rightarrow> 's provider list \<Rightarrow> (string \<times> 's provider) list \<Rightarrow> ((string \<times> 's provider) list) res" where
  "live_providers provider expected [] live = Inr live"
| "live_providers provider expected (p # ps) live =
     (if pr_name p \<noteq> provider then live_providers provider expected ps live
      else let route = provider_route_name p in
        if route \<notin> set expected \<or> map_of live route \<noteq> None
        then Inl (ErrText ''provider inventory mismatch'')
        else live_providers provider expected ps (live @ [(route, p)]))"

text \<open>The calendars of one account; the accumulator is the result so far, whose IDs are seen.\<close>

fun catalog_items ::
  "'s route_catalog \<Rightarrow> string \<Rightarrow> 's provider \<Rightarrow> calendar list \<Rightarrow> calendar list \<Rightarrow> ('s, calendar list) prog" where
  "catalog_items cat provider p [] acc = ret acc"
| "catalog_items cat provider p (item # items) acc =
     (if cal_id item = '''' then fail (ErrText ''invalid calendar identity'')
      else (\<lambda>s. case availability_calendar_selection cat (canonical_calendar_id p (cal_id item)) s of
          (Inl _, s1) \<Rightarrow> (Inl (ErrText ''calendar selection unavailable or unregistered''), s1)
        | (Inr (known, enabled), s1) \<Rightarrow>
            if \<not> known then (Inl (ErrText ''calendar selection unavailable or unregistered''), s1)
            else if \<not> enabled then catalog_items cat provider p items acc s1
            else let item1 = (if provider = ''google''
                     then item\<lparr>cal_read_only := \<not> cal_google_write_access_proven item\<rparr> else item);
                   item2 = item1\<lparr>cal_id := canonical_calendar_id p (cal_id item1), cal_provider := provider\<rparr>
              in if cal_id item2 \<in> set (map cal_id acc)
                 then (Inl (ErrText ''duplicate calendar identity''), s1)
                 else catalog_items cat provider p items (acc @ [item2]) s1))"

fun catalog_routes ::
  "'s route_catalog \<Rightarrow> string \<Rightarrow> (string \<times> 's provider) list \<Rightarrow> string list \<Rightarrow> calendar list \<Rightarrow> ('s, calendar list) prog" where
  "catalog_routes cat provider live [] acc = ret acc"
| "catalog_routes cat provider live (route # routes) acc =
     (case map_of live route of
        None \<Rightarrow> fail (ErrText ''nil provider'')
      | Some p \<Rightarrow>
          and_then (wrap_fail (\<lambda>_. ErrText ''provider listing unavailable'') (pr_list_calendars p)) (\<lambda>cals.
          and_then (catalog_items cat provider p cals acc)
            (catalog_routes cat provider live routes)))"

definition list_availability_calendars :: "'s registry \<Rightarrow> string \<Rightarrow> ('s, availability_catalog) prog" where
  "list_availability_calendars r provider =
     (if provider \<noteq> ''google'' \<and> provider \<noteq> ''microsoft'' \<and> provider \<noteq> ''apple''
      then fail (ErrText ''unsupported provider'')
      else case Option.bind (rg_selection r) sel_catalog of
        None \<Rightarrow> fail (ErrText ''provider inventory unavailable'')
      | Some cat \<Rightarrow>
          and_then (wrap_fail (\<lambda>_. ErrText ''provider inventory unavailable'') (configured_provider_routes cat provider)) (\<lambda>expected.
          and_then (wrap_fail (\<lambda>_. ErrText ''calendar inventory unavailable'') (enabled_provider_calendars cat provider)) (\<lambda>enabledIDs.
          and_then (lift_res (expected_routes provider expected [])) (\<lambda>expectedSet.
          and_then (lift_res (live_providers provider expectedSet (rg_providers r) [])) (\<lambda>live.
          if length live \<noteq> length expectedSet then fail (ErrText ''provider inventory mismatch'')
          else and_then (catalog_routes cat provider live expected []) (\<lambda>calendars.
          if list_ex (\<lambda>i. i \<notin> set (map cal_id calendars)) enabledIDs
          then fail (ErrText ''enabled calendar missing from provider listing'')
          else and_then (wrap_fail (\<lambda>_. ErrText ''calendar inventory unavailable'') (enabled_provider_calendars cat provider)) (\<lambda>currentEnabled.
          if sort enabledIDs \<noteq> sort currentEnabled then fail (ErrText ''calendar inventory changed'')
          else and_then (wrap_fail (\<lambda>_. ErrText ''provider inventory unavailable'') (configured_provider_routes cat provider)) (\<lambda>current.
          if sort expected \<noteq> sort current then fail (ErrText ''provider inventory changed'')
          else ret \<lparr>ac_provider = provider, ac_complete = True, ac_calendars = calendars\<rparr>))))))))"

section \<open>Facts\<close>

lemma split_prefix_parts: "CHR '':'' \<notin> set a \<Longrightarrow> split_prefix (a @ CHR '':'' # b) = (a, b)"
  by (simp add: split_prefix_def)

lemma expected_routes_sound:
  "expected_routes provider routes acc = Inr out \<Longrightarrow> distinct acc \<Longrightarrow>
   out = acc @ routes \<and> distinct out \<and>
   (\<forall>route \<in> set routes. \<exists>account. route = provider @ CHR ''@'' # account \<and> account \<noteq> '''' \<and> CHR '':'' \<notin> set account)"
proof (induction provider routes acc rule: expected_routes.induct)
  case (1 provider acc)
  then show ?case by simp
next
  case (2 provider route rest acc)
  obtain pre account ok where c: "cut (CHR ''@'') route = (pre, account, ok)" by (metis prod_cases3)
  have ok: "ok" "pre = provider" "account \<noteq> ''''" "CHR '':'' \<notin> set account" "route \<notin> set acc"
    using "2.prems" c by (auto split: if_splits)
  have "route = provider @ CHR ''@'' # account" using cut_found [of "CHR ''@''" route pre account] c ok by simp
  then show ?case using "2.IH" [OF c [symmetric] refl] "2.prems" c ok by auto
qed

lemma live_providers_sound:
  "live_providers provider expected ps live = Inr out \<Longrightarrow> distinct (map fst live) \<Longrightarrow>
   (\<forall>(route, p) \<in> set live. route \<in> set expected) \<Longrightarrow>
   distinct (map fst out) \<and> (\<forall>(route, p) \<in> set out. route \<in> set expected)"
proof (induction provider expected ps live rule: live_providers.induct)
  case (1 provider expected live)
  then show ?case by simp
next
  case (2 provider expected p ps live)
  then show ?case
    by (cases "pr_name p = provider") (auto simp: Let_def map_of_eq_None_iff split: if_splits)
qed

text \<open>The rows only grow, stay distinct, and every row carries the requested provider name.\<close>

lemma catalog_items_sound:
  "catalog_items cat provider p items acc s = (Inr out, s') \<Longrightarrow> distinct (map cal_id acc) \<Longrightarrow>
   distinct (map cal_id out) \<and> (\<exists>new. out = acc @ new \<and> (\<forall>c \<in> set new. cal_provider c = provider \<and>
     (provider = ''google'' \<longrightarrow> cal_read_only c = (\<not> cal_google_write_access_proven c))))"
proof (induction items arbitrary: acc s)
  case Nil
  then show ?case by (simp add: ret_def)
next
  case (Cons item items)
  obtain sel s1 where sel: "availability_calendar_selection cat (canonical_calendar_id p (cal_id item)) s = (sel, s1)"
    by fastforce
  define item1 where "item1 = (if provider = ''google''
      then item\<lparr>cal_read_only := \<not> cal_google_write_access_proven item\<rparr> else item)"
  define item2 where "item2 = item1\<lparr>cal_id := canonical_calendar_id p (cal_id item1), cal_provider := provider\<rparr>"
  have new: "cal_provider item2 = provider"
    "provider = ''google'' \<longrightarrow> cal_read_only item2 = (\<not> cal_google_write_access_proven item2)"
    by (simp_all add: item2_def item1_def)
  obtain known enabled where sk: "sel = Inr (known, enabled)" "known"
    using Cons.prems(1) sel by (auto simp: fail_def Let_def split: if_splits sum.splits)
  show ?case
  proof (cases enabled)
    case False
    then have "catalog_items cat provider p items acc s1 = (Inr out, s')"
      using Cons.prems(1) sel sk by (simp add: fail_def split: if_splits)
    then show ?thesis using Cons.IH Cons.prems(2) by blast
  next
    case True
    then have f: "cal_id item2 \<notin> set (map cal_id acc)"
      and run: "catalog_items cat provider p items (acc @ [item2]) s1 = (Inr out, s')"
      using Cons.prems(1) sel sk
      by (auto simp: fail_def Let_def item1_def item2_def split: if_splits)
    from Cons.IH [OF run] f Cons.prems(2) new show ?thesis by fastforce
  qed
qed

lemma catalog_routes_sound:
  "catalog_routes cat provider live routes acc s = (Inr out, s') \<Longrightarrow> distinct (map cal_id acc) \<Longrightarrow>
   (\<forall>c \<in> set acc. cal_provider c = provider) \<Longrightarrow>
   distinct (map cal_id out) \<and> (\<forall>c \<in> set out. cal_provider c = provider) \<and>
   (\<forall>route \<in> set routes. map_of live route \<noteq> None)"
proof (induction routes arbitrary: acc s)
  case Nil
  then show ?case by (simp add: ret_def)
next
  case (Cons route routes)
  obtain p where p: "map_of live route = Some p"
    using Cons.prems(1) by (auto simp: fail_def split: option.splits)
  obtain cals s1 where "pr_list_calendars p s = (Inr cals, s1)"
    and "\<exists>mid s2. catalog_items cat provider p cals acc s1 = (Inr mid, s2) \<and>
        catalog_routes cat provider live routes mid s2 = (Inr out, s')"
    using Cons.prems(1) p
    by (auto simp: and_then_def wrap_fail_def split: prod.splits sum.splits)
  then obtain mid s2 where mid: "catalog_items cat provider p cals acc s1 = (Inr mid, s2)"
    and rest: "catalog_routes cat provider live routes mid s2 = (Inr out, s')" by blast
  from catalog_items_sound [OF mid Cons.prems(2)] Cons.prems(3)
  have "distinct (map cal_id mid)" "\<forall>c \<in> set mid. cal_provider c = provider" by auto
  from Cons.IH [OF rest this] p show ?case by simp
qed

lemma new_registry_simps [simp]:
  "rg_by_name (new_registry ps exclude imported sel guard) = by_name ps"
  "rg_providers (new_registry ps exclude imported sel guard) = ps"
  "rg_selection (new_registry ps exclude imported sel guard) = sel"
  "rg_write_guard (new_registry ps exclude imported sel guard) = guard"
  by (simp_all add: new_registry_def)

lemma map_of_by_name_aux:
  "map_of (foldl (\<lambda>m p. AList.update (provider_route_name p) p m) acc ps) route =
     (case filter (\<lambda>p. provider_route_name p = route) (rev ps) of
        [] \<Rightarrow> map_of acc route
      | p # _ \<Rightarrow> Some p)"
proof (induction ps arbitrary: acc)
  case Nil
  then show ?case by simp
next
  case (Cons p ps)
  show ?case
  proof (cases "filter (\<lambda>p. provider_route_name p = route) (rev ps)")
    case Nil
    then show ?thesis using Cons [of "AList.update (provider_route_name p) p acc"]
      by (simp add: update_conv')
  next
    case (Cons q qs)
    then show ?thesis using Cons.IH [of "AList.update (provider_route_name p) p acc"] by simp
  qed
qed

lemma filter_rev_ConsD: "filter P (rev xs) = y # ys \<Longrightarrow> y \<in> set xs \<and> P y"
proof -
  assume "filter P (rev xs) = y # ys"
  then have "y \<in> set (filter P (rev xs))" by simp
  then show ?thesis by simp
qed

lemma by_name_Some:
  "map_of (by_name ps) route = Some p \<Longrightarrow> p \<in> set ps \<and> provider_route_name p = route"
  unfolding by_name_def map_of_by_name_aux
  by (auto split: list.splits dest: filter_rev_ConsD)

lemma by_name_None_iff:
  "map_of (by_name ps) route = None \<longleftrightarrow> route \<notin> provider_route_name ` set ps"
  unfolding by_name_def map_of_by_name_aux
  by (auto split: list.splits simp: filter_empty_conv dest!: filter_rev_ConsD)

lemma by_name_unique:
  assumes "p \<in> set ps" "distinct (map provider_route_name ps)"
  shows "map_of (by_name ps) (provider_route_name p) = Some p"
proof (cases "map_of (by_name ps) (provider_route_name p)")
  case None
  then show ?thesis using assms(1) by (auto simp: by_name_None_iff)
next
  case (Some q)
  from by_name_Some [OF this] have "q = p"
    using assms by (metis (no_types, lifting) distinct_map inj_onD)
  with Some show ?thesis by simp
qed

section \<open>Properties\<close>

text \<open>
  A calendar's public ID, built by \<open>CanonicalCalendarID\<close> for an account-scoped provider,
  resolves back to that very provider and to the provider's own calendar ID, whatever other
  accounts are configured, as long as no provider is registered under the bare name.
\<close>

theorem resolve_canonical:
  assumes "p \<in> set ps" and "distinct (map provider_route_name ps)"
    and "provider_route_name p = name @ CHR ''@'' # account"
    and "name \<noteq> ''''" and "account \<noteq> ''''"
    and "CHR ''@'' \<notin> set name" and "CHR '':'' \<notin> set name" and "CHR '':'' \<notin> set account"
    and "name \<notin> provider_route_name ` set ps"
  shows "resolve (new_registry ps exclude imported sel guard) (canonical_calendar_id p raw) = Inr (p, raw)"
proof -
  have "canonical_calendar_id p raw = name @ CHR '':'' # (account @ CHR '':'' # raw)"
    using assms by (simp add: canonical_calendar_id_def account_calendar_id_def)
  moreover have "map_of (by_name ps) name = None" using assms by (simp add: by_name_None_iff)
  moreover have "map_of (by_name ps) (name @ CHR ''@'' # account) = Some p"
    using by_name_unique [OF assms(1,2)] assms(3) by simp
  ultimately show ?thesis
    using assms by (simp add: resolve_def split_prefix_parts)
qed

definition sample_provider :: "string \<Rightarrow> string \<Rightarrow> calendar list \<Rightarrow> nat provider" where
  "sample_provider name account cals =
     \<lparr>pr_name = name, pr_route = Some (name @ ''@'' @ account), pr_owns = (\<lambda>i. i = ''home''),
      pr_list_calendars = ret cals,
      pr_create_event = (\<lambda>c e n. (Inr None, Suc n)), pr_update_event = (\<lambda>c i e n. (Inr None, Suc n)),
      pr_delete_event = (\<lambda>c i n. (Inr (), Suc n))\<rparr>"

lemma sample_provider_route [simp]:
  "provider_route_name (sample_provider name account cals) = name @ CHR ''@'' # account"
  "pr_name (sample_provider name account cals) = name"
  "pr_list_calendars (sample_provider name account cals) = ret cals"
  by (simp_all add: sample_provider_def provider_route_name_def)

theorem resolve_canonical_witness:
  "let p = sample_provider ''google'' ''a'' []; q = sample_provider ''google'' ''b'' [] in
   resolve (new_registry [p, q] [] True None None) (canonical_calendar_id q ''home'') = Inr (q, ''home'')"
  unfolding Let_def
  by (rule resolve_canonical [where name = "''google''" and account = "''b''"]) simp_all

text \<open>
  Resolution never invents a provider: what it returns is registered, and when neither a
  route name nor an account-scoped ID selected it, it is the only registered provider of the
  requested name that owns the calendar.
\<close>

theorem resolve_sound:
  assumes "resolve (new_registry ps exclude imported sel guard) i = Inr (p, raw)"
  shows "p \<in> set ps \<and>
    (split_prefix i = (provider_route_name p, raw) \<or>
     (\<exists>name account. provider_route_name p = name @ CHR ''@'' # account \<and>
        split_prefix i = (name, account @ CHR '':'' # raw)) \<or>
     (\<exists>name. split_prefix i = (name, raw) \<and>
        filter (\<lambda>q. pr_name q = name \<and> provider_owns_calendar q raw) ps = [p]))"
proof -
  obtain n rr where sp: "split_prefix i = (n, rr)" by fastforce
  obtain conn pcal scoped where d: "cut (CHR '':'') rr = (conn, pcal, scoped)" by (metis prod_cases3)
  note run = assms [unfolded resolve_def sp]
  show ?thesis
  proof (cases "map_of (by_name ps) n")
    case (Some q)
    then show ?thesis using run by_name_Some [OF Some] sp by auto
  next
    case None
    show ?thesis
    proof (cases "if scoped then map_of (by_name ps) (n @ CHR ''@'' # conn) else None")
      case (Some q)
      then have q: "q = p" "pcal = raw" "scoped" "map_of (by_name ps) (n @ CHR ''@'' # conn) = Some q"
        using run None d by (auto split: if_splits)
      have "rr = conn @ CHR '':'' # pcal" using cut_found [of "CHR '':''" rr conn pcal] d q by simp
      with by_name_Some [OF q(4)] q sp show ?thesis by auto
    next
      case none: None
      then have f: "filter (\<lambda>c. pr_name c = n \<and> provider_owns_calendar c rr) ps = [p]" "rr = raw"
        using run None d by (cases scoped; auto split: list.splits)+
      then have "p \<in> set (filter (\<lambda>c. pr_name c = n \<and> provider_owns_calendar c rr) ps)" by simp
      then have "p \<in> set ps" by simp
      with f sp show ?thesis by simp
    qed
  qed
qed

theorem resolve_sound_witness:
  "let p = sample_provider ''google'' ''a'' []; q = sample_provider ''apple'' ''b'' [] in
   p \<in> set [p, q] \<and>
   (split_prefix ''google:home'' = (provider_route_name p, ''home'') \<or>
    (\<exists>name account. provider_route_name p = name @ CHR ''@'' # account \<and>
       split_prefix ''google:home'' = (name, account @ CHR '':'' # ''home'')) \<or>
    (\<exists>name. split_prefix ''google:home'' = (name, ''home'') \<and>
       filter (\<lambda>c. pr_name c = name \<and> provider_owns_calendar c ''home'') [p, q] = [p]))"
  unfolding Let_def
  by (rule resolve_sound [where exclude = "[]" and imported = True and sel = None and guard = None])
     (simp add: resolve_def split_prefix_def new_registry_def by_name_def provider_owns_calendar_def
        sample_provider_def provider_route_name_def)

text \<open>
  C34. A calendar the selection does not confirm is never written: when the selection answers
  no, or cannot answer, create, update and delete return an error without calling the provider
  or reserving the write fence, and the state is the one the selection left.
\<close>

theorem disabled_calendar_never_written:
  assumes "resolve r calID = Inr (p, raw)"
    and "rg_selection r = Some sel"
    and "sel_calendar_enabled sel (canonical_calendar_id p raw) s = (answer, s1)"
    and "answer \<noteq> Inr True"
  shows "(\<exists>e. create_event r calID ev s = (Inl e, s1)) \<and>
         (\<exists>e. update_event r calID eid up s = (Inl e, s1)) \<and>
         (\<exists>e. delete_event r calID eid s = (Inl e, s1))"
proof -
  have "\<exists>e. resolve_enabled r calID s = (Inl e, s1)"
    using assms
    by (cases answer) (auto simp: resolve_enabled_def calendar_enabled_def prog_defs)
  then show ?thesis by (auto simp: create_event_def update_event_def delete_event_def and_then_def)
qed

theorem disabled_calendar_never_written_witness:
  "let p = sample_provider ''google'' ''a'' [];
       sel = \<lparr>sel_calendar_enabled = (\<lambda>i. ret False), sel_register_discovered = None, sel_catalog = None\<rparr>;
       r = new_registry [p] [] True (Some sel) None in
   (\<forall>ev up. (\<exists>e. create_event r ''google:home'' ev 0 = (Inl e, 0)) \<and>
   (\<exists>e. update_event r ''google:home'' ''e'' up 0 = (Inl e, 0)) \<and>
   (\<exists>e. delete_event r ''google:home'' ''e'' 0 = (Inl e, 0)))"
  unfolding Let_def
  by (intro allI, rule disabled_calendar_never_written [where p = "sample_provider ''google'' ''a'' []" and raw = "''home''"
       and answer = "Inr False"
       and sel = "\<lparr>sel_calendar_enabled = (\<lambda>i. ret False), sel_register_discovered = None, sel_catalog = None\<rparr>"])
     (simp_all add: resolve_def split_prefix_def new_registry_def by_name_def provider_owns_calendar_def
        sample_provider_def provider_route_name_def ret_def)

text \<open>
  A complete availability catalog: what \<open>ListAvailabilityCalendars\<close> returns without an
  error is marked complete, holds no calendar ID twice, only calendars of the requested
  provider, and every calendar that the selection listed as enabled.
\<close>

theorem availability_catalog_sound:
  assumes "list_availability_calendars r provider s = (Inr cat, s')"
  shows "ac_complete cat \<and> ac_provider cat = provider \<and>
    provider \<in> {''google'', ''microsoft'', ''apple''} \<and>
    distinct (map cal_id (ac_calendars cat)) \<and>
    (\<forall>c \<in> set (ac_calendars cat). cal_provider c = provider) \<and>
    (\<exists>routes inv enabled s0 s1. Option.bind (rg_selection r) sel_catalog = Some inv \<and>
       configured_provider_routes inv provider s = (Inr routes, s0) \<and>
       enabled_provider_calendars inv provider s0 = (Inr enabled, s1) \<and>
       set enabled \<subseteq> cal_id ` set (ac_calendars cat))"
proof -
  obtain inv where inv: "Option.bind (rg_selection r) sel_catalog = Some inv"
    and prov: "provider \<in> {''google'', ''microsoft'', ''apple''}"
    using assms by (auto simp: list_availability_calendars_def fail_def split: if_splits option.splits)
  have "\<exists>routes enabled live s0 s1 s2 calendars.
      configured_provider_routes inv provider s = (Inr routes, s0) \<and>
      enabled_provider_calendars inv provider s0 = (Inr enabled, s1) \<and>
      catalog_routes inv provider live routes [] s1 = (Inr calendars, s2) \<and>
      \<not> list_ex (\<lambda>i. i \<notin> set (map cal_id calendars)) enabled \<and>
      cat = \<lparr>ac_provider = provider, ac_complete = True, ac_calendars = calendars\<rparr>"
    using assms inv prov
    by (auto simp: list_availability_calendars_def prog_defs split: if_splits prod.splits sum.splits)
  then obtain routes enabled live s0 s1 s2 calendars where
    run: "configured_provider_routes inv provider s = (Inr routes, s0)"
      "enabled_provider_calendars inv provider s0 = (Inr enabled, s1)"
      "catalog_routes inv provider live routes [] s1 = (Inr calendars, s2)"
      "\<not> list_ex (\<lambda>i. i \<notin> set (map cal_id calendars)) enabled"
      "cat = \<lparr>ac_provider = provider, ac_complete = True, ac_calendars = calendars\<rparr>"
    by blast
  from catalog_routes_sound [OF run(3)] run(1,2,4,5) inv prov show ?thesis
    by (auto simp: list_ex_iff)
qed

definition sample_calendar :: "string \<Rightarrow> calendar" where
  "sample_calendar i = \<lparr>cal_timezone = ''UTC'', cal_google_write_access_proven = False, cal_id = i,
     cal_provider = '''', cal_name = i, cal_color = '''', cal_primary = True, cal_read_only = False\<rparr>"

definition sample_inventory :: "nat route_catalog" where
  "sample_inventory = \<lparr>configured_provider_routes = (\<lambda>p. ret [''google@a'']),
     enabled_provider_calendars = (\<lambda>p. ret [''google:a:home'']),
     availability_calendar_selection = (\<lambda>i. ret (True, i = ''google:a:home''))\<rparr>"

theorem availability_catalog_sound_witness:
  "let sel = \<lparr>sel_calendar_enabled = (\<lambda>i. ret True), sel_register_discovered = None,
              sel_catalog = Some sample_inventory\<rparr>;
       p = sample_provider ''google'' ''a'' [sample_calendar ''home'', sample_calendar ''work''];
       r = new_registry [p] [] True (Some sel) None;
       cat = \<lparr>ac_provider = ''google'', ac_complete = True,
         ac_calendars = [sample_calendar ''home'' \<lparr>cal_id := ''google:a:home'', cal_provider := ''google'', cal_read_only := True\<rparr>]\<rparr> in
   set [''google:a:home''] \<subseteq> cal_id ` set (ac_calendars cat) \<and>
   list_availability_calendars r ''google'' 0 = (Inr cat, 0) \<and> ac_complete cat"
proof -
  let ?sel = "\<lparr>sel_calendar_enabled = (\<lambda>i. ret True), sel_register_discovered = None,
              sel_catalog = Some sample_inventory\<rparr>"
  let ?r = "new_registry [sample_provider ''google'' ''a'' [sample_calendar ''home'', sample_calendar ''work'']] [] True (Some ?sel) None"
  let ?cat = "\<lparr>ac_provider = ''google'', ac_complete = True,
         ac_calendars = [sample_calendar ''home'' \<lparr>cal_id := ''google:a:home'', cal_provider := ''google'', cal_read_only := True\<rparr>]\<rparr>"
  have run: "list_availability_calendars ?r ''google'' 0 = (Inr ?cat, 0)"
    by (simp add: list_availability_calendars_def sample_inventory_def sample_calendar_def prog_defs
        canonical_calendar_id_def account_calendar_id_def)
  from availability_catalog_sound [OF run] show ?thesis using run by (simp add: Let_def)
qed

end
