(* ===== verification/Projection.thy ===== *)
theory Projection
  imports Calendar_Types
begin

text \<open>
  The pure core of a cached calendar copy, \<open>src/internal/calendarprojection\<close>: the identity of a
  source object, the candidates of a published snapshot, and the materialization of staged sync
  pages into the next snapshot.
\<close>

section \<open>Identity (identity.go)\<close>

definition mapping_key :: "string \<Rightarrow> string \<Rightarrow> string" where
  "mapping_key i original = i @ NUL # original"

definition identity :: "zonedb \<Rightarrow> string \<Rightarrow> event_v2 \<Rightarrow> string res" where
  "identity db sourceCalendarID event =
     (if sourceCalendarID = '''' \<or> NUL \<in> set sourceCalendarID
      then Inl (ErrText ''source calendar ID is required'')
      else if ev_calendar_id event \<noteq> sourceCalendarID
      then Inl (ErrText ''event does not belong to source calendar'')
      else if ev_id event = '''' \<or> NUL \<in> set (ev_id event) \<or> NUL \<in> set (ev_recurring_event_id event)
      then Inl (ErrText ''source event ID is required'')
      else if ev_recurring_event_id event = '''' then
        (if ev_original_start event \<noteq> None
         then Inl (ErrText ''occurrence has no source series identity'')
         else Inr (mapping_key sourceCalendarID (mapping_key (ev_id event) '''')))
      else (case ev_original_start event of
          None \<Rightarrow> Inl (ErrText ''recurring occurrence has no original start'')
        | Some start \<Rightarrow>
            bind_res (map_err (ErrWrap ''invalid original start'') (event_time_instant db start)) (\<lambda>inst.
              let canonical = (if is_all_day start then ''date:'' @ et_date start
                               else ''instant:'' @ format_rfc3339_nano inst)
              in Inr (mapping_key sourceCalendarID
                   (mapping_key (''series:'' @ ev_recurring_event_id event) canonical)))))"

section \<open>Candidates (candidates.go)\<close>

record candidate =
  cand_identity :: string
  cand_event :: event_v2

text \<open>A date of the source calendar: parsed in its zone, and printed back the same.\<close>

definition local_date :: "zone \<Rightarrow> string \<Rightarrow> instant option" where
  "local_date z d = (case time_parse_in z DateLayout d of
       None \<Rightarrow> None
     | Some i \<Rightarrow> if format_date_in z i \<noteq> d then None else Some i)"

text \<open>The checks of one event before its identity is looked up.\<close>

definition candidate_checks :: "zonedb \<Rightarrow> zone \<Rightarrow> event_v2 \<Rightarrow> unit res" where
  "candidate_checks db z event =
     (if ev_status event = ''cancelled'' \<or> ev_instance_kind event = ''cancelled''
      then Inl (ErrText ''cancelled events require explicit provenance'')
      else if ev_instance_kind event = ''seriesMaster'' \<or> slice_list (ev_recurrence event) \<noteq> []
      then Inl (ErrText ''cache copy requires expanded instances'')
      else bind_res (map_err (ErrWrap ''invalid cached event range'')
             (validate_event_time_range_v2 db (ev_start event) (ev_end event))) (\<lambda>_.
        case ev_original_start event of
          None \<Rightarrow> Inr ()
        | Some o' \<Rightarrow> if is_all_day o' \<and> local_date z (et_date o') = None
                    then Inl (ErrText ''invalid local original start'') else Inr ()))"

text \<open>The interval an event occupies, all-day dates read in the calendar's zone.\<close>

definition candidate_span :: "zonedb \<Rightarrow> zone \<Rightarrow> event_v2 \<Rightarrow> (instant \<times> instant) res" where
  "candidate_span db z event =
     (if is_all_day (ev_start event) then
        (case local_date z (et_date (ev_start event)) of
           None \<Rightarrow> Inl (ErrText ''invalid local all-day start'')
         | Some from \<Rightarrow> (case local_date z (et_date (ev_end event)) of
             None \<Rightarrow> Inl (ErrText ''invalid local all-day end'')
           | Some until \<Rightarrow> if \<not> from < until then Inl (ErrText ''invalid local all-day end'')
                          else Inr (from, until)))
      else Inr (instant_or_zero db (ev_start event), instant_or_zero db (ev_end event)))"

fun candidates_loop ::
  "zonedb \<Rightarrow> string \<Rightarrow> instant \<Rightarrow> instant \<Rightarrow> zone \<Rightarrow> event_v2 list \<Rightarrow> string list \<Rightarrow> candidate list \<Rightarrow>
   (candidate list) res" where
  "candidates_loop db src start stop z [] seen acc = Inr acc"
| "candidates_loop db src start stop z (event # events) seen acc =
     bind_res (candidate_checks db z event) (\<lambda>_.
     bind_res (identity db src event) (\<lambda>i.
       if i \<in> set seen then Inl (ErrText ''duplicate cached occurrence identity'')
       else bind_res (candidate_span db z event) (\<lambda>(from, until).
         if \<not> from < stop \<or> \<not> start < until
         then candidates_loop db src start stop z events (i # seen) acc
         else candidates_loop db src start stop z events (i # seen)
                (acc @ [\<lparr>cand_identity = i, cand_event = event\<rparr>]))))"

definition candidates ::
  "zonedb \<Rightarrow> string \<Rightarrow> event_v2 list \<Rightarrow> instant \<Rightarrow> instant \<Rightarrow> zone option \<Rightarrow> (candidate list) res" where
  "candidates db sourceCalendarID events start stop sourceZone =
     (if sourceCalendarID = '''' \<or> NUL \<in> set sourceCalendarID
      then Inl (ErrText ''source calendar ID is required'')
      else case sourceZone of
        None \<Rightarrow> Inl (ErrText ''source calendar time zone is required'')
      | Some z \<Rightarrow>
          if \<not> start < stop then Inl (ErrText ''cache copy window is invalid'')
          else candidates_loop db sourceCalendarID start stop z events [] [])"

section \<open>Materialization (materialize.go)\<close>

record removal_observation =
  ro_removal :: event_sync_removal
  ro_previous_identity :: string
  ro_unresolved :: bool

definition matches_cancelled_instance ::
  "zonedb \<Rightarrow> string \<Rightarrow> event_v2 \<Rightarrow> event_sync_removal \<Rightarrow> string \<Rightarrow> bool" where
  "matches_cancelled_instance db source previous removal i =
     (if ev_id previous \<noteq> rm_object_id removal \<or> ev_instance_kind previous = ''seriesMaster'' \<or>
         slice_list (ev_recurrence previous) \<noteq> [] \<or> rm_recurrence_present removal then False
      else if rm_series_id removal \<noteq> '''' \<and> rm_series_id removal \<noteq> ev_recurring_event_id previous then False
      else case rm_original_start removal of
        None \<Rightarrow> True
      | Some o' \<Rightarrow>
          if ev_original_start previous = None then False
          else identity db source (previous\<lparr>ev_original_start := Some o'\<rparr>) = Inr i)"

text \<open>The running state of the page loop: the events by ID, the IDs changed, the observations.\<close>

record materialize_state =
  ms_by_id :: "(string \<times> event_v2) list"
  ms_seen :: "string list"
  ms_observations :: "removal_observation list"

definition base_step :: "string \<Rightarrow> event_v2 \<Rightarrow> (string \<times> event_v2) list \<Rightarrow> ((string \<times> event_v2) list) res" where
  "base_step source event byID =
     (if ev_id event = '''' \<or> ev_calendar_id event \<noteq> source \<or> ev_status event = ''cancelled'' \<or>
         ev_instance_kind event = ''cancelled'' then Inl (ErrText ''invalid base event'')
      else if map_of byID (ev_id event) \<noteq> None then Inl (ErrText ''duplicate base event'')
      else Inr (AList.update (ev_id event) event byID))"

definition removal_step ::
  "event_sync_removal \<Rightarrow> (string \<times> event_sync_removal) list \<Rightarrow> ((string \<times> event_sync_removal) list) res" where
  "removal_step removal removals =
     (if rm_object_id removal = '''' \<or>
         (rm_reason removal \<noteq> EventSyncProviderCancellation \<and> rm_reason removal \<noteq> EventSyncWindowEviction)
      then Inl (ErrText ''invalid removal provenance'')
      else if map_of removals (rm_object_id removal) \<noteq> None
      then Inl (ErrText ''duplicate removal provenance'')
      else Inr (AList.update (rm_object_id removal) removal removals))"

definition deletion_step ::
  "zonedb \<Rightarrow> string \<Rightarrow> (string \<times> event_sync_removal) list \<Rightarrow> string \<Rightarrow> materialize_state \<Rightarrow> materialize_state res" where
  "deletion_step db source removals i st = (case map_of removals i of
       None \<Rightarrow> Inl (ErrText ''conflicting source changes'')
     | Some removal \<Rightarrow>
         if i \<in> set (ms_seen st) then Inl (ErrText ''conflicting source changes'')
         else bind_res (case map_of (ms_by_id st) i of
               None \<Rightarrow> Inr \<lparr>ro_removal = removal, ro_previous_identity = '''', ro_unresolved = True\<rparr>
             | Some previous \<Rightarrow>
                 bind_res (identity db source previous) (\<lambda>ident.
                   Inr \<lparr>ro_removal = removal, ro_previous_identity = ident,
                        ro_unresolved = (if rm_reason removal = EventSyncProviderCancellation
                          then \<not> matches_cancelled_instance db source previous removal ident
                          else False)\<rparr>))
           (\<lambda>observation. Inr (st\<lparr>ms_by_id := AList.delete i (ms_by_id st), ms_seen := i # ms_seen st,
              ms_observations := ms_observations st @ [observation]\<rparr>)))"

definition upsert_step :: "zonedb \<Rightarrow> string \<Rightarrow> event_sync_upsert \<Rightarrow> materialize_state \<Rightarrow> materialize_state res" where
  "upsert_step db source upsert st =
     (let event = up_event upsert in
      if ev_id event = '''' \<or> ev_calendar_id event \<noteq> source \<or> so_object_id (up_object upsert) \<noteq> ev_id event \<or>
         ev_status event = ''cancelled'' \<or> ev_instance_kind event = ''cancelled'' \<or> ev_id event \<in> set (ms_seen st)
      then Inl (ErrText ''conflicting source changes'')
      else bind_res (identity db source event) (\<lambda>_.
        if ev_instance_kind event = ''seriesMaster'' \<or> slice_list (ev_recurrence event) \<noteq> []
        then Inl (ErrText ''source projection requires expanded events'')
        else Inr (st\<lparr>ms_by_id := AList.update (ev_id event) event (ms_by_id st),
                     ms_seen := ev_id event # ms_seen st\<rparr>)))"

definition page_step ::
  "zonedb \<Rightarrow> string \<Rightarrow> string \<Rightarrow> bool \<Rightarrow> event_sync_page \<Rightarrow> materialize_state \<Rightarrow> materialize_state res" where
  "page_step db source timezone last_page page st =
     (if sp_source_time_zone page \<noteq> timezone \<or> sp_reset_required page \<or> sp_warnings page \<noteq> [] \<or>
         sp_complete page \<noteq> last_page \<or> sp_deleted_object_ids page \<noteq> [] \<or>
         sp_replaced_object_ids page \<noteq> [] \<or> sp_inventory page \<noteq> []
      then Inl (ErrText ''unsupported or incomplete source page'')
      else if length (sp_deleted_event_ids page) \<noteq> length (sp_removals page)
      then Inl (ErrText ''incomplete removal provenance'')
      else bind_res (fold_res removal_step (sp_removals page) []) (\<lambda>removals.
           bind_res (fold_res (deletion_step db source removals) (sp_deleted_event_ids page) st)
             (fold_res (upsert_step db source) (sp_upserts page))))"

text \<open>Only the last page of the list may be the complete one.\<close>

fun pages_loop ::
  "zonedb \<Rightarrow> string \<Rightarrow> string \<Rightarrow> event_sync_page list \<Rightarrow> materialize_state \<Rightarrow> materialize_state res" where
  "pages_loop db source timezone [] st = Inr st"
| "pages_loop db source timezone (page # pages) st =
     bind_res (page_step db source timezone (pages = []) page st) (pages_loop db source timezone pages)"

definition final_step ::
  "zonedb \<Rightarrow> string \<Rightarrow> event_v2 \<Rightarrow> string list \<times> event_v2 list \<Rightarrow> (string list \<times> event_v2 list) res" where
  "final_step db source event st = (case st of (identities, events) \<Rightarrow>
     bind_res (identity db source event) (\<lambda>ident.
       if ev_instance_kind event = ''seriesMaster'' \<or> slice_list (ev_recurrence event) \<noteq> []
       then Inl (ErrText ''source projection requires expanded events'')
       else bind_res (map_err (\<lambda>_. ErrText ''invalid source event range'')
              (validate_event_time_range_v2 db (ev_start event) (ev_end event))) (\<lambda>_.
         if ident \<in> set identities then Inl (ErrText ''duplicate occurrence identity'')
         else Inr (ident # identities, events @ [event]))))"

text \<open>The events of the map, in the order of their sorted IDs.\<close>

definition events_by_id :: "(string \<times> event_v2) list \<Rightarrow> event_v2 list" where
  "events_by_id byID = List.map_filter (map_of byID) (sort (map fst byID))"

definition materialize ::
  "zonedb \<Rightarrow> string \<Rightarrow> string \<Rightarrow> instant \<Rightarrow> instant \<Rightarrow> event_sync_mode \<Rightarrow> event_v2 list \<Rightarrow> bool \<Rightarrow>
   event_sync_page list \<Rightarrow> (event_v2 list \<times> removal_observation list) res" where
  "materialize db source timezone windowStart windowEnd mode base baseAvailable pages =
     (if source = '''' \<or> NUL \<in> set source \<or> timezone = '''' \<or> timezone = ''Local'' \<or>
         windowStart = zero_time \<or> \<not> windowStart < windowEnd \<or> pages = [] \<or>
         (mode \<noteq> EventSyncIncremental \<and> mode \<noteq> EventSyncReplacement) \<or>
         (mode = EventSyncIncremental \<and> \<not> baseAvailable)
      then Inl (ErrText ''invalid source projection attempt'')
      else case load_location db timezone of
        None \<Rightarrow> Inl (ErrText ''invalid source time zone'')
      | Some zone \<Rightarrow>
          if mode = EventSyncReplacement \<and> base \<noteq> [] then Inl (ErrText ''replacement must start empty'')
          else
            bind_res (fold_res (base_step source) base []) (\<lambda>byID.
            bind_res (candidates db source base windowStart windowEnd (Some zone)) (\<lambda>baseCandidates.
            if length baseCandidates \<noteq> length base
            then Inl (ErrText ''base event outside frozen window'')
            else bind_res (pages_loop db source timezone pages
                   \<lparr>ms_by_id = byID, ms_seen = [], ms_observations = []\<rparr>) (\<lambda>st.
            bind_res (fold_res (final_step db source) (events_by_id (ms_by_id st)) ([], [])) (\<lambda>(_, events).
            bind_res (candidates db source events windowStart windowEnd (Some zone)) (\<lambda>selected.
            if length selected \<noteq> length events
            then Inl (ErrText ''source event outside frozen window'')
            else Inr (events, ms_observations st)))))))"

section \<open>Facts about identities\<close>

lemma identity_parts:
  assumes "identity db src e = Inr i"
  shows "src \<noteq> ''''" "NUL \<notin> set src" "ev_calendar_id e = src" "NUL \<notin> set (ev_id e)"
    "NUL \<notin> set (ev_recurring_event_id e)"
    "ev_recurring_event_id e = '''' \<longrightarrow> ev_original_start e = None \<and> i = src @ NUL # ev_id e @ NUL # ''''"
    "ev_recurring_event_id e \<noteq> '''' \<longrightarrow> (\<exists>o' inst. ev_original_start e = Some o' \<and>
       event_time_instant db o' = Inr inst \<and>
       i = src @ NUL # (''series:'' @ ev_recurring_event_id e) @ NUL #
         (if is_all_day o' then ''date:'' @ et_date o' else ''instant:'' @ format_rfc3339_nano inst))"
  using assms
  by (auto simp: identity_def mapping_key_def Let_def bind_res_Inr_iff split: if_splits option.splits)

lemma event_time_instant_all_day:
  "event_time_instant db a = Inr i \<Longrightarrow> event_time_instant db b = Inr j \<Longrightarrow>
   is_all_day a \<Longrightarrow> is_all_day b \<Longrightarrow> et_date a = et_date b \<Longrightarrow> i = j"
  by (auto simp: event_time_instant_def bind_res_Inr_iff split: option.splits)

text \<open>
  The same slot of a series: both all-day or both timed, at the same instant.
\<close>

definition same_slot :: "zonedb \<Rightarrow> event_time option \<Rightarrow> event_time option \<Rightarrow> bool" where
  "same_slot db a b = (case (a, b) of
       (Some x, Some y) \<Rightarrow> is_all_day x = is_all_day y \<and> event_time_instant db x = event_time_instant db y
     | _ \<Rightarrow> False)"

text \<open>
  Source identities separate source objects: two events with the same identity belong to
  the same calendar and are the same standalone event, or the same original slot of the same
  series; a standalone event never shares an identity with an occurrence.
\<close>

theorem identity_injective:
  assumes "identity db src e = Inr i" and "identity db src' e' = Inr i"
  shows "src = src' \<and>
    (ev_recurring_event_id e = '''' \<and> ev_recurring_event_id e' = '''' \<and> ev_id e = ev_id e' \<or>
     ev_recurring_event_id e \<noteq> '''' \<and> ev_recurring_event_id e = ev_recurring_event_id e' \<and>
     same_slot db (ev_original_start e) (ev_original_start e'))"
proof -
  note p = identity_parts [OF assms(1)] and q = identity_parts [OF assms(2)]
  have sep: "a = a' \<and> b = b'" if "a @ NUL # b = a' @ NUL # b'" "NUL \<notin> set a" "NUL \<notin> set a'" for a b a' b'
    using that by (rule takeWhile_sep_unique)
  define mid where "mid = (\<lambda>x :: event_v2. if ev_recurring_event_id x = '''' then ev_id x
                               else ''series:'' @ ev_recurring_event_id x)"
  have nul_mid: "NUL \<notin> set (mid e)" "NUL \<notin> set (mid e')"
    using p(4,5) q(4,5) by (auto simp: mid_def)
  have ex: "\<exists>te. i = s @ NUL # mid x @ NUL # te \<and> (te = '''' \<longleftrightarrow> ev_recurring_event_id x = '''')"
    if h: "identity db s x = Inr i" for s x
  proof (cases "ev_recurring_event_id x = ''''")
    case True
    then show ?thesis using identity_parts(6) [OF h] by (simp add: mid_def)
  next
    case False
    then obtain o' inst where "i = s @ NUL # (''series:'' @ ev_recurring_event_id x) @ NUL #
        (if is_all_day o' then ''date:'' @ et_date o' else ''instant:'' @ format_rfc3339_nano inst)"
      using identity_parts(7) [OF h] by blast
    with False show ?thesis
      by (intro exI [of _ "if is_all_day o' then ''date:'' @ et_date o'
        else ''instant:'' @ format_rfc3339_nano inst"]) (simp add: mid_def)
  qed
  obtain te where te: "i = src @ NUL # mid e @ NUL # te" "te = '''' \<longleftrightarrow> ev_recurring_event_id e = ''''"
    using ex [OF assms(1)] by blast
  obtain te' where te': "i = src' @ NUL # mid e' @ NUL # te'" "te' = '''' \<longleftrightarrow> ev_recurring_event_id e' = ''''"
    using ex [OF assms(2)] by blast
  have all: "src @ NUL # mid e @ NUL # te = src' @ NUL # mid e' @ NUL # te'"
    using te(1) te'(1) by (rule subst)
  note one = sep [OF all p(2) q(2)]
  have src: "src = src'" and rest: "mid e @ NUL # te = mid e' @ NUL # te'"
    using one by blast+
  note two = sep [OF rest nul_mid]
  have mid: "mid e = mid e'" and tes: "te = te'" using two by blast+
  show ?thesis
  proof (cases "ev_recurring_event_id e = ''''")
    case True
    then show ?thesis using src mid te(2) te'(2) tes by (simp add: mid_def)
  next
    case False
    then have r: "ev_recurring_event_id e = ev_recurring_event_id e'" "ev_recurring_event_id e' \<noteq> ''''"
      using mid te(2) te'(2) tes by (auto simp: mid_def)
    obtain a x where a: "ev_original_start e = Some a" "event_time_instant db a = Inr x"
      "te = (if is_all_day a then ''date:'' @ et_date a else ''instant:'' @ format_rfc3339_nano x)"
      using p(7) False te(1) by (auto simp: mid_def)
    obtain b y where b: "ev_original_start e' = Some b" "event_time_instant db b = Inr y"
      "te' = (if is_all_day b then ''date:'' @ et_date b else ''instant:'' @ format_rfc3339_nano y)"
      using q(7) r te'(1) by (auto simp: mid_def)
    have "is_all_day a = is_all_day b" using a(3) b(3) tes by (auto split: if_splits)
    moreover have "x = y"
      using a b tes calculation format_rfc3339_nano_inj [of x y] event_time_instant_all_day [OF a(2) b(2)]
      by (auto split: if_splits)
    ultimately show ?thesis using src r a b by (simp add: same_slot_def)
  qed
qed

section \<open>Facts about candidates\<close>

text \<open>What the window selects: the event's interval meets \<open>[start, stop)\<close>.\<close>

definition overlaps :: "zonedb \<Rightarrow> zone \<Rightarrow> instant \<Rightarrow> instant \<Rightarrow> event_v2 \<Rightarrow> bool" where
  "overlaps db z start stop event = (case candidate_span db z event of
       Inl _ \<Rightarrow> False
     | Inr (from, until) \<Rightarrow> from < stop \<and> start < until)"

lemma candidates_loop_sound:
  assumes "candidates_loop db src start stop z events seen acc = Inr out"
  shows "\<exists>new. out = acc @ new \<and> map cand_event new = filter (overlaps db z start stop) events \<and>
    (\<forall>c \<in> set new. identity db src (cand_event c) = Inr (cand_identity c)) \<and>
    distinct (map cand_identity new) \<and> set (map cand_identity new) \<inter> set seen = {} \<and>
    (\<forall>e \<in> set events. candidate_checks db z e = Inr ())"
  using assms
proof (induction db src start stop z events seen acc rule: candidates_loop.induct)
  case (1 db src start stop z seen acc)
  then show ?case by simp
next
  case (2 db src start stop z event events seen acc)
  obtain i f u where run:
    "candidate_checks db z event = Inr ()" "identity db src event = Inr i" "i \<notin> set seen"
    "candidate_span db z event = Inr (f, u)"
    using "2.prems" by (auto simp: bind_res_Inr_iff split: if_splits)
  show ?case
  proof (cases "\<not> f < stop \<or> \<not> start < u")
    case True
    then have ov: "\<not> overlaps db z start stop event" using run by (auto simp: overlaps_def)
    have "candidates_loop db src start stop z events (i # seen) acc = Inr out"
      using "2.prems" run True by (simp split: if_splits)
    from "2.IH"(1) [OF run(3) True this] ov run(1) show ?thesis by auto
  next
    case False
    then have ov: "overlaps db z start stop event" using run by (auto simp: overlaps_def)
    have "candidates_loop db src start stop z events (i # seen) (acc @ [\<lparr>cand_identity = i, cand_event = event\<rparr>]) = Inr out"
      using "2.prems" run False by (simp split: if_splits)
    from "2.IH"(2) [OF run(3) False this] obtain new where new:
      "out = (acc @ [\<lparr>cand_identity = i, cand_event = event\<rparr>]) @ new"
      "map cand_event new = filter (overlaps db z start stop) events"
      "\<forall>c \<in> set new. identity db src (cand_event c) = Inr (cand_identity c)"
      "distinct (map cand_identity new)" "set (map cand_identity new) \<inter> set (i # seen) = {}"
      "\<forall>e \<in> set events. candidate_checks db z e = Inr ()" by blast
    show ?thesis
      by (rule exI [of _ "\<lparr>cand_identity = i, cand_event = event\<rparr> # new"]) (use new run ov in auto)
  qed
qed

lemma candidates_run:
  assumes "candidates db src events start stop (Some z) = Inr out"
  shows "candidates_loop db src start stop z events [] [] = Inr out" and "start < stop"
    and "src \<noteq> ''''" and "NUL \<notin> set src"
  using assms by (auto simp: candidates_def split: if_splits)

text \<open>
  The candidates of a snapshot are exactly its events that meet the window, in their order,
  each with its identity, no identity twice; and the snapshot has no cancelled event, no series
  master and no event without a valid time range, inside the window or outside it.
\<close>

theorem candidates_sound:
  assumes "candidates db src events start stop (Some z) = Inr out"
  shows "map cand_event out = filter (overlaps db z start stop) events \<and>
    distinct (map cand_identity out) \<and>
    (\<forall>c \<in> set out. identity db src (cand_event c) = Inr (cand_identity c)) \<and>
    (\<forall>e \<in> set events. ev_status e \<noteq> ''cancelled'' \<and> ev_instance_kind e \<noteq> ''cancelled'' \<and>
       ev_instance_kind e \<noteq> ''seriesMaster'' \<and> slice_list (ev_recurrence e) = [] \<and>
       validate_event_time_range_v2 db (ev_start e) (ev_end e) = Inr ())"
proof -
  have checks: "ev_status e \<noteq> ''cancelled'' \<and> ev_instance_kind e \<noteq> ''cancelled'' \<and>
      ev_instance_kind e \<noteq> ''seriesMaster'' \<and> slice_list (ev_recurrence e) = [] \<and>
      validate_event_time_range_v2 db (ev_start e) (ev_end e) = Inr ()"
    if "candidate_checks db z e = Inr ()" for e
    using that by (auto simp: candidate_checks_def bind_res_Inr_iff split: if_splits)
  from candidates_loop_sound [OF candidates_run(1) [OF assms]] checks show ?thesis by auto
qed

section \<open>Facts about materialization\<close>

definition keyed :: "event_v2 list \<Rightarrow> (string \<times> event_v2) list" where
  "keyed events = map (\<lambda>e. (ev_id e, e)) events"

lemma fst_keyed: "fst ` set (keyed events) = ev_id ` set events"
  by (force simp: keyed_def)

definition page_upserts :: "event_sync_page \<Rightarrow> (string \<times> event_v2) list" where
  "page_upserts page = keyed (map up_event (sp_upserts page))"

definition changed_events :: "event_sync_page list \<Rightarrow> (string \<times> event_v2) list" where
  "changed_events pages = concat (map page_upserts pages)"

definition deleted_ids :: "event_sync_page list \<Rightarrow> string list" where
  "deleted_ids pages = concat (map sp_deleted_event_ids pages)"

text \<open>The map the loop keeps: one entry per ID, under the ID of its event.\<close>

definition id_map :: "(string \<times> event_v2) list \<Rightarrow> bool" where
  "id_map byID \<longleftrightarrow> distinct (map fst byID) \<and> (\<forall>k e. map_of byID k = Some e \<longrightarrow> ev_id e = k)"

lemma id_map_update: "id_map m \<Longrightarrow> id_map (AList.update (ev_id e) e m)"
  by (auto simp: id_map_def distinct_update update_conv' split: if_splits)

lemma id_map_delete: "id_map m \<Longrightarrow> id_map (AList.delete k m)"
  by (auto simp: id_map_def distinct_delete)

lemma deletion_step_effect:
  assumes "deletion_step db source removals i st = Inr st'"
  shows "ms_by_id st' = AList.delete i (ms_by_id st)" "ms_seen st' = i # ms_seen st" "i \<notin> set (ms_seen st)"
    "i \<in> dom (map_of removals)"
    "\<exists>obs. ms_observations st' = ms_observations st @ [obs] \<and> map_of removals i = Some (ro_removal obs) \<and>
       (\<not> ro_unresolved obs \<longrightarrow> (\<exists>previous. map_of (ms_by_id st) i = Some previous \<and>
          identity db source previous = Inr (ro_previous_identity obs) \<and>
          (rm_reason (ro_removal obs) = EventSyncProviderCancellation \<longrightarrow>
             matches_cancelled_instance db source previous (ro_removal obs) (ro_previous_identity obs))))"
  using assms
  by (auto simp: deletion_step_def bind_res_Inr_iff split: option.splits if_splits)

lemma upsert_step_effect:
  assumes "upsert_step db source upsert st = Inr st'"
  shows "ms_by_id st' = AList.update (ev_id (up_event upsert)) (up_event upsert) (ms_by_id st)"
    "ms_seen st' = ev_id (up_event upsert) # ms_seen st" "ev_id (up_event upsert) \<notin> set (ms_seen st)"
    "ms_observations st' = ms_observations st" "ev_calendar_id (up_event upsert) = source"
  using assms
  by (auto simp: upsert_step_def Let_def bind_res_Inr_iff split: if_splits)

lemma deletions_effect:
  "fold_res (deletion_step db source removals) ids st = Inr st' \<Longrightarrow>
   map_of (ms_by_id st') = (\<lambda>k. if k \<in> set ids then None else map_of (ms_by_id st) k) \<and>
   set (ms_seen st') = set (ms_seen st) \<union> set ids \<and> set ids \<inter> set (ms_seen st) = {} \<and>
   (id_map (ms_by_id st) \<longrightarrow> id_map (ms_by_id st'))"
proof (induction ids arbitrary: st)
  case Nil
  then show ?case by simp
next
  case (Cons i ids)
  from Cons.prems(1) obtain u where u: "deletion_step db source removals i st = Inr u"
    "fold_res (deletion_step db source removals) ids u = Inr st'"
    unfolding fold_res_Cons_iff by blast
  note e = deletion_step_effect [OF u(1)]
  from Cons.IH [OF u(2)] e(1,2,3) show ?case by (auto intro: id_map_delete)
qed

lemma upserts_effect:
  "fold_res (upsert_step db source) ups st = Inr st' \<Longrightarrow>
   map_of (ms_by_id st') = map_of (ms_by_id st) ++ map_of (keyed (map up_event ups)) \<and>
   set (ms_seen st') = set (ms_seen st) \<union> fst ` set (keyed (map up_event ups)) \<and>
   fst ` set (keyed (map up_event ups)) \<inter> set (ms_seen st) = {} \<and>
   (id_map (ms_by_id st) \<longrightarrow> id_map (ms_by_id st'))"
proof (induction ups arbitrary: st)
  case Nil
  then show ?case by (simp add: keyed_def)
next
  case (Cons u ups)
  from Cons.prems(1) obtain v where v: "upsert_step db source u st = Inr v" "fold_res (upsert_step db source) ups v = Inr st'"
    unfolding fold_res_Cons_iff by blast
  note e = upsert_step_effect [OF v(1)]
  note ih = Cons.IH [OF v(2)]
  have fresh: "map_of (keyed (map up_event ups)) (ev_id (up_event u)) = None"
    using ih e(2) by (auto simp: map_of_eq_None_iff)
  have mp: "map_of (ms_by_id st') = map_of (ms_by_id st) ++ map_of (keyed (map up_event (u # ups)))"
  proof
    fix k
    show "map_of (ms_by_id st') k = (map_of (ms_by_id st) ++ map_of (keyed (map up_event (u # ups)))) k"
      using ih e(1) fresh by (cases "k = ev_id (up_event u)")
        (auto simp: keyed_def update_conv' map_add_def split: option.splits)
  qed
  have ids: "fst ` set (keyed (map up_event (u # ups))) =
      insert (ev_id (up_event u)) (fst ` set (keyed (map up_event ups)))"
    by (simp add: keyed_def)
  have "set (ms_seen st') = set (ms_seen st) \<union> fst ` set (keyed (map up_event (u # ups)))"
    "fst ` set (keyed (map up_event (u # ups))) \<inter> set (ms_seen st) = {}"
    using ih e(2,3) unfolding ids by auto
  moreover have "id_map (ms_by_id st) \<longrightarrow> id_map (ms_by_id st')" using ih e(1) id_map_update by simp
  ultimately show ?case using mp by blast
qed

lemma pages_effect:
  "pages_loop db source timezone pages st = Inr st' \<Longrightarrow>
   map_of (ms_by_id st') =
     (\<lambda>k. case map_of (changed_events pages) k of
        Some e \<Rightarrow> Some e
      | None \<Rightarrow> if k \<in> set (deleted_ids pages) then None else map_of (ms_by_id st) k) \<and>
   (set (deleted_ids pages) \<union> fst ` set (changed_events pages)) \<inter> set (ms_seen st) = {} \<and>
   set (deleted_ids pages) \<inter> fst ` set (changed_events pages) = {} \<and>
   (id_map (ms_by_id st) \<longrightarrow> id_map (ms_by_id st'))"
proof (induction pages arbitrary: st)
  case Nil
  then show ?case by (simp add: changed_events_def deleted_ids_def)
next
  case (Cons page pages)
  obtain u where u: "page_step db source timezone (pages = []) page st = Inr u"
    and rest: "pages_loop db source timezone pages u = Inr st'"
    using Cons.prems by auto
  obtain removals v where v: "fold_res (deletion_step db source removals) (sp_deleted_event_ids page) st = Inr v"
    and w: "fold_res (upsert_step db source) (sp_upserts page) v = Inr u"
    using u by (auto simp: page_step_def bind_res_Inr_iff split: if_splits)
  note d = deletions_effect [OF v] and s = upserts_effect [OF w] and ih = Cons.IH [OF rest]
  have all: "changed_events (page # pages) = page_upserts page @ changed_events pages"
    "deleted_ids (page # pages) = sp_deleted_event_ids page @ deleted_ids pages"
    by (simp_all add: changed_events_def deleted_ids_def)
  have seen: "set (ms_seen u) = set (ms_seen st) \<union> set (sp_deleted_event_ids page) \<union> fst ` set (page_upserts page)"
    using d s by (simp add: page_upserts_def)
  have disj: "fst ` set (page_upserts page) \<inter> (set (ms_seen st) \<union> set (sp_deleted_event_ids page)) = {}"
    using d s by (simp add: page_upserts_def)
  have m: "map_of (ms_by_id u) k = (case map_of (page_upserts page) k of Some e \<Rightarrow> Some e
      | None \<Rightarrow> if k \<in> set (sp_deleted_event_ids page) then None else map_of (ms_by_id st) k)" for k
    using d s by (simp add: page_upserts_def map_add_def)
  have off: "map_of (changed_events pages) k = None \<and> k \<notin> set (deleted_ids pages)" if "k \<in> set (ms_seen u)" for k
    using ih that by (auto simp: map_of_eq_None_iff)
  have "map_of (ms_by_id st') k = (case map_of (changed_events (page # pages)) k of
        Some e \<Rightarrow> Some e
      | None \<Rightarrow> if k \<in> set (deleted_ids (page # pages)) then None else map_of (ms_by_id st) k)" for k
  proof (cases "k \<in> fst ` set (page_upserts page)")
    case True
    then obtain e where "map_of (page_upserts page) k = Some e" by (metis map_of_eq_None_iff not_None_eq)
    with True off [of k] seen ih m [of k] show ?thesis unfolding all by (simp add: map_add_def)
  next
    case False
    then have "map_of (page_upserts page) k = None" by (simp add: map_of_eq_None_iff)
    with ih m [of k] show ?thesis unfolding all by (auto simp: map_add_def split: option.splits)
  qed
  moreover have "(set (deleted_ids (page # pages)) \<union> fst ` set (changed_events (page # pages))) \<inter> set (ms_seen st) = {}"
    "set (deleted_ids (page # pages)) \<inter> fst ` set (changed_events (page # pages)) = {}"
  proof -
    have ih2: "(set (deleted_ids pages) \<union> fst ` set (changed_events pages)) \<inter> set (ms_seen u) = {}"
      "set (deleted_ids pages) \<inter> fst ` set (changed_events pages) = {}"
      and d2: "set (sp_deleted_event_ids page) \<inter> set (ms_seen st) = {}"
      using ih d by blast+
    show "(set (deleted_ids (page # pages)) \<union> fst ` set (changed_events (page # pages))) \<inter> set (ms_seen st) = {}"
      "set (deleted_ids (page # pages)) \<inter> fst ` set (changed_events (page # pages)) = {}"
      using ih2 d2 disj unfolding all seen set_append image_Un by blast+
  qed
  moreover have "id_map (ms_by_id st) \<longrightarrow> id_map (ms_by_id st')" using ih d s by blast
  ultimately show ?case by blast
qed

lemma base_effect:
  "fold_res (base_step source) base acc = Inr byID \<Longrightarrow>
   map_of byID = map_of acc ++ map_of (keyed base) \<and> fst ` set (keyed base) \<inter> dom (map_of acc) = {} \<and>
   (id_map acc \<longrightarrow> id_map byID)"
proof (induction base arbitrary: acc)
  case Nil
  then show ?case by (simp add: keyed_def)
next
  case (Cons e base)
  then obtain m where m: "base_step source e acc = Inr m" "fold_res (base_step source) base m = Inr byID"
    unfolding fold_res_Cons_iff by blast
  have up: "m = AList.update (ev_id e) e acc" "map_of acc (ev_id e) = None"
    using m(1) by (auto simp: base_step_def split: if_splits)
  note ih = Cons.IH [OF m(2)]
  have fresh: "map_of (keyed base) (ev_id e) = None"
    using ih up by (auto simp: map_of_eq_None_iff update_conv')
  have "map_of byID = map_of acc ++ map_of (keyed (e # base))"
    using ih up fresh by (auto simp: keyed_def update_conv' map_add_def fun_eq_iff split: option.splits)
  moreover have "fst ` set (keyed (e # base)) \<inter> dom (map_of acc) = {}"
  proof -
    have "dom (map_of m) = insert (ev_id e) (dom (map_of acc))" using up by (simp add: update_conv')
    then show ?thesis using ih up(2) by (auto simp: fst_keyed)
  qed
  ultimately show ?case using ih up id_map_update by simp
qed

lemma events_by_id_keys:
  assumes "id_map m"
  shows "map ev_id (events_by_id m) = sort (map fst m)" and "map_of (keyed (events_by_id m)) = map_of m"
proof -
  have gen: "map ev_id (List.map_filter (map_of m) ks) = ks"
    if "set ks \<subseteq> dom (map_of m)" for ks
    using that assms by (induction ks) (auto simp: map_filter_def id_map_def)
  have dom: "set (sort (map fst m)) \<subseteq> dom (map_of m)" by (simp add: dom_map_of_conv_image_fst)
  show keys: "map ev_id (events_by_id m) = sort (map fst m)"
    using gen [OF dom] by (simp add: events_by_id_def)
  have members: "map_of m (ev_id e) = Some e" if "e \<in> set (events_by_id m)" for e
    using that assms by (auto simp: events_by_id_def map_filter_def id_map_def)
  have dk: "distinct (map fst (keyed (events_by_id m)))"
    using keys assms by (simp add: keyed_def comp_def id_map_def)
  show "map_of (keyed (events_by_id m)) = map_of m"
  proof
    fix k
    show "map_of (keyed (events_by_id m)) k = map_of m k"
    proof (cases "map_of m k")
      case None
      then have "k \<notin> set (map ev_id (events_by_id m))" unfolding keys by (auto simp: map_of_eq_None_iff)
      then have "map_of (keyed (events_by_id m)) k = None" by (simp add: map_of_eq_None_iff fst_keyed)
      then show ?thesis using None by simp
    next
      case (Some e)
      then have "k \<in> set (sort (map fst m))" by (metis domI dom_map_of_conv_image_fst set_map set_sort)
      then obtain e' where e': "e' \<in> set (events_by_id m)" "ev_id e' = k" using keys by (metis imageE set_map)
      then have "(k, e') \<in> set (keyed (events_by_id m))" by (auto simp: keyed_def)
      with dk members [OF e'(1)] e'(2) show ?thesis by (simp add: map_of_eq_Some_iff)
    qed
  qed
qed

lemma final_effect:
  "fold_res (final_step db source) events (ids, acc) = Inr (ids', out) \<Longrightarrow> out = acc @ events"
  by (induction events arbitrary: ids acc)
    (fastforce simp: final_step_def bind_res_Inr_iff split: sum.splits if_splits)+

text \<open>The steps of a run that returns a projection.\<close>

lemma materialize_run:
  assumes "materialize db source timezone windowStart windowEnd mode base baseAvailable pages = Inr (events, obs)"
  obtains zone byID st selected where
    "load_location db timezone = Some zone"
    "fold_res (base_step source) base [] = Inr byID"
    "pages_loop db source timezone pages \<lparr>ms_by_id = byID, ms_seen = [], ms_observations = []\<rparr> = Inr st"
    "events = events_by_id (ms_by_id st)" "obs = ms_observations st"
    "candidates db source events windowStart windowEnd (Some zone) = Inr selected"
    "length selected = length events"
    "mode = EventSyncReplacement \<longrightarrow> base = []"
  using assms
  by (auto simp: materialize_def bind_res_Inr_iff split: if_splits option.splits dest!: final_effect)

text \<open>
  What an observation claims, given the events before it: the removal is the provider's own,
  and a resolved one names an event the base had, with that event's identity.
\<close>

definition observation_ok ::
  "zonedb \<Rightarrow> string \<Rightarrow> (string \<Rightarrow> event_v2 option) \<Rightarrow> removal_observation \<Rightarrow> bool" where
  "observation_ok db source before obs =
     (ro_unresolved obs \<or> (\<exists>previous. before (rm_object_id (ro_removal obs)) = Some previous \<and>
        identity db source previous = Inr (ro_previous_identity obs) \<and>
        (rm_reason (ro_removal obs) = EventSyncProviderCancellation \<longrightarrow>
           matches_cancelled_instance db source previous (ro_removal obs) (ro_previous_identity obs))))"

lemma removals_keyed:
  "fold_res removal_step rs acc = Inr removals \<Longrightarrow>
   (\<forall>k r. map_of acc k = Some r \<longrightarrow> rm_object_id r = k) \<Longrightarrow>
   \<forall>k r. map_of removals k = Some r \<longrightarrow> rm_object_id r = k"
proof (induction rs arbitrary: acc)
  case Nil
  then show ?case by simp
next
  case (Cons x rs)
  from Cons.prems(1) obtain m where m: "removal_step x acc = Inr m" "fold_res removal_step rs m = Inr removals"
    unfolding fold_res_Cons_iff by blast
  have "\<forall>k r. map_of m k = Some r \<longrightarrow> rm_object_id r = k"
  proof -
    have "m = AList.update (rm_object_id x) x acc"
      using m(1) by (simp add: removal_step_def split: if_splits)
    then show ?thesis using Cons.prems(2) by (simp add: update_conv')
  qed
  with Cons.IH m(2) show ?case by blast
qed

lemma deletions_observed:
  assumes "fold_res (deletion_step db source removals) ids st = Inr st'"
    and keyed: "\<forall>k r. map_of removals k = Some r \<longrightarrow> rm_object_id r = k"
    and before: "\<forall>k. k \<notin> set (ms_seen st) \<longrightarrow> map_of (ms_by_id st) k = before k"
  shows "\<exists>new. ms_observations st' = ms_observations st @ new \<and>
    map (\<lambda>o'. rm_object_id (ro_removal o')) new = ids \<and> (\<forall>o' \<in> set new. observation_ok db source before o')"
  using assms(1) before
proof (induction ids arbitrary: st)
  case Nil
  then show ?case by simp
next
  case (Cons i ids)
  from Cons.prems(1) obtain u where u: "deletion_step db source removals i st = Inr u"
    "fold_res (deletion_step db source removals) ids u = Inr st'"
    unfolding fold_res_Cons_iff by blast
  note e = deletion_step_effect [OF u(1)]
  obtain obs where obs: "ms_observations u = ms_observations st @ [obs]"
    "map_of removals i = Some (ro_removal obs)"
    "\<not> ro_unresolved obs \<longrightarrow> (\<exists>previous. map_of (ms_by_id st) i = Some previous \<and>
       identity db source previous = Inr (ro_previous_identity obs) \<and>
       (rm_reason (ro_removal obs) = EventSyncProviderCancellation \<longrightarrow>
          matches_cancelled_instance db source previous (ro_removal obs) (ro_previous_identity obs)))"
    using e(5) by blast
  have id: "rm_object_id (ro_removal obs) = i" using keyed obs(2) by blast
  have ok: "observation_ok db source before obs"
    using obs(3) id e(3) Cons.prems(2) by (auto simp: observation_ok_def)
  have "\<forall>k. k \<notin> set (ms_seen u) \<longrightarrow> map_of (ms_by_id u) k = before k"
    using e(1,2) Cons.prems(2) by simp
  from Cons.IH [OF u(2) this] obtain new where new: "ms_observations st' = ms_observations u @ new"
    "map (\<lambda>o'. rm_object_id (ro_removal o')) new = ids" "\<forall>o' \<in> set new. observation_ok db source before o'"
    by blast
  show ?case by (rule exI [of _ "obs # new"]) (use new obs(1) id ok in auto)
qed

lemma upserts_keep_observations:
  "fold_res (upsert_step db source) ups st = Inr st' \<Longrightarrow> ms_observations st' = ms_observations st"
proof (induction ups arbitrary: st)
  case Nil
  then show ?case by simp
next
  case (Cons u ups)
  from Cons.prems(1) obtain v where "upsert_step db source u st = Inr v" "fold_res (upsert_step db source) ups v = Inr st'"
    unfolding fold_res_Cons_iff by blast
  with Cons.IH upsert_step_effect(4) show ?case by metis
qed

lemma pages_observed:
  assumes "pages_loop db source timezone pages st = Inr st'"
    and "\<forall>k. k \<notin> set (ms_seen st) \<longrightarrow> map_of (ms_by_id st) k = before k"
  shows "\<exists>new. ms_observations st' = ms_observations st @ new \<and>
    map (\<lambda>o'. rm_object_id (ro_removal o')) new = deleted_ids pages \<and>
    (\<forall>o' \<in> set new. observation_ok db source before o')"
  using assms
proof (induction pages arbitrary: st)
  case Nil
  then show ?case by (simp add: deleted_ids_def)
next
  case (Cons page pages)
  obtain u where u: "page_step db source timezone (pages = []) page st = Inr u"
    and rest: "pages_loop db source timezone pages u = Inr st'"
    using Cons.prems by auto
  obtain removals v where r: "fold_res removal_step (sp_removals page) [] = Inr removals"
    and v: "fold_res (deletion_step db source removals) (sp_deleted_event_ids page) st = Inr v"
    and w: "fold_res (upsert_step db source) (sp_upserts page) v = Inr u"
    using u by (auto simp: page_step_def bind_res_Inr_iff split: if_splits)
  have "\<forall>k r. map_of removals k = Some r \<longrightarrow> rm_object_id r = k" using removals_keyed [OF r] by simp
  from deletions_observed [OF v this Cons.prems(2)] obtain new where new:
    "ms_observations v = ms_observations st @ new"
    "map (\<lambda>o'. rm_object_id (ro_removal o')) new = sp_deleted_event_ids page"
    "\<forall>o' \<in> set new. observation_ok db source before o'" by blast
  have "\<forall>k. k \<notin> set (ms_seen u) \<longrightarrow> map_of (ms_by_id u) k = before k"
  proof (intro allI impI)
    fix k assume k: "k \<notin> set (ms_seen u)"
    have "map_of (keyed (map up_event (sp_upserts page))) k = None"
      using upserts_effect [OF w] k by (auto simp: map_of_eq_None_iff)
    then show "map_of (ms_by_id u) k = before k"
      using upserts_effect [OF w] deletions_effect [OF v] Cons.prems(2) k by (auto simp: map_add_def)
  qed
  from Cons.IH [OF rest this] obtain more where more: "ms_observations st' = ms_observations u @ more"
    "map (\<lambda>o'. rm_object_id (ro_removal o')) more = deleted_ids pages"
    "\<forall>o' \<in> set more. observation_ok db source before o'" by blast
  show ?case
    by (rule exI [of _ "new @ more"])
      (use new more upserts_keep_observations [OF w] in \<open>auto simp: deleted_ids_def\<close>)
qed

section \<open>Properties of materialization\<close>

text \<open>
  C31. Materialization applies exactly the observed changes: under each ID the next projection
  has the event the pages upserted, or nothing when the pages deleted it, or else what the base
  had, so an ID that no page mentions is never lost; the result is sorted by ID without
  duplicates, and a replacement starts from nothing.
\<close>

theorem materialize_applies_changes:
  assumes "materialize db source timezone windowStart windowEnd mode base baseAvailable pages = Inr (events, obs)"
  shows "(\<forall>i. map_of (keyed events) i = (case map_of (changed_events pages) i of
        Some e \<Rightarrow> Some e
      | None \<Rightarrow> if i \<in> set (deleted_ids pages) then None else map_of (keyed base) i)) \<and>
    sorted (map ev_id events) \<and> distinct (map ev_id events) \<and>
    (mode = EventSyncReplacement \<longrightarrow> base = [])"
proof -
  obtain zone byID st selected where run: "fold_res (base_step source) base [] = Inr byID"
    "pages_loop db source timezone pages \<lparr>ms_by_id = byID, ms_seen = [], ms_observations = []\<rparr> = Inr st"
    "events = events_by_id (ms_by_id st)" "mode = EventSyncReplacement \<longrightarrow> base = []"
    using materialize_run [OF assms] by metis
  note b = base_effect [OF run(1)]
  have "id_map byID" "map_of byID = map_of (keyed base)" using b by (simp_all add: id_map_def)
  with pages_effect [OF run(2)] have "id_map (ms_by_id st)"
    and m: "map_of (ms_by_id st) = (\<lambda>k. case map_of (changed_events pages) k of
        Some e \<Rightarrow> Some e
      | None \<Rightarrow> if k \<in> set (deleted_ids pages) then None else map_of (keyed base) k)"
    by (simp_all cong: option.case_cong if_cong)
  note k = events_by_id_keys [OF this(1)]
  have "map_of (keyed events) = map_of (ms_by_id st)" "sorted (map ev_id events)" "distinct (map ev_id events)"
    using k \<open>id_map (ms_by_id st)\<close> run(3) by (simp_all add: id_map_def)
  with m run(4) show ?thesis by simp
qed

text \<open>
  Observations are evidence, not guesses: every deletion the pages report is observed
  once, in order, with the provider's own removal record, and one that is not left unresolved
  carries the identity of the very event the base projection held under that ID, confirmed
  against the removal when the provider cancelled it.
\<close>

theorem materialize_observations:
  assumes "materialize db source timezone windowStart windowEnd mode base baseAvailable pages = Inr (events, obs)"
  shows "map (\<lambda>o'. rm_object_id (ro_removal o')) obs = deleted_ids pages \<and>
    (\<forall>o' \<in> set obs. observation_ok db source (map_of (keyed base)) o')"
proof -
  obtain zone byID st selected where run: "fold_res (base_step source) base [] = Inr byID"
    "pages_loop db source timezone pages \<lparr>ms_by_id = byID, ms_seen = [], ms_observations = []\<rparr> = Inr st"
    "obs = ms_observations st"
    using materialize_run [OF assms] by metis
  have "map_of byID = map_of (keyed base)" using base_effect [OF run(1)] by simp
  then have "\<forall>k. k \<notin> set (ms_seen \<lparr>ms_by_id = byID, ms_seen = [], ms_observations = []\<rparr>) \<longrightarrow>
      map_of (ms_by_id \<lparr>ms_by_id = byID, ms_seen = [], ms_observations = []\<rparr>) k = map_of (keyed base) k"
    by simp
  from pages_observed [OF run(2) this] run(3) show ?thesis by auto
qed

text \<open>
  C30. A projection that is published is a valid snapshot: its occurrences have distinct
  identities, every one belongs to the source calendar and meets the frozen window, and none
  is cancelled or a series master.
\<close>

theorem materialize_valid_snapshot:
  assumes "materialize db source timezone windowStart windowEnd mode base baseAvailable pages = Inr (events, obs)"
  shows "\<exists>zone selected. load_location db timezone = Some zone \<and>
    candidates db source events windowStart windowEnd (Some zone) = Inr selected \<and>
    map cand_event selected = events \<and> distinct (map cand_identity selected) \<and>
    (\<forall>e \<in> set events. ev_calendar_id e = source \<and> overlaps db zone windowStart windowEnd e \<and>
       ev_status e \<noteq> ''cancelled'' \<and> ev_instance_kind e \<noteq> ''seriesMaster'')"
proof -
  obtain zone byID st selected where run: "load_location db timezone = Some zone"
    "candidates db source events windowStart windowEnd (Some zone) = Inr selected"
    "length selected = length events"
    using materialize_run [OF assms] by metis
  obtain sel where sel: "sel = selected" "map cand_event sel = filter (overlaps db zone windowStart windowEnd) events"
    "\<forall>c \<in> set sel. identity db source (cand_event c) = Inr (cand_identity c)"
    "distinct (map cand_identity sel)"
    "\<forall>e \<in> set events. candidate_checks db zone e = Inr ()"
    using candidates_loop_sound [OF candidates_run(1) [OF run(2)]] by auto
  have "length (filter (overlaps db zone windowStart windowEnd) events) = length events"
    using sel(1,2) run(3) by (metis length_map)
  then have all: "filter (overlaps db zone windowStart windowEnd) events = events"
    by (metis filter_id_conv length_filter_less nat_neq_iff)
  then have evs: "map cand_event selected = events" using sel by simp
  have "ev_calendar_id e = source \<and> overlaps db zone windowStart windowEnd e \<and>
      ev_status e \<noteq> ''cancelled'' \<and> ev_instance_kind e \<noteq> ''seriesMaster''" if e: "e \<in> set events" for e
  proof -
    obtain c where "c \<in> set selected" "cand_event c = e" using e evs by auto
    then have "ev_calendar_id e = source" using sel(1,3) identity_parts(3) by blast
    moreover have "candidate_checks db zone e = Inr ()" using sel(5) e by blast
    moreover have "overlaps db zone windowStart windowEnd e" using all e by (metis filter_id_conv)
    ultimately show ?thesis by (auto simp: candidate_checks_def split: if_splits)
  qed
  with run(1,2) evs sel(1,4) show ?thesis by blast
qed

section \<open>Concrete runs\<close>

definition sample_event :: "string \<Rightarrow> event_v2" where
  "sample_event i = zero_event\<lparr>ev_id := i, ev_calendar_id := ''c'',
     ev_start := zero_event_time\<lparr>et_date := ''2024-02-28''\<rparr>,
     ev_end := zero_event_time\<lparr>et_date := ''2024-03-01''\<rparr>\<rparr>"

definition sample_occurrence :: "string \<Rightarrow> event_v2" where
  "sample_occurrence i = sample_event i\<lparr>ev_recurring_event_id := ''s'',
     ev_original_start := Some (zero_event_time\<lparr>et_date := ''2024-02-28''\<rparr>)\<rparr>"

definition sample_page :: event_sync_page where
  "sample_page = \<lparr>sp_source_time_zone = ''UTC'',
     sp_upserts = [\<lparr>up_object = \<lparr>so_object_id = ''e'', so_etag = ''''\<rparr>, up_event = sample_event ''e''\<rparr>],
     sp_deleted_event_ids = [''a''],
     sp_removals = [\<lparr>rm_object_id = ''a'', rm_reason = EventSyncProviderCancellation, rm_series_id = '''',
       rm_original_start = None, rm_recurrence_present = False\<rparr>],
     sp_deleted_object_ids = [], sp_replaced_object_ids = [], sp_inventory = [],
     sp_next_page_token = '''', sp_next_cursor = '''', sp_reset_required = False, sp_complete = True,
     sp_warnings = []\<rparr>"

definition sample_window :: "instant \<times> instant" where
  "sample_window = (1704067200 * nanos, 1735689600 * nanos)"

definition sample_observation :: removal_observation where
  "sample_observation = \<lparr>ro_removal = hd (sp_removals sample_page),
     ro_previous_identity = mapping_key ''c'' (mapping_key ''a'' ''''), ro_unresolved = False\<rparr>"

lemma sample_run:
  "materialize (\<lambda>_. None) ''c'' ''UTC'' (fst sample_window) (snd sample_window) EventSyncIncremental
     [sample_event ''a'', sample_event ''b''] True [sample_page] =
   Inr ([sample_event ''b'', sample_event ''e''], [sample_observation])"
  by code_simp

lemma sample_candidates_run:
  "candidates (\<lambda>_. None) ''c'' [sample_event ''a'', sample_event ''b''] (fst sample_window) (snd sample_window)
     (Some utc_zone) =
   Inr [\<lparr>cand_identity = mapping_key ''c'' (mapping_key ''a'' ''''), cand_event = sample_event ''a''\<rparr>,
        \<lparr>cand_identity = mapping_key ''c'' (mapping_key ''b'' ''''), cand_event = sample_event ''b''\<rparr>]"
  by code_simp

lemma sample_occurrence_identity:
  "identity (\<lambda>_. None) ''c'' (sample_occurrence ''x'') = identity (\<lambda>_. None) ''c'' (sample_occurrence ''y'')"
  "identity (\<lambda>_. None) ''c'' (sample_occurrence ''y'') =
     Inr (mapping_key ''c'' (mapping_key ''series:s'' ''date:2024-02-28''))"
  by code_simp+

theorem identity_injective_witness:
  "(''c'' :: string) = ''c'' \<and>
    (ev_recurring_event_id (sample_occurrence ''x'') = '''' \<and> ev_recurring_event_id (sample_occurrence ''y'') = '''' \<and>
       ev_id (sample_occurrence ''x'') = ev_id (sample_occurrence ''y'') \<or>
     ev_recurring_event_id (sample_occurrence ''x'') \<noteq> '''' \<and>
     ev_recurring_event_id (sample_occurrence ''x'') = ev_recurring_event_id (sample_occurrence ''y'') \<and>
     same_slot (\<lambda>_. None) (ev_original_start (sample_occurrence ''x'')) (ev_original_start (sample_occurrence ''y'')))"
  using identity_injective [of "\<lambda>_. None" "''c''" "sample_occurrence ''x''" _ "''c''" "sample_occurrence ''y''"]
    sample_occurrence_identity by simp

theorem candidates_sound_witness:
  "map cand_event [\<lparr>cand_identity = mapping_key ''c'' (mapping_key ''a'' ''''), cand_event = sample_event ''a''\<rparr>,
      \<lparr>cand_identity = mapping_key ''c'' (mapping_key ''b'' ''''), cand_event = sample_event ''b''\<rparr>] =
   filter (overlaps (\<lambda>_. None) utc_zone (fst sample_window) (snd sample_window)) [sample_event ''a'', sample_event ''b'']"
  using candidates_sound [OF sample_candidates_run] by blast

theorem materialize_applies_changes_witness:
  "map_of (keyed [sample_event ''b'', sample_event ''e'']) ''b'' =
     (case map_of (changed_events [sample_page]) ''b'' of
        Some e \<Rightarrow> Some e
      | None \<Rightarrow> if ''b'' \<in> set (deleted_ids [sample_page]) then None
                else map_of (keyed [sample_event ''a'', sample_event ''b'']) ''b'') \<and>
   sorted (map ev_id [sample_event ''b'', sample_event ''e''])"
  using materialize_applies_changes [OF sample_run] by blast

theorem materialize_observations_witness:
  "map (\<lambda>o'. rm_object_id (ro_removal o')) [sample_observation] = deleted_ids [sample_page] \<and>
   observation_ok (\<lambda>_. None) ''c'' (map_of (keyed [sample_event ''a'', sample_event ''b''])) sample_observation \<and>
   \<not> ro_unresolved sample_observation"
  using materialize_observations [OF sample_run] by (simp add: sample_observation_def)

theorem materialize_valid_snapshot_witness:
  "\<exists>zone selected. load_location (\<lambda>_. None) ''UTC'' = Some zone \<and>
     candidates (\<lambda>_. None) ''c'' [sample_event ''b'', sample_event ''e''] (fst sample_window) (snd sample_window)
       (Some zone) = Inr selected \<and>
     map cand_event selected = [sample_event ''b'', sample_event ''e''] \<and> distinct (map cand_identity selected)"
  using materialize_valid_snapshot [OF sample_run] by (elim exE conjE) (intro exI conjI; assumption)

end
