(* ===== verification/Sync_Db.thy ===== *)
theory Sync_Db
  imports Mapping_Store
begin

text \<open>
  The tables of the synchronization store (\<open>src/internal/storage/models.go\<close> and the
  migrations) and its transactions.  A table is the list of its rows in insertion order, which
  is the order a query returns ties in.  A transaction is a function of the whole database that
  returns an error, and then nothing is written (\<open>defer tx.Rollback()\<close>), or a result with
  the database it commits.
\<close>

section \<open>Rows\<close>

record connection_row =
  cn_id :: string
  cn_provider :: string
  cn_account_fingerprint :: string
  cn_display_name :: string
  cn_status :: string

record calendar_row =
  cl_id :: string
  cl_connection_id :: string
  cl_provider_calendar_id :: string
  cl_name :: string
  cl_timezone :: string
  cl_can_read :: bool
  cl_can_write :: bool
  cl_supports_recurrence :: bool
  cl_google_primary :: bool
  cl_enabled :: bool
  cl_discovered_at :: instant

record rule =
  ru_id :: string
  ru_source_calendar_id :: string
  ru_target_calendar_id :: string
  ru_state :: string
  ru_sync_mode :: string
  ru_interval_seconds :: int
  ru_lookback_days :: int
  ru_lookahead_days :: int
  ru_recurrence_mode :: string
  ru_notification_policy :: string
  ru_copy_attendees :: bool
  ru_next_run_at :: "instant option"
  ru_consecutive_failures :: int
  ru_created_at :: instant
  ru_updated_at :: instant

text \<open>The stored rule has a version that only the database's triggers write.\<close>

record rule_row = rule +
  ru_config_version :: int

record job =
  jb_id :: string
  jb_rule_id :: string
  jb_kind :: string
  jb_state :: string
  jb_claimed_by :: string
  jb_available_at :: instant
  jb_created_at :: instant
  jb_claimed_at :: "instant option"
  jb_finished_at :: "instant option"
  jb_attempt :: int

record job_row =
  jr_id :: string
  jr_rule_id :: string
  jr_kind :: string
  jr_state :: string
  jr_claimed_by :: "string option"
  jr_available_at :: instant
  jr_created_at :: instant
  jr_claimed_at :: "instant option"
  jr_finished_at :: "instant option"
  jr_lease_until :: "instant option"
  jr_attempt :: int
  jr_stop_requested :: bool

record preview_entry =
  pe_action :: string
  pe_title :: string
  pe_start :: event_time
  pe_kind :: string
  pe_reason :: string
  pe_target_status :: string

record sync_run_preview =
  rp_entries :: "preview_entry list"
  rp_total :: int
  rp_truncated :: bool
  rp_source_revision :: int
  rp_rule_config_version :: int
  rp_target_status :: string

record run =
  rn_id :: string
  rn_job_id :: string
  rn_rule_id :: string
  rn_trigger :: string
  rn_outcome :: string
  rn_started_at :: instant
  rn_finished_at :: "instant option"
  rn_created_count :: int
  rn_updated_count :: int
  rn_deleted_count :: int
  rn_skipped_count :: int
  rn_warning_count :: int
  rn_error_code :: string
  rn_error_summary :: string
  rn_dry_run :: bool
  rn_stop_requested :: bool
  rn_provider_dispatched :: bool
  rn_preview :: "sync_run_preview option"

record preview_row =
  pw_run_id :: string
  pw_expires_at :: instant
  pw_payload :: "string option"

record calendar_sync_state =
  ss_calendar_id :: string
  ss_strategy :: string
  ss_cursor :: string
  ss_window_start :: instant
  ss_window_end :: instant
  ss_generation :: int
  ss_status :: string
  ss_next_sync_at :: instant
  ss_last_started_at :: "instant option"
  ss_last_success_at :: "instant option"
  ss_last_error_code :: "string option"
  ss_lease_owner :: "string option"
  ss_lease_until :: "instant option"
  ss_updated_at :: instant

record mutation_operation =
  mo_operation_id :: string
  mo_calendar_ids :: string
  mo_started_at :: instant
  mo_resolved_at :: "instant option"

record reservation =
  rs_operation_id :: string
  rs_target_key :: string
  rs_request_hash :: string
  rs_operation_kind :: string
  rs_created_at :: instant
  rs_released_at :: "instant option"

record target_intent =
  ti_operation_id :: string
  ti_rule_id :: string
  ti_status :: string

record oauth_attempt =
  oa_state_hash :: string
  oa_provider :: string
  oa_connection_id :: string
  oa_mode :: string
  oa_return_path :: string
  oa_encrypted_verifier :: string
  oa_expires_at :: instant
  oa_consumed_at :: "instant option"

text \<open>The read model: the cached events of the calendars and what their synchronization keeps.\<close>

record cached_row =
  ce_calendar_id :: string
  ce_event_id :: string
  ce_source_object_id :: string
  ce_etag :: string
  ce_payload :: "event_v2 option"
  ce_start_at :: "instant option"
  ce_end_at :: "instant option"
  ce_start_date :: "string option"
  ce_end_date :: "string option"
  ce_deleted :: bool
  ce_sync_generation :: int
  ce_provider_updated_at :: "instant option"
  ce_synced_at :: instant

record object_row =
  ob_calendar_id :: string
  ob_object_id :: string
  ob_etag :: string
  ob_sync_generation :: int

record quarantine_row =
  qr_calendar_id :: string
  qr_object_id :: string
  qr_etag :: string
  qr_error_code :: string
  qr_first_seen_at :: instant
  qr_last_seen_at :: instant
  qr_next_repair_at :: instant
  qr_repair_attempts :: int
  qr_active :: bool
  qr_authorized_etag :: string

record artifact_row =
  ar_calendar_id :: string
  ar_object_id :: string
  ar_etag :: string
  ar_ciphertext :: string
  ar_payload_sha256 :: string
  ar_content_type :: string
  ar_provider_status :: int
  ar_provider_reason :: string
  ar_truncated :: bool
  ar_captured_at :: instant
  ar_expires_at :: instant

record correction_row =
  pc_calendar_id :: string
  pc_object_id :: string
  pc_outcome :: string
  pc_corrected_at :: instant

record cache_tables =
  ct_events :: "cached_row list"
  ct_objects :: "object_row list"
  ct_quarantine :: "quarantine_row list"
  ct_artifacts :: "artifact_row list"
  ct_corrections :: "correction_row list"

text \<open>
  The published projections of source calendars and the attempts that build them.  A snapshot row
  carries the observations of its row in \<open>projection_revision_provenance\<close> (which is deleted with
  it), the staging table has the same columns; \<open>pt_revisions\<close> is the column \<open>revision\<close> of
  the guards, 0 where it has no entry; the last two lists are the source columns of
  \<open>cache_event_mappings\<close> and \<open>target_operation_intents\<close>.
\<close>

record snapshot_row =
  sn_calendar_id :: string
  sn_revision :: int
  sn_stage_id :: string
  sn_guard_epoch :: int
  sn_base_revision :: int
  sn_window_start :: instant
  sn_window_end :: instant
  sn_completed_at :: instant
  sn_timezone :: string
  sn_cursor :: string
  sn_payload :: string
  sn_verified :: bool
  sn_observations :: "string option"

record page_attempt_row =
  ap_calendar_id :: string
  ap_generation :: int
  ap_attempt_id :: string
  ap_lease_owner :: string
  ap_mode :: string
  ap_base_revision :: int
  ap_base_cursor :: string
  ap_guard_epoch :: int
  ap_window_start :: instant
  ap_window_end :: instant
  ap_timezone :: string
  ap_next_ordinal :: int
  ap_next_token_hash :: string
  ap_total_bytes :: int
  ap_complete :: bool
  ap_final_cursor :: string

record page_row =
  pg_calendar_id :: string
  pg_generation :: int
  pg_ordinal :: int
  pg_hash :: string
  pg_previous_hash :: string
  pg_next_hash :: string
  pg_payload :: string

record pin_row =
  pn_pin_id :: string
  pn_calendar_id :: string
  pn_revision :: int
  pn_rule_id :: string
  pn_job_id :: string
  pn_job_attempt :: int
  pn_worker_id :: string
  pn_status :: string

record checkpoint_row =
  ck_rule_id :: string
  ck_calendar_id :: string
  ck_revision :: int
  ck_pin_id :: string

record source_intent_row =
  si_rule_id :: string
  si_source_calendar_id :: string
  si_source_revision :: int
  si_job_id :: string
  si_job_attempt :: int
  si_worker_id :: string

record projection_tables =
  pt_revisions :: "(string \<times> int) list"
  pt_staging :: "snapshot_row list"
  pt_snapshots :: "snapshot_row list"
  pt_attempts :: "page_attempt_row list"
  pt_pages :: "page_row list"
  pt_pins :: "pin_row list"
  pt_checkpoints :: "checkpoint_row list"
  pt_cache_sources :: "(string \<times> int) list"
  pt_intent_sources :: "source_intent_row list"

text \<open>
  \<open>db_guards\<close> is \<open>projection_mutation_guards\<close> (calendar, epoch), \<open>db_intents\<close> is
  \<open>projection_mutation_intents\<close> (calendar, mutation), \<open>db_members\<close> and
  \<open>db_guard_members\<close> the two member tables (operation, calendar), and
  \<open>db_cache_rules\<close> the rules that occur in \<open>cache_event_mappings\<close>.
\<close>

record sync_db =
  db_connections :: "connection_row list"
  db_calendars :: "calendar_row list"
  db_rules :: "rule_row list"
  db_jobs :: "job_row list"
  db_runs :: "run list"
  db_previews :: "preview_row list"
  db_mappings :: mapping_table
  db_sync_states :: "calendar_sync_state list"
  db_operations :: "mutation_operation list"
  db_reservations :: "reservation list"
  db_guards :: "(string \<times> int) list"
  db_intents :: "(string \<times> string) list"
  db_members :: "(string \<times> string) list"
  db_guard_members :: "(string \<times> string) list"
  db_target_intents :: "target_intent list"
  db_cache_rules :: "string list"
  db_oauth_attempts :: "oauth_attempt list"
  db_cache :: cache_tables
  db_projection :: projection_tables

definition empty_cache :: cache_tables where
  "empty_cache = \<lparr>ct_events = [], ct_objects = [], ct_quarantine = [], ct_artifacts = [], ct_corrections = []\<rparr>"

definition empty_projection :: projection_tables where
  "empty_projection = \<lparr>pt_revisions = [], pt_staging = [], pt_snapshots = [], pt_attempts = [], pt_pages = [],
     pt_pins = [], pt_checkpoints = [], pt_cache_sources = [], pt_intent_sources = []\<rparr>"

definition empty_db :: sync_db where
  "empty_db = \<lparr>db_connections = [], db_calendars = [], db_rules = [], db_jobs = [], db_runs = [],
     db_previews = [], db_mappings = [], db_sync_states = [], db_operations = [], db_reservations = [],
     db_guards = [], db_intents = [], db_members = [], db_guard_members = [], db_target_intents = [],
     db_cache_rules = [], db_oauth_attempts = [], db_cache = empty_cache,
     db_projection = empty_projection\<rparr>"

section \<open>Transactions\<close>

type_synonym 'a tx = "sync_db \<Rightarrow> err + ('a \<times> sync_db)"

definition run_tx :: "'a tx \<Rightarrow> (sync_db, 'a) prog" where
  "run_tx t = (\<lambda>db. case t db of Inl e \<Rightarrow> (Inl e, db) | Inr (x, db') \<Rightarrow> (Inr x, db'))"

text \<open>An UPDATE of the rows that meet a condition; its count is \<open>RowsAffected\<close>.\<close>

definition update_rows :: "('r \<Rightarrow> bool) \<Rightarrow> ('r \<Rightarrow> 'r) \<Rightarrow> 'r list \<Rightarrow> 'r list" where
  "update_rows P f rows = map (\<lambda>r. if P r then f r else r) rows"

definition count_rows :: "('r \<Rightarrow> bool) \<Rightarrow> 'r list \<Rightarrow> nat" where
  "count_rows P rows = length (filter P rows)"

definition unique_violation :: err where "unique_violation = ErrExt ''UNIQUE constraint failed''"
definition foreign_key_violation :: err where "foreign_key_violation = ErrExt ''FOREIGN KEY constraint failed''"

lemma run_tx_error: "t db = Inl e \<Longrightarrow> run_tx t db = (Inl e, db)"
  and run_tx_commit: "t db = Inr (x, db') \<Longrightarrow> run_tx t db = (Inr x, db')"
  by (simp_all add: run_tx_def)

lemma run_tx_invariant:
  "(\<And>x db'. t db = Inr (x, db') \<Longrightarrow> I db') \<Longrightarrow> I db \<Longrightarrow> I (snd (run_tx t db))"
  by (auto simp: run_tx_def split: sum.splits)

lemma preserves_run_tx [preserves_intros]:
  "(\<And>db x db'. I db \<Longrightarrow> t db = Inr (x, db') \<Longrightarrow> I db') \<Longrightarrow> preserves I (run_tx t)"
  unfolding preserves_def by (auto intro: run_tx_invariant)

lemma update_rows_nil [simp]: "update_rows P f [] = []"
  and update_rows_cons [simp]: "update_rows P f (r # rs) = (if P r then f r else r) # update_rows P f rs"
  and update_rows_append [simp]: "update_rows P f (rs @ ss) = update_rows P f rs @ update_rows P f ss"
  by (simp_all add: update_rows_def)

lemma length_update_rows [simp]: "length (update_rows P f rows) = length rows"
  by (simp add: update_rows_def)

lemma set_update_rows: "set (update_rows P f rows) = (\<lambda>r. if P r then f r else r) ` set rows"
  by (simp add: update_rows_def)

lemma map_update_rows:
  "(\<And>r. r \<in> set rows \<Longrightarrow> P r \<Longrightarrow> g (f r) = g r) \<Longrightarrow> map g (update_rows P f rows) = map g rows"
  by (induction rows) auto

lemma update_rows_none: "\<not> list_ex P rows \<Longrightarrow> update_rows P f rows = rows"
  by (induction rows) auto

lemma count_rows_nil [simp]: "count_rows P [] = 0"
  and count_rows_cons [simp]: "count_rows P (r # rs) = (if P r then Suc (count_rows P rs) else count_rows P rs)"
  and count_rows_append [simp]: "count_rows P (rs @ ss) = count_rows P rs + count_rows P ss"
  by (simp_all add: count_rows_def)

lemma count_rows_zero: "count_rows P rows = 0 \<longleftrightarrow> (\<forall>r \<in> set rows. \<not> P r)"
  by (induction rows) auto

lemma count_rows_oneD: "count_rows P rows = 1 \<Longrightarrow> \<exists>r \<in> set rows. P r \<and> (\<forall>q \<in> set rows. P q \<longrightarrow> q = r)"
  by (induction rows) (auto simp: count_rows_zero split: if_splits)

lemma count_rows_mono: "(\<And>r. r \<in> set rows \<Longrightarrow> P r \<Longrightarrow> Q r) \<Longrightarrow> count_rows P rows \<le> count_rows Q rows"
  by (induction rows) auto

text \<open>With a primary key, at most one row has a given key.\<close>

lemma count_rows_key_le_one:
  "distinct (map k rows) \<Longrightarrow> (\<And>r. r \<in> set rows \<Longrightarrow> P r \<Longrightarrow> k r = i) \<Longrightarrow> count_rows P rows \<le> 1"
proof (induction rows)
  case Nil
  then show ?case by simp
next
  case (Cons r rows)
  have rest: "count_rows P rows = 0" if "P r"
    using Cons.prems that by (fastforce simp: count_rows_zero)
  show ?case using Cons rest by auto
qed

end
