(* ===== verification/Dispatch_Store.thy ===== *)
theory Dispatch_Store
  imports Sync_Db Write_Dispatch
begin

text \<open>
  The durable fence around provider writes: \<open>exclusive_dispatch_fence.go\<close>,
  \<open>experimental_exclusive_release.go\<close>, \<open>write_dispatch.go\<close> and the projection mutation
  ledger of \<open>projection_mutations.go\<close>, \<open>projection_mutations_many.go\<close> and
  \<open>projection_mutations_reconcile.go\<close> in \<open>src/internal/storage\<close>.  The row locks of both
  dialects are the atomicity of a transaction here.
\<close>

section \<open>Identities\<close>

definition maxPendingProjectionMutations :: nat where "maxPendingProjectionMutations = 1024"
definition maxProjectionMutationCalendars :: nat where "maxProjectionMutationCalendars = 32"
definition GlobalSyncDispatchKey :: string where "GlobalSyncDispatchKey = ''calendar-sync-engine-global-v1''"

definition hex_value :: "char \<Rightarrow> nat option" where
  "hex_value c =
     (let n = of_char c :: nat in
      if 48 \<le> n \<and> n \<le> 57 then Some (n - 48)
      else if 97 \<le> n \<and> n \<le> 102 then Some (n - 87)
      else if 65 \<le> n \<and> n \<le> 70 then Some (n - 55)
      else None)"

fun hex_decode :: "string \<Rightarrow> nat list option" where
  "hex_decode [] = Some []"
| "hex_decode [c] = None"
| "hex_decode (c # d # rest) = (case (hex_value c, hex_value d, hex_decode rest) of
       (Some a, Some b, Some bs) \<Rightarrow> Some ((16 * a + b) # bs)
     | _ \<Rightarrow> None)"

definition target_digest :: "string \<Rightarrow> bool" where
  "target_digest value = (case hex_decode value of
       None \<Rightarrow> False
     | Some decoded \<Rightarrow> length decoded = 32 \<and> hex_encode decoded = value)"

definition valid_mutation_char :: "char \<Rightarrow> bool" where
  "valid_mutation_char c =
     (let n = of_char c :: nat in
      97 \<le> n \<and> n \<le> 122 \<or> 65 \<le> n \<and> n \<le> 90 \<or> 48 \<le> n \<and> n \<le> 57 \<or> c = CHR ''-'' \<or> c = CHR ''_'')"

definition valid_projection_mutation_id :: "string \<Rightarrow> bool" where
  "valid_projection_mutation_id i =
     (if length i < 16 \<or> length i > 128 then False else list_all valid_mutation_char i)"

definition valid_exclusive_target_key :: "string \<Rightarrow> bool" where
  "valid_exclusive_target_key key \<longleftrightarrow> key \<noteq> '''' \<and> length key \<le> 512 \<and> NUL \<notin> set key"

definition normalize_mutation_calendars :: "string list \<Rightarrow> (string list \<times> string) res" where
  "normalize_mutation_calendars ids =
     (if ids = [] \<or> length ids > 128 then Inl (Sentinel ErrProjectionMutationManyConflict)
      else if list_ex (\<lambda>i. i = '''' \<or> length i > 1024 \<or> NUL \<in> set i) ids
      then Inl (Sentinel ErrProjectionMutationManyConflict)
      else let seen = remdups ids in
        if length seen > maxProjectionMutationCalendars
        then Inl (Sentinel ErrProjectionMutationManyConflict)
        else let result = sort seen in Inr (result, json_array (map json_string result)))"

section \<open>Steps inside a transaction\<close>

text \<open>\<open>advanceProjectionMutationGuard\<close>: the guard must exist.\<close>

definition advance_projection_mutation_guard :: "string \<Rightarrow> unit tx" where
  "advance_projection_mutation_guard calendarID db =
     (if count_rows (\<lambda>g. fst g = calendarID) (db_guards db) \<noteq> 1 then Inl (Sentinel ErrNotFound)
      else Inr ((), db\<lparr>db_guards := update_rows (\<lambda>g. fst g = calendarID) (\<lambda>(c, e). (c, e + 1)) (db_guards db)\<rparr>))"

definition lock_mutation_calendars :: "string list \<Rightarrow> sync_db \<Rightarrow> unit res" where
  "lock_mutation_calendars ids db =
     fold_res (\<lambda>i _. if count_rows (\<lambda>c. cl_id c = i) (db_calendars db) \<noteq> 1
                    then Inl (Sentinel ErrProjectionMutationManyConflict) else Inr ()) ids ()"

definition init_guard :: "string \<Rightarrow> sync_db \<Rightarrow> sync_db" where
  "init_guard calendarID db =
     (if list_ex (\<lambda>g. fst g = calendarID) (db_guards db) then db
      else db\<lparr>db_guards := db_guards db @ [(calendarID, 0)]\<rparr>)"

definition insert_intent :: "string \<Rightarrow> string \<Rightarrow> unit tx" where
  "insert_intent calendarID mutationID db =
     (if (calendarID, mutationID) \<in> set (db_intents db) then Inl unique_violation
      else Inr ((), db\<lparr>db_intents := db_intents db @ [(calendarID, mutationID)]\<rparr>))"

text \<open>
  The common part of the three \<open>begin\<close> operations: the guard of one calendar advances, and
  the calendar gets one more pending intent, up to the limit.
\<close>

definition guard_and_intend :: "string \<Rightarrow> string \<Rightarrow> unit tx" where
  "guard_and_intend calendarID mutationID db =
     bind_res (advance_projection_mutation_guard calendarID (init_guard calendarID db)) (\<lambda>(_, db1).
       if count_rows (\<lambda>x. fst x = calendarID) (db_intents db1) \<ge> maxPendingProjectionMutations
       then Inl (Sentinel ErrProjectionMutationLimit)
       else insert_intent calendarID mutationID db1)"

definition insert_member :: "string \<Rightarrow> string \<Rightarrow> unit tx" where
  "insert_member operationID calendarID db =
     (if (operationID, calendarID) \<in> set (db_members db) then Inl unique_violation
      else Inr ((), db\<lparr>db_members := db_members db @ [(operationID, calendarID)]\<rparr>))"

definition insert_guard_member :: "string \<Rightarrow> string \<Rightarrow> unit tx" where
  "insert_guard_member operationID calendarID db =
     (if (operationID, calendarID) \<in> set (db_guard_members db) then Inl unique_violation
      else Inr ((), db\<lparr>db_guard_members := db_guard_members db @ [(operationID, calendarID)]\<rparr>))"

section \<open>Projection mutations (projection_mutations.go)\<close>

definition begin_projection_mutation :: "string \<Rightarrow> string \<Rightarrow> instant \<Rightarrow> unit tx" where
  "begin_projection_mutation calendarID mutationID now db =
     (if calendarID = '''' \<or> \<not> valid_projection_mutation_id mutationID \<or> now = zero_time
      then Inl (ErrText ''invalid projection mutation identity or time'')
      else if \<not> list_ex (\<lambda>c. cl_id c = calendarID) (db_calendars db) then Inl foreign_key_violation
      else guard_and_intend calendarID mutationID db)"

definition resolve_projection_mutation :: "string \<Rightarrow> string \<Rightarrow> unit tx" where
  "resolve_projection_mutation calendarID mutationID db =
     (if calendarID = '''' \<or> \<not> valid_projection_mutation_id mutationID
      then Inl (ErrText ''invalid projection mutation identity'')
      else bind_res (advance_projection_mutation_guard calendarID db) (\<lambda>(_, db1).
        if count_rows (\<lambda>x. x = (calendarID, mutationID)) (db_intents db1) \<noteq> 1 then Inl (Sentinel ErrNotFound)
        else Inr ((), db1\<lparr>db_intents := filter (\<lambda>x. x \<noteq> (calendarID, mutationID)) (db_intents db1)\<rparr>)))"

definition inspect_projection_mutations :: "string \<Rightarrow> sync_db \<Rightarrow> (int \<times> nat) res" where
  "inspect_projection_mutations calendarID db = (case map_of (db_guards db) calendarID of
       None \<Rightarrow> Inl (Sentinel ErrNotFound)
     | Some epoch \<Rightarrow> Inr (epoch, count_rows (\<lambda>x. fst x = calendarID) (db_intents db)))"

definition has_projection_mutation :: "string \<Rightarrow> string \<Rightarrow> sync_db \<Rightarrow> bool res" where
  "has_projection_mutation calendarID mutationID db =
     (if calendarID = '''' \<or> \<not> valid_projection_mutation_id mutationID
      then Inl (ErrText ''invalid projection mutation identity'')
      else Inr ((calendarID, mutationID) \<in> set (db_intents db)))"

section \<open>Operations over several calendars (projection_mutations_many.go)\<close>

definition operation_mutation_id :: "string \<Rightarrow> string" where
  "operation_mutation_id operationID = CHR '':'' # operationID"

definition intend_calendar :: "string \<Rightarrow> string \<Rightarrow> sync_db \<Rightarrow> sync_db res" where
  "intend_calendar operationID i db =
     bind_res (guard_and_intend i (operation_mutation_id operationID) db) (\<lambda>(_, db1).
     bind_res (insert_member operationID i db1) (\<lambda>(_, db2). Inr db2))"

definition begin_projection_mutation_many :: "string list \<Rightarrow> string \<Rightarrow> instant \<Rightarrow> unit tx" where
  "begin_projection_mutation_many calendarIDs operationID now db =
     (case normalize_mutation_calendars calendarIDs of
        Inl _ \<Rightarrow> Inl (Sentinel ErrProjectionMutationManyConflict)
      | Inr (ids, encoded) \<Rightarrow>
          if \<not> valid_projection_mutation_id operationID \<or> now = zero_time
          then Inl (Sentinel ErrProjectionMutationManyConflict)
          else if list_ex (\<lambda>o'. mo_operation_id o' = operationID) (db_operations db) then Inl unique_violation
          else let db1 = db\<lparr>db_operations := db_operations db @
                 [\<lparr>mo_operation_id = operationID, mo_calendar_ids = encoded, mo_started_at = now, mo_resolved_at = None\<rparr>]\<rparr> in
            bind_res (lock_mutation_calendars ids db1) (\<lambda>_.
              if count_rows (\<lambda>x. snd x = operation_mutation_id operationID) (db_intents db1) \<noteq> 0
              then Inl (Sentinel ErrProjectionMutationManyConflict)
              else bind_res (fold_res (intend_calendar operationID) ids db1)
                (\<lambda>db2. Inr ((), db2))))"

section \<open>The exclusive fence (exclusive_dispatch_fence.go)\<close>

record exclusive_request =
  xr_operation_id :: string
  xr_target_key :: string
  xr_request_hash :: string
  xr_kind :: string
  xr_calendar_ids :: "string list"
  xr_now :: instant

definition active_reservation :: "string \<Rightarrow> reservation \<Rightarrow> bool" where
  "active_reservation key r \<longleftrightarrow> rs_target_key r = key \<and> rs_released_at r = None"

text \<open>
  INSERT ... ON CONFLICT DO NOTHING: the primary key, and the partial unique index
  \<open>exclusive_dispatch_active_target\<close>.
\<close>

definition insert_exclusive_reservation :: "exclusive_request \<Rightarrow> unit tx" where
  "insert_exclusive_reservation req db =
     (if list_ex (\<lambda>r. rs_operation_id r = xr_operation_id req \<or> active_reservation (xr_target_key req) r)
           (db_reservations db)
      then Inl (Sentinel ErrExclusiveDispatchConflict)
      else Inr ((), db\<lparr>db_reservations := db_reservations db @
        [\<lparr>rs_operation_id = xr_operation_id req, rs_target_key = xr_target_key req,
          rs_request_hash = xr_request_hash req, rs_operation_kind = xr_kind req,
          rs_created_at = xr_now req, rs_released_at = None\<rparr>]\<rparr>))"

definition fence_calendar :: "string \<Rightarrow> string \<Rightarrow> sync_db \<Rightarrow> sync_db res" where
  "fence_calendar operationID i db =
     bind_res (guard_and_intend i (operation_mutation_id operationID) db) (\<lambda>(_, db1).
     bind_res (insert_member operationID i db1) (\<lambda>(_, db2).
     bind_res (insert_guard_member operationID i db2) (\<lambda>(_, db3). Inr db3)))"

definition begin_exclusive_dispatch :: "exclusive_request \<Rightarrow> unit tx" where
  "begin_exclusive_dispatch req db =
     (case normalize_mutation_calendars (xr_calendar_ids req) of
        Inl _ \<Rightarrow> Inl (Sentinel ErrExclusiveDispatchConflict)
      | Inr (ids, encoded) \<Rightarrow>
          if \<not> valid_projection_mutation_id (xr_operation_id req) \<or>
             \<not> valid_exclusive_target_key (xr_target_key req) \<or> \<not> target_digest (xr_request_hash req) \<or>
             xr_now req = zero_time \<or>
             (xr_kind req \<noteq> ''create'' \<and> xr_kind req \<noteq> ''update'' \<and> xr_kind req \<noteq> ''delete'' \<and> xr_kind req \<noteq> ''run'')
          then Inl (Sentinel ErrExclusiveDispatchConflict)
          else if list_ex (\<lambda>o'. mo_operation_id o' = xr_operation_id req) (db_operations db)
          then Inl (Sentinel ErrExclusiveDispatchConflict)
          else let db1 = db\<lparr>db_operations := db_operations db @
                 [\<lparr>mo_operation_id = xr_operation_id req, mo_calendar_ids = encoded,
                   mo_started_at = xr_now req, mo_resolved_at = None\<rparr>]\<rparr> in
            bind_res (insert_exclusive_reservation req db1) (\<lambda>(_, db2).
            bind_res (lock_mutation_calendars ids db2) (\<lambda>_.
            bind_res (fold_res (fence_calendar (xr_operation_id req)) ids db2) (\<lambda>db3. Inr ((), db3)))))"

section \<open>Release (experimental_exclusive_release.go)\<close>

text \<open>An existing synchronization state starts over; a missing one is allowed.\<close>

definition reset_sync_state :: "instant \<Rightarrow> string \<Rightarrow> sync_db \<Rightarrow> sync_db" where
  "reset_sync_state now i db = db\<lparr>db_sync_states := update_rows (\<lambda>x. ss_calendar_id x = i)
     (\<lambda>x. x\<lparr>ss_cursor := '''', ss_generation := ss_generation x + 1, ss_status := ''pending'',
            ss_next_sync_at := now, ss_last_error_code := None, ss_lease_owner := None,
            ss_lease_until := None, ss_updated_at := now\<rparr>) (db_sync_states db)\<rparr>"

definition connections_of :: "string list \<Rightarrow> sync_db \<Rightarrow> (string list) res" where
  "connections_of ids db = map_sum id (sort \<circ> remdups)
     (fold_res (\<lambda>i acc. case find (\<lambda>c. cl_id c = i) (db_calendars db) of
          None \<Rightarrow> Inl (ErrExt ''sql: no rows in result set'')
        | Some c \<Rightarrow> Inr (acc @ [cl_connection_id c])) ids [])"

definition lock_connections :: "string list \<Rightarrow> sync_db \<Rightarrow> unit res" where
  "lock_connections conns db =
     fold_res (\<lambda>i _. if list_ex (\<lambda>c. cn_id c = i) (db_connections db) then Inr ()
                    else Inl (ErrExt ''sql: no rows in result set'')) conns ()"

definition delete_intent :: "string \<Rightarrow> err \<Rightarrow> string \<Rightarrow> sync_db \<Rightarrow> sync_db res" where
  "delete_intent mutationID conflict i db =
     (if count_rows (\<lambda>x. x = (i, mutationID)) (db_intents db) \<noteq> 1 then Inl conflict
      else Inr (db\<lparr>db_intents := filter (\<lambda>x. x \<noteq> (i, mutationID)) (db_intents db)\<rparr>))"

definition resolve_operation :: "string \<Rightarrow> instant \<Rightarrow> sync_db \<Rightarrow> sync_db" where
  "resolve_operation operationID now db = db\<lparr>db_operations := update_rows (\<lambda>o'. mo_operation_id o' = operationID)
     (\<lambda>o'. o'\<lparr>mo_resolved_at := Some now\<rparr>) (db_operations db)\<rparr>"

definition release_reservation :: "string \<Rightarrow> instant \<Rightarrow> sync_db \<Rightarrow> sync_db" where
  "release_reservation operationID now db = db\<lparr>db_reservations := update_rows (\<lambda>r. rs_operation_id r = operationID)
     (\<lambda>r. r\<lparr>rs_released_at := Some now\<rparr>) (db_reservations db)\<rparr>"

definition delete_guard_members :: "string \<Rightarrow> nat \<Rightarrow> unit tx" where
  "delete_guard_members operationID expected db =
     (if count_rows (\<lambda>x. fst x = operationID) (db_guard_members db) \<noteq> expected
      then Inl (Sentinel ErrExclusiveDispatchConflict)
      else Inr ((), db\<lparr>db_guard_members := filter (\<lambda>x. fst x \<noteq> operationID) (db_guard_members db)\<rparr>))"

text \<open>
  A member row is referenced by the guard member of the exclusive fence, ON DELETE RESTRICT: the
  ledger operation of a live fence cannot be resolved past its release.
\<close>

definition delete_members :: "string \<Rightarrow> err \<Rightarrow> nat \<Rightarrow> unit tx" where
  "delete_members operationID conflict expected db =
     (if list_ex (\<lambda>x. fst x = operationID) (db_guard_members db) then Inl foreign_key_violation
      else if count_rows (\<lambda>x. fst x = operationID) (db_members db) \<noteq> expected then Inl conflict
      else Inr ((), db\<lparr>db_members := filter (\<lambda>x. fst x \<noteq> operationID) (db_members db)\<rparr>))"

definition release_exclusive_after_confirmed_run :: "string \<Rightarrow> string list \<Rightarrow> instant \<Rightarrow> unit tx" where
  "release_exclusive_after_confirmed_run operationID calendarIDs now db =
     (case normalize_mutation_calendars calendarIDs of
        Inl _ \<Rightarrow> Inl (Sentinel ErrExclusiveDispatchConflict)
      | Inr (ids, encoded) \<Rightarrow>
          if \<not> valid_projection_mutation_id operationID \<or> now = zero_time
          then Inl (Sentinel ErrExclusiveDispatchConflict)
          else case (find (\<lambda>o'. mo_operation_id o' = operationID) (db_operations db),
                     find (\<lambda>r. rs_operation_id r = operationID) (db_reservations db)) of
            (Some o', Some r) \<Rightarrow>
              if mo_calendar_ids o' \<noteq> encoded \<or> mo_resolved_at o' \<noteq> None \<or> rs_released_at r \<noteq> None
              then Inl (Sentinel ErrExclusiveDispatchConflict)
              else bind_res (lock_mutation_calendars ids db) (\<lambda>_.
                bind_res (connections_of ids db) (\<lambda>conns.
                bind_res (lock_connections conns db) (\<lambda>_.
                bind_res (fold_res (\<lambda>i d. map_sum id snd (advance_projection_mutation_guard i d)) ids
                            (fold (reset_sync_state now) ids db)) (\<lambda>db1.
                bind_res (delete_guard_members operationID (length ids) db1) (\<lambda>(_, db2).
                bind_res (delete_members operationID (Sentinel ErrExclusiveDispatchConflict) (length ids) db2) (\<lambda>(_, db3).
                bind_res (fold_res (delete_intent (operation_mutation_id operationID) (Sentinel ErrExclusiveDispatchConflict))
                            ids db3) (\<lambda>db4.
                Inr ((), release_reservation operationID now (resolve_operation operationID now db4)))))))))
          | _ \<Rightarrow> Inl (Sentinel ErrExclusiveDispatchConflict))"

section \<open>Resolution of a ledger operation (projection_mutations_reconcile.go)\<close>

definition eligible_for_replacement :: "string \<Rightarrow> sync_db \<Rightarrow> string res" where
  "eligible_for_replacement i db = (case find (\<lambda>c. cl_id c = i) (db_calendars db) of
       None \<Rightarrow> Inl (Sentinel ErrCalendarSyncIneligible)
     | Some c \<Rightarrow> if \<not> cl_enabled c \<or> \<not> cl_can_read c then Inl (Sentinel ErrCalendarSyncIneligible)
                else Inr (cl_connection_id c))"

definition connection_connected :: "sync_db \<Rightarrow> string \<Rightarrow> unit \<Rightarrow> unit res" where
  "connection_connected db i _ = (case find (\<lambda>c. cn_id c = i) (db_connections db) of
       None \<Rightarrow> Inl (Sentinel ErrCalendarSyncIneligible)
     | Some c \<Rightarrow> if cn_status c \<noteq> ''connected'' then Inl (Sentinel ErrCalendarSyncIneligible) else Inr ())"

definition resolve_projection_mutation_many_and_schedule :: "string list \<Rightarrow> string \<Rightarrow> instant \<Rightarrow> unit tx" where
  "resolve_projection_mutation_many_and_schedule calendarIDs operationID now db =
     (case normalize_mutation_calendars calendarIDs of
        Inl _ \<Rightarrow> Inl (Sentinel ErrProjectionMutationManyConflict)
      | Inr (ids, encoded) \<Rightarrow>
          if \<not> valid_projection_mutation_id operationID \<or> now = zero_time
          then Inl (Sentinel ErrProjectionMutationManyConflict)
          else case find (\<lambda>o'. mo_operation_id o' = operationID) (db_operations db) of
            None \<Rightarrow> Inl (Sentinel ErrProjectionMutationManyConflict)
          | Some o' \<Rightarrow>
              if mo_calendar_ids o' \<noteq> encoded \<or> mo_resolved_at o' \<noteq> None
              then Inl (Sentinel ErrProjectionMutationManyConflict)
              else bind_res (lock_mutation_calendars ids db) (\<lambda>_.
                bind_res (fold_res (\<lambda>i acc. bind_res (eligible_for_replacement i db) (\<lambda>c. Inr (acc @ [c]))) ids []) (\<lambda>conns.
                bind_res (fold_res (connection_connected db) (sort (remdups conns)) ()) (\<lambda>_.
                bind_res (fold_res (\<lambda>i d. if count_rows (\<lambda>x. ss_calendar_id x = i) (db_sync_states d) \<noteq> 1
                            then Inl (Sentinel ErrCalendarSyncIneligible) else Inr (reset_sync_state now i d)) ids db) (\<lambda>db1.
                if count_rows (\<lambda>x. snd x = operation_mutation_id operationID) (db_intents db1) \<noteq> length ids
                then Inl (Sentinel ErrProjectionMutationManyConflict)
                else bind_res (fold_res (\<lambda>i d. map_sum id snd (advance_projection_mutation_guard i d)) ids db1) (\<lambda>db2.
                bind_res (delete_members operationID (Sentinel ErrProjectionMutationManyConflict) (length ids) db2) (\<lambda>(_, db3).
                bind_res (fold_res (delete_intent (operation_mutation_id operationID)
                            (Sentinel ErrProjectionMutationManyConflict)) ids db3) (\<lambda>db4.
                Inr ((), resolve_operation operationID now db4)))))))))"

section \<open>What each step changes\<close>

definition bumped :: "string \<Rightarrow> (string \<times> int) list \<Rightarrow> (string \<times> int) list" where
  "bumped i g = update_rows (\<lambda>x. fst x = i) (\<lambda>(c, e). (c, e + 1))
     (if list_ex (\<lambda>x. fst x = i) g then g else g @ [(i, 0)])"

lemma map_of_update_rows:
  "map_of (update_rows (\<lambda>x. fst x = i) (\<lambda>(c, e). (c, h e)) g) c =
     (if c = i then map_option h (map_of g c) else map_of g c)"
  by (induction g) auto

lemma map_of_bumped:
  "map_of (bumped i g) c = (if c = i then Some (case map_of g i of None \<Rightarrow> 1 | Some e \<Rightarrow> e + 1) else map_of g c)"
proof (cases "list_ex (\<lambda>x. fst x = i) g")
  case True
  then obtain e where "map_of g i = Some e"
    by (metis (mono_tags, lifting) image_eqI list_ex_iff map_of_eq_None_iff not_Some_eq)
  then show ?thesis using True by (simp add: bumped_def map_of_update_rows)
next
  case False
  then have "map_of g i = None" by (auto simp: list_ex_iff map_of_eq_None_iff)
  then show ?thesis using False
    by (auto simp: bumped_def map_add_def map_of_update_rows split: option.splits)
qed

lemma keys_update_guards:
  "map fst (update_rows (\<lambda>x. fst x = i) (\<lambda>(c, e). (c, e + 1)) (h :: (string \<times> int) list)) = map fst h"
  by (rule map_update_rows) auto

lemma distinct_bumped: "distinct (map fst g) \<Longrightarrow> distinct (map fst (bumped i g))"
  unfolding bumped_def keys_update_guards by (auto simp: list_ex_iff)

lemma distinct_bumped_all: "distinct (map fst g) \<Longrightarrow> distinct (map fst (fold bumped ids g))"
  by (induction ids arbitrary: g) (simp_all add: distinct_bumped)

lemma fst_bumped: "fst ` set (bumped i g) = insert i (fst ` set g)"
proof -
  have "set (map fst (bumped i g)) = insert i (set (map fst g))"
    unfolding bumped_def keys_update_guards by (auto simp: list_ex_iff)
  then show ?thesis by simp
qed

lemma advance_effect:
  "advance_projection_mutation_guard i db = Inr (u, db') \<Longrightarrow>
     db' = db\<lparr>db_guards := bumped i (db_guards db)\<rparr>"
  by (auto simp: advance_projection_mutation_guard_def bumped_def count_rows_def list_ex_iff
      filter_empty_conv split: if_splits)

lemma guard_and_intend_effect:
  assumes "guard_and_intend i m db = Inr (u, db')"
  shows "db' = db\<lparr>db_guards := bumped i (db_guards db), db_intents := db_intents db @ [(i, m)]\<rparr>"
    and "(i, m) \<notin> set (db_intents db)"
    and "count_rows (\<lambda>x. fst x = i) (db_intents db') \<le> maxPendingProjectionMutations"
proof -
  obtain v db1 where a: "advance_projection_mutation_guard i (init_guard i db) = Inr (v, db1)"
    and c: "count_rows (\<lambda>x. fst x = i) (db_intents db1) < maxPendingProjectionMutations"
    and b: "insert_intent i m db1 = Inr (u, db')"
    using assms by (auto simp: guard_and_intend_def bind_res_Inr_iff split: if_splits)
  have one: "db1 = db\<lparr>db_guards := bumped i (db_guards db)\<rparr>"
    using advance_effect [OF a] by (simp add: init_guard_def bumped_def)
  have two: "(i, m) \<notin> set (db_intents db1)" "db' = db1\<lparr>db_intents := db_intents db1 @ [(i, m)]\<rparr>"
    using b by (auto simp: insert_intent_def split: if_splits)
  show "db' = db\<lparr>db_guards := bumped i (db_guards db), db_intents := db_intents db @ [(i, m)]\<rparr>"
    "(i, m) \<notin> set (db_intents db)" using one two by simp_all
  show "count_rows (\<lambda>x. fst x = i) (db_intents db') \<le> maxPendingProjectionMutations"
    using c two one by simp
qed

lemma fence_calendar_effect:
  assumes "fence_calendar op i db = Inr db'"
  shows "db' = db\<lparr>db_guards := bumped i (db_guards db),
      db_intents := db_intents db @ [(i, operation_mutation_id op)],
      db_members := db_members db @ [(op, i)], db_guard_members := db_guard_members db @ [(op, i)]\<rparr>"
    and "(i, operation_mutation_id op) \<notin> set (db_intents db)" and "(op, i) \<notin> set (db_members db)"
    and "(op, i) \<notin> set (db_guard_members db)"
proof -
  obtain u db1 v db2 w where a: "guard_and_intend i (operation_mutation_id op) db = Inr (u, db1)"
    and b: "insert_member op i db1 = Inr (v, db2)" and c: "insert_guard_member op i db2 = Inr (w, db')"
    using assms by (auto simp: fence_calendar_def bind_res_Inr_iff)
  note g = guard_and_intend_effect [OF a]
  have "(op, i) \<notin> set (db_members db1)" "db2 = db1\<lparr>db_members := db_members db1 @ [(op, i)]\<rparr>"
    using b by (auto simp: insert_member_def split: if_splits)
  moreover have "(op, i) \<notin> set (db_guard_members db2)"
    "db' = db2\<lparr>db_guard_members := db_guard_members db2 @ [(op, i)]\<rparr>"
    using c by (auto simp: insert_guard_member_def split: if_splits)
  ultimately show "db' = db\<lparr>db_guards := bumped i (db_guards db),
      db_intents := db_intents db @ [(i, operation_mutation_id op)],
      db_members := db_members db @ [(op, i)], db_guard_members := db_guard_members db @ [(op, i)]\<rparr>"
    and "(i, operation_mutation_id op) \<notin> set (db_intents db)" and "(op, i) \<notin> set (db_members db)"
    and "(op, i) \<notin> set (db_guard_members db)"
    using g(1,2) by simp_all
qed

text \<open>The rows of one operation over its calendars.\<close>

definition op_rows :: "string \<Rightarrow> string list \<Rightarrow> (string \<times> string) list" where
  "op_rows op ids = map (\<lambda>i. (op, i)) ids"

definition op_intents :: "string \<Rightarrow> string list \<Rightarrow> (string \<times> string) list" where
  "op_intents op ids = map (\<lambda>i. (i, operation_mutation_id op)) ids"

lemma fence_calendars_effect:
  "fold_res (fence_calendar op) ids db = Inr db' \<Longrightarrow>
   db' = db\<lparr>db_guards := fold bumped ids (db_guards db), db_intents := db_intents db @ op_intents op ids,
      db_members := db_members db @ op_rows op ids, db_guard_members := db_guard_members db @ op_rows op ids\<rparr> \<and>
   distinct ids \<and> set (op_intents op ids) \<inter> set (db_intents db) = {} \<and>
   set (op_rows op ids) \<inter> set (db_members db) = {} \<and> set (op_rows op ids) \<inter> set (db_guard_members db) = {}"
proof (induction ids arbitrary: db)
  case Nil
  then show ?case by (simp add: op_rows_def op_intents_def)
next
  case (Cons i ids)
  from Cons.prems obtain db1 where s: "fence_calendar op i db = Inr db1"
    and rest: "fold_res (fence_calendar op) ids db1 = Inr db'"
    unfolding fold_res_Cons_iff by blast
  note e = fence_calendar_effect [OF s] and ih = Cons.IH [OF rest]
  have "i \<notin> set ids" using ih e(1) by (auto simp: op_rows_def)
  then show ?case using ih e by (auto simp: op_rows_def op_intents_def)
qed

text \<open>The result of a reservation that commits.\<close>

lemma begin_exclusive_effect:
  assumes "begin_exclusive_dispatch req db = Inr (u, db')"
  obtains ids encoded where
    "normalize_mutation_calendars (xr_calendar_ids req) = Inr (ids, encoded)"
    "valid_projection_mutation_id (xr_operation_id req)" "xr_now req \<noteq> zero_time"
    "\<forall>o' \<in> set (db_operations db). mo_operation_id o' \<noteq> xr_operation_id req"
    "\<forall>r \<in> set (db_reservations db). rs_operation_id r \<noteq> xr_operation_id req \<and>
       \<not> active_reservation (xr_target_key req) r"
    "lock_mutation_calendars ids db = Inr ()"
    "distinct ids"
    "set (op_intents (xr_operation_id req) ids) \<inter> set (db_intents db) = {}"
    "set (op_rows (xr_operation_id req) ids) \<inter> set (db_members db) = {}"
    "set (op_rows (xr_operation_id req) ids) \<inter> set (db_guard_members db) = {}"
    "db' = db\<lparr>db_operations := db_operations db @
        [\<lparr>mo_operation_id = xr_operation_id req, mo_calendar_ids = encoded, mo_started_at = xr_now req, mo_resolved_at = None\<rparr>],
       db_reservations := db_reservations db @
        [\<lparr>rs_operation_id = xr_operation_id req, rs_target_key = xr_target_key req,
          rs_request_hash = xr_request_hash req, rs_operation_kind = xr_kind req,
          rs_created_at = xr_now req, rs_released_at = None\<rparr>],
       db_guards := fold bumped ids (db_guards db),
       db_intents := db_intents db @ op_intents (xr_operation_id req) ids,
       db_members := db_members db @ op_rows (xr_operation_id req) ids,
       db_guard_members := db_guard_members db @ op_rows (xr_operation_id req) ids\<rparr>"
proof -
  obtain ids encoded where n: "normalize_mutation_calendars (xr_calendar_ids req) = Inr (ids, encoded)"
    using assms by (auto simp: begin_exclusive_dispatch_def split: sum.splits)
  define db1 where "db1 = db\<lparr>db_operations := db_operations db @
        [\<lparr>mo_operation_id = xr_operation_id req, mo_calendar_ids = encoded, mo_started_at = xr_now req, mo_resolved_at = None\<rparr>]\<rparr>"
  have g: "valid_projection_mutation_id (xr_operation_id req)" "xr_now req \<noteq> zero_time"
    "\<forall>o' \<in> set (db_operations db). mo_operation_id o' \<noteq> xr_operation_id req"
    "\<exists>w db2 db3. insert_exclusive_reservation req db1 = Inr (w, db2) \<and> lock_mutation_calendars ids db2 = Inr () \<and>
       fold_res (fence_calendar (xr_operation_id req)) ids db2 = Inr db3 \<and> db' = db3"
    using assms n
    by (auto simp: begin_exclusive_dispatch_def db1_def Let_def bind_res_Inr_iff list_ex_iff split: if_splits)
  then obtain w db2 where i: "insert_exclusive_reservation req db1 = Inr (w, db2)"
    and l: "lock_mutation_calendars ids db2 = Inr ()"
    and f: "fold_res (fence_calendar (xr_operation_id req)) ids db2 = Inr db'" by blast
  have r: "\<forall>r \<in> set (db_reservations db). rs_operation_id r \<noteq> xr_operation_id req \<and>
       \<not> active_reservation (xr_target_key req) r"
    and db2: "db2 = db1\<lparr>db_reservations := db_reservations db1 @
        [\<lparr>rs_operation_id = xr_operation_id req, rs_target_key = xr_target_key req,
          rs_request_hash = xr_request_hash req, rs_operation_kind = xr_kind req,
          rs_created_at = xr_now req, rs_released_at = None\<rparr>]\<rparr>"
    using i by (auto simp: insert_exclusive_reservation_def list_ex_iff db1_def split: if_splits)
  have "lock_mutation_calendars ids db = Inr ()"
    using l by (simp add: lock_mutation_calendars_def db2 db1_def)
  with that [OF n g(1-3) r] fence_calendars_effect [OF f] show ?thesis
    by (simp add: db2 db1_def)
qed

lemma advance_all_effect:
  "fold_res (\<lambda>i d. map_sum id snd (advance_projection_mutation_guard i d)) ids db = Inr db' \<Longrightarrow>
   db' = db\<lparr>db_guards := fold bumped ids (db_guards db)\<rparr>"
proof (induction ids arbitrary: db)
  case Nil
  then show ?case by simp
next
  case (Cons i ids)
  from Cons.prems obtain db1 where s: "map_sum id snd (advance_projection_mutation_guard i db) = Inr db1"
    and rest: "fold_res (\<lambda>i d. map_sum id snd (advance_projection_mutation_guard i d)) ids db1 = Inr db'"
    unfolding fold_res_Cons_iff by blast
  obtain u where "advance_projection_mutation_guard i db = Inr (u, db1)"
    using s by (cases "advance_projection_mutation_guard i db") auto
  from advance_effect [OF this] Cons.IH [OF rest] show ?case by simp
qed

lemma delete_intents_effect:
  "fold_res (delete_intent (operation_mutation_id op) conflict) ids db = Inr db' \<Longrightarrow>
   db' = db\<lparr>db_intents := filter (\<lambda>x. x \<notin> set (op_intents op ids)) (db_intents db)\<rparr> \<and>
   set (op_intents op ids) \<subseteq> set (db_intents db) \<and> distinct ids"
proof (induction ids arbitrary: db)
  case Nil
  then show ?case by (simp add: op_intents_def)
next
  case (Cons i ids)
  from Cons.prems obtain db1 where s: "delete_intent (operation_mutation_id op) conflict i db = Inr db1"
    and rest: "fold_res (delete_intent (operation_mutation_id op) conflict) ids db1 = Inr db'"
    unfolding fold_res_Cons_iff by blast
  have one: "db1 = db\<lparr>db_intents := filter (\<lambda>x. x \<noteq> (i, operation_mutation_id op)) (db_intents db)\<rparr>"
    "(i, operation_mutation_id op) \<in> set (db_intents db)"
    using s count_rows_oneD [of "\<lambda>x. x = (i, operation_mutation_id op)" "db_intents db"]
    by (auto simp: delete_intent_def split: if_splits)
  note ih = Cons.IH [OF rest]
  have "i \<notin> set ids" using ih one(1) by (auto simp: op_intents_def)
  then show ?case using ih one by (auto simp: op_intents_def conj_commute)
qed

lemma reset_states_effect:
  "\<exists>ss. fold (reset_sync_state now) ids db = db\<lparr>db_sync_states := ss\<rparr>"
proof (induction ids arbitrary: db)
  case Nil
  then show ?case by (intro exI [of _ "db_sync_states db"]) simp
next
  case (Cons i ids)
  obtain ss where "fold (reset_sync_state now) ids (reset_sync_state now i db) =
      (reset_sync_state now i db)\<lparr>db_sync_states := ss\<rparr>" using Cons.IH by blast
  moreover obtain s1 where "reset_sync_state now i db = db\<lparr>db_sync_states := s1\<rparr>"
    by (simp add: reset_sync_state_def)
  ultimately show ?case by (intro exI [of _ ss]) simp
qed

lemma release_effect:
  assumes "release_exclusive_after_confirmed_run op calendarIDs now db = Inr (u, db')"
  obtains ids encoded ss where
    "normalize_mutation_calendars calendarIDs = Inr (ids, encoded)"
    "\<exists>r \<in> set (db_reservations db). rs_operation_id r = op \<and> rs_released_at r = None"
    "db' = db\<lparr>db_sync_states := ss, db_guards := fold bumped ids (db_guards db),
       db_guard_members := filter (\<lambda>x. fst x \<noteq> op) (db_guard_members db),
       db_members := filter (\<lambda>x. fst x \<noteq> op) (db_members db),
       db_intents := filter (\<lambda>x. x \<notin> set (op_intents op ids)) (db_intents db),
       db_operations := update_rows (\<lambda>o'. mo_operation_id o' = op) (\<lambda>o'. o'\<lparr>mo_resolved_at := Some now\<rparr>) (db_operations db),
       db_reservations := update_rows (\<lambda>r. rs_operation_id r = op) (\<lambda>r. r\<lparr>rs_released_at := Some now\<rparr>) (db_reservations db)\<rparr>"
    "length ids = count_rows (\<lambda>x. fst x = op) (db_members db)"
    "length ids = count_rows (\<lambda>x. fst x = op) (db_guard_members db)"
    "set (op_intents op ids) \<subseteq> set (db_intents db)" "distinct ids"
proof -
  obtain ids encoded where n: "normalize_mutation_calendars calendarIDs = Inr (ids, encoded)"
    using assms by (auto simp: release_exclusive_after_confirmed_run_def split: sum.splits)
  obtain o' r where o': "find (\<lambda>o'. mo_operation_id o' = op) (db_operations db) = Some o'"
    and r: "find (\<lambda>r. rs_operation_id r = op) (db_reservations db) = Some r"
    using assms n
    by (auto simp: release_exclusive_after_confirmed_run_def split: if_splits option.splits)
  have rel: "rs_released_at r = None"
    using assms n o' r by (auto simp: release_exclusive_after_confirmed_run_def split: if_splits)
  obtain db1 v db2 w db3 db4 where run:
    "fold_res (\<lambda>i d. map_sum id snd (advance_projection_mutation_guard i d)) ids
       (fold (reset_sync_state now) ids db) = Inr db1"
    "delete_guard_members op (length ids) db1 = Inr (v, db2)"
    "delete_members op (Sentinel ErrExclusiveDispatchConflict) (length ids) db2 = Inr (w, db3)"
    "fold_res (delete_intent (operation_mutation_id op) (Sentinel ErrExclusiveDispatchConflict)) ids db3 = Inr db4"
    "db' = release_reservation op now (resolve_operation op now db4)"
    using assms n o' r
    by (auto simp: release_exclusive_after_confirmed_run_def bind_res_Inr_iff split: if_splits)
  obtain ss where ss: "fold (reset_sync_state now) ids db = db\<lparr>db_sync_states := ss\<rparr>"
    using reset_states_effect by blast
  have d2: "db2 = db1\<lparr>db_guard_members := filter (\<lambda>x. fst x \<noteq> op) (db_guard_members db1)\<rparr>"
    "length ids = count_rows (\<lambda>x. fst x = op) (db_guard_members db1)"
    using run(2) by (auto simp: delete_guard_members_def split: if_splits)
  have d3: "db3 = db2\<lparr>db_members := filter (\<lambda>x. fst x \<noteq> op) (db_members db2)\<rparr>"
    "length ids = count_rows (\<lambda>x. fst x = op) (db_members db2)"
    using run(3) by (auto simp: delete_members_def split: if_splits)
  have mem: "\<exists>r \<in> set (db_reservations db). rs_operation_id r = op \<and> rs_released_at r = None"
    using r rel by (metis (mono_tags, lifting) find_Some_iff nth_mem)
  note one = advance_all_effect [OF run(1), unfolded ss]
  have eq: "db' = db\<lparr>db_sync_states := ss, db_guards := fold bumped ids (db_guards db),
       db_guard_members := filter (\<lambda>x. fst x \<noteq> op) (db_guard_members db),
       db_members := filter (\<lambda>x. fst x \<noteq> op) (db_members db),
       db_intents := filter (\<lambda>x. x \<notin> set (op_intents op ids)) (db_intents db),
       db_operations := update_rows (\<lambda>o'. mo_operation_id o' = op) (\<lambda>o'. o'\<lparr>mo_resolved_at := Some now\<rparr>) (db_operations db),
       db_reservations := update_rows (\<lambda>r. rs_operation_id r = op) (\<lambda>r. r\<lparr>rs_released_at := Some now\<rparr>) (db_reservations db)\<rparr>"
    using run(5) delete_intents_effect [OF run(4)] d2(1) d3(1) one
    by (simp add: release_reservation_def resolve_operation_def)
  show ?thesis
    by (rule that [OF n mem eq]) (use d2 d3 one delete_intents_effect [OF run(4)] in simp_all)
qed

section \<open>The ledger's invariant\<close>

text \<open>
  Operations and reservations have distinct IDs; a target key has at most one active
  reservation; and the rows that fence an operation's calendars stand or fall together: a guard
  member is a member, a member belongs to a recorded operation and has its intent, and an intent
  of an operation has its member.
\<close>

definition ledger_ok :: "sync_db \<Rightarrow> bool" where
  "ledger_ok db \<longleftrightarrow>
     distinct (map mo_operation_id (db_operations db)) \<and> distinct (map fst (db_guards db)) \<and>
     distinct (map rs_operation_id (db_reservations db)) \<and>
     (\<forall>key. count_rows (active_reservation key) (db_reservations db) \<le> 1) \<and>
     distinct (db_intents db) \<and> distinct (db_members db) \<and> distinct (db_guard_members db) \<and>
     set (db_guard_members db) \<subseteq> set (db_members db) \<and>
     (\<forall>(op, i) \<in> set (db_members db). op \<in> mo_operation_id ` set (db_operations db) \<and>
        (i, operation_mutation_id op) \<in> set (db_intents db)) \<and>
     (\<forall>(i, m) \<in> set (db_intents db). \<forall>op. m = operation_mutation_id op \<longrightarrow> (op, i) \<in> set (db_members db))"

lemma ledger_ok_empty: "ledger_ok empty_db"
  by (simp add: ledger_ok_def empty_db_def)

lemma operation_mutation_id_inj [simp]: "operation_mutation_id a = operation_mutation_id b \<longleftrightarrow> a = b"
  by (simp add: operation_mutation_id_def)

lemma valid_id_not_operation: "valid_projection_mutation_id m \<Longrightarrow> m \<noteq> operation_mutation_id op"
  by (auto simp: valid_projection_mutation_id_def operation_mutation_id_def valid_mutation_char_def Let_def
      split: if_splits)

lemma distinct_op_rows: "distinct ids \<Longrightarrow> distinct (op_rows op ids)" "distinct ids \<Longrightarrow> distinct (op_intents op ids)"
  by (simp_all add: op_rows_def op_intents_def distinct_map inj_on_def)

lemma set_op_rows: "set (op_rows op ids) = {(o', i). o' = op \<and> i \<in> set ids}"
  "set (op_intents op ids) = {(i, m). m = operation_mutation_id op \<and> i \<in> set ids}"
  by (auto simp: op_rows_def op_intents_def)

lemma ledger_ok_intent:
  "ledger_ok db \<Longrightarrow> (i, operation_mutation_id op) \<in> set (db_intents db) \<Longrightarrow> (op, i) \<in> set (db_members db)"
  unfolding ledger_ok_def by blast

lemma ledger_ok_begin_exclusive:
  assumes ok: "ledger_ok db" and run: "begin_exclusive_dispatch req db = Inr (u, db')"
  shows "ledger_ok db'"
proof -
  obtain ids encoded where e:
    "\<forall>o' \<in> set (db_operations db). mo_operation_id o' \<noteq> xr_operation_id req"
    "\<forall>r \<in> set (db_reservations db). rs_operation_id r \<noteq> xr_operation_id req \<and>
       \<not> active_reservation (xr_target_key req) r"
    "distinct ids"
    "set (op_intents (xr_operation_id req) ids) \<inter> set (db_intents db) = {}"
    "set (op_rows (xr_operation_id req) ids) \<inter> set (db_members db) = {}"
    "set (op_rows (xr_operation_id req) ids) \<inter> set (db_guard_members db) = {}"
    and db': "db' = db\<lparr>db_operations := db_operations db @
        [\<lparr>mo_operation_id = xr_operation_id req, mo_calendar_ids = encoded, mo_started_at = xr_now req, mo_resolved_at = None\<rparr>],
       db_reservations := db_reservations db @
        [\<lparr>rs_operation_id = xr_operation_id req, rs_target_key = xr_target_key req,
          rs_request_hash = xr_request_hash req, rs_operation_kind = xr_kind req,
          rs_created_at = xr_now req, rs_released_at = None\<rparr>],
       db_guards := fold bumped ids (db_guards db),
       db_intents := db_intents db @ op_intents (xr_operation_id req) ids,
       db_members := db_members db @ op_rows (xr_operation_id req) ids,
       db_guard_members := db_guard_members db @ op_rows (xr_operation_id req) ids\<rparr>"
    by (rule begin_exclusive_effect [OF run]) blast
  have act: "count_rows (active_reservation key) (db_reservations db') \<le> 1" for key
  proof (cases "key = xr_target_key req")
    case True
    then have "count_rows (active_reservation key) (db_reservations db) = 0"
      using e(2) by (simp add: count_rows_zero)
    then show ?thesis by (simp add: db')
  next
    case False
    then show ?thesis using ok by (simp add: db' ledger_ok_def active_reservation_def)
  qed
  have ids: "xr_operation_id req \<notin> mo_operation_id ` set (db_operations db)"
    "xr_operation_id req \<notin> rs_operation_id ` set (db_reservations db)" using e(1,2) by auto
  show ?thesis unfolding ledger_ok_def
  proof (intro conjI allI)
    show "count_rows (active_reservation key) (db_reservations db') \<le> 1" for key by (rule act)
    show "distinct (map fst (db_guards db'))" using ok by (simp add: db' ledger_ok_def distinct_bumped_all)
    show "distinct (map mo_operation_id (db_operations db'))"
      "distinct (map rs_operation_id (db_reservations db'))"
      using ok ids by (simp_all add: db' ledger_ok_def)
    show "distinct (db_intents db')" "distinct (db_members db')" "distinct (db_guard_members db')"
      using ok e(3-6) distinct_op_rows [OF e(3)] by (auto simp: db' ledger_ok_def)
    show "set (db_guard_members db') \<subseteq> set (db_members db')"
      using ok by (auto simp: db' ledger_ok_def)
    show "\<forall>(op, i) \<in> set (db_members db'). op \<in> mo_operation_id ` set (db_operations db') \<and>
        (i, operation_mutation_id op) \<in> set (db_intents db')"
      using ok by (auto simp: db' ledger_ok_def set_op_rows)
    show "\<forall>(i, m) \<in> set (db_intents db'). \<forall>op. m = operation_mutation_id op \<longrightarrow> (op, i) \<in> set (db_members db')"
      using ok by (auto simp: db' ledger_ok_def set_op_rows)
  qed
qed

text \<open>
  When every intent of an operation's calendars is there and the counts agree, those calendars
  are all the members the operation has.
\<close>

lemma op_members_complete:
  assumes ok: "ledger_ok db" and sub: "set (op_intents op ids) \<subseteq> set (db_intents db)" and dist: "distinct ids"
    and len: "length ids = count_rows (\<lambda>x. fst x = op) (db_members db)"
    and m: "(op, i) \<in> set (db_members db)"
  shows "i \<in> set ids"
proof -
  let ?ms = "filter (\<lambda>x. fst x = op) (db_members db)"
  have fwd: "(op, j) \<in> set (db_members db)" if "j \<in> set ids" for j
    using sub that ledger_ok_intent [OF ok, of j op] by (auto simp: set_op_rows)
  have "set (op_rows op ids) \<subseteq> set ?ms" using fwd by (auto simp: set_op_rows)
  moreover have "length (op_rows op ids) = length ?ms" using len by (simp add: op_rows_def count_rows_def)
  moreover have "distinct (op_rows op ids)" "distinct ?ms"
    using distinct_op_rows [OF dist] ok by (simp_all add: ledger_ok_def)
  ultimately have "card (set (op_rows op ids)) = card (set ?ms)" "set (op_rows op ids) \<subseteq> set ?ms"
    by (simp_all only: distinct_card)
  then have "set (op_rows op ids) = set ?ms" by (intro card_subset_eq) simp_all
  moreover have "(op, i) \<in> set ?ms" using m by simp
  ultimately have "(op, i) \<in> set (op_rows op ids)" by (simp only:)
  then show ?thesis by (simp add: set_op_rows)
qed

lemma ledger_ok_release:
  assumes ok: "ledger_ok db" and run: "release_exclusive_after_confirmed_run op calendarIDs now db = Inr (u, db')"
  shows "ledger_ok db'"
proof -
  obtain ids encoded ss where db': "db' = db\<lparr>db_sync_states := ss, db_guards := fold bumped ids (db_guards db),
       db_guard_members := filter (\<lambda>x. fst x \<noteq> op) (db_guard_members db),
       db_members := filter (\<lambda>x. fst x \<noteq> op) (db_members db),
       db_intents := filter (\<lambda>x. x \<notin> set (op_intents op ids)) (db_intents db),
       db_operations := update_rows (\<lambda>o'. mo_operation_id o' = op) (\<lambda>o'. o'\<lparr>mo_resolved_at := Some now\<rparr>) (db_operations db),
       db_reservations := update_rows (\<lambda>r. rs_operation_id r = op) (\<lambda>r. r\<lparr>rs_released_at := Some now\<rparr>) (db_reservations db)\<rparr>"
    and len: "length ids = count_rows (\<lambda>x. fst x = op) (db_members db)"
    and sub: "set (op_intents op ids) \<subseteq> set (db_intents db)" and dist: "distinct ids"
    by (rule release_effect [OF run]) blast
  note members = op_members_complete [OF ok sub dist len]
  have act: "count_rows (active_reservation key) (db_reservations db') \<le> count_rows (active_reservation key) (db_reservations db)" for key
  proof -
    have "count_rows (active_reservation key)
        (update_rows (\<lambda>r. rs_operation_id r = op) (\<lambda>r. r\<lparr>rs_released_at := Some now\<rparr>) rs) \<le>
        count_rows (active_reservation key) rs" for rs
      by (induction rs) (auto simp: active_reservation_def)
    then show ?thesis by (simp add: db')
  qed
  have ops: "map mo_operation_id (db_operations db') = map mo_operation_id (db_operations db)"
    "map rs_operation_id (db_reservations db') = map rs_operation_id (db_reservations db)"
    by (simp_all add: db' map_update_rows)
  then have opset: "mo_operation_id ` set (db_operations db') = mo_operation_id ` set (db_operations db)"
    by (metis set_map)
  show ?thesis unfolding ledger_ok_def
  proof (intro conjI allI)
    show "count_rows (active_reservation key) (db_reservations db') \<le> 1" for key
      using act [of key] ok by (meson ledger_ok_def le_trans)
    show "distinct (map fst (db_guards db'))" using ok by (simp add: db' ledger_ok_def distinct_bumped_all)
    show "distinct (map mo_operation_id (db_operations db'))"
      "distinct (map rs_operation_id (db_reservations db'))"
      using ok unfolding ops by (simp_all add: ledger_ok_def)
    show "distinct (db_intents db')" "distinct (db_members db')" "distinct (db_guard_members db')"
      using ok by (auto simp: db' ledger_ok_def)
    show "set (db_guard_members db') \<subseteq> set (db_members db')"
      using ok by (auto simp: db' ledger_ok_def)
    show "\<forall>(o', i) \<in> set (db_members db'). o' \<in> mo_operation_id ` set (db_operations db') \<and>
        (i, operation_mutation_id o') \<in> set (db_intents db')"
      using ok unfolding opset by (auto simp: db' ledger_ok_def set_op_rows)
    show "\<forall>(i, m) \<in> set (db_intents db'). \<forall>o'. m = operation_mutation_id o' \<longrightarrow> (o', i) \<in> set (db_members db')"
    proof (clarify)
      fix i o' assume a: "(i, operation_mutation_id o') \<in> set (db_intents db')"
      then have "(o', i) \<in> set (db_members db)" using ledger_ok_intent [OF ok, of i o'] by (simp add: db')
      moreover have "o' \<noteq> op" using a members [of i] calculation by (auto simp: db' set_op_rows)
      ultimately show "(o', i) \<in> set (db_members db')" by (simp add: db')
    qed
  qed
qed

lemma ledger_ok_begin_one:
  assumes ok: "ledger_ok db" and run: "begin_projection_mutation i m now db = Inr (u, db')"
  shows "ledger_ok db'"
proof -
  have v: "valid_projection_mutation_id m" and g: "guard_and_intend i m db = Inr (u, db')"
    using run by (auto simp: begin_projection_mutation_def split: if_splits)
  note e = guard_and_intend_effect [OF g]
  show ?thesis using ok e(2) valid_id_not_operation [OF v] unfolding e(1) ledger_ok_def
    by (auto simp: distinct_bumped)
qed

lemma ledger_ok_resolve_one:
  assumes ok: "ledger_ok db" and run: "resolve_projection_mutation i m db = Inr (u, db')"
  shows "ledger_ok db'"
proof -
  obtain w db1 where v: "valid_projection_mutation_id m" and a: "advance_projection_mutation_guard i db = Inr (w, db1)"
    and d: "db' = db1\<lparr>db_intents := filter (\<lambda>x. x \<noteq> (i, m)) (db_intents db1)\<rparr>"
    using run by (auto simp: resolve_projection_mutation_def bind_res_Inr_iff split: if_splits)
  show ?thesis using ok valid_id_not_operation [OF v] unfolding d advance_effect [OF a] ledger_ok_def
    by (auto simp: distinct_bumped)
qed

lemma many_fold_effect:
  "fold_res (intend_calendar op) ids db = Inr db' \<Longrightarrow>
   db' = db\<lparr>db_guards := fold bumped ids (db_guards db), db_intents := db_intents db @ op_intents op ids,
      db_members := db_members db @ op_rows op ids\<rparr> \<and>
   distinct ids \<and> set (op_intents op ids) \<inter> set (db_intents db) = {} \<and>
   set (op_rows op ids) \<inter> set (db_members db) = {}"
proof (induction ids arbitrary: db)
  case Nil
  then show ?case by (simp add: op_rows_def op_intents_def)
next
  case (Cons i ids)
  from Cons.prems obtain db1 where s: "intend_calendar op i db = Inr db1"
    and rest: "fold_res (intend_calendar op) ids db1 = Inr db'"
    unfolding fold_res_Cons_iff by blast
  obtain u d w where g: "guard_and_intend i (operation_mutation_id op) db = Inr (u, d)"
    and m: "insert_member op i d = Inr (w, db1)"
    using s by (auto simp: intend_calendar_def bind_res_Inr_iff)
  have "(op, i) \<notin> set (db_members d)" "db1 = d\<lparr>db_members := db_members d @ [(op, i)]\<rparr>"
    using m by (auto simp: insert_member_def split: if_splits)
  note e = this guard_and_intend_effect(1,2) [OF g]
  note ih = Cons.IH [OF rest]
  have "i \<notin> set ids" using ih e by (auto simp: op_rows_def)
  then show ?case using ih e by (auto simp: op_rows_def op_intents_def)
qed

lemma ledger_ok_begin_many:
  assumes ok: "ledger_ok db" and run: "begin_projection_mutation_many cals op now db = Inr (u, db')"
  shows "ledger_ok db'"
proof -
  obtain ids encoded where n: "normalize_mutation_calendars cals = Inr (ids, encoded)"
    using run by (auto simp: begin_projection_mutation_many_def split: sum.splits)
  let ?o = "\<lparr>mo_operation_id = op, mo_calendar_ids = encoded, mo_started_at = now, mo_resolved_at = None\<rparr>"
  have new: "op \<notin> mo_operation_id ` set (db_operations db)"
    and f: "fold_res (intend_calendar op) ids (db\<lparr>db_operations := db_operations db @ [?o]\<rparr>) = Inr db'"
    using run n
    by (auto simp: begin_projection_mutation_many_def Let_def bind_res_Inr_iff list_ex_iff split: if_splits)
  note e = many_fold_effect [OF f]
  have db': "db' = db\<lparr>db_operations := db_operations db @ [?o], db_guards := fold bumped ids (db_guards db),
      db_intents := db_intents db @ op_intents op ids, db_members := db_members db @ op_rows op ids\<rparr>"
    using e by simp
  have d: "distinct (op_rows op ids)" "distinct (op_intents op ids)"
    "set (op_intents op ids) \<inter> set (db_intents db) = {}" "set (op_rows op ids) \<inter> set (db_members db) = {}"
    using e distinct_op_rows by auto
  show ?thesis using ok new d unfolding db' ledger_ok_def
    by (auto simp: distinct_bumped_all set_op_rows)
qed

lemma ledger_ok_resolve_many:
  assumes ok: "ledger_ok db" and run: "resolve_projection_mutation_many_and_schedule cals op now db = Inr (u, db')"
  shows "ledger_ok db'"
proof -
  obtain ids encoded where n: "normalize_mutation_calendars cals = Inr (ids, encoded)"
    using run by (auto simp: resolve_projection_mutation_many_and_schedule_def split: sum.splits)
  obtain o' where o': "find (\<lambda>o'. mo_operation_id o' = op) (db_operations db) = Some o'"
    using run n by (auto simp: resolve_projection_mutation_many_and_schedule_def split: if_splits option.splits)
  obtain db1 db2 w db3 db4 where r:
    "fold_res (\<lambda>i d. if count_rows (\<lambda>x. ss_calendar_id x = i) (db_sync_states d) \<noteq> 1
       then Inl (Sentinel ErrCalendarSyncIneligible) else Inr (reset_sync_state now i d)) ids db = Inr db1"
    "fold_res (\<lambda>i d. map_sum id snd (advance_projection_mutation_guard i d)) ids db1 = Inr db2"
    "delete_members op (Sentinel ErrProjectionMutationManyConflict) (length ids) db2 = Inr (w, db3)"
    "fold_res (delete_intent (operation_mutation_id op) (Sentinel ErrProjectionMutationManyConflict)) ids db3 = Inr db4"
    "db' = resolve_operation op now db4"
    using run n o'
    by (auto simp: resolve_projection_mutation_many_and_schedule_def bind_res_Inr_iff split: if_splits)
  have states: "\<exists>ss. d' = d\<lparr>db_sync_states := ss\<rparr>"
    if "fold_res (\<lambda>i d. if count_rows (\<lambda>x. ss_calendar_id x = i) (db_sync_states d) \<noteq> 1
       then Inl (Sentinel ErrCalendarSyncIneligible) else Inr (reset_sync_state now i d)) js d = Inr d'" for js d d'
    using that
  proof (induction js arbitrary: d)
    case Nil
    then show ?case by (auto intro: exI [of _ "db_sync_states d'"])
  next
    case (Cons j js)
    from Cons.prems have "fold_res (\<lambda>i d. if count_rows (\<lambda>x. ss_calendar_id x = i) (db_sync_states d) \<noteq> 1
       then Inl (Sentinel ErrCalendarSyncIneligible) else Inr (reset_sync_state now i d)) js (reset_sync_state now j d) = Inr d'"
      by (simp split: if_splits)
    from Cons.IH [OF this] obtain ss where "d' = (reset_sync_state now j d)\<lparr>db_sync_states := ss\<rparr>" ..
    then show ?case by (intro exI [of _ ss]) (simp add: reset_sync_state_def)
  qed
  obtain ss where db1: "db1 = db\<lparr>db_sync_states := ss\<rparr>" using states [OF r(1)] ..
  note two = advance_all_effect [OF r(2), unfolded db1]
  have three: "db3 = db2\<lparr>db_members := filter (\<lambda>x. fst x \<noteq> op) (db_members db2)\<rparr>"
    "length ids = count_rows (\<lambda>x. fst x = op) (db_members db)"
    "op \<notin> fst ` set (db_guard_members db)"
    using r(3) two by (auto simp: delete_members_def list_ex_iff split: if_splits)
  note four = delete_intents_effect [OF r(4)]
  have db': "db' = db\<lparr>db_sync_states := ss, db_guards := fold bumped ids (db_guards db),
       db_members := filter (\<lambda>x. fst x \<noteq> op) (db_members db),
       db_intents := filter (\<lambda>x. x \<notin> set (op_intents op ids)) (db_intents db),
       db_operations := update_rows (\<lambda>o'. mo_operation_id o' = op) (\<lambda>o'. o'\<lparr>mo_resolved_at := Some now\<rparr>) (db_operations db)\<rparr>"
    using four three(1) two r(5) by (simp add: resolve_operation_def)
  have sub: "set (op_intents op ids) \<subseteq> set (db_intents db)" "distinct ids"
    using four three(1) two by simp_all
  note members = op_members_complete [OF ok sub three(2)]
  have ops: "map mo_operation_id (db_operations db') = map mo_operation_id (db_operations db)"
    by (simp add: db' map_update_rows)
  then have opset: "mo_operation_id ` set (db_operations db') = mo_operation_id ` set (db_operations db)"
    by (metis set_map)
  show ?thesis unfolding ledger_ok_def
  proof (intro conjI allI)
    show "count_rows (active_reservation key) (db_reservations db') \<le> 1" for key
      using ok by (simp add: db' ledger_ok_def)
    show "distinct (map fst (db_guards db'))" using ok by (simp add: db' ledger_ok_def distinct_bumped_all)
    show "distinct (map mo_operation_id (db_operations db'))"
      "distinct (map rs_operation_id (db_reservations db'))"
      using ok unfolding ops by (simp_all add: ledger_ok_def db')
    show "distinct (db_intents db')" "distinct (db_members db')" "distinct (db_guard_members db')"
      using ok by (auto simp: db' ledger_ok_def)
    show "set (db_guard_members db') \<subseteq> set (db_members db')"
      using ok three(3) by (auto simp: db' ledger_ok_def)
    show "\<forall>(o', i) \<in> set (db_members db'). o' \<in> mo_operation_id ` set (db_operations db') \<and>
        (i, operation_mutation_id o') \<in> set (db_intents db')"
      using ok unfolding opset by (auto simp: db' ledger_ok_def set_op_rows)
    show "\<forall>(i, m) \<in> set (db_intents db'). \<forall>o'. m = operation_mutation_id o' \<longrightarrow> (o', i) \<in> set (db_members db')"
    proof (clarify)
      fix i o' assume a: "(i, operation_mutation_id o') \<in> set (db_intents db')"
      then have "(o', i) \<in> set (db_members db)" using ledger_ok_intent [OF ok, of i o'] by (simp add: db')
      moreover have "o' \<noteq> op" using a members [of i] calculation by (auto simp: db' set_op_rows)
      ultimately show "(o', i) \<in> set (db_members db')" by (simp add: db')
    qed
  qed
qed

section \<open>Release after a reservation\<close>

definition guard_epoch :: "sync_db \<Rightarrow> string \<Rightarrow> int" where
  "guard_epoch db i = (case map_of (db_guards db) i of None \<Rightarrow> 0 | Some e \<Rightarrow> e)"

lemma map_of_bumped_all:
  "distinct ids \<Longrightarrow> map_of (fold bumped ids g) i =
     (if i \<in> set ids then Some (case map_of g i of None \<Rightarrow> 1 | Some e \<Rightarrow> e + 1) else map_of g i)"
  by (induction ids arbitrary: g) (auto simp: map_of_bumped)

lemma fst_bumped_all: "fst ` set (fold bumped ids g) = set ids \<union> fst ` set g"
  by (induction ids arbitrary: g) (auto simp: fst_bumped)

lemma advance_all_succeeds:
  assumes "distinct (map fst (db_guards db))" and "set ids \<subseteq> fst ` set (db_guards db)"
  shows "fold_res (\<lambda>i d. map_sum id snd (advance_projection_mutation_guard i d)) ids db =
     Inr (db\<lparr>db_guards := fold bumped ids (db_guards db)\<rparr>)"
  using assms
proof (induction ids arbitrary: db)
  case Nil
  then show ?case by simp
next
  case (Cons i ids)
  have le: "count_rows (\<lambda>g. fst g = i) (db_guards db) \<le> 1"
    by (rule count_rows_key_le_one [where k = fst and i = i, OF Cons.prems(1)])
  have "count_rows (\<lambda>g. fst g = i) (db_guards db) \<noteq> 0"
    unfolding count_rows_zero using Cons.prems(2) by auto
  with le have one: "count_rows (\<lambda>g. fst g = i) (db_guards db) = 1" by simp
  have ex: "list_ex (\<lambda>x. fst x = i) (db_guards db)" using Cons.prems(2) by (force simp: list_ex_iff)
  have "advance_projection_mutation_guard i db = Inr ((), db\<lparr>db_guards := bumped i (db_guards db)\<rparr>)"
    using one ex by (simp add: advance_projection_mutation_guard_def bumped_def)
  moreover have "set ids \<subseteq> fst ` set (bumped i (db_guards db))" using Cons.prems(2) by (auto simp: fst_bumped)
  ultimately show ?case
    using Cons.IH [of "db\<lparr>db_guards := bumped i (db_guards db)\<rparr>"] Cons.prems(1) by (simp add: distinct_bumped)
qed

lemma delete_intents_succeed:
  assumes "distinct (db_intents db)" and "distinct ids" and "set (op_intents op ids) \<subseteq> set (db_intents db)"
  shows "fold_res (delete_intent (operation_mutation_id op) conflict) ids db =
     Inr (db\<lparr>db_intents := filter (\<lambda>x. x \<notin> set (op_intents op ids)) (db_intents db)\<rparr>)"
  using assms
proof (induction ids arbitrary: db)
  case Nil
  then show ?case by (simp add: op_intents_def)
next
  case (Cons i ids)
  have "count_rows (\<lambda>x. x = (i, operation_mutation_id op)) (db_intents db) \<le> 1"
    by (rule count_rows_key_le_one [where k = "\<lambda>x. x" and i = "(i, operation_mutation_id op)"])
      (simp_all add: Cons.prems(1))
  moreover have "(i, operation_mutation_id op) \<in> set (db_intents db)"
    using Cons.prems(3) by (simp add: op_intents_def)
  then have "count_rows (\<lambda>x. x = (i, operation_mutation_id op)) (db_intents db) \<noteq> 0"
    unfolding count_rows_zero by blast
  ultimately have "delete_intent (operation_mutation_id op) conflict i db =
      Inr (db\<lparr>db_intents := filter (\<lambda>x. x \<noteq> (i, operation_mutation_id op)) (db_intents db)\<rparr>)"
    by (simp add: delete_intent_def)
  then show ?case
    using Cons.IH [of "db\<lparr>db_intents := filter (\<lambda>x. x \<noteq> (i, operation_mutation_id op)) (db_intents db)\<rparr>"] Cons.prems
    by (auto simp: op_intents_def conj_commute)
qed

lemma lock_connections_succeeds:
  assumes "\<forall>i \<in> set conns. \<exists>n \<in> set (db_connections db). cn_id n = i"
  shows "lock_connections conns db = Inr ()"
  using assms by (induction conns) (auto simp: lock_connections_def list_ex_iff)

lemma connections_of_succeeds:
  assumes "\<forall>i \<in> set ids. \<exists>c \<in> set (db_calendars db). cl_id c = i"
  shows "\<exists>conns. connections_of ids db = Inr conns \<and> set conns \<subseteq> cl_connection_id ` set (db_calendars db)"
proof -
  have "\<exists>out. fold_res (\<lambda>i acc. case find (\<lambda>c. cl_id c = i) (db_calendars db) of
          None \<Rightarrow> Inl (ErrExt ''sql: no rows in result set'')
        | Some c \<Rightarrow> Inr (acc @ [cl_connection_id c])) ids acc = Inr out \<and>
      set out \<subseteq> set acc \<union> cl_connection_id ` set (db_calendars db)" for acc
    using assms
  proof (induction ids arbitrary: acc)
    case Nil
    then show ?case by simp
  next
    case (Cons i ids)
    have "\<exists>c \<in> set (db_calendars db). cl_id c = i" using Cons.prems by simp
    then have "find (\<lambda>c. cl_id c = i) (db_calendars db) \<noteq> None" unfolding find_None_iff by blast
    then obtain c where c: "find (\<lambda>c. cl_id c = i) (db_calendars db) = Some c" by blast
    then have "c \<in> set (db_calendars db)" unfolding find_Some_iff by force
    with c Cons.IH [of "acc @ [cl_connection_id c]"] Cons.prems show ?case by auto
  qed
  from this [of "[]"] show ?thesis by (auto simp: connections_of_def)
qed

lemma lock_calendars_exist:
  "lock_mutation_calendars ids db = Inr () \<Longrightarrow> i \<in> set ids \<Longrightarrow> \<exists>c \<in> set (db_calendars db). cl_id c = i"
proof -
  assume l: "lock_mutation_calendars ids db = Inr ()" and i: "i \<in> set ids"
  have "fold_res (\<lambda>i _. if count_rows (\<lambda>c. cl_id c = i) (db_calendars db) \<noteq> 1
      then Inl (Sentinel ErrProjectionMutationManyConflict) else Inr ()) ids () = Inr ()"
    using l by (simp add: lock_mutation_calendars_def)
  then have "count_rows (\<lambda>c. cl_id c = i) (db_calendars db) = 1"
    using i unfolding fold_res_check by (auto split: if_splits)
  then show ?thesis using count_rows_oneD by fastforce
qed

lemma reset_states_frame [simp]:
  "db_guards (fold (reset_sync_state now) ids db) = db_guards db"
  "db_intents (fold (reset_sync_state now) ids db) = db_intents db"
  "db_members (fold (reset_sync_state now) ids db) = db_members db"
  "db_guard_members (fold (reset_sync_state now) ids db) = db_guard_members db"
  "db_reservations (fold (reset_sync_state now) ids db) = db_reservations db"
  using reset_states_effect [of now ids db] by auto

section \<open>The store as a write guard (write_dispatch.go)\<close>

text \<open>The database, the UUIDs to be drawn and the clock.\<close>

record dispatch_world =
  dw_db :: sync_db
  dw_uuid :: "nat \<Rightarrow> string"
  dw_drawn :: nat
  dw_now :: instant

definition store_begin_write_dispatch ::
  "string list \<Rightarrow> (dispatch_world, (dispatch_world, unit) prog) prog" where
  "store_begin_write_dispatch calendarIDs w =
     (let i = dw_uuid w (dw_drawn w); w1 = w\<lparr>dw_drawn := Suc (dw_drawn w)\<rparr> in
      case begin_exclusive_dispatch \<lparr>xr_operation_id = i, xr_target_key = GlobalSyncDispatchKey,
             xr_request_hash = sha256_hex i, xr_kind = ''run'', xr_calendar_ids = calendarIDs,
             xr_now = dw_now w\<rparr> (dw_db w1) of
        Inl e \<Rightarrow> (Inl e, w1)
      | Inr (_, db') \<Rightarrow>
          (Inr (\<lambda>v. case release_exclusive_after_confirmed_run i calendarIDs (dw_now v) (dw_db v) of
               Inl e \<Rightarrow> (Inl e, v)
             | Inr (_, db'') \<Rightarrow> (Inr (), v\<lparr>dw_db := db''\<rparr>)),
           w1\<lparr>dw_db := db'\<rparr>))"

definition store_guard :: "dispatch_world write_guard" where
  "store_guard = \<lparr>begin_write_dispatch = store_begin_write_dispatch\<rparr>"

definition held_dispatches :: "dispatch_world \<Rightarrow> string set" where
  "held_dispatches w = {op. \<exists>r \<in> set (db_reservations (dw_db w)). rs_operation_id r = op \<and> rs_released_at r = None}"

lemma held_after_release:
  "rs_operation_id ` {r \<in> set (update_rows (\<lambda>r. rs_operation_id r = op) (\<lambda>r. r\<lparr>rs_released_at := Some now\<rparr>) rs). rs_released_at r = None} =
   rs_operation_id ` {r \<in> set rs. rs_released_at r = None} - {op}"
  by (induction rs) auto

lemma held_dispatches_image:
  "held_dispatches w = rs_operation_id ` {r \<in> set (db_reservations (dw_db w)). rs_released_at r = None}"
  by (auto simp: held_dispatches_def)

interpretation store_ledger: write_ledger store_guard held_dispatches
proof unfold_locales
  fix ids s release s'
  assume "begin_write_dispatch store_guard ids s = (Inr release, s')"
  then obtain db' where b: "begin_exclusive_dispatch \<lparr>xr_operation_id = dw_uuid s (dw_drawn s),
         xr_target_key = GlobalSyncDispatchKey, xr_request_hash = sha256_hex (dw_uuid s (dw_drawn s)),
         xr_kind = ''run'', xr_calendar_ids = ids, xr_now = dw_now s\<rparr> (dw_db s) = Inr ((), db')"
    and s': "s' = s\<lparr>dw_drawn := Suc (dw_drawn s), dw_db := db'\<rparr>"
    and rel: "release = (\<lambda>v. case release_exclusive_after_confirmed_run (dw_uuid s (dw_drawn s)) ids (dw_now v) (dw_db v) of
               Inl e \<Rightarrow> (Inl e, v)
             | Inr (_, db'') \<Rightarrow> (Inr (), v\<lparr>dw_db := db''\<rparr>))"
    by (auto simp: store_guard_def store_begin_write_dispatch_def Let_def split: sum.splits)
  let ?i = "dw_uuid s (dw_drawn s)"
  have fresh: "?i \<notin> held_dispatches s" and grows: "held_dispatches s' = insert ?i (held_dispatches s)"
    by (rule begin_exclusive_effect [OF b]; auto simp: held_dispatches_def s')+
  have "releases held_dispatches ?i release"
    unfolding releases_def
  proof (intro allI)
    fix v
    show "case release v of (Inr _, v') \<Rightarrow> held_dispatches v' = held_dispatches v - {?i}
        | (Inl _, v') \<Rightarrow> held_dispatches v' = held_dispatches v"
    proof (cases "release_exclusive_after_confirmed_run ?i ids (dw_now v) (dw_db v)")
      case (Inl e)
      then show ?thesis by (simp add: rel)
    next
      case (Inr p)
      then obtain u db'' where r: "release_exclusive_after_confirmed_run ?i ids (dw_now v) (dw_db v) = Inr (u, db'')"
        by (cases p) auto
      have "db_reservations db'' = update_rows (\<lambda>r. rs_operation_id r = ?i)
          (\<lambda>r. r\<lparr>rs_released_at := Some (dw_now v)\<rparr>) (db_reservations (dw_db v))"
        by (rule release_effect [OF r]) simp
      then show ?thesis using r by (simp add: rel held_dispatches_image held_after_release)
    qed
  qed
  with fresh grows show "\<exists>tok. tok \<notin> held_dispatches s \<and> held_dispatches s' = insert tok (held_dispatches s) \<and>
      releases held_dispatches tok release" by blast
next
  fix ids s e s'
  assume "begin_write_dispatch store_guard ids s = (Inl e, s')"
  then show "held_dispatches s' = held_dispatches s"
    by (auto simp: store_guard_def store_begin_write_dispatch_def Let_def held_dispatches_def split: sum.splits)
qed

section \<open>Properties\<close>

text \<open>The committed transactions on the ledger, in any order.\<close>

inductive ledger_step :: "sync_db \<Rightarrow> sync_db \<Rightarrow> bool" where
  begin_one: "begin_projection_mutation i m now db = Inr (u, db') \<Longrightarrow> ledger_step db db'"
| resolve_one: "resolve_projection_mutation i m db = Inr (u, db') \<Longrightarrow> ledger_step db db'"
| begin_many: "begin_projection_mutation_many cals op now db = Inr (u, db') \<Longrightarrow> ledger_step db db'"
| resolve_many: "resolve_projection_mutation_many_and_schedule cals op now db = Inr (u, db') \<Longrightarrow> ledger_step db db'"
| begin_exclusive: "begin_exclusive_dispatch req db = Inr (u, db') \<Longrightarrow> ledger_step db db'"
| release_exclusive: "release_exclusive_after_confirmed_run op cals now db = Inr (u, db') \<Longrightarrow> ledger_step db db'"

lemma ledger_step_ok: "ledger_step db db' \<Longrightarrow> ledger_ok db \<Longrightarrow> ledger_ok db'"
  by (induction rule: ledger_step.induct)
    (erule (1) ledger_ok_begin_one [rotated] ledger_ok_resolve_one [rotated] ledger_ok_begin_many [rotated]
       ledger_ok_resolve_many [rotated] ledger_ok_begin_exclusive [rotated] ledger_ok_release [rotated])+

text \<open>
  C32. The mutation ledger stays consistent through every sequence of committed operations on
  it: operations, reservations, intents and members keep their keys unique, no target key ever
  has two active reservations, and intents and members of an operation appear and disappear
  together.
\<close>

theorem ledger_invariant:
  assumes "ledger_step\<^sup>*\<^sup>* db db'" and "ledger_ok db"
  shows "ledger_ok db'"
  using assms by (induction rule: rtranclp_induct) (auto intro: ledger_step_ok)

lemma active_key_refuses:
  assumes "begin_exclusive_dispatch req db = Inr (u, db')" and "xr_target_key req' = xr_target_key req"
  shows "begin_exclusive_dispatch req' db' = Inl (Sentinel ErrExclusiveDispatchConflict)"
proof (rule begin_exclusive_effect [OF assms(1)])
  fix ids encoded
  assume "db' = db\<lparr>db_operations := db_operations db @
        [\<lparr>mo_operation_id = xr_operation_id req, mo_calendar_ids = encoded, mo_started_at = xr_now req, mo_resolved_at = None\<rparr>],
       db_reservations := db_reservations db @
        [\<lparr>rs_operation_id = xr_operation_id req, rs_target_key = xr_target_key req,
          rs_request_hash = xr_request_hash req, rs_operation_kind = xr_kind req,
          rs_created_at = xr_now req, rs_released_at = None\<rparr>],
       db_guards := fold bumped ids (db_guards db),
       db_intents := db_intents db @ op_intents (xr_operation_id req) ids,
       db_members := db_members db @ op_rows (xr_operation_id req) ids,
       db_guard_members := db_guard_members db @ op_rows (xr_operation_id req) ids\<rparr>"
  then show ?thesis using assms(2)
    by (auto simp: begin_exclusive_dispatch_def insert_exclusive_reservation_def active_reservation_def Let_def
        split: sum.splits)
qed

text \<open>
  C27. The fence is exclusive: a reservation commits only when its target key has no active
  reservation, and from then on that reservation is the only one of its key and every other
  request for the key is refused, whatever its operation, calendars or time.
\<close>

theorem exclusive_dispatch_excludes:
  assumes "begin_exclusive_dispatch req db = Inr (u, db')"
  shows "count_rows (active_reservation (xr_target_key req)) (db_reservations db) = 0 \<and>
    (\<exists>r. filter (active_reservation (xr_target_key req)) (db_reservations db') = [r] \<and>
       rs_operation_id r = xr_operation_id req) \<and>
    (\<forall>req'. xr_target_key req' = xr_target_key req \<longrightarrow>
       begin_exclusive_dispatch req' db' = Inl (Sentinel ErrExclusiveDispatchConflict))"
proof (rule begin_exclusive_effect [OF assms])
  fix ids encoded
  assume free: "\<forall>r \<in> set (db_reservations db). rs_operation_id r \<noteq> xr_operation_id req \<and>
       \<not> active_reservation (xr_target_key req) r"
    and db': "db' = db\<lparr>db_operations := db_operations db @
        [\<lparr>mo_operation_id = xr_operation_id req, mo_calendar_ids = encoded, mo_started_at = xr_now req, mo_resolved_at = None\<rparr>],
       db_reservations := db_reservations db @
        [\<lparr>rs_operation_id = xr_operation_id req, rs_target_key = xr_target_key req,
          rs_request_hash = xr_request_hash req, rs_operation_kind = xr_kind req,
          rs_created_at = xr_now req, rs_released_at = None\<rparr>],
       db_guards := fold bumped ids (db_guards db),
       db_intents := db_intents db @ op_intents (xr_operation_id req) ids,
       db_members := db_members db @ op_rows (xr_operation_id req) ids,
       db_guard_members := db_guard_members db @ op_rows (xr_operation_id req) ids\<rparr>"
  have zero: "count_rows (active_reservation (xr_target_key req)) (db_reservations db) = 0"
    using free by (simp add: count_rows_zero)
  then have none: "filter (active_reservation (xr_target_key req)) (db_reservations db) = []"
    by (simp add: count_rows_def)
  show ?thesis using zero none active_key_refuses [OF assms] by (simp add: db' active_reservation_def)
qed

lemma find_append_new: "\<forall>x \<in> set xs. \<not> P x \<Longrightarrow> find P (xs @ ys) = find P ys"
  by (induction xs) auto

text \<open>
  A confirmed write can always be settled: after a reservation commits, its release with
  the same calendars commits too, at any later time, and leaves the ledger as it was, the target
  key free, every calendar's epoch advanced twice and its cached snapshot invalidated.
\<close>

theorem release_after_begin:
  assumes ok: "ledger_ok db"
    and fk: "\<forall>c \<in> set (db_calendars db). \<exists>n \<in> set (db_connections db). cn_id n = cl_connection_id c"
    and run: "begin_exclusive_dispatch req db = Inr (u, db1)"
    and now: "now \<noteq> zero_time"
  shows "\<exists>db2. release_exclusive_after_confirmed_run (xr_operation_id req) (xr_calendar_ids req) now db1 = Inr ((), db2) \<and>
    db_intents db2 = db_intents db \<and> db_members db2 = db_members db \<and> db_guard_members db2 = db_guard_members db \<and>
    count_rows (active_reservation (xr_target_key req)) (db_reservations db2) = 0 \<and>
    (\<forall>i \<in> set (xr_calendar_ids req). guard_epoch db2 i = guard_epoch db i + 2)"
proof (rule begin_exclusive_effect [OF run])
  fix ids encoded
  let ?op = "xr_operation_id req"
  assume n: "normalize_mutation_calendars (xr_calendar_ids req) = Inr (ids, encoded)"
    and v: "valid_projection_mutation_id ?op"
    and newop: "\<forall>o' \<in> set (db_operations db). mo_operation_id o' \<noteq> ?op"
    and free: "\<forall>r \<in> set (db_reservations db). rs_operation_id r \<noteq> ?op \<and> \<not> active_reservation (xr_target_key req) r"
    and lock: "lock_mutation_calendars ids db = Inr ()" and dist: "distinct ids"
    and i0: "set (op_intents ?op ids) \<inter> set (db_intents db) = {}"
    and db1: "db1 = db\<lparr>db_operations := db_operations db @
        [\<lparr>mo_operation_id = ?op, mo_calendar_ids = encoded, mo_started_at = xr_now req, mo_resolved_at = None\<rparr>],
       db_reservations := db_reservations db @
        [\<lparr>rs_operation_id = ?op, rs_target_key = xr_target_key req,
          rs_request_hash = xr_request_hash req, rs_operation_kind = xr_kind req,
          rs_created_at = xr_now req, rs_released_at = None\<rparr>],
       db_guards := fold bumped ids (db_guards db),
       db_intents := db_intents db @ op_intents ?op ids,
       db_members := db_members db @ op_rows ?op ids,
       db_guard_members := db_guard_members db @ op_rows ?op ids\<rparr>"
  have ok1: "ledger_ok db1" by (rule ledger_ok_begin_exclusive [OF ok run])
  have fo: "find (\<lambda>o'. mo_operation_id o' = ?op) (db_operations db1) =
      Some \<lparr>mo_operation_id = ?op, mo_calendar_ids = encoded, mo_started_at = xr_now req, mo_resolved_at = None\<rparr>"
    using newop by (simp add: db1 find_append_new)
  obtain r where fr: "find (\<lambda>r. rs_operation_id r = ?op) (db_reservations db1) = Some r" "rs_released_at r = None"
    using free by (simp add: db1 find_append_new)
  have lock1: "lock_mutation_calendars ids db1 = Inr ()"
    using lock by (simp add: db1 lock_mutation_calendars_def)
  obtain conns where conns: "connections_of ids db1 = Inr conns"
    "set conns \<subseteq> cl_connection_id ` set (db_calendars db1)"
    using connections_of_succeeds [of ids db1] lock_calendars_exist [OF lock1] by blast
  have conn_ok: "lock_connections conns db1 = Inr ()"
    using conns(2) fk by (intro lock_connections_succeeds) (auto simp: db1)
  define db2 where "db2 = (fold (reset_sync_state now) ids db1)\<lparr>db_guards := fold bumped ids (db_guards db1)\<rparr>"
  have adv: "fold_res (\<lambda>i d. map_sum id snd (advance_projection_mutation_guard i d)) ids
      (fold (reset_sync_state now) ids db1) = Inr db2"
    using advance_all_succeeds [of "fold (reset_sync_state now) ids db1" ids] ok1
    by (simp add: db2_def ledger_ok_def) (simp add: db1 fst_bumped_all)
  have fresh: "?op \<notin> fst ` set (db_members db)"
    using ok newop by (fastforce simp: ledger_ok_def)
  then have freshg: "?op \<notin> fst ` set (db_guard_members db)"
    using ok by (auto simp: ledger_ok_def)
  have keep: "filter (\<lambda>x. fst x \<noteq> ?op) rows = rows" "count_rows (\<lambda>x. fst x = ?op) rows = 0"
    if "?op \<notin> fst ` set rows" for rows :: "(string \<times> string) list"
    using that by (force simp: filter_id_conv count_rows_zero image_iff)+
  have mine: "filter (\<lambda>x. fst x \<noteq> ?op) (op_rows ?op ids) = []" "count_rows (\<lambda>x. fst x = ?op) (op_rows ?op ids) = length ids"
    by (induction ids) (auto simp: op_rows_def)
  define db3 where "db3 = db2\<lparr>db_guard_members := db_guard_members db\<rparr>"
  have del: "delete_guard_members ?op (length ids) db2 = Inr ((), db3)"
    using keep [OF freshg] mine by (simp add: delete_guard_members_def db2_def db3_def) (simp add: db1)
  define db4 where "db4 = db3\<lparr>db_members := db_members db\<rparr>"
  have delm: "delete_members ?op (Sentinel ErrExclusiveDispatchConflict) (length ids) db3 = Inr ((), db4)"
    using keep [OF fresh] freshg mine
    by (simp add: delete_members_def db4_def db3_def db2_def list_ex_iff) (force simp: db1)
  define db5 where "db5 = db4\<lparr>db_intents := filter (\<lambda>x. x \<notin> set (op_intents ?op ids)) (db_intents db4)\<rparr>"
  have ints: "db_intents db4 = db_intents db @ op_intents ?op ids"
    by (simp add: db4_def db3_def db2_def) (simp add: db1)
  have deli: "fold_res (delete_intent (operation_mutation_id ?op) (Sentinel ErrExclusiveDispatchConflict)) ids db4 = Inr db5"
    unfolding db5_def
    by (rule delete_intents_succeed)
      (use ok1 ints dist in \<open>simp_all add: ledger_ok_def\<close>, simp add: db1)
  have fin: "release_exclusive_after_confirmed_run ?op (xr_calendar_ids req) now db1 =
      Inr ((), release_reservation ?op now (resolve_operation ?op now db5))"
    using n v now fo fr lock1 conns(1) conn_ok adv del delm deli
    by (simp add: release_exclusive_after_confirmed_run_def)
  have restored: "filter (\<lambda>x. x \<notin> set (op_intents ?op ids)) (db_intents db) = db_intents db"
    using i0 by (auto simp: filter_id_conv)
  have clear: "count_rows (active_reservation (xr_target_key req)) (db_reservations (release_reservation ?op now (resolve_operation ?op now db5))) = 0"
    using free
    by (auto simp: release_reservation_def resolve_operation_def db5_def db4_def db3_def db2_def count_rows_zero
        set_update_rows active_reservation_def db1)
  have ep: "guard_epoch (release_reservation ?op now (resolve_operation ?op now db5)) i = guard_epoch db i + 2"
    if "i \<in> set (xr_calendar_ids req)" for i
  proof -
    have "i \<in> set ids" using n that by (auto simp: normalize_mutation_calendars_def Let_def split: if_splits)
    then show ?thesis using dist
      by (simp add: guard_epoch_def release_reservation_def resolve_operation_def db5_def db4_def db3_def db2_def
          db1 map_of_bumped_all split: option.splits)
  qed
  show ?thesis
    using fin restored clear ep
    by (auto simp: release_reservation_def resolve_operation_def db5_def db4_def db3_def db2_def db1)
qed

lemma hex_value_digit: "n < 16 \<Longrightarrow> hex_value (hex_digit n) = Some n"
  by (auto simp: hex_value_def hex_digit_def Let_def)

lemma hex_decode_encode: "\<forall>b \<in> set bs. b < 256 \<Longrightarrow> hex_decode (hex_encode bs) = Some bs"
proof (induction bs)
  case Nil
  then show ?case by (simp add: hex_encode_def)
next
  case (Cons b bs)
  have "b div 16 < 16" "b mod 16 < 16" using Cons.prems by auto
  with Cons show ?case
    by (simp add: hex_encode_def hex_byte_def hex_value_digit)
qed

lemma target_digest_sha256: "target_digest (sha256_hex s)"
proof -
  let ?bs = "sha256 (map of_char s)"
  have b: "\<forall>b \<in> set ?bs. b < 256" by (auto simp: sha256_def be_bytes_def)
  have "2 * length ?bs = length (sha256_hex s)" by (simp only: sha256_hex_def length_hex_encode)
  then have "length ?bs = 32" by simp
  with hex_decode_encode [OF b] show ?thesis by (simp add: target_digest_def sha256_hex_def)
qed

text \<open>The reservation of an operation on the global key was not released yet.\<close>

definition reserved_in :: "string \<Rightarrow> sync_db \<Rightarrow> bool" where
  "reserved_in op db \<longleftrightarrow> (\<exists>r \<in> set (db_reservations db). rs_operation_id r = op \<and> active_reservation GlobalSyncDispatchKey r)"

lemma reserved_refuses:
  assumes "reserved_in op db" and "xr_target_key req = GlobalSyncDispatchKey"
  shows "begin_exclusive_dispatch req db = Inl (Sentinel ErrExclusiveDispatchConflict)"
proof -
  have "insert_exclusive_reservation req (db\<lparr>db_operations := ops\<rparr>) = Inl (Sentinel ErrExclusiveDispatchConflict)" for ops
    using assms by (auto simp: insert_exclusive_reservation_def reserved_in_def list_ex_iff)
  then show ?thesis
    by (auto simp: begin_exclusive_dispatch_def Let_def split: sum.splits)
qed

text \<open>
  C26. An unknown outcome parks the fence: when a guarded provider call fails with an error that
  does not prove that nothing was sent, the write is reported as unknown and its reservation
  stays; from then on, whatever else is committed to the database, every guarded write is refused
  before its provider call as long as that reservation is not released.
\<close>

theorem unknown_outcome_parks_writes:
  assumes "begin_write_dispatch store_guard ids w = (Inr release, w1)"
    and "\<And>v. dw_db (snd (call v)) = dw_db v"
    and "call w1 = (Inl e, w2)" and "\<And>e'. e \<noteq> ErrNoDispatch e'"
  shows "guarded_write (Some store_guard) ids call confirmed w = (Inl outcome_unknown, w2) \<and>
    held_dispatches w2 = insert (dw_uuid w (dw_drawn w)) (held_dispatches w) \<and>
    reserved_in (dw_uuid w (dw_drawn w)) (dw_db w2) \<and>
    (\<forall>v. reserved_in (dw_uuid w (dw_drawn w)) (dw_db v) \<longrightarrow>
       guarded_write (Some store_guard) ids' call' confirmed' v =
         (Inl (Sentinel ErrWriteDispatchBlocked), v\<lparr>dw_drawn := Suc (dw_drawn v)\<rparr>))"
proof -
  have frame: "held_dispatches (snd (call v)) = held_dispatches v" for v
    using assms(2) by (simp add: held_dispatches_def)
  note unknown = store_ledger.guarded_write_unsettled(1) [of call, OF frame assms(1,3,4), of confirmed]
  obtain db' where b: "begin_exclusive_dispatch \<lparr>xr_operation_id = dw_uuid w (dw_drawn w),
         xr_target_key = GlobalSyncDispatchKey, xr_request_hash = sha256_hex (dw_uuid w (dw_drawn w)),
         xr_kind = ''run'', xr_calendar_ids = ids, xr_now = dw_now w\<rparr> (dw_db w) = Inr ((), db')"
    and w1: "w1 = w\<lparr>dw_drawn := Suc (dw_drawn w), dw_db := db'\<rparr>"
    using assms(1) by (auto simp: store_guard_def store_begin_write_dispatch_def Let_def split: sum.splits)
  have db2: "dw_db w2 = db'" using assms(2) [of w1] assms(3) w1 by simp
  have held: "held_dispatches w2 = insert (dw_uuid w (dw_drawn w)) (held_dispatches w)"
    using db2 by (rule_tac begin_exclusive_effect [OF b]) (auto simp: held_dispatches_def)
  have reserved: "reserved_in (dw_uuid w (dw_drawn w)) (dw_db w2)"
    using db2 by (rule_tac begin_exclusive_effect [OF b]) (simp add: reserved_in_def active_reservation_def)
  show ?thesis
    using unknown held reserved
    by (auto simp: guarded_write_def store_guard_def store_begin_write_dispatch_def Let_def reserved_refuses)
qed

section \<open>Concrete runs\<close>

definition sample_fence_db :: sync_db where
  "sample_fence_db = empty_db\<lparr>db_connections := [\<lparr>cn_id = ''a'', cn_provider = ''google'',
       cn_account_fingerprint = ''f'', cn_display_name = ''n'', cn_status = ''connected''\<rparr>],
     db_calendars := [\<lparr>cl_id = ''c'', cl_connection_id = ''a'', cl_provider_calendar_id = ''p'', cl_name = ''n'',
       cl_timezone = ''UTC'', cl_can_read = True, cl_can_write = True, cl_supports_recurrence = True,
       cl_google_primary = False, cl_enabled = True, cl_discovered_at = 0\<rparr>]\<rparr>"

definition sample_request :: exclusive_request where
  "sample_request = \<lparr>xr_operation_id = ''operation-000001'', xr_target_key = GlobalSyncDispatchKey,
     xr_request_hash = sha256_hex ''operation-000001'', xr_kind = ''run'', xr_calendar_ids = [''c''], xr_now = 5\<rparr>"

definition sample_fenced_db :: sync_db where
  "sample_fenced_db = sample_fence_db\<lparr>
     db_operations := [\<lparr>mo_operation_id = ''operation-000001'', mo_calendar_ids = json_array [json_string ''c''],
       mo_started_at = 5, mo_resolved_at = None\<rparr>],
     db_reservations := [\<lparr>rs_operation_id = ''operation-000001'', rs_target_key = GlobalSyncDispatchKey,
       rs_request_hash = sha256_hex ''operation-000001'', rs_operation_kind = ''run'', rs_created_at = 5, rs_released_at = None\<rparr>],
     db_guards := [(''c'', 1)], db_intents := [(''c'', '':operation-000001'')],
     db_members := [(''operation-000001'', ''c'')], db_guard_members := [(''operation-000001'', ''c'')]\<rparr>"

lemma sample_id_valid: "valid_projection_mutation_id ''operation-000001''"
  by (simp add: valid_projection_mutation_id_def valid_mutation_char_def)

lemma sample_begin: "begin_exclusive_dispatch sample_request sample_fence_db = Inr ((), sample_fenced_db)"
  by (simp add: begin_exclusive_dispatch_def sample_request_def sample_fence_db_def sample_fenced_db_def empty_db_def
      normalize_mutation_calendars_def maxProjectionMutationCalendars_def sample_id_valid target_digest_sha256
      valid_exclusive_target_key_def GlobalSyncDispatchKey_def zero_time_def insert_exclusive_reservation_def
      lock_mutation_calendars_def fence_calendar_def guard_and_intend_def init_guard_def
      advance_projection_mutation_guard_def maxPendingProjectionMutations_def insert_intent_def insert_member_def
      insert_guard_member_def operation_mutation_id_def)

lemma sample_fence_ok: "ledger_ok sample_fence_db"
  by (simp add: ledger_ok_def sample_fence_db_def empty_db_def)

theorem ledger_invariant_witness: "ledger_step sample_fence_db sample_fenced_db \<and> ledger_ok sample_fenced_db"
proof
  show s: "ledger_step sample_fence_db sample_fenced_db" by (rule ledger_step.begin_exclusive [OF sample_begin])
  from ledger_invariant [OF r_into_rtranclp [of ledger_step, OF s] sample_fence_ok]
  show "ledger_ok sample_fenced_db" .
qed

theorem exclusive_dispatch_excludes_witness:
  "count_rows (active_reservation GlobalSyncDispatchKey) (db_reservations sample_fence_db) = 0 \<and>
   begin_exclusive_dispatch (sample_request\<lparr>xr_operation_id := ''operation-000002''\<rparr>) sample_fenced_db =
     Inl (Sentinel ErrExclusiveDispatchConflict)"
  using exclusive_dispatch_excludes [OF sample_begin] by (simp add: sample_request_def)

theorem release_after_begin_witness:
  "\<exists>db2. release_exclusive_after_confirmed_run ''operation-000001'' [''c''] 6 sample_fenced_db = Inr ((), db2) \<and>
     db_intents db2 = [] \<and> guard_epoch db2 ''c'' = 2"
  using release_after_begin [OF sample_fence_ok _ sample_begin, of 6]
  by (auto simp: sample_request_def sample_fence_db_def empty_db_def zero_time_def guard_epoch_def)

definition sample_world :: dispatch_world where
  "sample_world = \<lparr>dw_db = sample_fence_db, dw_uuid = (\<lambda>n. ''operation-000001''), dw_drawn = 0, dw_now = 5\<rparr>"

definition sample_release :: "(dispatch_world, unit) prog" where
  "sample_release = (\<lambda>v. case release_exclusive_after_confirmed_run ''operation-000001'' [''c''] (dw_now v) (dw_db v) of
       Inl e \<Rightarrow> (Inl e, v)
     | Inr (_, db'') \<Rightarrow> (Inr (), v\<lparr>dw_db := db''\<rparr>))"

lemma sample_world_begin:
  "begin_write_dispatch store_guard [''c''] sample_world =
     (Inr sample_release, sample_world\<lparr>dw_drawn := 1, dw_db := sample_fenced_db\<rparr>)"
  using sample_begin
  by (simp add: store_guard_def store_begin_write_dispatch_def sample_world_def sample_request_def sample_release_def Let_def)

theorem unknown_outcome_parks_writes_witness:
  "guarded_write (Some store_guard) [''c''] (fail (ErrExt ''timeout'') :: (dispatch_world, unit) prog) (\<lambda>_. True) sample_world =
     (Inl outcome_unknown, sample_world\<lparr>dw_drawn := 1, dw_db := sample_fenced_db\<rparr>) \<and>
   guarded_write (Some store_guard) [''c''] (ret () :: (dispatch_world, unit) prog) (\<lambda>_. True)
     (sample_world\<lparr>dw_drawn := 1, dw_db := sample_fenced_db\<lparr>db_calendars := []\<rparr>\<rparr>) =
     (Inl (Sentinel ErrWriteDispatchBlocked), sample_world\<lparr>dw_drawn := 2, dw_db := sample_fenced_db\<lparr>db_calendars := []\<rparr>\<rparr>)"
proof -
  have frame: "dw_db (snd ((fail (ErrExt ''timeout'') :: (dispatch_world, unit) prog) v)) = dw_db v" for v
    by (simp add: fail_def)
  let ?w2 = "sample_world\<lparr>dw_drawn := 1, dw_db := sample_fenced_db\<rparr>"
  have call: "(fail (ErrExt ''timeout'') :: (dispatch_world, unit) prog) ?w2 = (Inl (ErrExt ''timeout''), ?w2)"
    by (simp add: fail_def)
  note parked = unknown_outcome_parks_writes [of "[''c'']" sample_world sample_release ?w2
      "fail (ErrExt ''timeout'') :: (dispatch_world, unit) prog" "ErrExt ''timeout''" ?w2 "\<lambda>_. True" "[''c'']"
      "ret () :: (dispatch_world, unit) prog" "\<lambda>_. True", OF sample_world_begin frame call]
  have "reserved_in (dw_uuid sample_world (dw_drawn sample_world)) (sample_fenced_db\<lparr>db_calendars := []\<rparr>)"
    by (simp add: reserved_in_def sample_world_def sample_fenced_db_def active_reservation_def)
  then show ?thesis using parked by (auto simp: numeral_2_eq_2)
qed

end
