(* ===== verification/Sync_Rules.thy ===== *)
theory Sync_Rules
  imports Sync_Db
begin

text \<open>
  Synchronization rules and the calendars they join: the rule operations of
  \<open>src/internal/storage/store.go\<close>, \<open>rule_config_version.go\<close> and \<open>sync_control.go\<close>.
  The triggers that version a rule's configuration are part of every UPDATE of the table.
\<close>

section \<open>Rows of rules\<close>

text \<open>The trigger \<open>sync_rules_config_version_after_update\<close> (migration 13).\<close>

definition rule_config_changed :: "rule_row \<Rightarrow> rule_row \<Rightarrow> bool" where
  "rule_config_changed old new \<longleftrightarrow>
     ru_source_calendar_id old \<noteq> ru_source_calendar_id new \<or>
     ru_target_calendar_id old \<noteq> ru_target_calendar_id new \<or> ru_state old \<noteq> ru_state new \<or>
     ru_interval_seconds old \<noteq> ru_interval_seconds new \<or> ru_lookback_days old \<noteq> ru_lookback_days new \<or>
     ru_lookahead_days old \<noteq> ru_lookahead_days new \<or> ru_recurrence_mode old \<noteq> ru_recurrence_mode new \<or>
     ru_copy_attendees old \<noteq> ru_copy_attendees new \<or>
     ru_notification_policy old \<noteq> ru_notification_policy new"

definition store_rule :: "rule_row \<Rightarrow> rule_row \<Rightarrow> rule_row" where
  "store_rule old new = new\<lparr>ru_config_version := ru_config_version old +
     (if rule_config_changed old new then 1 else 0) + (if ru_sync_mode old \<noteq> ru_sync_mode new then 1 else 0)\<rparr>"

definition update_rules :: "(rule_row \<Rightarrow> bool) \<Rightarrow> (rule_row \<Rightarrow> rule_row) \<Rightarrow> sync_db \<Rightarrow> sync_db" where
  "update_rules P f db = db\<lparr>db_rules := update_rows P (\<lambda>r. store_rule r (f r)) (db_rules db)\<rparr>"

definition find_calendar :: "string \<Rightarrow> sync_db \<Rightarrow> calendar_row option" where
  "find_calendar i db = find (\<lambda>c. cl_id c = i) (db_calendars db)"

definition find_rule :: "string \<Rightarrow> sync_db \<Rightarrow> rule_row option" where
  "find_rule i db = find (\<lambda>r. ru_id r = i) (db_rules db)"

text \<open>The EXISTS subqueries several statements share.\<close>

definition both_enabled :: "rule_row \<Rightarrow> sync_db \<Rightarrow> bool" where
  "both_enabled r db = (case (find_calendar (ru_source_calendar_id r) db, find_calendar (ru_target_calendar_id r) db) of
       (Some s, Some t) \<Rightarrow> cl_enabled s \<and> cl_enabled t
     | _ \<Rightarrow> False)"

definition dispatch_reserved :: "sync_db \<Rightarrow> bool" where
  "dispatch_reserved db = list_ex (\<lambda>r. rs_released_at r = None) (db_reservations db)"

definition rule_uncertain_job :: "string \<Rightarrow> sync_db \<Rightarrow> bool" where
  "rule_uncertain_job i db = list_ex (\<lambda>j. jr_rule_id j = i \<and>
     (jr_state j = ''unknown'' \<or> jr_state j = ''running'' \<and> jr_stop_requested j)) (db_jobs db)"

section \<open>Validation (store.go)\<close>

definition normalized_sync_mode :: "string \<Rightarrow> string" where
  "normalized_sync_mode mode = (if mode = '''' then ''direct'' else mode)"

definition validate_rule :: "rule \<Rightarrow> unit res" where
  "validate_rule r =
     (if ru_sync_mode r \<noteq> '''' \<and> ru_sync_mode r \<noteq> ''direct'' \<and> ru_sync_mode r \<noteq> ''cached_instances''
      then Inl (ErrText ''invalid sync mode'')
      else if ru_id r = '''' \<or> ru_source_calendar_id r = '''' \<or> ru_target_calendar_id r = ''''
      then Inl (ErrText ''rule id, source calendar, and target calendar are required'')
      else if ru_source_calendar_id r = ru_target_calendar_id r
      then Inl (ErrText ''source and target calendars must differ'')
      else if ru_interval_seconds r \<noteq> 600 \<and> ru_interval_seconds r \<noteq> 1800 \<and> ru_interval_seconds r \<noteq> 3600
      then Inl (ErrText ''interval_seconds must be 600, 1800, or 3600'')
      else if ru_lookback_days r < 0 \<or> ru_lookback_days r > 365
      then Inl (ErrText ''lookback_days must be between 0 and 365'')
      else if ru_lookahead_days r < 1 \<or> ru_lookahead_days r > 365
      then Inl (ErrText ''lookahead_days must be between 1 and 365'')
      else if ru_copy_attendees r then Inl (ErrText ''copy_attendees is not supported'')
      else if ru_recurrence_mode r \<noteq> ''preserve'' then Inl (ErrText ''recurrence_mode must be preserve'')
      else if ru_notification_policy r \<noteq> ''none'' then Inl (ErrText ''notification_policy must be none'')
      else Inr ())"

text \<open>The routes of the rules that are not archived.\<close>

definition rule_edges :: "sync_db \<Rightarrow> (string \<times> string) list" where
  "rule_edges db = map (\<lambda>r. (ru_source_calendar_id r, ru_target_calendar_id r))
     (filter (\<lambda>r. ru_state r \<noteq> ''archived'') (db_rules db))"

definition successors :: "(string \<times> string) list \<Rightarrow> string \<Rightarrow> string list" where
  "successors edges node = map snd (filter (\<lambda>e. fst e = node) edges)"

text \<open>
  \<open>reachesSource\<close>: the recursive search visits the nodes in the order of this stack.
\<close>

function reaches_source :: "(string \<times> string) list \<Rightarrow> string \<Rightarrow> string list \<Rightarrow> string list \<Rightarrow> bool" where
  "reaches_source edges source [] seen = False"
| "reaches_source edges source (node # stack) seen =
     (if node = source then True
      else if node \<in> set seen then reaches_source edges source stack seen
      else reaches_source edges source (successors edges node @ stack) (node # seen))"
  by pat_completeness auto
termination
proof (relation "measures [\<lambda>(edges, source, stack, seen). card (fst ` set edges - set seen),
    \<lambda>(edges, source, stack, seen). length stack]")
  fix edges :: "(string \<times> string) list" and source node :: string and stack seen :: "string list"
  assume new: "node \<notin> set seen"
  show "((edges, source, successors edges node @ stack, node # seen), edges, source, node # stack, seen)
      \<in> measures [\<lambda>(edges, source, stack, seen). card (fst ` set edges - set seen),
        \<lambda>(edges, source, stack, seen). length stack]"
  proof (cases "node \<in> fst ` set edges")
    case True
    then have "card (fst ` set edges - set (node # seen)) < card (fst ` set edges - set seen)"
      using new by (intro psubset_card_mono) auto
    then show ?thesis by simp
  next
    case False
    then have "fst ` set edges - set (node # seen) = fst ` set edges - set seen" by auto
    moreover have "successors edges node = []" using False by (force simp: successors_def filter_empty_conv)
    ultimately show ?thesis by simp
  qed
qed simp_all

definition validate_rule_route :: "sync_db \<Rightarrow> rule \<Rightarrow> unit res" where
  "validate_rule_route db candidate = (case find_calendar (ru_source_calendar_id candidate) db of
       None \<Rightarrow> Inl (ErrText ''source calendar is not connected'')
     | Some source \<Rightarrow>
         if \<not> (cl_can_read source \<and> cl_enabled source) then Inl (ErrText ''source calendar is not readable'')
         else (case find_calendar (ru_target_calendar_id candidate) db of
           None \<Rightarrow> Inl (ErrText ''target calendar is not connected'')
         | Some target \<Rightarrow>
             if \<not> (cl_can_write target \<and> cl_enabled target) then Inl (ErrText ''target calendar is not writable'')
             else if reaches_source
                 (rule_edges db @ [(ru_source_calendar_id candidate, ru_target_calendar_id candidate)])
                 (ru_source_calendar_id candidate) [ru_target_calendar_id candidate] []
             then Inl (Sentinel ErrRuleCycle) else Inr ()))"

section \<open>Operations on rules\<close>

definition insert_rule :: "rule \<Rightarrow> string \<Rightarrow> unit tx" where
  "insert_rule r mode db =
     (if list_ex (\<lambda>x. ru_id x = ru_id r) (db_rules db) then Inl unique_violation
      else Inr ((), db\<lparr>db_rules := db_rules db @
        [rule.extend (r\<lparr>ru_sync_mode := mode\<rparr>) \<lparr>ru_config_version = 1\<rparr>]\<rparr>))"

definition create_rule :: "rule \<Rightarrow> unit tx" where
  "create_rule r db =
     (if ru_sync_mode r = ''cached_instances'' \<and> ru_state r \<noteq> ''paused''
      then Inl (Sentinel ErrCacheExecutionIneligible)
      else bind_res (validate_rule r) (\<lambda>_.
           bind_res (validate_rule_route db r) (\<lambda>_.
             map_err (ErrWrap ''create rule'') (insert_rule r (normalized_sync_mode (ru_sync_mode r)) db))))"

definition legacy_mapping_check :: "rule \<Rightarrow> mapping_table \<Rightarrow> mapping \<Rightarrow> unit \<Rightarrow> unit res" where
  "legacy_mapping_check r table m _ =
     (if mp_rule_id m \<noteq> ru_id r then Inl (ErrText ''legacy mapping belongs to another rule'')
      else if mp_source_event_id m = '''' \<or> mp_target_event_id m = ''''
      then Inl (ErrText ''legacy mapping is missing a source or target event id'')
      else if count_rows (\<lambda>x. mp_target_event_id x = mp_target_event_id m) table \<noteq> 0
      then Inl (ErrText ''legacy target event is already mapped by another rule'')
      else Inr ())"

text \<open>An INSERT without a conflict clause; the version and the target's ETag have their defaults.\<close>

definition insert_legacy_mapping :: "string \<Rightarrow> mapping \<Rightarrow> mapping_table \<Rightarrow> mapping_table res" where
  "insert_legacy_mapping uuid m table =
     (case insert_row (m\<lparr>mp_incarnation := new_incarnation uuid, mp_version := 1, mp_target_etag := ''''\<rparr>) table of
        (n, table') \<Rightarrow> if n \<noteq> 1 then Inl (ErrWrap ''create legacy mapping'' unique_violation) else Inr table')"

text \<open>The import; the column \<open>sync_mode\<close> is left to its default.\<close>

definition import_legacy :: "(nat \<Rightarrow> string) \<Rightarrow> rule \<Rightarrow> mapping list \<Rightarrow> unit tx" where
  "import_legacy uuids r mappings db =
     bind_res (validate_rule r) (\<lambda>_.
       if ru_state r \<noteq> ''paused'' then Inl (ErrText ''legacy rule must be paused'')
       else bind_res (validate_rule_route db r) (\<lambda>_.
         if count_rows (\<lambda>c. cl_id c = ru_source_calendar_id r \<or> cl_id c = ru_target_calendar_id r) (db_calendars db) \<noteq> 2
         then Inl (ErrText ''legacy source and target calendars must already be connected and discovered'')
         else bind_res (fold_res (legacy_mapping_check r (db_mappings db)) mappings ()) (\<lambda>_.
              bind_res (map_err (ErrWrap ''create legacy rule'') (insert_rule r ''direct'' db)) (\<lambda>(_, db1).
              bind_res (fold_res (\<lambda>(n, m). insert_legacy_mapping (uuids n) m)
                          (enumerate 0 mappings) (db_mappings db1)) (\<lambda>table.
                Inr ((), db1\<lparr>db_mappings := table\<rparr>))))))"

definition list_rules :: "sync_db \<Rightarrow> rule list" where
  "list_rules db = map rule.truncate (sort_key ru_created_at (db_rules db))"

definition rule_by_id :: "string \<Rightarrow> sync_db \<Rightarrow> rule res" where
  "rule_by_id i db = (case find_rule i db of
       None \<Rightarrow> Inl (Sentinel ErrNotFound)
     | Some r \<Rightarrow> Inr (rule.truncate r))"

definition set_rule_state :: "string \<Rightarrow> string \<Rightarrow> instant option \<Rightarrow> instant \<Rightarrow> unit tx" where
  "set_rule_state i state nextRunAt updatedAt db =
     (if state \<noteq> ''paused'' \<and> state \<noteq> ''enabled''
      then Inl (ErrText ''rule state must be paused or enabled'')
      else let P = (\<lambda>r. ru_id r = i \<and> ru_state r \<noteq> ''archived'' \<and>
             (state \<noteq> ''enabled'' \<or>
              \<not> rule_uncertain_job (ru_id r) db \<and> \<not> dispatch_reserved db \<and>
              ru_sync_mode r = ''direct'' \<and> both_enabled r db)) in
        if count_rows P (db_rules db) \<noteq> 1 then Inl (Sentinel ErrNotFound)
        else Inr ((), update_rules P
          (\<lambda>r. r\<lparr>ru_state := state, ru_next_run_at := nextRunAt, ru_updated_at := updatedAt\<rparr>) db))"

definition rule_config_version :: "string \<Rightarrow> sync_db \<Rightarrow> int res" where
  "rule_config_version i db =
     (if i = '''' then Inl (ErrText ''rule ID is required'')
      else case find_rule i db of
        None \<Rightarrow> Inl (Sentinel ErrNotFound)
      | Some r \<Rightarrow> Inr (ru_config_version r))"

definition set_rule_state_at_version ::
  "string \<Rightarrow> string \<Rightarrow> int \<Rightarrow> instant option \<Rightarrow> instant \<Rightarrow> unit tx" where
  "set_rule_state_at_version i state expectedVersion nextRunAt updatedAt db =
     (if i = '''' \<or> expectedVersion < 1 \<or> updatedAt = zero_time then Inl (ErrText ''invalid rule transition'')
      else if state \<noteq> ''paused'' \<and> state \<noteq> ''enabled''
      then Inl (ErrText ''rule state must be paused or enabled'')
      else let P = (\<lambda>r. ru_id r = i \<and> ru_config_version r = expectedVersion \<and> ru_state r \<noteq> state \<and>
             ru_state r \<noteq> ''archived'' \<and>
             (state \<noteq> ''enabled'' \<or>
              \<not> rule_uncertain_job (ru_id r) db \<and> \<not> dispatch_reserved db \<and> both_enabled r db)) in
        if count_rows P (db_rules db) \<noteq> 1 then Inl (Sentinel ErrRuleConfigChanged)
        else Inr ((), update_rules P
          (\<lambda>r. r\<lparr>ru_state := state, ru_next_run_at := nextRunAt, ru_updated_at := updatedAt\<rparr>) db))"

section \<open>Pausing and archiving (sync_control.go)\<close>

definition request_rule_pause :: "string \<Rightarrow> instant \<Rightarrow> unit tx" where
  "request_rule_pause i now db =
     (let P = (\<lambda>r. ru_id r = i \<and> ru_state r = ''enabled'') in
      if count_rows P (db_rules db) \<noteq> 1 then Inl (Sentinel ErrSyncControlConflict)
      else let db1 = update_rules P
             (\<lambda>r. r\<lparr>ru_state := ''paused'', ru_next_run_at := None, ru_updated_at := now\<rparr>) db;
           jobs1 = update_rows (\<lambda>j. jr_rule_id j = i \<and> jr_state j = ''pending'' \<and> jr_kind j \<noteq> ''dry_run'')
             (\<lambda>j. j\<lparr>jr_state := ''cancelled'', jr_finished_at := Some now\<rparr>) (db_jobs db1);
           jobs2 = update_rows (\<lambda>j. jr_rule_id j = i \<and> jr_state j = ''running'' \<and> jr_kind j \<noteq> ''dry_run'')
             (\<lambda>j. j\<lparr>jr_stop_requested := True\<rparr>) jobs1
        in Inr ((), db1\<lparr>db_jobs := jobs2\<rparr>))"

definition pending_mapping_state :: "string \<Rightarrow> bool" where
  "pending_mapping_state s \<longleftrightarrow> s = ''pending_create'' \<or> s = ''pending_update'' \<or> s = ''pending_delete''"

definition uncertain_evidence :: "string \<Rightarrow> sync_db \<Rightarrow> bool" where
  "uncertain_evidence i db \<longleftrightarrow>
     list_ex (\<lambda>m. mp_rule_id m = i \<and> pending_mapping_state (mp_reconciliation_state m)) (db_mappings db) \<or>
     list_ex (\<lambda>t. ti_rule_id t = i \<and> (ti_status t = ''pending'' \<or> ti_status t = ''ambiguous'')) (db_target_intents db) \<or>
     dispatch_reserved db"

definition archive_rule :: "string \<Rightarrow> instant \<Rightarrow> unit tx" where
  "archive_rule i now db = (case find_rule i db of
       None \<Rightarrow> Inl (Sentinel ErrSyncControlConflict)
     | Some r \<Rightarrow>
         if ru_state r \<noteq> ''paused'' then Inl (Sentinel ErrSyncControlConflict)
         else if list_ex (\<lambda>j. jr_rule_id j = i \<and>
                   (jr_state j = ''pending'' \<or> jr_state j = ''running'' \<or> jr_state j = ''unknown'')) (db_jobs db) \<or>
                 uncertain_evidence i db
         then Inl (Sentinel ErrSyncControlConflict)
         else let P = (\<lambda>r. ru_id r = i \<and> ru_state r = ''paused'') in
           if count_rows P (db_rules db) \<noteq> 1 then Inl (Sentinel ErrSyncControlConflict)
           else Inr ((), update_rules P
             (\<lambda>r. r\<lparr>ru_state := ''archived'', ru_next_run_at := None, ru_updated_at := now\<rparr>) db))"

definition rule_control_status :: "string \<Rightarrow> sync_db \<Rightarrow> string res" where
  "rule_control_status i db = (case find_rule i db of
       None \<Rightarrow> Inl (ErrExt ''sql: no rows in result set'')
     | Some r \<Rightarrow>
         let waiting = (\<lambda>j. jr_rule_id j = i \<and> (jr_state j = ''pending'' \<or> jr_state j = ''running''));
             active = list_ex (\<lambda>j. waiting j \<and> jr_kind j \<noteq> ''dry_run'') (db_jobs db);
             stopping = list_ex (\<lambda>j. jr_rule_id j = i \<and> jr_state j = ''running'' \<and> jr_stop_requested j) (db_jobs db);
             dryRun = list_ex (\<lambda>j. waiting j \<and> jr_kind j = ''dry_run'') (db_jobs db);
             uncertain = (list_ex (\<lambda>j. jr_rule_id j = i \<and> jr_state j = ''unknown'') (db_jobs db) \<or> uncertain_evidence i db)
         in if ru_state r = ''enabled'' then
              (if stopping then Inr ''stopping''
               else if \<not> active \<and> uncertain then Inr ''needs_review''
               else Inr ''active'')
            else if ru_state r \<noteq> ''paused'' then Inr ''unknown''
            else if active then Inr ''pausing''
            else if uncertain then Inr ''needs_review''
            else if dryRun then Inr ''busy''
            else Inr ''paused'')"

section \<open>Calendars (store.go)\<close>

text \<open>The choice of the user; a change invalidates the calendar's synchronization state.\<close>

definition set_calendar_enabled :: "string \<Rightarrow> bool \<Rightarrow> instant \<Rightarrow> unit tx" where
  "set_calendar_enabled i enabled now db =
     (let P = (\<lambda>c. cl_id c = i \<and> cl_enabled c \<noteq> enabled) in
      if count_rows P (db_calendars db) = 0 then
        (if list_ex (\<lambda>c. cl_id c = i) (db_calendars db) then Inr ((), db) else Inl (Sentinel ErrNotFound))
      else Inr ((), db\<lparr>
        db_calendars := update_rows P (\<lambda>c. c\<lparr>cl_enabled := enabled\<rparr>) (db_calendars db),
        db_sync_states := update_rows (\<lambda>x. ss_calendar_id x = i)
          (\<lambda>x. let restart = (enabled \<or> ss_status x \<noteq> ''parked'') in
            x\<lparr>ss_generation := ss_generation x + 1, ss_cursor := '''',
              ss_status := (if restart then ''pending'' else ss_status x),
              ss_next_sync_at := (if restart then now else ss_next_sync_at x),
              ss_last_error_code := (if restart then None else ss_last_error_code x),
              ss_last_success_at := None, ss_lease_owner := None, ss_lease_until := None,
              ss_updated_at := now\<rparr>) (db_sync_states db)\<rparr>))"

definition store_calendar_enabled :: "string \<Rightarrow> sync_db \<Rightarrow> bool" where
  "store_calendar_enabled i db = (case find_calendar i db of None \<Rightarrow> False | Some c \<Rightarrow> cl_enabled c)"

definition resolve_calendar_reference :: "string \<Rightarrow> sync_db \<Rightarrow> string res" where
  "resolve_calendar_reference reference db = (case find_calendar reference db of
       Some c \<Rightarrow> Inr (cl_id c)
     | None \<Rightarrow> (case cut (CHR '':'') reference of (provider, providerCalendarID, ok) \<Rightarrow>
         if \<not> ok \<or> provider = '''' \<or> providerCalendarID = '''' \<or> CHR ''@'' \<in> set provider
         then Inl (Sentinel ErrNotFound)
         else (case sort (map cl_id (filter (\<lambda>c. cl_provider_calendar_id c = providerCalendarID \<and>
                    list_ex (\<lambda>a. cn_id a = cl_connection_id c \<and> cn_provider a = provider) (db_connections db))
                  (db_calendars db))) of
             [] \<Rightarrow> Inl (Sentinel ErrNotFound)
           | [i] \<Rightarrow> Inr i
           | _ \<Rightarrow> Inl (ErrText ''legacy calendar reference is ambiguous across connected accounts''))))"

section \<open>The cycle check\<close>

lemma set_successors: "set (successors edges node) = {next. (node, next) \<in> set edges}"
  by (force simp: successors_def)

lemma reaches_source_sound:
  "reaches_source edges source stack seen \<Longrightarrow> \<exists>w \<in> set stack. (w, source) \<in> (set edges)\<^sup>*"
proof (induction edges source stack seen rule: reaches_source.induct)
  case (1 edges source seen)
  then show ?case by simp
next
  case (2 edges source node stack seen)
  show ?case
  proof (cases "node = source")
    case True
    then show ?thesis by auto
  next
    case False
    show ?thesis
    proof (cases "node \<in> set seen")
      case True
      then show ?thesis using "2.IH"(1) [OF False True] "2.prems" False by auto
    next
      case new: False
      have "reaches_source edges source (successors edges node @ stack) (node # seen)"
        using "2.prems" False new by simp
      from "2.IH"(2) [OF False new this] obtain w where
        w: "w \<in> set (successors edges node @ stack)" "(w, source) \<in> (set edges)\<^sup>*" by blast
      show ?thesis
      proof (cases "w \<in> set stack")
        case True
        with w(2) show ?thesis by auto
      next
        case False
        with w(1) have "(node, w) \<in> set edges" by (simp add: set_successors)
        with w(2) have "(node, source) \<in> (set edges)\<^sup>*" by (rule converse_rtrancl_into_rtrancl [rotated])
        then show ?thesis by simp
      qed
    qed
  qed
qed

lemma reaches_source_complete:
  "\<not> reaches_source edges source stack seen \<Longrightarrow>
   (\<forall>s \<in> set seen. s \<noteq> source \<and> set (successors edges s) \<subseteq> set seen \<union> set stack) \<Longrightarrow>
   \<exists>C. set seen \<union> set stack \<subseteq> C \<and> (\<forall>s \<in> C. s \<noteq> source \<and> set (successors edges s) \<subseteq> C)"
proof (induction edges source stack seen rule: reaches_source.induct)
  case (1 edges source seen)
  then show ?case by (intro exI [of _ "set seen"]) auto
next
  case (2 edges source node stack seen)
  have ns: "node \<noteq> source" using "2.prems"(1) by auto
  show ?case
  proof (cases "node \<in> set seen")
    case True
    then have run: "\<not> reaches_source edges source stack seen" using "2.prems"(1) ns by simp
    have "set seen \<union> set (node # stack) = set seen \<union> set stack" using True by auto
    then have "\<forall>s \<in> set seen. s \<noteq> source \<and> set (successors edges s) \<subseteq> set seen \<union> set stack"
      using "2.prems"(2) by simp
    from "2.IH"(1) [OF ns True run this] obtain C where C: "set seen \<union> set stack \<subseteq> C"
      "\<forall>s \<in> C. s \<noteq> source \<and> set (successors edges s) \<subseteq> C" by blast
    have "set seen \<union> set (node # stack) \<subseteq> C" using C(1) True by auto
    with C(2) show ?thesis by blast
  next
    case new: False
    then have run: "\<not> reaches_source edges source (successors edges node @ stack) (node # seen)"
      using "2.prems"(1) ns by simp
    have "\<forall>s \<in> set (node # seen). s \<noteq> source \<and>
        set (successors edges s) \<subseteq> set (node # seen) \<union> set (successors edges node @ stack)"
    proof
      fix s assume "s \<in> set (node # seen)"
      then show "s \<noteq> source \<and> set (successors edges s) \<subseteq> set (node # seen) \<union> set (successors edges node @ stack)"
        using "2.prems"(2) ns by (cases "s = node") auto
    qed
    from "2.IH"(2) [OF ns new run this] obtain C where
      C: "set (node # seen) \<union> set (successors edges node @ stack) \<subseteq> C"
      "\<forall>s \<in> C. s \<noteq> source \<and> set (successors edges s) \<subseteq> C" by blast
    have "set seen \<union> set (node # stack) \<subseteq> C" using C(1) by auto
    with C(2) show ?thesis by blast
  qed
qed

lemma reaches_source_iff: "reaches_source edges source [t] [] \<longleftrightarrow> (t, source) \<in> (set edges)\<^sup>*"
proof
  assume "reaches_source edges source [t] []"
  from reaches_source_sound [OF this] show "(t, source) \<in> (set edges)\<^sup>*" by simp
next
  assume r: "(t, source) \<in> (set edges)\<^sup>*"
  show "reaches_source edges source [t] []"
  proof (rule ccontr)
    assume "\<not> reaches_source edges source [t] []"
    from reaches_source_complete [OF this] obtain C where C: "t \<in> C"
      "\<forall>s \<in> C. s \<noteq> source \<and> set (successors edges s) \<subseteq> C" by auto
    from r C(1) have "source \<in> C"
      by (induction rule: rtrancl_induct) (use C(2) in \<open>auto simp: set_successors\<close>)
    with C(2) show False by blast
  qed
qed

section \<open>What the operations keep\<close>

definition rules_acyclic :: "sync_db \<Rightarrow> bool" where
  "rules_acyclic db \<longleftrightarrow> acyclic (set (rule_edges db))"

lemma rules_acyclic_mono:
  "rules_acyclic db \<Longrightarrow> set (rule_edges db') \<subseteq> set (rule_edges db) \<Longrightarrow> rules_acyclic db'"
  unfolding rules_acyclic_def by (rule acyclic_subset)

text \<open>The last edge of the checked graph is the candidate's own, which the search need not use.\<close>

lemma validate_rule_route_acyclic:
  assumes "rules_acyclic db" and "validate_rule_route db r = Inr ()"
  shows "acyclic (insert (ru_source_calendar_id r, ru_target_calendar_id r) (set (rule_edges db)))"
proof -
  let ?s = "ru_source_calendar_id r" and ?t = "ru_target_calendar_id r"
  have "(?t, ?s) \<notin> (set (rule_edges db @ [(?s, ?t)]))\<^sup>*"
    using assms(2) unfolding reaches_source_iff [symmetric]
    by (auto simp: validate_rule_route_def split: option.splits if_splits)
  moreover have "(set (rule_edges db))\<^sup>* \<subseteq> (set (rule_edges db @ [(?s, ?t)]))\<^sup>*"
    by (rule rtrancl_mono) auto
  ultimately show ?thesis using assms(1) by (auto simp: acyclic_insert rules_acyclic_def)
qed

lemma insert_rule_effect:
  "insert_rule r mode db = Inr (u, db') \<Longrightarrow>
     db' = db\<lparr>db_rules := db_rules db @ [rule.extend (r\<lparr>ru_sync_mode := mode\<rparr>) \<lparr>ru_config_version = 1\<rparr>]\<rparr> \<and>
     ru_id r \<notin> ru_id ` set (db_rules db)"
  by (auto simp: insert_rule_def list_ex_iff split: if_splits)

lemma rule_edges_insert:
  "set (rule_edges (db\<lparr>db_rules := db_rules db @ [rule.extend (r\<lparr>ru_sync_mode := mode\<rparr>) \<lparr>ru_config_version = 1\<rparr>]\<rparr>))
     \<subseteq> insert (ru_source_calendar_id r, ru_target_calendar_id r) (set (rule_edges db))"
  by (auto simp: rule_edges_def rule.defs)

lemma store_rule_fields [simp]:
  "ru_id (store_rule old new) = ru_id new" "ru_state (store_rule old new) = ru_state new"
  "ru_source_calendar_id (store_rule old new) = ru_source_calendar_id new"
  "ru_target_calendar_id (store_rule old new) = ru_target_calendar_id new"
  "ru_sync_mode (store_rule old new) = ru_sync_mode new"
  "ru_created_at (store_rule old new) = ru_created_at new"
  by (simp_all add: store_rule_def)

text \<open>A change of state alone: what it keeps of the table.\<close>

definition state_change :: "(rule_row \<Rightarrow> rule_row) \<Rightarrow> bool" where
  "state_change f \<longleftrightarrow> (\<forall>r. ru_id (f r) = ru_id r \<and> ru_source_calendar_id (f r) = ru_source_calendar_id r \<and>
     ru_target_calendar_id (f r) = ru_target_calendar_id r \<and> ru_sync_mode (f r) = ru_sync_mode r)"

lemma state_change_keeps_ids:
  "state_change f \<Longrightarrow> map ru_id (db_rules (update_rules P f db)) = map ru_id (db_rules db)"
  unfolding update_rules_def by (simp add: map_update_rows state_change_def)

lemma state_change_edges:
  assumes "state_change f" and "\<And>r. P r \<Longrightarrow> ru_state r \<noteq> ''archived''"
  shows "set (rule_edges (update_rules P f db)) \<subseteq> set (rule_edges db)"
  using assms by (auto simp: rule_edges_def update_rules_def set_update_rows state_change_def split: if_splits)

lemma state_change_set [simp]:
  "state_change (\<lambda>r. r\<lparr>ru_state := s, ru_next_run_at := n, ru_updated_at := t\<rparr>)"
  by (simp add: state_change_def)

text \<open>The committed operations of the control plane on rules.\<close>

inductive rule_step :: "sync_db \<Rightarrow> sync_db \<Rightarrow> bool" where
  create: "create_rule r db = Inr (u, db') \<Longrightarrow> rule_step db db'"
| import_rule: "import_legacy uuids r mappings db = Inr (u, db') \<Longrightarrow> rule_step db db'"
| set_state: "set_rule_state i state next updatedAt db = Inr (u, db') \<Longrightarrow> rule_step db db'"
| set_state_at_version:
    "set_rule_state_at_version i state v next updatedAt db = Inr (u, db') \<Longrightarrow> rule_step db db'"
| pause: "request_rule_pause i now db = Inr (u, db') \<Longrightarrow> rule_step db db'"
| archive: "archive_rule i now db = Inr (u, db') \<Longrightarrow> rule_step db db'"
| enable_calendar: "set_calendar_enabled i enabled now db = Inr (u, db') \<Longrightarrow> rule_step db db'"

text \<open>Every step either adds one checked rule or changes states of rules that are not archived.\<close>

lemma rule_step_cases_effect:
  assumes "rule_step db db'"
  obtains
    (insert) r mode where "validate_rule r = Inr ()" "validate_rule_route db r = Inr ()"
      "ru_id r \<notin> ru_id ` set (db_rules db)"
      "db_rules db' = db_rules db @ [rule.extend (r\<lparr>ru_sync_mode := mode\<rparr>) \<lparr>ru_config_version = 1\<rparr>]"
  | (state) P s n t where "\<And>r. P r \<Longrightarrow> ru_state r \<noteq> ''archived''"
      "db_rules db' = db_rules (update_rules P (\<lambda>r. r\<lparr>ru_state := s, ru_next_run_at := n, ru_updated_at := t\<rparr>) db)"
      "s \<in> {''paused'', ''enabled'', ''archived''}"
  | (same) "db_rules db' = db_rules db"
  using assms
proof cases
  case (create r u)
  then obtain w where "insert_rule r (normalized_sync_mode (ru_sync_mode r)) db = Inr (w, db')"
    "validate_rule r = Inr ()" "validate_rule_route db r = Inr ()"
    by (auto simp: create_rule_def bind_res_Inr_iff split: if_splits)
  with insert_rule_effect [OF this(1)] insert show thesis by auto
next
  case (import_rule uuids r mappings u)
  then obtain w db1 table where "insert_rule r ''direct'' db = Inr (w, db1)" "db' = db1\<lparr>db_mappings := table\<rparr>"
    "validate_rule r = Inr ()" "validate_rule_route db r = Inr ()"
    by (auto simp: import_legacy_def bind_res_Inr_iff split: if_splits)
  with insert_rule_effect [OF this(1)] insert show thesis by auto
next
  case (set_state i s n t u)
  then show thesis
    using state [where P = "\<lambda>r. ru_id r = i \<and> ru_state r \<noteq> ''archived'' \<and> (s \<noteq> ''enabled'' \<or>
        \<not> rule_uncertain_job (ru_id r) db \<and> \<not> dispatch_reserved db \<and> ru_sync_mode r = ''direct'' \<and> both_enabled r db)" and s = s and n = n and t = t]
    by (auto simp: set_rule_state_def Let_def split: if_splits)
next
  case (set_state_at_version i s v n t u)
  then show thesis
    using state [where P = "\<lambda>r. ru_id r = i \<and> ru_config_version r = v \<and> ru_state r \<noteq> s \<and> ru_state r \<noteq> ''archived'' \<and>
        (s \<noteq> ''enabled'' \<or> \<not> rule_uncertain_job (ru_id r) db \<and> \<not> dispatch_reserved db \<and> both_enabled r db)" and s = s and n = n and t = t]
    by (auto simp: set_rule_state_at_version_def Let_def split: if_splits)
next
  case (pause i now u)
  then show thesis
    using state [where P = "\<lambda>r. ru_id r = i \<and> ru_state r = ''enabled''" and s = "''paused''" and n = None and t = now]
    by (auto simp: request_rule_pause_def Let_def split: if_splits)
next
  case (archive i now u)
  then show thesis
    using state [where P = "\<lambda>r. ru_id r = i \<and> ru_state r = ''paused''" and s = "''archived''" and n = None and t = now]
    by (auto simp: archive_rule_def Let_def split: if_splits option.splits)
next
  case (enable_calendar i e now u)
  then show thesis
    using same by (auto simp: set_calendar_enabled_def Let_def split: if_splits)
qed

lemma rule_step_acyclic:
  assumes "rule_step db db'" and ok: "rules_acyclic db"
  shows "rules_acyclic db'"
  using assms(1)
proof (cases rule: rule_step_cases_effect)
  case (insert r mode)
  have "set (rule_edges db') \<subseteq> insert (ru_source_calendar_id r, ru_target_calendar_id r) (set (rule_edges db))"
    using rule_edges_insert [where db = db and r = r and mode = mode] insert(4) by (simp add: rule_edges_def)
  with validate_rule_route_acyclic [OF ok insert(2)] show ?thesis
    unfolding rules_acyclic_def by (rule acyclic_subset)
next
  case (state P s n t)
  have "set (rule_edges db') \<subseteq> set (rule_edges db)"
    using state_change_edges [of "\<lambda>r. r\<lparr>ru_state := s, ru_next_run_at := n, ru_updated_at := t\<rparr>" P db] state(1,2)
    by (simp add: rule_edges_def)
  with ok show ?thesis by (rule rules_acyclic_mono)
next
  case same
  then have "rule_edges db' = rule_edges db" by (simp add: rule_edges_def)
  with ok show ?thesis by (simp add: rules_acyclic_def)
qed

lemma find_append_old: "x \<in> set xs \<Longrightarrow> P x \<Longrightarrow> find P (xs @ ys) = find P xs"
  by (induction xs) auto

lemma find_update_rows_other:
  assumes "\<And>r. P r \<Longrightarrow> ru_id (f r) = ru_id r" and "\<And>r. ru_id r = i \<Longrightarrow> r \<in> set rows \<Longrightarrow> \<not> P r"
  shows "find (\<lambda>r. ru_id r = i) (update_rows P f rows) = find (\<lambda>r. ru_id r = i) rows"
  using assms(2) by (induction rows) (auto simp: assms(1))

lemma find_SomeD: "find P xs = Some x \<Longrightarrow> x \<in> set xs \<and> P x"
  by (induction xs) (auto split: if_splits)

lemma find_ruleD: "find_rule i db = Some r \<Longrightarrow> r \<in> set (db_rules db) \<and> ru_id r = i"
  unfolding find_rule_def by (drule find_SomeD) simp

text \<open>With a primary key, a found row is the only one of its ID.\<close>

lemma find_rule_unique:
  assumes "distinct (map ru_id (db_rules db))" and "find_rule i db = Some r"
    and "q \<in> set (db_rules db)" and "ru_id q = i"
  shows "q = r"
proof -
  have "r \<in> set (db_rules db)" "ru_id r = i"
    using find_ruleD [OF assms(2)] by simp_all
  with assms(1,3,4) show ?thesis by (metis (no_types, lifting) distinct_map inj_onD)
qed

lemma rule_step_archived:
  assumes "rule_step db db'" and "distinct (map ru_id (db_rules db))"
    and "find_rule i db = Some r" and "ru_state r = ''archived''"
  shows "find_rule i db' = Some r \<and> distinct (map ru_id (db_rules db'))"
  using assms(1)
proof (cases rule: rule_step_cases_effect)
  case (insert q mode)
  have "r \<in> set (db_rules db)" "ru_id r = i" using find_ruleD [OF assms(3)] by simp_all
  with insert find_append_old [of r "db_rules db" "\<lambda>r. ru_id r = i"] assms(2,3) show ?thesis
    by (simp add: find_rule_def rule.defs)
next
  case (state P s n t)
  let ?f = "\<lambda>r. store_rule r (r\<lparr>ru_state := s, ru_next_run_at := n, ru_updated_at := t\<rparr>)"
  have "find (\<lambda>r. ru_id r = i) (update_rows P ?f (db_rules db)) = find (\<lambda>r. ru_id r = i) (db_rules db)"
  proof (rule find_update_rows_other)
    show "\<not> P q" if "ru_id q = i" "q \<in> set (db_rules db)" for q
      using find_rule_unique [OF assms(2,3) that(2,1)] state(1) assms(4) by blast
  qed simp
  moreover have "map ru_id (db_rules db') = map ru_id (db_rules db)"
    unfolding state(2) by (rule state_change_keeps_ids) simp
  ultimately show ?thesis using state(2) assms(2,3) by (simp add: find_rule_def update_rules_def)
next
  case same
  with assms show ?thesis by (simp add: find_rule_def)
qed

section \<open>Properties\<close>

text \<open>
  C28. Copies never chase each other: whatever rules are created, imported, enabled, paused or
  archived, and whatever calendars are switched, the routes of the rules that are not archived
  form no cycle.
\<close>

theorem rule_graph_acyclic:
  assumes "rule_step\<^sup>*\<^sup>* db db'" and "rules_acyclic db"
  shows "rules_acyclic db'"
  using assms by (induction rule: rtranclp_induct) (auto intro: rule_step_acyclic)

text \<open>
  The route check is exact: between a readable source and a writable target, both enabled,
  a new rule is refused as a cycle precisely when its route would close a cycle among the rules
  that are not archived; the depth-first search neither misses a cycle nor invents one.
\<close>

theorem validate_rule_route_exact:
  assumes "rules_acyclic db"
    and "find_calendar (ru_source_calendar_id r) db = Some s" and "cl_can_read s" and "cl_enabled s"
    and "find_calendar (ru_target_calendar_id r) db = Some t" and "cl_can_write t" and "cl_enabled t"
  shows "validate_rule_route db r =
    (if acyclic (insert (ru_source_calendar_id r, ru_target_calendar_id r) (set (rule_edges db)))
     then Inr () else Inl (Sentinel ErrRuleCycle))"
proof -
  let ?a = "ru_source_calendar_id r" and ?b = "ru_target_calendar_id r"
  let ?E = "set (rule_edges db)"
  have "(?b, ?a) \<in> (insert (?a, ?b) ?E)\<^sup>* \<longleftrightarrow> \<not> acyclic (insert (?a, ?b) ?E)"
  proof
    assume "(?b, ?a) \<in> (insert (?a, ?b) ?E)\<^sup>*"
    then have "(?a, ?a) \<in> (insert (?a, ?b) ?E)\<^sup>+" by (rule rtrancl_into_trancl2 [rotated]) simp
    then show "\<not> acyclic (insert (?a, ?b) ?E)" by (auto simp: acyclic_def)
  next
    assume "\<not> acyclic (insert (?a, ?b) ?E)"
    then have "(?b, ?a) \<in> ?E\<^sup>*" using assms(1) by (auto simp: acyclic_insert rules_acyclic_def)
    moreover have "?E\<^sup>* \<subseteq> (insert (?a, ?b) ?E)\<^sup>*" by (rule rtrancl_mono) auto
    ultimately show "(?b, ?a) \<in> (insert (?a, ?b) ?E)\<^sup>*" by blast
  qed
  moreover have "set (rule_edges db @ [(?a, ?b)]) = insert (?a, ?b) ?E" by simp
  ultimately show ?thesis
    using assms(2-7) reaches_source_iff [of "rule_edges db @ [(?a, ?b)]" ?a ?b]
    by (simp add: validate_rule_route_def)
qed

text \<open>
  Archiving is final: no sequence of rule operations changes an archived rule's row again,
  its state, its route or its version.
\<close>

theorem archived_rule_frozen:
  assumes "rule_step\<^sup>*\<^sup>* db db'" and "distinct (map ru_id (db_rules db))"
    and "find_rule i db = Some r" and "ru_state r = ''archived''"
  shows "find_rule i db' = Some r"
proof -
  have "find_rule i db' = Some r \<and> distinct (map ru_id (db_rules db'))"
    using assms(1)
  proof (induction rule: rtranclp_induct)
    case base
    then show ?case using assms(2,3) by blast
  next
    case (step y z)
    then show ?case using rule_step_archived [OF step(2)] assms(4) by blast
  qed
  then show ?thesis by blast
qed

lemma find_update_rows_hit:
  assumes "distinct (map ru_id rows)" and "count_rows P rows = 1" and "\<And>r. P r \<Longrightarrow> ru_id r = i"
    and "\<And>r. ru_id (f r) = ru_id r"
  shows "\<exists>r \<in> set rows. P r \<and> find (\<lambda>r. ru_id r = i) rows = Some r \<and>
    find (\<lambda>r. ru_id r = i) (update_rows P f rows) = Some (f r)"
  using assms(1,2)
proof (induction rows)
  case Nil
  then show ?case by simp
next
  case (Cons r rows)
  show ?case
  proof (cases "P r")
    case True
    then show ?thesis by (simp add: assms(3,4))
  next
    case False
    then obtain q where q: "q \<in> set rows" "P q" "find (\<lambda>r. ru_id r = i) rows = Some q"
      "find (\<lambda>r. ru_id r = i) (update_rows P f rows) = Some (f q)"
      using Cons by auto
    have "ru_id r \<noteq> i" using Cons.prems(1) q(1) assms(3) [OF q(2)] by force
    with q False show ?thesis by auto
  qed
qed

text \<open>
  C1. Enabling needs settled work: when \<open>SetRuleState\<close> enables a rule, the rule copies
  directly, both of its calendars are enabled, none of its jobs is unknown or still stopping, no
  dispatch reservation is outstanding, and the rule is found enabled with its configuration
  version advanced exactly when its state changed.
\<close>

theorem enabling_needs_settled_work:
  assumes "distinct (map ru_id (db_rules db))"
    and "set_rule_state i ''enabled'' next updatedAt db = Inr (u, db')"
  shows "\<exists>r r'. find_rule i db = Some r \<and> find_rule i db' = Some r' \<and> ru_state r' = ''enabled'' \<and>
    ru_state r \<noteq> ''archived'' \<and> ru_sync_mode r = ''direct'' \<and> both_enabled r db \<and>
    (\<forall>j \<in> set (db_jobs db). jr_rule_id j = i \<longrightarrow> jr_state j \<noteq> ''unknown'' \<and>
       \<not> (jr_state j = ''running'' \<and> jr_stop_requested j)) \<and>
    (\<forall>d \<in> set (db_reservations db). rs_released_at d \<noteq> None) \<and>
    ru_config_version r' = ru_config_version r + (if ru_state r = ''enabled'' then 0 else 1)"
proof -
  define P where "P = (\<lambda>r. ru_id r = i \<and> ru_state r \<noteq> ''archived'' \<and> \<not> rule_uncertain_job (ru_id r) db \<and>
      \<not> dispatch_reserved db \<and> ru_sync_mode r = ''direct'' \<and> both_enabled r db)"
  define f where "f = (\<lambda>r :: rule_row. store_rule r (r\<lparr>ru_state := ''enabled'', ru_next_run_at := next, ru_updated_at := updatedAt\<rparr>))"
  have one: "count_rows P (db_rules db) = 1" and db': "db_rules db' = update_rows P f (db_rules db)"
    using assms(2) by (auto simp: set_rule_state_def Let_def P_def f_def update_rules_def split: if_splits)
  have hit: "\<And>r. P r \<Longrightarrow> ru_id r = i" by (simp add: P_def)
  have same: "\<And>r. ru_id (f r) = ru_id r" by (simp add: f_def)
  obtain r where r: "P r" "find_rule i db = Some r" "find_rule i db' = Some (f r)"
    using find_update_rows_hit [OF assms(1) one hit same, folded db'] unfolding find_rule_def by blast
  have "ru_config_version (f r) = ru_config_version r + (if ru_state r = ''enabled'' then 0 else 1)"
    by (auto simp: f_def store_rule_def rule_config_changed_def)
  then show ?thesis
    using r by (intro exI [of _ r] exI [of _ "f r"])
      (auto simp: P_def f_def rule_uncertain_job_def dispatch_reserved_def list_ex_iff)
qed

text \<open>
  Optimistic transitions apply once: a transition that names a version commits only on that
  version, leaves the next one, and the same request repeated, for either state, is refused as a
  changed configuration.
\<close>

theorem versioned_transition_once:
  assumes "distinct (map ru_id (db_rules db))"
    and "set_rule_state_at_version i state v next updatedAt db = Inr (u, db')"
  shows "rule_config_version i db = Inr v \<and> rule_config_version i db' = Inr (v + 1) \<and>
    (state' = ''paused'' \<or> state' = ''enabled'' \<longrightarrow>
       set_rule_state_at_version i state' v next updatedAt db' = Inl (Sentinel ErrRuleConfigChanged))"
proof -
  define P where "P = (\<lambda>r. ru_id r = i \<and> ru_config_version r = v \<and> ru_state r \<noteq> state \<and> ru_state r \<noteq> ''archived'' \<and>
      (state \<noteq> ''enabled'' \<or> \<not> rule_uncertain_job (ru_id r) db \<and> \<not> dispatch_reserved db \<and> both_enabled r db))"
  define f where "f = (\<lambda>r :: rule_row. store_rule r (r\<lparr>ru_state := state, ru_next_run_at := next, ru_updated_at := updatedAt\<rparr>))"
  have one: "count_rows P (db_rules db) = 1" and db': "db_rules db' = update_rows P f (db_rules db)"
    and i: "i \<noteq> ''''" "\<not> v < 1" "updatedAt \<noteq> zero_time"
    using assms(2) by (auto simp: set_rule_state_at_version_def Let_def P_def f_def update_rules_def split: if_splits)
  have hit: "\<And>r. P r \<Longrightarrow> ru_id r = i" by (simp add: P_def)
  have same: "\<And>r. ru_id (f r) = ru_id r" by (simp add: f_def)
  obtain r where r: "P r" "find_rule i db = Some r" "find_rule i db' = Some (f r)"
    using find_update_rows_hit [OF assms(1) one hit same, folded db'] unfolding find_rule_def by blast
  have ver: "ru_config_version (f r) = v + 1"
    using r(1) by (auto simp: P_def f_def store_rule_def rule_config_changed_def)
  have ids: "map ru_id (db_rules db') = map ru_id (db_rules db)"
    unfolding db' by (rule map_update_rows) (simp add: f_def)
  have none: "count_rows Q (db_rules db') = 0" if Q: "\<And>q. Q q \<Longrightarrow> ru_id q = i \<and> ru_config_version q = v" for Q
  proof -
    have "\<not> Q q" if "q \<in> set (db_rules db')" for q
      using find_rule_unique [of db' i "f r" q] ids assms(1) r(3) that Q [of q] ver by auto
    then show ?thesis by (simp add: count_rows_zero)
  qed
  have "set_rule_state_at_version i state' v next updatedAt db' = Inl (Sentinel ErrRuleConfigChanged)"
    if "state' = ''paused'' \<or> state' = ''enabled''"
  proof -
    have "count_rows (\<lambda>r. ru_id r = i \<and> ru_config_version r = v \<and> ru_state r \<noteq> state' \<and> ru_state r \<noteq> ''archived'' \<and>
        (state' \<noteq> ''enabled'' \<or> \<not> rule_uncertain_job (ru_id r) db' \<and> \<not> dispatch_reserved db' \<and> both_enabled r db'))
        (db_rules db') = 0" by (rule none) simp
    then show ?thesis using i that unfolding set_rule_state_at_version_def Let_def by (simp only:) simp
  qed
  then show ?thesis using r i ver by (auto simp: rule_config_version_def P_def)
qed

section \<open>Concrete runs\<close>

definition sample_calendar_row :: "string \<Rightarrow> calendar_row" where
  "sample_calendar_row i = \<lparr>cl_id = i, cl_connection_id = ''a'', cl_provider_calendar_id = i, cl_name = i,
     cl_timezone = ''UTC'', cl_can_read = True, cl_can_write = True, cl_supports_recurrence = True,
     cl_google_primary = False, cl_enabled = True, cl_discovered_at = 0\<rparr>"

definition sample_rule :: "string \<Rightarrow> string \<Rightarrow> string \<Rightarrow> rule" where
  "sample_rule i s t = \<lparr>ru_id = i, ru_source_calendar_id = s, ru_target_calendar_id = t, ru_state = ''paused'',
     ru_sync_mode = ''direct'', ru_interval_seconds = 600, ru_lookback_days = 1, ru_lookahead_days = 14,
     ru_recurrence_mode = ''preserve'', ru_notification_policy = ''none'', ru_copy_attendees = False,
     ru_next_run_at = None, ru_consecutive_failures = 0, ru_created_at = 1, ru_updated_at = 1\<rparr>"

definition sample_rules_db :: sync_db where
  "sample_rules_db = empty_db\<lparr>db_calendars := [sample_calendar_row ''c'', sample_calendar_row ''d'', sample_calendar_row ''e'']\<rparr>"

definition sample_created_db :: sync_db where
  "sample_created_db = sample_rules_db\<lparr>db_rules :=
     [rule.extend (sample_rule ''r'' ''c'' ''d'') \<lparr>ru_config_version = 1\<rparr>]\<rparr>"

definition sample_archived_db :: sync_db where
  "sample_archived_db = sample_rules_db\<lparr>db_rules :=
     [rule.extend ((sample_rule ''r'' ''c'' ''d'')\<lparr>ru_state := ''archived''\<rparr>) \<lparr>ru_config_version = 2\<rparr>]\<rparr>"

lemmas sample_rule_defs = sample_calendar_row_def sample_rule_def sample_rules_db_def sample_created_db_def
  sample_archived_db_def empty_db_def rule.defs

lemma sample_create: "create_rule (sample_rule ''r'' ''c'' ''d'') sample_rules_db = Inr ((), sample_created_db)"
  by (simp add: create_rule_def validate_rule_def validate_rule_route_def find_calendar_def rule_edges_def
      successors_def insert_rule_def normalized_sync_mode_def sample_rule_defs)

theorem rule_graph_acyclic_witness: "rule_step sample_rules_db sample_created_db \<and> rules_acyclic sample_created_db"
proof
  show s: "rule_step sample_rules_db sample_created_db" by (rule rule_step.create [OF sample_create])
  have "rules_acyclic sample_rules_db" by (simp add: rules_acyclic_def rule_edges_def sample_rule_defs acyclic_def)
  with rule_graph_acyclic [OF r_into_rtranclp [of rule_step, OF s]] show "rules_acyclic sample_created_db" by blast
qed

theorem validate_rule_route_exact_witness:
  "validate_rule_route sample_created_db (sample_rule ''q'' ''d'' ''c'') =
    (if acyclic (insert (''d'', ''c'') (set (rule_edges sample_created_db))) then Inr () else Inl (Sentinel ErrRuleCycle))"
proof -
  have edges: "rule_edges sample_created_db = [(''c'', ''d'')]" by (simp add: rule_edges_def sample_rule_defs)
  have "rules_acyclic sample_created_db" by (auto simp: rules_acyclic_def edges acyclic_insert) (auto simp: acyclic_def)
  then show ?thesis
    using validate_rule_route_exact [of sample_created_db "sample_rule ''q'' ''d'' ''c''"
        "sample_calendar_row ''d''" "sample_calendar_row ''c''"]
    by (simp add: find_calendar_def sample_rule_defs)
qed

theorem archived_rule_frozen_witness:
  "\<exists>db'. create_rule (sample_rule ''q'' ''d'' ''e'') sample_archived_db = Inr ((), db') \<and>
     find_rule ''r'' db' = Some (rule.extend ((sample_rule ''r'' ''c'' ''d'')\<lparr>ru_state := ''archived''\<rparr>) \<lparr>ru_config_version = 2\<rparr>)"
proof -
  obtain db' where c: "create_rule (sample_rule ''q'' ''d'' ''e'') sample_archived_db = Inr ((), db')"
    by (simp add: create_rule_def validate_rule_def validate_rule_route_def find_calendar_def rule_edges_def
      successors_def insert_rule_def normalized_sync_mode_def sample_rule_defs)
  have "find_rule ''r'' db' = Some (rule.extend ((sample_rule ''r'' ''c'' ''d'')\<lparr>ru_state := ''archived''\<rparr>) \<lparr>ru_config_version = 2\<rparr>)"
    by (rule archived_rule_frozen [OF r_into_rtranclp [of rule_step, OF rule_step.create [OF c]]])
      (simp_all add: find_rule_def sample_rule_defs)
  with c show ?thesis by blast
qed

theorem enabling_needs_settled_work_witness:
  "\<exists>db'. set_rule_state ''r'' ''enabled'' (Some 5) 4 sample_created_db = Inr ((), db') \<and>
     (\<exists>r'. find_rule ''r'' db' = Some r' \<and> ru_state r' = ''enabled'')"
proof -
  obtain db' where c: "set_rule_state ''r'' ''enabled'' (Some 5) 4 sample_created_db = Inr ((), db')"
    by (simp add: set_rule_state_def rule_uncertain_job_def dispatch_reserved_def both_enabled_def find_calendar_def
        sample_rule_defs)
  have "distinct (map ru_id (db_rules sample_created_db))" by (simp add: sample_rule_defs)
  from enabling_needs_settled_work [OF this c] c show ?thesis by blast
qed

theorem versioned_transition_once_witness:
  "\<exists>db'. set_rule_state_at_version ''r'' ''enabled'' 1 (Some 5) 4 sample_created_db = Inr ((), db') \<and>
     rule_config_version ''r'' db' = Inr 2 \<and>
     set_rule_state_at_version ''r'' ''paused'' 1 (Some 5) 4 db' = Inl (Sentinel ErrRuleConfigChanged)"
proof -
  obtain db' where c: "set_rule_state_at_version ''r'' ''enabled'' 1 (Some 5) 4 sample_created_db = Inr ((), db')"
    by (simp add: set_rule_state_at_version_def rule_uncertain_job_def dispatch_reserved_def both_enabled_def
        find_calendar_def zero_time_def sample_rule_defs)
  have "distinct (map ru_id (db_rules sample_created_db))" by (simp add: sample_rule_defs)
  from versioned_transition_once [OF this c, of "''paused''"] c show ?thesis by simp
qed

end
