(* ===== verification/Claims.thy ===== *)
theory Claims
  imports Prelude
begin

text \<open>
  The contract of a leased claim, which the claims of sync jobs and of calendar synchronizations
  share: an invariant of the store that every step keeps, claims that once lost stay lost, and
  operations that refuse a lost claim.  Then a lost claim never acts again, however the steps of
  other workers are ordered.
\<close>

locale claim_protocol =
  fixes step :: "'s \<Rightarrow> 's \<Rightarrow> bool"
    and ok :: "'s \<Rightarrow> bool"
    and lost :: "'c \<Rightarrow> 's \<Rightarrow> bool"
    and act :: "'c \<Rightarrow> 'op \<Rightarrow> 's \<Rightarrow> err + 't"
  assumes ok_step: "step s s' \<Longrightarrow> ok s \<Longrightarrow> ok s'"
    and lost_step: "step s s' \<Longrightarrow> ok s \<Longrightarrow> lost c s \<Longrightarrow> lost c s'"
    and lost_refused: "ok s \<Longrightarrow> lost c s \<Longrightarrow> act c x s \<noteq> Inr t"
begin

lemma ok_steps: "step\<^sup>*\<^sup>* s s' \<Longrightarrow> ok s \<Longrightarrow> ok s'"
  by (induction rule: rtranclp_induct) (blast intro: ok_step)+

lemma lost_steps: "step\<^sup>*\<^sup>* s s' \<Longrightarrow> ok s \<Longrightarrow> lost c s \<Longrightarrow> lost c s'"
proof (induction rule: rtranclp_induct)
  case (step s' s'')
  with lost_step ok_steps show ?case by blast
qed

lemma never_acts:
  assumes "step\<^sup>*\<^sup>* s s'" and "ok s" and "lost c s"
  shows "\<exists>e. act c x s' = Inl e"
  using lost_refused [OF ok_steps [OF assms(1,2)] lost_steps [OF assms]] by (cases "act c x s'") auto

text \<open>An action that was accepted was taken by a claim that had not been lost at any step before.\<close>

lemma acted_was_held:
  assumes "step\<^sup>*\<^sup>* s s'" and "ok s" and "act c x s' = Inr t"
  shows "\<not> lost c s \<and> \<not> lost c s'"
  using never_acts [OF assms(1,2), of c x] never_acts [OF rtranclp.rtrancl_refl ok_steps [OF assms(1,2)], of c x]
    assms(3) by auto

end

end
