(* ===== verification/Sync_Jobs.thy ===== *)
theory Sync_Jobs
  imports Sync_Rules Claims
begin

text \<open>
  Jobs and runs: scheduling, the claim and its lease, recovery, stopping and the record of a run
  (\<open>src/internal/storage/operations.go\<close>, \<open>job_dispatch_fence.go\<close> and
  \<open>sync_control.go\<close>), and the OAuth attempts of the same file.  Clock readings are
  parameters: each \<open>time.Since(started)\<close> is one duration.  A transaction holds the write
  lock of SQLite, or the row locks of PostgreSQL, from its first statement on, so its statements
  see one state of the tables.
\<close>

section \<open>Jobs\<close>

definition JobLeaseDuration :: int where "JobLeaseDuration = 15 * 60 * nanos"

text \<open>An INSERT into \<open>sync_jobs\<close> under its primary key, its partial index and its foreign key.\<close>

definition insert_job :: "job_row \<Rightarrow> sync_db \<Rightarrow> sync_db res" where
  "insert_job j db =
     (if list_ex (\<lambda>x. jr_id x = jr_id j) (db_jobs db) then Inl unique_violation
      else if jr_state j = ''running'' \<and>
        list_ex (\<lambda>x. jr_rule_id x = jr_rule_id j \<and> jr_state x = ''running'') (db_jobs db)
      then Inl unique_violation
      else if find_rule (jr_rule_id j) db = None then Inl foreign_key_violation
      else Inr (db\<lparr>db_jobs := db_jobs db @ [j]\<rparr>))"

definition rule_has_job :: "string \<Rightarrow> string \<Rightarrow> sync_db \<Rightarrow> bool" where
  "rule_has_job i state db = list_ex (\<lambda>j. jr_rule_id j = i \<and> jr_state j = state) (db_jobs db)"

definition rule_due :: "instant \<Rightarrow> sync_db \<Rightarrow> rule_row \<Rightarrow> bool" where
  "rule_due now db r \<longleftrightarrow> ru_state r = ''enabled'' \<and>
     (case ru_next_run_at r of None \<Rightarrow> True | Some t \<Rightarrow> t \<le> now) \<and>
     \<not> rule_has_job (ru_id r) ''unknown'' db \<and> \<not> dispatch_reserved db \<and> both_enabled r db"

definition scheduled_job :: "string \<Rightarrow> string \<Rightarrow> instant \<Rightarrow> job_row" where
  "scheduled_job i rule_id now = \<lparr>jr_id = i, jr_rule_id = rule_id, jr_kind = ''scheduled'', jr_state = ''pending'',
     jr_claimed_by = None, jr_available_at = now, jr_created_at = now, jr_claimed_at = None,
     jr_finished_at = None, jr_lease_until = None, jr_attempt = 0, jr_stop_requested = False\<rparr>"

definition schedule_rule :: "(nat \<Rightarrow> string) \<Rightarrow> instant \<Rightarrow> nat \<times> string \<times> int \<Rightarrow> sync_db \<Rightarrow> sync_db res" where
  "schedule_rule uuids now due db = (case due of (n, i, interval) \<Rightarrow>
     bind_res (map_err (ErrWrap ''enqueue scheduled job'') (insert_job (scheduled_job (uuids n) i now) db)) (\<lambda>db1.
       Inr (update_rules (\<lambda>r. ru_id r = i)
         (\<lambda>r. r\<lparr>ru_next_run_at := Some (now + interval * nanos), ru_updated_at := now\<rparr>) db1)))"

definition schedule_due_jobs :: "(nat \<Rightarrow> string) \<Rightarrow> instant \<Rightarrow> nat tx" where
  "schedule_due_jobs uuids now db =
     (let due = map (\<lambda>r. (ru_id r, ru_interval_seconds r))
            (sort_key ru_created_at (filter (rule_due now db) (db_rules db))) in
      bind_res (fold_res (schedule_rule uuids now) (enumerate 0 due) db) (\<lambda>db'. Inr (length due, db')))"

definition null_string :: "string \<Rightarrow> string option" where
  "null_string s = (if s = '''' then None else Some s)"

definition job_row_of :: "job \<Rightarrow> job_row" where
  "job_row_of j = \<lparr>jr_id = jb_id j, jr_rule_id = jb_rule_id j, jr_kind = jb_kind j, jr_state = jb_state j,
     jr_claimed_by = null_string (jb_claimed_by j), jr_available_at = jb_available_at j,
     jr_created_at = jb_created_at j, jr_claimed_at = jb_claimed_at j, jr_finished_at = jb_finished_at j,
     jr_lease_until = None, jr_attempt = jb_attempt j, jr_stop_requested = False\<rparr>"

definition enqueue_job :: "job \<Rightarrow> unit tx" where
  "enqueue_job j db = (case find_rule (jb_rule_id j) db of
       None \<Rightarrow> Inl (Sentinel ErrCalendarSyncIneligible)
     | Some r \<Rightarrow>
         if ru_state r \<noteq> ''enabled'' \<and> \<not> (ru_state r = ''paused'' \<and> jb_kind j = ''dry_run'')
         then Inl (Sentinel ErrCalendarSyncIneligible)
         else if jb_kind j \<noteq> ''dry_run'' \<and> (rule_has_job (jb_rule_id j) ''unknown'' db \<or> dispatch_reserved db)
         then Inl (Sentinel ErrCalendarSyncIneligible)
         else if \<not> both_enabled r db then Inl (Sentinel ErrCalendarSyncIneligible)
         else map_err (ErrWrap ''enqueue job'') (map_sum id (Pair ()) (insert_job (job_row_of j) db)))"

text \<open>The SELECT of \<open>ClaimJob\<close>.\<close>

definition claimable :: "instant \<Rightarrow> sync_db \<Rightarrow> job_row \<Rightarrow> bool" where
  "claimable now db j \<longleftrightarrow> jr_state j = ''pending'' \<and> jr_available_at j \<le> now \<and>
     (case find_rule (jr_rule_id j) db of
        None \<Rightarrow> False
      | Some r \<Rightarrow> both_enabled r db \<and> (ru_state r = ''enabled'' \<or> ru_state r = ''paused'' \<and> jr_kind j = ''dry_run'')) \<and>
     \<not> rule_has_job (jr_rule_id j) ''running'' db"

definition first_claimable :: "instant \<Rightarrow> sync_db \<Rightarrow> job_row option" where
  "first_claimable now db = (case sort_key (\<lambda>j. (jr_available_at j, jr_created_at j))
         (filter (claimable now db) (db_jobs db)) of
       [] \<Rightarrow> None
     | j # _ \<Rightarrow> Some j)"

definition claimed_job :: "string \<Rightarrow> instant \<Rightarrow> job_row \<Rightarrow> job" where
  "claimed_job worker claimedAt j = \<lparr>jb_id = jr_id j, jb_rule_id = jr_rule_id j, jb_kind = jr_kind j,
     jb_state = ''running'', jb_claimed_by = worker, jb_available_at = jr_available_at j,
     jb_created_at = jr_created_at j, jb_claimed_at = Some claimedAt, jb_finished_at = None,
     jb_attempt = jr_attempt j + 1\<rparr>"

definition claim_row :: "string \<Rightarrow> instant \<Rightarrow> job_row \<Rightarrow> job_row" where
  "claim_row worker claimedAt j = j\<lparr>jr_state := ''running'', jr_claimed_at := Some claimedAt,
     jr_claimed_by := Some worker, jr_lease_until := Some (claimedAt + JobLeaseDuration),
     jr_attempt := jr_attempt j + 1\<rparr>"

text \<open>
  \<open>ClaimJob\<close> with the durations at the claim, before the commit and after it; the last one may
  find the lease spent when the claim is already committed.
\<close>

definition claim_job :: "string \<Rightarrow> instant \<Rightarrow> int \<Rightarrow> int \<Rightarrow> int \<Rightarrow> (sync_db, job option) prog" where
  "claim_job worker now atClaim beforeCommit afterCommit db = (case first_claimable now db of
       None \<Rightarrow> (Inr None, db)
     | Some j \<Rightarrow>
         let claimedAt = now + atClaim;
             P = (\<lambda>x. jr_id x = jr_id j \<and> jr_state x = ''pending'');
             db' = db\<lparr>db_jobs := update_rows P (claim_row worker claimedAt) (db_jobs db)\<rparr> in
         if count_rows P (db_jobs db) \<noteq> 1 then (Inr None, db)
         else if \<not> claimedAt + JobLeaseDuration > now + beforeCommit then (Inl (Sentinel ErrJobLeaseLost), db)
         else if \<not> claimedAt + JobLeaseDuration > now + afterCommit then (Inl (Sentinel ErrJobLeaseLost), db')
         else (Inr (Some (claimed_job worker claimedAt j)), db'))"

section \<open>Recovery and the lease\<close>

definition stale_claim :: "instant \<Rightarrow> instant \<Rightarrow> job_row \<Rightarrow> bool" where
  "stale_claim staleBefore now j \<longleftrightarrow> jr_state j = ''running'' \<and>
     (case jr_claimed_at j of None \<Rightarrow> False | Some t \<Rightarrow> t < staleBefore) \<and>
     (case jr_lease_until j of None \<Rightarrow> True | Some t \<Rightarrow> t \<le> now)"

definition recover_row :: "instant \<Rightarrow> job_row \<Rightarrow> job_row" where
  "recover_row now j = j\<lparr>jr_state := (if jr_stop_requested j then ''unknown'' else ''pending''),
     jr_available_at := now, jr_claimed_at := None, jr_claimed_by := None, jr_lease_until := None,
     jr_finished_at := (if jr_stop_requested j then Some now else jr_finished_at j)\<rparr>"

definition recover_jobs :: "instant \<Rightarrow> instant \<Rightarrow> string list \<Rightarrow> job_row list \<Rightarrow> job_row list \<times> string list" where
  "recover_jobs staleBefore now candidates jobs = foldl (\<lambda>(rows, recovered) i.
     let P = (\<lambda>j. jr_id j = i \<and> stale_claim staleBefore now j) in
     (update_rows P (recover_row now) rows,
      if count_rows P rows = 1 then recovered @ [i] else recovered)) (jobs, []) candidates"

definition close_stale_run :: "job_row list \<Rightarrow> instant \<Rightarrow> string \<Rightarrow> run list \<Rightarrow> run list" where
  "close_stale_run jobs now i runs = update_rows (\<lambda>r. rn_outcome r = ''running'' \<and> rn_job_id r = i)
     (\<lambda>r. r\<lparr>rn_outcome := (if list_ex (\<lambda>j. jr_id j = i \<and> jr_state j = ''unknown'') jobs then ''unknown'' else ''failed''),
        rn_finished_at := Some now, rn_error_code := ''worker_lease_expired'',
        rn_error_summary := ''Worker stopped before the synchronization run completed; the result may be unknown''\<rparr>) runs"

definition recover_stale_jobs :: "instant \<Rightarrow> instant \<Rightarrow> nat tx" where
  "recover_stale_jobs staleBefore now db =
     (let candidates = sort (map jr_id (filter (stale_claim staleBefore now) (db_jobs db))) in
      case recover_jobs staleBefore now candidates (db_jobs db) of (jobs, recovered) \<Rightarrow>
        Inr (length recovered, db\<lparr>db_jobs := jobs,
          db_runs := foldl (\<lambda>runs i. close_stale_run jobs now i runs) (db_runs db) recovered\<rparr>))"

text \<open>The row a worker's job still holds.\<close>

definition holds_claim :: "job \<Rightarrow> job_row \<Rightarrow> bool" where
  "holds_claim job j \<longleftrightarrow> jr_id j = jb_id job \<and> jr_state j = ''running'' \<and>
     jr_claimed_by j = Some (jb_claimed_by job) \<and> jr_attempt j = jb_attempt job"

definition lock_job_lease :: "job \<Rightarrow> sync_db \<Rightarrow> (instant option \<times> instant option) option" where
  "lock_job_lease job db = map_option (\<lambda>j. (jr_claimed_at j, jr_lease_until j)) (find (holds_claim job) (db_jobs db))"

definition after_deadline :: "instant option \<Rightarrow> instant \<Rightarrow> bool" where
  "after_deadline deadline t = (case deadline of None \<Rightarrow> False | Some d \<Rightarrow> \<not> t < d)"

text \<open>
  \<open>renewJobLease\<close>: the durations at the lock, before the commit and after it.  The last
  check reports a lost lease although the renewal is committed.
\<close>

definition renew_job_lease :: "job \<Rightarrow> instant \<Rightarrow> int \<Rightarrow> int \<Rightarrow> int \<Rightarrow> bool tx" where
  "renew_job_lease job now atLock beforeCommit afterCommit db = (case lock_job_lease job db of
       None \<Rightarrow> Inr (False, db)
     | Some (claimed, deadline) \<Rightarrow>
         let lockedAt = now + atLock;
             db' = db\<lparr>db_jobs := update_rows (holds_claim job)
               (\<lambda>j. j\<lparr>jr_claimed_at := Some lockedAt,
                  jr_lease_until := (case jr_lease_until j of None \<Rightarrow> None
                                     | Some _ \<Rightarrow> Some (lockedAt + JobLeaseDuration))\<rparr>) (db_jobs db)\<rparr> in
         if (case claimed of None \<Rightarrow> True | Some c \<Rightarrow> c > lockedAt) \<or> after_deadline deadline lockedAt
         then Inr (False, db)
         else if count_rows (holds_claim job) (db_jobs db) \<noteq> 1 then Inr (False, db)
         else if after_deadline deadline (now + beforeCommit) then Inr (False, db)
         else if deadline \<noteq> None \<and> \<not> lockedAt + JobLeaseDuration > now + afterCommit then Inr (False, db')
         else Inr (True, db'))"

section \<open>Runs\<close>

text \<open>
  \<open>StartRun\<close>: the columns of the INSERT; what the struct has beyond them is not stored.
\<close>

definition start_run :: "run \<Rightarrow> unit tx" where
  "start_run r db =
     (if list_ex (\<lambda>x. rn_id x = rn_id r) (db_runs db) then Inl (ErrWrap ''start run'' unique_violation)
      else if \<not> list_ex (\<lambda>j. jr_id j = rn_job_id r) (db_jobs db) \<or> find_rule (rn_rule_id r) db = None
      then Inl (ErrWrap ''start run'' foreign_key_violation)
      else Inr ((), db\<lparr>db_runs := db_runs db @
        [r\<lparr>rn_stop_requested := False, rn_provider_dispatched := False, rn_preview := None\<rparr>]\<rparr>))"

text \<open>The JSON of a preview (\<open>models.go\<close>, the tags of \<open>SyncRunPreview\<close> and its entries).\<close>

definition json_omit :: "bool \<Rightarrow> string \<Rightarrow> string \<Rightarrow> string list" where
  "json_omit absent k v = (if absent then [] else [json_member k v])"

definition json_bool :: "bool \<Rightarrow> string" where
  "json_bool b = (if b then ''true'' else ''false'')"

definition json_event_time :: "event_time \<Rightarrow> string" where
  "json_event_time t = json_object
     (json_omit (et_date t = '''') ''date'' (json_string (et_date t)) @
      json_omit (et_date_time t = '''') ''date_time'' (json_string (et_date_time t)) @
      json_omit (et_time_zone t = '''') ''time_zone'' (json_string (et_time_zone t)))"

definition json_preview_entry :: "preview_entry \<Rightarrow> string" where
  "json_preview_entry e = json_object
     [json_member ''action'' (json_string (pe_action e)), json_member ''title'' (json_string (pe_title e)),
      json_member ''start'' (json_event_time (pe_start e)), json_member ''kind'' (json_string (pe_kind e)),
      json_member ''reason'' (json_string (pe_reason e)),
      json_member ''target_status'' (json_string (pe_target_status e))]"

definition json_preview :: "sync_run_preview \<Rightarrow> string" where
  "json_preview p = json_object
     ([json_member ''entries'' (json_array (map json_preview_entry (rp_entries p))),
       json_member ''total'' (append_int 1 (rp_total p)), json_member ''truncated'' (json_bool (rp_truncated p))] @
      json_omit (rp_source_revision p = 0) ''source_revision'' (append_int 1 (rp_source_revision p)) @
      json_omit (rp_rule_config_version p = 0) ''rule_config_version'' (append_int 1 (rp_rule_config_version p)) @
      json_omit (rp_target_status p = '''') ''target_status'' (json_string (rp_target_status p)))"

text \<open>The artifact cipher: \<open>Encrypt\<close> and \<open>Decrypt\<close> under a context (plaintext, context).\<close>

record artifact_cipher =
  ac_encrypt :: "string \<Rightarrow> string \<Rightarrow> string res"
  ac_decrypt :: "string \<Rightarrow> string \<Rightarrow> string res"

definition preview_context :: "string \<Rightarrow> string" where
  "preview_context runID = ''calendar-sync-preview'' @ CHR 0x00 # runID"

definition encrypt_preview ::
  "artifact_cipher option \<Rightarrow> string \<Rightarrow> job \<Rightarrow> string \<Rightarrow> sync_run_preview option \<Rightarrow> string option res" where
  "encrypt_preview cipher runID job outcome preview = (case preview of
       None \<Rightarrow> Inr None
     | Some p \<Rightarrow>
         if jb_kind job \<noteq> ''dry_run'' \<or> outcome \<noteq> ''succeeded'' \<or> length (rp_entries p) > 1000
         then Inl (ErrText ''invalid sync preview'')
         else (case cipher of
             None \<Rightarrow> Inl (ErrText ''sync preview encryption is unavailable'')
           | Some c \<Rightarrow>
               let data = json_preview p in
               if int (length data) > 4194304 then Inl (ErrText ''sync preview exceeds size limit'')
               else map_sum id Some (ac_encrypt c data (preview_context runID))))"

text \<open>The outcome of a run whose stop was requested.\<close>

definition stopped_outcome :: "bool \<Rightarrow> string \<Rightarrow> run \<Rightarrow> string \<times> run" where
  "stopped_outcome stopRequested outcome counters =
     (if stopRequested \<and> outcome = ''failed'' then
        (if rn_provider_dispatched counters
         then (''unknown'', counters\<lparr>rn_error_code := ''sync_outcome_unknown'',
           rn_error_summary := ''A provider request may have completed. Review is required before another write.''\<rparr>)
         else (''stopped'', counters\<lparr>rn_error_code := '''',
           rn_error_summary := ''Stop completed before a provider mutation was dispatched.''\<rparr>))
      else (outcome, counters))"

definition finish_run_row :: "string \<Rightarrow> instant \<Rightarrow> run \<Rightarrow> run \<Rightarrow> run" where
  "finish_run_row outcome finished counters r = r\<lparr>rn_outcome := outcome, rn_finished_at := Some finished,
     rn_created_count := rn_created_count counters, rn_updated_count := rn_updated_count counters,
     rn_deleted_count := rn_deleted_count counters, rn_skipped_count := rn_skipped_count counters,
     rn_warning_count := rn_warning_count counters, rn_error_code := rn_error_code counters,
     rn_error_summary := rn_error_summary counters\<rparr>"

definition preview_retention :: int where "preview_retention = 7 * 24 * 3600 * nanos"

text \<open>
  \<open>finishRun\<close> with the durations at the lock and before the commit.
\<close>

definition finish_run ::
  "artifact_cipher option \<Rightarrow> string \<Rightarrow> job \<Rightarrow> string \<Rightarrow> instant \<Rightarrow> run \<Rightarrow> int \<Rightarrow> int \<Rightarrow> unit tx" where
  "finish_run cipher runID job outcome0 finished counters0 atLock beforeCommit db =
     bind_res (encrypt_preview cipher runID job outcome0 (rn_preview counters0)) (\<lambda>encrypted.
     (case lock_job_lease job db of
        None \<Rightarrow> Inl (Sentinel ErrJobLeaseLost)
      | Some (claimed, deadline) \<Rightarrow>
          if after_deadline deadline (finished + atLock) then Inl (Sentinel ErrJobLeaseLost)
          else (case find (\<lambda>j. jr_id j = jb_id job) (db_jobs db) of
            None \<Rightarrow> Inl (ErrExt ''sql: no rows in result set'')
          | Some stored \<Rightarrow> (case stopped_outcome (jr_stop_requested stored) outcome0 counters0 of
              (outcome, counters) \<Rightarrow>
                let jobs = update_rows (holds_claim job)
                      (\<lambda>j. j\<lparr>jr_state := outcome, jr_finished_at := Some finished, jr_lease_until := None\<rparr>) (db_jobs db);
                    Q = (\<lambda>r. rn_id r = runID \<and> rn_job_id r = jb_id job \<and> rn_outcome r = ''running'');
                    db1 = db\<lparr>db_jobs := jobs, db_runs := update_rows Q (finish_run_row outcome finished counters) (db_runs db)\<rparr> in
                if count_rows (holds_claim job) (db_jobs db) \<noteq> 1 then Inl (Sentinel ErrJobLeaseLost)
                else if count_rows Q (db_runs db) \<noteq> 1 then Inl (ErrWrap ''finish run'' (Sentinel ErrNotFound))
                else if rn_preview counters \<noteq> None \<and> outcome = ''succeeded'' \<and>
                    list_ex (\<lambda>p. pw_run_id p = runID) (db_previews db)
                then Inl (ErrWrap ''save sync preview'' unique_violation)
                else if after_deadline deadline (finished + beforeCommit) then Inl (Sentinel ErrJobLeaseLost)
                else Inr ((), if rn_preview counters \<noteq> None \<and> outcome = ''succeeded''
                       then db1\<lparr>db_previews := db_previews db @
                         [\<lparr>pw_run_id = runID, pw_expires_at = finished + preview_retention, pw_payload = encrypted\<rparr>]\<rparr>
                       else db1)))))"

text \<open>\<open>GetSyncRunPreview\<close>; \<open>unmarshal\<close> is \<open>json.Unmarshal\<close> into a preview.\<close>

definition get_sync_run_preview ::
  "artifact_cipher option \<Rightarrow> (string \<Rightarrow> sync_run_preview res) \<Rightarrow> string \<Rightarrow> instant \<Rightarrow> sync_db \<Rightarrow>
   (sync_run_preview option \<times> string) res" where
  "get_sync_run_preview cipher unmarshal runID now db =
     (case find (\<lambda>p. pw_run_id p = runID) (db_previews db) of
        None \<Rightarrow> Inr (None, ''unavailable'')
      | Some p \<Rightarrow>
          if \<not> now < pw_expires_at p \<or> pw_payload p = None \<or> pw_payload p = Some [] then Inr (None, ''expired'')
          else (case cipher of
              None \<Rightarrow> Inl (ErrText ''sync preview encryption is unavailable'')
            | Some c \<Rightarrow>
                bind_res (ac_decrypt c (the (pw_payload p)) (preview_context runID)) (\<lambda>data.
                bind_res (unmarshal data) (\<lambda>preview. Inr (Some preview, ''available'')))))"

definition expire_sync_run_previews :: "instant \<Rightarrow> unit tx" where
  "expire_sync_run_previews now db = Inr ((), db\<lparr>db_previews :=
     update_rows (\<lambda>p. pw_payload p \<noteq> None \<and> pw_expires_at p \<le> now) (\<lambda>p. p\<lparr>pw_payload := None\<rparr>) (db_previews db)\<rparr>)"

text \<open>The inner join keeps the runs that have their job; its stop flag is the run's.\<close>

definition list_runs :: "int \<Rightarrow> sync_db \<Rightarrow> run list" where
  "list_runs limit db =
     (let n = (if limit \<le> 0 \<or> limit > 200 then 50 else limit);
          joined = concat (map (\<lambda>r. map (\<lambda>j. r\<lparr>rn_stop_requested := jr_stop_requested j\<rparr>)
            (filter (\<lambda>j. jr_id j = rn_job_id r) (db_jobs db))) (db_runs db)) in
      take (nat n) (sort_key (\<lambda>r. - rn_started_at r) joined))"

definition has_successful_dry_run :: "string \<Rightarrow> sync_db \<Rightarrow> bool" where
  "has_successful_dry_run i db =
     (count_rows (\<lambda>r. rn_rule_id r = i \<and> rn_dry_run r \<and> rn_outcome r = ''succeeded'') (db_runs db) > 0)"

section \<open>Stopping (sync_control.go) and the dispatch check (job_dispatch_fence.go)\<close>

definition request_job_stop :: "string \<Rightarrow> instant \<Rightarrow> unit tx" where
  "request_job_stop i now db =
     (let P = (\<lambda>j. jr_id j = i \<and> (jr_state j = ''pending'' \<or> jr_state j = ''running'') \<and> \<not> jr_stop_requested j) in
      if count_rows P (db_jobs db) \<noteq> 1 then Inl (Sentinel ErrSyncControlConflict)
      else Inr ((), db\<lparr>db_jobs := update_rows P
        (\<lambda>j. j\<lparr>jr_state := (if jr_state j = ''pending'' then ''cancelled'' else jr_state j),
           jr_finished_at := (if jr_state j = ''pending'' then Some now else jr_finished_at j),
           jr_stop_requested := True\<rparr>) (db_jobs db)\<rparr>))"

definition job_stop_requested :: "job \<Rightarrow> sync_db \<Rightarrow> bool res" where
  "job_stop_requested job db =
     (case find (\<lambda>j. holds_claim job j \<and> jr_rule_id j = jb_rule_id job) (db_jobs db) of
        None \<Rightarrow> Inl (Sentinel ErrJobLeaseLost)
      | Some j \<Rightarrow> Inr (jr_stop_requested j))"

definition list_pending_sync_jobs :: "sync_db \<Rightarrow> (string \<times> string \<times> string \<times> instant) list" where
  "list_pending_sync_jobs db = map (\<lambda>j. (jr_id j, jr_rule_id j, jr_kind j, jr_created_at j))
     (take 200 (sort_key jr_created_at (filter (\<lambda>j. jr_state j = ''pending'') (db_jobs db))))"

text \<open>
  \<open>CheckJobDispatchLease\<close>: \<open>ctx_err\<close> is the context's error after the query and
  \<open>now\<close> the clock read then; the store is not nil.
\<close>

definition check_job_dispatch_lease :: "err option \<Rightarrow> instant \<Rightarrow> job \<Rightarrow> sync_db \<Rightarrow> unit res" where
  "check_job_dispatch_lease ctx_err now job db =
     (if jb_id job = '''' \<or> jb_rule_id job = '''' \<or> jb_claimed_by job = '''' \<or> jb_attempt job < 1
      then Inl (Sentinel ErrJobLeaseLost)
      else (case find (\<lambda>j. jr_id j = jb_id job \<and> jr_rule_id j = jb_rule_id job) (db_jobs db) of
          None \<Rightarrow> Inl (Sentinel ErrJobLeaseLost)
        | Some j \<Rightarrow> (case find_rule (jr_rule_id j) db of
            None \<Rightarrow> Inl (Sentinel ErrJobLeaseLost)
          | Some r \<Rightarrow> (case ctx_err of
              Some e \<Rightarrow> Inl e
            | None \<Rightarrow>
                if jr_stop_requested j \<or> (jr_kind j \<noteq> ''dry_run'' \<and> ru_state r \<noteq> ''enabled'') \<or>
                   jr_state j \<noteq> ''running'' \<or> jr_claimed_by j \<noteq> Some (jb_claimed_by job) \<or>
                   jr_attempt j \<noteq> jb_attempt job \<or>
                   (case jr_claimed_at j of None \<Rightarrow> True | Some c \<Rightarrow> c > now) \<or>
                   (case jr_lease_until j of None \<Rightarrow> True | Some d \<Rightarrow> \<not> d > now)
                then Inl (Sentinel ErrJobLeaseLost) else Inr ()))))"

section \<open>OAuth attempts\<close>

definition put_oauth_attempt :: "oauth_attempt \<Rightarrow> unit tx" where
  "put_oauth_attempt a db =
     (if list_ex (\<lambda>x. oa_state_hash x = oa_state_hash a) (db_oauth_attempts db)
      then Inl (ErrWrap ''put oauth attempt'' unique_violation)
      else Inr ((), db\<lparr>db_oauth_attempts := db_oauth_attempts db @
        [a\<lparr>oa_mode := (if oa_mode a = '''' then ''add'' else oa_mode a)\<rparr>]\<rparr>))"

definition consume_oauth_attempt :: "string \<Rightarrow> instant \<Rightarrow> oauth_attempt tx" where
  "consume_oauth_attempt stateHash now db =
     (case find (\<lambda>x. oa_state_hash x = stateHash) (db_oauth_attempts db) of
        None \<Rightarrow> Inl (Sentinel ErrOAuthNotConsumable)
      | Some a \<Rightarrow>
          if oa_consumed_at a \<noteq> None \<or> \<not> oa_expires_at a > now then Inl (Sentinel ErrOAuthNotConsumable)
          else let P = (\<lambda>x. oa_state_hash x = stateHash \<and> oa_consumed_at x = None) in
            if count_rows P (db_oauth_attempts db) \<noteq> 1 then Inl (Sentinel ErrOAuthNotConsumable)
            else Inr (a\<lparr>oa_consumed_at := Some now\<rparr>,
              db\<lparr>db_oauth_attempts := update_rows P (\<lambda>x. x\<lparr>oa_consumed_at := Some now\<rparr>) (db_oauth_attempts db)\<rparr>))"

definition delete_expired_oauth_attempts :: "instant \<Rightarrow> nat tx" where
  "delete_expired_oauth_attempts now db =
     Inr (count_rows (\<lambda>a. oa_expires_at a \<le> now) (db_oauth_attempts db),
       db\<lparr>db_oauth_attempts := filter (\<lambda>a. \<not> oa_expires_at a \<le> now) (db_oauth_attempts db)\<rparr>)"

section \<open>How a job's row may change\<close>

text \<open>
  Every operation of the store moves a row by one of these steps: a row that is neither pending
  nor running is final, a stop request is never withdrawn, and a row becomes running only by a
  claim, which counts a new attempt.
\<close>

definition row_step :: "job_row \<Rightarrow> job_row \<Rightarrow> bool" where
  "row_step j j' \<longleftrightarrow> jr_id j' = jr_id j \<and> jr_rule_id j' = jr_rule_id j \<and> jr_kind j' = jr_kind j \<and>
     (jr_state j \<noteq> ''pending'' \<and> jr_state j \<noteq> ''running'' \<longrightarrow> j' = j) \<and>
     (jr_stop_requested j \<longrightarrow> jr_stop_requested j') \<and> jr_attempt j \<le> jr_attempt j' \<and>
     (jr_state j' = ''running'' \<longrightarrow>
        (jr_state j = ''running'' \<and> jr_attempt j' = jr_attempt j \<and> jr_claimed_by j' = jr_claimed_by j) \<or>
        jr_attempt j < jr_attempt j')"

definition leased :: "job_row \<Rightarrow> bool" where
  "leased j \<longleftrightarrow> (jr_state j = ''running'' \<longrightarrow> jr_claimed_by j \<noteq> None \<and>
     (\<exists>c. jr_claimed_at j = Some c \<and> jr_lease_until j = Some (c + JobLeaseDuration)))"

text \<open>A quiet step claims nothing.\<close>

definition quiet_step :: "job_row \<Rightarrow> job_row \<Rightarrow> bool" where
  "quiet_step j j' \<longleftrightarrow> row_step j j' \<and> (jr_state j' = ''running'' \<longrightarrow> jr_state j = ''running'') \<and>
     (leased j \<longrightarrow> leased j')"

lemma row_step_refl [simp]: "row_step j j" and quiet_step_refl [simp]: "quiet_step j j"
  by (simp_all add: row_step_def quiet_step_def)

lemma row_step_trans: "row_step i j \<Longrightarrow> row_step j k \<Longrightarrow> row_step i k"
  unfolding row_step_def by (cases "jr_state i = ''pending'' \<or> jr_state i = ''running''") auto

lemma quiet_step_trans: "quiet_step i j \<Longrightarrow> quiet_step j k \<Longrightarrow> quiet_step i k"
  unfolding quiet_step_def by (blast intro: row_step_trans)

lemma quiet_steps_refl [simp]: "list_all2 quiet_step js js"
  by (simp add: list.rel_refl)

lemma quiet_steps_trans:
  "list_all2 quiet_step is js \<Longrightarrow> list_all2 quiet_step js ks \<Longrightarrow> list_all2 quiet_step is ks"
  by (rule list_all2_trans [OF quiet_step_trans])

lemma quiet_update_rows:
  "(\<And>j. P j \<Longrightarrow> quiet_step j (f j)) \<Longrightarrow> list_all2 quiet_step js (update_rows P f js)"
  by (induction js) auto

text \<open>The quiet operations, row by row.\<close>

lemma quiet_recover: "jr_state j = ''running'' \<Longrightarrow> quiet_step j (recover_row now j)"
  by (simp add: quiet_step_def row_step_def recover_row_def leased_def)

lemma quiet_renew:
  "jr_state j = ''running'' \<Longrightarrow> quiet_step j (j\<lparr>jr_claimed_at := Some t,
     jr_lease_until := (case jr_lease_until j of None \<Rightarrow> None | Some _ \<Rightarrow> Some (t + JobLeaseDuration))\<rparr>)"
  by (auto simp: quiet_step_def row_step_def leased_def)

lemma quiet_finish:
  "jr_state j = ''running'' \<Longrightarrow> s \<noteq> ''running'' \<Longrightarrow>
   quiet_step j (j\<lparr>jr_state := s, jr_finished_at := Some t, jr_lease_until := None\<rparr>)"
  by (simp add: quiet_step_def row_step_def leased_def)

lemma quiet_stop:
  "jr_state j = ''pending'' \<or> jr_state j = ''running'' \<Longrightarrow>
   quiet_step j (j\<lparr>jr_state := (if jr_state j = ''pending'' then ''cancelled'' else jr_state j),
     jr_finished_at := (if jr_state j = ''pending'' then Some now else jr_finished_at j), jr_stop_requested := True\<rparr>)"
  by (auto simp: quiet_step_def row_step_def leased_def)

lemma quiet_cancel:
  "jr_state j = ''pending'' \<Longrightarrow> quiet_step j (j\<lparr>jr_state := ''cancelled'', jr_finished_at := Some now\<rparr>)"
  by (simp add: quiet_step_def row_step_def leased_def)

lemma quiet_stop_running: "jr_state j = ''running'' \<Longrightarrow> quiet_step j (j\<lparr>jr_stop_requested := True\<rparr>)"
  by (simp add: quiet_step_def row_step_def leased_def)

lemma stale_running: "stale_claim b n j \<Longrightarrow> jr_state j = ''running''"
  and holds_running: "holds_claim job j \<Longrightarrow> jr_state j = ''running''"
  by (simp_all add: stale_claim_def holds_claim_def)

lemma recover_jobs_quiet:
  "list_all2 quiet_step js (fst (foldl (\<lambda>(rows, recovered) i.
     let P = (\<lambda>j. jr_id j = i \<and> stale_claim staleBefore now j) in
     (update_rows P (recover_row now) rows,
      if count_rows P rows = 1 then recovered @ [i] else recovered)) (js, rec) is))"
proof (induction "is" arbitrary: js rec)
  case Nil
  then show ?case by simp
next
  case (Cons i "is")
  let ?P = "\<lambda>j. jr_id j = i \<and> stale_claim staleBefore now j"
  have "list_all2 quiet_step js (update_rows ?P (recover_row now) js)"
    by (rule quiet_update_rows) (auto intro: quiet_recover stale_running)
  from quiet_steps_trans [OF this Cons.IH] show ?case by (simp add: Let_def)
qed

lemma stopped_outcome_not_running:
  "stopped_outcome b outcome counters = (s, c) \<Longrightarrow> outcome \<noteq> ''running'' \<Longrightarrow> s \<noteq> ''running''"
  by (auto simp: stopped_outcome_def split: if_splits)

section \<open>The steps of the store on jobs\<close>

text \<open>
  \<open>quiet_jobs db db'\<close>: old rows move quietly, and the new rows are unclaimed jobs of rules
  that are not archived.
\<close>

definition fresh_job :: "sync_db \<Rightarrow> job_row \<Rightarrow> bool" where
  "fresh_job db j \<longleftrightarrow> jr_state j = ''pending'' \<and> (\<exists>r. find_rule (jr_rule_id j) db = Some r \<and> ru_state r \<noteq> ''archived'')"

definition quiet_jobs :: "sync_db \<Rightarrow> sync_db \<Rightarrow> bool" where
  "quiet_jobs db db' \<longleftrightarrow> (\<exists>xs news. db_jobs db' = xs @ news \<and> list_all2 quiet_step (db_jobs db) xs \<and>
     (\<forall>n \<in> set news. fresh_job db n) \<and> (distinct (map jr_id (db_jobs db)) \<longrightarrow> distinct (map jr_id (db_jobs db'))))"

lemma row_stepD:
  assumes "row_step j j'"
  shows "jr_id j' = jr_id j" "jr_rule_id j' = jr_rule_id j" "jr_attempt j \<le> jr_attempt j'"
  using assms unfolding row_step_def by blast+

lemma quiet_stepD:
  assumes "quiet_step j j'"
  shows "jr_id j' = jr_id j" "jr_rule_id j' = jr_rule_id j" "row_step j j'"
    "jr_state j' = ''running'' \<Longrightarrow> jr_state j = ''running''" "leased j \<Longrightarrow> leased j'"
  using assms row_stepD [of j j'] unfolding quiet_step_def by blast+

lemma list_all2_ids: "list_all2 quiet_step js ks \<Longrightarrow> map jr_id ks = map jr_id js"
proof (induction rule: list_all2_induct)
  case Nil
  show ?case by simp
next
  case (Cons x xs y ys)
  show ?case using quiet_stepD(1) [OF Cons(1)] Cons(3) by (simp only: list.map)
qed

lemma quiet_jobsI:
  "db_jobs db' = xs @ news \<Longrightarrow> list_all2 quiet_step (db_jobs db) xs \<Longrightarrow> \<forall>n \<in> set news. fresh_job db n \<Longrightarrow>
   (distinct (map jr_id (db_jobs db)) \<Longrightarrow> distinct (map jr_id (db_jobs db'))) \<Longrightarrow> quiet_jobs db db'"
  unfolding quiet_jobs_def by (rule exI [of _ xs], rule exI [of _ news]) simp

lemma quiet_jobs_same: "list_all2 quiet_step (db_jobs db) (db_jobs db') \<Longrightarrow> quiet_jobs db db'"
  by (rule quiet_jobsI [of _ "db_jobs db'" "[]"]) (simp_all add: list_all2_ids)

lemma insert_jobD:
  assumes "insert_job j db = Inr db'"
  shows "db' = db\<lparr>db_jobs := db_jobs db @ [j]\<rparr>" "jr_id j \<notin> jr_id ` set (db_jobs db)"
    "\<exists>r. find_rule (jr_rule_id j) db = Some r"
  using assms by (auto simp: insert_job_def list_ex_iff split: if_splits)

lemma quiet_jobs_append:
  assumes "db_jobs db' = db_jobs db @ news" and "\<forall>n \<in> set news. fresh_job db n"
    and "distinct (map jr_id news)" and "\<forall>n \<in> set news. jr_id n \<notin> jr_id ` set (db_jobs db)"
  shows "quiet_jobs db db'"
proof (rule quiet_jobsI [of _ "db_jobs db" news])
  show "distinct (map jr_id (db_jobs db'))" if "distinct (map jr_id (db_jobs db))"
  proof -
    have no: "x \<notin> jr_id ` set news" if "x \<in> jr_id ` set (db_jobs db)" for x
    proof
      assume "x \<in> jr_id ` set news"
      then obtain n where "x = jr_id n" "n \<in> set news" by (rule imageE)
      with assms(4) that show False by simp
    qed
    then have "jr_id ` set (db_jobs db) \<inter> jr_id ` set news = {}" unfolding disjoint_iff by simp
    with that assms(3) show ?thesis by (simp only: assms(1) map_append distinct_append set_map)
  qed
qed (rule assms(1), rule quiet_steps_refl, rule assms(2))

text \<open>The operations that claim nothing.\<close>

lemma schedule_rules_jobs:
  assumes "fold_res (schedule_rule uuids now) due d = Inr d'"
    and "\<forall>(n, i, k) \<in> set due. \<exists>r. find_rule i db = Some r \<and> ru_state r \<noteq> ''archived''"
  shows "\<exists>news. db_jobs d' = db_jobs d @ news \<and> (\<forall>n \<in> set news. fresh_job db n) \<and> distinct (map jr_id news) \<and>
    (\<forall>n \<in> set news. jr_id n \<notin> jr_id ` set (db_jobs d))"
  using assms
proof (induction due arbitrary: d)
  case Nil
  then show ?case by simp
next
  case (Cons x due)
  obtain n i k where x: "x = (n, i, k)" by (cases x)
  from Cons.prems(1) obtain e where e: "schedule_rule uuids now x d = Inr e"
    "fold_res (schedule_rule uuids now) due e = Inr d'" unfolding fold_res_Cons_iff by blast
  obtain d1 where d1: "insert_job (scheduled_job (uuids n) i now) d = Inr d1" "db_jobs e = db_jobs d1"
    using e(1) by (auto simp: schedule_rule_def x update_rules_def)
  have jobs: "db_jobs e = db_jobs d @ [scheduled_job (uuids n) i now]"
    "uuids n \<notin> jr_id ` set (db_jobs d)"
    using insert_jobD [OF d1(1)] d1(2) by (simp_all add: scheduled_job_def)
  have fresh: "fresh_job db (scheduled_job (uuids n) i now)"
    using Cons.prems(2) by (simp add: x fresh_job_def scheduled_job_def)
  have rest: "\<forall>(n, i, k) \<in> set due. \<exists>r. find_rule i db = Some r \<and> ru_state r \<noteq> ''archived''"
    using Cons.prems(2) by simp
  from Cons.IH [OF e(2) rest] obtain news where news: "db_jobs d' = db_jobs e @ news"
    "\<forall>n \<in> set news. fresh_job db n" "distinct (map jr_id news)"
    "\<forall>n \<in> set news. jr_id n \<notin> jr_id ` set (db_jobs e)" by blast
  have "jr_id (scheduled_job (uuids n) i now) = uuids n" by (simp add: scheduled_job_def)
  then show ?case
    using jobs fresh news by (intro exI [of _ "scheduled_job (uuids n) i now # news"]) auto
qed

text \<open>What the operations on jobs keep of the rules: their presence and whether they are archived.\<close>

definition rules_keep :: "sync_db \<Rightarrow> sync_db \<Rightarrow> bool" where
  "rules_keep db db' \<longleftrightarrow> (\<forall>i r. find_rule i db = Some r \<longrightarrow>
     (\<exists>r'. find_rule i db' = Some r' \<and> (ru_state r' = ''archived'' \<longleftrightarrow> ru_state r = ''archived''))) \<and>
     (distinct (map ru_id (db_rules db)) \<longrightarrow> distinct (map ru_id (db_rules db')))"

lemma rules_keep_same: "db_rules db' = db_rules db \<Longrightarrow> rules_keep db db'"
  by (simp add: rules_keep_def find_rule_def)

lemma find_update_rows_same_id:
  "(\<And>r. ru_id (f r) = ru_id r) \<Longrightarrow>
   find (\<lambda>r. ru_id r = i) (update_rows P f rows) =
     map_option (\<lambda>r. if P r then f r else r) (find (\<lambda>r. ru_id r = i) rows)"
  by (induction rows) auto

lemma rules_keep_update:
  assumes "\<And>r. ru_id (f r) = ru_id r"
    and "\<And>r. P r \<Longrightarrow> ru_state (f r) = ''archived'' \<longleftrightarrow> ru_state r = ''archived''"
    and "db_rules db' = db_rules (update_rules P f db)"
  shows "rules_keep db db'"
proof -
  have ids: "map ru_id (db_rules db') = map ru_id (db_rules db)"
    unfolding assms(3) update_rules_def by (simp add: map_update_rows assms(1))
  have "find_rule i db' = map_option (\<lambda>r. if P r then store_rule r (f r) else r) (find_rule i db)" for i
    unfolding find_rule_def assms(3) update_rules_def
    by (simp add: find_update_rows_same_id assms(1))
  then show ?thesis unfolding rules_keep_def ids by (auto simp: assms(2))
qed

lemma rules_keep_trans: "rules_keep a b \<Longrightarrow> rules_keep b c \<Longrightarrow> rules_keep a c"
  unfolding rules_keep_def by meson

lemma schedule_rules_keep:
  "fold_res (schedule_rule uuids now) due d = Inr d' \<Longrightarrow> rules_keep d d'"
proof (induction due arbitrary: d)
  case Nil
  then show ?case by (simp add: rules_keep_same)
next
  case (Cons x due)
  obtain n i k where x: "x = (n, i, k)" by (cases x)
  from Cons.prems obtain e where e: "schedule_rule uuids now x d = Inr e"
    "fold_res (schedule_rule uuids now) due e = Inr d'" unfolding fold_res_Cons_iff by blast
  obtain d1 where d1: "insert_job (scheduled_job (uuids n) i now) d = Inr d1"
    "e = update_rules (\<lambda>r. ru_id r = i)
       (\<lambda>r. r\<lparr>ru_next_run_at := Some (now + k * nanos), ru_updated_at := now\<rparr>) d1"
    using e(1) by (auto simp: schedule_rule_def x)
  have "rules_keep d d1" using insert_jobD(1) [OF d1(1)] by (simp add: rules_keep_same)
  moreover have "rules_keep d1 e"
    unfolding d1(2)
    by (rule rules_keep_update [where P = "\<lambda>r. ru_id r = i"
          and f = "\<lambda>r. r\<lparr>ru_next_run_at := Some (now + k * nanos), ru_updated_at := now\<rparr>"]) simp_all
  ultimately have "rules_keep d e" by (rule rules_keep_trans)
  then show ?case by (rule rules_keep_trans [OF _ Cons.IH [OF e(2)]])
qed

lemma schedule_due_quiet:
  assumes "schedule_due_jobs uuids now db = Inr (n, db')"
    and "distinct (map ru_id (db_rules db))"
  shows "quiet_jobs db db' \<and> rules_keep db db'"
proof -
  define due where "due = map (\<lambda>r. (ru_id r, ru_interval_seconds r))
      (sort_key ru_created_at (filter (rule_due now db) (db_rules db)))"
  have run: "fold_res (schedule_rule uuids now) (enumerate 0 due) db = Inr db'"
    using assms(1) by (auto simp: schedule_due_jobs_def due_def [symmetric])
  have "\<exists>r. find_rule (fst (snd x)) db = Some r \<and> ru_state r \<noteq> ''archived''"
    if x: "x \<in> set (enumerate 0 due)" for x
  proof -
    let ?i = "fst (snd x)"
    have "snd x \<in> snd ` set (enumerate 0 due)" using x by (rule imageI)
    then have "snd x \<in> set due" by (simp add: set_map [symmetric] del: set_map)
    then obtain r where r: "r \<in> set (db_rules db)" "rule_due now db r" "ru_id r = ?i" by (auto simp: due_def)
    have "find_rule ?i db \<noteq> None" using r(1,3) by (auto simp: find_rule_def find_None_iff)
    then obtain q where q: "find_rule ?i db = Some q" by blast
    from find_rule_unique [OF assms(2) q r(1,3)] have "q = r" by simp
    with q r(2) show ?thesis by (simp add: rule_due_def)
  qed
  then have "\<forall>(n, i, k) \<in> set (enumerate 0 due). \<exists>r. find_rule i db = Some r \<and> ru_state r \<noteq> ''archived''"
    by (simp add: split_def)
  from schedule_rules_jobs [OF run this] obtain news where news: "db_jobs db' = db_jobs db @ news"
    "\<forall>n \<in> set news. fresh_job db n" "distinct (map jr_id news)"
    "\<forall>n \<in> set news. jr_id n \<notin> jr_id ` set (db_jobs db)" by blast
  from quiet_jobs_append [OF this] schedule_rules_keep [OF run] show ?thesis ..
qed

lemma enqueue_job_effect:
  assumes "enqueue_job j db = Inr (u, db')"
  shows "db' = db\<lparr>db_jobs := db_jobs db @ [job_row_of j]\<rparr> \<and> jb_id j \<notin> jr_id ` set (db_jobs db) \<and>
    (\<exists>r. find_rule (jb_rule_id j) db = Some r \<and> both_enabled r db \<and>
      (ru_state r = ''enabled'' \<or> ru_state r = ''paused'' \<and> jb_kind j = ''dry_run'')) \<and>
    (jb_kind j \<noteq> ''dry_run'' \<longrightarrow> \<not> rule_has_job (jb_rule_id j) ''unknown'' db \<and> \<not> dispatch_reserved db)"
proof -
  have m: "map_sum id (Pair ()) x = Inr ((), d) \<Longrightarrow> x = Inr d" for x :: "sync_db res" and d by (cases x) auto
  from assms obtain r where r: "find_rule (jb_rule_id j) db = Some r"
    "ru_state r = ''enabled'' \<or> ru_state r = ''paused'' \<and> jb_kind j = ''dry_run''"
    "jb_kind j \<noteq> ''dry_run'' \<longrightarrow> \<not> rule_has_job (jb_rule_id j) ''unknown'' db \<and> \<not> dispatch_reserved db"
    "both_enabled r db" "insert_job (job_row_of j) db = Inr db'"
    unfolding enqueue_job_def by (auto split: option.splits if_splits dest: m)
  from insert_jobD [OF r(5)] r(1-4) show ?thesis by (simp add: job_row_of_def)
qed

lemma enqueue_job_quiet:
  assumes "enqueue_job j db = Inr (u, db')" and "jb_state j = ''pending''"
  shows "quiet_jobs db db' \<and> rules_keep db db'"
proof -
  note e = enqueue_job_effect [OF assms(1)]
  have "fresh_job db (job_row_of j)"
    using e assms(2) by (auto simp: fresh_job_def job_row_of_def)
  then have "quiet_jobs db db'"
    by (intro quiet_jobs_append [where news = "[job_row_of j]"]) (use e in \<open>auto simp: job_row_of_def\<close>)
  with e show ?thesis by (simp add: rules_keep_same)
qed

lemma recover_quiet:
  assumes "recover_stale_jobs staleBefore now db = Inr (n, db')"
  shows "quiet_jobs db db' \<and> rules_keep db db'"
proof -
  obtain jobs recovered where r:
    "recover_jobs staleBefore now (sort (map jr_id (filter (stale_claim staleBefore now) (db_jobs db)))) (db_jobs db) = (jobs, recovered)"
    "db_jobs db' = jobs" "db_rules db' = db_rules db"
    using assms by (auto simp: recover_stale_jobs_def Let_def split: prod.splits)
  have "list_all2 quiet_step (db_jobs db) jobs"
    using recover_jobs_quiet [of "db_jobs db" staleBefore now "[]"
      "sort (map jr_id (filter (stale_claim staleBefore now) (db_jobs db)))"] r(1)
    by (simp add: recover_jobs_def)
  with r show ?thesis by (simp add: quiet_jobs_same rules_keep_same)
qed

lemma renew_quiet:
  assumes "renew_job_lease job now a b c db = Inr (ok, db')"
  shows "quiet_jobs db db' \<and> rules_keep db db'"
proof -
  let ?u = "update_rows (holds_claim job) (\<lambda>j. j\<lparr>jr_claimed_at := Some (now + a),
      jr_lease_until := (case jr_lease_until j of None \<Rightarrow> None | Some _ \<Rightarrow> Some (now + a + JobLeaseDuration))\<rparr>) (db_jobs db)"
  have "list_all2 quiet_step (db_jobs db) ?u"
    by (rule quiet_update_rows, rule quiet_renew, rule holds_running)
  moreover have "db' = db \<or> db' = db\<lparr>db_jobs := ?u\<rparr>"
    using assms by (auto simp: renew_job_lease_def Let_def split: option.splits prod.splits if_splits)
  ultimately show ?thesis by (auto simp: quiet_jobs_same rules_keep_same)
qed

lemma finish_run_effect:
  assumes "finish_run cipher runID job outcome0 finished counters0 atLock beforeCommit db = Inr (u, db')"
  obtains claimed deadline stored outcome counters where
    "lock_job_lease job db = Some (claimed, deadline)" "\<not> after_deadline deadline (finished + atLock)"
    "\<not> after_deadline deadline (finished + beforeCommit)"
    "find (\<lambda>j. jr_id j = jb_id job) (db_jobs db) = Some stored"
    "stopped_outcome (jr_stop_requested stored) outcome0 counters0 = (outcome, counters)"
    "count_rows (holds_claim job) (db_jobs db) = 1"
    "count_rows (\<lambda>r. rn_id r = runID \<and> rn_job_id r = jb_id job \<and> rn_outcome r = ''running'') (db_runs db) = 1"
    "db_jobs db' = update_rows (holds_claim job)
       (\<lambda>j. j\<lparr>jr_state := outcome, jr_finished_at := Some finished, jr_lease_until := None\<rparr>) (db_jobs db)"
    "db_runs db' = update_rows (\<lambda>r. rn_id r = runID \<and> rn_job_id r = jb_id job \<and> rn_outcome r = ''running'')
       (finish_run_row outcome finished counters) (db_runs db)"
    "db_rules db' = db_rules db"
proof -
  from assms obtain enc where enc: "encrypt_preview cipher runID job outcome0 (rn_preview counters0) = Inr enc"
    unfolding finish_run_def by (auto simp: bind_res_Inr_iff)
  from assms obtain claimed deadline where 1: "lock_job_lease job db = Some (claimed, deadline)"
    "\<not> after_deadline deadline (finished + atLock)"
    unfolding finish_run_def by (auto simp: enc split: option.splits prod.splits if_splits)
  from assms obtain stored where 2: "find (\<lambda>j. jr_id j = jb_id job) (db_jobs db) = Some stored"
    unfolding finish_run_def by (auto simp: enc 1 split: option.splits)
  obtain outcome counters where 3: "stopped_outcome (jr_stop_requested stored) outcome0 counters0 = (outcome, counters)"
    by (cases "stopped_outcome (jr_stop_requested stored) outcome0 counters0")
  note rest = assms [unfolded finish_run_def enc bind_res_simps 1 option.case prod.case 2 3 if_not_P [OF 1(2)] Let_def]
  show thesis
    by (rule that [OF 1 _ 2 3]) (use rest in \<open>auto split: if_splits\<close>)
qed

lemma finish_quiet:
  assumes "finish_run cipher runID job outcome0 finished counters0 a b db = Inr (u, db')"
    and "outcome0 \<noteq> ''running''"
  shows "quiet_jobs db db' \<and> rules_keep db db'"
  using assms(1)
proof (cases rule: finish_run_effect)
  case (1 claimed deadline stored outcome counters)
  have "outcome \<noteq> ''running''" by (rule stopped_outcome_not_running [OF 1(5) assms(2)])
  then have "list_all2 quiet_step (db_jobs db) (db_jobs db')"
    unfolding 1(8) by (intro quiet_update_rows quiet_finish holds_running)
  with 1(10) show ?thesis by (simp add: quiet_jobs_same rules_keep_same)
qed

lemma stop_quiet:
  assumes "request_job_stop i now db = Inr (u, db')"
  shows "quiet_jobs db db' \<and> rules_keep db db'"
proof -
  have "db' = db\<lparr>db_jobs := update_rows
      (\<lambda>j. jr_id j = i \<and> (jr_state j = ''pending'' \<or> jr_state j = ''running'') \<and> \<not> jr_stop_requested j)
      (\<lambda>j. j\<lparr>jr_state := (if jr_state j = ''pending'' then ''cancelled'' else jr_state j),
           jr_finished_at := (if jr_state j = ''pending'' then Some now else jr_finished_at j),
           jr_stop_requested := True\<rparr>) (db_jobs db)\<rparr>"
    using assms by (simp add: request_job_stop_def Let_def split: if_splits)
  moreover have "list_all2 quiet_step (db_jobs db) (update_rows
      (\<lambda>j. jr_id j = i \<and> (jr_state j = ''pending'' \<or> jr_state j = ''running'') \<and> \<not> jr_stop_requested j)
      (\<lambda>j. j\<lparr>jr_state := (if jr_state j = ''pending'' then ''cancelled'' else jr_state j),
           jr_finished_at := (if jr_state j = ''pending'' then Some now else jr_finished_at j),
           jr_stop_requested := True\<rparr>) (db_jobs db))"
    by (rule quiet_update_rows, rule quiet_stop) blast
  ultimately show ?thesis by (simp add: quiet_jobs_same rules_keep_same)
qed

lemma rule_step_quiet: "rule_step db db' \<Longrightarrow> quiet_jobs db db'"
proof (induction rule: rule_step.induct)
  case (pause i now db u db')
  let ?c = "update_rows (\<lambda>j. jr_rule_id j = i \<and> jr_state j = ''pending'' \<and> jr_kind j \<noteq> ''dry_run'')
     (\<lambda>j. j\<lparr>jr_state := ''cancelled'', jr_finished_at := Some now\<rparr>) (db_jobs db)"
  let ?s = "update_rows (\<lambda>j. jr_rule_id j = i \<and> jr_state j = ''running'' \<and> jr_kind j \<noteq> ''dry_run'')
     (\<lambda>j. j\<lparr>jr_stop_requested := True\<rparr>) ?c"
  have "list_all2 quiet_step (db_jobs db) ?c" by (rule quiet_update_rows) (blast intro: quiet_cancel)
  moreover have "list_all2 quiet_step ?c ?s" by (rule quiet_update_rows) (blast intro: quiet_stop_running)
  ultimately have "list_all2 quiet_step (db_jobs db) ?s" by (rule quiet_steps_trans)
  moreover have "db_jobs db' = ?s"
    using pause by (auto simp: request_rule_pause_def Let_def update_rules_def split: if_splits)
  ultimately show ?case by (simp add: quiet_jobs_same)
next
  case (create r db u db')
  then have "db_jobs db' = db_jobs db"
    by (auto simp: create_rule_def insert_rule_def bind_res_Inr_iff split: if_splits)
  then show ?case by (simp add: quiet_jobs_same)
next
  case (import_rule uuids r mappings db u db')
  then have "db_jobs db' = db_jobs db"
    by (auto simp: import_legacy_def insert_rule_def bind_res_Inr_iff split: if_splits)
  then show ?case by (simp add: quiet_jobs_same)
next
  case (set_state i state nxt updatedAt db u db')
  then have "db_jobs db' = db_jobs db" by (auto simp: set_rule_state_def Let_def update_rules_def split: if_splits)
  then show ?case by (simp add: quiet_jobs_same)
next
  case (set_state_at_version i state v nxt updatedAt db u db')
  then have "db_jobs db' = db_jobs db"
    by (auto simp: set_rule_state_at_version_def Let_def update_rules_def split: if_splits)
  then show ?case by (simp add: quiet_jobs_same)
next
  case (archive i now db u db')
  then have "db_jobs db' = db_jobs db"
    by (auto simp: archive_rule_def Let_def update_rules_def split: if_splits option.splits)
  then show ?case by (simp add: quiet_jobs_same)
next
  case (enable_calendar i enabled now db u db')
  then have "db_jobs db' = db_jobs db" by (auto simp: set_calendar_enabled_def Let_def split: if_splits)
  then show ?case by (simp add: quiet_jobs_same)
qed

section \<open>The invariant of the job table\<close>

definition active_state :: "string \<Rightarrow> bool" where
  "active_state s \<longleftrightarrow> s = ''pending'' \<or> s = ''running'' \<or> s = ''unknown''"

definition job_ok :: "sync_db \<Rightarrow> job_row \<Rightarrow> bool" where
  "job_ok db j \<longleftrightarrow> leased j \<and> (\<exists>r. find_rule (jr_rule_id j) db = Some r \<and>
     (ru_state r = ''archived'' \<longrightarrow> \<not> active_state (jr_state j)))"

definition running_rules :: "job_row list \<Rightarrow> string list" where
  "running_rules js = map jr_rule_id (filter (\<lambda>j. jr_state j = ''running'') js)"

definition jobs_ok :: "sync_db \<Rightarrow> bool" where
  "jobs_ok db \<longleftrightarrow> distinct (map jr_id (db_jobs db)) \<and> distinct (map ru_id (db_rules db)) \<and>
     distinct (running_rules (db_jobs db)) \<and> (\<forall>j \<in> set (db_jobs db). job_ok db j)"

lemma quiet_running_rules:
  "list_all2 quiet_step js ks \<Longrightarrow> distinct (running_rules js) \<Longrightarrow>
   distinct (running_rules ks) \<and> set (running_rules ks) \<subseteq> set (running_rules js)"
proof (induction rule: list_all2_induct)
  case Nil
  then show ?case by (simp add: running_rules_def)
next
  case (Cons x xs y ys)
  have same: "jr_rule_id y = jr_rule_id x" "jr_state y = ''running'' \<Longrightarrow> jr_state x = ''running''"
    using quiet_stepD [OF Cons(1)] by blast+
  have tail: "distinct (running_rules xs)" using Cons.prems by (simp add: running_rules_def split: if_splits)
  have head: "jr_state x = ''running'' \<Longrightarrow> jr_rule_id x \<notin> set (running_rules xs)"
    using Cons.prems by (simp add: running_rules_def)
  have Suby: "running_rules (y # ys) = (if jr_state y = ''running'' then [jr_rule_id x] else []) @ running_rules ys"
    and Subx: "running_rules (x # xs) = (if jr_state x = ''running'' then [jr_rule_id x] else []) @ running_rules xs"
    by (simp_all add: running_rules_def same(1))
  show ?case unfolding Suby Subx using Cons.IH [OF tail] same(2) head by auto
qed

lemma quiet_job_ok:
  assumes "quiet_step j j'" and "job_ok db j" and "rules_keep db db'"
  shows "job_ok db' j'"
proof -
  from assms(2) obtain r where r: "find_rule (jr_rule_id j) db = Some r"
    "ru_state r = ''archived'' \<longrightarrow> \<not> active_state (jr_state j)" "leased j" by (auto simp: job_ok_def)
  from assms(3) r(1) obtain r' where r': "find_rule (jr_rule_id j) db' = Some r'"
    "ru_state r' = ''archived'' \<longleftrightarrow> ru_state r = ''archived''" unfolding rules_keep_def by blast
  have step: "jr_rule_id j' = jr_rule_id j" "leased j'" using quiet_stepD [OF assms(1)] r(3) by blast+
  have "\<not> active_state (jr_state j')" if "\<not> active_state (jr_state j)"
  proof -
    have "j' = j" using assms(1) that unfolding quiet_step_def row_step_def active_state_def by blast
    with that show ?thesis by simp
  qed
  with r r' step show ?thesis unfolding job_ok_def by auto
qed

lemma fresh_job_ok:
  assumes "fresh_job db j" and "rules_keep db db'"
  shows "job_ok db' j"
proof -
  from assms(1) obtain r where r: "find_rule (jr_rule_id j) db = Some r" "ru_state r \<noteq> ''archived''"
    "jr_state j = ''pending''" by (auto simp: fresh_job_def)
  from assms(2) r(1) obtain r' where "find_rule (jr_rule_id j) db' = Some r'"
    "ru_state r' = ''archived'' \<longleftrightarrow> ru_state r = ''archived''" unfolding rules_keep_def by blast
  with r show ?thesis by (simp add: job_ok_def leased_def)
qed

lemma list_all2_image: "list_all2 R xs ys \<Longrightarrow> y \<in> set ys \<Longrightarrow> \<exists>x \<in> set xs. R x y"
  by (induction rule: list_all2_induct) auto

lemma jobs_ok_quiet:
  assumes ok: "jobs_ok db" and quiet: "quiet_jobs db db'" and keep: "rules_keep db db'"
  shows "jobs_ok db'"
proof -
  from quiet obtain xs news where j: "db_jobs db' = xs @ news" "list_all2 quiet_step (db_jobs db) xs"
    "\<forall>n \<in> set news. fresh_job db n" "distinct (map jr_id (db_jobs db)) \<longrightarrow> distinct (map jr_id (db_jobs db'))"
    unfolding quiet_jobs_def by blast
  have "running_rules news = []" using j(3) by (auto simp: running_rules_def fresh_job_def filter_empty_conv)
  then have "running_rules (db_jobs db') = running_rules xs" by (simp add: j(1) running_rules_def)
  moreover have "distinct (running_rules xs)"
    using quiet_running_rules [OF j(2)] ok by (simp add: jobs_ok_def)
  moreover have "job_ok db' y" if "y \<in> set (db_jobs db')" for y
  proof (cases "y \<in> set xs")
    case True
    then obtain x where "x \<in> set (db_jobs db)" "quiet_step x y" using list_all2_image [OF j(2)] by blast
    with ok keep show ?thesis unfolding jobs_ok_def by (blast intro: quiet_job_ok)
  next
    case False
    with that j(1,3) keep show ?thesis by (auto intro: fresh_job_ok)
  qed
  ultimately show ?thesis using ok j(4) keep unfolding jobs_ok_def rules_keep_def by simp
qed

lemma job_unique:
  assumes "distinct (map jr_id js)" and "j \<in> set js" and "k \<in> set js" and "jr_id j = jr_id k"
  shows "j = k"
  using assms by (metis (no_types, lifting) distinct_map inj_onD)

lemma find_jobD:
  assumes "distinct (map jr_id js)" and "j \<in> set js" and "P j" and "\<And>k. P k \<Longrightarrow> jr_id k = jr_id j"
  shows "find P js = Some j"
proof -
  have "find P js \<noteq> None" using assms(2,3) by (auto simp: find_None_iff)
  then obtain k where k: "find P js = Some k" by blast
  from find_SomeD [OF k] assms(4) have "k \<in> set js" "jr_id k = jr_id j" by blast+
  from job_unique [OF assms(1) this(1) assms(2) this(2)] k show ?thesis by simp
qed

section \<open>Claims\<close>

lemma first_claimableD:
  assumes "first_claimable now db = Some j"
  shows "j \<in> set (db_jobs db) \<and> claimable now db j \<and>
    (\<forall>k \<in> set (db_jobs db). claimable now db k \<longrightarrow>
       (jr_available_at j, jr_created_at j) \<le> (jr_available_at k, jr_created_at k))"
proof -
  let ?key = "\<lambda>j. (jr_available_at j, jr_created_at j)"
  from assms obtain js where js: "sort_key ?key (filter (claimable now db) (db_jobs db)) = j # js"
    unfolding first_claimable_def by (auto split: list.splits)
  have members: "set (j # js) = {k \<in> set (db_jobs db). claimable now db k}" unfolding js [symmetric] by simp
  have "sorted (map ?key (j # js))" unfolding js [symmetric] by simp
  then have "?key j \<le> ?key k" if "k \<in> set (j # js)" for k using that by auto
  with members show ?thesis by auto
qed

lemma claim_job_effect:
  assumes "claim_job worker now a b c db = (res, db')"
  obtains (nothing) "db' = db" "\<And>j. res \<noteq> Inr (Some j)"
  | (claimed) j where "first_claimable now db = Some j"
      "db' = db\<lparr>db_jobs := update_rows (\<lambda>x. jr_id x = jr_id j \<and> jr_state x = ''pending'')
         (claim_row worker (now + a)) (db_jobs db)\<rparr>"
      "res = Inr (Some (claimed_job worker (now + a) j)) \<and> now + a + JobLeaseDuration > now + c \<or>
       res = Inl (Sentinel ErrJobLeaseLost)"
  using assms unfolding claim_job_def Let_def by (auto split: option.splits if_splits)

lemma claim_rows:
  assumes "distinct (map jr_id js)" and "j \<in> set js" and "jr_state j = ''pending''"
    and "y \<in> set (update_rows (\<lambda>x. jr_id x = jr_id j \<and> jr_state x = ''pending'') f js)"
  shows "y = f j \<or> y \<in> set js \<and> jr_id y \<noteq> jr_id j"
proof -
  from assms(4) obtain x where x: "x \<in> set js"
    "y = (if jr_id x = jr_id j \<and> jr_state x = ''pending'' then f x else x)" unfolding set_update_rows by blast
  show ?thesis
  proof (cases "jr_id x = jr_id j")
    case True
    then have "x = j" using job_unique [OF assms(1) x(1) assms(2)] by simp
    with x assms(3) show ?thesis by simp
  next
    case False
    with x show ?thesis by simp
  qed
qed

lemma running_rules_claim:
  assumes "distinct (map jr_id js)" and "j \<in> set js" and "jr_rule_id j \<notin> set (running_rules js)"
    and "distinct (running_rules js)" and "\<And>x. jr_rule_id (f x) = jr_rule_id x"
  shows "distinct (running_rules (update_rows (\<lambda>x. jr_id x = jr_id j \<and> jr_state x = ''pending'') f js)) \<and>
    set (running_rules (update_rows (\<lambda>x. jr_id x = jr_id j \<and> jr_state x = ''pending'') f js)) \<subseteq>
      insert (jr_rule_id j) (set (running_rules js))"
  using assms(1-4)
proof (induction js)
  case Nil
  then show ?case by (simp add: running_rules_def)
next
  case (Cons x js)
  let ?P = "\<lambda>x. jr_id x = jr_id j \<and> jr_state x = ''pending''"
  have split: "running_rules (y # ys) = (if jr_state y = ''running'' then [jr_rule_id y] else []) @ running_rules ys" for y ys
    by (simp add: running_rules_def)
  show ?case
  proof (cases "jr_id x = jr_id j")
    case True
    then have xj: "x = j" using job_unique [OF Cons.prems(1), of x j] Cons.prems(2) by simp
    have "jr_id y \<noteq> jr_id j" if "y \<in> set js" for y
      using imageI [OF that, of jr_id] Cons.prems(1) True by auto
    then have "\<not> list_ex ?P js" by (auto simp: list_ex_iff)
    then have rest: "update_rows ?P f js = js" by (rule update_rows_none)
    show ?thesis using Cons.prems(3,4) xj assms(5)
      by (auto simp: rest split)
  next
    case False
    with Cons.prems have js: "j \<in> set js" "distinct (map jr_id js)" "jr_rule_id j \<notin> set (running_rules js)"
      "distinct (running_rules js)" by (auto simp: split)
    from Cons.IH [OF js(2,1,3,4)] Cons.prems(3,4) False show ?thesis by (auto simp: split)
  qed
qed

lemma claim_row_fields [simp]:
  "jr_id (claim_row w t j) = jr_id j" "jr_rule_id (claim_row w t j) = jr_rule_id j"
  "jr_state (claim_row w t j) = ''running''" "jr_attempt (claim_row w t j) = jr_attempt j + 1"
  "jr_lease_until (claim_row w t j) = Some (t + JobLeaseDuration)" "jr_claimed_by (claim_row w t j) = Some w"
  "leased (claim_row w t j)"
  by (simp_all add: claim_row_def leased_def)

lemma claimableD:
  assumes "claimable now db j"
  shows "jr_state j = ''pending''" "\<exists>r. find_rule (jr_rule_id j) db = Some r \<and> both_enabled r db \<and>
     (ru_state r = ''enabled'' \<or> ru_state r = ''paused'' \<and> jr_kind j = ''dry_run'')"
    "jr_rule_id j \<notin> set (running_rules (db_jobs db))"
  using assms by (auto simp: claimable_def rule_has_job_def running_rules_def list_ex_iff split: option.splits)

lemma claim_jobs_ok:
  assumes ok: "jobs_ok db" and claim: "claim_job worker now a b c db = (res, db')"
  shows "jobs_ok db'"
  using claim
proof (cases rule: claim_job_effect)
  case nothing
  with ok show ?thesis by simp
next
  case (claimed j)
  note first = first_claimableD [OF claimed(1)]
  have cl: "claimable now db j" using first by blast
  have dist: "distinct (map jr_id (db_jobs db))" using ok by (simp add: jobs_ok_def)
  let ?js = "update_rows (\<lambda>x. jr_id x = jr_id j \<and> jr_state x = ''pending'') (claim_row worker (now + a)) (db_jobs db)"
  have ids: "map jr_id ?js = map jr_id (db_jobs db)" by (simp add: map_update_rows)
  have runs: "distinct (running_rules ?js)"
    using running_rules_claim [OF dist _ claimableD(3) [OF cl]] first ok by (simp add: jobs_ok_def)
  have "job_ok db' y" if "y \<in> set ?js" for y
  proof -
    have "job_ok db y"
      using claim_rows [OF dist conjunct1 [OF first] claimableD(1) [OF cl] that]
    proof
      assume y: "y = claim_row worker (now + a) j"
      from claimableD(2) [OF cl] obtain r where "find_rule (jr_rule_id j) db = Some r" "ru_state r \<noteq> ''archived''"
        by auto
      then show ?thesis by (simp add: y job_ok_def)
    next
      assume "y \<in> set (db_jobs db) \<and> jr_id y \<noteq> jr_id j"
      with ok show ?thesis by (simp add: jobs_ok_def)
    qed
    then show ?thesis by (simp add: claimed(2) job_ok_def find_rule_def)
  qed
  with ids runs ok show ?thesis by (simp add: claimed(2) jobs_ok_def)
qed

section \<open>Everything the store does to jobs\<close>

text \<open>
  The callers enqueue pending jobs and finish a run as succeeded or failed; \<open>rule_step\<close> are the
  control plane's operations on rules.
\<close>

inductive job_step :: "sync_db \<Rightarrow> sync_db \<Rightarrow> bool" where
  schedule: "schedule_due_jobs uuids now db = Inr (n, db') \<Longrightarrow> job_step db db'"
| enqueue: "enqueue_job j db = Inr (u, db') \<Longrightarrow> jb_state j = ''pending'' \<Longrightarrow> job_step db db'"
| claim: "claim_job worker now a b c db = (res, db') \<Longrightarrow> job_step db db'"
| recover: "recover_stale_jobs staleBefore now db = Inr (n, db') \<Longrightarrow> job_step db db'"
| renew: "renew_job_lease job now a b c db = Inr (ok, db') \<Longrightarrow> job_step db db'"
| start: "start_run r db = Inr (u, db') \<Longrightarrow> job_step db db'"
| finish: "finish_run cipher runID job outcome finished counters a b db = Inr (u, db') \<Longrightarrow>
    outcome = ''succeeded'' \<or> outcome = ''failed'' \<Longrightarrow> job_step db db'"
| stop: "request_job_stop i now db = Inr (u, db') \<Longrightarrow> job_step db db'"
| expire: "expire_sync_run_previews now db = Inr (u, db') \<Longrightarrow> job_step db db'"
| rules: "rule_step db db' \<Longrightarrow> job_step db db'"

lemma rules_keep_insert:
  assumes "db_rules db' = db_rules db @ [x]" and "ru_id x \<notin> ru_id ` set (db_rules db)"
  shows "rules_keep db db'"
proof -
  have "find_rule i db' = Some r" if "find_rule i db = Some r" for i r
  proof -
    have "r \<in> set (db_rules db)" "ru_id r = i" using find_ruleD [OF that] by blast+
    with that show ?thesis unfolding find_rule_def assms(1) by (simp add: find_append_old)
  qed
  with assms show ?thesis by (simp add: rules_keep_def)
qed

lemma rules_keep_rule_step:
  assumes "rule_step db db'" and "\<And>i now u. archive_rule i now db \<noteq> Inr (u, db')"
  shows "rules_keep db db'"
  using assms(1)
proof (cases rule: rule_step.cases)
  case (set_state i state nxt updatedAt u)
  let ?f = "\<lambda>r. r\<lparr>ru_state := state, ru_next_run_at := nxt, ru_updated_at := updatedAt\<rparr>"
  obtain P where P: "db' = update_rules P ?f db" "\<And>r. P r \<Longrightarrow> ru_state r \<noteq> ''archived''" "state \<noteq> ''archived''"
    using set_state that [of "\<lambda>r. ru_id r = i \<and> ru_state r \<noteq> ''archived'' \<and> (state \<noteq> ''enabled'' \<or>
        \<not> rule_uncertain_job (ru_id r) db \<and> \<not> dispatch_reserved db \<and> ru_sync_mode r = ''direct'' \<and> both_enabled r db)"]
    by (auto simp: set_rule_state_def Let_def split: if_splits)
  show ?thesis by (rule rules_keep_update [of ?f P]) (use P in auto)
next
  case (set_state_at_version i state v nxt updatedAt u)
  let ?f = "\<lambda>r. r\<lparr>ru_state := state, ru_next_run_at := nxt, ru_updated_at := updatedAt\<rparr>"
  obtain P where P: "db' = update_rules P ?f db" "\<And>r. P r \<Longrightarrow> ru_state r \<noteq> ''archived''" "state \<noteq> ''archived''"
    using set_state_at_version that [of "\<lambda>r. ru_id r = i \<and> ru_config_version r = v \<and> ru_state r \<noteq> state \<and>
        ru_state r \<noteq> ''archived'' \<and> (state \<noteq> ''enabled'' \<or>
        \<not> rule_uncertain_job (ru_id r) db \<and> \<not> dispatch_reserved db \<and> both_enabled r db)"]
    by (auto simp: set_rule_state_at_version_def Let_def split: if_splits)
  show ?thesis by (rule rules_keep_update [of ?f P]) (use P in auto)
next
  case (pause i now u)
  let ?f = "\<lambda>r. r\<lparr>ru_state := ''paused'', ru_next_run_at := None, ru_updated_at := now\<rparr>"
  have "db_rules db' = db_rules (update_rules (\<lambda>r. ru_id r = i \<and> ru_state r = ''enabled'') ?f db)"
    using pause by (auto simp: request_rule_pause_def Let_def split: if_splits)
  then show ?thesis by (rule rules_keep_update [rotated 2]) auto
next
  case (archive i now u)
  with assms(2) show ?thesis by blast
next
  case (enable_calendar i enabled now u)
  then have "db_rules db' = db_rules db" by (auto simp: set_calendar_enabled_def Let_def split: if_splits)
  then show ?thesis by (rule rules_keep_same)
next
  case (create r u)
  then obtain w where "insert_rule r (normalized_sync_mode (ru_sync_mode r)) db = Inr (w, db')"
    by (auto simp: create_rule_def bind_res_Inr_iff split: if_splits)
  from insert_rule_effect [OF this] show ?thesis by (intro rules_keep_insert) (auto simp: rule.defs)
next
  case (import_rule uuids r mappings u)
  then obtain w db1 table where "insert_rule r ''direct'' db = Inr (w, db1)" "db' = db1\<lparr>db_mappings := table\<rparr>"
    by (auto simp: import_legacy_def bind_res_Inr_iff split: if_splits)
  with insert_rule_effect [OF this(1)] show ?thesis by (intro rules_keep_insert) (auto simp: rule.defs)
qed

lemma archive_jobs_ok:
  assumes ok: "jobs_ok db" and arch: "archive_rule i now db = Inr (u, db')"
  shows "jobs_ok db'"
proof -
  let ?f = "\<lambda>r. r\<lparr>ru_state := ''archived'', ru_next_run_at := None, ru_updated_at := now\<rparr>"
  let ?P = "\<lambda>r. ru_id r = i \<and> ru_state r = ''paused''"
  have db': "db' = update_rules ?P ?f db"
    and idle: "\<And>j. j \<in> set (db_jobs db) \<Longrightarrow> jr_rule_id j = i \<Longrightarrow> \<not> active_state (jr_state j)"
    using arch by (auto simp: archive_rule_def Let_def active_state_def list_ex_iff split: if_splits option.splits)
  have jobs: "db_jobs db' = db_jobs db" by (simp add: db' update_rules_def)
  have ids: "map ru_id (db_rules db') = map ru_id (db_rules db)" unfolding db' by (rule state_change_keeps_ids) simp
  have find: "find_rule k db' = map_option (\<lambda>r. if ?P r then store_rule r (?f r) else r) (find_rule k db)" for k
    unfolding find_rule_def db' update_rules_def by (simp add: find_update_rows_same_id)
  have "job_ok db' j" if j: "j \<in> set (db_jobs db)" for j
  proof -
    from ok j obtain r where r: "leased j" "find_rule (jr_rule_id j) db = Some r"
      "ru_state r = ''archived'' \<longrightarrow> \<not> active_state (jr_state j)" unfolding jobs_ok_def job_ok_def by blast
    have "ru_id r = jr_rule_id j" using find_ruleD [OF r(2)] by blast
    with r idle [OF j] show ?thesis by (auto simp: job_ok_def find)
  qed
  with ok show ?thesis by (simp add: jobs_ok_def jobs ids)
qed

lemma job_step_ok: "job_step db db' \<Longrightarrow> jobs_ok db \<Longrightarrow> jobs_ok db'"
proof (induction rule: job_step.induct)
  case (schedule uuids now db n db')
  have "distinct (map ru_id (db_rules db))" using schedule(2) by (simp add: jobs_ok_def)
  with schedule_due_quiet [OF schedule(1)] jobs_ok_quiet [OF schedule(2)] show ?case by blast
next
  case (enqueue j db u db')
  with enqueue_job_quiet jobs_ok_quiet show ?case by blast
next
  case (claim worker now a b c db res db')
  then show ?case by (blast intro: claim_jobs_ok)
next
  case (recover staleBefore now db n db')
  with recover_quiet jobs_ok_quiet show ?case by blast
next
  case (renew job now a b c db ok db')
  with renew_quiet jobs_ok_quiet show ?case by blast
next
  case (start r db u db')
  then have "db_jobs db' = db_jobs db" "db_rules db' = db_rules db" by (auto simp: start_run_def split: if_splits)
  with jobs_ok_quiet [OF start(2)] show ?case by (simp add: quiet_jobs_same rules_keep_same)
next
  case (finish cipher runID job outcome finished counters a b db u db')
  then have "outcome \<noteq> ''running''" by auto
  with finish_quiet [OF finish(1)] jobs_ok_quiet [OF finish(3)] show ?case by blast
next
  case (stop i now db u db')
  with stop_quiet jobs_ok_quiet show ?case by blast
next
  case (expire now db u db')
  then have "db_jobs db' = db_jobs db" "db_rules db' = db_rules db" by (auto simp: expire_sync_run_previews_def)
  with jobs_ok_quiet [OF expire(2)] show ?case by (simp add: quiet_jobs_same rules_keep_same)
next
  case (rules db db')
  show ?case
  proof (cases "\<exists>i now u. archive_rule i now db = Inr (u, db')")
    case True
    with rules(2) show ?thesis by (blast intro: archive_jobs_ok)
  next
    case False
    then have "rules_keep db db'" by (intro rules_keep_rule_step [OF rules(1)]) blast
    with jobs_ok_quiet [OF rules(2) rule_step_quiet [OF rules(1)]] show ?thesis .
  qed
qed

lemma job_steps_ok: "job_step\<^sup>*\<^sup>* db db' \<Longrightarrow> jobs_ok db \<Longrightarrow> jobs_ok db'"
  by (induction rule: rtranclp_induct) (blast intro: job_step_ok)+

text \<open>All rows of a table after a step come from its old rows, or are new.\<close>

lemma quiet_row_step: "list_all2 quiet_step js ks \<Longrightarrow> list_all2 row_step js ks"
  by (erule list_all2_mono) (blast dest: quiet_stepD)

lemma claim_row_steps:
  "list_all2 row_step js (update_rows (\<lambda>x. jr_id x = i \<and> jr_state x = ''pending'') (claim_row w t) js)"
  by (induction js) (auto simp: row_step_def claim_row_def)

lemma job_step_rows:
  assumes "job_step db db'" and "jobs_ok db"
  shows "\<exists>xs news. db_jobs db' = xs @ news \<and> list_all2 row_step (db_jobs db) xs"
proof -
  have quiet: ?thesis if "quiet_jobs db db'"
    using that unfolding quiet_jobs_def by (blast intro: quiet_row_step)
  have same: ?thesis if "db_jobs db' = db_jobs db"
    using that by (intro exI [of _ "db_jobs db"] exI [of _ "[] :: job_row list"]) (simp add: list.rel_refl)
  from assms(1) show ?thesis
  proof (cases rule: job_step.cases)
    case (claim worker now a b c res)
    from claim show ?thesis
    proof (cases rule: claim_job_effect)
      case nothing
      then show ?thesis by (intro same) simp
    next
      case (claimed j)
      then show ?thesis
        using claim_row_steps [of "db_jobs db" "jr_id j" worker "now + a"]
        by (intro exI [of _ "db_jobs db'"] exI [of _ "[] :: job_row list"]) simp
    qed
  next
    case (schedule uuids now n)
    with assms(2) show ?thesis by (intro quiet) (simp add: schedule_due_quiet jobs_ok_def)
  next
    case (enqueue j u)
    then show ?thesis by (intro quiet) (blast dest: enqueue_job_quiet)
  next
    case (recover staleBefore now n)
    then show ?thesis by (intro quiet) (blast dest: recover_quiet)
  next
    case (renew job now a b c ok)
    then show ?thesis by (intro quiet) (blast dest: renew_quiet)
  next
    case (start r u)
    then show ?thesis by (intro same) (auto simp: start_run_def split: if_splits)
  next
    case (finish cipher runID job outcome finished counters a b u)
    then have "outcome \<noteq> ''running''" by auto
    with finish show ?thesis by (intro quiet) (blast dest: finish_quiet)
  next
    case (stop i now u)
    then show ?thesis by (intro quiet) (blast dest: stop_quiet)
  next
    case (expire now u)
    then show ?thesis by (intro same) (auto simp: expire_sync_run_previews_def)
  next
    case rules
    then show ?thesis by (intro quiet) (rule rule_step_quiet)
  qed
qed

lemma job_step_row:
  assumes "job_step db db'" and "jobs_ok db" and "j \<in> set (db_jobs db)"
  shows "\<exists>j' \<in> set (db_jobs db'). row_step j j'"
proof -
  from job_step_rows [OF assms(1,2)] obtain xs news where x: "db_jobs db' = xs @ news"
    "list_all2 row_step (db_jobs db) xs" by blast
  from x(2) assms(3) have "\<exists>j' \<in> set xs. row_step j j'"
    by (induction rule: list_all2_induct) auto
  with x(1) show ?thesis by auto
qed

lemma job_steps_row:
  assumes "job_step\<^sup>*\<^sup>* db db'" and "jobs_ok db" and "j \<in> set (db_jobs db)"
  shows "\<exists>j' \<in> set (db_jobs db'). row_step j j'"
  using assms(1)
proof (induction rule: rtranclp_induct)
  case base
  show ?case using assms(3) by (rule bexI [rotated]) simp
next
  case (step y z)
  from step.IH obtain k where k: "k \<in> set (db_jobs y)" "row_step j k" by blast
  from job_step_row [OF step(2) job_steps_ok [OF step(1) assms(2)] k(1)] k(2) show ?case
    by (blast intro: row_step_trans)
qed

section \<open>What recovery does\<close>

lemma count_update_rows:
  "(\<And>j. Q j \<Longrightarrow> P (f j) = P j) \<Longrightarrow> count_rows P (update_rows Q f js) = count_rows P js"
  by (induction js) auto

lemma update_update_rows:
  "(\<And>j. Q j \<Longrightarrow> \<not> P (f j)) \<Longrightarrow> update_rows P f (update_rows Q f js) = update_rows (\<lambda>j. Q j \<or> P j) f js"
  by (induction js) auto

lemma recover_jobs_all:
  assumes "distinct (map jr_id js)" and "distinct is"
    and "\<forall>i \<in> set is. \<exists>j \<in> set js. jr_id j = i \<and> stale_claim b now j"
  shows "recover_jobs b now is js = (update_rows (\<lambda>j. jr_id j \<in> set is \<and> stale_claim b now j) (recover_row now) js, is)"
  using assms(2,3)
proof (induction "is" rule: rev_induct)
  case Nil
  then show ?case by (simp add: recover_jobs_def update_rows_def)
next
  case (snoc i "is")
  let ?P = "\<lambda>j. jr_id j = i \<and> stale_claim b now j"
  let ?Q = "\<lambda>j. jr_id j \<in> set is \<and> stale_claim b now j"
  have new: "i \<notin> set is" using snoc.prems(1) by simp
  have ih: "recover_jobs b now is js = (update_rows ?Q (recover_row now) js, is)"
    using snoc.IH snoc.prems by simp
  have id: "jr_id (recover_row now j) = jr_id j" for j by (simp add: recover_row_def)
  have "count_rows ?P (update_rows ?Q (recover_row now) js) = count_rows ?P js"
    by (rule count_update_rows) (use new in \<open>auto simp: id\<close>)
  moreover have "count_rows ?P js \<le> 1" by (rule count_rows_key_le_one [OF assms(1), of _ i]) blast
  moreover have "count_rows ?P js \<noteq> 0" using snoc.prems(2) unfolding count_rows_zero by auto
  ultimately have one: "count_rows ?P (update_rows ?Q (recover_row now) js) = 1" by simp
  have "update_rows ?P (recover_row now) (update_rows ?Q (recover_row now) js) =
      update_rows (\<lambda>j. ?Q j \<or> ?P j) (recover_row now) js"
    by (rule update_update_rows) (use new in \<open>auto simp: id\<close>)
  moreover have "(\<lambda>j. ?Q j \<or> ?P j) = (\<lambda>j. jr_id j \<in> set (is @ [i]) \<and> stale_claim b now j)" by auto
  ultimately show ?case using ih one unfolding recover_jobs_def by (simp only: foldl_append foldl.simps) simp
qed

lemma recover_stale_jobs_effect:
  fixes b now :: instant
  assumes "jobs_ok db"
  defines "candidates \<equiv> sort (map jr_id (filter (stale_claim b now) (db_jobs db)))"
  defines "jobs \<equiv> update_rows (stale_claim b now) (recover_row now) (db_jobs db)"
  shows "recover_stale_jobs b now db = Inr (length candidates, db\<lparr>db_jobs := jobs,
    db_runs := foldl (\<lambda>runs i. close_stale_run jobs now i runs) (db_runs db) candidates\<rparr>)"
proof -
  have dist: "distinct (map jr_id (db_jobs db))" using assms(1) by (simp add: jobs_ok_def)
  have "distinct candidates" using dist unfolding candidates_def by (simp add: distinct_map_filterI)
  moreover have "\<forall>i \<in> set candidates. \<exists>j \<in> set (db_jobs db). jr_id j = i \<and> stale_claim b now j"
    by (auto simp: candidates_def)
  ultimately have r: "recover_jobs b now candidates (db_jobs db) =
      (update_rows (\<lambda>j. jr_id j \<in> set candidates \<and> stale_claim b now j) (recover_row now) (db_jobs db), candidates)"
    using recover_jobs_all [OF dist] by blast
  have "update_rows (\<lambda>j. jr_id j \<in> set candidates \<and> stale_claim b now j) (recover_row now) (db_jobs db) = jobs"
    unfolding jobs_def update_rows_def by (rule map_cong) (auto simp: candidates_def)
  with r show ?thesis unfolding recover_stale_jobs_def candidates_def [symmetric] Let_def by simp
qed

lemma close_stale_runs_closed:
  assumes "r \<in> set (foldl (\<lambda>runs i. close_stale_run jobs now i runs) runs is)"
  shows "rn_outcome r = ''running'' \<Longrightarrow> r \<in> set runs \<and> rn_job_id r \<notin> set is"
  using assms
proof (induction "is" arbitrary: runs)
  case Nil
  then show ?case by simp
next
  case (Cons i "is")
  have "r \<in> set (close_stale_run jobs now i runs) \<and> rn_job_id r \<notin> set is"
    using Cons.IH [OF Cons.prems(1)] Cons.prems(2) by simp
  then show ?case using Cons.prems(1)
    by (auto simp: close_stale_run_def set_update_rows split: if_splits)
qed

section \<open>A lost claim\<close>

text \<open>The job's row has moved on: another attempt, another holder, or no run at all.\<close>

definition claim_lost :: "job \<Rightarrow> sync_db \<Rightarrow> bool" where
  "claim_lost job db \<longleftrightarrow> (\<exists>j \<in> set (db_jobs db). jr_id j = jb_id job \<and> jb_attempt job \<le> jr_attempt j \<and>
     \<not> holds_claim job j)"

lemma claim_lost_row_step:
  assumes "row_step j j'" and "jr_id j = jb_id job" and "jb_attempt job \<le> jr_attempt j" and "\<not> holds_claim job j"
  shows "jr_id j' = jb_id job \<and> jb_attempt job \<le> jr_attempt j' \<and> \<not> holds_claim job j'"
  using assms unfolding row_step_def holds_claim_def by auto

lemma claim_lost_none:
  assumes "claim_lost job db" and "jobs_ok db" and "j \<in> set (db_jobs db)"
  shows "\<not> holds_claim job j"
proof -
  from assms(1) obtain k where k: "k \<in> set (db_jobs db)" "jr_id k = jb_id job" "\<not> holds_claim job k"
    unfolding claim_lost_def by blast
  have dist: "distinct (map jr_id (db_jobs db))" using assms(2) by (simp add: jobs_ok_def)
  show ?thesis
  proof (cases "jr_id j = jb_id job")
    case True
    with job_unique [OF dist assms(3) k(1)] k(2,3) show ?thesis by simp
  next
    case False
    then show ?thesis by (simp add: holds_claim_def)
  qed
qed

lemma claim_lost_steps:
  assumes "job_step\<^sup>*\<^sup>* db db'" and "jobs_ok db" and "claim_lost job db"
  shows "claim_lost job db'"
proof -
  from assms(3) obtain j where j: "j \<in> set (db_jobs db)" "jr_id j = jb_id job"
    "jb_attempt job \<le> jr_attempt j" "\<not> holds_claim job j" unfolding claim_lost_def by blast
  from job_steps_row [OF assms(1,2) j(1)] obtain j' where j': "j' \<in> set (db_jobs db')" "row_step j j'" by blast
  from claim_lost_row_step [OF j'(2) j(2-4)] j'(1) show ?thesis unfolding claim_lost_def by blast
qed

lemma find_none: "(\<And>x. x \<in> set xs \<Longrightarrow> \<not> P x) \<Longrightarrow> find P xs = None"
  by (simp add: find_None_iff)

lemma find_append_skip: "find P xs = None \<Longrightarrow> find P (xs @ ys) = find P ys"
  by (induction xs) auto

lemma claim_lost_lock:
  "claim_lost job db \<Longrightarrow> jobs_ok db \<Longrightarrow> lock_job_lease job db = None"
  using find_none [of "db_jobs db" "holds_claim job"] claim_lost_none [of job db]
  by (simp add: lock_job_lease_def)

text \<open>What a worker records of its run, and the contract of its claim.\<close>

record finishing =
  fi_cipher :: "artifact_cipher option"
  fi_run_id :: string
  fi_outcome :: string
  fi_finished :: instant
  fi_counters :: run
  fi_at_lock :: int
  fi_before_commit :: int

definition finish_action :: "job \<Rightarrow> finishing \<Rightarrow> sync_db \<Rightarrow> err + (unit \<times> sync_db)" where
  "finish_action job f db = finish_run (fi_cipher f) (fi_run_id f) job (fi_outcome f) (fi_finished f)
     (fi_counters f) (fi_at_lock f) (fi_before_commit f) db"

lemma finish_run_lost:
  assumes "claim_lost job db" "jobs_ok db"
  shows "\<exists>e. finish_run cipher runID job outcome finished counters a b db = Inl e"
  unfolding finish_run_def claim_lost_lock [OF assms]
  by (cases "encrypt_preview cipher runID job outcome (rn_preview counters)") auto

interpretation job_claims: claim_protocol job_step jobs_ok claim_lost finish_action
proof unfold_locales
  show "jobs_ok db'" if "job_step db db'" "jobs_ok db" for db db' by (rule job_step_ok [OF that])
  show "claim_lost job db'" if "job_step db db'" "jobs_ok db" "claim_lost job db" for db db' job
    using claim_lost_steps [OF r_into_rtranclp [of job_step, OF that(1)] that(2,3)] .
  show "finish_action job f db \<noteq> Inr t" if "jobs_ok db" "claim_lost job db" for job f db t
    using finish_run_lost [OF that(2,1)] unfolding finish_action_def by (metis sum.distinct(1))
qed

section \<open>Properties\<close>

text \<open>
  C8. The job table stays sound: whatever is scheduled, enqueued, claimed, renewed, recovered,
  finished, stopped, paused or archived, and in whatever order, keys stay unique, no rule has two
  running jobs, every running job has a holder and a lease of exactly fifteen minutes from its
  last claim or renewal, and an archived rule has no pending, running or unknown job.
\<close>

theorem job_table_invariant:
  assumes "job_step\<^sup>*\<^sup>* db db'" and "jobs_ok db"
  shows "jobs_ok db'"
  using assms by (rule job_steps_ok)

text \<open>
  What a claim gives: the job was the earliest pending one that was due, its calendars are
  both enabled and its rule is enabled or, for a dry run, paused; its row is now held by this
  worker with the next attempt and a lease that has not ended when the claim is returned; and it
  is the only running job of its rule.
\<close>

theorem claim_is_exclusive:
  assumes "claim_job worker now a b c db = (Inr (Some job), db')" and "jobs_ok db"
  shows "\<exists>j j' r. j \<in> set (db_jobs db) \<and> claimable now db j \<and>
    (\<forall>k \<in> set (db_jobs db). claimable now db k \<longrightarrow>
       (jr_available_at j, jr_created_at j) \<le> (jr_available_at k, jr_created_at k)) \<and>
    find_rule (jr_rule_id j) db = Some r \<and> both_enabled r db \<and>
    (ru_state r = ''enabled'' \<or> ru_state r = ''paused'' \<and> jr_kind j = ''dry_run'') \<and>
    j' \<in> set (db_jobs db') \<and> holds_claim job j' \<and> jb_claimed_by job = worker \<and>
    jr_id j' = jr_id j \<and> jr_attempt j' = jr_attempt j + 1 \<and>
    (\<exists>d. jr_lease_until j' = Some d \<and> now + c < d) \<and>
    (\<forall>k \<in> set (db_jobs db'). jr_state k = ''running'' \<and> jr_rule_id k = jr_rule_id j' \<longrightarrow> k = j')"
  using assms(1)
proof (cases rule: claim_job_effect)
  case nothing
  then show ?thesis by blast
next
  case (claimed j)
  note first = first_claimableD [OF claimed(1)]
  have cl: "claimable now db j" and j: "j \<in> set (db_jobs db)" using first by blast+
  have job: "job = claimed_job worker (now + a) j" "now + a + JobLeaseDuration > now + c"
    using claimed(3) by auto
  let ?j' = "claim_row worker (now + a) j"
  have j': "?j' \<in> set (db_jobs db')"
    using j claimableD(1) [OF cl] by (auto simp: claimed(2) set_update_rows)
  have ok': "jobs_ok db'" by (rule claim_jobs_ok [OF assms(2,1)])
  have only: "k = ?j'" if k: "k \<in> set (db_jobs db')" "jr_state k = ''running''" "jr_rule_id k = jr_rule_id ?j'" for k
  proof -
    have "inj_on jr_rule_id (set (filter (\<lambda>j. jr_state j = ''running'') (db_jobs db')))"
      using ok' by (simp add: jobs_ok_def running_rules_def distinct_map)
    then show ?thesis by (rule inj_onD) (use k j' in simp_all)
  qed
  from claimableD(2) [OF cl] obtain r where r: "find_rule (jr_rule_id j) db = Some r" "both_enabled r db"
    "ru_state r = ''enabled'' \<or> ru_state r = ''paused'' \<and> jr_kind j = ''dry_run''" by blast
  have hold: "holds_claim job ?j'" "jb_claimed_by job = worker"
    by (simp_all add: holds_claim_def job(1) claimed_job_def)
  have lease: "\<exists>d. jr_lease_until ?j' = Some d \<and> now + c < d" using job(2) by simp
  have all: "\<forall>k \<in> set (db_jobs db'). jr_state k = ''running'' \<and> jr_rule_id k = jr_rule_id ?j' \<longrightarrow> k = ?j'"
    using only by blast
  show ?thesis
    by (rule exI [of _ j], rule exI [of _ ?j'], rule exI [of _ r])
      (intro conjI j cl conjunct2 [OF conjunct2 [OF first]] r j' hold lease all claim_row_fields(1,4))
qed

text \<open>
  C7. A lost claim never acts again: once a job's row has moved past a worker's claim, no later
  sequence of operations lets that worker record an outcome, renew its lease, pass the dispatch
  check or read its stop flag as if it still held the job.
\<close>

theorem lost_claim_never_acts:
  assumes "claim_lost job db" and "jobs_ok db" and "job_step\<^sup>*\<^sup>* db db'"
  shows "(\<exists>e. finish_run cipher runID job outcome finished counters a b db' = Inl e) \<and>
    renew_job_lease job now a b c db' = Inr (False, db') \<and>
    (\<exists>e. check_job_dispatch_lease ctx_err now job db' = Inl e) \<and>
    job_stop_requested job db' = Inl (Sentinel ErrJobLeaseLost)"
proof -
  have lost: "claim_lost job db'" by (rule job_claims.lost_steps [OF assms(3,2,1)])
  have ok: "jobs_ok db'" by (rule job_claims.ok_steps [OF assms(3,2)])
  have lock: "lock_job_lease job db' = None" by (rule claim_lost_lock [OF lost ok])
  have "\<exists>e. finish_run cipher runID job outcome finished counters a b db' = Inl e"
    by (rule finish_run_lost [OF lost ok])
  moreover have "renew_job_lease job now a b c db' = Inr (False, db')" by (simp add: renew_job_lease_def lock)
  moreover have "\<exists>e. check_job_dispatch_lease ctx_err now job db' = Inl e"
  proof (rule ccontr)
    assume "\<not> ?thesis"
    then have pass: "check_job_dispatch_lease ctx_err now job db' = Inr ()"
      by (cases "check_job_dispatch_lease ctx_err now job db'") auto
    then obtain j where j: "find (\<lambda>j. jr_id j = jb_id job \<and> jr_rule_id j = jb_rule_id job) (db_jobs db') = Some j"
      "jr_state j = ''running''" "jr_claimed_by j = Some (jb_claimed_by job)" "jr_attempt j = jb_attempt job"
      unfolding check_job_dispatch_lease_def by (auto split: if_splits option.splits)
    from find_SomeD [OF j(1)] have "j \<in> set (db_jobs db')" "holds_claim job j"
      using j(2-4) by (auto simp: holds_claim_def)
    with claim_lost_none [OF lost ok] show False by blast
  qed
  moreover have "job_stop_requested job db' = Inl (Sentinel ErrJobLeaseLost)"
    using find_none [of "db_jobs db'" "\<lambda>j. holds_claim job j \<and> jr_rule_id j = jb_rule_id job"]
      claim_lost_none [OF lost ok] by (simp add: job_stop_requested_def)
  ultimately show ?thesis by blast
qed

text \<open>
  C36. Recovery ends stale claims: every running job claimed before the limit whose lease has
  ended loses its claim, becomes unknown when a stop was requested and pending again otherwise,
  and none of its runs stays open; every other job is left as it was.
\<close>

theorem recovery_ends_stale_claims:
  assumes "recover_stale_jobs staleBefore now db = Inr (n, db')" and "jobs_ok db"
    and "j \<in> set (db_jobs db)"
  shows "(\<not> stale_claim staleBefore now j \<longrightarrow> j \<in> set (db_jobs db')) \<and>
    (stale_claim staleBefore now j \<longrightarrow>
       (\<exists>j' \<in> set (db_jobs db'). jr_id j' = jr_id j \<and>
          jr_state j' = (if jr_stop_requested j then ''unknown'' else ''pending'')) \<and>
       (\<forall>job. holds_claim job j \<longrightarrow> claim_lost job db') \<and>
       (\<forall>r \<in> set (db_runs db'). rn_job_id r = jr_id j \<longrightarrow> rn_outcome r \<noteq> ''running''))"
proof -
  let ?stale = "stale_claim staleBefore now"
  note eff = recover_stale_jobs_effect [OF assms(2), of staleBefore now]
  have jobs: "db_jobs db' = update_rows ?stale (recover_row now) (db_jobs db)"
    using eff assms(1) by auto
  have runs: "db_runs db' = foldl (\<lambda>runs i. close_stale_run (db_jobs db') now i runs) (db_runs db)
      (sort (map jr_id (filter ?stale (db_jobs db))))"
    using eff assms(1) by auto
  have keep: "j \<in> set (db_jobs db')" if "\<not> ?stale j"
    using assms(3) that unfolding jobs set_update_rows by (intro image_eqI [of _ _ j]) simp_all
  have moved: "recover_row now j \<in> set (db_jobs db')" if "?stale j"
    using assms(3) that unfolding jobs set_update_rows by (intro image_eqI [of _ _ j]) simp_all
  have state: "jr_id (recover_row now j) = jr_id j" "jr_attempt (recover_row now j) = jr_attempt j"
    "jr_state (recover_row now j) = (if jr_stop_requested j then ''unknown'' else ''pending'')"
    by (simp_all add: recover_row_def)
  have lost: "claim_lost job db'" if "?stale j" "holds_claim job j" for job
    unfolding claim_lost_def
    by (rule bexI [OF _ moved [OF that(1)]]) (use that(2) state in \<open>simp add: holds_claim_def\<close>)
  have closed: "rn_outcome r \<noteq> ''running''" if "?stale j" "r \<in> set (db_runs db')" "rn_job_id r = jr_id j" for r
  proof
    assume "rn_outcome r = ''running''"
    from close_stale_runs_closed [OF that(2) [unfolded runs] this] that(3)
    have "jr_id j \<notin> jr_id ` {x \<in> set (db_jobs db). ?stale x}" by simp
    with that(1) assms(3) show False by blast
  qed
  show ?thesis using keep moved state lost closed by blast
qed

lemma schedule_rules_filter:
  assumes "fold_res (schedule_rule uuids now) due d = Inr d'" and "i \<notin> fst ` snd ` set due"
  shows "filter (\<lambda>k. jr_rule_id k = i) (db_jobs d') = filter (\<lambda>k. jr_rule_id k = i) (db_jobs d)"
  using assms
proof (induction due arbitrary: d)
  case Nil
  then show ?case by simp
next
  case (Cons x due)
  obtain n m v where x: "x = (n, m, v)" by (cases x)
  from Cons.prems(1) obtain e where e: "schedule_rule uuids now x d = Inr e"
    "fold_res (schedule_rule uuids now) due e = Inr d'" unfolding fold_res_Cons_iff by blast
  obtain d1 where d1: "insert_job (scheduled_job (uuids n) m now) d = Inr d1" "db_jobs e = db_jobs d1"
    using e(1) by (auto simp: schedule_rule_def x update_rules_def)
  have "m \<noteq> i" "i \<notin> fst ` snd ` set due" using Cons.prems(2) by (auto simp: x)
  with Cons.IH [OF e(2)] insert_jobD(1) [OF d1(1)] d1(2) show ?case by (simp add: scheduled_job_def)
qed

lemma schedule_skips_unknown:
  assumes "schedule_due_jobs uuids now db = Inr (n, db')" and "rule_has_job i ''unknown'' db"
  shows "filter (\<lambda>k. jr_rule_id k = i) (db_jobs db') = filter (\<lambda>k. jr_rule_id k = i) (db_jobs db)"
proof -
  define due where "due = map (\<lambda>r. (ru_id r, ru_interval_seconds r))
      (sort_key ru_created_at (filter (rule_due now db) (db_rules db)))"
  have run: "fold_res (schedule_rule uuids now) (enumerate 0 due) db = Inr db'"
    using assms(1) by (auto simp: schedule_due_jobs_def due_def [symmetric])
  have "snd ` set (enumerate 0 due) = set due" by (simp add: set_map [symmetric] del: set_map)
  moreover have "i \<notin> fst ` set due" using assms(2) by (auto simp: due_def rule_due_def)
  ultimately show ?thesis using schedule_rules_filter [OF run] by simp
qed

text \<open>
  C29. An unknown outcome stays on record and blocks its rule: no operation of the store ever
  changes an unknown job's row, and while it is there its rule cannot be enabled, a manual job of
  the rule is refused, and scheduling adds no job for it.
\<close>

theorem unknown_job_blocks_rule:
  assumes "job_step\<^sup>*\<^sup>* db db'" and "jobs_ok db"
    and "j \<in> set (db_jobs db)" and "jr_state j = ''unknown''"
  shows "j \<in> set (db_jobs db') \<and>
    set_rule_state (jr_rule_id j) ''enabled'' next updatedAt db' = Inl (Sentinel ErrNotFound) \<and>
    (jb_rule_id k = jr_rule_id j \<and> jb_kind k \<noteq> ''dry_run'' \<longrightarrow>
       enqueue_job k db' = Inl (Sentinel ErrCalendarSyncIneligible)) \<and>
    (schedule_due_jobs uuids now db' = Inr (n, db'') \<longrightarrow>
       filter (\<lambda>x. jr_rule_id x = jr_rule_id j) (db_jobs db'') = filter (\<lambda>x. jr_rule_id x = jr_rule_id j) (db_jobs db'))"
proof -
  from job_steps_row [OF assms(1-3)] obtain j' where "j' \<in> set (db_jobs db')" "row_step j j'" by blast
  then have here: "j \<in> set (db_jobs db')" using assms(4) by (simp add: row_step_def)
  have unknown: "rule_has_job (jr_rule_id j) ''unknown'' db'" "rule_uncertain_job (jr_rule_id j) db'"
    using here assms(4) by (auto simp: rule_has_job_def rule_uncertain_job_def list_ex_iff)
  let ?P = "\<lambda>r. ru_id r = jr_rule_id j \<and> ru_state r \<noteq> ''archived'' \<and>
      (''enabled'' \<noteq> ''enabled'' \<or> \<not> rule_uncertain_job (ru_id r) db' \<and> \<not> dispatch_reserved db' \<and>
       ru_sync_mode r = ''direct'' \<and> both_enabled r db')"
  have "count_rows ?P (db_rules db') = 0" using unknown(2) by (auto simp: count_rows_zero)
  then have "set_rule_state (jr_rule_id j) ''enabled'' next updatedAt db' = Inl (Sentinel ErrNotFound)"
    by (simp add: set_rule_state_def)
  moreover have "enqueue_job k db' = Inl (Sentinel ErrCalendarSyncIneligible)"
    if "jb_rule_id k = jr_rule_id j \<and> jb_kind k \<noteq> ''dry_run''"
    using that unknown(1) by (simp add: enqueue_job_def split: option.splits)
  ultimately show ?thesis using here schedule_skips_unknown [OF _ unknown(1)] by blast
qed

lemma lock_job_leaseD:
  assumes "lock_job_lease job db = Some (claimed, deadline)"
  shows "\<exists>j \<in> set (db_jobs db). holds_claim job j \<and> jr_claimed_at j = claimed \<and> jr_lease_until j = deadline"
  using assms find_SomeD [of "holds_claim job" "db_jobs db"] by (auto simp: lock_job_lease_def)

text \<open>
  C33. A recorded outcome is the worker's own: when a run is finished, the worker held the job and
  its lease had not ended at the commit; the job and its run end with the same outcome, which for
  a failure after a requested stop is unknown if a provider request was sent and stopped if none
  was; no other job changes.
\<close>

theorem finished_run_outcome:
  assumes "finish_run cipher runID job outcome finished counters a b db = Inr (u, db')" and "jobs_ok db"
  shows "\<exists>j final. j \<in> set (db_jobs db) \<and> holds_claim job j \<and> (\<exists>d. jr_lease_until j = Some d \<and> finished + b < d) \<and>
    final = (if jr_stop_requested j \<and> outcome = ''failed''
             then (if rn_provider_dispatched counters then ''unknown'' else ''stopped'') else outcome) \<and>
    (\<exists>j' \<in> set (db_jobs db'). jr_id j' = jb_id job \<and> jr_state j' = final) \<and>
    (\<exists>r \<in> set (db_runs db'). rn_id r = runID \<and> rn_job_id r = jb_id job \<and> rn_outcome r = final) \<and>
    (\<forall>k \<in> set (db_jobs db). jr_id k \<noteq> jb_id job \<longrightarrow> k \<in> set (db_jobs db'))"
  using assms(1)
proof (cases rule: finish_run_effect)
  case (1 claimed deadline stored final counters')
  have dist: "distinct (map jr_id (db_jobs db))" using assms(2) by (simp add: jobs_ok_def)
  from lock_job_leaseD [OF 1(1)] obtain j where j: "j \<in> set (db_jobs db)" "holds_claim job j"
    "jr_lease_until j = deadline" by blast
  have "jr_id stored = jb_id job" "stored \<in> set (db_jobs db)" using find_SomeD [OF 1(4)] by blast+
  with job_unique [OF dist _ j(1)] j(2) have stored: "stored = j" by (simp add: holds_claim_def)
  have "leased j" using assms(2) j(1) by (simp add: jobs_ok_def job_ok_def)
  then have lease: "\<exists>d. jr_lease_until j = Some d \<and> finished + b < d"
    using 1(3) j(2,3) by (auto simp: leased_def holds_claim_def after_deadline_def)
  have final: "final = (if jr_stop_requested j \<and> outcome = ''failed''
      then (if rn_provider_dispatched counters then ''unknown'' else ''stopped'') else outcome)"
    using 1(5) by (auto simp: stored stopped_outcome_def split: if_splits)
  let ?f = "\<lambda>j. j\<lparr>jr_state := final, jr_finished_at := Some finished, jr_lease_until := None\<rparr>"
  have row: "?f j \<in> set (db_jobs db')"
    unfolding 1(8) set_update_rows using j by (intro image_eqI [of _ _ j]) simp_all
  have others: "\<forall>k \<in> set (db_jobs db). jr_id k \<noteq> jb_id job \<longrightarrow> k \<in> set (db_jobs db')"
    unfolding 1(8) set_update_rows by (intro ballI impI, rule image_eqI) (auto simp: holds_claim_def)
  from count_rows_oneD [OF 1(7)] obtain r where r: "r \<in> set (db_runs db)" "rn_id r = runID"
    "rn_job_id r = jb_id job" "rn_outcome r = ''running''" by blast
  have "finish_run_row final finished counters' r \<in> set (db_runs db')"
    unfolding 1(9) set_update_rows using r by (intro image_eqI [of _ _ r]) simp_all
  then have run: "\<exists>r \<in> set (db_runs db'). rn_id r = runID \<and> rn_job_id r = jb_id job \<and> rn_outcome r = final"
    by (rule bexI [rotated]) (simp add: finish_run_row_def r)
  have job: "\<exists>j' \<in> set (db_jobs db'). jr_id j' = jb_id job \<and> jr_state j' = final"
    by (rule bexI [OF _ row]) (use j(2) in \<open>simp add: holds_claim_def\<close>)
  show ?thesis by (rule exI [of _ j], rule exI [of _ final], intro conjI j(1,2) lease final job run others)
qed

lemma check_job_dispatch_leaseD:
  assumes "check_job_dispatch_lease ctx_err now job db = Inr u"
  shows "\<exists>j r. j \<in> set (db_jobs db) \<and> jr_rule_id j = jb_rule_id job \<and> holds_claim job j \<and>
    \<not> jr_stop_requested j \<and> (\<exists>d. jr_lease_until j = Some d \<and> now < d) \<and>
    find_rule (jr_rule_id j) db = Some r \<and> (jr_kind j = ''dry_run'' \<or> ru_state r = ''enabled'')"
proof -
  from assms obtain j r where j: "find (\<lambda>j. jr_id j = jb_id job \<and> jr_rule_id j = jb_rule_id job) (db_jobs db) = Some j"
    "find_rule (jr_rule_id j) db = Some r" "\<not> jr_stop_requested j" "jr_kind j = ''dry_run'' \<or> ru_state r = ''enabled''"
    "jr_state j = ''running''" "jr_claimed_by j = Some (jb_claimed_by job)" "jr_attempt j = jb_attempt job"
    "case jr_lease_until j of None \<Rightarrow> False | Some d \<Rightarrow> d > now"
    unfolding check_job_dispatch_lease_def by (auto split: if_splits option.splits)
  from find_SomeD [OF j(1)] have "j \<in> set (db_jobs db)" "jr_id j = jb_id job" "jr_rule_id j = jb_rule_id job" by blast+
  with j show ?thesis by (intro exI [of _ j] exI [of _ r]) (auto simp: holds_claim_def split: option.splits)
qed

text \<open>
  One dispatcher per rule: two checks that pass on the same state for the same rule belong to
  the same claim, whose stop has not been requested, whose lease has not ended, and whose rule is
  enabled unless the job is a dry run.
\<close>

theorem one_dispatcher_per_rule:
  assumes "check_job_dispatch_lease None now job db = Inr ()" and "check_job_dispatch_lease None now' job' db = Inr ()"
    and "jb_rule_id job = jb_rule_id job'" and "jobs_ok db"
  shows "jb_id job = jb_id job' \<and> jb_claimed_by job = jb_claimed_by job' \<and> jb_attempt job = jb_attempt job' \<and>
    (\<exists>j r d. j \<in> set (db_jobs db) \<and> holds_claim job j \<and> \<not> jr_stop_requested j \<and>
       jr_lease_until j = Some d \<and> now < d \<and> now' < d \<and> find_rule (jb_rule_id job) db = Some r \<and>
       (jr_kind j = ''dry_run'' \<or> ru_state r = ''enabled''))"
proof -
  from check_job_dispatch_leaseD [OF assms(1)] obtain j r d where j: "j \<in> set (db_jobs db)"
    "jr_rule_id j = jb_rule_id job" "holds_claim job j" "\<not> jr_stop_requested j" "jr_lease_until j = Some d"
    "now < d" "find_rule (jr_rule_id j) db = Some r" "jr_kind j = ''dry_run'' \<or> ru_state r = ''enabled''" by blast
  from check_job_dispatch_leaseD [OF assms(2)] obtain k d' where k: "k \<in> set (db_jobs db)"
    "jr_rule_id k = jb_rule_id job'" "holds_claim job' k" "jr_lease_until k = Some d'" "now' < d'" by blast
  have inj: "inj_on jr_rule_id (set (filter (\<lambda>j. jr_state j = ''running'') (db_jobs db)))"
    using assms(4) by (simp add: jobs_ok_def running_rules_def distinct_map)
  have "k = j"
    by (rule inj_onD [OF inj]) (use j k assms(3) in \<open>simp_all add: holds_claim_def\<close>)
  with j k show ?thesis by (auto simp: holds_claim_def)
qed

text \<open>
  A preview comes back as it was recorded: when the run of a dry run was finished with a
  preview, it is read back unchanged until seven days after the end of the run and as expired
  from then on.  The cipher must decrypt what it encrypted, to something that is not empty, and
  the decoder must invert the encoder on this preview.
\<close>

theorem preview_roundtrip:
  assumes "finish_run (Some c) runID job outcome finished counters a b db = Inr (u, db')"
    and "rn_preview counters = Some p"
    and "\<forall>x ctx e. ac_encrypt c x ctx = Inr e \<longrightarrow> e \<noteq> [] \<and> ac_decrypt c e ctx = Inr x"
    and "unmarshal (json_preview p) = Inr p"
  shows "jb_kind job = ''dry_run'' \<and> outcome = ''succeeded'' \<and> length (rp_entries p) \<le> 1000 \<and>
    get_sync_run_preview (Some c) unmarshal runID now db' =
      (if now < finished + preview_retention then Inr (Some p, ''available'') else Inr (None, ''expired''))"
proof -
  from assms(1) obtain enc where enc: "encrypt_preview (Some c) runID job outcome (Some p) = Inr enc"
    unfolding finish_run_def by (auto simp: bind_res_Inr_iff assms(2))
  then have guard: "jb_kind job = ''dry_run''" "outcome = ''succeeded''" "length (rp_entries p) \<le> 1000"
    by (auto simp: encrypt_preview_def Let_def split: if_splits)
  from enc obtain e where e: "enc = Some e" "ac_encrypt c (json_preview p) (preview_context runID) = Inr e"
    by (cases "ac_encrypt c (json_preview p) (preview_context runID)")
      (auto simp: encrypt_preview_def Let_def split: if_splits)
  have dec: "e \<noteq> []" "ac_decrypt c e (preview_context runID) = Inr (json_preview p)"
    using assms(3) e(2) by blast+
  have st: "stopped_outcome x ''succeeded'' counters = (''succeeded'', counters)" for x
    by (simp add: stopped_outcome_def)
  note enc' = enc [unfolded guard(2)]
  have "\<not> list_ex (\<lambda>p. pw_run_id p = runID) (db_previews db) \<and>
      db_previews db' = db_previews db @ [\<lparr>pw_run_id = runID, pw_expires_at = finished + preview_retention, pw_payload = enc\<rparr>]"
    using assms(1) unfolding finish_run_def
    by (auto simp: enc' assms(2) guard st Let_def split: option.splits prod.splits if_splits)
  then have new: "find (\<lambda>p. pw_run_id p = runID) (db_previews db') =
      Some \<lparr>pw_run_id = runID, pw_expires_at = finished + preview_retention, pw_payload = Some e\<rparr>"
    by (auto simp: list_ex_iff e(1) find_none find_append_skip)
  show ?thesis using guard dec by (simp add: get_sync_run_preview_def new assms(4))
qed

section \<open>OAuth attempts are used once\<close>

text \<open>The operations on attempts, with no expiry sweep at or after the given time.\<close>

inductive oauth_step :: "instant \<Rightarrow> sync_db \<Rightarrow> sync_db \<Rightarrow> bool" for limit where
  put: "put_oauth_attempt a db = Inr (u, db') \<Longrightarrow> oauth_step limit db db'"
| consume: "consume_oauth_attempt h now db = Inr (a, db') \<Longrightarrow> oauth_step limit db db'"
| sweep: "delete_expired_oauth_attempts now db = Inr (n, db') \<Longrightarrow> now < limit \<Longrightarrow> oauth_step limit db db'"

definition spent :: "string \<Rightarrow> instant \<Rightarrow> sync_db \<Rightarrow> bool" where
  "spent h limit db \<longleftrightarrow> distinct (map oa_state_hash (db_oauth_attempts db)) \<and>
     (\<exists>a \<in> set (db_oauth_attempts db). oa_state_hash a = h \<and> oa_consumed_at a \<noteq> None \<and> oa_expires_at a = limit)"

lemma spent_step: "oauth_step limit db db' \<Longrightarrow> spent h limit db \<Longrightarrow> spent h limit db'"
proof (induction rule: oauth_step.induct)
  case (put a db u db')
  then show ?case by (force simp: put_oauth_attempt_def spent_def list_ex_iff split: if_splits)
next
  case (consume g now db a db')
  let ?P = "\<lambda>x. oa_state_hash x = g \<and> oa_consumed_at x = None"
  let ?rows = "update_rows ?P (\<lambda>x. x\<lparr>oa_consumed_at := Some now\<rparr>) (db_oauth_attempts db)"
  have rows: "db_oauth_attempts db' = ?rows"
    using consume(1) by (auto simp: consume_oauth_attempt_def Let_def split: option.splits if_splits)
  from consume(2) obtain x where x: "x \<in> set (db_oauth_attempts db)" "oa_state_hash x = h"
    "oa_consumed_at x \<noteq> None" "oa_expires_at x = limit" unfolding spent_def by blast
  have "x \<in> set ?rows" unfolding set_update_rows by (rule image_eqI [of _ _ x]) (use x in simp_all)
  moreover have "map oa_state_hash ?rows = map oa_state_hash (db_oauth_attempts db)" by (simp add: map_update_rows)
  ultimately show ?case using consume(2) x unfolding spent_def rows by auto
next
  case (sweep now db n db')
  then have "db_oauth_attempts db' = filter (\<lambda>a. \<not> oa_expires_at a \<le> now) (db_oauth_attempts db)"
    by (auto simp: delete_expired_oauth_attempts_def)
  with sweep(2,3) show ?case by (auto simp: spent_def distinct_map_filterI)
qed

text \<open>
  C37. An authorization attempt is used at most once: the attempt a state hash redeems had not
  expired and had not been redeemed, and from then until it expires no sequence of operations
  lets the hash be redeemed again or be registered anew.
\<close>

theorem oauth_attempt_single_use:
  assumes "consume_oauth_attempt h now db = Inr (x, db1)"
    and "distinct (map oa_state_hash (db_oauth_attempts db))"
    and "(oauth_step (oa_expires_at x))\<^sup>*\<^sup>* db1 db2"
  shows "now < oa_expires_at x \<and> x\<lparr>oa_consumed_at := None\<rparr> \<in> set (db_oauth_attempts db) \<and>
    consume_oauth_attempt h later db2 = Inl (Sentinel ErrOAuthNotConsumable) \<and>
    (oa_state_hash y = h \<longrightarrow> (\<exists>e. put_oauth_attempt y db2 = Inl e))"
proof -
  let ?P = "\<lambda>z. oa_state_hash z = h \<and> oa_consumed_at z = None"
  from assms(1) obtain a where a: "find (\<lambda>z. oa_state_hash z = h) (db_oauth_attempts db) = Some a"
    "oa_consumed_at a = None" "now < oa_expires_at a" "x = a\<lparr>oa_consumed_at := Some now\<rparr>"
    "db_oauth_attempts db1 = update_rows ?P (\<lambda>z. z\<lparr>oa_consumed_at := Some now\<rparr>) (db_oauth_attempts db)"
    by (auto simp: consume_oauth_attempt_def Let_def split: option.splits if_splits)
  have mem: "a \<in> set (db_oauth_attempts db)" "oa_state_hash a = h" using find_SomeD [OF a(1)] by blast+
  have "x \<in> set (db_oauth_attempts db1)"
    unfolding a(5) set_update_rows by (rule image_eqI [of _ _ a]) (use a mem in simp_all)
  moreover have "map oa_state_hash (db_oauth_attempts db1) = map oa_state_hash (db_oauth_attempts db)"
    unfolding a(5) by (simp add: map_update_rows)
  moreover have "oa_state_hash x = h" "oa_consumed_at x \<noteq> None" using a(4) mem(2) by simp_all
  ultimately have "spent h (oa_expires_at x) db1"
    using assms(2) unfolding spent_def by metis
  with assms(3) have spent: "spent h (oa_expires_at x) db2"
    by (induction rule: rtranclp_induct) (blast intro: spent_step)+
  then obtain z where z: "z \<in> set (db_oauth_attempts db2)" "oa_state_hash z = h" "oa_consumed_at z \<noteq> None"
    and dist: "distinct (map oa_state_hash (db_oauth_attempts db2))" unfolding spent_def by blast
  have "consume_oauth_attempt h later db2 = Inl (Sentinel ErrOAuthNotConsumable)"
  proof (cases "find (\<lambda>z. oa_state_hash z = h) (db_oauth_attempts db2)")
    case None
    then show ?thesis by (simp add: consume_oauth_attempt_def)
  next
    case (Some w)
    have "w \<in> set (db_oauth_attempts db2)" "oa_state_hash w = h" using find_SomeD [OF Some] by blast+
    with z dist have "w = z" by (metis (no_types, lifting) distinct_map inj_onD)
    with z Some show ?thesis by (simp add: consume_oauth_attempt_def)
  qed
  moreover have "\<exists>e. put_oauth_attempt y db2 = Inl e" if "oa_state_hash y = h"
    using z that by (auto simp: put_oauth_attempt_def list_ex_iff)
  moreover have "x\<lparr>oa_consumed_at := None\<rparr> = a" using a(2,4) by simp
  ultimately show ?thesis using a(3,4) mem(1) by simp
qed

section \<open>Concrete runs\<close>

definition sample_row :: job_row where
  "sample_row = \<lparr>jr_id = ''j'', jr_rule_id = ''r'', jr_kind = ''manual'', jr_state = ''pending'',
     jr_claimed_by = None, jr_available_at = 5, jr_created_at = 5, jr_claimed_at = None, jr_finished_at = None,
     jr_lease_until = None, jr_attempt = 0, jr_stop_requested = False\<rparr>"

definition sample_jobs_db :: "job_row \<Rightarrow> sync_db" where
  "sample_jobs_db j = sample_rules_db\<lparr>db_rules :=
     [rule.extend ((sample_rule ''r'' ''c'' ''d'')\<lparr>ru_state := ''enabled''\<rparr>) \<lparr>ru_config_version = 2\<rparr>],
     db_jobs := [j],
     db_runs := [\<lparr>rn_id = ''run'', rn_job_id = ''j'', rn_rule_id = ''r'', rn_trigger = ''manual'', rn_outcome = ''running'',
       rn_started_at = 10, rn_finished_at = None, rn_created_count = 0, rn_updated_count = 0, rn_deleted_count = 0,
       rn_skipped_count = 0, rn_warning_count = 0, rn_error_code = '''', rn_error_summary = '''', rn_dry_run = False,
       rn_stop_requested = False, rn_provider_dispatched = False, rn_preview = None\<rparr>]\<rparr>"

definition sample_job :: job where
  "sample_job = claimed_job ''w'' 10 sample_row"

definition sample_running :: job_row where
  "sample_running = claim_row ''w'' 10 sample_row"

definition sample_counters :: run where
  "sample_counters = (hd (db_runs (sample_jobs_db sample_row)))\<lparr>rn_provider_dispatched := True\<rparr>"

lemmas sample_job_defs = sample_rule_defs sample_row_def sample_jobs_db_def sample_job_def sample_running_def
  claim_row_def claimed_job_def sample_counters_def

lemma sample_jobs_ok: "leased j \<Longrightarrow> jr_rule_id j = ''r'' \<Longrightarrow> jobs_ok (sample_jobs_db j)"
  by (simp add: jobs_ok_def job_ok_def running_rules_def find_rule_def sample_rule_defs sample_jobs_db_def)

lemma sample_leased: "leased sample_row" "leased sample_running" "leased (sample_running\<lparr>jr_stop_requested := True\<rparr>)"
  by (simp_all add: leased_def sample_row_def sample_running_def claim_row_def)

lemma sample_rule_id: "jr_rule_id sample_row = ''r''" "jr_rule_id sample_running = ''r''"
  by (simp_all add: sample_row_def sample_running_def claim_row_def)

lemmas sample_pending_ok = sample_jobs_ok [OF sample_leased(1) sample_rule_id(1)]
lemmas sample_running_ok = sample_jobs_ok [OF sample_leased(2) sample_rule_id(2)]

lemma sample_claim:
  "claim_job ''w'' 10 0 1 2 (sample_jobs_db sample_row) = (Inr (Some sample_job), sample_jobs_db sample_running)"
  by (simp add: claim_job_def first_claimable_def claimable_def rule_has_job_def both_enabled_def find_calendar_def
      find_rule_def JobLeaseDuration_def sample_job_defs)

theorem job_table_invariant_witness: "jobs_ok (snd (claim_job ''w'' 10 0 1 2 (sample_jobs_db sample_row)))"
proof -
  have "job_step (sample_jobs_db sample_row) (sample_jobs_db sample_running)"
    by (rule job_step.claim [OF sample_claim])
  from job_table_invariant [OF r_into_rtranclp [of job_step, OF this] sample_pending_ok] show ?thesis
    by (simp add: sample_claim)
qed

theorem claim_is_exclusive_witness:
  "\<exists>j' \<in> set (db_jobs (sample_jobs_db sample_running)). holds_claim sample_job j' \<and> jr_attempt j' = 1"
  using claim_is_exclusive [OF sample_claim sample_pending_ok] by (auto simp: sample_jobs_db_def sample_row_def)

lemma sample_recover:
  "recover_stale_jobs (2 * JobLeaseDuration) (2 * JobLeaseDuration) (sample_jobs_db sample_running) =
   Inr (1, (sample_jobs_db (recover_row (2 * JobLeaseDuration) sample_running))\<lparr>db_runs :=
     close_stale_run [recover_row (2 * JobLeaseDuration) sample_running] (2 * JobLeaseDuration) ''j''
       (db_runs (sample_jobs_db sample_running))\<rparr>)"
  by (simp add: recover_stale_jobs_def recover_jobs_def stale_claim_def JobLeaseDuration_def sample_job_defs)

theorem recovery_ends_stale_claims_witness:
  "\<exists>db'. recover_stale_jobs (2 * JobLeaseDuration) (2 * JobLeaseDuration) (sample_jobs_db sample_running) = Inr (1, db') \<and>
     claim_lost sample_job db' \<and> (\<forall>r \<in> set (db_runs db'). rn_job_id r = ''j'' \<longrightarrow> rn_outcome r \<noteq> ''running'')"
proof -
  obtain db' where r: "recover_stale_jobs (2 * JobLeaseDuration) (2 * JobLeaseDuration) (sample_jobs_db sample_running) = Inr (1, db')"
    using sample_recover by blast
  have "sample_running \<in> set (db_jobs (sample_jobs_db sample_running))" by (simp add: sample_jobs_db_def)
  moreover have "stale_claim (2 * JobLeaseDuration) (2 * JobLeaseDuration) sample_running"
    by (simp add: stale_claim_def JobLeaseDuration_def sample_job_defs)
  moreover have "holds_claim sample_job sample_running" "jr_id sample_running = ''j''"
    by (simp_all add: holds_claim_def sample_job_defs)
  ultimately show ?thesis using recovery_ends_stale_claims [OF r sample_running_ok, of sample_running] r by auto
qed

theorem lost_claim_never_acts_witness:
  "\<exists>db'. recover_stale_jobs (2 * JobLeaseDuration) (2 * JobLeaseDuration) (sample_jobs_db sample_running) = Inr (1, db') \<and>
     renew_job_lease sample_job 20 0 0 0 db' = Inr (False, db')"
proof -
  let ?db = "(sample_jobs_db (recover_row (2 * JobLeaseDuration) sample_running))\<lparr>db_runs :=
     close_stale_run [recover_row (2 * JobLeaseDuration) sample_running] (2 * JobLeaseDuration) ''j''
       (db_runs (sample_jobs_db sample_running))\<rparr>"
  have lost: "claim_lost sample_job ?db"
    by (simp add: claim_lost_def holds_claim_def recover_row_def sample_job_defs)
  have ok: "jobs_ok ?db" by (rule job_step_ok [OF job_step.recover [OF sample_recover] sample_running_ok])
  from lost_claim_never_acts [OF lost ok rtranclp.rtrancl_refl] sample_recover show ?thesis by blast
qed

theorem finished_run_outcome_witness:
  "\<exists>db' j'. finish_run None ''run'' sample_job ''failed'' 20 sample_counters 0 0
       (sample_jobs_db (sample_running\<lparr>jr_stop_requested := True\<rparr>)) = Inr ((), db') \<and>
     j' \<in> set (db_jobs db') \<and> jr_state j' = ''unknown''"
proof -
  let ?j = "sample_running\<lparr>jr_stop_requested := True\<rparr>"
  obtain db' where f: "finish_run None ''run'' sample_job ''failed'' 20 sample_counters 0 0 (sample_jobs_db ?j) = Inr ((), db')"
    by (simp add: finish_run_def encrypt_preview_def lock_job_lease_def holds_claim_def after_deadline_def
        stopped_outcome_def JobLeaseDuration_def sample_job_defs)
  have ok: "jobs_ok (sample_jobs_db ?j)"
    by (rule sample_jobs_ok [OF sample_leased(3)]) (simp add: sample_running_def claim_row_def sample_row_def)
  from finished_run_outcome [OF f ok] f show ?thesis
    by (auto simp: sample_jobs_db_def sample_counters_def)
qed

theorem unknown_job_blocks_rule_witness:
  "set_rule_state ''r'' ''enabled'' None 30 (sample_jobs_db (sample_row\<lparr>jr_state := ''unknown''\<rparr>)) = Inl (Sentinel ErrNotFound)"
proof -
  let ?j = "sample_row\<lparr>jr_state := ''unknown''\<rparr>"
  have "jobs_ok (sample_jobs_db ?j)"
    by (rule sample_jobs_ok) (simp_all add: leased_def sample_row_def)
  from unknown_job_blocks_rule [OF rtranclp.rtrancl_refl this, of ?j None 30] show ?thesis
    by (simp add: sample_jobs_db_def sample_row_def)
qed

theorem one_dispatcher_per_rule_witness:
  "check_job_dispatch_lease None 20 sample_job (sample_jobs_db sample_running) = Inr () \<and>
   (\<exists>j \<in> set (db_jobs (sample_jobs_db sample_running)). holds_claim sample_job j)"
proof -
  have c: "check_job_dispatch_lease None 20 sample_job (sample_jobs_db sample_running) = Inr ()"
    by (simp add: check_job_dispatch_lease_def find_rule_def JobLeaseDuration_def sample_job_defs)
  from one_dispatcher_per_rule [OF c c refl sample_running_ok] c show ?thesis by blast
qed

definition sample_cipher :: artifact_cipher where
  "sample_cipher = \<lparr>ac_encrypt = (\<lambda>x ctx. Inr (CHR ''e'' # x)), ac_decrypt = (\<lambda>e ctx. Inr (tl e))\<rparr>"

definition sample_preview :: sync_run_preview where
  "sample_preview = \<lparr>rp_entries = [], rp_total = 0, rp_truncated = False, rp_source_revision = 0,
     rp_rule_config_version = 0, rp_target_status = ''''\<rparr>"

lemma sample_preview_json: "length (json_preview sample_preview) = 42"
  by (simp add: json_preview_def json_object_def json_member_def json_array_def json_omit_def json_bool_def
      json_string_plain plain_def plain_char_def append_int_def dec.simps sample_preview_def)

lemma sample_encrypt:
  "encrypt_preview (Some sample_cipher) ''run'' (sample_job\<lparr>jb_kind := ''dry_run''\<rparr>) ''succeeded'' (Some sample_preview) =
   Inr (Some (CHR ''e'' # json_preview sample_preview))"
proof -
  have "rp_entries sample_preview = []" by (simp add: sample_preview_def)
  then show ?thesis by (simp add: encrypt_preview_def Let_def sample_preview_json sample_cipher_def)
qed

theorem preview_roundtrip_witness:
  "\<exists>db'. finish_run (Some sample_cipher) ''run'' (sample_job\<lparr>jb_kind := ''dry_run''\<rparr>) ''succeeded'' 20
       (sample_counters\<lparr>rn_preview := Some sample_preview\<rparr>) 0 0 (sample_jobs_db sample_running) = Inr ((), db') \<and>
     get_sync_run_preview (Some sample_cipher) (\<lambda>_. Inr sample_preview) ''run'' 21 db' =
       Inr (Some sample_preview, ''available'')"
proof -
  obtain db' where f: "finish_run (Some sample_cipher) ''run'' (sample_job\<lparr>jb_kind := ''dry_run''\<rparr>) ''succeeded'' 20
       (sample_counters\<lparr>rn_preview := Some sample_preview\<rparr>) 0 0 (sample_jobs_db sample_running) = Inr ((), db')"
    by (simp add: finish_run_def sample_encrypt)
      (simp add: lock_job_lease_def holds_claim_def after_deadline_def
        stopped_outcome_def JobLeaseDuration_def sample_job_defs)
  have cipher: "\<forall>x ctx e. ac_encrypt sample_cipher x ctx = Inr e \<longrightarrow> e \<noteq> [] \<and> ac_decrypt sample_cipher e ctx = Inr x"
    by (auto simp: sample_cipher_def)
  have p: "rn_preview (sample_counters\<lparr>rn_preview := Some sample_preview\<rparr>) = Some sample_preview" by simp
  from preview_roundtrip [OF f p cipher, of "\<lambda>_. Inr sample_preview" 21] f show ?thesis
    by (simp add: preview_retention_def)
qed

definition sample_attempt :: oauth_attempt where
  "sample_attempt = \<lparr>oa_state_hash = ''h'', oa_provider = ''google'', oa_connection_id = '''', oa_mode = ''add'',
     oa_return_path = ''/'', oa_encrypted_verifier = ''v'', oa_expires_at = 50, oa_consumed_at = None\<rparr>"

theorem oauth_attempt_single_use_witness:
  "\<exists>x db1. consume_oauth_attempt ''h'' 10 (empty_db\<lparr>db_oauth_attempts := [sample_attempt]\<rparr>) = Inr (x, db1) \<and>
     consume_oauth_attempt ''h'' 11 db1 = Inl (Sentinel ErrOAuthNotConsumable)"
proof -
  obtain x db1 where c: "consume_oauth_attempt ''h'' 10 (empty_db\<lparr>db_oauth_attempts := [sample_attempt]\<rparr>) = Inr (x, db1)"
    by (simp add: consume_oauth_attempt_def sample_attempt_def)
  have "distinct (map oa_state_hash (db_oauth_attempts (empty_db\<lparr>db_oauth_attempts := [sample_attempt]\<rparr>)))" by simp
  from oauth_attempt_single_use [OF c this rtranclp.rtrancl_refl] c show ?thesis by blast
qed

end
