(* ===== verification/Sync_Mirror.thy ===== *)
theory Sync_Mirror
  imports Projection Mapping_Store Sync_Rules Sync_Jobs
begin

text \<open>
  The pure part of the sync engine, \<open>src/internal/syncengine\<close>: what kind of object an event is and
  how it is keyed, hashed and mirrored (\<open>engine.go\<close>, \<open>mirror_description.go\<close>), the order in
  which a run takes its events, the check that refuses recurring writes before anything is
  written, the conditions of a cache copy (\<open>cache_target_ownership.go\<close>,
  \<open>cache_copy_identity.go\<close>), previews, and the codes of a failed run (\<open>diagnostics.go\<close>).
\<close>

section \<open>Kinds and keys\<close>

definition object_kind :: "event_v2 \<Rightarrow> string" where
  "object_kind event =
     (if ev_instance_kind event = ''cache_instance'' then ''cache_instance''
      else if ev_instance_kind event = OrphanOccurrence then ''detached_occurrence''
      else if ev_instance_kind event = ''seriesMaster'' then ''series''
      else if ev_instance_kind event = ''exception'' then ''exception''
      else if ev_instance_kind event = ''cancelled'' then ''cancelled_occurrence''
      else if ev_recurring_event_id event \<noteq> '''' then
        (if ev_status event = ''cancelled'' then ''cancelled_occurrence'' else ''occurrence'')
      else if slice_list (ev_recurrence event) \<noteq> [] then ''series''
      else ''event'')"

definition event_original_start :: "event_v2 \<Rightarrow> string" where
  "event_original_start event =
     (case ev_original_start event of None \<Rightarrow> '''' | Some t \<Rightarrow> json_event_time t)"

text \<open>The key of an event in every map of a run.\<close>

definition event_key :: "event_v2 \<Rightarrow> string" where
  "event_key event = mapping_key (ev_id event) (event_original_start event)"

definition row_key :: "mapping \<Rightarrow> string" where
  "row_key m = mapping_key (mp_source_event_id m) (mp_original_start m)"

definition new_mapping_id :: "string \<Rightarrow> string \<Rightarrow> string \<Rightarrow> string" where
  "new_mapping_id ruleID eventID original =
     sha256_hex (mapping_key (ruleID @ NUL # eventID) original)"

definition is_plain_occurrence :: "event_v2 \<Rightarrow> bool" where
  "is_plain_occurrence event \<longleftrightarrow> ev_recurring_event_id event \<noteq> '''' \<and> ev_status event \<noteq> ''cancelled'' \<and>
     ev_instance_kind event \<noteq> ''exception'' \<and> ev_instance_kind event \<noteq> OrphanOccurrence"

definition is_series_exception :: "event_v2 \<Rightarrow> bool" where
  "is_series_exception event \<longleftrightarrow> ev_instance_kind event \<noteq> OrphanOccurrence \<and>
     ev_recurring_event_id event \<noteq> '''' \<and>
     (ev_instance_kind event = ''exception'' \<or> ev_instance_kind event = ''cancelled'' \<or>
      ev_status event = ''cancelled'')"

definition scope_for :: "event_v2 \<Rightarrow> mutation_scope" where
  "scope_for event =
     (if ev_instance_kind event = OrphanOccurrence then ScopeSeries
      else if ev_recurring_event_id event \<noteq> '''' \<or> ev_original_start event \<noteq> None then ScopeSingle
      else ScopeSeries)"

definition same_event_time :: "zonedb \<Rightarrow> event_time \<Rightarrow> event_time \<Rightarrow> bool" where
  "same_event_time db left right =
     (if is_all_day left \<or> is_all_day right then et_date left \<noteq> '''' \<and> et_date left = et_date right
      else (case (event_time_instant db left, event_time_instant db right) of
          (Inr l, Inr r) \<Rightarrow> l = r | _ \<Rightarrow> False))"

section \<open>The mirrored description (mirror_description.go)\<close>

text \<open>The bytes of a bullet and a space after a break element.\<close>

definition bullet :: string where
  "bullet = ''<br>'' @ [CHR 0xE2, CHR 0x80, CHR 0xA2, CHR 0x20]"

definition person_entry :: "unicode_case \<Rightarrow> person_v2 \<Rightarrow> (string \<times> string) option" where
  "person_entry U person =
     (let name = join_with '' '' (Go_Strings.fields (person_name person));
          email = join_with '' '' (Go_Strings.fields (person_email person)) in
      if name = '''' \<and> email = '''' then None
      else let low = to_lower U email;
               key = (if low = '''' then ''name:'' @ to_lower U name else ''email:'' @ low);
               label = (if email = '''' then name
                        else if name \<noteq> '''' then name @ '' <'' @ email @ ''>'' else email)
           in Some (key, label))"

definition add_person :: "unicode_case \<Rightarrow> person_v2 \<Rightarrow> (string \<times> string) list \<Rightarrow> (string \<times> string) list" where
  "add_person U person people = (case person_entry U person of
       None \<Rightarrow> people
     | Some (key, label) \<Rightarrow> (case map_of people key of
           None \<Rightarrow> AList.update key label people
         | Some previous \<Rightarrow> if label < previous then AList.update key label people else people))"

definition event_people :: "event_v2 \<Rightarrow> person_v2 list" where
  "event_people event =
     (case ev_organizer event of None \<Rightarrow> [] | Some p \<Rightarrow> [p]) @ map att_person (ev_attendees event)"

definition source_description :: "event_v2 \<Rightarrow> string" where
  "source_description event =
     (if equal_fold_ascii (ev_description_format event) ''html'' then ev_description event
      else lf_to_br (crlf_to_lf (html_escape (ev_description event))))"

definition people_index :: "unicode_case \<Rightarrow> person_v2 list \<Rightarrow> (string \<times> string) list" where
  "people_index U persons = foldl (\<lambda>people p. add_person U p people) [] persons"

definition mirror_description :: "unicode_case \<Rightarrow> event_v2 \<Rightarrow> string" where
  "mirror_description U event =
     (let description = source_description event;
          people = people_index U (event_people event) in
      if people = [] then description
      else description @ (if description \<noteq> '''' then ''<br><br>'' else '''') @
        (if ev_source_attendees_complete event then ''<strong>Known participants</strong>''
         else ''<strong>Known participants (list may be incomplete)</strong>'') @
        concat (map (\<lambda>key. bullet @ html_escape (the (map_of people key))) (sort (map fst people))))"

section \<open>Hashes\<close>

text \<open>\<open>json.Marshal\<close> of the untagged struct in \<open>hashEvent\<close>; a nil slice is \<open>null\<close>.\<close>

definition json_strings :: "string list option \<Rightarrow> string" where
  "json_strings s = (case s of None \<Rightarrow> ''null'' | Some xs \<Rightarrow> json_array (map json_string xs))"

definition hash_event :: "unicode_case \<Rightarrow> event_v2 \<Rightarrow> string" where
  "hash_event U event =
     (let description = (if ev_source_attendees_complete event then mirror_description U event else '''');
          data = json_object
            [json_member ''Title'' (json_string (ev_title event)),
             json_member ''Description'' (json_string description),
             json_member ''Location'' (json_string (ev_location event)),
             json_member ''Status'' (json_string (ev_status event)),
             json_member ''Visibility'' (json_string (ev_visibility event)),
             json_member ''Transparency'' (json_string (ev_transparency event)),
             json_member ''Start'' (json_event_time (ev_start event)),
             json_member ''End'' (json_event_time (ev_end event)),
             json_member ''Recurrence'' (json_strings (ev_recurrence event))]
      in sha256_hex (if ev_source_attendees_complete event then data
                     else ''incomplete-participants:'' @ data))"

definition incomplete_restore_hash :: "unicode_case \<Rightarrow> event_v2 \<Rightarrow> string" where
  "incomplete_restore_hash U event = ''pending-incomplete-restore:'' @ hash_event U event"

section \<open>The mirrored event\<close>

definition present_field :: "'a \<Rightarrow> 'a patch_field" where
  "present_field v = \<lparr>pf_present = True, pf_null = False, pf_value = Some v\<rparr>"

text \<open>\<open>append([]string(nil), s...)\<close>: a copy, nil when there is nothing to copy.\<close>

definition slice_copy :: "'a list option \<Rightarrow> 'a list option" where
  "slice_copy s = (if slice_list s = [] then None else s)"

definition google_marker :: "string \<Rightarrow> string \<Rightarrow> google_event_extension" where
  "google_marker ruleID source =
     \<lparr>ge_event_type = '''',
      ge_private_properties = Some [(''calendar_sync_rule'', ruleID), (''calendar_source_event'', source)],
      ge_shared_properties = None, ge_birthday = None, ge_focus_time = None, ge_out_of_office = None,
      ge_working_location = None, ge_locked = False, ge_private_copy = False\<rparr>"

definition mirror_create :: "unicode_case \<Rightarrow> string \<Rightarrow> event_v2 \<Rightarrow> string \<Rightarrow> event_create_v2" where
  "mirror_create U ruleID event targetProvider =
     (let orphan = (ev_instance_kind event = OrphanOccurrence) in
      \<lparr>ec_ical_uid =
         (if targetProvider = ''google'' \<and> ev_instance_kind event = ''cache_instance'' then ''''
          else if orphan
          then new_mapping_id ruleID (ev_id event) (event_original_start event) @ ''@calendar-mcp''
          else ev_ical_uid event),
       ec_title = ev_title event, ec_description = mirror_description U event,
       ec_location = ev_location event, ec_start = ev_start event, ec_end = ev_end event,
       ec_recurrence = (if orphan then None else slice_copy (ev_recurrence event)),
       ec_attendees = [], ec_reminders = None, ec_visibility = ev_visibility event,
       ec_transparency = ev_transparency event, ec_color_id = '''', ec_attachments = [],
       ec_conference = None, ec_guest_permissions = None,
       ec_google = (if targetProvider = ''google'' then Some (google_marker ruleID (ev_id event)) else None),
       ec_sync_marker = Some \<lparr>sm_rule_id = ruleID, sm_source_event_id = ev_id event\<rparr>\<rparr>)"

definition mirror_patch :: "unicode_case \<Rightarrow> event_v2 \<Rightarrow> event_patch_v2" where
  "mirror_patch U event =
     (let patch = empty_patch\<lparr>pa_title := present_field (ev_title event),
            pa_location := present_field (ev_location event), pa_start := present_field (ev_start event),
            pa_end := present_field (ev_end event),
            pa_transparency := present_field (ev_transparency event),
            pa_visibility := present_field (ev_visibility event)\<rparr>;
          patch = (if ev_source_attendees_complete event
            then patch\<lparr>pa_description := present_field (mirror_description U event)\<rparr> else patch)
      in if object_kind event = ''series''
         then patch\<lparr>pa_recurrence := present_field (slice_copy (ev_recurrence event))\<rparr> else patch)"

section \<open>Cache copies\<close>

text \<open>The ETag and the marker a mutation of a cache copy must be conditional on.\<close>

definition cache_target_conditions :: "mapping \<Rightarrow> (string \<times> sync_marker option) res" where
  "cache_target_conditions m =
     (if mp_object_kind m \<noteq> ''cache_instance'' then Inr ('''', None)
      else if mp_rule_id m = '''' \<or> mp_source_event_id m = '''' \<or> mp_target_etag m = ''''
      then Inl (Sentinel ErrCacheTargetUnverified)
      else Inr (mp_target_etag m,
        Some \<lparr>sm_rule_id = mp_rule_id m, sm_source_event_id = mp_source_event_id m\<rparr>))"

definition verified_cache_target :: "event_v2 option \<Rightarrow> string \<Rightarrow> string \<Rightarrow> string \<Rightarrow> bool" where
  "verified_cache_target event targetID ruleID sourceID = (case event of
       None \<Rightarrow> False
     | Some e \<Rightarrow>
         if ev_id e = '''' \<or> (targetID \<noteq> '''' \<and> ev_id e \<noteq> targetID) \<or> ev_etag e = '''' then False
         else (case ev_google e of
             None \<Rightarrow> False
           | Some g \<Rightarrow> ge_private_properties g \<noteq> None \<and>
               map_index (ge_private_properties g) ''calendar_sync_rule'' = ruleID \<and>
               map_index (ge_private_properties g) ''calendar_source_event'' = sourceID))"

definition cache_copy_create ::
  "unicode_case \<Rightarrow> zonedb \<Rightarrow> string \<Rightarrow> string \<Rightarrow> event_v2 \<Rightarrow> string \<Rightarrow> event_create_v2 res" where
  "cache_copy_create U db ruleID sourceCalendarID event targetProvider =
     (if ruleID = '''' \<or> NUL \<in> set ruleID then Inl (ErrText ''rule ID is required'')
      else bind_res (identity db sourceCalendarID event) (\<lambda>ident.
        if ev_status event = ''cancelled'' then Inl (ErrText ''cancelled events cannot be created'')
        else bind_res (map_err (ErrWrap ''invalid source event time'')
               (validate_event_time_range_v2 db (ev_start event) (ev_end event))) (\<lambda>_.
          let marker = new_mapping_id ruleID ident '''' in
          Inr ((mirror_create U ruleID event targetProvider)
            \<lparr>ec_ical_uid := (if targetProvider = ''google'' then '''' else marker @ ''@calendar-mcp''),
             ec_recurrence := None, ec_attendees := [],
             ec_sync_marker := Some \<lparr>sm_rule_id = ruleID, sm_source_event_id = marker\<rparr>,
             ec_google := (if targetProvider = ''google'' then Some (google_marker ruleID marker)
                           else ec_google (mirror_create U ruleID event targetProvider))\<rparr>))))"

section \<open>The order of a run\<close>

definition event_priority :: "event_v2 \<Rightarrow> nat" where
  "event_priority event =
     (if object_kind event = ''series'' then 0 else if is_series_exception event then 1 else 2)"

definition incomplete_keys :: "event_v2 list \<Rightarrow> string list" where
  "incomplete_keys events = map event_key (filter (\<lambda>e. \<not> ev_source_attendees_complete e) events)"

text \<open>One pass of the loop over the events of one priority; \<open>seen\<close> and \<open>ordered\<close> are kept.\<close>

fun take_priority ::
  "nat \<Rightarrow> string list \<Rightarrow> event_v2 list \<Rightarrow> string list \<times> event_v2 list \<Rightarrow> string list \<times> event_v2 list" where
  "take_priority priority incomplete [] st = st"
| "take_priority priority incomplete (event # events) (seen, ordered) =
     (if event_priority event \<noteq> priority then take_priority priority incomplete events (seen, ordered)
      else if event_key event \<in> set seen then take_priority priority incomplete events (seen, ordered)
      else take_priority priority incomplete events (event_key event # seen,
        ordered @ [if event_key event \<in> set incomplete
                   then event\<lparr>ev_source_attendees_complete := False\<rparr> else event]))"

definition deduplicate_and_order :: "event_v2 list \<Rightarrow> event_v2 list" where
  "deduplicate_and_order events =
     snd (foldl (\<lambda>st priority. take_priority priority (incomplete_keys events) events st) ([], []) [0, 1, 2])"

definition index_occurrences :: "event_v2 list \<Rightarrow> (string \<times> event_v2) list" where
  "index_occurrences events =
     foldl (\<lambda>m e. if is_plain_occurrence e
                  then AList.update (mapping_key (ev_recurring_event_id e) (event_original_start e)) e m
                  else m) [] events"

text \<open>
  The mapping of a source series.  Go ranges over the map in no fixed order; the code relies on at
  most one row per source event, and the model takes the first.
\<close>

definition find_series_mapping :: "(string \<times> mapping) list \<Rightarrow> string \<Rightarrow> mapping option" where
  "find_series_mapping byKey sourceSeriesID =
     find (\<lambda>m. mp_object_kind m = ''series'' \<and> mp_source_event_id m = sourceSeriesID) (map snd byKey)"

section \<open>The recurrence preflight\<close>

definition event_writes :: "unicode_case \<Rightarrow> mapping option \<Rightarrow> event_v2 \<Rightarrow> bool" where
  "event_writes U mapped event =
     (is_series_exception event \<or>
      (case mapped of
         None \<Rightarrow> ev_status event \<noteq> ''cancelled''
       | Some m \<Rightarrow> ev_status event = ''cancelled'' \<or> mp_content_hash m \<noteq> hash_event U event))"

definition preflight_mapping :: "(string \<times> mapping) list \<Rightarrow> event_v2 \<Rightarrow> mapping option" where
  "preflight_mapping byKey event = (case map_of byKey (event_key event) of
       None \<Rightarrow> None
     | Some m \<Rightarrow> if mp_reconciliation_state m = ''pending_create'' \<and> ev_status event \<noteq> ''cancelled''
                then None else Some m)"

definition event_unsafe :: "unicode_case \<Rightarrow> (string \<times> mapping) list \<Rightarrow> event_v2 \<Rightarrow> bool" where
  "event_unsafe U byKey event =
     (\<not> is_plain_occurrence event \<and> event_writes U (preflight_mapping byKey event) event \<and>
      (object_kind event = ''series'' \<or> is_series_exception event \<or>
       (case preflight_mapping byKey event of
          None \<Rightarrow> False
        | Some m \<Rightarrow> mp_object_kind m = ''series'' \<or> mp_object_kind m = ''exception'')))"

definition restore_unsafe :: "unicode_case \<Rightarrow> event_v2 list \<Rightarrow> mapping \<Rightarrow> bool" where
  "restore_unsafe U events m =
     (row_key m \<notin> set (map event_key (filter (\<lambda>e. \<not> is_plain_occurrence e) events)) \<and>
      mp_object_kind m = ''exception'' \<and>
      (case map_of (index_occurrences events) (mapping_key (mp_source_series_id m) (mp_original_start m)) of
         None \<Rightarrow> False
       | Some occurrence \<Rightarrow> \<not> (\<not> ev_source_attendees_complete occurrence \<and>
           mp_content_hash m = incomplete_restore_hash U occurrence)))"

definition preflight_safe_recurrence ::
  "unicode_case \<Rightarrow> event_v2 list \<Rightarrow> (string \<times> mapping) list \<Rightarrow> mapping list \<Rightarrow> unit res" where
  "preflight_safe_recurrence U events byKey existing =
     (if list_ex (event_unsafe U byKey) events \<or> list_ex (restore_unsafe U events) existing
      then Inl (Sentinel ErrUnsafeRecurringSync) else Inr ())"

section \<open>Results and previews\<close>

record sync_result =
  sr_created :: int
  sr_updated :: int
  sr_deleted :: int
  sr_skipped :: int
  sr_warnings :: int
  sr_detached_series :: int
  sr_participants_incomplete :: int
  sr_preview :: "sync_run_preview option"

definition zero_result :: sync_result where
  "zero_result = \<lparr>sr_created = 0, sr_updated = 0, sr_deleted = 0, sr_skipped = 0, sr_warnings = 0,
     sr_detached_series = 0, sr_participants_incomplete = 0, sr_preview = None\<rparr>"

definition empty_preview :: sync_run_preview where
  "empty_preview = \<lparr>rp_entries = [], rp_total = 0, rp_truncated = False, rp_source_revision = 0,
     rp_rule_config_version = 0, rp_target_status = ''''\<rparr>"

text \<open>\<open>string([]rune(title)[:512])\<close>: decoded, cut and encoded again.\<close>

definition preview_title :: "string \<Rightarrow> string" where
  "preview_title title = utf8_encode (take 512 (utf8_decode title))"

definition preview_start :: "event_v2 \<Rightarrow> event_time" where
  "preview_start event =
     (if et_date (ev_start event) = '''' \<and> et_date_time (ev_start event) = ''''
      then (case ev_original_start event of None \<Rightarrow> ev_start event | Some t \<Rightarrow> t) else ev_start event)"

definition preview_action ::
  "event_v2 \<Rightarrow> string \<Rightarrow> string \<Rightarrow> string \<Rightarrow> sync_run_preview option \<Rightarrow> sync_run_preview option" where
  "preview_action event action reason targetStatus preview = map_option (\<lambda>p.
     let p = p\<lparr>rp_total := rp_total p + 1\<rparr> in
     if 1000 \<le> length (rp_entries p) then p\<lparr>rp_truncated := True\<rparr>
     else p\<lparr>rp_entries := rp_entries p @
       [\<lparr>pe_action = action, pe_title = preview_title (ev_title event), pe_start = preview_start event,
         pe_kind = object_kind event, pe_reason = reason, pe_target_status = targetStatus\<rparr>]\<rparr>) preview"

section \<open>Codes of a failed run (diagnostics.go)\<close>

text \<open>
  What \<open>errors.As\<close> and \<open>errors.Is\<close> find of the types of other modules: the status of a
  Google API error, the code and status of an OAuth error, an interrupted context.
\<close>

record error_view =
  xv_google_status :: "err \<Rightarrow> int option"
  xv_oauth :: "err \<Rightarrow> (string \<times> int option) option"
  xv_interrupted :: "err \<Rightarrow> bool"

primrec has_lease_stage :: "err \<Rightarrow> bool" where
  "has_lease_stage (ErrText m) = False"
| "has_lease_stage (ErrWrap m e) = has_lease_stage e"
| "has_lease_stage (ErrJoin e f) = (has_lease_stage e \<or> has_lease_stage f)"
| "has_lease_stage (Sentinel t) = False"
| "has_lease_stage (ErrExt m) = False"
| "has_lease_stage (ErrAPI c e) = has_lease_stage e"
| "has_lease_stage (ErrNoDispatch e) = has_lease_stage e"
| "has_lease_stage (ErrRecurrenceCompat e) = has_lease_stage e"
| "has_lease_stage (ErrFailure st e) = (st = ''job_lease'' \<or> has_lease_stage e)"
| "has_lease_stage (ErrEventSync c r e) = has_lease_stage e"
| "has_lease_stage NoReturn = False"

primrec has_recurrence_compat :: "err \<Rightarrow> bool" where
  "has_recurrence_compat (ErrText m) = False"
| "has_recurrence_compat (ErrWrap m e) = has_recurrence_compat e"
| "has_recurrence_compat (ErrJoin e f) = (has_recurrence_compat e \<or> has_recurrence_compat f)"
| "has_recurrence_compat (Sentinel t) = False"
| "has_recurrence_compat (ErrExt m) = False"
| "has_recurrence_compat (ErrAPI c e) = has_recurrence_compat e"
| "has_recurrence_compat (ErrNoDispatch e) = has_recurrence_compat e"
| "has_recurrence_compat (ErrRecurrenceCompat e) = True"
| "has_recurrence_compat (ErrFailure st e) = has_recurrence_compat e"
| "has_recurrence_compat (ErrEventSync c r e) = has_recurrence_compat e"
| "has_recurrence_compat NoReturn = False"

text \<open>The first \<open>Failure\<close> and the first \<open>APIError\<close> of the chain.\<close>

primrec failure_stage :: "err \<Rightarrow> string option" where
  "failure_stage (ErrText m) = None"
| "failure_stage (ErrWrap m e) = failure_stage e"
| "failure_stage (ErrJoin e f) = (case failure_stage e of None \<Rightarrow> failure_stage f | Some s \<Rightarrow> Some s)"
| "failure_stage (Sentinel t) = None"
| "failure_stage (ErrExt m) = None"
| "failure_stage (ErrAPI c e) = failure_stage e"
| "failure_stage (ErrNoDispatch e) = failure_stage e"
| "failure_stage (ErrRecurrenceCompat e) = failure_stage e"
| "failure_stage (ErrFailure st e) = Some st"
| "failure_stage (ErrEventSync c r e) = failure_stage e"
| "failure_stage NoReturn = None"

primrec api_code :: "err \<Rightarrow> string option" where
  "api_code (ErrText m) = None"
| "api_code (ErrWrap m e) = api_code e"
| "api_code (ErrJoin e f) = (case api_code e of None \<Rightarrow> api_code f | Some s \<Rightarrow> Some s)"
| "api_code (Sentinel t) = None"
| "api_code (ErrExt m) = None"
| "api_code (ErrAPI c e) = Some c"
| "api_code (ErrNoDispatch e) = api_code e"
| "api_code (ErrRecurrenceCompat e) = api_code e"
| "api_code (ErrFailure st e) = api_code e"
| "api_code (ErrEventSync c r e) = api_code e"
| "api_code NoReturn = None"

definition failure_status :: "error_view \<Rightarrow> err \<Rightarrow> int" where
  "failure_status V e =
     (let status = (case xv_google_status V e of
            Some c \<Rightarrow> c
          | None \<Rightarrow> (case xv_oauth V e of
                Some (code, st) \<Rightarrow> if code = ''invalid_grant'' then 401
                  else (case st of None \<Rightarrow> 0 | Some c \<Rightarrow> c)
              | None \<Rightarrow> 0))
      in case api_code e of
           None \<Rightarrow> status
         | Some c \<Rightarrow>
             if c = ''permission_denied'' then 403
             else if c = ''rate_limited'' then 429
             else if c = ''provider_unavailable'' then 503
             else status)"

definition source_status_code :: "int \<Rightarrow> string option" where
  "source_status_code status =
     (if status = 401 then Some ''sync_source_auth''
      else if status = 403 then Some ''sync_source_permission''
      else if status = 404 \<or> status = 410 then Some ''sync_source_not_found''
      else if status = 429 then Some ''sync_source_rate_limit''
      else if 500 \<le> status \<and> status \<le> 599 then Some ''sync_source_unavailable''
      else None)"

definition provider_status_code :: "int \<Rightarrow> string option" where
  "provider_status_code status =
     (if status = 401 then Some ''sync_provider_auth''
      else if status = 403 then Some ''sync_provider_permission''
      else if status = 429 then Some ''sync_provider_rate_limit''
      else if 500 \<le> status \<and> status \<le> 599 then Some ''sync_provider_unavailable''
      else None)"

definition stage_code :: "string \<Rightarrow> string" where
  "stage_code stage =
     (if stage = ''rule_validation'' then ''sync_rule_invalid''
      else if stage = ''source_selection'' then ''sync_source_selection''
      else if stage = ''target_selection'' then ''sync_target_selection''
      else if stage = ''capabilities'' then ''sync_capabilities''
      else if stage = ''source_read'' then ''sync_source_read''
      else if stage = ''mappings'' then ''sync_mappings''
      else if stage = ''recurrence'' then ''sync_recurrence_check''
      else if stage = ''reconciliation'' then ''sync_reconciliation''
      else if stage = ''provider_setup'' then ''sync_provider_setup''
      else if stage = ''job_lease'' then ''sync_job_lease''
      else ''sync_failed'')"

definition failure_code :: "error_view \<Rightarrow> err \<Rightarrow> string" where
  "failure_code V e =
     (if err_is e ErrExclusiveDispatchConflict then ''sync_dispatch_blocked''
      else if err_is e ErrProjectionSnapshotUnavailable then ''sync_cache_unavailable''
      else if has_lease_stage e then ''sync_job_lease''
      else if has_recurrence_compat e then ''recurrence_unsupported''
      else if err_is e ErrMissingSeriesMapping then ''sync_missing_series_mapping''
      else if err_is e ErrUnsafeRecurringSync then ''sync_unsafe_recurring''
      else if xv_interrupted V e then ''sync_interrupted''
      else
        let stage = (case failure_stage e of None \<Rightarrow> '''' | Some s \<Rightarrow> s);
            status = failure_status V e in
        case (if stage = ''source_read'' then source_status_code status else None) of
          Some c \<Rightarrow> c
        | None \<Rightarrow> (case provider_status_code status of Some c \<Rightarrow> c | None \<Rightarrow> stage_code stage))"

definition failure_messages :: "(string \<times> string) list" where
  "failure_messages =
     [(''sync_dispatch_blocked'', ''Synchronization is blocked by an existing dispatch reservation. Check its status before retrying.''),
      (''sync_cache_unavailable'', ''The source cache is unavailable, stale, incomplete, or does not cover the requested window.''),
      (''recurrence_unsupported'', ''Target calendar cannot preserve this recurrence pattern; the rule remains paused.''),
      (''sync_missing_series_mapping'', ''A recurring event exception has no matching series in the sync mapping.''),
      (''sync_unsafe_recurring'', ''This direct rule cannot safely mirror recurring events. Cached individual-events mode may be available for supported calendars.''),
      (''sync_interrupted'', ''The sync run was interrupted or timed out.''),
      (''sync_source_auth'', ''The source calendar provider rejected authentication.''),
      (''sync_source_permission'', ''The provider denied access while reading the source calendar.''),
      (''sync_source_not_found'', ''The source calendar or a required source event was not found.''),
      (''sync_source_rate_limit'', ''The source calendar provider rate-limited the request.''),
      (''sync_source_unavailable'', ''The source calendar provider was temporarily unavailable.''),
      (''sync_provider_auth'', ''A calendar provider rejected authentication.''),
      (''sync_provider_permission'', ''A calendar provider denied access.''),
      (''sync_provider_rate_limit'', ''A calendar provider rate-limited the request.''),
      (''sync_provider_unavailable'', ''A calendar provider was temporarily unavailable.''),
      (''sync_rule_invalid'', ''The sync rule configuration is invalid.''),
      (''sync_source_selection'', ''The source calendar could not be selected.''),
      (''sync_target_selection'', ''The destination calendar could not be selected.''),
      (''sync_capabilities'', ''A calendar does not support the required sync operations.''),
      (''sync_source_read'', ''The source calendar could not be read.''),
      (''sync_mappings'', ''The sync mappings could not be read.''),
      (''sync_recurrence_check'', ''Recurring events could not be checked.''),
      (''sync_reconciliation'', ''Events could not be reconciled with the destination calendar.''),
      (''sync_provider_setup'', ''The calendar provider connection could not be initialized.''),
      (''sync_job_lease'', ''The sync worker could not retain the job lease.'')]"

definition failure_message :: "string \<Rightarrow> string" where
  "failure_message code = (case map_of failure_messages code of
       Some m \<Rightarrow> m
     | None \<Rightarrow> ''Run failed; inspect server logs for details.'')"

section \<open>Facts about the order of a run\<close>

definition mark_incomplete :: "string list \<Rightarrow> event_v2 \<Rightarrow> event_v2" where
  "mark_incomplete incomplete event =
     (if event_key event \<in> set incomplete then event\<lparr>ev_source_attendees_complete := False\<rparr> else event)"

lemma complete_update_same [simp]:
  "event_key (event\<lparr>ev_source_attendees_complete := b\<rparr>) = event_key event"
  "object_kind (event\<lparr>ev_source_attendees_complete := b\<rparr>) = object_kind event"
  "is_series_exception (event\<lparr>ev_source_attendees_complete := b\<rparr>) = is_series_exception event"
  "is_plain_occurrence (event\<lparr>ev_source_attendees_complete := b\<rparr>) = is_plain_occurrence event"
  "event_priority (event\<lparr>ev_source_attendees_complete := b\<rparr>) = event_priority event"
  by (simp_all add: event_key_def event_original_start_def object_kind_def is_series_exception_def
      is_plain_occurrence_def event_priority_def)

lemma mark_incomplete_same [simp]:
  "event_key (mark_incomplete inc event) = event_key event"
  "event_priority (mark_incomplete inc event) = event_priority event"
  "ev_status (mark_incomplete inc event) = ev_status event"
  "ev_id (mark_incomplete inc event) = ev_id event"
  by (simp_all add: mark_incomplete_def)

lemma sorted_map_const: "\<forall>x \<in> set xs. f x = (c :: nat) \<Longrightarrow> sorted (map f xs)"
  by (induction xs) auto

lemma event_priority_le: "event_priority event \<le> 2"
  by (simp add: event_priority_def)

lemma take_priority_spec:
  assumes "take_priority p inc events (seen, ordered) = (seen', ordered')"
    and "set seen = event_key ` set ordered" and "distinct (map event_key ordered)"
  shows "set seen' = event_key ` set ordered'" "distinct (map event_key ordered')"
    "set seen' = set seen \<union> event_key ` {e \<in> set events. event_priority e = p}"
    "\<exists>news. ordered' = ordered @ news \<and>
       (\<forall>e \<in> set news. event_priority e = p \<and> event_key e \<notin> set seen \<and>
          (\<exists>e0 \<in> set events. e = mark_incomplete inc e0))"
proof -
  have "set seen' = event_key ` set ordered' \<and> distinct (map event_key ordered') \<and>
    set seen' = set seen \<union> event_key ` {e \<in> set events. event_priority e = p} \<and>
    (\<exists>news. ordered' = ordered @ news \<and>
       (\<forall>e \<in> set news. event_priority e = p \<and> event_key e \<notin> set seen \<and>
          (\<exists>e0 \<in> set events. e = mark_incomplete inc e0)))"
    using assms
  proof (induction events arbitrary: seen ordered)
    case Nil
    then show ?case by simp
  next
    case (Cons event events)
    show ?case
    proof (cases "event_priority event \<noteq> p \<or> event_key event \<in> set seen")
      case True
      then have "take_priority p inc events (seen, ordered) = (seen', ordered')"
        using Cons.prems(1) by (auto split: if_splits)
      note ih = Cons.IH [OF this Cons.prems(2,3)]
      have "set seen \<union> event_key ` {e \<in> set (event # events). event_priority e = p} =
          set seen \<union> event_key ` {e \<in> set events. event_priority e = p}"
        using True by auto
      moreover have "\<exists>news. ordered' = ordered @ news \<and>
         (\<forall>e \<in> set news. event_priority e = p \<and> event_key e \<notin> set seen \<and>
            (\<exists>e0 \<in> set (event # events). e = mark_incomplete inc e0))"
      proof -
        obtain news where "ordered' = ordered @ news" "\<forall>e \<in> set news. event_priority e = p \<and>
          event_key e \<notin> set seen \<and> (\<exists>e0 \<in> set events. e = mark_incomplete inc e0)"
          using ih by blast
        then show ?thesis by (intro exI [of _ news]) auto
      qed
      ultimately show ?thesis using ih by (metis (no_types, lifting))
    next
      case False
      let ?e = "mark_incomplete inc event"
      have run: "take_priority p inc events (event_key event # seen, ordered @ [?e]) = (seen', ordered')"
        using Cons.prems(1) False by (simp add: mark_incomplete_def)
      have "set (event_key event # seen) = event_key ` set (ordered @ [?e])"
        using Cons.prems(2) by simp
      moreover have "distinct (map event_key (ordered @ [?e]))"
        using Cons.prems(2,3) False by simp
      ultimately have ih: "set seen' = event_key ` set ordered' \<and> distinct (map event_key ordered') \<and>
        set seen' = set (event_key event # seen) \<union> event_key ` {e \<in> set events. event_priority e = p} \<and>
        (\<exists>news. ordered' = (ordered @ [?e]) @ news \<and>
           (\<forall>e \<in> set news. event_priority e = p \<and> event_key e \<notin> set (event_key event # seen) \<and>
              (\<exists>e0 \<in> set events. e = mark_incomplete inc e0)))"
        by (rule Cons.IH [OF run])
      then obtain news where news: "ordered' = (ordered @ [?e]) @ news"
        "\<forall>e \<in> set news. event_priority e = p \<and> event_key e \<notin> set (event_key event # seen) \<and>
              (\<exists>e0 \<in> set events. e = mark_incomplete inc e0)"
        by blast
      have "ordered' = ordered @ (?e # news)" using news(1) by simp
      moreover have "\<forall>e \<in> set (?e # news). event_priority e = p \<and> event_key e \<notin> set seen \<and>
              (\<exists>e0 \<in> set (event # events). e = mark_incomplete inc e0)"
        using news(2) False by auto
      ultimately have ex: "\<exists>news. ordered' = ordered @ news \<and>
         (\<forall>e \<in> set news. event_priority e = p \<and> event_key e \<notin> set seen \<and>
            (\<exists>e0 \<in> set (event # events). e = mark_incomplete inc e0))"
        by blast
      have "{e \<in> set (event # events). event_priority e = p} =
          insert event {e \<in> set events. event_priority e = p}" using False by auto
      then have "set (event_key event # seen) \<union> event_key ` {e \<in> set events. event_priority e = p} =
          set seen \<union> event_key ` {e \<in> set (event # events). event_priority e = p}" by auto
      then show ?thesis using ih ex by (metis (no_types, lifting))
    qed
  qed
  then show "set seen' = event_key ` set ordered'" "distinct (map event_key ordered')"
    "set seen' = set seen \<union> event_key ` {e \<in> set events. event_priority e = p}"
    "\<exists>news. ordered' = ordered @ news \<and>
       (\<forall>e \<in> set news. event_priority e = p \<and> event_key e \<notin> set seen \<and>
          (\<exists>e0 \<in> set events. e = mark_incomplete inc e0))"
    by blast+
qed

lemma deduplicated_events_aux:
  "let out = deduplicate_and_order events in
    distinct (map event_key out) \<and>
    event_key ` set out = event_key ` set events \<and>
    sorted (map event_priority out) \<and>
    (\<forall>e \<in> set out. (\<exists>e0 \<in> set events. e = mark_incomplete (incomplete_keys events) e0) \<and>
       (\<forall>e0 \<in> set events. event_key e0 = event_key e \<longrightarrow> event_priority e \<le> event_priority e0 \<and>
          (ev_source_attendees_complete e \<longrightarrow> ev_source_attendees_complete e0)))"
proof -
  let ?inc = "incomplete_keys events"
  let ?K = "\<lambda>p. event_key ` {e \<in> set events. event_priority e = p}"
  obtain s0 o0 where r0: "take_priority 0 ?inc events ([], []) = (s0, o0)" by fastforce
  obtain s1 o1 where r1: "take_priority 1 ?inc events (s0, o0) = (s1, o1)" by fastforce
  obtain s2 o2 where r2: "take_priority 2 ?inc events (s1, o1) = (s2, o2)" by fastforce
  have out: "deduplicate_and_order events = o2" using r0 r1 r2 by (simp add: deduplicate_and_order_def)
  have t0: "set s0 = event_key ` set o0" "distinct (map event_key o0)" "set s0 = ?K 0"
    "\<forall>e \<in> set o0. event_priority e = 0 \<and> (\<exists>e0 \<in> set events. e = mark_incomplete ?inc e0)"
    using take_priority_spec [OF r0] by auto
  note a1 = take_priority_spec [OF r1 t0(1,2)]
  obtain n1 where n1: "o1 = o0 @ n1" "\<forall>e \<in> set n1. event_priority e = 1 \<and> event_key e \<notin> set s0 \<and>
      (\<exists>e0 \<in> set events. e = mark_incomplete ?inc e0)" using a1(4) by blast
  note a2 = take_priority_spec [OF r2 a1(1,2)]
  obtain n2 where n2: "o2 = o1 @ n2" "\<forall>e \<in> set n2. event_priority e = 2 \<and> event_key e \<notin> set s1 \<and>
      (\<exists>e0 \<in> set events. e = mark_incomplete ?inc e0)" using a2(4) by blast
  have s1: "set s1 = ?K 0 \<union> ?K 1" using a1(3) t0(3) by simp
  have s2: "set s2 = ?K 0 \<union> ?K 1 \<union> ?K 2" using a2(3) s1 by simp
  have "event_priority e = 0 \<or> event_priority e = 1 \<or> event_priority e = 2" for e
    using event_priority_le [of e] by auto
  then have "set s2 = event_key ` set events" unfolding s2 by auto
  then have keys: "event_key ` set o2 = event_key ` set events" using a2(1) by simp
  have o2: "o2 = o0 @ n1 @ n2" using n1(1) n2(1) by simp
  have srt: "sorted (map event_priority o2)"
    unfolding o2 using t0(4) n1(2) n2(2) by (auto simp: sorted_append intro!: sorted_map_const)
  have each: "(\<exists>e0 \<in> set events. e = mark_incomplete ?inc e0) \<and>
      (\<forall>e0 \<in> set events. event_key e0 = event_key e \<longrightarrow> event_priority e \<le> event_priority e0 \<and>
         (ev_source_attendees_complete e \<longrightarrow> ev_source_attendees_complete e0))" if e: "e \<in> set o2" for e
  proof -
    obtain e1 where e1: "e1 \<in> set events" "e = mark_incomplete ?inc e1"
      using e t0(4) n1(2) n2(2) unfolding o2 by auto
    have low: "event_priority e \<le> event_priority e0" if h: "e0 \<in> set events" "event_key e0 = event_key e" for e0
    proof -
      have "event_priority e = 0 \<or> event_priority e = 1 \<and> event_key e \<notin> ?K 0 \<or>
          event_priority e = 2 \<and> event_key e \<notin> ?K 0 \<union> ?K 1"
        using e t0(4) n1(2) n2(2) unfolding o2 s1 t0(3) by auto
      moreover have "event_key e \<in> ?K (event_priority e0)"
        by (rule image_eqI [of _ _ e0]) (simp_all add: h)
      ultimately show ?thesis
        using \<open>\<And>e. event_priority e = 0 \<or> event_priority e = 1 \<or> event_priority e = 2\<close> [of e0]
        by (elim disjE) simp_all
    qed
    have complete: "ev_source_attendees_complete e0"
      if "e0 \<in> set events" "event_key e0 = event_key e" "ev_source_attendees_complete e" for e0
    proof (rule ccontr)
      assume "\<not> ev_source_attendees_complete e0"
      then have "event_key e0 \<in> set ?inc" using that(1) by (auto simp: incomplete_keys_def)
      moreover have "event_key e0 = event_key e1" using that(2) unfolding e1(2) by simp
      ultimately have "event_key e1 \<in> set ?inc" by (simp only:)
      then have "\<not> ev_source_attendees_complete (mark_incomplete ?inc e1)"
        by (simp add: mark_incomplete_def)
      then show False using that(3) unfolding e1(2) by blast
    qed
    have "\<exists>e0 \<in> set events. e = mark_incomplete ?inc e0" using e1 by blast
    moreover have "\<forall>e0 \<in> set events. event_key e0 = event_key e \<longrightarrow> event_priority e \<le> event_priority e0 \<and>
         (ev_source_attendees_complete e \<longrightarrow> ev_source_attendees_complete e0)"
      using low complete by blast
    ultimately show ?thesis by (rule conjI)
  qed
  show ?thesis unfolding out Let_def
    by (rule conjI [OF a2(2) conjI [OF keys conjI [OF srt ballI [OF each]]]])
qed

lemma dedup_origin:
  "e \<in> set (deduplicate_and_order events) \<Longrightarrow> \<exists>e0 \<in> set events. e = mark_incomplete (incomplete_keys events) e0"
  using deduplicated_events_aux [of events] unfolding Let_def by blast

lemma dedup_keys: "distinct (map event_key (deduplicate_and_order events))"
  using deduplicated_events_aux [of events] unfolding Let_def by blast

text \<open>
  A run takes every source object once: the events it goes through have distinct keys, the
  same keys as the events listed, series before exceptions before everything else; each is a
  listed event of the lowest priority with its key, and counts as having a complete attendee list
  only if every listed event with its key does.
\<close>

theorem deduplicated_events:
  "let out = deduplicate_and_order events in
    distinct (map event_key out) \<and>
    event_key ` set out = event_key ` set events \<and>
    sorted (map event_priority out) \<and>
    (\<forall>e \<in> set out. (\<exists>e0 \<in> set events. e = mark_incomplete (incomplete_keys events) e0) \<and>
       (\<forall>e0 \<in> set events. event_key e0 = event_key e \<longrightarrow> event_priority e \<le> event_priority e0 \<and>
          (ev_source_attendees_complete e \<longrightarrow> ev_source_attendees_complete e0)))"
  by (rule deduplicated_events_aux)

definition sample_source_event :: "string \<Rightarrow> event_v2" where
  "sample_source_event i = zero_event\<lparr>ev_id := i, ev_status := ''confirmed''\<rparr>"

lemmas kind_defs = object_kind_def event_key_def event_original_start_def is_plain_occurrence_def
  is_series_exception_def event_priority_def OrphanOccurrence_def slice_list_def

theorem deduplicated_events_witness:
  "let a = (sample_source_event ''a'')\<lparr>ev_source_attendees_complete := True\<rparr>; b = sample_source_event ''a'';
       s = (sample_source_event ''s'')\<lparr>ev_recurrence := Some [''RRULE:FREQ=DAILY'']\<rparr>;
       out = deduplicate_and_order [a, s, b] in
   out = [s, b] \<and> event_key ` set out = event_key ` set [a, s, b]"
proof -
  let ?a = "(sample_source_event ''a'')\<lparr>ev_source_attendees_complete := True\<rparr>"
  let ?s = "(sample_source_event ''s'')\<lparr>ev_recurrence := Some [''RRULE:FREQ=DAILY'']\<rparr>"
  have "deduplicate_and_order [?a, ?s, sample_source_event ''a''] = [?s, sample_source_event ''a'']"
    by (simp add: deduplicate_and_order_def incomplete_keys_def kind_defs sample_source_event_def
        zero_event_def mapping_key_def)
  then show ?thesis
    using deduplicated_events [of "[?a, ?s, sample_source_event ''a'']"] by (simp only: Let_def)
qed

section \<open>Facts about the mirrored description\<close>

lemma add_person_distinct:
  "distinct (map fst people) \<Longrightarrow> distinct (map fst (add_person U p people))"
  by (auto simp: add_person_def distinct_update split: option.splits)

lemma people_index_append:
  "people_index U (ps @ [p]) = add_person U p (people_index U ps)"
  by (simp add: people_index_def)

lemma people_index_distinct: "distinct (map fst (people_index U ps))"
  by (induction ps rule: rev_induct) (simp_all add: people_index_append add_person_distinct people_index_def [of _ "[]"])

text \<open>The labels that people give under a key; the index keeps the least of them.\<close>

definition labels_of :: "unicode_case \<Rightarrow> person_v2 set \<Rightarrow> string \<Rightarrow> string set" where
  "labels_of U ps key = {label. \<exists>p \<in> ps. person_entry U p = Some (key, label)}"

lemma labels_of_insert:
  "labels_of U (insert p ps) key =
     (case person_entry U p of
        Some (k, label) \<Rightarrow> if k = key then insert label (labels_of U ps key) else labels_of U ps key
      | None \<Rightarrow> labels_of U ps key)"
  by (auto simp: labels_of_def split: option.splits)

lemma labels_of_finite: "finite (labels_of U (set ps) key)"
proof -
  have "labels_of U (set ps) key \<subseteq> (\<lambda>p. snd (the (person_entry U p))) ` set ps"
    by (force simp: labels_of_def)
  then show ?thesis by (rule finite_subset) simp
qed

lemma people_index_lookup:
  "map_of (people_index U ps) key =
     (if labels_of U (set ps) key = {} then None else Some (Min (labels_of U (set ps) key)))"
proof (induction ps rule: rev_induct)
  case Nil
  then show ?case by (simp add: people_index_def labels_of_def)
next
  case (snoc p ps)
  show ?case
  proof (cases "person_entry U p")
    case None
    then show ?thesis using snoc by (simp add: people_index_append add_person_def labels_of_insert)
  next
    case (Some kl)
    obtain k label where kl: "kl = (k, label)" by fastforce
    show ?thesis
    proof (cases "k = key")
      case False
      then show ?thesis using snoc Some kl
        by (auto simp: people_index_append add_person_def labels_of_insert split: option.splits)
    next
      case True
      let ?L = "labels_of U (set ps) key"
      have L: "labels_of U (set (ps @ [p])) key = insert label ?L"
        using Some kl True by (simp add: labels_of_insert)
      show ?thesis
      proof (cases "?L = {}")
        case empty: True
        then show ?thesis unfolding L using snoc Some kl True
          by (simp add: people_index_append add_person_def)
      next
        case ne: False
        have "Min (insert label ?L) = min label (Min ?L)" using labels_of_finite ne by (rule Min_insert)
        then show ?thesis unfolding L using snoc Some kl True ne
          by (auto simp: people_index_append add_person_def min_def)
      qed
    qed
  qed
qed

lemma people_index_keys: "set (map fst (people_index U ps)) = {key. labels_of U (set ps) key \<noteq> {}}"
proof (rule set_eqI)
  fix key
  have "(map_of (people_index U ps) key = None) = (labels_of U (set ps) key = {})"
    by (cases "labels_of U (set ps) key = {}") (simp_all only: people_index_lookup if_True if_False option.simps simp_thms)
  then show "key \<in> set (map fst (people_index U ps)) \<longleftrightarrow> key \<in> {key. labels_of U (set ps) key \<noteq> {}}"
    unfolding map_of_eq_None_iff set_map mem_Collect_eq by blast
qed

text \<open>
  What is written of the participants does not depend on the order or the repetition in
  which the provider lists them: two versions of an event with the same set of participants and
  the same own fields have the same mirrored description and the same content hash, so a run does
  not update the copy because of it.
\<close>

theorem description_ignores_order:
  assumes "set (event_people a) = set (event_people b)"
    and "ev_description a = ev_description b" and "ev_description_format a = ev_description_format b"
    and "ev_source_attendees_complete a = ev_source_attendees_complete b"
  shows "mirror_description U a = mirror_description U b \<and>
    (ev_title a = ev_title b \<and> ev_location a = ev_location b \<and> ev_status a = ev_status b \<and>
     ev_visibility a = ev_visibility b \<and> ev_transparency a = ev_transparency b \<and>
     ev_start a = ev_start b \<and> ev_end a = ev_end b \<and> ev_recurrence a = ev_recurrence b \<longrightarrow>
     hash_event U a = hash_event U b)"
proof -
  let ?A = "people_index U (event_people a)" and ?B = "people_index U (event_people b)"
  have look: "map_of ?A = map_of ?B"
    by (rule ext) (simp add: people_index_lookup assms(1))
  have "set (map fst ?A) = set (map fst ?B)" by (simp only: people_index_keys assms(1))
  then have keys: "sort (map fst ?A) = sort (map fst ?B)"
    by (intro sorted_distinct_set_unique) (simp_all add: people_index_distinct del: set_map)
  have "?A = [] \<longleftrightarrow> ?B = []" using look by (metis map_of_eq_empty_iff)
  then have "mirror_description U a = mirror_description U b"
    unfolding mirror_description_def Let_def look keys source_description_def assms(2-4) by simp
  then show ?thesis by (simp add: hash_event_def Let_def assms(4))
qed

definition sample_person :: "string \<Rightarrow> person_v2" where
  "sample_person n = \<lparr>person_id = '''', person_email = '''', person_name = n, person_self = False, person_comment = ''''\<rparr>"

definition sample_attendee :: "string \<Rightarrow> attendee_v2" where
  "sample_attendee n = \<lparr>att_person = sample_person n, att_status = '''', att_optional = False,
     att_organizer = False, att_resource = False, att_additional_guests = 0\<rparr>"

theorem description_ignores_order_witness:
  "let a = (sample_source_event ''a'')\<lparr>ev_attendees := [sample_attendee ''x'', sample_attendee ''y'']\<rparr>;
       b = (sample_source_event ''a'')\<lparr>ev_attendees := [sample_attendee ''y'', sample_attendee ''x'', sample_attendee ''y'']\<rparr> in
   event_people a \<noteq> event_people b \<and>
   (\<forall>U. mirror_description U a = mirror_description U b \<and> hash_event U a = hash_event U b)"
proof -
  let ?a = "(sample_source_event ''a'')\<lparr>ev_attendees := [sample_attendee ''x'', sample_attendee ''y'']\<rparr>"
  let ?b = "(sample_source_event ''a'')\<lparr>ev_attendees := [sample_attendee ''y'', sample_attendee ''x'', sample_attendee ''y'']\<rparr>"
  have "set (event_people ?a) = set (event_people ?b)" and ne: "event_people ?a \<noteq> event_people ?b"
    by (auto simp: event_people_def sample_source_event_def zero_event_def)
  note t = description_ignores_order [OF this(1)]
  have "mirror_description U ?a = mirror_description U ?b \<and> hash_event U ?a = hash_event U ?b" for U
    using t [of U] by (simp add: sample_source_event_def)
  then show ?thesis using ne by (simp only: Let_def) blast
qed

section \<open>Facts about previews\<close>

text \<open>What previews keep: bounded entries with bounded titles, and an honest total.\<close>

definition preview_ok :: "sync_run_preview \<Rightarrow> bool" where
  "preview_ok p \<longleftrightarrow> length (rp_entries p) \<le> 1000 \<and>
     (\<forall>e \<in> set (rp_entries p). length (utf8_decode (pe_title e)) \<le> 512) \<and>
     int (length (rp_entries p)) \<le> rp_total p \<and>
     (rp_truncated p \<longleftrightarrow> int (length (rp_entries p)) < rp_total p)"

lemma preview_title_length: "length (utf8_decode (preview_title t)) \<le> 512"
  by (simp add: preview_title_def utf8_decode_encode)

lemma preview_action_ok:
  assumes "preview_ok p"
  shows "\<exists>q. preview_action event action reason status (Some p) = Some q \<and> preview_ok q \<and>
    rp_total q = rp_total p + 1"
  using assms preview_title_length [of "ev_title event"]
  by (auto simp: preview_action_def preview_ok_def Let_def)

lemma empty_preview_ok [simp]: "preview_ok empty_preview"
  by (simp add: preview_ok_def empty_preview_def)

section \<open>Facts about what is mirrored\<close>

lemma mirror_create_safe [simp]:
  "ec_attendees (mirror_create U ruleID event name) = []"
  "ec_sync_marker (mirror_create U ruleID event name) =
     Some \<lparr>sm_rule_id = ruleID, sm_source_event_id = ev_id event\<rparr>"
  by (simp_all add: mirror_create_def Let_def)

lemma mirror_create_no_attendees [simp]:
  "mirror_create U r e n\<lparr>ec_attendees := []\<rparr> = mirror_create U r e n"
  by (rule event_create_v2.equality) simp_all

lemma new_mapping_id_nonempty [simp]: "new_mapping_id r e o' \<noteq> []"
  using length_sha256_hex [of "mapping_key (r @ NUL # e) o'"]
  by (metis list.size(3) new_mapping_id_def zero_neq_numeral)

lemma mirror_patch_attendees [simp]: "\<not> pf_present (pa_attendees (mirror_patch U event))"
  by (simp add: mirror_patch_def Let_def empty_patch_def absent_field_def)

lemma object_kind_simps [simp]:
  "ev_instance_kind event = ''cache_instance'' \<Longrightarrow> object_kind event = ''cache_instance''"
  by (simp add: object_kind_def)

end
