(* ===== verification/Sync_Engine.thy ===== *)
theory Sync_Engine
  imports Sync_Mirror Registry
begin

text \<open>
  The sync engine, \<open>src/internal/syncengine/engine.go\<close>, \<open>mapping_mutation.go\<close>,
  \<open>dispatch_fence.go\<close> and \<open>cache_copy_execution.go\<close>: a run of a rule reads the source events
  and the rule's mappings, refuses what it cannot do safely, and then brings the target into line
  event by event, each provider mutation between a durable intent and its settlement.

  The state of a run is a world: the mapping table behind the interface \<open>MappingStore\<close>, the
  outside (calendars, selection, leases), and the list of the calls sent to the target provider,
  which is an observer of the model: no definition reads it.  What a Go type assertion finds of a
  provider is the record \<open>interfaces\<close>.
\<close>

section \<open>Interfaces\<close>

record 's event_ops =
  eo_list :: "list_events_request \<Rightarrow> ('s, event_v2 page) prog"
  eo_create :: "create_event_request \<Rightarrow> ('s, event_v2 option) prog"
  eo_update :: "update_event_request \<Rightarrow> ('s, operation_result option) prog"
  eo_delete :: "delete_event_request \<Rightarrow> ('s, operation_result option) prog"

record 's interfaces =
  if_v2 :: "'s event_ops option"
  if_no_attendees :: "bool option"
  if_recurring :: "bool option"
  if_validate :: "(string list option \<Rightarrow> event_time \<Rightarrow> unit res) option"
  if_instances :: "(instances_request \<Rightarrow> ('s, event_v2 page) prog) option"
  if_lookup :: "(string \<Rightarrow> string \<Rightarrow> string \<Rightarrow> ('s, event_v2 option) prog) option"

text \<open>
  \<open>MappingStore\<close> over a table of any type; the inserts take the UUID that they draw.
\<close>

record 't mapping_ops =
  mo_list :: "string \<Rightarrow> 't \<Rightarrow> mapping list"
  mo_insert_create :: "string \<Rightarrow> mapping \<Rightarrow> 't \<Rightarrow> string res \<times> 't"
  mo_insert_mutation :: "string \<Rightarrow> mapping \<Rightarrow> 't \<Rightarrow> string res \<times> 't"
  mo_update_cas :: "mapping \<Rightarrow> int \<Rightarrow> 't \<Rightarrow> unit res \<times> 't"
  mo_delete_cas :: "string \<Rightarrow> string \<Rightarrow> int \<Rightarrow> 't \<Rightarrow> unit res \<times> 't"

datatype target_call =
    CallCreate create_event_request
  | CallUpdate update_event_request
  | CallDelete delete_event_request

text \<open>A call sent to the target, with the table and the outside state it was sent in.\<close>

record ('s, 't) sent =
  st_call :: target_call
  st_table :: 't
  st_ext :: 's

record ('s, 't) world =
  wo_table :: 't
  wo_ext :: 's
  wo_drawn :: nat
  wo_sent :: "('s, 't) sent list"

text \<open>
  The engine with what it relies on: \<open>en_ctx_err\<close> is \<open>ctx.Err()\<close>, \<open>en_uuid\<close> the UUIDs in
  the order they are drawn, \<open>en_fuel\<close> the bound of the page loops.
\<close>

record ('s, 't) engine =
  en_registry :: "'s registry"
  en_iface :: "'s provider \<Rightarrow> 's interfaces"
  en_store :: "'t mapping_ops"
  en_fence :: "('s, unit) prog option"
  en_ctx_err :: "'s \<Rightarrow> err option"
  en_on_dispatch :: "('s \<Rightarrow> 's) option"
  en_now :: "'s \<Rightarrow> instant"
  en_uuid :: "nat \<Rightarrow> string"
  en_unicode :: unicode_case
  en_zones :: zonedb
  en_fuel :: nat

definition ext_op :: "('s, 'a) prog \<Rightarrow> (('s, 't) world, 'a) prog" where
  "ext_op m w = (case m (wo_ext w) of (r, s) \<Rightarrow> (r, w\<lparr>wo_ext := s\<rparr>))"

definition table_op :: "('t \<Rightarrow> 'a res \<times> 't) \<Rightarrow> (('s, 't) world, 'a) prog" where
  "table_op f w = (case f (wo_table w) of (r, t) \<Rightarrow> (r, w\<lparr>wo_table := t\<rparr>))"

text \<open>An insert draws the next UUID.\<close>

definition insert_op ::
  "('s, 't) engine \<Rightarrow> (string \<Rightarrow> 't \<Rightarrow> string res \<times> 't) \<Rightarrow> (('s, 't) world, string) prog" where
  "insert_op e f w = table_op (f (en_uuid e (wo_drawn w))) (w\<lparr>wo_drawn := wo_drawn w + 1\<rparr>)"

section \<open>The dispatch fence (dispatch_fence.go)\<close>

definition check_dispatch_fence :: "('s, 't) engine \<Rightarrow> ('s, unit) prog" where
  "check_dispatch_fence e = (case en_fence e of
       None \<Rightarrow> fail (Sentinel ErrDispatchFenceUnavailable)
     | Some fence \<Rightarrow> (\<lambda>s. case en_ctx_err e s of Some x \<Rightarrow> (Inl x, s) | None \<Rightarrow> fence s))"

section \<open>The guarded target\<close>

record 's target =
  tg_provider :: "'s provider"
  tg_ops :: "'s event_ops"
  tg_source_id :: string
  tg_target_id :: string

definition require_safe_no_attendee_target :: "('s, 't) engine \<Rightarrow> 's provider \<Rightarrow> unit res" where
  "require_safe_no_attendee_target e p =
     (if if_no_attendees (en_iface e p) = Some True then Inr () else Inl (Sentinel ErrUnsafeTargetAttendees))"

definition guard_check :: "('s, 't) engine \<Rightarrow> 's target \<Rightarrow> ('s, unit) prog" where
  "guard_check e g =
     and_then (for_each (\<lambda>i. if i = '''' then ret ()
         else wrap_fail (ErrWrap ''sync calendar selection changed'')
                (and_then (resolve_enabled (en_registry e) i) (\<lambda>_. ret ())))
       [tg_source_id g, tg_target_id g])
     (\<lambda>_. check_dispatch_fence e)"

text \<open>The observer runs, then the provider is called.\<close>

definition send :: "('s, 't) engine \<Rightarrow> target_call \<Rightarrow> ('s, 'a) prog \<Rightarrow> (('s, 't) world, 'a) prog" where
  "send e call m w =
     ext_op (\<lambda>s. m (case en_on_dispatch e of None \<Rightarrow> s | Some f \<Rightarrow> f s))
       (w\<lparr>wo_sent := wo_sent w @ [\<lparr>st_call = call, st_table = wo_table w, st_ext = wo_ext w\<rparr>]\<rparr>)"

definition guarded_create ::
  "('s, 't) engine \<Rightarrow> 's target \<Rightarrow> create_event_request \<Rightarrow> (('s, 't) world, event_v2 option) prog" where
  "guarded_create e g request =
     and_then (lift_res (require_safe_no_attendee_target e (tg_provider g))) (\<lambda>_.
     if ec_attendees (cr_event request) \<noteq> [] then fail (Sentinel ErrUnsafeTargetAttendees)
     else let request = request\<lparr>cr_event := (cr_event request)\<lparr>ec_attendees := []\<rparr>,
                cr_notifications := NotificationsNone, cr_require_no_attendees := True\<rparr> in
       and_then (ext_op (guard_check e g)) (\<lambda>_. send e (CallCreate request) (eo_create (tg_ops g) request)))"

definition guarded_update ::
  "('s, 't) engine \<Rightarrow> 's target \<Rightarrow> update_event_request \<Rightarrow> (('s, 't) world, operation_result option) prog" where
  "guarded_update e g request =
     and_then (lift_res (require_safe_no_attendee_target e (tg_provider g))) (\<lambda>_.
     if pf_present (pa_attendees (ur_patch request)) then fail (Sentinel ErrUnsafeTargetAttendees)
     else let request = request\<lparr>ur_notifications := NotificationsNone, ur_require_no_attendees := True\<rparr> in
       and_then (ext_op (guard_check e g)) (\<lambda>_. send e (CallUpdate request) (eo_update (tg_ops g) request)))"

definition guarded_delete ::
  "('s, 't) engine \<Rightarrow> 's target \<Rightarrow> delete_event_request \<Rightarrow> (('s, 't) world, operation_result option) prog" where
  "guarded_delete e g request =
     and_then (lift_res (require_safe_no_attendee_target e (tg_provider g))) (\<lambda>_.
     let request = request\<lparr>dr_notifications := NotificationsNone, dr_require_no_attendees := True\<rparr> in
       and_then (ext_op (guard_check e g)) (\<lambda>_. send e (CallDelete request) (eo_delete (tg_ops g) request)))"

section \<open>Durable intents (mapping_mutation.go)\<close>

definition begin_mapping_mutation ::
  "('s, 't) engine \<Rightarrow> mapping \<Rightarrow> string \<Rightarrow> string \<Rightarrow> (('s, 't) world, mapping) prog" where
  "begin_mapping_mutation e m kind targetID =
     and_then (ext_op (check_dispatch_fence e)) (\<lambda>_.
     if targetID = '''' \<or> (kind \<noteq> ''pending_update'' \<and> kind \<noteq> ''pending_delete'') \<or>
        (mp_reconciliation_state m \<noteq> ''current'' \<and> mp_reconciliation_state m \<noteq> ''legacy'' \<and>
         mp_reconciliation_state m \<noteq> '''' \<and> mp_reconciliation_state m \<noteq> ''pending_create'')
     then fail (Sentinel ErrPendingTargetMutation)
     else if 0 < mp_version m \<and> mp_reconciliation_state m \<noteq> ''pending_create'' \<and> mp_target_event_id m \<noteq> targetID
     then fail (Sentinel ErrPendingTargetMutation)
     else let m' = m\<lparr>mp_target_event_id := targetID, mp_reconciliation_state := kind\<rparr> in
       if mp_version m = 0 then
         and_then (insert_op e (\<lambda>u. mo_insert_mutation (en_store e) u m')) (\<lambda>incarnation.
           if incarnation = '''' then fail (Sentinel ErrPendingTargetMutation)
           else ret (m'\<lparr>mp_version := 1, mp_incarnation := incarnation\<rparr>))
       else
         and_then (table_op (mo_update_cas (en_store e) m' (mp_version m))) (\<lambda>_.
           ret (m'\<lparr>mp_version := mp_version m + 1\<rparr>)))"

definition completed :: "operation_result option \<Rightarrow> bool" where
  "completed result = (case result of None \<Rightarrow> False | Some r \<Rightarrow> or_status r = ''completed'')"

definition complete_mapping_mutation ::
  "('s, 't) engine \<Rightarrow> mapping \<Rightarrow> mapping \<Rightarrow> operation_result option \<Rightarrow> (('s, 't) world, unit) prog" where
  "complete_mapping_mutation e pending replacement result =
     (if \<not> completed result then fail (Sentinel ErrPendingTargetMutation)
      else let event = or_event (the result) in
        if mp_object_kind pending = ''cache_instance'' \<and>
           \<not> verified_cache_target event (mp_target_event_id pending) (mp_rule_id pending) (mp_source_event_id pending)
        then fail (Sentinel ErrCacheTargetUnverified)
        else let r1 = (if mp_object_kind pending = ''cache_instance''
               then replacement\<lparr>mp_target_etag := ev_etag (the event)\<rparr> else replacement);
               r2 = r1\<lparr>mp_version := mp_version pending, mp_incarnation := mp_incarnation pending,
                       mp_reconciliation_state := ''current''\<rparr>
             in table_op (mo_update_cas (en_store e) r2 (mp_version pending)))"

definition complete_mapping_delete ::
  "('s, 't) engine \<Rightarrow> mapping \<Rightarrow> operation_result option \<Rightarrow> (('s, 't) world, unit) prog" where
  "complete_mapping_delete e pending result =
     (if \<not> completed result then fail (Sentinel ErrPendingTargetMutation)
      else table_op (mo_delete_cas (en_store e) (mp_id pending) (mp_incarnation pending) (mp_version pending)))"

section \<open>Page loops\<close>

text \<open>
  Go's loops go on as long as the provider returns another page token; the model stops them after
  \<open>fuel\<close> pages with \<open>NoReturn\<close>.
\<close>

fun list_all ::
  "nat \<Rightarrow> 's event_ops \<Rightarrow> list_events_request \<Rightarrow> event_v2 list \<Rightarrow> ('s, event_v2 list) prog" where
  "list_all 0 ops request acc = fail NoReturn"
| "list_all (Suc fuel) ops request acc =
     and_then (eo_list ops request) (\<lambda>page.
       if \<not> page_complete page then fail (ErrText ''source event listing is incomplete'')
       else if page_next_token page = '''' then ret (acc @ page_items page)
       else list_all fuel ops (request\<lparr>le_page_token := page_next_token page\<rparr>) (acc @ page_items page))"

text \<open>The first instance of a page at the original time: its ID, or \<open>None\<close> when cancelled.\<close>

definition matching_instance :: "zonedb \<Rightarrow> event_time \<Rightarrow> event_v2 list \<Rightarrow> string option option" where
  "matching_instance db original items =
     map_option (\<lambda>item. if ev_status item = ''cancelled'' then None else Some (ev_id item))
       (find (\<lambda>item. same_event_time db original
          (case ev_original_start item of None \<Rightarrow> ev_start item | Some t \<Rightarrow> t)) items)"

fun instance_pages ::
  "nat \<Rightarrow> zonedb \<Rightarrow> (instances_request \<Rightarrow> ('s, event_v2 page) prog) \<Rightarrow> event_time \<Rightarrow> instances_request \<Rightarrow>
   ('s, string option) prog" where
  "instance_pages 0 db get original request = fail NoReturn"
| "instance_pages (Suc fuel) db get original request =
     and_then (wrap_fail (ErrWrap ''list target series instances'') (get request)) (\<lambda>page.
       case matching_instance db original (page_items page) of
         Some answer \<Rightarrow> ret answer
       | None \<Rightarrow> if page_next_token page = '''' then ret None
                else instance_pages fuel db get original (request\<lparr>ir_page_token := page_next_token page\<rparr>))"

definition find_target_instance ::
  "('s, 't) engine \<Rightarrow> 's provider \<Rightarrow> string \<Rightarrow> string \<Rightarrow> event_time option \<Rightarrow> instant \<Rightarrow> instant \<Rightarrow>
   ('s, string option) prog" where
  "find_target_instance e p calendarID seriesID original start stop = (case original of
       None \<Rightarrow> fail (ErrText ''recurring instance is missing original_start'')
     | Some t \<Rightarrow>
         and_then (lift_res (map_err (ErrWrap ''invalid recurring instance original_start'')
           (event_time_instant (en_zones e) t))) (\<lambda>at.
         let start = (if at < start then at else start);
             until = (if is_all_day t then add_days at 1 else at + nanos);
             stop = (if stop < until then until else stop) in
         case if_instances (en_iface e p) of
           None \<Rightarrow> fail (ErrText ''target provider does not support recurring instance lookup'')
         | Some get \<Rightarrow> instance_pages (en_fuel e) (en_zones e) get t
             \<lparr>ir_ref = \<lparr>ref_calendar_id = calendarID, ref_event_id = seriesID\<rparr>, ir_start = start, ir_end = stop,
              ir_show_deleted = True, ir_page_token = '''', ir_max_results = 2500\<rparr>))"

section \<open>One event (the reconciliation of engine.go)\<close>

record ('s, 't) run_env =
  re_engine :: "('s, 't) engine"
  re_rule :: rule
  re_dry :: bool
  re_now :: instant
  re_start :: instant
  re_end :: instant
  re_target :: "'s target"
  re_calendar_id :: string
  re_titles :: "(string \<times> string) list"
  re_occurrences :: "(string \<times> event_v2) list"

record ('s, 't) run_state =
  rs_world :: "('s, 't) world"
  rs_result :: sync_result
  rs_by_key :: "(string \<times> mapping) list"
  rs_seen :: "string list"

type_synonym ('s, 't, 'a) step = "(('s, 't) run_state, 'a) prog"

definition in_world :: "(('s, 't) world, 'a) prog \<Rightarrow> ('s, 't, 'a) step" where
  "in_world m rs = (case m (rs_world rs) of (r, w) \<Rightarrow> (r, rs\<lparr>rs_world := w\<rparr>))"

definition on_result :: "(sync_result \<Rightarrow> sync_result) \<Rightarrow> ('s, 't, unit) step" where
  "on_result f = modify (\<lambda>rs. rs\<lparr>rs_result := f (rs_result rs)\<rparr>)"

definition bump_created :: "sync_result \<Rightarrow> sync_result" where
  "bump_created r = r\<lparr>sr_created := sr_created r + 1\<rparr>"
definition bump_updated :: "sync_result \<Rightarrow> sync_result" where
  "bump_updated r = r\<lparr>sr_updated := sr_updated r + 1\<rparr>"
definition bump_deleted :: "sync_result \<Rightarrow> sync_result" where
  "bump_deleted r = r\<lparr>sr_deleted := sr_deleted r + 1\<rparr>"
definition bump_skipped :: "sync_result \<Rightarrow> sync_result" where
  "bump_skipped r = r\<lparr>sr_skipped := sr_skipped r + 1\<rparr>"
definition bump_warnings :: "sync_result \<Rightarrow> sync_result" where
  "bump_warnings r = r\<lparr>sr_warnings := sr_warnings r + 1\<rparr>"

definition title_of :: "(string \<times> string) list \<Rightarrow> string \<Rightarrow> string" where
  "title_of titles series = (case map_of titles series of None \<Rightarrow> '''' | Some t \<Rightarrow> t)"

definition preview_event :: "(string \<times> string) list \<Rightarrow> event_v2 \<Rightarrow> event_v2" where
  "preview_event titles event =
     (if ev_title event = '''' \<and> title_of titles (ev_recurring_event_id event) \<noteq> ''''
      then event\<lparr>ev_title := ''Series: '' @ title_of titles (ev_recurring_event_id event)\<rparr> else event)"

definition note_action ::
  "('s, 't) run_env \<Rightarrow> event_v2 \<Rightarrow> string \<Rightarrow> string \<Rightarrow> string \<Rightarrow> ('s, 't, unit) step" where
  "note_action v event action reason status = on_result (\<lambda>r.
     r\<lparr>sr_preview := preview_action (preview_event (re_titles v) event) action reason status (sr_preview r)\<rparr>)"

definition put_key :: "string \<Rightarrow> mapping \<Rightarrow> ('s, 't, unit) step" where
  "put_key key m = modify (\<lambda>rs. rs\<lparr>rs_by_key := AList.update key m (rs_by_key rs)\<rparr>)"

definition forget_key :: "string \<Rightarrow> ('s, 't, unit) step" where
  "forget_key key = modify (\<lambda>rs. rs\<lparr>rs_by_key := AList.delete key (rs_by_key rs)\<rparr>)"

definition delete_request :: "string \<Rightarrow> string \<Rightarrow> mutation_scope \<Rightarrow> string \<Rightarrow> sync_marker option \<Rightarrow> delete_event_request" where
  "delete_request calendarID eventID scope etag marker =
     \<lparr>dr_require_no_attendees = False, dr_expected_sync_marker = marker,
      dr_ref = \<lparr>ref_calendar_id = calendarID, ref_event_id = eventID\<rparr>, dr_scope = scope,
      dr_effective_from = None, dr_expected_etag = etag, dr_operation_id = '''', dr_preview_only = False,
      dr_notifications = NotificationsNone\<rparr>"

definition update_request ::
  "string \<Rightarrow> string \<Rightarrow> event_patch_v2 \<Rightarrow> mutation_scope \<Rightarrow> string \<Rightarrow> sync_marker option \<Rightarrow> update_event_request" where
  "update_request calendarID eventID patch scope etag marker =
     \<lparr>ur_require_no_attendees = False, ur_expected_sync_marker = marker,
      ur_ref = \<lparr>ref_calendar_id = calendarID, ref_event_id = eventID\<rparr>, ur_patch = patch, ur_scope = scope,
      ur_effective_from = None, ur_expected_etag = etag, ur_operation_id = '''', ur_preview_only = False,
      ur_notifications = NotificationsNone\<rparr>"

definition send_delete ::
  "('s, 't) run_env \<Rightarrow> string \<Rightarrow> mutation_scope \<Rightarrow> string \<Rightarrow> sync_marker option \<Rightarrow>
   (('s, 't) world, operation_result option) prog" where
  "send_delete v eventID scope etag marker =
     guarded_delete (re_engine v) (re_target v) (delete_request (re_calendar_id v) eventID scope etag marker)"

definition send_update ::
  "('s, 't) run_env \<Rightarrow> string \<Rightarrow> event_v2 \<Rightarrow> mutation_scope \<Rightarrow> string \<Rightarrow> sync_marker option \<Rightarrow>
   (('s, 't) world, operation_result option) prog" where
  "send_update v eventID event scope etag marker =
     guarded_update (re_engine v) (re_target v)
       (update_request (re_calendar_id v) eventID (mirror_patch (en_unicode (re_engine v)) event) scope etag marker)"

definition run_hash :: "('s, 't) run_env \<Rightarrow> event_v2 \<Rightarrow> string" where
  "run_hash v event = hash_event (en_unicode (re_engine v)) event"

text \<open>A mapping of an event as the code writes its literal, with what the branches set.\<close>

definition event_mapping :: "('s, 't) run_env \<Rightarrow> event_v2 \<Rightarrow> mapping" where
  "event_mapping v event = zero_mapping\<lparr>
     mp_id := new_mapping_id (ru_id (re_rule v)) (ev_id event) (event_original_start event),
     mp_rule_id := ru_id (re_rule v), mp_object_kind := object_kind event,
     mp_source_event_id := ev_id event, mp_source_series_id := ev_recurring_event_id event,
     mp_original_start := event_original_start event, mp_last_seen_at := re_now v\<rparr>"

definition exception_mapping :: "('s, 't) run_env \<Rightarrow> event_v2 \<Rightarrow> string \<Rightarrow> mapping \<Rightarrow> mapping" where
  "exception_mapping v event targetID series =
     (event_mapping v event)\<lparr>mp_target_event_id := targetID, mp_target_series_id := mp_target_event_id series\<rparr>"

text \<open>A cancelled event whose creation was left pending: find the copy by its marker.\<close>

definition lookup_copy :: "('s, 't) run_env \<Rightarrow> (string \<Rightarrow> string \<Rightarrow> string \<Rightarrow> ('s, event_v2 option) prog) \<Rightarrow>
    event_v2 \<Rightarrow> string \<Rightarrow> ('s, 't, event_v2 option) step" where
  "lookup_copy v find_marker event msg =
     in_world (wrap_fail (ErrWrap msg)
       (ext_op (find_marker (re_calendar_id v) (ru_id (re_rule v)) (ev_id event))))"

definition recover_cancelled :: "('s, 't) run_env \<Rightarrow> event_v2 \<Rightarrow> mapping \<Rightarrow> ('s, 't, unit) step" where
  "recover_cancelled v event m =
     and_then (lift_res (cache_target_conditions m)) (\<lambda>_.
     case if_lookup (en_iface (re_engine v) (tg_provider (re_target v))) of
       None \<Rightarrow> fail (ErrText ''target provider cannot recover a pending standalone instance'')
     | Some find_marker \<Rightarrow>
         and_then (lookup_copy v find_marker event ''recover cancelled standalone instance'') (\<lambda>copy.
         case copy of
           None \<Rightarrow> fail (Sentinel ErrPendingCreateUnresolved)
         | Some c \<Rightarrow>
             and_then (on_result bump_deleted) (\<lambda>_.
             and_then (note_action v event ''delete'' ''cancelled_recovered_copy'' ''found'') (\<lambda>_.
             and_then (in_world (begin_mapping_mutation (re_engine v) m ''pending_delete'' (ev_id c))) (\<lambda>pending.
             and_then (in_world (send_delete v (ev_id c) (scope_for event) '''' None)) (\<lambda>outcome.
             and_then (in_world (complete_mapping_delete (re_engine v) pending outcome)) (\<lambda>_.
               forget_key (event_key event))))))))"

text \<open>An exception of a mirrored series: the instance of the target series at the same time.\<close>

definition delete_exception ::
  "('s, 't) run_env \<Rightarrow> event_v2 \<Rightarrow> mapping option \<Rightarrow> mapping \<Rightarrow> string option \<Rightarrow> ('s, 't, unit) step" where
  "delete_exception v event mapped series found = (case found of
       None \<Rightarrow> on_result bump_skipped
     | Some targetID \<Rightarrow>
         let m = (case mapped of Some m \<Rightarrow> m | None \<Rightarrow> exception_mapping v event targetID series) in
         and_then (on_result bump_deleted) (\<lambda>_.
         and_then (in_world (begin_mapping_mutation (re_engine v) m ''pending_delete'' targetID)) (\<lambda>pending.
         and_then (in_world (wrap_fail (ErrWrap ''delete cancelled target occurrence'')
           (send_delete v targetID ScopeSingle '''' None))) (\<lambda>outcome.
         and_then (in_world (complete_mapping_delete (re_engine v) pending outcome)) (\<lambda>_.
           forget_key (event_key event))))))"

definition update_exception ::
  "('s, 't) run_env \<Rightarrow> event_v2 \<Rightarrow> mapping option \<Rightarrow> mapping \<Rightarrow> string option \<Rightarrow> ('s, 't, unit) step" where
  "update_exception v event mapped series found = (case found of
       None \<Rightarrow> fail (ErrText ''target series has no occurrence matching source original start'')
     | Some targetID \<Rightarrow>
         if (case mapped of Some m \<Rightarrow> mp_content_hash m = run_hash v event | None \<Rightarrow> False)
         then on_result bump_skipped
         else
           let m = (case mapped of Some m \<Rightarrow> m | None \<Rightarrow> exception_mapping v event targetID series) in
           and_then (on_result bump_updated) (\<lambda>_.
           and_then (in_world (begin_mapping_mutation (re_engine v) m ''pending_update'' targetID)) (\<lambda>pending.
           and_then (in_world (wrap_fail (ErrWrap ''update target occurrence exception'')
             (send_update v targetID event ScopeSingle '''' None))) (\<lambda>outcome.
           let m' = (exception_mapping v event targetID series)
             \<lparr>mp_id := mp_id pending, mp_content_hash := run_hash v event,
              mp_reconciliation_state := ''current'', mp_incarnation := mp_incarnation pending\<rparr> in
           and_then (in_world (complete_mapping_mutation (re_engine v) pending m' outcome)) (\<lambda>_.
             put_key (event_key event) (m'\<lparr>mp_version := mp_version pending + 1\<rparr>))))))"

definition reconcile_exception :: "('s, 't) run_env \<Rightarrow> event_v2 \<Rightarrow> mapping option \<Rightarrow> ('s, 't, unit) step" where
  "reconcile_exception v event mapped =
     and_then (gets (\<lambda>rs. find_series_mapping (rs_by_key rs) (ev_recurring_event_id event))) (\<lambda>found.
     case found of
       None \<Rightarrow> fail (ErrWrap ''source series, instance'' (Sentinel ErrMissingSeriesMapping))
     | Some series \<Rightarrow>
         if re_dry v then
           (if ev_status event = ''cancelled''
            then and_then (on_result bump_deleted)
                   (\<lambda>_. note_action v event ''delete'' ''cancelled_series_instance'' ''not_checked'')
            else and_then (on_result bump_updated)
                   (\<lambda>_. note_action v event ''update'' ''series_exception'' ''not_checked''))
         else
           and_then (in_world (ext_op (find_target_instance (re_engine v) (tg_provider (re_target v))
             (re_calendar_id v) (mp_target_event_id series) (ev_original_start event) (re_start v) (re_end v))))
           (if ev_status event = ''cancelled'' then delete_exception v event mapped series
            else update_exception v event mapped series))"

text \<open>A cancelled standalone event or series.\<close>

definition reconcile_cancelled :: "('s, 't) run_env \<Rightarrow> event_v2 \<Rightarrow> mapping option \<Rightarrow> ('s, 't, unit) step" where
  "reconcile_cancelled v event mapped = (case mapped of
       None \<Rightarrow> and_then (on_result bump_skipped)
                 (\<lambda>_. note_action v event ''skip'' ''cancelled_without_mapping'' ''not_checked'')
     | Some m \<Rightarrow>
         and_then (on_result bump_deleted) (\<lambda>_.
         and_then (note_action v event ''delete'' ''cancelled_mapped_event'' ''not_checked'') (\<lambda>_.
         if re_dry v then ret ()
         else
           and_then (lift_res (cache_target_conditions m)) (\<lambda>(etag, marker).
           and_then (in_world (begin_mapping_mutation (re_engine v) m ''pending_delete'' (mp_target_event_id m))) (\<lambda>pending.
           and_then (in_world (wrap_fail (ErrWrap ''delete cancelled target event'')
             (send_delete v (mp_target_event_id m) (scope_for event) etag marker))) (\<lambda>outcome.
             in_world (complete_mapping_delete (re_engine v) pending outcome)))))))"

text \<open>
  An event without a confirmed copy.  The intent is recorded before the lookup; a pending intent
  of an earlier run is never the permission to create again.
\<close>

definition create_intent :: "('s, 't) run_env \<Rightarrow> event_v2 \<Rightarrow> (('s, 't) world, mapping) prog" where
  "create_intent v event =
     and_then (ext_op (check_dispatch_fence (re_engine v))) (\<lambda>_.
     let intent = (event_mapping v event)
       \<lparr>mp_target_event_id := ''pending:'' @ mp_id (event_mapping v event),
        mp_reconciliation_state := ''pending_create''\<rparr> in
     and_then (wrap_fail (ErrWrap ''persist target creation intent'')
       (insert_op (re_engine v) (\<lambda>u. mo_insert_create (en_store (re_engine v)) u intent))) (\<lambda>incarnation.
       if incarnation = '''' then fail (Sentinel ErrPendingCreateUnresolved)
       else ret (intent\<lparr>mp_version := 1, mp_incarnation := incarnation\<rparr>)))"

definition usable_copy :: "event_v2 \<Rightarrow> bool" where
  "usable_copy c \<longleftrightarrow> ev_id c \<noteq> '''' \<and> ev_status c \<noteq> ''cancelled'' \<and> ev_instance_kind c \<noteq> ''cancelled''"

definition cache_mode_unverified :: "('s, 't) run_env \<Rightarrow> event_v2 \<Rightarrow> event_v2 \<Rightarrow> bool" where
  "cache_mode_unverified v event c \<longleftrightarrow> ru_sync_mode (re_rule v) = ''cached_instances'' \<and>
     \<not> verified_cache_target (Some c) '''' (ru_id (re_rule v)) (ev_id event)"

definition create_copy :: "('s, 't) run_env \<Rightarrow> event_v2 \<Rightarrow> ('s, 't, event_v2) step" where
  "create_copy v event =
     and_then (on_result bump_created) (\<lambda>_.
     and_then (in_world (wrap_fail (ErrWrap ''create target event'')
       (guarded_create (re_engine v) (re_target v)
         \<lparr>cr_require_no_attendees = False, cr_calendar_id = re_calendar_id v,
          cr_event = mirror_create (en_unicode (re_engine v)) (ru_id (re_rule v)) event
                       (pr_name (tg_provider (re_target v))),
          cr_notifications = NotificationsNone\<rparr>))) (\<lambda>created.
       case created of
         None \<Rightarrow> fail (Sentinel ErrPendingCreateUnresolved)
       | Some c \<Rightarrow>
           if \<not> usable_copy c then fail (Sentinel ErrPendingCreateUnresolved)
           else if cache_mode_unverified v event c then fail (Sentinel ErrCacheTargetUnverified)
           else ret c))"

definition update_copy ::
  "('s, 't) run_env \<Rightarrow> event_v2 \<Rightarrow> mapping \<Rightarrow> event_v2 \<Rightarrow> ('s, 't, mapping \<times> event_v2) step" where
  "update_copy v event m c =
     and_then (on_result bump_updated) (\<lambda>_.
     and_then (lift_res (cache_target_conditions m)) (\<lambda>(etag, marker).
     and_then (in_world (begin_mapping_mutation (re_engine v) m ''pending_update'' (ev_id c))) (\<lambda>pending.
     and_then (in_world (wrap_fail (ErrWrap ''update recovered standalone instance'')
       (send_update v (ev_id c) event (scope_for event) etag marker))) (\<lambda>outcome.
       if \<not> completed outcome then fail (Sentinel ErrPendingTargetMutation)
       else if mp_object_kind pending = ''cache_instance'' then
         (let copy = or_event (the outcome) in
          if \<not> verified_cache_target copy (ev_id c) (ru_id (re_rule v)) (ev_id event)
          then fail (Sentinel ErrCacheTargetUnverified) else ret (pending, the copy))
       else ret (pending, c)))))"

definition settle_copy ::
  "('s, 't) run_env \<Rightarrow> event_v2 \<Rightarrow> mapping \<times> event_v2 \<Rightarrow> ('s, 't, unit) step" where
  "settle_copy v event mc = (case mc of (m, c) \<Rightarrow>
     let kind = object_kind event;
         m' = (event_mapping v event)
           \<lparr>mp_id := mp_id m, mp_target_event_id := ev_id c,
            mp_target_series_id := (if kind = ''series'' then ev_id c else ev_recurring_event_id c),
            mp_content_hash := run_hash v event, mp_reconciliation_state := ''current'',
            mp_version := mp_version m, mp_incarnation := mp_incarnation m,
            mp_target_etag := (if kind = ''cache_instance'' then ev_etag c else '''')\<rparr> in
     and_then (in_world (table_op (mo_update_cas (en_store (re_engine v)) m' (mp_version m)))) (\<lambda>_.
       put_key (event_key event) (m'\<lparr>mp_version := mp_version m + 1\<rparr>)))"

definition obtain_copy ::
  "('s, 't) run_env \<Rightarrow> event_v2 \<Rightarrow> mapping \<Rightarrow> bool \<Rightarrow> event_v2 option \<Rightarrow> ('s, 't, mapping \<times> event_v2) step" where
  "obtain_copy v event m pendingCreate found = (case found of
       Some c \<Rightarrow>
         if \<not> usable_copy c then fail (Sentinel ErrPendingCreateUnresolved)
         else if cache_mode_unverified v event c then fail (Sentinel ErrCacheTargetUnverified)
         else if run_hash v c \<noteq> run_hash v event then update_copy v event m c
         else ret (m, c)
     | None \<Rightarrow>
         if pendingCreate then fail (Sentinel ErrPendingCreateUnresolved)
         else and_then (create_copy v event) (\<lambda>c. ret (m, c)))"

definition reconcile_create :: "('s, 't) run_env \<Rightarrow> event_v2 \<Rightarrow> mapping option \<Rightarrow> ('s, 't, unit) step" where
  "reconcile_create v event pend =
     (if re_dry v then
        and_then (on_result bump_created) (\<lambda>_.
        and_then (note_action v event ''create'' ''no_mapping'' ''not_checked'') (\<lambda>_.
        if object_kind event = ''series''
        then put_key (event_key event)
               (zero_mapping\<lparr>mp_object_kind := ''series'', mp_source_event_id := ev_id event\<rparr>)
        else ret ()))
      else case if_lookup (en_iface (re_engine v) (tg_provider (re_target v))) of
        None \<Rightarrow> fail (ErrText ''target provider does not support idempotent sync-marker recovery'')
      | Some find_marker \<Rightarrow>
          and_then (case pend of Some m \<Rightarrow> ret m | None \<Rightarrow> in_world (create_intent v event)) (\<lambda>m.
          and_then (lookup_copy v find_marker event ''recover target event by sync marker'') (\<lambda>found.
          and_then (obtain_copy v event m (pend \<noteq> None) found)
            (settle_copy v event))))"

text \<open>An event with a confirmed copy.\<close>

definition reconcile_changed :: "('s, 't) run_env \<Rightarrow> event_v2 \<Rightarrow> mapping \<Rightarrow> ('s, 't, unit) step" where
  "reconcile_changed v event m =
     (if mp_content_hash m = run_hash v event then
        and_then (on_result bump_skipped)
          (\<lambda>_. note_action v event ''skip'' ''unchanged_mapping'' ''not_checked'')
      else
        and_then (on_result bump_updated) (\<lambda>_.
        if re_dry v then note_action v event ''update'' ''changed_mapping'' ''not_checked''
        else
          and_then (lift_res (cache_target_conditions m)) (\<lambda>(etag, marker).
          and_then (in_world (begin_mapping_mutation (re_engine v) m ''pending_update'' (mp_target_event_id m))) (\<lambda>pending.
          and_then (in_world (wrap_fail (ErrWrap ''update target event'')
            (send_update v (mp_target_event_id m) event (scope_for event) etag marker))) (\<lambda>outcome.
            in_world (complete_mapping_mutation (re_engine v) pending
              (m\<lparr>mp_content_hash := run_hash v event, mp_last_seen_at := re_now v\<rparr>) outcome))))))"

definition dispatch_event ::
  "('s, 't) run_env \<Rightarrow> event_v2 \<Rightarrow> mapping option \<Rightarrow> mapping option \<Rightarrow> ('s, 't, unit) step" where
  "dispatch_event v event mapped pend =
     (if is_series_exception event then reconcile_exception v event mapped
      else if ev_status event = ''cancelled'' then reconcile_cancelled v event mapped
      else case mapped of
        None \<Rightarrow> reconcile_create v event pend
      | Some m \<Rightarrow> reconcile_changed v event m)"

definition process_event :: "('s, 't) run_env \<Rightarrow> event_v2 \<Rightarrow> ('s, 't, unit) step" where
  "process_event v event =
     (if is_plain_occurrence event then
        and_then (on_result bump_skipped)
          (\<lambda>_. note_action v event ''skip'' ''part_of_series'' ''not_checked'')
      else
        and_then (modify (\<lambda>rs. rs\<lparr>rs_seen := event_key event # rs_seen rs\<rparr>)) (\<lambda>_.
        and_then (gets (\<lambda>rs. map_of (rs_by_key rs) (event_key event))) (\<lambda>mapped.
        case mapped of
          None \<Rightarrow> dispatch_event v event None None
        | Some m \<Rightarrow>
            if mp_reconciliation_state m \<noteq> ''pending_create'' then dispatch_event v event (Some m) None
            else if re_dry v then fail (Sentinel ErrPendingCreateUnresolved)
            else if ev_status event = ''cancelled'' then recover_cancelled v event m
            else dispatch_event v event None (Some m))))"

text \<open>
  A mapping whose event was not listed: an exception whose occurrence is plain again is restored,
  anything else is kept.
\<close>

definition restore_occurrence :: "('s, 't) run_env \<Rightarrow> mapping \<Rightarrow> event_v2 \<Rightarrow> ('s, 't, unit) step" where
  "restore_occurrence v m occurrence =
     (let pendingHash = incomplete_restore_hash (en_unicode (re_engine v)) occurrence in
      if \<not> ev_source_attendees_complete occurrence \<and> mp_content_hash m = pendingHash
      then on_result bump_skipped
      else
        and_then (on_result bump_updated) (\<lambda>_.
        and_then (note_action v occurrence ''update'' ''restore_series_occurrence'' ''not_checked'') (\<lambda>_.
        if re_dry v then ret ()
        else
          and_then (in_world (begin_mapping_mutation (re_engine v) m ''pending_update'' (mp_target_event_id m))) (\<lambda>pending.
          and_then (in_world (wrap_fail (ErrWrap ''restore target occurrence after removed exception'')
            (send_update v (mp_target_event_id m) occurrence ScopeSingle '''' None))) (\<lambda>outcome.
          if \<not> ev_source_attendees_complete occurrence
          then in_world (complete_mapping_mutation (re_engine v) pending
                 (m\<lparr>mp_content_hash := pendingHash, mp_last_seen_at := re_now v\<rparr>) outcome)
          else in_world (complete_mapping_delete (re_engine v) pending outcome))))))"

definition restore_mapping :: "('s, 't) run_env \<Rightarrow> mapping \<Rightarrow> ('s, 't, unit) step" where
  "restore_mapping v m =
     and_then (gets rs_seen) (\<lambda>seen.
     if row_key m \<in> set seen then ret ()
     else case (if mp_object_kind m = ''exception''
                then map_of (re_occurrences v) (mapping_key (mp_source_series_id m) (mp_original_start m))
                else None) of
       Some occurrence \<Rightarrow> restore_occurrence v m occurrence
     | None \<Rightarrow> on_result bump_warnings)"

section \<open>The plan of a run\<close>

definition by_row_key :: "mapping list \<Rightarrow> (string \<times> mapping) list" where
  "by_row_key existing = foldl (\<lambda>m row. AList.update (row_key row) row m) [] existing"

definition available_series :: "event_v2 list \<Rightarrow> string list" where
  "available_series events =
     map ev_id (filter (\<lambda>e. object_kind e = ''series'' \<and> ev_status e \<noteq> ''cancelled'') events)"

definition series_titles :: "event_v2 list \<Rightarrow> (string \<times> string) list" where
  "series_titles events =
     foldl (\<lambda>m e. if object_kind e = ''series'' then AList.update (ev_id e) (ev_title e) m else m) [] events"

text \<open>The series that are mirrored as individual events.\<close>

definition detached_series :: "mapping list \<Rightarrow> (string \<times> mapping) list \<Rightarrow> event_v2 list \<Rightarrow> string list" where
  "detached_series existing byKey events =
     map mp_source_series_id (filter (\<lambda>m. mp_object_kind m = ''detached_occurrence'' \<and>
       mp_source_series_id m \<noteq> '''') existing) @
     map ev_recurring_event_id (filter (\<lambda>e. ev_recurring_event_id e \<noteq> '''' \<and>
       (ev_instance_kind e = OrphanOccurrence \<or> ev_recurring_event_id e \<notin> set (available_series events)) \<and>
       find_series_mapping byKey (ev_recurring_event_id e) = None) events)"

definition check_detached :: "(string \<times> mapping) list \<Rightarrow> string list \<Rightarrow> event_v2 \<Rightarrow> unit res" where
  "check_detached byKey detached event =
     (if ev_recurring_event_id event \<notin> set detached \<or> ev_recurring_event_id event = '''' then Inr ()
      else if ev_id event = '''' \<or> ev_original_start event = None
      then Inl (ErrText ''detached source occurrence lacks stable identity'')
      else if (case map_of byKey (event_key event) of
                 Some m \<Rightarrow> mp_object_kind m \<noteq> ''detached_occurrence'' | None \<Rightarrow> False)
      then Inl (ErrWrap ''incompatible occurrence mapping'' (Sentinel ErrMissingSeriesMapping))
      else if find_series_mapping byKey (ev_recurring_event_id event) \<noteq> None
      then Inl (ErrWrap ''conflicting series and detached mappings'' (Sentinel ErrMissingSeriesMapping))
      else Inr ())"

text \<open>One event of the filter: the event that is kept, and the detached series it makes active.\<close>

definition filter_event :: "string list \<Rightarrow> event_v2 \<Rightarrow> event_v2 option \<times> string list" where
  "filter_event detached event =
     (if object_kind event = ''series'' \<and> ev_id event \<in> set detached then (None, [ev_id event])
      else if ev_recurring_event_id event \<in> set detached
      then (Some (event\<lparr>ev_instance_kind := OrphanOccurrence, ev_recurrence := None\<rparr>),
            [ev_recurring_event_id event])
      else if ev_instance_kind event = OrphanOccurrence
      then (Some (event\<lparr>ev_instance_kind := ''exception''\<rparr>), [])
      else (Some event, []))"

definition filter_events :: "string list \<Rightarrow> event_v2 list \<Rightarrow> event_v2 list" where
  "filter_events detached events = List.map_filter (\<lambda>e. fst (filter_event detached e)) events"

definition active_detached :: "string list \<Rightarrow> event_v2 list \<Rightarrow> nat" where
  "active_detached detached events =
     length (remdups (concat (map (\<lambda>e. snd (filter_event detached e)) events)))"

definition check_recurrence_writes :: "'s interfaces \<Rightarrow> event_v2 list \<Rightarrow> unit res" where
  "check_recurrence_writes f events =
     fold_res (\<lambda>event _.
       if object_kind event \<noteq> ''series'' then Inr ()
       else case if_validate f of
         None \<Rightarrow> Inl (ErrRecurrenceCompat (ErrText ''target provider cannot validate lossless recurrence''))
       | Some validate \<Rightarrow> map_err ErrRecurrenceCompat (validate (ev_recurrence event) (ev_start event)))
     events ()"

record ('s, 't) plan =
  pl_env :: "('s, 't) run_env"
  pl_events :: "event_v2 list"
  pl_existing :: "mapping list"
  pl_by_key :: "(string \<times> mapping) list"
  pl_active_detached :: nat

definition staged :: "string \<Rightarrow> ('s, 'a) prog \<Rightarrow> ('s, 'a) prog" where
  "staged stage m = wrap_fail (ErrFailure stage) m"

definition typed_provider :: "('s, 't) engine \<Rightarrow> 's provider \<Rightarrow> string \<Rightarrow> 's event_ops res" where
  "typed_provider e p msg = (case if_v2 (en_iface e p) of None \<Rightarrow> Inl (ErrText msg) | Some ops \<Rightarrow> Inr ops)"

definition select_source ::
  "('s, 't) engine \<Rightarrow> rule \<Rightarrow> event_v2 list option \<Rightarrow> ('s, ('s event_ops \<times> string) option) prog" where
  "select_source e rule cached = (case cached of
       Some _ \<Rightarrow> ret None
     | None \<Rightarrow>
         and_then (resolve_enabled (en_registry e) (ru_source_calendar_id rule)) (\<lambda>(p, i).
         and_then (lift_res (typed_provider e p ''source provider does not support typed event listing''))
           (\<lambda>ops. ret (Some (ops, i)))))"

definition read_source ::
  "('s, 't) engine \<Rightarrow> instant \<Rightarrow> instant \<Rightarrow> event_v2 list option \<Rightarrow> ('s event_ops \<times> string) option \<Rightarrow>
   ('s, event_v2 list) prog" where
  "read_source e start stop cached source = (case source of
       None \<Rightarrow> ret (case cached of None \<Rightarrow> [] | Some events \<Rightarrow> events)
     | Some (ops, i) \<Rightarrow> wrap_fail (ErrWrap ''list source events'')
         (list_all (en_fuel e) ops
           \<lparr>le_availability_strict = False, le_calendar_id = i, le_start = start, le_end = stop,
            le_view = RecurrenceBoth, le_show_deleted = True, le_page_token = '''', le_max_results = 0\<rparr> []))"

definition has_pending_mutation :: "mapping list \<Rightarrow> bool" where
  "has_pending_mutation existing = list_ex (\<lambda>m. mp_reconciliation_state m = ''pending_update'' \<or>
     mp_reconciliation_state m = ''pending_delete'') existing"

text \<open>The pure part of the plan: from the events and the mappings to what the loop goes through.\<close>

definition plan_events ::
  "('s, 't) engine \<Rightarrow> 's provider \<Rightarrow> mapping list \<Rightarrow> event_v2 list \<Rightarrow>
   (event_v2 list \<times> (string \<times> string) list \<times> nat) res" where
  "plan_events e target existing listed =
     (let byKey = by_row_key existing;
          events = deduplicate_and_order listed;
          detached = detached_series existing byKey events;
          kept = filter_events detached events;
          f = en_iface e target in
      if has_pending_mutation existing then Inl (ErrFailure ''mappings'' (Sentinel ErrPendingTargetMutation))
      else bind_res (map_err (ErrFailure ''mappings'')
             (fold_res (\<lambda>event _. check_detached byKey detached event) events ())) (\<lambda>_.
           bind_res (if if_recurring f = Some True then Inr ()
             else map_err (ErrFailure ''safe_recurrence_preflight'')
                    (preflight_safe_recurrence (en_unicode e) kept byKey existing)) (\<lambda>_.
           bind_res (map_err (ErrFailure ''recurrence'') (check_recurrence_writes f kept)) (\<lambda>_.
             Inr (kept, series_titles events, active_detached detached events)))))"

definition plan_run ::
  "('s, 't) engine \<Rightarrow> rule \<Rightarrow> bool \<Rightarrow> event_v2 list option \<Rightarrow> (('s, 't) world, ('s, 't) plan) prog" where
  "plan_run e rule dry cached =
     and_then (staged ''rule_validation'' (lift_res (validate_rule rule))) (\<lambda>_.
     and_then (staged ''source_selection'' (ext_op (select_source e rule cached))) (\<lambda>source.
     and_then (staged ''target_selection'' (ext_op (resolve_enabled (en_registry e) (ru_target_calendar_id rule))))
       (\<lambda>(target, targetCalendarID).
     and_then (staged ''capabilities'' (lift_res (typed_provider e target
       ''target provider does not support typed event writes''))) (\<lambda>ops.
     and_then (staged ''capabilities'' (lift_res (if dry then Inr () else require_safe_no_attendee_target e target)))
       (\<lambda>_.
     and_then (gets (\<lambda>w. en_now e (wo_ext w))) (\<lambda>now.
     let start = add_days now (- ru_lookback_days rule); stop = add_days now (ru_lookahead_days rule) in
     and_then (staged ''source_read'' (ext_op (read_source e start stop cached source))) (\<lambda>listed.
     and_then (gets (\<lambda>w. mo_list (en_store e) (ru_id rule) (wo_table w))) (\<lambda>existing.
     and_then (lift_res (plan_events e target existing listed)) (\<lambda>(events, titles, active).
       ret \<lparr>pl_env = \<lparr>re_engine = e, re_rule = rule, re_dry = dry, re_now = now, re_start = start, re_end = stop,
              re_target = \<lparr>tg_provider = target, tg_ops = ops,
                tg_source_id = (if cached = None then ru_source_calendar_id rule else ''''),
                tg_target_id = ru_target_calendar_id rule\<rparr>,
              re_calendar_id = targetCalendarID, re_titles = titles,
              re_occurrences = index_occurrences events\<rparr>,
            pl_events = events, pl_existing = existing, pl_by_key = by_row_key existing,
            pl_active_detached = active\<rparr>)))))))))"

section \<open>A run\<close>

definition incomplete_live :: "event_v2 list \<Rightarrow> nat" where
  "incomplete_live events =
     length (filter (\<lambda>e. ev_status e \<noteq> ''cancelled'' \<and> \<not> ev_source_attendees_complete e) events)"

definition initial_result :: "('s, 't) plan \<Rightarrow> sync_result" where
  "initial_result p = zero_result
     \<lparr>sr_warnings := int (pl_active_detached p) + int (incomplete_live (pl_events p)),
      sr_detached_series := int (pl_active_detached p),
      sr_participants_incomplete := int (incomplete_live (pl_events p)),
      sr_preview := (if re_dry (pl_env p) then Some empty_preview else None)\<rparr>"

definition initial_state :: "('s, 't) plan \<Rightarrow> ('s, 't) world \<Rightarrow> ('s, 't) run_state" where
  "initial_state p w = \<lparr>rs_world = w, rs_result = initial_result p, rs_by_key = pl_by_key p, rs_seen = []\<rparr>"

definition reconcile :: "('s, 't) plan \<Rightarrow> ('s, 't, unit) step" where
  "reconcile p =
     and_then (for_each (process_event (pl_env p)) (pl_events p)) (\<lambda>_.
       for_each (restore_mapping (pl_env p)) (pl_existing p))"

type_synonym ('s, 't) outcome = "(err option \<times> sync_result) \<times> ('s, 't) world"

text \<open>\<open>e.run\<close>: the result is returned beside the error.\<close>

definition run_events ::
  "('s, 't) engine \<Rightarrow> rule \<Rightarrow> bool \<Rightarrow> event_v2 list option \<Rightarrow> ('s, 't) world \<Rightarrow> ('s, 't) outcome" where
  "run_events e rule dry cached w = (case plan_run e rule dry cached w of
       (Inl x, w') \<Rightarrow> ((Some x, zero_result), w')
     | (Inr p, w') \<Rightarrow> (case reconcile p (initial_state p w') of
           (r, rs) \<Rightarrow> ((case r of Inl x \<Rightarrow> Some (ErrFailure ''reconciliation'' x) | Inr _ \<Rightarrow> None,
                       rs_result rs), rs_world rs)))"

definition run_rule ::
  "('s, 't) engine \<Rightarrow> rule \<Rightarrow> bool \<Rightarrow> ('s, 't) world \<Rightarrow> ('s, 't) outcome" where
  "run_rule e rule dry w =
     (if ru_sync_mode rule = ''cached_instances''
      then ((Some (ErrText ''cached instance rules require the cache-only engine''), zero_result), w)
      else run_events e rule dry None w)"

end
