(* ===== verification/Sync_Safety.thy ===== *)
theory Sync_Safety
  imports Sync_Engine
begin

text \<open>
  What a run of the sync engine does to the target.  The interface of the mapping table is the
  locale \<open>mapping_store\<close>: what an insert and a compare-and-swap leave in the table.  Under it, every
  call that a run sends is attendee-free, silent, right after a passed fence and selection check,
  and covered by a durable intent in the table.
\<close>

section \<open>The mapping store as an interface\<close>

locale mapping_store =
  fixes ops :: "'t mapping_ops"
    and rows :: "'t \<Rightarrow> mapping set"
  assumes list_rows: "m \<in> set (mo_list ops ruleID t) \<Longrightarrow> m \<in> rows t \<and> mp_rule_id m = ruleID"
    and insert_mutation_row: "mo_insert_mutation ops u m t = (Inr inc, t') \<Longrightarrow> inc \<noteq> '''' \<Longrightarrow>
      m\<lparr>mp_incarnation := inc, mp_version := 1\<rparr> \<in> rows t'"
    and insert_create_row: "mo_insert_create ops u m t = (Inr inc, t') \<Longrightarrow> inc \<noteq> '''' \<Longrightarrow>
      m\<lparr>mp_incarnation := inc, mp_version := 1, mp_target_etag := ''''\<rparr> \<in> rows t'"
    and update_row: "mo_update_cas ops m v t = (Inr (), t') \<Longrightarrow> m\<lparr>mp_version := v + 1\<rparr> \<in> rows t'"

text \<open>The table of the repository's store provides it.\<close>

definition table_ops :: "mapping_table mapping_ops" where
  "table_ops = \<lparr>mo_list = list_mappings, mo_insert_create = insert_pending_create_mapping,
     mo_insert_mutation = insert_pending_mutation_mapping, mo_update_cas = update_mapping_cas,
     mo_delete_cas = delete_mapping_cas\<rparr>"

interpretation event_mappings: mapping_store table_ops set
proof
  show "m \<in> set t \<and> mp_rule_id m = ruleID" if "m \<in> set (mo_list table_ops ruleID t)" for m ruleID t
    using that by (simp add: table_ops_def list_mappings_def)
  show "m\<lparr>mp_incarnation := inc, mp_version := 1\<rparr> \<in> set t'"
    if "mo_insert_mutation table_ops u m t = (Inr inc, t')" "inc \<noteq> ''''" for u m t inc t'
    using insert_pending_mutation_row [of u m t inc t'] that by (simp add: table_ops_def)
  show "m\<lparr>mp_incarnation := inc, mp_version := 1, mp_target_etag := ''''\<rparr> \<in> set t'"
    if "mo_insert_create table_ops u m t = (Inr inc, t')" "inc \<noteq> ''''" for u m t inc t'
    using insert_pending_create_row [of u m t inc t'] that by (simp add: table_ops_def)
  show "m\<lparr>mp_version := v + 1\<rparr> \<in> set t'" if "mo_update_cas table_ops m v t = (Inr (), t')" for m v t t'
    using update_mapping_cas_row [of m v t "()" t'] that by (simp add: table_ops_def)
qed

section \<open>A dry run writes nothing\<close>

text \<open>What a program may change of the world: only the outside.\<close>

definition untouched :: "'t \<Rightarrow> ('s, 't) sent list \<Rightarrow> ('s, 't) world \<Rightarrow> bool" where
  "untouched t sent w \<longleftrightarrow> wo_table w = t \<and> wo_sent w = sent"

lemma ext_op_untouched [preserves_intros]: "preserves (untouched t sent) (ext_op m)"
  by (rule preservesI) (auto simp: ext_op_def untouched_def split: prod.splits)

lemma in_world_preserves [preserves_intros]:
  "preserves I m \<Longrightarrow> preserves (\<lambda>rs. I (rs_world rs)) (in_world m)"
  unfolding preserves_def in_world_def by (auto split: prod.splits)

lemma on_result_preserves [preserves_intros]: "preserves (\<lambda>rs. I (rs_world rs)) (on_result f)"
  and note_action_preserves [preserves_intros]: "preserves (\<lambda>rs. I (rs_world rs)) (note_action v ev a r st)"
  and put_key_preserves [preserves_intros]: "preserves (\<lambda>rs. I (rs_world rs)) (put_key k m)"
  and forget_key_preserves [preserves_intros]: "preserves (\<lambda>rs. I (rs_world rs)) (forget_key k)"
  by (simp_all add: preserves_def on_result_def note_action_def put_key_def forget_key_def modify_def)

lemma modify_seen_preserves [preserves_intros]:
  "preserves (\<lambda>rs. I (rs_world rs)) (modify (\<lambda>rs. rs\<lparr>rs_seen := f rs\<rparr>))"
  by (simp add: preserves_def modify_def)

abbreviation rs_untouched :: "'t \<Rightarrow> ('s, 't) sent list \<Rightarrow> ('s, 't) run_state \<Rightarrow> bool" where
  "rs_untouched t sent \<equiv> \<lambda>rs. untouched t sent (rs_world rs)"

lemma dry_reconcile_exception:
  "re_dry v \<Longrightarrow> preserves (rs_untouched t sent) (reconcile_exception v event mapped)"
  unfolding reconcile_exception_def by (intro preserves_intros) simp_all

lemma dry_reconcile_cancelled:
  "re_dry v \<Longrightarrow> preserves (rs_untouched t sent) (reconcile_cancelled v event mapped)"
  unfolding reconcile_cancelled_def by (intro preserves_intros) simp_all

lemma dry_reconcile_create:
  "re_dry v \<Longrightarrow> preserves (rs_untouched t sent) (reconcile_create v event pend)"
  unfolding reconcile_create_def if_P by (intro preserves_intros)

lemma dry_reconcile_changed:
  "re_dry v \<Longrightarrow> preserves (rs_untouched t sent) (reconcile_changed v event m)"
  unfolding reconcile_changed_def by (intro preserves_intros) simp_all

lemma dry_process_event:
  assumes "re_dry v"
  shows "preserves (rs_untouched t sent) (process_event v event)"
proof -
  have d: "preserves (rs_untouched t sent) (dispatch_event v event mapped pend)" for mapped pend
    unfolding dispatch_event_def
    by (intro preserves_intros dry_reconcile_exception dry_reconcile_cancelled dry_reconcile_create
        dry_reconcile_changed assms)
  show ?thesis
    unfolding process_event_def by (intro preserves_intros d) (simp_all add: assms)
qed

lemma dry_restore_mapping:
  "re_dry v \<Longrightarrow> preserves (rs_untouched t sent) (restore_mapping v m)"
  unfolding restore_mapping_def restore_occurrence_def by (intro preserves_intros) simp_all

lemma staged_preserves [preserves_intros]: "preserves I m \<Longrightarrow> preserves I (staged stage m)"
  unfolding staged_def by (rule preserves_wrap_fail)

lemma plan_run_untouched: "preserves (untouched t sent) (plan_run e rule dry cached)"
  unfolding plan_run_def Let_def split_def by (intro preserves_intros)

lemma plan_run_env:
  assumes "plan_run e rule dry cached w = (Inr p, w')"
  shows "re_engine (pl_env p) = e" "re_rule (pl_env p) = rule" "re_dry (pl_env p) = dry"
    "pl_existing p = mo_list (en_store e) (ru_id rule) (wo_table w)"
    "pl_by_key p = by_row_key (pl_existing p)"
    "wo_table w' = wo_table w" "wo_sent w' = wo_sent w" "wo_drawn w' = wo_drawn w"
    "\<exists>target ops listed titles n.
       re_target (pl_env p) = \<lparr>tg_provider = target, tg_ops = ops,
         tg_source_id = (if cached = None then ru_source_calendar_id rule else ''''),
         tg_target_id = ru_target_calendar_id rule\<rparr> \<and>
       plan_events e target (pl_existing p) listed = Inr (pl_events p, titles, n) \<and>
       (cached \<noteq> None \<longrightarrow> listed = the cached) \<and> pl_active_detached p = n \<and>
       re_occurrences (pl_env p) = index_occurrences (pl_events p) \<and>
       (dry \<or> require_safe_no_attendee_target e target = Inr ())"
proof -
  obtain u s1 source s2 tp s3 ops s4 u2 s5 now s6 listed s7 existing s8 pl s9 where steps:
    "validate_rule rule = Inr u" "s1 = w" "ext_op (select_source e rule cached) s1 = (Inr source, s2)"
    "ext_op (resolve_enabled (en_registry e) (ru_target_calendar_id rule)) s2 = (Inr tp, s3)"
    "typed_provider e (fst tp) ''target provider does not support typed event writes'' = Inr ops" "s4 = s3"
    "(if dry then Inr () else require_safe_no_attendee_target e (fst tp)) = Inr u2" "s5 = s4" "now = en_now e (wo_ext s5)" "s6 = s5"
    "ext_op (read_source e (add_days now (- ru_lookback_days rule))
       (add_days now (ru_lookahead_days rule)) cached source) s6 = (Inr listed, s7)"
    "existing = mo_list (en_store e) (ru_id rule) (wo_table s7)" "s8 = s7"
    "plan_events e (fst tp) existing listed = Inr pl" "s9 = s8"
    and p: "p = \<lparr>pl_env = \<lparr>re_engine = e, re_rule = rule, re_dry = dry, re_now = now,
              re_start = add_days now (- ru_lookback_days rule),
              re_end = add_days now (ru_lookahead_days rule),
              re_target = \<lparr>tg_provider = fst tp, tg_ops = ops,
                tg_source_id = (if cached = None then ru_source_calendar_id rule else ''''),
                tg_target_id = ru_target_calendar_id rule\<rparr>,
              re_calendar_id = snd tp, re_titles = fst (snd pl),
              re_occurrences = index_occurrences (fst pl)\<rparr>,
            pl_events = fst pl, pl_existing = existing,
            pl_by_key = by_row_key existing,
            pl_active_detached = snd (snd pl)\<rparr>" "w' = s9"
    using assms unfolding plan_run_def staged_def Let_def split_def returns_iff
    by (elim exE conjE) (rule that)
  have same: "wo_table s2 = wo_table s1 \<and> wo_sent s2 = wo_sent s1 \<and> wo_drawn s2 = wo_drawn s1"
    "wo_table s3 = wo_table s2 \<and> wo_sent s3 = wo_sent s2 \<and> wo_drawn s3 = wo_drawn s2"
    "wo_table s7 = wo_table s6 \<and> wo_sent s7 = wo_sent s6 \<and> wo_drawn s7 = wo_drawn s6"
    using steps(3,4,11) by (auto simp: ext_op_def split: prod.splits)
  have listed: "listed = the cached" if "cached \<noteq> None"
    using that steps(3,11)
    by (auto simp: select_source_def read_source_def ext_op_def ret_def split: prod.splits)
  show "re_engine (pl_env p) = e" "re_rule (pl_env p) = rule" "re_dry (pl_env p) = dry"
    "pl_existing p = mo_list (en_store e) (ru_id rule) (wo_table w)"
    "pl_by_key p = by_row_key (pl_existing p)"
    "wo_table w' = wo_table w" "wo_sent w' = wo_sent w" "wo_drawn w' = wo_drawn w"
    using p same steps(2,6,8,10,12,13,15) by simp_all
  show "\<exists>target ops listed titles n.
       re_target (pl_env p) = \<lparr>tg_provider = target, tg_ops = ops,
         tg_source_id = (if cached = None then ru_source_calendar_id rule else ''''),
         tg_target_id = ru_target_calendar_id rule\<rparr> \<and>
       plan_events e target (pl_existing p) listed = Inr (pl_events p, titles, n) \<and>
       (cached \<noteq> None \<longrightarrow> listed = the cached) \<and> pl_active_detached p = n \<and>
       re_occurrences (pl_env p) = index_occurrences (pl_events p) \<and>
       (dry \<or> require_safe_no_attendee_target e target = Inr ())"
    by (rule exI [of _ "fst tp"], rule exI [of _ ops], rule exI [of _ listed],
        rule exI [of _ "fst (snd pl)"], rule exI [of _ "snd (snd pl)"])
       (use p steps(7,14) listed in \<open>auto split: if_splits\<close>)
qed

lemma dry_run_writes_nothing:
  "wo_table (snd (run_events e rule True cached w)) = wo_table w \<and>
   wo_sent (snd (run_events e rule True cached w)) = wo_sent w"
proof -
  obtain out w' where run: "run_events e rule True cached w = (out, w')" by fastforce
  obtain r w1 where r: "plan_run e rule True cached w = (r, w1)" by fastforce
  have w1: "untouched (wo_table w) (wo_sent w) w1"
    using preservesD [OF plan_run_untouched, of "wo_table w" "wo_sent w" w e rule True cached] r
    by (simp add: untouched_def)
  have "untouched (wo_table w) (wo_sent w) w'"
  proof (cases r)
    case (Inl x)
    then show ?thesis using run r w1 by (simp add: run_events_def)
  next
    case (Inr p)
    have dry: "re_dry (pl_env p)" using plan_run_env(3) [OF r [unfolded Inr]] by simp
    have "preserves (rs_untouched (wo_table w) (wo_sent w)) (reconcile p)"
      unfolding reconcile_def
      by (intro preserves_and_then preserves_for_each dry_process_event dry_restore_mapping dry)
    moreover have "rs_untouched (wo_table w) (wo_sent w) (initial_state p w1)"
      using w1 by (simp add: initial_state_def)
    moreover obtain q rs where q: "reconcile p (initial_state p w1) = (q, rs)" by fastforce
    ultimately have "rs_untouched (wo_table w) (wo_sent w) rs"
      using preservesD [of _ "reconcile p" "initial_state p w1"] by fastforce
    moreover have "w' = rs_world rs" using run r Inr q by (simp add: run_events_def)
    ultimately show ?thesis by simp
  qed
  then show ?thesis by (simp add: run untouched_def)
qed

subsection \<open>Previews\<close>

text \<open>Every preview that a run builds stays within its bounds.\<close>

definition preview_fine :: "('s, 't) run_state \<Rightarrow> bool" where
  "preview_fine rs \<longleftrightarrow> (case sr_preview (rs_result rs) of None \<Rightarrow> True | Some p \<Rightarrow> preview_ok p)"

lemma preview_fine_in_world [preserves_intros]: "preserves preview_fine (in_world m)"
  by (auto simp: preserves_def preview_fine_def in_world_def split: prod.splits)

lemma preview_fine_note [preserves_intros]: "preserves preview_fine (note_action v ev a r st)"
proof (rule preservesI)
  fix s :: "('a, 'b) run_state"
  assume "preview_fine s"
  then show "preview_fine (snd (note_action v ev a r st s))"
    using preview_action_ok [of _ "preview_event (re_titles v) ev" a r st]
    by (cases "sr_preview (rs_result s)")
      (force simp: preview_fine_def note_action_def on_result_def modify_def preview_action_def)+
qed

lemma preview_fine_keys [preserves_intros]:
  "preserves preview_fine (put_key k row)" "preserves preview_fine (forget_key k)"
  "preserves preview_fine (modify (\<lambda>rs. rs\<lparr>rs_seen := f rs\<rparr>))"
  by (simp_all add: preserves_def preview_fine_def put_key_def forget_key_def modify_def)

lemma preview_fine_bump [preserves_intros]:
  "preserves preview_fine (on_result bump_created)" "preserves preview_fine (on_result bump_updated)"
  "preserves preview_fine (on_result bump_deleted)" "preserves preview_fine (on_result bump_skipped)"
  "preserves preview_fine (on_result bump_warnings)"
  by (simp_all add: preserves_def preview_fine_def on_result_def modify_def
      bump_created_def bump_updated_def bump_deleted_def bump_skipped_def bump_warnings_def)

lemma lookup_copy_preview [preserves_intros]: "preserves preview_fine (lookup_copy v find_marker event msg)"
  unfolding lookup_copy_def by (intro preserves_intros)

lemma exception_preview [preserves_intros]:
  "preserves preview_fine (delete_exception v event mapped series found)"
  "preserves preview_fine (update_exception v event mapped series found)"
  unfolding delete_exception_def update_exception_def by (intro preserves_intros)+

lemma preserves_if_app [preserves_intros]:
  "preserves I (f x) \<Longrightarrow> preserves I (g x) \<Longrightarrow> preserves I ((if c then f else g) x)"
  by simp

lemma create_preview [preserves_intros]:
  "preserves preview_fine (create_copy v event)"
  "preserves preview_fine (update_copy v event m c)"
  "preserves preview_fine (settle_copy v event mc)"
  unfolding create_copy_def update_copy_def settle_copy_def by (intro preserves_intros)+

lemma branches_preview [preserves_intros]:
  "preserves preview_fine (reconcile_exception v event mapped)"
  "preserves preview_fine (reconcile_cancelled v event mapped)"
  "preserves preview_fine (reconcile_create v event pend)"
  "preserves preview_fine (reconcile_changed v event m)"
  "preserves preview_fine (recover_cancelled v event m)"
  unfolding reconcile_exception_def reconcile_cancelled_def reconcile_create_def reconcile_changed_def
    recover_cancelled_def obtain_copy_def by (intro preserves_intros)+

lemma process_event_preview: "preserves preview_fine (process_event v event)"
  unfolding process_event_def dispatch_event_def by (intro preserves_intros)

lemma restore_mapping_preview: "preserves preview_fine (restore_mapping v m)"
  unfolding restore_mapping_def restore_occurrence_def by (intro preserves_intros)

lemma run_preview_fine:
  "case sr_preview (snd (fst (run_events e rule dry cached w))) of None \<Rightarrow> True | Some p \<Rightarrow> preview_ok p"
proof (cases "plan_run e rule dry cached w")
  case (Pair r w1)
  show ?thesis
  proof (cases r)
    case (Inl x)
    then show ?thesis using Pair by (simp add: run_events_def zero_result_def)
  next
    case (Inr p)
    have "preserves preview_fine (reconcile p)"
      unfolding reconcile_def
      by (intro preserves_and_then preserves_for_each process_event_preview restore_mapping_preview)
    moreover have "preview_fine (initial_state p w1)"
      by (simp add: preview_fine_def initial_state_def initial_result_def zero_result_def)
    ultimately have "preview_fine (snd (reconcile p (initial_state p w1)))" by (rule preservesD)
    then show ?thesis
      by (simp add: run_events_def Pair Inr preview_fine_def split_def)
  qed
qed

text \<open>
  C6. A dry run is read-only: whatever it returns, it has written no mapping and sent nothing to
  the target provider, and its preview is bounded: at most 1000 entries with titles of at most 512
  characters, a total that counts every action, and a mark when entries are missing.
\<close>

theorem dry_run_is_read_only:
  "case run_events e rule True cached w of ((x, res), w') \<Rightarrow>
     wo_table w' = wo_table w \<and> wo_sent w' = wo_sent w \<and>
     (case sr_preview res of None \<Rightarrow> True | Some p \<Rightarrow> preview_ok p)"
  using dry_run_writes_nothing [of e rule cached w] run_preview_fine [of e rule True cached w]
  by (simp add: split_def)

section \<open>Every call sent is justified\<close>

text \<open>
  What a call must satisfy, with the table and the outside state it was sent in: the selection and
  the dispatch fence had just been passed; no attendees, no notifications; it addresses the rule's
  target calendar; it is a mirror of an event of the run; and a row of the rule in the table says
  what is being attempted.
\<close>

definition intent_for ::
  "('s, 't) run_env \<Rightarrow> mapping set \<Rightarrow> string \<Rightarrow> event_v2 \<Rightarrow> mapping \<Rightarrow> bool" where
  "intent_for v R kind event m \<longleftrightarrow> m \<in> R \<and> mp_rule_id m = ru_id (re_rule v) \<and>
     mp_reconciliation_state m = kind \<and> row_key m = event_key event"

definition target_intent_row :: "('s, 't) run_env \<Rightarrow> mapping set \<Rightarrow> string \<Rightarrow> string \<Rightarrow> bool" where
  "target_intent_row v R kind targetID \<longleftrightarrow> (\<exists>m \<in> R. mp_rule_id m = ru_id (re_rule v) \<and>
     mp_reconciliation_state m = kind \<and> mp_target_event_id m = targetID)"

definition safe_create :: "('s, 't) run_env \<Rightarrow> event_v2 list \<Rightarrow> mapping set \<Rightarrow> create_event_request \<Rightarrow> bool" where
  "safe_create v events R req \<longleftrightarrow>
     cr_require_no_attendees req \<and> cr_notifications req = NotificationsNone \<and>
     ec_attendees (cr_event req) = [] \<and> cr_calendar_id req = re_calendar_id v \<and>
     (\<exists>event \<in> set events. ev_status event \<noteq> ''cancelled'' \<and>
        cr_event req = mirror_create (en_unicode (re_engine v)) (ru_id (re_rule v)) event
          (pr_name (tg_provider (re_target v))) \<and>
        (\<exists>m. intent_for v R ''pending_create'' event m))"

definition safe_update :: "('s, 't) run_env \<Rightarrow> event_v2 list \<Rightarrow> mapping set \<Rightarrow> update_event_request \<Rightarrow> bool" where
  "safe_update v events R req \<longleftrightarrow>
     ur_require_no_attendees req \<and> ur_notifications req = NotificationsNone \<and>
     \<not> pf_present (pa_attendees (ur_patch req)) \<and> ref_calendar_id (ur_ref req) = re_calendar_id v \<and>
     (\<exists>event \<in> set events. ev_status event \<noteq> ''cancelled'' \<and>
        ur_patch req = mirror_patch (en_unicode (re_engine v)) event) \<and>
     target_intent_row v R ''pending_update'' (ref_event_id (ur_ref req))"

definition safe_delete :: "('s, 't) run_env \<Rightarrow> event_v2 list \<Rightarrow> mapping set \<Rightarrow> delete_event_request \<Rightarrow> bool" where
  "safe_delete v events R req \<longleftrightarrow>
     dr_require_no_attendees req \<and> dr_notifications req = NotificationsNone \<and>
     ref_calendar_id (dr_ref req) = re_calendar_id v \<and>
     (\<exists>event \<in> set events. ev_status event = ''cancelled'' \<and>
        (\<exists>m. intent_for v R ''pending_delete'' event m \<and> mp_target_event_id m = ref_event_id (dr_ref req)))"

definition justified ::
  "('t \<Rightarrow> mapping set) \<Rightarrow> ('s, 't) run_env \<Rightarrow> event_v2 list \<Rightarrow> ('s, 't) sent \<Rightarrow> bool" where
  "justified rows v events x \<longleftrightarrow>
     (\<exists>s. guard_check (re_engine v) (re_target v) s = (Inr (), st_ext x)) \<and>
     (case st_call x of
        CallCreate req \<Rightarrow> safe_create v events (rows (st_table x)) req
      | CallUpdate req \<Rightarrow> safe_update v events (rows (st_table x)) req
      | CallDelete req \<Rightarrow> safe_delete v events (rows (st_table x)) req)"

definition all_justified ::
  "('t \<Rightarrow> mapping set) \<Rightarrow> ('s, 't) run_env \<Rightarrow> event_v2 list \<Rightarrow> ('s, 't) world \<Rightarrow> bool" where
  "all_justified rows v events w \<longleftrightarrow> (\<forall>x \<in> set (wo_sent w). justified rows v events x)"

subsection \<open>Triples of the world\<close>

lemma ext_op_frame:
  assumes "\<And>w s. I w \<Longrightarrow> I (w\<lparr>wo_ext := s\<rparr>)"
    and "\<And>w s s' x. I w \<Longrightarrow> P w \<Longrightarrow> m s = (Inr x, s') \<Longrightarrow> s = wo_ext w \<Longrightarrow> Q x (w\<lparr>wo_ext := s'\<rparr>)"
  shows "holds I P (ext_op m) Q"
  by (rule holdsI) (auto simp: ext_op_def assms split: prod.splits)

lemma all_justified_ext [simp]:
  "all_justified rows v events (w\<lparr>wo_ext := s\<rparr>) = all_justified rows v events w"
  "all_justified rows v events (w\<lparr>wo_table := t\<rparr>) = all_justified rows v events w"
  "all_justified rows v events (w\<lparr>wo_drawn := n\<rparr>) = all_justified rows v events w"
  by (simp_all add: all_justified_def)

lemma ext_op_keeps_table:
  "holds (all_justified rows v events) (\<lambda>w. R (wo_table w)) (ext_op m) (\<lambda>_ w. R (wo_table w))"
  by (rule ext_op_frame) simp_all

lemma send_justified:
  "holds (all_justified rows v events)
     (\<lambda>w. justified rows v events \<lparr>st_call = call, st_table = wo_table w, st_ext = wo_ext w\<rparr>)
     (send e call m) (\<lambda>_ _. True)"
  by (rule holdsI) (auto simp: send_def ext_op_def all_justified_def split: prod.splits)

lemma guard_then_send:
  assumes "\<And>t. R t \<Longrightarrow> (case call of
        CallCreate req \<Rightarrow> safe_create v events (rows t) req
      | CallUpdate req \<Rightarrow> safe_update v events (rows t) req
      | CallDelete req \<Rightarrow> safe_delete v events (rows t) req)"
  shows "holds (all_justified rows v events) (\<lambda>w. R (wo_table w))
    (and_then (ext_op (guard_check (re_engine v) (re_target v))) (\<lambda>_. send (re_engine v) call m)) (\<lambda>_ _. True)"
proof (rule holds_and_then)
  show "holds (all_justified rows v events) (\<lambda>w. R (wo_table w)) (ext_op (guard_check (re_engine v) (re_target v)))
    (\<lambda>_ w. R (wo_table w) \<and> (\<exists>s. guard_check (re_engine v) (re_target v) s = (Inr (), wo_ext w)))"
    by (rule ext_op_frame) auto
  show "holds (all_justified rows v events)
      (\<lambda>w. R (wo_table w) \<and> (\<exists>s. guard_check (re_engine v) (re_target v) s = (Inr (), wo_ext w)))
      (send (re_engine v) call m) (\<lambda>_ _. True)" for u :: unit
    by (rule holds_pre [OF send_justified]) (use assms in \<open>simp add: justified_def\<close>)
qed

lemma send_update_holds:
  assumes "event \<in> set events" "ev_status event \<noteq> ''cancelled''"
  shows "holds (all_justified rows v events)
    (\<lambda>w. target_intent_row v (rows (wo_table w)) ''pending_update'' targetID)
    (send_update v targetID event scope etag marker) (\<lambda>_ _. True)"
  unfolding send_update_def guarded_update_def Let_def
proof (rule holds_and_then)
  let ?R = "\<lambda>w. target_intent_row v (rows (wo_table w)) ''pending_update'' targetID"
  show "holds (all_justified rows v events) ?R (lift_res
      (require_safe_no_attendee_target (re_engine v) (tg_provider (re_target v)))) (\<lambda>_. ?R)"
    by (rule holds_lift_res)
qed (use assms in \<open>auto simp: update_request_def safe_update_def intro!: guard_then_send\<close>)

lemma send_delete_holds:
  assumes "event \<in> set events" "ev_status event = ''cancelled''"
  shows "holds (all_justified rows v events)
    (\<lambda>w. \<exists>m. intent_for v (rows (wo_table w)) ''pending_delete'' event m \<and> mp_target_event_id m = targetID)
    (send_delete v targetID scope etag marker) (\<lambda>_ _. True)"
  unfolding send_delete_def guarded_delete_def Let_def
proof (rule holds_and_then)
  let ?R = "\<lambda>w. \<exists>m. intent_for v (rows (wo_table w)) ''pending_delete'' event m \<and> mp_target_event_id m = targetID"
  show "holds (all_justified rows v events) ?R (lift_res
      (require_safe_no_attendee_target (re_engine v) (tg_provider (re_target v)))) (\<lambda>_. ?R)"
    by (rule holds_lift_res)
  show "holds (all_justified rows v events) ?R (and_then (ext_op (guard_check (re_engine v) (re_target v))) (\<lambda>_.
      send (re_engine v) (CallDelete ((delete_request (re_calendar_id v) targetID scope etag marker)
        \<lparr>dr_notifications := NotificationsNone, dr_require_no_attendees := True\<rparr>))
       (eo_delete (tg_ops (re_target v)) ((delete_request (re_calendar_id v) targetID scope etag marker)
        \<lparr>dr_notifications := NotificationsNone, dr_require_no_attendees := True\<rparr>)))) (\<lambda>_ _. True)" for u :: unit
    by (rule guard_then_send) (use assms in \<open>auto simp: delete_request_def safe_delete_def\<close>)
qed

subsection \<open>Triples of a step\<close>

text \<open>The mappings a run knows are rows of its rule, under their own keys.\<close>

definition keys_ok :: "string \<Rightarrow> (string \<times> mapping) list \<Rightarrow> bool" where
  "keys_ok ruleID byKey \<longleftrightarrow> (\<forall>k m. map_of byKey k = Some m \<longrightarrow> row_key m = k \<and> mp_rule_id m = ruleID)"

text \<open>An invariant of the world beside one of the index.\<close>

definition run_inv ::
  "(('s, 't) world \<Rightarrow> bool) \<Rightarrow> ((string \<times> mapping) list \<Rightarrow> bool) \<Rightarrow> ('s, 't) run_state \<Rightarrow> bool" where
  "run_inv I J rs \<longleftrightarrow> I (rs_world rs) \<and> J (rs_by_key rs)"

abbreviation run_ok ::
  "('t \<Rightarrow> mapping set) \<Rightarrow> ('s, 't) run_env \<Rightarrow> event_v2 list \<Rightarrow> ('s, 't) run_state \<Rightarrow> bool" where
  "run_ok rows v events \<equiv> run_inv (all_justified rows v events) (keys_ok (ru_id (re_rule v)))"

lemma in_world_holds:
  assumes "holds I P m Q"
  shows "holds (run_inv I J) (\<lambda>rs. P (rs_world rs)) (in_world m) (\<lambda>x rs. Q x (rs_world rs))"
proof (rule holdsI)
  fix rs r rs' assume "run_inv I J rs" "P (rs_world rs)" and "in_world m rs = (r, rs')"
  then show "run_inv I J rs' \<and> (\<forall>x. r = Inr x \<longrightarrow> Q x (rs_world rs'))"
    using holdsD [OF assms, of "rs_world rs"]
    by (auto simp: in_world_def run_inv_def split: prod.splits)
qed

lemma on_result_holds [triples]:
  "holds (run_inv I J) (\<lambda>rs. P (rs_world rs)) (on_result f) (\<lambda>_ rs. P (rs_world rs))"
  by (simp add: holds_def on_result_def modify_def run_inv_def)

lemma note_action_holds [triples]:
  "holds (run_inv I J) (\<lambda>rs. P (rs_world rs)) (note_action v' ev a r st) (\<lambda>_ rs. P (rs_world rs))"
  unfolding note_action_def by (rule on_result_holds)

lemma keys_ok_update: "keys_ok i byKey \<Longrightarrow> row_key m = k \<Longrightarrow> mp_rule_id m = i \<Longrightarrow> keys_ok i (AList.update k m byKey)"
  by (simp add: keys_ok_def update_conv')

lemma keys_ok_delete: "keys_ok i byKey \<Longrightarrow> keys_ok i (AList.delete k byKey)"
  by (simp add: keys_ok_def)

lemma put_key_holds:
  "row_key m = k \<Longrightarrow> mp_rule_id m = ru_id (re_rule v) \<Longrightarrow>
   holds (run_ok rows v events) P (put_key k m) (\<lambda>_ _. True)"
  by (simp add: holds_def put_key_def modify_def run_inv_def keys_ok_update)

lemma forget_key_holds: "holds (run_ok rows v events) P (forget_key k) (\<lambda>_ _. True)"
  by (simp add: holds_def forget_key_def modify_def run_inv_def keys_ok_delete)

lemma row_key_exception [simp]:
  "row_key (exception_mapping v event tid series) = event_key event"
  "mp_rule_id (exception_mapping v event tid series) = ru_id (re_rule v)"
  by (simp_all add: exception_mapping_def event_mapping_def row_key_def event_key_def)

lemma row_key_updates [simp]:
  "row_key (m\<lparr>mp_target_event_id := a\<rparr>) = row_key m"
  "row_key (m\<lparr>mp_reconciliation_state := a\<rparr>) = row_key m"
  "row_key (m\<lparr>mp_version := n\<rparr>) = row_key m"
  "row_key (m\<lparr>mp_incarnation := a\<rparr>) = row_key m"
  "row_key (m\<lparr>mp_id := a\<rparr>) = row_key m"
  "row_key (m\<lparr>mp_content_hash := a\<rparr>) = row_key m"
  "row_key (m\<lparr>mp_target_series_id := a\<rparr>) = row_key m"
  "row_key (m\<lparr>mp_target_etag := a\<rparr>) = row_key m"
  "row_key (m\<lparr>mp_last_seen_at := t\<rparr>) = row_key m"
  by (simp_all add: row_key_def)

text \<open>A step that changes only the world and is justified in every state.\<close>

lemma world_step:
  assumes "holds I (\<lambda>_. True) m (\<lambda>_ _. True)"
  shows "holds (run_inv I J) P (in_world m) (\<lambda>_ _. True)"
  by (rule holds_pre [OF in_world_holds [OF assms]]) simp

lemma table_op_holds: "holds (all_justified rows v events) P (table_op f) (\<lambda>_ _. True)"
  by (rule holdsI) (auto simp: table_op_def split: prod.splits)

lemma complete_mutation_holds: "holds (all_justified rows v events) P (complete_mapping_mutation e p q out) (\<lambda>_ _. True)"
  unfolding complete_mapping_mutation_def Let_def by (simp add: table_op_holds triples)

lemma complete_delete_holds: "holds (all_justified rows v events) P (complete_mapping_delete e p out) (\<lambda>_ _. True)"
  unfolding complete_mapping_delete_def by (simp add: table_op_holds triples)

context mapping_store begin

text \<open>What a durable intent leaves in the table.\<close>

lemma begin_row:
  assumes "en_store e = ops" and run: "begin_mapping_mutation e m kind targetID w = (Inr p, w')"
  shows "p \<in> rows (wo_table w') \<and>
    (\<exists>n i. p = m\<lparr>mp_target_event_id := targetID, mp_reconciliation_state := kind, mp_version := n, mp_incarnation := i\<rparr>)"
proof -
  let ?m = "m\<lparr>mp_target_event_id := targetID, mp_reconciliation_state := kind\<rparr>"
  obtain c w1 where c: "ext_op (check_dispatch_fence e) w = (c, w1)" by fastforce
  show ?thesis
  proof (cases "mp_version m = 0")
    case True
    obtain inc w2 where i: "insert_op e (\<lambda>u. mo_insert_mutation ops u ?m) w1 = (Inr inc, w2)" "inc \<noteq> ''''"
      and p: "p = ?m\<lparr>mp_version := 1, mp_incarnation := inc\<rparr>" "w' = w2"
      using run c True assms(1)
      by (auto simp: begin_mapping_mutation_def and_then_def fail_def ret_def Let_def
          split: sum.splits prod.splits if_splits)
    have "?m\<lparr>mp_incarnation := inc, mp_version := 1\<rparr> \<in> rows (wo_table w2)"
      using i by (auto simp: insert_op_def table_op_def split: prod.splits intro: insert_mutation_row)
    moreover have "p = ?m\<lparr>mp_incarnation := inc, mp_version := 1\<rparr>"
      unfolding p(1) by (rule mapping.equality) simp_all
    moreover have "p = ?m\<lparr>mp_version := 1, mp_incarnation := inc\<rparr>" by (rule p(1))
    ultimately show ?thesis using p(2) by blast
  next
    case False
    obtain u w2 where i: "table_op (mo_update_cas ops ?m (mp_version m)) w1 = (Inr u, w2)"
      and p: "p = ?m\<lparr>mp_version := mp_version m + 1\<rparr>" "w' = w2"
      using run c False assms(1)
      by (auto simp: begin_mapping_mutation_def and_then_def fail_def ret_def Let_def
          split: sum.splits prod.splits if_splits)
    have "?m\<lparr>mp_version := mp_version m + 1\<rparr> \<in> rows (wo_table w2)"
      using i by (auto simp: table_op_def split: prod.splits intro: update_row)
    then have "p \<in> rows (wo_table w')" using p by (simp only:)
    moreover have "p = ?m\<lparr>mp_version := mp_version m + 1, mp_incarnation := mp_incarnation m\<rparr>" using p by simp
    ultimately show ?thesis by blast
  qed
qed

lemma begin_holds:
  assumes ops: "en_store e = ops"
  shows "holds (all_justified rows v events) P (begin_mapping_mutation e m kind targetID)
    (\<lambda>p w. p \<in> rows (wo_table w) \<and> mp_target_event_id p = targetID \<and> mp_reconciliation_state p = kind \<and>
       mp_rule_id p = mp_rule_id m \<and> row_key p = row_key m \<and> mp_source_event_id p = mp_source_event_id m \<and>
       mp_object_kind p = mp_object_kind m)"
proof (rule holdsI)
  fix w r w'
  assume inv: "all_justified rows v events w" and run: "begin_mapping_mutation e m kind targetID w = (r, w')"
  obtain c w1 where c: "ext_op (check_dispatch_fence e) w = (c, w1)" by fastforce
  have "all_justified rows v events w1"
    using inv c by (auto simp: ext_op_def split: prod.splits)
  then have "all_justified rows v events w'"
    using run c
    by (auto simp: begin_mapping_mutation_def and_then_def fail_def ret_def Let_def insert_op_def table_op_def
        split: sum.splits prod.splits if_splits)
  then show "all_justified rows v events w' \<and> (\<forall>x. r = Inr x \<longrightarrow> x \<in> rows (wo_table w') \<and>
      mp_target_event_id x = targetID \<and> mp_reconciliation_state x = kind \<and> mp_rule_id x = mp_rule_id m \<and>
      row_key x = row_key m \<and> mp_source_event_id x = mp_source_event_id m \<and> mp_object_kind x = mp_object_kind m)"
    using begin_row [OF ops, of m kind targetID w] run by fastforce
qed

lemma create_intent_holds:
  assumes "en_store (re_engine v) = ops"
  shows "holds (all_justified rows v events) P (create_intent v event)
    (\<lambda>m w. intent_for v (rows (wo_table w)) ''pending_create'' event m \<and> mp_target_etag m = '''')"
proof (rule holdsI)
  fix w r w'
  assume inv: "all_justified rows v events w" and run: "create_intent v event w = (r, w')"
  let ?m = "(event_mapping v event)\<lparr>mp_target_event_id := ''pending:'' @ mp_id (event_mapping v event),
        mp_reconciliation_state := ''pending_create''\<rparr>"
  obtain c w1 where c: "ext_op (check_dispatch_fence (re_engine v)) w = (c, w1)" by fastforce
  have w1: "all_justified rows v events w1"
    using inv c by (auto simp: ext_op_def split: prod.splits)
  have sent: "all_justified rows v events w'"
    using run c w1
    by (auto simp: create_intent_def and_then_def fail_def ret_def Let_def insert_op_def table_op_def wrap_fail_def
        split: sum.splits prod.splits if_splits)
  have "intent_for v (rows (wo_table w')) ''pending_create'' event m \<and> mp_target_etag m = ''''" if r: "r = Inr m" for m
  proof -
    obtain inc w2 where i: "insert_op (re_engine v) (\<lambda>u. mo_insert_create ops u ?m) w1 = (Inr inc, w2)" "inc \<noteq> ''''"
      and p: "m = ?m\<lparr>mp_version := 1, mp_incarnation := inc\<rparr>" "w' = w2"
      using run r c assms
      by (auto simp: create_intent_def and_then_def fail_def ret_def Let_def wrap_fail_def
          split: sum.splits prod.splits if_splits)
    have "?m\<lparr>mp_incarnation := inc, mp_version := 1, mp_target_etag := ''''\<rparr> \<in> rows (wo_table w2)"
      using i by (auto simp: insert_op_def table_op_def split: prod.splits intro: insert_create_row)
    moreover have "m = ?m\<lparr>mp_incarnation := inc, mp_version := 1, mp_target_etag := ''''\<rparr>"
      using p by (simp add: event_mapping_def zero_mapping_def)
    ultimately show ?thesis
      using p by (simp add: intent_for_def event_mapping_def zero_mapping_def row_key_def event_key_def)
  qed
  then show "all_justified rows v events w' \<and> (\<forall>x. r = Inr x \<longrightarrow>
      intent_for v (rows (wo_table w')) ''pending_create'' event x \<and> mp_target_etag x = '''')"
    using sent by blast
qed

end

text \<open>The rules of a step: what comes first in the sequence decides which one applies.\<close>

named_theorems steps "triples of the engine's steps, by the first operation of the sequence"

lemma step_result [steps]:
  "(\<And>x. holds (run_inv I J) (\<lambda>_. True) (k x) R) \<Longrightarrow>
   holds (run_inv I J) P (and_then (on_result f) k) R"
  and step_note [steps]:
  "(\<And>x. holds (run_inv I J) (\<lambda>_. True) (k x) R) \<Longrightarrow>
   holds (run_inv I J) P (and_then (note_action v' ev a r st) k) R"
  and step_fail [steps]: "holds I' P' (fail e) R'"
  and step_ret [steps]: "holds I' P' (ret x) (\<lambda>_ _. True)"
  and leaf_result [steps]: "holds (run_inv I J) P (on_result f) (\<lambda>_ _. True)"
  and leaf_note [steps]: "holds (run_inv I J) P (note_action v' ev a r st) (\<lambda>_ _. True)"
  by (auto simp: holds_def and_then_def on_result_def note_action_def modify_def run_inv_def ret_def fail_def
      split: prod.splits sum.splits)

lemma step_lift [steps]:
  "(\<And>x. r = Inr x \<Longrightarrow> holds I P (k x) R) \<Longrightarrow> holds I P (and_then (lift_res r) k) R"
  by (cases r) (auto simp: holds_def and_then_def lift_res_def)

lemma step_gets:
  "(\<And>s. I s \<Longrightarrow> P s \<Longrightarrow> holds I P (k (f s)) R) \<Longrightarrow> holds I P (and_then (gets f) k) R"
  by (auto simp: holds_def and_then_def gets_def)

lemma step_world:
  "holds I (\<lambda>_. True) m (\<lambda>_ _. True) \<Longrightarrow>
   (\<And>x. holds (run_inv I J) (\<lambda>_. True) (k x) R) \<Longrightarrow>
   holds (run_inv I J) P (and_then (in_world m) k) R"
  by (rule holds_and_then [OF world_step])

lemma ext_op_justified: "holds (all_justified rows v events) P (ext_op m) (\<lambda>_ _. True)"
  by (rule ext_op_frame) simp_all

lemma step_lookup [steps]:
  "(\<And>x. holds (run_ok rows v events) (\<lambda>_. True) (k x) R) \<Longrightarrow>
   holds (run_ok rows v events) P (and_then (lookup_copy v find_marker event msg) k) R"
  unfolding lookup_copy_def by (rule step_world, rule holds_wrap_fail, rule ext_op_justified)

lemma step_case_option [steps]:
  "(x = None \<Longrightarrow> holds I P m R) \<Longrightarrow> (\<And>y. x = Some y \<Longrightarrow> holds I P (n y) R) \<Longrightarrow>
   holds I P (case x of None \<Rightarrow> m | Some y \<Rightarrow> n y) R"
  by (cases x) simp_all

lemma step_if [steps]:
  "(b \<Longrightarrow> holds I P m R) \<Longrightarrow> (\<not> b \<Longrightarrow> holds I P n R) \<Longrightarrow> holds I P (if b then m else n) R"
  by simp

lemma step_case_prod [steps]:
  "(\<And>y z. x = (y, z) \<Longrightarrow> holds I P (m y z) R) \<Longrightarrow> holds I P (case x of (y, z) \<Rightarrow> m y z) R"
  by (cases x) simp

text \<open>Settling an intent, alone or before the index is updated.\<close>

lemma leaf_complete [steps]:
  "holds (run_ok rows v events) P (in_world (complete_mapping_mutation e p q out)) (\<lambda>_ _. True)"
  "holds (run_ok rows v events) P (in_world (complete_mapping_delete e p out)) (\<lambda>_ _. True)"
  by (rule world_step, rule complete_mutation_holds complete_delete_holds)+

lemma step_complete [steps]:
  "(\<And>x. holds (run_ok rows v events) (\<lambda>_. True) (k x) R) \<Longrightarrow>
   holds (run_ok rows v events) P (and_then (in_world (complete_mapping_mutation e p q out)) k) R"
  "(\<And>x. holds (run_ok rows v events) (\<lambda>_. True) (k x) R) \<Longrightarrow>
   holds (run_ok rows v events) P (and_then (in_world (complete_mapping_delete e p out)) k) R"
  by (rule step_world, rule complete_mutation_holds complete_delete_holds, assumption)+

context mapping_store begin

lemma delete_block:
  assumes ops: "en_store (re_engine v) = ops"
    and m: "row_key m = event_key event" "mp_rule_id m = ru_id (re_rule v)"
    and event: "event \<in> set events" "ev_status event = ''cancelled''"
    and k: "\<And>p q. holds (run_ok rows v events) (\<lambda>_. True) (k p q) (\<lambda>_ _. True)"
  shows "holds (run_ok rows v events) P
    (and_then (in_world (begin_mapping_mutation (re_engine v) m ''pending_delete'' targetID)) (\<lambda>p.
     and_then (in_world (wrap_fail h (send_delete v targetID scope etag marker))) (k p))) (\<lambda>_ _. True)"
proof (rule holds_and_then)
  let ?B = "\<lambda>p w. p \<in> rows (wo_table w) \<and> mp_target_event_id p = targetID \<and>
    mp_reconciliation_state p = ''pending_delete'' \<and> mp_rule_id p = mp_rule_id m \<and> row_key p = row_key m \<and>
    mp_source_event_id p = mp_source_event_id m \<and> mp_object_kind p = mp_object_kind m"
  show "holds (run_ok rows v events) P
    (in_world (begin_mapping_mutation (re_engine v) m ''pending_delete'' targetID)) (\<lambda>p rs. ?B p (rs_world rs))"
    by (rule holds_pre [OF in_world_holds [OF begin_holds [OF ops, where P = "\<lambda>_. True"]]]) simp
  show "holds (run_ok rows v events) (\<lambda>rs. ?B p (rs_world rs))
    (and_then (in_world (wrap_fail h (send_delete v targetID scope etag marker))) (k p)) (\<lambda>_ _. True)" for p
  proof (rule holds_and_then)
    show "holds (run_ok rows v events) (\<lambda>rs. ?B p (rs_world rs))
      (in_world (wrap_fail h (send_delete v targetID scope etag marker))) (\<lambda>_ _. True)"
      by (rule holds_pre [OF in_world_holds [OF holds_wrap_fail [OF send_delete_holds [OF event]]]])
        (use m in \<open>auto simp: intent_for_def\<close>)
    show "holds (run_ok rows v events) (\<lambda>_. True) (k p q) (\<lambda>_ _. True)" for q by (rule k)
  qed
qed

lemma update_block:
  assumes ops: "en_store (re_engine v) = ops"
    and m: "mp_rule_id m = ru_id (re_rule v)"
    and event: "event \<in> set events" "ev_status event \<noteq> ''cancelled''"
    and k: "\<And>p q. row_key p = row_key m \<Longrightarrow> mp_rule_id p = mp_rule_id m \<Longrightarrow>
      holds (run_ok rows v events) (\<lambda>_. True) (k p q) Q"
  shows "holds (run_ok rows v events) P
    (and_then (in_world (begin_mapping_mutation (re_engine v) m ''pending_update'' targetID)) (\<lambda>p.
     and_then (in_world (wrap_fail h (send_update v targetID event scope etag marker))) (k p))) Q"
proof (rule holds_and_then)
  let ?B = "\<lambda>p w. p \<in> rows (wo_table w) \<and> mp_target_event_id p = targetID \<and>
    mp_reconciliation_state p = ''pending_update'' \<and> mp_rule_id p = mp_rule_id m \<and> row_key p = row_key m \<and>
    mp_source_event_id p = mp_source_event_id m \<and> mp_object_kind p = mp_object_kind m"
  show "holds (run_ok rows v events) P
    (in_world (begin_mapping_mutation (re_engine v) m ''pending_update'' targetID)) (\<lambda>p rs. ?B p (rs_world rs))"
    by (rule holds_pre [OF in_world_holds [OF begin_holds [OF ops, where P = "\<lambda>_. True"]]]) simp
  show "holds (run_ok rows v events) (\<lambda>rs. ?B p (rs_world rs))
    (and_then (in_world (wrap_fail h (send_update v targetID event scope etag marker))) (k p)) Q" for p
  proof (rule holds_and_then)
    let ?P = "\<lambda>_ (_ :: (_, 't) run_state). row_key p = row_key m \<and> mp_rule_id p = mp_rule_id m"
    have "holds (run_ok rows v events) (\<lambda>rs. target_intent_row v (rows (wo_table (rs_world rs))) ''pending_update'' targetID)
      (in_world (wrap_fail h (send_update v targetID event scope etag marker))) (\<lambda>_ _. True)"
      by (rule in_world_holds [OF holds_wrap_fail [OF send_update_holds [OF event]]])
    then show "holds (run_ok rows v events) (\<lambda>rs. ?B p (rs_world rs))
      (in_world (wrap_fail h (send_update v targetID event scope etag marker))) ?P"
      unfolding holds_def using m by (auto simp: target_intent_row_def)
    show "holds (run_ok rows v events) (?P q) (k p q) Q" for q
      using k [of p q] by (auto simp: holds_def)
  qed
qed

text \<open>The delete without an error wrapper is the wrapped one with the identity.\<close>

lemma wrap_fail_id: "wrap_fail (\<lambda>x. x) m = m"
  by (rule ext) (auto simp: wrap_fail_def split: prod.splits sum.splits)

lemma recover_cancelled_holds:
  assumes ops: "en_store (re_engine v) = ops"
    and m: "row_key m = event_key event" "mp_rule_id m = ru_id (re_rule v)"
    and event: "event \<in> set events" "ev_status event = ''cancelled''"
  shows "holds (run_ok rows v events) P (recover_cancelled v event m) (\<lambda>_ _. True)"
  unfolding recover_cancelled_def
  by (intro steps delete_block [where h = "\<lambda>x. x", unfolded wrap_fail_id, OF ops m event] forget_key_holds)

lemma delete_exception_holds:
  assumes ops: "en_store (re_engine v) = ops"
    and m: "\<And>m. mapped = Some m \<Longrightarrow> row_key m = event_key event \<and> mp_rule_id m = ru_id (re_rule v)"
    and event: "event \<in> set events" "ev_status event = ''cancelled''"
  shows "holds (run_ok rows v events) P (delete_exception v event mapped series found) (\<lambda>_ _. True)"
proof -
  have "row_key (case mapped of Some m \<Rightarrow> m | None \<Rightarrow> exception_mapping v event t series) = event_key event"
    "mp_rule_id (case mapped of Some m \<Rightarrow> m | None \<Rightarrow> exception_mapping v event t series) = ru_id (re_rule v)" for t
    using m by (simp_all split: option.split)
  then show ?thesis
    unfolding delete_exception_def Let_def by (intro steps delete_block [OF ops _ _ event] forget_key_holds)
qed

lemma update_exception_holds:
  assumes ops: "en_store (re_engine v) = ops"
    and m: "\<And>m. mapped = Some m \<Longrightarrow> row_key m = event_key event \<and> mp_rule_id m = ru_id (re_rule v)"
    and event: "event \<in> set events" "ev_status event \<noteq> ''cancelled''"
  shows "holds (run_ok rows v events) P (update_exception v event mapped series found) (\<lambda>_ _. True)"
proof -
  have "mp_rule_id (case mapped of Some m \<Rightarrow> m | None \<Rightarrow> exception_mapping v event t series) = ru_id (re_rule v)" for t
    using m by (simp split: option.split)
  then show ?thesis
    unfolding update_exception_def Let_def by (intro steps update_block put_key_holds ops event) simp_all
qed

lemma reconcile_exception_holds:
  assumes ops: "en_store (re_engine v) = ops"
    and m: "\<And>m. mapped = Some m \<Longrightarrow> row_key m = event_key event \<and> mp_rule_id m = ru_id (re_rule v)"
    and event: "event \<in> set events"
  shows "holds (run_ok rows v events) P (reconcile_exception v event mapped) (\<lambda>_ _. True)"
  unfolding reconcile_exception_def
proof (intro step_gets steps)
  fix s series
  show "holds (run_ok rows v events) P (and_then (in_world (ext_op (find_target_instance (re_engine v)
      (tg_provider (re_target v)) (re_calendar_id v) (mp_target_event_id series) (ev_original_start event)
      (re_start v) (re_end v))))
    (if ev_status event = ''cancelled'' then delete_exception v event mapped series
     else update_exception v event mapped series)) (\<lambda>_ _. True)"
    by (rule step_world [OF ext_op_justified])
      (simp add: delete_exception_holds [OF ops m event] update_exception_holds [OF ops m event])
qed

lemma reconcile_cancelled_holds:
  assumes ops: "en_store (re_engine v) = ops"
    and m: "\<And>m. mapped = Some m \<Longrightarrow> row_key m = event_key event \<and> mp_rule_id m = ru_id (re_rule v)"
    and event: "event \<in> set events" "ev_status event = ''cancelled''"
  shows "holds (run_ok rows v events) P (reconcile_cancelled v event mapped) (\<lambda>_ _. True)"
  unfolding reconcile_cancelled_def
  by (intro steps delete_block [OF ops _ _ event]) (use m in simp_all)

lemma reconcile_changed_holds:
  assumes ops: "en_store (re_engine v) = ops"
    and m: "mp_rule_id m = ru_id (re_rule v)"
    and event: "event \<in> set events" "ev_status event \<noteq> ''cancelled''"
  shows "holds (run_ok rows v events) P (reconcile_changed v event m) (\<lambda>_ _. True)"
  unfolding reconcile_changed_def by (intro steps update_block ops event m)

lemma restore_occurrence_holds:
  assumes ops: "en_store (re_engine v) = ops"
    and m: "mp_rule_id m = ru_id (re_rule v)"
    and event: "event \<in> set events" "ev_status event \<noteq> ''cancelled''"
  shows "holds (run_ok rows v events) P (restore_occurrence v m event) (\<lambda>_ _. True)"
  unfolding restore_occurrence_def Let_def by (intro steps update_block ops event m)

end

lemma guarded_create_holds:
  assumes "event \<in> set events" "ev_status event \<noteq> ''cancelled''"
  shows "holds (all_justified rows v events)
    (\<lambda>w. \<exists>m. intent_for v (rows (wo_table w)) ''pending_create'' event m)
    (guarded_create (re_engine v) (re_target v)
         \<lparr>cr_require_no_attendees = False, cr_calendar_id = re_calendar_id v,
          cr_event = mirror_create (en_unicode (re_engine v)) (ru_id (re_rule v)) event
                       (pr_name (tg_provider (re_target v))),
          cr_notifications = NotificationsNone\<rparr>) (\<lambda>_ _. True)"
proof -
  let ?R = "\<lambda>w. \<exists>m. intent_for v (rows (wo_table w)) ''pending_create'' event m"
  let ?ev = "mirror_create (en_unicode (re_engine v)) (ru_id (re_rule v)) event (pr_name (tg_provider (re_target v)))"
  let ?req = "\<lparr>cr_require_no_attendees = True, cr_calendar_id = re_calendar_id v, cr_event = ?ev,
    cr_notifications = NotificationsNone\<rparr>"
  have same: "?ev\<lparr>ec_attendees := []\<rparr> = ?ev"
    by (rule event_create_v2.equality) simp_all
  have unfold: "guarded_create (re_engine v) (re_target v)
      \<lparr>cr_require_no_attendees = False, cr_calendar_id = re_calendar_id v, cr_event = ?ev,
       cr_notifications = NotificationsNone\<rparr> =
    and_then (lift_res (require_safe_no_attendee_target (re_engine v) (tg_provider (re_target v)))) (\<lambda>_.
    and_then (ext_op (guard_check (re_engine v) (re_target v))) (\<lambda>_.
      send (re_engine v) (CallCreate ?req) (eo_create (tg_ops (re_target v)) ?req)))"
    by (simp add: guarded_create_def Let_def same)
  have safe: "safe_create v events (rows t) ?req" if "\<exists>m. intent_for v (rows t) ''pending_create'' event m" for t
    unfolding safe_create_def using that assms by (auto intro!: bexI [of _ event])
  show ?thesis
    unfolding unfold
  proof (rule holds_and_then)
    show "holds (all_justified rows v events) ?R (lift_res
        (require_safe_no_attendee_target (re_engine v) (tg_provider (re_target v)))) (\<lambda>_. ?R)"
      by (rule holds_lift_res)
    show "holds (all_justified rows v events) ?R (and_then (ext_op (guard_check (re_engine v) (re_target v))) (\<lambda>_.
      send (re_engine v) (CallCreate ?req) (eo_create (tg_ops (re_target v)) ?req))) (\<lambda>_ _. True)" for u :: unit
      by (rule guard_then_send) (use safe in simp)
  qed
qed

lemma create_copy_holds:
  assumes "event \<in> set events" "ev_status event \<noteq> ''cancelled''"
  shows "holds (run_ok rows v events)
    (\<lambda>rs. \<exists>m. intent_for v (rows (wo_table (rs_world rs))) ''pending_create'' event m)
    (create_copy v event) (\<lambda>_ _. True)"
  unfolding create_copy_def
proof (rule holds_and_then [OF on_result_holds])
  show "holds (run_ok rows v events)
    (\<lambda>rs. \<exists>m. intent_for v (rows (wo_table (rs_world rs))) ''pending_create'' event m)
    (and_then (in_world (wrap_fail (ErrWrap ''create target event'') (guarded_create (re_engine v) (re_target v)
         \<lparr>cr_require_no_attendees = False, cr_calendar_id = re_calendar_id v,
          cr_event = mirror_create (en_unicode (re_engine v)) (ru_id (re_rule v)) event
                       (pr_name (tg_provider (re_target v))),
          cr_notifications = NotificationsNone\<rparr>))) (\<lambda>created. case created of
         None \<Rightarrow> fail (Sentinel ErrPendingCreateUnresolved)
       | Some c \<Rightarrow>
           if \<not> usable_copy c then fail (Sentinel ErrPendingCreateUnresolved)
           else if cache_mode_unverified v event c then fail (Sentinel ErrCacheTargetUnverified)
           else ret c)) (\<lambda>_ _. True)" for u :: unit
    by (rule holds_and_then [OF in_world_holds [OF holds_wrap_fail [OF guarded_create_holds [OF assms]]]])
      (intro steps)
qed

lemma settle_copy_holds: "holds (run_ok rows v events) P (settle_copy v event mc) (\<lambda>_ _. True)"
  unfolding settle_copy_def Let_def
  by (intro steps step_world table_op_holds put_key_holds) (simp_all add: event_mapping_def row_key_def event_key_def)

context mapping_store begin

lemma update_copy_holds:
  assumes ops: "en_store (re_engine v) = ops"
    and m: "mp_rule_id m = ru_id (re_rule v)"
    and event: "event \<in> set events" "ev_status event \<noteq> ''cancelled''"
  shows "holds (run_ok rows v events) P (update_copy v event m c) (\<lambda>_ _. True)"
  unfolding update_copy_def Let_def by (intro steps update_block [OF ops m event])

lemma reconcile_create_holds:
  assumes ops: "en_store (re_engine v) = ops"
    and m: "\<And>m. pend = Some m \<Longrightarrow> mp_rule_id m = ru_id (re_rule v)"
    and event: "event \<in> set events" "ev_status event \<noteq> ''cancelled''"
    and dry: "\<not> re_dry v"
  shows "holds (run_ok rows v events) P (reconcile_create v event pend) (\<lambda>_ _. True)"
proof -
  let ?Q = "\<lambda>m rs. mp_rule_id m = ru_id (re_rule v) \<and>
    (pend = None \<longrightarrow> (\<exists>m. intent_for v (rows (wo_table (rs_world rs))) ''pending_create'' event m))"
  have get: "holds (run_ok rows v events) P
      (case pend of Some m \<Rightarrow> ret m | None \<Rightarrow> in_world (create_intent v event)) ?Q"
  proof (cases pend)
    case None
    have "holds (run_ok rows v events) P (in_world (create_intent v event))
      (\<lambda>m rs. intent_for v (rows (wo_table (rs_world rs))) ''pending_create'' event m \<and> mp_target_etag m = '''')"
      by (rule holds_pre [OF in_world_holds [OF create_intent_holds [OF ops, where P = "\<lambda>_. True"]]]) simp
    then show ?thesis unfolding None option.case
      by (rule holds_weaken) (auto simp: intent_for_def)
  next
    case (Some m)
    then show ?thesis using m by (simp add: holds_def ret_def)
  qed
  have look: "holds (run_ok rows v events) (?Q m) (lookup_copy v find_marker event msg) (\<lambda>_. ?Q m)" for m find_marker msg
  proof -
    have "holds (run_ok rows v events)
      (\<lambda>rs. (\<lambda>t. mp_rule_id m = ru_id (re_rule v) \<and> (pend = None \<longrightarrow> (\<exists>m. intent_for v (rows t) ''pending_create'' event m)))
         (wo_table (rs_world rs)))
      (lookup_copy v find_marker event msg)
      (\<lambda>_ rs. (\<lambda>t. mp_rule_id m = ru_id (re_rule v) \<and> (pend = None \<longrightarrow> (\<exists>m. intent_for v (rows t) ''pending_create'' event m)))
         (wo_table (rs_world rs)))"
      unfolding lookup_copy_def by (rule in_world_holds, rule holds_wrap_fail, rule ext_op_keeps_table)
    then show ?thesis by simp
  qed
  have obt: "holds (run_ok rows v events) (?Q m) (obtain_copy v event m (pend \<noteq> None) found) (\<lambda>_ _. True)" for m found
  proof (cases "mp_rule_id m = ru_id (re_rule v)")
    case True
    show ?thesis
      unfolding obtain_copy_def
    proof (intro steps update_copy_holds [OF ops True event])
      assume "found = None" and none: "\<not> pend \<noteq> None"
      show "holds (run_ok rows v events) (?Q m) (and_then (create_copy v event) (\<lambda>c. ret (m, c))) (\<lambda>_ _. True)"
        by (rule holds_and_then [OF holds_pre [OF create_copy_holds [OF event]]])
          (use none in \<open>auto intro: step_ret\<close>)
    qed
  next
    case False
    then show ?thesis by (simp add: holds_def)
  qed
  have chain: "holds (run_ok rows v events) P
    (and_then (case pend of Some m \<Rightarrow> ret m | None \<Rightarrow> in_world (create_intent v event)) (\<lambda>m.
     and_then (lookup_copy v find_marker event msg) (\<lambda>found.
     and_then (obtain_copy v event m (pend \<noteq> None) found) (settle_copy v event)))) (\<lambda>_ _. True)" for find_marker msg
    by (rule holds_and_then [OF get], rule holds_and_then [OF look], rule holds_and_then [OF obt],
        rule settle_copy_holds)
  show ?thesis
    unfolding reconcile_create_def if_not_P [OF dry] by (intro step_case_option step_fail chain)
qed

lemma dispatch_event_holds:
  assumes ops: "en_store (re_engine v) = ops"
    and m: "\<And>m. mapped = Some m \<Longrightarrow> row_key m = event_key event \<and> mp_rule_id m = ru_id (re_rule v)"
    and p: "\<And>m. pend = Some m \<Longrightarrow> mp_rule_id m = ru_id (re_rule v)"
    and event: "event \<in> set events" and dry: "\<not> re_dry v"
  shows "holds (run_ok rows v events) P (dispatch_event v event mapped pend) (\<lambda>_ _. True)"
  unfolding dispatch_event_def
  by (intro steps reconcile_exception_holds [OF ops m event] reconcile_cancelled_holds [OF ops m event]
      reconcile_create_holds [OF ops p event _ dry] reconcile_changed_holds [OF ops _ event])
    (use m in auto)

lemma process_event_holds:
  assumes ops: "en_store (re_engine v) = ops" and event: "event \<in> set events" and dry: "\<not> re_dry v"
  shows "holds (run_ok rows v events) (\<lambda>_. True) (process_event v event) (\<lambda>_ _. True)"
proof -
  have look: "row_key m = event_key event \<and> mp_rule_id m = ru_id (re_rule v)"
    if "run_ok rows v events rs" "map_of (rs_by_key rs) (event_key event) = Some m" for rs m
    using that by (auto simp: run_inv_def keys_ok_def)
  have rest: "holds (run_ok rows v events) (\<lambda>_. True)
     (case mapped of
          None \<Rightarrow> dispatch_event v event None None
        | Some m \<Rightarrow>
            if mp_reconciliation_state m \<noteq> ''pending_create'' then dispatch_event v event (Some m) None
            else if re_dry v then fail (Sentinel ErrPendingCreateUnresolved)
            else if ev_status event = ''cancelled'' then recover_cancelled v event m
            else dispatch_event v event None (Some m)) (\<lambda>_ _. True)"
    if "\<And>m. mapped = Some m \<Longrightarrow> row_key m = event_key event \<and> mp_rule_id m = ru_id (re_rule v)" for mapped
    using that
    by (auto intro!: steps dispatch_event_holds [OF ops _ _ event dry] recover_cancelled_holds [OF ops _ _ event]
        split: option.split)
  show ?thesis
    unfolding process_event_def
  proof (intro steps)
    show "holds (run_ok rows v events) (\<lambda>_. True)
      (and_then (modify (\<lambda>rs. rs\<lparr>rs_seen := event_key event # rs_seen rs\<rparr>)) (\<lambda>_.
       and_then (gets (\<lambda>rs. map_of (rs_by_key rs) (event_key event))) (\<lambda>mapped.
        case mapped of
          None \<Rightarrow> dispatch_event v event None None
        | Some m \<Rightarrow>
            if mp_reconciliation_state m \<noteq> ''pending_create'' then dispatch_event v event (Some m) None
            else if re_dry v then fail (Sentinel ErrPendingCreateUnresolved)
            else if ev_status event = ''cancelled'' then recover_cancelled v event m
            else dispatch_event v event None (Some m)))) (\<lambda>_ _. True)"
      by (rule holds_and_then [where Q = "\<lambda>_ _. True"], rule holds_modify, simp add: run_inv_def, rule step_gets,
          rule rest, rule look)
  qed
qed

lemma restore_mapping_holds:
  assumes ops: "en_store (re_engine v) = ops" and m: "mp_rule_id m = ru_id (re_rule v)"
    and occ: "\<And>k event. map_of (re_occurrences v) k = Some event \<Longrightarrow> event \<in> set events \<and> ev_status event \<noteq> ''cancelled''"
  shows "holds (run_ok rows v events) (\<lambda>_. True) (restore_mapping v m) (\<lambda>_ _. True)"
  unfolding restore_mapping_def
  by (rule step_gets) (auto intro!: steps restore_occurrence_holds [OF ops m] split: option.split dest: occ)

end

section \<open>A whole run\<close>

lemma by_row_key_lookup:
  "map_of (by_row_key existing) k = Some m \<Longrightarrow> m \<in> set existing \<and> row_key m = k"
proof -
  have "map_of (foldl (\<lambda>acc row. AList.update (row_key row) row acc) acc existing) k = Some m \<Longrightarrow>
    (m \<in> set existing \<and> row_key m = k) \<or> map_of acc k = Some m" for acc
    by (induction existing arbitrary: acc) (force simp: update_conv' split: if_splits)+
  from this [of "[]"] show "map_of (by_row_key existing) k = Some m \<Longrightarrow> m \<in> set existing \<and> row_key m = k"
    by (simp add: by_row_key_def)
qed

lemma index_occurrences_lookup:
  "map_of (index_occurrences events) k = Some e \<Longrightarrow> e \<in> set events \<and> is_plain_occurrence e"
proof -
  have "map_of (foldl (\<lambda>m e. if is_plain_occurrence e
          then AList.update (mapping_key (ev_recurring_event_id e) (event_original_start e)) e m else m) acc events) k
      = Some e \<Longrightarrow> (e \<in> set events \<and> is_plain_occurrence e) \<or> map_of acc k = Some e" for acc
    by (induction events arbitrary: acc) (force simp: update_conv' split: if_splits)+
  from this [of "[]"] show "map_of (index_occurrences events) k = Some e \<Longrightarrow> e \<in> set events \<and> is_plain_occurrence e"
    by (simp add: index_occurrences_def)
qed

context mapping_store begin

lemma reconcile_justified:
  assumes ops: "en_store e = ops" and plan: "plan_run e rule False cached w = (Inr p, w1)"
    and sent: "wo_sent w = []" and run: "reconcile p (initial_state p w1) = (r, rs)"
  shows "all_justified rows (pl_env p) (pl_events p) (rs_world rs)"
proof -
  let ?v = "pl_env p"
  note env = plan_run_env [OF plan]
  have eops: "en_store (re_engine ?v) = ops" and dry: "\<not> re_dry ?v" using env(1,3) ops by simp_all
  have ex: "mp_rule_id m = ru_id (re_rule ?v)" if "m \<in> set (pl_existing p)" for m
    using that env(2,4) list_rows ops by simp
  have occ: "event \<in> set (pl_events p) \<and> ev_status event \<noteq> ''cancelled''"
    if "map_of (re_occurrences ?v) k = Some event" for k event
    using that env(9) index_occurrences_lookup by (auto simp: is_plain_occurrence_def)
  have "holds (run_ok rows ?v (pl_events p)) (\<lambda>_. True) (reconcile p) (\<lambda>_ _. True)"
    unfolding reconcile_def
    by (rule holds_and_then [where Q = "\<lambda>_ _. True"]; rule holds_for_each)
      (use process_event_holds [OF eops _ dry] restore_mapping_holds [OF eops ex occ] in auto)
  moreover have "run_ok rows ?v (pl_events p) (initial_state p w1)"
    using env(5,7) sent ex by (auto simp: run_inv_def initial_state_def all_justified_def keys_ok_def dest: by_row_key_lookup)
  ultimately have "run_ok rows ?v (pl_events p) rs"
    using holdsD [where m = "reconcile p", of "run_ok rows ?v (pl_events p)" "\<lambda>_. True" "\<lambda>_ _. True"] run by blast
  then show ?thesis by (simp add: run_inv_def)
qed

end

lemma run_events_cases:
  assumes "run_events e rule dry cached w = ((x, res), w')"
  obtains (refused) y where "plan_run e rule dry cached w = (Inl y, w')" "x = Some y" "res = zero_result"
  | (ran) p w1 r rs where "plan_run e rule dry cached w = (Inr p, w1)"
      "reconcile p (initial_state p w1) = (r, rs)" "w' = rs_world rs" "res = rs_result rs"
      "x = (case r of Inl y \<Rightarrow> Some (ErrFailure ''reconciliation'' y) | Inr _ \<Rightarrow> None)"
  using assms unfolding run_events_def by (auto split: prod.splits sum.splits)

lemma plan_untouched:
  assumes "plan_run e rule dry cached w = (r, w')"
  shows "wo_table w' = wo_table w" "wo_sent w' = wo_sent w"
  using preservesD [OF plan_run_untouched, of "wo_table w" "wo_sent w" w e rule dry cached] assms
  by (simp_all add: untouched_def)

lemma run_calls_justified_aux:
  assumes "en_store e = table_ops" and "wo_sent w = []"
    and "run_events e rule dry cached w = ((x, res), w')" and "call \<in> set (wo_sent w')"
  shows "\<exists>p w1. plan_run e rule dry cached w = (Inr p, w1) \<and> \<not> dry \<and>
    justified set (pl_env p) (pl_events p) call"
  using assms(3)
proof (cases rule: run_events_cases)
  case (refused y)
  then show ?thesis using plan_untouched(2) [of e rule dry cached w "Inl y" w'] assms(2,4) by simp
next
  case (ran p w1 r rs)
  have "\<not> dry"
  proof
    assume "dry"
    then have "wo_sent w' = []" using dry_run_writes_nothing [of e rule cached w] assms(2,3) by simp
    then show False using assms(4) by simp
  qed
  then show ?thesis
    using event_mappings.reconcile_justified [OF assms(1) _ assms(2) ran(2)] ran(1,3) assms(4)
    by (auto simp: all_justified_def)
qed

section \<open>A concrete run\<close>

text \<open>Two Google accounts, one event in the source, an empty target.\<close>

definition demo_copy :: event_v2 where
  "demo_copy = (sample_source_event ''t1'')\<lparr>ev_etag := ''v1''\<rparr>"

definition demo_ops :: "nat event_ops" where
  "demo_ops = \<lparr>eo_list = (\<lambda>_. ret \<lparr>page_items = [], page_next_token = '''', page_complete = True\<rparr>),
     eo_create = (\<lambda>_. ret (Some demo_copy)),
     eo_update = (\<lambda>_. ret (Some \<lparr>or_status = ''completed'', or_event = Some demo_copy\<rparr>)),
     eo_delete = (\<lambda>_. ret (Some \<lparr>or_status = ''completed'', or_event = None\<rparr>))\<rparr>"

definition demo_engine :: "(nat, mapping_table) engine" where
  "demo_engine = \<lparr>en_registry = new_registry
        [sample_provider ''google'' ''a'' [], sample_provider ''google'' ''b'' []] [] True None None,
     en_iface = (\<lambda>_. \<lparr>if_v2 = Some demo_ops, if_no_attendees = Some True, if_recurring = None, if_validate = None,
       if_instances = None, if_lookup = Some (\<lambda>_ _ _. ret None)\<rparr>),
     en_store = table_ops, en_fence = Some (ret ()), en_ctx_err = (\<lambda>_. None), en_on_dispatch = Some Suc,
     en_now = (\<lambda>_. 1000), en_uuid = (\<lambda>n. replicate n (CHR ''u'')), en_unicode = \<lparr>rune_upper = id, rune_lower = id\<rparr>,
     en_zones = (\<lambda>_. None), en_fuel = 3\<rparr>"

definition demo_rule :: rule where
  "demo_rule = sample_rule ''r'' ''google:a:home'' ''google:b:home''"

definition demo_event :: event_v2 where
  "demo_event = (sample_source_event ''e1'')\<lparr>ev_source_attendees_complete := True\<rparr>"

definition demo_world :: "mapping_table \<Rightarrow> (nat, mapping_table) world" where
  "demo_world t = \<lparr>wo_table = t, wo_ext = 0, wo_drawn = 0, wo_sent = []\<rparr>"

lemma demo_resolve:
  "resolve_enabled (en_registry demo_engine) ''google:a:home'' s = (Inr (sample_provider ''google'' ''a'' [], ''home''), s)"
  "resolve_enabled (en_registry demo_engine) ''google:b:home'' s = (Inr (sample_provider ''google'' ''b'' [], ''home''), s)"
  by (simp_all add: resolve_enabled_def resolve_def split_prefix_def demo_engine_def new_registry_def by_name_def
    provider_owns_calendar_def provider_route_name_def sample_provider_def calendar_enabled_def prog_defs)

lemma demo_fields [simp]:
  "en_store demo_engine = table_ops" "en_now demo_engine = (\<lambda>_. 1000)" "en_fence demo_engine = Some (ret ())"
  "en_ctx_err demo_engine = (\<lambda>_. None)" "en_on_dispatch demo_engine = Some Suc"
  "if_v2 (en_iface demo_engine p) = Some demo_ops" "if_no_attendees (en_iface demo_engine p) = Some True"
  "if_recurring (en_iface demo_engine p) = None"
  "if_lookup (en_iface demo_engine p) = Some (\<lambda>_ _ _. ret None)"
  by (simp_all add: demo_engine_def)

lemma demo_rule_ok [simp]: "validate_rule demo_rule = Inr ()"
  "ru_source_calendar_id demo_rule = ''google:a:home''" "ru_target_calendar_id demo_rule = ''google:b:home''"
  "ru_id demo_rule = ''r''" "ru_sync_mode demo_rule = ''direct''"
  by (simp_all add: demo_rule_def sample_rule_def validate_rule_def)

lemma demo_event_simps [simp]:
  "object_kind demo_event = ''event''" "is_plain_occurrence demo_event = False"
  "is_series_exception demo_event = False" "ev_status demo_event = ''confirmed''"
  "event_original_start demo_event = ''''" "ev_id demo_event = ''e1''" "ev_recurring_event_id demo_event = ''''"
  "event_key demo_event = ''e1'' @ [NUL]" "ev_instance_kind demo_event = ''''"
  "event_priority demo_event = 2" "ev_source_attendees_complete demo_event"
  by (simp_all add: demo_event_def sample_source_event_def zero_event_def kind_defs mapping_key_def)

lemma demo_dedup [simp]: "deduplicate_and_order [demo_event] = [demo_event]"
  by (simp add: deduplicate_and_order_def incomplete_keys_def)

lemma demo_plan_events:
  "plan_events demo_engine t [] [demo_event] = Inr ([demo_event], [], 0)"
  by (simp add: plan_events_def Let_def by_row_key_def detached_series_def filter_events_def filter_event_def
     has_pending_mutation_def check_detached_def preflight_safe_recurrence_def preflight_mapping_def event_unsafe_def
     check_recurrence_writes_def series_titles_def active_detached_def available_series_def List.map_filter_def
     OrphanOccurrence_def)

lemmas run_defs = run_events_def plan_run_def staged_def prog_defs ext_op_def select_source_def read_source_def
    typed_provider_def require_safe_no_attendee_target_def table_ops_def list_mappings_def
    Let_def index_occurrences_def by_row_key_def reconcile_def initial_state_def initial_result_def incomplete_live_def
    process_event_def dispatch_event_def in_world_def insert_op_def table_op_def check_dispatch_fence_def
    guard_check_def send_def on_result_def put_key_def

lemmas create_defs = reconcile_create_def create_intent_def event_mapping_def insert_pending_create_mapping_def
    insert_row_def lookup_copy_def obtain_copy_def create_copy_def guarded_create_def usable_copy_def
    cache_mode_unverified_def settle_copy_def update_mapping_cas_def update_mapping_cas_legacy_def cas_match_def
    cas_write_def zero_mapping_def

lemma demo_create:
  "\<exists>res w' m req. run_events demo_engine demo_rule False (Some [demo_event]) (demo_world []) = ((None, res), w') \<and>
     map st_call (wo_sent w') = [CallCreate req] \<and> wo_table w' = [m] \<and> row_key m = event_key demo_event \<and>
     mp_reconciliation_state m = ''current'' \<and> mp_content_hash m = hash_event (en_unicode demo_engine) demo_event"
  by (simp add: run_defs create_defs demo_resolve demo_world_def demo_plan_events demo_ops_def demo_copy_def
      zero_time_def sample_source_event_def zero_event_def new_incarnation_def max_int64_def run_hash_def
      row_key_def mapping_key_def)

section \<open>What a run promises\<close>

text \<open>
  C3. Every call that a run sends to the target provider is justified: the target and source
  calendars had just been resolved as enabled and the dispatch fence had just passed; it has no
  attendees and notifies nobody; it addresses the rule's target calendar; it mirrors a live event
  of the run (a create, an update) or follows a cancellation that the source reported (a delete);
  and a row of the rule in the mapping table already records the attempt.
\<close>

theorem run_calls_justified:
  assumes "en_store e = table_ops" and "wo_sent w = []"
    and "run_events e rule dry cached w = ((x, res), w')" and "call \<in> set (wo_sent w')"
  shows "\<exists>p w1. plan_run e rule dry cached w = (Inr p, w1) \<and> \<not> dry \<and>
    justified set (pl_env p) (pl_events p) call"
  by (rule run_calls_justified_aux [OF assms])

theorem run_calls_justified_witness:
  "case run_events demo_engine demo_rule False (Some [demo_event]) (demo_world []) of (out, w') \<Rightarrow>
     wo_sent w' \<noteq> [] \<and>
     (\<forall>call \<in> set (wo_sent w'). \<exists>p w1.
        plan_run demo_engine demo_rule False (Some [demo_event]) (demo_world []) = (Inr p, w1) \<and>
        justified set (pl_env p) (pl_events p) call)"
proof -
  obtain res w' req where run: "run_events demo_engine demo_rule False (Some [demo_event]) (demo_world []) = ((None, res), w')"
    "map st_call (wo_sent w') = [CallCreate req]"
    using demo_create by (elim exE conjE) (rule that)
  have "\<exists>p w1. plan_run demo_engine demo_rule False (Some [demo_event]) (demo_world []) = (Inr p, w1) \<and> \<not> False \<and>
        justified set (pl_env p) (pl_events p) call" if "call \<in> set (wo_sent w')" for call
    by (rule run_calls_justified [OF _ _ run(1) that]) (simp_all add: demo_world_def)
  moreover have "wo_sent w' \<noteq> []" using run(2) by auto
  ultimately show ?thesis using run(1) by simp
qed

lemma plan_eventsD:
  assumes "plan_events e target existing listed = Inr (events, titles, n)"
  shows "\<not> has_pending_mutation existing"
    "events = filter_events (detached_series existing (by_row_key existing) (deduplicate_and_order listed))
       (deduplicate_and_order listed)"
    "if_recurring (en_iface e target) = Some True \<or>
     preflight_safe_recurrence (en_unicode e) events (by_row_key existing) existing = Inr ()"
    "check_recurrence_writes (en_iface e target) events = Inr ()"
  using assms by (auto simp: plan_events_def Let_def bind_res_Inr_iff split: if_splits)

text \<open>The events of a plan are the listed ones, up to their kind and attendee completeness.\<close>

lemma plan_event_origin:
  assumes "plan_run e rule dry (Some events) w = (Inr p, w1)" and "event \<in> set (pl_events p)"
  shows "\<exists>e0 \<in> set events. ev_status e0 = ev_status event \<and> event_key e0 = event_key event \<and>
    ev_id e0 = ev_id event \<and> ev_recurring_event_id e0 = ev_recurring_event_id event"
proof -
  note env = plan_run_env [OF assms(1)]
  obtain target titles n where "plan_events e target (pl_existing p) events = Inr (pl_events p, titles, n)"
    using env(9) by auto
  then obtain detached where ev: "pl_events p = filter_events detached (deduplicate_and_order events)"
    using plan_eventsD(2) by blast
  then obtain e1 where e1: "e1 \<in> set (deduplicate_and_order events)" "fst (filter_event detached e1) = Some event"
    using assms(2) by (auto simp: filter_events_def List.map_filter_def)
  obtain e0 where e0: "e0 \<in> set events" "e1 = mark_incomplete (incomplete_keys events) e0"
    using dedup_origin [OF e1(1)] by blast
  have "ev_status event = ev_status e1 \<and> event_key event = event_key e1 \<and> ev_id event = ev_id e1 \<and>
      ev_recurring_event_id event = ev_recurring_event_id e1"
    using e1(2) by (auto simp: filter_event_def event_key_def event_original_start_def split: if_splits)
  moreover have "ev_recurring_event_id (mark_incomplete inc e0) = ev_recurring_event_id e0" for inc
    by (simp add: mark_incomplete_def)
  ultimately show ?thesis unfolding e0(2) by (intro bexI [of _ e0] e0(1)) simp
qed

lemma plan_refuses_pending:
  assumes "en_store e = table_ops" and "m \<in> set (wo_table w)" and "mp_rule_id m = ru_id rule"
    and "mp_reconciliation_state m = ''pending_update'' \<or> mp_reconciliation_state m = ''pending_delete''"
  shows "plan_run e rule dry cached w \<noteq> (Inr p, w')"
proof
  assume plan: "plan_run e rule dry cached w = (Inr p, w')"
  note env = plan_run_env [OF plan]
  have "m \<in> set (pl_existing p)"
    using env(4) assms(1-3) by (simp add: table_ops_def list_mappings_def)
  then have "has_pending_mutation (pl_existing p)"
    using assms(4) by (auto simp: has_pending_mutation_def list_ex_iff)
  then show False using env(9) by (auto simp: plan_events_def Let_def)
qed

text \<open>
  C5. An unresolved attempt blocks the rule: while a row of the rule is pending an update or a
  delete, a run of the rule ends in an error, sends nothing and changes no mapping; and so does
  every run that is refused before its reconciliation stage.
\<close>

theorem unresolved_attempt_blocks_run:
  assumes "run_events e rule dry cached w = ((x, res), w')"
    and "(en_store e = table_ops \<and>
          (\<exists>m \<in> set (wo_table w). mp_rule_id m = ru_id rule \<and>
             mp_reconciliation_state m \<in> {''pending_update'', ''pending_delete''})) \<or>
         (\<exists>stage y. x = Some (ErrFailure stage y) \<and> stage \<noteq> ''reconciliation'')"
  shows "x \<noteq> None \<and> res = zero_result \<and> wo_table w' = wo_table w \<and> wo_sent w' = wo_sent w"
  using assms(1)
proof (cases rule: run_events_cases)
  case (refused y)
  then show ?thesis using plan_untouched [OF refused(1)] by simp
next
  case (ran p w1 r rs)
  have "\<not> (\<exists>stage y. x = Some (ErrFailure stage y) \<and> stage \<noteq> ''reconciliation'')"
    using ran(5) by (simp split: sum.splits)
  then show ?thesis using assms(2) plan_refuses_pending [of e _ w rule dry cached p w1] ran(1) by auto
qed

definition demo_pending :: mapping where
  "demo_pending = zero_mapping\<lparr>mp_rule_id := ''r'', mp_reconciliation_state := ''pending_update''\<rparr>"

theorem unresolved_attempt_blocks_run_witness:
  "case run_events demo_engine demo_rule False (Some [demo_event]) (demo_world [demo_pending]) of ((x, res), w') \<Rightarrow>
     x \<noteq> None \<and> wo_table w' = [demo_pending] \<and> wo_sent w' = []"
proof -
  obtain x res w' where run:
    "run_events demo_engine demo_rule False (Some [demo_event]) (demo_world [demo_pending]) = ((x, res), w')"
    by (metis prod.collapse)
  have "x \<noteq> None \<and> res = zero_result \<and> wo_table w' = wo_table (demo_world [demo_pending]) \<and>
      wo_sent w' = wo_sent (demo_world [demo_pending])"
    by (rule unresolved_attempt_blocks_run [OF run]) (simp add: demo_world_def demo_pending_def)
  then show ?thesis using run by (simp add: demo_world_def)
qed

text \<open>
  C4. Absence is not a deletion: as long as the source reports none of its events as cancelled, a
  run of a cached batch sends no delete, whatever mappings exist.
\<close>

theorem no_delete_without_cancellation:
  assumes "en_store e = table_ops" and "wo_sent w = []"
    and "run_events e rule dry (Some events) w = ((x, res), w')"
    and "\<forall>event \<in> set events. ev_status event \<noteq> ''cancelled''"
  shows "CallDelete req \<notin> st_call ` set (wo_sent w')"
proof
  assume "CallDelete req \<in> st_call ` set (wo_sent w')"
  then obtain call where call: "call \<in> set (wo_sent w')" "st_call call = CallDelete req" by auto
  obtain p w1 where p: "plan_run e rule dry (Some events) w = (Inr p, w1)"
    "justified set (pl_env p) (pl_events p) call"
    using run_calls_justified_aux [OF assms(1-3) call(1)] by blast
  then obtain event where event: "event \<in> set (pl_events p)" "ev_status event = ''cancelled''"
    using call(2) by (auto simp: justified_def safe_delete_def)
  then obtain e0 where "e0 \<in> set events" "ev_status e0 = ''cancelled''"
    using plan_event_origin [OF p(1)] by fastforce
  then show False using assms(4) by blast
qed

theorem no_delete_without_cancellation_witness:
  "case run_events demo_engine demo_rule False (Some [demo_event]) (demo_world []) of (out, w') \<Rightarrow>
     wo_sent w' \<noteq> [] \<and> (\<forall>req. CallDelete req \<notin> st_call ` set (wo_sent w'))"
proof -
  obtain res w' req where run: "run_events demo_engine demo_rule False (Some [demo_event]) (demo_world []) = ((None, res), w')"
    "map st_call (wo_sent w') = [CallCreate req]"
    using demo_create by (elim exE conjE) (rule that)
  have "CallDelete q \<notin> st_call ` set (wo_sent w')" for q
    by (rule no_delete_without_cancellation [OF _ _ run(1)]) (simp_all add: demo_world_def)
  moreover have "wo_sent w' \<noteq> []" using run(2) by auto
  ultimately show ?thesis using run(1) by simp
qed

end
