(* ===== verification/Sync_Convergence.thy ===== *)
theory Sync_Convergence
  imports Sync_Safety
begin

text \<open>
  What a run of the sync engine leaves in the mapping table.  The frame of the table operations is
  the locale \<open>keyed_mapping_store\<close>: an operation on the row of one key leaves every other row
  alone.  Under it, each event of a run touches the row of its own key only; a run without an error
  therefore ends with a settled row for every live event; and a run repeated on the same batch
  finds every row settled and sends nothing.
\<close>

section \<open>The frame of the table operations\<close>

definition apart :: "mapping set \<Rightarrow> string \<Rightarrow> string \<Rightarrow> bool" where
  "apart K ruleID key \<longleftrightarrow> (\<forall>x \<in> K. mp_rule_id x \<noteq> ruleID \<or> row_key x \<noteq> key)"

locale keyed_mapping_store = mapping_store ops rows
  for ops :: "'t mapping_ops" and rows :: "'t \<Rightarrow> mapping set" +
  fixes good :: "'t \<Rightarrow> bool"
  assumes insert_frame:
      "good t \<Longrightarrow> mo_insert_mutation ops u m t = (r, t') \<Longrightarrow> good t' \<and> rows t \<subseteq> rows t'"
      "good t \<Longrightarrow> mo_insert_create ops u m t = (r, t') \<Longrightarrow> good t' \<and> rows t \<subseteq> rows t'"
    and update_frame: "good t \<Longrightarrow> mo_update_cas ops m v t = (r', t') \<Longrightarrow> K \<subseteq> rows t \<Longrightarrow>
      apart K (mp_rule_id m) (row_key m) \<Longrightarrow> good t' \<and> K \<subseteq> rows t'"
    and delete_frame: "good t \<Longrightarrow> p \<in> rows t \<Longrightarrow>
      mo_delete_cas ops (mp_id p) (mp_incarnation p) (mp_version p) t = (r', t') \<Longrightarrow> K \<subseteq> rows t \<Longrightarrow>
      apart K (mp_rule_id p) (row_key p) \<Longrightarrow> good t' \<and> K \<subseteq> rows t'"

lemma insert_row_frame: "insert_row m db = (n, db') \<Longrightarrow> set db \<subseteq> set db'"
  by (auto simp: insert_row_def split: if_splits)

lemma update_mapping_cas_frame:
  assumes "update_mapping_cas m v db = (r, db')" and "x \<in> set db"
    and "mp_rule_id x \<noteq> mp_rule_id m \<or> row_key x \<noteq> row_key m"
  shows "x \<in> set db'"
proof (cases r)
  case (Inl y)
  then show ?thesis using update_mapping_cas_err assms(1,2) by blast
next
  case (Inr u)
  have "\<not> cas_match m v x" using assms(3) by (auto simp: cas_match_def row_key_def)
  from assms(1) [unfolded Inr]
  have "db' = map (\<lambda>y. if cas_match m v y then cas_write m y else y) db" by (rule update_mapping_casD)
  then show ?thesis using assms(2) \<open>\<not> cas_match m v x\<close> by force
qed

lemma delete_mapping_cas_frame:
  assumes "no_clash db" "p \<in> set db" "x \<in> set db" "x \<noteq> p"
    and "delete_mapping_cas (mp_id p) (mp_incarnation p) v db = (r, db')"
  shows "x \<in> set db'"
proof -
  have "mp_id x \<noteq> mp_id p" using no_clash_eq [OF assms(1,3,2)] assms(4) by (auto simp: clash_def)
  then show ?thesis using assms(3,5) by (auto simp: delete_mapping_cas_def Let_def split: if_splits)
qed

interpretation event_table: keyed_mapping_store table_ops set table_ok
proof
  show "table_ok t' \<and> set t \<subseteq> set t'"
    if "table_ok t" "mo_insert_mutation table_ops u m t = (r, t')" for t u m r t'
    using that insert_pending_mutation_ok [of t u m r t']
    by (auto simp: table_ops_def insert_pending_mutation_mapping_def dest: insert_row_frame
        split: if_splits prod.splits)
  show "table_ok t' \<and> set t \<subseteq> set t'"
    if "table_ok t" "mo_insert_create table_ops u m t = (r, t')" for t u m r t'
    using that insert_pending_create_ok [of t u m r t']
    by (auto simp: table_ops_def insert_pending_create_mapping_def dest: insert_row_frame
        split: if_splits prod.splits)
  show "table_ok t' \<and> K \<subseteq> set t'"
    if "table_ok t" "mo_update_cas table_ops m v t = (r', t')" "K \<subseteq> set t" "apart K (mp_rule_id m) (row_key m)"
    for t m v r' t' K
  proof
    have upd: "update_mapping_cas m v t = (r', t')" using that(2) by (simp add: table_ops_def)
    show "table_ok t'" using update_mapping_cas_legacy_ok that(1) upd by (simp add: update_mapping_cas_def)
    show "K \<subseteq> set t'" using update_mapping_cas_frame [OF upd] that(3,4) by (auto simp: apart_def)
  qed
  show "table_ok t' \<and> K \<subseteq> set t'"
    if "table_ok t" "p \<in> set t" "mo_delete_cas table_ops (mp_id p) (mp_incarnation p) (mp_version p) t = (r', t')"
      "K \<subseteq> set t" "apart K (mp_rule_id p) (row_key p)" for t p r' t' K
  proof
    have del: "delete_mapping_cas (mp_id p) (mp_incarnation p) (mp_version p) t = (r', t')"
      using that(3) by (simp add: table_ops_def)
    show "table_ok t'" by (rule delete_mapping_cas_ok [OF that(1) del])
    have clash: "no_clash t" using that(1) by (simp add: table_ok_def)
    show "K \<subseteq> set t'"
    proof
      fix x assume "x \<in> K"
      then have "x \<in> set t" "x \<noteq> p" using that(4,5) by (auto simp: apart_def)
      then show "x \<in> set t'" by (rule delete_mapping_cas_frame [OF clash that(2) _ _ del])
    qed
  qed
qed

section \<open>Every event touches the row of its own key only\<close>

definition kept ::
  "('t \<Rightarrow> bool) \<Rightarrow> ('t \<Rightarrow> mapping set) \<Rightarrow> mapping set \<Rightarrow> ('s, 't) world \<Rightarrow> bool" where
  "kept good rows K w \<longleftrightarrow> good (wo_table w) \<and> K \<subseteq> rows (wo_table w)"

text \<open>The index maps the key to a row of the rule under it, and the other keys as before.\<close>

definition index_at ::
  "string \<Rightarrow> string \<Rightarrow> (string \<Rightarrow> mapping option) \<Rightarrow> (string \<times> mapping) list \<Rightarrow> bool" where
  "index_at ruleID key L byKey \<longleftrightarrow>
     (\<forall>m. map_of byKey key = Some m \<longrightarrow> row_key m = key \<and> mp_rule_id m = ruleID) \<and>
     (\<forall>j. j \<noteq> key \<longrightarrow> map_of byKey j = L j)"

lemma put_key_index:
  "row_key m = k \<Longrightarrow> mp_rule_id m = i \<Longrightarrow>
   holds (run_inv I (index_at i k L)) P (put_key k m) (\<lambda>_ _. True)"
  and forget_key_index: "holds (run_inv I (index_at i k L)) P (forget_key k) (\<lambda>_ _. True)"
  by (simp_all add: holds_def put_key_def forget_key_def modify_def run_inv_def index_at_def)

lemma kept_ext [simp]: "kept good rows K (w\<lparr>wo_ext := s\<rparr>) = kept good rows K w"
  "kept good rows K (w\<lparr>wo_drawn := n\<rparr>) = kept good rows K w"
  "kept good rows K (w\<lparr>wo_sent := c\<rparr>) = kept good rows K w"
  by (simp_all add: kept_def)

lemma ext_op_kept: "holds (kept good rows K) P (ext_op m) (\<lambda>_ _. True)"
  by (rule ext_op_frame) simp_all

text \<open>A program that leaves the table as it is.\<close>

definition table_same :: "(('s, 't) world, 'a) prog \<Rightarrow> bool" where
  "table_same m \<longleftrightarrow> (\<forall>w. wo_table (snd (m w)) = wo_table w)"

lemma table_same_ops:
  "table_same (ext_op m)" "table_same (send e call n)" "table_same (lift_res x)" "table_same (fail y)"
  by (simp_all add: table_same_def ext_op_def send_def lift_res_def fail_def split_def)

lemma table_same_seq:
  "table_same m \<Longrightarrow> (\<And>x. table_same (k x)) \<Longrightarrow> table_same (and_then m k)"
  "table_same m \<Longrightarrow> table_same (wrap_fail h m)"
proof -
  show "table_same m \<Longrightarrow> (\<And>x. table_same (k x)) \<Longrightarrow> table_same (and_then m k)"
    unfolding table_same_def and_then_def by (simp add: split_def split: sum.split)
  show "table_same m \<Longrightarrow> table_same (wrap_fail h m)"
    unfolding table_same_def wrap_fail_def by (simp add: split_def split: sum.split)
qed

lemma send_update_same: "table_same (send_update v t event scope etag marker)"
  and send_delete_same: "table_same (send_delete v t scope etag marker)"
  and guarded_create_same: "table_same (guarded_create e g request)"
  unfolding send_update_def send_delete_def guarded_create_def guarded_update_def guarded_delete_def Let_def
  by (intro table_same_seq table_same_ops | simp add: table_same_ops | rule conjI impI)+

lemma table_same_holds:
  assumes "table_same m" and "\<And>w w'. wo_table w = wo_table w' \<Longrightarrow> I w = I w'"
    and "\<And>w w'. wo_table w = wo_table w' \<Longrightarrow> P w = P w'"
  shows "holds I P m (\<lambda>_. P)"
proof (rule holdsI)
  fix w r w' assume "I w" "P w" "m w = (r, w')"
  moreover have "wo_table w' = wo_table w" using assms(1) \<open>m w = (r, w')\<close> by (metis snd_conv table_same_def)
  ultimately show "I w' \<and> (\<forall>x. r = Inr x \<longrightarrow> P w')" using assms(2,3) by blast
qed

context keyed_mapping_store begin

abbreviation keeps :: "mapping set \<Rightarrow> ('s, 't) world \<Rightarrow> bool" where
  "keeps K \<equiv> kept good rows K"

lemma begin_kept:
  assumes ops: "en_store e = ops" and K: "apart K (mp_rule_id m) (row_key m)"
  shows "holds (keeps K) P (begin_mapping_mutation e m kind targetID)
    (\<lambda>p w. p \<in> rows (wo_table w) \<and> mp_rule_id p = mp_rule_id m \<and> row_key p = row_key m)"
proof (rule holdsI)
  fix w r w'
  assume inv: "keeps K w" and run: "begin_mapping_mutation e m kind targetID w = (r, w')"
  obtain c w1 where c: "ext_op (check_dispatch_fence e) w = (c, w1)" by fastforce
  have w1: "good (wo_table w1)" "K \<subseteq> rows (wo_table w1)"
    using inv c by (auto simp: ext_op_def kept_def split: prod.splits)
  let ?m = "m\<lparr>mp_target_event_id := targetID, mp_reconciliation_state := kind\<rparr>"
  have "wo_table w' = wo_table w1 \<or> (\<exists>u x. mo_insert_mutation ops u ?m (wo_table w1) = (x, wo_table w')) \<or>
      (\<exists>n x. mo_update_cas ops ?m n (wo_table w1) = (x, wo_table w'))"
    using run c ops
    by (auto simp: begin_mapping_mutation_def and_then_def fail_def ret_def Let_def insert_op_def table_op_def
        split: sum.splits prod.splits if_splits)
  moreover have "apart K (mp_rule_id ?m) (row_key ?m)" using K by simp
  ultimately have "keeps K w'"
    using w1 insert_frame(1) [of "wo_table w1" _ ?m] update_frame [of "wo_table w1" ?m _ _ "wo_table w'" K]
    unfolding kept_def by (elim disjE exE) (simp, blast, blast)
  then show "keeps K w' \<and> (\<forall>x. r = Inr x \<longrightarrow> x \<in> rows (wo_table w') \<and>
      mp_rule_id x = mp_rule_id m \<and> row_key x = row_key m)"
    using begin_row [OF ops, of m kind targetID w] run by fastforce
qed

text \<open>An attempt: its intent, the call, and what settles it.\<close>

lemma attempt_kept:
  assumes ops: "en_store e = ops" and K: "apart K (mp_rule_id m) (row_key m)" and S: "table_same S"
    and k: "\<And>p out. mp_rule_id p = mp_rule_id m \<Longrightarrow> row_key p = row_key m \<Longrightarrow>
      holds (run_inv (keeps K) J) (\<lambda>rs. p \<in> rows (wo_table (rs_world rs))) (k p out) Q"
  shows "holds (run_inv (keeps K) J) P
    (and_then (in_world (begin_mapping_mutation e m kind t)) (\<lambda>p. and_then (in_world S) (k p))) Q"
proof (rule holds_and_then)
  let ?B = "\<lambda>p w. p \<in> rows (wo_table w) \<and> mp_rule_id p = mp_rule_id m \<and> row_key p = row_key m"
  show "holds (run_inv (keeps K) J) P (in_world (begin_mapping_mutation e m kind t)) (\<lambda>p rs. ?B p (rs_world rs))"
    by (rule holds_pre [OF in_world_holds [OF begin_kept [OF ops K, where P = "\<lambda>_. True"]]]) simp
  show "holds (run_inv (keeps K) J) (\<lambda>rs. ?B p (rs_world rs)) (and_then (in_world S) (k p)) Q" for p
  proof (rule holds_and_then)
    show "holds (run_inv (keeps K) J) (\<lambda>rs. ?B p (rs_world rs)) (in_world S) (\<lambda>_ rs. ?B p (rs_world rs))"
      by (rule in_world_holds, rule table_same_holds [OF S]) (simp_all add: kept_def)
    show "holds (run_inv (keeps K) J) (\<lambda>rs. ?B p (rs_world rs)) (k p out) Q" for out
      using k [of p out] by (auto simp: holds_def)
  qed
qed

lemma update_cas_kept:
  assumes "apart K (mp_rule_id m) (row_key m)"
  shows "holds (keeps K) P (table_op (mo_update_cas ops m n)) (\<lambda>_ _. True)"
proof (rule holdsI)
  fix w r w' assume "keeps K w" "table_op (mo_update_cas ops m n) w = (r, w')"
  moreover obtain x t where "mo_update_cas ops m n (wo_table w) = (x, t)" by fastforce
  ultimately show "keeps K w' \<and> (\<forall>x. r = Inr x \<longrightarrow> True)"
    using update_frame [of "wo_table w" m n x t K] assms by (auto simp: table_op_def kept_def)
qed

lemma complete_mutation_kept:
  assumes "en_store e = ops" and "apart K (mp_rule_id q) (row_key q)"
  shows "holds (keeps K) P (complete_mapping_mutation e p q out) (\<lambda>_ _. True)"
  unfolding complete_mapping_mutation_def Let_def assms(1)
  by (intro step_if step_fail update_cas_kept) (use assms(2) in simp)

lemma complete_delete_kept:
  assumes "en_store e = ops" and "apart K (mp_rule_id p) (row_key p)"
  shows "holds (keeps K) (\<lambda>w. p \<in> rows (wo_table w)) (complete_mapping_delete e p out) (\<lambda>_ _. True)"
proof -
  have "holds (keeps K) (\<lambda>w. p \<in> rows (wo_table w))
      (table_op (mo_delete_cas ops (mp_id p) (mp_incarnation p) (mp_version p))) (\<lambda>_ _. True)"
  proof (rule holdsI)
    fix w r w' assume "keeps K w" "p \<in> rows (wo_table w)"
      "table_op (mo_delete_cas ops (mp_id p) (mp_incarnation p) (mp_version p)) w = (r, w')"
    moreover obtain x t where "mo_delete_cas ops (mp_id p) (mp_incarnation p) (mp_version p) (wo_table w) = (x, t)"
      by fastforce
    ultimately show "keeps K w' \<and> (\<forall>x. r = Inr x \<longrightarrow> True)"
      using delete_frame [of "wo_table w" p x t K] assms(2) by (auto simp: table_op_def kept_def)
  qed
  then show ?thesis unfolding complete_mapping_delete_def assms(1) by (intro step_if step_fail)
qed

end

context keyed_mapping_store begin

text \<open>
  The operations on an event of key \<open>k\<close> keep a set of rows that is apart from the key, and change
  the index at the key only.
\<close>

abbreviation at_key ::
  "mapping set \<Rightarrow> string \<Rightarrow> string \<Rightarrow> (string \<Rightarrow> mapping option) \<Rightarrow> ('s, 't) run_state \<Rightarrow> bool" where
  "at_key K i k L \<equiv> run_inv (keeps K) (index_at i k L)"

lemma lookup_kept:
  "(\<And>x. holds (run_inv (keeps K) J) (\<lambda>_. True) (k x) R) \<Longrightarrow>
   holds (run_inv (keeps K) J) P (and_then (lookup_copy v find_marker event msg) k) R"
  unfolding lookup_copy_def by (rule step_world, rule holds_wrap_fail, rule ext_op_kept)

lemma settle_delete_kept:
  assumes "en_store e = ops" and "apart K (mp_rule_id p) (row_key p)"
  shows "holds (run_inv (keeps K) J) (\<lambda>rs. p \<in> rows (wo_table (rs_world rs)))
      (in_world (complete_mapping_delete e p out)) (\<lambda>_ _. True)"
    and "(\<And>x. holds (run_inv (keeps K) J) (\<lambda>_. True) (k x) R) \<Longrightarrow>
      holds (run_inv (keeps K) J) (\<lambda>rs. p \<in> rows (wo_table (rs_world rs)))
        (and_then (in_world (complete_mapping_delete e p out)) k) R"
proof -
  show one: "holds (run_inv (keeps K) J) (\<lambda>rs. p \<in> rows (wo_table (rs_world rs)))
      (in_world (complete_mapping_delete e p out)) (\<lambda>_ _. True)"
    by (rule in_world_holds [OF complete_delete_kept [OF assms]])
  show "holds (run_inv (keeps K) J) (\<lambda>rs. p \<in> rows (wo_table (rs_world rs)))
        (and_then (in_world (complete_mapping_delete e p out)) k) R"
    if "\<And>x. holds (run_inv (keeps K) J) (\<lambda>_. True) (k x) R"
    by (rule holds_and_then [OF one that])
qed

lemma settle_mutation_kept:
  assumes "en_store e = ops" and "apart K (mp_rule_id q) (row_key q)"
  shows "holds (run_inv (keeps K) J) P (in_world (complete_mapping_mutation e p q out)) (\<lambda>_ _. True)"
    and "(\<And>x. holds (run_inv (keeps K) J) (\<lambda>_. True) (k x) R) \<Longrightarrow>
      holds (run_inv (keeps K) J) P (and_then (in_world (complete_mapping_mutation e p q out)) k) R"
  by (rule world_step [OF complete_mutation_kept [OF assms]], rule step_world [OF complete_mutation_kept [OF assms]])

lemmas attempt_rules = attempt_kept settle_delete_kept settle_mutation_kept

lemma recover_cancelled_kept:
  assumes ops: "en_store (re_engine v) = ops" and K: "apart K i (event_key event)"
    and m: "row_key m = event_key event" "mp_rule_id m = i"
  shows "holds (at_key K i (event_key event) L) P (recover_cancelled v event m) (\<lambda>_ _. True)"
  unfolding recover_cancelled_def
  by (intro steps lookup_kept attempt_rules ops send_delete_same forget_key_index) (simp_all add: m K)

lemma delete_exception_kept:
  assumes ops: "en_store (re_engine v) = ops" and K: "apart K i (event_key event)" and i: "i = ru_id (re_rule v)"
    and m: "\<And>m. mapped = Some m \<Longrightarrow> row_key m = event_key event \<and> mp_rule_id m = i"
  shows "holds (at_key K i (event_key event) L) P (delete_exception v event mapped series found) (\<lambda>_ _. True)"
proof -
  have row: "row_key (case mapped of Some m \<Rightarrow> m | None \<Rightarrow> exception_mapping v event t series) = event_key event"
    "mp_rule_id (case mapped of Some m \<Rightarrow> m | None \<Rightarrow> exception_mapping v event t series) = i" for t
    using m i by (simp_all split: option.split)
  show ?thesis
    unfolding delete_exception_def Let_def
    by (intro steps attempt_rules table_same_seq send_delete_same forget_key_index ops) (simp_all add: row K)
qed

lemma update_exception_kept:
  assumes ops: "en_store (re_engine v) = ops" and K: "apart K i (event_key event)" and i: "i = ru_id (re_rule v)"
    and m: "\<And>m. mapped = Some m \<Longrightarrow> row_key m = event_key event \<and> mp_rule_id m = i"
  shows "holds (at_key K i (event_key event) L) P (update_exception v event mapped series found) (\<lambda>_ _. True)"
proof -
  have row: "row_key (case mapped of Some m \<Rightarrow> m | None \<Rightarrow> exception_mapping v event t series) = event_key event"
    "mp_rule_id (case mapped of Some m \<Rightarrow> m | None \<Rightarrow> exception_mapping v event t series) = i" for t
    using m i by (simp_all split: option.split)
  show ?thesis
    unfolding update_exception_def Let_def
    by (intro steps attempt_rules table_same_seq send_update_same put_key_index ops)
      (simp_all add: row K i [symmetric])
qed

lemma reconcile_exception_kept:
  assumes ops: "en_store (re_engine v) = ops" and K: "apart K i (event_key event)" and i: "i = ru_id (re_rule v)"
    and m: "\<And>m. mapped = Some m \<Longrightarrow> row_key m = event_key event \<and> mp_rule_id m = i"
  shows "holds (at_key K i (event_key event) L) P (reconcile_exception v event mapped) (\<lambda>_ _. True)"
  unfolding reconcile_exception_def
  by (intro step_gets steps step_world [OF ext_op_kept])
    (simp add: delete_exception_kept [OF ops K i m] update_exception_kept [OF ops K i m])

lemma reconcile_cancelled_kept:
  assumes ops: "en_store (re_engine v) = ops" and K: "apart K i (event_key event)"
    and m: "\<And>m. mapped = Some m \<Longrightarrow> row_key m = event_key event \<and> mp_rule_id m = i"
  shows "holds (at_key K i (event_key event) L) P (reconcile_cancelled v event mapped) (\<lambda>_ _. True)"
  unfolding reconcile_cancelled_def
  by (intro steps attempt_rules table_same_seq send_delete_same ops) (use m K in simp_all)

lemma reconcile_changed_kept:
  assumes ops: "en_store (re_engine v) = ops" and K: "apart K i (event_key event)"
    and m: "row_key m = event_key event" "mp_rule_id m = i"
  shows "holds (at_key K i (event_key event) L) P (reconcile_changed v event m) (\<lambda>_ _. True)"
  unfolding reconcile_changed_def
  by (intro steps attempt_rules table_same_seq send_update_same ops) (simp_all add: m K)

end


context keyed_mapping_store begin

lemma create_intent_kept:
  assumes ops: "en_store (re_engine v) = ops"
  shows "holds (keeps K) P (create_intent v event)
    (\<lambda>m _. mp_rule_id m = ru_id (re_rule v) \<and> row_key m = event_key event)"
proof (rule holdsI)
  fix w r w'
  assume inv: "keeps K w" and run: "create_intent v event w = (r, w')"
  obtain c w1 where c: "ext_op (check_dispatch_fence (re_engine v)) w = (c, w1)" by fastforce
  have w1: "good (wo_table w1)" "K \<subseteq> rows (wo_table w1)"
    using inv c by (auto simp: ext_op_def kept_def split: prod.splits)
  have "wo_table w' = wo_table w1 \<or> (\<exists>u m x. mo_insert_create ops u m (wo_table w1) = (x, wo_table w'))"
    using run c ops
    by (auto simp: create_intent_def and_then_def fail_def ret_def Let_def insert_op_def table_op_def wrap_fail_def
        split: sum.splits prod.splits if_splits)
  then have "keeps K w'"
    using w1 insert_frame(2) [of "wo_table w1"] unfolding kept_def by (elim disjE exE) (simp, blast)
  moreover have "mp_rule_id x = ru_id (re_rule v) \<and> row_key x = event_key event" if "r = Inr x" for x
    using run that
    by (auto simp: create_intent_def returns_iff Let_def event_mapping_def row_key_def event_key_def split: if_splits)
  ultimately show "keeps K w' \<and> (\<forall>x. r = Inr x \<longrightarrow>
      mp_rule_id x = ru_id (re_rule v) \<and> row_key x = event_key event)" by blast
qed

lemma create_copy_kept: "holds (run_inv (keeps K) J) P (create_copy v event) (\<lambda>_ _. True)"
  unfolding create_copy_def
  by (intro steps step_world holds_wrap_fail
      holds_pre [OF table_same_holds [OF guarded_create_same, where P = "\<lambda>_. True"]]) (simp_all add: kept_def)

lemma update_copy_kept:
  assumes ops: "en_store (re_engine v) = ops" and K: "apart K i (event_key event)"
    and m: "row_key m = event_key event" "mp_rule_id m = i"
  shows "holds (run_inv (keeps K) J) P (update_copy v event m c) (\<lambda>_ _. True)"
  unfolding update_copy_def Let_def
  by (intro steps attempt_rules table_same_seq send_update_same ops) (simp_all add: m K)

lemma settle_copy_kept:
  assumes ops: "en_store (re_engine v) = ops" and K: "apart K i (event_key event)" and i: "i = ru_id (re_rule v)"
  shows "holds (at_key K i (event_key event) L) P (settle_copy v event mc) (\<lambda>_ _. True)"
  unfolding settle_copy_def Let_def ops
  by (intro steps step_world update_cas_kept put_key_index)
    (use K i in \<open>simp_all add: event_mapping_def row_key_def event_key_def\<close>)

lemma reconcile_create_kept:
  assumes ops: "en_store (re_engine v) = ops" and K: "apart K i (event_key event)" and i: "i = ru_id (re_rule v)"
    and m: "\<And>m. pend = Some m \<Longrightarrow> row_key m = event_key event \<and> mp_rule_id m = i"
    and dry: "\<not> re_dry v"
  shows "holds (at_key K i (event_key event) L) P (reconcile_create v event pend) (\<lambda>_ _. True)"
proof -
  let ?I = "at_key K i (event_key event) L"
  have get: "holds ?I P (case pend of Some m \<Rightarrow> ret m | None \<Rightarrow> in_world (create_intent v event))
      (\<lambda>m _. mp_rule_id m = i \<and> row_key m = event_key event)"
  proof (cases pend)
    case None
    show ?thesis unfolding None option.case i
      by (rule holds_pre [OF in_world_holds [OF create_intent_kept [OF ops, where P = "\<lambda>_. True"]]]) simp
  next
    case (Some m)
    then show ?thesis using m by (simp add: holds_def ret_def)
  qed
  have obt: "holds ?I (\<lambda>_. True) (obtain_copy v event m b found) (\<lambda>_ _. True)"
    if "mp_rule_id m = i" "row_key m = event_key event" for m b found
    unfolding obtain_copy_def
    by (intro steps update_copy_kept [OF ops K that(2,1)] holds_and_then [OF create_copy_kept])
  have chain: "holds ?I P
    (and_then (case pend of Some m \<Rightarrow> ret m | None \<Rightarrow> in_world (create_intent v event)) (\<lambda>m.
     and_then (lookup_copy v find_marker event msg) (\<lambda>found.
     and_then (obtain_copy v event m (pend \<noteq> None) found) (settle_copy v event)))) (\<lambda>_ _. True)" for find_marker msg
  proof (rule holds_and_then [OF get])
    fix m
    show "holds ?I (\<lambda>_. mp_rule_id m = i \<and> row_key m = event_key event)
      (and_then (lookup_copy v find_marker event msg) (\<lambda>found.
       and_then (obtain_copy v event m (pend \<noteq> None) found) (settle_copy v event))) (\<lambda>_ _. True)"
    proof (cases "mp_rule_id m = i \<and> row_key m = event_key event")
      case True
      show ?thesis
        by (rule lookup_kept, rule holds_and_then [OF obt]) (use True settle_copy_kept [OF ops K i] in simp_all)
    next
      case False
      then show ?thesis unfolding holds_def by blast
    qed
  qed
  show ?thesis
    unfolding reconcile_create_def if_not_P [OF dry] by (intro step_case_option step_fail chain)
qed

lemma dispatch_event_kept:
  assumes ops: "en_store (re_engine v) = ops" and K: "apart K i (event_key event)" and i: "i = ru_id (re_rule v)"
    and m: "\<And>m. mapped = Some m \<Longrightarrow> row_key m = event_key event \<and> mp_rule_id m = i"
    and p: "\<And>m. pend = Some m \<Longrightarrow> row_key m = event_key event \<and> mp_rule_id m = i"
    and dry: "\<not> re_dry v"
  shows "holds (at_key K i (event_key event) L) P (dispatch_event v event mapped pend) (\<lambda>_ _. True)"
  unfolding dispatch_event_def
  by (intro steps reconcile_exception_kept [OF ops K i m] reconcile_cancelled_kept [OF ops K m]
      reconcile_create_kept [OF ops K i p dry] reconcile_changed_kept [OF ops K]) (use m in auto)

lemma process_event_kept:
  assumes ops: "en_store (re_engine v) = ops" and K: "apart K i (event_key event)" and i: "i = ru_id (re_rule v)"
    and dry: "\<not> re_dry v"
  shows "holds (at_key K i (event_key event) L) (\<lambda>_. True) (process_event v event) (\<lambda>_ _. True)"
proof -
  let ?I = "at_key K i (event_key event) L"
  let ?rest = "\<lambda>mapped. case mapped of
          None \<Rightarrow> dispatch_event v event None None
        | Some m \<Rightarrow>
            if mp_reconciliation_state m \<noteq> ''pending_create'' then dispatch_event v event (Some m) None
            else if re_dry v then fail (Sentinel ErrPendingCreateUnresolved)
            else if ev_status event = ''cancelled'' then recover_cancelled v event m
            else dispatch_event v event None (Some m)"
  have look: "row_key m = event_key event \<and> mp_rule_id m = i"
    if "?I rs" "map_of (rs_by_key rs) (event_key event) = Some m" for rs m
    using that by (auto simp: run_inv_def index_at_def)
  have rest: "holds ?I (\<lambda>_. True) (?rest mapped) (\<lambda>_ _. True)"
    if "\<And>m. mapped = Some m \<Longrightarrow> row_key m = event_key event \<and> mp_rule_id m = i" for mapped
    using that
    by (auto intro!: steps dispatch_event_kept [OF ops K i _ _ dry] recover_cancelled_kept [OF ops K]
        split: option.split)
  have tail: "holds ?I (\<lambda>_. True) (and_then (modify (\<lambda>rs. rs\<lparr>rs_seen := event_key event # rs_seen rs\<rparr>)) (\<lambda>_.
       and_then (gets (\<lambda>rs. map_of (rs_by_key rs) (event_key event))) ?rest)) (\<lambda>_ _. True)"
    by (rule holds_and_then [where Q = "\<lambda>_ _. True"], rule holds_modify, simp add: run_inv_def, rule step_gets,
        rule rest, rule look)
  show ?thesis unfolding process_event_def by (intro steps tail)
qed

lemma restore_mapping_kept:
  assumes ops: "en_store (re_engine v) = ops" and K: "apart K (mp_rule_id m) (row_key m)"
  shows "holds (run_inv (keeps K) J) (\<lambda>_. True) (restore_mapping v m) (\<lambda>_ _. True)"
proof -
  have "holds (run_inv (keeps K) J) P (restore_occurrence v m occurrence) (\<lambda>_ _. True)" for P occurrence
    unfolding restore_occurrence_def Let_def
    by (intro steps attempt_rules table_same_seq send_update_same ops) (simp_all add: K)
  then show ?thesis
    unfolding restore_mapping_def by (intro step_gets steps)
qed

end


section \<open>What a processed event leaves\<close>

definition settled :: "string \<Rightarrow> string \<Rightarrow> string \<Rightarrow> mapping \<Rightarrow> bool" where
  "settled ruleID key hash m \<longleftrightarrow> mp_rule_id m = ruleID \<and> row_key m = key \<and> mp_content_hash m = hash \<and>
     mp_reconciliation_state m \<notin> {''pending_create'', ''pending_update'', ''pending_delete''}"

text \<open>A row of the table without a pending attempt, unless it is a pending creation.\<close>

definition startable :: "mapping \<Rightarrow> bool" where
  "startable m \<longleftrightarrow> mp_reconciliation_state m \<notin> {''pending_update'', ''pending_delete''}"

lemma step_returns_iff:
  "in_world m rs = (Inr y, rs') \<longleftrightarrow> (\<exists>w'. m (rs_world rs) = (Inr y, w') \<and> rs' = rs\<lparr>rs_world := w'\<rparr>)"
  "on_result f rs = (Inr z, rs') \<longleftrightarrow> rs' = rs\<lparr>rs_result := f (rs_result rs)\<rparr>"
  "put_key k row rs = (Inr z, rs') \<longleftrightarrow> rs' = rs\<lparr>rs_by_key := AList.update k row (rs_by_key rs)\<rparr>"
  "modify g s = (Inr z, s') \<longleftrightarrow> s' = g s"
  by (auto simp: in_world_def on_result_def put_key_def modify_def split: prod.splits)

lemma note_returns: "note_action v ev a r st rs = (Inr z, rs') \<Longrightarrow> rs_world rs' = rs_world rs"
  by (auto simp: note_action_def on_result_def modify_def)

context mapping_store begin

lemma complete_mutation_row:
  assumes "en_store e = ops" and "complete_mapping_mutation e p q out w = (Inr u, w')"
  shows "\<exists>m \<in> rows (wo_table w'). mp_rule_id m = mp_rule_id q \<and> row_key m = row_key q \<and>
    mp_content_hash m = mp_content_hash q \<and> mp_reconciliation_state m = ''current''"
proof -
  obtain r2 where r2: "table_op (mo_update_cas ops r2 (mp_version p)) w = (Inr u, w')"
    and q: "mp_rule_id r2 = mp_rule_id q" "row_key r2 = row_key q" "mp_content_hash r2 = mp_content_hash q"
      "mp_reconciliation_state r2 = ''current''"
    using assms
    by (auto simp: complete_mapping_mutation_def fail_def Let_def row_key_def split: if_splits)
  have "r2\<lparr>mp_version := mp_version p + 1\<rparr> \<in> rows (wo_table w')"
    using r2 by (auto simp: table_op_def split: prod.splits intro: update_row)
  then show ?thesis by (rule bexI [rotated]) (simp add: q)
qed

lemma reconcile_changed_settles:
  assumes ops: "en_store (re_engine v) = ops" and dry: "\<not> re_dry v"
    and m: "m \<in> rows (wo_table (rs_world rs))" "row_key m = event_key event" "mp_rule_id m = i"
      "startable m" "mp_reconciliation_state m \<noteq> ''pending_create''"
    and run: "reconcile_changed v event m rs = (Inr u, rs')"
  shows "\<exists>m \<in> rows (wo_table (rs_world rs')). settled i (event_key event) (run_hash v event) m"
proof (cases "mp_content_hash m = run_hash v event")
  case True
  then have "wo_table (rs_world rs') = wo_table (rs_world rs)"
    using run by (auto simp: reconcile_changed_def returns_iff step_returns_iff dest: note_returns)
  then show ?thesis using m True by (auto simp: settled_def startable_def)
next
  case False
  let ?q = "m\<lparr>mp_content_hash := run_hash v event, mp_last_seen_at := re_now v\<rparr>"
  obtain p out w w' where "complete_mapping_mutation (re_engine v) p ?q out w = (Inr u, w')" "rs_world rs' = w'"
    using run False dry by (auto simp: reconcile_changed_def returns_iff step_returns_iff split: prod.splits)
  then show ?thesis using complete_mutation_row [OF ops] m by (fastforce simp: settled_def)
qed

lemma settle_copy_settles:
  assumes ops: "en_store (re_engine v) = ops" and "settle_copy v event mc rs = (Inr u, rs')"
  shows "\<exists>m \<in> rows (wo_table (rs_world rs')). settled (ru_id (re_rule v)) (event_key event) (run_hash v event) m"
proof -
  obtain m n w w' where u: "table_op (mo_update_cas ops m n) w = (Inr (), w')" "rs_world rs' = w'"
    and m: "settled (ru_id (re_rule v)) (event_key event) (run_hash v event) m"
    using assms
    by (auto simp: settle_copy_def returns_iff step_returns_iff Let_def settled_def event_mapping_def row_key_def
        event_key_def split: prod.splits)
  have "m\<lparr>mp_version := n + 1\<rparr> \<in> rows (wo_table w')"
    using u(1) by (auto simp: table_op_def split: prod.splits intro: update_row)
  then show ?thesis using m u(2) by (intro bexI) (simp_all add: settled_def)
qed

lemma update_exception_settles:
  assumes ops: "en_store (re_engine v) = ops"
    and m: "\<And>m. mapped = Some m \<Longrightarrow> m \<in> rows (wo_table (rs_world rs)) \<and> row_key m = event_key event \<and>
      mp_rule_id m = ru_id (re_rule v) \<and> startable m \<and> mp_reconciliation_state m \<noteq> ''pending_create''"
    and run: "update_exception v event mapped series found rs = (Inr u, rs')"
  shows "\<exists>m \<in> rows (wo_table (rs_world rs')). settled (ru_id (re_rule v)) (event_key event) (run_hash v event) m"
proof (cases "case mapped of Some m \<Rightarrow> mp_content_hash m = run_hash v event | None \<Rightarrow> False")
  case True
  then obtain m where some: "mapped = Some m" "mp_content_hash m = run_hash v event" by (auto split: option.splits)
  have "rs_world rs' = rs_world rs"
    using run some by (auto simp: update_exception_def step_returns_iff fail_def split: option.splits)
  then show ?thesis using m [OF some(1)] some(2) by (auto simp: settled_def startable_def)
next
  case False
  have row: "row_key (exception_mapping v event t series) = event_key event \<and>
      mp_rule_id (exception_mapping v event t series) = ru_id (re_rule v)" for t by simp
  obtain p q out w w' where c: "complete_mapping_mutation (re_engine v) p q out w = (Inr (), w')" "rs_world rs' = w'"
    and q: "row_key q = event_key event" "mp_rule_id q = ru_id (re_rule v)" "mp_content_hash q = run_hash v event"
    using run False row
    by (auto simp: update_exception_def returns_iff step_returns_iff fail_def Let_def
        split: option.splits if_splits)
  show ?thesis using complete_mutation_row [OF ops c(1)] c(2) q by (fastforce simp: settled_def)
qed

lemma dispatch_event_settles:
  assumes ops: "en_store (re_engine v) = ops" and dry: "\<not> re_dry v" and live: "ev_status event \<noteq> ''cancelled''"
    and m: "\<And>m. mapped = Some m \<Longrightarrow> m \<in> rows (wo_table (rs_world rs)) \<and> row_key m = event_key event \<and>
      mp_rule_id m = ru_id (re_rule v) \<and> startable m \<and> mp_reconciliation_state m \<noteq> ''pending_create''"
    and run: "dispatch_event v event mapped pend rs = (Inr u, rs')"
  shows "\<exists>m \<in> rows (wo_table (rs_world rs')). settled (ru_id (re_rule v)) (event_key event) (run_hash v event) m"
proof (cases "is_series_exception event")
  case True
  then have "reconcile_exception v event mapped rs = (Inr u, rs')" using run by (simp add: dispatch_event_def)
  then obtain series found rs1 where u: "update_exception v event mapped series found rs1 = (Inr u, rs')"
    and same: "wo_table (rs_world rs1) = wo_table (rs_world rs)"
    using dry live
    by (auto simp: reconcile_exception_def returns_iff step_returns_iff ext_op_def split: option.splits prod.splits)
  show ?thesis by (rule update_exception_settles [OF ops _ u]) (use m same in simp)
next
  case exc: False
  show ?thesis
  proof (cases mapped)
    case None
    then have "reconcile_create v event pend rs = (Inr u, rs')" using run exc live by (simp add: dispatch_event_def)
    then obtain mc rs1 where "settle_copy v event mc rs1 = (Inr u, rs')"
      using dry by (auto simp: reconcile_create_def returns_iff split: option.splits)
    then show ?thesis by (rule settle_copy_settles [OF ops])
  next
    case (Some m')
    then have "reconcile_changed v event m' rs = (Inr u, rs')" using run exc live by (simp add: dispatch_event_def)
    then show ?thesis by (rule reconcile_changed_settles [OF ops dry, rotated -1]) (use m Some in auto)
  qed
qed

lemma process_event_settles:
  assumes ops: "en_store (re_engine v) = ops" and dry: "\<not> re_dry v"
    and live: "ev_status event \<noteq> ''cancelled''" "\<not> is_plain_occurrence event"
    and m: "\<And>m. map_of (rs_by_key rs) (event_key event) = Some m \<Longrightarrow> m \<in> rows (wo_table (rs_world rs)) \<and>
      row_key m = event_key event \<and> mp_rule_id m = ru_id (re_rule v) \<and> startable m"
    and run: "process_event v event rs = (Inr u, rs')"
  shows "\<exists>m \<in> rows (wo_table (rs_world rs')). settled (ru_id (re_rule v)) (event_key event) (run_hash v event) m"
proof -
  let ?rs = "rs\<lparr>rs_seen := event_key event # rs_seen rs\<rparr>"
  have rest: "\<exists>mapped pend. dispatch_event v event mapped pend ?rs = (Inr u, rs') \<and>
      (mapped \<noteq> None \<longrightarrow> mapped = map_of (rs_by_key rs) (event_key event) \<and>
        mp_reconciliation_state (the mapped) \<noteq> ''pending_create'')"
  proof (cases "map_of (rs_by_key rs) (event_key event)")
    case None
    then have "dispatch_event v event None None ?rs = (Inr u, rs')"
      using run live by (simp add: process_event_def returns_iff step_returns_iff)
    then show ?thesis by blast
  next
    case (Some m)
    then have "dispatch_event v event (Some m) None ?rs = (Inr u, rs')
        \<and> mp_reconciliation_state m \<noteq> ''pending_create'' \<or> dispatch_event v event None (Some m) ?rs = (Inr u, rs')"
      using run live dry by (auto simp: process_event_def returns_iff step_returns_iff split: if_splits)
    then show ?thesis
    proof
      assume "dispatch_event v event (Some m) None ?rs = (Inr u, rs') \<and> mp_reconciliation_state m \<noteq> ''pending_create''"
      then show ?thesis using Some by (intro exI [of _ "Some m"] exI [of _ None]) simp
    qed blast
  qed
  then obtain mapped pend where d: "dispatch_event v event mapped pend ?rs = (Inr u, rs')"
    and origin: "mapped \<noteq> None \<longrightarrow> mapped = map_of (rs_by_key rs) (event_key event) \<and>
        mp_reconciliation_state (the mapped) \<noteq> ''pending_create''"
    by blast
  have mapped: "map_of (rs_by_key rs) (event_key event) = Some m \<and> mp_reconciliation_state m \<noteq> ''pending_create''"
    if "mapped = Some m" for m using origin that by simp
  show ?thesis by (rule dispatch_event_settles [OF ops dry live(1) _ d]) (use m mapped in auto)
qed

end


section \<open>The loops\<close>

text \<open>The rows of the index that belong to the keys of some events.\<close>

definition index_rows :: "(string \<times> mapping) list \<Rightarrow> event_v2 list \<Rightarrow> mapping set" where
  "index_rows byKey events = {m. \<exists>event \<in> set events. map_of byKey (event_key event) = Some m}"

text \<open>What a run has seen.\<close>

lemma in_world_seen [preserves_intros]: "preserves (\<lambda>rs. R (rs_seen rs)) (in_world m)"
  and on_result_seen [preserves_intros]: "preserves (\<lambda>rs. R (rs_seen rs)) (on_result f)"
  and note_action_seen [preserves_intros]: "preserves (\<lambda>rs. R (rs_seen rs)) (note_action v ev a r st)"
  and put_key_seen [preserves_intros]: "preserves (\<lambda>rs. R (rs_seen rs)) (put_key k row)"
  and forget_key_seen [preserves_intros]: "preserves (\<lambda>rs. R (rs_seen rs)) (forget_key k)"
  by (simp_all add: preserves_def in_world_def on_result_def note_action_def put_key_def forget_key_def modify_def
      split: prod.splits)

lemma restore_mapping_seen: "preserves (\<lambda>rs. R (rs_seen rs)) (restore_mapping v m)"
  unfolding restore_mapping_def restore_occurrence_def by (intro preserves_intros)

lemma branches_seen:
  "preserves (\<lambda>rs. R (rs_seen rs)) (reconcile_exception v event mapped)"
  "preserves (\<lambda>rs. R (rs_seen rs)) (reconcile_cancelled v event mapped)"
  "preserves (\<lambda>rs. R (rs_seen rs)) (reconcile_create v event pend)"
  "preserves (\<lambda>rs. R (rs_seen rs)) (reconcile_changed v event m)"
  "preserves (\<lambda>rs. R (rs_seen rs)) (recover_cancelled v event m)"
  unfolding reconcile_exception_def reconcile_cancelled_def reconcile_create_def reconcile_changed_def
    recover_cancelled_def delete_exception_def update_exception_def lookup_copy_def obtain_copy_def create_copy_def
    update_copy_def settle_copy_def
  by (intro preserves_intros preserves_if_app)+

lemma process_event_seen:
  "preserves (\<lambda>rs. k \<in> set (rs_seen rs)) (process_event v event)"
  unfolding process_event_def dispatch_event_def
  by (intro preserves_intros branches_seen preserves_if_app) (auto simp: preserves_def modify_def)

lemma process_event_sees:
  assumes "process_event v event rs = (Inr u, rs')" and "\<not> is_plain_occurrence event"
  shows "event_key event \<in> set (rs_seen rs')"
proof -
  let ?rs = "rs\<lparr>rs_seen := event_key event # rs_seen rs\<rparr>"
  let ?body = "\<lambda>mapped. case mapped of None \<Rightarrow> dispatch_event v event None None
        | Some m \<Rightarrow>
            if mp_reconciliation_state m \<noteq> ''pending_create'' then dispatch_event v event (Some m) None
            else if re_dry v then fail (Sentinel ErrPendingCreateUnresolved)
            else if ev_status event = ''cancelled'' then recover_cancelled v event m
            else dispatch_event v event None (Some m)"
  have "preserves (\<lambda>rs. event_key event \<in> set (rs_seen rs)) (?body mapped)" for mapped
    unfolding dispatch_event_def by (intro preserves_intros branches_seen preserves_if_app)
  from preservesD [OF this, of ?rs "map_of (rs_by_key rs) (event_key event)"]
  have "event_key event \<in> set (rs_seen (snd (?body (map_of (rs_by_key rs) (event_key event)) ?rs)))" by simp
  moreover have "process_event v event rs = ?body (map_of (rs_by_key rs) (event_key event)) ?rs"
    using assms(2) by (simp add: process_event_def and_then_def modify_def gets_def)
  ultimately show ?thesis using assms(1) by (metis snd_conv)
qed

lemma events_seen:
  assumes "for_each (process_event v) events rs = (Inr u, rs')"
  shows "set (rs_seen rs) \<subseteq> set (rs_seen rs') \<and>
    (\<forall>event \<in> set events. \<not> is_plain_occurrence event \<longrightarrow> event_key event \<in> set (rs_seen rs'))"
  using assms
proof (induction events arbitrary: rs)
  case Nil
  then show ?case by (simp add: ret_def)
next
  case (Cons e es)
  obtain rs1 where first: "process_event v e rs = (Inr (), rs1)"
    and rest: "for_each (process_event v) es rs1 = (Inr u, rs')"
    using Cons.prems by (auto simp: returns_iff)
  have "k \<in> set (rs_seen rs1)" if "k \<in> set (rs_seen rs)" for k
    using preservesD [OF process_event_seen that, of v e] first by simp
  then show ?case using Cons.IH [OF rest] process_event_sees [OF first] by auto
qed

context keyed_mapping_store begin

lemma process_event_frame:
  assumes ops: "en_store (re_engine v) = ops" and dry: "\<not> re_dry v"
    and K: "apart K (ru_id (re_rule v)) (event_key event)" "K \<subseteq> rows (wo_table (rs_world rs))"
    and good: "good (wo_table (rs_world rs))"
    and m: "\<And>m. map_of (rs_by_key rs) (event_key event) = Some m \<Longrightarrow>
      row_key m = event_key event \<and> mp_rule_id m = ru_id (re_rule v)"
    and run: "process_event v event rs = (r, rs')"
  shows "good (wo_table (rs_world rs')) \<and> K \<subseteq> rows (wo_table (rs_world rs')) \<and>
    (\<forall>m. map_of (rs_by_key rs') (event_key event) = Some m \<longrightarrow>
      row_key m = event_key event \<and> mp_rule_id m = ru_id (re_rule v)) \<and>
    (\<forall>k. k \<noteq> event_key event \<longrightarrow> map_of (rs_by_key rs') k = map_of (rs_by_key rs) k)"
proof -
  let ?I = "at_key K (ru_id (re_rule v)) (event_key event) (map_of (rs_by_key rs))"
  have "?I rs" using K good m by (simp add: run_inv_def kept_def index_at_def)
  then have "?I rs'"
    using holdsD [OF process_event_kept [OF ops K(1) refl dry], of "map_of (rs_by_key rs)" rs r rs'] run by blast
  then show ?thesis by (simp add: run_inv_def kept_def index_at_def)
qed

text \<open>The events of distinct keys, one after the other.\<close>

lemma events_loop:
  assumes "en_store (re_engine v) = ops" and "\<not> re_dry v"
    and "distinct (map event_key events)" and "good (wo_table (rs_world rs))"
    and "K \<subseteq> rows (wo_table (rs_world rs))"
    and "\<And>event. event \<in> set events \<Longrightarrow> apart K (ru_id (re_rule v)) (event_key event)"
    and "\<And>event m. event \<in> set events \<Longrightarrow> map_of (rs_by_key rs) (event_key event) = Some m \<Longrightarrow>
      m \<in> rows (wo_table (rs_world rs)) \<and> row_key m = event_key event \<and> mp_rule_id m = ru_id (re_rule v) \<and>
      startable m"
    and "for_each (process_event v) events rs = (Inr u, rs')"
  shows "good (wo_table (rs_world rs')) \<and> K \<subseteq> rows (wo_table (rs_world rs')) \<and>
    (\<forall>event \<in> set events. ev_status event \<noteq> ''cancelled'' \<longrightarrow> \<not> is_plain_occurrence event \<longrightarrow>
      (\<exists>m \<in> rows (wo_table (rs_world rs')). settled (ru_id (re_rule v)) (event_key event) (run_hash v event) m))"
  using assms(3-)
proof (induction events arbitrary: rs K)
  case Nil
  then show ?case by (auto simp: ret_def)
next
  case (Cons e es)
  obtain rs1 where first: "process_event v e rs = (Inr (), rs1)"
    and rest: "for_each (process_event v) es rs1 = (Inr u, rs')"
    using Cons.prems(6) by (auto simp: returns_iff)
  let ?i = "ru_id (re_rule v)"
  let ?K = "K \<union> index_rows (rs_by_key rs) es"
  have other: "event_key event \<noteq> event_key e" if "event \<in> set es" for event
    using that Cons.prems(1) by (metis distinct.simps(2) image_eqI list.set_map list.simps(9))
  have look: "m \<in> rows (wo_table (rs_world rs)) \<and> row_key m = event_key event \<and> mp_rule_id m = ?i \<and> startable m"
    if "event \<in> set (e # es)" "map_of (rs_by_key rs) (event_key event) = Some m" for event m
    using Cons.prems(5) [OF that] .
  have apartK: "apart ?K ?i (event_key e)"
    using Cons.prems(4) [of e] look other by (fastforce simp: apart_def index_rows_def)
  have sub: "?K \<subseteq> rows (wo_table (rs_world rs))"
    using Cons.prems(3) look by (fastforce simp: index_rows_def)
  note frame = process_event_frame [OF assms(1,2) apartK sub Cons.prems(2) _ first]
  have one: "good (wo_table (rs_world rs1))" "?K \<subseteq> rows (wo_table (rs_world rs1))"
    "\<And>k. k \<noteq> event_key e \<Longrightarrow> map_of (rs_by_key rs1) k = map_of (rs_by_key rs) k"
    using frame look [of e] by auto
  define S where "S = {m. m \<in> rows (wo_table (rs_world rs1)) \<and> settled ?i (event_key e) (run_hash v e) m}"
  have K': "K \<union> S \<subseteq> rows (wo_table (rs_world rs1))" using one(2) by (auto simp: S_def)
  have apart': "apart (K \<union> S) ?i (event_key event)" if "event \<in> set es" for event
    using Cons.prems(4) [of event] that other [OF that] by (auto simp: apart_def S_def settled_def)
  have look': "m \<in> rows (wo_table (rs_world rs1)) \<and> row_key m = event_key event \<and> mp_rule_id m = ?i \<and> startable m"
    if "event \<in> set es" "map_of (rs_by_key rs1) (event_key event) = Some m" for event m
  proof -
    have "map_of (rs_by_key rs) (event_key event) = Some m" using that one(3) [OF other] by simp
    moreover from this have "m \<in> ?K" using that(1) by (auto simp: index_rows_def)
    ultimately show ?thesis using look [of event m] that(1) one(2) by auto
  qed
  have dist: "distinct (map event_key es)" using Cons.prems(1) by simp
  note tail = Cons.IH [OF dist one(1) K' apart' look' rest]
  have settled: "\<exists>m \<in> rows (wo_table (rs_world rs')). settled ?i (event_key e) (run_hash v e) m"
    if live: "ev_status e \<noteq> ''cancelled''" "\<not> is_plain_occurrence e"
  proof -
    have "\<exists>m \<in> rows (wo_table (rs_world rs1)). settled ?i (event_key e) (run_hash v e) m"
      by (rule process_event_settles [OF assms(1,2) live _ first]) (use look [of e] in auto)
    then obtain m where "m \<in> S" "settled ?i (event_key e) (run_hash v e) m" unfolding S_def by blast
    moreover have "S \<subseteq> rows (wo_table (rs_world rs'))" using conjunct1 [OF conjunct2 [OF tail]] by blast
    ultimately show ?thesis by blast
  qed
  have goodK: "good (wo_table (rs_world rs'))" "K \<subseteq> rows (wo_table (rs_world rs'))"
    using conjunct1 [OF tail] conjunct1 [OF conjunct2 [OF tail]] by (blast, blast)
  have all:  "\<exists>m \<in> rows (wo_table (rs_world rs')). settled ?i (event_key event) (run_hash v event) m"
    if "event \<in> set (e # es)" "ev_status event \<noteq> ''cancelled''" "\<not> is_plain_occurrence event" for event
  proof (cases "event = e")
    case True
    have "ev_status e \<noteq> ''cancelled''" "\<not> is_plain_occurrence e" using that True by simp_all
    then show ?thesis unfolding True by (rule settled)
  next
    case False
    then have "event \<in> set es" using that(1) by simp
    then show ?thesis
      using bspec [OF conjunct2 [OF conjunct2 [OF tail]], THEN mp, THEN mp] that(2,3) by blast
  qed
  show ?case by (intro conjI ballI impI goodK all)
qed

text \<open>The restored mappings: of keys that were not seen.\<close>

lemma restores_loop:
  assumes ops: "en_store (re_engine v) = ops"
    and K: "\<And>m. m \<in> set ms \<Longrightarrow> row_key m \<notin> set seen \<Longrightarrow> apart K (mp_rule_id m) (row_key m)"
    and start: "good (wo_table (rs_world rs))" "K \<subseteq> rows (wo_table (rs_world rs))" "rs_seen rs = seen"
    and run: "for_each (restore_mapping v) ms rs = (r, rs')"
  shows "good (wo_table (rs_world rs')) \<and> K \<subseteq> rows (wo_table (rs_world rs'))"
proof -
  let ?I = "\<lambda>rs. run_inv (keeps K) (\<lambda>_. True) rs \<and> rs_seen rs = seen"
  have one: "holds ?I (\<lambda>_. True) (restore_mapping v m) (\<lambda>_ _. True)" if "m \<in> set ms" for m
  proof (cases "row_key m \<in> set seen")
    case True
    then show ?thesis by (simp add: holds_def restore_mapping_def prog_defs)
  next
    case False
    have seen: "preserves (\<lambda>rs. rs_seen rs = seen) (restore_mapping v m)"
      by (rule restore_mapping_seen)
    show ?thesis
      using restore_mapping_kept [OF ops K [OF that False], of "\<lambda>_. True"] seen
      by (auto simp: holds_def preserves_def)
  qed
  have "holds ?I (\<lambda>_. True) (for_each (restore_mapping v) ms) (\<lambda>_ _. True)"
    by (rule holds_for_each [OF one])
  moreover have "?I rs" using start by (simp add: run_inv_def kept_def)
  ultimately have "?I rs'" using holdsD [where m = "for_each (restore_mapping v) ms"] run by blast
  then show ?thesis by (simp add: run_inv_def kept_def)
qed

end


section \<open>The whole run\<close>

lemma filter_event_key: "fst (filter_event detached e) = Some e' \<Longrightarrow> event_key e' = event_key e"
  by (auto simp: filter_event_def event_key_def event_original_start_def split: if_splits)

lemma filter_events_keys:
  "map event_key (filter_events detached events) =
   map event_key (filter (\<lambda>e. fst (filter_event detached e) \<noteq> None) events)"
  by (induction events) (auto simp: filter_events_def List.map_filter_def dest: filter_event_key)

lemma filter_events_distinct:
  "distinct (map event_key events) \<Longrightarrow> distinct (map event_key (filter_events detached events))"
  unfolding filter_events_keys by (rule distinct_map_filterI)

lemma plan_events_distinct:
  assumes "plan_run e rule dry cached w = (Inr p, w1)"
  shows "distinct (map event_key (pl_events p))"
proof -
  obtain target titles n listed where "plan_events e target (pl_existing p) listed = Inr (pl_events p, titles, n)"
    using plan_run_env(9) [OF assms] by blast
  from plan_eventsD(2) [OF this] show ?thesis using filter_events_distinct [OF dedup_keys] by simp
qed

lemma plan_startable:
  assumes "plan_run e rule dry cached w = (Inr p, w1)" and "m \<in> set (pl_existing p)"
  shows "startable m"
proof -
  obtain target titles n listed where "plan_events e target (pl_existing p) listed = Inr (pl_events p, titles, n)"
    using plan_run_env(9) [OF assms(1)] by blast
  from plan_eventsD(1) [OF this] show ?thesis
    using assms(2) by (auto simp: has_pending_mutation_def startable_def list_ex_iff)
qed

context keyed_mapping_store begin

lemma reconcile_frame:
  assumes ops: "en_store e = ops" and plan: "plan_run e rule False cached w = (Inr p, w1)"
    and good: "good (wo_table w)" and K: "K \<subseteq> rows (wo_table w)" "\<And>m. m \<in> K \<Longrightarrow> mp_rule_id m \<noteq> ru_id rule"
    and run: "reconcile p (initial_state p w1) = (r, rs)"
  shows "good (wo_table (rs_world rs)) \<and> K \<subseteq> rows (wo_table (rs_world rs))"
proof -
  let ?v = "pl_env p" and ?i = "ru_id rule"
  note env = plan_run_env [OF plan]
  have eops: "en_store (re_engine ?v) = ops" and dry: "\<not> re_dry ?v" and rule: "ru_id (re_rule ?v) = ?i"
    using env(1-3) ops by simp_all
  have apartK: "apart K ?i k" for k using K(2) by (auto simp: apart_def)
  have ex: "m \<in> rows (wo_table w) \<and> mp_rule_id m = ?i" if "m \<in> set (pl_existing p)" for m
    using that env(4) list_rows ops by simp
  let ?I = "run_inv (keeps K) (keys_ok ?i)"
  have "holds ?I (\<lambda>_. True) (process_event ?v event) (\<lambda>_ _. True)" for event
  proof (rule holdsI)
    fix rs r rs' assume "?I rs" and step: "process_event ?v event rs = (r, rs')"
    then have rs: "good (wo_table (rs_world rs))" "K \<subseteq> rows (wo_table (rs_world rs))" "keys_ok ?i (rs_by_key rs)"
      by (simp_all add: run_inv_def kept_def)
    have key: "row_key m = event_key event \<and> mp_rule_id m = ru_id (re_rule ?v)"
      if "map_of (rs_by_key rs) (event_key event) = Some m" for m
      using rs(3) that rule by (simp add: keys_ok_def)
    note frame = process_event_frame [OF eops dry apartK [folded rule] rs(2,1) key step]
    have "keys_ok ?i (rs_by_key rs')" unfolding keys_ok_def
    proof (intro allI impI)
      fix k m assume "map_of (rs_by_key rs') k = Some m"
      then show "row_key m = k \<and> mp_rule_id m = ?i"
        using frame rs(3) rule by (cases "k = event_key event") (auto simp: keys_ok_def)
    qed
    then show "?I rs' \<and> (\<forall>x. r = Inr x \<longrightarrow> True)" using frame by (simp add: run_inv_def kept_def)
  qed
  moreover have "holds ?I (\<lambda>_. True) (restore_mapping ?v m) (\<lambda>_ _. True)" if "m \<in> set (pl_existing p)" for m
    by (rule restore_mapping_kept [OF eops]) (use ex [OF that] apartK in simp)
  ultimately have "holds ?I (\<lambda>_. True) (reconcile p) (\<lambda>_ _. True)"
    unfolding reconcile_def by (intro holds_and_then [where Q = "\<lambda>_ _. True"] holds_for_each) simp_all
  moreover have "?I (initial_state p w1)"
    using env(5,6) good K(1) ex by (auto simp: run_inv_def kept_def initial_state_def keys_ok_def dest: by_row_key_lookup)
  ultimately have "?I rs" using holdsD [where m = "reconcile p"] run by blast
  then show ?thesis by (simp add: run_inv_def kept_def)
qed

lemma reconcile_settles:
  assumes ops: "en_store e = ops" and plan: "plan_run e rule False cached w = (Inr p, w1)"
    and good: "good (wo_table w)" and run: "reconcile p (initial_state p w1) = (Inr u, rs)"
    and event: "event \<in> set (pl_events p)" "ev_status event \<noteq> ''cancelled''" "\<not> is_plain_occurrence event"
  shows "\<exists>m \<in> rows (wo_table (rs_world rs)). settled (ru_id rule) (event_key event) (run_hash (pl_env p) event) m"
proof -
  let ?v = "pl_env p" and ?i = "ru_id rule"
  note env = plan_run_env [OF plan]
  have eops: "en_store (re_engine ?v) = ops" and dry: "\<not> re_dry ?v" and rule: "re_rule ?v = rule"
    using env(1-3) ops by simp_all
  obtain rs1 where loop: "for_each (process_event ?v) (pl_events p) (initial_state p w1) = (Inr (), rs1)"
    and rest: "for_each (restore_mapping ?v) (pl_existing p) rs1 = (Inr u, rs)"
    using run by (auto simp: reconcile_def returns_iff)
  have ex: "m \<in> rows (wo_table w1) \<and> mp_rule_id m = ?i" if "m \<in> set (pl_existing p)" for m
    using that env(4,6) list_rows ops by simp
  have look: "m \<in> rows (wo_table w1) \<and> row_key m = k \<and> mp_rule_id m = ?i \<and> startable m"
    if "map_of (pl_by_key p) k = Some m" for k m
    using that env(5) by_row_key_lookup [of "pl_existing p" k m] ex plan_startable [OF plan] by auto
  have one: "good (wo_table (rs_world rs1)) \<and> {} \<subseteq> rows (wo_table (rs_world rs1)) \<and>
    (\<forall>event \<in> set (pl_events p). ev_status event \<noteq> ''cancelled'' \<longrightarrow> \<not> is_plain_occurrence event \<longrightarrow>
      (\<exists>m \<in> rows (wo_table (rs_world rs1)). settled (ru_id (re_rule ?v)) (event_key event) (run_hash ?v event) m))"
    by (rule events_loop [OF eops dry plan_events_distinct [OF plan] _ _ _ _ loop])
      (use good env(6) look rule in \<open>auto simp: initial_state_def apart_def\<close>)
  define K where "K = {m. m \<in> rows (wo_table (rs_world rs1)) \<and>
    (\<exists>event \<in> set (pl_events p). \<not> is_plain_occurrence event \<and> row_key m = event_key event)}"
  have "good (wo_table (rs_world rs)) \<and> K \<subseteq> rows (wo_table (rs_world rs))"
  proof (rule restores_loop [OF eops _ _ _ refl rest])
    show "apart K (mp_rule_id m) (row_key m)" if "row_key m \<notin> set (rs_seen rs1)" for m
      using that events_seen [OF loop] by (auto simp: apart_def K_def)
  qed (use one in \<open>simp_all add: K_def\<close>)
  moreover obtain m where "m \<in> rows (wo_table (rs_world rs1))" "settled ?i (event_key event) (run_hash ?v event) m"
    using one event rule by auto
  moreover from this have "m \<in> K" using event unfolding K_def settled_def by blast
  ultimately show ?thesis by blast
qed

end

lemma successful_run_settles:
  assumes "en_store e = table_ops" and "table_ok (wo_table w)"
    and "run_events e rule False cached w = ((None, res), w')"
  shows "\<exists>p w1. plan_run e rule False cached w = (Inr p, w1) \<and>
    (\<forall>event \<in> set (pl_events p). ev_status event \<noteq> ''cancelled'' \<longrightarrow> \<not> is_plain_occurrence event \<longrightarrow>
      (\<exists>m \<in> set (wo_table w'). settled (ru_id rule) (event_key event) (hash_event (en_unicode e) event) m))"
  using assms(3)
proof (cases rule: run_events_cases)
  case (refused y)
  then show ?thesis by simp
next
  case (ran p w1 r rs)
  obtain u where r: "r = Inr u" using ran(5) by (cases r) simp_all
  have "re_engine (pl_env p) = e" by (rule plan_run_env(1) [OF ran(1)])
  then have "\<exists>m \<in> set (wo_table w'). settled (ru_id rule) (event_key event) (hash_event (en_unicode e) event) m"
    if "event \<in> set (pl_events p)" "ev_status event \<noteq> ''cancelled''" "\<not> is_plain_occurrence event" for event
    using event_table.reconcile_settles [OF assms(1) ran(1) assms(2) ran(2) [unfolded r] that] ran(3)
    by (simp add: run_hash_def)
  then show ?thesis using ran(1) by blast
qed

text \<open>
  C38. A successful run converges: when a run that is not dry ends without an error, the mapping
  table holds, for every live event that the run goes through (a plain occurrence is covered by its
  series), a row of the rule under the event's key with the hash of the event's content and no
  pending attempt.  The table's own invariant suffices; what the provider answers does not matter.
\<close>

theorem successful_run_converges:
  assumes "en_store e = table_ops" and "table_ok (wo_table w)"
    and "run_events e rule False cached w = ((None, res), w')"
  shows "\<exists>p w1. plan_run e rule False cached w = (Inr p, w1) \<and>
    (\<forall>event \<in> set (pl_events p). ev_status event \<noteq> ''cancelled'' \<longrightarrow> \<not> is_plain_occurrence event \<longrightarrow>
      (\<exists>m \<in> set (wo_table w'). mp_rule_id m = ru_id rule \<and> row_key m = event_key event \<and>
         mp_content_hash m = hash_event (en_unicode e) event \<and>
         mp_reconciliation_state m \<notin> {''pending_create'', ''pending_update'', ''pending_delete''}))"
  using successful_run_settles [OF assms] unfolding settled_def .

lemma run_keeps_table_aux:
  assumes "en_store e = table_ops" and "table_ok (wo_table w)"
    and "run_events e rule dry cached w = ((x, res), w')"
  shows "table_ok (wo_table w') \<and>
    (\<forall>m \<in> set (wo_table w). mp_rule_id m \<noteq> ru_id rule \<longrightarrow> m \<in> set (wo_table w'))"
  using assms(3)
proof (cases rule: run_events_cases)
  case (refused y)
  then show ?thesis using plan_untouched(1) [OF refused(1)] assms(2) by simp
next
  case (ran p w1 r rs)
  let ?K = "{m \<in> set (wo_table w). mp_rule_id m \<noteq> ru_id rule}"
  show ?thesis
  proof (cases dry)
    case True
    then show ?thesis using dry_run_writes_nothing [of e rule cached w] assms(2,3) by simp
  next
    case False
    have "table_ok (wo_table (rs_world rs)) \<and> ?K \<subseteq> set (wo_table (rs_world rs))"
      by (rule event_table.reconcile_frame [OF assms(1) _ assms(2) _ _ ran(2)]) (use ran(1) False in auto)
    then show ?thesis using ran(3) by auto
  qed
qed

text \<open>
  C40. No run damages the mapping table, with an error or without: it never holds two rows with the
  same identifier, key, target or incarnation in a rule, and the rows of the other rules stay as
  they are.
\<close>

theorem run_keeps_table:
  assumes "en_store e = table_ops" and "table_ok (wo_table w)"
    and "run_events e rule dry cached w = ((x, res), w')"
  shows "table_ok (wo_table w') \<and>
    (\<forall>m \<in> set (wo_table w). mp_rule_id m \<noteq> ru_id rule \<longrightarrow> m \<in> set (wo_table w'))"
  by (rule run_keeps_table_aux [OF assms])

section \<open>A repeated run\<close>

text \<open>A live event that is not part of a series, as every event of a cached batch.\<close>

definition standalone :: "event_v2 \<Rightarrow> bool" where
  "standalone event \<longleftrightarrow> object_kind event \<in> {''event'', ''cache_instance''} \<and> ev_status event \<noteq> ''cancelled'' \<and>
     ev_recurring_event_id event = '''' \<and> ev_original_start event = None \<and> NUL \<notin> set (ev_id event)"

lemma standaloneD:
  assumes "standalone event"
  shows "\<not> is_plain_occurrence event" "\<not> is_series_exception event" "ev_status event \<noteq> ''cancelled''"
    "event_key event = ev_id event @ [NUL]"
  using assms
  by (simp_all add: standalone_def is_plain_occurrence_def is_series_exception_def object_kind_def event_key_def
      mapping_key_def event_original_start_def)

lemma standalone_kind: "standalone event \<Longrightarrow> object_kind event \<noteq> ''series'' \<and> ev_instance_kind event \<noteq> OrphanOccurrence"
proof -
  have "object_kind event = ''detached_occurrence''" if "ev_instance_kind event = OrphanOccurrence"
    using that by (simp add: object_kind_def OrphanOccurrence_def)
  then show "standalone event \<Longrightarrow> object_kind event \<noteq> ''series'' \<and> ev_instance_kind event \<noteq> OrphanOccurrence"
    by (auto simp: standalone_def)
qed

lemma standalone_filter: "'''' \<notin> set detached \<Longrightarrow> standalone event \<Longrightarrow> fst (filter_event detached event) = Some event"
  using standalone_kind [of event] by (simp add: filter_event_def standalone_def)

lemma standalone_kept: "'''' \<notin> set detached \<Longrightarrow> \<forall>event \<in> set events. standalone event \<Longrightarrow> filter_events detached events = events"
  by (induction events) (simp_all add: filter_events_def List.map_filter_def standalone_filter)

lemma detached_series_nonempty: "'''' \<notin> set (detached_series existing byKey events)"
  by (auto simp: detached_series_def)

lemma dedup_standalone:
  assumes "\<forall>event \<in> set events. standalone event"
  shows "\<forall>event \<in> set (deduplicate_and_order events). standalone event"
proof
  fix event assume "event \<in> set (deduplicate_and_order events)"
  then obtain e0 where "e0 \<in> set events" "event = mark_incomplete (incomplete_keys events) e0"
    using dedup_origin by blast
  then show "standalone event" using assms by (auto simp: mark_incomplete_def standalone_def object_kind_def split: if_splits)
qed

lemma plan_standalone:
  assumes "plan_run e rule dry (Some events) w = (Inr p, w1)" and "\<forall>event \<in> set events. standalone event"
  shows "pl_events p = deduplicate_and_order events"
proof -
  obtain target titles n where "plan_events e target (pl_existing p) events = Inr (pl_events p, titles, n)"
    using plan_run_env(9) [OF assms(1)] by auto
  from plan_eventsD(2) [OF this] show ?thesis
    using standalone_kept [OF detached_series_nonempty dedup_standalone [OF assms(2)]] by simp
qed

text \<open>The key of a standalone event determines the source event and the empty original start.\<close>

lemma standalone_key:
  assumes "row_key m = event_key event" and "standalone event"
  shows "mp_source_event_id m = ev_id event \<and> mp_original_start m = ''''"
proof -
  have eq: "mp_source_event_id m @ NUL # mp_original_start m = ev_id event @ NUL # []"
    using assms(1) standaloneD(4) [OF assms(2)] by (simp add: row_key_def mapping_key_def)
  have free: "NUL \<notin> set (ev_id event)" using assms(2) by (simp add: standalone_def)
  have "count_list (mp_source_event_id m @ NUL # mp_original_start m) NUL = 1"
    unfolding eq using free by (simp add: count_list_0_iff)
  then have "count_list (mp_source_event_id m) NUL = 0" by simp
  then have "NUL \<notin> set (mp_source_event_id m)" by (simp add: count_list_0_iff)
  then show ?thesis using takeWhile_sep_unique [OF eq _ free] by simp
qed

lemma by_row_key_finds:
  assumes "m \<in> set existing"
  shows "map_of (by_row_key existing) (row_key m) \<noteq> None"
proof -
  have "m \<in> set existing \<or> map_of acc (row_key m) \<noteq> None \<Longrightarrow>
    map_of (foldl (\<lambda>acc row. AList.update (row_key row) row acc) acc existing) (row_key m) \<noteq> None" for acc
    by (induction existing arbitrary: acc) (auto simp: update_conv')
  then show ?thesis using assms by (simp add: by_row_key_def)
qed

text \<open>A step that only skips.\<close>

definition silent :: "('s, 't) world \<Rightarrow> (string \<times> mapping) list \<Rightarrow> ('s, 't) run_state \<Rightarrow> bool" where
  "silent w byKey rs \<longleftrightarrow> rs_world rs = w \<and> rs_by_key rs = byKey \<and> sr_created (rs_result rs) = 0 \<and>
     sr_updated (rs_result rs) = 0 \<and> sr_deleted (rs_result rs) = 0"

lemma silent_skip:
  "silent w byKey rs \<Longrightarrow> silent w byKey (rs\<lparr>rs_seen := s\<rparr>)"
  "preserves (silent w byKey) (on_result bump_skipped)"
  "preserves (silent w byKey) (on_result bump_warnings)"
  "preserves (silent w byKey) (note_action v event a r st)"
  by (simp_all add: silent_def preserves_def on_result_def note_action_def modify_def bump_skipped_def bump_warnings_def)

lemma unchanged_event_silent:
  assumes "standalone event" and "map_of byKey (event_key event) = Some m"
    and "mp_reconciliation_state m \<noteq> ''pending_create''" and "mp_content_hash m = run_hash v event"
  shows "preserves (silent w byKey) (process_event v event)"
proof (rule preservesI)
  fix rs assume rs: "silent w byKey rs"
  let ?rs = "rs\<lparr>rs_seen := event_key event # rs_seen rs\<rparr>"
  have "process_event v event rs = reconcile_changed v event m ?rs"
    using rs assms standaloneD [OF assms(1)]
    by (simp add: process_event_def and_then_def modify_def gets_def silent_def dispatch_event_def)
  moreover have "preserves (silent w byKey) (reconcile_changed v event m)"
    unfolding reconcile_changed_def by (intro preserves_intros silent_skip) (use assms(4) in simp_all)
  ultimately show "silent w byKey (snd (process_event v event rs))"
    using preservesD silent_skip(1) [OF rs] by metis
qed

lemma restore_silent: "re_occurrences v = [] \<Longrightarrow> preserves (silent w byKey) (restore_mapping v m)"
  unfolding restore_mapping_def by (intro preserves_intros silent_skip) (simp split: if_splits)

text \<open>
  C39. A run of standalone events is idempotent: when a batch holds only live events that belong to
  no series (no masters, exceptions, detached occurrences or cancellations) and was run without
  an error, running it again sends nothing and changes no mapping, whether the second run gets
  through or not, and its result counts no change.
\<close>

theorem repeated_run_is_silent:
  assumes ops: "en_store e = table_ops" and ok: "table_ok (wo_table w)"
    and batch: "\<forall>event \<in> set events. standalone event"
    and first: "run_events e rule False (Some events) w = ((None, res), w')"
    and same: "wo_table w2 = wo_table w'"
    and second: "run_events e rule False (Some events) w2 = ((x2, res2), w2')"
  shows "wo_table w2' = wo_table w2 \<and> wo_sent w2' = wo_sent w2 \<and>
    sr_created res2 = 0 \<and> sr_updated res2 = 0 \<and> sr_deleted res2 = 0"
  using second
proof (cases rule: run_events_cases)
  case (refused y)
  then show ?thesis using plan_untouched [OF refused(1)] by (simp add: zero_result_def)
next
  case (ran p w1 r rs)
  note env = plan_run_env [OF ran(1)]
  note evs = plan_standalone [OF ran(1) batch]
  have solo: "standalone event" if "event \<in> set (pl_events p)" for event
    using that dedup_standalone [OF batch] evs by simp
  have table: "table_ok (wo_table w2)" using run_keeps_table_aux [OF ops ok first] same by simp
  have unchanged: "\<exists>m. map_of (pl_by_key p) (event_key event) = Some m \<and>
      mp_reconciliation_state m \<noteq> ''pending_create'' \<and> mp_content_hash m = run_hash (pl_env p) event"
    if event: "event \<in> set (pl_events p)" for event
  proof -
    obtain p1 v1 where p1: "plan_run e rule False (Some events) w = (Inr p1, v1)"
      and settled: "\<And>event. event \<in> set (pl_events p1) \<Longrightarrow> standalone event \<Longrightarrow>
        \<exists>m \<in> set (wo_table w'). settled (ru_id rule) (event_key event) (hash_event (en_unicode e) event) m"
      using successful_run_settles [OF ops ok first] standaloneD by blast
    have "event \<in> set (pl_events p1)" using event evs plan_standalone [OF p1 batch] by simp
    then obtain m where m: "m \<in> set (wo_table w2)"
      "settled (ru_id rule) (event_key event) (hash_event (en_unicode e) event) m"
      using settled solo [OF event] same by metis
    have listed: "m \<in> set (pl_existing p)"
      using m env(4) ops by (simp add: settled_def table_ops_def list_mappings_def)
    obtain m2 where m2: "map_of (pl_by_key p) (event_key event) = Some m2"
      using by_row_key_finds [OF listed] m(2) env(5) by (auto simp: settled_def)
    have "m2 \<in> set (pl_existing p)" "row_key m2 = event_key event"
      using by_row_key_lookup m2 env(5) by auto
    then have "m2 \<in> set (wo_table w2)" "mp_rule_id m2 = ru_id rule" "row_key m2 = event_key event"
      using env(4) ops by (simp_all add: table_ops_def list_mappings_def)
    moreover have "row_key m = event_key event" "mp_rule_id m = ru_id rule" using m(2) by (simp_all add: settled_def)
    ultimately have "clash m m2"
      using standalone_key [OF _ solo [OF event], of m] standalone_key [OF _ solo [OF event], of m2]
      by (simp add: clash_def same_key_def)
    then have "m2 = m" using no_clash_eq table m(1) \<open>m2 \<in> set (wo_table w2)\<close> by (auto simp: table_ok_def)
    then show ?thesis using m2 m(2) env(1) by (simp add: settled_def run_hash_def)
  qed
  let ?S = "silent w1 (pl_by_key p)"
  have "preserves ?S (process_event (pl_env p) event)" if "event \<in> set (pl_events p)" for event
    using unchanged [OF that] unchanged_event_silent [OF solo [OF that]] by blast
  moreover have "re_occurrences (pl_env p) = []"
  proof -
    have none: "\<forall>event \<in> set (pl_events p). \<not> is_plain_occurrence event" using solo standaloneD(1) by blast
    have "foldl (\<lambda>m e. if is_plain_occurrence e
        then AList.update (mapping_key (ev_recurring_event_id e) (event_original_start e)) e m else m) [] evs = []"
      if "\<forall>event \<in> set evs. \<not> is_plain_occurrence event" for evs
      using that by (induction evs) simp_all
    then show ?thesis using none env(9) by (auto simp: index_occurrences_def)
  qed
  ultimately have "preserves ?S (reconcile p)"
    unfolding reconcile_def by (intro preserves_and_then preserves_for_each restore_silent)
  moreover have "?S (initial_state p w1)"
    by (simp add: silent_def initial_state_def initial_result_def zero_result_def)
  ultimately have "?S rs" using ran(2) preservesD by (metis snd_conv)
  then show ?thesis using ran(3,4) env(6,7) by (simp add: silent_def)
qed


section \<open>The concrete run again\<close>

lemma demo_standalone: "standalone demo_event"
  by (simp add: standalone_def demo_event_def sample_source_event_def zero_event_def kind_defs)

definition demo_other :: mapping where
  "demo_other = zero_mapping\<lparr>mp_id := ''m0'', mp_rule_id := ''q'', mp_source_event_id := ''e1'', mp_version := 1\<rparr>"

theorem successful_run_converges_witness:
  "\<exists>res w'. run_events demo_engine demo_rule False (Some [demo_event]) (demo_world []) = ((None, res), w') \<and>
     (\<exists>p w1. plan_run demo_engine demo_rule False (Some [demo_event]) (demo_world []) = (Inr p, w1) \<and>
       demo_event \<in> set (pl_events p) \<and>
       (\<exists>m \<in> set (wo_table w'). mp_rule_id m = ''r'' \<and> row_key m = event_key demo_event \<and>
          mp_content_hash m = hash_event (en_unicode demo_engine) demo_event))"
proof -
  obtain res w' where run: "run_events demo_engine demo_rule False (Some [demo_event]) (demo_world []) = ((None, res), w')"
    using demo_create by (elim exE conjE) (rule that)
  have ok: "table_ok (wo_table (demo_world []))" by (simp add: demo_world_def table_ok_def)
  obtain p w1 where p: "plan_run demo_engine demo_rule False (Some [demo_event]) (demo_world []) = (Inr p, w1)"
    and all: "\<And>event. event \<in> set (pl_events p) \<Longrightarrow> ev_status event \<noteq> ''cancelled'' \<Longrightarrow> \<not> is_plain_occurrence event \<Longrightarrow>
      \<exists>m \<in> set (wo_table w'). mp_rule_id m = ''r'' \<and> row_key m = event_key event \<and>
         mp_content_hash m = hash_event (en_unicode demo_engine) event \<and>
         mp_reconciliation_state m \<notin> {''pending_create'', ''pending_update'', ''pending_delete''}"
    using successful_run_converges [OF _ ok run] by auto
  have "demo_event \<in> set (pl_events p)" using plan_standalone [OF p] demo_standalone by simp
  moreover from all [OF this] have "\<exists>m \<in> set (wo_table w'). mp_rule_id m = ''r'' \<and> row_key m = event_key demo_event \<and>
          mp_content_hash m = hash_event (en_unicode demo_engine) demo_event" by auto
  ultimately show ?thesis using run p by blast
qed

theorem run_keeps_table_witness:
  "case run_events demo_engine demo_rule False (Some [demo_event]) (demo_world [demo_other]) of (out, w') \<Rightarrow>
     table_ok (wo_table w') \<and> demo_other \<in> set (wo_table w')"
proof -
  obtain x res w' where run:
    "run_events demo_engine demo_rule False (Some [demo_event]) (demo_world [demo_other]) = ((x, res), w')"
    by (metis prod.collapse)
  have "table_ok (wo_table w') \<and> (\<forall>m \<in> set (wo_table (demo_world [demo_other])).
      mp_rule_id m \<noteq> ru_id demo_rule \<longrightarrow> m \<in> set (wo_table w'))"
    by (rule run_keeps_table [OF _ _ run]) (simp_all add: demo_world_def table_ok_def demo_other_def)
  then show ?thesis using run by (simp add: demo_world_def demo_other_def)
qed

theorem repeated_run_is_silent_witness:
  "\<exists>res w'. run_events demo_engine demo_rule False (Some [demo_event]) (demo_world []) = ((None, res), w') \<and>
     wo_sent w' \<noteq> [] \<and>
     (case run_events demo_engine demo_rule False (Some [demo_event]) w' of (out, w'') \<Rightarrow>
        wo_table w'' = wo_table w' \<and> wo_sent w'' = wo_sent w')"
proof -
  obtain res w' req where run: "run_events demo_engine demo_rule False (Some [demo_event]) (demo_world []) = ((None, res), w')"
    "map st_call (wo_sent w') = [CallCreate req]"
    using demo_create by (elim exE conjE) (rule that)
  obtain x res2 w2 where again: "run_events demo_engine demo_rule False (Some [demo_event]) w' = ((x, res2), w2)"
    by (metis prod.collapse)
  have "wo_table w2 = wo_table w' \<and> wo_sent w2 = wo_sent w' \<and>
    sr_created res2 = 0 \<and> sr_updated res2 = 0 \<and> sr_deleted res2 = 0"
    by (rule repeated_run_is_silent [OF _ _ _ run(1) refl again])
      (simp_all add: demo_world_def table_ok_def demo_standalone)
  moreover have "wo_sent w' \<noteq> []" using run(2) by auto
  ultimately show ?thesis using run(1) again by auto
qed

end
