(* ===== verification/Event_Cache.thy ===== *)
theory Event_Cache
  imports Sync_Jobs Dispatch_Store
begin

text \<open>
  The read model of the calendars (\<open>src/internal/storage/event_cache.go\<close> and
  \<open>source_sync_fence.go\<close>): the cached events of a calendar, the objects they come from, the
  objects in quarantine, and the lease under which one worker at a time synchronizes a calendar.
  A claim is the copy of the state row that the worker holds; every operation of the worker names
  it, and is refused when the row no longer shows it.
\<close>

section \<open>Claims\<close>

record sync_claim =
  sc_calendar_id :: string
  sc_strategy :: string
  sc_cursor :: string
  sc_window_start :: instant
  sc_window_end :: instant
  sc_generation :: int
  sc_status :: string
  sc_next_sync_at :: instant
  sc_last_started_at :: "instant option"
  sc_last_success_at :: "instant option"
  sc_last_error_code :: string
  sc_lease_owner :: string
  sc_lease_until :: "instant option"

definition column :: "string option \<Rightarrow> string" where
  "column c = (case c of None \<Rightarrow> '''' | Some s \<Rightarrow> s)"

definition scan_calendar_sync_state :: "calendar_sync_state \<Rightarrow> sync_claim" where
  "scan_calendar_sync_state r = \<lparr>sc_calendar_id = ss_calendar_id r, sc_strategy = ss_strategy r,
     sc_cursor = ss_cursor r, sc_window_start = ss_window_start r, sc_window_end = ss_window_end r,
     sc_generation = ss_generation r, sc_status = ss_status r, sc_next_sync_at = ss_next_sync_at r,
     sc_last_started_at = ss_last_started_at r, sc_last_success_at = ss_last_success_at r,
     sc_last_error_code = column (ss_last_error_code r), sc_lease_owner = column (ss_lease_owner r),
     sc_lease_until = ss_lease_until r\<rparr>"

definition holds_lease :: "sync_claim \<Rightarrow> instant \<Rightarrow> calendar_sync_state \<Rightarrow> bool" where
  "holds_lease c now r \<longleftrightarrow> ss_calendar_id r = sc_calendar_id c \<and> ss_generation r = sc_generation c \<and>
     ss_status r = ''syncing'' \<and> ss_lease_owner r = Some (sc_lease_owner c) \<and>
     (case ss_lease_until r of None \<Rightarrow> False | Some u \<Rightarrow> now < u)"

definition lock_calendar_sync_lease :: "sync_claim \<Rightarrow> instant \<Rightarrow> unit tx" where
  "lock_calendar_sync_lease c now db =
     (if list_ex (holds_lease c now) (db_sync_states db) then Inr ((), db)
      else Inl (Sentinel ErrCalendarSyncLeaseLost))"

text \<open>An UPDATE of the row of a claim; it must meet the row.\<close>

definition update_lease :: "sync_claim \<Rightarrow> instant \<Rightarrow> (calendar_sync_state \<Rightarrow> calendar_sync_state) \<Rightarrow> unit tx" where
  "update_lease c now f db =
     (if count_rows (holds_lease c now) (db_sync_states db) \<noteq> 1 then Inl (Sentinel ErrCalendarSyncLeaseLost)
      else Inr ((), db\<lparr>db_sync_states := update_rows (holds_lease c now) f (db_sync_states db)\<rparr>))"

definition valid_claim :: "sync_claim \<Rightarrow> bool" where
  "valid_claim c \<longleftrightarrow> sc_calendar_id c \<noteq> '''' \<and> sc_lease_owner c \<noteq> ''''"

text \<open>No lease, or one that has ended.\<close>

definition unleased :: "instant \<Rightarrow> calendar_sync_state \<Rightarrow> bool" where
  "unleased now r \<longleftrightarrow> (case ss_lease_until r of None \<Rightarrow> True | Some u \<Rightarrow> u \<le> now)"

text \<open>A calendar joined with its connection.\<close>

definition source_connection :: "string \<Rightarrow> sync_db \<Rightarrow> (calendar_row \<times> connection_row) option" where
  "source_connection i db = (case find (\<lambda>c. cl_id c = i) (db_calendars db) of
       None \<Rightarrow> None
     | Some c \<Rightarrow> map_option (Pair c) (find (\<lambda>n. cn_id n = cl_connection_id c) (db_connections db)))"

definition readable_source :: "string \<Rightarrow> sync_db \<Rightarrow> bool" where
  "readable_source i db \<longleftrightarrow> (case source_connection i db of None \<Rightarrow> False
     | Some (c, n) \<Rightarrow> cl_can_read c \<and> cl_enabled c \<and> cn_status n = ''connected'')"

text \<open>A calendar that a cached rule copies from.\<close>

definition copy_source :: "string \<Rightarrow> sync_db \<Rightarrow> bool" where
  "copy_source i db \<longleftrightarrow> list_ex (\<lambda>r. ru_source_calendar_id r = i \<and> ru_sync_mode r = ''cached_instances'' \<and>
     ru_state r \<noteq> ''archived'') (db_rules db)"

section \<open>The fence against sync runs (source_sync_fence.go)\<close>

definition acquire_source_state_fence :: "string \<Rightarrow> instant \<Rightarrow> bool tx" where
  "acquire_source_state_fence uuid now db =
     (if list_ex (\<lambda>o'. mo_operation_id o' = uuid) (db_operations db) then Inl unique_violation
      else let db1 = db\<lparr>db_operations := db_operations db @
             [\<lparr>mo_operation_id = uuid, mo_calendar_ids = ''[]'', mo_started_at = now, mo_resolved_at = None\<rparr>]\<rparr> in
        case insert_exclusive_reservation \<lparr>xr_operation_id = uuid, xr_target_key = GlobalSyncDispatchKey,
               xr_request_hash = sha256_hex uuid, xr_kind = ''run'', xr_calendar_ids = [], xr_now = now\<rparr> db1 of
          Inr (_, db2) \<Rightarrow> Inr (True, db2)
        | Inl x \<Rightarrow> if err_is x ErrExclusiveDispatchConflict
            then Inr (False, db1\<lparr>db_operations := filter (\<lambda>o'. mo_operation_id o' \<noteq> uuid) (db_operations db1)\<rparr>)
            else Inl x)"

definition release_source_state_fence :: "string \<Rightarrow> sync_db \<Rightarrow> sync_db" where
  "release_source_state_fence uuid db =
     db\<lparr>db_reservations := filter (\<lambda>r. rs_operation_id r \<noteq> uuid) (db_reservations db),
        db_operations := filter (\<lambda>o'. mo_operation_id o' \<noteq> uuid) (db_operations db)\<rparr>"

section \<open>The life of a claim\<close>

record sync_window =
  sw_start :: instant
  sw_end :: instant

definition readable_calendars :: "sync_db \<Rightarrow> (string \<times> string \<times> bool) list" where
  "readable_calendars db = sort_key fst (List.map_filter (\<lambda>c. case source_connection (cl_id c) db of
       None \<Rightarrow> None
     | Some (_, n) \<Rightarrow> if cl_can_read c \<and> cl_enabled c \<and> cn_status n = ''connected''
                    then Some (cl_id c, cn_provider n, copy_source (cl_id c) db) else None) (db_calendars db))"

definition new_sync_state :: "string \<Rightarrow> string \<Rightarrow> sync_window \<Rightarrow> instant \<Rightarrow> calendar_sync_state" where
  "new_sync_state i provider window now = \<lparr>ss_calendar_id = i, ss_strategy = provider, ss_cursor = '''',
     ss_window_start = sw_start window, ss_window_end = sw_end window, ss_generation = 0, ss_status = ''pending'',
     ss_next_sync_at = now, ss_last_started_at = None, ss_last_success_at = None, ss_last_error_code = None,
     ss_lease_owner = None, ss_lease_until = None, ss_updated_at = now\<rparr>"

definition ensure_state ::
  "instant \<Rightarrow> sync_window \<Rightarrow> bool \<Rightarrow> string \<times> string \<times> bool \<Rightarrow> calendar_sync_state list \<Rightarrow> calendar_sync_state list" where
  "ensure_state now window fenced v rows = (case v of (i, provider, copySource) \<Rightarrow>
     if copySource \<and> \<not> fenced then rows
     else let rows = (if list_ex (\<lambda>r. ss_calendar_id r = i) rows then rows
                      else rows @ [new_sync_state i provider window now]) in
       if list_ex (\<lambda>r. ss_calendar_id r = i \<and> ss_window_start r = sw_start window \<and>
            ss_window_end r = sw_end window) rows then rows
       else update_rows (\<lambda>r. ss_calendar_id r = i \<and> unleased now r)
         (\<lambda>r. r\<lparr>ss_strategy := provider, ss_cursor := '''', ss_window_start := sw_start window,
            ss_window_end := sw_end window, ss_generation := ss_generation r + 1,
            ss_status := (if ss_status r = ''parked'' then ss_status r else ''pending''),
            ss_next_sync_at := (if ss_status r = ''parked'' then ss_next_sync_at r else now),
            ss_last_error_code := (if ss_status r = ''parked'' then ss_last_error_code r else None),
            ss_lease_owner := None, ss_lease_until := None, ss_updated_at := now\<rparr>) rows)"

definition ensure_calendar_sync_states :: "string \<Rightarrow> instant \<Rightarrow> sync_window \<Rightarrow> unit tx" where
  "ensure_calendar_sync_states uuid now window db =
     (if \<not> sw_start window < sw_end window then Inl (ErrText ''calendar sync window end must be after start'')
      else bind_res (map_err (ErrWrap ''fence calendar window update'') (acquire_source_state_fence uuid now db))
        (\<lambda>(fenced, db1).
          let db2 = db1\<lparr>db_sync_states :=
                fold (ensure_state now window fenced) (readable_calendars db1) (db_sync_states db1)\<rparr> in
          Inr ((), if fenced then release_source_state_fence uuid db2 else db2)))"

definition due_for_sync :: "instant \<Rightarrow> bool \<Rightarrow> sync_db \<Rightarrow> calendar_sync_state \<Rightarrow> bool" where
  "due_for_sync now fenced db r \<longleftrightarrow> (case source_connection (ss_calendar_id r) db of
       None \<Rightarrow> False
     | Some (c, n) \<Rightarrow>
         (ss_status r \<in> {''pending'', ''ready'', ''failed'', ''degraded'', ''syncing''} \<or>
          (ss_status r = ''parked'' \<and> ss_last_error_code r = Some ''auth'' \<and> cn_provider n = ''apple'')) \<and>
         cn_status n = ''connected'' \<and> cl_can_read c \<and> cl_enabled c \<and> ss_next_sync_at r \<le> now \<and>
         unleased now r \<and> (fenced \<or> \<not> copy_source (ss_calendar_id r) db))"

definition claim_row_of :: "string \<Rightarrow> instant \<Rightarrow> instant \<Rightarrow> calendar_sync_state \<Rightarrow> calendar_sync_state" where
  "claim_row_of worker now leaseUntil r = r\<lparr>ss_generation := ss_generation r + 1, ss_status := ''syncing'',
     ss_lease_owner := Some worker, ss_lease_until := Some leaseUntil, ss_last_started_at := Some now,
     ss_updated_at := now\<rparr>"

definition claim_due_calendar_sync ::
  "string \<Rightarrow> string \<Rightarrow> instant \<Rightarrow> instant \<Rightarrow> sync_claim option tx" where
  "claim_due_calendar_sync uuid worker now leaseUntil db =
     (if worker = '''' then Inl (ErrText ''calendar sync worker ID is required'')
      else if \<not> now < leaseUntil then Inl (ErrText ''calendar sync lease must end after it starts'')
      else bind_res (map_err (ErrWrap ''fence calendar claim'') (acquire_source_state_fence uuid now db))
        (\<lambda>(fenced, db1).
          case sort_key (\<lambda>r. (ss_next_sync_at r, ss_calendar_id r))
                 (filter (due_for_sync now fenced db1) (db_sync_states db1)) of
            [] \<Rightarrow> Inr (None, db)
          | r # _ \<Rightarrow>
              let hit = (\<lambda>x. ss_calendar_id x = ss_calendar_id r \<and> unleased now x) in
              if count_rows hit (db_sync_states db1) \<noteq> 1 then Inr (None, db)
              else let db2 = db1\<lparr>db_sync_states := update_rows hit (claim_row_of worker now leaseUntil)
                           (db_sync_states db1)\<rparr> in
                Inr (Some ((scan_calendar_sync_state r)\<lparr>sc_generation := ss_generation r + 1,
                       sc_status := ''syncing'', sc_lease_owner := worker, sc_lease_until := Some leaseUntil,
                       sc_last_started_at := Some now\<rparr>),
                     if fenced then release_source_state_fence uuid db2 else db2)))"

definition renew_calendar_sync_lease :: "sync_claim \<Rightarrow> instant \<Rightarrow> instant \<Rightarrow> unit tx" where
  "renew_calendar_sync_lease c now leaseUntil db =
     (if \<not> now < leaseUntil then Inl (Sentinel ErrCalendarSyncLeaseLost)
      else bind_res (lock_calendar_sync_lease c now db) (\<lambda>(_, db).
        let hit = (\<lambda>r. holds_lease c now r \<and> the (ss_lease_until r) < leaseUntil) in
        if count_rows hit (db_sync_states db) \<noteq> 1 then Inl (Sentinel ErrCalendarSyncLeaseLost)
        else Inr ((), db\<lparr>db_sync_states := update_rows hit
               (\<lambda>r. r\<lparr>ss_lease_until := Some leaseUntil, ss_updated_at := now\<rparr>) (db_sync_states db)\<rparr>)))"

definition fail_calendar_sync :: "sync_claim \<Rightarrow> string \<Rightarrow> instant \<Rightarrow> instant \<Rightarrow> unit tx" where
  "fail_calendar_sync c code now next_at db =
     (if \<not> valid_claim c then Inl (Sentinel ErrCalendarSyncLeaseLost)
      else bind_res (lock_calendar_sync_lease c now db) (\<lambda>(_, db).
        update_lease c now (\<lambda>r. r\<lparr>ss_status := ''failed'', ss_next_sync_at := next_at,
          ss_last_error_code := null_string code, ss_lease_owner := None, ss_lease_until := None,
          ss_updated_at := now\<rparr>) db))"

definition safe_code_char :: "char \<Rightarrow> bool" where
  "safe_code_char ch \<longleftrightarrow> (CHR ''a'' \<le> ch \<and> ch \<le> CHR ''z'') \<or> (CHR ''0'' \<le> ch \<and> ch \<le> CHR ''9'') \<or> ch = CHR ''_''"

definition safe_calendar_sync_code :: "string \<Rightarrow> bool" where
  "safe_calendar_sync_code code \<longleftrightarrow> code \<noteq> '''' \<and> length code \<le> 64 \<and> list_all safe_code_char code"

definition AppleAuthRecheckInterval :: instant where
  "AppleAuthRecheckInterval = 15 * 60 * nanos"

definition park_calendar_sync :: "sync_claim \<Rightarrow> string \<Rightarrow> instant \<Rightarrow> unit tx" where
  "park_calendar_sync c code now db =
     (if \<not> valid_claim c then Inl (Sentinel ErrCalendarSyncLeaseLost)
      else if \<not> safe_calendar_sync_code code then Inl (Sentinel ErrInvalidSyncCode)
      else bind_res (lock_calendar_sync_lease c now db) (\<lambda>(_, db).
        update_lease c now (\<lambda>r. r\<lparr>ss_status := ''parked'', ss_last_error_code := Some code,
          ss_next_sync_at := (if code = ''auth'' \<and> (case source_connection (ss_calendar_id r) db of
                None \<Rightarrow> False | Some (_, n) \<Rightarrow> cn_provider n = ''apple'')
              then now + AppleAuthRecheckInterval else ss_next_sync_at r),
          ss_lease_owner := None, ss_lease_until := None, ss_updated_at := now\<rparr>) db))"

definition schedule_calendar_sync :: "string \<Rightarrow> instant \<Rightarrow> bool \<Rightarrow> unit tx" where
  "schedule_calendar_sync i now resetCursor db =
     (if i = '''' then Inl (Sentinel ErrNotFound)
      else let hit = (\<lambda>r. ss_calendar_id r = i \<and> unleased now r \<and> readable_source i db) in
        if count_rows hit (db_sync_states db) = 1
        then Inr ((), db\<lparr>db_sync_states := update_rows hit (\<lambda>r. r\<lparr>ss_status := ''pending'', ss_next_sync_at := now,
               ss_cursor := (if resetCursor then '''' else ss_cursor r),
               ss_generation := (if resetCursor then ss_generation r + 1 else ss_generation r),
               ss_last_error_code := None, ss_lease_owner := None, ss_lease_until := None,
               ss_updated_at := now\<rparr>) (db_sync_states db)\<rparr>)
        else if \<not> list_ex (\<lambda>r. ss_calendar_id r = i) (db_sync_states db) then Inl (Sentinel ErrNotFound)
        else if \<not> readable_source i db then Inl (Sentinel ErrCalendarSyncIneligible)
        else Inl (Sentinel ErrCalendarSyncActive))"

definition reset_calendar_sync :: "sync_claim \<Rightarrow> instant \<Rightarrow> sync_claim tx" where
  "reset_calendar_sync c now db =
     (if \<not> valid_claim c then Inl (Sentinel ErrCalendarSyncLeaseLost)
      else bind_res (lock_calendar_sync_lease c now db) (\<lambda>(_, db).
        bind_res (update_lease c now (\<lambda>r. r\<lparr>ss_cursor := '''', ss_generation := ss_generation r + 1,
          ss_updated_at := now\<rparr>) db) (\<lambda>(_, db').
        Inr (c\<lparr>sc_cursor := '''', sc_generation := sc_generation c + 1\<rparr>, db'))))"

text \<open>
  The outcome of a verification (store.go): a connection that works again wakes the parked
  calendars under it that no worker holds.  The time and the error of the verification, which no
  modelled operation reads, are left out of the row.
\<close>

definition parked_under :: "string \<Rightarrow> instant \<Rightarrow> sync_db \<Rightarrow> calendar_sync_state \<Rightarrow> bool" where
  "parked_under i now db r \<longleftrightarrow> ss_status r = ''parked'' \<and> unleased now r \<and>
     list_ex (\<lambda>c. cl_id c = ss_calendar_id r \<and> cl_connection_id c = i) (db_calendars db)"

definition update_connection_verification :: "string \<Rightarrow> string \<Rightarrow> instant \<Rightarrow> unit tx" where
  "update_connection_verification i status verifiedAt db =
     (if count_rows (\<lambda>n. cn_id n = i) (db_connections db) \<noteq> 1 then Inl (Sentinel ErrNotFound)
      else let db1 = db\<lparr>db_connections := update_rows (\<lambda>n. cn_id n = i) (\<lambda>n. n\<lparr>cn_status := status\<rparr>)
             (db_connections db)\<rparr> in
        if status = ''connected''
        then Inr ((), db1\<lparr>db_sync_states := update_rows (parked_under i verifiedAt db1)
               (\<lambda>r. r\<lparr>ss_status := ''pending'', ss_next_sync_at := verifiedAt, ss_last_error_code := None,
                      ss_updated_at := verifiedAt\<rparr>) (db_sync_states db1)\<rparr>)
        else Inr ((), db1))"

end
