(* ===== verification/Json_Image.thy ===== *)
theory Json_Image
  imports Calendar_Types
begin

text \<open>
  What is left of a value after \<open>json.Marshal\<close> and \<open>json.Unmarshal\<close> into a variable of
  its type, for the structs of \<open>src/internal/calendar/types_v2.go\<close> and \<open>event_sync.go\<close>.
  The image follows the struct tags and the rules of \<open>encoding/json\<close>: bytes that are not UTF-8
  become U+FFFD, a field tagged \<open>-\<close> comes back as its zero value, an empty slice or map tagged
  \<open>omitempty\<close> comes back nil, and a map with two keys of one image keeps the value of the
  greater key.  A pointer tagged \<open>omitempty\<close> is left out only when it is nil.  Times keep their
  instant, integers and truth values are kept, and the number of an \<open>any\<close> is the text that
  \<open>encoding/json\<close> writes for it.
\<close>

section \<open>Strings, values and maps\<close>

definition json_text :: "string \<Rightarrow> string" where
  "json_text s = utf8_encode (utf8_decode s)"

text \<open>A map is written in the order of its keys; a later member overwrites one of the same name.\<close>

definition json_members :: "(string \<times> 'a) list \<Rightarrow> (string \<times> 'a) list" where
  "json_members ms = fold (\<lambda>(k, v). AList.update (json_text k) v) (sort_key fst ms) []"

fun json_value :: "json \<Rightarrow> json" where
  "json_value (JString s) = JString (json_text s)"
| "json_value (JArray xs) = JArray (map json_value xs)"
| "json_value (JObject ms) = JObject (json_members (map (\<lambda>(k, v). (k, json_value v)) ms))"
| "json_value v = v"

text \<open>A slice or a map tagged \<open>omitempty\<close>.\<close>

definition omit_empty :: "('a list \<Rightarrow> 'a list) \<Rightarrow> 'a list option \<Rightarrow> 'a list option" where
  "omit_empty f x = (case x of Some (y # ys) \<Rightarrow> Some (f (y # ys)) | _ \<Rightarrow> None)"

section \<open>Parts of an event (types_v2.go)\<close>

definition json_time :: "event_time \<Rightarrow> event_time" where
  "json_time t = \<lparr>et_date = json_text (et_date t), et_date_time = json_text (et_date_time t),
     et_time_zone = json_text (et_time_zone t)\<rparr>"

definition json_person :: "person_v2 \<Rightarrow> person_v2" where
  "json_person p = \<lparr>person_id = json_text (person_id p), person_email = json_text (person_email p),
     person_name = json_text (person_name p), person_self = person_self p,
     person_comment = json_text (person_comment p)\<rparr>"

definition json_attendee :: "attendee_v2 \<Rightarrow> attendee_v2" where
  "json_attendee a = a\<lparr>att_person := json_person (att_person a), att_status := json_text (att_status a)\<rparr>"

definition json_reminders :: "reminder_settings \<Rightarrow> reminder_settings" where
  "json_reminders r = r\<lparr>rem_overrides := map (\<lambda>o'. o'\<lparr>rem_method := json_text (rem_method o')\<rparr>) (rem_overrides r)\<rparr>"

definition json_attachment :: "attachment \<Rightarrow> attachment" where
  "json_attachment a = \<lparr>at_file_url = json_text (at_file_url a), at_title = json_text (at_title a),
     at_mime_type = json_text (at_mime_type a), at_icon_link = json_text (at_icon_link a),
     at_file_id = json_text (at_file_id a)\<rparr>"

definition json_entry_point :: "conference_entry_point \<Rightarrow> conference_entry_point" where
  "json_entry_point p = \<lparr>cep_type = json_text (cep_type p), cep_uri = json_text (cep_uri p),
     cep_label = json_text (cep_label p), cep_pin = json_text (cep_pin p)\<rparr>"

definition json_conference :: "conference_data \<Rightarrow> conference_data" where
  "json_conference c = \<lparr>conf_request_id = json_text (conf_request_id c), conf_status = json_text (conf_status c),
     conf_solution = json_text (conf_solution c), conf_entry_points = map json_entry_point (conf_entry_points c)\<rparr>"

definition json_properties :: "(string \<times> string) list option \<Rightarrow> (string \<times> string) list option" where
  "json_properties = omit_empty (\<lambda>ms. json_members (map (\<lambda>(k, v). (k, json_text v)) ms))"

definition json_details :: "(string \<times> json) list option \<Rightarrow> (string \<times> json) list option" where
  "json_details = omit_empty (\<lambda>ms. json_members (map (\<lambda>(k, v). (k, json_value v)) ms))"

definition json_google :: "google_event_extension \<Rightarrow> google_event_extension" where
  "json_google g = \<lparr>ge_event_type = json_text (ge_event_type g),
     ge_private_properties = json_properties (ge_private_properties g),
     ge_shared_properties = json_properties (ge_shared_properties g),
     ge_birthday = json_details (ge_birthday g), ge_focus_time = json_details (ge_focus_time g),
     ge_out_of_office = json_details (ge_out_of_office g),
     ge_working_location = json_details (ge_working_location g),
     ge_locked = ge_locked g, ge_private_copy = ge_private_copy g\<rparr>"

section \<open>Events\<close>

text \<open>
  \<open>AttendeesKnown\<close> and \<open>SourceAttendeesComplete\<close> are tagged \<open>-\<close>.
\<close>

definition json_event :: "event_v2 \<Rightarrow> event_v2" where
  "json_event e = \<lparr>ev_id = json_text (ev_id e), ev_calendar_id = json_text (ev_calendar_id e),
     ev_provider = json_text (ev_provider e), ev_ical_uid = json_text (ev_ical_uid e),
     ev_etag = json_text (ev_etag e), ev_html_link = json_text (ev_html_link e),
     ev_title = json_text (ev_title e), ev_description = json_text (ev_description e),
     ev_description_format = json_text (ev_description_format e), ev_location = json_text (ev_location e),
     ev_status = json_text (ev_status e), ev_start = json_time (ev_start e),
     ev_end = json_time (ev_end e), ev_original_start = map_option json_time (ev_original_start e),
     ev_recurring_event_id = json_text (ev_recurring_event_id e),
     ev_instance_kind = json_text (ev_instance_kind e),
     ev_recurrence = omit_empty (map json_text) (ev_recurrence e),
     ev_organizer = map_option json_person (ev_organizer e), ev_attendees = map json_attendee (ev_attendees e),
     ev_attendees_known = False, ev_source_attendees_complete = False,
     ev_reminders = map_option json_reminders (ev_reminders e), ev_visibility = json_text (ev_visibility e),
     ev_transparency = json_text (ev_transparency e), ev_color_id = json_text (ev_color_id e),
     ev_attachments = map json_attachment (ev_attachments e),
     ev_conference = map_option json_conference (ev_conference e),
     ev_guest_permissions = ev_guest_permissions e, ev_google = map_option json_google (ev_google e),
     ev_created = ev_created e, ev_updated = ev_updated e, ev_read_only = ev_read_only e\<rparr>"

section \<open>Pages (event_sync.go)\<close>

text \<open>
  The structs of a page have no tags, but for the diagnostic of a warning, which is left out.
\<close>

definition json_object_ref :: "sync_object \<Rightarrow> sync_object" where
  "json_object_ref x = \<lparr>so_object_id = json_text (so_object_id x), so_etag = json_text (so_etag x)\<rparr>"

definition json_upsert :: "event_sync_upsert \<Rightarrow> event_sync_upsert" where
  "json_upsert u = \<lparr>up_object = json_object_ref (up_object u), up_event = json_event (up_event u)\<rparr>"

primrec json_removal_reason :: "event_sync_removal_reason \<Rightarrow> event_sync_removal_reason" where
  "json_removal_reason EventSyncProviderCancellation = EventSyncProviderCancellation"
| "json_removal_reason EventSyncWindowEviction = EventSyncWindowEviction"
| "json_removal_reason (EventSyncReasonOther s) = EventSyncReasonOther (json_text s)"

definition json_removal :: "event_sync_removal \<Rightarrow> event_sync_removal" where
  "json_removal r = \<lparr>rm_object_id = json_text (rm_object_id r), rm_reason = json_removal_reason (rm_reason r),
     rm_series_id = json_text (rm_series_id r), rm_original_start = map_option json_time (rm_original_start r),
     rm_recurrence_present = rm_recurrence_present r\<rparr>"

definition json_warning :: "event_sync_warning \<Rightarrow> event_sync_warning" where
  "json_warning w = w\<lparr>wn_object_id := json_text (wn_object_id w), wn_etag := json_text (wn_etag w),
     wn_diagnostic := None\<rparr>"

definition json_page :: "event_sync_page \<Rightarrow> event_sync_page" where
  "json_page p = \<lparr>sp_source_time_zone = json_text (sp_source_time_zone p),
     sp_upserts = map json_upsert (sp_upserts p), sp_deleted_event_ids = map json_text (sp_deleted_event_ids p),
     sp_removals = map json_removal (sp_removals p), sp_deleted_object_ids = map json_text (sp_deleted_object_ids p),
     sp_replaced_object_ids = map json_text (sp_replaced_object_ids p),
     sp_inventory = map json_object_ref (sp_inventory p), sp_next_page_token = json_text (sp_next_page_token p),
     sp_next_cursor = json_text (sp_next_cursor p), sp_reset_required = sp_reset_required p,
     sp_complete = sp_complete p, sp_warnings = map json_warning (sp_warnings p)\<rparr>"

section \<open>Facts about images\<close>

lemma json_text_idem [simp]: "json_text (json_text s) = json_text s"
proof -
  have "utf8_encode (map scalar rs) = utf8_encode rs" for rs
    by (induction rs) (simp_all add: utf8_encode_def utf8_encode_rune_scalar [symmetric])
  then show ?thesis by (simp add: json_text_def utf8_decode_encode)
qed

lemma json_text_Nil [simp]: "json_text s = '''' \<longleftrightarrow> s = ''''"
proof (cases s)
  case Nil
  then show ?thesis by (simp add: json_text_def utf8_decode_def utf8_encode_def)
next
  case (Cons c cs)
  have "utf8_encode_rune r \<noteq> ''''" for r
    by (auto simp: utf8_encode_rune_def Let_def split: if_splits)
  moreover obtain r rs where "utf8_decode s = r # rs"
  proof -
    obtain r w where "utf8_step (map of_char (take 4 (c # cs))) = (r, w)" by fastforce
    then have "utf8_decode s = r # map fst (utf8_chunks (drop (w - 1) cs))"
      unfolding Cons by (simp add: utf8_decode_def)
    with that show ?thesis .
  qed
  ultimately show ?thesis using Cons by (simp add: json_text_def utf8_encode_def)
qed

lemma json_text_empty [simp]: "json_text '''' = ''''"
  by simp

text \<open>ASCII text is its own image; evaluation need not decode it.\<close>

lemma json_text_ascii: "ascii s \<Longrightarrow> json_text s = s"
proof -
  assume a: "ascii s"
  have "concat (map utf8_encode_rune (map of_char s)) = s"
    using a by (induction s) (auto simp: ascii_def utf8_encode_rune_def Let_def)
  with a show ?thesis by (simp add: json_text_def utf8_decode_def utf8_encode_def utf8_chunks_ascii o_def)
qed

lemma json_text_code [code]: "json_text s = (if ascii s then s else utf8_encode (utf8_decode s))"
  using json_text_ascii [of s] by (simp add: json_text_def)

lemma json_event_frame [simp]:
  "ev_id (json_event e) = json_text (ev_id e)" "ev_calendar_id (json_event e) = json_text (ev_calendar_id e)"
  "ev_source_attendees_complete (json_event e) = False" "ev_attendees_known (json_event e) = False"
  by (simp_all add: json_event_def)

end
