(* ===== verification/Event_Pages.thy ===== *)
theory Event_Pages
  imports Event_Cache Json_Image
begin

text \<open>
  Pages of provider changes applied to the read model, the repair of quarantined objects and the
  reads of the cache (\<open>src/internal/storage/event_cache.go\<close>).  A row's \<open>payload_json\<close> is read
  back as the image of the event under \<open>encoding/json\<close> (theory \<open>Json_Image\<close>); a tombstone written for an unknown
  event has no payload.  Tables have their primary keys: an INSERT ... ON CONFLICT DO UPDATE is
  \<open>upsert_row\<close>.
\<close>

section \<open>Rows\<close>

definition upsert_row :: "('r \<Rightarrow> bool) \<Rightarrow> 'r \<Rightarrow> ('r \<Rightarrow> 'r) \<Rightarrow> 'r list \<Rightarrow> 'r list" where
  "upsert_row P new f rows = (if list_ex P rows then update_rows P f rows else rows @ [new])"

definition event_at :: "string \<Rightarrow> string \<Rightarrow> cached_row \<Rightarrow> bool" where
  "event_at cal i r \<longleftrightarrow> ce_calendar_id r = cal \<and> ce_event_id r = i"

definition quarantine_at :: "string \<Rightarrow> string \<Rightarrow> quarantine_row \<Rightarrow> bool" where
  "quarantine_at cal obj q \<longleftrightarrow> qr_calendar_id q = cal \<and> qr_object_id q = obj"

text \<open>
  The payload of a row: \<open>json.Marshal(event)\<close>, as every reader of the row unmarshals it.  The
  encoding fails only for a time whose year has more than four digits, which the providers'
  RFC 3339 texts cannot express.
\<close>

definition stored_event :: "event_v2 \<Rightarrow> event_v2" where
  "stored_event event = json_event event"

definition cached_row_of ::
  "zonedb \<Rightarrow> event_v2 \<Rightarrow> string \<Rightarrow> int \<Rightarrow> instant \<Rightarrow> cached_row res" where
  "cached_row_of zdb event obj generation syncedAt =
     (if ev_id event = '''' then Inl (ErrText ''cached event ID is required'')
      else bind_res (map_err (ErrWrap ''invalid cached event'')
             (validate_event_time_range_v2 zdb (ev_start event) (ev_end event))) (\<lambda>_.
        let allDay = is_all_day (ev_start event) in
        bind_res (if allDay then Inr None
                  else map_err (ErrWrap ''parse cached event start'')
                         (map_sum id Some (event_time_instant zdb (ev_start event)))) (\<lambda>startAt.
        bind_res (if allDay then Inr None
                  else map_err (ErrWrap ''parse cached event end'')
                         (map_sum id Some (event_time_instant zdb (ev_end event)))) (\<lambda>endAt.
          Inr \<lparr>ce_calendar_id = ev_calendar_id event, ce_event_id = ev_id event, ce_source_object_id = obj,
               ce_etag = ev_etag event, ce_payload = Some (stored_event event), ce_start_at = startAt,
               ce_end_at = endAt, ce_start_date = (if allDay then Some (et_date (ev_start event)) else None),
               ce_end_date = (if allDay then Some (et_date (ev_end event)) else None), ce_deleted = False,
               ce_sync_generation = generation, ce_provider_updated_at = ev_updated event,
               ce_synced_at = syncedAt\<rparr>))))"

text \<open>The update overwrites every column but the key, so the new row replaces the old.\<close>

definition upsert_cached_event ::
  "zonedb \<Rightarrow> event_v2 \<Rightarrow> string \<Rightarrow> int \<Rightarrow> instant \<Rightarrow> cache_tables \<Rightarrow> cache_tables res" where
  "upsert_cached_event zdb event obj generation syncedAt t =
     bind_res (cached_row_of zdb event obj generation syncedAt) (\<lambda>row.
       Inr (t\<lparr>ct_events := upsert_row (event_at (ev_calendar_id event) (ev_id event)) row (\<lambda>_. row) (ct_events t)\<rparr>))"

definition bury :: "int \<Rightarrow> instant \<Rightarrow> cached_row \<Rightarrow> cached_row" where
  "bury generation syncedAt r = r\<lparr>ce_deleted := True, ce_sync_generation := generation, ce_synced_at := syncedAt\<rparr>"

definition tombstone_cached_event ::
  "string \<Rightarrow> string \<Rightarrow> int \<Rightarrow> instant \<Rightarrow> cache_tables \<Rightarrow> cache_tables" where
  "tombstone_cached_event cal i generation syncedAt t = t\<lparr>ct_events := upsert_row (event_at cal i)
     \<lparr>ce_calendar_id = cal, ce_event_id = i, ce_source_object_id = '''', ce_etag = '''', ce_payload = None,
      ce_start_at = None, ce_end_at = None, ce_start_date = None, ce_end_date = None, ce_deleted = True,
      ce_sync_generation = generation, ce_provider_updated_at = None, ce_synced_at = syncedAt\<rparr>
     (bury generation syncedAt) (ct_events t)\<rparr>"

definition member_of :: "string \<Rightarrow> string \<Rightarrow> cached_row \<Rightarrow> bool" where
  "member_of cal obj r \<longleftrightarrow> ce_calendar_id r = cal \<and> ce_source_object_id r = obj \<and> \<not> ce_deleted r"

definition tombstone_missing_object_members ::
  "string \<Rightarrow> string \<Rightarrow> string list \<Rightarrow> int \<Rightarrow> instant \<Rightarrow> cache_tables \<Rightarrow> cache_tables" where
  "tombstone_missing_object_members cal obj members generation syncedAt t =
     fold (\<lambda>i t. tombstone_cached_event cal i generation syncedAt t)
       (filter (\<lambda>i. i \<notin> set members) (map ce_event_id (filter (member_of cal obj) (ct_events t)))) t"

definition bury_object :: "string \<Rightarrow> string \<Rightarrow> int \<Rightarrow> instant \<Rightarrow> cache_tables \<Rightarrow> cache_tables" where
  "bury_object cal obj generation syncedAt t =
     t\<lparr>ct_events := update_rows (member_of cal obj) (bury generation syncedAt) (ct_events t),
       ct_objects := filter (\<lambda>x. \<not> (ob_calendar_id x = cal \<and> ob_object_id x = obj)) (ct_objects t)\<rparr>"

definition upsert_object :: "string \<Rightarrow> string \<Rightarrow> string \<Rightarrow> int \<Rightarrow> cache_tables \<Rightarrow> cache_tables" where
  "upsert_object cal obj etag generation t = t\<lparr>ct_objects :=
     upsert_row (\<lambda>x. ob_calendar_id x = cal \<and> ob_object_id x = obj)
       \<lparr>ob_calendar_id = cal, ob_object_id = obj, ob_etag = etag, ob_sync_generation = generation\<rparr>
       (\<lambda>x. x\<lparr>ob_etag := etag, ob_sync_generation := generation\<rparr>) (ct_objects t)\<rparr>"

section \<open>Quarantine\<close>

record sync_warning =
  sw_object_id :: string
  sw_etag :: string
  sw_error_code :: string
  sw_diagnostic :: "event_sync_diagnostic option"

definition protocol_code :: string where "protocol_code = ''protocol''"

definition MaxEventSyncDiagnosticBytes :: nat where "MaxEventSyncDiagnosticBytes = 262144"

definition artifact_context :: "string \<Rightarrow> string \<Rightarrow> string \<Rightarrow> string" where
  "artifact_context cal obj etag = ''calendar-sync-artifact'' @ NUL # cal @ NUL # obj @ NUL # etag"

definition upsert_raw_event_artifact ::
  "artifact_cipher \<Rightarrow> string \<Rightarrow> string \<Rightarrow> string \<Rightarrow> event_sync_diagnostic \<Rightarrow> instant \<Rightarrow> cache_tables \<Rightarrow> cache_tables res" where
  "upsert_raw_event_artifact cipher cal obj etag d now t =
     (let long = MaxEventSyncDiagnosticBytes < length (di_raw_payload d);
          payload = take MaxEventSyncDiagnosticBytes (di_raw_payload d) in
      bind_res (map_err (ErrWrap ''encrypt raw event artifact'') (ac_encrypt cipher payload (artifact_context cal obj etag)))
        (\<lambda>encrypted.
          let row = \<lparr>ar_calendar_id = cal, ar_object_id = obj, ar_etag = etag, ar_ciphertext = encrypted,
                ar_payload_sha256 = sha256_hex (di_raw_payload d), ar_content_type = di_content_type d,
                ar_provider_status = di_provider_status d, ar_provider_reason = di_provider_reason d,
                ar_truncated = (if long then True else di_truncated d), ar_captured_at = now,
                ar_expires_at = now + 7 * 24 * 3600 * nanos\<rparr> in
          Inr (t\<lparr>ct_artifacts := upsert_row (\<lambda>a. ar_calendar_id a = cal \<and> ar_object_id a = obj) row (\<lambda>_. row)
                 (ct_artifacts t)\<rparr>)))"

text \<open>A changed object, or one that comes back, starts its repair schedule again.\<close>

definition requarantine :: "string \<Rightarrow> string \<Rightarrow> instant \<Rightarrow> quarantine_row \<Rightarrow> quarantine_row" where
  "requarantine etag code now q =
     (let again = \<not> qr_active q; fresh = again \<or> qr_etag q \<noteq> etag in
      q\<lparr>qr_etag := etag, qr_error_code := code, qr_last_seen_at := now,
        qr_first_seen_at := (if again then now else qr_first_seen_at q),
        qr_next_repair_at := (if fresh then now else qr_next_repair_at q),
        qr_repair_attempts := (if fresh then 0 else qr_repair_attempts q), qr_active := True,
        qr_authorized_etag := (if fresh then '''' else qr_authorized_etag q)\<rparr>)"

definition upsert_event_sync_warning ::
  "artifact_cipher option \<Rightarrow> string \<Rightarrow> sync_warning \<Rightarrow> instant \<Rightarrow> cache_tables \<Rightarrow> cache_tables res" where
  "upsert_event_sync_warning cipher cal w now t =
     (if sw_object_id w = '''' \<or> sw_error_code w \<noteq> protocol_code then Inl (Sentinel ErrInvalidSyncCode)
      else let t1 = t\<lparr>ct_quarantine := upsert_row (quarantine_at cal (sw_object_id w))
             \<lparr>qr_calendar_id = cal, qr_object_id = sw_object_id w, qr_etag = sw_etag w,
              qr_error_code = sw_error_code w, qr_first_seen_at = now, qr_last_seen_at = now,
              qr_next_repair_at = now, qr_repair_attempts = 0, qr_active = True, qr_authorized_etag = ''''\<rparr>
             (requarantine (sw_etag w) (sw_error_code w) now) (ct_quarantine t)\<rparr> in
        case (sw_diagnostic w, cipher) of
          (Some d, Some c) \<Rightarrow> upsert_raw_event_artifact c cal (sw_object_id w) (sw_etag w) d now t1
        | _ \<Rightarrow> Inr t1)"

definition clear_event_sync_quarantine :: "string \<Rightarrow> string \<Rightarrow> cache_tables \<Rightarrow> cache_tables" where
  "clear_event_sync_quarantine cal obj t =
     (if obj = '''' then t
      else t\<lparr>ct_quarantine := update_rows (\<lambda>q. quarantine_at cal obj q \<and> qr_active q) (\<lambda>q. q\<lparr>qr_active := False\<rparr>)
             (ct_quarantine t)\<rparr>)"

definition quarantined :: "string \<Rightarrow> string \<Rightarrow> cache_tables \<Rightarrow> bool" where
  "quarantined cal obj t \<longleftrightarrow> list_ex (\<lambda>q. quarantine_at cal obj q \<and> qr_active q) (ct_quarantine t)"

definition active_quarantine :: "string \<Rightarrow> cache_tables \<Rightarrow> bool" where
  "active_quarantine cal t \<longleftrightarrow> list_ex (\<lambda>q. qr_calendar_id q = cal \<and> qr_active q) (ct_quarantine t)"

section \<open>A page\<close>

record cached_upsert =
  cu_source_object_id :: string
  cu_event :: event_v2

record event_sync_batch =
  eb_source_time_zone :: string
  eb_upserts :: "cached_upsert list"
  eb_deleted_event_ids :: "string list"
  eb_deleted_object_ids :: "string list"
  eb_replaced_object_ids :: "string list"
  eb_objects :: "sync_object list"
  eb_next_cursor :: string
  eb_next_sync_at :: "instant option"
  eb_full_sync :: bool
  eb_degraded :: bool
  eb_error_code :: string
  eb_warnings :: "sync_warning list"

definition save_timezone :: "zonedb \<Rightarrow> string \<Rightarrow> string \<Rightarrow> sync_db \<Rightarrow> sync_db" where
  "save_timezone zdb cal tz db =
     (if tz = '''' \<or> tz = ''Local'' \<or> load_location zdb tz = None then db
      else db\<lparr>db_calendars := update_rows (\<lambda>c. cl_id c = cal \<and> cl_timezone c = '''' \<and>
             list_ex (\<lambda>n. cn_id n = cl_connection_id c \<and> cn_provider n = ''google'') (db_connections db))
           (\<lambda>c. c\<lparr>cl_timezone := tz\<rparr>) (db_calendars db)\<rparr>)"

definition degraded_code :: "event_sync_batch \<Rightarrow> string res" where
  "degraded_code batch =
     (if eb_degraded batch then
        (let code = (if eb_error_code batch = '''' then protocol_code else eb_error_code batch) in
         if code \<noteq> protocol_code \<or> \<not> safe_calendar_sync_code code then Inl (Sentinel ErrInvalidSyncCode) else Inr code)
      else Inr '''')"

definition check_warnings :: "event_sync_batch \<Rightarrow> unit res" where
  "check_warnings batch =
     (if list_ex (\<lambda>w. sw_object_id w = '''' \<or> sw_error_code w \<noteq> protocol_code) (eb_warnings batch)
      then Inl (Sentinel ErrInvalidSyncCode) else Inr ())"

text \<open>The event of an upsert with its calendar, and the object it belongs to.\<close>

definition placed_event :: "string \<Rightarrow> cached_upsert \<Rightarrow> event_v2" where
  "placed_event cal u = (if ev_calendar_id (cu_event u) = '''' then (cu_event u)\<lparr>ev_calendar_id := cal\<rparr> else cu_event u)"

definition owning_object :: "cached_upsert \<Rightarrow> string" where
  "owning_object u = (if cu_source_object_id u = '''' then ev_id (cu_event u) else cu_source_object_id u)"

definition add_member :: "string \<Rightarrow> string \<Rightarrow> (string \<times> string list) list \<Rightarrow> (string \<times> string list) list" where
  "add_member obj i members =
     AList.update obj ((case map_of members obj of None \<Rightarrow> [] | Some is \<Rightarrow> is) @ [i]) members"

definition object_member ::
  "string \<Rightarrow> cached_upsert \<Rightarrow> (string \<times> string list) list \<Rightarrow> (string \<times> string list) list res" where
  "object_member cal u members =
     (if ev_calendar_id (placed_event cal u) \<noteq> cal
      then Inl (ErrText ''event belongs to another calendar, not the claimed calendar'')
      else if owning_object u = '''' then Inl (ErrText ''cached event source object ID is required'')
      else Inr (add_member (owning_object u) (ev_id (placed_event cal u)) members))"

definition replace_object ::
  "string \<Rightarrow> event_sync_batch \<Rightarrow> (string \<times> string list) list \<Rightarrow> int \<Rightarrow> instant \<Rightarrow> string \<Rightarrow> cache_tables \<Rightarrow>
   cache_tables res" where
  "replace_object cal batch members generation syncedAt obj t =
     (if obj = '''' then Inl (ErrText ''replaced source object ID is required'')
      else if obj \<in> set (eb_deleted_object_ids batch)
      then Inl (ErrText ''source object cannot be replaced and deleted in one batch'')
      else (case map_of members obj of
          None \<Rightarrow> Inl (ErrText ''replacement source object has no event membership; use DeletedObjectIDs for an empty object'')
        | Some is \<Rightarrow> Inr (tombstone_missing_object_members cal obj is generation syncedAt t)))"

definition apply_upsert ::
  "zonedb \<Rightarrow> string \<Rightarrow> int \<Rightarrow> instant \<Rightarrow> cached_upsert \<Rightarrow> cache_tables \<Rightarrow> cache_tables res" where
  "apply_upsert zdb cal generation syncedAt u t =
     bind_res (upsert_cached_event zdb (placed_event cal u) (owning_object u) generation syncedAt t) (\<lambda>t.
       Inr (clear_event_sync_quarantine cal (owning_object u) t))"

definition apply_deletion :: "string \<Rightarrow> int \<Rightarrow> instant \<Rightarrow> string \<Rightarrow> cache_tables \<Rightarrow> cache_tables" where
  "apply_deletion cal generation syncedAt i t =
     clear_event_sync_quarantine cal i (tombstone_cached_event cal i generation syncedAt t)"

definition apply_object :: "string \<Rightarrow> int \<Rightarrow> sync_object \<Rightarrow> cache_tables \<Rightarrow> cache_tables res" where
  "apply_object cal generation x t =
     (if so_object_id x = '''' then Inl (ErrText ''sync object ID is required'')
      else Inr (upsert_object cal (so_object_id x) (so_etag x) generation t))"

definition apply_object_deletion :: "string \<Rightarrow> int \<Rightarrow> instant \<Rightarrow> string \<Rightarrow> cache_tables \<Rightarrow> cache_tables" where
  "apply_object_deletion cal generation syncedAt obj t =
     clear_event_sync_quarantine cal obj (bury_object cal obj generation syncedAt t)"

text \<open>The changes of a page to the tables of the read model.\<close>

definition apply_changes ::
  "zonedb \<Rightarrow> artifact_cipher option \<Rightarrow> string \<Rightarrow> int \<Rightarrow> event_sync_batch \<Rightarrow> instant \<Rightarrow> cache_tables \<Rightarrow> cache_tables res" where
  "apply_changes zdb cipher cal generation batch now t =
     bind_res (fold_res (object_member cal) (eb_upserts batch) []) (\<lambda>members.
     if '''' \<in> set (eb_deleted_object_ids batch) then Inl (ErrText ''deleted source object ID is required'')
     else
     bind_res (fold_res (replace_object cal batch members generation now) (eb_replaced_object_ids batch) t) (\<lambda>t.
     bind_res (fold_res (\<lambda>w. upsert_event_sync_warning cipher cal w now) (eb_warnings batch) t) (\<lambda>t.
     bind_res (fold_res (apply_upsert zdb cal generation now) (eb_upserts batch) t) (\<lambda>t.
     bind_res (fold_res (apply_object cal generation) (eb_objects batch)
         (fold (apply_deletion cal generation now) (eb_deleted_event_ids batch) t)) (\<lambda>t.
       Inr (fold (apply_object_deletion cal generation now) (eb_deleted_object_ids batch) t))))))"

text \<open>The sweep of a full synchronization: what it did not meet, but for quarantined objects.\<close>

definition sweep_generation :: "string \<Rightarrow> int \<Rightarrow> cache_tables \<Rightarrow> cache_tables" where
  "sweep_generation cal generation t = t\<lparr>
     ct_events := filter (\<lambda>r. \<not> (ce_calendar_id r = cal \<and> ce_sync_generation r \<noteq> generation \<and>
       \<not> quarantined cal (ce_source_object_id r) t)) (ct_events t),
     ct_objects := filter (\<lambda>x. \<not> (ob_calendar_id x = cal \<and> ob_sync_generation x \<noteq> generation \<and>
       \<not> quarantined cal (ob_object_id x) t)) (ct_objects t)\<rparr>"

definition finish_sync :: "sync_claim \<Rightarrow> event_sync_batch \<Rightarrow> string \<Rightarrow> instant \<Rightarrow> unit tx" where
  "finish_sync c batch code now db =
     (let quarantine = active_quarantine (sc_calendar_id c) (db_cache db);
          degraded = (eb_degraded batch \<or> quarantine);
          code = (if degraded \<and> code = '''' then protocol_code else code);
          next_at = (case eb_next_sync_at batch of None \<Rightarrow> sc_next_sync_at c | Some t \<Rightarrow> t);
          db = (if eb_full_sync batch
                then db\<lparr>db_cache := sweep_generation (sc_calendar_id c) (sc_generation c) (db_cache db)\<rparr> else db) in
      if degraded then
        update_lease c now (\<lambda>r. r\<lparr>ss_cursor := sc_cursor c, ss_status := ''degraded'', ss_next_sync_at := next_at,
          ss_last_success_at := Some now, ss_last_error_code := Some code, ss_lease_owner := None,
          ss_lease_until := None, ss_updated_at := now\<rparr>) db
      else
        update_lease c now (\<lambda>r. r\<lparr>ss_cursor := eb_next_cursor batch, ss_status := ''ready'',
          ss_next_sync_at := next_at, ss_last_success_at := Some now, ss_last_error_code := None,
          ss_lease_owner := None, ss_lease_until := None, ss_updated_at := now\<rparr>) db)"

definition apply_event_sync_page_tx ::
  "zonedb \<Rightarrow> artifact_cipher option \<Rightarrow> sync_claim \<Rightarrow> event_sync_batch \<Rightarrow> bool \<Rightarrow> instant \<Rightarrow> unit tx" where
  "apply_event_sync_page_tx zdb cipher c batch final now db =
     (let db = save_timezone zdb (sc_calendar_id c) (eb_source_time_zone batch) db in
      bind_res (degraded_code batch) (\<lambda>code.
      bind_res (check_warnings batch) (\<lambda>_.
      bind_res (apply_changes zdb cipher (sc_calendar_id c) (sc_generation c) batch now (db_cache db)) (\<lambda>t.
        let db = db\<lparr>db_cache := t\<rparr> in
        if final then finish_sync c batch code now db else Inr ((), db)))))"

definition apply_event_sync_page ::
  "zonedb \<Rightarrow> artifact_cipher option \<Rightarrow> sync_claim \<Rightarrow> event_sync_batch \<Rightarrow> bool \<Rightarrow> instant \<Rightarrow> unit tx" where
  "apply_event_sync_page zdb cipher c batch final now db =
     (if \<not> valid_claim c then Inl (Sentinel ErrCalendarSyncLeaseLost)
      else bind_res (lock_calendar_sync_lease c now db) (\<lambda>(_, db).
        apply_event_sync_page_tx zdb cipher c batch final now db))"

end
