(* ===== verification/Event_Repair.thy ===== *)
theory Event_Repair
  imports Event_Pages
begin

text \<open>
  The rest of \<open>src/internal/storage/event_cache.go\<close>: the repair of quarantined objects with the
  operator's authorization, the diagnostics of the quarantine, the raw artifacts, the reads of the
  cache and the writes through it.  \<open>time.Now()\<close> of a query is a parameter.  A row of the cache
  implies the calendar's row (FOREIGN KEY), so the writes here need no check of it beyond the
  state row they look up.
\<close>

section \<open>The queue of repairs\<close>

definition list_due_event_sync_quarantine ::
  "sync_claim \<Rightarrow> instant \<Rightarrow> int \<Rightarrow> sync_db \<Rightarrow> quarantine_row list res" where
  "list_due_event_sync_quarantine c now limit db =
     (if \<not> valid_claim c then Inl (Sentinel ErrCalendarSyncLeaseLost)
      else if limit \<le> 0 then Inr []
      else Inr (take (nat limit) (sort_key (\<lambda>q. (qr_next_repair_at q, qr_object_id q))
             (filter (\<lambda>q. qr_calendar_id q = sc_calendar_id c \<and> qr_active q \<and> qr_next_repair_at q \<le> now)
               (ct_quarantine (db_cache db))))))"

definition repairable :: "string \<Rightarrow> string \<Rightarrow> string \<Rightarrow> quarantine_row \<Rightarrow> bool" where
  "repairable cal obj etag q \<longleftrightarrow> quarantine_at cal obj q \<and> qr_active q \<and> qr_etag q = etag"

definition authorize_repair :: "string \<Rightarrow> string \<Rightarrow> string \<Rightarrow> cache_tables \<Rightarrow> cache_tables" where
  "authorize_repair cal obj etag t = t\<lparr>ct_quarantine := update_rows (repairable cal obj etag)
     (\<lambda>q. q\<lparr>qr_authorized_etag := qr_etag q\<rparr>) (ct_quarantine t)\<rparr>"

definition due_later :: "string \<Rightarrow> string \<Rightarrow> string \<Rightarrow> instant \<Rightarrow> quarantine_row \<Rightarrow> bool" where
  "due_later cal obj etag now q \<longleftrightarrow> repairable cal obj etag q \<and> now < qr_next_repair_at q"

text \<open>The calendar is woken unless a worker holds it.\<close>

definition sleeping :: "string \<Rightarrow> instant \<Rightarrow> calendar_sync_state \<Rightarrow> bool" where
  "sleeping cal now r \<longleftrightarrow> ss_calendar_id r = cal \<and> now < ss_next_sync_at r \<and>
     (ss_lease_owner r = None \<or> unleased now r)"

definition schedule_event_sync_object_repair ::
  "string \<Rightarrow> string \<Rightarrow> string \<Rightarrow> instant \<Rightarrow> bool tx" where
  "schedule_event_sync_object_repair cal obj etag now db =
     (if cal = '''' \<or> obj = '''' \<or> etag = '''' then Inl (Sentinel ErrNotFound)
      else if count_rows (repairable cal obj etag) (ct_quarantine (db_cache db)) = 0
      then (if quarantined cal obj (db_cache db) then Inl (Sentinel ErrEventSyncRepairETagMismatch)
            else Inl (Sentinel ErrNotFound))
      else let t = authorize_repair cal obj etag (db_cache db);
               changed = count_rows (due_later cal obj etag now) (ct_quarantine t);
               t = t\<lparr>ct_quarantine := update_rows (due_later cal obj etag now)
                     (\<lambda>q. q\<lparr>qr_next_repair_at := now\<rparr>) (ct_quarantine t)\<rparr> in
        Inr (changed = 1, db\<lparr>db_cache := t, db_sync_states := update_rows (sleeping cal now)
               (\<lambda>r. r\<lparr>ss_next_sync_at := now, ss_updated_at := now\<rparr>) (db_sync_states db)\<rparr>))"

definition authorized :: "string \<Rightarrow> string \<Rightarrow> string \<Rightarrow> quarantine_row \<Rightarrow> bool" where
  "authorized cal obj etag q \<longleftrightarrow> repairable cal obj etag q \<and> qr_authorized_etag q = etag"

definition consume_event_sync_provider_mutation_authorization ::
  "sync_claim \<Rightarrow> string \<Rightarrow> string \<Rightarrow> string \<Rightarrow> instant \<Rightarrow> bool tx" where
  "consume_event_sync_provider_mutation_authorization c cal obj etag now db =
     (if \<not> valid_claim c \<or> sc_calendar_id c \<noteq> cal \<or> obj = '''' \<or> etag = ''''
      then Inl (Sentinel ErrCalendarSyncLeaseLost)
      else bind_res (lock_calendar_sync_lease c now db) (\<lambda>(_, db).
        let t = db_cache db; consumed = count_rows (authorized cal obj etag) (ct_quarantine t) in
        Inr (consumed = 1, db\<lparr>db_cache := t\<lparr>ct_quarantine := update_rows (authorized cal obj etag)
               (\<lambda>q. q\<lparr>qr_authorized_etag := ''''\<rparr>) (ct_quarantine t)\<rparr>\<rparr>)))"

section \<open>The outcome of a repair\<close>

datatype repair_outcome =
  ReplaceMembership | ProviderCorrected | AbsentFromProjection | ProviderDeleted | StillQuarantined
  | OtherOutcome string

record event_sync_repair_batch =
  rb_object_id :: string
  rb_etag :: string
  rb_outcome :: repair_outcome
  rb_upserts :: "cached_upsert list"
  rb_warning :: "sync_warning option"
  rb_next_repair_at :: "instant option"

definition foreign_member :: "string \<Rightarrow> cached_upsert \<Rightarrow> bool" where
  "foreign_member obj u \<longleftrightarrow> cu_source_object_id u \<noteq> '''' \<and> cu_source_object_id u \<noteq> obj"

definition repair_upsert ::
  "zonedb \<Rightarrow> string \<Rightarrow> string \<Rightarrow> int \<Rightarrow> instant \<Rightarrow> cached_upsert \<Rightarrow> cache_tables \<Rightarrow> cache_tables res" where
  "repair_upsert zdb cal obj generation now u t =
     upsert_cached_event zdb ((cu_event u)\<lparr>ev_calendar_id := cal\<rparr>) obj generation now t"

definition replace_membership ::
  "zonedb \<Rightarrow> string \<Rightarrow> int \<Rightarrow> event_sync_repair_batch \<Rightarrow> instant \<Rightarrow> cache_tables \<Rightarrow> cache_tables res" where
  "replace_membership zdb cal generation batch now t =
     (let obj = rb_object_id batch in
      if rb_upserts batch = [] then Inl (ErrText ''repair replacement requires event membership'')
      else if list_ex (foreign_member obj) (rb_upserts batch)
      then Inl (ErrText ''repair membership object does not match quarantine object'')
      else bind_res (fold_res (repair_upsert zdb cal obj generation now) (rb_upserts batch)
             (tombstone_missing_object_members cal obj (map (\<lambda>u. ev_id (cu_event u)) (rb_upserts batch))
               generation now t)) (\<lambda>t.
        Inr (clear_event_sync_quarantine cal obj (upsert_object cal obj (rb_etag batch) generation t))))"

definition record_correction :: "string \<Rightarrow> string \<Rightarrow> instant \<Rightarrow> cache_tables \<Rightarrow> cache_tables res" where
  "record_correction cal obj now t =
     (if list_ex (\<lambda>p. pc_calendar_id p = cal \<and> pc_object_id p = obj \<and> pc_corrected_at p = now) (ct_corrections t)
      then Inl unique_violation
      else Inr (t\<lparr>ct_corrections := ct_corrections t @ [\<lparr>pc_calendar_id = cal, pc_object_id = obj,
             pc_outcome = ''provider_corrected'', pc_corrected_at = now\<rparr>]\<rparr>))"

definition keep_quarantined ::
  "artifact_cipher option \<Rightarrow> string \<Rightarrow> event_sync_repair_batch \<Rightarrow> instant \<Rightarrow> cache_tables \<Rightarrow> cache_tables res" where
  "keep_quarantined cipher cal batch now t =
     (case rb_warning batch of
        None \<Rightarrow> Inl (ErrText ''repair quarantine result requires matching protocol warning'')
      | Some w \<Rightarrow>
          if sw_object_id w \<noteq> rb_object_id batch \<or> sw_error_code w \<noteq> protocol_code
          then Inl (ErrText ''repair quarantine result requires matching protocol warning'')
          else bind_res (upsert_event_sync_warning cipher cal w now t) (\<lambda>t.
            case rb_next_repair_at batch of
              None \<Rightarrow> Inr t
            | Some next_at \<Rightarrow> Inr (t\<lparr>ct_quarantine := update_rows
                (\<lambda>q. quarantine_at cal (rb_object_id batch) q \<and> qr_active q)
                (\<lambda>q. q\<lparr>qr_next_repair_at := next_at, qr_repair_attempts := qr_repair_attempts q + 1\<rparr>)
                (ct_quarantine t)\<rparr>)))"

definition repair_changes ::
  "zonedb \<Rightarrow> artifact_cipher option \<Rightarrow> string \<Rightarrow> int \<Rightarrow> event_sync_repair_batch \<Rightarrow> instant \<Rightarrow> cache_tables \<Rightarrow>
   cache_tables res" where
  "repair_changes zdb cipher cal generation batch now t =
     (let obj = rb_object_id batch in
      case rb_outcome batch of
        ReplaceMembership \<Rightarrow> replace_membership zdb cal generation batch now t
      | ProviderCorrected \<Rightarrow>
          bind_res (replace_membership zdb cal generation batch now t) (record_correction cal obj now)
      | AbsentFromProjection \<Rightarrow> Inr (apply_object_deletion cal generation now obj t)
      | ProviderDeleted \<Rightarrow> Inr (apply_object_deletion cal generation now obj t)
      | StillQuarantined \<Rightarrow> keep_quarantined cipher cal batch now t
      | OtherOutcome _ \<Rightarrow> Inl (ErrText ''unknown event sync repair outcome''))"

definition apply_event_sync_object_repair ::
  "zonedb \<Rightarrow> artifact_cipher option \<Rightarrow> sync_claim \<Rightarrow> event_sync_repair_batch \<Rightarrow> instant \<Rightarrow> unit tx" where
  "apply_event_sync_object_repair zdb cipher c batch now db =
     (if \<not> valid_claim c \<or> rb_object_id batch = '''' then Inl (Sentinel ErrCalendarSyncLeaseLost)
      else bind_res (lock_calendar_sync_lease c now db) (\<lambda>(_, db).
        bind_res (repair_changes zdb cipher (sc_calendar_id c) (sc_generation c) batch now (db_cache db)) (\<lambda>t.
          Inr ((), db\<lparr>db_cache := t\<rparr>))))"

section \<open>Writes through the cache\<close>

definition select_sync_state :: "string \<Rightarrow> sync_db \<Rightarrow> sync_claim res" where
  "select_sync_state cal db = (case find (\<lambda>r. ss_calendar_id r = cal) (db_sync_states db) of
       None \<Rightarrow> Inl (Sentinel ErrNotFound)
     | Some r \<Rightarrow> Inr (scan_calendar_sync_state r))"

definition store_upsert_cached_event :: "zonedb \<Rightarrow> event_v2 \<Rightarrow> instant \<Rightarrow> unit tx" where
  "store_upsert_cached_event zdb event syncedAt db =
     (if ev_calendar_id event = '''' then Inl (ErrText ''cached event calendar ID is required'')
      else bind_res (select_sync_state (ev_calendar_id event) db) (\<lambda>state.
        bind_res (upsert_cached_event zdb event (ev_id event) (sc_generation state) syncedAt (db_cache db)) (\<lambda>t.
          Inr ((), db\<lparr>db_cache := t\<rparr>))))"

definition store_delete_cached_event :: "string \<Rightarrow> string \<Rightarrow> instant \<Rightarrow> unit tx" where
  "store_delete_cached_event cal i syncedAt db =
     (if cal = '''' \<or> i = '''' then Inl (ErrText ''cached event reference requires calendar and event IDs'')
      else bind_res (select_sync_state cal db) (\<lambda>state.
        Inr ((), db\<lparr>db_cache := tombstone_cached_event cal i (sc_generation state) syncedAt (db_cache db)\<rparr>)))"
section \<open>Reads\<close>

text \<open>The columns of \<open>ORDER BY e.start_at IS NULL, e.start_at, e.start_date, e.event_id\<close>.\<close>

definition null_last :: "instant option \<Rightarrow> bool \<times> instant" where
  "null_last c = (case c of None \<Rightarrow> (True, 0) | Some t \<Rightarrow> (False, t))"

definition null_first :: "string option \<Rightarrow> bool \<times> string" where
  "null_first c = (case c of None \<Rightarrow> (False, '''') | Some d \<Rightarrow> (True, d))"

definition cached_row_key :: "cached_row \<Rightarrow> (bool \<times> instant) \<times> (bool \<times> string) \<times> string" where
  "cached_row_key r = (null_last (ce_start_at r), null_first (ce_start_date r), ce_event_id r)"

definition day_nanos :: instant where "day_nanos = 86400 * nanos"

text \<open>The first date that no all-day event of the range may start on.\<close>

definition all_day_end :: "instant \<Rightarrow> string" where
  "all_day_end end_at = format_date_in utc_zone (if end_at mod day_nanos = 0 then end_at else end_at + day_nanos)"

definition overlaps_range :: "instant \<Rightarrow> instant \<Rightarrow> cached_row \<Rightarrow> bool" where
  "overlaps_range start_at end_at r \<longleftrightarrow>
     (case (ce_start_at r, ce_end_at r) of
        (Some s, Some e) \<Rightarrow> s < end_at \<and> start_at < e
      | _ \<Rightarrow> False) \<or>
     (case (ce_start_date r, ce_end_date r) of
        (Some s, Some e) \<Rightarrow> s < all_day_end end_at \<and> format_date_in utc_zone start_at < e
      | _ \<Rightarrow> False)"

record cached_source_status =
  cs_provider :: string
  cs_calendar_id :: string
  cs_status :: string
  cs_error_code :: string
  cs_last_success_at :: "instant option"
  cs_next_sync_at :: instant
  cs_window_start :: instant
  cs_window_end :: instant
  cs_stale :: bool

definition source_status_of :: "instant \<Rightarrow> string \<Rightarrow> calendar_sync_state \<Rightarrow> cached_source_status" where
  "source_status_of now provider r = \<lparr>cs_provider = provider, cs_calendar_id = ss_calendar_id r,
     cs_status = ss_status r, cs_error_code = column (ss_last_error_code r),
     cs_last_success_at = ss_last_success_at r, cs_next_sync_at = ss_next_sync_at r,
     cs_window_start = ss_window_start r, cs_window_end = ss_window_end r,
     cs_stale = (ss_last_success_at r = None \<or> ss_next_sync_at r < now)\<rparr>"

text \<open>The events of the rows, but for series masters; a tombstone has no payload and is not listed.\<close>

definition cached_events_of :: "string list \<Rightarrow> instant \<Rightarrow> instant \<Rightarrow> sync_db \<Rightarrow> event_v2 list" where
  "cached_events_of ids start_at end_at db =
     filter (\<lambda>e. ev_instance_kind e \<noteq> ''seriesMaster'') (List.map_filter ce_payload
       (sort_key cached_row_key (filter (\<lambda>r. ce_calendar_id r \<in> set ids \<and> readable_source (ce_calendar_id r) db \<and>
          \<not> ce_deleted r \<and> overlaps_range start_at end_at r) (ct_events (db_cache db)))))"

definition source_statuses_of :: "instant \<Rightarrow> string list \<Rightarrow> sync_db \<Rightarrow> cached_source_status list" where
  "source_statuses_of now ids db = sort_key cs_calendar_id (List.map_filter (\<lambda>r.
     case source_connection (ss_calendar_id r) db of
       None \<Rightarrow> None
     | Some (_, n) \<Rightarrow> if ss_calendar_id r \<in> set ids \<and> readable_source (ss_calendar_id r) db
                    then Some (source_status_of now (cn_provider n) r) else None) (db_sync_states db))"

definition list_cached_events ::
  "instant \<Rightarrow> string list \<Rightarrow> instant \<Rightarrow> instant \<Rightarrow> sync_db \<Rightarrow> (event_v2 list \<times> cached_source_status list) res" where
  "list_cached_events now ids start_at end_at db =
     (if \<not> start_at < end_at then Inl (ErrText ''cached event range end must be after start'')
      else if ids = [] then Inr ([], [])
      else Inr (cached_events_of ids start_at end_at db, source_statuses_of now ids db))"

record raw_event_sync_artifact =
  ra_row :: artifact_row
  ra_raw_payload :: string

definition get_raw_event_sync_artifact ::
  "artifact_cipher option \<Rightarrow> string \<Rightarrow> string \<Rightarrow> string \<Rightarrow> instant \<Rightarrow> sync_db \<Rightarrow> raw_event_sync_artifact res" where
  "get_raw_event_sync_artifact cipher cal obj etag now db =
     (case cipher of
        None \<Rightarrow> Inl (Sentinel ErrNotFound)
      | Some cp \<Rightarrow>
          if cal = '''' \<or> obj = '''' \<or> etag = '''' then Inl (Sentinel ErrNotFound)
          else (case find (\<lambda>a. ar_calendar_id a = cal \<and> ar_object_id a = obj \<and> ar_etag a = etag \<and>
                  now < ar_expires_at a \<and> list_ex (repairable cal obj etag) (ct_quarantine (db_cache db)))
                (ct_artifacts (db_cache db)) of
              None \<Rightarrow> Inl (Sentinel ErrNotFound)
            | Some a \<Rightarrow> map_sum (ErrWrap ''decrypt raw event artifact'') (\<lambda>raw. \<lparr>ra_row = a, ra_raw_payload = raw\<rparr>)
                (ac_decrypt cp (ar_ciphertext a) (artifact_context cal obj (ar_etag a)))))"

definition delete_expired_raw_event_artifacts :: "instant \<Rightarrow> sync_db \<Rightarrow> sync_db" where
  "delete_expired_raw_event_artifacts now db =
     db\<lparr>db_cache := (db_cache db)\<lparr>ct_artifacts := filter (\<lambda>a. \<not> ar_expires_at a \<le> now)
          (ct_artifacts (db_cache db))\<rparr>\<rparr>"

section \<open>Diagnostics\<close>

text \<open>The artifact's metadata: its row without the ciphertext.\<close>

record event_sync_quarantine_diagnostic =
  qd_row :: quarantine_row
  qd_calendar_name :: string
  qd_provider :: string
  qd_sync_status :: string
  qd_last_success_at :: "instant option"
  qd_last_error_code :: string
  qd_artifact :: "artifact_row option"

definition diagnostic_of ::
  "instant \<Rightarrow> sync_db \<Rightarrow> quarantine_row \<Rightarrow> event_sync_quarantine_diagnostic option" where
  "diagnostic_of now db q = (case source_connection (qr_calendar_id q) db of
       None \<Rightarrow> None
     | Some (c, n) \<Rightarrow>
         let s = find (\<lambda>r. ss_calendar_id r = qr_calendar_id q) (db_sync_states db);
             a = find (\<lambda>a. ar_calendar_id a = qr_calendar_id q \<and> ar_object_id a = qr_object_id q \<and>
                   ar_etag a = qr_etag q \<and> now < ar_expires_at a) (ct_artifacts (db_cache db)) in
         Some \<lparr>qd_row = q\<lparr>qr_authorized_etag := ''''\<rparr>, qd_calendar_name = cl_name c, qd_provider = cn_provider n,
               qd_sync_status = (case s of None \<Rightarrow> '''' | Some r \<Rightarrow> ss_status r),
               qd_last_success_at = Option.bind s ss_last_success_at,
               qd_last_error_code = (case s of None \<Rightarrow> '''' | Some r \<Rightarrow> column (ss_last_error_code r)),
               qd_artifact = map_option (\<lambda>a. a\<lparr>ar_ciphertext := ''''\<rparr>) a\<rparr>)"

definition list_active_event_sync_quarantine_diagnostics ::
  "instant \<Rightarrow> int \<Rightarrow> int \<Rightarrow> sync_db \<Rightarrow> event_sync_quarantine_diagnostic list res" where
  "list_active_event_sync_quarantine_diagnostics now limit offset db =
     (if limit \<le> 0 then Inr []
      else if offset < 0 then Inl (ErrText ''event sync quarantine offset must not be negative'')
      else Inr (take (nat limit) (drop (nat offset) (List.map_filter (diagnostic_of now db)
             (sort_key (\<lambda>q. (- qr_last_seen_at q, qr_calendar_id q, qr_object_id q))
               (filter qr_active (ct_quarantine (db_cache db))))))))"

definition get_active_event_sync_quarantine_diagnostic ::
  "string \<Rightarrow> string \<Rightarrow> instant \<Rightarrow> sync_db \<Rightarrow> event_sync_quarantine_diagnostic res" where
  "get_active_event_sync_quarantine_diagnostic cal obj now db =
     (if cal = '''' \<or> obj = '''' then Inl (Sentinel ErrNotFound)
      else case find (\<lambda>q. quarantine_at cal obj q \<and> qr_active q) (ct_quarantine (db_cache db)) of
          None \<Rightarrow> Inl (Sentinel ErrNotFound)
        | Some q \<Rightarrow> (case diagnostic_of now db q of None \<Rightarrow> Inl (Sentinel ErrNotFound) | Some d \<Rightarrow> Inr d))"

text \<open>A correction with the name of its calendar and the provider of its connection.\<close>

definition list_recent_event_sync_provider_corrections ::
  "int \<Rightarrow> sync_db \<Rightarrow> (correction_row \<times> string \<times> string) list" where
  "list_recent_event_sync_provider_corrections limit db =
     (if limit \<le> 0 then []
      else take (nat limit) (List.map_filter (\<lambda>p. map_option (\<lambda>(c, n). (p, cl_name c, cn_provider n))
             (source_connection (pc_calendar_id p) db))
           (sort_key (\<lambda>p. (- pc_corrected_at p, pc_calendar_id p, pc_object_id p)) (ct_corrections (db_cache db)))))"

end
