(* ===== verification/Event_View.thy ===== *)
theory Event_View
  imports Event_Repair
begin

text \<open>
  What the read model promises.  The contents of a calendar are a map from event identifiers to
  the object and the event, of the rows that are not tombstones; a page is a map transformation
  (\<open>page_effect\<close>), the tables implement it, and a full synchronization leaves exactly the effect
  of its own pages, whatever the cache held before.
\<close>

section \<open>The contents of a calendar\<close>

type_synonym contents = "string \<Rightarrow> (string \<times> event_v2) option"

text \<open>The rows of the generations \<open>Q\<close>.\<close>

definition shown :: "(int \<Rightarrow> bool) \<Rightarrow> cached_row \<Rightarrow> (string \<times> event_v2) option" where
  "shown Q r = (if ce_deleted r \<or> \<not> Q (ce_sync_generation r) then None
     else map_option (Pair (ce_source_object_id r)) (ce_payload r))"

definition cached :: "(int \<Rightarrow> bool) \<Rightarrow> string \<Rightarrow> cache_tables \<Rightarrow> contents" where
  "cached Q cal t i = Option.bind (find (event_at cal i) (ct_events t)) (shown Q)"

abbreviation whole :: "string \<Rightarrow> cache_tables \<Rightarrow> contents" where
  "whole \<equiv> cached (\<lambda>_. True)"

definition cached_key :: "cached_row \<Rightarrow> string \<times> string" where
  "cached_key r = (ce_calendar_id r, ce_event_id r)"

definition cache_keys :: "cache_tables \<Rightarrow> bool" where
  "cache_keys t \<longleftrightarrow> distinct (map cached_key (ct_events t)) \<and>
     distinct (map (\<lambda>x. (ob_calendar_id x, ob_object_id x)) (ct_objects t)) \<and>
     distinct (map (\<lambda>q. (qr_calendar_id q, qr_object_id q)) (ct_quarantine t)) \<and>
     distinct (map (\<lambda>a. (ar_calendar_id a, ar_object_id a)) (ct_artifacts t)) \<and>
     distinct (map (\<lambda>p. (pc_calendar_id p, pc_object_id p, pc_corrected_at p)) (ct_corrections t))"

section \<open>The abstract page\<close>

definition drop_missing :: "string \<Rightarrow> string list \<Rightarrow> contents \<Rightarrow> contents" where
  "drop_missing obj members V i = (case V i of None \<Rightarrow> None
     | Some x \<Rightarrow> if fst x = obj \<and> i \<notin> set members then None else Some x)"

definition members_in :: "string \<Rightarrow> event_sync_batch \<Rightarrow> string \<Rightarrow> string list" where
  "members_in cal batch obj = map (\<lambda>u. ev_id (placed_event cal u)) (filter (\<lambda>u. owning_object u = obj) (eb_upserts batch))"

definition put_event :: "string \<Rightarrow> cached_upsert \<Rightarrow> contents \<Rightarrow> contents" where
  "put_event cal u V = V(ev_id (cu_event u) \<mapsto> (owning_object u, stored_event (placed_event cal u)))"

definition drop_event :: "string \<Rightarrow> contents \<Rightarrow> contents" where
  "drop_event i V = V(i := None)"

definition drop_object :: "string \<Rightarrow> contents \<Rightarrow> contents" where
  "drop_object obj = drop_missing obj []"

definition page_effect :: "string \<Rightarrow> event_sync_batch \<Rightarrow> contents \<Rightarrow> contents" where
  "page_effect cal batch V =
     fold drop_object (eb_deleted_object_ids batch)
      (fold drop_event (eb_deleted_event_ids batch)
       (fold (put_event cal) (eb_upserts batch)
        (fold (\<lambda>obj. drop_missing obj (members_in cal batch obj)) (eb_replaced_object_ids batch) V)))"

section \<open>Rows under an upsert\<close>

lemma upsert_row_keys:
  assumes "distinct (map k rows)" and "\<And>r. P r \<longleftrightarrow> k r = k new" and "\<And>r. P r \<Longrightarrow> k (f r) = k r"
  shows "distinct (map k (upsert_row P new f rows))"
proof (cases "list_ex P rows")
  case True
  have "map k (update_rows P f rows) = map k rows" by (rule map_update_rows) (rule assms(3))
  with True assms(1) show ?thesis by (simp add: upsert_row_def)
next
  case False
  then have "k new \<notin> k ` set rows" using assms(2) by (auto simp: list_ex_iff)
  with False assms(1) show ?thesis by (simp add: upsert_row_def)
qed

lemma update_rows_keys:
  "distinct (map k rows) \<Longrightarrow> (\<And>r. k (f r) = k r) \<Longrightarrow> distinct (map k (update_rows P f rows))"
  by (simp add: map_update_rows)

lemma filter_keys: "distinct (map k rows) \<Longrightarrow> distinct (map k (filter P rows))"
  by (rule distinct_map_filter)

lemma find_update_rows:
  "(\<And>r. P r \<Longrightarrow> R (f r) = R r) \<Longrightarrow>
   find R (update_rows P f rows) = map_option (\<lambda>r. if P r then f r else r) (find R rows)"
  by (induction rows) auto

lemma find_append: "find P (xs @ ys) = (case find P xs of None \<Rightarrow> find P ys | Some x \<Rightarrow> Some x)"
  by (induction xs) auto

lemma find_None_list_ex: "find P xs = None \<longleftrightarrow> \<not> list_ex P xs"
  by (induction xs) auto

text \<open>The row of a key, when keys are unique.\<close>

lemma find_key:
  "distinct (map k rows) \<Longrightarrow> r \<in> set rows \<Longrightarrow> find (\<lambda>q. k q = k r) rows = Some r"
  by (induction rows) (auto simp: image_iff)

lemma find_filter_key:
  "distinct (map k rows) \<Longrightarrow>
   find (\<lambda>q. k q = x) (filter P rows) =
     (case find (\<lambda>q. k q = x) rows of None \<Rightarrow> None | Some r \<Rightarrow> if P r then Some r else None)"
proof (induction rows)
  case (Cons r rows)
  have "find (\<lambda>q. k q = x) (filter P rows) = None" if "k r = x"
    using Cons.prems that by (simp add: find_None_iff image_iff) blast
  with Cons show ?case by simp
qed simp

lemma event_at_key: "event_at cal i r \<longleftrightarrow> cached_key r = (cal, i)"
  by (auto simp: event_at_def cached_key_def)

lemma event_at_bury [simp]: "event_at cal i (bury g s r) = event_at cal i r"
  and cached_key_bury [simp]: "cached_key (bury g s r) = cached_key r"
  by (simp_all add: event_at_def cached_key_def bury_def)

lemma shown_bury [simp]: "shown Q (bury g s r) = None"
  by (simp add: shown_def bury_def)

lemma event_at_fun: "event_at cal i = (\<lambda>r. cached_key r = (cal, i))"
  by (rule ext) (rule event_at_key)

lemma cached_events_only: "ct_events t' = ct_events t \<Longrightarrow> cached Q cal t' = cached Q cal t"
  by (rule ext) (simp add: cached_def)

section \<open>Each change on the contents\<close>

lemma cached_upsert_row:
  assumes "\<And>r. event_at cal i r \<Longrightarrow> event_at cal i (f r)" "event_at cal i new"
    and "\<And>r. shown Q (f r) = v" "shown Q new = v"
  shows "cached Q cal' (t\<lparr>ct_events := upsert_row (event_at cal i) new f (ct_events t)\<rparr>) =
         (if cal' = cal then (cached Q cal t)(i := v) else cached Q cal' t)" (is "cached Q cal' ?t = _")
proof (rule ext)
  fix j
  have same: "event_at cal' j (f r) = event_at cal' j r" if "event_at cal i r" for r
    using assms(1) [OF that] that by (auto simp: event_at_def)
  have new: "event_at cal' j new \<longleftrightarrow> cal' = cal \<and> j = i" using assms(2) by (auto simp: event_at_def)
  show "cached Q cal' ?t j = (if cal' = cal then (cached Q cal t)(i := v) else cached Q cal' t) j"
  proof (cases "list_ex (event_at cal i) (ct_events t)")
    case True
    have "cached Q cal' ?t j =
        Option.bind (map_option (\<lambda>r. if event_at cal i r then f r else r) (find (event_at cal' j) (ct_events t))) (shown Q)"
      using True find_update_rows [where P = "event_at cal i" and R = "event_at cal' j" and f = f, OF same]
      by (simp add: cached_def upsert_row_def)
    also have "\<dots> = (if cal' = cal then (cached Q cal t)(i := v) else cached Q cal' t) j"
    proof (cases "find (event_at cal' j) (ct_events t)")
      case None
      then have "\<not> (cal' = cal \<and> j = i)" using True by (auto simp: find_None_list_ex)
      with None show ?thesis by (auto simp: cached_def)
    next
      case (Some r)
      then have "event_at cal' j r" by (metis find_Some_iff)
      then have "event_at cal i r \<longleftrightarrow> cal' = cal \<and> j = i" by (auto simp: event_at_def)
      with Some show ?thesis by (auto simp: cached_def assms(3))
    qed
    finally show ?thesis .
  next
    case False
    then have none: "find (event_at cal i) (ct_events t) = None" by (simp add: find_None_list_ex)
    have "cached Q cal' ?t j = (case find (event_at cal' j) (ct_events t) of
        None \<Rightarrow> (if cal' = cal \<and> j = i then v else None) | Some r \<Rightarrow> shown Q r)"
      using False assms(2) by (simp add: cached_def upsert_row_def find_append new assms(4) split: option.split)
    with none show ?thesis by (auto simp: cached_def split: option.split)
  qed
qed

lemma cached_row_of_Inr:
  assumes "cached_row_of zdb event obj g s = Inr row"
  shows "ce_calendar_id row = ev_calendar_id event \<and> ce_event_id row = ev_id event \<and> ev_id event \<noteq> '''' \<and>
    ce_source_object_id row = obj \<and> ce_payload row = Some (stored_event event) \<and> \<not> ce_deleted row \<and>
    ce_sync_generation row = g"
  using assms by (auto simp: cached_row_of_def Let_def bind_res_Inr_iff split: if_splits)

lemma upsert_cached_event_contents:
  assumes "upsert_cached_event zdb event obj g s t = Inr t'" "Q g"
  shows "cached Q cal t' = (if cal = ev_calendar_id event
      then (cached Q cal t)(ev_id event \<mapsto> (obj, stored_event event)) else cached Q cal t)"
proof -
  obtain row where row: "cached_row_of zdb event obj g s = Inr row"
    and t': "t' = t\<lparr>ct_events := upsert_row (event_at (ev_calendar_id event) (ev_id event)) row (\<lambda>_. row) (ct_events t)\<rparr>"
    using assms(1) by (auto simp: upsert_cached_event_def bind_res_Inr_iff)
  note r = cached_row_of_Inr [OF row]
  have "event_at (ev_calendar_id event) (ev_id event) row" using r by (simp add: event_at_def)
  moreover have "shown Q row = Some (obj, stored_event event)" using r assms(2) by (simp add: shown_def)
  ultimately show ?thesis unfolding t' by (subst cached_upsert_row) auto
qed

lemma tombstone_contents:
  "cached Q cal' (tombstone_cached_event cal i g s t) =
     (if cal' = cal then drop_event i (cached Q cal t) else cached Q cal' t)"
  unfolding tombstone_cached_event_def drop_event_def
  by (rule cached_upsert_row) (simp_all add: event_at_def bury_def shown_def)

lemma fold_drop_event: "fold drop_event is V = (\<lambda>i. if i \<in> set is then None else V i)"
  by (induction "is" arbitrary: V) (auto simp: drop_event_def fun_eq_iff)

lemma fold_tombstone_contents:
  "cached Q cal' (fold (\<lambda>i t. tombstone_cached_event cal i g s t) is t) =
     (if cal' = cal then fold drop_event is (cached Q cal t) else cached Q cal' t)"
  by (induction "is" arbitrary: t) (simp_all add: tombstone_contents)

lemma find_event_at_id: "find (event_at cal i) rows = Some r \<Longrightarrow> ce_calendar_id r = cal \<and> ce_event_id r = i \<and> r \<in> set rows"
  by (auto simp: find_Some_iff event_at_def)

lemma tombstone_missing_contents:
  assumes "cache_keys t"
  shows "cached Q cal' (tombstone_missing_object_members cal obj members g s t) =
     (if cal' = cal then drop_missing obj members (cached Q cal t) else cached Q cal' t)"
proof -
  let ?ids = "filter (\<lambda>i. i \<notin> set members) (map ce_event_id (filter (member_of cal obj) (ct_events t)))"
  have keys: "distinct (map cached_key (ct_events t))" using assms by (simp add: cache_keys_def)
  have "fold drop_event ?ids (cached Q cal t) i = drop_missing obj members (cached Q cal t) i" for i
  proof (cases "find (event_at cal i) (ct_events t)")
    case None
    then show ?thesis by (simp add: fold_drop_event drop_missing_def cached_def)
  next
    case (Some r)
    have r: "ce_calendar_id r = cal" "ce_event_id r = i" "r \<in> set (ct_events t)"
      using find_event_at_id [OF Some] by auto
    have only: "q = r" if "q \<in> set (ct_events t)" "ce_calendar_id q = cal" "ce_event_id q = i" for q
      using find_key [OF keys that(1)] Some that by (simp add: event_at_fun cached_key_def)
    have "i \<in> ce_event_id ` {q \<in> set (ct_events t). member_of cal obj q} \<longleftrightarrow> member_of cal obj r"
    proof
      assume "i \<in> ce_event_id ` {q \<in> set (ct_events t). member_of cal obj q}"
      then obtain q where "q \<in> set (ct_events t)" "member_of cal obj q" "ce_event_id q = i" by blast
      with only show "member_of cal obj r" unfolding member_of_def by blast
    qed (use r in blast)
    then have "i \<in> set ?ids \<longleftrightarrow> i \<notin> set members \<and> member_of cal obj r" by simp blast
    moreover have "drop_missing obj members (cached Q cal t) i =
        (if ce_source_object_id r = obj \<and> i \<notin> set members then None else shown Q r)"
      by (simp add: drop_missing_def cached_def Some shown_def split: option.split)
    moreover have "cached Q cal t i = shown Q r" by (simp add: cached_def Some)
    moreover have "shown Q r = None" if "ce_deleted r" using that by (simp add: shown_def)
    ultimately show ?thesis using r by (simp add: fold_drop_event member_of_def)
  qed
  then show ?thesis
    unfolding tombstone_missing_object_members_def fold_tombstone_contents by (auto simp: fun_eq_iff)
qed

lemma bury_object_contents:
  "cached Q cal' (bury_object cal obj g s t) =
     (if cal' = cal then drop_object obj (cached Q cal t) else cached Q cal' t)"
proof (rule ext)
  fix i
  have "find (event_at cal' i) (update_rows (member_of cal obj) (bury g s) (ct_events t)) =
      map_option (\<lambda>r. if member_of cal obj r then bury g s r else r) (find (event_at cal' i) (ct_events t))"
    by (rule find_update_rows) simp
  moreover have "cached Q cal' (bury_object cal obj g s t) i =
      Option.bind (find (event_at cal' i) (update_rows (member_of cal obj) (bury g s) (ct_events t))) (shown Q)"
    by (simp add: cached_def bury_object_def)
  moreover have "shown Q (if member_of cal obj r then bury g s r else r) =
      (if cal' = cal then (case shown Q r of None \<Rightarrow> None | Some x \<Rightarrow> if fst x = obj then None else Some x)
       else shown Q r)" if "ce_calendar_id r = cal'" for r
    using that by (auto simp: shown_def member_of_def bury_def split: option.split)
  ultimately show "cached Q cal' (bury_object cal obj g s t) i =
      (if cal' = cal then drop_object obj (cached Q cal t) else cached Q cal' t) i"
    by (cases "find (event_at cal' i) (ct_events t)"; cases "cal' = cal")
      (simp_all add: cached_def drop_object_def drop_missing_def find_event_at_id split: option.split)
qed

section \<open>Changes\<close>

text \<open>
  A change of one calendar under a generation: it keeps the primary keys, has the effect \<open>E\<close> on
  the contents of that calendar and none on the others, and every row it writes bears the
  generation.
\<close>

definition change :: "string \<Rightarrow> int \<Rightarrow> (contents \<Rightarrow> contents) \<Rightarrow> cache_tables \<Rightarrow> cache_tables \<Rightarrow> bool" where
  "change cal g E t t' \<longleftrightarrow> (cache_keys t \<longrightarrow> cache_keys t' \<and>
     (\<forall>Q cal'. Q g \<longrightarrow> cached Q cal' t' = (if cal' = cal then E (cached Q cal t) else cached Q cal' t)) \<and>
     (\<forall>r \<in> set (ct_events t'). r \<in> set (ct_events t) \<or> (ce_calendar_id r = cal \<and> ce_sync_generation r = g)))"

named_theorems changes

lemma change_keys: "change cal g E t t' \<Longrightarrow> cache_keys t \<Longrightarrow> cache_keys t'"
  and change_contents: "change cal g E t t' \<Longrightarrow> cache_keys t \<Longrightarrow> Q g \<Longrightarrow> cached Q cal t' = E (cached Q cal t)"
  and change_other: "change cal g E t t' \<Longrightarrow> cache_keys t \<Longrightarrow> cal' \<noteq> cal \<Longrightarrow> whole cal' t' = whole cal' t"
  unfolding change_def by simp_all

lemma change_rows: "change cal g E t t' \<Longrightarrow> cache_keys t \<Longrightarrow> r \<in> set (ct_events t') \<Longrightarrow>
    r \<in> set (ct_events t) \<or> (ce_calendar_id r = cal \<and> ce_sync_generation r = g)"
  unfolding change_def by blast

lemma changeI:
  assumes "cache_keys t \<Longrightarrow> cache_keys t'"
    and "\<And>Q cal'. cache_keys t \<Longrightarrow> Q g \<Longrightarrow> cached Q cal' t' = (if cal' = cal then E (cached Q cal t) else cached Q cal' t)"
    and "\<And>r. cache_keys t \<Longrightarrow> r \<in> set (ct_events t') \<Longrightarrow> r \<in> set (ct_events t) \<or> (ce_calendar_id r = cal \<and> ce_sync_generation r = g)"
  shows "change cal g E t t'"
  unfolding change_def using assms by blast

lemma change_none: "ct_events t' = ct_events t \<Longrightarrow> (cache_keys t \<Longrightarrow> cache_keys t') \<Longrightarrow> change cal g (\<lambda>V. V) t t'"
  by (rule changeI) (simp_all add: cached_events_only [of t' t])

lemma change_id: "change cal g (\<lambda>V. V) t t"
  by (rule change_none) simp_all

lemma change_trans:
  assumes "change cal g E t u" "change cal g E' u t'"
  shows "change cal g (\<lambda>V. E' (E V)) t t'"
proof (rule changeI)
  assume keys: "cache_keys t"
  note keys' = change_keys [OF assms(1) keys]
  show "cache_keys t'" by (rule change_keys [OF assms(2) keys'])
  show "cached Q cal' t' = (if cal' = cal then E' (E (cached Q cal t)) else cached Q cal' t)" if "Q g" for Q cal'
    using assms keys keys' that unfolding change_def by simp
  show "r \<in> set (ct_events t) \<or> (ce_calendar_id r = cal \<and> ce_sync_generation r = g)" if "r \<in> set (ct_events t')" for r
    using change_rows [OF assms(2) keys' that] change_rows [OF assms(1) keys] by blast
qed

lemma change_fold:
  "(\<And>x t. change cal g (E x) t (f x t)) \<Longrightarrow> change cal g (fold E xs) t (fold f xs t)"
proof (induction xs arbitrary: t)
  case Nil
  then show ?case by (simp add: change_id id_def)
next
  case (Cons x xs)
  from change_trans [OF Cons.prems Cons.IH [OF Cons.prems], of x t] show ?case by (simp add: o_def)
qed

lemma change_fold_res:
  assumes "fold_res f xs t = Inr t'" and "\<And>x t t'. x \<in> set xs \<Longrightarrow> f x t = Inr t' \<Longrightarrow> change cal g (E x) t t'"
  shows "change cal g (fold E xs) t t'"
  using assms
proof (induction xs arbitrary: t)
  case Nil
  then show ?case by (simp add: change_id id_def)
next
  case (Cons x xs)
  from Cons.prems(1) obtain u where u: "f x t = Inr u" "fold_res f xs u = Inr t'"
    by (auto split: sum.splits)
  have "change cal g (fold E xs) u t'" by (rule Cons.IH [OF u(2)]) (rule Cons.prems(2), simp_all)
  from change_trans [OF Cons.prems(2) [OF _ u(1)] this] show ?case by (simp add: o_def)
qed

lemma change_cong: "change cal g E t t' \<Longrightarrow> E = E' \<Longrightarrow> change cal g E' t t'"
  by simp

lemma cache_keys_events:
  "cache_keys t \<Longrightarrow> distinct (map cached_key rows) \<Longrightarrow> cache_keys (t\<lparr>ct_events := rows\<rparr>)"
  by (simp add: cache_keys_def)

lemma upsert_row_rows:
  "r \<in> set (upsert_row P new f rows) \<Longrightarrow> r \<in> set rows \<or> r = new \<or> (\<exists>q \<in> set rows. P q \<and> r = f q)"
  unfolding upsert_row_def by (auto simp: set_update_rows split: if_splits)

lemma change_upsert [changes]:
  assumes "upsert_cached_event zdb event obj g s t = Inr t'" "ev_calendar_id event = cal"
  shows "change cal g (\<lambda>V. V(ev_id event \<mapsto> (obj, stored_event event))) t t'"
proof -
  obtain row where row: "cached_row_of zdb event obj g s = Inr row"
    and t': "t' = t\<lparr>ct_events := upsert_row (event_at cal (ev_id event)) row (\<lambda>_. row) (ct_events t)\<rparr>"
    using assms by (auto simp: upsert_cached_event_def bind_res_Inr_iff)
  note r = cached_row_of_Inr [OF row]
  show ?thesis
  proof (rule changeI)
    show "cache_keys t'" if keys: "cache_keys t"
      unfolding t' by (rule cache_keys_events [OF keys], rule upsert_row_keys)
        (use keys r assms(2) in \<open>simp_all add: cache_keys_def event_at_key cached_key_def\<close>)
    show "cached Q cal' t' = (if cal' = cal then (cached Q cal t)(ev_id event \<mapsto> (obj, stored_event event)) else cached Q cal' t)"
      if "Q g" for Q cal'
      using upsert_cached_event_contents [where Q = Q and g = g and cal = cal', OF assms(1) that] assms(2) by simp
    show "x \<in> set (ct_events t) \<or> (ce_calendar_id x = cal \<and> ce_sync_generation x = g)" if "x \<in> set (ct_events t')" for x
      using upsert_row_rows [of x "event_at cal (ev_id event)" row "\<lambda>_. row" "ct_events t"] that r assms(2)
      unfolding t' by auto
  qed
qed

lemma change_tombstone [changes]: "change cal g (drop_event i) t (tombstone_cached_event cal i g s t)"
proof (rule changeI)
  show "cache_keys (tombstone_cached_event cal i g s t)" if keys: "cache_keys t"
    unfolding tombstone_cached_event_def by (rule cache_keys_events [OF keys], rule upsert_row_keys)
      (use keys in \<open>simp_all add: cache_keys_def event_at_key cached_key_def bury_def\<close>)
  show "cached Q cal' (tombstone_cached_event cal i g s t) =
      (if cal' = cal then drop_event i (cached Q cal t) else cached Q cal' t)" for Q cal'
    by (rule tombstone_contents)
  show "r \<in> set (ct_events t) \<or> (ce_calendar_id r = cal \<and> ce_sync_generation r = g)"
    if "r \<in> set (ct_events (tombstone_cached_event cal i g s t))" for r
    using that unfolding tombstone_cached_event_def
    by (auto dest!: upsert_row_rows simp: bury_def event_at_def)
qed

lemma change_tombstone_missing [changes]:
  "change cal g (drop_missing obj members) t (tombstone_missing_object_members cal obj members g s t)"
proof -
  let ?t = "tombstone_missing_object_members cal obj members g s t"
  have fold: "change cal g (fold drop_event is) t (fold (\<lambda>i t. tombstone_cached_event cal i g s t) is t)" for "is"
    by (rule change_fold) (rule change_tombstone)
  show ?thesis
  proof (rule changeI)
    show "cached Q cal' ?t = (if cal' = cal then drop_missing obj members (cached Q cal t) else cached Q cal' t)"
      if "cache_keys t" for Q cal'
      by (rule tombstone_missing_contents [OF that])
  qed (use fold in \<open>auto simp: tombstone_missing_object_members_def dest: change_keys change_rows\<close>)
qed

lemma change_bury_object [changes]: "change cal g (drop_object obj) t (bury_object cal obj g s t)"
proof (rule changeI)
  show "cached Q cal' (bury_object cal obj g s t) = (if cal' = cal then drop_object obj (cached Q cal t) else cached Q cal' t)"
    for Q cal' by (rule bury_object_contents)
  show "cache_keys (bury_object cal obj g s t)" if "cache_keys t"
    using that by (simp add: cache_keys_def bury_object_def update_rows_keys filter_keys)
  show "r \<in> set (ct_events t) \<or> (ce_calendar_id r = cal \<and> ce_sync_generation r = g)"
    if "r \<in> set (ct_events (bury_object cal obj g s t))" for r
    using that by (auto simp: bury_object_def set_update_rows bury_def member_of_def split: if_splits)
qed

lemma change_clear_quarantine [changes]: "change cal g (\<lambda>V. V) t (clear_event_sync_quarantine cal' obj t)"
  by (rule change_none) (auto simp: clear_event_sync_quarantine_def cache_keys_def map_update_rows)

lemma change_object [changes]: "change cal g (\<lambda>V. V) t (upsert_object cal' obj etag g' t)"
proof (rule change_none)
  show "cache_keys (upsert_object cal' obj etag g' t)" if "cache_keys t"
  proof -
    have "distinct (map (\<lambda>x. (ob_calendar_id x, ob_object_id x)) (ct_objects (upsert_object cal' obj etag g' t)))"
      using that unfolding upsert_object_def cache_keys_def
      by simp (rule upsert_row_keys, auto)
    with that show ?thesis by (simp add: cache_keys_def upsert_object_def)
  qed
qed (simp add: upsert_object_def)

lemma change_artifact:
  assumes "upsert_raw_event_artifact cipher cal' obj etag d now t = Inr t'"
  shows "change cal g (\<lambda>V. V) t t'"
proof -
  obtain row where row: "ar_calendar_id row = cal'" "ar_object_id row = obj"
    and t': "t' = t\<lparr>ct_artifacts := upsert_row (\<lambda>a. ar_calendar_id a = cal' \<and> ar_object_id a = obj) row (\<lambda>_. row)
        (ct_artifacts t)\<rparr>"
    using assms unfolding upsert_raw_event_artifact_def Let_def
    by (elim bind_res_InrE) (rule that [rotated 2], erule sum.inject(2) [THEN iffD1, symmetric], simp_all)
  show ?thesis
  proof (rule change_none)
    show "cache_keys t'" if "cache_keys t"
    proof -
      have "distinct (map (\<lambda>a. (ar_calendar_id a, ar_object_id a)) (ct_artifacts t'))"
        unfolding t' using that row by simp (rule upsert_row_keys, auto simp: cache_keys_def)
      with that show ?thesis by (simp add: cache_keys_def t')
    qed
  qed (simp add: t')
qed

lemma change_warning [changes]:
  assumes "upsert_event_sync_warning cipher cal' w now t = Inr t'"
  shows "change cal g (\<lambda>V. V) t t'"
proof -
  let ?row = "\<lparr>qr_calendar_id = cal', qr_object_id = sw_object_id w, qr_etag = sw_etag w,
      qr_error_code = sw_error_code w, qr_first_seen_at = now, qr_last_seen_at = now,
      qr_next_repair_at = now, qr_repair_attempts = 0, qr_active = True, qr_authorized_etag = ''''\<rparr>"
  define u where "u = t\<lparr>ct_quarantine := upsert_row (quarantine_at cal' (sw_object_id w)) ?row
      (requarantine (sw_etag w) (sw_error_code w) now) (ct_quarantine t)\<rparr>"
  have "distinct (map (\<lambda>q. (qr_calendar_id q, qr_object_id q)) (ct_quarantine u))" if "cache_keys t"
    unfolding u_def using that
    by simp (rule upsert_row_keys, auto simp: cache_keys_def quarantine_at_def requarantine_def Let_def)
  then have u: "change cal g (\<lambda>V. V) t u"
    by (intro change_none) (simp_all add: u_def cache_keys_def)
  have t': "t' = u \<or> (\<exists>c d. upsert_raw_event_artifact c cal' (sw_object_id w) (sw_etag w) d now u = Inr t')"
    using assms unfolding upsert_event_sync_warning_def Let_def u_def [symmetric]
    by (auto split: if_splits option.splits)
  from t' show ?thesis
  proof
    assume "t' = u" with u show ?thesis by simp
  next
    assume "\<exists>c d. upsert_raw_event_artifact c cal' (sw_object_id w) (sw_etag w) d now u = Inr t'"
    then have "change cal g (\<lambda>V. V) u t'" using change_artifact by blast
    from change_trans [OF u this] show ?thesis .
  qed
qed

section \<open>A page\<close>

lemma placed_event_id [simp]: "ev_id (placed_event cal u) = ev_id (cu_event u)"
  by (simp add: placed_event_def)

lemma change_apply_upsert:
  assumes "apply_upsert zdb cal g s u t = Inr t'" "ev_calendar_id (placed_event cal u) = cal"
  shows "change cal g (put_event cal u) t t'"
proof -
  obtain v where v: "upsert_cached_event zdb (placed_event cal u) (owning_object u) g s t = Inr v"
    and t': "t' = clear_event_sync_quarantine cal (owning_object u) v"
    using assms(1) by (auto simp: apply_upsert_def)
  from change_trans [OF change_upsert [OF v assms(2)] change_clear_quarantine, of cal "owning_object u"]
  show ?thesis unfolding t' put_event_def [abs_def] by simp
qed

lemma change_apply_deletion: "change cal g (drop_event i) t (apply_deletion cal g s i t)"
  unfolding apply_deletion_def by (rule change_trans [OF change_tombstone change_clear_quarantine])

lemma change_apply_object_deletion: "change cal g (drop_object obj) t (apply_object_deletion cal g s obj t)"
  unfolding apply_object_deletion_def by (rule change_trans [OF change_bury_object change_clear_quarantine])

lemma map_of_add_member:
  "map_of (add_member obj i ms) o' =
     (if o' = obj then Some ((case map_of ms obj of None \<Rightarrow> [] | Some is \<Rightarrow> is) @ [i]) else map_of ms o')"
  by (simp add: add_member_def update_conv')

lemma object_members:
  assumes "fold_res (object_member cal) us [] = Inr ms"
  shows "(\<forall>u \<in> set us. ev_calendar_id (placed_event cal u) = cal) \<and>
    (\<forall>obj. (case map_of ms obj of None \<Rightarrow> [] | Some is \<Rightarrow> is) =
       map (\<lambda>u. ev_id (placed_event cal u)) (filter (\<lambda>u. owning_object u = obj) us))"
proof (rule fold_res_invariant [OF assms])
  fix ys y zs ms ms'
  assume I: "(\<forall>u \<in> set ys. ev_calendar_id (placed_event cal u) = cal) \<and>
    (\<forall>obj. (case map_of ms obj of None \<Rightarrow> [] | Some is \<Rightarrow> is) =
       map (\<lambda>u. ev_id (placed_event cal u)) (filter (\<lambda>u. owning_object u = obj) ys))"
    and "object_member cal y ms = Inr ms'"
  then have y: "ev_calendar_id (placed_event cal y) = cal"
    "ms' = add_member (owning_object y) (ev_id (placed_event cal y)) ms"
    by (auto simp: object_member_def split: if_splits)
  show "(\<forall>u \<in> set (ys @ [y]). ev_calendar_id (placed_event cal u) = cal) \<and>
    (\<forall>obj. (case map_of ms' obj of None \<Rightarrow> [] | Some is \<Rightarrow> is) =
       map (\<lambda>u. ev_id (placed_event cal u)) (filter (\<lambda>u. owning_object u = obj) (ys @ [y])))"
    using I y(1) unfolding y(2) map_of_add_member by simp
qed simp

lemma change_replace_object:
  assumes "replace_object cal batch ms g s obj t = Inr t'"
    and "(case map_of ms obj of None \<Rightarrow> [] | Some is \<Rightarrow> is) = members_in cal batch obj"
  shows "change cal g (drop_missing obj (members_in cal batch obj)) t t'"
  using assms by (auto simp: replace_object_def split: if_splits option.splits intro: change_tombstone_missing)

lemma change_apply_object:
  "apply_object cal g x t = Inr t' \<Longrightarrow> change cal g (\<lambda>V. V) t t'"
  by (auto simp: apply_object_def split: if_splits intro: change_object)

lemma fold_same: "fold (\<lambda>_ V. V) xs V = V"
  by (induction xs) auto

lemma page_is_change:
  assumes "apply_changes zdb cipher cal g batch now t = Inr t'"
  shows "change cal g (page_effect cal batch) t t'"
proof -
  obtain ms t1 t2 t3 t4 where ms: "fold_res (object_member cal) (eb_upserts batch) [] = Inr ms"
    and t1: "fold_res (replace_object cal batch ms g now) (eb_replaced_object_ids batch) t = Inr t1"
    and t2: "fold_res (\<lambda>w. upsert_event_sync_warning cipher cal w now) (eb_warnings batch) t1 = Inr t2"
    and t3: "fold_res (apply_upsert zdb cal g now) (eb_upserts batch) t2 = Inr t3"
    and t4: "fold_res (apply_object cal g) (eb_objects batch)
       (fold (apply_deletion cal g now) (eb_deleted_event_ids batch) t3) = Inr t4"
    and t': "t' = fold (apply_object_deletion cal g now) (eb_deleted_object_ids batch) t4"
    using assms by (auto simp: apply_changes_def bind_res_Inr_iff split: if_splits)
  note members = object_members [OF ms, folded members_in_def]
  have "change cal g (fold (\<lambda>obj. drop_missing obj (members_in cal batch obj)) (eb_replaced_object_ids batch)) t t1"
    by (rule change_fold_res [OF t1], rule change_replace_object) (use members in blast)+
  from change_trans [OF this change_fold_res [OF t2 change_warning]]
  have "change cal g (fold (\<lambda>obj. drop_missing obj (members_in cal batch obj)) (eb_replaced_object_ids batch)) t t2"
    by (simp add: fold_same)
  moreover have "change cal g (fold (put_event cal) (eb_upserts batch)) t2 t3"
    by (rule change_fold_res [OF t3], rule change_apply_upsert) (use members in blast)+
  ultimately have "change cal g (\<lambda>V. fold (put_event cal) (eb_upserts batch)
      (fold (\<lambda>obj. drop_missing obj (members_in cal batch obj)) (eb_replaced_object_ids batch) V)) t t3"
    by (rule change_trans)
  from change_trans [OF change_trans [OF change_trans [OF this change_fold [OF change_apply_deletion]]
        change_fold_res [OF t4 change_apply_object]] change_fold [OF change_apply_object_deletion]]
  show ?thesis unfolding t' page_effect_def [abs_def] by (simp add: fold_same)
qed

section \<open>Pages under a claim\<close>

lemma sweep_contents:
  assumes "cache_keys t"
  shows "whole cal (sweep_generation cal g t) i = (case cached (\<lambda>n. n = g) cal t i of Some x \<Rightarrow> Some x
    | None \<Rightarrow> (case whole cal t i of None \<Rightarrow> None
        | Some x \<Rightarrow> if quarantined cal (fst x) t then Some x else None))"
proof (cases "find (event_at cal i) (ct_events t)")
  case None
  then have "find (event_at cal i) (ct_events (sweep_generation cal g t)) = None"
    by (simp add: sweep_generation_def find_None_iff)
  with None show ?thesis by (simp add: cached_def)
next
  case (Some r)
  have keys: "distinct (map cached_key (ct_events t))" using assms by (simp add: cache_keys_def)
  have r: "ce_calendar_id r = cal" using find_event_at_id [OF Some] by simp
  have "find (event_at cal i) (ct_events (sweep_generation cal g t)) =
      (if ce_sync_generation r = g \<or> quarantined cal (ce_source_object_id r) t then Some r else None)"
    using Some r unfolding sweep_generation_def event_at_fun by (simp add: find_filter_key [OF keys])
  with Some show ?thesis by (auto simp: cached_def shown_def split: option.split)
qed

lemma sweep_other:
  assumes "cal' \<noteq> cal"
  shows "whole cal' (sweep_generation cal g t) = whole cal' t"
proof (rule ext)
  fix i
  have "find (event_at cal' i) (filter P rows) = find (event_at cal' i) rows"
    if "\<And>r. ce_calendar_id r = cal' \<Longrightarrow> P r" for P rows
    using that by (induction rows) (auto simp: event_at_def)
  with assms show "whole cal' (sweep_generation cal g t) i = whole cal' t i"
    by (simp add: cached_def sweep_generation_def)
qed

lemma sweep_keys: "cache_keys t \<Longrightarrow> cache_keys (sweep_generation cal g t)"
  by (simp add: cache_keys_def sweep_generation_def filter_keys)

lemma sweep_quarantine [simp]:
  "quarantined cal' obj (sweep_generation cal g t) = quarantined cal' obj t"
  "active_quarantine cal' (sweep_generation cal g t) = active_quarantine cal' t"
  by (simp_all add: quarantined_def active_quarantine_def sweep_generation_def)

lemma update_lease_Inr:
  assumes "update_lease c now f db = Inr ((), db')"
  shows "db' = db\<lparr>db_sync_states := update_rows (holds_lease c now) f (db_sync_states db)\<rparr> \<and>
    count_rows (holds_lease c now) (db_sync_states db) = 1"
  using assms by (simp add: update_lease_def split: if_splits)

lemma lock_lease_Inr:
  "lock_calendar_sync_lease c now db = Inr (x, db') \<longleftrightarrow> db' = db \<and> list_ex (holds_lease c now) (db_sync_states db)"
  by (auto simp: lock_calendar_sync_lease_def)

lemma save_timezone_other [simp]:
  "db_cache (save_timezone zdb cal tz db) = db_cache db"
  "db_sync_states (save_timezone zdb cal tz db) = db_sync_states db"
  by (simp_all add: save_timezone_def)

text \<open>The row of the claim after its last page.\<close>

definition finished_row :: "sync_claim \<Rightarrow> event_sync_batch \<Rightarrow> bool \<Rightarrow> instant \<Rightarrow> calendar_sync_state \<Rightarrow> calendar_sync_state" where
  "finished_row c batch quarantine now r = r\<lparr>
     ss_cursor := (if eb_degraded batch \<or> quarantine then sc_cursor c else eb_next_cursor batch),
     ss_status := (if eb_degraded batch \<or> quarantine then ''degraded'' else ''ready''),
     ss_next_sync_at := (case eb_next_sync_at batch of None \<Rightarrow> sc_next_sync_at c | Some t \<Rightarrow> t),
     ss_last_success_at := Some now,
     ss_last_error_code := (if eb_degraded batch \<or> quarantine then Some protocol_code else None),
     ss_lease_owner := None, ss_lease_until := None, ss_updated_at := now\<rparr>"

lemma degraded_code_Inr:
  "degraded_code batch = Inr code \<Longrightarrow> code = (if eb_degraded batch then protocol_code else '''')"
  by (auto simp: degraded_code_def Let_def protocol_code_def split: if_splits)

lemma finish_sync_Inr:
  assumes "finish_sync c batch code now db = Inr ((), db')"
    and code: "code = (if eb_degraded batch then protocol_code else '''')"
  shows "count_rows (holds_lease c now) (db_sync_states db) = 1 \<and>
    db' = db\<lparr>db_cache := (if eb_full_sync batch
        then sweep_generation (sc_calendar_id c) (sc_generation c) (db_cache db) else db_cache db),
      db_sync_states := update_rows (holds_lease c now)
        (finished_row c batch (active_quarantine (sc_calendar_id c) (db_cache db)) now) (db_sync_states db)\<rparr>"
  using assms(1) unfolding finish_sync_def Let_def code
  by (auto dest!: update_lease_Inr simp: finished_row_def [abs_def] protocol_code_def split: if_splits)

text \<open>A page that was accepted, in full.\<close>

lemma apply_page_Inr:
  assumes "apply_event_sync_page zdb cipher c batch final now db = Inr ((), db')"
  obtains t where "apply_changes zdb cipher (sc_calendar_id c) (sc_generation c) batch now (db_cache db) = Inr t"
    and "valid_claim c" "list_ex (holds_lease c now) (db_sync_states db)"
    and "\<not> final \<Longrightarrow> db_cache db' = t \<and> db_sync_states db' = db_sync_states db"
    and "final \<Longrightarrow> count_rows (holds_lease c now) (db_sync_states db) = 1 \<and>
      db_cache db' = (if eb_full_sync batch then sweep_generation (sc_calendar_id c) (sc_generation c) t else t) \<and>
      db_sync_states db' = update_rows (holds_lease c now)
        (finished_row c batch (active_quarantine (sc_calendar_id c) t) now) (db_sync_states db)"
proof -
  let ?db = "save_timezone zdb (sc_calendar_id c) (eb_source_time_zone batch) db"
  obtain code t where valid: "valid_claim c" and lock: "list_ex (holds_lease c now) (db_sync_states db)"
    and code: "degraded_code batch = Inr code"
    and t: "apply_changes zdb cipher (sc_calendar_id c) (sc_generation c) batch now (db_cache db) = Inr t"
    and rest: "(if final then finish_sync c batch code now (?db\<lparr>db_cache := t\<rparr>) else Inr ((), ?db\<lparr>db_cache := t\<rparr>)) = Inr ((), db')"
    using assms unfolding apply_event_sync_page_def apply_event_sync_page_tx_def Let_def
    by (auto simp: lock_lease_Inr bind_res_Inr_iff split: if_splits)
  show ?thesis
  proof (rule that [OF t valid lock])
    show "db_cache db' = t \<and> db_sync_states db' = db_sync_states db" if "\<not> final"
      using rest that by auto
    show "count_rows (holds_lease c now) (db_sync_states db) = 1 \<and>
        db_cache db' = (if eb_full_sync batch then sweep_generation (sc_calendar_id c) (sc_generation c) t else t) \<and>
        db_sync_states db' = update_rows (holds_lease c now)
          (finished_row c batch (active_quarantine (sc_calendar_id c) t) now) (db_sync_states db)" if final
      using finish_sync_Inr [OF _ degraded_code_Inr [OF code], of c now "?db\<lparr>db_cache := t\<rparr>" db'] rest that by simp
  qed
qed

text \<open>The pages of one claim before its last.\<close>

definition sync_pages ::
  "zonedb \<Rightarrow> artifact_cipher option \<Rightarrow> sync_claim \<Rightarrow> (event_sync_batch \<times> instant) list \<Rightarrow> sync_db \<Rightarrow> sync_db res" where
  "sync_pages zdb cipher c pages db = fold_res (\<lambda>(batch, now) db.
     map_sum id snd (apply_event_sync_page zdb cipher c batch False now db)) pages db"

lemma sync_pages_change:
  assumes "sync_pages zdb cipher c pages db = Inr db'"
  shows "change (sc_calendar_id c) (sc_generation c) (fold (page_effect (sc_calendar_id c)) (map fst pages))
      (db_cache db) (db_cache db') \<and> db_sync_states db' = db_sync_states db"
  using assms
proof (induction pages arbitrary: db)
  case Nil
  then show ?case by (simp add: sync_pages_def change_id id_def)
next
  case (Cons p pages)
  obtain batch now where p: "p = (batch, now)" by (cases p)
  obtain u where u: "apply_event_sync_page zdb cipher c batch False now db = Inr ((), u)"
    and rest: "sync_pages zdb cipher c pages u = Inr db'"
    using Cons.prems unfolding p sync_pages_def
    by (cases "apply_event_sync_page zdb cipher c batch False now db") auto
  from u have "change (sc_calendar_id c) (sc_generation c) (page_effect (sc_calendar_id c) batch) (db_cache db) (db_cache u)"
    and "db_sync_states u = db_sync_states db"
    by (auto elim!: apply_page_Inr intro: page_is_change)
  with change_trans Cons.IH [OF rest] show ?case by (fastforce simp: p o_def)
qed

lemma cached_fresh:
  assumes "\<forall>r \<in> set (ct_events t). ce_calendar_id r = cal \<longrightarrow> ce_sync_generation r \<noteq> g"
  shows "cached (\<lambda>n. n = g) cal t = Map.empty"
proof (rule ext)
  show "cached (\<lambda>n. n = g) cal t i = None" for i
    using assms find_event_at_id [of cal i "ct_events t"]
    by (cases "find (event_at cal i) (ct_events t)") (auto simp: cached_def shown_def)
qed

section \<open>Properties\<close>

text \<open>
  C11. A page refines its abstract effect: an accepted page turns the contents of the claimed
  calendar into the effect of the page.  The last page of a full synchronization sweeps besides:
  what stays is the effect of the page on the events of the claim's generation, and of the other
  events those that the page leaves and whose object is in quarantine.  An accepted page leaves
  the contents of every other calendar, keeps the primary keys, and was accepted only under the
  unexpired lease of its claim.
\<close>

theorem page_refines_contents:
  assumes keys: "cache_keys (db_cache db)"
    and page: "apply_event_sync_page zdb cipher c batch final now db = Inr ((), db')"
  shows "cache_keys (db_cache db') \<and> list_ex (holds_lease c now) (db_sync_states db) \<and>
    (\<forall>cal. cal \<noteq> sc_calendar_id c \<longrightarrow> whole cal (db_cache db') = whole cal (db_cache db)) \<and>
    (\<not> (final \<and> eb_full_sync batch) \<longrightarrow> whole (sc_calendar_id c) (db_cache db') =
       page_effect (sc_calendar_id c) batch (whole (sc_calendar_id c) (db_cache db))) \<and>
    (final \<and> eb_full_sync batch \<longrightarrow> (\<forall>i. whole (sc_calendar_id c) (db_cache db') i =
       (case page_effect (sc_calendar_id c) batch
              (cached (\<lambda>n. n = sc_generation c) (sc_calendar_id c) (db_cache db)) i of
          Some x \<Rightarrow> Some x
        | None \<Rightarrow> (case page_effect (sc_calendar_id c) batch (whole (sc_calendar_id c) (db_cache db)) i of
            None \<Rightarrow> None
          | Some x \<Rightarrow> if quarantined (sc_calendar_id c) (fst x) (db_cache db') then Some x else None))))"
proof -
  obtain t where t: "apply_changes zdb cipher (sc_calendar_id c) (sc_generation c) batch now (db_cache db) = Inr t"
    and lock: "list_ex (holds_lease c now) (db_sync_states db)"
    and mid: "\<not> final \<Longrightarrow> db_cache db' = t \<and> db_sync_states db' = db_sync_states db"
    and fin: "final \<Longrightarrow> count_rows (holds_lease c now) (db_sync_states db) = 1 \<and>
      db_cache db' = (if eb_full_sync batch then sweep_generation (sc_calendar_id c) (sc_generation c) t else t) \<and>
      db_sync_states db' = update_rows (holds_lease c now)
        (finished_row c batch (active_quarantine (sc_calendar_id c) t) now) (db_sync_states db)"
    by (rule apply_page_Inr [OF page]) blast
  note ch = page_is_change [OF t]
  note keys' = change_keys [OF ch keys]
  have cache: "db_cache db' = (if final \<and> eb_full_sync batch
      then sweep_generation (sc_calendar_id c) (sc_generation c) t else t)"
    using mid fin by (cases final) auto
  have whole: "whole (sc_calendar_id c) t = page_effect (sc_calendar_id c) batch (whole (sc_calendar_id c) (db_cache db))"
    and own: "cached (\<lambda>n. n = sc_generation c) (sc_calendar_id c) t = page_effect (sc_calendar_id c) batch
      (cached (\<lambda>n. n = sc_generation c) (sc_calendar_id c) (db_cache db))"
    by (rule change_contents [OF ch keys], simp)+
  have swept: "whole (sc_calendar_id c) (sweep_generation (sc_calendar_id c) (sc_generation c) t) i =
      (case page_effect (sc_calendar_id c) batch
              (cached (\<lambda>n. n = sc_generation c) (sc_calendar_id c) (db_cache db)) i of
          Some x \<Rightarrow> Some x
        | None \<Rightarrow> (case page_effect (sc_calendar_id c) batch (whole (sc_calendar_id c) (db_cache db)) i of
            None \<Rightarrow> None
          | Some x \<Rightarrow> if quarantined (sc_calendar_id c) (fst x) (sweep_generation (sc_calendar_id c) (sc_generation c) t)
              then Some x else None))" for i
    using sweep_contents [OF keys', of "sc_calendar_id c" "sc_generation c"] by (simp add: whole own split: option.split)
  show ?thesis
    unfolding cache using lock keys' change_other [OF ch keys] whole swept
    by (auto simp: sweep_keys sweep_other)
qed

text \<open>
  C10. A full synchronization replaces the calendar, under two conditions: no row of the calendar
  bears the generation of the claim when its first page comes (as when the claim is granted, but
  not after a repair under the same claim or an event that was written through), and nothing but
  its pages is committed to the cache until the last one.  Then the calendar holds what the
  pages say starting from nothing, and beside it only events whose object is in quarantine;
  nothing in quarantine, and the contents are exactly those of the pages.
\<close>

theorem full_sync_replaces:
  assumes keys: "cache_keys (db_cache db)"
    and fresh: "\<forall>r \<in> set (ct_events (db_cache db)). ce_calendar_id r = sc_calendar_id c \<longrightarrow>
      ce_sync_generation r \<noteq> sc_generation c"
    and pages: "sync_pages zdb cipher c pages db = Inr db1"
    and page: "apply_event_sync_page zdb cipher c batch True now db1 = Inr ((), db2)"
    and full: "eb_full_sync batch"
    and V: "V = fold (page_effect (sc_calendar_id c)) (map fst pages @ [batch]) Map.empty"
  shows "(\<forall>i x. V i = Some x \<longrightarrow> whole (sc_calendar_id c) (db_cache db2) i = Some x) \<and>
    (\<forall>i x. V i = None \<and> whole (sc_calendar_id c) (db_cache db2) i = Some x \<longrightarrow>
       quarantined (sc_calendar_id c) (fst x) (db_cache db2)) \<and>
    (\<not> active_quarantine (sc_calendar_id c) (db_cache db2) \<longrightarrow> whole (sc_calendar_id c) (db_cache db2) = V)"
proof -
  let ?cal = "sc_calendar_id c" and ?g = "sc_generation c"
  obtain t where t: "apply_changes zdb cipher ?cal ?g batch now (db_cache db1) = Inr t"
    and fin: "True \<Longrightarrow> count_rows (holds_lease c now) (db_sync_states db1) = 1 \<and>
      db_cache db2 = (if eb_full_sync batch then sweep_generation ?cal ?g t else t) \<and>
      db_sync_states db2 = update_rows (holds_lease c now)
        (finished_row c batch (active_quarantine ?cal t) now) (db_sync_states db1)"
    by (rule apply_page_Inr [OF page]) blast
  from change_trans [OF sync_pages_change [OF pages, THEN conjunct1] page_is_change [OF t]]
  have ch: "change ?cal ?g (\<lambda>V. page_effect ?cal batch (fold (page_effect ?cal) (map fst pages) V)) (db_cache db) t" .
  have "cached (\<lambda>n. n = ?g) ?cal t = V"
    using change_contents [where Q = "\<lambda>n. n = ?g", OF ch keys] cached_fresh [OF fresh] by (simp add: V)
  with sweep_contents [OF change_keys [OF ch keys], of ?cal ?g] fin full
  have whole: "whole ?cal (db_cache db2) i = (case V i of Some x \<Rightarrow> Some x
      | None \<Rightarrow> (case whole ?cal t i of None \<Rightarrow> None
        | Some x \<Rightarrow> if quarantined ?cal (fst x) (db_cache db2) then Some x else None))" for i
    by (simp split: option.split)
  have clean: "\<not> quarantined ?cal obj (db_cache db2)" if "\<not> active_quarantine ?cal (db_cache db2)" for obj
    using that by (auto simp: quarantined_def active_quarantine_def list_ex_iff quarantine_at_def)
  show ?thesis
    by (intro conjI allI impI ext) (auto simp: whole clean split: option.splits if_splits)
qed

text \<open>
  C12. The cursor advances only on the last page of a synchronization that left nothing in
  quarantine: an earlier page changes no state row; after the last page the row of the claim is
  released, and it is ready with the provider's cursor, or degraded with the cursor it started
  from.
\<close>

theorem cursor_advances_when_clean:
  assumes page: "apply_event_sync_page zdb cipher c batch final now db = Inr ((), db')"
  shows "(\<not> final \<longrightarrow> db_sync_states db' = db_sync_states db) \<and>
    (final \<longrightarrow> db_sync_states db' = update_rows (holds_lease c now)
        (finished_row c batch (active_quarantine (sc_calendar_id c) (db_cache db')) now) (db_sync_states db) \<and>
      count_rows (holds_lease c now) (db_sync_states db) = 1)"
proof (rule apply_page_Inr [OF page])
  fix t
  assume "\<not> final \<Longrightarrow> db_cache db' = t \<and> db_sync_states db' = db_sync_states db"
    and "final \<Longrightarrow> count_rows (holds_lease c now) (db_sync_states db) = 1 \<and>
      db_cache db' = (if eb_full_sync batch then sweep_generation (sc_calendar_id c) (sc_generation c) t else t) \<and>
      db_sync_states db' = update_rows (holds_lease c now)
        (finished_row c batch (active_quarantine (sc_calendar_id c) t) now) (db_sync_states db)"
  then show ?thesis by (cases final) (simp_all split: if_splits)
qed

section \<open>Concrete runs\<close>

definition cached_sample :: "string \<Rightarrow> event_v2" where
  "cached_sample i = zero_event\<lparr>ev_id := i, ev_calendar_id := ''c'',
     ev_start := zero_event_time\<lparr>et_date := ''2024-02-28''\<rparr>,
     ev_end := zero_event_time\<lparr>et_date := ''2024-03-01''\<rparr>\<rparr>"

definition sample_upsert :: "string \<Rightarrow> cached_upsert" where
  "sample_upsert i = \<lparr>cu_source_object_id = '''', cu_event = cached_sample i\<rparr>"

definition sample_batch :: "string list \<Rightarrow> event_sync_batch" where
  "sample_batch is = \<lparr>eb_source_time_zone = '''', eb_upserts = map sample_upsert is, eb_deleted_event_ids = [],
     eb_deleted_object_ids = [], eb_replaced_object_ids = [], eb_objects = [], eb_next_cursor = ''next'',
     eb_next_sync_at = None, eb_full_sync = True, eb_degraded = False, eb_error_code = '''', eb_warnings = []\<rparr>"

definition sample_state :: calendar_sync_state where
  "sample_state = \<lparr>ss_calendar_id = ''c'', ss_strategy = ''google'', ss_cursor = ''old'', ss_window_start = 0,
     ss_window_end = 9, ss_generation = 2, ss_status = ''syncing'', ss_next_sync_at = 0, ss_last_started_at = Some 1,
     ss_last_success_at = None, ss_last_error_code = None, ss_lease_owner = Some ''w'', ss_lease_until = Some 9,
     ss_updated_at = 1\<rparr>"

definition sample_claim :: sync_claim where
  "sample_claim = scan_calendar_sync_state sample_state"

definition sample_row :: "string \<Rightarrow> int \<Rightarrow> cached_row" where
  "sample_row i g = \<lparr>ce_calendar_id = ''c'', ce_event_id = i, ce_source_object_id = i, ce_etag = '''',
     ce_payload = Some (cached_sample i), ce_start_at = None, ce_end_at = None, ce_start_date = Some ''2024-02-28'',
     ce_end_date = Some ''2024-03-01'', ce_deleted = False, ce_sync_generation = g, ce_provider_updated_at = None,
     ce_synced_at = 5\<rparr>"

definition sample_cache_db :: sync_db where
  "sample_cache_db = empty_db\<lparr>db_sync_states := [sample_state],
     db_cache := empty_cache\<lparr>ct_events := [sample_row ''old'' 1]\<rparr>\<rparr>"

lemma sample_cache_keys: "cache_keys (db_cache sample_cache_db)"
  by code_simp

lemma sample_pages_run:
  "sync_pages (\<lambda>_. None) None sample_claim [(sample_batch [''a''], 5)] sample_cache_db =
   Inr (sample_cache_db\<lparr>db_cache := empty_cache\<lparr>ct_events := [sample_row ''old'' 1, sample_row ''a'' 2]\<rparr>\<rparr>)"
  by code_simp

lemma sample_last_page:
  "apply_event_sync_page (\<lambda>_. None) None sample_claim (sample_batch [''b'']) True 5
     (sample_cache_db\<lparr>db_cache := empty_cache\<lparr>ct_events := [sample_row ''old'' 1, sample_row ''a'' 2]\<rparr>\<rparr>) =
   Inr ((), sample_cache_db\<lparr>db_cache := empty_cache\<lparr>ct_events := [sample_row ''a'' 2, sample_row ''b'' 2]\<rparr>,
     db_sync_states := [finished_row sample_claim (sample_batch [''b'']) False 5 sample_state]\<rparr>)"
  by code_simp

lemma sample_last_page_alone:
  "apply_event_sync_page (\<lambda>_. None) None sample_claim (sample_batch [''b'']) True 5 sample_cache_db =
   Inr ((), sample_cache_db\<lparr>db_cache := empty_cache\<lparr>ct_events := [sample_row ''b'' 2]\<rparr>,
     db_sync_states := [finished_row sample_claim (sample_batch [''b'']) False 5 sample_state]\<rparr>)"
  by code_simp

theorem page_refines_contents_witness:
  "let db' = sample_cache_db\<lparr>db_cache := empty_cache\<lparr>ct_events := [sample_row ''b'' 2]\<rparr>,
     db_sync_states := [finished_row sample_claim (sample_batch [''b'']) False 5 sample_state]\<rparr> in
   cache_keys (db_cache db') \<and> list_ex (holds_lease sample_claim 5) (db_sync_states sample_cache_db) \<and>
   whole ''d'' (db_cache db') = whole ''d'' (db_cache sample_cache_db)"
  using page_refines_contents [OF sample_cache_keys sample_last_page_alone]
  by (simp add: Let_def sample_claim_def scan_calendar_sync_state_def sample_state_def)

theorem full_sync_replaces_witness:
  "whole ''c'' (empty_cache\<lparr>ct_events := [sample_row ''a'' 2, sample_row ''b'' 2]\<rparr>) =
     fold (page_effect ''c'') [sample_batch [''a''], sample_batch [''b'']] Map.empty"
proof -
  have "\<forall>r \<in> set (ct_events (db_cache sample_cache_db)). ce_calendar_id r = sc_calendar_id sample_claim \<longrightarrow>
      ce_sync_generation r \<noteq> sc_generation sample_claim"
    by code_simp
  from full_sync_replaces [OF sample_cache_keys this sample_pages_run sample_last_page _ refl]
  show ?thesis
    by (simp add: sample_batch_def active_quarantine_def empty_cache_def sample_claim_def
        scan_calendar_sync_state_def sample_state_def)
qed

theorem cursor_advances_when_clean_witness:
  "let db' = sample_cache_db\<lparr>db_cache := empty_cache\<lparr>ct_events := [sample_row ''b'' 2]\<rparr>,
     db_sync_states := [finished_row sample_claim (sample_batch [''b'']) False 5 sample_state]\<rparr> in
   db_sync_states db' = update_rows (holds_lease sample_claim 5)
        (finished_row sample_claim (sample_batch [''b''])
          (active_quarantine (sc_calendar_id sample_claim) (db_cache db')) 5) (db_sync_states sample_cache_db) \<and>
   count_rows (holds_lease sample_claim 5) (db_sync_states sample_cache_db) = 1"
  using cursor_advances_when_clean [OF sample_last_page_alone] unfolding Let_def by blast

end
