(* ===== verification/Event_Lease.thy ===== *)
theory Event_Lease
  imports Event_View Claims
begin

text \<open>
  The leases of calendar synchronization: what each transaction of \<open>event_cache.go\<close> does to the
  state rows and to the tables of the cache.  One invariant ties the state rows, their leases, the
  keys and the generations of the cache; a claim starts a generation that no cached row bears
  yet.  The theory \<open>Lease_Histories\<close> composes the transactions.
\<close>

section \<open>Operations under a claim\<close>

text \<open>What the worker that holds a claim may do.\<close>

datatype claim_op =
    RenewOp instant
  | PageOp event_sync_batch bool
  | FailOp string instant
  | ParkOp string
  | ResetOp
  | RepairOp event_sync_repair_batch
  | ConsumeOp string string

primrec perform ::
  "zonedb \<Rightarrow> artifact_cipher option \<Rightarrow> sync_claim \<Rightarrow> instant \<Rightarrow> claim_op \<Rightarrow> sync_db \<Rightarrow> sync_db res" where
  "perform zdb cipher c now (RenewOp until_at) db = map_sum id snd (renew_calendar_sync_lease c now until_at db)"
| "perform zdb cipher c now (PageOp batch final) db =
     map_sum id snd (apply_event_sync_page zdb cipher c batch final now db)"
| "perform zdb cipher c now (FailOp code next_at) db = map_sum id snd (fail_calendar_sync c code now next_at db)"
| "perform zdb cipher c now (ParkOp code) db = map_sum id snd (park_calendar_sync c code now db)"
| "perform zdb cipher c now ResetOp db = map_sum id snd (reset_calendar_sync c now db)"
| "perform zdb cipher c now (RepairOp batch) db =
     map_sum id snd (apply_event_sync_object_repair zdb cipher c batch now db)"
| "perform zdb cipher c now (ConsumeOp obj etag) db = map_sum id snd
     (consume_event_sync_provider_mutation_authorization c (sc_calendar_id c) obj etag now db)"

type_synonym sync_moment = "instant \<times> sync_db"

section \<open>State rows\<close>

text \<open>
  What a step does to a state row at a moment: it starts a new generation, or it ends the lease,
  or it leaves the lease to its owner, whose lease may grow only while it runs and which no step
  makes syncing.
\<close>

definition lease_step :: "instant \<Rightarrow> calendar_sync_state \<Rightarrow> calendar_sync_state \<Rightarrow> bool" where
  "lease_step now r r' \<longleftrightarrow> ss_calendar_id r' = ss_calendar_id r \<and>
     (ss_generation r < ss_generation r' \<or>
      ss_generation r' = ss_generation r \<and>
        (ss_lease_owner r' = None \<or>
         ss_lease_owner r' = ss_lease_owner r \<and>
           (ss_lease_until r' = ss_lease_until r \<and> (ss_status r' = ss_status r \<or> ss_status r' \<noteq> ''syncing'') \<or>
            (\<exists>c. holds_lease c now r))))"

lemma lease_step_refl [simp]: "lease_step now r r"
  by (simp add: lease_step_def)

text \<open>A row with a lease is syncing, and only such a row.\<close>

definition lease_shape :: "calendar_sync_state \<Rightarrow> bool" where
  "lease_shape r \<longleftrightarrow> (ss_status r = ''syncing'' \<longleftrightarrow> ss_lease_owner r \<noteq> None) \<and>
     (ss_lease_owner r = None \<longleftrightarrow> ss_lease_until r = None)"

lemma lease_shape_cong:
  "ss_status r' = ss_status r \<Longrightarrow> ss_lease_owner r' = ss_lease_owner r \<Longrightarrow> ss_lease_until r' = ss_lease_until r \<Longrightarrow>
   lease_shape r' = lease_shape r"
  by (simp only: lease_shape_def)

definition states_step :: "instant \<Rightarrow> calendar_sync_state list \<Rightarrow> calendar_sync_state list \<Rightarrow> bool" where
  "states_step now rows rows' \<longleftrightarrow>
     (distinct (map ss_calendar_id rows) \<longrightarrow> distinct (map ss_calendar_id rows')) \<and>
     (list_all lease_shape rows \<longrightarrow> list_all lease_shape rows') \<and>
     (\<forall>r \<in> set rows. \<exists>r' \<in> set rows'. lease_step now r r') \<and>
     (\<forall>r' \<in> set rows'. (\<exists>r \<in> set rows. lease_step now r r') \<or>
        ss_calendar_id r' \<notin> ss_calendar_id ` set rows)"

lemma states_step_refl [simp]: "states_step now rows rows"
  unfolding states_step_def by (blast intro: lease_step_refl)

lemma mem_update_rows: "r' \<in> set (update_rows P f rows) \<longleftrightarrow> (\<exists>q \<in> set rows. r' = (if P q then f q else q))"
  by (auto simp: set_update_rows)

lemma states_step_update:
  assumes "\<And>r. P r \<Longrightarrow> lease_step now r (f r) \<and> (lease_shape r \<longrightarrow> lease_shape (f r))"
  shows "states_step now rows (update_rows P f rows)"
proof -
  have id: "ss_calendar_id (f r) = ss_calendar_id r" if "P r" for r
    using assms [OF that] by (simp add: lease_step_def)
  show ?thesis
    unfolding states_step_def
  proof (intro conjI impI ballI)
    show "distinct (map ss_calendar_id (update_rows P f rows))" if "distinct (map ss_calendar_id rows)"
      using that map_update_rows [of rows P ss_calendar_id f] id by simp
    show "list_all lease_shape (update_rows P f rows)" if "list_all lease_shape rows"
      using that assms by (auto simp: list_all_iff set_update_rows)
    show "\<exists>r' \<in> set (update_rows P f rows). lease_step now r r'" if "r \<in> set rows" for r
    proof (cases "P r")
      case True
      with that have "f r \<in> set (update_rows P f rows)" by (auto simp: set_update_rows)
      with assms [OF True] show ?thesis by blast
    next
      case False
      with that have "r \<in> set (update_rows P f rows)" by (auto simp: set_update_rows)
      then show ?thesis using lease_step_refl by blast
    qed
    show "(\<exists>r \<in> set rows. lease_step now r r') \<or> ss_calendar_id r' \<notin> ss_calendar_id ` set rows"
      if r': "r' \<in> set (update_rows P f rows)" for r'
    proof -
      obtain q where q: "q \<in> set rows" "r' = (if P q then f q else q)" using r' unfolding mem_update_rows by blast
      have "lease_step now q r'" using q(2) assms [of q] by simp
      with q(1) show ?thesis by blast
    qed
  qed
qed

lemma lease_step_trans: "lease_step now r r' \<Longrightarrow> lease_step now r' r'' \<Longrightarrow> lease_step now r r''"
  unfolding lease_step_def holds_lease_def by auto

lemma states_step_forward: "states_step now rows rows' \<Longrightarrow> r \<in> set rows \<Longrightarrow> \<exists>r' \<in> set rows'. lease_step now r r'"
  and states_step_distinct: "states_step now rows rows' \<Longrightarrow> distinct (map ss_calendar_id rows) \<Longrightarrow>
    distinct (map ss_calendar_id rows')"
  and states_step_shape: "states_step now rows rows' \<Longrightarrow> list_all lease_shape rows \<Longrightarrow> list_all lease_shape rows'"
  unfolding states_step_def by simp_all

lemma states_step_source: "states_step now rows rows' \<Longrightarrow> r' \<in> set rows' \<Longrightarrow>
    ss_calendar_id r' \<in> ss_calendar_id ` set rows \<Longrightarrow> \<exists>r \<in> set rows. lease_step now r r'"
  unfolding states_step_def by blast

lemma lease_step_id: "lease_step now r r' \<Longrightarrow> ss_calendar_id r' = ss_calendar_id r"
  by (simp add: lease_step_def)

lemma states_step_ids:
  assumes "states_step now rows rows'"
  shows "ss_calendar_id ` set rows \<subseteq> ss_calendar_id ` set rows'"
proof
  fix i
  assume "i \<in> ss_calendar_id ` set rows"
  then obtain r where r: "r \<in> set rows" "i = ss_calendar_id r" by blast
  from states_step_forward [OF assms r(1)] obtain r' where r': "r' \<in> set rows'" "lease_step now r r'" by blast
  from imageI [OF r'(1), of ss_calendar_id] lease_step_id [OF r'(2)] r(2)
  show "i \<in> ss_calendar_id ` set rows'" by simp
qed

lemma states_step_trans:
  assumes "states_step now rows rows'" "states_step now rows' rows''"
  shows "states_step now rows rows''"
  unfolding states_step_def
proof (intro conjI impI ballI)
  show "distinct (map ss_calendar_id rows'')" if "distinct (map ss_calendar_id rows)"
    by (rule states_step_distinct [OF assms(2) states_step_distinct [OF assms(1) that]])
  show "list_all lease_shape rows''" if "list_all lease_shape rows"
    by (rule states_step_shape [OF assms(2) states_step_shape [OF assms(1) that]])
  show "\<exists>r'' \<in> set rows''. lease_step now r r''" if r: "r \<in> set rows" for r
  proof -
    obtain r' where r': "r' \<in> set rows'" "lease_step now r r'" using states_step_forward [OF assms(1) r] by blast
    obtain r'' where "r'' \<in> set rows''" "lease_step now r' r''" using states_step_forward [OF assms(2) r'(1)] by blast
    with lease_step_trans [OF r'(2)] show ?thesis by blast
  qed
  show "(\<exists>r \<in> set rows. lease_step now r r'') \<or> ss_calendar_id r'' \<notin> ss_calendar_id ` set rows"
    if r'': "r'' \<in> set rows''" for r''
  proof (cases "ss_calendar_id r'' \<in> ss_calendar_id ` set rows")
    case True
    with states_step_ids [OF assms(1)] have "ss_calendar_id r'' \<in> ss_calendar_id ` set rows'" by blast
    from states_step_source [OF assms(2) r'' this] obtain r' where r': "r' \<in> set rows'" "lease_step now r' r''" by blast
    from True lease_step_id [OF r'(2)] have "ss_calendar_id r' \<in> ss_calendar_id ` set rows" by simp
    from states_step_source [OF assms(1) r'(1) this] obtain r where "r \<in> set rows" "lease_step now r r'" by blast
    with lease_step_trans [OF _ r'(2)] show ?thesis by blast
  qed simp
qed

lemma states_step_insert:
  assumes "\<not> list_ex (\<lambda>r. ss_calendar_id r = i) rows" "ss_calendar_id new = i" "lease_shape new"
  shows "states_step now rows (rows @ [new])"
  unfolding states_step_def
proof (intro conjI impI ballI)
  have i: "i \<notin> ss_calendar_id ` set rows" using assms(1) by (auto simp: list_ex_iff)
  with assms(2) show "distinct (map ss_calendar_id (rows @ [new]))" if "distinct (map ss_calendar_id rows)"
    using that by simp
  show "list_all lease_shape (rows @ [new])" if "list_all lease_shape rows" using that assms(3) by simp
  show "\<exists>r' \<in> set (rows @ [new]). lease_step now r r'" if "r \<in> set rows" for r
    by (rule bexI [of _ r]) (use that in simp_all)
  show "(\<exists>r \<in> set rows. lease_step now r r') \<or> ss_calendar_id r' \<notin> ss_calendar_id ` set rows"
    if "r' \<in> set (rows @ [new])" for r'
  proof (cases "r' = new")
    case False
    with that have "r' \<in> set rows" by simp
    then show ?thesis using lease_step_refl by blast
  qed (simp add: assms(2) i)
qed

section \<open>Each transaction on the state rows\<close>

lemma fence_frame:
  assumes "acquire_source_state_fence uuid now db = Inr (fenced, db')"
  shows "db_sync_states db' = db_sync_states db \<and> db_cache db' = db_cache db \<and> db_calendars db' = db_calendars db \<and>
    db_connections db' = db_connections db \<and> db_rules db' = db_rules db"
  using assms unfolding acquire_source_state_fence_def Let_def insert_exclusive_reservation_def
  by (auto split: if_splits sum.splits)

lemma release_fence_frame [simp]:
  "db_sync_states (release_source_state_fence uuid db) = db_sync_states db"
  "db_cache (release_source_state_fence uuid db) = db_cache db"
  by (simp_all add: release_source_state_fence_def)

lemma ensure_state_step: "states_step now rows (ensure_state now window fenced v rows)"
proof -
  obtain i provider copySource where v: "v = (i, provider, copySource)" by (cases v)
  define rows1 where "rows1 = (if list_ex (\<lambda>r. ss_calendar_id r = i) rows then rows
      else rows @ [new_sync_state i provider window now])"
  have 1: "states_step now rows rows1"
    unfolding rows1_def by (auto intro!: states_step_insert simp: new_sync_state_def lease_shape_def)
  have 2: "states_step now rows1 (update_rows (\<lambda>r. ss_calendar_id r = i \<and> unleased now r)
         (\<lambda>r. r\<lparr>ss_strategy := provider, ss_cursor := '''', ss_window_start := sw_start window,
            ss_window_end := sw_end window, ss_generation := ss_generation r + 1,
            ss_status := (if ss_status r = ''parked'' then ss_status r else ''pending''),
            ss_next_sync_at := (if ss_status r = ''parked'' then ss_next_sync_at r else now),
            ss_last_error_code := (if ss_status r = ''parked'' then ss_last_error_code r else None),
            ss_lease_owner := None, ss_lease_until := None, ss_updated_at := now\<rparr>) rows1)"
    by (rule states_step_update) (simp add: lease_step_def lease_shape_def)
  show ?thesis
    unfolding ensure_state_def v using 1 states_step_trans [OF 1 2] by (simp add: rows1_def [symmetric] Let_def)
qed

lemma fold_ensure_step: "states_step now rows (fold (ensure_state now window fenced) vs rows)"
  by (induction vs arbitrary: rows) (simp_all, metis states_step_trans ensure_state_step)

lemma ensure_step:
  assumes "ensure_calendar_sync_states uuid now window db = Inr (u, db')"
  shows "states_step now (db_sync_states db) (db_sync_states db') \<and> db_cache db' = db_cache db"
  using assms fence_frame fold_ensure_step
  unfolding ensure_calendar_sync_states_def Let_def by (fastforce split: if_splits)

lemma claim_result:
  assumes "claim_due_calendar_sync uuid worker now until_at db = Inr (x, db')"
  obtains "x = None" "db' = db"
  | db1 fenced r where "acquire_source_state_fence uuid now db = Inr (fenced, db1)"
    "sort_key (\<lambda>r. (ss_next_sync_at r, ss_calendar_id r)) (filter (due_for_sync now fenced db1) (db_sync_states db))
       \<noteq> []"
    "r = hd (sort_key (\<lambda>r. (ss_next_sync_at r, ss_calendar_id r)) (filter (due_for_sync now fenced db1) (db_sync_states db)))"
    "worker \<noteq> ''''" "now < until_at"
    "count_rows (\<lambda>x. ss_calendar_id x = ss_calendar_id r \<and> unleased now x) (db_sync_states db) = 1"
    "x = Some ((scan_calendar_sync_state r)\<lparr>sc_generation := ss_generation r + 1, sc_status := ''syncing'',
       sc_lease_owner := worker, sc_lease_until := Some until_at, sc_last_started_at := Some now\<rparr>)"
    "db_sync_states db' = update_rows (\<lambda>x. ss_calendar_id x = ss_calendar_id r \<and> unleased now x)
       (claim_row_of worker now until_at) (db_sync_states db)"
    "db_cache db' = db_cache db"
proof -
  define K :: "bool \<times> sync_db \<Rightarrow> (sync_claim option \<times> sync_db) res" where "K = (\<lambda>(fenced, db1). case sort_key (\<lambda>r. (ss_next_sync_at r, ss_calendar_id r))
                 (filter (due_for_sync now fenced db1) (db_sync_states db1)) of
            [] \<Rightarrow> Inr (None, db)
          | r # _ \<Rightarrow>
              let hit = (\<lambda>x. ss_calendar_id x = ss_calendar_id r \<and> unleased now x) in
              if count_rows hit (db_sync_states db1) \<noteq> 1 then Inr (None, db)
              else let db2 = db1\<lparr>db_sync_states := update_rows hit (claim_row_of worker now until_at)
                           (db_sync_states db1)\<rparr> in
                Inr (Some ((scan_calendar_sync_state r)\<lparr>sc_generation := ss_generation r + 1,
                       sc_status := ''syncing'', sc_lease_owner := worker, sc_lease_until := Some until_at,
                       sc_last_started_at := Some now\<rparr>),
                     if fenced then release_source_state_fence uuid db2 else db2))"
  have ok: "worker \<noteq> ''''" "now < until_at" using assms by (auto simp: claim_due_calendar_sync_def split: if_splits)
  have "bind_res (map_err (ErrWrap ''fence calendar claim'') (acquire_source_state_fence uuid now db)) K = Inr (x, db')"
    using assms ok unfolding claim_due_calendar_sync_def K_def by simp
  then obtain fenced db1 where f: "acquire_source_state_fence uuid now db = Inr (fenced, db1)"
    and rest: "K (fenced, db1) = Inr (x, db')"
    by (elim bind_res_InrE) auto
  note frame = fence_frame [OF f]
  show thesis
  proof (cases "sort_key (\<lambda>r. (ss_next_sync_at r, ss_calendar_id r))
      (filter (due_for_sync now fenced db1) (db_sync_states db))")
    case Nil
    with rest that(1) frame show thesis by (simp add: K_def)
  next
    case (Cons r rs)
    note rest = rest [unfolded K_def Let_def prod.case, unfolded frame [THEN conjunct1] Cons list.case]
    show thesis
    proof (cases "count_rows (\<lambda>x. ss_calendar_id x = ss_calendar_id r \<and> unleased now x) (db_sync_states db) = 1")
      case True
      show thesis
        by (rule that(2) [OF f, of r]) (use rest Cons True ok frame in \<open>auto split: if_splits\<close>)
    next
      case False
      with rest that(1) show thesis by simp
    qed
  qed
qed

section \<open>Each transaction on the tables\<close>

text \<open>The rows a transaction writes bear a generation of their calendar.\<close>

definition writes_under :: "string \<Rightarrow> int \<Rightarrow> cache_tables \<Rightarrow> cache_tables \<Rightarrow> bool" where
  "writes_under cal g t t' \<longleftrightarrow> (cache_keys t \<longrightarrow> cache_keys t' \<and>
     (\<forall>r \<in> set (ct_events t'). r \<in> set (ct_events t) \<or> (ce_calendar_id r = cal \<and> ce_sync_generation r = g)))"

lemma change_writes: "change cal g E t t' \<Longrightarrow> writes_under cal g t t'"
  unfolding change_def writes_under_def by blast

lemma writes_under_refl [simp]: "writes_under cal g t t"
  by (simp add: writes_under_def)

lemma writes_under_sweep: "writes_under cal g t t' \<Longrightarrow> writes_under cal g t (sweep_generation cal' g' t')"
  unfolding writes_under_def using sweep_keys by (auto simp: sweep_generation_def)

lemma writes_under_same: "ct_events t' = ct_events t \<Longrightarrow> (cache_keys t \<Longrightarrow> cache_keys t') \<Longrightarrow> writes_under cal g t t'"
  by (simp add: writes_under_def)

lemma quarantine_update_writes:
  assumes "\<And>q. (qr_calendar_id (f q), qr_object_id (f q)) = (qr_calendar_id q, qr_object_id q)"
  shows "writes_under cal g t (t\<lparr>ct_quarantine := update_rows P f (ct_quarantine t)\<rparr>)"
proof (rule writes_under_same)
  show "cache_keys (t\<lparr>ct_quarantine := update_rows P f (ct_quarantine t)\<rparr>)" if "cache_keys t"
    using that update_rows_keys [of "\<lambda>q. (qr_calendar_id q, qr_object_id q)" "ct_quarantine t" f P] assms
    by (simp add: cache_keys_def)
qed simp

lemma page_writes:
  assumes "apply_event_sync_page zdb cipher c batch final now db = Inr (u, db')"
  shows "writes_under (sc_calendar_id c) (sc_generation c) (db_cache db) (db_cache db')"
proof -
  have "apply_event_sync_page zdb cipher c batch final now db = Inr ((), db')" using assms by simp
  then show ?thesis
  proof (rule apply_page_Inr)
    fix t
    assume t: "apply_changes zdb cipher (sc_calendar_id c) (sc_generation c) batch now (db_cache db) = Inr t"
      and "\<not> final \<Longrightarrow> db_cache db' = t \<and> db_sync_states db' = db_sync_states db"
      and "final \<Longrightarrow> count_rows (holds_lease c now) (db_sync_states db) = 1 \<and>
        db_cache db' = (if eb_full_sync batch then sweep_generation (sc_calendar_id c) (sc_generation c) t else t) \<and>
        db_sync_states db' = update_rows (holds_lease c now)
          (finished_row c batch (active_quarantine (sc_calendar_id c) t) now) (db_sync_states db)"
    then show ?thesis
      using change_writes [OF page_is_change [OF t]] writes_under_sweep by (cases final) auto
  qed
qed

lemma change_replace_membership:
  assumes "replace_membership zdb cal g batch now t = Inr t'"
  shows "writes_under cal g t t'"
proof -
  obtain t1 where t1: "fold_res (repair_upsert zdb cal (rb_object_id batch) g now) (rb_upserts batch)
      (tombstone_missing_object_members cal (rb_object_id batch) (map (\<lambda>u. ev_id (cu_event u)) (rb_upserts batch)) g now t)
      = Inr t1"
    and t': "t' = clear_event_sync_quarantine cal (rb_object_id batch) (upsert_object cal (rb_object_id batch) (rb_etag batch) g t1)"
    using assms by (auto simp: replace_membership_def Let_def split: if_splits)
  have member: "change cal g (\<lambda>V. V(ev_id (cu_event u) \<mapsto> (rb_object_id batch, stored_event ((cu_event u)\<lparr>ev_calendar_id := cal\<rparr>)))) x y"
    if "repair_upsert zdb cal (rb_object_id batch) g now u x = Inr y" for u x y
    using change_upsert [OF that [unfolded repair_upsert_def], of cal] by simp
  have "change cal g (fold (\<lambda>u V. V(ev_id (cu_event u) \<mapsto> (rb_object_id batch, stored_event ((cu_event u)\<lparr>ev_calendar_id := cal\<rparr>))))
      (rb_upserts batch)) (tombstone_missing_object_members cal (rb_object_id batch) (map (\<lambda>u. ev_id (cu_event u)) (rb_upserts batch)) g now t) t1"
    by (rule change_fold_res [OF t1]) (rule member)
  from change_trans [OF change_trans [OF change_trans [OF change_tombstone_missing this] change_object] change_clear_quarantine]
  show ?thesis unfolding t' by (rule change_writes)
qed

lemma writes_under_trans: "writes_under cal g t u \<Longrightarrow> writes_under cal g u t' \<Longrightarrow> writes_under cal g t t'"
  unfolding writes_under_def by blast

lemma record_correction_writes:
  assumes "record_correction cal obj now t = Inr t'"
  shows "writes_under cal' g t t'"
proof -
  have t': "t' = t\<lparr>ct_corrections := ct_corrections t @ [\<lparr>pc_calendar_id = cal, pc_object_id = obj,
      pc_outcome = ''provider_corrected'', pc_corrected_at = now\<rparr>]\<rparr>"
    and new: "\<not> list_ex (\<lambda>p. pc_calendar_id p = cal \<and> pc_object_id p = obj \<and> pc_corrected_at p = now) (ct_corrections t)"
    using assms by (auto simp: record_correction_def split: if_splits)
  show ?thesis
    by (rule writes_under_same) (use new in \<open>auto simp: t' cache_keys_def list_ex_iff\<close>)
qed

lemma keep_quarantined_writes:
  assumes "keep_quarantined cipher cal batch now t = Inr t'"
  shows "writes_under cal' g t t'"
proof -
  let ?again = "\<lambda>next_at q. q\<lparr>qr_next_repair_at := next_at, qr_repair_attempts := qr_repair_attempts q + 1\<rparr>"
  obtain w t1 where w: "upsert_event_sync_warning cipher cal w now t = Inr t1"
    and t': "t' = t1 \<or> (\<exists>next_at. t' = t1\<lparr>ct_quarantine := update_rows
      (\<lambda>q. quarantine_at cal (rb_object_id batch) q \<and> qr_active q) (?again next_at) (ct_quarantine t1)\<rparr>)"
    using assms unfolding keep_quarantined_def
    by (cases "rb_warning batch"; cases "rb_next_repair_at batch") (auto split: if_splits)
  have 1: "writes_under cal' g t t1" by (rule change_writes [OF change_warning [OF w]])
  have "writes_under cal' g t1 (t1\<lparr>ct_quarantine := update_rows P (?again next_at) (ct_quarantine t1)\<rparr>)" for P next_at
    by (rule quarantine_update_writes) simp
  with t' have "writes_under cal' g t1 t'" by auto
  with 1 show ?thesis by (rule writes_under_trans)
qed

lemma repair_writes:
  assumes "repair_changes zdb cipher cal g batch now t = Inr t'"
  shows "writes_under cal g t t'"
proof (cases "rb_outcome batch")
  case ReplaceMembership
  with assms show ?thesis by (auto simp: repair_changes_def intro: change_replace_membership)
next
  case ProviderCorrected
  with assms obtain u where "replace_membership zdb cal g batch now t = Inr u"
    "record_correction cal (rb_object_id batch) now u = Inr t'"
    by (auto simp: repair_changes_def)
  then show ?thesis
    by (rule writes_under_trans [OF change_replace_membership record_correction_writes])
next
  case AbsentFromProjection
  with assms change_writes [OF change_apply_object_deletion] show ?thesis by (auto simp: repair_changes_def)
next
  case ProviderDeleted
  with assms change_writes [OF change_apply_object_deletion] show ?thesis by (auto simp: repair_changes_def)
next
  case StillQuarantined
  with assms show ?thesis by (auto simp: repair_changes_def intro: keep_quarantined_writes)
next
  case (OtherOutcome s)
  with assms show ?thesis by (simp add: repair_changes_def)
qed

section \<open>The operations of a worker\<close>

text \<open>
  An accepted operation was taken under the lease of its claim, moves the state rows by
  \<open>lease_step\<close> and writes rows of the claim's generation only.
\<close>

lemma map_sum_Inr_iff: "map_sum f g r = Inr y \<longleftrightarrow> (\<exists>x. r = Inr x \<and> y = g x)"
  by (cases r) auto

lemma update_lease_step:
  assumes "update_lease c now f db = Inr (u, db')"
    and "\<And>r. holds_lease c now r \<Longrightarrow> lease_step now r (f r) \<and> (lease_shape r \<longrightarrow> lease_shape (f r))"
  shows "states_step now (db_sync_states db) (db_sync_states db') \<and> db_cache db' = db_cache db"
proof -
  have "update_lease c now f db = Inr ((), db')" using assms(1) by simp
  from update_lease_Inr [OF this] states_step_update [of "holds_lease c now" now f, OF assms(2)] show ?thesis by simp
qed

lemma finished_row_step: "lease_step now r (finished_row c batch quarantine now r) \<and> lease_shape (finished_row c batch quarantine now r)"
  by (simp add: lease_step_def lease_shape_def finished_row_def)

lemma page_states:
  assumes "apply_event_sync_page zdb cipher c batch final now db = Inr (u, db')"
  shows "list_ex (holds_lease c now) (db_sync_states db) \<and> states_step now (db_sync_states db) (db_sync_states db')"
proof -
  have page: "apply_event_sync_page zdb cipher c batch final now db = Inr ((), db')" using assms by simp
  show ?thesis
  proof (rule apply_page_Inr [OF page])
    fix t
    assume lock: "list_ex (holds_lease c now) (db_sync_states db)"
      and mid: "\<not> final \<Longrightarrow> db_cache db' = t \<and> db_sync_states db' = db_sync_states db"
      and fin: "final \<Longrightarrow> count_rows (holds_lease c now) (db_sync_states db) = 1 \<and>
        db_cache db' = (if eb_full_sync batch then sweep_generation (sc_calendar_id c) (sc_generation c) t else t) \<and>
        db_sync_states db' = update_rows (holds_lease c now)
          (finished_row c batch (active_quarantine (sc_calendar_id c) t) now) (db_sync_states db)"
    have "states_step now (db_sync_states db) (update_rows (holds_lease c now)
        (finished_row c batch (active_quarantine (sc_calendar_id c) t) now) (db_sync_states db))"
      by (rule states_step_update) (use finished_row_step in blast)
    with lock mid fin show ?thesis by (cases final) simp_all
  qed
qed

lemma perform_effect:
  assumes "perform zdb cipher c now x db = Inr db'"
  shows "list_ex (holds_lease c now) (db_sync_states db) \<and> states_step now (db_sync_states db) (db_sync_states db') \<and>
    writes_under (sc_calendar_id c) (sc_generation c) (db_cache db) (db_cache db')"
proof (cases x)
  case (RenewOp until_at)
  let ?hit = "\<lambda>r. holds_lease c now r \<and> the (ss_lease_until r) < until_at"
  have lock: "list_ex (holds_lease c now) (db_sync_states db)"
    and db': "db' = db\<lparr>db_sync_states := update_rows ?hit (\<lambda>r. r\<lparr>ss_lease_until := Some until_at, ss_updated_at := now\<rparr>) (db_sync_states db)\<rparr>"
    using assms by (auto simp: RenewOp renew_calendar_sync_lease_def Let_def lock_lease_Inr bind_res_Inr_iff map_sum_Inr_iff
        split: if_splits)
  have "states_step now (db_sync_states db) (db_sync_states db')"
    unfolding db' by simp (rule states_step_update, auto simp: lease_step_def lease_shape_def holds_lease_def)
  with lock show ?thesis by (simp add: db')
next
  case (PageOp batch final)
  then obtain u where "apply_event_sync_page zdb cipher c batch final now db = Inr (u, db')"
    using assms by (auto simp: map_sum_Inr_iff)
  with page_states page_writes show ?thesis by blast
next
  case (FailOp code next_at)
  then obtain u where lock: "list_ex (holds_lease c now) (db_sync_states db)" and
    "update_lease c now (\<lambda>r. r\<lparr>ss_status := ''failed'', ss_next_sync_at := next_at,
          ss_last_error_code := null_string code, ss_lease_owner := None, ss_lease_until := None,
          ss_updated_at := now\<rparr>) db = Inr (u, db')"
    using assms by (auto simp: fail_calendar_sync_def lock_lease_Inr bind_res_Inr_iff map_sum_Inr_iff split: if_splits)
  from lock update_lease_step [OF this(2)] show ?thesis by (auto simp: lease_step_def lease_shape_def)
next
  case (ParkOp code)
  then obtain u f where lock: "list_ex (holds_lease c now) (db_sync_states db)" and
    "update_lease c now f db = Inr (u, db')" and
    f: "\<And>r. lease_step now r (f r) \<and> lease_shape (f r)"
    using assms by (auto simp: park_calendar_sync_def lock_lease_Inr bind_res_Inr_iff map_sum_Inr_iff lease_step_def
        lease_shape_def split: if_splits)
  from lock update_lease_step [OF this(2)] f show ?thesis by simp
next
  case ResetOp
  then obtain u where lock: "list_ex (holds_lease c now) (db_sync_states db)" and
    "update_lease c now (\<lambda>r. r\<lparr>ss_cursor := '''', ss_generation := ss_generation r + 1, ss_updated_at := now\<rparr>) db = Inr (u, db')"
    using assms by (auto simp: reset_calendar_sync_def lock_lease_Inr bind_res_Inr_iff map_sum_Inr_iff split: if_splits)
  note update = this(2)
  have "lease_step now r (r\<lparr>ss_cursor := '''', ss_generation := ss_generation r + 1, ss_updated_at := now\<rparr>) \<and>
      (lease_shape r \<longrightarrow> lease_shape (r\<lparr>ss_cursor := '''', ss_generation := ss_generation r + 1, ss_updated_at := now\<rparr>))" for r
    by (simp add: lease_step_def lease_shape_cong [of "r\<lparr>ss_cursor := '''', ss_generation := ss_generation r + 1, ss_updated_at := now\<rparr>" r])
  with lock update_lease_step [OF update] show ?thesis by simp
next
  case (RepairOp batch)
  then obtain t where "list_ex (holds_lease c now) (db_sync_states db)"
    "repair_changes zdb cipher (sc_calendar_id c) (sc_generation c) batch now (db_cache db) = Inr t"
    "db' = db\<lparr>db_cache := t\<rparr>"
    using assms by (auto simp: apply_event_sync_object_repair_def lock_lease_Inr bind_res_Inr_iff map_sum_Inr_iff split: if_splits)
  with repair_writes show ?thesis by auto
next
  case (ConsumeOp obj etag)
  then have "list_ex (holds_lease c now) (db_sync_states db)" and
    "db' = db\<lparr>db_cache := (db_cache db)\<lparr>ct_quarantine := update_rows (authorized (sc_calendar_id c) obj etag)
       (\<lambda>q. q\<lparr>qr_authorized_etag := ''''\<rparr>) (ct_quarantine (db_cache db))\<rparr>\<rparr>"
    using assms by (auto simp: consume_event_sync_provider_mutation_authorization_def Let_def lock_lease_Inr
        bind_res_Inr_iff map_sum_Inr_iff split: if_splits)
  moreover have "writes_under (sc_calendar_id c) (sc_generation c) t (t\<lparr>ct_quarantine := update_rows P
      (\<lambda>q. q\<lparr>qr_authorized_etag := ''''\<rparr>) (ct_quarantine t)\<rparr>)" for t P
    by (rule quarantine_update_writes) simp
  ultimately show ?thesis by simp
qed

section \<open>The invariant\<close>

definition generations_ok :: "sync_db \<Rightarrow> bool" where
  "generations_ok db \<longleftrightarrow> (\<forall>e \<in> set (ct_events (db_cache db)). \<exists>r \<in> set (db_sync_states db).
     ss_calendar_id r = ce_calendar_id e \<and> ce_sync_generation e \<le> ss_generation r)"

definition sync_ok :: "sync_moment \<Rightarrow> bool" where
  "sync_ok m \<longleftrightarrow> distinct (map ss_calendar_id (db_sync_states (snd m))) \<and>
     list_all lease_shape (db_sync_states (snd m)) \<and> cache_keys (db_cache (snd m)) \<and> generations_ok (snd m)"

lemma lease_step_generation: "lease_step now r r' \<Longrightarrow> ss_generation r \<le> ss_generation r'"
  unfolding lease_step_def by auto

lemma sync_ok_step:
  assumes ok: "sync_ok (now, db)" and states: "states_step now (db_sync_states db) (db_sync_states db')"
    and writes: "writes_under cal g (db_cache db) (db_cache db')"
    and g: "ct_events (db_cache db') = ct_events (db_cache db) \<or>
      (\<exists>r \<in> set (db_sync_states db). ss_calendar_id r = cal \<and> g \<le> ss_generation r)"
  shows "sync_ok (now', db')"
proof -
  have grow: "\<exists>r' \<in> set (db_sync_states db'). ss_calendar_id r' = cal' \<and> n \<le> ss_generation r'"
    if r: "r \<in> set (db_sync_states db)" "ss_calendar_id r = cal'" "n \<le> ss_generation r" for r cal' n
  proof -
    obtain r' where r': "r' \<in> set (db_sync_states db')" "lease_step now r r'"
      using states_step_forward [OF states r(1)] by blast
    with r(2,3) lease_step_id [OF r'(2)] lease_step_generation [OF r'(2)] show ?thesis by (intro bexI [of _ r']) simp_all
  qed
  have keys: "cache_keys (db_cache db')" using writes ok by (simp add: writes_under_def sync_ok_def)
  have "generations_ok db'"
    unfolding generations_ok_def
  proof
    fix e
    assume e: "e \<in> set (ct_events (db_cache db'))"
    then have "e \<in> set (ct_events (db_cache db)) \<or>
        (\<exists>r \<in> set (db_sync_states db). ss_calendar_id r = ce_calendar_id e \<and> ce_sync_generation e \<le> ss_generation r)"
      using writes ok g unfolding writes_under_def sync_ok_def by auto
    then have "\<exists>r \<in> set (db_sync_states db). ss_calendar_id r = ce_calendar_id e \<and> ce_sync_generation e \<le> ss_generation r"
      using ok unfolding sync_ok_def generations_ok_def by auto
    then show "\<exists>r \<in> set (db_sync_states db'). ss_calendar_id r = ce_calendar_id e \<and> ce_sync_generation e \<le> ss_generation r"
      using grow by blast
  qed
  with keys ok states_step_distinct [OF states] states_step_shape [OF states] show ?thesis by (simp add: sync_ok_def)
qed

lemma claim_step:
  assumes "claim_due_calendar_sync uuid worker now until_at db = Inr (x, db')"
  shows "states_step now (db_sync_states db) (db_sync_states db') \<and> db_cache db' = db_cache db"
proof (rule claim_result [OF assms])
  assume "db' = db"
  then show ?thesis by simp
next
  fix r
  assume "db_sync_states db' = update_rows (\<lambda>x. ss_calendar_id x = ss_calendar_id r \<and> unleased now x)
      (claim_row_of worker now until_at) (db_sync_states db)" and "db_cache db' = db_cache db"
  moreover have "states_step now (db_sync_states db) (update_rows (\<lambda>x. ss_calendar_id x = ss_calendar_id r \<and> unleased now x)
      (claim_row_of worker now until_at) (db_sync_states db))"
    by (rule states_step_update) (simp add: lease_step_def lease_shape_def claim_row_of_def)
  ultimately show ?thesis by simp
qed

lemma schedule_step:
  assumes "schedule_calendar_sync cal now reset db = Inr (u, db')"
  shows "states_step now (db_sync_states db) (db_sync_states db') \<and> db_cache db' = db_cache db"
  using assms unfolding schedule_calendar_sync_def Let_def
  by (auto split: if_splits intro!: states_step_update simp: lease_step_def lease_shape_def)

lemma schedule_repair_step:
  assumes "schedule_event_sync_object_repair cal obj etag now db = Inr (b, db')"
  shows "states_step now (db_sync_states db) (db_sync_states db') \<and> writes_under cal' g (db_cache db) (db_cache db') \<and>
    ct_events (db_cache db') = ct_events (db_cache db)"
proof -
  define t where "t = authorize_repair cal obj etag (db_cache db)"
  have db': "db_cache db' = t\<lparr>ct_quarantine := update_rows (due_later cal obj etag now)
        (\<lambda>q. q\<lparr>qr_next_repair_at := now\<rparr>) (ct_quarantine t)\<rparr>"
    "db_sync_states db' = update_rows (sleeping cal now) (\<lambda>r. r\<lparr>ss_next_sync_at := now, ss_updated_at := now\<rparr>) (db_sync_states db)"
    using assms unfolding schedule_event_sync_object_repair_def Let_def t_def by (auto split: if_splits)
  have "writes_under cal' g (db_cache db) t"
    unfolding t_def authorize_repair_def by (rule quarantine_update_writes) simp
  moreover have "writes_under cal' g t (db_cache db')"
    unfolding db' by (rule quarantine_update_writes) simp
  ultimately have "writes_under cal' g (db_cache db) (db_cache db')" by (rule writes_under_trans)
  moreover have "states_step now (db_sync_states db) (db_sync_states db')"
    unfolding db' by (rule states_step_update)
      (simp add: lease_step_def lease_shape_cong [of "_\<lparr>ss_next_sync_at := now, ss_updated_at := now\<rparr>"])
  moreover have "ct_events (db_cache db') = ct_events (db_cache db)"
    unfolding db' by (simp add: t_def authorize_repair_def)
  ultimately show ?thesis by blast
qed

lemma select_state:
  assumes "select_sync_state cal db = Inr state"
  shows "\<exists>r \<in> set (db_sync_states db). ss_calendar_id r = cal \<and> sc_generation state = ss_generation r"
  using assms by (auto simp: select_sync_state_def scan_calendar_sync_state_def find_Some_iff split: option.splits)

lemma sync_ok_same:
  assumes "sync_ok (now, db)" and "states_step now (db_sync_states db) (db_sync_states db')"
    and same: "db_cache db' = db_cache db"
  shows "sync_ok (now', db')"
proof (rule sync_ok_step [OF assms(1,2)])
  show "writes_under '''' 0 (db_cache db) (db_cache db')" unfolding same by (rule writes_under_refl)
  show "ct_events (db_cache db') = ct_events (db_cache db) \<or>
      (\<exists>r \<in> set (db_sync_states db). ss_calendar_id r = '''' \<and> 0 \<le> ss_generation r)"
    unfolding same by (rule disjI1) (rule refl)
qed

section \<open>Lost claims\<close>

definition claim_overtaken :: "sync_claim \<Rightarrow> sync_moment \<Rightarrow> bool" where
  "claim_overtaken c m \<longleftrightarrow>
     (\<exists>r \<in> set (db_sync_states (snd m)). ss_calendar_id r = sc_calendar_id c) \<and>
     (\<forall>r \<in> set (db_sync_states (snd m)). ss_calendar_id r = sc_calendar_id c \<longrightarrow>
        sc_generation c \<le> ss_generation r \<and> \<not> holds_lease c (fst m) r)"

lemma lease_step_lost:
  assumes step: "lease_step now r r'" and lost: "sc_generation c \<le> ss_generation r" "\<not> holds_lease c now r"
    and r: "ss_calendar_id r = sc_calendar_id c"
  shows "sc_generation c \<le> ss_generation r' \<and> \<not> holds_lease c now r'"
proof (cases "ss_generation r < ss_generation r'")
  case True
  with lost(1) show ?thesis by (simp add: holds_lease_def)
next
  case False
  with step have g: "ss_generation r' = ss_generation r" and owner: "ss_lease_owner r' = None \<or>
      ss_lease_owner r' = ss_lease_owner r \<and> (ss_lease_until r' = ss_lease_until r \<and>
          (ss_status r' = ss_status r \<or> ss_status r' \<noteq> ''syncing'') \<or> (\<exists>c. holds_lease c now r))"
    unfolding lease_step_def by auto
  have "\<not> holds_lease c now r'"
  proof
    assume held: "holds_lease c now r'"
    with owner g r lost(2) show False unfolding holds_lease_def by auto
  qed
  with g lost(1) show ?thesis by simp
qed

section \<open>Properties\<close>


lemma claim_facts:
  assumes "claim_due_calendar_sync uuid worker now until_at db = Inr (Some c, db')"
  obtains fenced db1 r where "acquire_source_state_fence uuid now db = Inr (fenced, db1)"
    "r \<in> set (db_sync_states db)" "due_for_sync now fenced db1 r"
    "\<forall>q \<in> set (db_sync_states db). due_for_sync now fenced db1 q \<longrightarrow>
       (ss_next_sync_at r, ss_calendar_id r) \<le> (ss_next_sync_at q, ss_calendar_id q)"
    "c = (scan_calendar_sync_state r)\<lparr>sc_generation := ss_generation r + 1, sc_status := ''syncing'',
       sc_lease_owner := worker, sc_lease_until := Some until_at, sc_last_started_at := Some now\<rparr>"
    "unleased now r" "now < until_at"
    "db_sync_states db' = update_rows (\<lambda>x. ss_calendar_id x = ss_calendar_id r \<and> unleased now x)
       (claim_row_of worker now until_at) (db_sync_states db)"
    "db_cache db' = db_cache db"
proof (rule claim_result [OF assms])
  fix db1 fenced r
  let ?due = "filter (due_for_sync now fenced db1) (db_sync_states db)"
  let ?key = "\<lambda>r. (ss_next_sync_at r, ss_calendar_id r)"
  assume 1: "acquire_source_state_fence uuid now db = Inr (fenced, db1)" and some: "sort_key ?key ?due \<noteq> []"
    and r: "r = hd (sort_key ?key ?due)" and 2: "now < until_at"
    and c: "Some c = Some ((scan_calendar_sync_state r)\<lparr>sc_generation := ss_generation r + 1, sc_status := ''syncing'',
       sc_lease_owner := worker, sc_lease_until := Some until_at, sc_last_started_at := Some now\<rparr>)"
    and 3: "db_sync_states db' = update_rows (\<lambda>x. ss_calendar_id x = ss_calendar_id r \<and> unleased now x)
       (claim_row_of worker now until_at) (db_sync_states db)" "db_cache db' = db_cache db"
  have "r \<in> set (sort_key ?key ?due)" unfolding r by (rule hd_in_set [OF some])
  then have r_in: "r \<in> set (db_sync_states db)" "due_for_sync now fenced db1 r" by simp_all
  have "sorted (map ?key (sort_key ?key ?due))" by simp
  with some r have "\<forall>q \<in> set (sort_key ?key ?due). ?key r \<le> ?key q"
    by (cases "sort_key ?key ?due") auto
  then have least: "\<forall>q \<in> set (db_sync_states db). due_for_sync now fenced db1 q \<longrightarrow> ?key r \<le> ?key q" by simp
  have "unleased now r" using r_in(2) by (auto simp: due_for_sync_def split: option.splits)
  with that 1 r_in least c 2 3 show thesis by simp
qed simp

text \<open>
  C13. A granted claim: its calendar was due and the earliest of those, the claim holds the lease,
  its generation is new (no cached event bears it, so that a full synchronization under it
  replaces the calendar), and every claim of the calendar with an earlier generation is overtaken.
\<close>

theorem claim_starts_new_generation:
  assumes claim: "claim_due_calendar_sync uuid worker now until_at db = Inr (Some c, db')" and ok: "sync_ok (now, db)"
  shows "list_ex (holds_lease c now) (db_sync_states db') \<and> sc_lease_owner c = worker \<and>
    (\<exists>r \<in> set (db_sync_states db). ss_calendar_id r = sc_calendar_id c \<and> ss_next_sync_at r \<le> now \<and> unleased now r \<and>
       ss_cursor r = sc_cursor c \<and> sc_generation c = ss_generation r + 1) \<and>
    (\<forall>e \<in> set (ct_events (db_cache db')). ce_calendar_id e = sc_calendar_id c \<longrightarrow> ce_sync_generation e < sc_generation c) \<and>
    (\<forall>c'. sc_calendar_id c' = sc_calendar_id c \<and> sc_generation c' < sc_generation c \<longrightarrow> claim_overtaken c' (now, db'))"
proof -
  obtain fenced db1 r where fence: "acquire_source_state_fence uuid now db = Inr (fenced, db1)"
    and r: "r \<in> set (db_sync_states db)" "due_for_sync now fenced db1 r" "unleased now r"
    and c: "c = (scan_calendar_sync_state r)\<lparr>sc_generation := ss_generation r + 1, sc_status := ''syncing'',
       sc_lease_owner := worker, sc_lease_until := Some until_at, sc_last_started_at := Some now\<rparr>"
    and until_at: "now < until_at"
    and rows: "db_sync_states db' = update_rows (\<lambda>x. ss_calendar_id x = ss_calendar_id r \<and> unleased now x)
       (claim_row_of worker now until_at) (db_sync_states db)"
    and cache: "db_cache db' = db_cache db"
    by (rule claim_facts [OF claim]) blast
  have dist: "distinct (map ss_calendar_id (db_sync_states db))" using ok by (simp add: sync_ok_def)
  have only: "q = r" if "q \<in> set (db_sync_states db)" "ss_calendar_id q = ss_calendar_id r" for q
    using dist that r(1) by (simp add: distinct_map inj_on_def)
  have fields: "sc_calendar_id c = ss_calendar_id r" "sc_generation c = ss_generation r + 1" "sc_lease_owner c = worker"
    "sc_cursor c = ss_cursor r"
    by (simp_all add: c scan_calendar_sync_state_def)
  have row: "claim_row_of worker now until_at r \<in> set (db_sync_states db')"
    unfolding rows mem_update_rows using r by (intro bexI [of _ r]) simp_all
  have "holds_lease c now (claim_row_of worker now until_at r)"
    using until_at by (simp add: holds_lease_def claim_row_of_def fields)
  with row have "list_ex (holds_lease c now) (db_sync_states db')" by (auto simp: list_ex_iff)
  moreover have "ss_next_sync_at r \<le> now" using r(2) by (auto simp: due_for_sync_def split: option.splits)
  moreover have "ce_sync_generation e < sc_generation c"
    if e: "e \<in> set (ct_events (db_cache db'))" "ce_calendar_id e = sc_calendar_id c" for e
  proof -
    from ok e(1) cache obtain q where "q \<in> set (db_sync_states db)" "ss_calendar_id q = ce_calendar_id e"
      "ce_sync_generation e \<le> ss_generation q"
      unfolding sync_ok_def generations_ok_def by auto
    with only [of q] e(2) fields show ?thesis by simp
  qed
  moreover have "claim_overtaken c' (now, db')"
    if c': "sc_calendar_id c' = sc_calendar_id c" "sc_generation c' < sc_generation c" for c'
  proof -
    have "q' = claim_row_of worker now until_at r" if "q' \<in> set (db_sync_states db')" "ss_calendar_id q' = ss_calendar_id r" for q'
    proof -
      from that(1) obtain q where q: "q \<in> set (db_sync_states db)"
        "q' = (if ss_calendar_id q = ss_calendar_id r \<and> unleased now q then claim_row_of worker now until_at q else q)"
        unfolding rows mem_update_rows by blast
      then have "ss_calendar_id q = ss_calendar_id r" using that(2) by (auto simp: claim_row_of_def split: if_splits)
      with only [OF q(1)] q(2) r(3) show ?thesis by simp
    qed
    note row_only = this
    show ?thesis
      unfolding claim_overtaken_def
    proof (intro conjI ballI impI)
      show "\<exists>r \<in> set (db_sync_states (snd (now, db'))). ss_calendar_id r = sc_calendar_id c'"
        by (rule bexI [of _ "claim_row_of worker now until_at r"]) (use row c'(1) fields(1) in \<open>simp_all add: claim_row_of_def\<close>)
      fix q
      assume "q \<in> set (db_sync_states (snd (now, db')))" "ss_calendar_id q = sc_calendar_id c'"
      then have "q = claim_row_of worker now until_at r" using row_only [of q] c'(1) fields(1) by simp
      then have "ss_generation q = sc_generation c" by (simp add: claim_row_of_def fields(2))
      with c'(2) show "sc_generation c' \<le> ss_generation q" "\<not> holds_lease c' (fst (now, db')) q"
        by (simp_all add: holds_lease_def)
    qed
  qed
  ultimately show ?thesis
    using r(1,3) by (intro conjI bexI [of _ r] ballI allI impI) (simp_all add: fields)
qed


section \<open>Concrete runs\<close>

definition lease_db :: sync_db where
  "lease_db = sample_cache_db\<lparr>
     db_connections := [\<lparr>cn_id = ''k'', cn_provider = ''google'', cn_account_fingerprint = '''', cn_display_name = '''',
       cn_status = ''connected''\<rparr>],
     db_calendars := [\<lparr>cl_id = ''c'', cl_connection_id = ''k'', cl_provider_calendar_id = ''p'', cl_name = '''',
       cl_timezone = '''', cl_can_read = True, cl_can_write = True, cl_supports_recurrence = True,
       cl_google_primary = False, cl_enabled = True, cl_discovered_at = 0\<rparr>]\<rparr>"

lemmas lease_db_defs = lease_db_def sample_cache_db_def sample_state_def empty_db_def empty_cache_def

lemma lease_db_ok: "sync_ok (10, lease_db)"
  by (simp add: sync_ok_def lease_db_defs lease_shape_def cache_keys_def generations_ok_def sample_row_def)



lemma lease_db_claim: "\<exists>c db'. claim_due_calendar_sync ''u'' ''v'' 10 20 lease_db = Inr (Some c, db')"
  by (simp add: claim_due_calendar_sync_def acquire_source_state_fence_def insert_exclusive_reservation_def
      lease_db_defs Let_def due_for_sync_def source_connection_def unleased_def)

theorem claim_starts_new_generation_witness:
  "\<exists>c db'. claim_due_calendar_sync ''u'' ''v'' 10 20 lease_db = Inr (Some c, db') \<and>
     sc_lease_owner c = ''v'' \<and> sc_generation c = 3 \<and> claim_overtaken sample_claim (10, db')"
proof -
  obtain c db' where claim: "claim_due_calendar_sync ''u'' ''v'' 10 20 lease_db = Inr (Some c, db')"
    using lease_db_claim by blast
  note new = claim_starts_new_generation [OF claim lease_db_ok]
  from new obtain r where "r \<in> set (db_sync_states lease_db)" "ss_calendar_id r = sc_calendar_id c"
    "sc_generation c = ss_generation r + 1" by blast
  then have c: "sc_calendar_id c = ''c''" "sc_generation c = 3" by (simp_all add: lease_db_defs)
  have "sc_calendar_id sample_claim = ''c''" "sc_generation sample_claim = 2"
    by (simp_all add: sample_claim_def scan_calendar_sync_state_def sample_state_def)
  with new c have "claim_overtaken sample_claim (10, db')" by simp
  with claim new c show ?thesis by blast
qed

lemma sample_claim_overtaken: "claim_overtaken sample_claim (10, lease_db)"
  by (simp add: claim_overtaken_def lease_db_defs holds_lease_def sample_claim_def scan_calendar_sync_state_def)

end
