(* ===== verification/Projection_Store.thy ===== *)
theory Projection_Store
  imports Event_Pages Projection
begin

text \<open>
  The immutable projections of source calendars (\<open>src/internal/storage/projection_payload.go\<close>,
  \<open>projection_snapshots.go\<close>, \<open>projection_snapshot_inspection.go\<close>,
  \<open>projection_preview_read.go\<close>, \<open>source_projection_reader.go\<close>): how pages and events become
  stored bytes and back, the candidates and published revisions of a calendar, and the reads that
  refuse every revision that the source has outgrown.  The encoding of whole structs by
  \<open>encoding/json\<close> is the parameter \<open>projection_codec\<close>; everything the code does around it
  (limits, duplicate keys, evidence, digests) is written out.
\<close>

section \<open>Payloads (projection_payload.go)\<close>

definition maxProjectionSnapshotBytes :: nat where "maxProjectionSnapshotBytes = 33554432"
definition maxProjectionObservationBytes :: nat where "maxProjectionObservationBytes = 4194304"
definition maxProjectionSnapshotRevisions :: nat where "maxProjectionSnapshotRevisions = 2"
definition projectionPageLimit :: nat where "projectionPageLimit = 250"
definition projectionPageSizeLimit :: nat where "projectionPageSizeLimit = 33554432"
definition projectionAttemptSizeLimit :: nat where "projectionAttemptSizeLimit = 33554432"
definition projectionAttemptCountLimit :: nat where "projectionAttemptCountLimit = 8"

record attendee_evidence =
  ae_event_id :: string
  ae_complete :: "bool option"

record page_payload =
  pp_version :: int
  pp_page :: "event_sync_page option"
  pp_evidence :: "attendee_evidence list option"

record snapshot_payload =
  sy_version :: int
  sy_events :: "event_v2 list option"
  sy_evidence :: "attendee_evidence list option"

text \<open>
  \<open>pc_parse\<close> reads the first JSON value of a text, the strict readers are the decoders with
  \<open>DisallowUnknownFields\<close> that also want the end of the text, \<open>pc_unmarshal_observations\<close>
  is \<open>json.Unmarshal\<close>, and \<open>pc_compact\<close> is the copy of a \<open>json.RawMessage\<close>.
\<close>

record projection_codec =
  pc_valid :: "string \<Rightarrow> bool"
  pc_parse :: "string \<Rightarrow> json option"
  pc_compact :: "string \<Rightarrow> string option"
  pc_page_text :: "page_payload \<Rightarrow> string res"
  pc_read_page :: "string \<Rightarrow> page_payload option"
  pc_snapshot_text :: "snapshot_payload \<Rightarrow> string res"
  pc_read_snapshot :: "string \<Rightarrow> snapshot_payload option"
  pc_observation_text :: "removal_observation \<Rightarrow> string res"
  pc_read_observations :: "string \<Rightarrow> removal_observation list option"
  pc_unmarshal_observations :: "string \<Rightarrow> removal_observation list option"

definition page_stage_error :: err where "page_stage_error = Sentinel ErrProjectionPageStage"

definition evidence_step ::
  "string \<Rightarrow> event_v2 \<Rightarrow> attendee_evidence list \<Rightarrow> attendee_evidence list res" where
  "evidence_step source event evidence =
     (if ev_id event = '''' \<or> ev_calendar_id event \<noteq> source \<or> ev_id event \<in> set (map ae_event_id evidence)
      then Inl page_stage_error
      else Inr (evidence @ [\<lparr>ae_event_id = ev_id event, ae_complete = Some (ev_source_attendees_complete event)\<rparr>]))"

definition projection_evidence :: "event_v2 list \<Rightarrow> string \<Rightarrow> (attendee_evidence list) res" where
  "projection_evidence events source =
     (if source = '''' then Inl page_stage_error else fold_res (evidence_step source) events [])"

definition evidence_entry ::
  "attendee_evidence \<Rightarrow> (string \<times> bool) list \<Rightarrow> ((string \<times> bool) list) res" where
  "evidence_entry item byID = (case ae_complete item of
       None \<Rightarrow> Inl page_stage_error
     | Some complete \<Rightarrow>
         if ae_event_id item = '''' \<or> map_of byID (ae_event_id item) \<noteq> None then Inl page_stage_error
         else Inr (AList.update (ae_event_id item) complete byID))"

definition restore_event :: "(string \<times> bool) list \<Rightarrow> event_v2 \<Rightarrow> event_v2 list \<Rightarrow> (event_v2 list) res" where
  "restore_event byID event restored = (case map_of byID (ev_id event) of
       None \<Rightarrow> Inl page_stage_error
     | Some complete \<Rightarrow> Inr (restored @ [event\<lparr>ev_source_attendees_complete := complete\<rparr>]))"

definition restore_projection_evidence ::
  "event_v2 list \<Rightarrow> attendee_evidence list option \<Rightarrow> string \<Rightarrow> (event_v2 list) res" where
  "restore_projection_evidence events evidence source = (case evidence of
       None \<Rightarrow> Inl page_stage_error
     | Some items \<Rightarrow>
         if length items \<noteq> length events then Inl page_stage_error
         else bind_res (projection_evidence events source) (\<lambda>_.
              bind_res (fold_res evidence_entry items []) (\<lambda>byID.
              fold_res (restore_event byID) events [])))"

text \<open>No object of the value has two members whose names agree up to case.\<close>

fun unique_members :: "unicode_case \<Rightarrow> json \<Rightarrow> bool" where
  "unique_members U (JObject members) \<longleftrightarrow> distinct (map (\<lambda>m. to_lower U (fst m)) members) \<and>
     list_all (\<lambda>m. unique_members U (snd m)) members"
| "unique_members U (JArray items) \<longleftrightarrow> list_all (unique_members U) items"
| "unique_members U _ \<longleftrightarrow> True"

definition decode_projection_payload ::
  "unicode_case \<Rightarrow> projection_codec \<Rightarrow> string \<Rightarrow> nat \<Rightarrow> (string \<Rightarrow> 'a option) \<Rightarrow> 'a res" where
  "decode_projection_payload U K data limit read =
     (if data = '''' \<or> limit < length data then Inl page_stage_error
      else case pc_parse K data of
        None \<Rightarrow> Inl page_stage_error
      | Some j \<Rightarrow> if \<not> unique_members U j then Inl page_stage_error
          else (case read data of None \<Rightarrow> Inl page_stage_error | Some x \<Rightarrow> Inr x))"

definition encode_projection_page_payload :: "projection_codec \<Rightarrow> event_sync_page \<Rightarrow> string \<Rightarrow> string res" where
  "encode_projection_page_payload K page source =
     bind_res (projection_evidence (map up_event (sp_upserts page)) source) (\<lambda>evidence.
       pc_page_text K \<lparr>pp_version = 1, pp_page = Some page, pp_evidence = Some evidence\<rparr>)"

definition place_events :: "event_sync_page \<Rightarrow> event_v2 list \<Rightarrow> event_sync_page" where
  "place_events page events = page\<lparr>sp_upserts := map2 (\<lambda>u e. u\<lparr>up_event := e\<rparr>) (sp_upserts page) events\<rparr>"

definition decode_projection_page_payload ::
  "unicode_case \<Rightarrow> projection_codec \<Rightarrow> string \<Rightarrow> string \<Rightarrow> event_sync_page res" where
  "decode_projection_page_payload U K data source =
     bind_res (decode_projection_payload U K data projectionPageSizeLimit (pc_read_page K)) (\<lambda>envelope.
       case pp_page envelope of
         None \<Rightarrow> Inl page_stage_error
       | Some page \<Rightarrow>
           if pp_version envelope \<noteq> 1 \<or> sp_next_page_token page \<noteq> '''' \<or> sp_next_cursor page \<noteq> '''' \<or>
              sp_reset_required page \<or> sp_warnings page \<noteq> [] \<or>
              list_ex (\<lambda>u. so_object_id (up_object u) \<noteq> ev_id (up_event u)) (sp_upserts page)
           then Inl page_stage_error
           else bind_res (restore_projection_evidence (map up_event (sp_upserts page)) (pp_evidence envelope) source)
                  (\<lambda>events. Inr (place_events page events)))"

definition encode_projection_snapshot_payload :: "projection_codec \<Rightarrow> event_v2 list \<Rightarrow> string \<Rightarrow> string res" where
  "encode_projection_snapshot_payload K events source =
     bind_res (projection_evidence events source) (\<lambda>evidence.
       pc_snapshot_text K \<lparr>sy_version = 1, sy_events = Some events, sy_evidence = Some evidence\<rparr>)"

definition decode_projection_snapshot_payload ::
  "unicode_case \<Rightarrow> projection_codec \<Rightarrow> string \<Rightarrow> string \<Rightarrow> (event_v2 list) res" where
  "decode_projection_snapshot_payload U K data source =
     bind_res (decode_projection_payload U K data maxProjectionSnapshotBytes (pc_read_snapshot K)) (\<lambda>envelope.
       case sy_events envelope of
         None \<Rightarrow> Inl page_stage_error
       | Some events \<Rightarrow>
           if sy_version envelope \<noteq> 1 then Inl page_stage_error
           else restore_projection_evidence events (sy_evidence envelope) source)"

text \<open>\<open>json.Marshal\<close> of a slice that is nil when it is empty.\<close>

definition observations_text :: "projection_codec \<Rightarrow> removal_observation list \<Rightarrow> string res" where
  "observations_text K os =
     (if os = [] then Inr ''null''
      else bind_res (fold_res (\<lambda>o' acc. bind_res (pc_observation_text K o') (\<lambda>t. Inr (acc @ [t]))) os [])
             (\<lambda>texts. Inr (json_array texts)))"

section \<open>The guard of a calendar\<close>

definition guard_revision :: "string \<Rightarrow> sync_db \<Rightarrow> int" where
  "guard_revision cal db = (case map_of (pt_revisions (db_projection db)) cal of None \<Rightarrow> 0 | Some r \<Rightarrow> r)"

definition set_guard_revision :: "string \<Rightarrow> int \<Rightarrow> projection_tables \<Rightarrow> projection_tables" where
  "set_guard_revision cal revision t = t\<lparr>pt_revisions := AList.update cal revision (pt_revisions t)\<rparr>"

definition pending_intents :: "string \<Rightarrow> sync_db \<Rightarrow> nat" where
  "pending_intents cal db = count_rows (\<lambda>x. fst x = cal) (db_intents db)"

definition lock_projection_guard_row :: "string \<Rightarrow> sync_db \<Rightarrow> unit res" where
  "lock_projection_guard_row cal db =
     (if count_rows (\<lambda>g. fst g = cal) (db_guards db) \<noteq> 1 then Inl (Sentinel ErrNotFound) else Inr ())"

definition lock_projection_snapshot_guard :: "string \<Rightarrow> int \<Rightarrow> int \<Rightarrow> sync_db \<Rightarrow> unit res" where
  "lock_projection_snapshot_guard cal expectedEpoch expectedRevision db =
     bind_res (lock_projection_guard_row cal db) (\<lambda>_.
       if map_of (db_guards db) cal \<noteq> Some expectedEpoch \<or> guard_revision cal db \<noteq> expectedRevision \<or>
          pending_intents cal db \<noteq> 0
       then Inl (Sentinel ErrProjectionSnapshotStale) else Inr ())"

definition valid_timezone :: "zonedb \<Rightarrow> string \<Rightarrow> bool" where
  "valid_timezone zdb tz \<longleftrightarrow> tz \<noteq> '''' \<and> tz \<noteq> ''Local'' \<and> load_location zdb tz \<noteq> None"

section \<open>Candidates and revisions (projection_snapshots.go)\<close>

record snapshot_input =
  sx_calendar_id :: string
  sx_stage_id :: string
  sx_timezone :: string
  sx_guard_epoch :: int
  sx_base_revision :: "int option"
  sx_window_start :: instant
  sx_window_end :: instant
  sx_completed_at :: instant
  sx_cursor :: string
  sx_payload :: string
  sx_complete :: bool

definition snapshot_candidate_ok :: "projection_codec \<Rightarrow> snapshot_input \<Rightarrow> bool" where
  "snapshot_candidate_ok K sx \<longleftrightarrow> sx_calendar_id sx \<noteq> '''' \<and> valid_projection_mutation_id (sx_stage_id sx) \<and>
     0 \<le> sx_guard_epoch sx \<and> (case sx_base_revision sx of None \<Rightarrow> False | Some b \<Rightarrow> 0 \<le> b) \<and> sx_complete sx \<and>
     sx_window_start sx \<noteq> zero_time \<and> sx_window_start sx < sx_window_end sx \<and> sx_completed_at sx \<noteq> zero_time \<and>
     length (sx_cursor sx) \<le> 4096 \<and> length (sx_payload sx) \<le> maxProjectionSnapshotBytes \<and> pc_valid K (sx_payload sx)"

definition published_stage :: "string \<Rightarrow> string \<Rightarrow> sync_db \<Rightarrow> bool" where
  "published_stage cal stage db =
     list_ex (\<lambda>p. sn_calendar_id p = cal \<and> sn_stage_id p = stage) (pt_snapshots (db_projection db))"

definition staged_row :: "snapshot_input \<Rightarrow> snapshot_row" where
  "staged_row sx = \<lparr>sn_calendar_id = sx_calendar_id sx, sn_revision = 0, sn_stage_id = sx_stage_id sx,
     sn_guard_epoch = sx_guard_epoch sx, sn_base_revision = the (sx_base_revision sx),
     sn_window_start = sx_window_start sx, sn_window_end = sx_window_end sx, sn_completed_at = sx_completed_at sx,
     sn_timezone = sx_timezone sx, sn_cursor = sx_cursor sx, sn_payload = sx_payload sx, sn_verified = False,
     sn_observations = None\<rparr>"

definition stage_projection_snapshot :: "zonedb \<Rightarrow> projection_codec \<Rightarrow> snapshot_input \<Rightarrow> unit tx" where
  "stage_projection_snapshot zdb K sx db =
     (let cal = sx_calendar_id sx in
      if \<not> valid_timezone zdb (sx_timezone sx) then Inl (ErrText ''invalid snapshot calendar time zone'')
      else if \<not> snapshot_candidate_ok K sx then Inl (ErrText ''invalid projection snapshot candidate'')
      else if \<not> list_ex (\<lambda>c. cl_id c = cal) (db_calendars db) \<and> \<not> list_ex (\<lambda>g. fst g = cal) (db_guards db)
      then Inl (ErrWrap ''initialize snapshot guard'' foreign_key_violation)
      else let db1 = init_guard cal db in
        bind_res (lock_projection_snapshot_guard cal (sx_guard_epoch sx) (the (sx_base_revision sx)) db1) (\<lambda>_.
          if published_stage cal (sx_stage_id sx) db1 then Inl (Sentinel ErrProjectionSnapshotAlreadyPublished)
          else if list_ex (\<lambda>p. sn_calendar_id p = cal) (pt_staging (db_projection db1))
          then Inl (ErrWrap ''store snapshot stage'' unique_violation)
          else Inr ((), db1\<lparr>db_projection := (db_projection db1)\<lparr>pt_staging :=
                 pt_staging (db_projection db1) @ [staged_row sx]\<rparr>\<rparr>)))"

definition stage_at :: "string \<Rightarrow> string \<Rightarrow> snapshot_row \<Rightarrow> bool" where
  "stage_at cal stage p \<longleftrightarrow> sn_calendar_id p = cal \<and> sn_stage_id p = stage"

definition publish_row :: "string \<Rightarrow> string \<Rightarrow> int \<Rightarrow> snapshot_row \<Rightarrow> projection_tables \<Rightarrow> projection_tables" where
  "publish_row cal stage revision row t = set_guard_revision cal revision
     (t\<lparr>pt_snapshots := pt_snapshots t @ [row\<lparr>sn_revision := revision, sn_verified := False, sn_observations := None\<rparr>],
        pt_staging := filter (\<lambda>p. \<not> stage_at cal stage p) (pt_staging t)\<rparr>)"

definition publish_projection_snapshot :: "string \<Rightarrow> string \<Rightarrow> int tx" where
  "publish_projection_snapshot cal stage db =
     (if cal = '''' \<or> \<not> valid_projection_mutation_id stage then Inl (ErrText ''invalid projection snapshot identity'')
      else bind_res (lock_projection_guard_row cal db) (\<lambda>_.
        if published_stage cal stage db then Inl (Sentinel ErrProjectionSnapshotAlreadyPublished)
        else case find (stage_at cal stage) (pt_staging (db_projection db)) of
          None \<Rightarrow> Inl (Sentinel ErrNotFound)
        | Some row \<Rightarrow>
            let revision = guard_revision cal db in
            if map_of (db_guards db) cal \<noteq> Some (sn_guard_epoch row) \<or> revision \<noteq> sn_base_revision row \<or>
               pending_intents cal db \<noteq> 0
            then Inl (Sentinel ErrProjectionSnapshotStale)
            else if maxProjectionSnapshotRevisions \<le>
               count_rows (\<lambda>p. sn_calendar_id p = cal) (pt_snapshots (db_projection db))
            then Inl (Sentinel ErrProjectionSnapshotLimit)
            else if revision = max_int64 then Inl (ErrText ''projection snapshot revision exhausted'')
            else if list_ex (\<lambda>p. sn_calendar_id p = cal \<and> sn_revision p = revision + 1)
               (pt_snapshots (db_projection db))
            then Inl (ErrWrap ''publish snapshot data'' unique_violation)
            else Inr (revision + 1, db\<lparr>db_projection :=
                   publish_row cal stage (revision + 1) row (db_projection db)\<rparr>)))"

definition discard_projection_snapshot_stage :: "string \<Rightarrow> string \<Rightarrow> unit tx" where
  "discard_projection_snapshot_stage cal stage db =
     (if cal = '''' \<or> \<not> valid_projection_mutation_id stage then Inl (ErrText ''invalid projection snapshot identity'')
      else bind_res (lock_projection_guard_row cal db) (\<lambda>_.
        if count_rows (stage_at cal stage) (pt_staging (db_projection db)) \<noteq> 1 then Inl (Sentinel ErrNotFound)
        else Inr ((), db\<lparr>db_projection := (db_projection db)\<lparr>pt_staging :=
               filter (\<lambda>p. \<not> stage_at cal stage p) (pt_staging (db_projection db))\<rparr>\<rparr>)))"

definition snapshot_at :: "string \<Rightarrow> int \<Rightarrow> sync_db \<Rightarrow> snapshot_row option" where
  "snapshot_at cal revision db =
     find (\<lambda>p. sn_calendar_id p = cal \<and> sn_revision p = revision) (pt_snapshots (db_projection db))"

text \<open>The columns of the snapshot table; the observations are in another one.\<close>

definition snapshot_columns :: "snapshot_row \<Rightarrow> snapshot_row" where
  "snapshot_columns p = p\<lparr>sn_observations := None\<rparr>"

definition get_projection_snapshot :: "string \<Rightarrow> int \<Rightarrow> sync_db \<Rightarrow> snapshot_row res" where
  "get_projection_snapshot cal revision db =
     (if cal = '''' \<or> revision < 1 then Inl (ErrText ''invalid projection snapshot reference'')
      else case snapshot_at cal revision db of
        None \<Rightarrow> Inl (Sentinel ErrNotFound)
      | Some p \<Rightarrow> Inr (snapshot_columns p))"

definition get_projection_snapshot_by_stage_id :: "string \<Rightarrow> string \<Rightarrow> sync_db \<Rightarrow> snapshot_row res" where
  "get_projection_snapshot_by_stage_id cal stage db =
     (if cal = '''' \<or> \<not> valid_projection_mutation_id stage then Inl (ErrText ''invalid projection snapshot identity'')
      else case find (stage_at cal stage) (pt_snapshots (db_projection db)) of
        None \<Rightarrow> Inl (Sentinel ErrNotFound)
      | Some p \<Rightarrow> Inr (snapshot_columns p))"

section \<open>Reading the current revision\<close>

text \<open>\<open>time.Time.Sub\<close> saturates at the bounds of a duration.\<close>

definition time_sub :: "instant \<Rightarrow> instant \<Rightarrow> int" where
  "time_sub a b = max (- max_int64 - 1) (min max_int64 (a - b))"

text \<open>
  The row that the reads join: the guard, its current revision, the calendar, its connection and
  its synchronization state.
\<close>

record source_view =
  sv_snapshot :: snapshot_row
  sv_epoch :: int
  sv_pending :: bool
  sv_quarantined :: bool
  sv_calendar :: calendar_row
  sv_connection :: connection_row
  sv_state :: calendar_sync_state

definition current_source :: "string \<Rightarrow> sync_db \<Rightarrow> source_view option" where
  "current_source cal db = (case (map_of (db_guards db) cal, snapshot_at cal (guard_revision cal db) db,
         source_connection cal db, find (\<lambda>s. ss_calendar_id s = cal) (db_sync_states db)) of
       (Some epoch, Some p, Some (c, n), Some s) \<Rightarrow>
         Some \<lparr>sv_snapshot = p, sv_epoch = epoch, sv_pending = (pending_intents cal db \<noteq> 0),
           sv_quarantined = active_quarantine cal (db_cache db), sv_calendar = c, sv_connection = n, sv_state = s\<rparr>
     | _ \<Rightarrow> None)"

text \<open>The conditions both reads check.\<close>

definition source_view_ok :: "zonedb \<Rightarrow> source_view \<Rightarrow> instant \<Rightarrow> instant \<Rightarrow> instant \<Rightarrow> int \<Rightarrow> bool" where
  "source_view_ok zdb v windowStart windowEnd now maxAge \<longleftrightarrow>
     (let p = sv_snapshot v; s = sv_state v; tz = cl_timezone (sv_calendar v) in
      sn_verified p \<and> valid_timezone zdb tz \<and> tz = sn_timezone p \<and> cl_enabled (sv_calendar v) \<and>
      cl_can_read (sv_calendar v) \<and> cn_status (sv_connection v) = ''connected'' \<and> ss_status s = ''ready'' \<and>
      \<not> sv_pending v \<and> \<not> sv_quarantined v \<and> sv_epoch v = sn_guard_epoch p \<and> sn_cursor p \<noteq> '''' \<and>
      ss_cursor s = sn_cursor p \<and>
      (case ss_last_success_at s of None \<Rightarrow> False | Some t \<Rightarrow> sn_completed_at p \<le> t) \<and>
      sn_window_start p = ss_window_start s \<and> sn_window_end p = ss_window_end s \<and>
      sn_window_start p \<le> windowStart \<and> windowEnd \<le> sn_window_end p \<and> sn_completed_at p \<le> now \<and>
      time_sub now (sn_completed_at p) \<le> maxAge)"

definition snapshot_unavailable :: err where
  "snapshot_unavailable = Sentinel ErrProjectionSnapshotUnavailable"

record snapshot_inspection =
  sq_snapshot :: snapshot_row
  sq_calendar_timezone :: string

definition inspect_projection_snapshot_candidate ::
  "zonedb \<Rightarrow> string \<Rightarrow> instant \<Rightarrow> instant \<Rightarrow> instant \<Rightarrow> int \<Rightarrow> sync_db \<Rightarrow> snapshot_inspection res" where
  "inspect_projection_snapshot_candidate zdb cal windowStart windowEnd now maxAge db =
     (if cal = '''' \<or> windowStart = zero_time \<or> \<not> windowStart < windowEnd \<or> now = zero_time \<or> maxAge \<le> 0
      then Inl (ErrText ''invalid projection snapshot inspection request'')
      else case current_source cal db of
        None \<Rightarrow> Inl snapshot_unavailable
      | Some v \<Rightarrow>
          if \<not> source_view_ok zdb v windowStart windowEnd now maxAge then Inl snapshot_unavailable
          else Inr \<lparr>sq_snapshot = snapshot_columns (sv_snapshot v),
                 sq_calendar_timezone = cl_timezone (sv_calendar v)\<rparr>)"

record preview_snapshot =
  ps_revision :: int
  ps_timezone :: string
  ps_events :: "event_v2 list"

definition read_projection_preview_snapshot ::
  "unicode_case \<Rightarrow> zonedb \<Rightarrow> projection_codec \<Rightarrow> string \<Rightarrow> instant \<Rightarrow> instant \<Rightarrow> instant \<Rightarrow> int \<Rightarrow> sync_db \<Rightarrow>
   preview_snapshot res" where
  "read_projection_preview_snapshot U zdb K cal start stop now maxAge db =
     bind_res (inspect_projection_snapshot_candidate zdb cal start stop now maxAge db) (\<lambda>candidate.
       case decode_projection_snapshot_payload U K (sn_payload (sq_snapshot candidate)) cal of
         Inl _ \<Rightarrow> Inl snapshot_unavailable
       | Inr events \<Rightarrow> Inr \<lparr>ps_revision = sn_revision (sq_snapshot candidate),
           ps_timezone = sq_calendar_timezone candidate, ps_events = events\<rparr>)"

record source_projection =
  sj_snapshot :: snapshot_row
  sj_events :: "event_v2 list"
  sj_observations :: "removal_observation list"

definition observation_valid :: "removal_observation \<Rightarrow> bool" where
  "observation_valid o' \<longleftrightarrow> rm_object_id (ro_removal o') \<noteq> '''' \<and>
     (rm_reason (ro_removal o') = EventSyncProviderCancellation \<or> rm_reason (ro_removal o') = EventSyncWindowEviction) \<and>
     (ro_unresolved o' \<or> ro_previous_identity o' \<noteq> '''')"

definition get_source_projection_for_copy ::
  "unicode_case \<Rightarrow> zonedb \<Rightarrow> projection_codec \<Rightarrow> string \<Rightarrow> instant \<Rightarrow> instant \<Rightarrow> instant \<Rightarrow> int \<Rightarrow> sync_db \<Rightarrow>
   source_projection res" where
  "get_source_projection_for_copy U zdb K cal start stop now maxAge db =
     (if cal = '''' \<or> start = zero_time \<or> \<not> start < stop \<or> now = zero_time \<or> maxAge \<le> 0
      then Inl snapshot_unavailable
      else case current_source cal db of
        None \<Rightarrow> Inl snapshot_unavailable
      | Some v \<Rightarrow> (case sn_observations (sv_snapshot v) of
          None \<Rightarrow> Inl snapshot_unavailable
        | Some raw \<Rightarrow>
            if \<not> source_view_ok zdb v start stop now maxAge \<or> cn_provider (sv_connection v) \<noteq> ''google'' \<or>
               raw = '''' \<or> maxProjectionObservationBytes < length raw
            then Inl snapshot_unavailable
            else (case (decode_projection_snapshot_payload U K (sn_payload (sv_snapshot v)) cal,
                    decode_projection_payload U K raw maxProjectionObservationBytes (pc_read_observations K)) of
                (Inr events, Inr observations) \<Rightarrow>
                  if \<not> list_all observation_valid observations then Inl snapshot_unavailable
                  else Inr \<lparr>sj_snapshot = snapshot_columns (sv_snapshot v), sj_events = events,
                         sj_observations = observations\<rparr>
              | _ \<Rightarrow> Inl snapshot_unavailable)))"

definition check_source_projection_current ::
  "unicode_case \<Rightarrow> zonedb \<Rightarrow> projection_codec \<Rightarrow> string \<Rightarrow> int \<Rightarrow> instant \<Rightarrow> instant \<Rightarrow> instant \<Rightarrow> int \<Rightarrow> sync_db \<Rightarrow>
   unit res" where
  "check_source_projection_current U zdb K cal revision start stop now maxAge db =
     bind_res (get_source_projection_for_copy U zdb K cal start stop now maxAge db) (\<lambda>val.
       if revision < 1 \<or> sn_revision (sj_snapshot val) \<noteq> revision then Inl snapshot_unavailable else Inr ())"

end
