(* ===== verification/Projection_Publish.thy ===== *)
theory Projection_Publish
  imports Projection_Store
begin

text \<open>
  How the pages of a synchronization become a published projection
  (\<open>src/internal/storage/projection_page_staging.go\<close>, \<open>projection_page_chain.go\<close>,
  \<open>projection_page_apply.go\<close>, \<open>projection_finalization_prepare.go\<close>,
  \<open>projection_finalizer.go\<close>, \<open>projection_retention.go\<close>,
  \<open>source_projection_final_page.go\<close>, \<open>source_projection_sync.go\<close> and the deferral of
  \<open>source_sync_fence.go\<close>).  An operation that reads the clock several times
  (\<open>now.Add(time.Since(started))\<close>) takes the readings as a function \<open>t\<close> of their order.
\<close>

section \<open>Attempts (projection_page_staging.go)\<close>

record page_attempt_input =
  pi_calendar_id :: string
  pi_attempt_id :: string
  pi_timezone :: string
  pi_generation :: int
  pi_guard_epoch :: int
  pi_base_revision :: int
  pi_mode :: event_sync_mode
  pi_base_cursor :: string
  pi_window_start :: instant
  pi_window_end :: instant

primrec mode_text :: "event_sync_mode \<Rightarrow> string" where
  "mode_text EventSyncIncremental = ''incremental''"
| "mode_text EventSyncReplacement = ''replacement''"
| "mode_text (EventSyncModeOther s) = s"

definition read_mode :: "string \<Rightarrow> event_sync_mode" where
  "read_mode s = (if s = ''incremental'' then EventSyncIncremental
     else if s = ''replacement'' then EventSyncReplacement else EventSyncModeOther s)"

definition projection_page_hash :: "string \<Rightarrow> string" where
  "projection_page_hash b = sha256_hex b"

text \<open>The row and lease locks: the calendar and its connection exist.\<close>

definition lock_projection_page_source :: "string \<Rightarrow> sync_db \<Rightarrow> unit res" where
  "lock_projection_page_source cal db =
     (if source_connection cal db = None then Inl page_stage_error else Inr ())"

definition page_stage_source :: "string \<Rightarrow> sync_db \<Rightarrow> (calendar_sync_state \<times> calendar_row \<times> connection_row) res" where
  "page_stage_source cal db = (case (find (\<lambda>s. ss_calendar_id s = cal) (db_sync_states db), source_connection cal db) of
       (Some s, Some (c, n)) \<Rightarrow> Inr (s, c, n)
     | _ \<Rightarrow> Inl (ErrWrap ''read page stage source'' (ErrExt ''sql: no rows in result set'')))"

text \<open>The source is the connected Google calendar the attempt was frozen for.\<close>

definition frozen_source ::
  "string \<Rightarrow> string \<Rightarrow> instant \<Rightarrow> instant \<Rightarrow> calendar_sync_state \<times> calendar_row \<times> connection_row \<Rightarrow> bool" where
  "frozen_source cursor tz windowStart windowEnd src = (case src of (s, c, n) \<Rightarrow>
     cl_enabled c \<and> cl_can_read c \<and> cn_provider n = ''google'' \<and> cn_status n = ''connected'' \<and>
     ss_cursor s = cursor \<and> cl_timezone c = tz \<and> ss_window_start s = windowStart \<and> ss_window_end s = windowEnd)"

definition page_attempt_input_ok :: "zonedb \<Rightarrow> sync_claim \<Rightarrow> page_attempt_input \<Rightarrow> instant \<Rightarrow> bool" where
  "page_attempt_input_ok zdb c pin now \<longleftrightarrow> sc_calendar_id c \<noteq> '''' \<and> pi_calendar_id pin = sc_calendar_id c \<and>
     sc_lease_owner c \<noteq> '''' \<and> pi_generation pin = sc_generation c \<and>
     valid_projection_mutation_id (pi_attempt_id pin) \<and> 0 \<le> pi_guard_epoch pin \<and> 0 \<le> pi_base_revision pin \<and>
     pi_window_start pin \<noteq> zero_time \<and> pi_window_start pin < pi_window_end pin \<and> now \<noteq> zero_time \<and>
     length (pi_base_cursor pin) \<le> 4096 \<and> valid_timezone zdb (pi_timezone pin) \<and>
     (pi_mode pin = EventSyncReplacement \<and> pi_base_cursor pin = '''' \<or>
      pi_mode pin = EventSyncIncremental \<and> pi_base_cursor pin \<noteq> '''' \<and> pi_base_revision pin \<noteq> 0)"

text \<open>The base of an incremental attempt: a verified revision of the same cursor, zone, window and epoch.\<close>

definition base_matches :: "page_attempt_input \<Rightarrow> snapshot_row \<Rightarrow> bool" where
  "base_matches pin p \<longleftrightarrow> sn_verified p \<and> sn_cursor p = pi_base_cursor pin \<and> sn_timezone p = pi_timezone pin \<and>
     sn_window_start p = pi_window_start pin \<and> sn_window_end p = pi_window_end pin \<and>
     sn_guard_epoch p = pi_guard_epoch pin"

definition check_attempt_base :: "page_attempt_input \<Rightarrow> sync_db \<Rightarrow> unit res" where
  "check_attempt_base pin db =
     (if 0 < pi_base_revision pin then
        (case snapshot_at (pi_calendar_id pin) (pi_base_revision pin) db of
           None \<Rightarrow> Inl page_stage_error
         | Some p \<Rightarrow> if pi_mode pin = EventSyncIncremental \<and> \<not> base_matches pin p then Inl page_stage_error else Inr ())
      else Inr ())"

definition attempt_row :: "sync_claim \<Rightarrow> page_attempt_input \<Rightarrow> page_attempt_row" where
  "attempt_row c pin = \<lparr>ap_calendar_id = pi_calendar_id pin, ap_generation = pi_generation pin,
     ap_attempt_id = pi_attempt_id pin, ap_lease_owner = sc_lease_owner c, ap_mode = mode_text (pi_mode pin),
     ap_base_revision = pi_base_revision pin, ap_base_cursor = pi_base_cursor pin,
     ap_guard_epoch = pi_guard_epoch pin, ap_window_start = pi_window_start pin, ap_window_end = pi_window_end pin,
     ap_timezone = pi_timezone pin, ap_next_ordinal = 0, ap_next_token_hash = projection_page_hash '''',
     ap_total_bytes = 0, ap_complete = False, ap_final_cursor = ''''\<rparr>"

text \<open>Deleting an attempt deletes its pages.\<close>

definition drop_attempts :: "(string \<Rightarrow> int \<Rightarrow> bool) \<Rightarrow> projection_tables \<Rightarrow> projection_tables" where
  "drop_attempts P t = t\<lparr>pt_attempts := filter (\<lambda>a. \<not> P (ap_calendar_id a) (ap_generation a)) (pt_attempts t),
     pt_pages := filter (\<lambda>g. \<not> P (pg_calendar_id g) (pg_generation g)) (pt_pages t)\<rparr>"

definition start_projection_page_attempt ::
  "zonedb \<Rightarrow> sync_claim \<Rightarrow> page_attempt_input \<Rightarrow> instant \<Rightarrow> (nat \<Rightarrow> instant) \<Rightarrow> unit tx" where
  "start_projection_page_attempt zdb c pin now t db =
     (let cal = pi_calendar_id pin in
      if \<not> page_attempt_input_ok zdb c pin now then Inl page_stage_error
      else bind_res (lock_projection_page_source cal db) (\<lambda>_.
      bind_res (lock_calendar_sync_lease c (t 0) db) (\<lambda>_.
      bind_res (page_stage_source cal db) (\<lambda>src.
      if \<not> frozen_source (pi_base_cursor pin) (pi_timezone pin) (pi_window_start pin) (pi_window_end pin) src
      then Inl page_stage_error
      else let db1 = init_guard cal db in
      bind_res (lock_projection_snapshot_guard cal (pi_guard_epoch pin) (pi_base_revision pin) db1) (\<lambda>_.
      bind_res (lock_calendar_sync_lease c (t 1) db1) (\<lambda>_.
      bind_res (check_attempt_base pin db1) (\<lambda>_.
      let pt = drop_attempts (\<lambda>cal' g. cal' = cal \<and> g < pi_generation pin) (db_projection db1) in
      if projectionAttemptCountLimit \<le> count_rows (\<lambda>a. ap_calendar_id a = cal) (pt_attempts pt)
      then Inl page_stage_error
      else if list_ex (\<lambda>a. ap_calendar_id a = cal \<and>
             (ap_generation a = pi_generation pin \<or> ap_attempt_id a = pi_attempt_id pin)) (pt_attempts pt)
      then Inl (ErrWrap ''create page stage'' unique_violation)
      else let db2 = db1\<lparr>db_projection := pt\<lparr>pt_attempts := pt_attempts pt @ [attempt_row c pin]\<rparr>\<rparr> in
      bind_res (lock_calendar_sync_lease c (t 2) db2) (\<lambda>_. Inr ((), db2)))))))))"

definition valid_page_deletion :: "string \<Rightarrow> string list \<Rightarrow> (string list) res" where
  "valid_page_deletion i deleted = (if i = '''' \<or> i \<in> set deleted then Inl page_stage_error else Inr (i # deleted))"

definition valid_page_removal :: "string list \<Rightarrow> event_sync_removal \<Rightarrow> string list \<Rightarrow> (string list) res" where
  "valid_page_removal deleted removal seen =
     (if rm_object_id removal = '''' \<or>
         (rm_reason removal \<noteq> EventSyncProviderCancellation \<and> rm_reason removal \<noteq> EventSyncWindowEviction) \<or>
         rm_object_id removal \<notin> set deleted \<or> rm_object_id removal \<in> set seen
      then Inl page_stage_error else Inr (rm_object_id removal # seen))"

definition valid_page_upsert ::
  "string \<Rightarrow> string list \<Rightarrow> event_sync_upsert \<Rightarrow> string list \<Rightarrow> (string list) res" where
  "valid_page_upsert cal deleted item upserts =
     (let e = up_event item in
      if ev_id e = '''' \<or> ev_calendar_id e \<noteq> cal \<or> so_object_id (up_object item) \<noteq> ev_id e \<or>
         ev_status e = ''cancelled'' \<or> ev_instance_kind e = ''cancelled'' \<or> ev_instance_kind e = ''seriesMaster'' \<or>
         slice_list (ev_recurrence e) \<noteq> [] \<or> ev_id e \<in> set deleted \<or> ev_id e \<in> set upserts
      then Inl page_stage_error else Inr (ev_id e # upserts))"

definition validate_projection_google_page :: "string \<Rightarrow> event_sync_page \<Rightarrow> unit res" where
  "validate_projection_google_page cal page =
     (if sp_reset_required page \<or> sp_warnings page \<noteq> [] \<or> 2500 < length (sp_upserts page) \<or>
         2500 < length (sp_deleted_event_ids page) \<or> sp_deleted_object_ids page \<noteq> [] \<or>
         sp_replaced_object_ids page \<noteq> [] \<or> sp_inventory page \<noteq> []
      then Inl page_stage_error
      else if (if sp_complete page then sp_next_page_token page \<noteq> '''' \<or> sp_next_cursor page = ''''
               else sp_next_page_token page = '''' \<or> sp_next_cursor page \<noteq> '''')
      then Inl page_stage_error
      else bind_res (fold_res valid_page_deletion (sp_deleted_event_ids page) []) (\<lambda>deleted.
           bind_res (fold_res (valid_page_removal deleted) (sp_removals page) []) (\<lambda>seen.
           if length seen \<noteq> length deleted then Inl page_stage_error
           else bind_res (fold_res (valid_page_upsert cal deleted) (sp_upserts page) []) (\<lambda>_. Inr ()))))"

text \<open>The digest covers the payload, both token hashes and the cursor of the last page.\<close>

definition page_digest :: "projection_codec \<Rightarrow> string \<Rightarrow> string \<Rightarrow> string \<Rightarrow> string \<Rightarrow> string res" where
  "page_digest K payload previous next_hash cursor = (case pc_compact K payload of
       None \<Rightarrow> Inl page_stage_error
     | Some raw \<Rightarrow> Inr (projection_page_hash (CHR ''{'' # join_with '',''
         [json_member ''Payload'' raw, json_member ''Previous'' (json_string previous),
          json_member ''Next'' (json_string next_hash), json_member ''Cursor'' (json_string cursor)] @ ''}'')))"

definition attempt_at :: "string \<Rightarrow> int \<Rightarrow> string \<Rightarrow> page_attempt_row \<Rightarrow> bool" where
  "attempt_at cal generation attemptID a \<longleftrightarrow>
     ap_calendar_id a = cal \<and> ap_generation a = generation \<and> ap_attempt_id a = attemptID"

definition page_at :: "string \<Rightarrow> int \<Rightarrow> page_row \<Rightarrow> bool" where
  "page_at cal generation g \<longleftrightarrow> pg_calendar_id g = cal \<and> pg_generation g = generation"

definition repeated_token :: "string \<Rightarrow> int \<Rightarrow> string \<Rightarrow> projection_tables \<Rightarrow> bool" where
  "repeated_token cal generation hash pt =
     list_ex (\<lambda>g. page_at cal generation g \<and> pg_next_hash g = hash) (pt_pages pt)"

definition stage_page ::
  "sync_claim \<Rightarrow> string \<Rightarrow> page_row \<Rightarrow> page_attempt_row \<Rightarrow> bool \<Rightarrow> string \<Rightarrow> projection_tables \<Rightarrow> projection_tables" where
  "stage_page c attemptID g a complete cursor pt = pt\<lparr>pt_pages := pt_pages pt @ [g],
     pt_attempts := update_rows (attempt_at (sc_calendar_id c) (sc_generation c) attemptID)
       (\<lambda>x. x\<lparr>ap_next_ordinal := pg_ordinal g + 1, ap_next_token_hash := pg_next_hash g,
          ap_total_bytes := ap_total_bytes a + int (length (pg_payload g)), ap_complete := complete,
          ap_final_cursor := cursor\<rparr>) (pt_attempts pt)\<rparr>"

definition page_request_ok ::
  "sync_claim \<Rightarrow> string \<Rightarrow> int \<Rightarrow> string \<Rightarrow> string \<Rightarrow> event_sync_page \<Rightarrow> instant \<Rightarrow> bool" where
  "page_request_ok c attemptID ordinal previousToken observedTimezone page now \<longleftrightarrow>
     sc_calendar_id c \<noteq> '''' \<and> sc_lease_owner c \<noteq> '''' \<and> valid_projection_mutation_id attemptID \<and>
     0 \<le> ordinal \<and> ordinal < int projectionPageLimit \<and> length previousToken \<le> 4096 \<and>
     length (sp_next_page_token page) \<le> 4096 \<and> length (sp_next_cursor page) \<le> 4096 \<and> now \<noteq> zero_time \<and>
     sp_source_time_zone page \<noteq> '''' \<and> sp_source_time_zone page = observedTimezone"

definition bare_page :: "event_sync_page \<Rightarrow> event_sync_page" where
  "bare_page page = page\<lparr>sp_next_page_token := '''', sp_next_cursor := ''''\<rparr>"

text \<open>The row that a page becomes.\<close>

definition page_row_of ::
  "projection_codec \<Rightarrow> sync_claim \<Rightarrow> int \<Rightarrow> string \<Rightarrow> event_sync_page \<Rightarrow> page_row res" where
  "page_row_of K c ordinal previousToken page =
     (let cal = sc_calendar_id c; prevHash = projection_page_hash previousToken;
          nextHash = projection_page_hash (sp_next_page_token page) in
      bind_res (map_err (\<lambda>_. page_stage_error) (encode_projection_page_payload K (bare_page page) cal)) (\<lambda>payload.
        if projectionPageSizeLimit < length payload then Inl page_stage_error
        else bind_res (page_digest K payload prevHash nextHash (sp_next_cursor page)) (\<lambda>digest.
          Inr \<lparr>pg_calendar_id = cal, pg_generation = sc_generation c, pg_ordinal = ordinal, pg_hash = digest,
               pg_previous_hash = prevHash, pg_next_hash = nextHash, pg_payload = payload\<rparr>)))"

definition append_projection_page_tx ::
  "projection_codec \<Rightarrow> sync_claim \<Rightarrow> string \<Rightarrow> int \<Rightarrow> string \<Rightarrow> string \<Rightarrow> event_sync_page \<Rightarrow> instant \<Rightarrow> instant \<Rightarrow>
   instant \<Rightarrow> unit tx" where
  "append_projection_page_tx K c attemptID ordinal previousToken observedTimezone page now t1 t2 db =
     (let cal = sc_calendar_id c; pt = db_projection db in
      if \<not> page_request_ok c attemptID ordinal previousToken observedTimezone page now then Inl page_stage_error
      else bind_res (validate_projection_google_page cal page) (\<lambda>_.
      bind_res (page_row_of K c ordinal previousToken page) (\<lambda>g.
      case find (attempt_at cal (sc_generation c) attemptID) (pt_attempts pt) of
        None \<Rightarrow> Inl page_stage_error
      | Some a \<Rightarrow>
          if ap_lease_owner a \<noteq> sc_lease_owner c \<or> observedTimezone \<noteq> ap_timezone a then Inl page_stage_error
          else bind_res (page_stage_source cal db) (\<lambda>src.
          if \<not> frozen_source (ap_base_cursor a) (ap_timezone a) (ap_window_start a) (ap_window_end a) src
          then Inl page_stage_error
          else bind_res (lock_projection_snapshot_guard cal (ap_guard_epoch a) (ap_base_revision a) db) (\<lambda>_.
          bind_res (lock_calendar_sync_lease c t1 db) (\<lambda>_.
          if ordinal < ap_next_ordinal a then
            (case find (\<lambda>x. page_at cal (sc_generation c) x \<and> pg_ordinal x = ordinal) (pt_pages pt) of
               None \<Rightarrow> Inl page_stage_error
             | Some old \<Rightarrow> if pg_hash old \<noteq> pg_hash g then Inl page_stage_error
                 else Inl (Sentinel ErrProjectionPageAlreadyStaged))
          else if ap_complete a \<or> ordinal \<noteq> ap_next_ordinal a \<or> ap_next_token_hash a \<noteq> pg_previous_hash g \<or>
             int projectionAttemptSizeLimit < ap_total_bytes a + int (length (pg_payload g))
          then Inl page_stage_error
          else if \<not> sp_complete page \<and> (pg_next_hash g = pg_previous_hash g \<or>
             repeated_token cal (sc_generation c) (pg_next_hash g) pt)
          then Inl page_stage_error
          else if list_ex (\<lambda>x. page_at cal (sc_generation c) x \<and> pg_ordinal x = ordinal) (pt_pages pt)
          then Inl (ErrWrap ''insert staged page'' unique_violation)
          else let db1 = db\<lparr>db_projection := stage_page c attemptID g a (sp_complete page) (sp_next_cursor page) pt\<rparr> in
            bind_res (lock_calendar_sync_lease c t2 db1) (\<lambda>_. Inr ((), db1))))))))"

definition append_projection_page ::
  "projection_codec \<Rightarrow> sync_claim \<Rightarrow> string \<Rightarrow> int \<Rightarrow> string \<Rightarrow> string \<Rightarrow> event_sync_page \<Rightarrow> instant \<Rightarrow>
   (nat \<Rightarrow> instant) \<Rightarrow> unit tx" where
  "append_projection_page K c attemptID ordinal previousToken observedTimezone page now t db =
     bind_res (lock_projection_page_source (sc_calendar_id c) db) (\<lambda>_.
     bind_res (lock_calendar_sync_lease c (t 0) db) (\<lambda>_.
       case append_projection_page_tx K c attemptID ordinal previousToken observedTimezone page now (t 1) (t 2) db of
         Inr r \<Rightarrow> Inr r
       | Inl e \<Rightarrow> if err_is e ErrProjectionPageAlreadyStaged then Inr ((), db) else Inl e))"

record page_attempt_inspection =
  pv_input :: page_attempt_input
  pv_lease_owner :: string
  pv_next_ordinal :: int
  pv_complete :: bool
  pv_final_cursor :: string

definition attempt_input_of :: "page_attempt_row \<Rightarrow> page_attempt_input" where
  "attempt_input_of a = \<lparr>pi_calendar_id = ap_calendar_id a, pi_attempt_id = ap_attempt_id a,
     pi_timezone = ap_timezone a, pi_generation = ap_generation a, pi_guard_epoch = ap_guard_epoch a,
     pi_base_revision = ap_base_revision a, pi_mode = read_mode (ap_mode a), pi_base_cursor = ap_base_cursor a,
     pi_window_start = ap_window_start a, pi_window_end = ap_window_end a\<rparr>"

definition get_projection_page_attempt_by_id :: "string \<Rightarrow> string \<Rightarrow> sync_db \<Rightarrow> page_attempt_inspection res" where
  "get_projection_page_attempt_by_id cal attemptID db =
     (if cal = '''' \<or> \<not> valid_projection_mutation_id attemptID then Inl page_stage_error
      else case find (\<lambda>a. ap_calendar_id a = cal \<and> ap_attempt_id a = attemptID) (pt_attempts (db_projection db)) of
        None \<Rightarrow> Inl (Sentinel ErrNotFound)
      | Some a \<Rightarrow> Inr \<lparr>pv_input = attempt_input_of a, pv_lease_owner = ap_lease_owner a,
          pv_next_ordinal = ap_next_ordinal a, pv_complete = ap_complete a, pv_final_cursor = ap_final_cursor a\<rparr>)"

section \<open>The chain of a candidate's pages (projection_page_chain.go)\<close>

definition page_placeholder :: string where "page_placeholder = ''validated-token-placeholder''"

definition next_hash_ok :: "string list \<Rightarrow> bool \<Rightarrow> string \<Rightarrow> bool" where
  "next_hash_ok seen complete hash \<longleftrightarrow> target_digest hash \<and>
     (if complete then hash = projection_page_hash ''''
      else hash \<noteq> projection_page_hash '''' \<and> hash \<notin> set seen)"

definition marked_page :: "string \<Rightarrow> event_sync_page \<Rightarrow> event_sync_page" where
  "marked_page finalCursor page = (if sp_complete page then page\<lparr>sp_next_cursor := finalCursor\<rparr>
     else page\<lparr>sp_next_page_token := page_placeholder\<rparr>)"

definition chain_page ::
  "unicode_case \<Rightarrow> projection_codec \<Rightarrow> string \<Rightarrow> string \<Rightarrow> string \<Rightarrow> bool \<Rightarrow> string list \<Rightarrow> page_row \<Rightarrow>
   event_sync_page res" where
  "chain_page U K source timezone finalCursor last_page seen g =
     bind_res (map_err (\<lambda>_. page_stage_error) (decode_projection_page_payload U K (pg_payload g) source)) (\<lambda>page.
       if sp_source_time_zone page \<noteq> timezone \<or> sp_complete page \<noteq> last_page \<or>
          \<not> next_hash_ok seen (sp_complete page) (pg_next_hash g)
       then Inl page_stage_error
       else let marked = marked_page finalCursor page in
         bind_res (page_digest K (pg_payload g) (pg_previous_hash g) (pg_next_hash g) (sp_next_cursor marked)) (\<lambda>digest.
           if digest \<noteq> pg_hash g then Inl page_stage_error
           else bind_res (validate_projection_google_page source marked) (\<lambda>_. Inr (bare_page marked))))"

fun page_chain ::
  "unicode_case \<Rightarrow> projection_codec \<Rightarrow> string \<Rightarrow> string \<Rightarrow> string \<Rightarrow> page_row list \<Rightarrow> nat \<Rightarrow> string \<Rightarrow> string list \<Rightarrow>
   nat \<Rightarrow> event_sync_page list \<Rightarrow> (string \<times> nat \<times> event_sync_page list) res" where
  "page_chain U K source tz finalCursor [] i expected seen bytes pages = Inr (expected, bytes, pages)"
| "page_chain U K source tz finalCursor (g # gs) i expected seen bytes pages =
     (if pg_ordinal g \<noteq> int i \<or> pg_previous_hash g \<noteq> expected \<or> projectionPageSizeLimit < length (pg_payload g)
      then Inl page_stage_error
      else bind_res (chain_page U K source tz finalCursor (gs = []) seen g) (\<lambda>page.
        if projectionAttemptSizeLimit < bytes + length (pg_payload g) then Inl page_stage_error
        else page_chain U K source tz finalCursor gs (Suc i) (pg_next_hash g) (pg_next_hash g # seen)
               (bytes + length (pg_payload g)) (pages @ [page])))"

definition validate_projection_page_chain ::
  "unicode_case \<Rightarrow> projection_codec \<Rightarrow> string \<Rightarrow> string \<Rightarrow> string \<Rightarrow> string \<Rightarrow> int \<Rightarrow> page_row list \<Rightarrow>
   (event_sync_page list) res" where
  "validate_projection_page_chain U K source timezone finalCursor lastHash total_size gs =
     (if source = '''' \<or> timezone = '''' \<or> finalCursor = '''' \<or> 4096 < length finalCursor \<or> gs = [] \<or>
         projectionPageLimit < length gs \<or> total_size < 0 \<or> int projectionAttemptSizeLimit < total_size
      then Inl page_stage_error
      else let start = projection_page_hash '''' in
        bind_res (page_chain U K source timezone finalCursor gs 0 start [start] 0 []) (\<lambda>(expected, bytes, pages).
          if expected \<noteq> lastHash \<or> int bytes \<noteq> total_size then Inl page_stage_error else Inr pages))"

section \<open>A staged page applied to the read model (projection_page_apply.go)\<close>

definition staged_batch :: "bool \<Rightarrow> string \<Rightarrow> instant option \<Rightarrow> event_sync_page \<Rightarrow> event_sync_batch" where
  "staged_batch full cursor nextSync page = \<lparr>eb_source_time_zone = '''',
     eb_upserts = map (\<lambda>u. \<lparr>cu_source_object_id = so_object_id (up_object u), cu_event = up_event u\<rparr>) (sp_upserts page),
     eb_deleted_event_ids = sp_deleted_event_ids page, eb_deleted_object_ids = [], eb_replaced_object_ids = [],
     eb_objects = map up_object (sp_upserts page), eb_next_cursor = cursor, eb_next_sync_at = nextSync,
     eb_full_sync = full, eb_degraded = False, eb_error_code = '''', eb_warnings = []\<rparr>"

definition lease_until_of :: "sync_claim \<Rightarrow> sync_db \<Rightarrow> instant res" where
  "lease_until_of c db = (case find (\<lambda>s. ss_calendar_id s = sc_calendar_id c \<and> ss_generation s = sc_generation c \<and>
         ss_status s = ''syncing'' \<and> ss_lease_owner s = Some (sc_lease_owner c)) (db_sync_states db) of
       None \<Rightarrow> Inl (Sentinel ErrCalendarSyncLeaseLost)
     | Some s \<Rightarrow> (case ss_lease_until s of None \<Rightarrow> Inl (Sentinel ErrCalendarSyncLeaseLost) | Some u \<Rightarrow> Inr u))"

definition apply_projection_staged_page ::
  "zonedb \<Rightarrow> projection_codec \<Rightarrow> artifact_cipher option \<Rightarrow> sync_claim \<Rightarrow> string \<Rightarrow> int \<Rightarrow> string \<Rightarrow> string \<Rightarrow>
   event_sync_page \<Rightarrow> instant \<Rightarrow> (nat \<Rightarrow> instant) \<Rightarrow> unit tx" where
  "apply_projection_staged_page zdb K cipher c attemptID ordinal previousToken observedTimezone page now t db =
     (let cal = sc_calendar_id c in
      if sp_complete page then Inl (Sentinel ErrProjectionFinalizerRequired)
      else if cal = '''' \<or> sc_lease_owner c = '''' \<or> now = zero_time then Inl page_stage_error
      else bind_res (lock_projection_page_source cal db) (\<lambda>_.
      bind_res (lock_calendar_sync_lease c (t 0) db) (\<lambda>_.
      bind_res (append_projection_page_tx K c attemptID ordinal previousToken observedTimezone page now (t 1) (t 2) db)
        (\<lambda>(_, db1).
      case find (attempt_at cal (sc_generation c) attemptID) (pt_attempts (db_projection db1)) of
        None \<Rightarrow> Inl (ErrWrap ''read staged page claim'' (ErrExt ''sql: no rows in result set''))
      | Some a \<Rightarrow>
          bind_res (lease_until_of c db1) (\<lambda>leaseUntil.
          if read_mode (ap_mode a) \<noteq> EventSyncReplacement \<and> read_mode (ap_mode a) \<noteq> EventSyncIncremental
          then Inl page_stage_error
          else bind_res (apply_event_sync_page_tx zdb cipher c
                 (staged_batch (read_mode (ap_mode a) = EventSyncReplacement) '''' None page) False (t 3) db1)
            (\<lambda>(_, db2).
              if \<not> t 4 < leaseUntil then Inl (Sentinel ErrCalendarSyncLeaseLost)
              else bind_res (lock_calendar_sync_lease c (t 5) db2) (\<lambda>_. Inr ((), db2))))))))"

section \<open>The candidate of a publication (projection_finalization_prepare.go)\<close>

record finalization_candidate =
  fz_input :: page_attempt_input
  fz_cursor :: string
  fz_pages :: "event_sync_page list"
  fz_events :: "event_v2 list"
  fz_removals :: "removal_observation list"

definition candidate_base ::
  "unicode_case \<Rightarrow> projection_codec \<Rightarrow> page_attempt_input \<Rightarrow> sync_db \<Rightarrow> (event_v2 list) res" where
  "candidate_base U K pin db =
     (if pi_mode pin = EventSyncIncremental then
        (case snapshot_at (pi_calendar_id pin) (pi_base_revision pin) db of
           None \<Rightarrow> Inl page_stage_error
         | Some p \<Rightarrow> if \<not> base_matches pin p then Inl page_stage_error
             else decode_projection_snapshot_payload U K (sn_payload p) (pi_calendar_id pin))
      else if pi_base_cursor pin \<noteq> '''' then Inl page_stage_error else Inr [])"

definition prepare_projection_finalization ::
  "unicode_case \<Rightarrow> zonedb \<Rightarrow> projection_codec \<Rightarrow> sync_claim \<Rightarrow> string \<Rightarrow> instant \<Rightarrow> instant \<Rightarrow> instant \<Rightarrow> sync_db \<Rightarrow>
   finalization_candidate res" where
  "prepare_projection_finalization U zdb K c attemptID now t1 t2 db =
     (let cal = sc_calendar_id c; pt = db_projection db in
      if cal = '''' \<or> sc_lease_owner c = '''' \<or> \<not> valid_projection_mutation_id attemptID \<or> now = zero_time
      then Inl page_stage_error
      else bind_res (lock_projection_page_source cal db) (\<lambda>_.
      bind_res (lock_calendar_sync_lease c t1 db) (\<lambda>_.
      case find (attempt_at cal (sc_generation c) attemptID) (pt_attempts pt) of
        None \<Rightarrow> Inl page_stage_error
      | Some a \<Rightarrow>
          let pin = attempt_input_of a; gs = sort_key pg_ordinal (filter (page_at cal (sc_generation c)) (pt_pages pt)) in
          if ap_lease_owner a \<noteq> sc_lease_owner c \<or> \<not> ap_complete a \<or> ap_next_ordinal a < 1 \<or>
             int projectionPageLimit < ap_next_ordinal a \<or>
             (pi_mode pin \<noteq> EventSyncIncremental \<and> pi_mode pin \<noteq> EventSyncReplacement)
          then Inl page_stage_error
          else bind_res (page_stage_source cal db) (\<lambda>src.
          if \<not> frozen_source (pi_base_cursor pin) (pi_timezone pin) (pi_window_start pin) (pi_window_end pin) src \<or>
             active_quarantine cal (db_cache db)
          then Inl page_stage_error
          else bind_res (lock_projection_snapshot_guard cal (pi_guard_epoch pin) (pi_base_revision pin) db) (\<lambda>_.
          bind_res (candidate_base U K pin db) (\<lambda>base.
          if projectionPageLimit < length gs \<or> int (length gs) \<noteq> ap_next_ordinal a then Inl page_stage_error
          else bind_res (validate_projection_page_chain U K cal (pi_timezone pin) (ap_final_cursor a)
                 (ap_next_token_hash a) (ap_total_bytes a) gs) (\<lambda>pages.
          bind_res (map_err (ErrWrap ''materialize candidate'')
            (materialize zdb cal (pi_timezone pin) (pi_window_start pin) (pi_window_end pin) (pi_mode pin) base
               (pi_mode pin = EventSyncIncremental) pages)) (\<lambda>(events, removals).
          bind_res (lock_calendar_sync_lease c t2 db) (\<lambda>_.
            Inr \<lparr>fz_input = pin, fz_cursor = ap_final_cursor a, fz_pages = pages, fz_events = events,
                 fz_removals = removals\<rparr>)))))))))"

section \<open>Retention (projection_retention.go)\<close>

definition retained_pin :: "projection_tables \<Rightarrow> pin_row \<Rightarrow> bool" where
  "retained_pin pt p \<longleftrightarrow> pn_status p \<noteq> ''released'' \<or> list_ex (\<lambda>k. ck_pin_id k = pn_pin_id p) (pt_checkpoints pt) \<or>
     list_ex (\<lambda>i. si_rule_id i = pn_rule_id p \<and> si_job_id i = pn_job_id p \<and> si_job_attempt i = pn_job_attempt p \<and>
       si_worker_id i = pn_worker_id p) (pt_intent_sources pt)"

text \<open>What still refers to a revision.\<close>

definition revision_in_use :: "string \<Rightarrow> int \<Rightarrow> projection_tables \<Rightarrow> bool" where
  "revision_in_use cal revision pt \<longleftrightarrow>
     list_ex (\<lambda>p. pn_calendar_id p = cal \<and> pn_revision p = revision) (pt_pins pt) \<or>
     list_ex (\<lambda>k. ck_calendar_id k = cal \<and> ck_revision k = revision) (pt_checkpoints pt) \<or>
     (cal, revision) \<in> set (pt_cache_sources pt) \<or>
     list_ex (\<lambda>i. si_source_calendar_id i = cal \<and> si_source_revision i = revision) (pt_intent_sources pt) \<or>
     list_ex (\<lambda>s. sn_calendar_id s = cal \<and> sn_base_revision s = revision) (pt_staging pt) \<or>
     list_ex (\<lambda>a. ap_calendar_id a = cal \<and> ap_base_revision a = revision) (pt_attempts pt)"

definition retire_source_snapshot :: "string \<Rightarrow> int \<Rightarrow> projection_tables \<Rightarrow> projection_tables" where
  "retire_source_snapshot cal revision pt = (if revision_in_use cal revision pt then pt
     else pt\<lparr>pt_snapshots := filter (\<lambda>s. \<not> (sn_calendar_id s = cal \<and> sn_revision s = revision)) (pt_snapshots pt)\<rparr>)"

fun take_each :: "'a list \<Rightarrow> 'a list \<Rightarrow> bool" where
  "take_each [] counts = True"
| "take_each (x # xs) counts = (x \<in> set counts \<and> take_each xs (remove1 x counts))"

definition observation_texts :: "projection_codec \<Rightarrow> removal_observation list \<Rightarrow> (string list) res" where
  "observation_texts K os =
     fold_res (\<lambda>o' acc. bind_res (pc_observation_text K o') (\<lambda>t. Inr (acc @ [t]))) os []"

definition observation_multiset_contains ::
  "projection_codec \<Rightarrow> removal_observation list \<Rightarrow> removal_observation list \<Rightarrow> bool" where
  "observation_multiset_contains K all prior = (case (observation_texts K all, observation_texts K prior) of
       (Inr counts, Inr texts) \<Rightarrow> take_each texts counts
     | _ \<Rightarrow> False)"

definition superseded_candidate :: "string \<Rightarrow> int \<Rightarrow> snapshot_row \<Rightarrow> bool" where
  "superseded_candidate cal current s \<longleftrightarrow> sn_calendar_id s = cal \<and> sn_revision s < current \<and> sn_verified s \<and>
     sn_observations s \<noteq> None"

definition release_candidate ::
  "projection_codec \<Rightarrow> string \<Rightarrow> removal_observation list \<Rightarrow> snapshot_row \<Rightarrow> projection_tables \<Rightarrow> projection_tables" where
  "release_candidate K cal observations s pt = (let raw = the (sn_observations s) in
     if raw = '''' \<or> maxProjectionObservationBytes < length raw then pt
     else case pc_unmarshal_observations K raw of
       None \<Rightarrow> pt
     | Some prior \<Rightarrow> if observation_multiset_contains K observations prior
         then retire_source_snapshot cal (sn_revision s) pt else pt)"

definition release_retained_source_capacity ::
  "projection_codec \<Rightarrow> string \<Rightarrow> int \<Rightarrow> removal_observation list \<Rightarrow> projection_tables \<Rightarrow> projection_tables" where
  "release_retained_source_capacity K cal current observations pt =
     (let pt1 = pt\<lparr>pt_pins := filter (\<lambda>p. pn_calendar_id p = cal \<longrightarrow> retained_pin pt p) (pt_pins pt)\<rparr> in
      fold (release_candidate K cal observations)
        (sort_key sn_revision (filter (superseded_candidate cal current) (pt_snapshots pt1))) pt1)"

section \<open>Publication (projection_finalizer.go)\<close>

text \<open>
  The observations of the new revision: those of its base, which must be a verified revision,
  and then those of its pages.
\<close>

definition removal_reason_ok :: "removal_observation \<Rightarrow> bool" where
  "removal_reason_ok o' \<longleftrightarrow> rm_object_id (ro_removal o') \<noteq> '''' \<and>
     (rm_reason (ro_removal o') = EventSyncProviderCancellation \<or> rm_reason (ro_removal o') = EventSyncWindowEviction)"

definition carried_removals ::
  "projection_codec \<Rightarrow> finalization_candidate \<Rightarrow> sync_db \<Rightarrow> (removal_observation list) res" where
  "carried_removals K fz db = (let pin = fz_input fz in
     if 0 < pi_base_revision pin then
       (case snapshot_at (pi_calendar_id pin) (pi_base_revision pin) db of
          None \<Rightarrow> Inl page_stage_error
        | Some p \<Rightarrow> (case sn_observations p of
            None \<Rightarrow> Inl page_stage_error
          | Some previous \<Rightarrow>
              if \<not> sn_verified p \<or> previous = '''' \<or> maxProjectionObservationBytes < length previous
              then Inl page_stage_error
              else (case pc_unmarshal_observations K previous of
                  None \<Rightarrow> Inl page_stage_error
                | Some retained \<Rightarrow> if \<not> list_all removal_reason_ok retained then Inl page_stage_error
                    else Inr (retained @ fz_removals fz))))
     else Inr (fz_removals fz))"

text \<open>Every page of the candidate is applied to the read model again.\<close>

fun replay_pages ::
  "zonedb \<Rightarrow> artifact_cipher option \<Rightarrow> sync_claim \<Rightarrow> bool \<Rightarrow> string \<Rightarrow> instant \<Rightarrow> (nat \<Rightarrow> instant) \<Rightarrow> nat \<Rightarrow>
   event_sync_page list \<Rightarrow> unit tx" where
  "replay_pages zdb cipher c full cursor nextSync t i [] db = Inr ((), db)"
| "replay_pages zdb cipher c full cursor nextSync t i (page # pages) db =
     bind_res (apply_event_sync_page_tx zdb cipher c (staged_batch full cursor (Some nextSync) page) False (t i) db)
       (\<lambda>(_, db). replay_pages zdb cipher c full cursor nextSync t (Suc i) pages db)"

definition revision_row ::
  "finalization_candidate \<Rightarrow> int \<Rightarrow> instant \<Rightarrow> string \<Rightarrow> string \<Rightarrow> snapshot_row" where
  "revision_row fz revision completed payload observations = (let pin = fz_input fz in
     \<lparr>sn_calendar_id = pi_calendar_id pin, sn_revision = revision, sn_stage_id = pi_attempt_id pin,
      sn_guard_epoch = pi_guard_epoch pin, sn_base_revision = pi_base_revision pin,
      sn_window_start = pi_window_start pin, sn_window_end = pi_window_end pin, sn_completed_at = completed,
      sn_timezone = pi_timezone pin, sn_cursor = fz_cursor fz, sn_payload = payload, sn_verified = True,
      sn_observations = Some observations\<rparr>)"

definition publish_revision :: "snapshot_row \<Rightarrow> unit tx" where
  "publish_revision row db = (let cal = sn_calendar_id row; pt = db_projection db in
     if list_ex (\<lambda>p. sn_calendar_id p = cal \<and>
          (sn_revision p = sn_revision row \<or> sn_stage_id p = sn_stage_id row)) (pt_snapshots pt)
     then Inl (ErrWrap ''insert candidate revision'' unique_violation)
     else if map_of (db_guards db) cal \<noteq> Some (sn_guard_epoch row) \<or> guard_revision cal db \<noteq> sn_base_revision row
     then Inl (Sentinel ErrProjectionSnapshotStale)
     else Inr ((), db\<lparr>db_projection := set_guard_revision cal (sn_revision row)
            (pt\<lparr>pt_snapshots := pt_snapshots pt @ [row]\<rparr>)\<rparr>))"

text \<open>The attempt is used up, and the revision it replaces is dropped unless something refers to it.\<close>

definition consume_attempt :: "sync_claim \<Rightarrow> page_attempt_input \<Rightarrow> unit tx" where
  "consume_attempt c pin db = (let cal = sc_calendar_id c; g = sc_generation c; pt = db_projection db in
     if count_rows (attempt_at cal g (pi_attempt_id pin)) (pt_attempts pt) \<noteq> 1 then Inl page_stage_error
     else let pt1 = drop_attempts (\<lambda>cal' g'. cal' = cal \<and> g' = g) pt in
       Inr ((), db\<lparr>db_projection :=
         (if 0 < pi_base_revision pin then retire_source_snapshot cal (pi_base_revision pin) pt1 else pt1)\<rparr>))"

definition final_batch :: "bool \<Rightarrow> string \<Rightarrow> instant \<Rightarrow> event_sync_batch" where
  "final_batch full cursor nextSync = \<lparr>eb_source_time_zone = '''', eb_upserts = [], eb_deleted_event_ids = [],
     eb_deleted_object_ids = [], eb_replaced_object_ids = [], eb_objects = [], eb_next_cursor = cursor,
     eb_next_sync_at = Some nextSync, eb_full_sync = full, eb_degraded = False, eb_error_code = '''', eb_warnings = []\<rparr>"

definition finalize_projection_tx ::
  "unicode_case \<Rightarrow> zonedb \<Rightarrow> projection_codec \<Rightarrow> artifact_cipher option \<Rightarrow> sync_claim \<Rightarrow> string \<Rightarrow> instant \<Rightarrow>
   instant \<Rightarrow> (nat \<Rightarrow> instant) \<Rightarrow> int tx" where
  "finalize_projection_tx U zdb K cipher c attemptID now nextSync t db =
     (let cal = sc_calendar_id c in
      if nextSync = zero_time \<or> \<not> now < nextSync then Inl page_stage_error
      else bind_res (prepare_projection_finalization U zdb K c attemptID now (t 0) (t 1) db) (\<lambda>fz.
      bind_res (lease_until_of c db) (\<lambda>leaseUntil.
      let pin = fz_input fz; full = (pi_mode pin = EventSyncReplacement); n = length (fz_pages fz) in
      bind_res (map_err (\<lambda>_. page_stage_error) (encode_projection_snapshot_payload K (fz_events fz) cal)) (\<lambda>payload.
      if maxProjectionSnapshotBytes < length payload then Inl page_stage_error
      else bind_res (carried_removals K fz db) (\<lambda>removals.
      bind_res (map_err (\<lambda>_. page_stage_error) (observations_text K removals)) (\<lambda>observations.
      if maxProjectionObservationBytes < length observations then Inl page_stage_error
      else let db1 = db\<lparr>db_projection :=
             release_retained_source_capacity K cal (pi_base_revision pin) removals (db_projection db)\<rparr> in
      if maxProjectionSnapshotRevisions \<le> count_rows (\<lambda>p. sn_calendar_id p = cal) (pt_snapshots (db_projection db1))
      then Inl (Sentinel ErrProjectionSnapshotLimit)
      else if pi_base_revision pin = max_int64 then Inl (Sentinel ErrProjectionSnapshotLimit)
      else let revision = pi_base_revision pin + 1 in
      bind_res (replay_pages zdb cipher c full (fz_cursor fz) nextSync (\<lambda>i. t (3 + i)) 0 (fz_pages fz) db1)
        (\<lambda>(_, db2).
      bind_res (publish_revision (revision_row fz revision (t 2) payload observations) db2) (\<lambda>(_, db3).
      bind_res (consume_attempt c pin db3) (\<lambda>(_, db4).
      bind_res (apply_event_sync_page_tx zdb cipher c (final_batch full (fz_cursor fz) nextSync) True (t (3 + n)) db4)
        (\<lambda>(_, db5).
      if \<not> t (4 + n) < leaseUntil then Inl (Sentinel ErrCalendarSyncLeaseLost)
      else if \<not> t (4 + n) < nextSync then Inl page_stage_error
      else Inr (revision, db5)))))))))))"

text \<open>\<open>finalizeProjection\<close>: publication outside the source synchronization is switched off.\<close>

definition finalize_projection :: "sync_claim \<Rightarrow> string \<Rightarrow> instant \<Rightarrow> instant \<Rightarrow> int tx" where
  "finalize_projection c attemptID now nextSync db =
     Inl (ErrText ''projection writer barrier is unavailable'')"

section \<open>The last page of a source (source_projection_final_page.go)\<close>

text \<open>
  The readings of this operation are \<open>t\<close>, those of the publication inside it \<open>u\<close>.
\<close>

definition finalize_source_projection_page ::
  "unicode_case \<Rightarrow> zonedb \<Rightarrow> projection_codec \<Rightarrow> artifact_cipher option \<Rightarrow> sync_claim \<Rightarrow> string \<Rightarrow> int \<Rightarrow> string \<Rightarrow>
   string \<Rightarrow> event_sync_page \<Rightarrow> instant \<Rightarrow> instant \<Rightarrow> string \<Rightarrow> (nat \<Rightarrow> instant) \<Rightarrow> (nat \<Rightarrow> instant) \<Rightarrow> int tx" where
  "finalize_source_projection_page U zdb K cipher c attemptID ordinal previousToken timezone page now nextSync uuid t u db =
     (let cal = sc_calendar_id c in
      if \<not> sp_complete page \<or> now = zero_time then Inl page_stage_error
      else bind_res (normalize_mutation_calendars [cal]) (\<lambda>(_, encoded).
      if list_ex (\<lambda>o'. mo_operation_id o' = uuid) (db_operations db) then Inl unique_violation
      else let db1 = db\<lparr>db_operations := db_operations db @
             [\<lparr>mo_operation_id = uuid, mo_calendar_ids = encoded, mo_started_at = now, mo_resolved_at = None\<rparr>]\<rparr> in
      bind_res (insert_exclusive_reservation \<lparr>xr_operation_id = uuid, xr_target_key = GlobalSyncDispatchKey,
             xr_request_hash = projection_page_hash uuid, xr_kind = ''run'', xr_calendar_ids = [], xr_now = now\<rparr> db1)
        (\<lambda>(_, db2).
      bind_res (lock_projection_page_source cal db2) (\<lambda>_.
      bind_res (lock_calendar_sync_lease c (t 0) db2) (\<lambda>_.
      bind_res (lease_until_of c db2) (\<lambda>leaseUntil.
      bind_res (append_projection_page_tx K c attemptID ordinal previousToken timezone page now (t 1) (t 2) db2)
        (\<lambda>(_, db3).
      bind_res (finalize_projection_tx U zdb K cipher c attemptID (t 3) nextSync u db3) (\<lambda>(revision, db4).
      if \<not> t 4 < leaseUntil \<or> \<not> t 5 < nextSync then Inl (Sentinel ErrCalendarSyncLeaseLost)
      else Inr (revision, release_source_state_fence uuid db4)))))))))"

section \<open>The capture of a source (source_projection_sync.go)\<close>

record capture_plan =
  cp_enabled :: bool
  cp_reset :: bool
  cp_input :: page_attempt_input

definition no_capture :: capture_plan where
  "no_capture = \<lparr>cp_enabled = False, cp_reset = False, cp_input = \<lparr>pi_calendar_id = '''', pi_attempt_id = '''',
     pi_timezone = '''', pi_generation = 0, pi_guard_epoch = 0, pi_base_revision = 0,
     pi_mode = EventSyncModeOther '''', pi_base_cursor = '''', pi_window_start = zero_time,
     pi_window_end = zero_time\<rparr>\<rparr>"

definition plan_source_projection_capture :: "zonedb \<Rightarrow> string \<Rightarrow> sync_claim \<Rightarrow> sync_db \<Rightarrow> capture_plan res" where
  "plan_source_projection_capture zdb uuid c db = (let cal = sc_calendar_id c in
     case source_connection cal db of
       None \<Rightarrow> Inl (Sentinel ErrNotFound)
     | Some (cl, n) \<Rightarrow>
         if \<not> copy_source cal db \<or> cn_provider n \<noteq> ''google'' \<or> \<not> valid_timezone zdb (cl_timezone cl)
         then Inr no_capture
         else let revision = guard_revision cal db;
                  epoch = (case map_of (db_guards db) cal of None \<Rightarrow> 0 | Some e \<Rightarrow> e);
                  pin = \<lparr>pi_calendar_id = cal, pi_attempt_id = uuid, pi_timezone = cl_timezone cl,
                    pi_generation = sc_generation c, pi_guard_epoch = epoch, pi_base_revision = revision,
                    pi_mode = (if sc_cursor c = '''' then EventSyncReplacement else EventSyncIncremental),
                    pi_base_cursor = sc_cursor c, pi_window_start = sc_window_start c,
                    pi_window_end = sc_window_end c\<rparr> in
           Inr \<lparr>cp_enabled = True, cp_reset = (sc_cursor c \<noteq> '''' \<and> (revision = 0 \<or>
                  (case snapshot_at cal revision db of None \<Rightarrow> True | Some p \<Rightarrow> \<not> base_matches pin p))),
                cp_input = pin\<rparr>)"

section \<open>Giving a claim back (source_sync_fence.go)\<close>

definition snapshot_still_current :: "source_view \<Rightarrow> bool" where
  "snapshot_still_current v \<longleftrightarrow> (let p = sv_snapshot v; s = sv_state v; c = sv_calendar v; n = sv_connection v in
     sn_observations p \<noteq> None \<and> sn_verified p \<and> sv_epoch v = sn_guard_epoch p \<and> ss_cursor s = sn_cursor p \<and>
     ss_cursor s \<noteq> '''' \<and> ss_window_start s = sn_window_start p \<and> ss_window_end s = sn_window_end p \<and>
     cl_timezone c = sn_timezone p \<and> cl_enabled c \<and> cl_can_read c \<and> cn_status n = ''connected'' \<and>
     cn_provider n = ''google'' \<and>
     (case ss_last_success_at s of None \<Rightarrow> False | Some t \<Rightarrow> sn_completed_at p \<le> t) \<and> \<not> sv_pending v)"

definition deferred_status :: "string \<Rightarrow> sync_db \<Rightarrow> string" where
  "deferred_status cal db =
     (if active_quarantine cal (db_cache db) then ''degraded''
      else case current_source cal db of
        None \<Rightarrow> ''pending''
      | Some v \<Rightarrow> if snapshot_still_current v then ''ready'' else ''pending'')"

definition defer_calendar_sync_for_reservation ::
  "sync_claim \<Rightarrow> instant \<Rightarrow> instant \<Rightarrow> (nat \<Rightarrow> instant) \<Rightarrow> unit tx" where
  "defer_calendar_sync_for_reservation c now next_at t db =
     (if sc_calendar_id c = '''' \<or> sc_lease_owner c = '''' \<or> now = zero_time \<or> \<not> now < next_at
      then Inl (Sentinel ErrCalendarSyncLeaseLost)
      else bind_res (lock_calendar_sync_lease c (t 0) db) (\<lambda>_.
        let status = deferred_status (sc_calendar_id c) db in
        if \<not> t 1 < next_at then Inl (Sentinel ErrCalendarSyncLeaseLost)
        else update_lease c (t 1) (\<lambda>r. r\<lparr>ss_status := status, ss_next_sync_at := next_at, ss_lease_owner := None,
               ss_lease_until := None, ss_updated_at := t 1\<rparr>) db))"

end
