(* ===== verification/Projection_Safety.thy ===== *)
theory Projection_Safety
  imports Projection_Publish Event_Lease
begin

text \<open>
  What the published projections of a calendar promise: a revision never changes once it is
  published and its number is never used again, and no reader is given a revision from before a
  mutation that was begun later, whether or not the mutation has been resolved since.
\<close>

section \<open>What each transaction leaves alone\<close>

lemma save_timezone_frame [simp]:
  "db_guards (save_timezone zdb cal tz db) = db_guards db"
  "db_projection (save_timezone zdb cal tz db) = db_projection db"
  "db_intents (save_timezone zdb cal tz db) = db_intents db"
  "db_connections (save_timezone zdb cal tz db) = db_connections db"
  "db_operations (save_timezone zdb cal tz db) = db_operations db"
  "db_reservations (save_timezone zdb cal tz db) = db_reservations db"
  "save_timezone zdb cal '''' db = db"
  by (simp_all add: save_timezone_def)

lemma fold_res_all:
  "fold_res f xs s = Inr t \<Longrightarrow> (\<And>x s t. f x s = Inr t \<Longrightarrow> P x) \<Longrightarrow> \<forall>x \<in> set xs. P x"
  by (induction xs arbitrary: s) (auto split: sum.splits)

lemma fold_res_keeps:
  "(\<And>x d d'. f x d = Inr d' \<Longrightarrow> g d' = g d) \<Longrightarrow> fold_res f xs d = Inr d' \<Longrightarrow> g d' = g d"
  by (induction xs arbitrary: d) (auto split: sum.splits)

lemma lock_lease_unit: "lock_calendar_sync_lease c now db = Inr x \<longleftrightarrow>
    x = ((), db) \<and> list_ex (holds_lease c now) (db_sync_states db)"
  by (auto simp: lock_calendar_sync_lease_def)

text \<open>A page of the read model under a held lease, in full.\<close>

lemma apply_page_tx_Inr:
  assumes "apply_event_sync_page_tx zdb cipher c batch final now db = Inr ((), db')"
  obtains t where "apply_changes zdb cipher (sc_calendar_id c) (sc_generation c) batch now (db_cache db) = Inr t"
    and "db' = (let d = save_timezone zdb (sc_calendar_id c) (eb_source_time_zone batch) db in
      if final then d\<lparr>db_cache := (if eb_full_sync batch
            then sweep_generation (sc_calendar_id c) (sc_generation c) t else t),
          db_sync_states := update_rows (holds_lease c now)
            (finished_row c batch (active_quarantine (sc_calendar_id c) t) now) (db_sync_states db)\<rparr>
      else d\<lparr>db_cache := t\<rparr>)"
    and "final \<Longrightarrow> count_rows (holds_lease c now) (db_sync_states db) = 1"
proof -
  let ?db = "save_timezone zdb (sc_calendar_id c) (eb_source_time_zone batch) db"
  obtain code t where code: "degraded_code batch = Inr code"
    and t: "apply_changes zdb cipher (sc_calendar_id c) (sc_generation c) batch now (db_cache db) = Inr t"
    and rest: "(if final then finish_sync c batch code now (?db\<lparr>db_cache := t\<rparr>) else Inr ((), ?db\<lparr>db_cache := t\<rparr>)) = Inr ((), db')"
    using assms unfolding apply_event_sync_page_tx_def Let_def by (auto simp: bind_res_Inr_iff)
  show ?thesis
  proof (cases final)
    case True
    with finish_sync_Inr [OF _ degraded_code_Inr [OF code], of c now "?db\<lparr>db_cache := t\<rparr>" db'] rest
    show ?thesis by (intro that [OF t]) (simp_all add: Let_def)
  next
    case False
    with rest show ?thesis by (intro that [OF t]) (simp_all add: Let_def)
  qed
qed

lemma apply_page_tx_frame:
  assumes "apply_event_sync_page_tx zdb cipher c batch final now db = Inr (u, db')"
  shows "db_guards db' = db_guards db \<and> db_projection db' = db_projection db \<and> db_intents db' = db_intents db \<and>
    db_connections db' = db_connections db \<and> db_operations db' = db_operations db \<and>
    db_reservations db' = db_reservations db"
  using assms by (cases u) (auto elim!: apply_page_tx_Inr simp: Let_def)

section \<open>The order of revisions\<close>

definition revision_key :: "snapshot_row \<Rightarrow> string \<times> int" where
  "revision_key p = (sn_calendar_id p, sn_revision p)"

definition snapshots :: "sync_db \<Rightarrow> snapshot_row set" where
  "snapshots db = set (pt_snapshots (db_projection db))"

text \<open>
  Revisions are numbered up to the guard's, and none was staged at a later epoch than the guard's.
\<close>

definition revisions_ok :: "sync_db \<Rightarrow> bool" where
  "revisions_ok db \<longleftrightarrow> distinct (map revision_key (pt_snapshots (db_projection db))) \<and>
     (\<forall>p \<in> snapshots db. sn_revision p \<le> guard_revision (sn_calendar_id p) db \<and>
        (\<exists>e. map_of (db_guards db) (sn_calendar_id p) = Some e \<and> sn_guard_epoch p \<le> e))"

text \<open>How a transaction may change guards and revisions.\<close>

definition moves_on :: "sync_db \<Rightarrow> sync_db \<Rightarrow> bool" where
  "moves_on db db' \<longleftrightarrow>
     (\<forall>cal e. map_of (db_guards db) cal = Some e \<longrightarrow> (\<exists>e'. map_of (db_guards db') cal = Some e' \<and> e \<le> e')) \<and>
     (\<forall>cal. guard_revision cal db \<le> guard_revision cal db') \<and>
     (\<forall>p \<in> snapshots db'. p \<in> snapshots db \<or> guard_revision (sn_calendar_id p) db < sn_revision p)"

definition advances :: "sync_db \<Rightarrow> sync_db \<Rightarrow> bool" where
  "advances db db' \<longleftrightarrow> (revisions_ok db \<longrightarrow> revisions_ok db' \<and> moves_on db db')"

lemma moves_on_refl: "moves_on db db"
  by (simp add: moves_on_def)

lemma moves_on_trans:
  assumes "moves_on a b" "moves_on b c"
  shows "moves_on a c"
  unfolding moves_on_def
proof (intro conjI allI ballI impI)
  show "\<exists>e'. map_of (db_guards c) cal = Some e' \<and> e \<le> e'" if "map_of (db_guards a) cal = Some e" for cal e
    using assms that unfolding moves_on_def by (meson order_trans)
  show le: "guard_revision cal a \<le> guard_revision cal c" for cal
    using assms unfolding moves_on_def by (meson order_trans)
  show "p \<in> snapshots a \<or> guard_revision (sn_calendar_id p) a < sn_revision p" if "p \<in> snapshots c" for p
    using assms that unfolding moves_on_def by (meson order_le_less_trans)
qed

lemma advances_refl: "advances db db"
  by (simp add: advances_def moves_on_refl)

lemma advances_trans [trans]: "advances a b \<Longrightarrow> advances b c \<Longrightarrow> advances a c"
  unfolding advances_def using moves_on_trans by blast

lemma advances_frame:
  assumes "db_guards db' = db_guards db" "db_projection db' = db_projection db"
  shows "advances db db'"
  using assms by (simp add: advances_def revisions_ok_def moves_on_def snapshots_def guard_revision_def)

text \<open>A transaction that drops revisions, or keeps them, and changes no revision number.\<close>

lemma advances_drop:
  assumes "set (pt_snapshots (db_projection db')) \<subseteq> set (pt_snapshots (db_projection db))"
    and "distinct (map revision_key (pt_snapshots (db_projection db))) \<Longrightarrow>
      distinct (map revision_key (pt_snapshots (db_projection db')))"
    and "pt_revisions (db_projection db') = pt_revisions (db_projection db)"
    and "\<And>cal e. map_of (db_guards db) cal = Some e \<Longrightarrow> \<exists>e'. map_of (db_guards db') cal = Some e' \<and> e \<le> e'"
  shows "advances db db'"
proof -
  have g: "guard_revision cal db' = guard_revision cal db" for cal
    by (simp add: guard_revision_def assms(3))
  have "revisions_ok db' \<and> moves_on db db'" if ok: "revisions_ok db"
  proof
    show "revisions_ok db'"
      unfolding revisions_ok_def
    proof (intro conjI ballI)
      show "distinct (map revision_key (pt_snapshots (db_projection db')))"
        by (rule assms(2)) (use ok in \<open>simp add: revisions_ok_def\<close>)
      fix p assume "p \<in> snapshots db'"
      then have p: "p \<in> snapshots db" using assms(1) by (auto simp: snapshots_def)
      then show "sn_revision p \<le> guard_revision (sn_calendar_id p) db'"
        using ok by (simp add: revisions_ok_def g)
      obtain e where "map_of (db_guards db) (sn_calendar_id p) = Some e" "sn_guard_epoch p \<le> e"
        using ok p by (auto simp: revisions_ok_def)
      with assms(4) show "\<exists>e. map_of (db_guards db') (sn_calendar_id p) = Some e \<and> sn_guard_epoch p \<le> e"
        by (meson order_trans)
    qed
    show "moves_on db db'"
      unfolding moves_on_def using assms(1,4) by (auto simp: g snapshots_def)
  qed
  then show ?thesis by (simp add: advances_def)
qed

lemma advances_guards:
  assumes "db_projection db' = db_projection db"
    and "\<And>cal e. map_of (db_guards db) cal = Some e \<Longrightarrow> \<exists>e'. map_of (db_guards db') cal = Some e' \<and> e \<le> e'"
  shows "advances db db'"
  by (rule advances_drop) (use assms in simp_all)

lemma advances_init_guard: "advances db (init_guard cal db)"
proof (cases "list_ex (\<lambda>g. fst g = cal) (db_guards db)")
  case True
  then show ?thesis by (simp add: init_guard_def advances_refl)
next
  case False
  show ?thesis by (rule advances_guards) (simp_all add: init_guard_def False)
qed

text \<open>A new revision takes the next number.\<close>

lemma advances_publish:
  assumes new: "pt_snapshots (db_projection db') = pt_snapshots (db_projection db) @ [row]"
    and rev: "pt_revisions (db_projection db') =
      AList.update (sn_calendar_id row) (sn_revision row) (pt_revisions (db_projection db))"
    and next_one: "sn_revision row = guard_revision (sn_calendar_id row) db + 1"
    and epoch: "map_of (db_guards db) (sn_calendar_id row) = Some (sn_guard_epoch row)"
    and guards: "db_guards db' = db_guards db"
  shows "advances db db'"
proof -
  have g: "guard_revision cal db' = (if cal = sn_calendar_id row then sn_revision row else guard_revision cal db)" for cal
    by (simp add: guard_revision_def rev update_conv')
  have "revisions_ok db' \<and> moves_on db db'" if ok: "revisions_ok db"
  proof
    have fresh: "revision_key row \<notin> revision_key ` set (pt_snapshots (db_projection db))"
      using ok next_one by (fastforce simp: revisions_ok_def revision_key_def snapshots_def)
    show "revisions_ok db'"
      unfolding revisions_ok_def
    proof (intro conjI ballI)
      show "distinct (map revision_key (pt_snapshots (db_projection db')))"
        using ok fresh by (simp add: revisions_ok_def new)
      fix p assume p: "p \<in> snapshots db'"
      show "sn_revision p \<le> guard_revision (sn_calendar_id p) db'"
        using ok p next_one by (fastforce simp: revisions_ok_def g snapshots_def new)
      show "\<exists>e. map_of (db_guards db') (sn_calendar_id p) = Some e \<and> sn_guard_epoch p \<le> e"
        using ok p epoch by (auto simp: revisions_ok_def snapshots_def new guards)
    qed
    show "moves_on db db'"
      unfolding moves_on_def using next_one by (auto simp: g snapshots_def new guards)
  qed
  then show ?thesis by (simp add: advances_def)
qed

section \<open>The mutation ledger\<close>

definition only_bumps :: "sync_db \<Rightarrow> sync_db \<Rightarrow> bool" where
  "only_bumps db db' \<longleftrightarrow> db_projection db' = db_projection db \<and>
     (\<exists>ids. db_guards db' = fold bumped ids (db_guards db))"

lemma only_bumps_frame:
  "db_projection db' = db_projection db \<Longrightarrow> db_guards db' = db_guards db \<Longrightarrow> only_bumps db db'"
  unfolding only_bumps_def by (auto intro: exI [of _ "[]"])

lemma only_bumps_trans: "only_bumps a b \<Longrightarrow> only_bumps b c \<Longrightarrow> only_bumps a c"
  unfolding only_bumps_def by (metis fold_append o_apply)

lemma only_bumps_fold_res:
  assumes "fold_res f xs a = Inr b" "\<And>x a b. f x a = Inr b \<Longrightarrow> only_bumps a b"
  shows "only_bumps a b"
  using assms(1)
proof (induction xs arbitrary: a)
  case Nil
  then show ?case by (simp add: only_bumps_frame)
next
  case (Cons x xs)
  then obtain c where "f x a = Inr c" "fold_res f xs c = Inr b" by (auto split: sum.splits)
  with Cons.IH assms(2) only_bumps_trans show ?case by blast
qed

lemma only_bumps_advance:
  "advance_projection_mutation_guard i db = Inr (u, db') \<Longrightarrow> only_bumps db db'"
  by (auto dest!: advance_effect simp: only_bumps_def intro: exI [of _ "[i]"])

lemma only_bumps_advance_all:
  "fold_res (\<lambda>i d. map_sum id snd (advance_projection_mutation_guard i d)) ids db = Inr db' \<Longrightarrow> only_bumps db db'"
  by (erule only_bumps_fold_res) (auto simp: map_sum_def split: sum.splits intro: only_bumps_advance)

lemma only_bumps_delete_intents:
  "fold_res (delete_intent m e) ids db = Inr db' \<Longrightarrow> only_bumps db db'"
  by (erule only_bumps_fold_res) (auto simp: delete_intent_def intro!: only_bumps_frame split: if_splits)

lemma only_bumps_delete_members: "delete_members op e n db = Inr (u, db') \<Longrightarrow> only_bumps db db'"
  by (auto simp: delete_members_def intro!: only_bumps_frame split: if_splits)

lemma only_bumps_resolve_operation [simp]: "only_bumps db (resolve_operation op now d) = only_bumps db d"
  by (simp add: only_bumps_def resolve_operation_def)

lemma resolve_many_bumps:
  assumes "resolve_projection_mutation_many_and_schedule cals op now db = Inr (u, db')"
  shows "only_bumps db db'"
proof -
  obtain ids encoded where n: "normalize_mutation_calendars cals = Inr (ids, encoded)"
    using assms by (auto simp: resolve_projection_mutation_many_and_schedule_def split: sum.splits)
  obtain o' where o': "find (\<lambda>o'. mo_operation_id o' = op) (db_operations db) = Some o'"
    using assms n by (auto simp: resolve_projection_mutation_many_and_schedule_def split: if_splits option.splits)
  obtain db1 db2 w db3 db4 where r:
    "fold_res (\<lambda>i d. if count_rows (\<lambda>x. ss_calendar_id x = i) (db_sync_states d) \<noteq> 1
       then Inl (Sentinel ErrCalendarSyncIneligible) else Inr (reset_sync_state now i d)) ids db = Inr db1"
    "fold_res (\<lambda>i d. map_sum id snd (advance_projection_mutation_guard i d)) ids db1 = Inr db2"
    "delete_members op (Sentinel ErrProjectionMutationManyConflict) (length ids) db2 = Inr (w, db3)"
    "fold_res (delete_intent (operation_mutation_id op) (Sentinel ErrProjectionMutationManyConflict)) ids db3 = Inr db4"
    "db' = resolve_operation op now db4"
    using assms n o'
    by (auto simp: resolve_projection_mutation_many_and_schedule_def bind_res_Inr_iff split: if_splits)
  have "only_bumps db db1"
    by (rule only_bumps_fold_res [OF r(1)])
      (auto simp: reset_sync_state_def intro!: only_bumps_frame split: if_splits)
  from only_bumps_trans [OF only_bumps_trans [OF only_bumps_trans [OF this only_bumps_advance_all [OF r(2)]]
      only_bumps_delete_members [OF r(3)]] only_bumps_delete_intents [OF r(4)]]
  show ?thesis by (simp add: r(5))
qed

lemma begin_many_bumps:
  assumes "begin_projection_mutation_many cals op now db = Inr (u, db')"
  shows "only_bumps db db'"
proof -
  obtain ids encoded where n: "normalize_mutation_calendars cals = Inr (ids, encoded)"
    using assms by (auto simp: begin_projection_mutation_many_def split: sum.splits)
  then obtain o' where "fold_res (intend_calendar op) ids (db\<lparr>db_operations := db_operations db @ [o']\<rparr>) = Inr db'"
    using assms by (auto simp: begin_projection_mutation_many_def Let_def bind_res_Inr_iff split: if_splits)
  from many_fold_effect [OF this] show ?thesis by (auto simp: only_bumps_def intro: exI [of _ ids])
qed

lemma ledger_step_bumps:
  assumes "ledger_step db db'"
  shows "only_bumps db db'"
  using assms
proof cases
  case (begin_one i m now u)
  then have "guard_and_intend i m db = Inr (u, db')"
    by (auto simp: begin_projection_mutation_def split: if_splits)
  from guard_and_intend_effect(1) [OF this] show ?thesis by (auto simp: only_bumps_def intro: exI [of _ "[i]"])
next
  case (resolve_one i m u)
  then obtain v db1 where "advance_projection_mutation_guard i db = Inr (v, db1)"
    "db' = db1\<lparr>db_intents := filter (\<lambda>x. x \<noteq> (i, m)) (db_intents db1)\<rparr>"
    by (auto simp: resolve_projection_mutation_def bind_res_Inr_iff split: if_splits)
  with only_bumps_advance [of i db v db1] show ?thesis by (simp add: only_bumps_def)
next
  case (begin_many cals op now u)
  then show ?thesis by (rule begin_many_bumps)
next
  case (resolve_many cals op now u)
  then show ?thesis by (rule resolve_many_bumps)
next
  case (begin_exclusive req u)
  then show ?thesis by (rule begin_exclusive_effect) (auto simp: only_bumps_def intro: exI [of _ "_ :: string list"])
next
  case (release_exclusive op cals now u)
  then show ?thesis by (rule release_effect) (auto simp: only_bumps_def intro: exI [of _ "_ :: string list"])
qed

lemma map_of_bumped_up: "map_of g cal = Some e \<Longrightarrow> \<exists>e'. map_of (bumped i g) cal = Some e' \<and> e \<le> e'"
  by (auto simp: map_of_bumped)

lemma map_of_bumps_up: "map_of g cal = Some e \<Longrightarrow> \<exists>e'. map_of (fold bumped ids g) cal = Some e' \<and> e \<le> e'"
proof (induction ids arbitrary: g e)
  case Nil
  then show ?case by simp
next
  case (Cons i ids)
  from map_of_bumped_up [OF Cons.prems] obtain e' where e': "map_of (bumped i g) cal = Some e'" "e \<le> e'" by blast
  from Cons.IH [OF e'(1)] e'(2) show ?case by (auto intro: order_trans)
qed

lemma advances_bumps: "only_bumps db db' \<Longrightarrow> advances db db'"
  unfolding only_bumps_def by (auto intro!: advances_guards map_of_bumps_up)

section \<open>Staging, publication and retention\<close>

lemma advances_stage:
  assumes "stage_projection_snapshot zdb K sx db = Inr (u, db')"
  shows "advances db db'"
proof -
  let ?d = "init_guard (sx_calendar_id sx) db"
  have db': "db' = ?d\<lparr>db_projection := (db_projection ?d)\<lparr>pt_staging := pt_staging (db_projection ?d) @ [staged_row sx]\<rparr>\<rparr>"
    using assms by (auto simp: stage_projection_snapshot_def Let_def bind_res_Inr_iff split: if_splits)
  show ?thesis
    by (rule advances_trans [OF advances_init_guard [of db "sx_calendar_id sx"]], rule advances_drop) (simp_all add: db')
qed

lemma advances_publish_stage:
  assumes "publish_projection_snapshot cal stage db = Inr (r, db')"
  shows "advances db db'"
proof -
  obtain row where row: "find (stage_at cal stage) (pt_staging (db_projection db)) = Some row"
    and e: "map_of (db_guards db) cal = Some (sn_guard_epoch row)"
    and db': "db' = db\<lparr>db_projection := publish_row cal stage (guard_revision cal db + 1) row (db_projection db)\<rparr>"
    using assms
    by (auto simp: publish_projection_snapshot_def Let_def bind_res_Inr_iff split: if_splits option.splits)
  have cal: "sn_calendar_id row = cal" using row by (auto simp: find_Some_iff stage_at_def)
  let ?row = "row\<lparr>sn_revision := guard_revision cal db + 1, sn_verified := False, sn_observations := None\<rparr>"
  show ?thesis
    by (rule advances_publish [where row = ?row])
      (simp_all add: db' publish_row_def set_guard_revision_def cal e)
qed

lemma advances_discard:
  "discard_projection_snapshot_stage cal stage db = Inr (u, db') \<Longrightarrow> advances db db'"
  by (rule advances_drop)
    (auto simp: discard_projection_snapshot_stage_def bind_res_Inr_iff split: if_splits)

lemma drop_attempts_frame [simp]:
  "pt_snapshots (drop_attempts P pt) = pt_snapshots pt" "pt_revisions (drop_attempts P pt) = pt_revisions pt"
  by (simp_all add: drop_attempts_def)

lemma stage_page_frame [simp]:
  "pt_snapshots (stage_page c i g a complete cursor pt) = pt_snapshots pt"
  "pt_revisions (stage_page c i g a complete cursor pt) = pt_revisions pt"
  by (simp_all add: stage_page_def)

lemma start_attempt_Inr:
  assumes "start_projection_page_attempt zdb c pin now t db = Inr (u, db')"
  obtains pt where "pt = drop_attempts (\<lambda>cal' g. cal' = pi_calendar_id pin \<and> g < pi_generation pin)
      (db_projection (init_guard (pi_calendar_id pin) db))"
    and "db' = (init_guard (pi_calendar_id pin) db)\<lparr>db_projection := pt\<lparr>pt_attempts := pt_attempts pt @ [attempt_row c pin]\<rparr>\<rparr>"
  using assms by (auto simp: start_projection_page_attempt_def Let_def bind_res_Inr_iff split: if_splits)

lemma advances_start:
  assumes "start_projection_page_attempt zdb c pin now t db = Inr (u, db')"
  shows "advances db db'"
  using assms
proof (rule start_attempt_Inr)
  fix pt
  let ?d = "init_guard (pi_calendar_id pin) db"
  assume pt: "pt = drop_attempts (\<lambda>cal' g. cal' = pi_calendar_id pin \<and> g < pi_generation pin) (db_projection ?d)"
    and db': "db' = ?d\<lparr>db_projection := pt\<lparr>pt_attempts := pt_attempts pt @ [attempt_row c pin]\<rparr>\<rparr>"
  show ?thesis
    by (rule advances_trans [OF advances_init_guard [of db "pi_calendar_id pin"]], rule advances_drop)
      (simp_all add: db' pt)
qed

text \<open>A page that was staged: the row, the attempt it belongs to and the conditions it met.\<close>

lemma append_page_Inr:
  assumes "append_projection_page_tx K c attemptID ordinal previousToken tz page now t1 t2 db = Inr (u, db')"
  obtains g a where "page_row_of K c ordinal previousToken page = Inr g"
    and "find (attempt_at (sc_calendar_id c) (sc_generation c) attemptID) (pt_attempts (db_projection db)) = Some a"
    and "validate_projection_google_page (sc_calendar_id c) page = Inr ()"
    and "lock_projection_snapshot_guard (sc_calendar_id c) (ap_guard_epoch a) (ap_base_revision a) db = Inr ()"
    and "list_ex (holds_lease c t2) (db_sync_states db)"
    and "\<not> ap_complete a" "ordinal = ap_next_ordinal a" "ap_next_token_hash a = pg_previous_hash g"
    and "db' = db\<lparr>db_projection := stage_page c attemptID g a (sp_complete page) (sp_next_cursor page) (db_projection db)\<rparr>"
proof -
  obtain g where g: "page_row_of K c ordinal previousToken page = Inr g"
    using assms by (auto simp: append_projection_page_tx_def Let_def bind_res_Inr_iff split: if_splits)
  obtain a where a: "find (attempt_at (sc_calendar_id c) (sc_generation c) attemptID) (pt_attempts (db_projection db)) = Some a"
    using assms g by (auto simp: append_projection_page_tx_def Let_def bind_res_Inr_iff split: if_splits option.splits)
  have later: "\<not> ordinal < ap_next_ordinal a"
    using assms g a by (auto simp: append_projection_page_tx_def Let_def bind_res_Inr_iff split: if_splits option.splits)
  show ?thesis
    using assms g a later
    by (intro that [OF g a])
      (auto simp: append_projection_page_tx_def Let_def bind_res_Inr_iff lock_lease_unit split: if_splits)
qed

lemma advances_append_tx:
  assumes "append_projection_page_tx K c attemptID ordinal previousToken tz page now t1 t2 db = Inr (u, db')"
  shows "advances db db'"
  using assms by (rule append_page_Inr) (auto intro!: advances_drop)

lemma advances_append:
  assumes "append_projection_page K c attemptID ordinal previousToken tz page now t db = Inr (u, db')"
  shows "advances db db'"
  using assms
  by (auto simp: append_projection_page_def bind_res_Inr_iff
      intro: advances_append_tx advances_refl split: sum.splits if_splits)

lemma apply_staged_Inr:
  assumes "apply_projection_staged_page zdb K cipher c attemptID ordinal previousToken tz page now t db = Inr (u, db')"
  obtains full db1 where
    "append_projection_page_tx K c attemptID ordinal previousToken tz page now (t 1) (t 2) db = Inr ((), db1)"
    "apply_event_sync_page_tx zdb cipher c (staged_batch full '''' None page) False (t 3) db1 = Inr ((), db')"
    "list_ex (holds_lease c (t 5)) (db_sync_states db')"
proof -
  obtain db1 where a: "append_projection_page_tx K c attemptID ordinal previousToken tz page now (t 1) (t 2) db = Inr ((), db1)"
    using assms by (auto simp: apply_projection_staged_page_def Let_def bind_res_Inr_iff split: if_splits)
  obtain r where r: "find (attempt_at (sc_calendar_id c) (sc_generation c) attemptID) (pt_attempts (db_projection db1)) = Some r"
    using assms a by (auto simp: apply_projection_staged_page_def Let_def bind_res_Inr_iff split: if_splits option.splits)
  show ?thesis
    using assms a r
    by (intro that [OF a, of "read_mode (ap_mode r) = EventSyncReplacement"])
      (auto simp: apply_projection_staged_page_def Let_def bind_res_Inr_iff lock_lease_unit split: if_splits)
qed

lemma advances_apply_page_tx:
  "apply_event_sync_page_tx zdb cipher c batch final now db = Inr (u, db') \<Longrightarrow> advances db db'"
  by (drule apply_page_tx_frame) (auto intro!: advances_frame)

lemma advances_apply_staged:
  assumes "apply_projection_staged_page zdb K cipher c attemptID ordinal previousToken tz page now t db = Inr (u, db')"
  shows "advances db db'"
  using assms by (rule apply_staged_Inr) (blast intro: advances_trans advances_append_tx advances_apply_page_tx)

lemma retire_frame:
  "set (pt_snapshots (retire_source_snapshot cal r pt)) \<subseteq> set (pt_snapshots pt)"
  "distinct (map revision_key (pt_snapshots pt)) \<Longrightarrow>
    distinct (map revision_key (pt_snapshots (retire_source_snapshot cal r pt)))"
  "pt_revisions (retire_source_snapshot cal r pt) = pt_revisions pt"
  by (auto simp: retire_source_snapshot_def distinct_map_filter)

lemma release_candidate_frame:
  "set (pt_snapshots (release_candidate K cal os s pt)) \<subseteq> set (pt_snapshots pt)"
  "distinct (map revision_key (pt_snapshots pt)) \<Longrightarrow>
    distinct (map revision_key (pt_snapshots (release_candidate K cal os s pt)))"
  "pt_revisions (release_candidate K cal os s pt) = pt_revisions pt"
  unfolding release_candidate_def Let_def
  by (auto simp: retire_frame(2,3) split: option.splits dest: set_mp [OF retire_frame(1)])

lemma fold_release_frame:
  "set (pt_snapshots (fold (release_candidate K cal os) ss pt)) \<subseteq> set (pt_snapshots pt) \<and>
   (distinct (map revision_key (pt_snapshots pt)) \<longrightarrow>
     distinct (map revision_key (pt_snapshots (fold (release_candidate K cal os) ss pt)))) \<and>
   pt_revisions (fold (release_candidate K cal os) ss pt) = pt_revisions pt"
proof (induction ss arbitrary: pt)
  case Nil
  then show ?case by simp
next
  case (Cons s ss)
  from Cons.IH [of "release_candidate K cal os s pt"] release_candidate_frame [where K = K and cal = cal and os = os and s = s and pt = pt]
  show ?case by auto
qed

lemma release_retained_frame:
  "set (pt_snapshots (release_retained_source_capacity K cal current os pt)) \<subseteq> set (pt_snapshots pt)"
  "distinct (map revision_key (pt_snapshots pt)) \<Longrightarrow>
    distinct (map revision_key (pt_snapshots (release_retained_source_capacity K cal current os pt)))"
  "pt_revisions (release_retained_source_capacity K cal current os pt) = pt_revisions pt"
proof -
  let ?pt1 = "pt\<lparr>pt_pins := filter (\<lambda>p. pn_calendar_id p = cal \<longrightarrow> retained_pin pt p) (pt_pins pt)\<rparr>"
  note f = fold_release_frame [of K cal os "sort_key sn_revision (filter (superseded_candidate cal current) (pt_snapshots ?pt1))" ?pt1]
  show "set (pt_snapshots (release_retained_source_capacity K cal current os pt)) \<subseteq> set (pt_snapshots pt)"
    using f unfolding release_retained_source_capacity_def Let_def by auto
  show "distinct (map revision_key (pt_snapshots pt)) \<Longrightarrow>
    distinct (map revision_key (pt_snapshots (release_retained_source_capacity K cal current os pt)))"
    using f unfolding release_retained_source_capacity_def Let_def by auto
  show "pt_revisions (release_retained_source_capacity K cal current os pt) = pt_revisions pt"
    using f unfolding release_retained_source_capacity_def Let_def by auto
qed

lemma advances_replay:
  "replay_pages zdb cipher c full cursor nextSync t i pages db = Inr (u, db') \<Longrightarrow>
   db_guards db' = db_guards db \<and> db_projection db' = db_projection db \<and> db_intents db' = db_intents db \<and>
   db_connections db' = db_connections db \<and> db_operations db' = db_operations db \<and>
   db_reservations db' = db_reservations db"
proof (induction pages arbitrary: db i)
  case Nil
  then show ?case by simp
next
  case (Cons page pages)
  obtain v d where one: "apply_event_sync_page_tx zdb cipher c (staged_batch full cursor (Some nextSync) page) False (t i) db = Inr (v, d)"
    and rest: "replay_pages zdb cipher c full cursor nextSync t (Suc i) pages d = Inr (u, db')"
    using Cons.prems by (auto simp: bind_res_Inr_iff)
  from apply_page_tx_frame [OF one] Cons.IH [OF rest] show ?case by simp
qed

lemma publish_revision_Inr:
  assumes "publish_revision row db = Inr (u, db')"
  shows "map_of (db_guards db) (sn_calendar_id row) = Some (sn_guard_epoch row) \<and>
    guard_revision (sn_calendar_id row) db = sn_base_revision row \<and>
    db' = db\<lparr>db_projection := set_guard_revision (sn_calendar_id row) (sn_revision row)
      ((db_projection db)\<lparr>pt_snapshots := pt_snapshots (db_projection db) @ [row]\<rparr>)\<rparr>"
  using assms by (auto simp: publish_revision_def Let_def split: if_splits)

lemma advances_publish_revision:
  assumes "publish_revision row db = Inr (u, db')" "sn_revision row = sn_base_revision row + 1"
  shows "advances db db'"
  using publish_revision_Inr [OF assms(1)] assms(2)
  by (intro advances_publish [where row = row]) (simp_all add: set_guard_revision_def)

lemma consume_attempt_Inr:
  assumes "consume_attempt c pin db = Inr (u, db')"
  shows "db' = db\<lparr>db_projection := (let pt1 = drop_attempts (\<lambda>cal' g'. cal' = sc_calendar_id c \<and> g' = sc_generation c)
      (db_projection db) in if 0 < pi_base_revision pin
        then retire_source_snapshot (sc_calendar_id c) (pi_base_revision pin) pt1 else pt1)\<rparr>"
  using assms by (auto simp: consume_attempt_def Let_def split: if_splits)

lemma advances_consume:
  assumes "consume_attempt c pin db = Inr (u, db')"
  shows "advances db db'"
  by (rule advances_drop)
    (use consume_attempt_Inr [OF assms] in \<open>auto simp: Let_def retire_frame(2,3) dest: set_mp [OF retire_frame(1)]\<close>)

text \<open>A candidate that was accepted for publication.\<close>

lemma prepare_Inr:
  assumes "prepare_projection_finalization U zdb K c attemptID now t1 t2 db = Inr fz"
  obtains a src base where
    "find (attempt_at (sc_calendar_id c) (sc_generation c) attemptID) (pt_attempts (db_projection db)) = Some a"
    "fz_input fz = attempt_input_of a" "ap_complete a" "fz_cursor fz = ap_final_cursor a"
    "pi_mode (fz_input fz) = EventSyncIncremental \<or> pi_mode (fz_input fz) = EventSyncReplacement"
    "page_stage_source (sc_calendar_id c) db = Inr src"
    "frozen_source (pi_base_cursor (fz_input fz)) (pi_timezone (fz_input fz)) (pi_window_start (fz_input fz))
       (pi_window_end (fz_input fz)) src"
    "\<not> active_quarantine (sc_calendar_id c) (db_cache db)"
    "lock_projection_snapshot_guard (sc_calendar_id c) (pi_guard_epoch (fz_input fz)) (pi_base_revision (fz_input fz)) db = Inr ()"
    "candidate_base U K (fz_input fz) db = Inr base"
    "validate_projection_page_chain U K (sc_calendar_id c) (pi_timezone (fz_input fz)) (ap_final_cursor a)
       (ap_next_token_hash a) (ap_total_bytes a)
       (sort_key pg_ordinal (filter (page_at (sc_calendar_id c) (sc_generation c)) (pt_pages (db_projection db)))) = Inr (fz_pages fz)"
    "materialize zdb (sc_calendar_id c) (pi_timezone (fz_input fz)) (pi_window_start (fz_input fz))
       (pi_window_end (fz_input fz)) (pi_mode (fz_input fz)) base (pi_mode (fz_input fz) = EventSyncIncremental)
       (fz_pages fz) = Inr (fz_events fz, fz_removals fz)"
    "list_ex (holds_lease c t2) (db_sync_states db)"
proof -
  obtain a where a: "find (attempt_at (sc_calendar_id c) (sc_generation c) attemptID) (pt_attempts (db_projection db)) = Some a"
    using assms unfolding prepare_projection_finalization_def Let_def
    by (auto simp: bind_res_Inr_iff split: if_splits option.splits)
  obtain src base pages events removals where s: "page_stage_source (sc_calendar_id c) db = Inr src"
    and b: "candidate_base U K (attempt_input_of a) db = Inr base"
    and p: "validate_projection_page_chain U K (sc_calendar_id c) (ap_timezone a) (ap_final_cursor a)
       (ap_next_token_hash a) (ap_total_bytes a)
       (sort_key pg_ordinal (filter (page_at (sc_calendar_id c) (sc_generation c)) (pt_pages (db_projection db)))) = Inr pages"
    and m: "materialize zdb (sc_calendar_id c) (ap_timezone a) (ap_window_start a) (ap_window_end a)
       (pi_mode (attempt_input_of a)) base (pi_mode (attempt_input_of a) = EventSyncIncremental) pages = Inr (events, removals)"
    and fz: "fz = \<lparr>fz_input = attempt_input_of a, fz_cursor = ap_final_cursor a, fz_pages = pages, fz_events = events,
                 fz_removals = removals\<rparr>"
    and rest: "ap_complete a" "lock_projection_snapshot_guard (sc_calendar_id c) (ap_guard_epoch a) (ap_base_revision a) db = Inr ()"
      "frozen_source (ap_base_cursor a) (ap_timezone a) (ap_window_start a) (ap_window_end a) src"
      "\<not> active_quarantine (sc_calendar_id c) (db_cache db)" "list_ex (holds_lease c t2) (db_sync_states db)"
      "pi_mode (attempt_input_of a) = EventSyncIncremental \<or> pi_mode (attempt_input_of a) = EventSyncReplacement"
    using assms a unfolding prepare_projection_finalization_def Let_def
    by (auto simp: bind_res_Inr_iff lock_lease_unit attempt_input_of_def split: if_splits)
  show ?thesis
    using rest by (intro that [OF a _ _ _ _ s, of base]) (simp_all add: fz attempt_input_of_def b [unfolded attempt_input_of_def] p m [unfolded attempt_input_of_def, simplified])
qed

text \<open>One step of a transaction that was committed.\<close>

lemma bind_pairE:
  assumes "bind_res r (\<lambda>(x, y). f x y) = Inr z"
  obtains x y where "r = Inr (x, y)" "f x y = Inr z"
  using assms by (auto simp: bind_res_Inr_iff)

lemma finalize_Inr:
  assumes "finalize_projection_tx U zdb K cipher c attemptID now nextSync t db = Inr (revision, db')"
  obtains fz payload removals observations db1 db2 db3 db4 where
    "prepare_projection_finalization U zdb K c attemptID now (t 0) (t 1) db = Inr fz"
    "encode_projection_snapshot_payload K (fz_events fz) (sc_calendar_id c) = Inr payload"
    "carried_removals K fz db = Inr removals" "observations_text K removals = Inr observations"
    "length payload \<le> maxProjectionSnapshotBytes" "length observations \<le> maxProjectionObservationBytes"
    "db1 = db\<lparr>db_projection :=
       release_retained_source_capacity K (sc_calendar_id c) (pi_base_revision (fz_input fz)) removals (db_projection db)\<rparr>"
    "replay_pages zdb cipher c (pi_mode (fz_input fz) = EventSyncReplacement) (fz_cursor fz) nextSync (\<lambda>i. t (3 + i)) 0
       (fz_pages fz) db1 = Inr ((), db2)"
    "publish_revision (revision_row fz revision (t 2) payload observations) db2 = Inr ((), db3)"
    "consume_attempt c (fz_input fz) db3 = Inr ((), db4)"
    "apply_event_sync_page_tx zdb cipher c
       (final_batch (pi_mode (fz_input fz) = EventSyncReplacement) (fz_cursor fz) nextSync) True
       (t (3 + length (fz_pages fz))) db4 = Inr ((), db')"
    "revision = pi_base_revision (fz_input fz) + 1"
    "\<exists>leaseUntil. lease_until_of c db = Inr leaseUntil \<and> t (4 + length (fz_pages fz)) < leaseUntil"
    "now < nextSync"
proof -
  obtain fz where fz: "prepare_projection_finalization U zdb K c attemptID now (t 0) (t 1) db = Inr fz"
    and n: "now < nextSync"
    using assms unfolding finalize_projection_tx_def Let_def by (auto simp: bind_res_Inr_iff split: if_splits)
  obtain payload removals observations leaseUntil where
    p: "encode_projection_snapshot_payload K (fz_events fz) (sc_calendar_id c) = Inr payload"
    and r: "carried_removals K fz db = Inr removals" and o': "observations_text K removals = Inr observations"
    and lu: "lease_until_of c db = Inr leaseUntil"
    and sizes: "length payload \<le> maxProjectionSnapshotBytes" "length observations \<le> maxProjectionObservationBytes"
    using assms fz unfolding finalize_projection_tx_def Let_def by (auto simp: bind_res_Inr_iff split: if_splits)
  define db1 where "db1 = db\<lparr>db_projection :=
       release_retained_source_capacity K (sc_calendar_id c) (pi_base_revision (fz_input fz)) removals (db_projection db)\<rparr>"
  have run: "bind_res (replay_pages zdb cipher c (pi_mode (fz_input fz) = EventSyncReplacement) (fz_cursor fz) nextSync
        (\<lambda>i. t (3 + i)) 0 (fz_pages fz) db1) (\<lambda>(_, db2).
      bind_res (publish_revision (revision_row fz (pi_base_revision (fz_input fz) + 1) (t 2) payload observations) db2) (\<lambda>(_, db3).
      bind_res (consume_attempt c (fz_input fz) db3) (\<lambda>(_, db4).
      bind_res (apply_event_sync_page_tx zdb cipher c
        (final_batch (pi_mode (fz_input fz) = EventSyncReplacement) (fz_cursor fz) nextSync) True
        (t (3 + length (fz_pages fz))) db4)
        (\<lambda>(_, db5).
      if \<not> t (4 + length (fz_pages fz)) < leaseUntil then Inl (Sentinel ErrCalendarSyncLeaseLost)
      else if \<not> t (4 + length (fz_pages fz)) < nextSync then Inl page_stage_error
      else Inr (pi_base_revision (fz_input fz) + 1, db5))))) = Inr (revision, db')"
    using assms fz p r o' lu sizes n unfolding finalize_projection_tx_def Let_def db1_def
    by (auto split: if_splits)
  from run obtain u2 db2 u3 db3 u4 db4 u5 db5 where steps:
    "replay_pages zdb cipher c (pi_mode (fz_input fz) = EventSyncReplacement) (fz_cursor fz) nextSync
        (\<lambda>i. t (3 + i)) 0 (fz_pages fz) db1 = Inr (u2, db2)"
    "publish_revision (revision_row fz (pi_base_revision (fz_input fz) + 1) (t 2) payload observations) db2 = Inr (u3, db3)"
    "consume_attempt c (fz_input fz) db3 = Inr (u4, db4)"
    "apply_event_sync_page_tx zdb cipher c
        (final_batch (pi_mode (fz_input fz) = EventSyncReplacement) (fz_cursor fz) nextSync) True
        (t (3 + length (fz_pages fz))) db4 = Inr (u5, db5)"
    and fin: "(if \<not> t (4 + length (fz_pages fz)) < leaseUntil then Inl (Sentinel ErrCalendarSyncLeaseLost)
      else if \<not> t (4 + length (fz_pages fz)) < nextSync then Inl page_stage_error
      else Inr (pi_base_revision (fz_input fz) + 1, db5)) = Inr (revision, db')"
    by (elim bind_pairE) (rule that)
  have last: "db5 = db'" "revision = pi_base_revision (fz_input fz) + 1" "t (4 + length (fz_pages fz)) < leaseUntil"
    using fin by (simp_all split: if_splits)
  show ?thesis
    by (rule that [OF fz p r o' sizes db1_def])
      (use steps last lu n in \<open>simp_all\<close>)
qed

lemma attempt_input_calendar:
  "find (attempt_at cal g i) xs = Some a \<Longrightarrow> pi_calendar_id (attempt_input_of a) = cal \<and>
     pi_generation (attempt_input_of a) = g \<and> pi_attempt_id (attempt_input_of a) = i"
  by (auto simp: find_Some_iff attempt_at_def attempt_input_of_def)

lemma advances_finalize:
  assumes "finalize_projection_tx U zdb K cipher c attemptID now nextSync t db = Inr (revision, db')"
  shows "advances db db'"
  using assms
proof (rule finalize_Inr)
  fix fz payload removals observations db1 db2 db3 db4
  assume db1: "db1 = db\<lparr>db_projection :=
       release_retained_source_capacity K (sc_calendar_id c) (pi_base_revision (fz_input fz)) removals (db_projection db)\<rparr>"
    and r: "replay_pages zdb cipher c (pi_mode (fz_input fz) = EventSyncReplacement) (fz_cursor fz) nextSync (\<lambda>i. t (3 + i)) 0
       (fz_pages fz) db1 = Inr ((), db2)"
    and p: "publish_revision (revision_row fz revision (t 2) payload observations) db2 = Inr ((), db3)"
    and c: "consume_attempt c (fz_input fz) db3 = Inr ((), db4)"
    and f: "apply_event_sync_page_tx zdb cipher c
       (final_batch (pi_mode (fz_input fz) = EventSyncReplacement) (fz_cursor fz) nextSync) True
       (t (3 + length (fz_pages fz))) db4 = Inr ((), db')"
    and rev: "revision = pi_base_revision (fz_input fz) + 1"
  have "advances db db1" by (rule advances_drop) (auto simp: db1 release_retained_frame(2,3) dest: set_mp [OF release_retained_frame(1)])
  also have "advances db1 db2" using advances_replay [OF r] by (auto intro: advances_frame)
  also have "advances db2 db3" by (rule advances_publish_revision [OF p]) (simp add: revision_row_def Let_def rev)
  also have "advances db3 db4" by (rule advances_consume [OF c])
  also have "advances db4 db'" by (rule advances_apply_page_tx [OF f])
  finally show ?thesis .
qed

lemma release_fence_projection [simp]:
  "db_guards (release_source_state_fence uuid db) = db_guards db"
  "db_projection (release_source_state_fence uuid db) = db_projection db"
  "db_intents (release_source_state_fence uuid db) = db_intents db"
  "db_sync_states (release_source_state_fence uuid db) = db_sync_states db"
  "db_cache (release_source_state_fence uuid db) = db_cache db"
  "db_calendars (release_source_state_fence uuid db) = db_calendars db"
  "db_connections (release_source_state_fence uuid db) = db_connections db"
  by (simp_all add: release_source_state_fence_def)

lemma insert_reservation_Inr:
  "insert_exclusive_reservation req db = Inr (u, db') \<Longrightarrow> \<exists>rs. db' = db\<lparr>db_reservations := rs\<rparr>"
  by (auto simp: insert_exclusive_reservation_def split: if_splits)

text \<open>The terminal page runs between the fence and its release, on a database that differs only in the fence.\<close>

lemma finalize_source_Inr:
  assumes "finalize_source_projection_page U zdb K cipher c attemptID ordinal previousToken tz page now nextSync uuid t u db
    = Inr (revision, db')"
  obtains db2 db3 db4 ops rs where "db2 = db\<lparr>db_operations := ops, db_reservations := rs\<rparr>"
    "append_projection_page_tx K c attemptID ordinal previousToken tz page now (t 1) (t 2) db2 = Inr ((), db3)"
    "finalize_projection_tx U zdb K cipher c attemptID (t 3) nextSync u db3 = Inr (revision, db4)"
    "db' = release_source_state_fence uuid db4" "sp_complete page"
    "list_ex (holds_lease c (t 0)) (db_sync_states db)"
    "\<not> list_ex (active_reservation GlobalSyncDispatchKey) (db_reservations db)"
proof -
  obtain ids encoded where n: "normalize_mutation_calendars [sc_calendar_id c] = Inr (ids, encoded)"
    using assms unfolding finalize_source_projection_page_def Let_def by (auto simp: bind_res_Inr_iff split: if_splits)
  define db1 where "db1 = db\<lparr>db_operations := db_operations db @
             [\<lparr>mo_operation_id = uuid, mo_calendar_ids = encoded, mo_started_at = now, mo_resolved_at = None\<rparr>]\<rparr>"
  obtain db2 db3 db4 where i: "insert_exclusive_reservation \<lparr>xr_operation_id = uuid, xr_target_key = GlobalSyncDispatchKey,
             xr_request_hash = projection_page_hash uuid, xr_kind = ''run'', xr_calendar_ids = [], xr_now = now\<rparr> db1 = Inr ((), db2)"
    and a: "append_projection_page_tx K c attemptID ordinal previousToken tz page now (t 1) (t 2) db2 = Inr ((), db3)"
    and f: "finalize_projection_tx U zdb K cipher c attemptID (t 3) nextSync u db3 = Inr (revision, db4)"
    and rest: "db' = release_source_state_fence uuid db4" "sp_complete page" "list_ex (holds_lease c (t 0)) (db_sync_states db2)"
    using assms n unfolding finalize_source_projection_page_def Let_def db1_def
    by (auto simp: bind_res_Inr_iff lock_lease_unit split: if_splits)
  obtain rs where rs: "db2 = db1\<lparr>db_reservations := rs\<rparr>" using insert_reservation_Inr [OF i] by blast
  have free: "\<not> list_ex (active_reservation GlobalSyncDispatchKey) (db_reservations db)"
    using i by (auto simp: insert_exclusive_reservation_def db1_def list_ex_iff split: if_splits)
  show ?thesis
    by (rule that [OF _ a f rest(1,2) _ free]) (use rest(3) in \<open>simp_all add: rs db1_def\<close>)
qed

lemma advances_finalize_source:
  assumes "finalize_source_projection_page U zdb K cipher c attemptID ordinal previousToken tz page now nextSync uuid t u db
    = Inr (revision, db')"
  shows "advances db db'"
  using assms
proof (rule finalize_source_Inr)
  fix db2 db3 db4 ops rs
  assume db2: "db2 = db\<lparr>db_operations := ops, db_reservations := rs\<rparr>"
    and a: "append_projection_page_tx K c attemptID ordinal previousToken tz page now (t 1) (t 2) db2 = Inr ((), db3)"
    and f: "finalize_projection_tx U zdb K cipher c attemptID (t 3) nextSync u db3 = Inr (revision, db4)"
    and db': "db' = release_source_state_fence uuid db4"
  have "advances db db2" by (rule advances_frame) (simp_all add: db2)
  also have "advances db2 db3" by (rule advances_append_tx [OF a])
  also have "advances db3 db4" by (rule advances_finalize [OF f])
  also have "advances db4 db'" by (rule advances_frame) (simp_all add: db')
  finally show ?thesis .
qed

section \<open>Histories\<close>

text \<open>
  The committed transactions on guards, attempts and revisions, in any order; \<open>other\<close> is every
  transaction that leaves the guards and the projection tables alone (claims, pages of the read
  model, rules, jobs, mappings).
\<close>

inductive projection_step :: "sync_db \<Rightarrow> sync_db \<Rightarrow> bool" where
  ledger: "ledger_step db db' \<Longrightarrow> projection_step db db'"
| stage: "stage_projection_snapshot zdb K sx db = Inr (u, db') \<Longrightarrow> projection_step db db'"
| publish: "publish_projection_snapshot cal i db = Inr (r, db') \<Longrightarrow> projection_step db db'"
| discard: "discard_projection_snapshot_stage cal i db = Inr (u, db') \<Longrightarrow> projection_step db db'"
| start: "start_projection_page_attempt zdb c pin now t db = Inr (u, db') \<Longrightarrow> projection_step db db'"
| append_page: "append_projection_page K c i n tok tz page now t db = Inr (u, db') \<Longrightarrow> projection_step db db'"
| apply_staged: "apply_projection_staged_page zdb K cipher c i n tok tz page now t db = Inr (u, db') \<Longrightarrow>
    projection_step db db'"
| finalize: "finalize_source_projection_page U zdb K cipher c i n tok tz page now nextSync uuid t v db = Inr (r, db') \<Longrightarrow>
    projection_step db db'"
| other: "db_guards db' = db_guards db \<Longrightarrow> db_projection db' = db_projection db \<Longrightarrow> projection_step db db'"

lemma projection_step_advances: "projection_step db db' \<Longrightarrow> advances db db'"
  by (induction rule: projection_step.induct)
    (blast intro: advances_bumps ledger_step_bumps advances_stage advances_publish_stage advances_discard advances_start
       advances_append advances_apply_staged advances_finalize_source advances_frame)+

lemma projection_steps_advance: "projection_step\<^sup>*\<^sup>* db db' \<Longrightarrow> advances db db'"
  by (induction rule: rtranclp_induct) (blast intro: advances_refl advances_trans projection_step_advances)+

lemma revisions_ok_same:
  "revisions_ok db \<Longrightarrow> p \<in> snapshots db \<Longrightarrow> q \<in> snapshots db \<Longrightarrow> revision_key p = revision_key q \<Longrightarrow> p = q"
  unfolding revisions_ok_def snapshots_def by (metis distinct_map inj_onD)

text \<open>A read that is served comes from the guard's current revision, at the guard's current epoch.\<close>

lemma source_projection_Inr:
  assumes "get_source_projection_for_copy U zdb K cal start stop now maxAge db = Inr v"
  obtains p where "p \<in> snapshots db" "sn_calendar_id p = cal" "sn_revision p = guard_revision cal db"
    "sj_snapshot v = snapshot_columns p" "map_of (db_guards db) cal = Some (sn_guard_epoch p)"
    "pending_intents cal db = 0" "sn_verified p"
proof -
  obtain w raw where w: "current_source cal db = Some w" "source_view_ok zdb w start stop now maxAge"
    and v: "sj_snapshot v = snapshot_columns (sv_snapshot w)"
    using assms
    by (auto simp: get_source_projection_for_copy_def split: if_splits option.splits sum.splits)
  have p: "sv_snapshot w \<in> snapshots db \<and> sn_calendar_id (sv_snapshot w) = cal \<and>
      sn_revision (sv_snapshot w) = guard_revision cal db \<and> map_of (db_guards db) cal = Some (sv_epoch w) \<and>
      sv_pending w = (pending_intents cal db \<noteq> 0)"
    using w(1) unfolding current_source_def snapshot_at_def
    by (auto simp: snapshots_def find_Some_iff split: option.splits)
  show ?thesis
    by (rule that [of "sv_snapshot w"]) (use p w(2) v in \<open>simp_all add: source_view_ok_def Let_def\<close>)
qed

text \<open>
  C18. Published revisions are immutable: whatever transactions are committed after a revision of
  a calendar's projection is published, in any order, a row with its number is the very same row.
  Retention may drop a revision, but its number is never given to another one.
\<close>

theorem published_revision_immutable:
  assumes "projection_step\<^sup>*\<^sup>* db db'" and "revisions_ok db"
    and "p \<in> snapshots db" and "p' \<in> snapshots db'"
    and "sn_calendar_id p' = sn_calendar_id p" and "sn_revision p' = sn_revision p"
  shows "p' = p"
proof -
  have on: "moves_on db db'" using projection_steps_advance [OF assms(1)] assms(2) by (simp add: advances_def)
  have "sn_revision p \<le> guard_revision (sn_calendar_id p) db"
    using assms(2,3) by (simp add: revisions_ok_def)
  with on assms(4,5,6) have "p' \<in> snapshots db" unfolding moves_on_def by fastforce
  with revisions_ok_same [OF assms(2) _ assms(3)] assms(5,6) show ?thesis by (simp add: revision_key_def)
qed

text \<open>Beginning a mutation moves the guard of its calendar past every published revision.\<close>

definition begins_mutation :: "string \<Rightarrow> sync_db \<Rightarrow> sync_db \<Rightarrow> bool" where
  "begins_mutation cal db db' \<longleftrightarrow>
     (\<exists>m now. begin_projection_mutation cal m now db = Inr ((), db')) \<or>
     (\<exists>cals op now. begin_projection_mutation_many cals op now db = Inr ((), db') \<and> cal \<in> set cals) \<or>
     (\<exists>req. begin_exclusive_dispatch req db = Inr ((), db') \<and> cal \<in> set (xr_calendar_ids req))"

lemma normalized_members:
  "normalize_mutation_calendars cals = Inr (ids, encoded) \<Longrightarrow> set ids = set cals"
  by (auto simp: normalize_mutation_calendars_def Let_def split: if_splits)

lemma map_of_bumps_past:
  assumes "cal \<in> set ids"
  shows "\<exists>e'. map_of (fold bumped ids g) cal = Some e' \<and> (\<forall>e. map_of g cal = Some e \<longrightarrow> e < e')"
  using assms
proof (induction ids arbitrary: g)
  case Nil
  then show ?case by simp
next
  case (Cons i ids)
  show ?case
  proof (cases "cal \<in> set ids")
    case True
    then obtain e' where e': "map_of (fold bumped ids (bumped i g)) cal = Some e'"
      "\<forall>e. map_of (bumped i g) cal = Some e \<longrightarrow> e < e'" using Cons.IH by blast
    have "e < e'" if "map_of g cal = Some e" for e
      using map_of_bumped_up [OF that, of i] e'(2) by force
    with e'(1) show ?thesis by auto
  next
    case False
    with Cons.prems have "i = cal" by simp
    then have "\<exists>e'. map_of (bumped i g) cal = Some e' \<and> (\<forall>e. map_of g cal = Some e \<longrightarrow> e < e')"
      by (auto simp: map_of_bumped split: option.splits)
    then obtain e' where e': "map_of (bumped i g) cal = Some e'" "\<forall>e. map_of g cal = Some e \<longrightarrow> e < e'" by blast
    from map_of_bumps_up [OF e'(1), of ids] e'(2) show ?thesis by (auto intro: order_less_le_trans)
  qed
qed

lemma begins_mutation_effect:
  assumes "begins_mutation cal db db1"
  shows "db_projection db1 = db_projection db \<and>
    (\<exists>e'. map_of (db_guards db1) cal = Some e' \<and> (\<forall>e. map_of (db_guards db) cal = Some e \<longrightarrow> e < e'))"
proof -
  consider m now where "begin_projection_mutation cal m now db = Inr ((), db1)"
    | cals op now where "begin_projection_mutation_many cals op now db = Inr ((), db1)" "cal \<in> set cals"
    | req where "begin_exclusive_dispatch req db = Inr ((), db1)" "cal \<in> set (xr_calendar_ids req)"
    using assms unfolding begins_mutation_def by blast
  then obtain ids where "cal \<in> set ids" "db_guards db1 = fold bumped ids (db_guards db)" "db_projection db1 = db_projection db"
  proof cases
    case 1
    then have "guard_and_intend cal m db = Inr ((), db1)"
      by (auto simp: begin_projection_mutation_def split: if_splits)
    from that [of "[cal]"] guard_and_intend_effect(1) [OF this] show ?thesis by simp
  next
    case 2
    obtain ids encoded where n: "normalize_mutation_calendars cals = Inr (ids, encoded)"
      using 2(1) by (auto simp: begin_projection_mutation_many_def split: sum.splits)
    then obtain o' where "fold_res (intend_calendar op) ids (db\<lparr>db_operations := db_operations db @ [o']\<rparr>) = Inr db1"
      using 2(1) by (auto simp: begin_projection_mutation_many_def Let_def bind_res_Inr_iff split: if_splits)
    from many_fold_effect [OF this] that [of ids] normalized_members [OF n] 2(2) show ?thesis by simp
  next
    case 3
    show ?thesis using 3(1)
    proof (rule begin_exclusive_effect)
      fix ids encoded
      assume n: "normalize_mutation_calendars (xr_calendar_ids req) = Inr (ids, encoded)"
        and d: "db1 = db\<lparr>db_operations := db_operations db @
        [\<lparr>mo_operation_id = xr_operation_id req, mo_calendar_ids = encoded, mo_started_at = xr_now req, mo_resolved_at = None\<rparr>],
       db_reservations := db_reservations db @
        [\<lparr>rs_operation_id = xr_operation_id req, rs_target_key = xr_target_key req,
          rs_request_hash = xr_request_hash req, rs_operation_kind = xr_kind req,
          rs_created_at = xr_now req, rs_released_at = None\<rparr>],
       db_guards := fold bumped ids (db_guards db),
       db_intents := db_intents db @ op_intents (xr_operation_id req) ids,
       db_members := db_members db @ op_rows (xr_operation_id req) ids,
       db_guard_members := db_guard_members db @ op_rows (xr_operation_id req) ids\<rparr>"
      show ?thesis using that [of ids] normalized_members [OF n] 3(2) by (simp add: d)
    qed
  qed
  with map_of_bumps_past [of cal ids "db_guards db"] show ?thesis by simp
qed

text \<open>
  C17. No stale source: once a mutation of a calendar has begun (a write to it may be on its way),
  the projection that copy rules read is never again one that was published before, however the
  mutation is resolved later and whatever else is committed; a read that is served has a later
  revision.
\<close>

theorem begun_mutation_retires_projection:
  assumes "revisions_ok db" and "begins_mutation cal db db1" and "projection_step\<^sup>*\<^sup>* db1 db2"
    and "get_source_projection_for_copy U zdb K cal start stop now maxAge db2 = Inr v"
  shows "guard_revision cal db < sn_revision (sj_snapshot v)"
proof -
  obtain e1 where pr: "db_projection db1 = db_projection db" and e1: "map_of (db_guards db1) cal = Some e1"
    and past: "\<forall>e. map_of (db_guards db) cal = Some e \<longrightarrow> e < e1"
    using begins_mutation_effect [OF assms(2)] by blast
  have same: "snapshots db1 = snapshots db" "guard_revision cal' db1 = guard_revision cal' db" for cal'
    by (simp_all add: snapshots_def guard_revision_def pr)
  have ok1: "revisions_ok db1"
    using assms(2) projection_step_advances [of db db1]
    unfolding begins_mutation_def advances_def
    using assms(1) ledger_step.intros(1,3,5) projection_step.ledger by metis
  have on: "moves_on db1 db2" using projection_steps_advance [OF assms(3)] ok1 by (simp add: advances_def)
  obtain p where p: "p \<in> snapshots db2" "sn_calendar_id p = cal" "sj_snapshot v = snapshot_columns p"
    "map_of (db_guards db2) cal = Some (sn_guard_epoch p)"
    using assms(4) by (rule source_projection_Inr)
  have "e1 \<le> sn_guard_epoch p" using on e1 p(4) unfolding moves_on_def by force
  moreover have "sn_guard_epoch p < e1" if "p \<in> snapshots db"
    using assms(1) that p(2) past unfolding revisions_ok_def by force
  ultimately have "p \<notin> snapshots db1" by (auto simp: same)
  with on p(1,2) have "guard_revision cal db1 < sn_revision p" unfolding moves_on_def by blast
  then show ?thesis by (simp add: p(3) snapshot_columns_def same)
qed

section \<open>What a publication leaves behind\<close>

text \<open>A page without warnings puts nothing into quarantine.\<close>

definition calm :: "string \<Rightarrow> cache_tables \<Rightarrow> cache_tables \<Rightarrow> bool" where
  "calm cal t t' \<longleftrightarrow> (active_quarantine cal t' \<longrightarrow> active_quarantine cal t)"

lemma calm_refl: "calm cal t t"
  and calm_trans: "calm cal t u \<Longrightarrow> calm cal u v \<Longrightarrow> calm cal t v"
  and calm_same: "ct_quarantine t' = ct_quarantine t \<Longrightarrow> calm cal t t'"
  by (simp_all add: calm_def active_quarantine_def)

lemma calm_clear: "calm cal t (clear_event_sync_quarantine cal' obj t)"
  by (auto simp: calm_def active_quarantine_def clear_event_sync_quarantine_def list_ex_iff set_update_rows)

lemma calm_fold: "(\<And>x t. calm cal t (f x t)) \<Longrightarrow> calm cal t (fold f xs t)"
  by (induction xs arbitrary: t) (auto intro: calm_refl calm_trans)

lemma calm_fold_res:
  "fold_res f xs t = Inr t' \<Longrightarrow> (\<And>x t t'. f x t = Inr t' \<Longrightarrow> calm cal t t') \<Longrightarrow> calm cal t t'"
  by (induction xs arbitrary: t) (auto intro: calm_refl split: sum.splits, blast intro: calm_trans)

lemma calm_apply_upsert: "apply_upsert zdb cal' g s u t = Inr t' \<Longrightarrow> calm cal t t'"
  unfolding apply_upsert_def upsert_cached_event_def
  by (auto simp: bind_res_Inr_iff intro: calm_trans [OF calm_same calm_clear])

lemma calm_apply_deletion: "calm cal t (apply_deletion cal' g s i t)"
  unfolding apply_deletion_def by (rule calm_trans [OF calm_same calm_clear]) (simp add: tombstone_cached_event_def)

lemma calm_tombstone_missing: "calm cal t (tombstone_missing_object_members cal' obj ms g s t)"
  unfolding tombstone_missing_object_members_def
  by (rule calm_fold) (rule calm_same, simp add: tombstone_cached_event_def)

lemma apply_changes_calm:
  assumes run: "apply_changes zdb cipher cal g batch now t = Inr t'" and w: "eb_warnings batch = []"
  shows "calm cal' t t'"
proof -
  obtain ms t1 t3 t4 where
    t1: "fold_res (replace_object cal batch ms g now) (eb_replaced_object_ids batch) t = Inr t1"
    and t3: "fold_res (apply_upsert zdb cal g now) (eb_upserts batch) t1 = Inr t3"
    and t4: "fold_res (apply_object cal g) (eb_objects batch)
         (fold (apply_deletion cal g now) (eb_deleted_event_ids batch) t3) = Inr t4"
    and t': "t' = fold (apply_object_deletion cal g now) (eb_deleted_object_ids batch) t4"
    using run unfolding apply_changes_def by (auto simp: w bind_res_Inr_iff split: if_splits)
  have "calm cal' t t1"
    by (rule calm_fold_res [OF t1]) (auto simp: replace_object_def calm_tombstone_missing split: if_splits option.splits)
  moreover have "calm cal' t1 t3" by (rule calm_fold_res [OF t3]) (rule calm_apply_upsert)
  moreover have "calm cal' t3 (fold (apply_deletion cal g now) (eb_deleted_event_ids batch) t3)"
    by (rule calm_fold) (rule calm_apply_deletion)
  moreover have "calm cal' (fold (apply_deletion cal g now) (eb_deleted_event_ids batch) t3) t4"
    by (rule calm_fold_res [OF t4]) (auto simp: apply_object_def upsert_object_def intro: calm_same split: if_splits)
  moreover have "calm cal' t4 t'" unfolding t'
    by (rule calm_fold) (auto simp: apply_object_deletion_def bury_object_def intro: calm_trans [OF calm_same calm_clear])
  ultimately show ?thesis by (blast intro: calm_trans)
qed

lemma staged_batch_simps [simp]:
  "eb_warnings (staged_batch full cursor n page) = []" "eb_source_time_zone (staged_batch full cursor n page) = ''''"
  "eb_warnings (final_batch full cursor m) = []" "eb_source_time_zone (final_batch full cursor m) = ''''"
  "eb_degraded (final_batch full cursor m) = False" "eb_next_cursor (final_batch full cursor m) = cursor"
  "eb_next_sync_at (final_batch full cursor m) = Some m" "eb_full_sync (final_batch full cursor m) = full"
  by (simp_all add: staged_batch_def final_batch_def)

lemma replay_calm:
  assumes "replay_pages zdb cipher c full cursor nextSync t i pages db = Inr (u, db')"
  shows "calm cal (db_cache db) (db_cache db') \<and> db_sync_states db' = db_sync_states db \<and>
    db_calendars db' = db_calendars db"
  using assms
proof (induction pages arbitrary: db i)
  case Nil
  then show ?case by (simp add: calm_refl)
next
  case (Cons page pages)
  obtain d where one: "apply_event_sync_page_tx zdb cipher c (staged_batch full cursor (Some nextSync) page) False (t i) db = Inr ((), d)"
    and rest: "replay_pages zdb cipher c full cursor nextSync t (Suc i) pages d = Inr (u, db')"
    using Cons.prems by (auto simp: bind_res_Inr_iff)
  obtain t' where t': "apply_changes zdb cipher (sc_calendar_id c) (sc_generation c)
      (staged_batch full cursor (Some nextSync) page) (t i) (db_cache db) = Inr t'" and d: "d = db\<lparr>db_cache := t'\<rparr>"
    using one by (rule apply_page_tx_Inr) (simp add: Let_def)
  have "calm cal (db_cache db) t'" by (rule apply_changes_calm [OF t']) simp
  with Cons.IH [OF rest] show ?case by (auto simp: d intro: calm_trans)
qed

lemma holds_lease_id: "holds_lease c now r \<Longrightarrow> ss_calendar_id r = sc_calendar_id c"
  by (simp add: holds_lease_def)

text \<open>The row of a calendar after its claim was finished.\<close>

lemma find_finished:
  assumes keys: "distinct (map ss_calendar_id rows)" and one: "count_rows (holds_lease c now) rows = 1"
    and s: "find (\<lambda>r. ss_calendar_id r = sc_calendar_id c) rows = Some s"
    and f: "\<And>r. ss_calendar_id (f r) = ss_calendar_id r"
  shows "find (\<lambda>r. ss_calendar_id r = sc_calendar_id c) (update_rows (holds_lease c now) f rows) = Some (f s) \<and>
    holds_lease c now s"
proof -
  obtain r where r: "r \<in> set rows" "holds_lease c now r" using count_rows_oneD [OF one] by blast
  have "find (\<lambda>q. ss_calendar_id q = ss_calendar_id r) rows = Some r" by (rule find_key [OF keys r(1)])
  with s holds_lease_id [OF r(2)] have "r = s" by simp
  with r(2) have h: "holds_lease c now s" by simp
  show ?thesis
    by (subst find_update_rows) (simp_all add: f s h)
qed

lemma find_append_fresh: "\<not> list_ex P xs \<Longrightarrow> P y \<Longrightarrow> find P (xs @ [y]) = Some y"
  by (simp add: find_append find_None_list_ex [THEN iffD2])

lemma find_filter_keep:
  "find P xs = Some x \<Longrightarrow> (\<And>y. P y \<Longrightarrow> Q y) \<Longrightarrow> find P (filter Q xs) = Some x"
  by (induction xs) (auto split: if_splits)

lemma snapshot_at_retire:
  assumes "find (\<lambda>p. sn_calendar_id p = cal \<and> sn_revision p = r) (pt_snapshots pt) = Some x" "r \<noteq> r'"
  shows "find (\<lambda>p. sn_calendar_id p = cal \<and> sn_revision p = r) (pt_snapshots (retire_source_snapshot cal' r' pt)) = Some x"
proof (cases "revision_in_use cal' r' pt")
  case True
  then show ?thesis using assms(1) by (simp add: retire_source_snapshot_def)
next
  case False
  have "find (\<lambda>p. sn_calendar_id p = cal \<and> sn_revision p = r)
      (filter (\<lambda>s. \<not> (sn_calendar_id s = cal' \<and> sn_revision s = r')) (pt_snapshots pt)) = Some x"
    by (rule find_filter_keep [OF assms(1)]) (use assms(2) in simp)
  then show ?thesis using False by (simp add: retire_source_snapshot_def)
qed

text \<open>The database after a publication, as far as a reader of the projection looks at it.\<close>

lemma finalize_effect:
  assumes run: "finalize_projection_tx U zdb K cipher c attemptID now nextSync t db = Inr (revision, db')"
    and keys: "distinct (map ss_calendar_id (db_sync_states db))"
  obtains fz payload removals observations s cl n where
    "prepare_projection_finalization U zdb K c attemptID now (t 0) (t 1) db = Inr fz"
    "encode_projection_snapshot_payload K (fz_events fz) (sc_calendar_id c) = Inr payload"
    "carried_removals K fz db = Inr removals" "observations_text K removals = Inr observations"
    "length payload \<le> maxProjectionSnapshotBytes" "length observations \<le> maxProjectionObservationBytes"
    "revision = pi_base_revision (fz_input fz) + 1"
    "pi_calendar_id (fz_input fz) = sc_calendar_id c"
    "snapshot_at (sc_calendar_id c) revision db' = Some (revision_row fz revision (t 2) payload observations)"
    "guard_revision (sc_calendar_id c) db' = revision"
    "map_of (db_guards db') (sc_calendar_id c) = Some (pi_guard_epoch (fz_input fz))"
    "pending_intents (sc_calendar_id c) db' = 0" "\<not> active_quarantine (sc_calendar_id c) (db_cache db')"
    "source_connection (sc_calendar_id c) db' = Some (cl, n)"
    "find (\<lambda>s. ss_calendar_id s = sc_calendar_id c) (db_sync_states db) = Some s"
    "frozen_source (pi_base_cursor (fz_input fz)) (pi_timezone (fz_input fz)) (pi_window_start (fz_input fz))
       (pi_window_end (fz_input fz)) (s, cl, n)"
    "find (\<lambda>s. ss_calendar_id s = sc_calendar_id c) (db_sync_states db') =
       Some (finished_row c (final_batch (pi_mode (fz_input fz) = EventSyncReplacement) (fz_cursor fz) nextSync) False
         (t (3 + length (fz_pages fz))) s)"
  using run
proof (rule finalize_Inr)
  fix fz :: finalization_candidate and payload removals observations db1 db2 db3 db4
  let ?cal = "sc_calendar_id c" and ?pin = "fz_input fz"
  let ?row = "revision_row fz revision (t 2) payload observations"
  assume fz: "prepare_projection_finalization U zdb K c attemptID now (t 0) (t 1) db = Inr fz"
    and enc: "encode_projection_snapshot_payload K (fz_events fz) ?cal = Inr payload"
    and rem: "carried_removals K fz db = Inr removals" and obs: "observations_text K removals = Inr observations"
    and sizes: "length payload \<le> maxProjectionSnapshotBytes" "length observations \<le> maxProjectionObservationBytes"
    and db1: "db1 = db\<lparr>db_projection := release_retained_source_capacity K ?cal (pi_base_revision ?pin) removals (db_projection db)\<rparr>"
    and r: "replay_pages zdb cipher c (pi_mode ?pin = EventSyncReplacement) (fz_cursor fz) nextSync (\<lambda>i. t (3 + i)) 0
       (fz_pages fz) db1 = Inr ((), db2)"
    and p: "publish_revision ?row db2 = Inr ((), db3)"
    and co: "consume_attempt c ?pin db3 = Inr ((), db4)"
    and f: "apply_event_sync_page_tx zdb cipher c (final_batch (pi_mode ?pin = EventSyncReplacement) (fz_cursor fz) nextSync) True
       (t (3 + length (fz_pages fz))) db4 = Inr ((), db')"
    and rev: "revision = pi_base_revision ?pin + 1"
  obtain a src where a: "find (attempt_at ?cal (sc_generation c) attemptID) (pt_attempts (db_projection db)) = Some a"
    and pin: "?pin = attempt_input_of a" and src: "page_stage_source ?cal db = Inr src"
    and frozen: "frozen_source (pi_base_cursor ?pin) (pi_timezone ?pin) (pi_window_start ?pin) (pi_window_end ?pin) src"
    and q: "\<not> active_quarantine ?cal (db_cache db)"
    and guard: "lock_projection_snapshot_guard ?cal (pi_guard_epoch ?pin) (pi_base_revision ?pin) db = Inr ()"
    using fz by (rule prepare_Inr) blast
  have cal: "pi_calendar_id ?pin = ?cal" using attempt_input_calendar [OF a] by (simp add: pin)
  have rowcal: "sn_calendar_id ?row = ?cal" "sn_revision ?row = revision" "sn_base_revision ?row = pi_base_revision ?pin"
    "sn_guard_epoch ?row = pi_guard_epoch ?pin"
    by (simp_all add: revision_row_def Let_def cal)
  obtain s cl n where s: "find (\<lambda>s. ss_calendar_id s = ?cal) (db_sync_states db) = Some s"
    and cn: "source_connection ?cal db = Some (cl, n)" and srcs: "src = (s, cl, n)"
    using src by (auto simp: page_stage_source_def split: option.splits)
  note f2 = advances_replay [OF r] and c2 = replay_calm [OF r, of ?cal]
  note p3 = publish_revision_Inr [OF p] and p4 = consume_attempt_Inr [OF co]
  obtain t' where t': "apply_changes zdb cipher ?cal (sc_generation c)
        (final_batch (pi_mode ?pin = EventSyncReplacement) (fz_cursor fz) nextSync) (t (3 + length (fz_pages fz))) (db_cache db4) = Inr t'"
    and db': "db' = db4\<lparr>db_cache := (if pi_mode ?pin = EventSyncReplacement then sweep_generation ?cal (sc_generation c) t' else t'),
        db_sync_states := update_rows (holds_lease c (t (3 + length (fz_pages fz))))
          (finished_row c (final_batch (pi_mode ?pin = EventSyncReplacement) (fz_cursor fz) nextSync)
             (active_quarantine ?cal t') (t (3 + length (fz_pages fz)))) (db_sync_states db4)\<rparr>"
    and one: "count_rows (holds_lease c (t (3 + length (fz_pages fz)))) (db_sync_states db4) = 1"
    using f by (rule apply_page_tx_Inr) (simp add: Let_def)
  have states4: "db_sync_states db4 = db_sync_states db" using p3 p4 c2 by (simp add: db1)
  have "calm ?cal (db_cache db4) t'" by (rule apply_changes_calm [OF t']) simp
  then have q': "\<not> active_quarantine ?cal t'" using q c2 p3 p4 by (simp add: calm_def db1)
  have fresh: "\<not> list_ex (\<lambda>x. sn_calendar_id x = ?cal \<and> sn_revision x = revision) (pt_snapshots (db_projection db2))"
    using p rowcal by (auto simp: publish_revision_def Let_def list_ex_iff split: if_splits)
  have snap3: "find (\<lambda>x. sn_calendar_id x = ?cal \<and> sn_revision x = revision) (pt_snapshots (db_projection db3)) = Some ?row"
    using p3 find_append_fresh [OF fresh] rowcal by (simp add: set_guard_revision_def)
  have snap4: "find (\<lambda>x. sn_calendar_id x = ?cal \<and> sn_revision x = revision) (pt_snapshots (db_projection db4)) = Some ?row"
  proof (cases "0 < pi_base_revision ?pin")
    case True
    then have "db_projection db4 = retire_source_snapshot ?cal (pi_base_revision ?pin)
        (drop_attempts (\<lambda>cal' g'. cal' = ?cal \<and> g' = sc_generation c) (db_projection db3))" by (simp add: p4 Let_def)
    moreover have "revision \<noteq> pi_base_revision ?pin" by (simp add: rev)
    ultimately show ?thesis using snapshot_at_retire snap3 by simp
  next
    case False
    then show ?thesis using snap3 by (simp add: p4 Let_def)
  qed
  have revs: "pt_revisions (db_projection db4) = AList.update ?cal revision (pt_revisions (db_projection db2))"
    using p3 rowcal by (simp add: p4 Let_def set_guard_revision_def retire_frame(3))
  have fin: "find (\<lambda>s. ss_calendar_id s = ?cal) (db_sync_states db') =
      Some (finished_row c (final_batch (pi_mode ?pin = EventSyncReplacement) (fz_cursor fz) nextSync) False
        (t (3 + length (fz_pages fz))) s)"
    using find_finished [OF keys [folded states4] one, of s] s q' states4 by (simp add: db' finished_row_def)
  show ?thesis
  proof (rule that [OF fz enc rem obs sizes rev cal _ _ _ _ _ _ s _ fin])
    show "snapshot_at ?cal revision db' = Some ?row" using snap4 by (simp add: snapshot_at_def db')
    show "guard_revision ?cal db' = revision" by (simp add: guard_revision_def db' revs update_conv')
    have g: "map_of (db_guards db) ?cal = Some (pi_guard_epoch ?pin)" "pending_intents ?cal db = 0"
      using guard by (auto simp: lock_projection_snapshot_guard_def bind_res_Inr_iff split: if_splits)
    show "map_of (db_guards db') ?cal = Some (pi_guard_epoch ?pin)"
      using g(1) f2 p3 by (simp add: db' p4 db1)
    show "pending_intents ?cal db' = 0"
      using g(2) f2 p3 by (simp add: db' p4 db1 pending_intents_def)
    show "\<not> active_quarantine ?cal (db_cache db')" using q' by (simp add: db')
    show "source_connection ?cal db' = Some (cl, n)"
    proof -
      have "db_calendars db' = db_calendars db" "db_connections db' = db_connections db"
        using f2 c2 p3 by (simp_all add: db' p4 db1)
      then show ?thesis using cn by (simp only: source_connection_def)
    qed
    show "frozen_source (pi_base_cursor ?pin) (pi_timezone ?pin) (pi_window_start ?pin) (pi_window_end ?pin) (s, cl, n)"
      using frozen by (simp add: srcs)
  qed
qed

end
