(* ===== verification/Lease_Histories.thy ===== *)
theory Lease_Histories
  imports Projection_Safety
begin

text \<open>
  The calendar synchronization as a state machine: time passes, and every modelled transaction
  that writes \<open>calendar_sync_state\<close> or the tables of the cache may run at any moment: those of
  \<open>event_cache.go\<close>, the staged and final pages of a projection, the deferral of
  \<open>source_sync_fence.go\<close>, the choice of calendars and the verification of a connection in
  \<open>store.go\<close>, and the resolution and the release of mutations, which start the states of their
  calendars over.  The one writer that is left out is \<open>DeleteConnection\<close>, which is not modelled:
  it removes calendars with all their rows.  The claims meet the contract of \<open>claim_protocol\<close>.
\<close>

section \<open>Operations under a claim\<close>

text \<open>
  What the worker that holds a claim may do: the operations of the cache, and those of the
  projection with what their clock shows after they began (\<open>now.Add(time.Since(started))\<close>).
\<close>

definition elapsed :: "instant \<Rightarrow> (nat \<Rightarrow> nat) \<Rightarrow> nat \<Rightarrow> instant" where
  "elapsed now d i = now + int (d i)"

datatype source_op =
    CacheOp claim_op
  | StartOp page_attempt_input "nat \<Rightarrow> nat"
  | StageOp string int string string event_sync_page "nat \<Rightarrow> nat"
  | StagedPageOp string int string string event_sync_page "nat \<Rightarrow> nat"
  | FinalPageOp string int string string event_sync_page instant string "nat \<Rightarrow> nat" "nat \<Rightarrow> nat"
  | DeferOp instant "nat \<Rightarrow> nat"

primrec source_perform ::
  "unicode_case \<Rightarrow> zonedb \<Rightarrow> projection_codec \<Rightarrow> artifact_cipher option \<Rightarrow> sync_claim \<Rightarrow> instant \<Rightarrow> source_op \<Rightarrow>
   sync_db \<Rightarrow> sync_db res" where
  "source_perform U zdb K cipher c now (CacheOp x) db = perform zdb cipher c now x db"
| "source_perform U zdb K cipher c now (StartOp pin d) db =
     map_sum id snd (start_projection_page_attempt zdb c pin now (elapsed now d) db)"
| "source_perform U zdb K cipher c now (StageOp i n tok tz page d) db =
     map_sum id snd (append_projection_page K c i n tok tz page now (elapsed now d) db)"
| "source_perform U zdb K cipher c now (StagedPageOp i n tok tz page d) db =
     map_sum id snd (apply_projection_staged_page zdb K cipher c i n tok tz page now (elapsed now d) db)"
| "source_perform U zdb K cipher c now (FinalPageOp i n tok tz page nextSync uuid d e) db =
     map_sum id snd (finalize_source_projection_page U zdb K cipher c i n tok tz page now nextSync uuid
       (elapsed now d) (elapsed now e) db)"
| "source_perform U zdb K cipher c now (DeferOp next_at d) db =
     map_sum id snd (defer_calendar_sync_for_reservation c now next_at (elapsed now d) db)"

lemma elapsed_later [simp]: "now \<le> elapsed now d i"
  by (simp add: elapsed_def)

lemma held_before: "holds_lease c later r \<Longrightarrow> now \<le> later \<Longrightarrow> holds_lease c now r"
  by (auto simp: holds_lease_def split: option.splits)

lemma held_some_before:
  "list_ex (holds_lease c later) rows \<Longrightarrow> now \<le> later \<Longrightarrow> list_ex (holds_lease c now) rows"
  by (auto simp: list_ex_iff intro: held_before)

text \<open>What an operation may do: the state rows move by \<open>lease_step\<close>, and only its claim's rows are written.\<close>

definition claim_writes :: "sync_claim \<Rightarrow> instant \<Rightarrow> sync_db \<Rightarrow> sync_db \<Rightarrow> bool" where
  "claim_writes c now db db' \<longleftrightarrow> states_step now (db_sync_states db) (db_sync_states db') \<and>
     writes_under (sc_calendar_id c) (sc_generation c) (db_cache db) (db_cache db')"

lemma claim_writes_same:
  "db_sync_states db' = db_sync_states db \<Longrightarrow> db_cache db' = db_cache db \<Longrightarrow> claim_writes c now db db'"
  by (simp add: claim_writes_def)

lemma claim_writes_trans [trans]: "claim_writes c now a b \<Longrightarrow> claim_writes c now b d \<Longrightarrow> claim_writes c now a d"
  unfolding claim_writes_def using states_step_trans writes_under_trans by blast

lemma page_tx_writes:
  assumes "apply_event_sync_page_tx zdb cipher c batch final later db = Inr (u, db')"
  shows "claim_writes c now db db'"
proof -
  have "apply_event_sync_page_tx zdb cipher c batch final later db = Inr ((), db')" using assms by simp
  then show ?thesis
  proof (rule apply_page_tx_Inr)
    fix t
    assume t: "apply_changes zdb cipher (sc_calendar_id c) (sc_generation c) batch later (db_cache db) = Inr t"
      and db': "db' = (let d = save_timezone zdb (sc_calendar_id c) (eb_source_time_zone batch) db in
      if final then d\<lparr>db_cache := (if eb_full_sync batch then sweep_generation (sc_calendar_id c) (sc_generation c) t else t),
          db_sync_states := update_rows (holds_lease c later)
            (finished_row c batch (active_quarantine (sc_calendar_id c) t) later) (db_sync_states db)\<rparr>
      else d\<lparr>db_cache := t\<rparr>)"
    have "states_step now (db_sync_states db) (update_rows (holds_lease c later)
        (finished_row c batch (active_quarantine (sc_calendar_id c) t) later) (db_sync_states db))"
      by (rule states_step_update) (simp add: finished_row_def lease_step_def lease_shape_def)
    moreover note writes = change_writes [OF page_is_change [OF t]]
    moreover have "db_sync_states (save_timezone zdb cal tz db) = db_sync_states db" for cal tz
      by (simp add: save_timezone_def)
    ultimately show ?thesis
      unfolding claim_writes_def db' Let_def by (simp add: writes_under_sweep)
  qed
qed

lemma replay_writes:
  "replay_pages zdb cipher c full cursor nextSync t i pages db = Inr (u, db') \<Longrightarrow> claim_writes c now db db'"
proof (induction pages arbitrary: db i)
  case Nil
  then show ?case by (simp add: claim_writes_same)
next
  case (Cons page pages)
  then obtain v d where "apply_event_sync_page_tx zdb cipher c (staged_batch full cursor (Some nextSync) page) False (t i) db = Inr (v, d)"
    "replay_pages zdb cipher c full cursor nextSync t (Suc i) pages d = Inr (u, db')"
    by (auto simp: bind_res_Inr_iff)
  with Cons.IH page_tx_writes claim_writes_trans show ?case by blast
qed

lemma finalize_writes:
  assumes "finalize_projection_tx U zdb K cipher c attemptID later nextSync t db = Inr (r, db')"
  shows "claim_writes c now db db'"
  using assms
proof (rule finalize_Inr)
  fix fz :: finalization_candidate and payload removals observations db1 db2 db3 db4
  assume db1: "db1 = db\<lparr>db_projection := release_retained_source_capacity K (sc_calendar_id c)
      (pi_base_revision (fz_input fz)) removals (db_projection db)\<rparr>"
    and replay: "replay_pages zdb cipher c (pi_mode (fz_input fz) = EventSyncReplacement) (fz_cursor fz) nextSync
      (\<lambda>i. t (3 + i)) 0 (fz_pages fz) db1 = Inr ((), db2)"
    and publish: "publish_revision (revision_row fz r (t 2) payload observations) db2 = Inr ((), db3)"
    and consume: "consume_attempt c (fz_input fz) db3 = Inr ((), db4)"
    and last_page: "apply_event_sync_page_tx zdb cipher c
      (final_batch (pi_mode (fz_input fz) = EventSyncReplacement) (fz_cursor fz) nextSync) True
      (t (3 + length (fz_pages fz))) db4 = Inr ((), db')"
  have "claim_writes c now db db1" by (rule claim_writes_same) (simp_all add: db1)
  from claim_writes_trans [OF this replay_writes [OF replay]] have "claim_writes c now db db2" .
  moreover have "claim_writes c now db2 db4"
    by (rule claim_writes_same) (use publish_revision_Inr [OF publish] consume_attempt_Inr [OF consume] in simp_all)
  ultimately show ?thesis using page_tx_writes [OF last_page] claim_writes_trans by blast
qed

text \<open>An accepted operation was taken under the lease of its claim.\<close>

lemma source_perform_effect:
  assumes "source_perform U zdb K cipher c now x db = Inr db'"
  shows "list_ex (holds_lease c now) (db_sync_states db) \<and> claim_writes c now db db'"
proof (cases x)
  case (CacheOp y)
  with assms perform_effect show ?thesis by (simp add: claim_writes_def)
next
  case (StartOp pin d)
  then obtain u where start: "start_projection_page_attempt zdb c pin now (elapsed now d) db = Inr (u, db')"
    using assms by (auto simp: map_sum_Inr_iff split: if_splits)
  then have "list_ex (holds_lease c (elapsed now d 0)) (db_sync_states db)"
    by (auto simp: start_projection_page_attempt_def Let_def bind_res_Inr_iff lock_lease_unit split: if_splits)
  moreover have "claim_writes c now db db'"
    using start by (rule start_attempt_Inr) (auto intro: claim_writes_same simp: init_guard_def)
  ultimately show ?thesis using held_some_before elapsed_later by blast
next
  case (StageOp i n tok tz page d)
  then obtain u where stage: "append_projection_page K c i n tok tz page now (elapsed now d) db = Inr (u, db')"
    using assms by (auto simp: map_sum_Inr_iff)
  then have "list_ex (holds_lease c (elapsed now d 0)) (db_sync_states db)"
    by (auto simp: append_projection_page_def bind_res_Inr_iff lock_lease_unit)
  moreover have "claim_writes c now db db'"
    using stage by (auto simp: append_projection_page_def bind_res_Inr_iff split: sum.splits if_splits
        intro: claim_writes_same elim!: append_page_Inr)
  ultimately show ?thesis using held_some_before elapsed_later by blast
next
  case (StagedPageOp i n tok tz page d)
  then obtain u where staged: "apply_projection_staged_page zdb K cipher c i n tok tz page now (elapsed now d) db = Inr (u, db')"
    using assms by (auto simp: map_sum_Inr_iff)
  then have "list_ex (holds_lease c (elapsed now d 0)) (db_sync_states db)"
    by (auto simp: apply_projection_staged_page_def Let_def bind_res_Inr_iff lock_lease_unit split: if_splits)
  moreover have "claim_writes c now db db'"
    using staged
  proof (rule apply_staged_Inr)
    fix full db1
    assume one: "append_projection_page_tx K c i n tok tz page now (elapsed now d 1) (elapsed now d 2) db = Inr ((), db1)"
      and two: "apply_event_sync_page_tx zdb cipher c (staged_batch full '''' None page) False (elapsed now d 3) db1 = Inr ((), db')"
    have "claim_writes c now db db1" using one by (rule append_page_Inr) (auto intro: claim_writes_same)
    with page_tx_writes [OF two] claim_writes_trans show ?thesis by blast
  qed
  ultimately show ?thesis using held_some_before elapsed_later by blast
next
  case (FinalPageOp i n tok tz page nextSync uuid d e)
  then obtain r where final: "finalize_source_projection_page U zdb K cipher c i n tok tz page now nextSync uuid
      (elapsed now d) (elapsed now e) db = Inr (r, db')"
    using assms by (auto simp: map_sum_Inr_iff)
  then show ?thesis
  proof (rule finalize_source_Inr)
    fix db2 db3 db4 ops rs
    assume db2: "db2 = db\<lparr>db_operations := ops, db_reservations := rs\<rparr>"
      and one: "append_projection_page_tx K c i n tok tz page now (elapsed now d 1) (elapsed now d 2) db2 = Inr ((), db3)"
      and two: "finalize_projection_tx U zdb K cipher c i (elapsed now d 3) nextSync (elapsed now e) db3 = Inr (r, db4)"
      and db': "db' = release_source_state_fence uuid db4"
      and lock: "list_ex (holds_lease c (elapsed now d 0)) (db_sync_states db)"
    have "claim_writes c now db db2" by (rule claim_writes_same) (simp_all add: db2)
    also have "claim_writes c now db2 db3" using one by (rule append_page_Inr) (auto intro: claim_writes_same)
    also have "claim_writes c now db3 db4" by (rule finalize_writes [OF two])
    also have "claim_writes c now db4 db'" by (rule claim_writes_same) (simp_all add: db')
    finally show ?thesis using held_some_before [OF lock elapsed_later] by simp
  qed
next
  case (DeferOp next_at d)
  then obtain u where "defer_calendar_sync_for_reservation c now next_at (elapsed now d) db = Inr (u, db')"
    using assms by (auto simp: map_sum_Inr_iff)
  then obtain v f where lock: "list_ex (holds_lease c (elapsed now d 0)) (db_sync_states db)"
    and update: "update_lease c (elapsed now d 1) f db = Inr (v, db')"
    and f: "\<And>r. lease_step now r (f r) \<and> (ss_status (f r) \<noteq> ''syncing'' \<longrightarrow> lease_shape (f r))"
    and idle: "\<And>r. ss_status (f r) = deferred_status (sc_calendar_id c) db"
    by (auto simp: defer_calendar_sync_for_reservation_def Let_def bind_res_Inr_iff lock_lease_unit lease_step_def
        lease_shape_def split: if_splits)
  have "deferred_status (sc_calendar_id c) db \<noteq> ''syncing''"
    by (simp add: deferred_status_def split: option.split)
  with f idle have "lease_step now r (f r) \<and> lease_shape (f r)" for r by metis
  then have "states_step now (db_sync_states db) (update_rows (holds_lease c (elapsed now d 1)) f (db_sync_states db))"
    by (intro states_step_update) blast
  moreover have "db' = db\<lparr>db_sync_states := update_rows (holds_lease c (elapsed now d 1)) f (db_sync_states db)\<rparr>"
    using update by (auto simp: update_lease_def split: if_splits)
  ultimately show ?thesis using held_some_before [OF lock elapsed_later] by (simp add: claim_writes_def)
qed

section \<open>Transactions of others\<close>

text \<open>
  Mutations that are resolved, and a confirmed run that is released, start the states of their
  calendars over; the other operations of the ledger leave the states alone.
\<close>

lemma reset_state_step: "states_step now (db_sync_states db) (db_sync_states (reset_sync_state later i db))"
  unfolding reset_sync_state_def by simp (rule states_step_update, simp add: lease_step_def lease_shape_def)

definition only_resets :: "instant \<Rightarrow> sync_db \<Rightarrow> sync_db \<Rightarrow> bool" where
  "only_resets now db db' \<longleftrightarrow> states_step now (db_sync_states db) (db_sync_states db') \<and> db_cache db' = db_cache db"

lemma only_resets_same:
  "db_sync_states db' = db_sync_states db \<Longrightarrow> db_cache db' = db_cache db \<Longrightarrow> only_resets now db db'"
  by (simp add: only_resets_def)

lemma only_resets_trans [trans]: "only_resets now a b \<Longrightarrow> only_resets now b d \<Longrightarrow> only_resets now a d"
  unfolding only_resets_def using states_step_trans by metis

lemma only_resets_fold: "only_resets now db (fold (reset_sync_state later) ids db)"
proof (induction ids arbitrary: db)
  case Nil
  then show ?case by (simp add: only_resets_same)
next
  case (Cons i ids)
  have "only_resets now db (reset_sync_state later i db)"
    using reset_state_step by (simp add: only_resets_def) (simp add: reset_sync_state_def)
  with Cons.IH [of "reset_sync_state later i db"] show ?case by (auto intro: only_resets_trans)
qed

lemma only_resets_fold_res:
  assumes "fold_res f xs a = Inr b" and "\<And>x a b. f x a = Inr b \<Longrightarrow> only_resets now a b"
  shows "only_resets now a b"
  using assms(1)
proof (induction xs arbitrary: a)
  case Nil
  then show ?case by (simp add: only_resets_same)
next
  case (Cons x xs)
  then obtain d where "f x a = Inr d" "fold_res f xs d = Inr b" by (auto split: sum.splits)
  with Cons.IH assms(2) only_resets_trans show ?case by blast
qed

lemma only_resets_advance: "advance_projection_mutation_guard i db = Inr (u, db') \<Longrightarrow> only_resets now db db'"
  by (auto simp: advance_projection_mutation_guard_def intro!: only_resets_same split: if_splits)

lemma only_resets_advance_all:
  "fold_res (\<lambda>i d. map_sum id snd (advance_projection_mutation_guard i d)) ids db = Inr db' \<Longrightarrow> only_resets now db db'"
  by (erule only_resets_fold_res) (auto simp: map_sum_Inr_iff intro: only_resets_advance)

lemma only_resets_delete_intents: "fold_res (delete_intent m e) ids db = Inr db' \<Longrightarrow> only_resets now db db'"
  by (erule only_resets_fold_res) (auto simp: delete_intent_def intro!: only_resets_same split: if_splits)

lemma only_resets_delete_members: "delete_members op e n db = Inr (u, db') \<Longrightarrow> only_resets now db db'"
  by (auto simp: delete_members_def intro!: only_resets_same split: if_splits)

lemma resolve_many_resets:
  assumes "resolve_projection_mutation_many_and_schedule cals op later db = Inr (u, db')"
  shows "only_resets now db db'"
proof -
  obtain ids encoded where n: "normalize_mutation_calendars cals = Inr (ids, encoded)"
    using assms by (auto simp: resolve_projection_mutation_many_and_schedule_def split: sum.splits)
  obtain o' where o': "find (\<lambda>o'. mo_operation_id o' = op) (db_operations db) = Some o'"
    using assms n by (auto simp: resolve_projection_mutation_many_and_schedule_def split: if_splits option.splits)
  obtain db1 db2 w db3 db4 where r:
    "fold_res (\<lambda>i d. if count_rows (\<lambda>x. ss_calendar_id x = i) (db_sync_states d) \<noteq> 1
       then Inl (Sentinel ErrCalendarSyncIneligible) else Inr (reset_sync_state later i d)) ids db = Inr db1"
    "fold_res (\<lambda>i d. map_sum id snd (advance_projection_mutation_guard i d)) ids db1 = Inr db2"
    "delete_members op (Sentinel ErrProjectionMutationManyConflict) (length ids) db2 = Inr (w, db3)"
    "fold_res (delete_intent (operation_mutation_id op) (Sentinel ErrProjectionMutationManyConflict)) ids db3 = Inr db4"
    "db' = resolve_operation op later db4"
    using assms n o'
    by (auto simp: resolve_projection_mutation_many_and_schedule_def bind_res_Inr_iff split: if_splits)
  have "only_resets now db db1"
    by (rule only_resets_fold_res [OF r(1)])
      (use only_resets_fold [of now _ later "[_]"] in \<open>auto split: if_splits\<close>)
  also have "only_resets now db1 db2" by (rule only_resets_advance_all [OF r(2)])
  also have "only_resets now db2 db3" by (rule only_resets_delete_members [OF r(3)])
  also have "only_resets now db3 db4" by (rule only_resets_delete_intents [OF r(4)])
  also have "only_resets now db4 db'" by (rule only_resets_same) (simp_all add: r(5) resolve_operation_def)
  finally show ?thesis .
qed

lemma release_exclusive_resets:
  assumes "release_exclusive_after_confirmed_run op cals later db = Inr (u, db')"
  shows "only_resets now db db'"
proof -
  obtain ids encoded where n: "normalize_mutation_calendars cals = Inr (ids, encoded)"
    using assms by (auto simp: release_exclusive_after_confirmed_run_def split: sum.splits)
  obtain db1 v db2 w db3 db4 where run:
    "fold_res (\<lambda>i d. map_sum id snd (advance_projection_mutation_guard i d)) ids (fold (reset_sync_state later) ids db) = Inr db1"
    "delete_guard_members op (length ids) db1 = Inr (v, db2)"
    "delete_members op (Sentinel ErrExclusiveDispatchConflict) (length ids) db2 = Inr (w, db3)"
    "fold_res (delete_intent (operation_mutation_id op) (Sentinel ErrExclusiveDispatchConflict)) ids db3 = Inr db4"
    "db' = release_reservation op later (resolve_operation op later db4)"
    using assms n
    by (auto simp: release_exclusive_after_confirmed_run_def bind_res_Inr_iff split: if_splits option.splits)
  have "only_resets now db (fold (reset_sync_state later) ids db)" by (rule only_resets_fold)
  also have "only_resets now (fold (reset_sync_state later) ids db) db1" by (rule only_resets_advance_all [OF run(1)])
  also have "only_resets now db1 db2"
    using run(2) by (auto simp: delete_guard_members_def intro!: only_resets_same split: if_splits)
  also have "only_resets now db2 db3" by (rule only_resets_delete_members [OF run(3)])
  also have "only_resets now db3 db4" by (rule only_resets_delete_intents [OF run(4)])
  also have "only_resets now db4 db'"
    by (rule only_resets_same) (simp_all add: run(5) release_reservation_def resolve_operation_def)
  finally show ?thesis .
qed

lemma ledger_step_resets: "ledger_step db db' \<Longrightarrow> only_resets now db db'"
proof (induction rule: ledger_step.induct)
  case (begin_one i m later db u db')
  then have "guard_and_intend i m db = Inr (u, db')" by (auto simp: begin_projection_mutation_def split: if_splits)
  from guard_and_intend_effect(1) [OF this] show ?case by (auto intro!: only_resets_same)
next
  case (resolve_one i m db u db')
  then show ?case
    by (auto simp: resolve_projection_mutation_def advance_projection_mutation_guard_def bind_res_Inr_iff
        intro!: only_resets_same split: if_splits)
next
  case (begin_many cals op later db u db')
  then obtain ids encoded where n: "normalize_mutation_calendars cals = Inr (ids, encoded)"
    by (auto simp: begin_projection_mutation_many_def split: sum.splits)
  with begin_many obtain o' where "fold_res (intend_calendar op) ids (db\<lparr>db_operations := db_operations db @ [o']\<rparr>) = Inr db'"
    by (auto simp: begin_projection_mutation_many_def Let_def bind_res_Inr_iff split: if_splits)
  from many_fold_effect [OF this] show ?case by (auto intro!: only_resets_same)
next
  case (begin_exclusive req db u db')
  then show ?case by (rule begin_exclusive_effect) (auto intro!: only_resets_same)
qed (blast intro: resolve_many_resets release_exclusive_resets)+

lemma calendar_choice_resets:
  assumes "set_calendar_enabled i enabled later db = Inr (u, db')"
  shows "only_resets now db db'"
proof (cases "count_rows (\<lambda>c. cl_id c = i \<and> cl_enabled c \<noteq> enabled) (db_calendars db) = 0")
  case True
  with assms show ?thesis by (auto simp: set_calendar_enabled_def intro!: only_resets_same split: if_splits)
next
  case False
  with assms obtain f where "db_cache db' = db_cache db"
    "db_sync_states db' = update_rows (\<lambda>x. ss_calendar_id x = i) f (db_sync_states db)"
    and f: "\<And>x. lease_step now x (f x) \<and> (lease_shape x \<longrightarrow> lease_shape (f x))"
    by (auto simp: set_calendar_enabled_def Let_def lease_step_def lease_shape_def)
  then show ?thesis using states_step_update [of _ now f] by (simp add: only_resets_def)
qed

lemma verification_resets:
  assumes "update_connection_verification i status later db = Inr (u, db')"
  shows "only_resets now db db'"
proof -
  have "states_step now rows (update_rows (parked_under i later d) (\<lambda>r. r\<lparr>ss_status := ''pending'', ss_next_sync_at := later,
      ss_last_error_code := None, ss_updated_at := later\<rparr>) rows)" for d rows
    by (rule states_step_update) (auto simp: parked_under_def lease_step_def lease_shape_def)
  with assms show ?thesis
    by (auto simp: update_connection_verification_def only_resets_def Let_def split: if_splits)
qed

section \<open>Histories\<close>

text \<open>
  Every operation under any claim, every other transaction on the states and the cache, and
  (\<open>elsewhere\<close>) whatever leaves both alone.
\<close>

inductive cache_step ::
  "unicode_case \<Rightarrow> zonedb \<Rightarrow> projection_codec \<Rightarrow> artifact_cipher option \<Rightarrow> sync_moment \<Rightarrow> sync_moment \<Rightarrow> bool"
  for U zdb K cipher where
  wait: "now \<le> later \<Longrightarrow> cache_step U zdb K cipher (now, db) (later, db)"
| ensure: "ensure_calendar_sync_states uuid now window db = Inr (u, db') \<Longrightarrow>
    cache_step U zdb K cipher (now, db) (now, db')"
| claim: "claim_due_calendar_sync uuid worker now until_at db = Inr (x, db') \<Longrightarrow>
    cache_step U zdb K cipher (now, db) (now, db')"
| perform: "source_perform U zdb K cipher c now x db = Inr db' \<Longrightarrow> cache_step U zdb K cipher (now, db) (now, db')"
| schedule: "schedule_calendar_sync cal now reset db = Inr (u, db') \<Longrightarrow>
    cache_step U zdb K cipher (now, db) (now, db')"
| schedule_repair: "schedule_event_sync_object_repair cal obj etag now db = Inr (b, db') \<Longrightarrow>
    cache_step U zdb K cipher (now, db) (now, db')"
| upsert: "store_upsert_cached_event zdb event syncedAt db = Inr (u, db') \<Longrightarrow>
    cache_step U zdb K cipher (now, db) (now, db')"
| delete: "store_delete_cached_event cal i syncedAt db = Inr (u, db') \<Longrightarrow>
    cache_step U zdb K cipher (now, db) (now, db')"
| expire: "cache_step U zdb K cipher (now, db) (now, delete_expired_raw_event_artifacts now db)"
| choose: "set_calendar_enabled i enabled at db = Inr (u, db') \<Longrightarrow> cache_step U zdb K cipher (now, db) (now, db')"
| verify: "update_connection_verification i status at db = Inr (u, db') \<Longrightarrow>
    cache_step U zdb K cipher (now, db) (now, db')"
| ledger: "ledger_step db db' \<Longrightarrow> cache_step U zdb K cipher (now, db) (now, db')"
| elsewhere: "db_sync_states db' = db_sync_states db \<Longrightarrow> db_cache db' = db_cache db \<Longrightarrow>
    cache_step U zdb K cipher (now, db) (now, db')"

lemma only_resets_ok: "only_resets now db db' \<Longrightarrow> sync_ok (now, db) \<Longrightarrow> sync_ok (now', db')"
  unfolding only_resets_def using sync_ok_same by blast

lemma sync_ok_cache_step:
  assumes "cache_step U zdb K cipher m m'" and ok: "sync_ok m"
  shows "sync_ok m'"
  using assms(1)
proof cases
  case (wait now later db)
  with ok show ?thesis by (simp add: sync_ok_def)
next
  case (ensure uuid now window db u db')
  with ok ensure_step sync_ok_same show ?thesis by blast
next
  case (claim uuid worker now until_at db x db')
  with ok claim_step sync_ok_same show ?thesis by blast
next
  case (perform c now x db db')
  note effect = source_perform_effect [OF perform(3), unfolded claim_writes_def]
  obtain r where "r \<in> set (db_sync_states db)" "holds_lease c now r" using effect by (auto simp: list_ex_iff)
  then have "\<exists>r \<in> set (db_sync_states db). ss_calendar_id r = sc_calendar_id c \<and> sc_generation c \<le> ss_generation r"
    by (auto simp: holds_lease_def)
  with effect ok perform(1,2) sync_ok_step show ?thesis by blast
next
  case (schedule cal now reset db u db')
  with ok schedule_step sync_ok_same show ?thesis by blast
next
  case (schedule_repair cal obj etag now db b db')
  with ok schedule_repair_step sync_ok_step show ?thesis by blast
next
  case (upsert event syncedAt db u db' now)
  then obtain state t where state: "select_sync_state (ev_calendar_id event) db = Inr state"
    and t: "upsert_cached_event zdb event (ev_id event) (sc_generation state) syncedAt (db_cache db) = Inr t"
    and db': "db' = db\<lparr>db_cache := t\<rparr>"
    by (auto simp: store_upsert_cached_event_def split: if_splits)
  have "writes_under (ev_calendar_id event) (sc_generation state) (db_cache db) (db_cache db')"
    unfolding db' using change_writes [OF change_upsert [OF t refl]] by simp
  moreover have "states_step now (db_sync_states db) (db_sync_states db')" by (simp add: db')
  ultimately show ?thesis
    unfolding upsert(2) using sync_ok_step [OF ok [unfolded upsert(1)]] select_state [OF state] by (metis order_refl)
next
  case (delete cal i syncedAt db u db' now)
  then obtain state where state: "select_sync_state cal db = Inr state"
    and db': "db' = db\<lparr>db_cache := tombstone_cached_event cal i (sc_generation state) syncedAt (db_cache db)\<rparr>"
    by (auto simp: store_delete_cached_event_def split: if_splits)
  have "writes_under cal (sc_generation state) (db_cache db) (db_cache db')"
    unfolding db' using change_writes [OF change_tombstone] by simp
  moreover have "states_step now (db_sync_states db) (db_sync_states db')" by (simp add: db')
  ultimately show ?thesis
    unfolding delete(2) using sync_ok_step [OF ok [unfolded delete(1)]] select_state [OF state] by (metis order_refl)
next
  case (expire now db)
  have "writes_under cal g (db_cache db) (db_cache (delete_expired_raw_event_artifacts now db))" for cal g
    by (rule writes_under_same) (auto simp: delete_expired_raw_event_artifacts_def cache_keys_def filter_keys)
  moreover have "db_sync_states (delete_expired_raw_event_artifacts now db) = db_sync_states db"
    "ct_events (db_cache (delete_expired_raw_event_artifacts now db)) = ct_events (db_cache db)"
    by (simp_all add: delete_expired_raw_event_artifacts_def)
  ultimately show ?thesis
    unfolding expire(2) using sync_ok_step [OF ok [unfolded expire(1)]] by (metis states_step_refl)
next
  case (choose i enabled at db u db' now)
  with ok calendar_choice_resets only_resets_ok show ?thesis by blast
next
  case (verify i status at db u db' now)
  with ok verification_resets only_resets_ok show ?thesis by blast
next
  case (ledger db db' now)
  with ok ledger_step_resets only_resets_ok show ?thesis by blast
next
  case (elsewhere db' db now)
  with ok sync_ok_same [of now db db' now] show ?thesis by simp
qed

lemma cache_step_states:
  assumes "cache_step U zdb K cipher m m'"
  shows "(fst m' = fst m \<and> states_step (fst m) (db_sync_states (snd m)) (db_sync_states (snd m'))) \<or>
      (fst m \<le> fst m' \<and> snd m' = snd m)"
  using assms
proof cases
  case (perform c now x db db')
  with source_perform_effect [OF perform(3)] show ?thesis by (simp add: claim_writes_def)
next
  case (choose i enabled at db u db' now)
  with calendar_choice_resets [OF choose(3), of now] show ?thesis by (simp add: only_resets_def)
next
  case (verify i status at db u db' now)
  with verification_resets [OF verify(3), of now] show ?thesis by (simp add: only_resets_def)
next
  case (ledger db db' now)
  with ledger_step_resets [OF ledger(3), of now] show ?thesis by (simp add: only_resets_def)
qed (auto dest: ensure_step claim_step schedule_step schedule_repair_step
    simp: store_upsert_cached_event_def store_delete_cached_event_def delete_expired_raw_event_artifacts_def
    split: if_splits)

section \<open>Lost claims\<close>

lemma claim_overtaken_step:
  assumes step: "cache_step U zdb K cipher m m'" and lost: "claim_overtaken c m"
  shows "claim_overtaken c m'"
  using cache_step_states [OF step]
proof (elim disjE conjE)
  assume now: "fst m' = fst m" and states: "states_step (fst m) (db_sync_states (snd m)) (db_sync_states (snd m'))"
  show ?thesis
    unfolding claim_overtaken_def
  proof (intro conjI ballI impI)
    from lost have "sc_calendar_id c \<in> ss_calendar_id ` set (db_sync_states (snd m))"
      unfolding claim_overtaken_def by force
    with states_step_ids [OF states] have i: "sc_calendar_id c \<in> ss_calendar_id ` set (db_sync_states (snd m'))" by blast
    then show "\<exists>r \<in> set (db_sync_states (snd m')). ss_calendar_id r = sc_calendar_id c" by force
    fix r'
    assume r': "r' \<in> set (db_sync_states (snd m'))" "ss_calendar_id r' = sc_calendar_id c"
    from lost r'(2) have "ss_calendar_id r' \<in> ss_calendar_id ` set (db_sync_states (snd m))"
      unfolding claim_overtaken_def by force
    from states_step_source [OF states r'(1) this] obtain r where
      r: "r \<in> set (db_sync_states (snd m))" "lease_step (fst m) r r'" by blast
    have id: "ss_calendar_id r = sc_calendar_id c" using lease_step_id [OF r(2)] r'(2) by simp
    from lost r(1) id have "sc_generation c \<le> ss_generation r" "\<not> holds_lease c (fst m) r"
      unfolding claim_overtaken_def by blast+
    from lease_step_lost [OF r(2) this id]
    show "sc_generation c \<le> ss_generation r'" "\<not> holds_lease c (fst m') r'" unfolding now by blast+
  qed
next
  assume "fst m \<le> fst m'" "snd m' = snd m"
  with lost show ?thesis unfolding claim_overtaken_def holds_lease_def by (auto split: option.splits)
qed

lemma claim_overtaken_refused:
  assumes "claim_overtaken c m"
  shows "source_perform U zdb K cipher c (fst m) x (snd m) \<noteq> Inr db'"
proof
  assume "source_perform U zdb K cipher c (fst m) x (snd m) = Inr db'"
  from source_perform_effect [OF this] obtain r where "r \<in> set (db_sync_states (snd m))" "holds_lease c (fst m) r"
    by (auto simp: list_ex_iff)
  moreover then have "ss_calendar_id r = sc_calendar_id c" by (simp add: holds_lease_def)
  ultimately show False using assms unfolding claim_overtaken_def by blast
qed

definition claim_action ::
  "unicode_case \<Rightarrow> zonedb \<Rightarrow> projection_codec \<Rightarrow> artifact_cipher option \<Rightarrow> sync_claim \<Rightarrow> source_op \<Rightarrow> sync_moment \<Rightarrow>
   sync_db res" where
  "claim_action U zdb K cipher c x m = source_perform U zdb K cipher c (fst m) x (snd m)"

interpretation sync_claims: claim_protocol "cache_step U zdb K cipher" sync_ok claim_overtaken
    "claim_action U zdb K cipher"
  for U zdb K cipher
proof unfold_locales
  show "sync_ok m'" if "cache_step U zdb K cipher m m'" "sync_ok m" for m m' by (rule sync_ok_cache_step [OF that])
  show "claim_overtaken c m'" if "cache_step U zdb K cipher m m'" "sync_ok m" "claim_overtaken c m" for m m' c
    by (rule claim_overtaken_step [OF that(1,3)])
  show "claim_action U zdb K cipher c x m \<noteq> Inr t" if "sync_ok m" "claim_overtaken c m" for m c x t
    unfolding claim_action_def by (rule claim_overtaken_refused [OF that(2)])
qed

section \<open>Properties\<close>

text \<open>
  C14. The state of the read model is well formed after every sequence of the modelled
  transactions that write states or cache, in any order and under any claims: the primary keys of
  every table, one state row for a calendar, a lease on exactly the rows that are syncing, and no
  cached event from a generation its calendar has not reached.
\<close>

theorem sync_state_well_formed:
  assumes "(cache_step U zdb K cipher)\<^sup>*\<^sup>* m m'" and "sync_ok m"
  shows "sync_ok m'"
  by (rule sync_claims.ok_steps [OF assms])

text \<open>
  C9. A claim that was overtaken (its row has a later generation, a released or a foreign lease,
  or its lease has expired) never writes again: after any sequence of the modelled transactions
  that write states or cache and any wait, renewing, a page, a staged page, the start of a page
  attempt, the final page of a projection, a failure, parking, a deferral, a reset, a repair and
  spending an authorization are all refused, and nothing is written.
\<close>

theorem overtaken_claim_never_writes:
  assumes "(cache_step U zdb K cipher)\<^sup>*\<^sup>* m m'" and "sync_ok m" and "claim_overtaken c m"
  shows "\<exists>e. source_perform U zdb K cipher c (fst m') x (snd m') = Inl e"
  using sync_claims.never_acts [OF assms, of x] unfolding claim_action_def .

section \<open>Concrete runs\<close>

text \<open>The calendar is switched off after its lease has ended, and the worker comes back at 15.\<close>

definition unchosen_db :: sync_db where
  "unchosen_db = (case set_calendar_enabled ''c'' False 10 lease_db of Inl _ \<Rightarrow> lease_db | Inr (u, db) \<Rightarrow> db)"

definition ascii_case :: unicode_case where
  "ascii_case = \<lparr>rune_upper = id, rune_lower = id\<rparr>"

definition refusing_codec :: projection_codec where
  "refusing_codec = \<lparr>pc_valid = (\<lambda>_. False), pc_parse = (\<lambda>_. None), pc_compact = (\<lambda>_. None),
     pc_page_text = (\<lambda>_. Inl (ErrExt ''json'')), pc_read_page = (\<lambda>_. None),
     pc_snapshot_text = (\<lambda>_. Inl (ErrExt ''json'')), pc_read_snapshot = (\<lambda>_. None),
     pc_observation_text = (\<lambda>_. Inl (ErrExt ''json'')), pc_read_observations = (\<lambda>_. None),
     pc_unmarshal_observations = (\<lambda>_. None)\<rparr>"

lemma lease_db_steps: "(cache_step U zdb K cipher)\<^sup>*\<^sup>* (10, lease_db) (15, unchosen_db)"
proof -
  have "\<exists>db. set_calendar_enabled ''c'' False 10 lease_db = Inr ((), db)"
    by (simp add: set_calendar_enabled_def lease_db_def count_rows_def)
  then have "set_calendar_enabled ''c'' False 10 lease_db = Inr ((), unchosen_db)"
    by (auto simp: unchosen_db_def)
  then have "cache_step U zdb K cipher (10, lease_db) (10, unchosen_db)" by (rule cache_step.choose)
  moreover have "cache_step U zdb K cipher (10, unchosen_db) (15, unchosen_db)" by (rule cache_step.wait) simp
  ultimately show ?thesis by (meson r_into_rtranclp rtranclp.rtrancl_into_rtrancl)
qed

theorem overtaken_claim_never_writes_witness:
  "\<exists>e. apply_event_sync_page (\<lambda>_. None) None sample_claim (sample_batch [''b'']) True 15 unchosen_db = Inl e"
  using overtaken_claim_never_writes [OF lease_db_steps lease_db_ok sample_claim_overtaken,
      of ascii_case "\<lambda>_. None" refusing_codec None "CacheOp (PageOp (sample_batch [''b'']) True)"]
  by (cases "apply_event_sync_page (\<lambda>_. None) None sample_claim (sample_batch [''b'']) True 15 unchosen_db") simp_all

theorem sync_state_well_formed_witness: "sync_ok (15, unchosen_db)"
  by (rule sync_state_well_formed [of ascii_case "\<lambda>_. None" refusing_codec None,
        OF lease_db_steps lease_db_ok])

end
