(* ===== verification/Projection_Payload.thy ===== *)
theory Projection_Payload
  imports Projection_Safety
begin

text \<open>
  What the stored bytes of a projection read back as (\<open>projection_payload.go\<close>).  The encoding of
  whole structs by \<open>encoding/json\<close> is a parameter; \<open>encoding_json\<close> says what its documentation
  promises of it, in terms of the images of theory \<open>Json_Image\<close>, and theory \<open>Sample_Codec\<close> has a codec
  that meets it.
\<close>

section \<open>Images of the envelopes\<close>

definition json_evidence :: "attendee_evidence \<Rightarrow> attendee_evidence" where
  "json_evidence ev = ev\<lparr>ae_event_id := json_text (ae_event_id ev)\<rparr>"

definition page_image :: "page_payload \<Rightarrow> page_payload" where
  "page_image x = x\<lparr>pp_page := map_option json_page (pp_page x), pp_evidence := map_option (map json_evidence) (pp_evidence x)\<rparr>"

definition snapshot_image :: "snapshot_payload \<Rightarrow> snapshot_payload" where
  "snapshot_image x = x\<lparr>sy_events := map_option (map json_event) (sy_events x),
     sy_evidence := map_option (map json_evidence) (sy_evidence x)\<rparr>"

definition json_observation :: "removal_observation \<Rightarrow> removal_observation" where
  "json_observation o' = \<lparr>ro_removal = json_removal (ro_removal o'),
     ro_previous_identity = json_text (ro_previous_identity o'), ro_unresolved = ro_unresolved o'\<rparr>"

text \<open>
  The names of the members that a map becomes, up to case, as \<open>rejectProjectionDuplicateKeys\<close>
  compares them.  The members of a struct have the names of its tags, which are distinct.
\<close>

definition names_distinct :: "unicode_case \<Rightarrow> (string \<times> 'a) list \<Rightarrow> bool" where
  "names_distinct U ms \<longleftrightarrow> distinct (map (\<lambda>m. to_lower U (json_text (fst m))) ms)"

fun value_names :: "unicode_case \<Rightarrow> json \<Rightarrow> bool" where
  "value_names U (JObject ms) \<longleftrightarrow> names_distinct U ms \<and> list_all (\<lambda>m. value_names U (snd m)) ms"
| "value_names U (JArray xs) \<longleftrightarrow> list_all (value_names U) xs"
| "value_names U v \<longleftrightarrow> True"

definition google_names :: "unicode_case \<Rightarrow> google_event_extension \<Rightarrow> bool" where
  "google_names U g \<longleftrightarrow>
     list_all (names_distinct U \<circ> slice_list) [ge_private_properties g, ge_shared_properties g] \<and>
     list_all (value_names U \<circ> JObject \<circ> slice_list)
       [ge_birthday g, ge_focus_time g, ge_out_of_office g, ge_working_location g]"

definition event_names :: "unicode_case \<Rightarrow> event_v2 \<Rightarrow> bool" where
  "event_names U e \<longleftrightarrow> (case ev_google e of None \<Rightarrow> True | Some g \<Rightarrow> google_names U g)"

definition page_events :: "page_payload \<Rightarrow> event_v2 list" where
  "page_events x = (case pp_page x of None \<Rightarrow> [] | Some p \<Rightarrow> map up_event (sp_upserts p))"

section \<open>What the code relies on of encoding/json\<close>

text \<open>
  A value that was marshalled is a JSON text, which has two members of one name only where a map
  of the value does; it is read back as the image of the value, also by a decoder that refuses
  unknown fields and wants the end of the text.  Whatever text is read, the strings that come of
  it are UTF-8.
\<close>

definition json_written :: "unicode_case \<Rightarrow> projection_codec \<Rightarrow> string \<Rightarrow> bool \<Rightarrow> bool" where
  "json_written U K s distinct_names \<longleftrightarrow> s \<noteq> '''' \<and>
     (\<exists>j. pc_parse K s = Some j \<and> (unique_members U j \<longleftrightarrow> distinct_names))"

definition utf8_ids :: "event_v2 \<Rightarrow> bool" where
  "utf8_ids e \<longleftrightarrow> json_text (ev_id e) = ev_id e \<and> json_text (ev_calendar_id e) = ev_calendar_id e"

definition encoding_json :: "unicode_case \<Rightarrow> projection_codec \<Rightarrow> bool" where
  "encoding_json U K \<longleftrightarrow>
     (\<forall>x s. pc_page_text K x = Inr s \<longrightarrow> json_written U K s (list_all (event_names U) (page_events x)) \<and>
        pc_read_page K s = Some (page_image x)) \<and>
     (\<forall>x s. pc_snapshot_text K x = Inr s \<longrightarrow>
        json_written U K s (list_all (event_names U) (slice_list (sy_events x))) \<and>
        pc_read_snapshot K s = Some (snapshot_image x)) \<and>
     (\<forall>os s. observations_text K os = Inr s \<longrightarrow> json_written U K s True \<and>
        pc_read_observations K s = Some (map json_observation os) \<and>
        pc_unmarshal_observations K s = Some (map json_observation os)) \<and>
     (\<forall>s x. pc_read_page K s = Some x \<longrightarrow> list_all utf8_ids (page_events x)) \<and>
     (\<forall>s x. pc_read_snapshot K s = Some x \<longrightarrow> list_all utf8_ids (slice_list (sy_events x)))"

section \<open>Payloads read back\<close>

definition evidence_of :: "event_v2 \<Rightarrow> attendee_evidence" where
  "evidence_of e = \<lparr>ae_event_id = ev_id e, ae_complete = Some (ev_source_attendees_complete e)\<rparr>"

lemma evidence_of_id [simp]: "ae_event_id (evidence_of e) = ev_id e"
  by (simp add: evidence_of_def)

lemma evidence_fold:
  "fold_res (evidence_step source) events acc = Inr ev \<longleftrightarrow>
     (\<forall>e \<in> set events. ev_id e \<noteq> '''' \<and> ev_calendar_id e = source \<and> ev_id e \<notin> set (map ae_event_id acc)) \<and>
     distinct (map ev_id events) \<and> ev = acc @ map evidence_of events"
proof (induction events arbitrary: acc)
  case Nil
  then show ?case by auto
next
  case (Cons e events)
  have step: "evidence_step source e acc = (if ev_id e = '''' \<or> ev_calendar_id e \<noteq> source \<or> ev_id e \<in> set (map ae_event_id acc)
      then Inl page_stage_error else Inr (acc @ [evidence_of e]))"
    by (simp add: evidence_step_def evidence_of_def)
  show ?case
  proof (cases "ev_id e = '''' \<or> ev_calendar_id e \<noteq> source \<or> ev_id e \<in> set (map ae_event_id acc)")
    case True
    then show ?thesis by (auto simp: step)
  next
    case False
    then have run: "fold_res (evidence_step source) (e # events) acc = fold_res (evidence_step source) events (acc @ [evidence_of e])"
      by (simp add: step)
    have new: "(\<forall>x \<in> set events. ev_id x \<notin> set (map ae_event_id (acc @ [evidence_of e]))) \<longleftrightarrow>
        (\<forall>x \<in> set events. ev_id x \<notin> set (map ae_event_id acc)) \<and> ev_id e \<notin> ev_id ` set events"
      by (auto simp: image_iff)
    show ?thesis unfolding run Cons.IH using False new by simp blast
  qed
qed

lemma projection_evidence_Inr:
  "projection_evidence events source = Inr ev \<longleftrightarrow> source \<noteq> '''' \<and> distinct (map ev_id events) \<and>
     (\<forall>e \<in> set events. ev_id e \<noteq> '''' \<and> ev_calendar_id e = source) \<and> ev = map evidence_of events"
  by (auto simp: projection_evidence_def evidence_fold)

lemma evidence_entries:
  assumes "distinct (map ev_id events)" "\<forall>e \<in> set events. ev_id e \<noteq> '''' \<and> map_of acc (ev_id e) = None"
  shows "\<exists>byID. fold_res evidence_entry (map evidence_of events) acc = Inr byID \<and>
    (\<forall>e \<in> set events. map_of byID (ev_id e) = Some (ev_source_attendees_complete e)) \<and>
    (\<forall>i. i \<notin> ev_id ` set events \<longrightarrow> map_of byID i = map_of acc i)"
  using assms
proof (induction events arbitrary: acc)
  case Nil
  then show ?case by simp
next
  case (Cons e events)
  let ?acc = "AList.update (ev_id e) (ev_source_attendees_complete e) acc"
  have "\<forall>x \<in> set events. ev_id x \<noteq> ev_id e" using Cons.prems(1) by (metis distinct.simps(2) imageI list.map(2) set_map)
  then have "\<forall>x \<in> set events. ev_id x \<noteq> '''' \<and> map_of ?acc (ev_id x) = None"
    using Cons.prems(2) by (simp add: update_conv')
  from Cons.IH [OF _ this] Cons.prems(1) obtain byID where b:
    "fold_res evidence_entry (map evidence_of events) ?acc = Inr byID"
    "\<forall>e \<in> set events. map_of byID (ev_id e) = Some (ev_source_attendees_complete e)"
    "\<forall>i. i \<notin> ev_id ` set events \<longrightarrow> map_of byID i = map_of ?acc i" by auto
  have "evidence_entry (evidence_of e) acc = Inr ?acc"
    using Cons.prems(2) by (simp add: evidence_entry_def evidence_of_def)
  moreover have "map_of byID (ev_id e) = Some (ev_source_attendees_complete e)"
    using b(3) Cons.prems(1) by (auto simp: update_conv')
  ultimately show ?case using b by (auto simp: update_conv')
qed

lemma projection_evidence_Inl: "projection_evidence events source = Inl e \<Longrightarrow> e = page_stage_error"
proof -
  have "fold_res (evidence_step source) events acc = Inl e \<Longrightarrow> e = page_stage_error" for acc
    by (induction events arbitrary: acc) (auto simp: evidence_step_def split: sum.splits if_splits)
  then show "projection_evidence events source = Inl e \<Longrightarrow> e = page_stage_error"
    by (auto simp: projection_evidence_def split: if_splits)
qed

text \<open>What an event is after it was written with its evidence and read: its image, complete as before.\<close>

definition kept_event :: "event_v2 \<Rightarrow> event_v2" where
  "kept_event e = (json_event e)\<lparr>ev_source_attendees_complete := ev_source_attendees_complete e\<rparr>"

lemma kept_event_frame [simp]:
  "ev_id (kept_event e) = json_text (ev_id e)" "ev_calendar_id (kept_event e) = json_text (ev_calendar_id e)"
  "ev_source_attendees_complete (kept_event e) = ev_source_attendees_complete e"
  by (simp_all add: kept_event_def)

lemma json_evidence_of: "json_evidence (evidence_of e) = evidence_of (kept_event e)"
  by (simp add: json_evidence_def evidence_of_def)

lemma restore_events:
  assumes "\<forall>e \<in> set events. map_of byID (ev_id (kept_event e)) = Some (ev_source_attendees_complete e)"
  shows "fold_res (restore_event byID) (map json_event events) acc = Inr (acc @ map kept_event events)"
  using assms
proof (induction events arbitrary: acc)
  case Nil
  then show ?case by simp
next
  case (Cons e events)
  have "restore_event byID (json_event e) acc = Inr (acc @ [kept_event e])"
    using Cons.prems by (simp add: restore_event_def kept_event_def)
  with Cons.IH [of "acc @ [kept_event e]"] Cons.prems show ?case by simp
qed

text \<open>When the images of the events of a source can be told apart.\<close>

definition images_apart :: "event_v2 list \<Rightarrow> string \<Rightarrow> bool" where
  "images_apart events source \<longleftrightarrow> distinct (map (\<lambda>e. json_text (ev_id e)) events) \<and>
     (events = [] \<or> json_text source = source)"

lemma restore_evidence:
  assumes "projection_evidence events source = Inr ev"
  shows "restore_projection_evidence (map json_event events) (Some (map json_evidence ev)) source =
    (if images_apart events source then Inr (map kept_event events) else Inl page_stage_error)"
proof -
  have e: "source \<noteq> ''''" "\<forall>e \<in> set events. ev_id e \<noteq> '''' \<and> ev_calendar_id e = source"
    and ev: "ev = map evidence_of events"
    using assms by (auto simp: projection_evidence_Inr)
  have len: "length (map json_evidence ev) = length (map json_event events)" by (simp add: ev)
  have ids: "map ev_id (map json_event events) = map (\<lambda>e. json_text (ev_id e)) events"
    "map ev_id (map kept_event events) = map (\<lambda>e. json_text (ev_id e)) events" by simp_all
  have again: "(\<exists>w. projection_evidence (map json_event events) source = Inr w) \<longleftrightarrow> images_apart events source"
    unfolding projection_evidence_Inr ids images_apart_def using e by (cases events) auto
  show ?thesis
  proof (cases "images_apart events source")
    case True
    with again obtain w where w: "projection_evidence (map json_event events) source = Inr w" by blast
    have "distinct (map ev_id (map kept_event events))"
      unfolding ids using True by (simp add: images_apart_def)
    moreover have "\<forall>e \<in> set (map kept_event events). ev_id e \<noteq> '''' \<and> map_of ([] :: (string \<times> bool) list) (ev_id e) = None"
      using e(2) by simp
    ultimately obtain byID where b: "fold_res evidence_entry (map evidence_of (map kept_event events)) [] = Inr byID"
      "\<forall>e \<in> set (map kept_event events). map_of byID (ev_id e) = Some (ev_source_attendees_complete e)"
      using evidence_entries [of "map kept_event events" "[]"] by blast
    have "fold_res evidence_entry (map json_evidence ev) [] = Inr byID"
      using b(1) by (simp add: ev o_def json_evidence_of)
    moreover have "fold_res (restore_event byID) (map json_event events) [] = Inr (map kept_event events)"
      using restore_events [of events byID "[]"] b(2) by simp
    ultimately show ?thesis using True w len by (simp add: restore_projection_evidence_def)
  next
    case False
    with again obtain x where x: "projection_evidence (map json_event events) source = Inl x"
      by (cases "projection_evidence (map json_event events) source") auto
    with projection_evidence_Inl [OF x] False len show ?thesis by (simp add: restore_projection_evidence_def)
  qed
qed

section \<open>Snapshots\<close>

lemma snapshot_payload_read:
  assumes law: "encoding_json U K" and enc: "encode_projection_snapshot_payload K events source = Inr s"
    and size: "length s \<le> maxProjectionSnapshotBytes"
    and names: "list_all (event_names U) events" and apart: "images_apart events source"
  shows "decode_projection_snapshot_payload U K s source = Inr (map kept_event events)"
proof -
  obtain ev where ev: "projection_evidence events source = Inr ev"
    and s: "pc_snapshot_text K \<lparr>sy_version = 1, sy_events = Some events, sy_evidence = Some ev\<rparr> = Inr s"
    using enc by (auto simp: encode_projection_snapshot_payload_def)
  have "json_written U K s (list_all (event_names U) (slice_list (Some events))) \<and> pc_read_snapshot K s =
      Some (snapshot_image \<lparr>sy_version = 1, sy_events = Some events, sy_evidence = Some ev\<rparr>)"
    using law s unfolding encoding_json_def by fastforce
  then have w: "json_written U K s True" and r: "pc_read_snapshot K s =
      Some \<lparr>sy_version = 1, sy_events = Some (map json_event events), sy_evidence = Some (map json_evidence ev)\<rparr>"
    using names by (simp_all add: slice_list_def snapshot_image_def)
  show ?thesis
    using w size restore_evidence [OF ev] apart
    by (auto simp: decode_projection_snapshot_payload_def decode_projection_payload_def json_written_def r)
qed

section \<open>Pages\<close>

definition kept_upsert :: "event_sync_upsert \<Rightarrow> event_sync_upsert" where
  "kept_upsert u = \<lparr>up_object = json_object_ref (up_object u), up_event = kept_event (up_event u)\<rparr>"

text \<open>
  A page after it was staged: without its token and cursor, in its image, the attendee evidence of
  its events restored.
\<close>

definition kept_page :: "event_sync_page \<Rightarrow> event_sync_page" where
  "kept_page page = (json_page (bare_page page))\<lparr>sp_upserts := map kept_upsert (sp_upserts page)\<rparr>"

lemma place_kept:
  "place_events (json_page (bare_page page)) (map kept_event (map up_event (sp_upserts page))) = kept_page page"
proof -
  have "map2 (\<lambda>u e. u\<lparr>up_event := e\<rparr>) (map json_upsert us) (map kept_event (map up_event us)) = map kept_upsert us" for us
    by (induction us) (simp_all add: json_upsert_def kept_upsert_def)
  then show ?thesis by (simp add: place_events_def kept_page_def json_page_def bare_page_def)
qed

lemma page_payload_read:
  assumes law: "encoding_json U K" and enc: "encode_projection_page_payload K (bare_page page) source = Inr s"
    and size: "length s \<le> projectionPageSizeLimit"
    and valid: "validate_projection_google_page source page = Inr ()"
  shows "decode_projection_page_payload U K s source =
    (if list_all (event_names U) (map up_event (sp_upserts page)) \<and> images_apart (map up_event (sp_upserts page)) source
     then Inr (kept_page page) else Inl page_stage_error)"
proof -
  let ?page = "bare_page page" and ?events = "map up_event (sp_upserts page)"
  have up: "sp_upserts ?page = sp_upserts page" by (simp add: bare_page_def)
  obtain ev where ev: "projection_evidence ?events source = Inr ev"
    and s: "pc_page_text K \<lparr>pp_version = 1, pp_page = Some ?page, pp_evidence = Some ev\<rparr> = Inr s"
    using enc by (auto simp: encode_projection_page_payload_def up)
  have "json_written U K s (list_all (event_names U) (page_events \<lparr>pp_version = 1, pp_page = Some ?page, pp_evidence = Some ev\<rparr>)) \<and>
      pc_read_page K s = Some (page_image \<lparr>pp_version = 1, pp_page = Some ?page, pp_evidence = Some ev\<rparr>)"
    using law s unfolding encoding_json_def by blast
  then have w: "json_written U K s (list_all (event_names U) ?events)" and r: "pc_read_page K s =
      Some \<lparr>pp_version = 1, pp_page = Some (json_page ?page), pp_evidence = Some (map json_evidence ev)\<rparr>"
    by (simp_all add: page_events_def page_image_def up)
  have v: "\<not> sp_reset_required page" "sp_warnings page = []"
    using valid by (auto simp: validate_projection_google_page_def split: if_splits)
  obtain deleted ids where "fold_res (valid_page_upsert source deleted) (sp_upserts page) [] = Inr ids"
    using valid by (auto simp: validate_projection_google_page_def bind_res_Inr_iff split: if_splits)
  then have own: "\<forall>u \<in> set (sp_upserts page). so_object_id (up_object u) = ev_id (up_event u)"
    by (rule fold_res_all) (auto simp: valid_page_upsert_def Let_def split: if_splits)
  have events: "map up_event (sp_upserts (json_page ?page)) = map json_event ?events"
    by (simp add: json_page_def json_upsert_def up)
  have fields: "sp_next_page_token (json_page ?page) = ''''" "sp_next_cursor (json_page ?page) = ''''"
    "\<not> sp_reset_required (json_page ?page)" "sp_warnings (json_page ?page) = []"
    "\<not> list_ex (\<lambda>u. so_object_id (up_object u) \<noteq> ev_id (up_event u)) (sp_upserts (json_page ?page))"
    using v own by (auto simp: json_page_def bare_page_def json_upsert_def json_object_ref_def list_ex_iff)
  show ?thesis
  proof (cases "list_all (event_names U) ?events")
    case True
    with w size have "decode_projection_payload U K s projectionPageSizeLimit (pc_read_page K) =
        Inr \<lparr>pp_version = 1, pp_page = Some (json_page ?page), pp_evidence = Some (map json_evidence ev)\<rparr>"
      by (auto simp: decode_projection_payload_def json_written_def r)
    with True show ?thesis
      by (simp add: decode_projection_page_payload_def fields events restore_evidence [OF ev] place_kept del: map_map)
  next
    case False
    with w size have "decode_projection_payload U K s projectionPageSizeLimit (pc_read_page K) = Inl page_stage_error"
      by (auto simp: decode_projection_payload_def json_written_def)
    with False show ?thesis by (simp add: decode_projection_page_payload_def)
  qed
qed

text \<open>
  C19. What a staged page reads back as: the payload that the staging code writes for a page
  decodes exactly when no map of its events has two keys of one name up to case and the images of
  the identifiers can be told apart; then it is the image of the page under \<open>encoding/json\<close>,
  without its token and cursor, and with the attendee evidence of every event restored although
  the encoding of an event leaves it out.
\<close>

theorem page_payload_roundtrip:
  assumes "encoding_json U K" and "encode_projection_page_payload K (bare_page page) source = Inr s"
    and "length s \<le> projectionPageSizeLimit"
    and "validate_projection_google_page source page = Inr ()"
  shows "decode_projection_page_payload U K s source =
    (if list_all (event_names U) (map up_event (sp_upserts page)) \<and> images_apart (map up_event (sp_upserts page)) source
     then Inr (kept_page page) else Inl page_stage_error)"
  by (rule page_payload_read [OF assms])

section \<open>What reading guarantees\<close>

lemma restored_from:
  assumes "restore_projection_evidence events evidence source = Inr restored"
  shows "\<forall>e \<in> set restored. \<exists>e' \<in> set events. \<exists>b. e = e'\<lparr>ev_source_attendees_complete := b\<rparr>"
proof -
  have "\<forall>e \<in> set out. e \<in> set acc \<or> (\<exists>e' \<in> set es. \<exists>b. e = e'\<lparr>ev_source_attendees_complete := b\<rparr>)"
    if "fold_res (restore_event byID) es acc = Inr out" for byID es acc out
    using that
    by (induction es arbitrary: acc) (fastforce simp: restore_event_def split: option.splits sum.splits)+
  note step = this
  obtain byID where "fold_res (restore_event byID) events [] = Inr restored"
    using assms by (auto simp: restore_projection_evidence_def bind_res_Inr_iff split: option.splits if_splits)
  from step [OF this] show ?thesis by simp
qed

lemma restored_utf8:
  assumes "restore_projection_evidence events evidence source = Inr restored" and "list_all utf8_ids events"
  shows "list_all utf8_ids restored"
  using restored_from [OF assms(1)] assms(2) by (fastforce simp: list_all_iff utf8_ids_def)

lemma decoded_text:
  "decode_projection_payload U K data limit read = Inr x \<Longrightarrow> read data = Some x"
  by (auto simp: decode_projection_payload_def split: if_splits option.splits)

lemma decoded_snapshot_utf8:
  assumes law: "encoding_json U K" and d: "decode_projection_snapshot_payload U K data source = Inr events"
  shows "list_all utf8_ids events"
proof -
  obtain x es where x: "decode_projection_payload U K data maxProjectionSnapshotBytes (pc_read_snapshot K) = Inr x"
    and es: "sy_events x = Some es" and r: "restore_projection_evidence es (sy_evidence x) source = Inr events"
    using d by (auto simp: decode_projection_snapshot_payload_def bind_res_Inr_iff split: option.splits if_splits)
  have "list_all utf8_ids (slice_list (sy_events x))"
    using law decoded_text [OF x] unfolding encoding_json_def by blast
  with restored_utf8 [OF r] show ?thesis by (simp add: es slice_list_def)
qed

lemma decoded_page_utf8:
  assumes law: "encoding_json U K" and d: "decode_projection_page_payload U K data source = Inr page"
  shows "list_all utf8_ids (map up_event (sp_upserts page))"
proof -
  obtain x p es where x: "decode_projection_payload U K data projectionPageSizeLimit (pc_read_page K) = Inr x"
    and p: "pp_page x = Some p"
    and r: "restore_projection_evidence (map up_event (sp_upserts p)) (pp_evidence x) source = Inr es"
    and page: "page = place_events p es"
    using d by (auto simp: decode_projection_page_payload_def bind_res_Inr_iff split: option.splits if_splits)
  have "list_all utf8_ids (page_events x)"
    using law decoded_text [OF x] unfolding encoding_json_def by blast
  then have "list_all utf8_ids es" using restored_utf8 [OF r] by (simp add: page_events_def p)
  moreover have "set (map up_event (sp_upserts page)) \<subseteq> set es"
    by (auto simp: page place_events_def set_zip in_set_conv_nth)
  ultimately show ?thesis by (auto simp: list_all_iff)
qed

end
