(* ===== verification/Sample_Codec.thy ===== *)
theory Sample_Codec
  imports Projection_Payload
begin

text \<open>
  A total codec that meets \<open>encoding_json\<close>: a payload is written field by field in a prefix code,
  after a mark that says whether the names of its maps are distinct, and it is read back as its
  image.  The concrete runs of the projections use it.
\<close>

section \<open>Prefix codes\<close>

type_synonym 'a reader = "string \<Rightarrow> ('a \<times> string) option"

definition code_pair :: "('a \<Rightarrow> string) \<Rightarrow> 'a reader \<Rightarrow> bool" where
  "code_pair w r \<longleftrightarrow> (\<forall>x rest. r (w x @ rest) = Some (x, rest))"

definition then_read :: "'a reader \<Rightarrow> ('a \<Rightarrow> 'b reader) \<Rightarrow> 'b reader" where
  "then_read r f s = (case r s of None \<Rightarrow> None | Some (x, t) \<Rightarrow> f x t)"

definition yield_value :: "'a \<Rightarrow> 'a reader" where
  "yield_value x s = Some (x, s)"

named_theorems codes \<open>prefix codes of the fields\<close>

lemma then_read_code: "code_pair w r \<Longrightarrow> then_read r f (w x @ rest) = f x rest"
  by (simp add: then_read_def code_pair_def)

lemma code_pairI: "(\<And>x rest. r (w x @ rest) = Some (x, rest)) \<Longrightarrow> code_pair w r"
  by (simp add: code_pair_def)

definition write_bool :: "bool \<Rightarrow> string" where
  "write_bool b = (if b then ''t'' else ''f'')"

definition read_bool :: "bool reader" where
  "read_bool s = (case s of [] \<Rightarrow> None | c # t \<Rightarrow> Some (c = CHR ''t'', t))"

lemma code_bool [codes]: "code_pair write_bool read_bool"
  by (rule code_pairI) (simp add: write_bool_def read_bool_def)

definition write_char :: "char \<Rightarrow> string" where
  "write_char c = [c]"

definition read_char :: "char reader" where
  "read_char s = (case s of [] \<Rightarrow> None | c # t \<Rightarrow> Some (c, t))"

lemma code_char [codes]: "code_pair write_char read_char"
  by (rule code_pairI) (simp add: write_char_def read_char_def)

definition write_list :: "('a \<Rightarrow> string) \<Rightarrow> 'a list \<Rightarrow> string" where
  "write_list w xs = concat (map (\<lambda>x. CHR ''+'' # w x) xs) @ ''-''"

primrec read_items :: "'a reader \<Rightarrow> nat \<Rightarrow> 'a list reader" where
  "read_items r 0 s = None"
| "read_items r (Suc n) s = (case s of [] \<Rightarrow> None
     | c # t \<Rightarrow> if c = CHR ''-'' then Some ([], t)
         else then_read r (\<lambda>x. then_read (read_items r n) (\<lambda>xs. yield_value (x # xs))) t)"

definition read_list :: "'a reader \<Rightarrow> 'a list reader" where
  "read_list r s = read_items r (length s) s"

lemma read_written_list:
  assumes "\<And>x rest. x \<in> set xs \<Longrightarrow> r (w x @ rest) = Some (x, rest)"
  shows "read_list r (write_list w xs @ rest) = Some (xs, rest)"
proof -
  have items: "read_items r n (write_list w xs @ rest) = Some (xs, rest)" if "length xs < n" for n
    using that assms
  proof (induction xs arbitrary: n)
    case Nil
    then show ?case by (cases n) (simp_all add: write_list_def)
  next
    case (Cons x xs)
    then obtain m where m: "n = Suc m" "length xs < m" by (cases n) auto
    have "write_list w (x # xs) @ rest = CHR ''+'' # w x @ write_list w xs @ rest" by (simp add: write_list_def)
    moreover have "r (w x @ t) = Some (x, t)" for t using Cons.prems by simp
    moreover have "read_items r m (write_list w xs @ rest) = Some (xs, rest)"
      using Cons.prems by (intro Cons.IH [OF m(2)]) simp
    ultimately show ?case by (simp add: m(1) then_read_def yield_value_def)
  qed
  have "length xs \<le> length (concat (map (\<lambda>x. CHR ''+'' # w x) xs))" by (induction xs) simp_all
  then have "length xs < length (write_list w xs @ rest)" by (simp add: write_list_def)
  then show ?thesis unfolding read_list_def by (rule items)
qed

lemma code_list [codes]: "code_pair w r \<Longrightarrow> code_pair (write_list w) (read_list r)"
  by (rule code_pairI) (simp add: read_written_list code_pair_def)

definition write_option :: "('a \<Rightarrow> string) \<Rightarrow> 'a option \<Rightarrow> string" where
  "write_option w x = (case x of None \<Rightarrow> ''-'' | Some y \<Rightarrow> CHR ''+'' # w y)"

definition read_option :: "'a reader \<Rightarrow> 'a option reader" where
  "read_option r s = (case s of [] \<Rightarrow> None
     | c # t \<Rightarrow> if c = CHR ''-'' then Some (None, t) else then_read r (\<lambda>x. yield_value (Some x)) t)"

lemma code_option [codes]: "code_pair w r \<Longrightarrow> code_pair (write_option w) (read_option r)"
  by (rule code_pairI) (simp add: write_option_def read_option_def then_read_code yield_value_def split: option.split)

definition write_pair :: "('a \<Rightarrow> string) \<Rightarrow> ('b \<Rightarrow> string) \<Rightarrow> 'a \<times> 'b \<Rightarrow> string" where
  "write_pair v w x = v (fst x) @ w (snd x)"

definition read_pair :: "'a reader \<Rightarrow> 'b reader \<Rightarrow> ('a \<times> 'b) reader" where
  "read_pair q r = then_read q (\<lambda>x. then_read r (\<lambda>y. yield_value (x, y)))"

lemma code_pair_pair [codes]: "code_pair v q \<Longrightarrow> code_pair w r \<Longrightarrow> code_pair (write_pair v w) (read_pair q r)"
  by (rule code_pairI) (simp add: write_pair_def read_pair_def then_read_code yield_value_def)

abbreviation write_text :: "string \<Rightarrow> string" where "write_text \<equiv> write_list write_char"
abbreviation read_text :: "string reader" where "read_text \<equiv> read_list read_char"

text \<open>Integers in binary.\<close>

fun bits_of :: "nat \<Rightarrow> bool list" where
  "bits_of n = (if n = 0 then [] else odd n # bits_of (n div 2))"

declare bits_of.simps [simp del]

primrec of_bits :: "bool list \<Rightarrow> nat" where
  "of_bits [] = 0"
| "of_bits (b # bs) = of_bool b + 2 * of_bits bs"

lemma of_bits_of [simp]: "of_bits (bits_of n) = n"
proof (induction n rule: bits_of.induct)
  case (1 n)
  show ?case
  proof (cases "n = 0")
    case True
    then show ?thesis by (simp add: bits_of.simps [of 0])
  next
    case False
    then have "of_bits (bits_of n) = of_bool (odd n) + 2 * (n div 2)"
      using 1 by (simp add: bits_of.simps [of n])
    then show ?thesis using div_mult_mod_eq [of n 2] by (simp add: mod_2_eq_odd)
  qed
qed

definition write_int :: "int \<Rightarrow> string" where
  "write_int i = write_bool (i < 0) @ write_list write_bool (bits_of (nat \<bar>i\<bar>))"

definition read_int :: "int reader" where
  "read_int = then_read read_bool (\<lambda>neg. then_read (read_list read_bool)
     (\<lambda>bs. yield_value (if neg then - int (of_bits bs) else int (of_bits bs))))"

lemma code_int [codes]: "code_pair write_int read_int"
  by (rule code_pairI)
    (simp add: write_int_def read_int_def then_read_code [OF code_bool] then_read_code [OF code_list [OF code_bool]] yield_value_def)

text \<open>The values of an \<open>any\<close>, after their depth.\<close>

primrec json_depth :: "json \<Rightarrow> nat" where
  "json_depth JNull = 0"
| "json_depth (JBool b) = 0"
| "json_depth (JNumber s) = 0"
| "json_depth (JString s) = 0"
| "json_depth (JArray xs) = Suc (sum_list (map json_depth xs))"
| "json_depth (JObject ms) = Suc (sum_list (map snd (map (map_prod id json_depth) ms)))"

primrec write_json :: "json \<Rightarrow> string" where
  "write_json JNull = ''n''"
| "write_json (JBool b) = CHR ''b'' # write_bool b"
| "write_json (JNumber s) = CHR ''1'' # write_text s"
| "write_json (JString s) = CHR ''s'' # write_text s"
| "write_json (JArray xs) = CHR ''a'' # write_list id (map write_json xs)"
| "write_json (JObject ms) = CHR ''o'' # write_list (write_pair write_text id) (map (map_prod id write_json) ms)"

primrec read_json :: "nat \<Rightarrow> json reader" where
  "read_json 0 s = None"
| "read_json (Suc n) s = (case s of [] \<Rightarrow> None
     | c # t \<Rightarrow>
         if c = CHR ''n'' then Some (JNull, t)
         else if c = CHR ''b'' then then_read read_bool (\<lambda>b. yield_value (JBool b)) t
         else if c = CHR ''1'' then then_read read_text (\<lambda>x. yield_value (JNumber x)) t
         else if c = CHR ''s'' then then_read read_text (\<lambda>x. yield_value (JString x)) t
         else if c = CHR ''a'' then then_read (read_list (read_json n)) (\<lambda>xs. yield_value (JArray xs)) t
         else then_read (read_list (read_pair read_text (read_json n))) (\<lambda>ms. yield_value (JObject ms)) t)"

lemma write_list_map: "write_list w (map f xs) = write_list (\<lambda>x. w (f x)) xs"
  by (simp add: write_list_def o_def)

lemma member_sum_list: "x \<in> set xs \<Longrightarrow> x \<le> sum_list (xs :: nat list)"
  by (rule member_le_sum_list) simp_all

lemma read_written_json: "json_depth j < n \<Longrightarrow> read_json n (write_json j @ rest) = Some (j, rest)"
proof (induction j arbitrary: n rest)
  case (JArray xs)
  then obtain m where m: "n = Suc m" "sum_list (map json_depth xs) < m" by (cases n) auto
  have "read_list (read_json m) (write_list (\<lambda>x. id (write_json x)) xs @ rest) = Some (xs, rest)"
  proof (rule read_written_list)
    fix x t
    assume x: "x \<in> set xs"
    then have "json_depth x \<le> sum_list (map json_depth xs)" by (simp add: member_sum_list)
    with JArray.IH [OF x] m(2) show "read_json m (id (write_json x) @ t) = Some (x, t)" by simp
  qed
  then show ?case by (simp add: m(1) write_list_map then_read_def yield_value_def)
next
  case (JObject ms)
  then obtain m where m: "n = Suc m" "sum_list (map (snd \<circ> map_prod id json_depth) ms) < m" by (cases n) auto
  have "read_list (read_pair read_text (read_json m))
      (write_list (\<lambda>x. write_pair write_text id (map_prod id write_json x)) ms @ rest) = Some (ms, rest)"
  proof (rule read_written_list)
    fix x t
    assume x: "x \<in> set ms"
    obtain k v where kv: "x = (k, v)" by (cases x)
    have "json_depth v \<in> set (map (snd \<circ> map_prod id json_depth) ms)"
      using imageI [OF x, of "snd \<circ> map_prod id json_depth"] by (simp add: kv)
    then have "json_depth v < m" using member_sum_list m(2) by fastforce
    then have "read_json m (write_json v @ t) = Some (v, t)" for t
      using JObject.IH [of x v] x kv by (auto simp: snds.simps)
    then show "read_pair read_text (read_json m) (write_pair write_text id (map_prod id write_json x) @ t) = Some (x, t)"
      by (simp add: kv write_pair_def read_pair_def then_read_code [OF code_list [OF code_char]])
        (simp add: then_read_def yield_value_def)
  qed
  then show ?case by (simp add: m(1) write_list_map then_read_def yield_value_def)
qed (auto simp: then_read_code [OF code_list [OF code_char]] then_read_code [OF code_bool] yield_value_def gr0_conv_Suc)

definition write_value :: "json \<Rightarrow> string" where
  "write_value j = write_list write_bool (replicate (json_depth j) True) @ write_json j"

definition read_value :: "json reader" where
  "read_value = then_read (read_list read_bool) (\<lambda>ds. read_json (Suc (length ds)))"

lemma code_value [codes]: "code_pair write_value read_value"
  by (rule code_pairI)
    (simp add: write_value_def read_value_def then_read_code [OF code_list [OF code_bool]] read_written_json
      del: read_json.simps)

section \<open>Structs\<close>

definition write_time :: "event_time \<Rightarrow> string" where
  "write_time x =
     write_text (et_date x) @ write_text (et_date_time x) @ write_text (et_time_zone x)"

definition read_time :: "event_time reader" where
  "read_time =
     then_read read_text (\<lambda>x0. then_read read_text (\<lambda>x1. then_read read_text (\<lambda>x2.
     yield_value \<lparr>et_date = x0, et_date_time = x1, et_time_zone = x2\<rparr>)))"

lemma code_time [codes]: "code_pair write_time read_time"
  by (rule code_pairI) (simp add: write_time_def read_time_def then_read_code codes yield_value_def)

definition write_person :: "person_v2 \<Rightarrow> string" where
  "write_person x =
     write_text (person_id x) @ write_text (person_email x) @ write_text (person_name x) @
     write_bool (person_self x) @ write_text (person_comment x)"

definition read_person :: "person_v2 reader" where
  "read_person =
     then_read read_text (\<lambda>x0. then_read read_text (\<lambda>x1. then_read read_text (\<lambda>x2.
     then_read read_bool (\<lambda>x3. then_read read_text (\<lambda>x4.
     yield_value \<lparr>person_id = x0, person_email = x1, person_name = x2, person_self = x3, person_comment = x4\<rparr>)))))"

lemma code_person [codes]: "code_pair write_person read_person"
  by (rule code_pairI) (simp add: write_person_def read_person_def then_read_code codes yield_value_def)

definition write_attendee :: "attendee_v2 \<Rightarrow> string" where
  "write_attendee x =
     write_person (att_person x) @ write_text (att_status x) @ write_bool (att_optional x) @
     write_bool (att_organizer x) @ write_bool (att_resource x) @ write_int (att_additional_guests x)"

definition read_attendee :: "attendee_v2 reader" where
  "read_attendee =
     then_read read_person (\<lambda>x0. then_read read_text (\<lambda>x1. then_read read_bool (\<lambda>x2.
     then_read read_bool (\<lambda>x3. then_read read_bool (\<lambda>x4. then_read read_int (\<lambda>x5.
     yield_value \<lparr>att_person = x0, att_status = x1, att_optional = x2, att_organizer = x3, att_resource = x4,
       att_additional_guests = x5\<rparr>))))))"

lemma code_attendee [codes]: "code_pair write_attendee read_attendee"
  by (rule code_pairI) (simp add: write_attendee_def read_attendee_def then_read_code codes yield_value_def)

definition write_reminder :: "reminder \<Rightarrow> string" where
  "write_reminder x =
     write_text (rem_method x) @ write_int (rem_minutes x)"

definition read_reminder :: "reminder reader" where
  "read_reminder =
     then_read read_text (\<lambda>x0. then_read read_int (\<lambda>x1.
     yield_value \<lparr>rem_method = x0, rem_minutes = x1\<rparr>))"

lemma code_reminder [codes]: "code_pair write_reminder read_reminder"
  by (rule code_pairI) (simp add: write_reminder_def read_reminder_def then_read_code codes yield_value_def)

definition write_reminders :: "reminder_settings \<Rightarrow> string" where
  "write_reminders x =
     write_bool (rem_use_default x) @ write_list write_reminder (rem_overrides x)"

definition read_reminders :: "reminder_settings reader" where
  "read_reminders =
     then_read read_bool (\<lambda>x0. then_read (read_list read_reminder) (\<lambda>x1.
     yield_value \<lparr>rem_use_default = x0, rem_overrides = x1\<rparr>))"

lemma code_reminders [codes]: "code_pair write_reminders read_reminders"
  by (rule code_pairI) (simp add: write_reminders_def read_reminders_def then_read_code codes yield_value_def)

definition write_attachment :: "attachment \<Rightarrow> string" where
  "write_attachment x =
     write_text (at_file_url x) @ write_text (at_title x) @ write_text (at_mime_type x) @
     write_text (at_icon_link x) @ write_text (at_file_id x)"

definition read_attachment :: "attachment reader" where
  "read_attachment =
     then_read read_text (\<lambda>x0. then_read read_text (\<lambda>x1. then_read read_text (\<lambda>x2.
     then_read read_text (\<lambda>x3. then_read read_text (\<lambda>x4.
     yield_value \<lparr>at_file_url = x0, at_title = x1, at_mime_type = x2, at_icon_link = x3, at_file_id = x4\<rparr>)))))"

lemma code_attachment [codes]: "code_pair write_attachment read_attachment"
  by (rule code_pairI) (simp add: write_attachment_def read_attachment_def then_read_code codes yield_value_def)

definition write_entry_point :: "conference_entry_point \<Rightarrow> string" where
  "write_entry_point x =
     write_text (cep_type x) @ write_text (cep_uri x) @ write_text (cep_label x) @ write_text (cep_pin x)"

definition read_entry_point :: "conference_entry_point reader" where
  "read_entry_point =
     then_read read_text (\<lambda>x0. then_read read_text (\<lambda>x1. then_read read_text (\<lambda>x2.
     then_read read_text (\<lambda>x3.
     yield_value \<lparr>cep_type = x0, cep_uri = x1, cep_label = x2, cep_pin = x3\<rparr>))))"

lemma code_entry_point [codes]: "code_pair write_entry_point read_entry_point"
  by (rule code_pairI) (simp add: write_entry_point_def read_entry_point_def then_read_code codes yield_value_def)

definition write_conference :: "conference_data \<Rightarrow> string" where
  "write_conference x =
     write_text (conf_request_id x) @ write_text (conf_status x) @ write_text (conf_solution x) @
     write_list write_entry_point (conf_entry_points x)"

definition read_conference :: "conference_data reader" where
  "read_conference =
     then_read read_text (\<lambda>x0. then_read read_text (\<lambda>x1. then_read read_text (\<lambda>x2.
     then_read (read_list read_entry_point) (\<lambda>x3.
     yield_value \<lparr>conf_request_id = x0, conf_status = x1, conf_solution = x2, conf_entry_points = x3\<rparr>))))"

lemma code_conference [codes]: "code_pair write_conference read_conference"
  by (rule code_pairI) (simp add: write_conference_def read_conference_def then_read_code codes yield_value_def)

definition write_guests :: "guest_permissions \<Rightarrow> string" where
  "write_guests x =
     write_bool (gp_can_invite_others x) @ write_bool (gp_can_modify x) @ write_bool (gp_can_see_others x)"

definition read_guests :: "guest_permissions reader" where
  "read_guests =
     then_read read_bool (\<lambda>x0. then_read read_bool (\<lambda>x1. then_read read_bool (\<lambda>x2.
     yield_value \<lparr>gp_can_invite_others = x0, gp_can_modify = x1, gp_can_see_others = x2\<rparr>)))"

lemma code_guests [codes]: "code_pair write_guests read_guests"
  by (rule code_pairI) (simp add: write_guests_def read_guests_def then_read_code codes yield_value_def)

definition write_google :: "google_event_extension \<Rightarrow> string" where
  "write_google x =
     write_text (ge_event_type x) @
     write_option (write_list (write_pair write_text write_text)) (ge_private_properties x) @
     write_option (write_list (write_pair write_text write_text)) (ge_shared_properties x) @
     write_option (write_list (write_pair write_text write_value)) (ge_birthday x) @
     write_option (write_list (write_pair write_text write_value)) (ge_focus_time x) @
     write_option (write_list (write_pair write_text write_value)) (ge_out_of_office x) @
     write_option (write_list (write_pair write_text write_value)) (ge_working_location x) @
     write_bool (ge_locked x) @ write_bool (ge_private_copy x)"

definition read_google :: "google_event_extension reader" where
  "read_google =
     then_read read_text (\<lambda>x0.
     then_read (read_option (read_list (read_pair read_text read_text))) (\<lambda>x1.
     then_read (read_option (read_list (read_pair read_text read_text))) (\<lambda>x2.
     then_read (read_option (read_list (read_pair read_text read_value))) (\<lambda>x3.
     then_read (read_option (read_list (read_pair read_text read_value))) (\<lambda>x4.
     then_read (read_option (read_list (read_pair read_text read_value))) (\<lambda>x5.
     then_read (read_option (read_list (read_pair read_text read_value))) (\<lambda>x6.
     then_read read_bool (\<lambda>x7. then_read read_bool (\<lambda>x8.
     yield_value \<lparr>ge_event_type = x0, ge_private_properties = x1, ge_shared_properties = x2, ge_birthday = x3,
       ge_focus_time = x4, ge_out_of_office = x5, ge_working_location = x6, ge_locked = x7,
       ge_private_copy = x8\<rparr>)))))))))"

lemma code_google [codes]: "code_pair write_google read_google"
  by (rule code_pairI) (simp add: write_google_def read_google_def then_read_code codes yield_value_def)

definition write_event :: "event_v2 \<Rightarrow> string" where
  "write_event x =
     write_text (ev_id x) @ write_text (ev_calendar_id x) @ write_text (ev_provider x) @
     write_text (ev_ical_uid x) @ write_text (ev_etag x) @ write_text (ev_html_link x) @
     write_text (ev_title x) @ write_text (ev_description x) @ write_text (ev_description_format x) @
     write_text (ev_location x) @ write_text (ev_status x) @ write_time (ev_start x) @
     write_time (ev_end x) @ write_option write_time (ev_original_start x) @
     write_text (ev_recurring_event_id x) @ write_text (ev_instance_kind x) @
     write_option (write_list write_text) (ev_recurrence x) @ write_option write_person (ev_organizer x) @
     write_list write_attendee (ev_attendees x) @ write_bool (ev_attendees_known x) @
     write_bool (ev_source_attendees_complete x) @ write_option write_reminders (ev_reminders x) @
     write_text (ev_visibility x) @ write_text (ev_transparency x) @ write_text (ev_color_id x) @
     write_list write_attachment (ev_attachments x) @ write_option write_conference (ev_conference x) @
     write_option write_guests (ev_guest_permissions x) @ write_option write_google (ev_google x) @
     write_option write_int (ev_created x) @ write_option write_int (ev_updated x) @
     write_bool (ev_read_only x)"

definition read_event :: "event_v2 reader" where
  "read_event =
     then_read read_text (\<lambda>x0. then_read read_text (\<lambda>x1. then_read read_text (\<lambda>x2.
     then_read read_text (\<lambda>x3. then_read read_text (\<lambda>x4. then_read read_text (\<lambda>x5.
     then_read read_text (\<lambda>x6. then_read read_text (\<lambda>x7. then_read read_text (\<lambda>x8.
     then_read read_text (\<lambda>x9. then_read read_text (\<lambda>x10. then_read read_time (\<lambda>x11.
     then_read read_time (\<lambda>x12. then_read (read_option read_time) (\<lambda>x13.
     then_read read_text (\<lambda>x14. then_read read_text (\<lambda>x15.
     then_read (read_option (read_list read_text)) (\<lambda>x16.
     then_read (read_option read_person) (\<lambda>x17. then_read (read_list read_attendee) (\<lambda>x18.
     then_read read_bool (\<lambda>x19. then_read read_bool (\<lambda>x20.
     then_read (read_option read_reminders) (\<lambda>x21. then_read read_text (\<lambda>x22.
     then_read read_text (\<lambda>x23. then_read read_text (\<lambda>x24.
     then_read (read_list read_attachment) (\<lambda>x25.
     then_read (read_option read_conference) (\<lambda>x26. then_read (read_option read_guests) (\<lambda>x27.
     then_read (read_option read_google) (\<lambda>x28. then_read (read_option read_int) (\<lambda>x29.
     then_read (read_option read_int) (\<lambda>x30. then_read read_bool (\<lambda>x31.
     yield_value \<lparr>ev_id = x0, ev_calendar_id = x1, ev_provider = x2, ev_ical_uid = x3, ev_etag = x4, ev_html_link = x5,
       ev_title = x6, ev_description = x7, ev_description_format = x8, ev_location = x9, ev_status = x10,
       ev_start = x11, ev_end = x12, ev_original_start = x13, ev_recurring_event_id = x14,
       ev_instance_kind = x15, ev_recurrence = x16, ev_organizer = x17, ev_attendees = x18,
       ev_attendees_known = x19, ev_source_attendees_complete = x20, ev_reminders = x21,
       ev_visibility = x22, ev_transparency = x23, ev_color_id = x24, ev_attachments = x25,
       ev_conference = x26, ev_guest_permissions = x27, ev_google = x28, ev_created = x29, ev_updated = x30,
       ev_read_only = x31\<rparr>))))))))))))))))))))))))))))))))"

lemma code_event [codes]: "code_pair write_event read_event"
  by (rule code_pairI) (simp add: write_event_def read_event_def then_read_code codes yield_value_def)

definition write_object :: "sync_object \<Rightarrow> string" where
  "write_object x =
     write_text (so_object_id x) @ write_text (so_etag x)"

definition read_object :: "sync_object reader" where
  "read_object =
     then_read read_text (\<lambda>x0. then_read read_text (\<lambda>x1.
     yield_value \<lparr>so_object_id = x0, so_etag = x1\<rparr>))"

lemma code_object [codes]: "code_pair write_object read_object"
  by (rule code_pairI) (simp add: write_object_def read_object_def then_read_code codes yield_value_def)

definition write_upsert :: "event_sync_upsert \<Rightarrow> string" where
  "write_upsert x =
     write_object (up_object x) @ write_event (up_event x)"

definition read_upsert :: "event_sync_upsert reader" where
  "read_upsert =
     then_read read_object (\<lambda>x0. then_read read_event (\<lambda>x1.
     yield_value \<lparr>up_object = x0, up_event = x1\<rparr>))"

lemma code_upsert [codes]: "code_pair write_upsert read_upsert"
  by (rule code_pairI) (simp add: write_upsert_def read_upsert_def then_read_code codes yield_value_def)

primrec reason_mark :: "event_sync_removal_reason \<Rightarrow> string option option" where
  "reason_mark EventSyncProviderCancellation = None"
| "reason_mark EventSyncWindowEviction = Some None"
| "reason_mark (EventSyncReasonOther s) = Some (Some s)"

definition marked_reason :: "string option option \<Rightarrow> event_sync_removal_reason" where
  "marked_reason m = (case m of None \<Rightarrow> EventSyncProviderCancellation | Some None \<Rightarrow> EventSyncWindowEviction
     | Some (Some s) \<Rightarrow> EventSyncReasonOther s)"

definition write_reason :: "event_sync_removal_reason \<Rightarrow> string" where
  "write_reason r = write_option (write_option write_text) (reason_mark r)"

definition read_reason :: "event_sync_removal_reason reader" where
  "read_reason = then_read (read_option (read_option read_text)) (\<lambda>m. yield_value (marked_reason m))"

lemma code_reason [codes]: "code_pair write_reason read_reason"
proof (rule code_pairI)
  have "marked_reason (reason_mark x) = x" for x by (cases x) (simp_all add: marked_reason_def)
  then show "read_reason (write_reason x @ rest) = Some (x, rest)" for x rest
    by (simp add: write_reason_def read_reason_def then_read_code codes yield_value_def)
qed

definition class_number :: "event_sync_error_class \<Rightarrow> int" where
  "class_number k = (case k of EventSyncTransient \<Rightarrow> 0 | EventSyncRateLimited \<Rightarrow> 1 | EventSyncAuth \<Rightarrow> 2
     | EventSyncPermission \<Rightarrow> 3 | EventSyncUnsupported \<Rightarrow> 4 | EventSyncProtocol \<Rightarrow> 5)"

definition numbered_class :: "int \<Rightarrow> event_sync_error_class" where
  "numbered_class n = (if n = 0 then EventSyncTransient else if n = 1 then EventSyncRateLimited
     else if n = 2 then EventSyncAuth else if n = 3 then EventSyncPermission
     else if n = 4 then EventSyncUnsupported else EventSyncProtocol)"

definition write_class :: "event_sync_error_class \<Rightarrow> string" where
  "write_class k = write_int (class_number k)"

definition read_class :: "event_sync_error_class reader" where
  "read_class = then_read read_int (\<lambda>n. yield_value (numbered_class n))"

lemma code_class [codes]: "code_pair write_class read_class"
proof (rule code_pairI)
  have "numbered_class (class_number x) = x" for x by (cases x) (simp_all add: numbered_class_def class_number_def)
  then show "read_class (write_class x @ rest) = Some (x, rest)" for x rest
    by (simp add: write_class_def read_class_def then_read_code codes yield_value_def)
qed

definition write_removal :: "event_sync_removal \<Rightarrow> string" where
  "write_removal x =
     write_text (rm_object_id x) @ write_reason (rm_reason x) @ write_text (rm_series_id x) @
     write_option write_time (rm_original_start x) @ write_bool (rm_recurrence_present x)"

definition read_removal :: "event_sync_removal reader" where
  "read_removal =
     then_read read_text (\<lambda>x0. then_read read_reason (\<lambda>x1. then_read read_text (\<lambda>x2.
     then_read (read_option read_time) (\<lambda>x3. then_read read_bool (\<lambda>x4.
     yield_value \<lparr>rm_object_id = x0, rm_reason = x1, rm_series_id = x2, rm_original_start = x3,
       rm_recurrence_present = x4\<rparr>)))))"

lemma code_removal [codes]: "code_pair write_removal read_removal"
  by (rule code_pairI) (simp add: write_removal_def read_removal_def then_read_code codes yield_value_def)

definition write_diagnostic :: "event_sync_diagnostic \<Rightarrow> string" where
  "write_diagnostic x =
     write_int (di_provider_status x) @ write_text (di_content_type x) @ write_text (di_provider_reason x) @
     write_text (di_raw_payload x) @ write_bool (di_truncated x)"

definition read_diagnostic :: "event_sync_diagnostic reader" where
  "read_diagnostic =
     then_read read_int (\<lambda>x0. then_read read_text (\<lambda>x1. then_read read_text (\<lambda>x2.
     then_read read_text (\<lambda>x3. then_read read_bool (\<lambda>x4.
     yield_value \<lparr>di_provider_status = x0, di_content_type = x1, di_provider_reason = x2, di_raw_payload = x3,
       di_truncated = x4\<rparr>)))))"

lemma code_diagnostic [codes]: "code_pair write_diagnostic read_diagnostic"
  by (rule code_pairI) (simp add: write_diagnostic_def read_diagnostic_def then_read_code codes yield_value_def)

definition write_warning :: "event_sync_warning \<Rightarrow> string" where
  "write_warning x =
     write_class (wn_code x) @ write_text (wn_object_id x) @ write_text (wn_etag x) @
     write_option write_diagnostic (wn_diagnostic x)"

definition read_warning :: "event_sync_warning reader" where
  "read_warning =
     then_read read_class (\<lambda>x0. then_read read_text (\<lambda>x1. then_read read_text (\<lambda>x2.
     then_read (read_option read_diagnostic) (\<lambda>x3.
     yield_value \<lparr>wn_code = x0, wn_object_id = x1, wn_etag = x2, wn_diagnostic = x3\<rparr>))))"

lemma code_warning [codes]: "code_pair write_warning read_warning"
  by (rule code_pairI) (simp add: write_warning_def read_warning_def then_read_code codes yield_value_def)

definition write_page :: "event_sync_page \<Rightarrow> string" where
  "write_page x =
     write_text (sp_source_time_zone x) @ write_list write_upsert (sp_upserts x) @
     write_list write_text (sp_deleted_event_ids x) @ write_list write_removal (sp_removals x) @
     write_list write_text (sp_deleted_object_ids x) @ write_list write_text (sp_replaced_object_ids x) @
     write_list write_object (sp_inventory x) @ write_text (sp_next_page_token x) @
     write_text (sp_next_cursor x) @ write_bool (sp_reset_required x) @ write_bool (sp_complete x) @
     write_list write_warning (sp_warnings x)"

definition read_page :: "event_sync_page reader" where
  "read_page =
     then_read read_text (\<lambda>x0. then_read (read_list read_upsert) (\<lambda>x1.
     then_read (read_list read_text) (\<lambda>x2. then_read (read_list read_removal) (\<lambda>x3.
     then_read (read_list read_text) (\<lambda>x4. then_read (read_list read_text) (\<lambda>x5.
     then_read (read_list read_object) (\<lambda>x6. then_read read_text (\<lambda>x7.
     then_read read_text (\<lambda>x8. then_read read_bool (\<lambda>x9. then_read read_bool (\<lambda>x10.
     then_read (read_list read_warning) (\<lambda>x11.
     yield_value \<lparr>sp_source_time_zone = x0, sp_upserts = x1, sp_deleted_event_ids = x2, sp_removals = x3,
       sp_deleted_object_ids = x4, sp_replaced_object_ids = x5, sp_inventory = x6, sp_next_page_token = x7,
       sp_next_cursor = x8, sp_reset_required = x9, sp_complete = x10, sp_warnings = x11\<rparr>))))))))))))"

lemma code_page [codes]: "code_pair write_page read_page"
  by (rule code_pairI) (simp add: write_page_def read_page_def then_read_code codes yield_value_def)

definition write_evidence :: "attendee_evidence \<Rightarrow> string" where
  "write_evidence x =
     write_text (ae_event_id x) @ write_option write_bool (ae_complete x)"

definition read_evidence :: "attendee_evidence reader" where
  "read_evidence =
     then_read read_text (\<lambda>x0. then_read (read_option read_bool) (\<lambda>x1.
     yield_value \<lparr>ae_event_id = x0, ae_complete = x1\<rparr>))"

lemma code_evidence [codes]: "code_pair write_evidence read_evidence"
  by (rule code_pairI) (simp add: write_evidence_def read_evidence_def then_read_code codes yield_value_def)

definition write_page_payload :: "page_payload \<Rightarrow> string" where
  "write_page_payload x =
     write_int (pp_version x) @ write_option write_page (pp_page x) @
     write_option (write_list write_evidence) (pp_evidence x)"

definition read_page_payload :: "page_payload reader" where
  "read_page_payload =
     then_read read_int (\<lambda>x0. then_read (read_option read_page) (\<lambda>x1.
     then_read (read_option (read_list read_evidence)) (\<lambda>x2.
     yield_value \<lparr>pp_version = x0, pp_page = x1, pp_evidence = x2\<rparr>)))"

lemma code_page_payload [codes]: "code_pair write_page_payload read_page_payload"
  by (rule code_pairI) (simp add: write_page_payload_def read_page_payload_def then_read_code codes yield_value_def)

definition write_snapshot :: "snapshot_payload \<Rightarrow> string" where
  "write_snapshot x =
     write_int (sy_version x) @ write_option (write_list write_event) (sy_events x) @
     write_option (write_list write_evidence) (sy_evidence x)"

definition read_snapshot :: "snapshot_payload reader" where
  "read_snapshot =
     then_read read_int (\<lambda>x0. then_read (read_option (read_list read_event)) (\<lambda>x1.
     then_read (read_option (read_list read_evidence)) (\<lambda>x2.
     yield_value \<lparr>sy_version = x0, sy_events = x1, sy_evidence = x2\<rparr>)))"

lemma code_snapshot [codes]: "code_pair write_snapshot read_snapshot"
  by (rule code_pairI) (simp add: write_snapshot_def read_snapshot_def then_read_code codes yield_value_def)

definition write_observation :: "removal_observation \<Rightarrow> string" where
  "write_observation x =
     write_removal (ro_removal x) @ write_text (ro_previous_identity x) @ write_bool (ro_unresolved x)"

definition read_observation :: "removal_observation reader" where
  "read_observation =
     then_read read_removal (\<lambda>x0. then_read read_text (\<lambda>x1. then_read read_bool (\<lambda>x2.
     yield_value \<lparr>ro_removal = x0, ro_previous_identity = x1, ro_unresolved = x2\<rparr>)))"

lemma code_observation [codes]: "code_pair write_observation read_observation"
  by (rule code_pairI) (simp add: write_observation_def read_observation_def then_read_code codes yield_value_def)

section \<open>The codec\<close>

text \<open>Items between brackets, with commas.\<close>

primrec read_array :: "'a reader \<Rightarrow> nat \<Rightarrow> 'a list reader" where
  "read_array r 0 s = None"
| "read_array r (Suc n) s = then_read r (\<lambda>x t. case t of [] \<Rightarrow> None
     | c # t' \<Rightarrow> if c = CHR '','' then then_read (read_array r n) (\<lambda>xs. yield_value (x # xs)) t' else Some ([x], t')) s"

definition payload_text :: "char \<Rightarrow> bool \<Rightarrow> string \<Rightarrow> string" where
  "payload_text mark names t = (if names then mark else CHR ''!'') # mark # t"

definition payload_read :: "char \<Rightarrow> 'a reader \<Rightarrow> string \<Rightarrow> 'a option" where
  "payload_read mark r s = (case s of _ # c # t \<Rightarrow> if c = mark then map_option fst (r t) else None | _ \<Rightarrow> None)"

definition sample_parse :: "string \<Rightarrow> json option" where
  "sample_parse s = (case s of [] \<Rightarrow> None
     | c # t \<Rightarrow> Some (if c = CHR ''!'' then JObject [('''', JNull), ('''', JNull)] else JNull))"

definition sample_observations :: "string \<Rightarrow> removal_observation list option" where
  "sample_observations s = (if s = ''null'' then Some [] else case s of [] \<Rightarrow> None
     | c # t \<Rightarrow> map_option (map json_observation \<circ> fst) (read_array read_observation (length t) t))"

definition sample_codec :: "unicode_case \<Rightarrow> projection_codec" where
  "sample_codec U =
     \<lparr>pc_valid = \<lambda>s. True, pc_parse = sample_parse, pc_compact = Some,
      pc_page_text = \<lambda>x. Inr (payload_text (CHR ''p'') (list_all (event_names U) (page_events x)) (write_page_payload x)),
      pc_read_page = \<lambda>s. map_option page_image (payload_read (CHR ''p'') read_page_payload s),
      pc_snapshot_text = \<lambda>x. Inr (payload_text (CHR ''s'') (list_all (event_names U) (slice_list (sy_events x))) (write_snapshot x)),
      pc_read_snapshot = \<lambda>s. map_option snapshot_image (payload_read (CHR ''s'') read_snapshot s),
      pc_observation_text = \<lambda>o'. Inr (write_observation o'),
      pc_read_observations = sample_observations, pc_unmarshal_observations = sample_observations\<rparr>"

lemma payload_read_text: "code_pair w r \<Longrightarrow> payload_read mark r (payload_text mark names (w x)) = Some x"
  using then_read_code [of w r yield_value x "[]"]
  by (auto simp: payload_read_def payload_text_def then_read_def yield_value_def split: option.splits)

lemma payload_written:
  "mark \<noteq> CHR ''!'' \<Longrightarrow> json_written U (sample_codec U) (payload_text mark names t) names"
  by (simp add: json_written_def sample_codec_def sample_parse_def payload_text_def)

lemma read_array_written:
  assumes "code_pair w r" and "xs \<noteq> []" and "length xs \<le> n"
  shows "read_array r n (join_with '','' (map w xs) @ '']'') = Some (xs, '''')"
  using assms(2,3)
proof (induction xs arbitrary: n)
  case Nil
  then show ?case by simp
next
  case (Cons x xs)
  then obtain m where m: "n = Suc m" "length xs \<le> m" by (cases n) auto
  show ?case
  proof (cases xs)
    case Nil
    then show ?thesis by (simp add: m(1) then_read_code [OF assms(1)])
  next
    case (Cons y ys)
    with Cons.IH [OF _ m(2)] show ?thesis
      by (simp add: m(1) then_read_code [OF assms(1)]) (simp add: then_read_def yield_value_def)
  qed
qed

lemma observations_read:
  assumes "observations_text (sample_codec U) os = Inr s"
  shows "json_written U (sample_codec U) s True \<and> sample_observations s = Some (map json_observation os)"
proof -
  have texts: "fold_res (\<lambda>o' acc. bind_res (pc_observation_text (sample_codec U) o') (\<lambda>t. Inr (acc @ [t]))) os acc =
      Inr (acc @ map write_observation os)" for acc
    by (induction os arbitrary: acc) (simp_all add: sample_codec_def)
  show ?thesis
  proof (cases "os = []")
    case True
    with assms have "s = ''null''" by (simp add: observations_text_def)
    with True show ?thesis by (simp add: json_written_def sample_codec_def sample_parse_def sample_observations_def)
  next
    case False
    let ?t = "join_with '','' (map write_observation os) @ '']''"
    have s: "s = CHR ''['' # ?t"
      using assms texts [of "[]"] False by (simp add: observations_text_def json_array_def)
    have "length xs \<le> Suc (length (join_with '','' xs))" for xs :: "string list"
      by (induction xs rule: induct_list012) auto
    from this [of "map write_observation os"] have "length os \<le> length ?t" by simp
    from read_array_written [OF code_observation False this]
    show ?thesis by (simp add: s json_written_def sample_codec_def sample_parse_def sample_observations_def)
  qed
qed

lemma utf8_image [simp]: "utf8_ids (json_event e)"
  by (simp add: utf8_ids_def)

lemma page_events_image: "list_all utf8_ids (page_events (page_image x))"
  by (cases "pp_page x") (auto simp: page_events_def page_image_def json_page_def json_upsert_def list_all_iff)

lemma snapshot_events_image: "list_all utf8_ids (slice_list (sy_events (snapshot_image x)))"
  by (cases "sy_events x") (auto simp: snapshot_image_def slice_list_def list_all_iff)

lemma sample_codec_law: "encoding_json U (sample_codec U)"
  unfolding encoding_json_def
proof (intro conjI allI impI)
  fix x s
  assume s: "pc_page_text (sample_codec U) x = Inr s"
  then show "json_written U (sample_codec U) s (list_all (event_names U) (page_events x))"
    using payload_written [of "CHR ''p''"] by (auto simp: sample_codec_def)
  from s show "pc_read_page (sample_codec U) s = Some (page_image x)"
    by (auto simp: sample_codec_def payload_read_text [OF code_page_payload])
next
  fix x s
  assume s: "pc_snapshot_text (sample_codec U) x = Inr s"
  then show "json_written U (sample_codec U) s (list_all (event_names U) (slice_list (sy_events x)))"
    using payload_written [of "CHR ''s''"] by (auto simp: sample_codec_def)
  from s show "pc_read_snapshot (sample_codec U) s = Some (snapshot_image x)"
    by (auto simp: sample_codec_def payload_read_text [OF code_snapshot])
next
  fix os s
  assume s: "observations_text (sample_codec U) os = Inr s"
  show "json_written U (sample_codec U) s True" using observations_read [OF s] by simp
  show "pc_read_observations (sample_codec U) s = Some (map json_observation os)"
    and "pc_unmarshal_observations (sample_codec U) s = Some (map json_observation os)"
    using observations_read [OF s] by (simp_all add: sample_codec_def)
next
  fix s x
  assume "pc_read_page (sample_codec U) s = Some x"
  then show "list_all utf8_ids (page_events x)"
    by (auto simp: sample_codec_def page_events_image)
next
  fix s x
  assume "pc_read_snapshot (sample_codec U) s = Some x"
  then show "list_all utf8_ids (slice_list (sy_events x))"
    by (auto simp: sample_codec_def snapshot_events_image)
qed

end
