(* ===== verification/Projection_Served.thy ===== *)
theory Projection_Served
  imports Sample_Codec
begin

text \<open>
  A projection that was published is served: what \<open>GetSourceProjectionForCopy\<close>
  (\<open>projection_read_operations.go\<close>) returns after the last page of a source was accepted, tied to
  the pages that are staged, the revision they build on and the observations it kept.  The last
  section runs a publication, and a revision that a mutation retires.
\<close>

section \<open>What a publication is made of\<close>

text \<open>The staged pages of a claim, in order, once \<open>g\<close> is staged.\<close>

definition staged_rows :: "sync_claim \<Rightarrow> page_row \<Rightarrow> sync_db \<Rightarrow> page_row list" where
  "staged_rows c g db = sort_key pg_ordinal
     (filter (page_at (sc_calendar_id c) (sc_generation c)) (pt_pages (db_projection db) @ [g]))"

text \<open>The events an attempt starts from: those of its base revision when it is incremental.\<close>

definition starts_from ::
  "unicode_case \<Rightarrow> projection_codec \<Rightarrow> page_attempt_row \<Rightarrow> sync_db \<Rightarrow> event_v2 list \<Rightarrow> bool" where
  "starts_from U K a db base \<longleftrightarrow>
     (if read_mode (ap_mode a) = EventSyncIncremental then
        (case snapshot_at (ap_calendar_id a) (ap_base_revision a) db of
           None \<Rightarrow> False
         | Some p \<Rightarrow> decode_projection_snapshot_payload U K (sn_payload p) (ap_calendar_id a) = Inr base)
      else base = [])"

text \<open>The observations of the base revision, which the new one keeps before its own.\<close>

definition carries :: "projection_codec \<Rightarrow> page_attempt_row \<Rightarrow> sync_db \<Rightarrow> removal_observation list \<Rightarrow> bool" where
  "carries K a db retained \<longleftrightarrow>
     (if 0 < ap_base_revision a then
        (case snapshot_at (ap_calendar_id a) (ap_base_revision a) db of
           None \<Rightarrow> False
         | Some p \<Rightarrow> Option.bind (sn_observations p) (pc_unmarshal_observations K) = Some retained)
      else retained = [])"

section \<open>Removals that can be served\<close>

lemma observations_text_nonempty: "observations_text K os = Inr s \<Longrightarrow> s \<noteq> ''''"
  by (auto simp: observations_text_def json_array_def split: if_splits)

lemma identity_nonempty: "identity db src e = Inr i \<Longrightarrow> i \<noteq> ''''"
  by (auto simp: identity_def mapping_key_def Let_def bind_res_Inr_iff split: if_splits option.splits)

definition removal_valid :: "event_sync_removal \<Rightarrow> bool" where
  "removal_valid r \<longleftrightarrow> rm_object_id r \<noteq> '''' \<and>
     (rm_reason r = EventSyncProviderCancellation \<or> rm_reason r = EventSyncWindowEviction)"

lemma removals_valid:
  "fold_res removal_step rs acc = Inr removals \<Longrightarrow> (\<forall>k r. map_of acc k = Some r \<longrightarrow> removal_valid r) \<Longrightarrow>
   \<forall>k r. map_of removals k = Some r \<longrightarrow> removal_valid r"
proof (induction rs arbitrary: acc)
  case Nil
  then show ?case by simp
next
  case (Cons x rs)
  from Cons.prems(1) obtain m where m: "removal_step x acc = Inr m" "fold_res removal_step rs m = Inr removals"
    unfolding fold_res_Cons_iff by blast
  have "\<forall>k r. map_of m k = Some r \<longrightarrow> removal_valid r"
  proof -
    have "m = AList.update (rm_object_id x) x acc" "removal_valid x"
      using m(1) by (auto simp: removal_step_def removal_valid_def split: if_splits)
    then show ?thesis using Cons.prems(2) by (simp add: update_conv')
  qed
  with Cons.IH m(2) show ?case by blast
qed

lemma deletions_valid:
  assumes "fold_res (deletion_step db source removals) ids st = Inr st'"
    and "\<forall>k r. map_of removals k = Some r \<longrightarrow> removal_valid r" and "list_all observation_valid (ms_observations st)"
  shows "list_all observation_valid (ms_observations st')"
  using assms(1,3)
proof (induction ids arbitrary: st)
  case Nil
  then show ?case by simp
next
  case (Cons i ids)
  from Cons.prems(1) obtain u where u: "deletion_step db source removals i st = Inr u"
    "fold_res (deletion_step db source removals) ids u = Inr st'"
    unfolding fold_res_Cons_iff by blast
  obtain obs where o': "ms_observations u = ms_observations st @ [obs]" and r: "map_of removals i = Some (ro_removal obs)"
    and w: "ro_unresolved obs \<or> (\<exists>previous. identity db source previous = Inr (ro_previous_identity obs))"
    using deletion_step_effect(5) [OF u(1)] by blast
  have "observation_valid obs"
    using assms(2) r w identity_nonempty by (auto simp: observation_valid_def removal_valid_def)
  with Cons.IH [OF u(2)] Cons.prems(2) o' show ?case by simp
qed

lemma pages_valid:
  assumes "pages_loop db source timezone pages st = Inr st'" and "list_all observation_valid (ms_observations st)"
  shows "list_all observation_valid (ms_observations st')"
  using assms
proof (induction pages arbitrary: st)
  case Nil
  then show ?case by simp
next
  case (Cons page pages)
  obtain u where u: "page_step db source timezone (pages = []) page st = Inr u"
    and rest: "pages_loop db source timezone pages u = Inr st'"
    using Cons.prems by auto
  obtain removals v where r: "fold_res removal_step (sp_removals page) [] = Inr removals"
    and v: "fold_res (deletion_step db source removals) (sp_deleted_event_ids page) st = Inr v"
    and w: "fold_res (upsert_step db source) (sp_upserts page) v = Inr u"
    using u by (auto simp: page_step_def bind_res_Inr_iff split: if_splits)
  have "list_all observation_valid (ms_observations v)"
    by (rule deletions_valid [OF v removals_valid [OF r] Cons.prems(2)]) simp
  with Cons.IH [OF rest] upserts_keep_observations [OF w] show ?case by simp
qed

lemma materialize_removals_valid:
  assumes "materialize db source timezone ws we mode base av pages = Inr (events, obs)"
  shows "list_all observation_valid obs \<and> valid_timezone db timezone"
proof -
  obtain byID st zone where "load_location db timezone = Some zone"
    "pages_loop db source timezone pages \<lparr>ms_by_id = byID, ms_seen = [], ms_observations = []\<rparr> = Inr st"
    "obs = ms_observations st"
    using materialize_run [OF assms] by metis
  moreover have "timezone \<noteq> ''''" "timezone \<noteq> ''Local''"
    using assms by (auto simp: materialize_def split: if_splits)
  ultimately show ?thesis using pages_valid [of db source timezone pages _ st] by (auto simp: valid_timezone_def)
qed

text \<open>What the published revisions keep of observations can be read by copy rules.\<close>

definition observations_ok :: "projection_codec \<Rightarrow> sync_db \<Rightarrow> bool" where
  "observations_ok K db \<longleftrightarrow> (\<forall>p \<in> snapshots db. \<forall>raw os. sn_observations p = Some raw \<longrightarrow>
     pc_unmarshal_observations K raw = Some os \<longrightarrow> list_all observation_valid os)"

lemma carried_valid:
  assumes "carried_removals K fz db = Inr removals" "observations_ok K db" "list_all observation_valid (fz_removals fz)"
  shows "list_all observation_valid removals \<and> (\<exists>retained. removals = retained @ fz_removals fz)"
proof (cases "0 < pi_base_revision (fz_input fz)")
  case True
  then obtain p raw retained where "snapshot_at (pi_calendar_id (fz_input fz)) (pi_base_revision (fz_input fz)) db = Some p"
    "sn_observations p = Some raw" "pc_unmarshal_observations K raw = Some retained" "removals = retained @ fz_removals fz"
    using assms(1) by (auto simp: carried_removals_def Let_def split: option.splits if_splits)
  moreover from this(1) have "p \<in> snapshots db" by (auto simp: snapshot_at_def snapshots_def find_Some_iff)
  ultimately show ?thesis using assms(2,3) unfolding observations_ok_def by auto
next
  case False
  then show ?thesis using assms by (simp add: carried_removals_def Let_def)
qed

lemma json_observation_valid: "observation_valid o' \<Longrightarrow> observation_valid (json_observation o')"
  by (auto simp: observation_valid_def json_observation_def json_removal_def)

lemma carried_from:
  assumes rem: "carried_removals K fz db = Inr removals" and pin: "fz_input fz = attempt_input_of a"
    and seen: "observations_ok K db" and own: "list_all observation_valid (fz_removals fz)"
  obtains retained where "carries K a db retained" "removals = retained @ fz_removals fz"
    "list_all observation_valid removals"
proof (cases "0 < ap_base_revision a")
  case True
  then obtain p raw retained where p: "snapshot_at (ap_calendar_id a) (ap_base_revision a) db = Some p"
    "sn_observations p = Some raw" "pc_unmarshal_observations K raw = Some retained" "removals = retained @ fz_removals fz"
    using rem by (auto simp: carried_removals_def Let_def pin attempt_input_of_def split: option.splits if_splits)
  moreover from this(1) have "p \<in> snapshots db" by (auto simp: snapshot_at_def snapshots_def find_Some_iff)
  ultimately have "list_all observation_valid removals" using seen own unfolding observations_ok_def by auto
  moreover have "carries K a db retained" using True p by (simp add: carries_def)
  ultimately show ?thesis using p(4) that by blast
next
  case False
  then show ?thesis
    using rem own by (intro that [of "[]"]) (simp_all add: carried_removals_def carries_def Let_def pin attempt_input_of_def)
qed

section \<open>Events that can be served\<close>

text \<open>Every event of a materialized source is one of the base or of a page.\<close>

lemma materialize_from:
  assumes "materialize db source timezone ws we mode base av pages = Inr (events, obs)"
  shows "set events \<subseteq> set base \<union> (\<Union>p \<in> set pages. up_event ` set (sp_upserts p))"
proof
  fix e assume e: "e \<in> set events"
  obtain byID st where b: "fold_res (base_step source) base [] = Inr byID"
    and p: "pages_loop db source timezone pages \<lparr>ms_by_id = byID, ms_seen = [], ms_observations = []\<rparr> = Inr st"
    and events: "events = events_by_id (ms_by_id st)"
    using materialize_run [OF assms] by metis
  have "id_map byID" using base_effect [OF b] by (simp add: id_map_def)
  then have "id_map (ms_by_id st)" using pages_effect [OF p] by simp
  moreover from e obtain k where k: "map_of (ms_by_id st) k = Some e"
    by (auto simp: events events_by_id_def map_filter_def)
  ultimately have "map_of (changed_events pages) k = Some e \<or> map_of byID k = Some e"
    using pages_effect [OF p] by (auto split: option.splits if_splits)
  then show "e \<in> set base \<union> (\<Union>p \<in> set pages. up_event ` set (sp_upserts p))"
  proof
    assume "map_of (changed_events pages) k = Some e"
    then have "(k, e) \<in> set (changed_events pages)" by (rule map_of_SomeD)
    then show ?thesis by (fastforce simp: changed_events_def page_upserts_def keyed_def)
  next
    assume "map_of byID k = Some e"
    then show ?thesis using base_effect [OF b] by (auto dest!: map_of_SomeD simp: keyed_def)
  qed
qed

text \<open>The pages of a chain are the payloads of its rows, read; only the last one is complete.\<close>

lemma chain_page_read:
  assumes "chain_page U K source tz finalCursor final seen g = Inr page"
  shows "decode_projection_page_payload U K (pg_payload g) source = Inr page" "sp_complete page \<longleftrightarrow> final"
proof -
  obtain read where read: "decode_projection_page_payload U K (pg_payload g) source = Inr read"
    and page: "page = bare_page (marked_page finalCursor read)" and final: "sp_complete read = final"
    using assms by (auto simp: chain_page_def Let_def bind_res_Inr_iff split: if_splits)
  have "sp_next_page_token read = ''''" "sp_next_cursor read = ''''"
    using read by (auto simp: decode_projection_page_payload_def place_events_def bind_res_Inr_iff split: option.splits if_splits)
  then have "read\<lparr>sp_next_page_token := '''', sp_next_cursor := ''''\<rparr> = read" by simp
  then have "page = read" by (simp add: page bare_page_def marked_page_def)
  then show "decode_projection_page_payload U K (pg_payload g) source = Inr page" "sp_complete page \<longleftrightarrow> final"
    using read final by simp_all
qed

lemma page_chain_read:
  "page_chain U K source tz finalCursor gs i expected seen bytes acc = Inr (e, n, pages) \<Longrightarrow>
   \<exists>new. pages = acc @ new \<and>
     map (\<lambda>g. decode_projection_page_payload U K (pg_payload g) source) gs = map Inr new \<and>
     (\<forall>k < length new. sp_complete (new ! k) \<longleftrightarrow> Suc k = length new)"
proof (induction gs arbitrary: i expected seen bytes acc)
  case Nil
  then show ?case by simp
next
  case (Cons g gs)
  then obtain page i' expected' seen' bytes' where page: "chain_page U K source tz finalCursor (gs = []) seen g = Inr page"
    and rest: "page_chain U K source tz finalCursor gs i' expected' seen' bytes' (acc @ [page]) = Inr (e, n, pages)"
    by (auto simp: bind_res_Inr_iff split: if_splits)
  obtain new where new: "pages = (acc @ [page]) @ new"
      "map (\<lambda>g. decode_projection_page_payload U K (pg_payload g) source) gs = map Inr new"
      "\<forall>k < length new. sp_complete (new ! k) \<longleftrightarrow> Suc k = length new"
    using Cons.IH [OF rest] by blast
  have "length gs = length new" using new(2) map_eq_imp_length_eq by blast
  then have "gs = [] \<longleftrightarrow> new = []" by auto
  with new chain_page_read [OF page] show ?case
    by (intro exI [of _ "page # new"]) (auto simp: nth_Cons split: nat.splits)
qed

lemma chain_read:
  assumes "validate_projection_page_chain U K source tz cursor lastHash n gs = Inr pages"
  shows "map (\<lambda>g. decode_projection_page_payload U K (pg_payload g) source) gs = map Inr pages" "cursor \<noteq> ''''"
    "\<And>p. p \<in> set pages \<Longrightarrow> sp_complete p \<Longrightarrow> last pages = p"
proof -
  obtain e m where "page_chain U K source tz cursor gs 0 (projection_page_hash '''') [projection_page_hash ''''] 0 [] = Inr (e, m, pages)"
    using assms by (auto simp: validate_projection_page_chain_def Let_def bind_res_Inr_iff split: if_splits prod.splits)
  from page_chain_read [OF this]
  have read: "map (\<lambda>g. decode_projection_page_payload U K (pg_payload g) source) gs = map Inr pages"
    and ends: "\<forall>k < length pages. sp_complete (pages ! k) \<longleftrightarrow> Suc k = length pages" by auto
  show "map (\<lambda>g. decode_projection_page_payload U K (pg_payload g) source) gs = map Inr pages" by (rule read)
  show "cursor \<noteq> ''''" using assms by (auto simp: validate_projection_page_chain_def split: if_splits)
  show "last pages = p" if p: "p \<in> set pages" "sp_complete p" for p
  proof -
    obtain k where k: "k < length pages" "pages ! k = p" using p(1) by (auto simp: in_set_conv_nth)
    with ends p(2) have "Suc k = length pages" by blast
    with k show ?thesis by (cases pages rule: rev_cases) auto
  qed
qed

text \<open>What the row of a page was made of.\<close>

lemma page_row_Inr:
  assumes "page_row_of K c ordinal previousToken page = Inr g"
  shows "encode_projection_page_payload K (bare_page page) (sc_calendar_id c) = Inr (pg_payload g)"
    "length (pg_payload g) \<le> projectionPageSizeLimit" "page_at (sc_calendar_id c) (sc_generation c) g"
  using assms by (auto simp: page_row_of_def Let_def bind_res_Inr_iff page_at_def split: if_splits)

text \<open>A snapshot is read back exactly when no two names of a map in it are one.\<close>

lemma snapshot_served:
  assumes law: "encoding_json U K" and enc: "encode_projection_snapshot_payload K events source = Inr s"
    and size: "length s \<le> maxProjectionSnapshotBytes" and utf8: "list_all utf8_ids events"
  shows "decode_projection_snapshot_payload U K s source =
    (if list_all (event_names U) events then Inr (map kept_event events) else Inl page_stage_error)"
proof -
  obtain ev where ev: "projection_evidence events source = Inr ev"
    and s: "pc_snapshot_text K \<lparr>sy_version = 1, sy_events = Some events, sy_evidence = Some ev\<rparr> = Inr s"
    using enc by (auto simp: encode_projection_snapshot_payload_def)
  have ids: "map (\<lambda>e. json_text (ev_id e)) events = map ev_id events"
    using utf8 by (simp add: utf8_ids_def list_all_iff)
  have "events = [] \<or> json_text source = source"
    using ev utf8 by (cases events) (auto simp: projection_evidence_Inr utf8_ids_def)
  then have apart: "images_apart events source"
    using ev unfolding images_apart_def ids projection_evidence_Inr by blast
  show ?thesis
  proof (cases "list_all (event_names U) events")
    case True
    with snapshot_payload_read [OF law enc size _ apart] show ?thesis by simp
  next
    case False
    have "json_written U K s (list_all (event_names U) (slice_list (Some events)))"
      using law s unfolding encoding_json_def by fastforce
    then have "json_written U K s False" using False by (simp add: slice_list_def)
    then have "decode_projection_payload U K s maxProjectionSnapshotBytes (pc_read_snapshot K) = Inl page_stage_error"
      using size by (auto simp: decode_projection_payload_def json_written_def)
    then show ?thesis using False by (simp add: decode_projection_snapshot_payload_def)
  qed
qed

section \<open>Publications are served\<close>

lemma find_appended: "find P xs = Some a \<Longrightarrow> find P (xs @ ys) = Some a"
  by (induction xs) auto

lemma publication_read:
  assumes run: "finalize_source_projection_page U zdb K cipher c attemptID ordinal previousToken tz page now nextSync uuid t u db
      = Inr (revision, db')"
    and keys: "distinct (map ss_calendar_id (db_sync_states db))" and seen: "observations_ok K db"
    and law: "encoding_json U K" and clock: "mono u"
    and state: "find (\<lambda>s. ss_calendar_id s = sc_calendar_id c) (db_sync_states db) = Some s"
    and window: "ss_window_start s \<le> start" "start < stop" "stop \<le> ss_window_end s" "start \<noteq> zero_time"
    and fresh: "u 2 \<le> rd" "time_sub rd (u 2) \<le> maxAge" "rd \<noteq> zero_time" "0 < maxAge" and cal: "sc_calendar_id c \<noteq> ''''"
  shows "\<exists>a g base pages events retained removals.
    find (attempt_at (sc_calendar_id c) (sc_generation c) attemptID) (pt_attempts (db_projection db)) = Some a \<and>
    page_row_of K c ordinal previousToken page = Inr g \<and>
    map (\<lambda>r. decode_projection_page_payload U K (pg_payload r) (sc_calendar_id c)) (staged_rows c g db) = map Inr pages \<and>
    last pages = kept_page page \<and> starts_from U K a db base \<and> carries K a db retained \<and>
    materialize zdb (sc_calendar_id c) (ap_timezone a) (ss_window_start s) (ss_window_end s) (read_mode (ap_mode a)) base
      (read_mode (ap_mode a) = EventSyncIncremental) pages = Inr (events, removals) \<and>
    revision = ap_base_revision a + 1 \<and>
    (case get_source_projection_for_copy U zdb K (sc_calendar_id c) start stop rd maxAge db' of
       Inl e \<Rightarrow> \<not> list_all (event_names U) events
     | Inr v \<Rightarrow> list_all (event_names U) events \<and> sn_revision (sj_snapshot v) = revision \<and>
         sj_events v = map kept_event events \<and> sj_observations v = map json_observation (retained @ removals)) \<and>
    (\<exists>s'. find (\<lambda>s. ss_calendar_id s = sc_calendar_id c) (db_sync_states db') = Some s' \<and>
       ss_status s' = ''ready'' \<and> ss_cursor s' = sp_next_cursor page \<and> ss_lease_owner s' = None)"
  using run
proof (rule finalize_source_Inr)
  fix db2 db3 db4 ops rs
  let ?cal = "sc_calendar_id c"
  assume db2: "db2 = db\<lparr>db_operations := ops, db_reservations := rs\<rparr>"
    and app: "append_projection_page_tx K c attemptID ordinal previousToken tz page now (t 1) (t 2) db2 = Inr ((), db3)"
    and fin: "finalize_projection_tx U zdb K cipher c attemptID (t 3) nextSync u db3 = Inr (revision, db4)"
    and db': "db' = release_source_state_fence uuid db4" and complete: "sp_complete page"
  obtain g a where a: "find (attempt_at ?cal (sc_generation c) attemptID) (pt_attempts (db_projection db2)) = Some a"
    and g: "page_row_of K c ordinal previousToken page = Inr g"
    and valid_page: "validate_projection_google_page ?cal page = Inr ()"
    and db3: "db3 = db2\<lparr>db_projection := stage_page c attemptID g a (sp_complete page) (sp_next_cursor page) (db_projection db2)\<rparr>"
    using app by (rule append_page_Inr)
  have snaps3: "snapshots db3 = snapshots db" "db_sync_states db3 = db_sync_states db"
    "\<And>cal r. snapshot_at cal r db3 = snapshot_at cal r db"
    by (simp_all add: snapshots_def snapshot_at_def db3 db2)
  have rows: "sort_key pg_ordinal (filter (page_at ?cal (sc_generation c)) (pt_pages (db_projection db3))) = staged_rows c g db"
    by (simp add: staged_rows_def db3 db2 stage_page_def)
  have seen3: "observations_ok K db3" using seen by (simp add: observations_ok_def snaps3)
  obtain fz payload removals observations s' cl n where
    fz: "prepare_projection_finalization U zdb K c attemptID (t 3) (u 0) (u 1) db3 = Inr fz"
    and enc: "encode_projection_snapshot_payload K (fz_events fz) ?cal = Inr payload"
    and rem: "carried_removals K fz db3 = Inr removals" and obs: "observations_text K removals = Inr observations"
    and sizes: "length payload \<le> maxProjectionSnapshotBytes" "length observations \<le> maxProjectionObservationBytes"
    and revision: "revision = pi_base_revision (fz_input fz) + 1"
    and pc: "pi_calendar_id (fz_input fz) = ?cal"
    and snap: "snapshot_at ?cal revision db4 = Some (revision_row fz revision (u 2) payload observations)"
    and rev: "guard_revision ?cal db4 = revision"
    and guard: "map_of (db_guards db4) ?cal = Some (pi_guard_epoch (fz_input fz))" "pending_intents ?cal db4 = 0"
    and q: "\<not> active_quarantine ?cal (db_cache db4)"
    and src: "source_connection ?cal db4 = Some (cl, n)"
    and s': "find (\<lambda>s. ss_calendar_id s = ?cal) (db_sync_states db3) = Some s'"
    and frozen: "frozen_source (pi_base_cursor (fz_input fz)) (pi_timezone (fz_input fz)) (pi_window_start (fz_input fz))
       (pi_window_end (fz_input fz)) (s', cl, n)"
    and st: "find (\<lambda>s. ss_calendar_id s = ?cal) (db_sync_states db4) =
       Some (finished_row c (final_batch (pi_mode (fz_input fz) = EventSyncReplacement) (fz_cursor fz) nextSync) False
         (u (3 + length (fz_pages fz))) s')"
    using fin by (rule finalize_effect) (simp add: snaps3 keys)
  have ss: "s' = s" using s' state by (simp add: snaps3)
  obtain a' base where a': "find (attempt_at ?cal (sc_generation c) attemptID) (pt_attempts (db_projection db3)) = Some a'"
    and pin: "fz_input fz = attempt_input_of a'" and cur: "fz_cursor fz = ap_final_cursor a'"
    and cand: "candidate_base U K (fz_input fz) db3 = Inr base"
    and chain: "validate_projection_page_chain U K ?cal (pi_timezone (fz_input fz)) (ap_final_cursor a')
       (ap_next_token_hash a') (ap_total_bytes a')
       (sort_key pg_ordinal (filter (page_at ?cal (sc_generation c)) (pt_pages (db_projection db3)))) = Inr (fz_pages fz)"
    and mat: "materialize zdb ?cal (pi_timezone (fz_input fz)) (pi_window_start (fz_input fz))
       (pi_window_end (fz_input fz)) (pi_mode (fz_input fz)) base (pi_mode (fz_input fz) = EventSyncIncremental)
       (fz_pages fz) = Inr (fz_events fz, fz_removals fz)"
    using fz by (rule prepare_Inr)
  have staged: "a' = a\<lparr>ap_next_ordinal := pg_ordinal g + 1, ap_next_token_hash := pg_next_hash g,
      ap_total_bytes := ap_total_bytes a + int (length (pg_payload g)), ap_complete := sp_complete page,
      ap_final_cursor := sp_next_cursor page\<rparr>"
    using a' a find_Some_iff [of "attempt_at ?cal (sc_generation c) attemptID"]
    by (auto simp: db3 stage_page_def find_update_rows attempt_at_def)
  have cursor: "fz_cursor fz = sp_next_cursor page" using cur by (simp add: staged)
  have pin_a: "pi_timezone (fz_input fz) = ap_timezone a" "pi_mode (fz_input fz) = read_mode (ap_mode a)"
    "pi_base_revision (fz_input fz) = ap_base_revision a" "ap_calendar_id a = ?cal"
    using pc by (simp_all add: pin attempt_input_of_def staged)
  have base: "starts_from U K a db base"
    using cand by (auto simp: candidate_base_def starts_from_def snaps3 pin_a pc split: option.splits if_splits)
  note pages = chain_read(1) [OF chain, unfolded rows] and nonempty = chain_read(2) [OF chain, folded cur]
  have read_back: "\<exists>r \<in> set (staged_rows c g db). decode_projection_page_payload U K (pg_payload r) ?cal = Inr q"
    if "q \<in> set (fz_pages fz)" for q
  proof -
    have "Inr q \<in> set (map Inr (fz_pages fz) :: event_sync_page res list)" using that by simp
    then show ?thesis unfolding pages [symmetric] by auto
  qed
  have last: "last (fz_pages fz) = kept_page page"
  proof -
    have "g \<in> set (staged_rows c g db)" using page_row_Inr(3) [OF g] by (simp add: staged_rows_def)
    then have "decode_projection_page_payload U K (pg_payload g) ?cal \<in> set (map Inr (fz_pages fz))"
      unfolding pages [symmetric] by auto
    then obtain q where q: "q \<in> set (fz_pages fz)" "decode_projection_page_payload U K (pg_payload g) ?cal = Inr q" by auto
    with page_payload_read [OF law page_row_Inr(1,2) [OF g] valid_page] have "q = kept_page page" by (simp split: if_splits)
    moreover have "sp_complete (kept_page page)" using complete by (simp add: kept_page_def json_page_def bare_page_def)
    ultimately show ?thesis using chain_read(3) [OF chain] q(1) by blast
  qed
  note valid = materialize_removals_valid [OF mat]
  obtain retained where carried: "carries K a' db3 retained" and retained: "removals = retained @ fz_removals fz"
    and ok: "list_all observation_valid removals"
    using carried_from [OF rem pin seen3] valid by blast
  have "ap_calendar_id a' = ap_calendar_id a" "ap_base_revision a' = ap_base_revision a" by (simp_all add: staged)
  then have carries: "carries K a db retained" using carried by (simp only: carries_def snaps3)
  have utf8: "list_all utf8_ids (fz_events fz)"
  proof -
    have "list_all utf8_ids base"
      using base decoded_snapshot_utf8 [OF law] by (auto simp: starts_from_def split: if_splits option.splits)
    moreover have "list_all utf8_ids (map up_event (sp_upserts q))" if q: "q \<in> set (fz_pages fz)" for q
      using read_back [OF q] decoded_page_utf8 [OF law] by blast
    ultimately show ?thesis using materialize_from [OF mat] by (fastforce simp: list_all_iff)
  qed
  note decoded = snapshot_served [OF law enc sizes(1) utf8]
  have "json_written U K observations True" "pc_read_observations K observations = Some (map json_observation removals)"
    using law obs unfolding encoding_json_def by blast+
  then have read_obs: "decode_projection_payload U K observations maxProjectionObservationBytes (pc_read_observations K) =
      Inr (map json_observation removals)"
    using sizes(2) by (auto simp: decode_projection_payload_def json_written_def)
  have ok': "list_all observation_valid (map json_observation removals)"
    using ok json_observation_valid by (simp add: list_all_iff)
  define p where "p = revision_row fz revision (u 2) payload observations"
  have p: "sn_observations p = Some observations" "sn_payload p = payload" "sn_revision p = revision"
    "sn_timezone p = pi_timezone (fz_input fz)"
    by (simp_all add: p_def revision_row_def Let_def)
  define v where "v = \<lparr>sv_snapshot = p, sv_epoch = pi_guard_epoch (fz_input fz), sv_pending = False, sv_quarantined = False,
      sv_calendar = cl, sv_connection = n, sv_state = finished_row c
        (final_batch (pi_mode (fz_input fz) = EventSyncReplacement) (fz_cursor fz) nextSync) False (u (3 + length (fz_pages fz))) s\<rparr>"
  have cur': "current_source ?cal db' = Some v"
  proof -
    have "current_source ?cal db4 = Some v"
      using snap rev guard q src st by (simp add: current_source_def v_def p_def ss)
    moreover have "current_source ?cal db' = current_source ?cal db4"
      unfolding current_source_def snapshot_at_def guard_revision_def pending_intents_def source_connection_def
        db' release_fence_projection ..
    ultimately show ?thesis by simp
  qed
  have later: "u 2 \<le> u (3 + length (fz_pages fz))" using clock by (simp add: monoD)
  have good: "source_view_ok zdb v start stop rd maxAge" "cn_provider n = ''google''"
    using frozen valid window(1,3) fresh(1,2) nonempty later
    by (simp_all add: source_view_ok_def Let_def v_def p_def revision_row_def finished_row_def frozen_source_def ss)
  have "get_source_projection_for_copy U zdb K ?cal start stop rd maxAge db' =
      (if list_all (event_names U) (fz_events fz)
       then Inr \<lparr>sj_snapshot = snapshot_columns p, sj_events = map kept_event (fz_events fz),
              sj_observations = map json_observation removals\<rparr>
       else Inl snapshot_unavailable)"
    using cur' good window(2,4) fresh(3,4) cal observations_text_nonempty [OF obs] sizes(2) decoded read_obs ok'
    by (simp add: get_source_projection_for_copy_def v_def p)
  then have served: "case get_source_projection_for_copy U zdb K ?cal start stop rd maxAge db' of
       Inl e \<Rightarrow> \<not> list_all (event_names U) (fz_events fz)
     | Inr v \<Rightarrow> list_all (event_names U) (fz_events fz) \<and> sn_revision (sj_snapshot v) = revision \<and>
         sj_events v = map kept_event (fz_events fz) \<and> sj_observations v = map json_observation (retained @ fz_removals fz)"
    by (simp add: snapshot_columns_def p(3) retained)
  have bounds: "pi_window_start (fz_input fz) = ss_window_start s" "pi_window_end (fz_input fz) = ss_window_end s"
    using frozen by (simp_all add: frozen_source_def ss)
  obtain s2 where s2: "find (\<lambda>s. ss_calendar_id s = ?cal) (db_sync_states db') = Some s2"
      "ss_status s2 = ''ready''" "ss_cursor s2 = sp_next_cursor page" "ss_lease_owner s2 = None"
    using st by (simp add: db' ss cursor finished_row_def)
  have a_db: "find (attempt_at ?cal (sc_generation c) attemptID) (pt_attempts (db_projection db)) = Some a"
    using a by (simp add: db2)
  have mat': "materialize zdb ?cal (ap_timezone a) (ss_window_start s) (ss_window_end s) (read_mode (ap_mode a)) base
      (read_mode (ap_mode a) = EventSyncIncremental) (fz_pages fz) = Inr (fz_events fz, fz_removals fz)"
    using mat by (simp only: pin_a bounds)
  have rev_a: "revision = ap_base_revision a + 1" using revision by (simp add: pin_a)
  show ?thesis
    by (intro exI conjI) (rule a_db g pages last base carries mat' rev_a served s2)+
qed

text \<open>
  C16. A publication is served: when the last page of a source was accepted, the new revision is
  the one after the base of the attempt, and a copy rule that reads the source inside its window,
  before the projection is too old, is given what the events and removals come to that materialize
  the decoded staged pages, in their order and the accepted page last, on the events of the base
  revision (none for a replacement): the events as \<open>encoding/json\<close> keeps them, with their attendee
  evidence, and the observations of the base revision before the new ones.  It is refused exactly
  when two names of a map in an event are one up to case.  The source is ready, with the cursor of
  the page and without a lease.
\<close>

theorem publication_is_served:
  assumes run: "finalize_source_projection_page U zdb K cipher c attemptID ordinal previousToken tz page now nextSync uuid t u db
      = Inr (revision, db')"
    and keys: "distinct (map ss_calendar_id (db_sync_states db))" and seen: "observations_ok K db"
    and law: "encoding_json U K" and clock: "mono u"
    and state: "find (\<lambda>s. ss_calendar_id s = sc_calendar_id c) (db_sync_states db) = Some s"
    and window: "ss_window_start s \<le> start" "start < stop" "stop \<le> ss_window_end s" "start \<noteq> zero_time"
    and fresh: "u 2 \<le> rd" "time_sub rd (u 2) \<le> maxAge" "rd \<noteq> zero_time" "0 < maxAge" and cal: "sc_calendar_id c \<noteq> ''''"
  shows "\<exists>a g base pages events retained removals.
    find (attempt_at (sc_calendar_id c) (sc_generation c) attemptID) (pt_attempts (db_projection db)) = Some a \<and>
    page_row_of K c ordinal previousToken page = Inr g \<and>
    map (\<lambda>r. decode_projection_page_payload U K (pg_payload r) (sc_calendar_id c)) (staged_rows c g db) = map Inr pages \<and>
    last pages = kept_page page \<and> starts_from U K a db base \<and> carries K a db retained \<and>
    materialize zdb (sc_calendar_id c) (ap_timezone a) (ss_window_start s) (ss_window_end s) (read_mode (ap_mode a)) base
      (read_mode (ap_mode a) = EventSyncIncremental) pages = Inr (events, removals) \<and>
    revision = ap_base_revision a + 1 \<and>
    (case get_source_projection_for_copy U zdb K (sc_calendar_id c) start stop rd maxAge db' of
       Inl e \<Rightarrow> \<not> list_all (event_names U) events
     | Inr v \<Rightarrow> list_all (event_names U) events \<and> sn_revision (sj_snapshot v) = revision \<and>
         sj_events v = map kept_event events \<and> sj_observations v = map json_observation (retained @ removals)) \<and>
    (\<exists>s'. find (\<lambda>s. ss_calendar_id s = sc_calendar_id c) (db_sync_states db') = Some s' \<and>
       ss_status s' = ''ready'' \<and> ss_cursor s' = sp_next_cursor page \<and> ss_lease_owner s' = None)"
  by (rule publication_read [OF assms])

section \<open>Concrete runs\<close>

text \<open>
  A calendar \<open>c\<close> under the lease of \<open>w\<close>, with an attempt that has no page yet.
\<close>

definition pub_page :: event_sync_page where
  "pub_page = sample_page\<lparr>sp_deleted_event_ids := [], sp_removals := [], sp_next_cursor := ''n1''\<rparr>"

definition pub_case :: unicode_case where
  "pub_case = \<lparr>rune_upper = id, rune_lower = id\<rparr>"

definition pub_codec :: projection_codec where
  "pub_codec = sample_codec pub_case"

lemma pub_codec_law: "encoding_json pub_case pub_codec"
  unfolding pub_codec_def by (rule sample_codec_law)

definition pub_attempt :: page_attempt_row where
  "pub_attempt = \<lparr>ap_calendar_id = ''c'', ap_generation = 3, ap_attempt_id = ''attempt-00000001'', ap_lease_owner = ''w'',
     ap_mode = ''replacement'', ap_base_revision = 0, ap_base_cursor = '''', ap_guard_epoch = 2,
     ap_window_start = fst sample_window, ap_window_end = snd sample_window, ap_timezone = ''UTC'', ap_next_ordinal = 0,
     ap_next_token_hash = projection_page_hash '''', ap_total_bytes = 0, ap_complete = False, ap_final_cursor = ''''\<rparr>"

definition pub_state :: calendar_sync_state where
  "pub_state = \<lparr>ss_calendar_id = ''c'', ss_strategy = ''google'', ss_cursor = '''', ss_window_start = fst sample_window,
     ss_window_end = snd sample_window, ss_generation = 3, ss_status = ''syncing'', ss_next_sync_at = 0,
     ss_last_started_at = Some 5, ss_last_success_at = None, ss_last_error_code = None, ss_lease_owner = Some ''w'',
     ss_lease_until = Some 50, ss_updated_at = 5\<rparr>"

definition pub_claim :: sync_claim where
  "pub_claim = scan_calendar_sync_state pub_state"

definition pub_db :: sync_db where
  "pub_db = empty_db\<lparr>
     db_connections := [\<lparr>cn_id = ''k'', cn_provider = ''google'', cn_account_fingerprint = '''', cn_display_name = '''',
       cn_status = ''connected''\<rparr>],
     db_calendars := [\<lparr>cl_id = ''c'', cl_connection_id = ''k'', cl_provider_calendar_id = ''p'', cl_name = '''',
       cl_timezone = ''UTC'', cl_can_read = True, cl_can_write = True, cl_supports_recurrence = True,
       cl_google_primary = False, cl_enabled = True, cl_discovered_at = 0\<rparr>],
     db_sync_states := [pub_state], db_guards := [(''c'', 2)],
     db_projection := empty_projection\<lparr>pt_attempts := [pub_attempt]\<rparr>\<rparr>"

lemma pub_claim_simps [simp]:
  "sc_calendar_id pub_claim = ''c''" "sc_generation pub_claim = 3" "sc_lease_owner pub_claim = ''w''"
  "sc_cursor pub_claim = ''''"
  by (simp_all add: pub_claim_def scan_calendar_sync_state_def pub_state_def column_def)

lemma pub_page_valid:
  "validate_projection_google_page ''c'' pub_page = Inr ()"
  "projection_evidence (map up_event (sp_upserts (bare_page pub_page))) ''c'' = Inr [evidence_of (sample_event ''e'')]"
  "projection_evidence [sample_event ''e''] ''c'' = Inr [evidence_of (sample_event ''e'')]"
  by code_simp+

text \<open>The payloads that the run writes; how long they are is counted in \<open>int\<close>.\<close>

definition pub_page_text :: string where
  "pub_page_text = payload_text (CHR ''p'') True (write_page_payload
     \<lparr>pp_version = 1, pp_page = Some (bare_page pub_page), pp_evidence = Some [evidence_of (sample_event ''e'')]\<rparr>)"

definition pub_snapshot_text :: string where
  "pub_snapshot_text = payload_text (CHR ''s'') True (write_snapshot
     \<lparr>sy_version = 1, sy_events = Some [sample_event ''e''], sy_evidence = Some [evidence_of (sample_event ''e'')]\<rparr>)"

primrec count_from :: "int \<Rightarrow> 'a list \<Rightarrow> int" where
  "count_from n [] = n"
| "count_from n (x # xs) = count_from (n + 1) xs"

lemma count_from_length: "count_from n xs = n + int (length xs)"
  by (induction xs arbitrary: n) simp_all

lemma pub_page_short: "count_from 0 pub_page_text < 1000"
  by code_simp

lemma pub_snapshot_short: "count_from 0 pub_snapshot_text < 1000"
  by code_simp

lemma pub_page_length [simp]: "1000 \<le> n \<Longrightarrow> \<not> n < length pub_page_text"
  using pub_page_short by (simp add: count_from_length)

lemma pub_snapshot_length [simp]: "1000 \<le> n \<Longrightarrow> \<not> n < length pub_snapshot_text"
  using pub_snapshot_short by (simp add: count_from_length)

lemma pub_names:
  "list_all (event_names pub_case) [sample_event ''e'']"
  "list_all (event_names pub_case) (map up_event (sp_upserts pub_page))"
  "images_apart (map up_event (sp_upserts pub_page)) ''c''"
  "map up_event (sp_upserts (bare_page pub_page)) = [sample_event ''e'']"
  by code_simp+

lemma pub_page_written: "encode_projection_page_payload pub_codec (bare_page pub_page) ''c'' = Inr pub_page_text"
  unfolding encode_projection_page_payload_def pub_page_valid(2)
  using pub_names(1) by (simp add: pub_codec_def sample_codec_def pub_page_text_def page_events_def pub_names(4))

lemma pub_snapshot_written: "encode_projection_snapshot_payload pub_codec [sample_event ''e''] ''c'' = Inr pub_snapshot_text"
  unfolding encode_projection_snapshot_payload_def pub_page_valid(3)
  using pub_names(1) by (simp add: pub_codec_def sample_codec_def pub_snapshot_text_def slice_list_def)

text \<open>The page and its event are their own images.\<close>

lemma pub_kept: "kept_page pub_page = bare_page pub_page" "kept_event (sample_event ''e'') = sample_event ''e''"
  by code_simp+

lemma pub_page_back: "decode_projection_page_payload pub_case pub_codec pub_page_text ''c'' = Inr (bare_page pub_page)"
  using page_payload_read [OF pub_codec_law pub_page_written _ pub_page_valid(1)] pub_names
  by (simp add: projectionPageSizeLimit_def not_less [symmetric] pub_kept)

definition pub_digest :: string where
  "pub_digest = projection_page_hash (CHR ''{'' # join_with '',''
     [json_member ''Payload'' pub_page_text, json_member ''Previous'' (json_string (projection_page_hash '''')),
      json_member ''Next'' (json_string (projection_page_hash '''')), json_member ''Cursor'' (json_string ''n1'')] @ ''}'')"

definition pub_row :: page_row where
  "pub_row = \<lparr>pg_calendar_id = ''c'', pg_generation = 3, pg_ordinal = 0, pg_hash = pub_digest,
     pg_previous_hash = projection_page_hash '''', pg_next_hash = projection_page_hash '''', pg_payload = pub_page_text\<rparr>"

lemma pub_page_fields [simp]:
  "sp_next_page_token pub_page = ''''" "sp_next_cursor pub_page = ''n1''" "sp_complete pub_page"
  "sp_source_time_zone pub_page = ''UTC''" "sp_complete (bare_page pub_page)"
  by (simp_all add: pub_page_def sample_page_def bare_page_def)

lemma pub_digest_text:
  "page_digest pub_codec pub_page_text (projection_page_hash '''') (projection_page_hash '''') ''n1'' = Inr pub_digest"
  unfolding page_digest_def pub_digest_def by (simp add: pub_codec_def sample_codec_def del: append_Cons)

lemma pub_row_of: "page_row_of pub_codec pub_claim 0 '''' pub_page = Inr pub_row"
  using pub_digest_text
  by (simp add: page_row_of_def Let_def pub_row_def projectionPageSizeLimit_def pub_page_written)

definition staged_attempt :: page_attempt_row where
  "staged_attempt = pub_attempt\<lparr>ap_next_ordinal := 1, ap_next_token_hash := projection_page_hash '''', ap_total_bytes := int (length pub_page_text),
     ap_complete := True, ap_final_cursor := ''n1''\<rparr>"

text \<open>The database after the page is staged, whatever the fence holds.\<close>

definition staged_db :: "mutation_operation list \<Rightarrow> reservation list \<Rightarrow> sync_db" where
  "staged_db ops rs = pub_db\<lparr>db_operations := ops, db_reservations := rs,
     db_projection := empty_projection\<lparr>pt_attempts := [staged_attempt], pt_pages := [pub_row]\<rparr>\<rparr>"

lemmas pub_db_defs = pub_db_def empty_db_def empty_projection_def empty_cache_def

lemma pub_guard: "lock_projection_snapshot_guard ''c'' 2 0 (pub_db\<lparr>db_operations := ops, db_reservations := rs\<rparr>) = Inr ()"
  by (simp add: lock_projection_snapshot_guard_def lock_projection_guard_row_def pub_db_defs guard_revision_def
      pending_intents_def)

lemma pub_source:
  "page_stage_source ''c'' (pub_db\<lparr>db_operations := ops, db_reservations := rs, db_projection := pt\<rparr>) =
     Inr (pub_state, hd (db_calendars pub_db), hd (db_connections pub_db))"
  "source_connection ''c'' (pub_db\<lparr>db_operations := ops, db_reservations := rs, db_projection := pt\<rparr>) =
     Some (hd (db_calendars pub_db), hd (db_connections pub_db))"
  by (simp_all add: page_stage_source_def source_connection_def pub_db_defs pub_state_def)

lemma pub_frozen:
  "frozen_source '''' ''UTC'' (fst sample_window) (snd sample_window)
     (pub_state, hd (db_calendars pub_db), hd (db_connections pub_db))"
  by (simp add: frozen_source_def pub_state_def pub_db_defs)

lemma pub_lease: "now < 50 \<Longrightarrow> holds_lease pub_claim now pub_state"
  by (simp add: holds_lease_def pub_state_def)

lemma attempt_id_valid: "valid_projection_mutation_id ''attempt-00000001''"
  by code_simp

lemma staged_run:
  "append_projection_page_tx pub_codec pub_claim ''attempt-00000001'' 0 '''' ''UTC'' pub_page 10 12 12
     (pub_db\<lparr>db_operations := ops, db_reservations := rs\<rparr>) = Inr ((), staged_db ops rs)"
proof -
  define db where "db = pub_db\<lparr>db_operations := ops, db_reservations := rs\<rparr>"
  define PT where "PT = empty_projection\<lparr>pt_attempts := [pub_attempt]\<rparr>"
  have req: "page_request_ok pub_claim ''attempt-00000001'' 0 '''' ''UTC'' pub_page 10"
    by (simp add: page_request_ok_def attempt_id_valid projectionPageLimit_def zero_time_def)
  have pt: "db_projection db = PT" by (simp add: pub_db_def db_def PT_def)
  have at: "attempt_at ''c'' 3 ''attempt-00000001'' pub_attempt" by (simp add: attempt_at_def pub_attempt_def)
  have a: "find (attempt_at ''c'' 3 ''attempt-00000001'') (pt_attempts PT) = Some pub_attempt"
    using at by (simp add: PT_def)
  have src: "page_stage_source ''c'' db = Inr (pub_state, hd (db_calendars pub_db), hd (db_connections pub_db))"
    by (simp add: page_stage_source_def source_connection_def pub_db_defs pub_state_def db_def)
  have states: "db_sync_states db = [pub_state]" by (simp add: pub_db_def db_def)
  have lease: "lock_calendar_sync_lease pub_claim n d = Inr ((), d)" if "n < 50" "db_sync_states d = [pub_state]" for n d
    using pub_lease [OF that(1)] that(2) by (simp add: lock_calendar_sync_lease_def)
  have stage: "stage_page pub_claim ''attempt-00000001'' pub_row pub_attempt True ''n1'' PT =
      empty_projection\<lparr>pt_attempts := [staged_attempt], pt_pages := [pub_row]\<rparr>"
    using at by (simp add: PT_def stage_page_def staged_attempt_def empty_projection_def pub_row_def pub_attempt_def)
  have fields: "ap_lease_owner pub_attempt = ''w''" "ap_timezone pub_attempt = ''UTC''" "ap_base_cursor pub_attempt = ''''"
    "ap_window_start pub_attempt = fst sample_window" "ap_window_end pub_attempt = snd sample_window"
    "ap_guard_epoch pub_attempt = 2" "ap_base_revision pub_attempt = 0" "ap_next_ordinal pub_attempt = 0"
    "ap_total_bytes pub_attempt = 0" "\<not> ap_complete pub_attempt"
    "ap_next_token_hash pub_attempt = projection_page_hash ''''" "pg_previous_hash pub_row = projection_page_hash ''''"
    "pg_payload pub_row = pub_page_text" "pt_pages PT = []"
    by (simp_all add: pub_attempt_def pub_row_def PT_def empty_projection_def)
  have result: "db\<lparr>db_projection := empty_projection\<lparr>pt_attempts := [staged_attempt], pt_pages := [pub_row]\<rparr>\<rparr> = staged_db ops rs"
    by (simp add: db_def staged_db_def)
  have guard: "lock_projection_snapshot_guard ''c'' 2 0 db = Inr ()" unfolding db_def by (rule pub_guard)
  have staged_states: "db_sync_states (staged_db ops rs) = [pub_state]" by (simp add: staged_db_def pub_db_def)
  show ?thesis
    unfolding append_projection_page_tx_def Let_def pub_claim_simps db_def [symmetric] pt pub_page_valid(1) pub_row_of
      bind_res_simps a option.case fields src
    by (simp add: req pub_frozen lease states fields guard projectionAttemptSizeLimit_def stage result staged_states)
qed

lemma staged_fields:
  "ap_lease_owner staged_attempt = ''w''" "ap_complete staged_attempt" "ap_next_ordinal staged_attempt = 1"
  "ap_final_cursor staged_attempt = ''n1''" "ap_next_token_hash staged_attempt = projection_page_hash ''''"
  "ap_total_bytes staged_attempt = int (length pub_page_text)"
  by (simp_all add: staged_attempt_def pub_attempt_def)

definition pub_input :: page_attempt_input where
  "pub_input = \<lparr>pi_calendar_id = ''c'', pi_attempt_id = ''attempt-00000001'', pi_timezone = ''UTC'', pi_generation = 3,
     pi_guard_epoch = 2, pi_base_revision = 0, pi_mode = EventSyncReplacement, pi_base_cursor = '''',
     pi_window_start = fst sample_window, pi_window_end = snd sample_window\<rparr>"

lemma staged_input: "attempt_input_of staged_attempt = pub_input"
  by (simp add: attempt_input_of_def staged_attempt_def pub_attempt_def pub_input_def read_mode_def)

lemma marked_pub_page: "marked_page ''n1'' (bare_page pub_page) = pub_page"
  by (simp add: marked_page_def) (simp add: pub_page_def sample_page_def bare_page_def)

lemma hash_digest: "target_digest (projection_page_hash s)"
  by (simp add: projection_page_hash_def target_digest_sha256)

lemma pub_chain:
  "validate_projection_page_chain pub_case pub_codec ''c'' ''UTC'' ''n1'' (projection_page_hash '''')
     (int (length pub_page_text)) [pub_row] =
   Inr [bare_page pub_page]"
proof -
  have row: "pg_ordinal pub_row = 0" "pg_previous_hash pub_row = projection_page_hash ''''"
    "pg_next_hash pub_row = projection_page_hash ''''" "pg_payload pub_row = pub_page_text" "pg_hash pub_row = pub_digest"
    by (simp_all add: pub_row_def)
  have tz: "sp_source_time_zone (bare_page pub_page) = ''UTC''" by (simp add: bare_page_def)
  have "chain_page pub_case pub_codec ''c'' ''UTC'' ''n1'' True [projection_page_hash ''''] pub_row = Inr (bare_page pub_page)"
    unfolding chain_page_def row pub_page_back Let_def marked_pub_page
    by (simp add: tz next_hash_ok_def hash_digest marked_pub_page pub_digest_text pub_page_valid(1))
  then show ?thesis
    by (simp add: validate_projection_page_chain_def Let_def row projectionPageLimit_def projectionAttemptSizeLimit_def
        projectionPageSizeLimit_def)
qed

lemma pub_materialize:
  "materialize (\<lambda>_. None) ''c'' ''UTC'' (fst sample_window) (snd sample_window) EventSyncReplacement [] False
     [bare_page pub_page] = Inr ([sample_event ''e''], [])"
  by code_simp

lemma pub_prepare:
  "prepare_projection_finalization pub_case (\<lambda>_. None) pub_codec pub_claim ''attempt-00000001'' 12 12 12 (staged_db ops rs) =
   Inr \<lparr>fz_input = pub_input, fz_cursor = ''n1'', fz_pages = [bare_page pub_page], fz_events = [sample_event ''e''],
     fz_removals = []\<rparr>"
proof -
  define db where "db = staged_db ops rs"
  define PT where "PT = empty_projection\<lparr>pt_attempts := [staged_attempt], pt_pages := [pub_row]\<rparr>"
  have pt: "db_projection db = PT" by (simp add: db_def staged_db_def PT_def)
  have a: "find (attempt_at ''c'' 3 ''attempt-00000001'') (pt_attempts PT) = Some staged_attempt"
    by (simp add: PT_def attempt_at_def staged_attempt_def pub_attempt_def)
  have pages: "sort_key pg_ordinal (filter (page_at ''c'' 3) (pt_pages PT)) = [pub_row]"
    by (simp add: PT_def page_at_def pub_row_def)
  have src: "page_stage_source ''c'' db = Inr (pub_state, hd (db_calendars pub_db), hd (db_connections pub_db))"
    "source_connection ''c'' db \<noteq> None"
    by (simp_all add: page_stage_source_def source_connection_def pub_db_defs pub_state_def db_def staged_db_def)
  have lease: "lock_calendar_sync_lease pub_claim n db = Inr ((), db)" if "n < 50" for n
    using pub_lease [OF that] by (simp add: lock_calendar_sync_lease_def db_def staged_db_def pub_db_def)
  have q: "\<not> active_quarantine ''c'' (db_cache db)" by (simp add: active_quarantine_def db_def staged_db_def pub_db_defs)
  have guard: "lock_projection_snapshot_guard ''c'' 2 0 db = Inr ()"
    by (simp add: lock_projection_snapshot_guard_def lock_projection_guard_row_def pub_db_defs guard_revision_def
      pending_intents_def db_def staged_db_def)
  have input: "pi_mode pub_input = EventSyncReplacement" "pi_base_cursor pub_input = ''''" "pi_timezone pub_input = ''UTC''"
    "pi_window_start pub_input = fst sample_window" "pi_window_end pub_input = snd sample_window"
    "pi_guard_epoch pub_input = 2" "pi_base_revision pub_input = 0"
    by (simp_all add: pub_input_def)
  show ?thesis
    unfolding prepare_projection_finalization_def Let_def pub_claim_simps db_def [symmetric] pt a option.case staged_input
      pages staged_fields input
    by (simp add: attempt_id_valid lock_projection_page_source_def src lease q guard pub_frozen input staged_fields
        candidate_base_def projectionPageLimit_def pub_chain pub_materialize zero_time_def)
qed

definition final_cache :: cache_tables where
  "final_cache = (case apply_changes (\<lambda>_. None) None ''c'' 3 (staged_batch True ''n1'' (Some 100) (bare_page pub_page)) 12
     empty_cache of Inr t \<Rightarrow> t | Inl _ \<Rightarrow> empty_cache)"

lemma pub_changes:
  "apply_changes (\<lambda>_. None) None ''c'' 3 (staged_batch True ''n1'' (Some 100) (bare_page pub_page)) 12 empty_cache =
   Inr final_cache"
proof -
  have "case apply_changes (\<lambda>_. None) None ''c'' 3 (staged_batch True ''n1'' (Some 100) (bare_page pub_page)) 12 empty_cache of
      Inr t \<Rightarrow> ct_quarantine t = [] | Inl _ \<Rightarrow> False" by code_simp
  then show ?thesis by (simp add: final_cache_def split: sum.splits)
qed

lemma final_cache_calm: "\<not> active_quarantine ''c'' final_cache"
  by code_simp

lemma staged_batch_flags:
  "eb_source_time_zone (staged_batch full cursor n page) = ''''" "\<not> eb_degraded (staged_batch full cursor n page)"
  "eb_warnings (staged_batch full cursor n page) = []"
  by (simp_all add: staged_batch_def)

lemma final_batch_flags:
  "eb_source_time_zone (final_batch full cursor n) = ''''" "\<not> eb_degraded (final_batch full cursor n)"
  "eb_warnings (final_batch full cursor n) = []" "eb_full_sync (final_batch full cursor n) = full"
  by (simp_all add: final_batch_def)

lemma no_changes: "apply_changes zdb cipher cal g (final_batch full cursor n) now t = Inr t"
  by (simp add: apply_changes_def final_batch_def)

lemma pub_finalized:
  "\<exists>db'. finalize_projection_tx pub_case (\<lambda>_. None) pub_codec None pub_claim ''attempt-00000001'' 12 100 (\<lambda>_. 12)
     (staged_db ops rs) = Inr (1, db')"
proof -
  define db where "db = staged_db ops rs"
  define PT where "PT = empty_projection\<lparr>pt_attempts := [staged_attempt], pt_pages := [pub_row]\<rparr>"
  define fz where "fz = \<lparr>fz_input = pub_input, fz_cursor = ''n1'', fz_pages = [bare_page pub_page],
     fz_events = [sample_event ''e''], fz_removals = []\<rparr>"
  have pt: "db_projection db = PT" by (simp add: db_def staged_db_def PT_def)
  have prep: "prepare_projection_finalization pub_case (\<lambda>_. None) pub_codec pub_claim ''attempt-00000001'' 12 12 12 db = Inr fz"
    unfolding db_def fz_def by (rule pub_prepare)
  have fz: "fz_input fz = pub_input" "fz_cursor fz = ''n1''" "fz_pages fz = [bare_page pub_page]"
    "fz_events fz = [sample_event ''e'']" "fz_removals fz = []" by (simp_all add: fz_def)
  have input: "pi_mode pub_input = EventSyncReplacement" "pi_base_revision pub_input = 0" "pi_attempt_id pub_input = ''attempt-00000001''"
    by (simp_all add: pub_input_def)
  have until: "lease_until_of pub_claim db = Inr 50"
    by (simp add: lease_until_of_def db_def staged_db_def pub_db_def) (simp add: pub_state_def)
  note payload = pub_snapshot_written
  have carried: "carried_removals pub_codec fz db = Inr []" by (simp add: carried_removals_def fz input)
  have texts: "observations_text pub_codec [] = Inr ''null''" by (simp add: observations_text_def)
  have released: "release_retained_source_capacity pub_codec ''c'' 0 [] PT = PT"
    by (simp add: release_retained_source_capacity_def PT_def empty_projection_def)
  have kept: "db\<lparr>db_projection := PT\<rparr> = db" by (simp add: pt [symmetric])
  have cache: "db_cache db = empty_cache" by (simp add: db_def staged_db_def pub_db_def empty_db_def)
  have replay: "apply_event_sync_page_tx (\<lambda>_. None) None pub_claim (staged_batch True ''n1'' (Some 100) (bare_page pub_page))
      False 12 db = Inr ((), db\<lparr>db_cache := final_cache\<rparr>)"
    by (simp add: apply_event_sync_page_tx_def Let_def cache pub_changes save_timezone_def degraded_code_def
        check_warnings_def staged_batch_flags)
  let ?row = "revision_row fz 1 12 pub_snapshot_text ''null''"
  have row: "sn_calendar_id ?row = ''c''" "sn_guard_epoch ?row = 2" "sn_base_revision ?row = 0" "sn_revision ?row = 1"
    by (simp_all add: revision_row_def fz pub_input_def)
  have fresh: "pt_snapshots PT = []" "db_guards db = [(''c'', 2)]" "guard_revision ''c'' db = 0"
    by (simp_all add: PT_def db_def staged_db_def pub_db_defs guard_revision_def)
  have published: "publish_revision ?row (db\<lparr>db_cache := final_cache\<rparr>) =
      Inr ((), db\<lparr>db_cache := final_cache, db_projection := set_guard_revision ''c'' 1 (PT\<lparr>pt_snapshots := [?row]\<rparr>)\<rparr>)"
    (is "_ = Inr ((), ?db3)")
    using fresh by (simp add: publish_revision_def Let_def row pt guard_revision_def)
  have rows: "count_rows (attempt_at ''c'' 3 ''attempt-00000001'') (pt_attempts (db_projection ?db3)) = 1"
    by (simp add: set_guard_revision_def PT_def attempt_at_def staged_attempt_def pub_attempt_def count_rows_def)
  obtain db4 where consumed: "consume_attempt pub_claim pub_input ?db3 = Inr ((), db4)"
      and db4: "db_sync_states db4 = [pub_state]" "db_cache db4 = final_cache"
    using rows by (simp add: consume_attempt_def Let_def input) (simp add: db_def staged_db_def pub_db_def)
  have held: "count_rows (holds_lease pub_claim 12) [pub_state] = 1"
    using pub_lease [of 12] by (simp add: count_rows_def)
  have finished: "\<exists>db5. apply_event_sync_page_tx (\<lambda>_. None) None pub_claim (final_batch True ''n1'' 100) True 12 db4 = Inr ((), db5)"
    by (simp add: apply_event_sync_page_tx_def Let_def no_changes save_timezone_def degraded_code_def check_warnings_def
        final_batch_flags finish_sync_def update_lease_def held pub_lease db4 final_cache_calm sweep_generation_def)
  then obtain db5 where finished: "apply_event_sync_page_tx (\<lambda>_. None) None pub_claim (final_batch True ''n1'' 100) True 12 db4 = Inr ((), db5)" ..
  have count: "count_rows (\<lambda>p. sn_calendar_id p = ''c'') (pt_snapshots PT) = 0" by (simp add: fresh count_rows_def)
  have "finalize_projection_tx pub_case (\<lambda>_. None) pub_codec None pub_claim ''attempt-00000001'' 12 100 (\<lambda>_. 12) db = Inr (1, db5)"
    unfolding finalize_projection_tx_def Let_def pub_claim_simps prep bind_res_simps until fz input payload map_sum.simps
      carried texts pt released kept count
    by (simp add: replay published consumed finished maxProjectionSnapshotBytes_def maxProjectionObservationBytes_def
      maxProjectionSnapshotRevisions_def zero_time_def max_int64_def kept)
  then show ?thesis unfolding db_def by blast
qed

lemma pub_run_aux:
  "\<exists>db'. finalize_source_projection_page pub_case (\<lambda>_. None) pub_codec None pub_claim ''attempt-00000001'' 0 '''' ''UTC''
     pub_page 10 100 ''operation-0000001'' (\<lambda>_. 12) (\<lambda>_. 12) pub_db = Inr (1, db')"
proof -
  have norm: "normalize_mutation_calendars [''c''] = Inr ([''c''], json_array [json_string ''c''])"
    by (simp add: normalize_mutation_calendars_def Let_def maxProjectionMutationCalendars_def)
  define os where "os = [\<lparr>mo_operation_id = ''operation-0000001'', mo_calendar_ids = json_array [json_string ''c''], mo_started_at = 10 :: instant, mo_resolved_at = None\<rparr>]"
  define rs where "rs = [\<lparr>rs_operation_id = ''operation-0000001'', rs_target_key = GlobalSyncDispatchKey,
     rs_request_hash = projection_page_hash ''operation-0000001'', rs_operation_kind = ''run'', rs_created_at = 10 :: instant, rs_released_at = None\<rparr>]"
  have none: "db_operations pub_db = []" "db_reservations pub_db = []" by (simp_all add: pub_db_defs)
  have ins: "insert_exclusive_reservation \<lparr>xr_operation_id = ''operation-0000001'', xr_target_key = GlobalSyncDispatchKey,
        xr_request_hash = projection_page_hash ''operation-0000001'', xr_kind = ''run'', xr_calendar_ids = [], xr_now = 10\<rparr>
      (pub_db\<lparr>db_operations := os\<rparr>) = Inr ((), pub_db\<lparr>db_operations := os, db_reservations := rs\<rparr>)"
    by (simp add: insert_exclusive_reservation_def none rs_def)
  have src: "lock_projection_page_source ''c'' (pub_db\<lparr>db_operations := os, db_reservations := rs\<rparr>) = Inr ()"
    by (simp add: lock_projection_page_source_def source_connection_def pub_db_defs)
  have lease: "lock_calendar_sync_lease pub_claim 12 (pub_db\<lparr>db_operations := os, db_reservations := rs\<rparr>) =
      Inr ((), pub_db\<lparr>db_operations := os, db_reservations := rs\<rparr>)"
    using pub_lease [of 12] by (simp add: lock_calendar_sync_lease_def pub_db_def)
  have until: "lease_until_of pub_claim (pub_db\<lparr>db_operations := os, db_reservations := rs\<rparr>) = Inr 50"
    by (simp add: lease_until_of_def pub_db_def) (simp add: pub_state_def)
  obtain db' where fin: "finalize_projection_tx pub_case (\<lambda>_. None) pub_codec None pub_claim ''attempt-00000001'' 12 100
      (\<lambda>_. 12) (staged_db os rs) = Inr (1, db')" using pub_finalized by blast
  have "finalize_source_projection_page pub_case (\<lambda>_. None) pub_codec None pub_claim ''attempt-00000001'' 0 '''' ''UTC''
     pub_page 10 100 ''operation-0000001'' (\<lambda>_. 12) (\<lambda>_. 12) pub_db = Inr (1, release_source_state_fence ''operation-0000001'' db')"
    unfolding finalize_source_projection_page_def Let_def pub_claim_simps norm bind_res_simps none
    by (simp add: zero_time_def os_def [symmetric] ins src lease until staged_run fin)
  then show ?thesis ..
qed

lemma pub_input_facts:
  "find (\<lambda>s. ss_calendar_id s = ''c'') (db_sync_states pub_db) = Some pub_state"
  "distinct (map ss_calendar_id (db_sync_states pub_db))" "observations_ok pub_codec pub_db"
  "ss_window_start pub_state = fst sample_window" "ss_window_end pub_state = snd sample_window"
  "fst sample_window < snd sample_window" "fst sample_window \<noteq> zero_time" "time_sub 20 12 \<le> 30"
  "mono (\<lambda>_::nat. 12 :: instant)" "(20 :: instant) \<noteq> zero_time"
proof -
  have states: "db_sync_states pub_db = [pub_state]" by (simp add: pub_db_def)
  show "find (\<lambda>s. ss_calendar_id s = ''c'') (db_sync_states pub_db) = Some pub_state"
    by (simp add: states) (simp add: pub_state_def)
  show "distinct (map ss_calendar_id (db_sync_states pub_db))" by (simp add: states)
  show "observations_ok pub_codec pub_db" by (simp add: observations_ok_def snapshots_def pub_db_defs)
  show "ss_window_start pub_state = fst sample_window" "ss_window_end pub_state = snd sample_window"
    by (simp_all add: pub_state_def)
  show "fst sample_window < snd sample_window" "fst sample_window \<noteq> zero_time" by code_simp+
  show "time_sub 20 12 \<le> 30" by (simp add: time_sub_def max_int64_def)
  show "mono (\<lambda>_::nat. 12 :: instant)" by (simp add: mono_def)
  show "(20 :: instant) \<noteq> zero_time" by (simp add: zero_time_def)
qed

lemma pub_view:
  assumes parts: "find (attempt_at ''c'' 3 ''attempt-00000001'') (pt_attempts (db_projection pub_db)) = Some a"
    "page_row_of pub_codec pub_claim 0 '''' pub_page = Inr g"
    "map (\<lambda>r. decode_projection_page_payload pub_case pub_codec (pg_payload r) ''c'') (staged_rows pub_claim g pub_db) =
       map Inr pages"
    "starts_from pub_case pub_codec a pub_db base"
    "materialize (\<lambda>_. None) ''c'' (ap_timezone a) (fst sample_window) (snd sample_window) (read_mode (ap_mode a)) base
       (read_mode (ap_mode a) = EventSyncIncremental) pages = Inr (events, removals)"
    and view: "case r of Inl e \<Rightarrow> \<not> list_all (event_names pub_case) events
     | Inr v \<Rightarrow> list_all (event_names pub_case) events \<and> sn_revision (sj_snapshot v) = 1 \<and>
         sj_events v = map kept_event events \<and> sj_observations v = map json_observation (retained @ removals)"
  shows "events = [sample_event ''e''] \<and> (\<exists>v. r = Inr v \<and> sn_revision (sj_snapshot v) = 1 \<and>
    sj_events v = [sample_event ''e''] \<and> sj_observations v = map json_observation (retained @ removals))"
proof -
  have row: "g = pub_row" using parts(2) by (simp add: pub_row_of)
  have "staged_rows pub_claim pub_row pub_db = [pub_row]"
    by (simp add: staged_rows_def pub_db_def empty_projection_def page_at_def pub_row_def)
  then have "map Inr pages = [Inr (bare_page pub_page) :: event_sync_page res]"
    using parts(3) by (simp add: row pub_page_back pub_row_def)
  then have pages: "pages = [bare_page pub_page]" by (auto simp: map_eq_Cons_conv)
  have "pub_attempt = a" using parts(1) by (simp add: pub_db_def) (simp add: attempt_at_def pub_attempt_def)
  then have "read_mode (ap_mode a) = EventSyncReplacement" "ap_timezone a = ''UTC''"
    by (auto simp: pub_attempt_def read_mode_def)
  then have events: "events = [sample_event ''e'']"
    using parts(4,5) by (simp add: pages starts_from_def pub_materialize)
  show ?thesis using view pub_names(1) by (auto simp: events pub_kept(2) split: sum.splits)
qed

theorem publication_is_served_witness:
  "\<exists>db' a g base pages events retained removals v.
     finalize_source_projection_page pub_case (\<lambda>_. None) pub_codec None pub_claim ''attempt-00000001'' 0 '''' ''UTC''
       pub_page 10 100 ''operation-0000001'' (\<lambda>_. 12) (\<lambda>_. 12) pub_db = Inr (1, db') \<and>
     find (attempt_at ''c'' 3 ''attempt-00000001'') (pt_attempts (db_projection pub_db)) = Some a \<and>
     page_row_of pub_codec pub_claim 0 '''' pub_page = Inr g \<and>
     map (\<lambda>r. decode_projection_page_payload pub_case pub_codec (pg_payload r) ''c'') (staged_rows pub_claim g pub_db) =
       map Inr pages \<and>
     last pages = bare_page pub_page \<and> starts_from pub_case pub_codec a pub_db base \<and> carries pub_codec a pub_db retained \<and>
     materialize (\<lambda>_. None) ''c'' (ap_timezone a) (fst sample_window) (snd sample_window) (read_mode (ap_mode a)) base
       (read_mode (ap_mode a) = EventSyncIncremental) pages = Inr (events, removals) \<and> events = [sample_event ''e''] \<and>
     get_source_projection_for_copy pub_case (\<lambda>_. None) pub_codec ''c'' (fst sample_window) (snd sample_window) 20 30 db' = Inr v \<and>
     sn_revision (sj_snapshot v) = 1 \<and> sj_events v = [sample_event ''e''] \<and>
     sj_observations v = map json_observation (retained @ removals)"
proof -
  obtain db' where run: "finalize_source_projection_page pub_case (\<lambda>_. None) pub_codec None pub_claim ''attempt-00000001'' 0
      '''' ''UTC'' pub_page 10 100 ''operation-0000001'' (\<lambda>_. 12) (\<lambda>_. 12) pub_db = Inr (1, db')"
    using pub_run_aux by blast
  note served = publication_is_served [OF run, of pub_state "fst sample_window" "snd sample_window" 20 30]
  obtain a g base pages events retained removals where parts:
    "find (attempt_at ''c'' 3 ''attempt-00000001'') (pt_attempts (db_projection pub_db)) = Some a"
    "page_row_of pub_codec pub_claim 0 '''' pub_page = Inr g"
    "map (\<lambda>r. decode_projection_page_payload pub_case pub_codec (pg_payload r) ''c'') (staged_rows pub_claim g pub_db) =
       map Inr pages"
    "last pages = bare_page pub_page" "starts_from pub_case pub_codec a pub_db base" "carries pub_codec a pub_db retained"
    "materialize (\<lambda>_. None) ''c'' (ap_timezone a) (fst sample_window) (snd sample_window) (read_mode (ap_mode a)) base
       (read_mode (ap_mode a) = EventSyncIncremental) pages = Inr (events, removals)"
    and view: "case get_source_projection_for_copy pub_case (\<lambda>_. None) pub_codec ''c'' (fst sample_window) (snd sample_window)
        20 30 db' of Inl e \<Rightarrow> \<not> list_all (event_names pub_case) events
     | Inr v \<Rightarrow> list_all (event_names pub_case) events \<and> sn_revision (sj_snapshot v) = 1 \<and>
         sj_events v = map kept_event events \<and> sj_observations v = map json_observation (retained @ removals)"
    using served pub_codec_law by (simp add: pub_input_facts pub_kept(1)) blast
  obtain v where v: "get_source_projection_for_copy pub_case (\<lambda>_. None) pub_codec ''c'' (fst sample_window) (snd sample_window)
      20 30 db' = Inr v" "sn_revision (sj_snapshot v) = 1" "sj_events v = [sample_event ''e'']"
      "sj_observations v = map json_observation (retained @ removals)" and events: "events = [sample_event ''e'']"
    using pub_view [OF parts(1-3,5,7) view] by blast
  show ?thesis
    by (intro exI conjI) (rule run parts events v)+
qed

theorem page_payload_roundtrip_witness:
  "decode_projection_page_payload pub_case pub_codec pub_page_text ''c'' = Inr (bare_page pub_page)"
  using page_payload_roundtrip [OF pub_codec_law pub_page_written _ pub_page_valid(1)] pub_names
  by (simp add: projectionPageSizeLimit_def not_less [symmetric] pub_kept(1))

text \<open>A calendar with one revision; a mutation of it begins, and the revision is still the one it was.\<close>

definition old_revision :: snapshot_row where
  "old_revision = revision_row \<lparr>fz_input = pub_input, fz_cursor = ''n1'', fz_pages = [], fz_events = [], fz_removals = []\<rparr>
     1 12 pub_snapshot_text ''null''"

definition held_db :: sync_db where
  "held_db = pub_db\<lparr>db_projection := empty_projection\<lparr>pt_snapshots := [old_revision], pt_revisions := [(''c'', 1)]\<rparr>\<rparr>"

text \<open>
  The guard has not been moved yet; then a mutation has begun, and when it is settled the database is
  \<open>pub_db\<close>, where the source is published.
\<close>

definition calm_db :: sync_db where
  "calm_db = pub_db\<lparr>db_guards := []\<rparr>"

definition busy_db :: sync_db where
  "busy_db = pub_db\<lparr>db_guards := [(''c'', 1)], db_intents := [(''c'', ''operation-0000001'')]\<rparr>"

lemma operation_id_valid: "valid_projection_mutation_id ''operation-0000001''"
  by code_simp

lemmas begin_defs = begin_projection_mutation_def resolve_projection_mutation_def guard_and_intend_def
  advance_projection_mutation_guard_def init_guard_def insert_intent_def count_rows_def

lemma pub_begin: "\<exists>db'. begin_projection_mutation ''c'' ''operation-0000001'' 10 held_db = Inr ((), db')"
  by (simp add: begin_defs operation_id_valid zero_time_def held_db_def pub_db_defs maxPendingProjectionMutations_def)

lemma busy_run:
  "begin_projection_mutation ''c'' ''operation-0000001'' 10 calm_db = Inr ((), busy_db)"
  "resolve_projection_mutation ''c'' ''operation-0000001'' busy_db = Inr ((), pub_db)"
  by (simp_all add: begin_defs operation_id_valid zero_time_def calm_db_def busy_db_def pub_db_defs
      maxPendingProjectionMutations_def update_rows_def)

theorem published_revision_immutable_witness:
  "\<exists>db'. projection_step held_db db' \<and> old_revision \<in> snapshots held_db \<and>
     (\<forall>p'. p' \<in> snapshots db' \<and> sn_calendar_id p' = ''c'' \<and> sn_revision p' = 1 \<longrightarrow> p' = old_revision)"
proof -
  have columns: "sn_calendar_id old_revision = ''c''" "sn_revision old_revision = 1" "sn_guard_epoch old_revision = 2"
    by (simp_all add: old_revision_def revision_row_def pub_input_def)
  have snaps: "snapshots held_db = {old_revision}" "pt_snapshots (db_projection held_db) = [old_revision]"
    by (simp_all add: snapshots_def held_db_def)
  have guard: "guard_revision ''c'' held_db = 1" "db_guards held_db = [(''c'', 2)]"
    by (simp_all add: guard_revision_def held_db_def pub_db_def)
  have ok: "revisions_ok held_db"
    using columns by (simp add: revisions_ok_def snaps guard)
  obtain db' where "begin_projection_mutation ''c'' ''operation-0000001'' 10 held_db = Inr ((), db')"
    using pub_begin by blast
  then have step: "projection_step held_db db'" by (intro projection_step.ledger ledger_step.begin_one)
  then have "projection_step\<^sup>*\<^sup>* held_db db'" by blast
  from published_revision_immutable [OF this ok, of old_revision] show ?thesis
    using step snaps columns by auto
qed

theorem begun_mutation_retires_projection_witness:
  "\<exists>db' v. begins_mutation ''c'' calm_db busy_db \<and> projection_step\<^sup>*\<^sup>* busy_db db' \<and>
     get_source_projection_for_copy pub_case (\<lambda>_. None) pub_codec ''c'' (fst sample_window) (snd sample_window) 20 30 db' = Inr v \<and>
     guard_revision ''c'' calm_db < sn_revision (sj_snapshot v)"
proof -
  obtain db' where run: "finalize_source_projection_page pub_case (\<lambda>_. None) pub_codec None pub_claim ''attempt-00000001'' 0
      '''' ''UTC'' pub_page 10 100 ''operation-0000001'' (\<lambda>_. 12) (\<lambda>_. 12) pub_db = Inr (1, db')"
    using pub_run_aux by blast
  obtain v where v: "get_source_projection_for_copy pub_case (\<lambda>_. None) pub_codec ''c'' (fst sample_window) (snd sample_window)
      20 30 db' = Inr v"
    using publication_read [OF run, of pub_state "fst sample_window" "snd sample_window" 20 30] pub_codec_law pub_view
    by (simp add: pub_input_facts) blast
  have begun: "begins_mutation ''c'' calm_db busy_db" unfolding begins_mutation_def using busy_run(1) by blast
  have "projection_step busy_db pub_db" using busy_run(2) by (intro projection_step.ledger ledger_step.resolve_one)
  moreover have "projection_step pub_db db'" using run by (rule projection_step.finalize)
  ultimately have steps: "projection_step\<^sup>*\<^sup>* busy_db db'" by (meson r_into_rtranclp rtranclp_trans)
  have "revisions_ok calm_db" by (simp add: revisions_ok_def snapshots_def calm_db_def pub_db_def empty_projection_def)
  from begun_mutation_retires_projection [OF this begun steps v] show ?thesis using begun steps v by blast
qed

end
