(* ===== verification/Event_Service.thy ===== *)
theory Event_Service
  imports Projection_Publish Event_Repair Sync_Mirror
begin

text \<open>
  The synchronization of one claimed calendar, \<open>src/internal/eventsync/service.go\<close>: it repairs
  objects in quarantine, asks the provider for pages until the last one, writes each page through
  the store, and ends every claim by success, by a retry, by parking or by giving it back.  The
  provider is a parameter that acts on a world of its own; the store is the model's, and between
  any two operations on it other workers may commit what they like.  \<open>ctx.Err()\<close>, the clock
  and the identifiers that the store draws are read from an environment, by the number of the
  moment at which the run asks.
\<close>

section \<open>Policies and errors\<close>

record event_sync_policy =
  py_poll_interval :: int
  py_retry_base :: int
  py_retry_max :: int
  py_max_pages :: int
  py_max_resets :: int
  py_max_object_repairs_per_run :: int

definition defaultPollInterval :: int where "defaultPollInterval = 5 * 60 * nanos"
definition defaultRetryBase :: int where "defaultRetryBase = 60 * nanos"
definition defaultRetryMax :: int where "defaultRetryMax = 15 * 60 * nanos"
definition defaultMaxPages :: int where "defaultMaxPages = 1000"
definition defaultMaxResets :: int where "defaultMaxResets = 2"
definition defaultMaxObjectRepairsPerRun :: int where "defaultMaxObjectRepairsPerRun = 1"

definition zero_policy :: event_sync_policy where
  "zero_policy = \<lparr>py_poll_interval = 0, py_retry_base = 0, py_retry_max = 0, py_max_pages = 0,
     py_max_resets = 0, py_max_object_repairs_per_run = 0\<rparr>"

definition or_default :: "int \<Rightarrow> int \<Rightarrow> int" where
  "or_default d x = (if x \<le> 0 then d else x)"

definition normalized_policy :: "event_sync_policy \<Rightarrow> event_sync_policy" where
  "normalized_policy p =
     (let base = or_default defaultRetryBase (py_retry_base p);
          top = or_default defaultRetryMax (py_retry_max p) in
      \<lparr>py_poll_interval = or_default defaultPollInterval (py_poll_interval p), py_retry_base = base,
       py_retry_max = (if top < base then base else top),
       py_max_pages = or_default defaultMaxPages (py_max_pages p),
       py_max_resets = or_default defaultMaxResets (py_max_resets p),
       py_max_object_repairs_per_run = or_default defaultMaxObjectRepairsPerRun (py_max_object_repairs_per_run p)\<rparr>)"

definition retry_delay :: "event_sync_policy \<Rightarrow> int \<Rightarrow> int" where
  "retry_delay p retryAfter =
     (if 0 < retryAfter then retryAfter
      else let limit = (if 0 < py_poll_interval p \<and> py_poll_interval p < py_retry_max p
                        then py_poll_interval p else py_retry_max p) in
        (if limit < py_retry_base p then limit else py_retry_base p))"

definition min_duration :: "int \<Rightarrow> int \<Rightarrow> int" where
  "min_duration left right = (if left < right then left else right)"

definition max_duration :: "int \<Rightarrow> int \<Rightarrow> int" where
  "max_duration left right = (if right < left then left else right)"

primrec class_text :: "event_sync_error_class \<Rightarrow> string" where
  "class_text EventSyncTransient = ''transient''"
| "class_text EventSyncRateLimited = ''rate_limited''"
| "class_text EventSyncAuth = ''auth''"
| "class_text EventSyncPermission = ''permission''"
| "class_text EventSyncUnsupported = ''unsupported''"
| "class_text EventSyncProtocol = ''protocol''"

definition parks :: "string \<Rightarrow> bool" where
  "parks class \<longleftrightarrow> class \<in> set (map class_text [EventSyncAuth, EventSyncPermission, EventSyncUnsupported, EventSyncProtocol])"

text \<open>The first \<open>EventSyncError\<close> of the chain.\<close>

primrec sync_error :: "err \<Rightarrow> err option" where
  "sync_error (ErrText m) = None"
| "sync_error (ErrWrap m e) = sync_error e"
| "sync_error (ErrJoin e f) = (case sync_error e of None \<Rightarrow> sync_error f | Some s \<Rightarrow> Some s)"
| "sync_error (Sentinel t) = None"
| "sync_error (ErrExt m) = None"
| "sync_error (ErrAPI c e) = sync_error e"
| "sync_error (ErrNoDispatch e) = sync_error e"
| "sync_error (ErrRecurrenceCompat e) = sync_error e"
| "sync_error (ErrFailure st e) = sync_error e"
| "sync_error (ErrEventSync c r e) = Some (ErrEventSync c r e)"
| "sync_error NoReturn = None"

definition classify_api :: "err \<Rightarrow> string" where
  "classify_api e = class_text (case api_code e of
       None \<Rightarrow> EventSyncTransient
     | Some code \<Rightarrow>
         if code = ''rate_limited'' then EventSyncRateLimited
         else if code = ''permission_denied'' then EventSyncPermission
         else if code = ''unsupported_capability'' then EventSyncUnsupported
         else if code = ''invalid_argument'' \<or> code = ''invalid_recurrence'' then EventSyncProtocol
         else EventSyncTransient)"

definition classify :: "err \<Rightarrow> string \<times> int" where
  "classify e = (case sync_error e of
       Some (ErrEventSync class retryAfter _) \<Rightarrow> if class \<noteq> '''' then (class, retryAfter) else (classify_api e, 0)
     | _ \<Rightarrow> (classify_api e, 0))"

text \<open>\<open>errors.Join\<close> of the sentinel and the provider's own \<open>EventSyncError\<close>.\<close>

definition provider_failure_result :: "err \<Rightarrow> err" where
  "provider_failure_result e = (case sync_error e of
       Some f \<Rightarrow> ErrJoin (Sentinel ErrProviderFailure) f
     | None \<Rightarrow> Sentinel ErrProviderFailure)"

section \<open>Pages\<close>

definition reset_page_ok :: "event_sync_page \<Rightarrow> bool" where
  "reset_page_ok p \<longleftrightarrow> \<not> sp_complete p \<and> sp_next_page_token p = '''' \<and> sp_next_cursor p = '''' \<and>
     sp_upserts p = [] \<and> sp_deleted_event_ids p = [] \<and> sp_removals p = [] \<and> sp_deleted_object_ids p = [] \<and>
     sp_replaced_object_ids p = [] \<and> sp_inventory p = []"

definition continuation_ok :: "event_sync_mode \<Rightarrow> event_sync_page \<Rightarrow> bool" where
  "continuation_ok mode p \<longleftrightarrow>
     (if sp_complete p then sp_next_page_token p = '''' \<and> \<not> (mode = EventSyncIncremental \<and> sp_next_cursor p = '''')
      else sp_next_page_token p \<noteq> '''' \<and> sp_next_cursor p = '''')"

definition page_contents_ok :: "event_sync_page \<Rightarrow> bool" where
  "page_contents_ok p \<longleftrightarrow>
     list_all (\<lambda>u. ev_id (up_event u) \<noteq> '''') (sp_upserts p) \<and>
     '''' \<notin> set (sp_deleted_object_ids p) \<and> '''' \<notin> set (sp_deleted_event_ids p) \<and>
     list_all (\<lambda>o'. o' \<noteq> '''' \<and> o' \<notin> set (sp_deleted_object_ids p) \<and>
        o' \<in> (\<lambda>u. so_object_id (up_object u)) ` set (sp_upserts p)) (sp_replaced_object_ids p) \<and>
     list_all (\<lambda>o'. so_object_id o' \<noteq> '''') (sp_inventory p)"

definition validate_page :: "event_sync_mode \<Rightarrow> event_sync_page \<Rightarrow> unit res" where
  "validate_page mode p =
     (if list_ex (\<lambda>w. wn_code w \<noteq> EventSyncProtocol \<or> wn_object_id w = '''') (sp_warnings p)
      then Inl (Sentinel ErrInvalidPage)
      else if sp_reset_required p then (if reset_page_ok p then Inr () else Inl (Sentinel ErrInvalidPage))
      else if continuation_ok mode p \<and> page_contents_ok p then Inr () else Inl (Sentinel ErrInvalidPage))"

text \<open>The objects of a batch: the inventory, overwritten by the objects of the upserts.\<close>

definition page_objects :: "event_sync_page \<Rightarrow> (string \<times> sync_object) list" where
  "page_objects p = fold (\<lambda>u m. if so_object_id (up_object u) = '''' then m
       else AList.update (so_object_id (up_object u)) (up_object u) m) (sp_upserts p)
     (fold (\<lambda>o' m. AList.update (so_object_id o') o' m) (sp_inventory p) [])"

definition storage_warning :: "event_sync_warning \<Rightarrow> sync_warning" where
  "storage_warning w = \<lparr>sw_object_id = wn_object_id w, sw_etag = wn_etag w, sw_error_code = class_text (wn_code w),
     sw_diagnostic = wn_diagnostic w\<rparr>"

definition to_storage_batch :: "event_sync_page \<Rightarrow> string \<Rightarrow> bool \<Rightarrow> bool \<Rightarrow> event_sync_batch" where
  "to_storage_batch p cal full degraded = \<lparr>eb_source_time_zone = sp_source_time_zone p,
     eb_upserts = map (\<lambda>u. \<lparr>cu_source_object_id = so_object_id (up_object u),
       cu_event = (up_event u)\<lparr>ev_calendar_id := cal\<rparr>\<rparr>) (sp_upserts p),
     eb_deleted_event_ids = sp_deleted_event_ids p, eb_deleted_object_ids = sp_deleted_object_ids p,
     eb_replaced_object_ids = sp_replaced_object_ids p, eb_objects = map snd (page_objects p),
     eb_next_cursor = '''', eb_next_sync_at = None, eb_full_sync = full, eb_degraded = degraded,
     eb_error_code = (if degraded then class_text EventSyncProtocol else ''''),
     eb_warnings = map storage_warning (sp_warnings p)\<rparr>"

section \<open>Repair results\<close>

record repair_request =
  rx_calendar_id :: string
  rx_time_zone :: string
  rx_window_start :: instant
  rx_window_end :: instant
  rx_object :: sync_object
  rx_generation :: int
  rx_allow_mutation :: bool

record repair_result =
  rt_object :: sync_object
  rt_outcome :: repair_outcome
  rt_upserts :: "event_sync_upsert list"
  rt_warning :: "event_sync_warning option"

definition known_outcome :: "repair_outcome \<Rightarrow> bool" where
  "known_outcome o' \<longleftrightarrow> (case o' of OtherOutcome _ \<Rightarrow> False | _ \<Rightarrow> True)"

definition repair_member_ok :: "string \<Rightarrow> event_sync_upsert \<Rightarrow> bool" where
  "repair_member_ok obj u \<longleftrightarrow> ev_id (up_event u) \<noteq> '''' \<and>
     (so_object_id (up_object u) = '''' \<or> so_object_id (up_object u) = obj)"

definition repair_batch :: "repair_result \<Rightarrow> string \<Rightarrow> quarantine_row \<Rightarrow> event_sync_repair_batch res" where
  "repair_batch result cal item =
     (let obj = (if so_object_id (rt_object result) = '''' then qr_object_id item else so_object_id (rt_object result));
          etag = (if so_etag (rt_object result) = '''' then qr_etag item else so_etag (rt_object result));
          upserts = map (\<lambda>u. \<lparr>cu_source_object_id = obj, cu_event = (up_event u)\<lparr>ev_calendar_id := cal\<rparr>\<rparr>) (rt_upserts result);
          batch = \<lparr>rb_object_id = obj, rb_etag = etag, rb_outcome = rt_outcome result, rb_upserts = upserts,
            rb_warning = None, rb_next_repair_at = None\<rparr> in
      if obj \<noteq> qr_object_id item \<or> \<not> known_outcome (rt_outcome result) \<or>
         \<not> list_all (repair_member_ok obj) (rt_upserts result)
      then Inl (Sentinel ErrInvalidPage)
      else if rt_outcome result \<noteq> StillQuarantined then Inr batch
      else (case rt_warning result of
          None \<Rightarrow> Inl (Sentinel ErrInvalidPage)
        | Some w \<Rightarrow>
            if wn_object_id w \<noteq> obj \<or> wn_code w \<noteq> EventSyncProtocol then Inl (Sentinel ErrInvalidPage)
            else Inr (batch\<lparr>rb_warning := Some \<lparr>sw_object_id = obj,
                   sw_etag = (if wn_etag w = '''' then etag else wn_etag w),
                   sw_error_code = class_text (wn_code w), sw_diagnostic = wn_diagnostic w\<rparr>\<rparr>)))"

section \<open>The run's environment\<close>

record sync_request =
  rq_calendar_id :: string
  rq_window_start :: instant
  rq_window_end :: instant
  rq_cursor :: string
  rq_page_token :: string
  rq_generation :: int
  rq_mode :: event_sync_mode

text \<open>A provider with the optional interfaces the run asks for.\<close>

record 'w source_provider =
  es_name :: string
  es_sync :: "(sync_request \<Rightarrow> ('w, event_sync_page) prog) option"
  es_repair :: "(repair_request \<Rightarrow> ('w, repair_result) prog) option"
  es_policy :: "event_sync_policy option"

text \<open>
  The service and what surrounds it.  \<open>rv_other n\<close> is what other workers commit before the
  operation at moment \<open>n\<close>, \<open>rv_ctx n\<close> the error of the context at that moment; \<open>rv_read n\<close>
  are the readings of the clock inside the operation and \<open>rv_inner n\<close> those of the publication
  inside it.  The four flags say which optional interfaces the store has; \<open>storage.Store\<close> has
  all of them.
\<close>

record 'w sync_service =
  rv_resolve :: "string \<Rightarrow> ('w source_provider \<times> string) res"
  rv_policy_for :: "('w source_provider \<Rightarrow> event_sync_policy) option"
  rv_now :: "nat \<Rightarrow> instant"
  rv_read :: "nat \<Rightarrow> nat \<Rightarrow> instant"
  rv_inner :: "nat \<Rightarrow> nat \<Rightarrow> instant"
  rv_uuid :: "nat \<Rightarrow> string"
  rv_other :: "nat \<Rightarrow> sync_db \<Rightarrow> sync_db"
  rv_ctx :: "nat \<Rightarrow> err option"
  rv_zones :: zonedb
  rv_unicode :: unicode_case
  rv_codec :: projection_codec
  rv_cipher :: "artifact_cipher option"
  rv_stages :: bool
  rv_defers :: bool
  rv_reads_zone :: bool
  rv_guards :: bool

text \<open>What a run did: its calls of the provider, and the operations that the store committed.\<close>

datatype sync_action =
    PageCall sync_request
  | RepairCall repair_request
  | Reserved string
  | Unreserved string
  | Consumed string bool
  | Repaired event_sync_repair_batch
  | Restarted sync_claim
  | Started page_attempt_input
  | Kept sync_claim event_sync_batch bool
  | Staged sync_claim int event_sync_page
  | Published sync_claim int event_sync_page
  | Retried sync_claim string instant
  | Parked sync_claim string
  | GivenBack sync_claim

record 'w sync_run =
  vr_db :: sync_db
  vr_world :: 'w
  vr_moment :: nat
  vr_log :: "sync_action list"

type_synonym ('w, 'a) sync_prog = "('w sync_run, 'a) prog"

definition logged :: "sync_action \<Rightarrow> 'w sync_run \<Rightarrow> 'w sync_run" where
  "logged a s = s\<lparr>vr_log := vr_log s @ [a]\<rparr>"

definition clock :: "'w sync_service \<Rightarrow> ('w, instant) sync_prog" where
  "clock S s = (Inr (rv_now S (vr_moment s)), s\<lparr>vr_moment := Suc (vr_moment s)\<rparr>)"

definition ctx_err :: "'w sync_service \<Rightarrow> ('w, err option) sync_prog" where
  "ctx_err S s = (Inr (rv_ctx S (vr_moment s)), s\<lparr>vr_moment := Suc (vr_moment s)\<rparr>)"

definition check_ctx :: "'w sync_service \<Rightarrow> ('w, unit) sync_prog" where
  "check_ctx S = and_then (ctx_err S) (\<lambda>e. case e of None \<Rightarrow> ret () | Some x \<Rightarrow> fail x)"

text \<open>An operation of the store after what others committed; what it returns decides what is noted.\<close>

definition store ::
  "'w sync_service \<Rightarrow> ('a \<Rightarrow> sync_action list) \<Rightarrow> (nat \<Rightarrow> sync_db \<Rightarrow> err + 'a \<times> sync_db) \<Rightarrow> ('w, 'a) sync_prog" where
  "store S notes f s = (let n = vr_moment s; db = rv_other S n (vr_db s) in
     case f n db of
       Inl e \<Rightarrow> (Inl e, s\<lparr>vr_db := db, vr_moment := Suc n\<rparr>)
     | Inr (x, db') \<Rightarrow> (Inr x, s\<lparr>vr_db := db', vr_moment := Suc n, vr_log := vr_log s @ notes x\<rparr>))"

definition query :: "'w sync_service \<Rightarrow> (nat \<Rightarrow> sync_db \<Rightarrow> 'a res) \<Rightarrow> ('w, 'a) sync_prog" where
  "query S f = store S (\<lambda>_. []) (\<lambda>n db. map_sum id (\<lambda>x. (x, db)) (f n db))"

text \<open>The value or the error of a program, as a value: \<open>x, err := ...\<close>.\<close>

definition attempt :: "('s, 'a) prog \<Rightarrow> ('s, 'a res) prog" where
  "attempt m s = (case m s of (r, s') \<Rightarrow> (Inr r, s'))"

definition call_provider :: "sync_action \<Rightarrow> ('w, 'a) prog \<Rightarrow> ('w, 'a) sync_prog" where
  "call_provider a m s = (case m (vr_world s) of (r, w) \<Rightarrow> (r, (logged a s)\<lparr>vr_world := w\<rparr>))"

section \<open>The end of a claim\<close>

definition service_policy :: "'w sync_service \<Rightarrow> 'w source_provider option \<Rightarrow> event_sync_policy" where
  "service_policy S p = normalized_policy (case p of
       None \<Rightarrow> zero_policy
     | Some p \<Rightarrow> (case rv_policy_for S of
         Some f \<Rightarrow> f p
       | None \<Rightarrow> (case es_policy p of None \<Rightarrow> zero_policy | Some q \<Rightarrow> q)))"

definition failure_delay :: "event_sync_policy \<Rightarrow> sync_claim \<Rightarrow> string \<Rightarrow> int \<Rightarrow> int" where
  "failure_delay p c class retryAfter = (let delay = retry_delay p retryAfter in
     if retryAfter \<le> 0 \<and> sc_last_error_code c = class
     then min_duration (max_duration delay (py_poll_interval p)) (py_retry_max p) else delay)"

definition end_claim :: "'w sync_service \<Rightarrow> sync_claim \<Rightarrow> event_sync_policy \<Rightarrow> string \<Rightarrow> int \<Rightarrow> ('w, unit) sync_prog" where
  "end_claim S c p class retryAfter = and_then (clock S) (\<lambda>now.
     if parks class then store S (\<lambda>_. [Parked c class]) (\<lambda>_. park_calendar_sync c class now)
     else let next_at = now + failure_delay p c class retryAfter in
       store S (\<lambda>_. [Retried c class next_at]) (\<lambda>_. fail_calendar_sync c class now next_at))"

definition fail_run ::
  "'w sync_service \<Rightarrow> sync_claim \<Rightarrow> event_sync_policy \<Rightarrow> string \<Rightarrow> int \<Rightarrow> err \<Rightarrow> ('w, 'a) sync_prog" where
  "fail_run S c p class retryAfter result = and_then (check_ctx S) (\<lambda>_.
     and_then (attempt (end_claim S c p class retryAfter)) (\<lambda>r. case r of
       Inr _ \<Rightarrow> fail result
     | Inl e \<Rightarrow> if err_is e ErrCalendarSyncLeaseLost then fail e else fail (Sentinel ErrStorageFailure)))"

abbreviation transient :: string where "transient \<equiv> class_text EventSyncTransient"
abbreviation protocol :: string where "protocol \<equiv> class_text EventSyncProtocol"

definition storage_failure :: "'w sync_service \<Rightarrow> sync_claim \<Rightarrow> event_sync_policy \<Rightarrow> ('w, 'a) sync_prog" where
  "storage_failure S c p = fail_run S c p transient 0 (Sentinel ErrStorageFailure)"

text \<open>\<open>deferReservationConflict\<close>: \<open>None\<close> when the error is another one.\<close>

definition defer_conflict :: "'w sync_service \<Rightarrow> sync_claim \<Rightarrow> event_sync_policy \<Rightarrow> err \<Rightarrow> ('w, unit option) sync_prog" where
  "defer_conflict S c p e =
     (if \<not> err_is e ErrExclusiveDispatchConflict then ret None
      else if \<not> rv_defers S then fail e
      else and_then (clock S) (\<lambda>now.
        and_then (store S (\<lambda>_. [GivenBack c]) (\<lambda>n. defer_calendar_sync_for_reservation c now
          (now + py_poll_interval p) (rv_read S n))) (\<lambda>_. ret (Some ()))))"

section \<open>Repairs\<close>

definition unknown_mutation :: "err \<Rightarrow> err" where
  "unknown_mutation e = ErrAPI ''mutation_outcome_unknown'' (ErrJoin (Sentinel ErrProviderMutationOutcomeUnknown) e)"

definition reserve_write :: "'w sync_service \<Rightarrow> string \<Rightarrow> ('w, string) sync_prog" where
  "reserve_write S cal = store S (\<lambda>i. [Reserved i]) (\<lambda>n db. map_sum id (\<lambda>(_, db'). (rv_uuid S n, db'))
     (begin_exclusive_dispatch \<lparr>xr_operation_id = rv_uuid S n, xr_target_key = GlobalSyncDispatchKey,
        xr_request_hash = sha256_hex (rv_uuid S n), xr_kind = ''run'', xr_calendar_ids = [cal],
        xr_now = rv_read S n 0\<rparr> db))"

definition release_write :: "'w sync_service \<Rightarrow> string \<Rightarrow> string \<Rightarrow> ('w, unit) sync_prog" where
  "release_write S cal i = store S (\<lambda>_. [Unreserved i])
     (\<lambda>n. release_exclusive_after_confirmed_run i [cal] (rv_read S n 0))"

definition repair_calendar_time_zone :: "string \<Rightarrow> sync_db \<Rightarrow> string res" where
  "repair_calendar_time_zone cal db =
     (if cal = '''' then Inl (ErrText ''calendar ID is required'')
      else case find (\<lambda>c. cl_id c = cal) (db_calendars db) of
        None \<Rightarrow> Inl (Sentinel ErrNotFound)
      | Some c \<Rightarrow> Inr (cl_timezone c))"

text \<open>
  The authorization of a mutation is consumed under a reservation; \<open>None\<close> when the repair may
  not write, and otherwise the reservation to release, if the store has them.
\<close>

definition authorize_mutation ::
  "'w sync_service \<Rightarrow> sync_claim \<Rightarrow> event_sync_policy \<Rightarrow> quarantine_row \<Rightarrow> ('w, string option option) sync_prog" where
  "authorize_mutation S c p item = (let cal = sc_calendar_id c in
     and_then (if rv_guards S
               then wrap_fail (\<lambda>_. Sentinel ErrWriteDispatchBlocked)
                 (and_then (reserve_write S cal) (\<lambda>i. ret (Some i)))
               else ret None) (\<lambda>held.
     and_then (clock S) (\<lambda>now.
     and_then (attempt (store S (\<lambda>b. [Consumed (qr_object_id item) b])
       (\<lambda>_. consume_event_sync_provider_mutation_authorization c (qr_calendar_id item) (qr_object_id item)
          (qr_etag item) now))) (\<lambda>r. case r of
       Inl e \<Rightarrow> and_then (case held of None \<Rightarrow> ret () | Some i \<Rightarrow>
           wrap_fail (\<lambda>f. unknown_mutation (ErrJoin e f)) (release_write S cal i)) (\<lambda>_.
           if err_is e ErrCalendarSyncLeaseLost then fail e else storage_failure S c p)
     | Inr True \<Rightarrow> ret (Some held)
     | Inr False \<Rightarrow> and_then (case held of None \<Rightarrow> ret () | Some i \<Rightarrow>
           wrap_fail unknown_mutation (release_write S cal i)) (\<lambda>_. ret None)))))"

definition zone_ok :: "zonedb \<Rightarrow> bool \<Rightarrow> string \<Rightarrow> bool" where
  "zone_ok zdb required zone \<longleftrightarrow> \<not> required \<or> (zone \<noteq> '''' \<and> zone \<noteq> ''Local'' \<and> load_location zdb zone \<noteq> None)"

definition settle_repair :: "'w sync_service \<Rightarrow> sync_claim \<Rightarrow> event_sync_policy \<Rightarrow> event_sync_repair_batch \<Rightarrow> ('w, unit) sync_prog" where
  "settle_repair S c p batch = and_then (clock S) (\<lambda>now.
     and_then (attempt (store S (\<lambda>_. [Repaired batch])
       (\<lambda>_. apply_event_sync_object_repair (rv_zones S) (rv_cipher S) c batch now))) (\<lambda>r. case r of
       Inl e \<Rightarrow> if err_is e ErrCalendarSyncLeaseLost then fail e else storage_failure S c p
     | Inr _ \<Rightarrow> ret ()))"

definition failed_repair ::
  "'w sync_service \<Rightarrow> sync_claim \<Rightarrow> event_sync_policy \<Rightarrow> quarantine_row \<Rightarrow> err \<Rightarrow> ('w, unit) sync_prog" where
  "failed_repair S c p item e = (case classify e of (class, retryAfter) \<Rightarrow>
     if class \<in> set (map class_text [EventSyncAuth, EventSyncPermission, EventSyncUnsupported])
     then fail_run S c p class retryAfter (provider_failure_result e)
     else and_then (clock S) (\<lambda>now. settle_repair S c p \<lparr>rb_object_id = qr_object_id item, rb_etag = qr_etag item,
       rb_outcome = StillQuarantined, rb_upserts = [],
       rb_warning = Some \<lparr>sw_object_id = qr_object_id item, sw_etag = qr_etag item, sw_error_code = protocol,
         sw_diagnostic = None\<rparr>, rb_next_repair_at = Some (now + retry_delay p retryAfter)\<rparr>))"

definition repair_object ::
  "'w sync_service \<Rightarrow> sync_claim \<Rightarrow> string \<Rightarrow> bool \<Rightarrow> event_sync_policy \<Rightarrow>
   (repair_request \<Rightarrow> ('w, repair_result) prog) \<Rightarrow> quarantine_row \<Rightarrow> ('w, unit) sync_prog" where
  "repair_object S c local required p repair item =
     and_then (if required \<and> rv_reads_zone S
               then attempt (query S (\<lambda>_. repair_calendar_time_zone (sc_calendar_id c))) else ret (Inr '''')) (\<lambda>z. case z of
       Inl _ \<Rightarrow> storage_failure S c p
     | Inr zone \<Rightarrow>
         and_then (if zone_ok (rv_zones S) required zone \<and> qr_authorized_etag item \<noteq> '''' \<and>
                      qr_authorized_etag item = qr_etag item
                   then authorize_mutation S c p item else ret None) (\<lambda>permit.
         let request = \<lparr>rx_calendar_id = local, rx_time_zone = zone, rx_window_start = sc_window_start c,
               rx_window_end = sc_window_end c, rx_object = \<lparr>so_object_id = qr_object_id item, so_etag = qr_etag item\<rparr>,
               rx_generation = sc_generation c, rx_allow_mutation = (permit \<noteq> None)\<rparr> in
         and_then (attempt (call_provider (RepairCall request) (repair request))) (\<lambda>r.
         and_then (check_ctx S) (\<lambda>_. case r of
           Inl e \<Rightarrow> failed_repair S c p item e
         | Inr result \<Rightarrow> (case repair_batch result (sc_calendar_id c) item of
             Inl _ \<Rightarrow> fail_run S c p protocol 0 (Sentinel ErrInvalidPage)
           | Inr batch \<Rightarrow>
               and_then (if rb_outcome batch = StillQuarantined
                         then and_then (clock S) (\<lambda>now. ret (batch\<lparr>rb_next_repair_at := Some (now + retry_delay p 0)\<rparr>))
                         else ret batch) (\<lambda>batch.
               and_then (settle_repair S c p batch) (\<lambda>_. case permit of
                   Some (Some i) \<Rightarrow> wrap_fail unknown_mutation (release_write S (sc_calendar_id c) i)
                 | _ \<Rightarrow> ret ())))))))"

definition repair_one ::
  "'w sync_service \<Rightarrow> sync_claim \<Rightarrow> 'w source_provider \<Rightarrow> string \<Rightarrow> event_sync_policy \<Rightarrow> ('w, unit) sync_prog" where
  "repair_one S c provider local p = (case es_repair provider of
       None \<Rightarrow> ret ()
     | Some repair \<Rightarrow> and_then (clock S) (\<lambda>now.
         and_then (attempt (query S (\<lambda>_. list_due_event_sync_quarantine c now (py_max_object_repairs_per_run p)))) (\<lambda>r.
           case r of
             Inl e \<Rightarrow> if err_is e ErrCalendarSyncLeaseLost then fail e else storage_failure S c p
           | Inr due \<Rightarrow> for_each (repair_object S c local (es_name provider = ''google'') p repair) due)))"

section \<open>The capture of a source\<close>

text \<open>
  \<open>beginCapture\<close> assigns to the claim and the plan of its caller, also when it fails; both are
  returned with the error.
\<close>

type_synonym capture = "err option \<times> sync_claim \<times> capture_plan"

definition start_capture :: "'w sync_service \<Rightarrow> sync_claim \<Rightarrow> capture_plan \<Rightarrow> ('w, capture) sync_prog" where
  "start_capture S c plan = and_then (clock S) (\<lambda>now.
     and_then (attempt (store S (\<lambda>_. [Started (cp_input plan)])
       (\<lambda>n. start_projection_page_attempt (rv_zones S) c (cp_input plan) now (rv_read S n)))) (\<lambda>r. case r of
       Inr _ \<Rightarrow> ret (None, c, plan)
     | Inl e \<Rightarrow>
         if err_is e ErrCalendarSyncLeaseLost \<or> err_is e ErrExclusiveDispatchConflict then ret (Some e, c, plan)
         else and_then (ctx_err S) (\<lambda>x. if x \<noteq> None then ret (Some e, c, plan)
           else ret (None, c, plan\<lparr>cp_enabled := False\<rparr>))))"

definition plan_capture :: "'w sync_service \<Rightarrow> sync_claim \<Rightarrow> ('w, capture_plan res) sync_prog" where
  "plan_capture S c = attempt (query S (\<lambda>n. plan_source_projection_capture (rv_zones S) (rv_uuid S n) c))"

definition restart_capture :: "'w sync_service \<Rightarrow> sync_claim \<Rightarrow> capture_plan \<Rightarrow> ('w, capture) sync_prog" where
  "restart_capture S c plan = and_then (clock S) (\<lambda>now.
     and_then (attempt (store S (\<lambda>_. [Restarted c]) (\<lambda>_. reset_calendar_sync c now))) (\<lambda>r. case r of
       Inl e \<Rightarrow> ret (Some e, c, plan)
     | Inr c' \<Rightarrow> and_then (plan_capture S c') (\<lambda>r. case r of
         Inl e \<Rightarrow> ret (Some e, c', no_capture)
       | Inr plan \<Rightarrow> if \<not> cp_enabled plan \<or> cp_reset plan then ret (Some (Sentinel ErrStorageFailure), c', plan)
           else start_capture S c' plan)))"

definition begin_capture :: "'w sync_service \<Rightarrow> sync_claim \<Rightarrow> ('w, capture) sync_prog" where
  "begin_capture S c =
     (if \<not> rv_stages S then ret (None, c, no_capture)
      else and_then (plan_capture S c) (\<lambda>r. case r of
        Inl e \<Rightarrow> ret (Some e, c, no_capture)
      | Inr plan \<Rightarrow>
          if \<not> cp_enabled plan then ret (None, c, plan)
          else if cp_reset plan then restart_capture S c plan else start_capture S c plan))"

definition settle_capture :: "'w sync_service \<Rightarrow> sync_claim \<Rightarrow> event_sync_policy \<Rightarrow> err \<Rightarrow> ('w, unit) sync_prog" where
  "settle_capture S c p e = and_then (defer_conflict S c p e) (\<lambda>d. case d of
       Some _ \<Rightarrow> ret ()
     | None \<Rightarrow> if err_is e ErrCalendarSyncLeaseLost then fail e else storage_failure S c p)"

definition settle_store :: "'w sync_service \<Rightarrow> sync_claim \<Rightarrow> event_sync_policy \<Rightarrow> err \<Rightarrow> ('w, unit) sync_prog" where
  "settle_store S c p e = (if err_is e ErrCalendarSyncLeaseLost then fail e
     else and_then (defer_conflict S c p e) (\<lambda>d. case d of Some _ \<Rightarrow> ret () | None \<Rightarrow> storage_failure S c p))"

section \<open>The loop over pages\<close>

text \<open>The variables of the loop; \<open>lp_seen\<close> is the set of tokens since the last reset.\<close>

record page_loop =
  lp_claim :: sync_claim
  lp_capture :: capture_plan
  lp_mode :: event_sync_mode
  lp_token :: string
  lp_seen :: "string list"
  lp_resets :: int
  lp_degraded :: bool
  lp_ordinal :: int
  lp_pages :: int

definition page_request :: "string \<Rightarrow> page_loop \<Rightarrow> sync_request" where
  "page_request local L = (let c = lp_claim L in
     \<lparr>rq_calendar_id = local, rq_window_start = sc_window_start c, rq_window_end = sc_window_end c,
      rq_cursor = sc_cursor c, rq_page_token = lp_token L, rq_generation = sc_generation c, rq_mode = lp_mode L\<rparr>)"

definition resume_pages ::
  "'w sync_service \<Rightarrow> event_sync_policy \<Rightarrow> page_loop \<Rightarrow> sync_claim res \<Rightarrow> ('w, page_loop option) sync_prog" where
  "resume_pages S p L r = (case r of
       Inl e \<Rightarrow> and_then (settle_store S (lp_claim L) p e) (\<lambda>_. ret None)
     | Inr c' \<Rightarrow> and_then (begin_capture S c') (\<lambda>(e, c'', plan). case e of
         Some e \<Rightarrow> and_then (settle_capture S c'' p e) (\<lambda>_. ret None)
       | None \<Rightarrow> ret (Some (L\<lparr>lp_claim := c'', lp_capture := plan, lp_mode := EventSyncReplacement, lp_token := '''',
           lp_seen := [], lp_resets := lp_resets L + 1, lp_degraded := False, lp_ordinal := 0\<rparr>))))"

definition restart_pages :: "'w sync_service \<Rightarrow> event_sync_policy \<Rightarrow> page_loop \<Rightarrow> ('w, page_loop option) sync_prog" where
  "restart_pages S p L = (let c = lp_claim L in
     if py_max_resets p < lp_resets L + 1 then fail_run S c p transient 0 (Sentinel ErrResetLimit)
     else and_then (clock S) (\<lambda>now.
       and_then (attempt (store S (\<lambda>_. [Restarted c]) (\<lambda>_. reset_calendar_sync c now))) (\<lambda>r.
       and_then (check_ctx S) (\<lambda>_. resume_pages S p L r))))"

definition keep_direct ::
  "'w sync_service \<Rightarrow> sync_claim \<Rightarrow> capture_plan \<Rightarrow> event_sync_batch \<Rightarrow> bool \<Rightarrow> ('w, unit res \<times> capture_plan) sync_prog" where
  "keep_direct S c plan batch final = and_then (clock S) (\<lambda>now.
     and_then (attempt (store S (\<lambda>_. [Kept c batch final])
       (\<lambda>_. apply_event_sync_page (rv_zones S) (rv_cipher S) c batch final now))) (\<lambda>r. ret (r, plan)))"

definition placed_page :: "string \<Rightarrow> event_sync_page \<Rightarrow> event_sync_page" where
  "placed_page cal page = page\<lparr>sp_upserts := map (\<lambda>u. u\<lparr>up_event := (up_event u)\<lparr>ev_calendar_id := cal\<rparr>\<rparr>) (sp_upserts page)\<rparr>"

definition stage_or_publish ::
  "'w sync_service \<Rightarrow> page_loop \<Rightarrow> capture_plan \<Rightarrow> event_sync_page \<Rightarrow> instant \<Rightarrow> ('w, unit) sync_prog" where
  "stage_or_publish S L plan staged nextSync = and_then (clock S) (\<lambda>now.
     let c = lp_claim L; pin = cp_input plan in
     if sp_complete staged then
       and_then (store S (\<lambda>_. [Published c (lp_ordinal L) staged])
         (\<lambda>n. finalize_source_projection_page (rv_unicode S) (rv_zones S) (rv_codec S) (rv_cipher S) c (pi_attempt_id pin)
            (lp_ordinal L) (lp_token L) (pi_timezone pin) staged now nextSync (rv_uuid S n) (rv_read S n) (rv_inner S n)))
         (\<lambda>_. ret ())
     else store S (\<lambda>_. [Staged c (lp_ordinal L) staged])
         (\<lambda>n. apply_projection_staged_page (rv_zones S) (rv_codec S) (rv_cipher S) c (pi_attempt_id pin) (lp_ordinal L)
            (lp_token L) (pi_timezone pin) staged now (rv_read S n)))"

definition apply_page ::
  "'w sync_service \<Rightarrow> page_loop \<Rightarrow> capture_plan \<Rightarrow> event_sync_batch \<Rightarrow> event_sync_page \<Rightarrow>
   ('w, unit res \<times> capture_plan) sync_prog" where
  "apply_page S L plan batch page = (let c = lp_claim L in
     if \<not> cp_enabled plan then keep_direct S c plan batch (sp_complete page)
     else and_then (attempt (stage_or_publish S L plan (placed_page (sc_calendar_id c) page)
            (case eb_next_sync_at batch of None \<Rightarrow> zero_time | Some t \<Rightarrow> t))) (\<lambda>r. case r of
         Inr _ \<Rightarrow> ret (r, plan)
       | Inl e \<Rightarrow>
           if err_is e ErrCalendarSyncLeaseLost \<or> err_is e ErrExclusiveDispatchConflict then ret (r, plan)
           else and_then (ctx_err S) (\<lambda>x. if x \<noteq> None then ret (r, plan)
             else keep_direct S c (plan\<lparr>cp_enabled := False\<rparr>) batch (sp_complete page))))"

definition final_fields ::
  "'w sync_service \<Rightarrow> event_sync_policy \<Rightarrow> bool \<Rightarrow> event_sync_page \<Rightarrow> event_sync_batch \<Rightarrow> ('w, event_sync_batch) sync_prog" where
  "final_fields S p degraded page batch =
     (if \<not> sp_complete page then ret batch
      else and_then (clock S) (\<lambda>now. ret (batch\<lparr>eb_next_cursor := (if degraded then '''' else sp_next_cursor page),
             eb_next_sync_at := Some (now + py_poll_interval p)\<rparr>)))"

definition keep_page ::
  "'w sync_service \<Rightarrow> event_sync_policy \<Rightarrow> page_loop \<Rightarrow> event_sync_page \<Rightarrow> ('w, page_loop option) sync_prog" where
  "keep_page S p L page = (let c = lp_claim L; token = sp_next_page_token page in
     if \<not> sp_complete page \<and> token \<in> set (lp_seen L)
     then fail_run S c p protocol 0 (Sentinel ErrRepeatedPage)
     else and_then (final_fields S p (lp_degraded L) page
            (to_storage_batch page (sc_calendar_id c) (lp_mode L = EventSyncReplacement) (lp_degraded L))) (\<lambda>batch.
       let plan = (if lp_degraded L then (lp_capture L)\<lparr>cp_enabled := False\<rparr> else lp_capture L) in
       and_then (apply_page S L plan batch page) (\<lambda>(r, plan).
       and_then (check_ctx S) (\<lambda>_. case r of
         Inl e \<Rightarrow> and_then (settle_store S c p e) (\<lambda>_. ret None)
       | Inr _ \<Rightarrow> if sp_complete page then ret None
           else ret (Some (L\<lparr>lp_capture := plan, lp_token := token, lp_seen := token # lp_seen L,
             lp_ordinal := lp_ordinal L + 1\<rparr>))))))"

definition noticed_warnings :: "event_sync_page \<Rightarrow> page_loop \<Rightarrow> page_loop" where
  "noticed_warnings page L = (if sp_warnings page \<noteq> [] then L\<lparr>lp_degraded := True\<rparr> else L)"

text \<open>One round: \<open>None\<close> when the run returns.\<close>

definition sync_page ::
  "'w sync_service \<Rightarrow> event_sync_policy \<Rightarrow> (sync_request \<Rightarrow> ('w, event_sync_page) prog) \<Rightarrow> string \<Rightarrow> page_loop \<Rightarrow>
   ('w, page_loop option) sync_prog" where
  "sync_page S p sync local L = (let c = lp_claim L; request = page_request local L in
     and_then (attempt (call_provider (PageCall request) (sync request))) (\<lambda>r.
     and_then (check_ctx S) (\<lambda>_. case r of
       Inl e \<Rightarrow> (case classify e of (class, retryAfter) \<Rightarrow> fail_run S c p class retryAfter (provider_failure_result e))
     | Inr page \<Rightarrow> (case validate_page (lp_mode L) page of
         Inl _ \<Rightarrow> fail_run S c p protocol 0 (Sentinel ErrInvalidPage)
       | Inr _ \<Rightarrow> let L = noticed_warnings page L in
           if sp_reset_required page then restart_pages S p L else keep_page S p L page))))"

function run_pages ::
  "'w sync_service \<Rightarrow> event_sync_policy \<Rightarrow> (sync_request \<Rightarrow> ('w, event_sync_page) prog) \<Rightarrow> string \<Rightarrow> page_loop \<Rightarrow>
   ('w, unit) sync_prog" where
  "run_pages S p sync local L s = (case check_ctx S s of
       (Inl e, s) \<Rightarrow> (Inl e, s)
     | (Inr _, s) \<Rightarrow>
         if py_max_pages p \<le> lp_pages L then fail_run S (lp_claim L) p transient 0 (Sentinel ErrPageLimit) s
         else (case sync_page S p sync local L s of
             (Inl e, s) \<Rightarrow> (Inl e, s)
           | (Inr None, s) \<Rightarrow> (Inr (), s)
           | (Inr (Some L'), s) \<Rightarrow> run_pages S p sync local (L'\<lparr>lp_pages := lp_pages L + 1\<rparr>) s))"
  by pat_completeness auto

termination
  by (relation "measure (\<lambda>(S, p, sync, local, L, s). nat (py_max_pages p - lp_pages L))") auto

definition first_page :: "sync_claim \<Rightarrow> capture_plan \<Rightarrow> page_loop" where
  "first_page c plan = \<lparr>lp_claim = c, lp_capture = plan,
     lp_mode = (if sc_cursor c = '''' then EventSyncReplacement else EventSyncIncremental), lp_token = '''', lp_seen = [],
     lp_resets = 0, lp_degraded = False, lp_ordinal = 0, lp_pages = 0\<rparr>"

definition run_one :: "'w sync_service \<Rightarrow> sync_claim \<Rightarrow> ('w, unit) sync_prog" where
  "run_one S c = and_then (check_ctx S) (\<lambda>_.
     if \<not> sc_window_start c < sc_window_end c
     then fail_run S c (service_policy S None) protocol 0 (Sentinel ErrInvalidPage)
     else case rv_resolve S (sc_calendar_id c) of
       Inl _ \<Rightarrow> fail_run S c (service_policy S None) protocol 0 (Sentinel ErrProviderFailure)
     | Inr (provider, local) \<Rightarrow> (let p = service_policy S (Some provider) in
         case es_sync provider of
           None \<Rightarrow> fail_run S c p (class_text EventSyncUnsupported) 0 (Sentinel ErrCapabilityUnavailable)
         | Some sync \<Rightarrow> and_then (repair_one S c provider local p) (\<lambda>_.
             and_then (begin_capture S c) (\<lambda>(e, c, plan). case e of
               Some e \<Rightarrow> settle_capture S c p e
             | None \<Rightarrow> run_pages S p sync local (first_page c plan)))))"

end
