(* ===== verification/Event_Service_Ends.thy ===== *)
theory Event_Service_Ends
  imports Event_Service Event_Lease Projection_Safety
begin

text \<open>
  How a run of the synchronization service ends.  Whatever other workers commit meanwhile, and
  whatever the provider answers, a run that was not cancelled and did not lose its claim gives
  the lease back: the calendar is finished, parked, scheduled for a retry or given back.
\<close>

section \<open>The state rows through the operations of the store\<close>

text \<open>The primary key of the table of synchronization states.\<close>

definition one_state :: "sync_db \<Rightarrow> bool" where
  "one_state db \<longleftrightarrow> distinct (map ss_calendar_id (db_sync_states db))"

definition same_ids :: "sync_db \<Rightarrow> sync_db \<Rightarrow> bool" where
  "same_ids db db' \<longleftrightarrow> map ss_calendar_id (db_sync_states db') = map ss_calendar_id (db_sync_states db)"

lemma same_ids_one: "same_ids db db' \<Longrightarrow> one_state db \<Longrightarrow> one_state db'"
  by (simp add: same_ids_def one_state_def)

lemma same_ids_eq: "db_sync_states db' = db_sync_states db \<Longrightarrow> same_ids db db'"
  by (simp add: same_ids_def)

lemma ids_update: "(\<And>r. ss_calendar_id (f r) = ss_calendar_id r) \<Longrightarrow>
    map ss_calendar_id (update_rows P f rows) = map ss_calendar_id rows"
  by (simp add: update_rows_def)

text \<open>No row of the calendar has an owner.\<close>

definition freed :: "string \<Rightarrow> sync_db \<Rightarrow> bool" where
  "freed cal db \<longleftrightarrow> (\<forall>r \<in> set (db_sync_states db). ss_calendar_id r = cal \<longrightarrow> ss_lease_owner r = None)"

lemma freed_update:
  assumes "one_state db" and "count_rows (holds_lease c now) (db_sync_states db) = 1"
    and f: "\<And>r. ss_calendar_id (f r) = ss_calendar_id r \<and> ss_lease_owner (f r) = None"
    and db': "db_sync_states db' = update_rows (holds_lease c now) f (db_sync_states db)"
  shows "freed (sc_calendar_id c) db' \<and> same_ids db db'"
proof -
  obtain h where h: "h \<in> set (db_sync_states db)" "holds_lease c now h"
  proof -
    have "filter (holds_lease c now) (db_sync_states db) \<noteq> []" using assms(2) by (auto simp: count_rows_def)
    then show ?thesis using that by (auto simp: filter_empty_conv)
  qed
  have "ss_lease_owner (if holds_lease c now r then f r else r) = None"
    if r: "r \<in> set (db_sync_states db)" "ss_calendar_id (if holds_lease c now r then f r else r) = sc_calendar_id c" for r
  proof -
    have "ss_calendar_id r = sc_calendar_id c" using r(2) f by (simp split: if_splits)
    moreover have "ss_calendar_id h = sc_calendar_id c" using h(2) by (rule holds_lease_id)
    ultimately have "r = h" using assms(1) h(1) r(1) by (auto simp: one_state_def distinct_map inj_on_def)
    then show ?thesis using h(2) f by simp
  qed
  then have "freed (sc_calendar_id c) db'"
    unfolding freed_def db' set_update_rows by (metis (no_types, lifting) imageE)
  moreover have "same_ids db db'" using f by (simp add: same_ids_def db' ids_update)
  ultimately show ?thesis ..
qed

lemma update_lease_frees:
  assumes "update_lease c now f db = Inr (u, db')" and "one_state db"
    and "\<And>r. ss_calendar_id (f r) = ss_calendar_id r \<and> ss_lease_owner (f r) = None"
  shows "freed (sc_calendar_id c) db' \<and> same_ids db db'"
  using assms(1) by (intro freed_update [OF assms(2) _ assms(3)]) (auto simp: update_lease_def split: if_splits)

lemma fail_frees:
  "fail_calendar_sync c code now next_at db = Inr (u, db') \<Longrightarrow> one_state db \<Longrightarrow>
   freed (sc_calendar_id c) db' \<and> same_ids db db'"
  by (auto simp: fail_calendar_sync_def lock_calendar_sync_lease_def split: if_splits elim!: update_lease_frees)

lemma park_frees:
  assumes "park_calendar_sync c code now db = Inr (u, db')" and "one_state db"
  shows "freed (sc_calendar_id c) db' \<and> same_ids db db'"
proof -
  obtain f where u: "update_lease c now f db = Inr (u, db')"
    and f: "\<forall>r. ss_calendar_id (f r) = ss_calendar_id r \<and> ss_lease_owner (f r) = None"
    using assms(1) by (auto simp: park_calendar_sync_def lock_calendar_sync_lease_def split: if_splits)
  show ?thesis by (rule update_lease_frees [OF u assms(2)]) (use f in blast)
qed

lemma defer_frees:
  assumes "defer_calendar_sync_for_reservation c now next_at t db = Inr (u, db')" and "one_state db"
  shows "freed (sc_calendar_id c) db' \<and> same_ids db db'"
proof -
  obtain f where u: "update_lease c (t 1) f db = Inr (u, db')"
    and f: "\<forall>r. ss_calendar_id (f r) = ss_calendar_id r \<and> ss_lease_owner (f r) = None"
    using assms(1) by (auto simp: defer_calendar_sync_for_reservation_def lock_calendar_sync_lease_def Let_def split: if_splits)
  show ?thesis by (rule update_lease_frees [OF u assms(2)]) (use f in blast)
qed

lemma defer_error:
  "defer_calendar_sync_for_reservation c now next_at t db = Inl e \<Longrightarrow> err_is e ErrCalendarSyncLeaseLost"
  by (auto simp: defer_calendar_sync_for_reservation_def lock_calendar_sync_lease_def update_lease_def bind_res_def Let_def
      split: if_splits)

lemma save_timezone_states [simp]: "db_sync_states (save_timezone zdb cal tz db) = db_sync_states db"
  by (simp add: save_timezone_def)

lemma page_tx_frees:
  assumes "apply_event_sync_page_tx zdb cipher c batch final now db = Inr (u, db')" and "one_state db"
  shows "same_ids db db' \<and> (final \<longrightarrow> freed (sc_calendar_id c) db')"
proof -
  have "apply_event_sync_page_tx zdb cipher c batch final now db = Inr ((), db')" using assms(1) by simp
  then show ?thesis
  proof (rule apply_page_tx_Inr)
    fix t
    assume db': "db' = (let d = save_timezone zdb (sc_calendar_id c) (eb_source_time_zone batch) db in
      if final then d\<lparr>db_cache := (if eb_full_sync batch then sweep_generation (sc_calendar_id c) (sc_generation c) t else t),
          db_sync_states := update_rows (holds_lease c now)
            (finished_row c batch (active_quarantine (sc_calendar_id c) t) now) (db_sync_states db)\<rparr>
      else d\<lparr>db_cache := t\<rparr>)"
      and one: "final \<Longrightarrow> count_rows (holds_lease c now) (db_sync_states db) = 1"
    show ?thesis
    proof (cases final)
      case True
      have "freed (sc_calendar_id c) db' \<and> same_ids db db'"
        by (rule freed_update [OF assms(2) one [OF True], of "finished_row c batch (active_quarantine (sc_calendar_id c) t) now"])
          (simp_all add: db' Let_def True finished_row_def)
      then show ?thesis by simp
    next
      case False
      then show ?thesis by (simp add: db' Let_def same_ids_def)
    qed
  qed
qed

lemma page_frees:
  "apply_event_sync_page zdb cipher c batch final now db = Inr (u, db') \<Longrightarrow> one_state db \<Longrightarrow>
   same_ids db db' \<and> (final \<longrightarrow> freed (sc_calendar_id c) db')"
  by (auto simp: apply_event_sync_page_def lock_calendar_sync_lease_def split: if_splits dest!: page_tx_frees)

lemma reset_result:
  "reset_calendar_sync c now db = Inr (c', db') \<Longrightarrow>
   same_ids db db' \<and> sc_calendar_id c' = sc_calendar_id c \<and> sc_lease_owner c' = sc_lease_owner c"
  by (auto simp: reset_calendar_sync_def lock_calendar_sync_lease_def update_lease_def same_ids_def ids_update
      split: if_splits)

lemma same_ids_trans: "same_ids a b \<Longrightarrow> same_ids b c \<Longrightarrow> same_ids a c"
  by (simp add: same_ids_def)

lemma apply_staged_ids:
  assumes "apply_projection_staged_page zdb K cipher c i n tok tz page now t db = Inr (u, db')" and "one_state db"
  shows "same_ids db db'"
  using assms(1)
proof (rule apply_staged_Inr)
  fix full db1
  assume a: "append_projection_page_tx K c i n tok tz page now (t 1) (t 2) db = Inr ((), db1)"
    and p: "apply_event_sync_page_tx zdb cipher c (staged_batch full '''' None page) False (t 3) db1 = Inr ((), db')"
  have "same_ids db db1" using a by (rule append_page_Inr) (simp add: same_ids_def)
  with page_tx_frees [OF p same_ids_one [OF this assms(2)]] show ?thesis by (blast intro: same_ids_trans)
qed

lemma replay_ids:
  "replay_pages zdb cipher c full cursor nextSync t i pages db = Inr (u, db') \<Longrightarrow> one_state db \<Longrightarrow> same_ids db db'"
proof (induction pages arbitrary: db i)
  case Nil
  then show ?case by (simp add: same_ids_def)
next
  case (Cons page pages)
  obtain v d where one: "apply_event_sync_page_tx zdb cipher c (staged_batch full cursor (Some nextSync) page) False (t i) db = Inr (v, d)"
    and rest: "replay_pages zdb cipher c full cursor nextSync t (Suc i) pages d = Inr (u, db')"
    using Cons.prems by (auto simp: bind_res_Inr_iff)
  have "same_ids db d" using page_tx_frees [OF one Cons.prems(2)] ..
  with Cons.IH [OF rest same_ids_one [OF this Cons.prems(2)]] show ?case by (blast intro: same_ids_trans)
qed

lemma finalize_frees:
  assumes "finalize_projection_tx U zdb K cipher c attemptID now nextSync t db = Inr (revision, db')" and "one_state db"
  shows "freed (sc_calendar_id c) db' \<and> same_ids db db'"
  using assms(1)
proof (rule finalize_Inr)
  fix fz payload removals observations db1 db2 db3 db4
  assume db1: "db1 = db\<lparr>db_projection :=
       release_retained_source_capacity K (sc_calendar_id c) (pi_base_revision (fz_input fz)) removals (db_projection db)\<rparr>"
    and r: "replay_pages zdb cipher c (pi_mode (fz_input fz) = EventSyncReplacement) (fz_cursor fz) nextSync (\<lambda>i. t (3 + i)) 0
       (fz_pages fz) db1 = Inr ((), db2)"
    and p: "publish_revision (revision_row fz revision (t 2) payload observations) db2 = Inr ((), db3)"
    and a: "consume_attempt c (fz_input fz) db3 = Inr ((), db4)"
    and f: "apply_event_sync_page_tx zdb cipher c
       (final_batch (pi_mode (fz_input fz) = EventSyncReplacement) (fz_cursor fz) nextSync) True
       (t (3 + length (fz_pages fz))) db4 = Inr ((), db')"
  have 1: "same_ids db db1" by (simp add: db1 same_ids_def)
  have 2: "same_ids db1 db2" by (rule replay_ids [OF r same_ids_one [OF 1 assms(2)]])
  have 3: "same_ids db2 db3" using publish_revision_Inr [OF p] by (simp add: same_ids_def)
  have 4: "same_ids db3 db4" using consume_attempt_Inr [OF a] by (simp add: same_ids_def)
  have "same_ids db db4" using 1 2 3 4 by (blast intro: same_ids_trans)
  with page_tx_frees [OF f same_ids_one [OF this assms(2)]] show ?thesis by (blast intro: same_ids_trans)
qed

lemma finalize_source_frees:
  assumes "finalize_source_projection_page U zdb K cipher c attemptID ordinal previousToken tz page now nextSync uuid t u db
    = Inr (revision, db')" and "one_state db"
  shows "freed (sc_calendar_id c) db' \<and> same_ids db db'"
  using assms(1)
proof (rule finalize_source_Inr)
  fix db2 db3 db4 ops rs
  assume db2: "db2 = db\<lparr>db_operations := ops, db_reservations := rs\<rparr>"
    and a: "append_projection_page_tx K c attemptID ordinal previousToken tz page now (t 1) (t 2) db2 = Inr ((), db3)"
    and f: "finalize_projection_tx U zdb K cipher c attemptID (t 3) nextSync u db3 = Inr (revision, db4)"
    and db': "db' = release_source_state_fence uuid db4"
  have "same_ids db db3" using a by (rule append_page_Inr) (simp add: same_ids_def db2)
  with finalize_frees [OF f same_ids_one [OF this assms(2)]] show ?thesis
    by (auto simp: db' freed_def same_ids_def)
qed

lemma start_ids: "start_projection_page_attempt zdb c pin now t db = Inr (u, db') \<Longrightarrow> same_ids db db'"
  by (erule start_attempt_Inr) (simp add: same_ids_def init_guard_def)

lemma begin_exclusive_ids: "begin_exclusive_dispatch req db = Inr (u, db') \<Longrightarrow> same_ids db db'"
  by (erule begin_exclusive_effect) (simp add: same_ids_def)

lemma reset_states_ids: "same_ids db (fold (reset_sync_state now) ids db)"
proof (induction ids arbitrary: db)
  case Nil
  then show ?case by (simp add: same_ids_def)
next
  case (Cons i ids)
  have "same_ids db (reset_sync_state now i db)" by (simp add: same_ids_def reset_sync_state_def ids_update)
  with Cons.IH [of "reset_sync_state now i db"] show ?case by (auto intro: same_ids_trans)
qed

lemma release_exclusive_ids:
  assumes "release_exclusive_after_confirmed_run op cals now db = Inr (u, db')"
  shows "same_ids db db'"
proof -
  obtain ids encoded where n: "normalize_mutation_calendars cals = Inr (ids, encoded)"
    using assms by (auto simp: release_exclusive_after_confirmed_run_def split: sum.splits)
  obtain db1 v db2 w db3 db4 where run:
    "fold_res (\<lambda>i d. map_sum id snd (advance_projection_mutation_guard i d)) ids (fold (reset_sync_state now) ids db) = Inr db1"
    "delete_guard_members op (length ids) db1 = Inr (v, db2)"
    "delete_members op (Sentinel ErrExclusiveDispatchConflict) (length ids) db2 = Inr (w, db3)"
    "fold_res (delete_intent (operation_mutation_id op) (Sentinel ErrExclusiveDispatchConflict)) ids db3 = Inr db4"
    "db' = release_reservation op now (resolve_operation op now db4)"
    using assms n
    by (auto simp: release_exclusive_after_confirmed_run_def bind_res_Inr_iff split: if_splits option.splits)
  have "db_sync_states db1 = db_sync_states (fold (reset_sync_state now) ids db)"
    by (rule fold_res_keeps [OF _ run(1)]) (auto simp: advance_projection_mutation_guard_def split: if_splits)
  moreover have "db_sync_states db4 = db_sync_states db3"
    by (rule fold_res_keeps [OF _ run(4)]) (auto simp: delete_intent_def split: if_splits)
  moreover have "db_sync_states db2 = db_sync_states db1" "db_sync_states db3 = db_sync_states db2"
    using run(2,3) by (auto simp: delete_guard_members_def delete_members_def split: if_splits)
  ultimately have "db_sync_states db' = db_sync_states (fold (reset_sync_state now) ids db)"
    by (simp add: run(5) release_reservation_def resolve_operation_def)
  with reset_states_ids [of db now ids] show ?thesis by (simp add: same_ids_def)
qed

lemma repair_ids: "apply_event_sync_object_repair zdb cipher c batch now db = Inr (u, db') \<Longrightarrow> same_ids db db'"
  by (auto simp: apply_event_sync_object_repair_def lock_calendar_sync_lease_def same_ids_def split: if_splits)

lemma consume_ids:
  "consume_event_sync_provider_mutation_authorization c cal obj etag now db = Inr (b, db') \<Longrightarrow> same_ids db db'"
  by (auto simp: consume_event_sync_provider_mutation_authorization_def lock_calendar_sync_lease_def same_ids_def Let_def
      split: if_splits)

section \<open>How programs of the service end\<close>

text \<open>The last thing that a run did to its claim.\<close>

definition completes :: "sync_action \<Rightarrow> bool" where
  "completes a \<longleftrightarrow> (case a of Kept c batch final \<Rightarrow> final | Published c n page \<Rightarrow> sp_complete page | GivenBack c \<Rightarrow> True
     | _ \<Rightarrow> False)"

definition gives_up :: "sync_action \<Rightarrow> bool" where
  "gives_up a \<longleftrightarrow> (case a of Retried c code next_at \<Rightarrow> True | Parked c code \<Rightarrow> True | _ \<Rightarrow> False)"

definition settled_by :: "(sync_action \<Rightarrow> bool) \<Rightarrow> string \<Rightarrow> 'w sync_run \<Rightarrow> bool" where
  "settled_by A cal s \<longleftrightarrow> (\<exists>log a. vr_log s = log @ [a] \<and> A a) \<and> freed cal (vr_db s)"

text \<open>
  The errors after which the claim may still be held: cancellation, a lease that was lost, a store
  that refused to end the claim, and a write of a repair that was blocked or has no known outcome.
\<close>

definition excused :: "'w sync_service \<Rightarrow> err \<Rightarrow> bool" where
  "excused S e \<longleftrightarrow> (\<exists>n. rv_ctx S n = Some e) \<or> err_is e ErrCalendarSyncLeaseLost \<or>
     e = Sentinel ErrStorageFailure \<or> e = Sentinel ErrWriteDispatchBlocked \<or> (\<exists>f. e = unknown_mutation f)"

definition ends ::
  "'w sync_service \<Rightarrow> string \<Rightarrow> ('w sync_run \<Rightarrow> bool) \<Rightarrow> ('w, 'a) sync_prog \<Rightarrow> ('a \<Rightarrow> 'w sync_run \<Rightarrow> bool) \<Rightarrow> bool" where
  "ends S cal P m Q \<longleftrightarrow> (\<forall>s. one_state (vr_db s) \<longrightarrow> P s \<longrightarrow> one_state (vr_db (snd (m s))) \<and>
     (case fst (m s) of Inl e \<Rightarrow> excused S e \<or> settled_by gives_up cal (snd (m s)) | Inr x \<Rightarrow> Q x (snd (m s))))"

lemma endsI:
  assumes "\<And>s r s'. one_state (vr_db s) \<Longrightarrow> P s \<Longrightarrow> m s = (r, s') \<Longrightarrow> one_state (vr_db s') \<and>
     (case r of Inl e \<Rightarrow> excused S e \<or> settled_by gives_up cal s' | Inr x \<Rightarrow> Q x s')"
  shows "ends S cal P m Q"
  unfolding ends_def using assms by (metis prod.collapse)

lemma endsD:
  "ends S cal P m Q \<Longrightarrow> one_state (vr_db s) \<Longrightarrow> P s \<Longrightarrow> m s = (r, s') \<Longrightarrow> one_state (vr_db s') \<and>
     (case r of Inl e \<Rightarrow> excused S e \<or> settled_by gives_up cal s' | Inr x \<Rightarrow> Q x s')"
  unfolding ends_def by (metis fst_conv snd_conv)

lemma ends_weaken:
  "ends S cal P m Q \<Longrightarrow> (\<And>s. P' s \<Longrightarrow> P s) \<Longrightarrow> (\<And>x s. Q x s \<Longrightarrow> Q' x s) \<Longrightarrow> ends S cal P' m Q'"
  unfolding ends_def by (auto split: sum.splits)

lemma ends_and_then:
  assumes "ends S cal P m R" and "\<And>x. ends S cal (R x) (k x) Q"
  shows "ends S cal P (and_then m k) Q"
proof (rule endsI)
  fix s r s' assume s: "one_state (vr_db s)" "P s" and run: "and_then m k s = (r, s')"
  obtain x s1 where m: "m s = (x, s1)" by fastforce
  note first = endsD [OF assms(1) s m]
  show "one_state (vr_db s') \<and> (case r of Inl e \<Rightarrow> excused S e \<or> settled_by gives_up cal s' | Inr x \<Rightarrow> Q x s')"
  proof (cases x)
    case (Inl e)
    then show ?thesis using run m first by (auto simp: and_then_def)
  next
    case (Inr y)
    then have "k y s1 = (r, s')" using run m by (simp add: and_then_def)
    from endsD [OF assms(2) _ _ this] first Inr show ?thesis by simp
  qed
qed

lemma ends_ret: "(\<And>s. P s \<Longrightarrow> Q x s) \<Longrightarrow> ends S cal P (ret x) Q"
  by (simp add: ends_def ret_def)

lemma ends_fail: "excused S e \<Longrightarrow> ends S cal P (fail e) Q"
  by (simp add: ends_def fail_def)

lemma ends_case_sum:
  "(\<And>e. x = Inl e \<Longrightarrow> ends S cal P (m e) Q) \<Longrightarrow> (\<And>y. x = Inr y \<Longrightarrow> ends S cal P (n y) Q) \<Longrightarrow>
   ends S cal P (case x of Inl e \<Rightarrow> m e | Inr y \<Rightarrow> n y) Q"
  by (cases x) simp_all

lemma ends_case_option:
  "(x = None \<Longrightarrow> ends S cal P m Q) \<Longrightarrow> (\<And>y. x = Some y \<Longrightarrow> ends S cal P (n y) Q) \<Longrightarrow>
   ends S cal P (case x of None \<Rightarrow> m | Some y \<Rightarrow> n y) Q"
  by (cases x) simp_all

lemma ends_if: "(b \<Longrightarrow> ends S cal P m Q) \<Longrightarrow> (\<not> b \<Longrightarrow> ends S cal P n Q) \<Longrightarrow> ends S cal P (if b then m else n) Q"
  by simp

lemma ends_false: "ends S cal (\<lambda>_. False) m Q"
  by (simp add: ends_def)

text \<open>What the moment of the run does not matter to.\<close>

lemma ends_clock: "(\<And>s n. P (s\<lparr>vr_moment := n\<rparr>) \<longleftrightarrow> P s) \<Longrightarrow> ends S cal P (clock S) (\<lambda>_. P)"
  by (simp add: ends_def clock_def)

lemma ends_ctx_err: "(\<And>s n. P (s\<lparr>vr_moment := n\<rparr>) \<longleftrightarrow> P s) \<Longrightarrow> ends S cal P (ctx_err S) (\<lambda>_. P)"
  by (simp add: ends_def ctx_err_def)

lemma ends_check_ctx: "(\<And>s n. P (s\<lparr>vr_moment := n\<rparr>) \<longleftrightarrow> P s) \<Longrightarrow> ends S cal P (check_ctx S) (\<lambda>_. P)"
  by (auto simp: ends_def check_ctx_def ctx_err_def prog_defs excused_def split: option.splits)

text \<open>A run among workers who keep the primary key.\<close>

definition orderly :: "'w sync_service \<Rightarrow> bool" where
  "orderly S \<longleftrightarrow> rv_defers S \<and> (\<forall>n db. one_state db \<longrightarrow> one_state (rv_other S n db))"

text \<open>An attempted operation: its result, and what a committed one leaves.\<close>

lemma ends_store:
  assumes "orderly S" and f: "\<And>n db x db'. f n db = Inr (x, db') \<Longrightarrow> one_state db \<Longrightarrow> same_ids db db' \<and> G x db'"
  shows "ends S cal P (attempt (store S notes f)) (\<lambda>r s. case r of Inl e \<Rightarrow> (\<exists>n db. f n db = Inl e)
     | Inr x \<Rightarrow> G x (vr_db s) \<and> (\<exists>log. vr_log s = log @ notes x))"
proof (rule endsI)
  fix s r s' assume one: "one_state (vr_db s)" and run: "attempt (store S notes f) s = (r, s')"
  let ?db = "rv_other S (vr_moment s) (vr_db s)"
  have db: "one_state ?db" using assms(1) one by (simp add: orderly_def)
  show "one_state (vr_db s') \<and> (case r of Inl e \<Rightarrow> excused S e \<or> settled_by gives_up cal s'
    | Inr x \<Rightarrow> (case x of Inl e \<Rightarrow> (\<exists>n db. f n db = Inl e) | Inr x \<Rightarrow> G x (vr_db s') \<and> (\<exists>log. vr_log s' = log @ notes x)))"
  proof (cases "f (vr_moment s) ?db")
    case (Inl e)
    then have ex: "\<exists>n db. f n db = Inl e" by blast
    have "r = Inr (Inl e)" "s' = s\<lparr>vr_db := ?db, vr_moment := Suc (vr_moment s)\<rparr>"
      using run Inl by (auto simp: attempt_def store_def Let_def)
    then show ?thesis using db ex by simp
  next
    case (Inr p)
    then show ?thesis using run f [OF _ db] same_ids_one [OF _ db]
      by (cases p) (force simp: attempt_def store_def Let_def)
  qed
qed

lemma ends_attempt_plain:
  assumes "orderly S" and "\<And>n db x db'. f n db = Inr (x, db') \<Longrightarrow> one_state db \<Longrightarrow> same_ids db db'"
  shows "ends S cal P (attempt (store S notes f)) (\<lambda>_ _. True)"
  by (rule ends_weaken [OF ends_store [where G = "\<lambda>_ _. True", OF assms(1)]]) (use assms(2) in blast)+

lemma ends_query: "orderly S \<Longrightarrow> ends S cal P (attempt (query S f)) (\<lambda>_ _. True)"
  unfolding query_def by (rule ends_attempt_plain) (auto simp: same_ids_def map_sum_Inr_iff)

lemma ends_provider: "ends S cal (\<lambda>_. True) (attempt (call_provider a m)) (\<lambda>_ _. True)"
  by (auto simp: ends_def attempt_def call_provider_def logged_def split: prod.splits)

section \<open>Ending a claim\<close>

lemma ends_fail_run:
  assumes "orderly S" and "sc_calendar_id c = cal"
  shows "ends S cal (\<lambda>_. True) (fail_run S c p code n result) Q"
proof -
  have parked: "ends S cal (\<lambda>_. True) (attempt (store S (\<lambda>_. [Parked c code]) (\<lambda>_. park_calendar_sync c code now)))
      (\<lambda>r s. case r of Inl e \<Rightarrow> True | Inr _ \<Rightarrow> settled_by gives_up cal s)" for now
    by (rule ends_weaken [OF ends_store [where G = "\<lambda>_. freed cal", OF assms(1)]])
      (use park_frees assms(2) in \<open>auto simp: settled_by_def gives_up_def split: sum.splits\<close>)
  have retried: "ends S cal (\<lambda>_. True) (attempt (store S (\<lambda>_. [Retried c code later]) (\<lambda>_. fail_calendar_sync c code now later)))
      (\<lambda>r s. case r of Inl e \<Rightarrow> True | Inr _ \<Rightarrow> settled_by gives_up cal s)" for now later
    by (rule ends_weaken [OF ends_store [where G = "\<lambda>_. freed cal", OF assms(1)]])
      (use fail_frees assms(2) in \<open>auto simp: settled_by_def gives_up_def split: sum.splits\<close>)
  have split: "attempt (end_claim S c p code n) = and_then (clock S) (\<lambda>now. attempt
     (if parks code then store S (\<lambda>_. [Parked c code]) (\<lambda>_. park_calendar_sync c code now)
      else store S (\<lambda>_. [Retried c code (now + failure_delay p c code n)])
        (\<lambda>_. fail_calendar_sync c code now (now + failure_delay p c code n))))"
    by (rule ext) (simp add: end_claim_def and_then_def attempt_def clock_def Let_def)
  have ended: "ends S cal (\<lambda>_. True) (attempt (end_claim S c p code n))
      (\<lambda>r s. case r of Inl e \<Rightarrow> True | Inr _ \<Rightarrow> settled_by gives_up cal s)"
    unfolding split
    by (rule ends_and_then [OF ends_clock]) (use parked retried in \<open>auto split: if_splits\<close>)
  have finish: "ends S cal (\<lambda>s. case r of Inl e \<Rightarrow> True | Inr _ \<Rightarrow> settled_by gives_up cal s)
     (case r of Inr _ \<Rightarrow> fail result
      | Inl e \<Rightarrow> if err_is e ErrCalendarSyncLeaseLost then fail e else fail (Sentinel ErrStorageFailure)) Q" for r :: "unit res"
    by (cases r) (auto simp: ends_def fail_def excused_def)
  show ?thesis
    unfolding fail_run_def
    by (rule ends_and_then [OF ends_check_ctx], simp, rule ends_and_then [OF ended finish])
qed

lemma settled_moment [simp]: "settled_by A cal (s\<lparr>vr_moment := n\<rparr>) \<longleftrightarrow> settled_by A cal s"
  by (simp add: settled_by_def)

lemma wrap_fail_attempt: "wrap_fail h m = and_then (attempt m) (\<lambda>r. case r of Inl e \<Rightarrow> fail (h e) | Inr x \<Rightarrow> ret x)"
  by (rule ext) (auto simp: prog_defs attempt_def split: prod.splits sum.splits)

lemma attempt_clock: "attempt (and_then (clock S) k) = and_then (clock S) (\<lambda>now. attempt (k now))"
  by (rule ext) (simp add: and_then_def attempt_def clock_def)

lemma attempt_forget: "attempt (and_then m (\<lambda>_. ret ())) = and_then (attempt m) (\<lambda>r. ret (case r of Inl e \<Rightarrow> Inl e | Inr _ \<Rightarrow> Inr ()))"
  by (rule ext) (auto simp: prog_defs attempt_def split: prod.splits sum.splits)

lemma run_attempt: "m = and_then (attempt m) (\<lambda>r. case r of Inl e \<Rightarrow> fail e | Inr x \<Rightarrow> ret x)"
  by (rule ext) (auto simp: prog_defs attempt_def split: prod.splits sum.splits)

lemma ends_storage: "orderly S \<Longrightarrow> sc_calendar_id c = cal \<Longrightarrow> ends S cal (\<lambda>_. True) (storage_failure S c p) Q"
  unfolding storage_failure_def by (rule ends_fail_run)

lemma ends_any: "ends S cal (\<lambda>_. True) m Q \<Longrightarrow> ends S cal P m Q"
  by (erule ends_weaken) simp_all

lemma ends_defer:
  assumes orderly: "orderly S" and cal: "sc_calendar_id c = cal"
  shows "ends S cal (\<lambda>_. True) (defer_conflict S c p e) (\<lambda>r s. case r of None \<Rightarrow> True | Some _ \<Rightarrow> settled_by completes cal s)"
proof -
  have op: "ends S cal (\<lambda>_. True) (attempt (store S (\<lambda>_. [GivenBack c]) (\<lambda>n. defer_calendar_sync_for_reservation c now later (t n))))
      (\<lambda>r s. case r of Inl e \<Rightarrow> excused S e | Inr _ \<Rightarrow> settled_by completes cal s)" for now later t
    by (rule ends_weaken [OF ends_store [where G = "\<lambda>_. freed cal", OF orderly]])
      (use defer_frees defer_error cal in \<open>auto simp: settled_by_def completes_def excused_def split: sum.splits\<close>)
  have rest: "ends S cal (\<lambda>_. True) (and_then (store S (\<lambda>_. [GivenBack c]) (\<lambda>n. defer_calendar_sync_for_reservation c now later (t n)))
      (\<lambda>_. ret (Some ()))) (\<lambda>r s. case r of None \<Rightarrow> True | Some _ \<Rightarrow> settled_by completes cal s)" for now later t
  proof (rule ends_and_then [where R = "\<lambda>_. settled_by completes cal"])
    show "ends S cal (\<lambda>_. True) (store S (\<lambda>_. [GivenBack c]) (\<lambda>n. defer_calendar_sync_for_reservation c now later (t n)))
        (\<lambda>_. settled_by completes cal)"
      by (subst run_attempt, rule ends_and_then [OF op]) (auto simp: ends_def prog_defs split: sum.splits)
  qed (simp add: ends_ret)
  have "rv_defers S" using orderly by (simp add: orderly_def)
  then show ?thesis
    unfolding defer_conflict_def
    by (auto intro!: ends_ret ends_and_then [OF ends_clock rest])
qed

lemma ends_settle_store:
  assumes orderly: "orderly S" and cal: "sc_calendar_id c = cal"
  shows "ends S cal (\<lambda>_. True) (settle_store S c p e) (\<lambda>_. settled_by completes cal)"
proof -
  have rest: "ends S cal (\<lambda>s. case d of None \<Rightarrow> True | Some _ \<Rightarrow> settled_by completes cal s)
      (case d of Some _ \<Rightarrow> ret () | None \<Rightarrow> storage_failure S c p) (\<lambda>_. settled_by completes cal)" for d :: "unit option"
    by (cases d) (simp_all add: ends_storage [OF orderly cal] ends_ret)
  have later: "ends S cal (\<lambda>_. True) (and_then (defer_conflict S c p e) (\<lambda>d. case d of Some _ \<Rightarrow> ret () | None \<Rightarrow> storage_failure S c p))
      (\<lambda>_. settled_by completes cal)" by (rule ends_and_then [OF ends_defer [OF orderly cal] rest])
  show ?thesis unfolding settle_store_def
    by (cases "err_is e ErrCalendarSyncLeaseLost", simp_all only: if_True if_False later)
      (rule ends_fail, simp add: excused_def)
qed

lemma ends_settle_capture:
  assumes orderly: "orderly S" and cal: "sc_calendar_id c = cal"
  shows "ends S cal (\<lambda>_. True) (settle_capture S c p e) (\<lambda>_. settled_by completes cal)"
proof -
  have rest: "ends S cal (\<lambda>s. case d of None \<Rightarrow> True | Some _ \<Rightarrow> settled_by completes cal s)
      (case d of Some _ \<Rightarrow> ret () | None \<Rightarrow> if err_is e ErrCalendarSyncLeaseLost then fail e else storage_failure S c p)
      (\<lambda>_. settled_by completes cal)" for d :: "unit option"
    by (cases d) (auto simp: ends_storage [OF orderly cal] ends_ret excused_def intro: ends_fail)
  show ?thesis unfolding settle_capture_def by (rule ends_and_then [OF ends_defer [OF orderly cal] rest])
qed

subsection \<open>Repairs\<close>

lemma ends_release: "orderly S \<Longrightarrow> (\<And>e. excused S (h e)) \<Longrightarrow> ends S cal (\<lambda>_. True) (wrap_fail h (release_write S cal' i)) (\<lambda>_ _. True)"
  unfolding wrap_fail_attempt release_write_def
  by (rule ends_and_then [OF ends_attempt_plain [OF _ release_exclusive_ids]])
    (auto split: sum.splits intro: ends_fail ends_ret)

lemma excused_unknown [simp]: "excused S (unknown_mutation e)"
  by (auto simp: excused_def)

lemma ends_authorize:
  assumes orderly: "orderly S" and cal: "sc_calendar_id c = cal"
  shows "ends S cal (\<lambda>_. True) (authorize_mutation S c p item) (\<lambda>_ _. True)"
proof -
  have reserve: "ends S cal (\<lambda>_. True) (wrap_fail (\<lambda>_. Sentinel ErrWriteDispatchBlocked)
      (and_then (reserve_write S cal) (\<lambda>i. ret (Some i)))) (\<lambda>_ _. True)"
  proof -
    have split: "wrap_fail h (and_then m (\<lambda>i. ret (Some i))) = and_then (attempt m) (\<lambda>r. case r of Inl e \<Rightarrow> fail (h e) | Inr i \<Rightarrow> ret (Some i))"
      for h and m :: "('w, string) sync_prog"
      by (rule ext) (auto simp: prog_defs attempt_def split: prod.splits sum.splits)
    show ?thesis unfolding split reserve_write_def
      by (rule ends_and_then [OF ends_attempt_plain [OF orderly]])
        (auto simp: map_sum_Inr_iff excused_def split: sum.splits intro: ends_fail ends_ret begin_exclusive_ids)
  qed
  have take: "ends S cal (\<lambda>_. True) (attempt (store S (\<lambda>b. [Consumed (qr_object_id item) b])
       (\<lambda>_. consume_event_sync_provider_mutation_authorization c (qr_calendar_id item) (qr_object_id item)
          (qr_etag item) now))) (\<lambda>_ _. True)" for now
    by (rule ends_attempt_plain [OF orderly consume_ids])
  have undo: "ends S cal (\<lambda>_. True) (case held of None \<Rightarrow> ret () | Some i \<Rightarrow> wrap_fail h (release_write S (sc_calendar_id c) i)) (\<lambda>_ _. True)"
    if "\<And>e. excused S (h e)" for held h
    by (cases held) (auto intro: ends_ret ends_release orderly that)
  have rest: "ends S cal (\<lambda>_. True) (case r of
       Inl e \<Rightarrow> and_then (case held of None \<Rightarrow> ret () | Some i \<Rightarrow>
           wrap_fail (\<lambda>f. unknown_mutation (ErrJoin e f)) (release_write S (sc_calendar_id c) i)) (\<lambda>_.
           if err_is e ErrCalendarSyncLeaseLost then fail e else storage_failure S c p)
     | Inr True \<Rightarrow> ret (Some held)
     | Inr False \<Rightarrow> and_then (case held of None \<Rightarrow> ret () | Some i \<Rightarrow>
           wrap_fail unknown_mutation (release_write S (sc_calendar_id c) i)) (\<lambda>_. ret None)) (\<lambda>_ _. True)" for r held
    by (auto split: sum.splits bool.splits intro!: ends_and_then [OF undo] ends_ret ends_storage orderly cal intro: ends_fail
        simp: excused_def)
  show ?thesis
    unfolding authorize_mutation_def Let_def cal
    by (rule ends_and_then [where R = "\<lambda>_ _. True"], use reserve in \<open>auto intro: ends_ret\<close>,
        rule ends_and_then [OF ends_clock], simp, rule ends_and_then [OF take rest [unfolded cal]])
qed

lemma ends_settle_repair:
  assumes orderly: "orderly S" and cal: "sc_calendar_id c = cal"
  shows "ends S cal (\<lambda>_. True) (settle_repair S c p batch) (\<lambda>_ _. True)"
  unfolding settle_repair_def
  by (rule ends_and_then [OF ends_clock], simp, rule ends_and_then [OF ends_attempt_plain [OF orderly repair_ids]])
    (auto split: sum.splits intro: ends_fail ends_ret ends_storage orderly cal simp: excused_def)

lemma ends_failed_repair:
  assumes orderly: "orderly S" and cal: "sc_calendar_id c = cal"
  shows "ends S cal (\<lambda>_. True) (failed_repair S c p item e) (\<lambda>_ _. True)"
proof (cases "classify e")
  case (Pair code retryAfter)
  have "ends S cal (\<lambda>_. True) (and_then (clock S) (\<lambda>now. settle_repair S c p (b now))) (\<lambda>_ _. True)" for b
    by (rule ends_and_then [OF ends_clock]) (simp_all add: ends_settle_repair [OF orderly cal])
  then show ?thesis unfolding failed_repair_def Pair prod.case by (auto intro: ends_fail_run [OF orderly cal])
qed

lemma ends_repair_object:
  assumes orderly: "orderly S" and cal: "sc_calendar_id c = cal"
  shows "ends S cal (\<lambda>_. True) (repair_object S c local required p repair item) (\<lambda>_ _. True)"
proof -
  have dated: "ends S cal (\<lambda>_. True) (if b then and_then (clock S) (\<lambda>now. ret (f now)) else ret batch) (\<lambda>_ _. True)"
    for b and f :: "instant \<Rightarrow> event_sync_repair_batch" and batch
    by (auto intro!: ends_ret ends_and_then [OF ends_clock])
  have settled: "ends S cal (\<lambda>_. True) (and_then (settle_repair S c p batch) (\<lambda>_. case permit of
      Some (Some i) \<Rightarrow> wrap_fail unknown_mutation (release_write S (sc_calendar_id c) i) | _ \<Rightarrow> ret ())) (\<lambda>_ _. True)" for batch permit
    by (rule ends_and_then [OF ends_settle_repair [OF orderly cal]]) (auto split: option.splits intro: ends_ret ends_release orderly)
  have tail: "ends S cal (\<lambda>_. True) (and_then (check_ctx S) (\<lambda>_. case r of
           Inl e \<Rightarrow> failed_repair S c p item e
         | Inr result \<Rightarrow> (case repair_batch result (sc_calendar_id c) item of
             Inl _ \<Rightarrow> fail_run S c p protocol 0 (Sentinel ErrInvalidPage)
           | Inr batch \<Rightarrow>
               and_then (if rb_outcome batch = StillQuarantined
                         then and_then (clock S) (\<lambda>now. ret (batch\<lparr>rb_next_repair_at := Some (now + retry_delay p 0)\<rparr>))
                         else ret batch) (\<lambda>batch.
               and_then (settle_repair S c p batch) (\<lambda>_. case permit of
                   Some (Some i) \<Rightarrow> wrap_fail unknown_mutation (release_write S (sc_calendar_id c) i)
                 | _ \<Rightarrow> ret ()))))) (\<lambda>_ _. True)" for permit r
  proof (rule ends_and_then [OF ends_check_ctx])
    show "ends S cal (\<lambda>_. True) (case r of
           Inl e \<Rightarrow> failed_repair S c p item e
         | Inr result \<Rightarrow> (case repair_batch result (sc_calendar_id c) item of
             Inl _ \<Rightarrow> fail_run S c p protocol 0 (Sentinel ErrInvalidPage)
           | Inr batch \<Rightarrow>
               and_then (if rb_outcome batch = StillQuarantined
                         then and_then (clock S) (\<lambda>now. ret (batch\<lparr>rb_next_repair_at := Some (now + retry_delay p 0)\<rparr>))
                         else ret batch) (\<lambda>batch.
               and_then (settle_repair S c p batch) (\<lambda>_. case permit of
                   Some (Some i) \<Rightarrow> wrap_fail unknown_mutation (release_write S (sc_calendar_id c) i)
                 | _ \<Rightarrow> ret ())))) (\<lambda>_ _. True)"
    proof (cases r)
      case (Inl e)
      show ?thesis unfolding Inl sum.case by (rule ends_failed_repair [OF orderly cal])
    next
      case (Inr result)
      show ?thesis unfolding Inr sum.case
        by (cases "repair_batch result (sc_calendar_id c) item", simp_all only: sum.case)
          (rule ends_fail_run [OF orderly cal], rule ends_and_then [OF dated settled])
    qed
  qed simp
  have zone: "ends S cal (\<lambda>_. True) (if required \<and> rv_reads_zone S
        then attempt (query S (\<lambda>_. repair_calendar_time_zone (sc_calendar_id c))) else ret (Inr '''')) (\<lambda>_ _. True)"
    by (auto intro: ends_query orderly ends_ret)
  have permit: "ends S cal (\<lambda>_. True) (if b then authorize_mutation S c p item else ret None) (\<lambda>_ _. True)" for b
    by (auto intro: ends_authorize orderly cal ends_ret)
  show ?thesis
    unfolding repair_object_def Let_def
    by (rule ends_and_then [OF zone], rule ends_case_sum, rule ends_storage [OF orderly cal],
        rule ends_and_then [OF permit], rule ends_and_then [OF ends_provider tail])
qed

lemma ends_each: "(\<And>x. ends S cal (\<lambda>_. True) (f x) (\<lambda>_ _. True)) \<Longrightarrow> ends S cal (\<lambda>_. True) (for_each f xs) (\<lambda>_ _. True)"
  by (induction xs) (auto intro: ends_ret ends_and_then)

lemma ends_repair_one:
  assumes orderly: "orderly S" and cal: "sc_calendar_id c = cal"
  shows "ends S cal (\<lambda>_. True) (repair_one S c provider local p) (\<lambda>_ _. True)"
  unfolding repair_one_def
  by (auto split: option.splits sum.splits simp: excused_def
      intro!: ends_ret ends_and_then [OF ends_clock] ends_and_then [OF ends_query [OF orderly]] ends_each ends_repair_object orderly cal
        ends_storage ends_fail)

section \<open>Captures and pages\<close>

text \<open>A capture keeps the calendar of the claim that it may replace.\<close>

abbreviation same_calendar :: "string \<Rightarrow> capture \<Rightarrow> 'w sync_run \<Rightarrow> bool" where
  "same_calendar cal \<equiv> (\<lambda>(e, c', plan) _. sc_calendar_id c' = cal)"

lemma ends_plan: "orderly S \<Longrightarrow> ends S cal (\<lambda>_. True) (plan_capture S c) (\<lambda>_ _. True)"
  unfolding plan_capture_def by (rule ends_query)

lemma ends_start:
  assumes orderly: "orderly S" and cal: "sc_calendar_id c = cal"
  shows "ends S cal (\<lambda>_. True) (start_capture S c plan) (same_calendar cal)"
  unfolding start_capture_def
  by (rule ends_and_then [OF ends_clock], simp, rule ends_and_then [OF ends_attempt_plain [OF orderly start_ids]],
      assumption, rule ends_case_sum, rule ends_if, rule ends_ret, simp add: cal, rule ends_and_then [OF ends_ctx_err], simp,
      rule ends_if, rule ends_ret, simp add: cal, rule ends_ret, simp add: cal, rule ends_ret, simp add: cal)

lemma ends_reset:
  assumes "orderly S"
  shows "ends S cal (\<lambda>_. True) (attempt (store S notes (\<lambda>_. reset_calendar_sync c now)))
    (\<lambda>r _. case r of Inl e \<Rightarrow> True | Inr c' \<Rightarrow> sc_calendar_id c' = sc_calendar_id c)"
  by (rule ends_weaken [OF ends_store [where G = "\<lambda>c' _. sc_calendar_id c' = sc_calendar_id c", OF assms]])
    (auto dest: reset_result split: sum.splits)

lemma ends_restart:
  assumes orderly: "orderly S" and cal: "sc_calendar_id c = cal"
  shows "ends S cal (\<lambda>_. True) (restart_capture S c plan) (same_calendar cal)"
proof -
  have rest: "ends S cal (\<lambda>_. case r of Inl e \<Rightarrow> True | Inr c' \<Rightarrow> sc_calendar_id c' = sc_calendar_id c) (case r of
       Inl e \<Rightarrow> ret (Some e, c, plan)
     | Inr c' \<Rightarrow> and_then (plan_capture S c') (\<lambda>r. case r of
         Inl e \<Rightarrow> ret (Some e, c', no_capture)
       | Inr plan \<Rightarrow> if \<not> cp_enabled plan \<or> cp_reset plan then ret (Some (Sentinel ErrStorageFailure), c', plan)
           else start_capture S c' plan)) (same_calendar cal)" for r
  proof (cases r)
    case (Inl e)
    then show ?thesis by (simp add: ends_ret cal)
  next
    case (Inr c')
    show ?thesis
    proof (cases "sc_calendar_id c' = cal")
      case True
      have "ends S cal (\<lambda>_. True) (and_then (plan_capture S c') (\<lambda>r. case r of
         Inl e \<Rightarrow> ret (Some e, c', no_capture)
       | Inr plan \<Rightarrow> if \<not> cp_enabled plan \<or> cp_reset plan then ret (Some (Sentinel ErrStorageFailure), c', plan)
           else start_capture S c' plan)) (same_calendar cal)"
        by (rule ends_and_then [OF ends_plan [OF orderly]], intro ends_case_sum ends_if ends_ret ends_start orderly True)
          (simp_all add: True)
      then show ?thesis unfolding Inr sum.case by (rule ends_any)
    next
      case False
      then show ?thesis by (simp add: Inr cal ends_false)
    qed
  qed
  show ?thesis unfolding restart_capture_def
    by (rule ends_and_then [OF ends_clock], simp, rule ends_and_then [OF ends_reset [OF orderly] rest])
qed

lemma ends_begin_capture:
  assumes orderly: "orderly S" and cal: "sc_calendar_id c = cal"
  shows "ends S cal (\<lambda>_. True) (begin_capture S c) (same_calendar cal)"
  unfolding begin_capture_def
  by (rule ends_if, rule ends_ret, simp add: cal, rule ends_and_then [OF ends_plan [OF orderly]],
      intro ends_case_sum ends_if ends_ret ends_start ends_restart orderly cal) (simp_all add: cal)

text \<open>A round of the loop: it goes on with a claim of the calendar, or the run is complete.\<close>

definition round_ends :: "string \<Rightarrow> page_loop option \<Rightarrow> 'w sync_run \<Rightarrow> bool" where
  "round_ends cal r s \<longleftrightarrow> (case r of None \<Rightarrow> settled_by completes cal s | Some L \<Rightarrow> sc_calendar_id (lp_claim L) = cal)"

lemma round_moment [simp]: "round_ends cal r (s\<lparr>vr_moment := n\<rparr>) \<longleftrightarrow> round_ends cal r s"
  by (simp add: round_ends_def split: option.splits)

lemma ends_finished: "ends S cal (settled_by completes cal) (ret None) (round_ends cal)"
  by (rule ends_ret) (simp add: round_ends_def)

lemma ends_resume:
  assumes orderly: "orderly S" and cal: "sc_calendar_id (lp_claim L) = cal"
    and r: "\<And>c'. r = Inr c' \<Longrightarrow> sc_calendar_id c' = cal"
  shows "ends S cal (\<lambda>_. True) (resume_pages S p L r) (round_ends cal)"
proof (cases r)
  case (Inl e)
  show ?thesis unfolding resume_pages_def Inl sum.case
    by (rule ends_and_then [OF ends_settle_store [OF orderly cal] ends_finished])
next
  case (Inr c')
  have rest: "ends S cal (same_calendar cal x) (case x of (e, c'', plan) \<Rightarrow> (case e of
         Some e \<Rightarrow> and_then (settle_capture S c'' p e) (\<lambda>_. ret None)
       | None \<Rightarrow> ret (Some (L\<lparr>lp_claim := c'', lp_capture := plan, lp_mode := EventSyncReplacement, lp_token := '''',
           lp_seen := [], lp_resets := lp_resets L + 1, lp_degraded := False, lp_ordinal := 0\<rparr>)))) (round_ends cal)" for x
  proof (cases x)
    case (fields e c'' plan)
    show ?thesis
    proof (cases "sc_calendar_id c'' = cal")
      case True
      show ?thesis unfolding fields prod.case
        by (rule ends_any, rule ends_case_option, rule ends_ret, simp add: round_ends_def True,
            rule ends_and_then [OF ends_settle_capture [OF orderly True] ends_finished])
    next
      case False
      then show ?thesis by (simp add: fields ends_false)
    qed
  qed
  show ?thesis unfolding resume_pages_def Inr sum.case
    by (rule ends_and_then [OF ends_begin_capture [OF orderly r [OF Inr]] rest])
qed

lemma ends_restart_pages:
  assumes orderly: "orderly S" and cal: "sc_calendar_id (lp_claim L) = cal"
  shows "ends S cal (\<lambda>_. True) (restart_pages S p L) (round_ends cal)"
proof -
  have rest: "ends S cal (\<lambda>_. case r of Inl e \<Rightarrow> True | Inr c' \<Rightarrow> sc_calendar_id c' = sc_calendar_id (lp_claim L))
      (and_then (check_ctx S) (\<lambda>_. resume_pages S p L r)) (round_ends cal)" for r
  proof (cases "\<forall>c'. r = Inr c' \<longrightarrow> sc_calendar_id c' = cal")
    case True
    then have resumed: "ends S cal (\<lambda>_. True) (resume_pages S p L r) (round_ends cal)"
      by (intro ends_resume [OF orderly cal]) blast
    have "ends S cal (\<lambda>_. True) (and_then (check_ctx S) (\<lambda>_. resume_pages S p L r)) (round_ends cal)"
      by (rule ends_and_then [OF ends_check_ctx resumed]) simp
    then show ?thesis by (rule ends_any)
  next
    case False
    then obtain c' where "r = Inr c'" and "sc_calendar_id c' \<noteq> cal" by blast
    then show ?thesis by (simp add: cal ends_false)
  qed
  show ?thesis unfolding restart_pages_def Let_def
    by (rule ends_if, rule ends_fail_run [OF orderly cal], rule ends_and_then [OF ends_clock], simp,
        rule ends_and_then [OF ends_reset [OF orderly] rest])
qed

text \<open>Whether a page was accepted as the last one.\<close>

definition page_ends :: "string \<Rightarrow> bool \<Rightarrow> unit res \<times> capture_plan \<Rightarrow> 'w sync_run \<Rightarrow> bool" where
  "page_ends cal final x s \<longleftrightarrow> (case fst x of Inl e \<Rightarrow> True | Inr _ \<Rightarrow> final \<longrightarrow> settled_by completes cal s)"

lemma page_ends_moment [simp]: "page_ends cal final x (s\<lparr>vr_moment := n\<rparr>) \<longleftrightarrow> page_ends cal final x s"
  by (simp add: page_ends_def split: sum.splits)

lemma ends_keep_direct:
  assumes orderly: "orderly S" and cal: "sc_calendar_id c = cal"
  shows "ends S cal (\<lambda>_. True) (keep_direct S c plan batch final) (page_ends cal final)"
proof -
  have op: "ends S cal (\<lambda>_. True) (attempt (store S (\<lambda>_. [Kept c batch final])
       (\<lambda>_. apply_event_sync_page (rv_zones S) (rv_cipher S) c batch final now)))
     (\<lambda>r s. case r of Inl e \<Rightarrow> True | Inr _ \<Rightarrow> final \<longrightarrow> settled_by completes cal s)" for now
    by (rule ends_weaken [OF ends_store [where G = "\<lambda>_ db. final \<longrightarrow> freed cal db", OF orderly]])
      (use page_frees cal in \<open>auto simp: settled_by_def completes_def split: sum.splits\<close>)
  show ?thesis unfolding keep_direct_def
    by (rule ends_and_then [OF ends_clock], simp, rule ends_and_then [OF op]) (simp add: ends_ret page_ends_def)
qed

lemma ends_stage:
  assumes orderly: "orderly S" and cal: "sc_calendar_id (lp_claim L) = cal"
  shows "ends S cal (\<lambda>_. True) (attempt (stage_or_publish S L plan staged nextSync))
    (\<lambda>r s. case r of Inl e \<Rightarrow> True | Inr _ \<Rightarrow> sp_complete staged \<longrightarrow> settled_by completes cal s)"
proof -
  let ?c = "lp_claim L" and ?pin = "cp_input plan"
  have published: "ends S cal (\<lambda>_. True) (attempt (store S (\<lambda>_. [Published ?c (lp_ordinal L) staged])
      (\<lambda>n. finalize_source_projection_page (rv_unicode S) (rv_zones S) (rv_codec S) (rv_cipher S) ?c (pi_attempt_id ?pin)
         (lp_ordinal L) (lp_token L) (pi_timezone ?pin) staged now nextSync (rv_uuid S n) (rv_read S n) (rv_inner S n))))
      (\<lambda>r s. case r of Inl e \<Rightarrow> True | Inr _ \<Rightarrow> sp_complete staged \<longrightarrow> settled_by completes cal s)" for now
    by (rule ends_weaken [OF ends_store [where G = "\<lambda>_. freed cal", OF orderly]])
      (use finalize_source_frees cal in \<open>auto simp: settled_by_def completes_def split: sum.splits\<close>)
  have kept: "ends S cal (\<lambda>_. True) (attempt (store S (\<lambda>_. [Staged ?c (lp_ordinal L) staged])
      (\<lambda>n. apply_projection_staged_page (rv_zones S) (rv_codec S) (rv_cipher S) ?c (pi_attempt_id ?pin) (lp_ordinal L)
            (lp_token L) (pi_timezone ?pin) staged now (rv_read S n))))
      (\<lambda>r s. True)" for now
    by (rule ends_weaken [OF ends_store [where G = "\<lambda>_ _. True", OF orderly]]) (auto intro: apply_staged_ids)
  show ?thesis
  proof (cases "sp_complete staged")
    case True
    show ?thesis
      unfolding stage_or_publish_def Let_def attempt_clock
      by (simp only: True if_True attempt_forget, rule ends_and_then [OF ends_clock], simp, rule ends_and_then [OF published])
        (auto intro!: ends_ret simp: True split: sum.splits)
  next
    case False
    show ?thesis
      unfolding stage_or_publish_def Let_def attempt_clock
      by (rule ends_and_then [OF ends_clock], simp, simp add: False, rule ends_weaken [OF kept]) (auto simp: False split: sum.splits)
  qed
qed

lemma ends_apply_page:
  assumes orderly: "orderly S" and cal: "sc_calendar_id (lp_claim L) = cal"
  shows "ends S cal (\<lambda>_. True) (apply_page S L plan batch page) (page_ends cal (sp_complete page))"
proof -
  let ?staged = "placed_page (sc_calendar_id (lp_claim L)) page"
  have stage: "ends S cal (\<lambda>_. True) (attempt (stage_or_publish S L plan ?staged nextSync))
    (\<lambda>r s. case r of Inl e \<Rightarrow> True | Inr _ \<Rightarrow> sp_complete page \<longrightarrow> settled_by completes cal s)" for nextSync
  proof -
    have "sp_complete ?staged = sp_complete page" by (simp add: placed_page_def)
    then show ?thesis using ends_stage [OF orderly cal, of plan ?staged nextSync] by (simp only:)
  qed
  have rest: "ends S cal (\<lambda>s. case r of Inl e \<Rightarrow> True | Inr _ \<Rightarrow> sp_complete page \<longrightarrow> settled_by completes cal s) (case r of
         Inr _ \<Rightarrow> ret (r, plan)
       | Inl e \<Rightarrow>
           if err_is e ErrCalendarSyncLeaseLost \<or> err_is e ErrExclusiveDispatchConflict then ret (r, plan)
           else and_then (ctx_err S) (\<lambda>x. if x \<noteq> None then ret (r, plan)
             else keep_direct S (lp_claim L) (plan\<lparr>cp_enabled := False\<rparr>) batch (sp_complete page)))
      (page_ends cal (sp_complete page))" for r
  proof (cases r)
    case (Inr u)
    then show ?thesis by (simp add: ends_ret page_ends_def)
  next
    case (Inl e)
    have "ends S cal (\<lambda>_. True) (if err_is e ErrCalendarSyncLeaseLost \<or> err_is e ErrExclusiveDispatchConflict then ret (r, plan)
           else and_then (ctx_err S) (\<lambda>x. if x \<noteq> None then ret (r, plan)
             else keep_direct S (lp_claim L) (plan\<lparr>cp_enabled := False\<rparr>) batch (sp_complete page)))
      (page_ends cal (sp_complete page))"
      by (intro ends_if ends_ret ends_and_then [OF ends_ctx_err] ends_keep_direct [OF orderly cal]) (simp_all add: page_ends_def Inl)
    then show ?thesis by (simp add: Inl)
  qed
  show ?thesis unfolding apply_page_def Let_def
    by (rule ends_if, rule ends_keep_direct [OF orderly cal], rule ends_and_then [OF stage rest])
qed

lemma ends_keep_page:
  assumes orderly: "orderly S" and cal: "sc_calendar_id (lp_claim L) = cal"
  shows "ends S cal (\<lambda>_. True) (keep_page S p L page) (round_ends cal)"
proof -
  have fields: "ends S cal (\<lambda>_. True) (final_fields S p degraded page batch) (\<lambda>_ _. True)" for degraded batch
    unfolding final_fields_def by (intro ends_if ends_ret ends_and_then [OF ends_clock]) simp_all
  have settle: "ends S cal (\<lambda>_. True) (and_then (settle_store S (lp_claim L) p e) (\<lambda>_. ret None)) (round_ends cal)" for e
    by (rule ends_and_then [OF ends_settle_store [OF orderly cal] ends_finished])
  have rest: "ends S cal (page_ends cal (sp_complete page) x) (case x of (r, plan) \<Rightarrow> and_then (check_ctx S) (\<lambda>_. case r of
         Inl e \<Rightarrow> and_then (settle_store S (lp_claim L) p e) (\<lambda>_. ret None)
       | Inr _ \<Rightarrow> if sp_complete page then ret None
           else ret (Some (L\<lparr>lp_capture := plan, lp_token := sp_next_page_token page,
             lp_seen := sp_next_page_token page # lp_seen L, lp_ordinal := lp_ordinal L + 1\<rparr>)))) (round_ends cal)" for x
  proof (cases x)
    case (Pair r plan)
    show ?thesis unfolding Pair prod.case
    proof (rule ends_and_then [OF ends_check_ctx])
      show "ends S cal (page_ends cal (sp_complete page) (r, plan)) (case r of
         Inl e \<Rightarrow> and_then (settle_store S (lp_claim L) p e) (\<lambda>_. ret None)
       | Inr _ \<Rightarrow> if sp_complete page then ret None
           else ret (Some (L\<lparr>lp_capture := plan, lp_token := sp_next_page_token page,
             lp_seen := sp_next_page_token page # lp_seen L, lp_ordinal := lp_ordinal L + 1\<rparr>))) (round_ends cal)"
        by (cases r) (auto intro!: ends_any [OF settle] ends_ret simp: page_ends_def round_ends_def cal)
    qed simp
  qed
  show ?thesis unfolding keep_page_def Let_def
    by (rule ends_if, rule ends_fail_run [OF orderly cal], rule ends_and_then [OF fields],
        rule ends_and_then [OF ends_apply_page [OF orderly cal] rest])
qed

lemma ends_sync_page:
  assumes orderly: "orderly S" and cal: "sc_calendar_id (lp_claim L) = cal"
  shows "ends S cal (\<lambda>_. True) (sync_page S p sync local L) (round_ends cal)"
proof -
  have cal': "sc_calendar_id (lp_claim (noticed_warnings page L)) = cal" for page
    by (simp add: noticed_warnings_def cal)
  have page: "ends S cal (\<lambda>_. True) (case validate_page (lp_mode L) page of
         Inl _ \<Rightarrow> fail_run S (lp_claim L) p protocol 0 (Sentinel ErrInvalidPage)
       | Inr _ \<Rightarrow> let L = noticed_warnings page L in
           if sp_reset_required page then restart_pages S p L else keep_page S p L page) (round_ends cal)" for page
    unfolding Let_def
    by (intro ends_case_sum ends_if ends_fail_run [OF orderly cal] ends_restart_pages [OF orderly cal'] ends_keep_page [OF orderly cal'])
  have failed: "ends S cal (\<lambda>_. True) (case classify e of (code, retryAfter) \<Rightarrow>
      fail_run S (lp_claim L) p code retryAfter (provider_failure_result e)) (round_ends cal)" for e
    by (cases "classify e") (simp add: ends_fail_run [OF orderly cal])
  show ?thesis unfolding sync_page_def Let_def [of "lp_claim L"] Let_def [of "page_request local L"]
    by (rule ends_and_then [OF ends_provider], rule ends_and_then [OF ends_check_ctx], simp, rule ends_case_sum, rule failed, rule page)
qed

lemma ends_run_pages:
  "run_pages S p sync local L s = (r, s') \<Longrightarrow> orderly S \<Longrightarrow> sc_calendar_id (lp_claim L) = cal \<Longrightarrow> one_state (vr_db s) \<Longrightarrow>
   one_state (vr_db s') \<and> (case r of Inl e \<Rightarrow> excused S e \<or> settled_by gives_up cal s' | Inr _ \<Rightarrow> settled_by completes cal s')"
proof (induction S p sync local L s arbitrary: r s' rule: run_pages.induct)
  case (1 S p sync local L s)
  obtain x s1 where check: "check_ctx S s = (x, s1)" by fastforce
  have first: "one_state (vr_db s1) \<and> (case x of Inl e \<Rightarrow> excused S e \<or> settled_by gives_up cal s1 | Inr _ \<Rightarrow> True)"
    by (rule endsD [OF ends_check_ctx [of "\<lambda>_. True" S cal] 1(5) _ check]) simp_all
  note run = 1(2) [unfolded run_pages.simps [of S p sync local L s] check]
  show ?case
  proof (cases x)
    case (Inl e)
    then show ?thesis using run first by (cases r) simp_all
  next
    case x: (Inr u)
    show ?thesis
    proof (cases "py_max_pages p \<le> lp_pages L")
      case True
      then have "fail_run S (lp_claim L) p transient 0 (Sentinel ErrPageLimit) s1 = (r, s')"
        using run x by simp
      from endsD [OF ends_fail_run [OF 1(3,4), where Q = "\<lambda>_. settled_by completes cal"] conjunct1 [OF first] _ this]
      show ?thesis by simp
    next
      case False
      obtain y s2 where page: "sync_page S p sync local L s1 = (y, s2)" by fastforce
      note second = endsD [OF ends_sync_page [OF 1(3,4)] conjunct1 [OF first] TrueI page]
      show ?thesis
      proof (cases y)
        case (Inl e)
        then show ?thesis using run x page False second by (cases r) simp_all
      next
        case (Inr next')
        show ?thesis
        proof (cases next')
          case None
          then show ?thesis using run x page False Inr second by (cases r) (simp_all add: round_ends_def)
        next
          case (Some L')
          have next_run: "run_pages S p sync local (L'\<lparr>lp_pages := lp_pages L + 1\<rparr>) s2 = (r, s')"
            using run x page False Inr Some by simp
          from 1(1) [OF check [symmetric] x False page [symmetric] Inr Some next_run 1(3)] second Inr Some
          show ?thesis by (simp add: round_ends_def)
        qed
      qed
    qed
  qed
qed

text \<open>
  C23. Every run of a claim ends the claim, whatever the provider answers and whatever other workers
  commit between its operations, as long as they keep one state row a calendar.  A run that
  succeeds did so by a last page that the store accepted, or gave the calendar back because of a
  reservation; a run that fails parked the calendar or scheduled its retry; and in both cases no
  worker holds its lease afterwards.  The exceptions are named: the run was cancelled, the lease
  was lost before, the store refused to end the claim, or the write of a repair is blocked or has
  no known outcome.
\<close>

theorem run_ends_claim:
  assumes "run_one S c s = (r, s')" and "orderly S" and "one_state (vr_db s)"
  shows "case r of
      Inr _ \<Rightarrow> settled_by completes (sc_calendar_id c) s'
    | Inl e \<Rightarrow> excused S e \<or> settled_by gives_up (sc_calendar_id c) s'"
proof -
  let ?cal = "sc_calendar_id c"
  have failed: "ends S ?cal (\<lambda>_. True) (fail_run S c p code n result) (\<lambda>_. settled_by completes ?cal)" for p code n result
    by (rule ends_fail_run [OF assms(2) refl])
  have pages: "ends S ?cal (\<lambda>_. True) (run_pages S p sync local (first_page c' plan)) (\<lambda>_. settled_by completes ?cal)"
    if "sc_calendar_id c' = ?cal" for p sync local c' plan
    using ends_run_pages [OF _ assms(2), of p sync local "first_page c' plan"] that
    by (intro endsI) (simp add: first_page_def)
  have capture: "ends S ?cal (same_calendar ?cal x) (case x of (e, c, plan) \<Rightarrow> (case e of
               Some e \<Rightarrow> settle_capture S c p e
             | None \<Rightarrow> run_pages S p sync local (first_page c plan))) (\<lambda>_. settled_by completes ?cal)" for x p sync local
  proof (cases x)
    case (fields e c' plan)
    show ?thesis
    proof (cases "sc_calendar_id c' = ?cal")
      case True
      show ?thesis unfolding fields prod.case
        by (rule ends_any, rule ends_case_option, rule pages [OF True], rule ends_settle_capture [OF assms(2) True])
    next
      case False
      then show ?thesis by (simp add: fields ends_false)
    qed
  qed
  have "ends S ?cal (\<lambda>_. True) (run_one S c) (\<lambda>_. settled_by completes ?cal)"
    unfolding run_one_def
    by (rule ends_and_then [OF ends_check_ctx], simp, rule ends_if, rule failed, rule ends_case_sum, rule failed)
      (auto split: prod.splits simp: Let_def intro!: ends_case_option failed ends_and_then [OF ends_repair_one [OF assms(2) refl]]
        ends_and_then [OF ends_begin_capture [OF assms(2) refl] capture])
  from endsD [OF this assms(3) TrueI assms(1)] show ?thesis by simp
qed

end
