(* ===== verification/Event_Service_Safety.thy ===== *)
theory Event_Service_Safety
  imports Event_Service Event_Lease Projection_Safety
begin

text \<open>
  What every run of the synchronization service guarantees, whatever the provider answers and
  whatever other workers commit between its operations: it ends within the bounds of its policy, it
  lets a provider change an object only with an authorization consumed under a reservation, and
  when it ends the claim it was given is no longer held.
\<close>

section \<open>What a program appends to the log\<close>

text \<open>\<open>appends P m\<close>: what \<open>m\<close> adds to the log satisfies \<open>P\<close>.\<close>

definition appends :: "(sync_action list \<Rightarrow> bool) \<Rightarrow> ('w, 'a) sync_prog \<Rightarrow> bool" where
  "appends P m \<longleftrightarrow> (\<forall>s. \<exists>added. vr_log (snd (m s)) = vr_log s @ added \<and> P added)"

named_theorems appends_intros "what the programs of the service append to the log"

lemma appendsI: "(\<And>s r s'. m s = (r, s') \<Longrightarrow> \<exists>added. vr_log s' = vr_log s @ added \<and> P added) \<Longrightarrow> appends P m"
  unfolding appends_def by (metis prod.collapse)

lemma appendsD: "appends P m \<Longrightarrow> m s = (r, s') \<Longrightarrow> \<exists>added. vr_log s' = vr_log s @ added \<and> P added"
  unfolding appends_def by (metis snd_conv)

lemma appends_weaken: "appends P m \<Longrightarrow> (\<And>added. P added \<Longrightarrow> Q added) \<Longrightarrow> appends Q m"
  unfolding appends_def by blast

lemma appends_and_then_split:
  assumes "appends P m" and "\<And>x. appends Q (k x)" and "\<And>a b. P a \<Longrightarrow> Q b \<Longrightarrow> R (a @ b)" and "\<And>a. P a \<Longrightarrow> R a"
  shows "appends R (and_then m k)"
proof (rule appendsI)
  fix s r s' assume run: "and_then m k s = (r, s')"
  obtain x s1 where m: "m s = (x, s1)" by fastforce
  from appendsD [OF assms(1) m] obtain a where a: "vr_log s1 = vr_log s @ a" "P a" by blast
  show "\<exists>added. vr_log s' = vr_log s @ added \<and> R added"
  proof (cases x)
    case (Inl e)
    then show ?thesis using run m a assms(4) by (auto simp: and_then_def)
  next
    case (Inr y)
    then have "k y s1 = (r, s')" using run m by (simp add: and_then_def)
    from appendsD [OF assms(2) this] a assms(3) show ?thesis by fastforce
  qed
qed

text \<open>Predicates that hold of the empty log and of the concatenation of two logs.\<close>

definition piecewise :: "(sync_action list \<Rightarrow> bool) \<Rightarrow> bool" where
  "piecewise P \<longleftrightarrow> P [] \<and> (\<forall>a b. P a \<longrightarrow> P b \<longrightarrow> P (a @ b))"

lemma appends_and_then:
  "piecewise P \<Longrightarrow> appends P m \<Longrightarrow> (\<And>x. appends P (k x)) \<Longrightarrow> appends P (and_then m k)"
  by (rule appends_and_then_split [of P m P k P]) (simp_all add: piecewise_def)

lemma appends_nil: "(\<And>s. vr_log (snd (m s)) = vr_log s) \<Longrightarrow> P [] \<Longrightarrow> appends P m"
  by (simp add: appends_def)

lemma appends_ret: "P [] \<Longrightarrow> appends P (ret x)"
  and appends_fail: "P [] \<Longrightarrow> appends P (fail e)"
  and appends_clock: "P [] \<Longrightarrow> appends P (clock S)"
  and appends_ctx_err: "P [] \<Longrightarrow> appends P (ctx_err S)"
  by (simp_all add: appends_def prog_defs clock_def ctx_err_def)

lemma appends_store:
  assumes "P []" and "\<And>x. P (notes x)"
  shows "appends P (store S notes f)"
  unfolding appends_def store_def Let_def using assms by (auto split: sum.splits)

lemma appends_query: "P [] \<Longrightarrow> appends P (query S f)"
  unfolding query_def by (rule appends_store)

lemma appends_attempt: "appends P m \<Longrightarrow> appends P (attempt m)"
  unfolding appends_def attempt_def by (simp split: prod.splits) (metis snd_conv)

lemma appends_wrap_fail: "appends P m \<Longrightarrow> appends P (wrap_fail h m)"
  unfolding appends_def wrap_fail_def by (simp split: prod.splits sum.splits) (metis snd_conv)

lemma appends_call: "P [a] \<Longrightarrow> appends P (call_provider a m)"
  unfolding appends_def call_provider_def logged_def by (simp split: prod.splits)

lemma appends_if: "(b \<Longrightarrow> appends P m) \<Longrightarrow> (\<not> b \<Longrightarrow> appends P n) \<Longrightarrow> appends P (if b then m else n)"
  by simp

lemma appends_case_option:
  "(x = None \<Longrightarrow> appends P m) \<Longrightarrow> (\<And>y. x = Some y \<Longrightarrow> appends P (n y)) \<Longrightarrow>
   appends P (case x of None \<Rightarrow> m | Some y \<Rightarrow> n y)"
  by (cases x) simp_all

lemma appends_case_sum:
  "(\<And>e. x = Inl e \<Longrightarrow> appends P (m e)) \<Longrightarrow> (\<And>y. x = Inr y \<Longrightarrow> appends P (n y)) \<Longrightarrow>
   appends P (case x of Inl e \<Rightarrow> m e | Inr y \<Rightarrow> n y)"
  by (cases x) simp_all

lemma appends_case_prod:
  "(\<And>y z. x = (y, z) \<Longrightarrow> appends P (m y z)) \<Longrightarrow> appends P (case x of (y, z) \<Rightarrow> m y z)"
  by (cases x) simp

lemma appends_case_bool: "appends P m \<Longrightarrow> appends P n \<Longrightarrow> appends P (case b of True \<Rightarrow> m | False \<Rightarrow> n)"
  by (cases b) simp_all

lemma appends_Let: "(\<And>x. x = t \<Longrightarrow> appends P (m x)) \<Longrightarrow> appends P (Let t m)"
  by simp

lemmas appends_rules = appends_and_then appends_ret appends_fail appends_clock appends_ctx_err appends_store
  appends_query appends_attempt appends_wrap_fail appends_call appends_if appends_case_option appends_case_sum
  appends_case_prod appends_case_bool appends_Let

section \<open>Bounds\<close>

text \<open>The calls and the resets that a log counts.\<close>

definition page_calls :: "sync_action list \<Rightarrow> nat" where
  "page_calls log = length (filter (\<lambda>a. case a of PageCall _ \<Rightarrow> True | _ \<Rightarrow> False) log)"

definition repair_calls :: "sync_action list \<Rightarrow> nat" where
  "repair_calls log = length (filter (\<lambda>a. case a of RepairCall _ \<Rightarrow> True | _ \<Rightarrow> False) log)"

definition restarts :: "sync_action list \<Rightarrow> nat" where
  "restarts log = length (filter (\<lambda>a. case a of Restarted _ \<Rightarrow> True | _ \<Rightarrow> False) log)"

lemma counts_append [simp]:
  "page_calls (a @ b) = page_calls a + page_calls b"
  "repair_calls (a @ b) = repair_calls a + repair_calls b"
  "restarts (a @ b) = restarts a + restarts b"
  by (simp_all add: page_calls_def repair_calls_def restarts_def)

lemma counts_simps [simp]:
  "page_calls [] = 0" "repair_calls [] = 0" "restarts [] = 0"
  "page_calls (a # log) = (case a of PageCall _ \<Rightarrow> 1 | _ \<Rightarrow> 0) + page_calls log"
  "repair_calls (a # log) = (case a of RepairCall _ \<Rightarrow> 1 | _ \<Rightarrow> 0) + repair_calls log"
  "restarts (a # log) = (case a of Restarted _ \<Rightarrow> 1 | _ \<Rightarrow> 0) + restarts log"
  by (cases a; simp add: page_calls_def repair_calls_def restarts_def)+

text \<open>At most so many page calls, repair calls and restarts.\<close>

definition within :: "nat \<Rightarrow> nat \<Rightarrow> nat \<Rightarrow> sync_action list \<Rightarrow> bool" where
  "within i j k log \<longleftrightarrow> page_calls log \<le> i \<and> repair_calls log \<le> j \<and> restarts log \<le> k"

lemma within_mono: "within i j k log \<Longrightarrow> i \<le> i' \<Longrightarrow> j \<le> j' \<Longrightarrow> k \<le> k' \<Longrightarrow> within i' j' k' log"
  by (simp add: within_def)

lemma within_nil [simp]: "within i j k []"
  by (simp add: within_def)

lemma within_steps [simp]:
  "within i j k [Reserved x]" "within i j k [Unreserved x]" "within i j k [Consumed x b]" "within i j k [Repaired y]"
  "within i j k [Started pin]" "within i j k [Kept c batch final]" "within i j k [Staged c n page]"
  "within i j k [Published c n page]" "within i j k [Retried c x t]" "within i j k [Parked c x]" "within i j k [GivenBack c]"
  "within (Suc i) j k [PageCall q]" "within i (Suc j) k [RepairCall q']" "within i j (Suc k) [Restarted c]"
  by (simp_all add: within_def)

lemma within_piecewise: "piecewise (within 0 0 0)"
  by (simp add: piecewise_def within_def)

text \<open>A program, and then another, within the sum of their bounds.\<close>

lemma within_then:
  assumes "appends (within i j k) m" and "\<And>x. appends (within i' j' k') (f x)"
    and "i + i' \<le> i2" "j + j' \<le> j2" "k + k' \<le> k2"
  shows "appends (within i2 j2 k2) (and_then m f)"
  by (rule appends_and_then_split [OF assms(1,2)]) (use assms(3-5) in \<open>auto simp: within_def\<close>)

lemmas service_defs = check_ctx_def end_claim_def fail_run_def storage_failure_def defer_conflict_def reserve_write_def
  release_write_def authorize_mutation_def settle_repair_def failed_repair_def start_capture_def plan_capture_def
  settle_capture_def settle_store_def keep_direct_def stage_or_publish_def apply_page_def final_fields_def keep_page_def

lemma quiet_programs:
  "appends (within 0 0 0) (check_ctx S)"
  "appends (within 0 0 0) (fail_run S c p class n result)"
  "appends (within 0 0 0) (storage_failure S c p)"
  "appends (within 0 0 0) (defer_conflict S c p e)"
  "appends (within 0 0 0) (authorize_mutation S c p item)"
  "appends (within 0 0 0) (settle_repair S c p batch)"
  "appends (within 0 0 0) (failed_repair S c p item e)"
  "appends (within 0 0 0) (start_capture S c plan)"
  "appends (within 0 0 0) (plan_capture S c)"
  "appends (within 0 0 0) (settle_capture S c p e)"
  "appends (within 0 0 0) (settle_store S c p e)"
  "appends (within 0 0 0) (keep_page S p L page)"
  "appends (within 0 0 0) (release_write S cal i)"
  unfolding service_defs
  by (intro appends_rules within_piecewise within_nil within_steps)+

lemma within_any: "appends (within 0 0 0) m \<Longrightarrow> appends (within i j k) m"
  by (erule appends_weaken) (simp add: within_def)

lemma within_first:
  "appends (within i j k) m \<Longrightarrow> (\<And>x. appends (within 0 0 0) (f x)) \<Longrightarrow> appends (within i j k) (and_then m f)"
  by (rule within_then [where i = i and j = j and k = k and i' = 0 and j' = 0 and k' = 0]) simp_all

lemma within_last:
  "appends (within 0 0 0) m \<Longrightarrow> (\<And>x. appends (within i j k) (f x)) \<Longrightarrow> appends (within i j k) (and_then m f)"
  by (rule within_then [where i = 0 and j = 0 and k = 0 and i' = i and j' = j and k' = k]) simp_all

lemma fail_run_stops [simp]: "fail_run S c p code n result s = (Inr x, s') \<longleftrightarrow> False"
  by (auto simp: fail_run_def and_then_def attempt_def fail_def split: prod.splits sum.splits if_splits)

lemma attempt_returns: "\<exists>x s'. attempt m s = (Inr x, s')"
  by (cases "m s") (simp add: attempt_def)

lemma within_begin_capture: "appends (within 0 0 1) (begin_capture S c)"
proof -
  have restart: "appends (within 0 0 1) (restart_capture S c plan)" for c plan
    unfolding restart_capture_def
  proof (rule within_last)
    show "appends (within 0 0 0) (clock S)" by (rule appends_clock) simp
    show "appends (within 0 0 1) (and_then (attempt (store S (\<lambda>_. [Restarted c]) (\<lambda>_. reset_calendar_sync c now)))
        (\<lambda>r. case r of Inl e \<Rightarrow> ret (Some e, c, plan)
         | Inr c' \<Rightarrow> and_then (plan_capture S c') (\<lambda>r. case r of Inl e \<Rightarrow> ret (Some e, c', no_capture)
           | Inr plan \<Rightarrow> if \<not> cp_enabled plan \<or> cp_reset plan then ret (Some (Sentinel ErrStorageFailure), c', plan)
               else start_capture S c' plan)))" for now
    proof (rule within_first)
      show "appends (within 0 0 1) (attempt (store S (\<lambda>_. [Restarted c]) (\<lambda>_. reset_calendar_sync c now)))"
        by (intro appends_attempt appends_store) (simp_all add: within_def)
    qed (intro appends_rules within_piecewise quiet_programs within_nil)
  qed
  have plain: "appends (within 0 0 1) (ret (x, c, plan))" for x c plan
    by (rule appends_ret) simp
  show ?thesis
    unfolding begin_capture_def
    by (intro appends_if appends_case_sum plain within_last quiet_programs(9) restart within_any [OF quiet_programs(8)])
qed

lemma within_repair_object: "appends (within 0 1 0) (repair_object S c local required p repair item)"
proof -
  have tail: "appends (within 0 0 0) (and_then (check_ctx S) (\<lambda>_. case r of
           Inl e \<Rightarrow> failed_repair S c p item e
         | Inr result \<Rightarrow> (case repair_batch result (sc_calendar_id c) item of
             Inl _ \<Rightarrow> fail_run S c p protocol 0 (Sentinel ErrInvalidPage)
           | Inr batch \<Rightarrow>
               and_then (if rb_outcome batch = StillQuarantined
                         then and_then (clock S) (\<lambda>now. ret (batch\<lparr>rb_next_repair_at := Some (now + retry_delay p 0)\<rparr>))
                         else ret batch) (\<lambda>batch.
               and_then (settle_repair S c p batch) (\<lambda>_. case permit of
                   Some (Some i) \<Rightarrow> wrap_fail unknown_mutation (release_write S (sc_calendar_id c) i)
                 | _ \<Rightarrow> ret ())))))" for permit r
    by (intro appends_rules within_piecewise quiet_programs within_nil)
  have ask: "appends (within 0 1 0) (attempt (call_provider (RepairCall request) m))" for request m
    by (intro appends_attempt appends_call) (simp add: within_def)
  have zone: "appends (within 0 0 0) (if required \<and> rv_reads_zone S
        then attempt (query S (\<lambda>_. repair_calendar_time_zone (sc_calendar_id c))) else ret (Inr ''''))"
    by (intro appends_rules within_nil)
  have permit: "appends (within 0 0 0) (if b then authorize_mutation S c p item else ret None)" for b
    by (intro appends_if quiet_programs appends_ret within_nil)
  show ?thesis
    unfolding repair_object_def Let_def
    by (rule within_last [OF zone], rule appends_case_sum, rule within_any [OF quiet_programs(3)], rule within_last [OF permit],
        rule within_first [OF ask tail])
qed

lemma within_for_each:
  "(\<And>x. appends (within 0 1 0) (f x)) \<Longrightarrow> appends (within 0 (length xs) 0) (for_each f xs)"
  by (induction xs) (simp_all add: appends_ret within_then [where i = 0 and i' = 0 and j = 1 and k = 0 and k' = 0])

lemma restart_pages_resets:
  assumes "restart_pages S p L s = (r, s')"
  shows "(\<exists>added. vr_log s' = vr_log s @ added \<and> within 0 0 0 added) \<and> (\<forall>L'. r \<noteq> Inr (Some L')) \<or>
    lp_resets L + 1 \<le> py_max_resets p \<and> (\<exists>added. vr_log s' = vr_log s @ added \<and> within 0 0 2 added) \<and>
      (\<forall>L'. r = Inr (Some L') \<longrightarrow> lp_resets L' = lp_resets L + 1)"
proof (cases "py_max_resets p < lp_resets L + 1")
  case True
  have "(\<exists>added. vr_log s' = vr_log s @ added \<and> within 0 0 0 added)"
    using assms True by (intro appendsD [OF quiet_programs(2)]) (simp add: restart_pages_def)
  moreover have "r \<noteq> Inr x" for x
    using assms True fail_run_stops by (fastforce simp: restart_pages_def)
  ultimately show ?thesis by blast
next
  case False
  have resume: "appends (within 0 0 1) (resume_pages S p L r')" for r'
    unfolding resume_pages_def
  proof (rule appends_case_sum)
    show "appends (within 0 0 1) (and_then (settle_store S (lp_claim L) p e) (\<lambda>_. ret None))" for e
      by (rule within_any) (intro appends_rules within_piecewise quiet_programs within_nil)
  qed (intro within_first [OF within_begin_capture] appends_rules within_piecewise quiet_programs within_nil)
  have "appends (within 0 0 2) (and_then (attempt (store S (\<lambda>_. [Restarted (lp_claim L)]) (\<lambda>_. reset_calendar_sync (lp_claim L) now)))
      (\<lambda>r. and_then (check_ctx S) (\<lambda>_. resume_pages S p L r)))" for now
  proof (rule within_then [where i = 0 and i' = 0 and j = 0 and j' = 0 and k = 1 and k' = 1])
    show "appends (within 0 0 1) (and_then (check_ctx S) (\<lambda>_. resume_pages S p L r))" for r
      by (rule within_last [OF quiet_programs(1) resume])
  qed (simp_all add: appends_attempt appends_store within_def)
  then have "appends (within 0 0 2) (restart_pages S p L)"
    using False by (simp add: restart_pages_def Let_def within_last appends_clock)
  from appendsD [OF this assms] have log: "\<exists>added. vr_log s' = vr_log s @ added \<and> within 0 0 2 added" .
  have "lp_resets L' = lp_resets L + 1" if "r = Inr (Some L')" for L'
  proof -
    have resets: "lp_resets L' = lp_resets L + 1" if "resume_pages S p L r' u = (Inr (Some L'), s')" for r' u
      using that by (cases r') (auto simp: resume_pages_def returns_iff split: option.splits)
    from assms False that show ?thesis
      by (auto simp: restart_pages_def Let_def and_then_Inr_iff intro: resets)
  qed
  with False log show ?thesis by auto
qed

lemma keep_page_resets:
  assumes "keep_page S p L page s = (Inr (Some L'), s')"
  shows "lp_resets L' = lp_resets L"
  using assms unfolding keep_page_def Let_def
  by (auto simp: returns_iff split: if_splits sum.splits option.splits)

lemma sync_page_bounds:
  assumes "sync_page S p sync local L s = (r, s')"
  shows "\<exists>added. vr_log s' = vr_log s @ added \<and> page_calls added \<le> 1 \<and> repair_calls added = 0 \<and>
    (case r of Inr (Some L') \<Rightarrow> restarts added + 2 * nat (py_max_resets p - lp_resets L') \<le> 2 * nat (py_max_resets p - lp_resets L)
     | _ \<Rightarrow> restarts added \<le> 2 * nat (py_max_resets p - lp_resets L))"
proof -
  let ?q = "page_request local L"
  obtain r0 s1 where call: "call_provider (PageCall ?q) (sync ?q) s = (r0, s1)" by fastforce
  then have s1: "vr_log s1 = vr_log s @ [PageCall ?q]" by (auto simp: call_provider_def logged_def split: prod.splits)
  let ?k = "\<lambda>r0. and_then (check_ctx S) (\<lambda>_. case r0 of
       Inl e \<Rightarrow> (case classify e of (class, retryAfter) \<Rightarrow> fail_run S (lp_claim L) p class retryAfter (provider_failure_result e))
     | Inr page \<Rightarrow> (case validate_page (lp_mode L) page of
         Inl _ \<Rightarrow> fail_run S (lp_claim L) p protocol 0 (Sentinel ErrInvalidPage)
       | Inr _ \<Rightarrow> let L = noticed_warnings page L in
           if sp_reset_required page then restart_pages S p L else keep_page S p L page))"
  have k: "?k r0 s1 = (r, s')" using assms call by (simp add: sync_page_def Let_def and_then_def attempt_def)
  have quiet: ?thesis if "appends (within 0 0 0) m" "m s2 = (r, s')" "vr_log s2 = vr_log s1"
    "\<And>L'. r = Inr (Some L') \<Longrightarrow> lp_resets L' = lp_resets L" for m :: "('a, page_loop option) sync_prog" and s2
  proof -
    from appendsD [OF that(1,2)] obtain b where b: "vr_log s' = vr_log s2 @ b" "within 0 0 0 b" by blast
    show ?thesis
      by (rule exI [of _ "PageCall ?q # b"]) (use b s1 that(3,4) in \<open>auto simp: within_def split: sum.splits option.splits\<close>)
  qed
  obtain x s2 where check: "check_ctx S s1 = (x, s2)" by fastforce
  have s2: "vr_log s2 = vr_log s1"
    using check by (auto simp: check_ctx_def ctx_err_def prog_defs split: option.splits)
  show ?thesis
  proof (cases x)
    case (Inl e)
    then have "fail e s2 = (r, s')" using k check by (simp add: prog_defs)
    have "appends (within 0 0 0) (fail e :: ('a, page_loop option) sync_prog)" by (rule appends_fail) simp
    from quiet [OF this \<open>fail e s2 = (r, s')\<close> s2] \<open>fail e s2 = (r, s')\<close> show ?thesis by (auto simp: fail_def)
  next
    case (Inr u)
    have stop: ?thesis if "fail_run S (lp_claim L) p code n result s2 = (r, s')" for code n result
      by (rule quiet [OF quiet_programs(2) that]) (use that s2 in auto)
    show ?thesis
    proof (cases r0)
      case (Inl e)
      then show ?thesis using k check Inr stop by (simp add: and_then_def split: prod.splits)
    next
      case r0: (Inr page)
      show ?thesis
      proof (cases "validate_page (lp_mode L) page")
        case (Inl e)
        then show ?thesis using k check Inr r0 stop by (simp add: and_then_def)
      next
        case (Inr v)
        define L1 where "L1 = noticed_warnings page L"
        have L1: "lp_resets L1 = lp_resets L" by (simp add: L1_def noticed_warnings_def)
        have run: "(if sp_reset_required page then restart_pages S p L1 else keep_page S p L1 page) s2 = (r, s')"
          using k check \<open>x = Inr u\<close> r0 Inr unfolding L1_def by (simp add: and_then_def Let_def split del: if_split)
        show ?thesis
        proof (cases "sp_reset_required page")
          case False
          with run have run: "keep_page S p L1 page s2 = (r, s')" by simp
          show ?thesis
            by (rule quiet [OF quiet_programs(12) run s2]) (use run keep_page_resets L1 in fastforce)
        next
          case True
          with run have "restart_pages S p L1 s2 = (r, s')" by simp
          from restart_pages_resets [OF this] show ?thesis
          proof (elim disjE conjE exE)
            fix b assume b: "vr_log s' = vr_log s2 @ b" "within 0 0 0 b" "\<forall>L'. r \<noteq> Inr (Some L')"
            show ?thesis
              by (rule exI [of _ "PageCall ?q # b"]) (use b s1 s2 in \<open>auto simp: within_def split: sum.splits option.splits\<close>)
          next
            fix b assume b: "lp_resets L1 + 1 \<le> py_max_resets p" "vr_log s' = vr_log s2 @ b" "within 0 0 2 b"
              "\<forall>L'. r = Inr (Some L') \<longrightarrow> lp_resets L' = lp_resets L1 + 1"
            show ?thesis
              by (rule exI [of _ "PageCall ?q # b"]) (use b s1 s2 L1 in \<open>auto simp: within_def split: sum.splits option.splits\<close>)
          qed
        qed
      qed
    qed
  qed
qed

lemma run_pages_bounds:
  assumes "run_pages S p sync local L s = (r, s')"
  shows "\<exists>added. vr_log s' = vr_log s @ added \<and>
    within (nat (py_max_pages p - lp_pages L)) 0 (2 * nat (py_max_resets p - lp_resets L)) added"
  using assms
proof (induction S p sync local L s arbitrary: r s' rule: run_pages.induct)
  case (1 S p sync local L s)
  obtain x s1 where check: "check_ctx S s = (x, s1)" by fastforce
  have s1: "vr_log s1 = vr_log s"
    using check by (auto simp: check_ctx_def ctx_err_def prog_defs split: option.splits)
  have quiet: ?case if "vr_log s' = vr_log s" using that by (intro exI [of _ "[]"]) simp
  show ?case
  proof (cases x)
    case (Inl e)
    then show ?thesis using 1(2) check s1 by (intro quiet) (simp add: run_pages.simps [of S])
  next
    case x: (Inr u)
    show ?thesis
    proof (cases "py_max_pages p \<le> lp_pages L")
      case True
      then have "fail_run S (lp_claim L) p transient 0 (Sentinel ErrPageLimit) s1 = (r, s')"
        using 1(2) check x by (simp add: run_pages.simps [of S])
      from appendsD [OF quiet_programs(2) this] s1 show ?thesis by (auto simp: within_def)
    next
      case False
      obtain y s2 where page: "sync_page S p sync local L s1 = (y, s2)" by fastforce
      from sync_page_bounds [OF page] obtain a where a: "vr_log s2 = vr_log s1 @ a" "page_calls a \<le> 1" "repair_calls a = 0"
        and resets: "case y of Inr (Some L') \<Rightarrow> restarts a + 2 * nat (py_max_resets p - lp_resets L') \<le> 2 * nat (py_max_resets p - lp_resets L)
          | _ \<Rightarrow> restarts a \<le> 2 * nat (py_max_resets p - lp_resets L)" by blast
      have stop: ?thesis if "s' = s2" "\<And>L'. y \<noteq> Inr (Some L')"
        using that a resets False s1
        by (intro exI [of _ a]) (auto simp: within_def split: sum.splits option.splits)
      show ?thesis
      proof (cases y)
        case (Inl e)
        then show ?thesis using 1(2) check x page False by (intro stop) (simp_all add: run_pages.simps [of S])
      next
        case (Inr next')
        show ?thesis
        proof (cases next')
          case None
          then show ?thesis using 1(2) check x page False Inr by (intro stop) (simp_all add: run_pages.simps [of S])
        next
          case (Some L')
          have "run_pages S p sync local (L'\<lparr>lp_pages := lp_pages L + 1\<rparr>) s2 = (r, s')"
            using 1(2) check x page False Inr Some by (simp add: run_pages.simps [of S p sync local L])
          from 1(1) [OF check [symmetric] x False page [symmetric] Inr Some this]
          obtain b where b: "vr_log s' = vr_log s2 @ b"
            "within (nat (py_max_pages p - (lp_pages L + 1))) 0 (2 * nat (py_max_resets p - lp_resets L')) b" by auto
          show ?thesis
            by (rule exI [of _ "a @ b"]) (use a b resets Inr Some False s1 in \<open>auto simp: within_def\<close>)
        qed
      qed
    qed
  qed
qed

lemma run_one_appends:
  assumes "rv_resolve S (sc_calendar_id c) = Inr (provider, local)"
  defines "p \<equiv> service_policy S (Some provider)"
  shows "appends (within (nat (py_max_pages p)) (nat (py_max_object_repairs_per_run p)) (1 + 2 * nat (py_max_resets p)))
    (run_one S c)"
proof -
  let ?i = "nat (py_max_pages p)" and ?j = "nat (py_max_object_repairs_per_run p)" and ?k = "2 * nat (py_max_resets p)"
  have pages: "appends (within ?i 0 ?k) (run_pages S p sync local (first_page c' plan))" for sync c' plan
    using run_pages_bounds [of S p sync local "first_page c' plan"] by (intro appendsI) (simp add: first_page_def)
  have quarantine: "appends (within 0 ?j 0) (repair_one S c provider local p)"
    unfolding repair_one_def
  proof (rule appends_case_option)
    show "appends (within 0 ?j 0) (ret ())" by (rule appends_ret) simp
    fix repair
    have due: "length due \<le> ?j"
      if "attempt (query S (\<lambda>_. list_due_event_sync_quarantine c now (py_max_object_repairs_per_run p))) s = (Inr (Inr due), s')"
      for now due s s'
      using that by (auto simp: attempt_def query_def store_def Let_def list_due_event_sync_quarantine_def
          split: prod.splits sum.splits if_splits)
    show "appends (within 0 ?j 0) (and_then (clock S) (\<lambda>now.
         and_then (attempt (query S (\<lambda>_. list_due_event_sync_quarantine c now (py_max_object_repairs_per_run p)))) (\<lambda>r.
           case r of
             Inl e \<Rightarrow> if err_is e ErrCalendarSyncLeaseLost then fail e else storage_failure S c p
           | Inr due \<Rightarrow> for_each (repair_object S c local (es_name provider = ''google'') p repair) due)))"
      (is "appends _ (and_then _ (\<lambda>now. and_then (?list now) ?rest))")
    proof (rule within_then [where i = 0 and i' = 0 and j = 0 and j' = ?j and k = 0 and k' = 0])
      show "appends (within 0 ?j 0) (and_then (?list now) ?rest)" for now
      proof (rule appendsI)
        fix s r s' assume run: "and_then (?list now) ?rest s = (r, s')"
        obtain x s1 where list: "?list now s = (Inr x, s1)" by (metis attempt_returns)
        have s1: "vr_log s1 = vr_log s"
          using list by (auto simp: attempt_def query_def store_def Let_def split: prod.splits sum.splits)
        have rest: "?rest x s1 = (r, s')" using run list by (simp add: and_then_def)
        show "\<exists>added. vr_log s' = vr_log s @ added \<and> within 0 ?j 0 added"
        proof (cases x)
          case (Inl e)
          have "appends (within 0 ?j 0) (?rest x)" unfolding Inl sum.case
            by (intro appends_if appends_fail appends_weaken [OF quiet_programs(3)]) (simp_all add: within_def)
          from appendsD [OF this rest] s1 show ?thesis by simp
        next
          case (Inr due)
          have "length due \<le> ?j" by (rule due) (use list Inr in simp)
          then have "appends (within 0 ?j 0) (?rest x)" unfolding Inr sum.case
            by (intro appends_weaken [OF within_for_each [OF within_repair_object]]) (simp add: within_def)
          from appendsD [OF this rest] s1 show ?thesis by simp
        qed
      qed
    qed (simp_all add: appends_clock)
  qed
  have later: "appends (within ?i 0 (1 + ?k)) (and_then (begin_capture S c) (\<lambda>(e, c, plan). case e of
       Some e \<Rightarrow> settle_capture S c p e
     | None \<Rightarrow> run_pages S p sync local (first_page c plan)))" for sync
  proof (rule within_then [where i = 0 and i' = ?i and j = 0 and j' = 0 and k = 1 and k' = ?k, OF within_begin_capture])
    show "appends (within ?i 0 ?k) (case x of (e, c, plan) \<Rightarrow> (case e of
       Some e \<Rightarrow> settle_capture S c p e
     | None \<Rightarrow> run_pages S p sync local (first_page c plan)))" for x :: capture
      by (intro appends_case_prod appends_case_option pages within_any [OF quiet_programs(10)])
  qed simp_all
  have quiet: "appends (within ?i ?j (1 + ?k)) (fail_run S c q code n result)" for q code n result
    by (rule appends_weaken [OF quiet_programs(2)]) (simp add: within_def)
  show ?thesis
    unfolding run_one_def assms(1) sum.case prod.case Let_def p_def [symmetric]
  proof (rule within_then [where i = 0 and i' = ?i and j = 0 and j' = ?j and k = 0 and k' = "1 + ?k", OF quiet_programs(1)])
    show "appends (within ?i ?j (1 + ?k)) (if \<not> sc_window_start c < sc_window_end c
         then fail_run S c (service_policy S None) protocol 0 (Sentinel ErrInvalidPage)
         else case es_sync provider of
           None \<Rightarrow> fail_run S c p (class_text EventSyncUnsupported) 0 (Sentinel ErrCapabilityUnavailable)
         | Some sync \<Rightarrow> and_then (repair_one S c provider local p) (\<lambda>_.
             and_then (begin_capture S c) (\<lambda>(e, c, plan). case e of
               Some e \<Rightarrow> settle_capture S c p e
             | None \<Rightarrow> run_pages S p sync local (first_page c plan))))" for x
      by (intro appends_if appends_case_option quiet within_then [where i = 0 and i' = ?i and j = ?j and j' = 0 and k = 0
            and k' = "1 + ?k", OF quarantine later]) simp_all
  qed simp_all
qed

text \<open>
  C1. A run of a claim ends within the bounds of its policy, whatever the provider answers: it asks
  for at most \<open>MaxPages\<close> pages, repairs at most \<open>MaxObjectRepairsPerRun\<close> objects, and starts a
  new generation at most twice for each of \<open>MaxResets\<close> resets and once before them.
\<close>

theorem run_within_policy:
  assumes "rv_resolve S (sc_calendar_id c) = Inr (provider, local)" and "run_one S c s = (r, s')"
  defines "p \<equiv> service_policy S (Some provider)"
  shows "\<exists>added. vr_log s' = vr_log s @ added \<and> int (page_calls added) \<le> py_max_pages p \<and>
    int (repair_calls added) \<le> py_max_object_repairs_per_run p \<and> int (restarts added) \<le> 1 + 2 * py_max_resets p"
proof -
  obtain added where "vr_log s' = vr_log s @ added" "within (nat (py_max_pages p)) (nat (py_max_object_repairs_per_run p))
      (1 + 2 * nat (py_max_resets p)) added"
    using appendsD [OF run_one_appends [OF assms(1)] assms(2)] unfolding p_def by blast
  moreover have "0 < py_max_pages p" "0 < py_max_object_repairs_per_run p" "0 < py_max_resets p"
    by (simp_all add: p_def service_policy_def normalized_policy_def Let_def or_default_def defaultMaxPages_def
        defaultMaxResets_def defaultMaxObjectRepairsPerRun_def)
  ultimately show ?thesis by (intro exI [of _ added]) (auto simp: within_def)
qed

section \<open>Repairs that may write\<close>

text \<open>
  Before a call that allows the provider to change an object, the run reserved the calendar and
  consumed the authorization of that object, and did nothing between.
\<close>

definition permitted :: "sync_action list \<Rightarrow> bool" where
  "permitted log \<longleftrightarrow> (\<forall>before q after. log = before @ RepairCall q # after \<and> rx_allow_mutation q \<longrightarrow>
     (\<exists>earlier i. before = earlier @ [Reserved i, Consumed (so_object_id (rx_object q)) True]))"

lemma permitted_append:
  assumes "permitted a" and "permitted b"
  shows "permitted (a @ b)"
  unfolding permitted_def
proof (intro allI impI, elim conjE)
  fix before q after assume split: "a @ b = before @ RepairCall q # after" and q: "rx_allow_mutation q"
  from split consider us where "a = before @ us" "us @ b = RepairCall q # after"
    | us where "before = a @ us" "b = us @ RepairCall q # after"
    by (auto simp: append_eq_append_conv2)
  then show "\<exists>earlier i. before = earlier @ [Reserved i, Consumed (so_object_id (rx_object q)) True]"
  proof cases
    case 1
    show ?thesis
    proof (cases us)
      case Nil
      then have "b = [] @ RepairCall q # after" using 1 by simp
      then show ?thesis using assms(2) q unfolding permitted_def by fastforce
    next
      case (Cons u us')
      then have "a = before @ RepairCall q # us'" using 1 by simp
      then show ?thesis using assms(1) q unfolding permitted_def by blast
    qed
  next
    case 2
    then obtain earlier i where "us = earlier @ [Reserved i, Consumed (so_object_id (rx_object q)) True]"
      using assms(2) q unfolding permitted_def by blast
    with 2 have "before = (a @ earlier) @ [Reserved i, Consumed (so_object_id (rx_object q)) True]" by simp
    then show ?thesis by blast
  qed
qed

lemma permitted_quiet: "repair_calls log = 0 \<Longrightarrow> permitted log"
  unfolding permitted_def by auto

lemma permitted_piecewise: "piecewise permitted"
  by (simp add: piecewise_def permitted_append permitted_quiet)

lemma appends_permitted: "appends (within i 0 k) m \<Longrightarrow> appends permitted m"
  by (erule appends_weaken) (simp add: within_def permitted_quiet)

lemma authorize_log:
  assumes "authorize_mutation S c p item s = (Inr permit, s')" and "rv_guards S" and "permit \<noteq> None"
  shows "\<exists>i. vr_log s' = vr_log s @ [Reserved i, Consumed (qr_object_id item) True]"
proof -
  let ?take = "\<lambda>now. store S (\<lambda>b. [Consumed (qr_object_id item) b]) (\<lambda>_. consume_event_sync_provider_mutation_authorization c
     (qr_calendar_id item) (qr_object_id item) (qr_etag item) now)"
  obtain i s1 now s2 r s3 where held: "reserve_write S (sc_calendar_id c) s = (Inr i, s1)"
    and s2: "clock S s1 = (Inr now, s2)" and r: "attempt (?take now) s2 = (Inr r, s3)"
    and last: "(case r of
       Inl e \<Rightarrow> and_then (case Some i of None \<Rightarrow> ret () | Some i \<Rightarrow>
           wrap_fail (\<lambda>f. unknown_mutation (ErrJoin e f)) (release_write S (sc_calendar_id c) i)) (\<lambda>_.
           if err_is e ErrCalendarSyncLeaseLost then fail e else storage_failure S c p)
     | Inr True \<Rightarrow> ret (Some (Some i))
     | Inr False \<Rightarrow> and_then (case Some i of None \<Rightarrow> ret () | Some i \<Rightarrow>
           wrap_fail unknown_mutation (release_write S (sc_calendar_id c) i)) (\<lambda>_. ret None)) s3 = (Inr permit, s')"
    using assms(1,2) unfolding authorize_mutation_def Let_def by (auto simp: returns_iff)
  have s1: "vr_log s1 = vr_log s @ [Reserved i]"
    using held by (auto simp: reserve_write_def store_def Let_def split: sum.splits prod.splits)
  have "r = Inr True \<and> s' = s3"
    using last assms(3) by (cases r) (auto simp: returns_iff storage_failure_def split: bool.splits if_splits)
  moreover have "vr_log s2 = vr_log s1" using s2 by (auto simp: clock_def)
  ultimately show ?thesis
    using r s1 by (auto simp: attempt_def store_def Let_def split: prod.splits sum.splits)
qed

lemma permitted_repair:
  assumes "rv_guards S"
  shows "appends permitted (repair_object S c local required p repair item)"
proof -
  have call: "\<exists>after. vr_log s' = vr_log s @ RepairCall q # after \<and> permitted after"
    if run: "and_then (attempt (call_provider (RepairCall q) m)) f s = (r, s')" and f: "\<And>x. appends permitted (f x)"
    for q m f s r s'
  proof -
    obtain x s1 where c: "attempt (call_provider (RepairCall q) m) s = (Inr x, s1)" by (metis attempt_returns)
    then have s1: "vr_log s1 = vr_log s @ [RepairCall q]"
      by (auto simp: attempt_def call_provider_def logged_def split: prod.splits)
    have "f x s1 = (r, s')" using run c by (simp add: and_then_def)
    from appendsD [OF f this] s1 show ?thesis by auto
  qed
  have tail: "appends permitted (and_then (check_ctx S) (\<lambda>_. case r of
           Inl e \<Rightarrow> failed_repair S c p item e
         | Inr result \<Rightarrow> (case repair_batch result (sc_calendar_id c) item of
             Inl _ \<Rightarrow> fail_run S c p protocol 0 (Sentinel ErrInvalidPage)
           | Inr batch \<Rightarrow>
               and_then (if rb_outcome batch = StillQuarantined
                         then and_then (clock S) (\<lambda>now. ret (batch\<lparr>rb_next_repair_at := Some (now + retry_delay p 0)\<rparr>))
                         else ret batch) (\<lambda>batch.
               and_then (settle_repair S c p batch) (\<lambda>_. case permit of
                   Some (Some i) \<Rightarrow> wrap_fail unknown_mutation (release_write S (sc_calendar_id c) i)
                 | _ \<Rightarrow> ret ())))))" for permit r
    by (rule appends_permitted [of 0 0]) (intro appends_rules within_piecewise quiet_programs within_nil)
  let ?q = "\<lambda>zone permit. \<lparr>rx_calendar_id = local, rx_time_zone = zone, rx_window_start = sc_window_start c,
               rx_window_end = sc_window_end c, rx_object = \<lparr>so_object_id = qr_object_id item, so_etag = qr_etag item\<rparr>,
               rx_generation = sc_generation c, rx_allow_mutation = (permit \<noteq> None)\<rparr>"
  have asked: "appends permitted (and_then (if b then authorize_mutation S c p item else ret None) (\<lambda>permit.
      and_then (attempt (call_provider (RepairCall (?q zone permit)) (repair (?q zone permit)))) (f permit)))"
    if f: "\<And>permit x. appends permitted (f permit x)" for b zone f
  proof (rule appendsI)
    fix s r s' assume run: "and_then (if b then authorize_mutation S c p item else ret None) (\<lambda>permit.
      and_then (attempt (call_provider (RepairCall (?q zone permit)) (repair (?q zone permit)))) (f permit)) s = (r, s')"
    obtain x s1 where first: "(if b then authorize_mutation S c p item else ret None) s = (x, s1)" by fastforce
    show "\<exists>added. vr_log s' = vr_log s @ added \<and> permitted added"
    proof (cases x)
      case (Inl e)
      then have "s' = s1" using run first by (simp add: and_then_def)
      moreover have "appends permitted (if b then authorize_mutation S c p item else ret None)"
        by (intro appends_if appends_permitted [OF quiet_programs(5)] appends_ret permitted_quiet) simp
      from appendsD [OF this first] obtain a where "vr_log s1 = vr_log s @ a" "permitted a" by blast
      ultimately show ?thesis by auto
    next
      case (Inr permit)
      then have "and_then (attempt (call_provider (RepairCall (?q zone permit)) (repair (?q zone permit)))) (f permit) s1 = (r, s')"
        using run first by (simp add: and_then_def)
      from call [OF this f] obtain after where after: "vr_log s' = vr_log s1 @ RepairCall (?q zone permit) # after" "permitted after"
        by blast
      show ?thesis
      proof (cases permit)
        case None
        have "appends (within 0 0 0) (if b then authorize_mutation S c p item else ret None)"
          by (intro appends_if quiet_programs(5) appends_ret) simp
        from appendsD [OF this first] obtain a where a: "vr_log s1 = vr_log s @ a" "within 0 0 0 a" by blast
        have "permitted [RepairCall (?q zone permit)]"
          unfolding permitted_def by (auto simp: None Cons_eq_append_conv)
        then have "permitted (a @ [RepairCall (?q zone permit)] @ after)"
          using a(2) after(2) by (intro permitted_append) (auto simp: within_def intro: permitted_quiet)
        then show ?thesis using a after by simp
      next
        case (Some h)
        then have "b" using first Inr by (cases b) (auto simp: ret_def)
        then have "authorize_mutation S c p item s = (Inr permit, s1)" using first Inr by simp
        from authorize_log [OF this assms] Some obtain i where
          i: "vr_log s1 = vr_log s @ [Reserved i, Consumed (qr_object_id item) True]" by blast
        have "permitted [Reserved i, Consumed (qr_object_id item) True, RepairCall (?q zone permit)]"
          unfolding permitted_def by (auto simp: Cons_eq_append_conv)
        from permitted_append [OF this after(2)] show ?thesis using i after(1) by simp
      qed
    qed
  qed
  show ?thesis
    unfolding repair_object_def Let_def
  proof (rule appends_and_then [OF permitted_piecewise])
    show "appends permitted (if required \<and> rv_reads_zone S
        then attempt (query S (\<lambda>_. repair_calendar_time_zone (sc_calendar_id c))) else ret (Inr ''''))"
      by (intro appends_rules permitted_quiet) simp_all
  qed (intro appends_case_sum appends_permitted [OF quiet_programs(3)] asked tail)
qed

text \<open>
  C25. A provider changes an object only with leave: every repair call of a run that allows a
  mutation comes right after the run reserved the calendar against all other writers and consumed
  the operator's authorization for that very object.
\<close>

theorem repair_mutation_authorized:
  assumes "run_one S c s = (r, s')" and "rv_guards S" and "vr_log s' = vr_log s @ before @ RepairCall q # after"
    and "rx_allow_mutation q"
  shows "\<exists>earlier i. before = earlier @ [Reserved i, Consumed (so_object_id (rx_object q)) True]"
proof -
  have each: "appends permitted (for_each f xs)" if "\<And>x. appends permitted (f x)" for f :: "quarantine_row \<Rightarrow> ('a, unit) sync_prog" and xs
    using that by (induction xs) (auto intro!: appends_ret appends_and_then permitted_piecewise permitted_quiet)
  have nil: "permitted []" by (rule permitted_quiet) simp
  have pages: "appends permitted (run_pages S p sync local L)" for p sync local L
    by (rule appendsI, drule run_pages_bounds) (auto simp: within_def intro: permitted_quiet)
  have repairs: "appends permitted (repair_one S c provider local p)" for provider local p
    unfolding repair_one_def
    by (intro appends_rules permitted_piecewise nil each permitted_repair [OF assms(2)] appends_permitted [OF quiet_programs(3)])
  have "appends permitted (run_one S c)"
    unfolding run_one_def Let_def
    by (intro appends_and_then [OF permitted_piecewise] appends_if appends_case_sum appends_case_prod appends_case_option
        appends_permitted [OF quiet_programs(1)] appends_permitted [OF quiet_programs(2)] repairs
        appends_permitted [OF within_begin_capture] appends_permitted [OF quiet_programs(10)] pages)
  from appendsD [OF this assms(1)] assms(3) have "permitted (before @ RepairCall q # after)" by auto
  with assms(4) show ?thesis unfolding permitted_def by blast
qed

end
