(* ===== verification/Event_Service_Runs.thy ===== *)
theory Event_Service_Runs
  imports Event_Service_Ends Event_Service_Safety Projection_Served
begin

text \<open>
  Runs of the synchronization service on concrete data: a calendar that is read in two pages, and
  a calendar whose repair was authorized and is refused by its provider.
\<close>

section \<open>Concrete runs\<close>

text \<open>A service around one provider, with no other worker: the clock stands, nothing is cancelled.\<close>

definition quiet_service :: "'w source_provider \<Rightarrow> 'w sync_service" where
  "quiet_service provider = \<lparr>rv_resolve = (\<lambda>_. Inr (provider, ''p'')), rv_policy_for = None, rv_now = (\<lambda>_. 10),
     rv_read = (\<lambda>_ _. 5), rv_inner = (\<lambda>_ _. 5), rv_uuid = (\<lambda>_. ''operation-000001''), rv_other = (\<lambda>_ db. db),
     rv_ctx = (\<lambda>_. None), rv_zones = (\<lambda>_. None), rv_unicode = pub_case, rv_codec = pub_codec, rv_cipher = None,
     rv_stages = False, rv_defers = True, rv_reads_zone = True, rv_guards = True\<rparr>"

definition run_start :: "sync_db \<Rightarrow> nat sync_run" where
  "run_start db = \<lparr>vr_db = db, vr_world = 0, vr_moment = 0, vr_log = []\<rparr>"

definition leased_db :: sync_db where
  "leased_db = sample_fence_db\<lparr>db_sync_states := [pub_state]\<rparr>"

text \<open>A provider of two pages.\<close>

definition two_pages :: "nat source_provider" where
  "two_pages = \<lparr>es_name = ''apple'', es_sync = Some (\<lambda>q n. (Inr (if n = 0
       then pub_page\<lparr>sp_complete := False, sp_next_cursor := '''', sp_next_page_token := ''t''\<rparr> else pub_page), Suc n)),
     es_repair = None, es_policy = None\<rparr>"

lemma two_pages_run:
  "fst (run_one (quiet_service two_pages) pub_claim (run_start leased_db)) = Inr () \<and>
   page_calls (vr_log (snd (run_one (quiet_service two_pages) pub_claim (run_start leased_db)))) = 2 \<and>
   map ss_status (db_sync_states (vr_db (snd (run_one (quiet_service two_pages) pub_claim (run_start leased_db))))) = [''ready'']"
  by code_simp

theorem run_within_policy_witness:
  "fst (run_one (quiet_service two_pages) pub_claim (run_start leased_db)) = Inr () \<and>
   int (page_calls (vr_log (snd (run_one (quiet_service two_pages) pub_claim (run_start leased_db))))) \<le> 1000"
proof -
  have "rv_resolve (quiet_service two_pages) (sc_calendar_id pub_claim) = Inr (two_pages, ''p'')"
    by (simp add: quiet_service_def)
  from run_within_policy [OF this surjective_pairing [of "run_one (quiet_service two_pages) pub_claim (run_start leased_db)"]]
  show ?thesis using two_pages_run
    by (auto simp: run_start_def service_policy_def quiet_service_def two_pages_def normalized_policy_def Let_def
        zero_policy_def or_default_def defaultMaxPages_def)
qed

text \<open>A calendar with an object in quarantine whose repair was authorized, and a provider that refuses it.\<close>

definition mended_row :: quarantine_row where
  "mended_row = \<lparr>qr_calendar_id = ''c'', qr_object_id = ''o'', qr_etag = ''1'', qr_error_code = ''protocol'', qr_first_seen_at = 1,
     qr_last_seen_at = 1, qr_next_repair_at = 2, qr_repair_attempts = 0, qr_active = True, qr_authorized_etag = ''1''\<rparr>"

definition mended_db :: sync_db where
  "mended_db = leased_db\<lparr>db_cache := empty_cache\<lparr>ct_quarantine := [mended_row]\<rparr>\<rparr>"

definition mended_fence :: sync_db where
  "mended_fence = sample_fenced_db\<lparr>db_sync_states := [pub_state], db_cache := empty_cache\<lparr>ct_quarantine := [mended_row]\<rparr>\<rparr>"

definition refusing_provider :: "nat source_provider" where
  "refusing_provider = \<lparr>es_name = ''apple'', es_sync = Some (\<lambda>q n. (Inr pub_page, Suc n)),
     es_repair = Some (\<lambda>q n. (Inl (ErrEventSync ''auth'' 0 (ErrText ''refused'')), Suc n)), es_policy = None\<rparr>"

abbreviation mender :: "nat sync_service" where "mender \<equiv> quiet_service refusing_provider"

lemma mender_fields [simp]:
  "rv_resolve (quiet_service x) k = Inr (x, ''p'')" "rv_now (quiet_service x) n = 10" "rv_read (quiet_service x) n j = 5"
  "rv_uuid (quiet_service x) n = ''operation-000001''" "rv_other (quiet_service x) n db = db" "rv_ctx (quiet_service x) n = None"
  "rv_zones (quiet_service x) = (\<lambda>_. None)" "rv_reads_zone (quiet_service x)" "rv_guards (quiet_service x)"
  by (simp_all add: quiet_service_def)

lemma mended_begin:
  "begin_exclusive_dispatch \<lparr>xr_operation_id = ''operation-000001'', xr_target_key = GlobalSyncDispatchKey,
     xr_request_hash = sha256_hex ''operation-000001'', xr_kind = ''run'', xr_calendar_ids = [''c''], xr_now = 5\<rparr> mended_db =
   Inr ((), mended_fence)"
  by (simp add: begin_exclusive_dispatch_def leased_db_def mended_db_def mended_fence_def sample_fence_db_def sample_fenced_db_def empty_db_def
      normalize_mutation_calendars_def maxProjectionMutationCalendars_def sample_id_valid target_digest_sha256
      valid_exclusive_target_key_def GlobalSyncDispatchKey_def zero_time_def insert_exclusive_reservation_def
      lock_mutation_calendars_def fence_calendar_def guard_and_intend_def init_guard_def
      advance_projection_mutation_guard_def maxPendingProjectionMutations_def insert_intent_def insert_member_def
      insert_guard_member_def operation_mutation_id_def)

abbreviation mender_policy :: event_sync_policy where "mender_policy \<equiv> service_policy mender (Some refusing_provider)"

abbreviation permitted_db :: sync_db where
  "permitted_db \<equiv> mended_fence\<lparr>db_cache := empty_cache\<lparr>ct_quarantine := [mended_row\<lparr>qr_authorized_etag := ''''\<rparr>]\<rparr>\<rparr>"

abbreviation after_permit :: "nat sync_run" where
  "after_permit \<equiv> \<lparr>vr_db = permitted_db, vr_world = 0, vr_moment = 6, vr_log = [Reserved ''operation-000001'', Consumed ''o'' True]\<rparr>"

lemma mender_authorizes:
  "authorize_mutation mender pub_claim p mended_row (run_start mended_db\<lparr>vr_moment := 3\<rparr>) =
     (Inr (Some (Some ''operation-000001'')), after_permit)"
proof -
  have consumed: "consume_event_sync_provider_mutation_authorization pub_claim ''c'' ''o'' ''1'' 10 mended_fence =
      Inr (True, permitted_db)"
    using pub_lease [of 10]
    by (simp add: consume_event_sync_provider_mutation_authorization_def valid_claim_def lock_calendar_sync_lease_def
        mended_fence_def authorized_def repairable_def quarantine_at_def mended_row_def count_rows_def update_rows_def)
  have row: "qr_calendar_id mended_row = ''c''" "qr_object_id mended_row = ''o''" "qr_etag mended_row = ''1''"
    by (simp_all add: mended_row_def)
  show ?thesis
    by (simp add: authorize_mutation_def reserve_write_def store_def wrap_fail_def and_then_def ret_def clock_def attempt_def
        run_start_def mended_begin consumed row Let_def)
qed

text \<open>The provider's refusal parks the calendar.\<close>

abbreviation mended_request :: repair_request where
  "mended_request \<equiv> \<lparr>rx_calendar_id = ''p'', rx_time_zone = '''', rx_window_start = sc_window_start pub_claim,
     rx_window_end = sc_window_end pub_claim, rx_object = \<lparr>so_object_id = ''o'', so_etag = ''1''\<rparr>, rx_generation = 3,
     rx_allow_mutation = True\<rparr>"

lemma mender_repairs:
  "\<exists>s e. repair_one mender pub_claim refusing_provider ''p'' p (run_start mended_db\<lparr>vr_moment := 1\<rparr>) = (Inl e, s) \<and>
     vr_log s = [Reserved ''operation-000001'', Consumed ''o'' True, RepairCall mended_request, Parked pub_claim ''auth'']"
  if p: "0 < py_max_object_repairs_per_run p"
proof -
  have due: "list_due_event_sync_quarantine pub_claim 10 (py_max_object_repairs_per_run p) mended_db = Inr [mended_row]"
    using p by (simp add: list_due_event_sync_quarantine_def valid_claim_def mended_db_def mended_row_def)
  have parked: "\<exists>db. park_calendar_sync pub_claim ''auth'' 10 (permitted_db) = Inr ((), db)"
    using pub_lease [of 10]
    by (simp add: park_calendar_sync_def valid_claim_def lock_calendar_sync_lease_def update_lease_def count_rows_def
        mended_fence_def safe_calendar_sync_code_def safe_code_char_def)
  then obtain db where parked: "park_calendar_sync pub_claim ''auth'' 10 (permitted_db) = Inr ((), db)" ..
  have codes: "classify (ErrEventSync ''auth'' 0 (ErrText ''refused'')) = (''auth'', 0)" "parks ''auth''"
    by (simp_all add: classify_def parks_def)
  have row: "qr_object_id mended_row = ''o''" "qr_etag mended_row = ''1''" "qr_authorized_etag mended_row = ''1''"
    by (simp_all add: mended_row_def)
  have provider: "es_repair refusing_provider = Some (\<lambda>q n. (Inl (ErrEventSync ''auth'' 0 (ErrText ''refused'')), Suc n))"
      "es_name refusing_provider = ''apple''" by (simp_all add: refusing_provider_def)
  have permit: "authorize_mutation mender pub_claim p mended_row
      \<lparr>vr_db = mended_db, vr_world = 0, vr_moment = Suc (Suc (Suc 0)), vr_log = []\<rparr> = (Inr (Some (Some ''operation-000001'')), after_permit)"
    using mender_authorizes [of p] by (simp add: run_start_def numeral_3_eq_3)
  show ?thesis
    by (simp add: repair_one_def provider query_def store_def clock_def and_then_def attempt_def ret_def due run_start_def
        repair_object_def zone_ok_def row permit call_provider_def logged_def check_ctx_def ctx_err_def failed_repair_def codes
        fail_run_def end_claim_def parked fail_def Let_def)
qed

lemma mender_run:
  "\<exists>e. fst (run_one mender pub_claim (run_start mended_db)) = Inl e \<and>
     vr_log (snd (run_one mender pub_claim (run_start mended_db))) =
       [Reserved ''operation-000001'', Consumed ''o'' True, RepairCall mended_request, Parked pub_claim ''auth'']"
proof -
  have window: "sc_window_start pub_claim < sc_window_end pub_claim" by code_simp
  have policy: "0 < py_max_object_repairs_per_run mender_policy"
    by (simp add: service_policy_def normalized_policy_def Let_def or_default_def defaultMaxObjectRepairsPerRun_def)
  obtain s e where "repair_one mender pub_claim refusing_provider ''p'' mender_policy (run_start mended_db\<lparr>vr_moment := 1\<rparr>) = (Inl e, s)"
      "vr_log s = [Reserved ''operation-000001'', Consumed ''o'' True, RepairCall mended_request, Parked pub_claim ''auth'']"
    using mender_repairs [OF policy] by blast
  moreover have "es_sync refusing_provider \<noteq> None" by (simp add: refusing_provider_def)
  ultimately show ?thesis
    using window by (auto simp: run_one_def check_ctx_def and_then_def ctx_err_def ret_def run_start_def Let_def)
qed

theorem repair_mutation_authorized_witness:
  "rx_allow_mutation mended_request \<and>
   (\<exists>before earlier. vr_log (snd (run_one mender pub_claim (run_start mended_db))) =
      before @ [RepairCall mended_request, Parked pub_claim ''auth''] \<and>
      (\<exists>i. before = earlier @ [Reserved i, Consumed ''o'' True]))"
proof -
  have "vr_log (snd (run_one mender pub_claim (run_start mended_db))) = vr_log (run_start mended_db) @
      [Reserved ''operation-000001'', Consumed ''o'' True] @ RepairCall mended_request # [Parked pub_claim ''auth'']"
    using mender_run by (simp add: run_start_def)
  from repair_mutation_authorized [OF surjective_pairing [of "run_one mender pub_claim (run_start mended_db)"] _ this]
  show ?thesis using mender_run by auto
qed

theorem run_ends_claim_witness:
  "fst (run_one (quiet_service two_pages) pub_claim (run_start leased_db)) = Inr () \<and>
   settled_by completes ''c'' (snd (run_one (quiet_service two_pages) pub_claim (run_start leased_db)))"
proof -
  have "orderly (quiet_service two_pages)" by (simp add: orderly_def quiet_service_def)
  moreover have "one_state (vr_db (run_start leased_db))" by (simp add: one_state_def run_start_def leased_db_def)
  ultimately show ?thesis
    using run_ends_claim [OF surjective_pairing [of "run_one (quiet_service two_pages) pub_claim (run_start leased_db)"]]
      two_pages_run by simp
qed

end
