(* ===== verification/Sync_Eligibility.thy ===== *)
theory Sync_Eligibility
  imports Projection_Publish
begin

text \<open>
  When a rule may write to its target
  (\<open>src/internal/storage/cache_execution_eligibility.go\<close>, \<open>cache_rule_enable.go\<close>): the
  physical identity of the calendars behind the rules, the conflicts between rules that share a
  target, the search for a cycle of physical routes, and the transition of a rule over the cache
  to its enabled state.
\<close>

section \<open>The check\<close>

definition invalid_physical_id :: "string \<Rightarrow> bool" where
  "invalid_physical_id i \<longleftrightarrow> i = '''' \<or> trim_space i \<noteq> i \<or> equal_fold_ascii i ''primary'' \<or> CHR 0x00 \<in> set i"

text \<open>A rule joined with its two calendars and their connections.\<close>

record rule_view =
  jv_rule :: rule_row
  jv_source :: "calendar_row \<times> connection_row"
  jv_target :: "calendar_row \<times> connection_row"

definition rule_view_of :: "sync_db \<Rightarrow> rule_row \<Rightarrow> rule_view option" where
  "rule_view_of db r = (case (source_connection (ru_source_calendar_id r) db, source_connection (ru_target_calendar_id r) db) of
       (Some s, Some t) \<Rightarrow> Some \<lparr>jv_rule = r, jv_source = s, jv_target = t\<rparr>
     | _ \<Rightarrow> None)"

record sync_route =
  pr_source :: string
  pr_target :: string
  pr_source_provider :: string
  pr_target_provider :: string

definition route_of :: "rule_view \<Rightarrow> sync_route" where
  "route_of v = \<lparr>pr_source = cl_provider_calendar_id (fst (jv_source v)), pr_target = cl_provider_calendar_id (fst (jv_target v)),
     pr_source_provider = cn_provider (snd (jv_source v)), pr_target_provider = cn_provider (snd (jv_target v))\<rparr>"

abbreviation cached_mode :: "rule_view \<Rightarrow> bool" where
  "cached_mode v \<equiv> ru_sync_mode (jv_rule v) = ''cached_instances''"

definition cached_route_ok :: "rule_view \<Rightarrow> bool" where
  "cached_route_ok v \<longleftrightarrow> (let r = route_of v; s = jv_source v; t = jv_target v in
     pr_source_provider r = ''google'' \<and> pr_target_provider r = ''google'' \<and>
     cn_status (snd s) = ''connected'' \<and> cn_status (snd t) = ''connected'' \<and> cl_enabled (fst s) \<and> cl_enabled (fst t) \<and>
     cl_can_read (fst s) \<and> cl_can_write (fst t) \<and> \<not> invalid_physical_id (pr_source r) \<and>
     \<not> invalid_physical_id (pr_target r) \<and> pr_source r \<noteq> pr_target r)"

definition foreign_mappings :: "string \<Rightarrow> sync_db \<Rightarrow> bool" where
  "foreign_mappings i db = list_ex (\<lambda>m. mp_rule_id m = i \<and> mp_object_kind m \<noteq> ''cache_instance'') (db_mappings db)"

text \<open>The other rules that matter: enabled, with copies of their own, or over the cache.\<close>

definition relevant_view :: "sync_db \<Rightarrow> rule_view \<Rightarrow> rule_view \<Rightarrow> bool" where
  "relevant_view db v w \<longleftrightarrow> (let i = ru_id (jv_rule w) in
     ru_state (jv_rule w) = ''enabled'' \<or> list_ex (\<lambda>m. mp_rule_id m = i) (db_mappings db) \<or> i \<in> set (db_cache_rules db) \<or>
     ru_sync_mode (jv_rule v) = ''direct'' \<and> cached_mode w)"

definition other_views :: "sync_db \<Rightarrow> rule_view \<Rightarrow> rule_view list" where
  "other_views db v = filter (relevant_view db v)
     (List.map_filter (rule_view_of db) (filter (\<lambda>r. ru_id r \<noteq> ru_id (jv_rule v)) (db_rules db)))"

definition target_conflict :: "rule_view \<Rightarrow> rule_view \<Rightarrow> bool" where
  "target_conflict v w \<longleftrightarrow> (let a = route_of v; b = route_of w in
     pr_target_provider a = ''google'' \<and> pr_target_provider b = ''google'' \<and> (cached_mode v \<or> cached_mode w) \<and>
     (invalid_physical_id (pr_target a) \<or> invalid_physical_id (pr_target b) \<or> pr_target a = pr_target b))"

definition ambiguous_route :: "sync_route \<Rightarrow> bool" where
  "ambiguous_route r \<longleftrightarrow> pr_source_provider r = ''google'' \<and> invalid_physical_id (pr_source r) \<or>
     pr_target_provider r = ''google'' \<and> invalid_physical_id (pr_target r)"

section \<open>Cycles\<close>

definition route_node :: "string \<Rightarrow> string \<Rightarrow> string" where
  "route_node provider i = provider @ CHR 0x00 # i"

definition route_edge :: "sync_route \<Rightarrow> string \<times> string" where
  "route_edge r = (route_node (pr_source_provider r) (pr_source r), route_node (pr_target_provider r) (pr_target r))"

type_synonym route_graph = "(string \<times> string list) list"

definition next_nodes :: "route_graph \<Rightarrow> string \<Rightarrow> string list" where
  "next_nodes g node = (case map_of g node of None \<Rightarrow> [] | Some ns \<Rightarrow> ns)"

definition route_graph :: "sync_route list \<Rightarrow> route_graph" where
  "route_graph rs = fold (\<lambda>r g. case route_edge r of (s, t) \<Rightarrow> AList.update s (next_nodes g s @ [t]) g) rs []"

text \<open>
  The recursive search with its two maps; \<open>active\<close> is passed down, since every call that finds no
  cycle removes what it added, and the first that finds one ends the search.
\<close>

primrec cycle_among ::
  "(string \<Rightarrow> string list \<Rightarrow> (bool \<times> string list) res) \<Rightarrow> string list \<Rightarrow> string list \<Rightarrow> (bool \<times> string list) res" where
  "cycle_among f [] visited = Inr (False, visited)"
| "cycle_among f (x # xs) visited = bind_res (f x visited) (\<lambda>(found, visited).
     if found then Inr (True, visited) else cycle_among f xs visited)"

primrec cycle_from ::
  "nat \<Rightarrow> route_graph \<Rightarrow> string list \<Rightarrow> string \<Rightarrow> string list \<Rightarrow> (bool \<times> string list) res" where
  "cycle_from 0 g active node visited = Inl NoReturn"
| "cycle_from (Suc n) g active node visited =
     (if node \<in> set active then Inr (True, visited)
      else if node \<in> set visited then Inr (False, visited)
      else bind_res (cycle_among (cycle_from n g (node # active)) (next_nodes g node) visited) (\<lambda>(found, visited).
        Inr (found, if found then visited else node # visited)))"

definition graph_nodes :: "route_graph \<Rightarrow> string list" where
  "graph_nodes g = map fst g @ concat (map snd g)"

text \<open>A path of active nodes repeats none, so it is at most as long as there are nodes.\<close>

definition has_route_cycle :: "route_graph \<Rightarrow> bool res" where
  "has_route_cycle g = map_sum id fst (cycle_among (cycle_from (Suc (length (graph_nodes g))) g []) (map fst g) [])"

definition ineligible :: err where
  "ineligible = Sentinel ErrCacheExecutionIneligible"

definition check_sync_target_eligibility :: "string \<Rightarrow> sync_db \<Rightarrow> unit res" where
  "check_sync_target_eligibility i db =
     (if i = '''' then Inl ineligible
      else case Option.bind (find_rule i db) (rule_view_of db) of
        None \<Rightarrow> Inl ineligible
      | Some v \<Rightarrow> (let others = other_views db v; routes = map route_of (v # others) in
          if ru_sync_mode (jv_rule v) \<noteq> ''direct'' \<and> \<not> cached_mode v then Inl ineligible
          else if cached_mode v \<and> (\<not> cached_route_ok v \<or> foreign_mappings i db) then Inl ineligible
          else if list_ex (target_conflict v) others then Inl ineligible
          else if \<not> (cached_mode v \<or> list_ex cached_mode others) then Inr ()
          else if list_ex ambiguous_route routes then Inl ineligible
          else bind_res (has_route_cycle (route_graph routes)) (\<lambda>found. if found then Inl ineligible else Inr ())))"

section \<open>Enabling a rule over the cache (cache_rule_enable.go)\<close>

text \<open>The latest successful dry run of a rule that has a preview, with its preview's row.\<close>

definition preview_run_key :: "run \<times> preview_row \<Rightarrow> (bool \<times> instant) \<times> string" where
  "preview_run_key x = (case rn_finished_at (fst x) of None \<Rightarrow> (False, 0) | Some t \<Rightarrow> (True, t), rn_id (fst x))"

definition latest_preview :: "string \<Rightarrow> sync_db \<Rightarrow> (run \<times> preview_row) option" where
  "latest_preview i db = (case sort_key preview_run_key
       (List.map_filter (\<lambda>r. map_option (Pair r) (find (\<lambda>p. pw_run_id p = rn_id r) (db_previews db)))
         (filter (\<lambda>r. rn_rule_id r = i \<and> rn_dry_run r \<and> rn_outcome r = ''succeeded'') (db_runs db))) of
       [] \<Rightarrow> None
     | x # xs \<Rightarrow> Some (last (x # xs)))"

definition read_preview ::
  "artifact_cipher option \<Rightarrow> (string \<Rightarrow> sync_run_preview res) \<Rightarrow> string \<Rightarrow> instant \<Rightarrow> sync_db \<Rightarrow> sync_run_preview option" where
  "read_preview cipher unmarshal i checked db = (case (latest_preview i db, cipher) of
       (Some (r, p), Some c) \<Rightarrow> (case pw_payload p of
           None \<Rightarrow> None
         | Some payload \<Rightarrow>
             if \<not> checked < pw_expires_at p \<or> payload = '''' then None
             else (case bind_res (ac_decrypt c payload (preview_context (rn_id r))) unmarshal of
                 Inl _ \<Rightarrow> None
               | Inr preview \<Rightarrow> Some preview))
     | _ \<Rightarrow> None)"

text \<open>
  \<open>now.Add(time.Since(started))\<close> twice: the two durations are parameters.  The second read of the
  rule sees the same row, and \<open>normalizeMutationCalendars\<close> finds two calendars.
\<close>

definition enable_cached_rule_if_ready ::
  "unicode_case \<Rightarrow> zonedb \<Rightarrow> projection_codec \<Rightarrow> artifact_cipher option \<Rightarrow> (string \<Rightarrow> sync_run_preview res) \<Rightarrow>
   string \<Rightarrow> instant \<Rightarrow> int \<Rightarrow> int \<Rightarrow> int \<Rightarrow> unit tx" where
  "enable_cached_rule_if_ready U zdb K cipher unmarshal i now maxAge elapsed elapsed' db =
     (if i = '''' \<or> now = zero_time \<or> maxAge \<le> 0 then Inl ineligible
      else case find_rule i db of
        None \<Rightarrow> Inl ineligible
      | Some r \<Rightarrow>
          if ru_sync_mode r \<noteq> ''cached_instances'' \<or> ru_state r \<noteq> ''paused'' then Inl ineligible
          else (case normalize_mutation_calendars [ru_source_calendar_id r, ru_target_calendar_id r] of
            Inl _ \<Rightarrow> Inl ineligible
          | Inr (ids, _) \<Rightarrow>
              if length ids \<noteq> 2 then Inl ineligible
              else let source = ru_source_calendar_id r;
                  read = (\<lambda>checked. get_source_projection_for_copy U zdb K source (add_days checked (- ru_lookback_days r))
                    (add_days checked (ru_lookahead_days r)) checked maxAge db) in
                bind_res (lock_mutation_calendars ids db) (\<lambda>_.
                bind_res (lock_projection_page_source source db) (\<lambda>_.
                if \<not> list_ex (\<lambda>s. ss_calendar_id s = source) (db_sync_states db) \<or>
                   lock_projection_guard_row source db \<noteq> Inr ()
                then Inl snapshot_unavailable
                else bind_res (check_sync_target_eligibility i db) (\<lambda>_.
                bind_res (read (now + elapsed)) (\<lambda>projection.
                case read_preview cipher unmarshal i (now + elapsed) db of
                  None \<Rightarrow> Inl ineligible
                | Some preview \<Rightarrow>
                    if rp_rule_config_version preview \<noteq> ru_config_version r \<or>
                       rp_source_revision preview \<noteq> sn_revision (sj_snapshot projection) \<or>
                       rp_target_status preview \<noteq> ''not_checked''
                    then Inl ineligible
                    else let checked = now + elapsed' in
                      bind_res (read checked) (\<lambda>_.
                      let P = (\<lambda>x. ru_id x = i \<and> ru_sync_mode x = ''cached_instances'' \<and> ru_state x = ''paused'' \<and>
                            ru_config_version x = ru_config_version r \<and> \<not> rule_uncertain_job (ru_id x) db \<and>
                            \<not> dispatch_reserved db) in
                      if count_rows P (db_rules db) \<noteq> 1 then Inl ineligible
                      else Inr ((), update_rules P (\<lambda>x. x\<lparr>ru_state := ''enabled'', ru_next_run_at := Some checked,
                             ru_updated_at := checked\<rparr>) db))))))))"

section \<open>The search finds exactly the cycles\<close>

definition route_steps :: "route_graph \<Rightarrow> (string \<times> string) set" where
  "route_steps g = {(x, y). y \<in> set (next_nodes g x)}"

lemma next_nodes_update:
  "next_nodes (AList.update s ns g) x = (if x = s then ns else next_nodes g x)"
  by (simp add: next_nodes_def update_conv')

lemma route_graph_edges: "route_steps (route_graph rs) = set (map route_edge rs)"
proof (induction rs rule: rev_induct)
  case Nil
  show ?case by (simp add: route_steps_def route_graph_def next_nodes_def)
next
  case (snoc r rs)
  obtain s t where edge: "route_edge r = (s, t)" by fastforce
  have "route_steps (route_graph (rs @ [r])) = insert (s, t) (route_steps (route_graph rs))"
    by (auto simp: route_steps_def route_graph_def edge next_nodes_update split: if_splits)
  then show ?case using snoc by (simp add: edge)
qed

lemma next_nodes_listed: "y \<in> set (next_nodes g x) \<Longrightarrow> x \<in> set (map fst g) \<and> y \<in> set (graph_nodes g)"
proof -
  assume "y \<in> set (next_nodes g x)"
  then obtain ns where "map_of g x = Some ns" "y \<in> set ns" unfolding next_nodes_def by (cases "map_of g x") simp_all
  then have "(x, ns) \<in> set g" "y \<in> set ns" by (auto dest: map_of_SomeD)
  then show ?thesis by (force simp: graph_nodes_def)
qed

text \<open>Nodes that are done: their successors are done, and none is on a cycle.\<close>

definition nodes_done :: "route_graph \<Rightarrow> string set \<Rightarrow> bool" where
  "nodes_done g V \<longleftrightarrow> (\<forall>x \<in> V. set (next_nodes g x) \<subseteq> V \<and> (x, x) \<notin> (route_steps g)\<^sup>+)"

lemma done_reach: "(x, y) \<in> (route_steps g)\<^sup>+ \<Longrightarrow> nodes_done g V \<Longrightarrow> x \<in> V \<Longrightarrow> y \<in> V"
  by (induction rule: trancl_induct) (auto simp: nodes_done_def route_steps_def)

lemma done_insert:
  assumes "nodes_done g V" and "set (next_nodes g x) \<subseteq> V" and "x \<notin> V"
  shows "nodes_done g (insert x V)"
proof -
  have "(x, x) \<notin> (route_steps g)\<^sup>+"
  proof
    assume "(x, x) \<in> (route_steps g)\<^sup>+"
    then obtain y where "(x, y) \<in> route_steps g" and "(y, x) \<in> (route_steps g)\<^sup>*" by (meson tranclD)
    then have "y \<in> V" and "y = x \<or> (y, x) \<in> (route_steps g)\<^sup>+"
      using assms(2) by (auto simp: route_steps_def rtrancl_eq_or_trancl)
    then show False using done_reach [OF _ assms(1)] assms(3) by blast
  qed
  then show ?thesis using assms(1,2) unfolding nodes_done_def by blast
qed

definition search_sound :: "route_graph \<Rightarrow> string set \<Rightarrow> string set \<Rightarrow> string set \<Rightarrow> bool \<times> string list \<Rightarrow> bool" where
  "search_sound g A X V r \<longleftrightarrow> (if fst r then \<exists>x. (x, x) \<in> (route_steps g)\<^sup>+
     else nodes_done g (set (snd r)) \<and> X \<union> V \<subseteq> set (snd r) \<and> A \<inter> set (snd r) = {})"

lemma cycle_among_sound:
  assumes "cycle_among f xs visited = Inr r" and "nodes_done g (set visited)" and "A \<inter> set visited = {}"
    and "\<And>x v r. x \<in> set xs \<Longrightarrow> f x v = Inr r \<Longrightarrow> nodes_done g (set v) \<Longrightarrow> A \<inter> set v = {} \<Longrightarrow> search_sound g A {x} (set v) r"
  shows "search_sound g A (set xs) (set visited) r"
  using assms
proof (induction xs arbitrary: visited)
  case Nil
  then show ?case by (auto simp: search_sound_def)
next
  case (Cons x xs)
  obtain found v where step: "f x visited = Inr (found, v)"
    using Cons.prems(1) by (cases "f x visited") (auto simp: split: prod.splits)
  have one: "search_sound g A {x} (set visited) (found, v)"
    by (rule Cons.prems(4) [OF _ step Cons.prems(2,3)]) simp
  show ?case
  proof (cases found)
    case True
    then show ?thesis using Cons.prems(1) step one by (auto simp: search_sound_def)
  next
    case False
    then have ok: "nodes_done g (set v)" "A \<inter> set v = {}" "{x} \<union> set visited \<subseteq> set v"
      using one by (simp_all add: search_sound_def)
    have "cycle_among f xs v = Inr r" using Cons.prems(1) step False by simp
    then have rest: "search_sound g A (set xs) (set v) r"
      by (rule Cons.IH [OF _ ok(1,2)]) (rule Cons.prems(4), simp_all)
    show ?thesis
    proof (cases "fst r")
      case True
      then show ?thesis using rest by (simp add: search_sound_def)
    next
      case False
      then have "nodes_done g (set (snd r))" "set xs \<union> set v \<subseteq> set (snd r)" "A \<inter> set (snd r) = {}"
        using rest by (simp_all add: search_sound_def)
      then show ?thesis using ok(3) False by (auto simp: search_sound_def)
    qed
  qed
qed

lemma cycle_from_sound:
  "cycle_from n g active node visited = Inr r \<Longrightarrow> \<forall>a \<in> set active. (a, node) \<in> (route_steps g)\<^sup>+ \<Longrightarrow>
   nodes_done g (set visited) \<Longrightarrow> set active \<inter> set visited = {} \<Longrightarrow>
   search_sound g (set active) {node} (set visited) r"
proof (induction n arbitrary: active node visited r)
  case 0
  then show ?case by simp
next
  case (Suc n)
  consider (active) "node \<in> set active" | (visited) "node \<notin> set active" "node \<in> set visited"
    | (fresh) "node \<notin> set active" "node \<notin> set visited" by blast
  then show ?case
  proof cases
    case active
    then show ?thesis using Suc.prems(1,2) by (auto simp: search_sound_def)
  next
    case visited
    then show ?thesis using Suc.prems by (auto simp: search_sound_def)
  next
    case fresh
    from Suc.prems(1) fresh obtain found v where
      among: "cycle_among (cycle_from n g (node # active)) (next_nodes g node) visited = Inr (found, v)"
      and r: "r = (found, if found then v else node # v)"
      by (auto simp: bind_res_Inr_iff)
    have "search_sound g (set (node # active)) (set (next_nodes g node)) (set visited) (found, v)"
    proof (rule cycle_among_sound [OF among Suc.prems(3)])
      show "set (node # active) \<inter> set visited = {}" using Suc.prems(4) fresh by simp
      fix x w q
      assume x: "x \<in> set (next_nodes g node)" and step: "cycle_from n g (node # active) x w = Inr q"
        and w: "nodes_done g (set w)" "set (node # active) \<inter> set w = {}"
      have "(node, x) \<in> route_steps g" using x by (simp add: route_steps_def)
      then have "\<forall>a \<in> set (node # active). (a, x) \<in> (route_steps g)\<^sup>+"
        using Suc.prems(2) by (auto intro: trancl_into_trancl)
      then show "search_sound g (set (node # active)) {x} (set w) q" by (rule Suc.IH [OF step _ w])
    qed
    then show ?thesis using r fresh(1) done_insert [of g "set v" node] by (auto simp: search_sound_def split: if_splits)
  qed
qed

lemma cycle_among_total:
  "(\<And>x v. x \<in> set xs \<Longrightarrow> \<exists>r. f x v = Inr r) \<Longrightarrow> \<exists>r. cycle_among f xs visited = Inr r"
proof (induction xs arbitrary: visited)
  case Nil
  show ?case by (rule exI) (rule cycle_among.simps(1))
next
  case (Cons x xs)
  obtain found v where "f x visited = Inr (found, v)" using Cons.prems [of x visited] by auto
  moreover have "\<exists>r. cycle_among f xs v = Inr r" by (rule Cons.IH, rule Cons.prems) simp
  ultimately show ?case by auto
qed

lemma cycle_from_total:
  "node \<in> set (graph_nodes g) \<Longrightarrow> card (set (graph_nodes g) - set active) < n \<Longrightarrow> \<exists>r. cycle_from n g active node visited = Inr r"
proof (induction n arbitrary: active node visited)
  case 0
  then show ?case by simp
next
  case (Suc n)
  show ?case
  proof (cases "node \<in> set active \<or> node \<in> set visited")
    case True
    then show ?thesis by auto
  next
    case False
    have "card (set (graph_nodes g) - set (node # active)) < card (set (graph_nodes g) - set active)"
      using Suc.prems(1) False by (intro psubset_card_mono) auto
    then have "\<exists>r. cycle_among (cycle_from n g (node # active)) (next_nodes g node) visited = Inr r"
      using Suc.prems(2) next_nodes_listed by (intro cycle_among_total Suc.IH) (blast, linarith)
    then show ?thesis using False by auto
  qed
qed

lemma has_route_cycle_exact: "has_route_cycle g = Inr (\<not> acyclic (route_steps g))"
proof -
  let ?f = "cycle_from (Suc (length (graph_nodes g))) g []"
  have "card (set (graph_nodes g) - set []) < Suc (length (graph_nodes g))" by (simp add: card_length le_imp_less_Suc)
  then have "\<exists>r. cycle_among ?f (map fst g) [] = Inr r"
    by (intro cycle_among_total cycle_from_total) (auto simp: graph_nodes_def)
  then obtain found v where run: "cycle_among ?f (map fst g) [] = Inr (found, v)" by auto
  have sound: "search_sound g {} (set (map fst g)) (set []) (found, v)"
  proof (rule cycle_among_sound [OF run])
    show "search_sound g {} {x} (set w) q" if "?f x w = Inr q" "nodes_done g (set w)" for x w q
      using cycle_from_sound [OF that(1)] that(2) by simp
  qed (simp_all add: nodes_done_def)
  have "found \<longleftrightarrow> \<not> acyclic (route_steps g)"
  proof (cases found)
    case True
    then show ?thesis using sound by (auto simp: search_sound_def acyclic_def)
  next
    case False
    have "(x, x) \<notin> (route_steps g)\<^sup>+" for x
    proof
      assume cyc: "(x, x) \<in> (route_steps g)\<^sup>+"
      then obtain y where "(x, y) \<in> route_steps g" by (meson tranclD)
      then have "x \<in> set v" using sound False next_nodes_listed [of y g x] by (auto simp: search_sound_def route_steps_def)
      then show False using sound False cyc by (auto simp: search_sound_def nodes_done_def)
    qed
    then show ?thesis using False by (simp add: acyclic_def)
  qed
  then show ?thesis by (simp add: has_route_cycle_def run)
qed

text \<open>
  C21. The eligibility check admits a rule exactly when the rule and its calendars are found; it is
  direct, or it is over the cache, its route is between two different usable Google calendars and
  it has no mapping of another kind; it conflicts with none of the other relevant rules, where
  two rules conflict when both write to Google, at least one of them is over the cache, and their
  physical targets are the same or one of them cannot be read as an identifier; and, if the rule
  or a relevant one is over the cache, none of their routes is ambiguous and the routes form no
  cycle.  Every refusal is the same error, and the recursive search always returns.
\<close>

theorem sync_eligibility_exact:
  defines "routes db v \<equiv> map route_of (v # other_views db v)"
  shows "(check_sync_target_eligibility i db = Inr () \<longleftrightarrow>
      (\<exists>v. i \<noteq> '''' \<and> Option.bind (find_rule i db) (rule_view_of db) = Some v \<and>
        (ru_sync_mode (jv_rule v) = ''direct'' \<or> cached_mode v \<and> cached_route_ok v \<and> \<not> foreign_mappings i db) \<and>
        (\<forall>w \<in> set (other_views db v). \<not> target_conflict v w) \<and>
        ((\<exists>w \<in> set (v # other_views db v). cached_mode w) \<longrightarrow>
          (\<forall>r \<in> set (routes db v). \<not> ambiguous_route r) \<and> acyclic (set (map route_edge (routes db v)))))) \<and>
    check_sync_target_eligibility i db \<in> {Inr (), Inl (Sentinel ErrCacheExecutionIneligible)}"
proof (cases "Option.bind (find_rule i db) (rule_view_of db)")
  case None
  then show ?thesis by (simp add: check_sync_target_eligibility_def ineligible_def)
next
  case (Some v)
  have cycle: "has_route_cycle (route_graph (map route_of (v # other_views db v))) =
      Inr (\<not> acyclic (set (map route_edge (routes db v))))"
    unfolding has_route_cycle_exact route_graph_edges routes_def ..
  show ?thesis
    unfolding check_sync_target_eligibility_def Some option.case Let_def cycle bind_res_simps
    by (auto simp: routes_def list_ex_iff ineligible_def)
qed

lemma map_filter_update_rows:
  "(\<And>x. P x \<Longrightarrow> h (f x) = h x \<and> Q (f x) \<and> Q x) \<Longrightarrow> map h (filter Q (update_rows P f rows)) = map h (filter Q rows)"
  by (induction rows) (auto simp: update_rows_def)

text \<open>
  C22. A rule over the cache is enabled only while it may write to its target, nothing of it is
  unsettled and no write is reserved, and only on the evidence of its latest successful dry run: a
  preview that has not expired, of this version of the rule and of the revision that the source's
  projection still has.  The transition changes this rule only, advances its version, and cannot be
  repeated; it leaves the graph of routes as it was.
\<close>

theorem cached_rule_enabled_when_ready:
  assumes "enable_cached_rule_if_ready U zdb K cipher unmarshal i now maxAge elapsed elapsed' db = Inr ((), db')"
    and "distinct (map ru_id (db_rules db))"
  shows "\<exists>r projection preview. find_rule i db = Some r \<and> ru_sync_mode r = ''cached_instances'' \<and> ru_state r = ''paused'' \<and>
      check_sync_target_eligibility i db = Inr () \<and> \<not> rule_uncertain_job i db \<and> \<not> dispatch_reserved db \<and>
      get_source_projection_for_copy U zdb K (ru_source_calendar_id r) (add_days (now + elapsed) (- ru_lookback_days r))
        (add_days (now + elapsed) (ru_lookahead_days r)) (now + elapsed) maxAge db = Inr projection \<and>
      read_preview cipher unmarshal i (now + elapsed) db = Some preview \<and>
      rp_rule_config_version preview = ru_config_version r \<and> rp_source_revision preview = sn_revision (sj_snapshot projection) \<and>
      find_rule i db' = Some (r\<lparr>ru_state := ''enabled'', ru_next_run_at := Some (now + elapsed'),
        ru_updated_at := now + elapsed', ru_config_version := ru_config_version r + 1\<rparr>) \<and>
      (\<forall>j. j \<noteq> i \<longrightarrow> find_rule j db' = find_rule j db) \<and> rule_edges db' = rule_edges db \<and>
      enable_cached_rule_if_ready U zdb K cipher unmarshal i later maxAge' e e' db' = Inl (Sentinel ErrCacheExecutionIneligible)"
proof -
  obtain r where r: "find_rule i db = Some r" "ru_sync_mode r = ''cached_instances''" "ru_state r = ''paused''"
    using assms(1) by (auto simp: enable_cached_rule_if_ready_def split: if_splits option.splits)
  define read where "read checked = get_source_projection_for_copy U zdb K (ru_source_calendar_id r)
    (add_days checked (- ru_lookback_days r)) (add_days checked (ru_lookahead_days r)) checked maxAge db" for checked
  define P :: "rule_row \<Rightarrow> bool" where "P x \<longleftrightarrow> ru_id x = i \<and> ru_sync_mode x = ''cached_instances'' \<and> ru_state x = ''paused'' \<and>
    ru_config_version x = ru_config_version r \<and> \<not> rule_uncertain_job (ru_id x) db \<and> \<not> dispatch_reserved db" for x
  let ?f = "\<lambda>x :: rule_row. x\<lparr>ru_state := ''enabled'', ru_next_run_at := Some (now + elapsed'), ru_updated_at := now + elapsed'\<rparr>"
  obtain projection preview where ok: "check_sync_target_eligibility i db = Inr ()" "read (now + elapsed) = Inr projection"
      "read_preview cipher unmarshal i (now + elapsed) db = Some preview" "rp_rule_config_version preview = ru_config_version r"
      "rp_source_revision preview = sn_revision (sj_snapshot projection)" "count_rows P (db_rules db) = 1"
    and db': "db' = update_rules P ?f db"
    using assms(1) r by (auto simp: enable_cached_rule_if_ready_def read_def P_def [abs_def] Let_def bind_res_Inr_iff
        split: if_splits option.splits sum.splits prod.splits)
  let ?g = "\<lambda>x. store_rule x (?f x)"
  have rules: "db_rules db' = update_rows P ?g (db_rules db)" unfolding db' update_rules_def by simp
  have hit: "\<And>x. P x \<Longrightarrow> ru_id x = i" and same: "\<And>x. ru_id (?g x) = ru_id x" by (simp_all add: P_def)
  obtain x where x: "P x" "find_rule i db = Some x" "find_rule i db' = Some (?g x)"
    using find_update_rows_hit [OF assms(2) ok(6) hit same, folded rules] unfolding find_rule_def by blast
  have settled: "\<not> rule_uncertain_job i db" "\<not> dispatch_reserved db" using x(1) by (auto simp: P_def)
  have new: "?g r = r\<lparr>ru_state := ''enabled'', ru_next_run_at := Some (now + elapsed'), ru_updated_at := now + elapsed',
      ru_config_version := ru_config_version r + 1\<rparr>"
    by (simp add: store_rule_def rule_config_changed_def r)
  have found: "find_rule i db' = Some (?g r)" using x r(1) by simp
  have others: "find_rule j db' = find_rule j db" if "j \<noteq> i" for j
    unfolding find_rule_def rules by (rule find_update_rows_other) (use hit same that in auto)
  have edges: "rule_edges db' = rule_edges db"
    unfolding rule_edges_def rules by (rule map_filter_update_rows) (auto simp: P_def)
  have "enable_cached_rule_if_ready U zdb K cipher unmarshal i later maxAge' e e' db' = Inl (Sentinel ErrCacheExecutionIneligible)"
    using found by (simp add: enable_cached_rule_if_ready_def ineligible_def)
  then show ?thesis using r ok(1-5) settled found [unfolded new] others edges unfolding read_def by blast
qed

section \<open>A cached rule that is enabled\<close>

definition plain_codec :: projection_codec where
  "plain_codec = \<lparr>pc_valid = (\<lambda>_. True), pc_parse = (\<lambda>_. Some JNull), pc_compact = Some,
     pc_page_text = (\<lambda>_. Inr ''P''), pc_read_page = (\<lambda>_. None), pc_snapshot_text = (\<lambda>_. Inr ''S''),
     pc_read_snapshot = (\<lambda>_. Some \<lparr>sy_version = 1, sy_events = Some [], sy_evidence = Some []\<rparr>),
     pc_observation_text = (\<lambda>_. Inr ''O''), pc_read_observations = (\<lambda>_. Some []), pc_unmarshal_observations = (\<lambda>_. Some [])\<rparr>"

definition plain_cipher :: artifact_cipher where
  "plain_cipher = \<lparr>ac_encrypt = (\<lambda>p _. Inr p), ac_decrypt = (\<lambda>p _. Inr p)\<rparr>"

definition ready_calendar :: "string \<Rightarrow> string \<Rightarrow> calendar_row" where
  "ready_calendar i physical = \<lparr>cl_id = i, cl_connection_id = ''k'', cl_provider_calendar_id = physical, cl_name = '''',
     cl_timezone = ''UTC'', cl_can_read = True, cl_can_write = True, cl_supports_recurrence = True,
     cl_google_primary = False, cl_enabled = True, cl_discovered_at = 0\<rparr>"

definition ready_rule :: rule_row where
  "ready_rule = \<lparr>ru_id = ''r'', ru_source_calendar_id = ''google:a:home'', ru_target_calendar_id = ''google:b:home'', ru_state = ''paused'',
     ru_sync_mode = ''cached_instances'', ru_interval_seconds = 600, ru_lookback_days = 1, ru_lookahead_days = 14,
     ru_recurrence_mode = ''preserve'', ru_notification_policy = ''none'', ru_copy_attendees = False, ru_next_run_at = None,
     ru_consecutive_failures = 0, ru_created_at = 0, ru_updated_at = 0, ru_config_version = 4\<rparr>"

definition ready_preview :: sync_run_preview where
  "ready_preview = \<lparr>rp_entries = [], rp_total = 0, rp_truncated = False, rp_source_revision = 7, rp_rule_config_version = 4,
     rp_target_status = ''not_checked''\<rparr>"

definition ready_run :: run where
  "ready_run = \<lparr>rn_id = ''n'', rn_job_id = ''j'', rn_rule_id = ''r'', rn_trigger = ''manual'', rn_outcome = ''succeeded'',
     rn_started_at = 1, rn_finished_at = Some 2, rn_created_count = 0, rn_updated_count = 0, rn_deleted_count = 0,
     rn_skipped_count = 0, rn_warning_count = 0, rn_error_code = '''', rn_error_summary = '''', rn_dry_run = True,
     rn_stop_requested = False, rn_provider_dispatched = False, rn_preview = None\<rparr>"

definition ready_db :: sync_db where
  "ready_db = empty_db\<lparr>db_connections := [\<lparr>cn_id = ''k'', cn_provider = ''google'', cn_account_fingerprint = '''',
       cn_display_name = '''', cn_status = ''connected''\<rparr>],
     db_calendars := [ready_calendar ''google:a:home'' ''x'', ready_calendar ''google:b:home'' ''y''], db_rules := [ready_rule],
     db_runs := [ready_run], db_previews := [\<lparr>pw_run_id = ''n'', pw_expires_at = 1000, pw_payload = Some ''Z''\<rparr>],
     db_sync_states := [\<lparr>ss_calendar_id = ''google:a:home'', ss_strategy = ''google'', ss_cursor = ''n1'', ss_window_start = - 172800 * nanos,
       ss_window_end = 1728000 * nanos, ss_generation = 3, ss_status = ''ready'', ss_next_sync_at = 0,
       ss_last_started_at = Some 5, ss_last_success_at = Some 6, ss_last_error_code = None, ss_lease_owner = None,
       ss_lease_until = None, ss_updated_at = 5\<rparr>],
     db_guards := [(''google:a:home'', 2)],
     db_projection := empty_projection\<lparr>pt_revisions := [(''google:a:home'', 7)], pt_snapshots := [\<lparr>sn_calendar_id = ''google:a:home'', sn_revision = 7,
       sn_stage_id = ''s'', sn_guard_epoch = 2, sn_base_revision = 6, sn_window_start = - 172800 * nanos,
       sn_window_end = 1728000 * nanos, sn_completed_at = 6, sn_timezone = ''UTC'', sn_cursor = ''n1'', sn_payload = ''S'',
       sn_verified = True, sn_observations = Some ''null''\<rparr>]\<rparr>\<rparr>"

lemma ready_ids: "\<not> invalid_physical_id ''x''" "\<not> invalid_physical_id ''y''"
  by (simp_all add: invalid_physical_id_def trim_space_def utf8_step_ascii is_space_def equal_fold_ascii_def
      ascii_lower_def)

lemma ready_rule_found: "find_rule ''r'' ready_db = Some ready_rule"
  by (simp add: find_rule_def ready_db_def ready_rule_def)

definition ready_view :: rule_view where
  "ready_view = \<lparr>jv_rule = ready_rule, jv_source = (ready_calendar ''google:a:home'' ''x'', hd (db_connections ready_db)),
     jv_target = (ready_calendar ''google:b:home'' ''y'', hd (db_connections ready_db))\<rparr>"

lemma ready_view_found: "rule_view_of ready_db ready_rule = Some ready_view"
  by (simp add: rule_view_of_def source_connection_def ready_db_def ready_view_def ready_rule_def ready_calendar_def)

lemma ready_route: "route_of ready_view = \<lparr>pr_source = ''x'', pr_target = ''y'', pr_source_provider = ''google'', pr_target_provider = ''google''\<rparr>"
  by (simp add: route_of_def ready_view_def ready_calendar_def ready_db_def)

lemma ready_others: "other_views ready_db ready_view = []"
  by (simp add: other_views_def ready_db_def ready_view_def ready_rule_def map_filter_simps)

lemma ready_admitted: "check_sync_target_eligibility ''r'' ready_db = Inr ()"
proof -
  have "cached_route_ok ready_view"
    unfolding cached_route_ok_def ready_route Let_def
    by (simp add: ready_ids) (simp add: ready_view_def ready_calendar_def ready_db_def)
  moreover have "\<not> foreign_mappings ''r'' ready_db" by (simp add: foreign_mappings_def ready_db_def empty_db_def)
  moreover have "cached_mode ready_view" by (simp add: ready_view_def ready_rule_def)
  moreover have "has_route_cycle (route_graph [route_of ready_view]) = Inr False"
    unfolding ready_route by code_simp
  ultimately show ?thesis
    by (simp add: check_sync_target_eligibility_def ready_rule_found ready_view_found ready_others Let_def)
      (simp add: ready_route ambiguous_route_def ready_ids)
qed

definition ready_source :: source_view where
  "ready_source = \<lparr>sv_snapshot = hd (pt_snapshots (db_projection ready_db)), sv_epoch = 2, sv_pending = False,
     sv_quarantined = False, sv_calendar = ready_calendar ''google:a:home'' ''x'', sv_connection = hd (db_connections ready_db),
     sv_state = hd (db_sync_states ready_db)\<rparr>"

lemma ready_current: "current_source ''google:a:home'' ready_db = Some ready_source"
  by (simp add: current_source_def ready_source_def ready_db_def guard_revision_def snapshot_at_def source_connection_def
      ready_calendar_def pending_intents_def active_quarantine_def empty_db_def empty_cache_def count_rows_def)

lemma ready_read:
  assumes "checked = 9 \<or> checked = 10"
  shows "\<exists>projection. get_source_projection_for_copy \<lparr>rune_upper = id, rune_lower = id\<rparr> (\<lambda>_. None) plain_codec ''google:a:home''
    (add_days checked (- 1)) (add_days checked 14) checked 100 ready_db = Inr projection \<and> sn_revision (sj_snapshot projection) = 7"
proof -
  have fresh: "source_view_ok (\<lambda>_. None) ready_source (add_days checked (- 1)) (add_days checked 14) checked 100"
    using assms by (elim disjE; simp; code_simp)
  have row: "sn_observations (sv_snapshot ready_source) = Some ''null''" "sn_payload (sv_snapshot ready_source) = ''S''"
      "sn_revision (sv_snapshot ready_source) = 7" "cn_provider (sv_connection ready_source) = ''google''"
    by (simp_all add: ready_source_def ready_db_def)
  have span: "add_days checked (- 1) \<noteq> zero_time" "add_days checked (- 1) < add_days checked 14" "checked \<noteq> zero_time"
    using assms by (auto simp: add_days_def zero_time_def)
  show ?thesis
    using span by (simp add: get_source_projection_for_copy_def ready_current fresh row maxProjectionObservationBytes_def
        decode_projection_snapshot_payload_def decode_projection_payload_def maxProjectionSnapshotBytes_def plain_codec_def
        restore_projection_evidence_def projection_evidence_def snapshot_columns_def)
qed

lemma ready_enabled:
  "\<exists>db'. enable_cached_rule_if_ready \<lparr>rune_upper = id, rune_lower = id\<rparr> (\<lambda>_. None) plain_codec (Some plain_cipher)
     (\<lambda>_. Inr ready_preview) ''r'' 8 100 1 2 ready_db = Inr ((), db')"
proof -
  let ?read = "\<lambda>checked. get_source_projection_for_copy \<lparr>rune_upper = id, rune_lower = id\<rparr> (\<lambda>_. None) plain_codec ''google:a:home''
    (add_days checked (- 1)) (add_days checked 14) checked 100 ready_db"
  have rule: "ru_source_calendar_id ready_rule = ''google:a:home''" "ru_target_calendar_id ready_rule = ''google:b:home''" "ru_state ready_rule = ''paused''"
      "ru_sync_mode ready_rule = ''cached_instances''" "ru_lookback_days ready_rule = 1" "ru_lookahead_days ready_rule = 14"
      "ru_config_version ready_rule = 4" "ru_id ready_rule = ''r''"
    by (simp_all add: ready_rule_def)
  obtain projection where read: "?read 9 = Inr projection" "sn_revision (sj_snapshot projection) = 7"
    using ready_read [of 9] by auto
  obtain projection' where read': "?read 10 = Inr projection'" using ready_read [of 10] by auto
  have ids: "\<exists>e. normalize_mutation_calendars [''google:a:home'', ''google:b:home''] = Inr ([''google:a:home'', ''google:b:home''], e)"
    by (simp add: normalize_mutation_calendars_def maxProjectionMutationCalendars_def)
  have locks: "lock_mutation_calendars [''google:a:home'', ''google:b:home''] ready_db = Inr ()" "lock_projection_page_source ''google:a:home'' ready_db = Inr ()"
      "list_ex (\<lambda>s. ss_calendar_id s = ''google:a:home'') (db_sync_states ready_db)" "lock_projection_guard_row ''google:a:home'' ready_db = Inr ()"
    by code_simp+
  have preview: "read_preview (Some plain_cipher) (\<lambda>_. Inr ready_preview) ''r'' 9 ready_db = Some ready_preview" by code_simp
  have settled: "\<not> rule_uncertain_job ''r'' ready_db" "\<not> dispatch_reserved ready_db" "db_rules ready_db = [ready_rule]"
    by (simp_all add: rule_uncertain_job_def dispatch_reserved_def ready_db_def empty_db_def)
  show ?thesis
    using ids by (auto simp: enable_cached_rule_if_ready_def ready_rule_found rule zero_time_def locks ready_admitted read read'
        preview settled count_rows_def Let_def) (simp_all add: ready_preview_def)
qed

theorem cached_rule_enabled_when_ready_witness:
  "\<exists>db'. enable_cached_rule_if_ready \<lparr>rune_upper = id, rune_lower = id\<rparr> (\<lambda>_. None) plain_codec (Some plain_cipher)
       (\<lambda>_. Inr ready_preview) ''r'' 8 100 1 2 ready_db = Inr ((), db') \<and>
     map_option ru_config_version (find_rule ''r'' db') = Some 5 \<and> map_option ru_state (find_rule ''r'' db') = Some ''enabled''"
proof -
  obtain db' where run: "enable_cached_rule_if_ready \<lparr>rune_upper = id, rune_lower = id\<rparr> (\<lambda>_. None) plain_codec
      (Some plain_cipher) (\<lambda>_. Inr ready_preview) ''r'' 8 100 1 2 ready_db = Inr ((), db')"
    using ready_enabled by blast
  have keys: "distinct (map ru_id (db_rules ready_db))" by (simp add: ready_db_def)
  have version: "ru_config_version ready_rule = 4" by (simp add: ready_rule_def)
  from cached_rule_enabled_when_ready [OF run keys] show ?thesis using run ready_rule_found version by fastforce
qed

theorem sync_eligibility_exact_witness:
  "check_sync_target_eligibility ''r'' ready_db = Inr () \<and> acyclic {route_edge (route_of ready_view)}"
proof -
  have "cached_mode ready_view" by (simp add: ready_view_def ready_rule_def)
  then show ?thesis
    using sync_eligibility_exact [of "''r''" ready_db] ready_admitted
    by (auto simp: ready_rule_found ready_view_found ready_others)
qed

text \<open>
  The conditional transition of \<open>rule_config_version.go\<close> enables a rule over the cache on none of
  this evidence: it has no condition on the mode.
\<close>

lemma versioned_transition_ignores_mode:
  "\<exists>db'. set_rule_state_at_version ''r'' ''enabled'' 4 (Some 9) 9 (ready_db\<lparr>db_runs := [], db_projection := empty_projection\<rparr>) = Inr ((), db') \<and>
     map_option ru_state (find_rule ''r'' db') = Some ''enabled''"
  "set_rule_state ''r'' ''enabled'' (Some 9) 9 (ready_db\<lparr>db_runs := [], db_projection := empty_projection\<rparr>) = Inl (Sentinel ErrNotFound)"
proof -
  let ?r = "set_rule_state_at_version ''r'' ''enabled'' 4 (Some 9) 9 (ready_db\<lparr>db_runs := [], db_projection := empty_projection\<rparr>)"
  have "case ?r of Inl e \<Rightarrow> False | Inr (u, db') \<Rightarrow> map_option ru_state (find_rule ''r'' db') = Some ''enabled''" by code_simp
  then show "\<exists>db'. ?r = Inr ((), db') \<and> map_option ru_state (find_rule ''r'' db') = Some ''enabled''"
    by (auto split: sum.splits)
  show "set_rule_state ''r'' ''enabled'' (Some 9) 9 (ready_db\<lparr>db_runs := [], db_projection := empty_projection\<rparr>) = Inl (Sentinel ErrNotFound)"
    by code_simp
qed

end
