(* ===== verification/Sync_Cache_Copy.thy ===== *)
theory Sync_Cache_Copy
  imports Sync_Safety Sync_Eligibility
begin

text \<open>
  The copy of a calendar from its published projection
  (\<open>src/internal/syncengine/cache_copy_execution.go\<close>, \<open>cache_copy_preview.go\<close>): the batch that a
  projection gives the engine, the fence that checks the projection before every write, the run,
  and the preview that writes nothing.
\<close>

section \<open>The batch\<close>

record cache_batch =
  cb_events :: "event_v2 list"
  cb_removals :: "removal_observation list"
  cb_timezone :: string
  cb_window_start :: instant
  cb_window_end :: instant
  cb_history_complete :: bool

definition cache_execution_event_id :: "string \<Rightarrow> string" where
  "cache_execution_event_id i = new_mapping_id ''cache-instance'' i ''''"

definition copied_instance :: "candidate \<Rightarrow> event_v2" where
  "copied_instance c = (let i = cache_execution_event_id (cand_identity c) in
     (cand_event c)\<lparr>ev_id := i, ev_ical_uid := i @ ''@calendar-mcp'', ev_recurring_event_id := '''',
       ev_original_start := None, ev_instance_kind := ''cache_instance'', ev_recurrence := None\<rparr>)"

definition cancelled_instance :: "string \<Rightarrow> string \<Rightarrow> event_v2" where
  "cancelled_instance source i = zero_event\<lparr>ev_calendar_id := source, ev_id := i, ev_status := ''cancelled'',
     ev_instance_kind := ''cache_instance''\<rparr>"

definition add_instance :: "candidate \<Rightarrow> event_v2 list \<Rightarrow> (event_v2 list) res" where
  "add_instance c events =
     (if cache_execution_event_id (cand_identity c) \<in> set (map ev_id events) then Inl snapshot_unavailable
      else Inr (events @ [copied_instance c]))"

definition active_instances :: "zonedb \<Rightarrow> string \<Rightarrow> event_v2 list \<Rightarrow> (string list) res" where
  "active_instances zdb source events = fold_res (\<lambda>event acc. bind_res (identity zdb source event) (\<lambda>i.
     Inr (acc @ [cache_execution_event_id i]))) events []"

text \<open>The loop over the removals: the cancelled events so far, and how many are unresolved.\<close>

definition add_removal ::
  "string \<Rightarrow> string list \<Rightarrow> removal_observation \<Rightarrow> event_v2 list \<times> int \<Rightarrow> (event_v2 list \<times> int) res" where
  "add_removal source active o' acc = (case acc of (cancelled, unresolved) \<Rightarrow>
     let i = cache_execution_event_id (ro_previous_identity o') in
     if rm_reason (ro_removal o') = EventSyncWindowEviction then Inr acc
     else if rm_reason (ro_removal o') \<noteq> EventSyncProviderCancellation then Inl snapshot_unavailable
     else if ro_unresolved o' then Inr (cancelled, unresolved + 1)
     else if \<not> has_prefix (source @ [NUL]) (ro_previous_identity o') \<or>
             length (ro_previous_identity o') \<le> length source + 1
     then Inl (ErrText ''invalid cached cancellation identity'')
     else if i \<in> set (map ev_id cancelled) \<or> i \<in> set active then Inr acc
     else Inr (cancelled @ [cancelled_instance source i], unresolved))"

definition cached_events :: "zonedb \<Rightarrow> rule \<Rightarrow> cache_batch \<Rightarrow> (event_v2 list \<times> int) res" where
  "cached_events zdb rule batch = (let source = ru_source_calendar_id rule; tz = cb_timezone batch in
     if ru_sync_mode rule \<noteq> ''cached_instances'' \<or> \<not> cb_history_complete batch \<or> tz = '''' \<or> tz = ''Local'' \<or>
        load_location zdb tz = None
     then Inl snapshot_unavailable
     else bind_res (candidates zdb source (cb_events batch) (cb_window_start batch) (cb_window_end batch)
            (load_location zdb tz)) (\<lambda>found.
          bind_res (active_instances zdb source (cb_events batch)) (\<lambda>active.
          bind_res (fold_res add_instance found []) (\<lambda>events.
          bind_res (fold_res (add_removal source active) (cb_removals batch) ([], 0)) (\<lambda>(cancelled, unresolved).
            Inr (events @ cancelled, unresolved))))))"

definition run_cached_batch ::
  "('s, 't) engine \<Rightarrow> rule \<Rightarrow> cache_batch \<Rightarrow> bool \<Rightarrow> ('s, 't) world \<Rightarrow> ('s, 't) outcome" where
  "run_cached_batch e rule batch dry w = (case cached_events (en_zones e) rule batch of
       Inl x \<Rightarrow> ((Some x, zero_result), w)
     | Inr (events, unresolved) \<Rightarrow> (case run_events e rule dry (Some events) w of
           ((x, result), w') \<Rightarrow> ((x, result\<lparr>sr_warnings := sr_warnings result + unresolved\<rparr>), w')))"

section \<open>The source and its fence\<close>

record 's copy_ops =
  cc_get :: "string \<Rightarrow> instant \<Rightarrow> instant \<Rightarrow> instant \<Rightarrow> int \<Rightarrow> ('s, source_projection) prog"
  cc_current :: "string \<Rightarrow> int \<Rightarrow> instant \<Rightarrow> instant \<Rightarrow> instant \<Rightarrow> int \<Rightarrow> ('s, unit) prog"
  cc_eligible :: "string \<Rightarrow> ('s, unit) prog"

definition check_provider_dispatch ::
  "('s, 't) engine \<Rightarrow> 's copy_ops \<Rightarrow> rule \<Rightarrow> int \<Rightarrow> instant \<Rightarrow> instant \<Rightarrow> int \<Rightarrow> ('s, unit) prog" where
  "check_provider_dispatch parent source rule revision start stop maxAge =
     and_then (check_dispatch_fence parent) (\<lambda>_.
     and_then (cc_eligible source (ru_id rule)) (\<lambda>_ s.
       cc_current source (ru_source_calendar_id rule) revision start stop (en_now parent s) maxAge s))"

definition run_cache_copy ::
  "('s, 't) engine \<Rightarrow> 's copy_ops \<Rightarrow> rule \<Rightarrow> instant \<Rightarrow> int \<Rightarrow> ('s, 't) world \<Rightarrow> ('s, 't) outcome" where
  "run_cache_copy e source rule now maxAge w = (let cal = ru_source_calendar_id rule;
       start = add_days now (- ru_lookback_days rule); stop = add_days now (ru_lookahead_days rule) in
     if ru_sync_mode rule \<noteq> ''cached_instances'' \<or> now = zero_time \<or> maxAge \<le> 0
     then ((Some snapshot_unavailable, zero_result), w)
     else (case ext_op (and_then (cc_eligible source (ru_id rule)) (\<lambda>_. cc_get source cal start stop now maxAge)) w of
         (Inl x, w) \<Rightarrow> ((Some x, zero_result), w)
       | (Inr p, w) \<Rightarrow> (let row = sj_snapshot p in
           if \<not> sn_verified row \<or> sn_revision row < 1 \<or> sn_calendar_id row \<noteq> cal
           then ((Some snapshot_unavailable, zero_result), w)
           else run_cached_batch (e\<lparr>en_fence := Some (check_provider_dispatch e source rule (sn_revision row) start stop maxAge)\<rparr>)
             rule \<lparr>cb_events = sj_events p, cb_removals = sj_observations p, cb_timezone = sn_timezone row,
               cb_window_start = start, cb_window_end = stop, cb_history_complete = True\<rparr> False w)))"

text \<open>The store as the source: queries that leave the state as it is.\<close>

definition store_copy_ops ::
  "('s \<Rightarrow> sync_db) \<Rightarrow> unicode_case \<Rightarrow> zonedb \<Rightarrow> projection_codec \<Rightarrow> 's copy_ops" where
  "store_copy_ops db_of U zdb K = \<lparr>
     cc_get = (\<lambda>cal start stop now maxAge s. (get_source_projection_for_copy U zdb K cal start stop now maxAge (db_of s), s)),
     cc_current = (\<lambda>cal revision start stop now maxAge s.
       (check_source_projection_current U zdb K cal revision start stop now maxAge (db_of s), s)),
     cc_eligible = (\<lambda>i s. (check_sync_target_eligibility i (db_of s), s))\<rparr>"

section \<open>The preview\<close>

definition preview_candidate :: "unicode_case \<Rightarrow> zonedb \<Rightarrow> rule \<Rightarrow> candidate \<Rightarrow> sync_result \<Rightarrow> sync_result res" where
  "preview_candidate U zdb rule c result =
     bind_res (cache_copy_create U zdb (ru_id rule) (ru_source_calendar_id rule) (cand_event c) ''google'') (\<lambda>_.
       let result = (if ev_source_attendees_complete (cand_event c) then result
             else result\<lparr>sr_participants_incomplete := sr_participants_incomplete result + 1,
               sr_warnings := sr_warnings result + 1\<rparr>) in
       Inr (result\<lparr>sr_preview := preview_action (cand_event c) ''candidate'' ''target_not_checked'' ''not_checked''
              (sr_preview result)\<rparr>))"

definition preview_cache_copy ::
  "unicode_case \<Rightarrow> zonedb \<Rightarrow> (string \<Rightarrow> instant \<Rightarrow> instant \<Rightarrow> instant \<Rightarrow> int \<Rightarrow> preview_snapshot res) \<Rightarrow> rule \<Rightarrow> instant \<Rightarrow> int \<Rightarrow>
   sync_result res" where
  "preview_cache_copy U zdb read rule now maxAge = (let source = ru_source_calendar_id rule;
       start = add_days now (- ru_lookback_days rule); stop = add_days now (ru_lookahead_days rule) in
     if ru_id rule = '''' \<or> source = '''' \<or> ru_target_calendar_id rule = '''' \<or> source = ru_target_calendar_id rule \<or>
        start = zero_time \<or> \<not> start < stop \<or> now = zero_time \<or> maxAge \<le> 0
     then Inl (ErrText ''invalid cache preview request'')
     else bind_res (read source start stop now maxAge) (\<lambda>snapshot.
       let tz = ps_timezone snapshot in
       if ps_revision snapshot < 1 \<or> tz = '''' \<or> tz = ''Local'' \<or> load_location zdb tz = None
       then Inl snapshot_unavailable
       else bind_res (candidates zdb source (ps_events snapshot) start stop (load_location zdb tz)) (\<lambda>found.
         fold_res (preview_candidate U zdb rule) found (zero_result\<lparr>sr_preview := Some (empty_preview
           \<lparr>rp_source_revision := ps_revision snapshot, rp_target_status := ''not_checked''\<rparr>)\<rparr>))))"

section \<open>What a batch gives the engine\<close>

lemma active_instances_sound:
  assumes "active_instances zdb source events = Inr active" and "e \<in> set events" and "identity zdb source e = Inr i"
  shows "cache_execution_event_id i \<in> set active"
proof -
  have "set acc \<subseteq> set active \<and> (\<forall>e \<in> set events. \<forall>i. identity zdb source e = Inr i \<longrightarrow> cache_execution_event_id i \<in> set active)"
    if "fold_res (\<lambda>event acc. bind_res (identity zdb source event) (\<lambda>i. Inr (acc @ [cache_execution_event_id i]))) events acc =
        Inr active" for acc
    using that
  proof (induction events arbitrary: acc)
    case Nil
    then show ?case by simp
  next
    case (Cons e events)
    then obtain i where "identity zdb source e = Inr i" by (cases "identity zdb source e") simp_all
    then show ?case using Cons.IH [of "acc @ [cache_execution_event_id i]"] Cons.prems by auto
  qed
  from this [OF assms(1) [unfolded active_instances_def]] assms(2,3) show ?thesis by blast
qed

lemma add_instances:
  "fold_res add_instance found acc = Inr events \<Longrightarrow> distinct (map ev_id acc) \<Longrightarrow>
   distinct (map ev_id events) \<and> events = acc @ map copied_instance found"
proof (induction found arbitrary: acc)
  case Nil
  then show ?case by simp
next
  case (Cons c found)
  have step: "add_instance c acc = Inr (acc @ [copied_instance c])" "cache_execution_event_id (cand_identity c) \<notin> set (map ev_id acc)"
    using Cons.prems(1) by (auto simp: add_instance_def split: if_splits)
  have "distinct (map ev_id (acc @ [copied_instance c]))"
    using Cons.prems(2) step(2) by (simp add: copied_instance_def Let_def)
  moreover have "fold_res add_instance found (acc @ [copied_instance c]) = Inr events" using Cons.prems(1) step(1) by simp
  ultimately have "distinct (map ev_id events) \<and> events = (acc @ [copied_instance c]) @ map copied_instance found"
    by (intro Cons.IH)
  then show ?case by (metis append.assoc append_Cons append_Nil list.map(2))
qed

text \<open>A cancelled event of the batch: it has a resolved cancellation and no active event its identity.\<close>

definition cancelled_by :: "string \<Rightarrow> string list \<Rightarrow> removal_observation list \<Rightarrow> event_v2 \<Rightarrow> bool" where
  "cancelled_by source active os event \<longleftrightarrow> ev_id event \<notin> set active \<and> (\<exists>o' \<in> set os.
     rm_reason (ro_removal o') = EventSyncProviderCancellation \<and> \<not> ro_unresolved o' \<and>
     event = cancelled_instance source (cache_execution_event_id (ro_previous_identity o')))"

lemma add_removals:
  "fold_res (add_removal source active) os (cancelled, n) = Inr (cancelled', n') \<Longrightarrow> distinct (map ev_id cancelled) \<Longrightarrow>
   distinct (map ev_id cancelled') \<and> (\<forall>event \<in> set cancelled'. event \<in> set cancelled \<or> cancelled_by source active os event)"
proof (induction os arbitrary: cancelled n)
  case Nil
  then show ?case by simp
next
  case (Cons o' os)
  obtain cs k where step: "add_removal source active o' (cancelled, n) = Inr (cs, k)"
      and rest: "fold_res (add_removal source active) os (cs, k) = Inr (cancelled', n')"
    using Cons.prems(1) by (cases "add_removal source active o' (cancelled, n)") auto
  have cs: "distinct (map ev_id cs)" "\<forall>event \<in> set cs. event \<in> set cancelled \<or> cancelled_by source active [o'] event"
    using step Cons.prems(2) by (auto simp: add_removal_def Let_def cancelled_by_def cancelled_instance_def split: if_splits)
  from Cons.IH [OF rest cs(1)] cs(2) show ?case by (fastforce simp: cancelled_by_def)
qed

lemma candidates_active:
  assumes "candidates zdb source events start stop z = Inr found" and "c \<in> set found"
  shows "cand_event c \<in> set events \<and> identity zdb source (cand_event c) = Inr (cand_identity c) \<and>
    ev_status (cand_event c) \<noteq> ''cancelled''"
proof -
  obtain zz where z: "z = Some zz" using assms(1) by (cases z) (auto simp: candidates_def split: if_splits)
  obtain new where new: "found = new" "map cand_event new = filter (overlaps zdb zz start stop) events"
      "\<forall>c \<in> set new. identity zdb source (cand_event c) = Inr (cand_identity c)"
      "\<forall>e \<in> set events. candidate_checks zdb zz e = Inr ()"
    using candidates_loop_sound [OF candidates_run(1) [OF assms(1) [unfolded z]]] by auto
  have "cand_event c \<in> set (map cand_event new)" using assms(2) new(1) by simp
  then have "cand_event c \<in> set events" by (simp add: new(2))
  moreover have "candidate_checks zdb zz (cand_event c) = Inr ()" using new(4) calculation by blast
  ultimately show ?thesis using new(1,3) assms(2) by (auto simp: candidate_checks_def split: if_splits)
qed

lemma cached_events_sound:
  assumes "cached_events zdb rule batch = Inr (events, n)"
  shows "distinct (map ev_id events) \<and> (\<forall>event \<in> set events.
      (ev_status event \<noteq> ''cancelled'' \<and> (\<exists>source i. source \<in> set (cb_events batch) \<and>
         identity zdb (ru_source_calendar_id rule) source = Inr i \<and>
         event = copied_instance \<lparr>cand_identity = i, cand_event = source\<rparr>)) \<or>
      (\<exists>o' \<in> set (cb_removals batch). rm_reason (ro_removal o') = EventSyncProviderCancellation \<and> \<not> ro_unresolved o' \<and>
         event = cancelled_instance (ru_source_calendar_id rule) (cache_execution_event_id (ro_previous_identity o')) \<and>
         (\<forall>source \<in> set (cb_events batch). \<forall>i. identity zdb (ru_source_calendar_id rule) source = Inr i \<longrightarrow>
            cache_execution_event_id i \<noteq> cache_execution_event_id (ro_previous_identity o'))))"
proof -
  let ?src = "ru_source_calendar_id rule"
  obtain found active copies cancelled where
    found: "candidates zdb ?src (cb_events batch) (cb_window_start batch) (cb_window_end batch) (load_location zdb (cb_timezone batch)) = Inr found"
    and active: "active_instances zdb ?src (cb_events batch) = Inr active"
    and copies: "fold_res add_instance found [] = Inr copies"
    and removals: "fold_res (add_removal ?src active) (cb_removals batch) ([], 0) = Inr (cancelled, n)"
    and events: "events = copies @ cancelled"
    using assms by (auto simp: cached_events_def Let_def bind_res_Inr_iff split: if_splits)
  have "distinct (map ev_id [])" by simp
  from add_instances [OF copies this] have c: "distinct (map ev_id copies)" "copies = map copied_instance found"
    unfolding append_Nil by blast+
  have r: "distinct (map ev_id cancelled)" "\<forall>event \<in> set cancelled. cancelled_by ?src active (cb_removals batch) event"
    using add_removals [OF removals] by simp_all
  have act: "cache_execution_event_id i \<in> set active" if "source \<in> set (cb_events batch)" "identity zdb ?src source = Inr i" for source i
    using active_instances_sound [OF active that] .
  have "set (map ev_id copies) \<subseteq> set active"
    using candidates_active [OF found] act by (auto simp: c(2) copied_instance_def Let_def)
  moreover have "set (map ev_id cancelled) \<inter> set active = {}" using r(2) by (auto simp: cancelled_by_def)
  ultimately have "distinct (map ev_id events)" using c(1) r(1) by (auto simp: events)
  moreover have "ev_status event \<noteq> ''cancelled'' \<and> (\<exists>source i. source \<in> set (cb_events batch) \<and>
       identity zdb ?src source = Inr i \<and> event = copied_instance \<lparr>cand_identity = i, cand_event = source\<rparr>)"
    if "event \<in> set copies" for event
  proof -
    obtain x where x: "x \<in> set found" "event = copied_instance x" using \<open>event \<in> set copies\<close> c(2) by auto
    have "x = \<lparr>cand_identity = cand_identity x, cand_event = cand_event x\<rparr>" by simp
    then show ?thesis using candidates_active [OF found x(1)] x(2) by (auto simp: copied_instance_def Let_def)
  qed
  ultimately show ?thesis using r(2) act unfolding events by (fastforce simp: cancelled_by_def cancelled_instance_def)
qed

section \<open>The source as an interface\<close>

text \<open>
  What the fence needs of its source: reads that change nothing, an eligibility that a check
  establishes, and a revision that a check finds served.
\<close>

locale copy_source =
  fixes ops :: "'s copy_ops"
    and admitted :: "'s \<Rightarrow> string \<Rightarrow> bool"
    and served :: "'s \<Rightarrow> string \<Rightarrow> int \<Rightarrow> bool"
  assumes eligible_reads: "cc_eligible ops i s = (r, s') \<Longrightarrow> s' = s \<and> (r = Inr () \<longrightarrow> admitted s i)"
    and current_reads: "cc_current ops cal revision start stop now maxAge s = (q, s') \<Longrightarrow>
      s' = s \<and> (q = Inr () \<longrightarrow> served s cal revision)"

context copy_source
begin

lemma fence_passed:
  assumes "en_fence e = Some (check_provider_dispatch parent ops rule revision start stop maxAge)"
    and "guard_check e g s = (Inr (), s')"
  shows "admitted s' (ru_id rule) \<and> served s' (ru_source_calendar_id rule) revision"
proof -
  obtain s1 where "check_dispatch_fence e s1 = (Inr (), s')"
    using assms(2) unfolding guard_check_def by (auto simp: and_then_def split: prod.splits sum.splits)
  then obtain s2 where "check_provider_dispatch parent ops rule revision start stop maxAge s2 = (Inr (), s')"
    using assms(1) by (auto simp: check_dispatch_fence_def split: option.splits)
  then obtain s3 r s4 where "cc_eligible ops (ru_id rule) s3 = (Inr (), s4)"
    and "cc_current ops (ru_source_calendar_id rule) revision start stop (en_now parent s4) maxAge s4 = (Inr (), s')"
    by (auto simp: check_provider_dispatch_def and_then_def split: prod.splits sum.splits)
  with eligible_reads current_reads show ?thesis by blast
qed

end

text \<open>The store provides it, wherever the state keeps its database.\<close>

definition served_revision ::
  "('s \<Rightarrow> sync_db) \<Rightarrow> unicode_case \<Rightarrow> zonedb \<Rightarrow> projection_codec \<Rightarrow> 's \<Rightarrow> string \<Rightarrow> int \<Rightarrow> bool" where
  "served_revision db_of U zdb K s cal revision \<longleftrightarrow> (\<exists>start stop now maxAge p.
     get_source_projection_for_copy U zdb K cal start stop now maxAge (db_of s) = Inr p \<and> sn_revision (sj_snapshot p) = revision)"

interpretation store_source: copy_source "store_copy_ops db_of U zdb K" "\<lambda>s i. check_sync_target_eligibility i (db_of s) = Inr ()"
    "served_revision db_of U zdb K"
proof
  show "s' = s \<and> (r = Inr () \<longrightarrow> check_sync_target_eligibility i (db_of s) = Inr ())"
    if "cc_eligible (store_copy_ops db_of U zdb K) i s = (r, s')" for i s r s'
    using that by (auto simp: store_copy_ops_def)
  show "s' = s \<and> (q = Inr () \<longrightarrow> served_revision db_of U zdb K s cal revision)"
    if "cc_current (store_copy_ops db_of U zdb K) cal revision start stop now maxAge s = (q, s')"
    for cal revision start stop now maxAge s q s'
  proof -
    have "s' = s" and q: "q = check_source_projection_current U zdb K cal revision start stop now maxAge (db_of s)"
      using that by (auto simp: store_copy_ops_def)
    moreover have "served_revision db_of U zdb K s cal revision" if "q = Inr ()"
      using that unfolding q check_source_projection_current_def served_revision_def
      by (fastforce simp: bind_res_Inr_iff split: if_splits)
    ultimately show ?thesis by blast
  qed
qed

section \<open>Every call of a cached run\<close>

text \<open>The events of a batch go through the plan as they are: they are no series, and no two have one key.\<close>

lemma plan_event_exact:
  assumes "plan_run e rule dry (Some events) w = (Inr p, w1)" and "event \<in> set (pl_events p)"
    and "distinct (map event_key events)"
    and plain: "\<And>x. x \<in> set events \<Longrightarrow> ev_recurring_event_id x = '''' \<and> ev_instance_kind x = ''cache_instance''"
  shows "event \<in> set events"
proof -
  note env = plan_run_env [OF assms(1)]
  obtain target titles n where plan: "plan_events e target (pl_existing p) events = Inr (pl_events p, titles, n)"
    using env(9) by auto
  define detached where
    "detached = detached_series (pl_existing p) (by_row_key (pl_existing p)) (deduplicate_and_order events)"
  have "pl_events p = filter_events detached (deduplicate_and_order events)"
    using plan_eventsD(2) [OF plan] by (simp add: detached_def)
  then obtain e1 where e1: "e1 \<in> set (deduplicate_and_order events)" "fst (filter_event detached e1) = Some event"
    using assms(2) by (auto simp: filter_events_def List.map_filter_def)
  obtain e0 where e0: "e0 \<in> set events" "e1 = mark_incomplete (incomplete_keys events) e0"
    using dedup_origin [OF e1(1)] by blast
  have "e1 = e0"
  proof (cases "event_key e0 \<in> set (incomplete_keys events)")
    case True
    then obtain x where "x \<in> set events" "event_key x = event_key e0" "\<not> ev_source_attendees_complete x"
      by (auto simp: incomplete_keys_def)
    then have "x = e0" using assms(3) e0(1) by (auto simp: distinct_map dest: inj_onD)
    then show ?thesis using e0(2) \<open>\<not> ev_source_attendees_complete x\<close> by (simp add: mark_incomplete_def)
  next
    case False
    then show ?thesis using e0(2) by (simp add: mark_incomplete_def)
  qed
  moreover have "'''' \<notin> set detached" by (auto simp: detached_def detached_series_def)
  ultimately show ?thesis
    using plain [OF e0(1)] e1(2) e0(1) by (auto simp: filter_event_def object_kind_def OrphanOccurrence_def split: if_splits)
qed

lemma store_copy_read:
  "ext_op (and_then (cc_eligible (store_copy_ops db_of U zdb K) i) (\<lambda>_. cc_get (store_copy_ops db_of U zdb K) cal start stop now maxAge)) w =
     (bind_res (check_sync_target_eligibility i (db_of (wo_ext w))) (\<lambda>_.
        get_source_projection_for_copy U zdb K cal start stop now maxAge (db_of (wo_ext w))), w)"
  by (cases "check_sync_target_eligibility i (db_of (wo_ext w))") (simp_all add: store_copy_ops_def ext_op_def and_then_def)

lemma run_cache_copy_cases:
  assumes "run_cache_copy e (store_copy_ops db_of U zdb K) rule now maxAge w = (out, w')" and "w' \<noteq> w"
  shows "\<exists>p start stop tz. get_source_projection_for_copy U zdb K (ru_source_calendar_id rule) start stop now maxAge (db_of (wo_ext w)) = Inr p \<and>
    run_cached_batch (e\<lparr>en_fence := Some (check_provider_dispatch e (store_copy_ops db_of U zdb K) rule (sn_revision (sj_snapshot p))
        start stop maxAge)\<rparr>) rule \<lparr>cb_events = sj_events p, cb_removals = sj_observations p, cb_timezone = tz,
      cb_window_start = start, cb_window_end = stop, cb_history_complete = True\<rparr> False w = (out, w')"
proof -
  obtain p where "get_source_projection_for_copy U zdb K (ru_source_calendar_id rule) (add_days now (- ru_lookback_days rule))
      (add_days now (ru_lookahead_days rule)) now maxAge (db_of (wo_ext w)) = Inr p"
    using assms unfolding run_cache_copy_def store_copy_read Let_def
    by (cases "get_source_projection_for_copy U zdb K (ru_source_calendar_id rule) (add_days now (- ru_lookback_days rule))
      (add_days now (ru_lookahead_days rule)) now maxAge (db_of (wo_ext w))";
      cases "check_sync_target_eligibility (ru_id rule) (db_of (wo_ext w))") (auto split: if_splits)
  then show ?thesis
    using assms unfolding run_cache_copy_def store_copy_read Let_def
    by (cases "check_sync_target_eligibility (ru_id rule) (db_of (wo_ext w))") (auto split: if_splits intro!: exI)
qed

text \<open>
  C20. Every call of a cached run is current and has a cause: in the very state it is sent in, the rule
  is still eligible to write its target and the store still serves the revision the run was planned
  from; a delete follows a resolved cancellation that the provider reported, of an occurrence that no
  event of the projection has; a create or an update mirrors an occurrence of the projection.
\<close>

theorem cached_run_calls_current:
  assumes "en_store e = table_ops" and "wo_sent w = []"
    and "run_cache_copy e (store_copy_ops db_of U zdb K) rule now maxAge w = ((x, result), w')" and "call \<in> set (wo_sent w')"
  shows "\<exists>p start stop. get_source_projection_for_copy U zdb K (ru_source_calendar_id rule) start stop now maxAge (db_of (wo_ext w)) = Inr p \<and>
    check_sync_target_eligibility (ru_id rule) (db_of (st_ext call)) = Inr () \<and>
    served_revision db_of U zdb K (st_ext call) (ru_source_calendar_id rule) (sn_revision (sj_snapshot p)) \<and>
    (let mirrors = (\<lambda>copy. \<exists>event \<in> set (sj_events p). \<exists>i. identity (en_zones e) (ru_source_calendar_id rule) event = Inr i \<and>
           copy = copied_instance \<lparr>cand_identity = i, cand_event = event\<rparr>) in
     case st_call call of
       CallDelete _ \<Rightarrow> \<exists>o' \<in> set (sj_observations p). rm_reason (ro_removal o') = EventSyncProviderCancellation \<and>
         \<not> ro_unresolved o' \<and> (\<forall>event \<in> set (sj_events p). \<forall>i. identity (en_zones e) (ru_source_calendar_id rule) event = Inr i \<longrightarrow>
            cache_execution_event_id i \<noteq> cache_execution_event_id (ro_previous_identity o'))
     | CallCreate req \<Rightarrow> \<exists>copy provider. mirrors copy \<and> cr_event req = mirror_create (en_unicode e) (ru_id rule) copy provider
     | CallUpdate req \<Rightarrow> \<exists>copy. mirrors copy \<and> ur_patch req = mirror_patch (en_unicode e) copy)"
proof -
  let ?src = "ru_source_calendar_id rule" and ?source = "store_copy_ops db_of U zdb K"
  obtain p start stop tz where got: "get_source_projection_for_copy U zdb K ?src start stop now maxAge (db_of (wo_ext w)) = Inr p"
    and run: "run_cached_batch (e\<lparr>en_fence := Some (check_provider_dispatch e ?source rule (sn_revision (sj_snapshot p)) start stop maxAge)\<rparr>)
      rule \<lparr>cb_events = sj_events p, cb_removals = sj_observations p, cb_timezone = tz, cb_window_start = start,
        cb_window_end = stop, cb_history_complete = True\<rparr> False w = ((x, result), w')"
    using run_cache_copy_cases [OF assms(3)] assms(2,4) by fastforce
  define batch where "batch = \<lparr>cb_events = sj_events p, cb_removals = sj_observations p, cb_timezone = tz, cb_window_start = start,
        cb_window_end = stop, cb_history_complete = True\<rparr>"
  have batch: "cb_events batch = sj_events p" "cb_removals batch = sj_observations p" by (simp_all add: batch_def)
  note run = run [folded batch_def]
  let ?e = "e\<lparr>en_fence := Some (check_provider_dispatch e ?source rule (sn_revision (sj_snapshot p)) start stop maxAge)\<rparr>"
  obtain events n where events: "cached_events (en_zones e) rule batch = Inr (events, n)"
    using run assms(2,4) by (cases "cached_events (en_zones e) rule batch") (auto simp: run_cached_batch_def)
  obtain res where out: "run_events ?e rule False (Some events) w = ((x, res), w')"
    using run by (auto simp: run_cached_batch_def events split: prod.splits)
  obtain pl w1 where plan: "plan_run ?e rule False (Some events) w = (Inr pl, w1)" and just: "justified set (pl_env pl) (pl_events pl) call"
    using run_calls_justified_aux [OF _ assms(2) out assms(4)] assms(1) by auto
  note sound = cached_events_sound [OF events, unfolded batch]
  have plain: "ev_recurring_event_id y = '''' \<and> ev_instance_kind y = ''cache_instance'' \<and> ev_original_start y = None"
    if "y \<in> set events" for y
    using sound that by (auto simp: copied_instance_def cancelled_instance_def Let_def zero_event_def)
  have "distinct (map event_key events)"
    using sound plain by (auto simp: distinct_map inj_on_def event_key_def event_original_start_def mapping_key_def)
  then have own: "y \<in> set events" if "y \<in> set (pl_events pl)" for y
    using plan_event_exact [OF plan that] plain by blast
  have env: "re_engine (pl_env pl) = ?e" "re_rule (pl_env pl) = rule" using plan_run_env [OF plan] by simp_all
  have fence: "check_sync_target_eligibility (ru_id rule) (db_of (st_ext call)) = Inr () \<and>
      served_revision db_of U zdb K (st_ext call) ?src (sn_revision (sj_snapshot p))"
  proof -
    obtain s where "guard_check ?e (re_target (pl_env pl)) s = (Inr (), st_ext call)"
      using just unfolding justified_def env by blast
    then show ?thesis by (rule store_source.fence_passed [rotated]) simp
  qed
  have live: "\<exists>event \<in> set (sj_events p). \<exists>i. identity (en_zones e) ?src event = Inr i \<and>
      y = copied_instance \<lparr>cand_identity = i, cand_event = event\<rparr>" if "y \<in> set (pl_events pl)" "ev_status y \<noteq> ''cancelled''" for y
    using sound own [OF that(1)] that(2) by (fastforce simp: cancelled_instance_def)
  have dead: "\<exists>o' \<in> set (sj_observations p). rm_reason (ro_removal o') = EventSyncProviderCancellation \<and>
      \<not> ro_unresolved o' \<and> (\<forall>event \<in> set (sj_events p). \<forall>i. identity (en_zones e) ?src event = Inr i \<longrightarrow>
        cache_execution_event_id i \<noteq> cache_execution_event_id (ro_previous_identity o'))"
    if "y \<in> set (pl_events pl)" "ev_status y = ''cancelled''" for y
    using sound own [OF that(1)] that(2) by fastforce
  show ?thesis
    using just got fence live dead unfolding justified_def Let_def
    by (intro exI [of _ p] exI [of _ start] exI [of _ stop])
      (cases "st_call call"; fastforce simp: safe_create_def safe_update_def safe_delete_def env)
qed

section \<open>A cached run that writes one copy\<close>

definition copy_event :: event_v2 where
  "copy_event = zero_event\<lparr>ev_id := ''e'', ev_calendar_id := ''google:a:home'', ev_status := ''confirmed'',
     ev_start := zero_event_time\<lparr>et_date := ''1970-01-02''\<rparr>, ev_end := zero_event_time\<lparr>et_date := ''1970-01-03''\<rparr>,
     ev_source_attendees_complete := True\<rparr>"

definition copy_codec :: projection_codec where
  "copy_codec = plain_codec\<lparr>pc_read_snapshot := (\<lambda>_. Some \<lparr>sy_version = 1, sy_events = Some [copy_event],
     sy_evidence = Some [\<lparr>ae_event_id = ''e'', ae_complete = Some True\<rparr>]\<rparr>)\<rparr>"

definition copy_rule :: rule where
  "copy_rule = demo_rule\<lparr>ru_sync_mode := ''cached_instances''\<rparr>"

definition copy_projection :: source_projection where
  "copy_projection = \<lparr>sj_snapshot = snapshot_columns (sv_snapshot ready_source), sj_events = [copy_event], sj_observations = []\<rparr>"

abbreviation copy_unicode :: unicode_case where
  "copy_unicode \<equiv> \<lparr>rune_upper = id, rune_lower = id\<rparr>"

abbreviation copy_source_ops :: "nat copy_ops" where
  "copy_source_ops \<equiv> store_copy_ops (\<lambda>_. ready_db) copy_unicode (\<lambda>_. None) copy_codec"

lemma copy_rule_simps [simp]: "ru_id copy_rule = ''r''" "ru_source_calendar_id copy_rule = ''google:a:home''"
  "ru_target_calendar_id copy_rule = ''google:b:home''" "ru_lookback_days copy_rule = 1" "ru_lookahead_days copy_rule = 14"
  "ru_sync_mode copy_rule = ''cached_instances''" "validate_rule copy_rule = Inr ()"
  by (simp_all add: copy_rule_def demo_rule_def sample_rule_def validate_rule_def)

lemma copy_read:
  "get_source_projection_for_copy copy_unicode (\<lambda>_. None) copy_codec ''google:a:home'' (add_days 1000 (- 1)) (add_days 1000 14)
     1000 1000 ready_db = Inr copy_projection"
proof -
  have fresh: "source_view_ok (\<lambda>_. None) ready_source (add_days 1000 (- 1)) (add_days 1000 14) 1000 1000"
    by code_simp
  have row: "sn_observations (sv_snapshot ready_source) = Some ''null''" "sn_payload (sv_snapshot ready_source) = ''S''"
      "cn_provider (sv_connection ready_source) = ''google''"
    by (simp_all add: ready_source_def ready_db_def)
  have restored: "restore_projection_evidence [copy_event] (Some [\<lparr>ae_event_id = ''e'', ae_complete = Some True\<rparr>]) ''google:a:home'' =
      Inr [copy_event]"
    by code_simp
  show ?thesis
    using fresh by (simp add: get_source_projection_for_copy_def ready_current row maxProjectionObservationBytes_def
        decode_projection_snapshot_payload_def decode_projection_payload_def maxProjectionSnapshotBytes_def plain_codec_def
        restored copy_codec_def copy_projection_def add_days_def zero_time_def)
qed

definition copied_event :: event_v2 where
  "copied_event = copied_instance \<lparr>cand_identity = mapping_key ''google:a:home'' (mapping_key ''e'' ''''), cand_event = copy_event\<rparr>"

definition copy_batch :: cache_batch where
  "copy_batch = \<lparr>cb_events = [copy_event], cb_removals = [], cb_timezone = ''UTC'', cb_window_start = add_days 1000 (- 1),
     cb_window_end = add_days 1000 14, cb_history_complete = True\<rparr>"

lemma copy_candidates:
  "candidates (\<lambda>_. None) ''google:a:home'' [copy_event] (add_days 1000 (- 1)) (add_days 1000 14) (load_location (\<lambda>_. None) ''UTC'') =
     Inr [\<lparr>cand_identity = mapping_key ''google:a:home'' (mapping_key ''e'' ''''), cand_event = copy_event\<rparr>]"
  "load_location (\<lambda>_. None) ''UTC'' \<noteq> None"
  "identity (\<lambda>_. None) ''google:a:home'' copy_event = Inr (mapping_key ''google:a:home'' (mapping_key ''e'' ''''))"
  by code_simp+

lemma copy_events: "cached_events (\<lambda>_. None) copy_rule copy_batch = Inr ([copied_event], 0)"
  by (simp add: cached_events_def copy_batch_def active_instances_def add_instance_def copied_event_def Let_def copy_candidates(1,3)
      copy_candidates(2) [simplified])

lemma copied_event_simps [simp]:
  "object_kind copied_event = ''cache_instance''" "is_plain_occurrence copied_event = False"
  "is_series_exception copied_event = False" "ev_status copied_event = ''confirmed''"
  "event_original_start copied_event = ''''" "ev_recurring_event_id copied_event = ''''"
  "ev_source_attendees_complete copied_event"
  "ev_recurrence copied_event = None" "ev_attendees copied_event = []" "ev_original_start copied_event = None"
  "ev_instance_kind copied_event = ''cache_instance''"
  by (simp_all add: copied_event_def copied_instance_def copy_event_def Let_def zero_event_def kind_defs mapping_key_def)

lemma copied_id [simp]: "ev_id copied_event \<noteq> ''''"
proof -
  have "length (ev_id copied_event) = 64"
    by (simp add: copied_event_def copied_instance_def cache_execution_event_id_def new_mapping_id_def Let_def)
  then show ?thesis by auto
qed

lemma copied_dedup [simp]: "deduplicate_and_order [copied_event] = [copied_event]"
  by (simp add: deduplicate_and_order_def incomplete_keys_def event_priority_def)

abbreviation copy_engine :: "(nat, mapping_table) engine" where
  "copy_engine \<equiv> demo_engine\<lparr>en_fence := Some (check_provider_dispatch demo_engine copy_source_ops copy_rule
     (sn_revision (sj_snapshot copy_projection)) (add_days 1000 (- 1)) (add_days 1000 14) 1000)\<rparr>"

lemma copy_fence:
  "check_provider_dispatch demo_engine copy_source_ops copy_rule (sn_revision (sj_snapshot copy_projection)) (add_days 1000 (- 1))
     (add_days 1000 14) 1000 s = (Inr (), s)"
proof -
  have "sn_revision (sj_snapshot copy_projection) = 7" by (simp add: copy_projection_def ready_source_def ready_db_def snapshot_columns_def)
  then show ?thesis
    by (simp add: check_provider_dispatch_def check_dispatch_fence_def prog_defs store_copy_ops_def ready_admitted
        check_source_projection_current_def copy_read)
qed

lemma copied_plan:
  "plan_events copy_engine t [] [copied_event] = Inr ([copied_event], [], 0)"
  by (simp add: plan_events_def Let_def by_row_key_def detached_series_def filter_events_def filter_event_def
     has_pending_mutation_def check_detached_def preflight_safe_recurrence_def preflight_mapping_def event_unsafe_def
     check_recurrence_writes_def series_titles_def active_detached_def available_series_def List.map_filter_def
     OrphanOccurrence_def)

lemma copied_create:
  "\<exists>x res w'. run_events copy_engine copy_rule False (Some [copied_event]) (demo_world []) = ((x, res), w') \<and> wo_sent w' \<noteq> []"
  by (simp add: run_defs create_defs demo_resolve demo_world_def copied_plan demo_ops_def demo_copy_def copy_fence
      zero_time_def sample_source_event_def zero_event_def new_incarnation_def max_int64_def run_hash_def
      row_key_def mapping_key_def)

lemma copy_read_revision:
  assumes "get_source_projection_for_copy copy_unicode (\<lambda>_. None) copy_codec ''google:a:home'' start stop now maxAge ready_db = Inr p"
  shows "sn_revision (sj_snapshot p) = 7"
proof -
  have "sn_revision (snapshot_columns (sv_snapshot ready_source)) = 7"
    by (simp add: ready_source_def ready_db_def snapshot_columns_def)
  then show ?thesis
    using assms ready_current by (auto simp: get_source_projection_for_copy_def split: if_splits option.splits sum.splits)
qed

theorem cached_run_calls_current_witness:
  "case run_cache_copy demo_engine copy_source_ops copy_rule 1000 1000 (demo_world []) of ((x, result), w') \<Rightarrow>
     wo_sent w' \<noteq> [] \<and> (\<forall>call \<in> set (wo_sent w').
       check_sync_target_eligibility (ru_id copy_rule) ready_db = Inr () \<and>
       served_revision (\<lambda>_. ready_db) copy_unicode (\<lambda>_. None) copy_codec (st_ext call) (ru_source_calendar_id copy_rule) 7)"
proof -
  have revision: "sn_revision (sj_snapshot copy_projection) = 7" "sn_verified (sj_snapshot copy_projection)"
      "sn_calendar_id (sj_snapshot copy_projection) = ''google:a:home''" "sn_timezone (sj_snapshot copy_projection) = ''UTC''"
      "sj_events copy_projection = [copy_event]" "sj_observations copy_projection = []"
    by (simp_all add: copy_projection_def ready_source_def ready_db_def snapshot_columns_def)
  obtain x res w' where run: "run_events copy_engine copy_rule False (Some [copied_event]) (demo_world []) = ((x, res), w')"
    and sent: "wo_sent w' \<noteq> []"
    using copied_create by blast
  have zones: "en_zones e = (\<lambda>_. None)" if "e = copy_engine" for e
    using that by (simp add: demo_engine_def)
  have "run_cached_batch copy_engine copy_rule copy_batch False (demo_world []) = ((x, res), w')"
    using run by (simp add: run_cached_batch_def zones copy_events)
  then have all: "run_cache_copy demo_engine copy_source_ops copy_rule 1000 1000 (demo_world []) = ((x, res), w')"
    using revision copy_read
    by (simp add: run_cache_copy_def store_copy_read ready_admitted Let_def copy_batch_def zero_time_def)
  have "check_sync_target_eligibility (ru_id copy_rule) ready_db = Inr () \<and>
       served_revision (\<lambda>_. ready_db) copy_unicode (\<lambda>_. None) copy_codec (st_ext call) (ru_source_calendar_id copy_rule) 7"
    if "call \<in> set (wo_sent w')" for call
    using cached_run_calls_current [OF _ _ all that] by (auto simp: demo_world_def ready_admitted copy_read_revision)
  then show ?thesis using all sent by simp
qed
end
