(* ===== verification/Sync_Frame.thy ===== *)
theory Sync_Frame
  imports Sync_Safety
begin

text \<open>
  What a run of the engine may do to the outside state.  The engine reaches it only through the
  registry, the provider's interfaces, the dispatch fence and the dispatch observer; an invariant
  that those keep, it keeps, and once a call has been sent the observer has run.
\<close>

lemma preserves_and_then_value:
  assumes "preserves I m" and "\<And>s x s'. m s = (Inr x, s') \<Longrightarrow> preserves I (k x)"
  shows "preserves I (and_then m k)"
proof (rule preservesI)
  fix s assume "I s"
  obtain r s' where run: "m s = (r, s')" by fastforce
  have "I s'" using preservesD [OF assms(1) \<open>I s\<close>] run by simp
  then show "I (snd (and_then m k s))"
    using assms(2) preservesD run by (cases r) (fastforce simp: and_then_def)+
qed

section \<open>The engine as a client of its programs\<close>

definition ops_keep :: "('s \<Rightarrow> bool) \<Rightarrow> 's event_ops \<Rightarrow> bool" where
  "ops_keep I ops \<longleftrightarrow> (\<forall>r. preserves I (eo_list ops r)) \<and> (\<forall>r. preserves I (eo_create ops r)) \<and>
     (\<forall>r. preserves I (eo_update ops r)) \<and> (\<forall>r. preserves I (eo_delete ops r))"

definition iface_keeps :: "('s \<Rightarrow> bool) \<Rightarrow> 's interfaces \<Rightarrow> bool" where
  "iface_keeps I f \<longleftrightarrow> (\<forall>ops. if_v2 f = Some ops \<longrightarrow> ops_keep I ops) \<and>
     (\<forall>get. if_instances f = Some get \<longrightarrow> (\<forall>r. preserves I (get r))) \<and>
     (\<forall>get. if_lookup f = Some get \<longrightarrow> (\<forall>a b c. preserves I (get a b c)))"

definition engine_keeps :: "('s \<Rightarrow> bool) \<Rightarrow> ('s, 't) engine \<Rightarrow> bool" where
  "engine_keeps I e \<longleftrightarrow> (\<forall>i. preserves I (resolve_enabled (en_registry e) i)) \<and> (\<forall>p. iface_keeps I (en_iface e p)) \<and>
     (\<forall>f. en_fence e = Some f \<longrightarrow> preserves I f)"

text \<open>
  The frame of a run: an invariant of the outside, which held wherever a call was sent, and a mark
  that the observer leaves.
\<close>

definition framed :: "('s \<Rightarrow> bool) \<Rightarrow> ('s \<Rightarrow> bool) \<Rightarrow> ('s, 't) world \<Rightarrow> bool" where
  "framed I D w \<longleftrightarrow> I (wo_ext w) \<and> (\<forall>call \<in> set (wo_sent w). I (st_ext call)) \<and> (wo_sent w = [] \<or> D (wo_ext w))"

locale engine_frame =
  fixes e :: "('s, 't) engine"
    and I :: "'s \<Rightarrow> bool"
    and D :: "'s \<Rightarrow> bool"
  assumes keeps: "engine_keeps I e"
    and keeps_mark: "engine_keeps (\<lambda>s. I s \<and> D s) e"
    and observed: "\<exists>f. en_on_dispatch e = Some f \<and> (\<forall>s. I s \<longrightarrow> I (f s) \<and> D (f s))"

context engine_frame
begin

lemma ext_framed: "preserves I m \<Longrightarrow> preserves (\<lambda>s. I s \<and> D s) m \<Longrightarrow> preserves (framed I D) (ext_op m)"
  by (rule preservesI) (auto simp: framed_def ext_op_def preserves_def split_def)

lemma table_framed: "preserves (framed I D) (table_op f)" "preserves (framed I D) (insert_op e g)"
  by (auto simp: preserves_def framed_def table_op_def insert_op_def split_def)

lemma fence_keeps: "preserves I (check_dispatch_fence e)" "preserves (\<lambda>s. I s \<and> D s) (check_dispatch_fence e)"
  using keeps keeps_mark
  by (auto simp: check_dispatch_fence_def engine_keeps_def preserves_def fail_def split: option.splits)

lemma resolve_keeps: "preserves I (resolve_enabled (en_registry e) i)"
    "preserves (\<lambda>s. I s \<and> D s) (resolve_enabled (en_registry e) i)"
  using keeps keeps_mark by (simp_all add: engine_keeps_def)

lemma guard_framed: "preserves (framed I D) (ext_op (guard_check e g))"
  unfolding guard_check_def
  by (intro ext_framed preserves_and_then preserves_for_each preserves_if preserves_ret preserves_wrap_fail resolve_keeps fence_keeps)

lemma send_framed: "preserves I m \<Longrightarrow> preserves (\<lambda>s. I s \<and> D s) m \<Longrightarrow> preserves (framed I D) (send e c m)"
  using observed by (auto simp: preserves_def framed_def send_def ext_op_def split_def)

end

text \<open>The environment of a run: its engine, and operations that a provider of the engine has.\<close>

definition env_of :: "('s, 't) engine \<Rightarrow> ('s, 't) run_env \<Rightarrow> bool" where
  "env_of e v \<longleftrightarrow> re_engine v = e \<and> (\<exists>p. if_v2 (en_iface e p) = Some (tg_ops (re_target v)))"

context engine_frame
begin

lemma ops_kept:
  assumes "env_of e v"
  shows "ops_keep I (tg_ops (re_target v))" "ops_keep (\<lambda>s. I s \<and> D s) (tg_ops (re_target v))"
  using assms keeps keeps_mark by (auto simp: env_of_def engine_keeps_def iface_keeps_def)

lemma guarded_framed:
  assumes "env_of e v"
  shows "preserves (framed I D) (guarded_create e (re_target v) r1)" "preserves (framed I D) (guarded_update e (re_target v) r2)"
    "preserves (framed I D) (guarded_delete e (re_target v) r3)"
  using ops_kept [OF assms] unfolding guarded_create_def guarded_update_def guarded_delete_def Let_def ops_keep_def
  by (auto intro!: preserves_and_then preserves_if preserves_fail preserves_lift_res guard_framed send_framed)

lemma sends_framed:
  assumes "env_of e v"
  shows "preserves (framed I D) (send_delete v i sc etag mk)" "preserves (framed I D) (send_update v i ev sc etag mk)"
  using guarded_framed [OF assms] assms by (simp_all add: send_delete_def send_update_def env_of_def)

lemma intents_framed:
  "preserves (framed I D) (begin_mapping_mutation e m kind targetID)"
  "preserves (framed I D) (complete_mapping_mutation e m m' outcome)"
  "preserves (framed I D) (complete_mapping_delete e m outcome)"
  unfolding begin_mapping_mutation_def complete_mapping_mutation_def complete_mapping_delete_def
  by (intro preserves_intros table_framed ext_framed fence_keeps)+

lemma list_all_keeps:
  assumes "\<And>r. preserves K (eo_list ops r)"
  shows "preserves K (Sync_Engine.list_all n ops req acc)"
proof (induction n arbitrary: req acc)
  case 0
  then show ?case by (simp add: preserves_fail)
next
  case (Suc n)
  then show ?case by (simp) (intro preserves_intros assms Suc)
qed

lemma instance_pages_keep:
  assumes "\<And>r. preserves K (get r)"
  shows "preserves K (instance_pages n zdb get original req)"
proof (induction n arbitrary: req)
  case 0
  then show ?case by (simp add: preserves_fail)
next
  case (Suc n)
  then show ?case by (simp) (intro preserves_intros assms Suc)
qed

lemma find_instance_keeps:
  assumes "engine_keeps K e"
  shows "preserves K (find_target_instance e p cal series original start stop)"
  using assms unfolding find_target_instance_def engine_keeps_def iface_keeps_def
  by (intro preserves_intros instance_pages_keep) auto

lemma lookup_framed:
  assumes "env_of e v" and "if_lookup (en_iface e p) = Some find_marker"
  shows "preserves (\<lambda>rs. framed I D (rs_world rs)) (lookup_copy v find_marker event msg)"
  using assms keeps keeps_mark unfolding lookup_copy_def
  by (intro preserves_intros ext_framed) (auto simp: engine_keeps_def iface_keeps_def)

lemma create_intent_framed:
  assumes "env_of e v"
  shows "preserves (framed I D) (create_intent v event)"
proof -
  have "re_engine v = e" using assms by (simp add: env_of_def)
  then show ?thesis unfolding create_intent_def by simp (intro preserves_intros ext_framed fence_keeps table_framed)
qed

lemma branches_framed:
  assumes "env_of e v"
  shows "preserves (\<lambda>rs. framed I D (rs_world rs)) (reconcile_exception v event mapped)"
    "preserves (\<lambda>rs. framed I D (rs_world rs)) (reconcile_cancelled v event mapped)"
    "preserves (\<lambda>rs. framed I D (rs_world rs)) (reconcile_create v event pend)"
    "preserves (\<lambda>rs. framed I D (rs_world rs)) (reconcile_changed v event m)"
    "preserves (\<lambda>rs. framed I D (rs_world rs)) (recover_cancelled v event m)"
    "preserves (\<lambda>rs. framed I D (rs_world rs)) (restore_mapping v m)"
proof -
  have e: "re_engine v = e" using assms by (simp add: env_of_def)
  note parts = intents_framed sends_framed [OF assms] guarded_framed [OF assms] create_intent_framed [OF assms]
    find_instance_keeps [OF keeps] find_instance_keeps [OF keeps_mark]
  show "preserves (\<lambda>rs. framed I D (rs_world rs)) (reconcile_exception v event mapped)"
    unfolding reconcile_exception_def delete_exception_def update_exception_def e
    by (intro preserves_intros preserves_if_app parts ext_framed)
  show "preserves (\<lambda>rs. framed I D (rs_world rs)) (reconcile_cancelled v event mapped)"
    unfolding reconcile_cancelled_def e by (intro preserves_intros parts)
  show "preserves (\<lambda>rs. framed I D (rs_world rs)) (reconcile_changed v event m)"
    unfolding reconcile_changed_def e by (intro preserves_intros parts)
  show "preserves (\<lambda>rs. framed I D (rs_world rs)) (restore_mapping v m)"
    unfolding restore_mapping_def restore_occurrence_def e by (intro preserves_intros parts)
  show "preserves (\<lambda>rs. framed I D (rs_world rs)) (recover_cancelled v event m)"
    unfolding recover_cancelled_def e by (intro preserves_intros parts lookup_framed [OF assms]) simp_all
  show "preserves (\<lambda>rs. framed I D (rs_world rs)) (reconcile_create v event pend)"
    unfolding reconcile_create_def obtain_copy_def create_copy_def update_copy_def settle_copy_def e
    by (intro preserves_intros parts table_framed lookup_framed [OF assms]) simp_all
qed

lemma plan_framed: "preserves (framed I D) (plan_run e rule dry cached)"
proof -
  have listed: "preserves K (read_source e start stop cached source)"
    if "engine_keeps K e" and "\<forall>ops i. source = Some (ops, i) \<longrightarrow> (\<exists>p. if_v2 (en_iface e p) = Some ops)" for K source start stop
  proof (cases source)
    case None
    then show ?thesis by (simp add: read_source_def preserves_ret)
  next
    case (Some x)
    then obtain ops i where x: "source = Some (ops, i)" by (cases x) simp
    then have "ops_keep K ops" using that by (auto simp: engine_keeps_def iface_keeps_def)
    then show ?thesis
      unfolding read_source_def x option.case prod.case ops_keep_def by (intro preserves_intros list_all_keeps) blast
  qed
  have select: "preserves K (select_source e rule cached)" if "engine_keeps K e" for K
    using that unfolding select_source_def engine_keeps_def by (intro preserves_intros) blast
  have chosen: "\<forall>ops i. source = Some (ops, i) \<longrightarrow> (\<exists>p. if_v2 (en_iface e p) = Some ops)"
    if "staged stage (ext_op (select_source e rule cached)) w = (Inr source, w')" for stage source w w'
    using that by (auto simp: staged_def wrap_fail_def ext_op_def select_source_def typed_provider_def and_then_def ret_def
        lift_res_def split: prod.splits sum.splits option.splits)
  show ?thesis
    unfolding plan_run_def Let_def split_def
    by (rule preserves_and_then, (intro preserves_intros)[1], rule preserves_and_then_value)
      (intro preserves_intros ext_framed listed select resolve_keeps keeps keeps_mark chosen | assumption)+
qed

lemma plan_env_of: "plan_run e rule dry cached w = (Inr p, w') \<Longrightarrow> env_of e (pl_env p)"
  unfolding plan_run_def staged_def Let_def split_def returns_iff env_of_def typed_provider_def
  by (elim exE conjE) (auto split: option.splits)

lemma run_framed:
  assumes "run_events e rule dry cached w = ((x, res), w')" and "framed I D w"
  shows "framed I D w'"
  using assms(1)
proof (cases rule: run_events_cases)
  case (refused y)
  then show ?thesis using preservesD [OF plan_framed assms(2), of rule dry cached] by simp
next
  case (ran p w1 r rs)
  have "framed I D w1" using preservesD [OF plan_framed assms(2), of rule dry cached] ran(1) by simp
  then have start: "framed I D (rs_world (initial_state p w1))" by (simp add: initial_state_def)
  note env = plan_env_of [OF ran(1)]
  have "preserves (\<lambda>rs. framed I D (rs_world rs)) (dispatch_event (pl_env p) event mapped pend)" for event mapped pend
    unfolding dispatch_event_def by (intro preserves_intros branches_framed [OF env])
  then have "preserves (\<lambda>rs. framed I D (rs_world rs)) (process_event (pl_env p) event)" for event
    unfolding process_event_def by (intro preserves_intros branches_framed [OF env]) simp_all
  then have "preserves (\<lambda>rs. framed I D (rs_world rs)) (reconcile p)"
    unfolding reconcile_def by (intro preserves_and_then preserves_for_each branches_framed [OF env])
  from preservesD [OF this start] show ?thesis using ran(2,3) by simp
qed

end

end
