(* ===== verification/Worker.thy ===== *)
theory Worker
  imports Sync_Cache_Copy Sync_Frame
begin

text \<open>
  The execution of a claimed job (\<open>src/internal/runtime/worker.go\<close>, \<open>job_dispatch_fence.go\<close>):
  the record of the run, the reservation of the target, the fence that ties every write to the
  claim, the run of the engine, the release, and the end of the job.  The database is the model's;
  before every operation of the worker on it others may commit what they like.  The providers act
  on a world of their own.  The clock, \<open>ctx.Err()\<close> of the run's context (which the heartbeat and
  the poll for a stop cancel), and what the heartbeat returns come from an environment.
\<close>

section \<open>The state of a worker\<close>

record 'p worker =
  wk_db :: sync_db
  wk_remote :: 'p
  wk_step :: nat
  wk_dispatched :: bool

record 'p worker_env =
  we_other :: "nat \<Rightarrow> sync_db \<Rightarrow> sync_db"
  we_ctx :: "nat \<Rightarrow> err option"
  we_now :: "nat \<Rightarrow> instant"
  we_build :: "('p, 'p provider list) prog"
  we_iface :: "'p worker provider \<Rightarrow> 'p interfaces"
  we_heartbeat :: "err option"
  we_run_id :: string
  we_operation_id :: string
  we_uuid :: "nat \<Rightarrow> string"
  we_unicode :: unicode_case
  we_zones :: zonedb
  we_codec :: projection_codec
  we_cipher :: "artifact_cipher option"
  we_errors :: error_view
  we_at_lock :: int
  we_before_commit :: int
  we_fuel :: nat

definition job_clock :: "'p worker_env \<Rightarrow> 'p worker \<Rightarrow> instant" where
  "job_clock E s = we_now E (wk_step s)"

definition step_on :: "'p worker \<Rightarrow> 'p worker" where
  "step_on s = s\<lparr>wk_step := Suc (wk_step s)\<rparr>"

text \<open>A transaction of the worker, after what others committed; an error rolls it back.\<close>

definition job_store :: "'p worker_env \<Rightarrow> 'a tx \<Rightarrow> ('p worker, 'a) prog" where
  "job_store E t s = (let db = we_other E (wk_step s) (wk_db s); s' = (step_on s)\<lparr>wk_db := db\<rparr> in
     case t db of Inl x \<Rightarrow> (Inl x, s') | Inr (y, db') \<Rightarrow> (Inr y, s'\<lparr>wk_db := db'\<rparr>))"

definition job_query :: "'p worker_env \<Rightarrow> (sync_db \<Rightarrow> 'a res) \<Rightarrow> ('p worker, 'a) prog" where
  "job_query E q = job_store E (\<lambda>db. bind_res (q db) (\<lambda>x. Inr (x, db)))"

text \<open>An operation with the run's context: it fails when the context is done.\<close>

definition job_ctx :: "'p worker_env \<Rightarrow> ('p worker, 'a) prog \<Rightarrow> ('p worker, 'a) prog" where
  "job_ctx E m s = (case we_ctx E (wk_step s) of Some x \<Rightarrow> (Inl x, step_on s) | None \<Rightarrow> m s)"

section \<open>Providers\<close>

definition remote :: "('p, 'a) prog \<Rightarrow> ('p worker, 'a) prog" where
  "remote m s = (case m (wk_remote s) of (r, x) \<Rightarrow> (r, (step_on s)\<lparr>wk_remote := x\<rparr>))"

definition remote_provider :: "'p provider \<Rightarrow> 'p worker provider" where
  "remote_provider p = \<lparr>pr_name = pr_name p, pr_route = pr_route p, pr_owns = pr_owns p,
     pr_list_calendars = remote (pr_list_calendars p), pr_create_event = (\<lambda>i ev. remote (pr_create_event p i ev)),
     pr_update_event = (\<lambda>i j ev. remote (pr_update_event p i j ev)), pr_delete_event = (\<lambda>i j. remote (pr_delete_event p i j))\<rparr>"

definition remote_ops :: "'p event_ops \<Rightarrow> 'p worker event_ops" where
  "remote_ops o' = \<lparr>eo_list = (\<lambda>r. remote (eo_list o' r)), eo_create = (\<lambda>r. remote (eo_create o' r)),
     eo_update = (\<lambda>r. remote (eo_update o' r)), eo_delete = (\<lambda>r. remote (eo_delete o' r))\<rparr>"

definition remote_interfaces :: "'p interfaces \<Rightarrow> 'p worker interfaces" where
  "remote_interfaces f = \<lparr>if_v2 = map_option remote_ops (if_v2 f), if_no_attendees = if_no_attendees f,
     if_recurring = if_recurring f, if_validate = if_validate f,
     if_instances = map_option (\<lambda>get r. remote (get r)) (if_instances f),
     if_lookup = map_option (\<lambda>get a b c. remote (get a b c)) (if_lookup f)\<rparr>"

section \<open>The fence of a job (job_dispatch_fence.go)\<close>

definition job_fence :: "'p worker_env \<Rightarrow> job \<Rightarrow> ('p worker, unit) prog" where
  "job_fence E job = and_then (\<lambda>s. job_ctx E (job_query E
       (check_job_dispatch_lease (we_ctx E (Suc (wk_step s))) (we_now E (Suc (wk_step s))) job)) s)
     (\<lambda>_. job_ctx E (job_query E (check_sync_target_eligibility (jb_rule_id job))))"

text \<open>Of the selection the engine asks whether a calendar is enabled.\<close>

definition job_selection :: "'p worker_env \<Rightarrow> 'p worker selection" where
  "job_selection E = \<lparr>sel_calendar_enabled = (\<lambda>i. job_ctx E (job_query E (\<lambda>db. Inr (store_calendar_enabled i db)))),
     sel_register_discovered = None, sel_catalog = None\<rparr>"

definition job_engine :: "'p worker_env \<Rightarrow> job \<Rightarrow> 'p provider list \<Rightarrow> ('p worker, mapping_table) engine" where
  "job_engine E job ps = \<lparr>en_registry = new_registry (map remote_provider ps) [] False (Some (job_selection E)) None,
     en_iface = (\<lambda>p. remote_interfaces (we_iface E p)), en_store = table_ops, en_fence = Some (job_fence E job),
     en_ctx_err = (\<lambda>s. we_ctx E (wk_step s)), en_on_dispatch = Some (\<lambda>s. s\<lparr>wk_dispatched := True\<rparr>),
     en_now = job_clock E, en_uuid = we_uuid E, en_unicode = we_unicode E, en_zones = we_zones E, en_fuel = we_fuel E\<rparr>"

type_synonym 'p job_world = "('p worker, mapping_table) world"

section \<open>The run of a job (executeJob)\<close>

definition copyMaxAge :: int where "copyMaxAge = 15 * 60 * nanos"

text \<open>The preview of a cached rule, with the version of the rule before and after its read.\<close>

definition preview_job :: "'p worker_env \<Rightarrow> rule \<Rightarrow> ('p worker, rule \<times> sync_result) prog" where
  "preview_job E rule0 =
     and_then (job_ctx E (job_query E (rule_config_version (ru_id rule0)))) (\<lambda>before.
     and_then (job_ctx E (job_query E (rule_by_id (ru_id rule0)))) (\<lambda>rule.
     if ru_sync_mode rule \<noteq> ''cached_instances'' \<or> ru_state rule \<noteq> ''paused'' then fail (Sentinel ErrRuleConfigChanged)
     else and_then (\<lambda>s. job_ctx E (job_query E (\<lambda>db. preview_cache_copy (we_unicode E) (we_zones E)
            (\<lambda>cal start stop now maxAge. read_projection_preview_snapshot (we_unicode E) (we_zones E) (we_codec E) cal start stop now maxAge db)
            rule (job_clock E s) copyMaxAge)) s) (\<lambda>result.
          and_then (job_ctx E (job_query E (rule_config_version (ru_id rule)))) (\<lambda>after.
          if before \<noteq> after then fail (Sentinel ErrRuleConfigChanged)
          else ret (rule, result\<lparr>sr_preview := map_option (\<lambda>p. p\<lparr>rp_rule_config_version := before\<rparr>) (sr_preview result)\<rparr>)))))"

definition run_cached_job ::
  "'p worker_env \<Rightarrow> job \<Rightarrow> rule \<Rightarrow> 'p job_world \<Rightarrow> ('p worker, mapping_table) outcome" where
  "run_cached_job E job rule w = (case ext_op (and_then (\<lambda>s. let checkedAt = job_clock E s in
         job_ctx E (job_query E (get_source_projection_for_copy (we_unicode E) (we_zones E) (we_codec E)
           (ru_source_calendar_id rule) (add_days checkedAt (- ru_lookback_days rule))
           (add_days checkedAt (ru_lookahead_days rule)) checkedAt copyMaxAge)) s) (\<lambda>_. remote (we_build E))) w of
       (Inl x, w) \<Rightarrow> ((Some (ErrFailure ''provider_setup'' x), zero_result), w)
     | (Inr ps, w) \<Rightarrow> run_cache_copy (job_engine E job ps) (store_copy_ops wk_db (we_unicode E) (we_zones E) (we_codec E))
         rule (job_clock E (wo_ext w)) copyMaxAge w)"

definition run_direct_job ::
  "'p worker_env \<Rightarrow> job \<Rightarrow> rule \<Rightarrow> bool \<Rightarrow> 'p job_world \<Rightarrow> ('p worker, mapping_table) outcome" where
  "run_direct_job E job rule dry w = (case ext_op (remote (we_build E)) w of
       (Inl x, w) \<Rightarrow> ((Some (if err_is x ErrProjectionSnapshotUnavailable then x else ErrFailure ''provider_setup'' x), zero_result), w)
     | (Inr ps, w) \<Rightarrow> run_rule (job_engine E job ps) rule dry w)"

text \<open>What the attempt leaves for the end of the job: the error, the result, the rule as it was last read.\<close>

record job_end =
  je_err :: "err option"
  je_result :: sync_result
  je_rule :: rule
  je_reserved :: bool

definition job_dry :: "job \<Rightarrow> bool" where
  "job_dry job \<longleftrightarrow> jb_kind job = ''dry_run''"

definition dispatch_job ::
  "'p worker_env \<Rightarrow> job \<Rightarrow> rule \<Rightarrow> bool \<Rightarrow> 'p job_world \<Rightarrow> job_end \<times> 'p job_world" where
  "dispatch_job E job rule reserved w =
     (if ru_sync_mode rule \<noteq> ''cached_instances'' then
        (case run_direct_job E job rule (job_dry job) w of ((x, result), w) \<Rightarrow>
          (\<lparr>je_err = x, je_result = result, je_rule = rule, je_reserved = reserved\<rparr>, w))
      else if \<not> job_dry job then
        (case run_cached_job E job rule w of ((x, result), w) \<Rightarrow>
          (\<lparr>je_err = x, je_result = result, je_rule = rule, je_reserved = reserved\<rparr>, w))
      else (case ext_op (preview_job E rule) w of
          (Inl x, w) \<Rightarrow> (\<lparr>je_err = Some x, je_result = zero_result, je_rule = rule, je_reserved = reserved\<rparr>, w)
        | (Inr (rule, result), w) \<Rightarrow> (\<lparr>je_err = None, je_result = result, je_rule = rule, je_reserved = reserved\<rparr>, w)))"

definition reservation_request :: "'p worker_env \<Rightarrow> rule \<Rightarrow> instant \<Rightarrow> exclusive_request" where
  "reservation_request E rule now = \<lparr>xr_operation_id = we_operation_id E, xr_target_key = GlobalSyncDispatchKey,
     xr_request_hash = sha256_hex (''sync-run:'' @ we_run_id E), xr_kind = ''run'',
     xr_calendar_ids = [ru_target_calendar_id rule], xr_now = now\<rparr>"

definition failed_end :: "rule \<Rightarrow> bool \<Rightarrow> err \<Rightarrow> job_end" where
  "failed_end rule reserved x = \<lparr>je_err = Some x, je_result = zero_result, je_rule = rule, je_reserved = reserved\<rparr>"

definition attempt_job :: "'p worker_env \<Rightarrow> job \<Rightarrow> rule \<Rightarrow> 'p job_world \<Rightarrow> job_end \<times> 'p job_world" where
  "attempt_job E job rule w =
     (if job_dry job then dispatch_job E job rule False w
      else (case ext_op (\<lambda>s. job_ctx E (job_store E (begin_exclusive_dispatch (reservation_request E rule (job_clock E s)))) s) w of
          (Inl x, w) \<Rightarrow> (failed_end rule False x, w)
        | (Inr _, w) \<Rightarrow> (case ext_op (job_ctx E (job_query E (check_sync_target_eligibility (ru_id rule)))) w of
              (Inl x, w) \<Rightarrow> (failed_end rule True x, w)
            | (Inr _, w) \<Rightarrow> dispatch_job E job rule True w)))"

definition join_err :: "err option \<Rightarrow> err \<Rightarrow> err" where
  "join_err x y = (case x of None \<Rightarrow> y | Some x \<Rightarrow> ErrJoin x y)"

definition heartbeat_end :: "'p worker_env \<Rightarrow> job_end \<Rightarrow> job_end" where
  "heartbeat_end E o' = (case we_heartbeat E of
       None \<Rightarrow> o'
     | Some x \<Rightarrow> o'\<lparr>je_err := Some (join_err (je_err o') (ErrFailure ''job_lease'' x))\<rparr>)"

text \<open>The reservation is released when the run succeeded or nothing had been dispatched.\<close>

definition release_job :: "'p worker_env \<Rightarrow> job_end \<Rightarrow> 'p job_world \<Rightarrow> job_end \<times> 'p job_world" where
  "release_job E o' w =
     (if je_reserved o' \<and> (je_err o' = None \<or> \<not> wk_dispatched (wo_ext w)) then
        (case ext_op (\<lambda>s. job_store E (release_exclusive_after_confirmed_run (we_operation_id E)
             [ru_target_calendar_id (je_rule o')] (job_clock E s)) s) w of
           (Inl x, w) \<Rightarrow> (o'\<lparr>je_err := Some (join_err (je_err o') x)\<rparr>, w)
         | (Inr _, w) \<Rightarrow> (o', w))
      else (o', w))"

definition job_run :: "'p worker_env \<Rightarrow> job \<Rightarrow> rule \<Rightarrow> instant \<Rightarrow> run" where
  "job_run E job rule now = \<lparr>rn_id = we_run_id E, rn_job_id = jb_id job, rn_rule_id = ru_id rule, rn_trigger = jb_kind job,
     rn_outcome = ''running'', rn_started_at = now, rn_finished_at = None, rn_created_count = 0, rn_updated_count = 0,
     rn_deleted_count = 0, rn_skipped_count = 0, rn_warning_count = 0, rn_error_code = '''', rn_error_summary = '''',
     rn_dry_run = job_dry job, rn_stop_requested = False, rn_provider_dispatched = False, rn_preview = None\<rparr>"

definition zero_run :: run where
  "zero_run = \<lparr>rn_id = '''', rn_job_id = '''', rn_rule_id = '''', rn_trigger = '''', rn_outcome = '''', rn_started_at = zero_time,
     rn_finished_at = None, rn_created_count = 0, rn_updated_count = 0, rn_deleted_count = 0, rn_skipped_count = 0,
     rn_warning_count = 0, rn_error_code = '''', rn_error_summary = '''', rn_dry_run = False, rn_stop_requested = False,
     rn_provider_dispatched = False, rn_preview = None\<rparr>"

definition DetachedSeriesWarning :: string where
  "DetachedSeriesWarning = ''Some recurring events are mirrored as individual events because their source series was unavailable.''"
definition IncompleteParticipantsWarning :: string where
  "IncompleteParticipantsWarning = ''Some participant lists may be incomplete.''"
definition SourceOnlyPreviewWarning :: string where
  "SourceOnlyPreviewWarning = ''Destination was not checked; this preview does not authorize synchronization.''"

definition run_warnings_summary :: "sync_result \<Rightarrow> string" where
  "run_warnings_summary result = (let
       a = (if 0 < sr_detached_series result then DetachedSeriesWarning else '''');
       b = (if 0 < sr_participants_incomplete result then IncompleteParticipantsWarning else '''') in
     if a \<noteq> '''' \<and> b \<noteq> '''' then a @ '' '' @ b else a @ b)"

definition job_summary :: "job \<Rightarrow> job_end \<Rightarrow> string" where
  "job_summary job o' = (let summary = run_warnings_summary (je_result o') in
     if ru_sync_mode (je_rule o') = ''cached_instances'' \<and> job_dry job
     then (if summary = '''' then SourceOnlyPreviewWarning else summary @ '' '' @ SourceOnlyPreviewWarning) else summary)"

definition finish_job :: "'p worker_env \<Rightarrow> job \<Rightarrow> job_end \<Rightarrow> 'p job_world \<Rightarrow> err option \<times> 'p job_world" where
  "finish_job E job o' w = (let finish = (\<lambda>outcome counters s. job_store E (finish_run (we_cipher E) (we_run_id E) job outcome
         (job_clock E s) counters (we_at_lock E) (we_before_commit E)) s) in
     case je_err o' of
       Some x \<Rightarrow> (let code = failure_code (we_errors E) x in
         case ext_op (finish ''failed'' (zero_run\<lparr>rn_error_code := code, rn_error_summary := failure_message code,
             rn_provider_dispatched := wk_dispatched (wo_ext w)\<rparr>)) w of
           (Inl y, w) \<Rightarrow> (Some (ErrJoin x y), w)
         | (Inr _, w) \<Rightarrow> (Some x, w))
     | None \<Rightarrow> (let result = je_result o' in
         case ext_op (finish ''succeeded'' (zero_run\<lparr>rn_created_count := sr_created result, rn_updated_count := sr_updated result,
             rn_deleted_count := sr_deleted result, rn_skipped_count := sr_skipped result, rn_warning_count := sr_warnings result,
             rn_error_summary := job_summary job o', rn_preview := sr_preview result\<rparr>)) w of
           (Inl y, w) \<Rightarrow> (Some y, w)
         | (Inr _, w) \<Rightarrow> (None, w)))"

definition settle_job :: "'p worker_env \<Rightarrow> job \<Rightarrow> job_end \<Rightarrow> 'p job_world \<Rightarrow> err option \<times> 'p job_world" where
  "settle_job E job o' w = (case release_job E (heartbeat_end E o') w of (o', w) \<Rightarrow> finish_job E job o' w)"

text \<open>\<open>dispatched\<close> is a local variable of \<open>executeJob\<close>, false at the start.\<close>

definition execute_job :: "'p worker_env \<Rightarrow> job \<Rightarrow> instant \<Rightarrow> 'p job_world \<Rightarrow> err option \<times> 'p job_world" where
  "execute_job E job now w =
     (case ext_op (job_query E (rule_by_id (jb_rule_id job))) (w\<lparr>wo_ext := (wo_ext w)\<lparr>wk_dispatched := False\<rparr>\<rparr>) of
        (Inl x, w) \<Rightarrow> (Some x, w)
      | (Inr rule, w) \<Rightarrow> (case ext_op (job_store E (start_run (job_run E job rule now))) w of
            (Inl x, w) \<Rightarrow> (Some x, w)
          | (Inr _, w) \<Rightarrow> (case attempt_job E job rule w of (o', w) \<Rightarrow> settle_job E job o' w)))"

section \<open>What the worker keeps\<close>

text \<open>
  The rely of a run: whoever else commits, nobody releases the reservation of another operation.
  Under it the reservation of a run stays active through everything the engine does.
\<close>

definition others_keep :: "'p worker_env \<Rightarrow> bool" where
  "others_keep E \<longleftrightarrow> (\<forall>n db. reserved_in (we_operation_id E) db \<longrightarrow> reserved_in (we_operation_id E) (we_other E n db))"

definition held :: "'p worker_env \<Rightarrow> 'p worker \<Rightarrow> bool" where
  "held E s \<longleftrightarrow> (others_keep E \<longrightarrow> reserved_in (we_operation_id E) (wk_db s))"

abbreviation held_mark :: "'p worker_env \<Rightarrow> 'p worker \<Rightarrow> bool" where
  "held_mark E \<equiv> \<lambda>s. held E s \<and> wk_dispatched s"

lemma step_on_simps [simp]: "wk_db (step_on s) = wk_db s" "wk_dispatched (step_on s) = wk_dispatched s"
  by (simp_all add: step_on_def)

lemma query_run:
  "job_query E q s = (q (we_other E (wk_step s) (wk_db s)), (step_on s)\<lparr>wk_db := we_other E (wk_step s) (wk_db s)\<rparr>)"
  by (cases "q (we_other E (wk_step s) (wk_db s))") (simp_all add: job_query_def job_store_def Let_def)

lemma held_other: "held E s \<Longrightarrow> held E (s'\<lparr>wk_db := we_other E n (wk_db s)\<rparr>)"
  by (simp add: held_def others_keep_def)

lemma query_keeps: "preserves (held E) (job_query E q)" "preserves (held_mark E) (job_query E q)"
  by (auto simp: preserves_def query_run held_other)

lemma query_at_keeps: "preserves (held E) (\<lambda>s. job_ctx E (job_query E (q s)) s)"
    "preserves (held_mark E) (\<lambda>s. job_ctx E (job_query E (q s)) s)"
  by (auto simp: preserves_def job_ctx_def query_run held_other split: option.splits) (simp_all add: held_def)

lemma ctx_keeps:
  "preserves (held E) m \<Longrightarrow> preserves (held E) (job_ctx E m)"
  "preserves (held_mark E) m' \<Longrightarrow> preserves (held_mark E) (job_ctx E m')"
  by (auto simp: preserves_def job_ctx_def held_def split: option.splits)

lemma remote_keeps: "preserves (held E) (remote m)" "preserves (held_mark E) (remote m)"
  by (auto simp: preserves_def remote_def held_def split: prod.splits)

lemma remote_iface_keeps: "iface_keeps (held E) (remote_interfaces f)" "iface_keeps (held_mark E) (remote_interfaces f)"
  by (auto simp: iface_keeps_def ops_keep_def remote_interfaces_def remote_ops_def remote_keeps)

lemma fence_keeps_held: "preserves (held E) (job_fence E job)" "preserves (held_mark E) (job_fence E job)"
  unfolding job_fence_def by (rule preserves_and_then; rule query_at_keeps ctx_keeps query_keeps)+

lemma selection_keeps:
  assumes "\<And>q. preserves K (job_ctx E (job_query E (q :: sync_db \<Rightarrow> bool res)))"
  shows "preserves K (resolve_enabled (en_registry (job_engine E job ps)) i)"
  using assms unfolding resolve_enabled_def calendar_enabled_def
  by (intro preserves_intros) (auto simp: job_engine_def new_registry_def job_selection_def)

lemma job_engine_simps [simp]: "en_iface (job_engine E job ps) = (\<lambda>p. remote_interfaces (we_iface E p))"
  "en_fence (job_engine E job ps) = Some (job_fence E job)" "en_store (job_engine E job ps) = table_ops"
  "en_on_dispatch (job_engine E job ps) = Some (\<lambda>s. s\<lparr>wk_dispatched := True\<rparr>)"
  by (simp_all add: job_engine_def)

lemma job_engine_keeps: "engine_keeps (held E) (job_engine E job ps)" "engine_keeps (held_mark E) (job_engine E job ps)"
  by (simp_all add: engine_keeps_def remote_iface_keeps fence_keeps_held selection_keeps ctx_keeps query_keeps)

interpretation job_run_frame: engine_frame "job_engine E job ps" "held E" wk_dispatched
  by (rule engine_frame.intro) (rule job_engine_keeps, rule job_engine_keeps, simp add: held_def)

text \<open>The engine of a cached run: its fence goes on to the source of the copy, which it only reads.\<close>

abbreviation cached_engine ::
  "'p worker_env \<Rightarrow> job \<Rightarrow> 'p provider list \<Rightarrow> rule \<Rightarrow> int \<Rightarrow> instant \<Rightarrow> instant \<Rightarrow> int \<Rightarrow> ('p worker, mapping_table) engine" where
  "cached_engine E job ps rule revision start stop maxAge \<equiv> (job_engine E job ps)\<lparr>en_fence := Some (check_provider_dispatch
     (job_engine E job ps) (store_copy_ops wk_db (we_unicode E) (we_zones E) (we_codec E)) rule revision start stop maxAge)\<rparr>"

lemma parent_fence_keeps:
  "preserves (held E) (check_provider_dispatch (job_engine E job ps) (store_copy_ops wk_db U zdb K) rule revision start stop maxAge)"
  "preserves (held_mark E) (check_provider_dispatch (job_engine E job ps) (store_copy_ops wk_db U zdb K) rule revision start stop maxAge)"
  unfolding check_provider_dispatch_def
  by (rule preserves_and_then, rule job_run_frame.fence_keeps, simp add: store_copy_ops_def preserves_def and_then_def
      split: sum.split)+

lemma cached_engine_keeps:
  "engine_keeps (held E) (cached_engine E job ps rule revision start stop maxAge)"
  "engine_keeps (held_mark E) (cached_engine E job ps rule revision start stop maxAge)"
  using job_engine_keeps [of E job ps] by (simp_all add: engine_keeps_def parent_fence_keeps)

interpretation copy_run_frame: engine_frame "cached_engine E job ps rule revision start stop maxAge" "held E" wk_dispatched
  by (rule engine_frame.intro) (rule cached_engine_keeps, rule cached_engine_keeps, simp add: held_def)

section \<open>Every call of a job\<close>

definition lease_checked :: "'p worker_env \<Rightarrow> job \<Rightarrow> 'p worker \<Rightarrow> bool" where
  "lease_checked E job s \<longleftrightarrow> check_sync_target_eligibility (jb_rule_id job) (wk_db s) = Inr () \<and>
     (\<exists>c t db n. check_job_dispatch_lease c t job db = Inr () \<and> wk_db s = we_other E n db)"

lemma job_fence_passed: "job_fence E job s = (Inr (), s') \<Longrightarrow> lease_checked E job s'"
  unfolding job_fence_def and_then_def job_ctx_def query_run lease_checked_def
  by (fastforce split: prod.splits sum.splits option.splits)

lemma guard_passed:
  assumes "guard_check e g s = (Inr (), s')"
  shows "\<exists>s. check_dispatch_fence e s = (Inr (), s')"
  using assms unfolding guard_check_def by (auto simp: and_then_def split: prod.splits sum.splits)

lemma engine_fence_passed: "check_dispatch_fence (job_engine E job ps) s = (Inr (), s') \<Longrightarrow> lease_checked E job s'"
  by (auto simp: check_dispatch_fence_def split: option.splits dest: job_fence_passed)

lemma copy_fence_passed:
  assumes "check_dispatch_fence (cached_engine E job ps rule revision start stop maxAge) s = (Inr (), s')"
  shows "lease_checked E job s'"
proof -
  have "check_provider_dispatch (job_engine E job ps) (store_copy_ops wk_db (we_unicode E) (we_zones E) (we_codec E)) rule
      revision start stop maxAge s = (Inr (), s')"
    using assms by (simp add: check_dispatch_fence_def split: option.splits)
  then have "\<exists>s. check_dispatch_fence (job_engine E job ps) s = (Inr (), s')"
    unfolding check_provider_dispatch_def
    by (auto simp: and_then_def store_copy_ops_def split: prod.splits sum.splits)
  then show ?thesis by (blast dest: engine_fence_passed)
qed

lemma run_calls_checked:
  assumes "en_store e = table_ops" and "wo_sent w = []" and "run_events e rule dry cached w = ((x, res), w')"
    and "call \<in> set (wo_sent w')" and "\<And>s s'. check_dispatch_fence e s = (Inr (), s') \<Longrightarrow> lease_checked E job s'"
  shows "\<not> dry \<and> lease_checked E job (st_ext call)"
proof -
  obtain p w1 where plan: "plan_run e rule dry cached w = (Inr p, w1)" "\<not> dry" and just: "justified set (pl_env p) (pl_events p) call"
    using run_calls_justified_aux [OF assms(1,2,3,4)] by blast
  obtain s where "guard_check e (re_target (pl_env p)) s = (Inr (), st_ext call)"
    using just plan_run_env(1) [OF plan(1)] unfolding justified_def by auto
  from guard_passed [OF this] obtain s' where "check_dispatch_fence e s' = (Inr (), st_ext call)" by blast
  from assms(5) [OF this] plan(2) show ?thesis by simp
qed

lemma engine_calls_checked:
  assumes "run_events (job_engine E job ps) rule dry cached w = ((x, res), w')" and "wo_sent w = []" and "call \<in> set (wo_sent w')"
  shows "\<not> dry \<and> lease_checked E job (st_ext call)"
  by (rule run_calls_checked [OF _ assms(2,1,3)]) (simp, erule engine_fence_passed)

lemma copy_calls_checked:
  assumes "run_events (cached_engine E job ps rule revision start stop maxAge) rule' dry cached w = ((x, res), w')"
    and "wo_sent w = []" and "call \<in> set (wo_sent w')"
  shows "\<not> dry \<and> lease_checked E job (st_ext call)"
  by (rule run_calls_checked [OF _ assms(2,1,3)]) (simp, erule copy_fence_passed)

lemma direct_run:
  assumes "run_direct_job E job rule dry w = ((x, res), w')" and "wo_sent w = []"
  shows "call \<in> set (wo_sent w') \<Longrightarrow> \<not> dry \<and> lease_checked E job (st_ext call)"
    and "framed (held E) wk_dispatched w \<Longrightarrow> framed (held E) wk_dispatched w'"
proof -
  obtain r w1 where build: "ext_op (remote (we_build E)) w = (r, w1)" by fastforce
  have sent: "wo_sent w1 = []" using build assms(2) by (auto simp: ext_op_def split: prod.splits)
  have start: "framed (held E) wk_dispatched w1" if "framed (held E) wk_dispatched w"
  proof -
    have "preserves (framed (held E) wk_dispatched) (ext_op (remote (we_build E)))"
      by (rule job_run_frame.ext_framed) (rule remote_keeps)+
    from preservesD [OF this that] show ?thesis using build by simp
  qed
  have run: "w' = w1 \<or> (\<exists>ps. run_events (job_engine E job ps) rule dry None w1 = ((x, res), w'))"
    using assms(1) build by (auto simp: run_direct_job_def run_rule_def split: sum.splits if_splits)
  show "\<not> dry \<and> lease_checked E job (st_ext call)" if "call \<in> set (wo_sent w')"
    using run
  proof (elim disjE exE)
    show ?thesis if "w' = w1" using that sent \<open>call \<in> set (wo_sent w')\<close> by simp
    show ?thesis if "run_events (job_engine E job ps) rule dry None w1 = ((x, res), w')" for ps
      using engine_calls_checked [OF that sent \<open>call \<in> set (wo_sent w')\<close>] .
  qed
  show "framed (held E) wk_dispatched w'" if "framed (held E) wk_dispatched w"
    using run start [OF that] job_run_frame.run_framed by blast
qed

lemma copy_run:
  assumes "run_cached_job E job rule w = ((x, res), w')" and "wo_sent w = []"
  shows "call \<in> set (wo_sent w') \<Longrightarrow> lease_checked E job (st_ext call)"
    and "framed (held E) wk_dispatched w \<Longrightarrow> framed (held E) wk_dispatched w'"
proof -
  define prepare where "prepare = and_then (\<lambda>s. job_ctx E (job_query E (get_source_projection_for_copy (we_unicode E) (we_zones E) (we_codec E)
      (ru_source_calendar_id rule) (add_days (job_clock E s) (- ru_lookback_days rule))
      (add_days (job_clock E s) (ru_lookahead_days rule)) (job_clock E s) copyMaxAge)) s) (\<lambda>_. remote (we_build E))"
  obtain r w1 where build: "ext_op prepare w = (r, w1)" by fastforce
  have sent: "wo_sent w1 = []" using build assms(2) by (auto simp: ext_op_def split: prod.splits)
  have "preserves (held E) prepare" "preserves (held_mark E) prepare"
    unfolding prepare_def by (rule preserves_and_then; rule query_at_keeps remote_keeps)+
  from preservesD [OF job_run_frame.ext_framed [OF this]] build
  have start: "framed (held E) wk_dispatched w1" if "framed (held E) wk_dispatched w" using that by (metis snd_conv)
  have cases: "w' = w1 \<or> (\<exists>ps revision start stop batch res'. run_cached_batch
      (cached_engine E job ps rule revision start stop copyMaxAge) rule batch False w1 = ((x, res'), w'))"
  proof (cases r)
    case (Inl y)
    then show ?thesis using assms(1) build by (simp add: run_cached_job_def Let_def prepare_def)
  next
    case (Inr ps)
    then have "run_cache_copy (job_engine E job ps) (store_copy_ops wk_db (we_unicode E) (we_zones E) (we_codec E)) rule
        (job_clock E (wo_ext w1)) copyMaxAge w1 = ((x, res), w')"
      using assms(1) build by (simp add: run_cached_job_def Let_def prepare_def)
    from run_cache_copy_cases [OF this] show ?thesis by (cases "w' = w1") blast+
  qed
  have run: "w' = w1 \<or> (\<exists>ps revision start stop events res'.
      run_events (cached_engine E job ps rule revision start stop copyMaxAge) rule False (Some events) w1 = ((x, res'), w'))"
    using cases by (fastforce simp: run_cached_batch_def split: sum.splits prod.splits)
  show "lease_checked E job (st_ext call)" if "call \<in> set (wo_sent w')"
    using run
  proof (elim disjE exE)
    show ?thesis if "w' = w1" using that sent \<open>call \<in> set (wo_sent w')\<close> by simp
    show ?thesis
      if "run_events (cached_engine E job ps rule revision start stop copyMaxAge) rule False (Some events) w1 = ((x, res'), w')"
      for ps revision start stop events res'
      using copy_calls_checked [OF that sent \<open>call \<in> set (wo_sent w')\<close>] by blast
  qed
  show "framed (held E) wk_dispatched w'" if "framed (held E) wk_dispatched w"
    using run
  proof (elim disjE exE)
    show ?thesis if "w' = w1" using that start [OF \<open>framed (held E) wk_dispatched w\<close>] by simp
    show ?thesis
      if "run_events (cached_engine E job ps rule revision start stop copyMaxAge) rule False (Some events) w1 = ((x, res'), w')"
      for ps revision start stop events res'
      using copy_run_frame.run_framed [OF that start [OF \<open>framed (held E) wk_dispatched w\<close>]] .
  qed
qed

lemma dispatch_run:
  assumes "dispatch_job E job rule reserved w = (o', w')" and "wo_sent w = []"
  shows "call \<in> set (wo_sent w') \<Longrightarrow> \<not> job_dry job \<and> lease_checked E job (st_ext call)"
    and "framed (held E) wk_dispatched w \<Longrightarrow> framed (held E) wk_dispatched w'"
    and "je_reserved o' = reserved"
proof -
  consider (direct) x res where "run_direct_job E job rule (job_dry job) w = ((x, res), w')"
    | (copy) x res where "\<not> job_dry job" "run_cached_job E job rule w = ((x, res), w')"
    | (preview) r where "ext_op (preview_job E rule) w = (r, w')"
    using assms(1) unfolding dispatch_job_def by (auto split: if_splits prod.splits sum.splits)
  note branch = this
  have quiet: "wo_sent w' = []" if "ext_op (preview_job E rule) w = (r, w')" for r
    using that assms(2) by (auto simp: ext_op_def split: prod.splits)
  have "preserves (held E) (preview_job E rule)" "preserves (held_mark E) (preview_job E rule)"
    unfolding preview_job_def by (intro preserves_intros; rule query_at_keeps ctx_keeps query_keeps)+
  note look = preservesD [OF job_run_frame.ext_framed [OF this]]
  show "\<not> job_dry job \<and> lease_checked E job (st_ext call)" if "call \<in> set (wo_sent w')"
    using branch by cases (use direct_run(1) copy_run(1) quiet assms(2) that in fastforce)+
  show "framed (held E) wk_dispatched w'" if "framed (held E) wk_dispatched w"
    using branch
  proof cases
    case direct
    then show ?thesis using direct_run(2) assms(2) that by blast
  next
    case copy
    then show ?thesis using copy_run(2) assms(2) that by blast
  next
    case preview
    then show ?thesis using look [OF that] by simp
  qed
  show "je_reserved o' = reserved"
    using assms(1) unfolding dispatch_job_def by (auto split: if_splits prod.splits sum.splits)
qed

section \<open>The reservation of a job\<close>

lemma begin_reserves:
  assumes "begin_exclusive_dispatch req db = Inr (u, db')" and "xr_target_key req = GlobalSyncDispatchKey"
  shows "reserved_in (xr_operation_id req) db'"
  by (rule begin_exclusive_effect [OF assms(1)]) (simp add: reserved_in_def active_reservation_def assms(2))

lemma finish_keeps_reservations:
  assumes "finish_run cipher i job outcome finished counters a b db = Inr (u, db')"
  shows "db_reservations db' = db_reservations db"
proof -
  from assms obtain enc where "encrypt_preview cipher i job outcome (rn_preview counters) = Inr enc"
    unfolding finish_run_def by (auto simp: bind_res_Inr_iff)
  note enc = this
  from assms show ?thesis
  proof (cases rule: finish_run_effect)
    case (1 claimed deadline stored outcome' counters')
    then show ?thesis using assms by (auto simp: finish_run_def enc Let_def split: if_splits)
  qed
qed

lemma store_held:
  assumes "\<And>db y db'. t db = Inr (y, db') \<Longrightarrow> db_reservations db' = db_reservations db" and "held E s"
  shows "held E (snd (job_store E t s))"
  using assms(2) held_other [OF assms(2)] assms(1)
  by (auto simp: job_store_def Let_def held_def reserved_in_def split: sum.splits prod.splits)

lemma ext_sent: "ext_op m w = (r, w') \<Longrightarrow> wo_sent w' = wo_sent w"
  by (auto simp: ext_op_def split: prod.splits)

lemma attempt_run:
  assumes "attempt_job E job rule w = (o', w')" and "wo_sent w = []" and "wo_sent w' \<noteq> []"
  shows "\<forall>call \<in> set (wo_sent w'). \<not> job_dry job \<and> lease_checked E job (st_ext call) \<and> held E (st_ext call)"
    and "je_reserved o' \<and> held E (wo_ext w') \<and> wk_dispatched (wo_ext w')"
proof -
  define prepare where "prepare = (\<lambda>s. job_ctx E (job_store E (begin_exclusive_dispatch (reservation_request E rule (job_clock E s)))) s)"
  obtain call where "call \<in> set (wo_sent w')" using assms(3) by (cases "wo_sent w'") auto
  then have "\<not> job_dry job" using dispatch_run(1) [of E job rule False w o' w' call] assms(1,2) by (auto simp: attempt_job_def)
  obtain r1 w1 where first: "ext_op prepare w = (r1, w1)" by fastforce
  obtain r2 w2 where second: "ext_op (job_ctx E (job_query E (check_sync_target_eligibility (ru_id rule)))) w1 = (r2, w2)" by fastforce
  note quiet = ext_sent [OF first] ext_sent [OF second]
  have attempt: "attempt_job E job rule w = (case r1 of Inl x \<Rightarrow> (failed_end rule False x, w1) | Inr _ \<Rightarrow>
      (case r2 of Inl x \<Rightarrow> (failed_end rule True x, w2) | Inr _ \<Rightarrow> dispatch_job E job rule True w2))"
    using \<open>\<not> job_dry job\<close> first second by (simp add: attempt_job_def prepare_def split: sum.split)
  then obtain u v where u: "r1 = Inr u" and v: "r2 = Inr v"
    using assms quiet by (cases r1; cases r2) simp_all
  then have begun: "ext_op prepare w = (Inr u, w1)"
    and checked: "ext_op (job_ctx E (job_query E (check_sync_target_eligibility (ru_id rule)))) w1 = (Inr v, w2)"
    and run: "dispatch_job E job rule True w2 = (o', w')"
    using attempt first second assms(1) by simp_all
  have sent: "wo_sent w1 = []" "wo_sent w2 = []" using ext_sent [OF begun] ext_sent [OF checked] assms(2) by simp_all
  have "held E (wo_ext w1)"
  proof -
    obtain db db' where "begin_exclusive_dispatch (reservation_request E rule (job_clock E (wo_ext w))) db = Inr (u, db')"
      and "wk_db (wo_ext w1) = db'"
      using begun by (auto simp: prepare_def ext_op_def job_ctx_def job_store_def Let_def split: prod.splits sum.splits option.splits)
    with begin_reserves show ?thesis by (fastforce simp: held_def reservation_request_def)
  qed
  then have "framed (held E) wk_dispatched w1" using sent by (simp add: framed_def)
  note ready = this
  have "preserves (framed (held E) wk_dispatched)
      (ext_op (job_ctx E (job_query E (check_sync_target_eligibility (ru_id rule)))))"
    by (rule job_run_frame.ext_framed) (rule ctx_keeps, rule query_keeps)+
  from preservesD [OF this ready] have "framed (held E) wk_dispatched w2" unfolding checked snd_conv .
  then have framed: "framed (held E) wk_dispatched w'" by (rule dispatch_run(2) [OF run sent(2)])
  then show "\<forall>call \<in> set (wo_sent w'). \<not> job_dry job \<and> lease_checked E job (st_ext call) \<and> held E (st_ext call)"
    using dispatch_run(1) [OF run sent(2)] by (simp add: framed_def)
  show "je_reserved o' \<and> held E (wo_ext w') \<and> wk_dispatched (wo_ext w')"
    using framed dispatch_run(3) [OF run sent(2)] assms(3) by (simp add: framed_def)
qed

lemma settle_sends_nothing: "settle_job E job o' w = (r, w') \<Longrightarrow> wo_sent w' = wo_sent w"
  by (auto simp: settle_job_def release_job_def finish_job_def ext_op_def Let_def
      split: prod.splits sum.splits option.splits if_splits)

lemma execute_run:
  assumes "execute_job E job now w = (r, w')" and "wo_sent w = []" and "wo_sent w' \<noteq> []"
  obtains rule o' w1 w2 where "attempt_job E job rule w1 = (o', w2)" "settle_job E job o' w2 = (r, w')"
    "wo_sent w1 = []" "wo_sent w2 = wo_sent w'"
proof -
  obtain rl wa where a: "ext_op (job_query E (rule_by_id (jb_rule_id job))) (w\<lparr>wo_ext := (wo_ext w)\<lparr>wk_dispatched := False\<rparr>\<rparr>) = (Inr rl, wa)"
    using assms ext_sent by (fastforce simp: execute_job_def split: prod.splits sum.splits)
  obtain wb where b: "ext_op (job_store E (start_run (job_run E job rl now))) wa = (Inr (), wb)"
    using assms ext_sent [OF a] ext_sent by (fastforce simp: execute_job_def a split: prod.splits sum.splits)
  obtain o' w2 where c: "attempt_job E job rl wb = (o', w2)" by fastforce
  have d: "settle_job E job o' w2 = (r, w')" using assms(1) by (simp add: execute_job_def a b c)
  show ?thesis
    by (rule that [OF c d]) (use ext_sent [OF a] ext_sent [OF b] assms(2) settle_sends_nothing [OF d] in simp_all)
qed

lemma failed_settle_held:
  assumes "settle_job E job o' w = (r, w')" and "je_err (heartbeat_end E o') \<noteq> None" and "wk_dispatched (wo_ext w)"
    and "held E (wo_ext w)"
  shows "held E (wo_ext w')"
proof -
  obtain x where x: "je_err (heartbeat_end E o') = Some x" using assms(2) by blast
  have "release_job E (heartbeat_end E o') w = (heartbeat_end E o', w)" using assms(3) x by (simp add: release_job_def)
  then have "finish_job E job (heartbeat_end E o') w = (r, w')" using assms(1) by (simp add: settle_job_def)
  then obtain finished counters where "wo_ext w' = snd (job_store E (finish_run (we_cipher E) (we_run_id E) job ''failed''
      finished counters (we_at_lock E) (we_before_commit E)) (wo_ext w))"
    using x by (auto simp: finish_job_def ext_op_def Let_def split: prod.splits sum.splits) (metis snd_conv)+
  then show ?thesis by (simp only:) (rule store_held [OF finish_keeps_reservations assms(4)])
qed

section \<open>What the worker promises\<close>

text \<open>
  C1. Every call that a job sends to the target provider is sent by a job that is no dry run, while
  the rule of the job is eligible to write to its target; the claim of the job had its lease at the
  last check, with nothing but one round of other workers' commits since; and the reservation of
  the target is the job's own, as long as nobody releases the reservations of others.
\<close>

theorem job_calls_fenced:
  assumes "wo_sent w = []" and "execute_job E job now w = (r, w')" and "call \<in> set (wo_sent w')"
  shows "jb_kind job \<noteq> ''dry_run'' \<and> check_sync_target_eligibility (jb_rule_id job) (wk_db (st_ext call)) = Inr () \<and>
    (\<exists>c t db n. check_job_dispatch_lease c t job db = Inr () \<and> wk_db (st_ext call) = we_other E n db) \<and>
    (others_keep E \<longrightarrow> reserved_in (we_operation_id E) (wk_db (st_ext call)))"
proof -
  have "wo_sent w' \<noteq> []" using assms(3) by auto
  from execute_run [OF assms(2,1) this] obtain rule o' w1 w2 where run: "attempt_job E job rule w1 = (o', w2)"
    and sent: "wo_sent w1 = []" "wo_sent w2 = wo_sent w'"
    by metis
  have "\<not> job_dry job \<and> lease_checked E job (st_ext call) \<and> held E (st_ext call)"
    using attempt_run(1) [OF run sent(1)] sent(2) assms(3) \<open>wo_sent w' \<noteq> []\<close> by simp
  then show ?thesis by (simp add: job_dry_def lease_checked_def held_def)
qed

text \<open>
  C2. A job that has sent anything ends in one of two ways: its run went through without any error,
  the heartbeat included, or the reservation of the target stays active after the job and every
  further dispatch is refused, whatever its operation, calendars or time.
\<close>

theorem failed_job_stays_reserved:
  assumes "wo_sent w = []" and "execute_job E job now w = (r, w')" and "wo_sent w' \<noteq> []" and "others_keep E"
  shows "\<exists>rule o' w1 w2. attempt_job E job rule w1 = (o', w2) \<and> settle_job E job o' w2 = (r, w') \<and> je_reserved o' \<and>
    (je_err (heartbeat_end E o') = None \<or>
     reserved_in (we_operation_id E) (wk_db (wo_ext w')) \<and>
     (\<forall>req. xr_target_key req = GlobalSyncDispatchKey \<longrightarrow>
        begin_exclusive_dispatch req (wk_db (wo_ext w')) = Inl (Sentinel ErrExclusiveDispatchConflict)))"
proof -
  from execute_run [OF assms(2,1,3)] obtain rule o' w1 w2 where run: "attempt_job E job rule w1 = (o', w2)"
    "settle_job E job o' w2 = (r, w')" and sent: "wo_sent w1 = []" "wo_sent w2 = wo_sent w'"
    by metis
  have mid: "je_reserved o' \<and> held E (wo_ext w2) \<and> wk_dispatched (wo_ext w2)"
    using attempt_run(2) [OF run(1) sent(1)] sent(2) assms(3) by simp
  have "reserved_in (we_operation_id E) (wk_db (wo_ext w'))" if "je_err (heartbeat_end E o') \<noteq> None"
    using failed_settle_held [OF run(2) that] mid assms(4) by (simp add: held_def)
  then have "je_err (heartbeat_end E o') = None \<or> reserved_in (we_operation_id E) (wk_db (wo_ext w')) \<and>
     (\<forall>req. xr_target_key req = GlobalSyncDispatchKey \<longrightarrow>
        begin_exclusive_dispatch req (wk_db (wo_ext w')) = Inl (Sentinel ErrExclusiveDispatchConflict))"
    using reserved_refuses by (cases "je_err (heartbeat_end E o')") simp_all
  with run mid show ?thesis by (intro exI conjI) simp_all
qed

section \<open>A job whose first write has no known outcome\<close>

text \<open>The source has one event; the provider answers the create with neither an event nor an error.\<close>

definition silent_ops :: "nat event_ops" where
  "silent_ops = demo_ops\<lparr>eo_list := (\<lambda>_. ret \<lparr>page_items = [demo_event], page_next_token = '''', page_complete = True\<rparr>),
     eo_create := (\<lambda>_. ret None)\<rparr>"

definition lost_env :: "nat worker_env" where
  "lost_env = \<lparr>we_other = (\<lambda>_ db. db), we_ctx = (\<lambda>_. None), we_now = (\<lambda>_. 1000),
     we_build = ret [sample_provider ''google'' ''a'' [], sample_provider ''google'' ''b'' []],
     we_iface = (\<lambda>_. \<lparr>if_v2 = Some silent_ops, if_no_attendees = Some True, if_recurring = None, if_validate = None,
       if_instances = None, if_lookup = Some (\<lambda>_ _ _. ret None)\<rparr>),
     we_heartbeat = None, we_run_id = ''n'', we_operation_id = ''operation-000001'', we_uuid = (\<lambda>n. replicate n (CHR ''u'')),
     we_unicode = \<lparr>rune_upper = id, rune_lower = id\<rparr>, we_zones = (\<lambda>_. None), we_codec = plain_codec, we_cipher = None,
     we_errors = \<lparr>xv_google_status = (\<lambda>_. None), xv_oauth = (\<lambda>_. None), xv_interrupted = (\<lambda>_. False)\<rparr>,
     we_at_lock = 1, we_before_commit = 2, we_fuel = 3\<rparr>"

definition lost_job :: job where
  "lost_job = \<lparr>jb_id = ''j'', jb_rule_id = ''r'', jb_kind = ''scheduled'', jb_state = ''running'', jb_claimed_by = ''w'',
     jb_available_at = 0, jb_created_at = 0, jb_claimed_at = Some 1, jb_finished_at = None, jb_attempt = 1\<rparr>"

definition lost_rule :: rule where
  "lost_rule = demo_rule\<lparr>ru_state := ''enabled''\<rparr>"

definition lost_db :: sync_db where
  "lost_db = empty_db\<lparr>db_connections := [\<lparr>cn_id = ''k'', cn_provider = ''google'', cn_account_fingerprint = '''',
       cn_display_name = '''', cn_status = ''connected''\<rparr>],
     db_calendars := [ready_calendar ''google:a:home'' ''x'', ready_calendar ''google:b:home'' ''y''],
     db_rules := [rule.extend lost_rule \<lparr>ru_config_version = 1\<rparr>],
     db_jobs := [\<lparr>jr_id = ''j'', jr_rule_id = ''r'', jr_kind = ''scheduled'', jr_state = ''running'', jr_claimed_by = Some ''w'',
       jr_available_at = 0, jr_created_at = 0, jr_claimed_at = Some 1, jr_finished_at = None, jr_lease_until = Some 5000,
       jr_attempt = 1, jr_stop_requested = False\<rparr>]\<rparr>"

lemma lost_env_simps [simp]: "we_other lost_env n db = db" "we_ctx lost_env n = None" "we_now lost_env n = 1000"
  "we_heartbeat lost_env = None" "we_operation_id lost_env = ''operation-000001''" "we_run_id lost_env = ''n''"
  "we_build lost_env = ret [sample_provider ''google'' ''a'' [], sample_provider ''google'' ''b'' []]"
  by (simp_all add: lost_env_def)

text \<open>What the fence and the selection read is the same in every state of the run.\<close>

definition lost_state :: "sync_db \<Rightarrow> bool" where
  "lost_state db \<longleftrightarrow> check_job_dispatch_lease None 1000 lost_job db = Inr () \<and>
     check_sync_target_eligibility ''r'' db = Inr () \<and> store_calendar_enabled ''google:a:home'' db \<and>
     store_calendar_enabled ''google:b:home'' db"

abbreviation lost_worker :: "sync_db \<Rightarrow> nat \<Rightarrow> nat \<Rightarrow> bool \<Rightarrow> nat worker" where
  "lost_worker db r n d \<equiv> \<lparr>wk_db = db, wk_remote = r, wk_step = n, wk_dispatched = d\<rparr>"

abbreviation lost_engine :: "(nat worker, mapping_table) engine" where
  "lost_engine \<equiv> job_engine lost_env lost_job [sample_provider ''google'' ''a'' [], sample_provider ''google'' ''b'' []]"

lemma lost_fence: "lost_state db \<Longrightarrow> job_fence lost_env lost_job (lost_worker db r n d) = (Inr (), lost_worker db r (n + 2) d)"
  by (simp add: job_fence_def and_then_def job_ctx_def query_run lost_state_def step_on_def lost_job_def)

lemma remote_sample [simp]: "pr_name (remote_provider p) = pr_name p" "provider_route_name (remote_provider p) = provider_route_name p"
    "pr_owns (remote_provider p) = pr_owns p"
  by (simp_all add: remote_provider_def provider_route_name_def split: option.split)

lemma lost_resolve:
  assumes "lost_state db"
  shows "resolve_enabled (en_registry lost_engine) ''google:a:home'' (lost_worker db r n d) =
      (Inr (remote_provider (sample_provider ''google'' ''a'' []), ''home''), lost_worker db r (n + 1) d)"
    "resolve_enabled (en_registry lost_engine) ''google:b:home'' (lost_worker db r n d) =
      (Inr (remote_provider (sample_provider ''google'' ''b'' []), ''home''), lost_worker db r (n + 1) d)"
  using assms by (simp_all add: lost_state_def resolve_enabled_def resolve_def split_prefix_def job_engine_def new_registry_def
      by_name_def calendar_enabled_def job_selection_def job_ctx_def query_run step_on_def canonical_calendar_id_def
      account_calendar_id_def prog_defs)

lemma lost_engine_simps [simp]: "en_now lost_engine s = 1000" "en_ctx_err lost_engine s = None"
    "if_v2 (remote_interfaces (we_iface lost_env p)) = Some (remote_ops silent_ops)"
    "if_no_attendees (remote_interfaces (we_iface lost_env p)) = Some True"
    "if_recurring (remote_interfaces (we_iface lost_env p)) = None"
    "if_lookup (remote_interfaces (we_iface lost_env p)) = Some (\<lambda>a b c. remote (ret None))"
    "en_fuel lost_engine = 3"
  by (simp_all add: job_engine_def job_clock_def remote_interfaces_def lost_env_def)

lemma lost_plan: "plan_events lost_engine t [] [demo_event] = Inr ([demo_event], [], 0)"
  by (simp add: plan_events_def Let_def by_row_key_def detached_series_def filter_events_def filter_event_def
     has_pending_mutation_def check_detached_def preflight_safe_recurrence_def preflight_mapping_def event_unsafe_def
     check_recurrence_writes_def series_titles_def active_detached_def available_series_def List.map_filter_def
     OrphanOccurrence_def)

lemma lost_rule_simps [simp]: "ru_id lost_rule = ''r''" "ru_source_calendar_id lost_rule = ''google:a:home''"
  "ru_target_calendar_id lost_rule = ''google:b:home''" "ru_sync_mode lost_rule = ''direct''" "validate_rule lost_rule = Inr ()"
  by (simp_all add: lost_rule_def demo_rule_def sample_rule_def validate_rule_def)

lemma lost_run:
  assumes "lost_state db"
  shows "\<exists>x res w'. run_rule lost_engine lost_rule False \<lparr>wo_table = [], wo_ext = lost_worker db r n False, wo_drawn = 0, wo_sent = []\<rparr> =
      ((Some x, res), w') \<and> wo_sent w' \<noteq> []"
  by (simp add: run_rule_def run_defs create_defs lost_resolve [OF assms] lost_plan lost_fence [OF assms] remote_def
      step_on_def remote_ops_def silent_ops_def numeral_3_eq_3
      zero_time_def new_incarnation_def max_int64_def run_hash_def row_key_def mapping_key_def)

lemma lost_state_of:
  assumes "db_connections db = db_connections lost_db" "db_calendars db = db_calendars lost_db" "db_rules db = db_rules lost_db"
    "db_jobs db = db_jobs lost_db" "db_mappings db = []" "db_cache_rules db = []"
  shows "lost_state db"
proof -
  have rule: "find_rule ''r'' db = Some (rule.extend lost_rule \<lparr>ru_config_version = 1\<rparr>)"
    by (simp add: find_rule_def assms(3) lost_db_def rule.defs)
  have "check_job_dispatch_lease None 1000 lost_job db = Inr ()"
    by (simp add: check_job_dispatch_lease_def lost_job_def assms(4) rule) (simp add: lost_db_def rule rule.defs lost_rule_def)
  moreover have "source_connection ''google:a:home'' db = Some (ready_calendar ''google:a:home'' ''x'', hd (db_connections lost_db))"
      "source_connection ''google:b:home'' db = Some (ready_calendar ''google:b:home'' ''y'', hd (db_connections lost_db))"
    by (simp_all add: source_connection_def assms lost_db_def ready_calendar_def)
  then have "check_sync_target_eligibility ''r'' db = Inr ()"
    by (simp add: check_sync_target_eligibility_def rule rule_view_of_def other_views_def assms(3) rule.defs Let_def)
      (simp add: lost_db_def rule.defs map_filter_simps)
  moreover have "store_calendar_enabled ''google:a:home'' db" "store_calendar_enabled ''google:b:home'' db"
    by (simp_all add: store_calendar_enabled_def find_calendar_def assms(2) lost_db_def ready_calendar_def)
  ultimately show ?thesis by (simp add: lost_state_def)
qed

abbreviation started_db :: sync_db where
  "started_db \<equiv> lost_db\<lparr>db_runs := [job_run lost_env lost_job lost_rule 7]\<rparr>"

lemma lost_begin:
  "\<exists>db. begin_exclusive_dispatch (reservation_request lost_env lost_rule 1000) started_db = Inr ((), db) \<and> lost_state db"
proof -
  obtain db where begun: "begin_exclusive_dispatch (reservation_request lost_env lost_rule 1000) started_db = Inr ((), db)"
    by (simp add: begin_exclusive_dispatch_def lost_db_def empty_db_def reservation_request_def ready_calendar_def
        normalize_mutation_calendars_def maxProjectionMutationCalendars_def sample_id_valid target_digest_sha256
        valid_exclusive_target_key_def GlobalSyncDispatchKey_def zero_time_def insert_exclusive_reservation_def
        lock_mutation_calendars_def fence_calendar_def guard_and_intend_def init_guard_def
        advance_projection_mutation_guard_def maxPendingProjectionMutations_def insert_intent_def insert_member_def
        insert_guard_member_def operation_mutation_id_def)
  moreover have "lost_state db"
    by (rule begin_exclusive_effect [OF begun], rule lost_state_of) (simp_all add: lost_db_def empty_db_def)
  ultimately show ?thesis by blast
qed

abbreviation lost_world :: "nat job_world" where
  "lost_world \<equiv> \<lparr>wo_table = [], wo_ext = lost_worker lost_db 0 0 False, wo_drawn = 0, wo_sent = []\<rparr>"

lemma lost_executes:
  "\<exists>r w'. execute_job lost_env lost_job 7 lost_world = (r, w') \<and> wo_sent w' \<noteq> []"
proof -
  obtain db where begun: "begin_exclusive_dispatch (reservation_request lost_env lost_rule 1000) started_db = Inr ((), db)"
      and state: "lost_state db"
    using lost_begin by blast
  have rule: "rule_by_id ''r'' lost_db = Inr lost_rule"
    by (simp add: rule_by_id_def find_rule_def lost_db_def rule.defs lost_rule_def demo_rule_def sample_rule_def)
  have start: "start_run (job_run lost_env lost_job lost_rule 7) lost_db = Inr ((), started_db)"
    by (simp add: start_run_def lost_db_def empty_db_def job_run_def lost_job_def find_rule_def rule.defs)
  obtain x res w2 where run: "run_rule lost_engine lost_rule False \<lparr>wo_table = [], wo_ext = lost_worker db 0 5 False, wo_drawn = 0, wo_sent = []\<rparr> =
      ((Some x, res), w2)" and sent: "wo_sent w2 \<noteq> []"
    using lost_run [OF state] by blast
  have dry: "\<not> job_dry lost_job" "jb_rule_id lost_job = ''r''" by (simp_all add: job_dry_def lost_job_def)
  have "\<exists>o'. attempt_job lost_env lost_job lost_rule \<lparr>wo_table = [], wo_ext = lost_worker started_db 0 2 False, wo_drawn = 0, wo_sent = []\<rparr> = (o', w2)"
    using begun state run
    by (simp add: attempt_job_def dry dispatch_job_def run_direct_job_def ext_op_def job_ctx_def job_store_def query_run
        step_on_def remote_def job_clock_def lost_state_def ret_def)
  then obtain o' where attempt: "attempt_job lost_env lost_job lost_rule
      \<lparr>wo_table = [], wo_ext = lost_worker started_db 0 2 False, wo_drawn = 0, wo_sent = []\<rparr> = (o', w2)" by blast
  obtain r w' where settled: "settle_job lost_env lost_job o' w2 = (r, w')" by fastforce
  have "execute_job lost_env lost_job 7 lost_world = (r, w')"
    by (simp add: execute_job_def dry ext_op_def query_run rule job_store_def start step_on_def numeral_2_eq_2 attempt [simplified numeral_2_eq_2] settled)
  then show ?thesis using settle_sends_nothing [OF settled] sent by auto
qed

lemma lost_others: "others_keep lost_env"
  by (simp add: others_keep_def)

theorem job_calls_fenced_witness:
  "case execute_job lost_env lost_job 7 lost_world of (r, w') \<Rightarrow> wo_sent w' \<noteq> [] \<and>
     (\<forall>call \<in> set (wo_sent w'). check_sync_target_eligibility (jb_rule_id lost_job) (wk_db (st_ext call)) = Inr () \<and>
        reserved_in ''operation-000001'' (wk_db (st_ext call)))"
proof -
  obtain r w' where run: "execute_job lost_env lost_job 7 lost_world = (r, w')" and sent: "wo_sent w' \<noteq> []"
    using lost_executes by blast
  have "check_sync_target_eligibility (jb_rule_id lost_job) (wk_db (st_ext call)) = Inr () \<and>
      reserved_in ''operation-000001'' (wk_db (st_ext call))" if "call \<in> set (wo_sent w')" for call
    using job_calls_fenced [OF _ run that] lost_others by simp
  then show ?thesis using run sent by simp
qed

theorem failed_job_stays_reserved_witness:
  "case execute_job lost_env lost_job 7 lost_world of (r, w') \<Rightarrow> wo_sent w' \<noteq> [] \<and>
     (\<exists>rule o' w1 w2. attempt_job lost_env lost_job rule w1 = (o', w2) \<and> settle_job lost_env lost_job o' w2 = (r, w') \<and> je_reserved o' \<and>
      (je_err (heartbeat_end lost_env o') = None \<or>
       reserved_in ''operation-000001'' (wk_db (wo_ext w')) \<and>
       (\<forall>req. xr_target_key req = GlobalSyncDispatchKey \<longrightarrow>
          begin_exclusive_dispatch req (wk_db (wo_ext w')) = Inl (Sentinel ErrExclusiveDispatchConflict))))"
proof -
  obtain r w' where run: "execute_job lost_env lost_job 7 lost_world = (r, w')" and sent: "wo_sent w' \<noteq> []"
    using lost_executes by blast
  show ?thesis using failed_job_stays_reserved [OF _ run sent lost_others] run sent by simp
qed
end
