(* ===== verification/Spec2Isabelle.thy ===== *)
theory Spec2Isabelle
  imports Write_Dispatch Mapping_Store Registry Projection Dispatch_Store Sync_Rules Sync_Jobs
    Sync_Mirror Sync_Engine Sync_Safety Sync_Convergence
    Event_Cache Event_Pages Event_Repair Event_View Event_Lease
    Projection_Store Projection_Publish Projection_Safety Lease_Histories Projection_Payload Sample_Codec Projection_Served
    Event_Service_Runs Sync_Cache_Copy Worker
begin

text \<open>
  Calendar synchronization: a verification library for the Go program under \<open>src/\<close>, a service
  that connects calendar accounts (Google, Microsoft, Apple), keeps a read model of their events,
  and mirrors events from a source calendar to a target calendar under rules that a user creates.
  Paths below are relative to \<open>src/internal/\<close>.

  \<^bold>\<open>How the program works.\<close>  A worker process takes work from two queues of one database.  The first
  is the calendars whose read model is due: a claim of a calendar leases it, the event sync service
  asks the provider for pages and the store applies them.  For some calendars the pages are staged
  instead and published as a projection, an immutable revision that copy rules read.  The second
  queue is the jobs of the rules: a job is claimed, the worker reserves the target, and the sync
  engine brings the target into line, every write between a durable intent in the mapping table and
  its settlement, behind a fence that checks the claim and the rule.  A write whose outcome is
  unknown leaves the reservation behind, and with it everything else waits for an operator.

  \<^bold>\<open>The language and its library.\<close>
  \<open>Prelude\<close> holds Go's errors as a datatype with \<open>errors.Is\<close>, results as sums, stateful programs,
  and the lemma collections \<open>res_simps\<close> and \<open>preserves_intros\<close> that carry an invariant through a program.
  \<open>Go_Strings\<close>, \<open>Go_Encoding\<close> and \<open>Go_Time\<close> model what the source uses of the standard library:
  strings as byte lists with UTF-8 decoding, hexadecimal, SHA-256 over 32-bit words, JSON strings,
  the civil calendar, parsing and formatting of times.

  \<^bold>\<open>The domain.\<close>
  \<open>Calendar_Types\<close> is \<open>calendar/\<close>: event times and their validation, events, patches, requests,
  capabilities, recurrence lines, sync pages.  \<open>Json_Image\<close> is what is left of an event or a page
  after \<open>json.Marshal\<close> and \<open>json.Unmarshal\<close>, by the struct tags and the rules of \<open>encoding/json\<close>.
  \<open>Write_Dispatch\<close> is \<open>calendar/write_dispatch.go\<close>: a write under a durable reservation; the locale
  \<open>write_ledger\<close> states what a ledger promises, and \<open>Dispatch_Store\<close> interprets it.
  \<open>Registry\<close> is \<open>calendar/registry.go\<close> and \<open>provider_catalog.go\<close>: names, resolution, selection, guarded
  writes, the availability catalog.
  \<open>Projection\<close> is \<open>calendarprojection/\<close>: the identity of an occurrence, the candidates of a
  snapshot, and the snapshot that the staged pages make.

  \<^bold>\<open>The store.\<close>
  \<open>Sync_Db\<close> declares the rows and tables and what a transaction is.
  \<open>Mapping_Store\<close> is the table of event mappings (\<open>storage/mapping_cas.go\<close>).
  \<open>Dispatch_Store\<close> is the ledger of mutations and exclusive reservations
  (\<open>storage/exclusive_dispatch_fence.go\<close>, \<open>experimental_exclusive_release.go\<close>,
  \<open>projection_mutations*.go\<close>, \<open>write_dispatch.go\<close>).
  \<open>Sync_Rules\<close> is rules, their route graph and the selection of calendars (\<open>storage/store.go\<close>,
  \<open>rule_config_version.go\<close>, \<open>sync_control.go\<close>).
  \<open>Claims\<close> states, as the locale \<open>claim_protocol\<close>, that a claim once lost never acts again;
  \<open>Sync_Jobs\<close> (jobs, leases, runs, previews and OAuth attempts: \<open>storage/operations.go\<close>,
  \<open>job_dispatch_fence.go\<close>, \<open>sync_control.go\<close>) and \<open>Lease_Histories\<close> interpret it.
  \<open>Sync_Eligibility\<close> is \<open>storage/cache_execution_eligibility.go\<close> and \<open>cache_rule_enable.go\<close>: which
  rules may write to their target, and the transition of a cached rule to its enabled state.

  \<^bold>\<open>The read model.\<close>
  \<open>Event_Cache\<close>, \<open>Event_Pages\<close> and \<open>Event_Repair\<close> are the transactions of \<open>storage/event_cache.go\<close>
  and \<open>source_sync_fence.go\<close>: claims, the pages with their upserts, deletions, object replacements and
  quarantine, the repairs, the queries.  \<open>Event_View\<close> refines them to the contents of a calendar, a
  map from event to value; the value is the image of the event under \<open>encoding/json\<close>.
  \<open>Event_Lease\<close> is the operations under a lease, and \<open>Lease_Histories\<close> the state machine of all
  modelled writers of the synchronization states and the cache: those of the cache, the staged and
  final pages of a projection, the deferral, the choice of calendars, the verification of a
  connection and the resets of resolved mutations.
  \<open>Projection_Store\<close>, \<open>Projection_Publish\<close> and \<open>Projection_Safety\<close> are \<open>storage/projection_*.go\<close> and
  \<open>source_projection_*.go\<close>: staging, the chain of pages, publication, retention, the readers.
  \<open>Projection_Payload\<close> states what the code relies on of \<open>encoding/json\<close> (\<open>encoding_json\<close>) and what a
  stored payload reads back as; \<open>Sample_Codec\<close> is a total codec that meets it; \<open>Projection_Served\<close>
  ties what a copy rule is served to the staged pages and the base revision.
  \<open>Event_Service\<close> is \<open>eventsync/service.go\<close>: a run of a claimed calendar, with
  \<open>Event_Service_Safety\<close> (bounds and authorizations), \<open>Event_Service_Ends\<close> (every run ends its claim)
  and \<open>Event_Service_Runs\<close> (concrete runs).

  \<^bold>\<open>The engine and the worker.\<close>
  \<open>Sync_Mirror\<close> is the pure part of \<open>syncengine/\<close>: kinds and keys of events, the mirror of an event,
  its hash, the order of a run, diagnostics.  \<open>Sync_Engine\<close> is the run itself (\<open>engine.go\<close>,
  \<open>mapping_mutation.go\<close>, \<open>dispatch_fence.go\<close>).  \<open>Sync_Safety\<close> holds what a run may send, over the locale
  \<open>mapping_store\<close>; \<open>Sync_Convergence\<close> what a run achieves, over \<open>keyed_mapping_store\<close>; \<open>Sync_Frame\<close> what a
  run may do to the outside, as the locale \<open>engine_frame\<close>, which \<open>Worker\<close> interprets for the engines of
  a job.  \<open>Sync_Cache_Copy\<close> is \<open>cache_copy_execution.go\<close> and \<open>cache_copy_preview.go\<close>: the run of a rule
  over a published projection, its fence over the locale \<open>copy_source\<close>, which the store provides.
  \<open>Worker\<close> is \<open>executeJob\<close> of \<open>runtime/worker.go\<close> with \<open>runtime/job_dispatch_fence.go\<close>.

  \<^bold>\<open>How the code is modelled.\<close>  A struct is a record whose fields carry the prefix of its table, a
  pointer an option, a Go map an association list, a string a list of bytes.  A transaction of the
  store is a function from the database to an error, which rolls back, or to a result and the database
  that it commits; the statements of one transaction see one state, as the write lock of SQLite or
  the row locks of PostgreSQL make them, and a lock that is only taken is the identity.  A handler
  that runs over a state and may fail is a \<open>prog\<close>.  Between two operations of a worker or of the event
  sync service on the store, other workers may commit anything (\<open>we_other\<close>, \<open>rv_other\<close>); in a cached
  run the two reads of the copy fence see one state.  The engine keeps the mapping table beside the
  outside state; the rows that the fence reads are those the other rules and earlier runs left, and
  it looks only for rows of another kind than the run inserts.  UUIDs, clock readings and
  \<open>ctx.Err()\<close> are arguments or come from an environment.  Of an error message the constant part is
  kept.  Failures of the database driver, commits whose outcome is ambiguous and failures of
  \<open>json.Marshal\<close> on an event of the cache are not modelled.

  \<^bold>\<open>Loops and fuel.\<close>  A loop whose end depends on a provider has fuel and ends in \<open>NoReturn\<close> when it
  runs out: the page loops of the engine (\<open>en_fuel\<close>).  The depth-first search of the eligibility
  check has one unit more than the graph has nodes, and \<open>cycle_from_total\<close> shows that it never
  runs out; that of the rule graph is bounded by its rules.  The loop over the pages of a
  synchronization (\<open>run_pages\<close>) terminates by a measure of the pages and restarts left, and
  \<open>run_within_policy\<close> bounds the requests of a run by its policy.

  \<^bold>\<open>Parameters\<close> (code that is not in the repository, or that turns bytes into large structs): the time
  zone database, the Unicode case tables, the RRULE parser, the artifact cipher, the JSON codec of the
  stored projection payloads, the classification of client library errors, and the providers, which act on a world of their own.

  \<^bold>\<open>What the lemmas show.\<close>  Jobs: every call of a job is sent while its rule is eligible, its lease was just
  checked and its target is reserved by it; a job that failed after sending something leaves the target reserved; a lost
  claim never acts.  The engine: a call mirrors an event or follows a reported cancellation and its attempt is
  recorded first; a successful run settles every live event, and repeating it
  for a batch of live events that belong to no series sends nothing.  Rules: the routes stay
  acyclic, enabling needs settled work, a cached rule needs its evidence.  The read model: a full synchronization replaces the
  contents, a page refines its effect on them, an overtaken claim writes nothing, a cursor advances only
  when nothing is in quarantine, every run ends its claim.  Projections: what was published is what is read, a
  revision never changes, a mutation retires it.  Dispatch: one reservation of a key at a time, an unknown outcome
  parks every later write until it is released.

  \<^bold>\<open>A deviation.\<close>  \<open>SetRuleStateAtVersion\<close> enables a rule over the cache without the evidence that
  \<open>EnableCachedRuleIfReady\<close> asks for (\<open>versioned_transition_ignores_mode\<close>).

  \<^bold>\<open>Not modelled.\<close>  The protocols of the providers (\<open>google/\<close>, \<open>microsoft/\<close>, \<open>apple/\<close>: HTTP, CalDAV, Graph and their
  field mappings), the services behind the request surfaces (\<open>application/\<close>), connections and the provider catalog's
  tables (with \<open>DeleteConnection\<close>, which removes calendars and all their rows), encryption and OAuth clients, request decoding and rendering of the web, REST and MCP surfaces, database migrations,
  and the goroutines of the worker: its heartbeat, the poll for a stop and the cycle that drains the queues.
\<close>

end
